(* ===== verification/Huadb_Prelude.thy ===== *)
theory Huadb_Prelude
  imports "HOL-Library.Word" "HOL-Library.AList"
begin

text \<open>
  Shared ground of the HuaDB development: the machine integer types of
  \<^verbatim>\<open>src/src/common/types.h\<close>, errors as values, a result combinator and a
  state-and-exception combinator for the C++ code that mutates objects and throws, byte
  memory (\<^verbatim>\<open>memcpy\<close> at an offset, little-endian integers), decimal printing, and the
  lemmas the components share.
\<close>

unbundle bit_operations_syntax

section \<open>Machine types\<close>

type_synonym byte = "8 word"
type_synonym lsn_t = "64 word"
type_synonym xid_t = "32 word"
type_synonym cid_t = "32 word"
type_synonym oid_t = "32 word"
type_synonym pageid_t = "32 word"
type_synonym slotid_t = "16 word"
type_synonym db_size_t = "16 word"
type_synonym enum_t = "8 word"

named_theorems mem_simps \<open>reads after writes, lengths and bounds of byte memory\<close>
named_theorems monad_simps \<open>the result and the state-and-exception combinators\<close>

section \<open>Errors as values\<close>

text \<open>
  \<open>DbException\<close> is the exception class of \<^verbatim>\<open>common/exceptions.h\<close>; \<open>RuntimeError\<close> and
  \<open>OutOfRange\<close> are the exceptions of the C++ library that the sources throw or provoke;
  \<open>AssertFail\<close> is a failing \<^verbatim>\<open>assert\<close>; \<open>Undefined\<close> marks an execution to which C++ gives
  no meaning (an access outside a buffer, a signed overflow, a division by zero); \<open>Diverges\<close> is
  the value of a loop of the model whose fuel runs out.
\<close>

datatype db_error =
    DbException string
  | RuntimeError string
  | OutOfRange
  | AssertFail string
  | Undefined string
  | Diverges

type_synonym 'a result = "db_error + 'a"

definition rbind :: "'a result \<Rightarrow> ('a \<Rightarrow> 'b result) \<Rightarrow> 'b result" where
  "rbind m f = (case m of Inl e \<Rightarrow> Inl e | Inr x \<Rightarrow> f x)"

definition rassert :: "bool \<Rightarrow> db_error \<Rightarrow> unit result" where
  "rassert b e = (if b then Inr () else Inl e)"

fun rmap :: "('a \<Rightarrow> 'b result) \<Rightarrow> 'a list \<Rightarrow> 'b list result" where
  "rmap f [] = Inr []"
| "rmap f (x # xs) = rbind (f x) (\<lambda>y. rbind (rmap f xs) (\<lambda>ys. Inr (y # ys)))"

fun rfold :: "('a \<Rightarrow> 's \<Rightarrow> 's result) \<Rightarrow> 'a list \<Rightarrow> 's \<Rightarrow> 's result" where
  "rfold f [] s = Inr s"
| "rfold f (x # xs) s = rbind (f x s) (rfold f xs)"

lemma rbind_simps [simp, monad_simps]:
  "rbind (Inr x) f = f x"
  "rbind (Inl e) f = Inl e"
  by (simp_all add: rbind_def)

lemma rbind_eq_Inr_iff [monad_simps]:
  "rbind m f = Inr y \<longleftrightarrow> (\<exists>x. m = Inr x \<and> f x = Inr y)"
  by (cases m) (auto simp: rbind_def)

lemma rbind_assoc: "rbind (rbind m f) g = rbind m (\<lambda>x. rbind (f x) g)"
  by (cases m) simp_all

lemma rbind_Inr_right [simp]: "rbind m Inr = m"
  by (cases m) simp_all

lemma rassert_simps [simp, monad_simps]:
  "rassert True e = Inr ()"
  "rassert False e = Inl e"
  "rassert b e = Inr u \<longleftrightarrow> b"
  by (simp_all add: rassert_def)

lemma rmap_Inr_iff:
  "rmap f xs = Inr ys \<longleftrightarrow> list_all2 (\<lambda>x y. f x = Inr y) xs ys"
  by (induction xs arbitrary: ys) (auto simp: rbind_eq_Inr_iff list_all2_Cons1)

lemma rmap_append:
  "rmap f (xs @ ys) = rbind (rmap f xs) (\<lambda>us. rbind (rmap f ys) (\<lambda>vs. Inr (us @ vs)))"
  by (induction xs) (simp_all add: rbind_assoc)

lemma rfold_append: "rfold f (xs @ ys) s = rbind (rfold f xs s) (rfold f ys)"
proof (induction xs arbitrary: s)
  case Nil
  show ?case by simp
next
  case (Cons x xs)
  show ?case by (cases "f x s") (simp_all add: Cons.IH)
qed

section \<open>State and exceptions\<close>

text \<open>
  A C++ member function that may throw runs on the object's state and leaves the state as it
  was when the exception left it: \<open>(Inl e, s')\<close>.
\<close>

type_synonym ('s, 'a) em = "'s \<Rightarrow> 'a result \<times> 's"

definition eret :: "'a \<Rightarrow> ('s, 'a) em" where
  "eret x s = (Inr x, s)"

definition ethrow :: "db_error \<Rightarrow> ('s, 'a) em" where
  "ethrow e s = (Inl e, s)"

definition ebind :: "('s, 'a) em \<Rightarrow> ('a \<Rightarrow> ('s, 'b) em) \<Rightarrow> ('s, 'b) em" where
  "ebind m f s = (case m s of (Inl e, t) \<Rightarrow> (Inl e, t) | (Inr x, t) \<Rightarrow> f x t)"

definition eget :: "('s \<Rightarrow> 'a) \<Rightarrow> ('s, 'a) em" where
  "eget g s = (Inr (g s), s)"

definition emodify :: "('s \<Rightarrow> 's) \<Rightarrow> ('s, unit) em" where
  "emodify f s = (Inr (), f s)"

definition elift :: "'a result \<Rightarrow> ('s, 'a) em" where
  "elift r s = (r, s)"

text \<open>An operation of a sub-object, run on the whole state.\<close>

definition ezoom :: "('s \<Rightarrow> 't) \<Rightarrow> ('t \<Rightarrow> 's \<Rightarrow> 's) \<Rightarrow> ('t, 'a) em \<Rightarrow> ('s, 'a) em" where
  "ezoom g p m s = (case m (g s) of (r, t) \<Rightarrow> (r, p t s))"

fun efor :: "('a \<Rightarrow> ('s, unit) em) \<Rightarrow> 'a list \<Rightarrow> ('s, unit) em" where
  "efor f [] = eret ()"
| "efor f (x # xs) = ebind (f x) (\<lambda>_. efor f xs)"

lemma em_apply [simp, monad_simps]:
  "eret x s = (Inr x, s)"
  "ethrow e s = (Inl e, s)"
  "eget g s = (Inr (g s), s)"
  "emodify f s = (Inr (), f s)"
  "elift r s = (r, s)"
  by (simp_all add: eret_def ethrow_def eget_def emodify_def elift_def)

lemma ebind_apply [monad_simps]:
  "m s = (Inr x, t) \<Longrightarrow> ebind m f s = f x t"
  "m s = (Inl e, t) \<Longrightarrow> ebind m f s = (Inl e, t)"
  by (simp_all add: ebind_def)

lemma ebind_eret [simp, monad_simps]:
  "ebind (eret x) f s = f x s"
  "ebind (ethrow e) f s = (Inl e, s)"
  "ebind (eget g) f s = f (g s) s"
  "ebind (emodify h) f s = f () (h s)"
  by (simp_all add: ebind_def)

lemma ebind_eq_Inr_iff [monad_simps]:
  "ebind m f s = (Inr y, u) \<longleftrightarrow> (\<exists>x t. m s = (Inr x, t) \<and> f x t = (Inr y, u))"
  by (auto simp: ebind_def split: prod.splits sum.splits)

lemma efor_append: "efor f (xs @ ys) s = ebind (efor f xs) (\<lambda>_. efor f ys) s"
proof (induction xs arbitrary: s)
  case (Cons x xs)
  show ?case by (cases "f x s", cases "fst (f x s)") (auto simp: ebind_def Cons.IH)
qed simp

lemma ezoom_apply [monad_simps]:
  "ezoom g p m s = (fst (m (g s)), p (snd (m (g s))) s)"
  by (simp add: ezoom_def split: prod.splits)

lemma ezoom_eq [monad_simps]: "m (g s) = (r, t) \<Longrightarrow> ezoom g p m s = (r, p t s)"
  by (simp add: ezoom_def)

section \<open>Machine words\<close>

lemma unat_less_exp: "unat (w :: 'a::len word) < 2 ^ LENGTH('a)"
  by (rule unsigned_less)

lemma unat_of_nat_small: "n < 2 ^ LENGTH('a) \<Longrightarrow> unat (of_nat n :: 'a::len word) = n"
  by (simp add: unat_of_nat)

lemma unat_add_small:
  "unat a + unat b < 2 ^ LENGTH('a) \<Longrightarrow> unat (a + b :: 'a::len word) = unat a + unat b"
  by (simp add: unat_word_ariths)

lemma unat_sub_small: "unat b \<le> unat a \<Longrightarrow> unat (a - b :: 'a::len word) = unat a - unat b"
  by (simp add: unat_sub word_le_nat_alt)

lemma unat_ucast_up:
  fixes w :: "'a::len word"
  assumes "LENGTH('a) \<le> LENGTH('b)"
  shows "unat (ucast w :: 'b::len word) = unat w"
proof -
  have "unat w < 2 ^ LENGTH('b)"
    using unat_less_exp [of w] power_increasing [OF assms, of "2::nat"] by linarith
  then show ?thesis
    by (simp add: unsigned_ucast_eq take_bit_nat_eq_self)
qed

section \<open>Byte memory\<close>

text \<open>
  A \<^verbatim>\<open>char *\<close> buffer is its list of bytes. \<open>slice\<close> and \<open>splice\<close> are the bytes read and the
  buffer after a write at an offset; \<open>mem_read\<close> and \<open>mem_write\<close> are \<^verbatim>\<open>memcpy\<close> out of and into
  the buffer, which C++ leaves undefined outside of it.
\<close>

definition slice :: "nat \<Rightarrow> nat \<Rightarrow> 'a list \<Rightarrow> 'a list" where
  "slice off n bs = take n (drop off bs)"

definition splice :: "nat \<Rightarrow> 'a list \<Rightarrow> 'a list \<Rightarrow> 'a list" where
  "splice off ds bs = take off bs @ ds @ drop (off + length ds) bs"

definition mem_read :: "nat \<Rightarrow> nat \<Rightarrow> byte list \<Rightarrow> byte list result" where
  "mem_read off n bs =
     (if off + n \<le> length bs then Inr (slice off n bs) else Inl (Undefined ''read outside the buffer''))"

definition mem_write :: "nat \<Rightarrow> byte list \<Rightarrow> byte list \<Rightarrow> byte list result" where
  "mem_write off ds bs =
     (if off + length ds \<le> length bs then Inr (splice off ds bs)
      else Inl (Undefined ''write outside the buffer''))"

lemma length_slice [simp, mem_simps]: "off + n \<le> length bs \<Longrightarrow> length (slice off n bs) = n"
  by (simp add: slice_def)

lemma length_splice [simp, mem_simps]:
  "off + length ds \<le> length bs \<Longrightarrow> length (splice off ds bs) = length bs"
  by (simp add: splice_def)

lemma slice_splice_same [simp, mem_simps]:
  "off + length ds \<le> length bs \<Longrightarrow> n = length ds \<Longrightarrow> slice off n (splice off ds bs) = ds"
  by (simp add: slice_def splice_def)

lemma slice_eq_nth:
  "off + n \<le> length bs \<Longrightarrow> slice off n bs = map (\<lambda>i. bs ! (off + i)) [0..<n]"
  by (rule nth_equalityI) (simp_all add: slice_def)

lemma nth_splice:
  "off + length ds \<le> length bs \<Longrightarrow> i < length bs \<Longrightarrow>
   splice off ds bs ! i = (if off \<le> i \<and> i < off + length ds then ds ! (i - off) else bs ! i)"
  by (auto simp: splice_def nth_append min_def)

lemma slice_splice_disjoint [mem_simps]:
  assumes "off + length ds \<le> length bs" and "o' + n \<le> length bs"
    and "o' + n \<le> off \<or> off + length ds \<le> o'"
  shows "slice o' n (splice off ds bs) = slice o' n bs"
  using assms by (auto simp: slice_eq_nth nth_splice)

lemma slice_splice_within [mem_simps]:
  assumes "off + length ds \<le> length bs" and "off \<le> o'" and "o' + n \<le> off + length ds"
  shows "slice o' n (splice off ds bs) = slice (o' - off) n ds"
  using assms by (auto simp: slice_eq_nth nth_splice intro!: nth_equalityI)

lemma slice_slice: "a + n \<le> m \<Longrightarrow> slice a n (slice b m bs) = slice (b + a) n bs"
  by (simp add: slice_def take_drop min_def add.commute add.left_commute)

lemma slice_0: "n = length bs \<Longrightarrow> slice 0 n bs = bs"
  by (simp add: slice_def)

lemma slice_append_left: "off + n \<le> length xs \<Longrightarrow> slice off n (xs @ ys) = slice off n xs"
  by (simp add: slice_def)

lemma slice_append_right: "length xs \<le> off \<Longrightarrow> slice off n (xs @ ys) = slice (off - length xs) n ys"
  by (simp add: slice_def)

lemma slice_Suc_split: "slice off (a + b) bs = slice off a bs @ slice (off + a) b bs"
  by (simp add: slice_def take_add add.commute)

lemma splice_same:
  assumes "off + length ds \<le> length bs" and "slice off (length ds) bs = ds"
  shows "splice off ds bs = bs"
proof -
  have "drop off bs = ds @ drop (length ds) (drop off bs)"
    using assms(2) by (metis append_take_drop_id slice_def)
  then show ?thesis
    by (simp add: splice_def add.commute) (metis append_take_drop_id)
qed

lemma splice_splice_same:
  "off + length ds \<le> length bs \<Longrightarrow> length es = length ds \<Longrightarrow>
   splice off es (splice off ds bs) = splice off es bs"
  by (rule nth_equalityI) (auto simp: nth_splice)

lemma splice_append:
  assumes "off + length a + length b \<le> length bs" "off' = off + length a"
  shows "splice off' b (splice off a bs) = splice off (a @ b) bs"
  using assms by (intro nth_equalityI) (auto simp: nth_splice nth_append)

lemma drop_splice_prefix:
  "off \<le> length bs \<Longrightarrow> drop off (splice off ds bs) = ds @ drop (off + length ds) bs"
  by (simp add: splice_def)

lemma splice_commute:
  assumes "o1 + length d1 \<le> length bs" and "o2 + length d2 \<le> length bs"
    and "o1 + length d1 \<le> o2 \<or> o2 + length d2 \<le> o1"
  shows "splice o1 d1 (splice o2 d2 bs) = splice o2 d2 (splice o1 d1 bs)"
  using assms by (intro nth_equalityI) (auto simp: nth_splice)

lemma mem_read_simps [simp, mem_simps]:
  "off + n \<le> length bs \<Longrightarrow> mem_read off n bs = Inr (slice off n bs)"
  "mem_read off n bs = Inr ds \<longleftrightarrow> off + n \<le> length bs \<and> ds = slice off n bs"
  by (auto simp: mem_read_def)

lemma mem_write_simps [simp, mem_simps]:
  "off + length ds \<le> length bs \<Longrightarrow> mem_write off ds bs = Inr (splice off ds bs)"
  "mem_write off ds bs = Inr bs' \<longleftrightarrow> off + length ds \<le> length bs \<and> bs' = splice off ds bs"
  by (auto simp: mem_write_def)

section \<open>Little-endian integers\<close>

text \<open>
  The sources store integers by \<^verbatim>\<open>memcpy\<close> of their object representation; the development
  fixes the little-endian order of the targets the project builds for.
\<close>

fun le_encode :: "nat \<Rightarrow> 'a::len word \<Rightarrow> byte list" where
  "le_encode 0 w = []"
| "le_encode (Suc n) w = ucast w # le_encode n (drop_bit 8 w)"

fun le_decode :: "byte list \<Rightarrow> 'a::len word" where
  "le_decode [] = 0"
| "le_decode (b # bs) = ucast b OR push_bit 8 (le_decode bs)"

lemma length_le_encode [simp, mem_simps]: "length (le_encode n w) = n"
  by (induction n arbitrary: w) simp_all

lemma le_decode_encode_take_bit: "le_decode (le_encode n w) = take_bit (8 * n) (w :: 'a::len word)"
proof (induction n arbitrary: w)
  case 0
  show ?case by simp
next
  case (Suc n)
  show ?case
    by (rule bit_word_eqI) (auto simp: Suc.IH bit_simps)
qed

lemma le_roundtrip [simp, mem_simps]:
  "LENGTH('a) \<le> 8 * n \<Longrightarrow> le_decode (le_encode n w) = (w :: 'a::len word)"
  by (simp add: le_decode_encode_take_bit take_bit_word_eq_self)

lemma le_encode_decode:
  "8 * length bs \<le> LENGTH('a) \<Longrightarrow> le_encode (length bs) (le_decode bs :: 'a::len word) = bs"
proof (induction bs)
  case Nil
  show ?case by simp
next
  case (Cons b bs)
  have "ucast (ucast b OR push_bit 8 (le_decode bs) :: 'a word) = b"
    using Cons.prems by (intro bit_word_eqI) (auto simp: bit_simps)
  moreover have "le_encode (length bs) (drop_bit 8 (ucast b OR push_bit 8 (le_decode bs) :: 'a word)) = bs"
  proof -
    have "drop_bit 8 (ucast b OR push_bit 8 (le_decode bs) :: 'a word)
            = take_bit (LENGTH('a) - 8) (le_decode bs)"
      using Cons.prems by (intro bit_word_eqI) (auto simp: bit_simps dest: bit_imp_le_length)
    moreover have "le_encode k (take_bit m v) = le_encode k (v :: 'a word)" if "8 * k \<le> m" for k m v
      using that
    proof (induction k arbitrary: m v)
      case 0
      show ?case by simp
    next
      case (Suc k)
      have "ucast (take_bit m v) = (ucast v :: byte)"
        using Suc.prems by (intro bit_word_eqI) (auto simp: bit_simps)
      moreover have "drop_bit 8 (take_bit m v) = take_bit (m - 8) (drop_bit 8 v)"
        by (simp add: drop_bit_take_bit)
      ultimately show ?case
        using Suc.IH [of "m - 8" "drop_bit 8 v"] Suc.prems by simp
    qed
    ultimately show ?thesis
      using Cons by simp
  qed
  ultimately show ?case by simp
qed

section \<open>Characters and decimal text\<close>

definition char_byte :: "char \<Rightarrow> byte" where
  "char_byte c = of_nat (of_char c)"

definition byte_char :: "byte \<Rightarrow> char" where
  "byte_char b = char_of (unat b)"

lemma of_char_less_256: "(of_char c :: nat) < 256"
  by (metis of_char_mod_256 mod_less_divisor zero_less_numeral)

lemma byte_char_byte [simp]: "byte_char (char_byte c) = c"
  by (simp add: byte_char_def char_byte_def unat_of_nat of_char_less_256)

lemma map_byte_char_byte [simp]: "map (byte_char \<circ> char_byte) s = s"
  by (simp add: comp_def)

text \<open>\<^verbatim>\<open>std::to_string\<close> on unsigned and signed integers, and the digits part of \<^verbatim>\<open>std::stoi\<close>.\<close>

definition digit_char :: "nat \<Rightarrow> char" where
  "digit_char d = char_of (48 + d)"

definition char_digit :: "char \<Rightarrow> nat option" where
  "char_digit c = (let n = of_char c in if 48 \<le> n \<and> n \<le> 57 then Some (n - 48) else None)"

fun nat_to_string :: "nat \<Rightarrow> string" where
  "nat_to_string n =
     (if n < 10 then [digit_char n] else nat_to_string (n div 10) @ [digit_char (n mod 10)])"

declare nat_to_string.simps [simp del]

definition int_to_string :: "int \<Rightarrow> string" where
  "int_to_string i = (if i < 0 then CHR ''-'' # nat_to_string (nat (- i)) else nat_to_string (nat i))"

fun read_digits :: "nat \<Rightarrow> string \<Rightarrow> nat" where
  "read_digits acc [] = acc"
| "read_digits acc (c # cs) =
     (case char_digit c of None \<Rightarrow> acc | Some d \<Rightarrow> read_digits (10 * acc + d) cs)"

lemma char_digit_digit_char [simp]: "d < 10 \<Longrightarrow> char_digit (digit_char d) = Some d"
  by (simp add: char_digit_def digit_char_def Let_def)

lemma nat_to_string_not_Nil [simp]: "nat_to_string n \<noteq> []"
  by (subst nat_to_string.simps) simp

lemma set_nat_to_string: "c \<in> set (nat_to_string n) \<Longrightarrow> \<exists>d < 10. c = digit_char d"
proof (induction n rule: nat_to_string.induct)
  case (1 n)
  then show ?case
    by (cases "n < 10") (auto simp: nat_to_string.simps [of n] intro: exI [of _ "n mod 10"])
qed

lemma read_digits_append_nat:
  "read_digits acc (nat_to_string n @ s) = read_digits (acc * 10 ^ length (nat_to_string n) + n) s"
proof (induction n arbitrary: acc s rule: nat_to_string.induct)
  case (1 n)
  show ?case
  proof (cases "n < 10")
    case True
    then show ?thesis by (simp add: nat_to_string.simps [of n] mult.commute)
  next
    case False
    have "10 * (n div 10) + n mod 10 = n" by simp
    then show ?thesis
      using False 1 [OF False] by (simp add: nat_to_string.simps [of n] algebra_simps)
  qed
qed

lemma read_digits_nat_to_string [simp]: "read_digits 0 (nat_to_string n) = n"
  using read_digits_append_nat [of 0 n "[]"] by simp

lemma nat_to_string_inject [simp]: "nat_to_string m = nat_to_string n \<longleftrightarrow> m = n"
  by (metis read_digits_nat_to_string)

end
