(* ===== verification/Common_Types.thy ===== *)
theory Common_Types
  imports Huadb_Prelude "HOL-Library.Char_ord" "HOL-Library.List_Lexorder"
begin

text \<open>
  \<^verbatim>\<open>src/src/common\<close>: the constants of \<^verbatim>\<open>constants.h\<close>, the structs of \<^verbatim>\<open>types.h\<close>, the type
  enumeration with \<^verbatim>\<open>TypeUtil\<close>, and \<^verbatim>\<open>StringUtil\<close>.
\<close>

section \<open>Constants (common/constants.h)\<close>

definition LOG_SEGMENT_SIZE :: nat where [simp]: "LOG_SEGMENT_SIZE = 1048576"
definition DB_PAGE_SIZE :: nat where [simp]: "DB_PAGE_SIZE = 256"
definition MAX_RECORD_SIZE :: nat where [simp]: "MAX_RECORD_SIZE = 230"
definition MAX_LOG_SIZE :: nat where
  [simp]: "MAX_LOG_SIZE = 1 + 4 + 8 + 4 + 4 + 4 + 2 + 2 + 2 + MAX_RECORD_SIZE + 8"
definition BUFFER_SIZE :: nat where [simp]: "BUFFER_SIZE = 5"

definition FIRST_LSN :: lsn_t where [simp]: "FIRST_LSN = 0"
definition NULL_LSN :: lsn_t where [simp]: "NULL_LSN = - 1"
definition NULL_XID :: xid_t where [simp]: "NULL_XID = - 1"
definition NULL_CID :: cid_t where [simp]: "NULL_CID = - 1"
definition FIRST_XID :: xid_t where [simp]: "FIRST_XID = 1"
definition FIRST_CID :: cid_t where [simp]: "FIRST_CID = 1"
definition DDL_XID :: xid_t where [simp]: "DDL_XID = 0"
definition DDL_CID :: cid_t where [simp]: "DDL_CID = 0"
definition NULL_PAGE_ID :: pageid_t where [simp]: "NULL_PAGE_ID = 0xFFFFFFFF"
definition SYSTEM_DATABASE_OID :: oid_t where [simp]: "SYSTEM_DATABASE_OID = 1"

section \<open>Structs (common/types.h)\<close>

record Rid =
  rid_page_id :: pageid_t
  rid_slot_id :: slotid_t

record TablePageid =
  tp_table_oid :: oid_t
  tp_page_id :: pageid_t

record Slot =
  slot_offset :: db_size_t
  slot_size :: db_size_t

text \<open>The hash of a \<^verbatim>\<open>TablePageid\<close>: the table oid in the high half, the page id in the low half.\<close>

definition TablePageid_hash :: "TablePageid \<Rightarrow> 64 word" where
  "TablePageid_hash k = push_bit 32 (ucast (tp_table_oid k)) OR ucast (tp_page_id k)"

lemma TablePageid_hash_inject: "TablePageid_hash a = TablePageid_hash b \<Longrightarrow> a = b"
proof -
  assume h: "TablePageid_hash a = TablePageid_hash b"
  have "ucast (drop_bit 32 (TablePageid_hash k)) = tp_table_oid k" for k
    by (rule bit_word_eqI) (auto simp: TablePageid_hash_def bit_simps dest: bit_imp_le_length)
  moreover have "ucast (TablePageid_hash k) = tp_page_id k" for k
    by (rule bit_word_eqI) (auto simp: TablePageid_hash_def bit_simps)
  ultimately show "a = b"
    using h by (metis TablePageid.equality old.unit.exhaust)
qed

section \<open>Types (common/type\_util)\<close>

datatype vtype = TBOOL | TINT | TUINT | TDOUBLE | TCHAR | TVARCHAR | TNULL | TLIST

fun Type2String :: "vtype \<Rightarrow> string result" where
  "Type2String TBOOL = Inr ''bool''"
| "Type2String TINT = Inr ''int''"
| "Type2String TUINT = Inr ''uint''"
| "Type2String TDOUBLE = Inr ''double''"
| "Type2String TCHAR = Inr ''char''"
| "Type2String TVARCHAR = Inr ''varchar''"
| "Type2String TNULL = Inr ''null''"
| "Type2String TLIST = Inl (DbException ''Unknown type in Type2String'')"

definition String2Type :: "string \<Rightarrow> vtype result" where
  "String2Type str =
     (if str = ''bool'' then Inr TBOOL
      else if str = ''int'' then Inr TINT
      else if str = ''uint'' then Inr TUINT
      else if str = ''double'' then Inr TDOUBLE
      else if str = ''char'' then Inr TCHAR
      else if str = ''varchar'' then Inr TVARCHAR
      else if str = ''null'' then Inr TNULL
      else Inl (DbException ''Unknown type in String2Type''))"

fun TypeSize :: "vtype \<Rightarrow> nat result" where
  "TypeSize TNULL = Inr 0"
| "TypeSize TBOOL = Inr 1"
| "TypeSize TINT = Inr 4"
| "TypeSize TUINT = Inr 4"
| "TypeSize TDOUBLE = Inr 8"
| "TypeSize TCHAR = Inl (DbException ''Size must be specified for CHAR and VARCHAR types'')"
| "TypeSize TVARCHAR = Inl (DbException ''Size must be specified for CHAR and VARCHAR types'')"
| "TypeSize TLIST = Inl (DbException ''Unknown type in TypeSize'')"

fun IsNumeric :: "vtype \<Rightarrow> bool" where
  "IsNumeric TINT = True"
| "IsNumeric TUINT = True"
| "IsNumeric TDOUBLE = True"
| "IsNumeric _ = False"

fun IsString :: "vtype \<Rightarrow> bool" where
  "IsString TCHAR = True"
| "IsString TVARCHAR = True"
| "IsString _ = False"

definition TypeCompatible :: "vtype \<Rightarrow> vtype \<Rightarrow> bool" where
  "TypeCompatible t1 t2 =
     (if IsNumeric t1 \<and> IsNumeric t2 then True
      else if IsString t1 \<and> IsString t2 then True
      else t1 = t2)"

lemma String2Type_Type2String: "Type2String t = Inr s \<Longrightarrow> String2Type s = Inr t"
  by (cases t) (auto simp: String2Type_def)

lemma Type2String_String2Type: "String2Type s = Inr t \<Longrightarrow> Type2String t = Inr s"
  by (auto simp: String2Type_def split: if_splits)

lemma TypeCompatible_equivalence:
  "TypeCompatible t t"
  "TypeCompatible t u \<Longrightarrow> TypeCompatible u t"
  "TypeCompatible t u \<Longrightarrow> TypeCompatible u v \<Longrightarrow> TypeCompatible t v"
  by (cases t; cases u; cases v; simp add: TypeCompatible_def)+

section \<open>Strings (common/string\_util)\<close>

definition is_space :: "char \<Rightarrow> bool" where
  "is_space c \<longleftrightarrow> (let n = of_char c :: nat in n = 32 \<or> (9 \<le> n \<and> n \<le> 13))"

definition RTrim :: "string \<Rightarrow> string" where
  "RTrim str = rev (dropWhile is_space (rev str))"

text \<open>The \<^verbatim>\<open>std::getline\<close> loop of \<^verbatim>\<open>Split\<close>: a trailing delimiter yields no empty last token.\<close>

function Split :: "char \<Rightarrow> string \<Rightarrow> string list" where
  "Split d str =
     (if str = [] then []
      else RTrim (takeWhile (\<lambda>c. c \<noteq> d) str) # Split d (drop 1 (dropWhile (\<lambda>c. c \<noteq> d) str)))"
  by pat_completeness auto
termination
proof (relation "measure (\<lambda>(d, str). length str)")
  fix d :: char and str :: string
  assume "str \<noteq> []"
  then have "length (drop 1 (dropWhile (\<lambda>c. c \<noteq> d) str)) < length str"
    using length_dropWhile_le [of "\<lambda>c. c \<noteq> d" str] by (cases str) auto
  then show "((d, drop 1 (dropWhile (\<lambda>c. c \<noteq> d) str)), d, str) \<in> measure (\<lambda>(d, str). length str)"
    by simp
qed simp

declare Split.simps [simp del]

definition to_lower :: "char \<Rightarrow> char" where
  "to_lower c = (let n = of_char c :: nat in if 65 \<le> n \<and> n \<le> 90 then char_of (n + 32) else c)"

definition to_upper :: "char \<Rightarrow> char" where
  "to_upper c = (let n = of_char c :: nat in if 97 \<le> n \<and> n \<le> 122 then char_of (n - 32) else c)"

definition Lower :: "string \<Rightarrow> string" where "Lower str = map to_lower str"
definition Upper :: "string \<Rightarrow> string" where "Upper str = map to_upper str"

lemma RTrim_no_trailing_space: "RTrim str \<noteq> [] \<Longrightarrow> \<not> is_space (last (RTrim str))"
  by (metis RTrim_def hd_dropWhile last_rev rev_is_Nil_conv)

lemma RTrim_id: "str = [] \<or> \<not> is_space (last str) \<Longrightarrow> RTrim str = str"
  by (cases str rule: rev_cases) (auto simp: RTrim_def)

lemma RTrim_idem [simp]: "RTrim (RTrim str) = RTrim str"
  using RTrim_no_trailing_space RTrim_id by blast

lemma Split_two:
  assumes "a \<noteq> []" "d \<notin> set a" "d \<notin> set b" "b \<noteq> []"
    and "\<not> is_space (last a)" "\<not> is_space (last b)"
  shows "Split d (a @ d # b) = [a, b]"
proof -
  have ta: "takeWhile (\<lambda>c. c \<noteq> d) (a @ d # b) = a" "dropWhile (\<lambda>c. c \<noteq> d) (a @ d # b) = d # b"
    using assms(2) by (induction a) auto
  have tb: "takeWhile (\<lambda>c. c \<noteq> d) b = b" "dropWhile (\<lambda>c. c \<noteq> d) b = []"
    using assms(3) by (induction b) auto
  have "Split d b = [b]"
    unfolding Split.simps [of d b] tb using assms by (simp add: Split.simps [of d "[]"] RTrim_id)
  then show ?thesis
    unfolding Split.simps [of d "a @ d # b"] ta using assms by (simp add: RTrim_id)
qed

lemma Lower_Upper_Lower: "Lower (Upper (Lower str)) = Lower str"
proof -
  have "to_lower (to_upper (to_lower c)) = to_lower c" for c
    using of_char_less_256 [of c] by (auto simp: to_lower_def to_upper_def Let_def)
  then show ?thesis by (simp add: Lower_def Upper_def)
qed

lemma digit_char_not_space: "d < 10 \<Longrightarrow> \<not> is_space (digit_char d)"
  by (simp add: is_space_def digit_char_def Let_def)

lemma nat_to_string_last_not_space: "\<not> is_space (last (nat_to_string n))"
  using set_nat_to_string [of "last (nat_to_string n)" n] digit_char_not_space by force

end
