(* ===== verification/Columns.thy ===== *)
theory Columns
  imports Common_Types
begin

text \<open>
  \<^verbatim>\<open>src/src/catalog/column_definition.cpp\<close> and \<^verbatim>\<open>column_list.cpp\<close>: column definitions, column
  lists with their name index, and the text form the catalog stores a schema in. The
  \<^verbatim>\<open>unordered_map\<close> \<^verbatim>\<open>col2idx_\<close> is an association list with distinct keys.
\<close>

section \<open>Definitions and lists of columns\<close>

record ColumnDefinition =
  cd_name :: string
  cd_type :: vtype
  cd_max_size :: db_size_t

definition ColumnDefinition_new :: "string \<Rightarrow> vtype \<Rightarrow> ColumnDefinition result" where
  "ColumnDefinition_new name t =
     rbind (TypeSize t) (\<lambda>n. Inr \<lparr>cd_name = name, cd_type = t, cd_max_size = of_nat n\<rparr>)"

definition ColumnDefinition_GetBytes :: "ColumnDefinition \<Rightarrow> db_size_t" where
  "ColumnDefinition_GetBytes c = of_nat (2 + length (cd_name c) + 4 + 2)"

definition ColumnDefinition_ToString :: "ColumnDefinition \<Rightarrow> string result" where
  "ColumnDefinition_ToString c =
     rbind (Type2String (cd_type c)) (\<lambda>t.
       Inr (cd_name c @ '' '' @ t @ '' '' @ nat_to_string (unat (cd_max_size c))))"

definition ColumnDefinition_ToStringVector :: "ColumnDefinition \<Rightarrow> string list result" where
  "ColumnDefinition_ToStringVector c =
     rbind (Type2String (cd_type c)) (\<lambda>t.
       Inr [cd_name c, t, nat_to_string (unat (cd_max_size c))])"

record ColumnList =
  cl_columns :: "ColumnDefinition list"
  cl_col2idx :: "(string \<times> nat) list"

definition ColumnList_empty :: ColumnList where
  "ColumnList_empty = \<lparr>cl_columns = [], cl_col2idx = []\<rparr>"

text \<open>
  \<^verbatim>\<open>col2idx_[name] = col2idx_.size()\<close>: since C++17 the right side is evaluated first, so the
  index is the number of distinct names seen so far.
\<close>

definition AddColumn :: "ColumnDefinition \<Rightarrow> ColumnList \<Rightarrow> ColumnList" where
  "AddColumn c cl =
     \<lparr>cl_columns = cl_columns cl @ [c],
      cl_col2idx = AList.update (cd_name c) (length (cl_col2idx cl)) (cl_col2idx cl)\<rparr>"

definition ColumnList_new :: "ColumnDefinition list \<Rightarrow> ColumnList" where
  "ColumnList_new cols = fold AddColumn cols ColumnList_empty"

definition TryGetColumnIndex :: "string \<Rightarrow> ColumnList \<Rightarrow> nat option" where
  "TryGetColumnIndex name cl = map_of (cl_col2idx cl) name"

definition GetColumnIndex :: "string \<Rightarrow> ColumnList \<Rightarrow> nat result" where
  "GetColumnIndex name cl =
     (case TryGetColumnIndex name cl of
        Some i \<Rightarrow> Inr i
      | None \<Rightarrow> Inl (DbException (''Column '' @ name @ '' not found in column list'')))"

definition GetColumn :: "nat \<Rightarrow> ColumnList \<Rightarrow> ColumnDefinition result" where
  "GetColumn i cl =
     (if i < length (cl_columns cl) then Inr (cl_columns cl ! i)
      else Inl (Undefined ''vector index out of range''))"

definition ColumnList_Length :: "ColumnList \<Rightarrow> nat" where
  "ColumnList_Length cl = length (cl_columns cl)"

definition ColumnList_Size :: "ColumnList \<Rightarrow> nat" where
  "ColumnList_Size cl = 2 + sum_list (map (\<lambda>c. unat (ColumnDefinition_GetBytes c)) (cl_columns cl))"

section \<open>Text form\<close>

definition ColumnList_ToString :: "ColumnList \<Rightarrow> string result" where
  "ColumnList_ToString cl =
     rbind (rmap ColumnDefinition_ToString (cl_columns cl)) (\<lambda>ss.
       Inr (nat_to_string (length (cl_columns cl)) @ [CHR 0x0A]
            @ concat (map (\<lambda>s. s @ [CHR 0x0A]) ss)))"

text \<open>
  Extraction from an \<^verbatim>\<open>istringstream\<close>: the stream is the unread text, or \<open>None\<close> once its fail
  bit is set. A word extraction that finds no character sets the bit and leaves the target as it
  was; a number extraction stores 0 when there are no digits and the maximum when the number
  does not fit.
\<close>

type_synonym iss = "string option"

definition iss_word :: "string \<Rightarrow> iss \<Rightarrow> string \<times> iss" where
  "iss_word old st =
     (case st of
        None \<Rightarrow> (old, None)
      | Some s \<Rightarrow>
          (let s' = dropWhile is_space s in
           if s' = [] then (old, None)
           else (takeWhile (\<lambda>c. \<not> is_space c) s', Some (dropWhile (\<lambda>c. \<not> is_space c) s'))))"

definition is_digit :: "char \<Rightarrow> bool" where
  "is_digit c \<longleftrightarrow> char_digit c \<noteq> None"

definition iss_u16 :: "db_size_t \<Rightarrow> iss \<Rightarrow> db_size_t \<times> iss" where
  "iss_u16 old st =
     (case st of
        None \<Rightarrow> (old, None)
      | Some s \<Rightarrow>
          (let s1 = dropWhile is_space s;
               neg = (s1 \<noteq> [] \<and> hd s1 = CHR ''-'');
               s2 = (if s1 \<noteq> [] \<and> (hd s1 = CHR ''-'' \<or> hd s1 = CHR ''+'') then tl s1 else s1);
               ds = takeWhile is_digit s2;
               rest = dropWhile is_digit s2;
               n = read_digits 0 ds
           in if s1 = [] then (old, None)
              else if ds = [] then (0, None)
              else if n > 65535 then (0xFFFF, None)
              else (if neg then - of_nat n else of_nat n, Some rest)))"

text \<open>One round of the loop in \<^verbatim>\<open>FromString\<close>, on a column already in the resized vector.\<close>

definition FromString_column :: "ColumnDefinition \<Rightarrow> iss \<Rightarrow> (ColumnDefinition \<times> iss) result" where
  "FromString_column c st =
     (let (name, st1) = iss_word (cd_name c) st;
          (ty, st2) = iss_word [] st1
      in rbind (String2Type ty) (\<lambda>t.
           let (sz, st3) = iss_u16 (cd_max_size c) st2
           in Inr (\<lparr>cd_name = name, cd_type = t, cd_max_size = sz\<rparr>, st3)))"

fun FromString_columns :: "ColumnDefinition list \<Rightarrow> iss \<Rightarrow> ColumnDefinition list result" where
  "FromString_columns [] st = Inr []"
| "FromString_columns (c # cs) st =
     rbind (FromString_column c st) (\<lambda>(c', st').
       rbind (FromString_columns cs st') (\<lambda>cs'. Inr (c' # cs')))"

definition blank_column :: ColumnDefinition where
  "blank_column = \<lparr>cd_name = [], cd_type = TBOOL, cd_max_size = 0\<rparr>"

definition ColumnList_FromString :: "string \<Rightarrow> ColumnList \<Rightarrow> ColumnList result" where
  "ColumnList_FromString str cl =
     (if dropWhile is_space str = [] then Inl (Undefined ''column count read from an empty stream'')
      else let (n, st) = iss_u16 0 (Some str);
               cols = take (unat n) (cl_columns cl) @ replicate (unat n - length (cl_columns cl)) blank_column
           in rbind (FromString_columns cols st) (\<lambda>cols'.
                Inr \<lparr>cl_columns = cols',
                     cl_col2idx = fold (\<lambda>(i, c). AList.update (cd_name c) i)
                                       (enumerate 0 cols') (cl_col2idx cl)\<rparr>))"

section \<open>Lemmas on the name index\<close>

lemma distinct_fold_AddColumn:
  "distinct (map fst (cl_col2idx cl)) \<Longrightarrow> distinct (map fst (cl_col2idx (fold AddColumn cols cl)))"
  by (induction cols arbitrary: cl) (simp_all add: AddColumn_def distinct_update)

lemma cl_columns_fold_AddColumn [simp]:
  "cl_columns (fold AddColumn cols cl) = cl_columns cl @ cols"
  by (induction cols arbitrary: cl) (simp_all add: AddColumn_def)

lemma cl_columns_new [simp]: "cl_columns (ColumnList_new cols) = cols"
  by (simp add: ColumnList_new_def ColumnList_empty_def)

definition index_ok :: "ColumnList \<Rightarrow> bool" where
  "index_ok cl \<longleftrightarrow> cl_col2idx cl = map (\<lambda>(i, c). (cd_name c, i)) (enumerate 0 (cl_columns cl))"

lemma AList_update_new: "k \<notin> fst ` set al \<Longrightarrow> AList.update k v al = al @ [(k, v)]"
  by (induction al) auto

lemma index_ok_AddColumn:
  assumes "index_ok cl" and "cd_name c \<notin> cd_name ` set (cl_columns cl)"
  shows "index_ok (AddColumn c cl)"
proof -
  have "fst ` set (cl_col2idx cl) = cd_name ` set (cl_columns cl)"
    using assms(1) by (force simp: index_ok_def enumerate_eq_zip set_zip in_set_conv_nth image_iff)
  then have "AList.update (cd_name c) (length (cl_col2idx cl)) (cl_col2idx cl)
      = cl_col2idx cl @ [(cd_name c, length (cl_columns cl))]"
    using assms by (simp add: AList_update_new index_ok_def)
  then show ?thesis
    using assms(1) by (simp add: index_ok_def AddColumn_def enumerate_append_eq)
qed

lemma index_ok_fold_AddColumn:
  "index_ok cl \<Longrightarrow> distinct (map cd_name (cl_columns cl @ cols)) \<Longrightarrow> index_ok (fold AddColumn cols cl)"
proof (induction cols arbitrary: cl)
  case Nil
  then show ?case by simp
next
  case (Cons c cols)
  have "index_ok (AddColumn c cl)"
    using Cons.prems by (intro index_ok_AddColumn) auto
  then have "index_ok (fold AddColumn cols (AddColumn c cl))"
    using Cons.prems by (intro Cons.IH) (auto simp: AddColumn_def)
  then show ?case by simp
qed

lemma index_ok_new: "distinct (map cd_name cols) \<Longrightarrow> index_ok (ColumnList_new cols)"
  unfolding ColumnList_new_def
  by (rule index_ok_fold_AddColumn) (simp_all add: index_ok_def ColumnList_empty_def)

lemma index_ok_lookup:
  assumes "index_ok cl" "distinct (map cd_name (cl_columns cl))" "i < length (cl_columns cl)"
  shows "TryGetColumnIndex (cd_name (cl_columns cl ! i)) cl = Some i"
proof -
  have eq: "map (\<lambda>(i, c). (cd_name c, i)) (enumerate 0 (cl_columns cl))
      = zip (map cd_name (cl_columns cl)) [0..<length (cl_columns cl)]"
    by (rule nth_equalityI) (simp_all add: nth_enumerate_eq)
  show ?thesis
    using assms map_of_zip_nth [of "map cd_name (cl_columns cl)" "[0..<length (cl_columns cl)]" i]
    unfolding TryGetColumnIndex_def index_ok_def eq by simp
qed

lemma index_ok_absent:
  assumes "index_ok cl" "name \<notin> cd_name ` set (cl_columns cl)"
  shows "TryGetColumnIndex name cl = None"
proof -
  have "fst ` set (cl_col2idx cl) = cd_name ` set (cl_columns cl)"
    using assms(1) by (force simp: index_ok_def enumerate_eq_zip set_zip in_set_conv_nth image_iff)
  then show ?thesis using assms(2) by (simp add: TryGetColumnIndex_def map_of_eq_None_iff)
qed

section \<open>Reading back what was written\<close>

definition plain_name :: "string \<Rightarrow> bool" where
  "plain_name s \<longleftrightarrow> s \<noteq> [] \<and> (\<forall>c \<in> set s. \<not> is_space c)"

lemma takeWhile_word: "plain_name w \<Longrightarrow> is_space c \<Longrightarrow> takeWhile (\<lambda>c. \<not> is_space c) (w @ c # s) = w"
  by (induction w) (auto simp: plain_name_def) 

lemma dropWhile_word: "plain_name w \<Longrightarrow> is_space c \<Longrightarrow> dropWhile (\<lambda>c. \<not> is_space c) (w @ c # s) = c # s"
  by (induction w) (auto simp: plain_name_def)

lemma is_space_chars [simp]: "is_space CHR '' ''" "is_space CHR 0x0A"
  by (simp_all add: is_space_def Let_def)

lemma iss_word_read:
  assumes "plain_name w" "is_space c" "ws = [] \<or> ws = [CHR 0x0A] \<or> ws = '' ''"
  shows "iss_word old (Some (ws @ w @ c # s)) = (w, Some (c # s))"
proof -
  have "dropWhile is_space (ws @ w @ c # s) = w @ c # s"
    using assms(1,3) by (cases w) (auto simp: plain_name_def)
  then show ?thesis
    using assms by (simp add: iss_word_def takeWhile_word dropWhile_word plain_name_def Let_def)
qed

lemma is_digit_digit_char: "d < 10 \<Longrightarrow> is_digit (digit_char d)"
  by (simp add: is_digit_def)

lemma is_digit_nat_to_string: "c \<in> set (nat_to_string n) \<Longrightarrow> is_digit c"
  using set_nat_to_string is_digit_digit_char by blast

lemma is_digit_newline [simp]: "\<not> is_digit CHR 0x0A"
  by (simp add: is_digit_def char_digit_def Let_def)

lemma iss_u16_read:
  assumes "n \<le> 65535" "ws = [] \<or> ws = '' ''"
  shows "iss_u16 old (Some (ws @ nat_to_string n @ CHR 0x0A # s)) = (of_nat n, Some (CHR 0x0A # s))"
proof -
  let ?t = "nat_to_string n @ CHR 0x0A # s"
  obtain c cs where c: "nat_to_string n = c # cs"
    by (cases "nat_to_string n") auto
  have dig: "is_digit c" using is_digit_nat_to_string [of c n] c by simp
  then have nsp: "\<not> is_space c" and nsg: "c \<noteq> CHR ''-''" "c \<noteq> CHR ''+''"
    by (auto simp: is_digit_def char_digit_def is_space_def Let_def split: if_splits)
  have d: "dropWhile is_space (ws @ ?t) = ?t"
    using assms(2) nsp c by auto
  have tw: "takeWhile is_digit ?t = nat_to_string n" "dropWhile is_digit ?t = CHR 0x0A # s"
    using is_digit_nat_to_string [of _ n]
    by (simp_all add: takeWhile_append2 dropWhile_append2)
  have sgn: "(if ?t \<noteq> [] \<and> (hd ?t = CHR ''-'' \<or> hd ?t = CHR ''+'') then tl ?t else ?t) = ?t"
    "(?t \<noteq> [] \<and> hd ?t = CHR ''-'') = False"
    using nsg c by simp_all
  show ?thesis
    unfolding iss_u16_def option.case Let_def d sgn tw using assms(1) by simp
qed

lemma plain_name_Type2String: "Type2String t = Inr s \<Longrightarrow> plain_name s"
  by (cases t) (auto simp: plain_name_def is_space_def Let_def)

lemma FromString_column_read:
  assumes "plain_name (cd_name c)" "ColumnDefinition_ToString c = Inr s" "ws = [] \<or> ws = [CHR 0x0A]"
  shows "FromString_column old (Some (ws @ s @ CHR 0x0A # rest)) = Inr (c, Some (CHR 0x0A # rest))"
proof -
  obtain t where t: "Type2String (cd_type c) = Inr t"
    and s: "s = cd_name c @ '' '' @ t @ '' '' @ nat_to_string (unat (cd_max_size c))"
    using assms(2) by (auto simp: ColumnDefinition_ToString_def rbind_eq_Inr_iff)
  have le: "unat (cd_max_size c) \<le> 65535"
    using unat_less_exp [of "cd_max_size c"] by simp
  let ?n = "nat_to_string (unat (cd_max_size c))"
  have 1: "iss_word (cd_name old) (Some (ws @ s @ CHR 0x0A # rest))
      = (cd_name c, Some (CHR '' '' # t @ '' '' @ ?n @ CHR 0x0A # rest))"
    using iss_word_read [OF assms(1), of "CHR '' ''" ws] assms(3) s by auto
  have 2: "iss_word [] (Some (CHR '' '' # t @ '' '' @ ?n @ CHR 0x0A # rest))
      = (t, Some ('' '' @ ?n @ CHR 0x0A # rest))"
    using iss_word_read [OF plain_name_Type2String [OF t], of "CHR '' ''" "'' ''"] by simp
  have 3: "iss_u16 (cd_max_size old) (Some ('' '' @ ?n @ CHR 0x0A # rest))
      = (cd_max_size c, Some (CHR 0x0A # rest))"
    using iss_u16_read [OF le, of "'' ''"] by simp
  show ?thesis
    unfolding FromString_column_def Let_def 1 prod.case 2 String2Type_Type2String [OF t] rbind_simps 3
    by simp
qed

lemma FromString_columns_read:
  assumes "list_all2 (\<lambda>c s. plain_name (cd_name c) \<and> ColumnDefinition_ToString c = Inr s) cols ss"
    and "length olds = length cols"
  shows "FromString_columns olds (Some (CHR 0x0A # concat (map (\<lambda>s. s @ [CHR 0x0A]) ss))) = Inr cols"
  using assms
proof (induction cols ss arbitrary: olds rule: list_all2_induct)
  case Nil
  then show ?case by simp
next
  case (Cons c cols s ss)
  obtain old olds' where olds: "olds = old # olds'" "length olds' = length cols"
    using Cons.prems by (cases olds) auto
  have "FromString_column old (Some ([CHR 0x0A] @ s @ CHR 0x0A # concat (map (\<lambda>s. s @ [CHR 0x0A]) ss)))
      = Inr (c, Some (CHR 0x0A # concat (map (\<lambda>s. s @ [CHR 0x0A]) ss)))"
    using Cons.hyps by (intro FromString_column_read) auto
  then show ?case
    using Cons.IH [OF olds(2)] by (simp add: olds(1))
qed

lemma FromString_ToString_columns:
  assumes "ColumnList_ToString cl = Inr str" "\<forall>c \<in> set (cl_columns cl). plain_name (cd_name c)"
    and "length (cl_columns cl) \<le> 65535"
  shows "\<exists>cl'. ColumnList_FromString str ColumnList_empty = Inr cl' \<and> cl_columns cl' = cl_columns cl"
proof -
  obtain ss where ss: "rmap ColumnDefinition_ToString (cl_columns cl) = Inr ss"
    and str: "str = nat_to_string (length (cl_columns cl)) @ CHR 0x0A # concat (map (\<lambda>s. s @ [CHR 0x0A]) ss)"
    using assms(1) by (auto simp: ColumnList_ToString_def rbind_eq_Inr_iff)
  have l2: "list_all2 (\<lambda>c s. plain_name (cd_name c) \<and> ColumnDefinition_ToString c = Inr s) (cl_columns cl) ss"
    using ss assms(2) by (auto simp: rmap_Inr_iff list_all2_conv_all_nth)
  have n: "unat (of_nat (length (cl_columns cl)) :: db_size_t) = length (cl_columns cl)"
    using assms(3) by (simp add: unat_of_nat)
  have hd: "dropWhile is_space str \<noteq> []"
    using nat_to_string_last_not_space [of "length (cl_columns cl)"] str
    by (auto simp: dropWhile_eq_Nil_conv)
  have "iss_u16 0 (Some str) = (of_nat (length (cl_columns cl)),
      Some (CHR 0x0A # concat (map (\<lambda>s. s @ [CHR 0x0A]) ss)))"
    using iss_u16_read [OF assms(3), of "[]" 0] str by simp
  then show ?thesis
    using hd FromString_columns_read [OF l2, of "replicate (length (cl_columns cl)) blank_column"]
    by (simp add: ColumnList_FromString_def ColumnList_empty_def n)
qed

section \<open>Properties\<close>

text \<open>
  A column list survives its text form: reading back what \<^verbatim>\<open>ToString\<close> wrote gives the same columns in
  the same order, provided the names have no blanks, which \<^verbatim>\<open>operator>>\<close> would split at.
\<close>

theorem ColumnList_roundtrip:
  assumes "ColumnList_ToString cl = Inr str" "\<forall>c \<in> set (cl_columns cl). plain_name (cd_name c)"
    and "length (cl_columns cl) \<le> 65535"
  shows "\<exists>cl'. ColumnList_FromString str ColumnList_empty = Inr cl' \<and> cl_columns cl' = cl_columns cl"
  by (rule FromString_ToString_columns [OF assms])

definition sample_column_list :: ColumnList where
  "sample_column_list = ColumnList_new [\<lparr>cd_name = ''id'', cd_type = TINT, cd_max_size = 4\<rparr>,
     \<lparr>cd_name = ''name'', cd_type = TVARCHAR, cd_max_size = 20\<rparr>]"

theorem ColumnList_roundtrip_witness:
  "\<exists>str cl'. ColumnList_ToString sample_column_list = Inr str \<and> ColumnList_FromString str ColumnList_empty = Inr cl'
     \<and> cl_columns cl' = cl_columns sample_column_list"
proof -
  obtain str where str: "ColumnList_ToString sample_column_list = Inr str"
    using that unfolding sample_column_list_def ColumnList_ToString_def ColumnDefinition_ToString_def
    by (simp del: nat_to_string.simps)
  have "plain_name ''id''" "plain_name ''name''" by (simp_all add: plain_name_def is_space_def Let_def)
  then have names: "\<forall>c \<in> set (cl_columns sample_column_list). plain_name (cd_name c)"
    and len: "length (cl_columns sample_column_list) \<le> 65535"
    by (simp_all add: sample_column_list_def)
  from ColumnList_roundtrip [OF str names len] str show ?thesis by blast
qed

text \<open>
  The name index of a column list built from distinct names is exact: the name of the i-th column
  looks up to i, and a name of no column raises the database exception.
\<close>

theorem GetColumnIndex_exact:
  assumes "distinct (map cd_name cols)"
  shows "GetColumnIndex name (ColumnList_new cols) =
     (case find (\<lambda>i. cd_name (cols ! i) = name) [0..<length cols] of
        Some i \<Rightarrow> Inr i
      | None \<Rightarrow> Inl (DbException (''Column '' @ name @ '' not found in column list'')))"
proof (cases "\<exists>i < length cols. cd_name (cols ! i) = name")
  case True
  then obtain i where i: "i < length cols" "cd_name (cols ! i) = name" by blast
  have "TryGetColumnIndex name (ColumnList_new cols) = Some i"
    using index_ok_lookup [OF index_ok_new [OF assms], of i] assms i by simp
  moreover have "find (\<lambda>i. cd_name (cols ! i) = name) [0..<length cols] = Some i"
  proof -
    have uniq: "j = i" if "j < length cols" "cd_name (cols ! j) = name" for j
      using that i assms by (metis distinct_conv_nth length_map nth_map)
    have "\<forall>j < i. cd_name (cols ! j) \<noteq> name"
      using uniq i(1) by (metis less_irrefl less_trans)
    then show ?thesis using i unfolding find_Some_iff by (intro exI [of _ i]) simp
  qed
  ultimately show ?thesis by (simp add: GetColumnIndex_def TryGetColumnIndex_def)
next
  case False
  then have "name \<notin> cd_name ` set cols" by (auto simp: in_set_conv_nth)
  then have "TryGetColumnIndex name (ColumnList_new cols) = None"
    using index_ok_absent [OF index_ok_new [OF assms]] by simp
  moreover have "find (\<lambda>i. cd_name (cols ! i) = name) [0..<length cols] = None"
    using False by (auto simp: find_None_iff)
  ultimately show ?thesis by (simp add: GetColumnIndex_def)
qed

theorem GetColumnIndex_exact_witness:
  "GetColumnIndex ''name'' sample_column_list = Inr 1"
  using GetColumnIndex_exact [of "cl_columns sample_column_list" "''name''"]
  by (simp add: sample_column_list_def upt_rec)

end
