(* ===== verification/Disk_Model.thy ===== *)
theory Disk_Model
  imports Columns
begin

text \<open>
  \<^verbatim>\<open>src/src/storage/disk.cpp\<close>: the files under the database directory, the streams the class keeps
  open, page reads and writes, and the log file. A path names an inode, so that a stream stays on
  the inode it opened; a stream carries its fail bit, which a short read sets and nothing clears.
  The file \<^verbatim>\<open>log\<close> is touched by no other path operation and has fields of its own.
\<close>

section \<open>State\<close>

record Stream =
  st_ino :: nat
  st_fail :: bool

record Disk =
  dk_dirs :: "string list"
  dk_names :: "string \<rightharpoonup> nat"
  dk_data :: "nat \<Rightarrow> byte list"
  dk_next :: nat
  dk_open :: "string \<rightharpoonup> Stream"
  dk_log :: "byte list"
  dk_log_fail :: bool
  dk_segments :: "32 word"
  dk_access :: "32 word"

section \<open>File contents\<close>

text \<open>Growing or cutting a file to a length, and a write at an offset, which grows the file with zeros.\<close>

definition file_resize :: "nat \<Rightarrow> byte list \<Rightarrow> byte list" where
  "file_resize n bs = take n bs @ replicate (n - length bs) 0"

definition file_write :: "nat \<Rightarrow> byte list \<Rightarrow> byte list \<Rightarrow> byte list" where
  "file_write off ds bs = splice off ds (bs @ replicate (off + length ds - length bs) 0)"

section \<open>Construction and the directory operations\<close>

definition Disk_new :: "byte list option \<Rightarrow> (string \<rightharpoonup> nat) \<Rightarrow> (nat \<Rightarrow> byte list) \<Rightarrow> nat \<Rightarrow> string list \<Rightarrow> Disk result" where
  "Disk_new log names data nxt dirs =
     (let disk = \<lambda>l segs. \<lparr>dk_dirs = dirs, dk_names = names, dk_data = data, dk_next = nxt, dk_open = Map.empty,
                          dk_log = l, dk_log_fail = False, dk_segments = segs, dk_access = 0\<rparr>
      in case log of
           None \<Rightarrow> Inr (disk (file_resize LOG_SEGMENT_SIZE []) 1)
         | Some l \<Rightarrow>
             (if length l div LOG_SEGMENT_SIZE = 0 \<or> length l mod LOG_SEGMENT_SIZE \<noteq> 0
              then Inl (DbException ''log file size is not a multiple of segment size'')
              else Inr (disk l (of_nat (length l div LOG_SEGMENT_SIZE)))))"

definition DirectoryExists :: "string \<Rightarrow> Disk \<Rightarrow> bool" where
  "DirectoryExists path d \<longleftrightarrow> path \<in> set (dk_dirs d)"

definition FileExists :: "string \<Rightarrow> Disk \<Rightarrow> bool" where
  "FileExists path d \<longleftrightarrow> dk_names d path \<noteq> None"

definition CreateDirectory :: "string \<Rightarrow> (Disk, unit) em" where
  "CreateDirectory path d =
     (if FileExists path d then (Inl (RuntimeError ''create_directory''), d)
      else if DirectoryExists path d then (Inr (), d)
      else (Inr (), d\<lparr>dk_dirs := path # dk_dirs d\<rparr>))"

definition below :: "string \<Rightarrow> string \<Rightarrow> bool" where
  "below dir path \<longleftrightarrow> path = dir \<or> take (length dir + 1) path = dir @ ''/''"

definition RemoveDirectory :: "string \<Rightarrow> (Disk, unit) em" where
  "RemoveDirectory path d =
     (Inr (), d\<lparr>dk_dirs := filter (\<lambda>q. \<not> below path q) (dk_dirs d),
                dk_names := (\<lambda>q. if below path q then None else dk_names d q)\<rparr>)"

definition EmptyFile :: "string \<Rightarrow> Disk \<Rightarrow> bool result" where
  "EmptyFile path d =
     (case dk_names d path of
        None \<Rightarrow> Inl (DbException (''file '' @ path @ '' does not exist''))
      | Some i \<Rightarrow> Inr (dk_data d i = []))"

text \<open>An output stream on a path truncates the file or creates it, when its directory exists.\<close>

definition parent_exists :: "string \<Rightarrow> Disk \<Rightarrow> bool" where
  "parent_exists path d \<longleftrightarrow> CHR ''/'' \<notin> set path \<or>
     DirectoryExists (rev (tl (dropWhile (\<lambda>c. c \<noteq> CHR ''/'') (rev path)))) d"

definition ofstream_write :: "string \<Rightarrow> byte list \<Rightarrow> Disk \<Rightarrow> Disk" where
  "ofstream_write path bs d =
     (case dk_names d path of
        Some i \<Rightarrow> d\<lparr>dk_data := (dk_data d)(i := bs)\<rparr>
      | None \<Rightarrow>
          if DirectoryExists path d \<or> \<not> parent_exists path d then d
          else d\<lparr>dk_names := (dk_names d)(path \<mapsto> dk_next d), dk_data := (dk_data d)(dk_next d := bs),
                 dk_next := Suc (dk_next d)\<rparr>)"

definition CreateFile :: "string \<Rightarrow> (Disk, unit) em" where
  "CreateFile path = emodify (ofstream_write path [])"

definition RemoveFile :: "string \<Rightarrow> (Disk, unit) em" where
  "RemoveFile path d =
     (if FileExists path d then (Inr (), d\<lparr>dk_names := (dk_names d)(path := None)\<rparr>)
      else if DirectoryExists path d \<and> (\<exists>q \<in> set (dk_dirs d). q \<noteq> path \<and> below path q)
      then (Inl (RuntimeError ''remove''), d)
      else (Inr (), d\<lparr>dk_dirs := filter (\<lambda>q. q \<noteq> path) (dk_dirs d)\<rparr>))"

definition OpenFile :: "string \<Rightarrow> (Disk, unit) em" where
  "OpenFile path d =
     (case dk_names d path of
        Some i \<Rightarrow> (Inr (), d\<lparr>dk_open := (dk_open d)(path \<mapsto> \<lparr>st_ino = i, st_fail = False\<rparr>)\<rparr>)
      | None \<Rightarrow> (Inl (DbException (''file '' @ path @ '' does not exist'')),
                 d\<lparr>dk_open := (dk_open d)(path \<mapsto> \<lparr>st_ino = 0, st_fail = True\<rparr>)\<rparr>))"

definition CloseFile :: "string \<Rightarrow> (Disk, unit) em" where
  "CloseFile path = emodify (\<lambda>d. d\<lparr>dk_open := (dk_open d)(path := None)\<rparr>)"

section \<open>Paths\<close>

definition GetFilePath :: "oid_t \<Rightarrow> oid_t \<Rightarrow> string" where
  "GetFilePath db_oid table_oid = nat_to_string (unat db_oid) @ ''/'' @ nat_to_string (unat table_oid)"

text \<open>\<^verbatim>\<open>std::stoi\<close>: blanks, a sign and digits; no digits and a value out of range of \<^verbatim>\<open>int\<close> throw.\<close>

definition stoi :: "string \<Rightarrow> int result" where
  "stoi s =
     (let s1 = dropWhile is_space s;
          neg = (s1 \<noteq> [] \<and> hd s1 = CHR ''-'');
          s2 = (if s1 \<noteq> [] \<and> (hd s1 = CHR ''-'' \<or> hd s1 = CHR ''+'') then tl s1 else s1);
          n = int (read_digits 0 s2);
          i = (if neg then - n else n)
      in if s2 = [] \<or> \<not> is_digit (hd s2) then Inl (RuntimeError ''stoi'')
         else if i < - (2 ^ 31) \<or> 2 ^ 31 \<le> i then Inl OutOfRange
         else Inr i)"

definition GetOid :: "string \<Rightarrow> (oid_t \<times> oid_t) result" where
  "GetOid path =
     (let oids = Split CHR ''/'' path
      in if length oids < 2 then Inl (Undefined ''vector index out of range'')
         else rbind (stoi (oids ! 0)) (\<lambda>a. rbind (stoi (oids ! 1)) (\<lambda>b. Inr (of_int a, of_int b))))"

section \<open>Pages\<close>

definition count_access :: "string \<Rightarrow> (Disk, unit) em" where
  "count_access path =
     ebind (elift (GetOid path)) (\<lambda>(db, tb).
       emodify (\<lambda>d. if db \<noteq> SYSTEM_DATABASE_OID then d\<lparr>dk_access := dk_access d + 1\<rparr> else d))"

definition ensure_open :: "string \<Rightarrow> (Disk, unit) em" where
  "ensure_open path d = (if dk_open d path = None then OpenFile path d else (Inr (), d))"

definition set_fail :: "string \<Rightarrow> Disk \<Rightarrow> Disk" where
  "set_fail path d = d\<lparr>dk_open := (dk_open d)(path := map_option (\<lambda>s. s\<lparr>st_fail := True\<rparr>) (dk_open d path))\<rparr>"

definition ReadPage :: "string \<Rightarrow> pageid_t \<Rightarrow> (Disk, byte list) em" where
  "ReadPage path page_id =
     ebind (count_access path) (\<lambda>_.
     ebind (ensure_open path) (\<lambda>_ d.
       let fs = the (dk_open d path);
           got = slice (unat page_id * DB_PAGE_SIZE) DB_PAGE_SIZE (dk_data d (st_ino fs))
       in if st_fail fs then (Inl (DbException ''fstream failed in Disk::ReadPage''), d)
          else if length got \<noteq> DB_PAGE_SIZE
          then (Inl (DbException (path @ '' read page '' @ nat_to_string (unat page_id) @ '' failed: read ''
                       @ nat_to_string (length got) @ '' bytes, expected '' @ nat_to_string DB_PAGE_SIZE @ '' bytes'')),
                set_fail path d)
          else (Inr got, d)))"

definition WritePage :: "string \<Rightarrow> pageid_t \<Rightarrow> byte list \<Rightarrow> (Disk, unit) em" where
  "WritePage path page_id data d0 =
     (if \<not> FileExists path d0 then (Inr (), d0)
      else ebind (ensure_open path) (\<lambda>_.
           ebind (count_access path) (\<lambda>_ d.
             let fs = the (dk_open d path);
                 i = st_ino fs
             in if st_fail fs then (Inl (DbException ''fstream failed in Disk::WritePage''), d)
                else (Inr (), d\<lparr>dk_data := (dk_data d)(i := file_write (unat page_id * DB_PAGE_SIZE)
                                                        (take DB_PAGE_SIZE data) (dk_data d i))\<rparr>))) d0)"

section \<open>The log file\<close>

definition ReadLog :: "32 word \<Rightarrow> 32 word \<Rightarrow> (Disk, byte list) em" where
  "ReadLog offset count d =
     (let got = slice (unat offset) (unat count) (dk_log d)
      in if dk_log_fail d then (Inl (DbException ''fstream failed in Disk::ReadLog''), d)
         else if length got \<noteq> unat count
         then (Inl (DbException (''read log failed (offset: '' @ nat_to_string (unat offset) @ '', count: ''
                      @ nat_to_string (unat count) @ '', read: '' @ nat_to_string (length got) @ '')'')),
               d\<lparr>dk_log_fail := True\<rparr>)
         else (Inr got, d))"

definition WriteLog :: "32 word \<Rightarrow> 32 word \<Rightarrow> byte list \<Rightarrow> (Disk, unit) em" where
  "WriteLog offset count data d =
     (if dk_log_fail d then (Inl (DbException ''fstream failed in Disk::WriteLog''), d)
      else let d1 = (if unat (offset + count) > unat (dk_segments d) * LOG_SEGMENT_SIZE
                     then d\<lparr>dk_segments := dk_segments d + 1,
                            dk_log := file_resize (unat (dk_segments d + 1) * LOG_SEGMENT_SIZE) (dk_log d)\<rparr>
                     else d)
           in (Inr (), d1\<lparr>dk_log := file_write (unat offset) (take (unat count) data) (dk_log d1)\<rparr>))"

definition GetAccessCount :: "Disk \<Rightarrow> 32 word" where
  "GetAccessCount d = dk_access d"

section \<open>Small text files\<close>

text \<open>\<^verbatim>\<open>out << n\<close> into a fresh output stream, and \<^verbatim>\<open>in >> n\<close> of a 64-bit unsigned number.\<close>

definition write_number :: "string \<Rightarrow> 64 word \<Rightarrow> Disk \<Rightarrow> Disk" where
  "write_number path n = ofstream_write path (map char_byte (nat_to_string (unat n)))"

definition parse_u64 :: "64 word \<Rightarrow> string \<Rightarrow> 64 word" where
  "parse_u64 old s =
     (let s1 = dropWhile is_space s;
          neg = (s1 \<noteq> [] \<and> hd s1 = CHR ''-'');
          s2 = (if s1 \<noteq> [] \<and> (hd s1 = CHR ''-'' \<or> hd s1 = CHR ''+'') then tl s1 else s1);
          ds = takeWhile is_digit s2;
          n = read_digits 0 ds
      in if s1 = [] then old
         else if ds = [] then 0
         else if n \<ge> 2 ^ 64 then - 1
         else if neg then - of_nat n else of_nat n)"

definition read_number :: "string \<Rightarrow> 64 word \<Rightarrow> Disk \<Rightarrow> 64 word" where
  "read_number path old d =
     (case dk_names d path of
        None \<Rightarrow> old
      | Some i \<Rightarrow> parse_u64 old (map byte_char (dk_data d i)))"

section \<open>Paths round trip\<close>

lemma slash_not_digit: "CHR ''/'' \<notin> set (nat_to_string n)"
proof
  assume "CHR ''/'' \<in> set (nat_to_string n)"
  then obtain d where "d < 10" "CHR ''/'' = digit_char d"
    using set_nat_to_string by blast
  then show False
    by (auto simp: digit_char_def dest: arg_cong [where f = "of_char :: char \<Rightarrow> nat"])
qed

lemma hd_nat_to_string: "is_digit (hd (nat_to_string n))" "\<not> is_space (hd (nat_to_string n))"
  using set_nat_to_string [of "hd (nat_to_string n)" n] digit_char_not_space is_digit_digit_char by force+

lemma is_digit_not_sign: "is_digit c \<Longrightarrow> c \<noteq> CHR ''-'' \<and> c \<noteq> CHR ''+''"
  by (auto simp: is_digit_def char_digit_def)

lemma stoi_nat_to_string: "n < 2 ^ 31 \<Longrightarrow> stoi (nat_to_string n) = Inr (int n)"
proof -
  assume n: "n < 2 ^ 31"
  have "dropWhile is_space (nat_to_string n) = nat_to_string n"
    using hd_nat_to_string(2) [of n] by (cases "nat_to_string n") auto
  then show ?thesis
    using n hd_nat_to_string(1) [of n] is_digit_not_sign [OF hd_nat_to_string(1) [of n]]
    by (simp add: stoi_def Let_def)
qed

lemma GetOid_GetFilePath:
  assumes "unat db < 2 ^ 31" "unat tb < 2 ^ 31"
  shows "GetOid (GetFilePath db tb) = Inr (db, tb)"
proof -
  have "Split CHR ''/'' (GetFilePath db tb) = [nat_to_string (unat db), nat_to_string (unat tb)]"
    unfolding GetFilePath_def using slash_not_digit nat_to_string_last_not_space Split_two by simp
  then show ?thesis
    using assms by (simp add: GetOid_def stoi_nat_to_string)
qed

lemma GetFilePath_inject: "GetFilePath a b = GetFilePath c d \<longleftrightarrow> a = c \<and> b = d"
proof
  assume e: "GetFilePath a b = GetFilePath c d"
  have t: "takeWhile (\<lambda>x. x \<noteq> CHR ''/'') (GetFilePath a b) = nat_to_string (unat a)" for a b
    using slash_not_digit [of "unat a"] by (subst GetFilePath_def, subst takeWhile_append2) auto
  then have "nat_to_string (unat a) = nat_to_string (unat c)"
    using e by metis
  then show "a = c \<and> b = d"
    using e by (simp add: GetFilePath_def word_unat_eq_iff)
qed simp

section \<open>Contents of pages\<close>

definition page_content :: "Disk \<Rightarrow> string \<Rightarrow> pageid_t \<Rightarrow> byte list option" where
  "page_content d path pid =
     (case dk_names d path of
        None \<Rightarrow> None
      | Some i \<Rightarrow> (if (unat pid + 1) * 256 \<le> length (dk_data d i) then Some (slice (unat pid * 256) 256 (dk_data d i))
                   else None))"

definition stream_ok :: "Disk \<Rightarrow> string \<Rightarrow> bool" where
  "stream_ok d path \<longleftrightarrow> (\<forall>s. dk_open d path = Some s \<longrightarrow> \<not> st_fail s \<and> dk_names d path = Some (st_ino s))"

definition names_ok :: "Disk \<Rightarrow> bool" where
  "names_ok d \<longleftrightarrow> inj_on (dk_names d) (dom (dk_names d)) \<and> (\<forall>p i. dk_names d p = Some i \<longrightarrow> i < dk_next d)"

definition disk_ok :: "Disk \<Rightarrow> bool" where
  "disk_ok d \<longleftrightarrow> names_ok d \<and> (\<forall>p. stream_ok d p)"

lemma file_write_length [simp]: "length (file_write off ds bs) = max (length bs) (off + length ds)"
  by (simp add: file_write_def)

lemma slice_file_write_same: "n = length ds \<Longrightarrow> slice off n (file_write off ds bs) = ds"
  by (simp add: file_write_def)

lemma slice_file_write_other:
  assumes "o' + n \<le> length bs" "o' + n \<le> off \<or> off + length ds \<le> o'"
  shows "slice o' n (file_write off ds bs) = slice o' n bs"
  using assms unfolding file_write_def
  by (subst slice_splice_disjoint) (auto simp: slice_append_left)

lemma ensure_open_ok:
  assumes "stream_ok d path" "dk_names d path = Some i"
  shows "ensure_open path d = (Inr (), d\<lparr>dk_open := (dk_open d)(path \<mapsto> \<lparr>st_ino = i, st_fail = False\<rparr>)\<rparr>)"
proof (cases "dk_open d path")
  case None
  then show ?thesis using assms by (simp add: ensure_open_def OpenFile_def)
next
  case (Some s)
  then have "s = \<lparr>st_ino = i, st_fail = False\<rparr>"
    using assms by (cases s) (simp add: stream_ok_def)
  then have "(dk_open d)(path \<mapsto> \<lparr>st_ino = i, st_fail = False\<rparr>) = dk_open d"
    using Some by auto
  then show ?thesis
    using Some by (simp add: ensure_open_def)
qed

text \<open>The disk after a counted access with the stream of the path open.\<close>

definition touched :: "string \<Rightarrow> oid_t \<Rightarrow> nat \<Rightarrow> Disk \<Rightarrow> Disk" where
  "touched path db i d = d\<lparr>dk_open := (dk_open d)(path \<mapsto> \<lparr>st_ino = i, st_fail = False\<rparr>),
                          dk_access := dk_access d + (if db \<noteq> SYSTEM_DATABASE_OID then 1 else 0)\<rparr>"

lemma touched_fields [simp]:
  "dk_names (touched path db i d) = dk_names d" "dk_data (touched path db i d) = dk_data d"
  "dk_next (touched path db i d) = dk_next d" "dk_log (touched path db i d) = dk_log d"
  "dk_dirs (touched path db i d) = dk_dirs d"
  "dk_log_fail (touched path db i d) = dk_log_fail d" "dk_segments (touched path db i d) = dk_segments d"
  "page_content (touched path db i d) = page_content d"
  by (simp_all add: touched_def page_content_def fun_eq_iff split: option.split)

lemma touched_ok: "disk_ok d \<Longrightarrow> dk_names d path = Some i \<Longrightarrow> disk_ok (touched path db i d)"
  by (auto simp: disk_ok_def names_ok_def stream_ok_def touched_def)

lemma ReadPage_eq:
  assumes "stream_ok d path" "GetOid path = Inr (db, tb)" "dk_names d path = Some i"
  shows "ReadPage path pid d =
     (case page_content d path pid of
        Some bs \<Rightarrow> (Inr bs, touched path db i d)
      | None \<Rightarrow> (Inl (DbException (path @ '' read page '' @ nat_to_string (unat pid) @ '' failed: read ''
                       @ nat_to_string (length (slice (unat pid * 256) 256 (dk_data d i)))
                       @ '' bytes, expected '' @ nat_to_string DB_PAGE_SIZE @ '' bytes'')),
                set_fail path (touched path db i d)))"
proof -
  let ?d1 = "if db \<noteq> SYSTEM_DATABASE_OID then d\<lparr>dk_access := dk_access d + 1\<rparr> else d"
  have so: "stream_ok ?d1 path" "dk_names ?d1 path = Some i"
    using assms by (auto simp: stream_ok_def)
  have acc: "count_access path d = (Inr (), ?d1)"
    using assms(2) by (simp add: count_access_def ebind_def)
  have t: "?d1\<lparr>dk_open := (dk_open ?d1)(path \<mapsto> \<lparr>st_ino = i, st_fail = False\<rparr>)\<rparr> = touched path db i d"
    by (simp add: touched_def)
  have "length (slice (unat pid * 256) 256 (dk_data d i)) = 256 \<longleftrightarrow> (unat pid + 1) * 256 \<le> length (dk_data d i)"
    by (auto simp: slice_def)
  then show ?thesis
    unfolding ReadPage_def ebind_def acc prod.case sum.case ensure_open_ok [OF so] t
    by (simp add: Let_def page_content_def assms(3)) (simp add: touched_def)
qed

lemma WritePage_eq:
  assumes "stream_ok d path" "GetOid path = Inr (db, tb)" "dk_names d path = Some i" "length data = 256"
  shows "WritePage path pid data d = (Inr (), (touched path db i d)
     \<lparr>dk_data := (dk_data d)(i := file_write (unat pid * 256) data (dk_data d i))\<rparr>)"
proof -
  let ?d1 = "d\<lparr>dk_open := (dk_open d)(path \<mapsto> \<lparr>st_ino = i, st_fail = False\<rparr>)\<rparr>"
  have acc: "count_access path ?d1 = (Inr (), touched path db i d)"
    using assms(2) by (simp add: count_access_def ebind_def touched_def)
  have ex: "FileExists path d" using assms(3) by (simp add: FileExists_def)
  show ?thesis
    unfolding WritePage_def ebind_def ensure_open_ok [OF assms(1,3)] prod.case sum.case acc
    using ex by (simp add: Let_def assms(4)) (simp add: touched_def)
qed

section \<open>The page store interface\<close>

text \<open>
  What the buffer pool relies on: a page that has contents can be read without changing any
  contents, a write to a writable page stores the block there and keeps all other pages, and
  neither touches the rest of the state.
\<close>

locale page_store =
  fixes rd :: "'k \<Rightarrow> ('s, byte list) em" and wr :: "'k \<Rightarrow> byte list \<Rightarrow> ('s, unit) em"
    and content :: "'s \<Rightarrow> 'k \<Rightarrow> byte list option" and writable :: "'s \<Rightarrow> 'k \<Rightarrow> bool"
    and good :: "'s \<Rightarrow> bool" and rest :: "'s \<Rightarrow> 'r"
  assumes rd_ok: "good s \<Longrightarrow> content s k = Some b \<Longrightarrow>
      \<exists>s'. rd k s = (Inr b, s') \<and> good s' \<and> content s' = content s \<and> writable s' = writable s \<and> rest s' = rest s"
    and wr_ok: "good s \<Longrightarrow> writable s k \<Longrightarrow> length b = 256 \<Longrightarrow>
      \<exists>s'. wr k b s = (Inr (), s') \<and> good s' \<and> writable s' = writable s \<and> rest s' = rest s \<and>
        content s' k = Some b \<and> (\<forall>k' c. k' \<noteq> k \<longrightarrow> content s k' = Some c \<longrightarrow> content s' k' = Some c)"
    and content_writable: "content s k = Some b \<Longrightarrow> writable s k"
begin

text \<open>Writing a list of blocks: every key holds its last block, every other page is as before.\<close>

definition write_all :: "('k \<times> byte list) list \<Rightarrow> ('s, unit) em" where
  "write_all kbs = efor (\<lambda>(k, b). wr k b) kbs"

lemma write_all_ok:
  assumes "good s" "\<forall>(k, b) \<in> set kbs. writable s k \<and> length b = 256"
  shows "\<exists>s'. write_all kbs s = (Inr (), s') \<and> good s' \<and> writable s' = writable s \<and> rest s' = rest s \<and>
     (\<forall>k. case map_of (rev kbs) k of Some b \<Rightarrow> content s' k = Some b
          | None \<Rightarrow> (\<forall>c. content s k = Some c \<longrightarrow> content s' k = Some c))"
  using assms
proof (induction kbs arbitrary: s)
  case Nil
  then show ?case by (simp add: write_all_def)
next
  case (Cons kb kbs)
  obtain k b where kb: "kb = (k, b)" by (cases kb)
  obtain s1 where s1: "wr k b s = (Inr (), s1)" "good s1" "writable s1 = writable s" "rest s1 = rest s"
    "content s1 k = Some b" "\<forall>k' c. k' \<noteq> k \<longrightarrow> content s k' = Some c \<longrightarrow> content s1 k' = Some c"
    using wr_ok [of s k b] Cons.prems kb by auto
  have "\<forall>(k, b) \<in> set kbs. writable s1 k \<and> length b = 256"
    using Cons.prems(2) s1(3) by auto
  then obtain s2 where s2: "write_all kbs s1 = (Inr (), s2)" "good s2" "writable s2 = writable s1" "rest s2 = rest s1"
    "\<forall>k. case map_of (rev kbs) k of Some b \<Rightarrow> content s2 k = Some b
         | None \<Rightarrow> (\<forall>c. content s1 k = Some c \<longrightarrow> content s2 k = Some c)"
    using Cons.IH [OF s1(2)] by blast
  have "write_all (kb # kbs) s = (Inr (), s2)"
    using s1(1) s2(1) kb by (simp add: write_all_def ebind_def)
  moreover have "case map_of (rev (kb # kbs)) k' of Some b \<Rightarrow> content s2 k' = Some b
         | None \<Rightarrow> (\<forall>c. content s k' = Some c \<longrightarrow> content s2 k' = Some c)" for k'
    using s2(5) [rule_format, of k'] s1(5,6) kb
    by (auto simp: map_add_def split: option.splits)
  ultimately show ?case
    using s1(3,4) s2(2-4) by (intro exI [of _ s2]) simp
qed

end

type_synonym page_key = "oid_t \<times> oid_t \<times> pageid_t"

definition key_path :: "page_key \<Rightarrow> string" where
  "key_path k = GetFilePath (fst k) (fst (snd k))"

definition oids_small :: "page_key \<Rightarrow> bool" where
  "oids_small k \<longleftrightarrow> unat (fst k) < 2 ^ 31 \<and> unat (fst (snd k)) < 2 ^ 31"

definition disk_content :: "Disk \<Rightarrow> page_key \<Rightarrow> byte list option" where
  "disk_content d k = (if oids_small k then page_content d (key_path k) (snd (snd k)) else None)"

definition disk_writable :: "Disk \<Rightarrow> page_key \<Rightarrow> bool" where
  "disk_writable d k \<longleftrightarrow> oids_small k \<and> FileExists (key_path k) d"

text \<open>The contents of the files that are not table files.\<close>

definition plain_file :: "Disk \<Rightarrow> string \<Rightarrow> byte list option" where
  "plain_file d p = (if CHR ''/'' \<in> set p then None else map_option (dk_data d) (dk_names d p))"

definition disk_rest ::
    "Disk \<Rightarrow> byte list \<times> bool \<times> 32 word \<times> (string \<rightharpoonup> nat) \<times> nat \<times> string list \<times> (string \<rightharpoonup> byte list)" where
  "disk_rest d = (dk_log d, dk_log_fail d, dk_segments d, dk_names d, dk_next d, dk_dirs d, plain_file d)"

definition disk_read :: "page_key \<Rightarrow> (Disk, byte list) em" where
  "disk_read k = ReadPage (key_path k) (snd (snd k))"

definition disk_write :: "page_key \<Rightarrow> byte list \<Rightarrow> (Disk, unit) em" where
  "disk_write k b = WritePage (key_path k) (snd (snd k)) b"

lemma GetOid_key_path: "oids_small k \<Longrightarrow> GetOid (key_path k) = Inr (fst k, fst (snd k))"
  by (simp add: oids_small_def key_path_def GetOid_GetFilePath)

lemma key_path_slash: "CHR ''/'' \<in> set (key_path k)"
  by (simp add: key_path_def GetFilePath_def)

lemma names_ok_inj: "names_ok d \<Longrightarrow> dk_names d p = Some i \<Longrightarrow> dk_names d q = Some i \<Longrightarrow> p = q"
  by (metis (no_types, lifting) domI inj_onD names_ok_def)

lemma disk_read_ok:
  assumes "disk_ok d" "disk_content d k = Some b"
  obtains i where "dk_names d (key_path k) = Some i" "disk_read k d = (Inr b, touched (key_path k) (fst k) i d)"
proof -
  have k: "oids_small k" and pc: "page_content d (key_path k) (snd (snd k)) = Some b"
    using assms(2) by (auto simp: disk_content_def split: if_splits)
  then obtain i where i: "dk_names d (key_path k) = Some i"
    by (auto simp: page_content_def split: option.splits)
  have so: "stream_ok d (key_path k)" using assms(1) by (simp add: disk_ok_def)
  show thesis
    using that ReadPage_eq [OF so GetOid_key_path [OF k] i, of "snd (snd k)"] pc i by (simp add: disk_read_def)
qed

lemma page_content_write:
  fixes db :: oid_t and pid pid' :: pageid_t
  assumes "names_ok d" "dk_names d path = Some i" "length b = 256"
  defines "d' \<equiv> (touched path db i d)\<lparr>dk_data := (dk_data d)(i := file_write (unat pid * 256) b (dk_data d i))\<rparr>"
  shows "page_content d' path pid = Some b"
    "(path', pid') \<noteq> (path, pid) \<Longrightarrow> page_content d path' pid' = Some c \<Longrightarrow> page_content d' path' pid' = Some c"
proof -
  show "page_content d' path pid = Some b"
    using assms(2,3) by (simp add: page_content_def d'_def slice_file_write_same add.commute)
  assume ne: "(path', pid') \<noteq> (path, pid)" and c: "page_content d path' pid' = Some c"
  then obtain j where j: "dk_names d path' = Some j" "(unat pid' + 1) * 256 \<le> length (dk_data d j)"
    "c = slice (unat pid' * 256) 256 (dk_data d j)"
    by (auto simp: page_content_def split: option.splits if_splits)
  show "page_content d' path' pid' = Some c"
  proof (cases "path' = path")
    case True
    then have ij: "j = i" and "pid' \<noteq> pid" using j(1) assms(2) ne by auto
    then have "unat pid' \<noteq> unat pid" by (simp add: word_unat_eq_iff)
    then have "unat pid' * 256 + 256 \<le> unat pid * 256 \<or> unat pid * 256 + length b \<le> unat pid' * 256"
      using assms(3) by linarith
    then have "slice (unat pid' * 256) 256 (file_write (unat pid * 256) b (dk_data d i)) = c"
      unfolding j(3) ij using j(2) ij by (intro slice_file_write_other) auto
    then show ?thesis
      using True j(1,2) ij by (simp add: page_content_def d'_def)
  next
    case False
    then have "j \<noteq> i"
      using assms(1,2) j(1) by (metis (no_types, lifting) domI inj_onD names_ok_def)
    then show ?thesis
      using j by (simp add: page_content_def d'_def)
  qed
qed

lemma key_path_eq_iff: "(key_path k, snd (snd k)) = (key_path k', snd (snd k')) \<longleftrightarrow> k = k'"
  by (auto simp: key_path_def GetFilePath_inject prod_eq_iff)

interpretation dsk: page_store disk_read disk_write disk_content disk_writable disk_ok disk_rest
proof
  fix d k b
  assume ok: "disk_ok d" and c: "disk_content d k = Some b"
  obtain i where i: "dk_names d (key_path k) = Some i" "disk_read k d = (Inr b, touched (key_path k) (fst k) i d)"
    by (rule disk_read_ok [OF ok c])
  then show "\<exists>s'. disk_read k d = (Inr b, s') \<and> disk_ok s' \<and> disk_content s' = disk_content d \<and>
      disk_writable s' = disk_writable d \<and> disk_rest s' = disk_rest d"
    using touched_ok [OF ok i(1)]
    by (auto simp: disk_content_def disk_writable_def disk_rest_def plain_file_def FileExists_def fun_eq_iff)
next
  fix d k and b :: "byte list"
  assume ok: "disk_ok d" and w: "disk_writable d k" and l: "length b = 256"
  obtain i where i: "dk_names d (key_path k) = Some i" and k: "oids_small k"
    using w by (auto simp: disk_writable_def FileExists_def)
  have so: "stream_ok d (key_path k)" and nm: "names_ok d" using ok by (simp_all add: disk_ok_def)
  let ?d' = "(touched (key_path k) (fst k) i d)
     \<lparr>dk_data := (dk_data d)(i := file_write (unat (snd (snd k)) * 256) b (dk_data d i))\<rparr>"
  have "disk_write k b d = (Inr (), ?d')"
    unfolding disk_write_def by (rule WritePage_eq [OF so GetOid_key_path [OF k] i l])
  moreover have "disk_ok ?d'"
    using touched_ok [OF ok i] by (auto simp: disk_ok_def names_ok_def stream_ok_def)
  moreover have "j \<noteq> i" if "CHR ''/'' \<notin> set q" "dk_names d q = Some j" for q j
    using names_ok_inj [OF nm i, of q] that key_path_slash by metis
  then have "plain_file ?d' = plain_file d"
    by (auto simp: plain_file_def fun_eq_iff map_option_case split: option.split)
  then have "disk_writable ?d' = disk_writable d" "disk_rest ?d' = disk_rest d"
    by (auto simp: disk_writable_def disk_rest_def FileExists_def)
  moreover have "disk_content ?d' k = Some b"
    using page_content_write(1) [OF nm i l] k by (simp add: disk_content_def)
  moreover have "disk_content ?d' k' = Some c" if "k' \<noteq> k" "disk_content d k' = Some c" for k' c
    using page_content_write(2) [OF nm i l, of "key_path k'" "snd (snd k')"] that key_path_eq_iff [of k' k]
    by (auto simp: disk_content_def split: if_splits)
  ultimately show "\<exists>s'. disk_write k b d = (Inr (), s') \<and> disk_ok s' \<and> disk_writable s' = disk_writable d \<and>
      disk_rest s' = disk_rest d \<and> disk_content s' k = Some b \<and>
      (\<forall>k' c. k' \<noteq> k \<longrightarrow> disk_content d k' = Some c \<longrightarrow> disk_content s' k' = Some c)"
    by blast
next
  fix d k b
  assume "disk_content d k = Some b"
  then show "disk_writable d k"
    by (auto simp: disk_content_def disk_writable_def page_content_def FileExists_def split: if_splits option.splits)
qed

section \<open>The log file\<close>

definition log_ok :: "Disk \<Rightarrow> bool" where
  "log_ok d \<longleftrightarrow> \<not> dk_log_fail d \<and> length (dk_log d) = unat (dk_segments d) * LOG_SEGMENT_SIZE \<and> unat (dk_segments d) < 4095"

lemma ReadLog_ok:
  "\<not> dk_log_fail d \<Longrightarrow> unat off + unat n \<le> length (dk_log d) \<Longrightarrow>
   ReadLog off n d = (Inr (slice (unat off) (unat n) (dk_log d)), d)"
  by (simp add: ReadLog_def)

lemma ReadLog_short:
  assumes "\<not> dk_log_fail d" "length (dk_log d) < unat off + unat n" "n \<noteq> 0"
  shows "\<exists>e. ReadLog off n d = (Inl e, d\<lparr>dk_log_fail := True\<rparr>)"
proof -
  have "unat n \<noteq> 0" using assms(3) by (simp add: unat_eq_0)
  then have "length (dk_log d) - unat off \<noteq> unat n" using assms(2) by linarith
  then show ?thesis using assms(1,2) by (simp add: ReadLog_def slice_def Let_def)
qed

lemma file_resize_slice:
  "off + n \<le> length bs \<Longrightarrow> length bs \<le> m \<Longrightarrow> slice off n (file_resize m bs) = slice off n bs"
  by (simp add: file_resize_def slice_append_left)

lemma WriteLog_ok:
  assumes "log_ok d" "length data = unat n" "unat off + unat n \<le> length (dk_log d) + LOG_SEGMENT_SIZE"
  obtains d' where "WriteLog off n data d = (Inr (), d')" "slice (unat off) (unat n) (dk_log d') = data"
    "\<And>o' m. o' + m \<le> length (dk_log d) \<Longrightarrow> o' + m \<le> unat off \<or> unat off + unat n \<le> o' \<Longrightarrow>
       slice o' m (dk_log d') = slice o' m (dk_log d)"
    "length (dk_log d') = unat (dk_segments d') * LOG_SEGMENT_SIZE" "length (dk_log d) \<le> length (dk_log d')"
    "\<not> dk_log_fail d'" "unat (dk_segments d') \<le> unat (dk_segments d) + 1"
    "unat off + unat n \<le> length (dk_log d')"
    "d' = d\<lparr>dk_log := dk_log d', dk_segments := dk_segments d'\<rparr>"
    "unat off + unat n \<le> 4094 * LOG_SEGMENT_SIZE \<Longrightarrow> log_ok d'"
proof -
  let ?S = "LOG_SEGMENT_SIZE"
  have len: "length (dk_log d) = unat (dk_segments d) * ?S" and nf: "\<not> dk_log_fail d" and sg: "unat (dk_segments d) < 4095"
    using assms(1) by (simp_all add: log_ok_def)
  have sum: "unat (off + n) = unat off + unat n"
    using assms(3) len sg by (intro unat_add_small) simp
  have sg1: "unat (dk_segments d + 1) = unat (dk_segments d) + 1"
    using sg by (subst unat_add_small) simp_all
  define d1 where "d1 = (if unat (off + n) > unat (dk_segments d) * ?S
                     then d\<lparr>dk_segments := dk_segments d + 1, dk_log := file_resize (unat (dk_segments d + 1) * ?S) (dk_log d)\<rparr>
                     else d)"
  have l1: "length (dk_log d1) = unat (dk_segments d1) * ?S" "length (dk_log d) \<le> length (dk_log d1)"
    "unat off + unat n \<le> length (dk_log d1)"
    using len sg1 sum assms(3) by (auto simp: d1_def file_resize_def)
  have old: "slice o' m (dk_log d1) = slice o' m (dk_log d)" if "o' + m \<le> length (dk_log d)" for o' m
    using that len sg1 by (auto simp: d1_def intro: file_resize_slice)
  let ?d' = "d1\<lparr>dk_log := file_write (unat off) data (dk_log d1)\<rparr>"
  have "WriteLog off n data d = (Inr (), ?d')"
    using nf assms(2) by (simp add: WriteLog_def Let_def d1_def)
  moreover have "slice (unat off) (unat n) (dk_log ?d') = data"
    using assms(2) by (simp add: slice_file_write_same)
  moreover have "slice o' m (dk_log ?d') = slice o' m (dk_log d)"
    if "o' + m \<le> length (dk_log d)" "o' + m \<le> unat off \<or> unat off + unat n \<le> o'" for o' m
    using that l1 assms(2) old by (simp add: slice_file_write_other)
  moreover have l2: "length (dk_log ?d') = length (dk_log d1)"
    using l1(3) assms(2) by simp
  moreover have "log_ok ?d'" if "unat off + unat n \<le> 4094 * ?S"
    using that l1(1) l2 nf sg sg1 sum by (auto simp: log_ok_def d1_def split: if_splits)
  ultimately show thesis
    using that [of ?d'] l1 nf sg1 by (auto simp: d1_def)
qed

section \<open>Number files\<close>

lemma parse_u64_nat: "parse_u64 old (nat_to_string (unat n)) = n"
proof -
  have dw: "dropWhile is_space (nat_to_string (unat n)) = nat_to_string (unat n)"
    using hd_nat_to_string(2) [of "unat n"] by (cases "nat_to_string (unat n)") auto
  have tw: "takeWhile is_digit (nat_to_string (unat n)) = nat_to_string (unat n)"
    using is_digit_nat_to_string by (simp add: takeWhile_eq_all_conv)
  have sg: "hd (nat_to_string (unat n)) \<noteq> CHR ''-''" "hd (nat_to_string (unat n)) \<noteq> CHR ''+''"
    using is_digit_not_sign [OF hd_nat_to_string(1)] by simp_all
  have "unat n < 2 ^ 64" using unat_less_exp [of n] by simp
  then show ?thesis
    unfolding parse_u64_def Let_def dw using sg tw by (simp only: if_False if_True simp_thms nat_to_string_not_Nil) simp
qed

lemma read_number_write:
  assumes "\<not> DirectoryExists path d" "parent_exists path d"
  shows "read_number path old (write_number path n d) = n"
  using assms
  by (auto simp: read_number_def write_number_def ofstream_write_def parse_u64_nat split: option.split)

text \<open>Number files are not table files: writing one keeps every page.\<close>

lemma write_number_log [simp]:
  "dk_log (write_number path n d) = dk_log d" "dk_log_fail (write_number path n d) = dk_log_fail d"
  "dk_segments (write_number path n d) = dk_segments d" "dk_dirs (write_number path n d) = dk_dirs d"
  "dk_access (write_number path n d) = dk_access d"
  by (simp_all add: write_number_def ofstream_write_def split: option.split)

lemma write_number_other:
  assumes "names_ok d" "q \<noteq> path"
  shows "dk_names (write_number path n d) q = dk_names d q"
    "dk_names d q = Some i \<Longrightarrow> dk_data (write_number path n d) i = dk_data d i"
proof -
  have ne: "i \<noteq> j" if "dk_names d q = Some i" "dk_names d path = Some j" for i j
    using that names_ok_inj [OF assms(1)] assms(2) by blast
  have nx: "i \<noteq> dk_next d" if "dk_names d q = Some i" for i
    using that assms(1) by (auto simp: names_ok_def)
  show "dk_names (write_number path n d) q = dk_names d q"
    "dk_names d q = Some i \<Longrightarrow> dk_data (write_number path n d) i = dk_data d i"
    unfolding write_number_def ofstream_write_def
    using assms(2) ne nx by (simp_all split: option.split)
qed

lemma write_number_frame:
  assumes "disk_ok d" "CHR ''/'' \<notin> set path"
  shows "disk_ok (write_number path n d)" "disk_content (write_number path n d) = disk_content d"
    "disk_writable (write_number path n d) = disk_writable d"
proof -
  let ?d' = "write_number path n d"
  have nok: "names_ok d" using assms(1) by (simp add: disk_ok_def)
  note inj = names_ok_inj [OF nok]
  have bnd: "dk_names d p = Some i \<Longrightarrow> i < dk_next d" for p i
    using nok by (simp add: names_ok_def)
  have so: "dk_open d p = Some s \<Longrightarrow> \<not> st_fail s \<and> dk_names d p = Some (st_ino s)" for p s
    using assms(1) by (simp add: disk_ok_def stream_ok_def)
  note nm = write_number_other [OF nok]
  have kp: "key_path k \<noteq> path" for k using assms(2) key_path_slash by metis
  show "disk_content ?d' = disk_content d"
    by (auto simp: disk_content_def page_content_def fun_eq_iff nm(1) [OF kp] nm(2) [OF kp] split: option.split)
  show "disk_writable ?d' = disk_writable d"
    by (auto simp: disk_writable_def FileExists_def fun_eq_iff nm(1) [OF kp])
  consider i where "dk_names d path = Some i" "?d' = d\<lparr>dk_data := dk_data ?d'\<rparr>"
    | "?d' = d" | "dk_names d path = None" "dk_names ?d' = (dk_names d)(path \<mapsto> dk_next d)"
      "dk_next ?d' = Suc (dk_next d)" "dk_open ?d' = dk_open d"
    unfolding write_number_def ofstream_write_def
    by (cases "dk_names d path"; cases "DirectoryExists path d \<or> \<not> parent_exists path d") auto
  then show "disk_ok ?d'"
  proof cases
    case 1
    have "dk_names ?d' = dk_names d" "dk_next ?d' = dk_next d" "dk_open ?d' = dk_open d"
      by (subst 1(2), simp)+
    then show ?thesis
      using assms(1) by (simp add: disk_ok_def names_ok_def stream_ok_def)
  next
    case 2
    then show ?thesis using assms(1) by simp
  next
    case 3
    have "inj_on (dk_names ?d') (dom (dk_names ?d'))"
    proof (rule inj_onI)
      fix p q assume "p \<in> dom (dk_names ?d')" "dk_names ?d' p = dk_names ?d' q"
      then show "p = q"
        unfolding 3(2) using inj bnd by (metis domIff fun_upd_apply less_irrefl option.exhaust)
    qed
    moreover have "stream_ok ?d' q" for q
      using so [of q] 3(1,4) unfolding stream_ok_def 3(2) by auto
    moreover have "\<forall>p i. dk_names ?d' p = Some i \<longrightarrow> i < dk_next ?d'"
      unfolding 3(2,3) by (auto intro!: less_SucI intro: bnd)
    ultimately show ?thesis
      by (simp add: disk_ok_def names_ok_def)
  qed
qed

section \<open>Properties\<close>

lemma disk_read_iff:
  assumes "disk_ok d" "oids_small k"
  shows "fst (disk_read k d) = Inr b \<longleftrightarrow> disk_content d k = Some b"
proof
  assume "disk_content d k = Some b"
  then show "fst (disk_read k d) = Inr b"
    using dsk.rd_ok [OF assms(1)] by fastforce
next
  assume r: "fst (disk_read k d) = Inr b"
  have so: "stream_ok d (key_path k)" using assms(1) by (simp add: disk_ok_def)
  show "disk_content d k = Some b"
  proof (cases "dk_names d (key_path k)")
    case None
    then have "dk_open d (key_path k) = None" using so by (cases "dk_open d (key_path k)") (auto simp: stream_ok_def)
    then show ?thesis
      using r None GetOid_key_path [OF assms(2)]
      by (auto simp: disk_read_def ReadPage_def count_access_def ensure_open_def OpenFile_def ebind_def split: if_splits)
  next
    case (Some i)
    then show ?thesis
      using r ReadPage_eq [OF so GetOid_key_path [OF assms(2)] Some, of "snd (snd k)"] assms(2)
      by (auto simp: disk_read_def disk_content_def split: option.splits)
  qed
qed

text \<open>
  A page written by \<^verbatim>\<open>WritePage\<close> is what \<^verbatim>\<open>ReadPage\<close> returns for it afterwards, and the write changes
  what no other page of any table reads as. (The oids are below 2 to the 31, since \<^verbatim>\<open>GetOid\<close> parses
  the path with \<^verbatim>\<open>std::stoi\<close>.)
\<close>

theorem WritePage_ReadPage:
  assumes "disk_ok d" "unat db < 2 ^ 31" "unat tb < 2 ^ 31" "FileExists (GetFilePath db tb) d" "length data = 256"
  shows "\<exists>d'. WritePage (GetFilePath db tb) pid data d = (Inr (), d') \<and> disk_ok d'
     \<and> fst (ReadPage (GetFilePath db tb) pid d') = Inr data
     \<and> (\<forall>db' tb' pid' b. (db', tb', pid') \<noteq> (db, tb, pid) \<longrightarrow> unat db' < 2 ^ 31 \<longrightarrow> unat tb' < 2 ^ 31 \<longrightarrow>
          fst (ReadPage (GetFilePath db' tb') pid' d) = Inr b \<longrightarrow> fst (ReadPage (GetFilePath db' tb') pid' d') = Inr b)"
proof -
  have w: "disk_writable d (db, tb, pid)"
    using assms(2-4) by (simp add: disk_writable_def oids_small_def key_path_def)
  obtain d' where d': "disk_write (db, tb, pid) data d = (Inr (), d')" "disk_ok d'" "disk_content d' (db, tb, pid) = Some data"
    "\<forall>k' c. k' \<noteq> (db, tb, pid) \<longrightarrow> disk_content d k' = Some c \<longrightarrow> disk_content d' k' = Some c"
    using dsk.wr_ok [OF assms(1) w assms(5)] by blast
  have rd: "fst (ReadPage (GetFilePath a b) c x) = Inr y \<longleftrightarrow> disk_content x (a, b, c) = Some y"
    if "disk_ok x" "unat a < 2 ^ 31" "unat b < 2 ^ 31" for a b c x y
    using disk_read_iff [OF that(1), of "(a, b, c)"] that by (simp add: oids_small_def disk_read_def key_path_def)
  show ?thesis
    using d' rd [OF d'(2)] rd [OF assms(1)] assms(2,3)
    by (intro exI [of _ d']) (auto simp: disk_write_def key_path_def)
qed

definition sample_disk :: Disk where
  "sample_disk = \<lparr>dk_dirs = [''1'', ''2''], dk_names = [GetFilePath 2 10001 \<mapsto> 0], dk_data = (\<lambda>_. []), dk_next = 1, dk_open = Map.empty,
     dk_log = file_resize LOG_SEGMENT_SIZE [], dk_log_fail = False, dk_segments = 1, dk_access = 0\<rparr>"

lemma sample_disk_ok: "disk_ok sample_disk" "FileExists (GetFilePath 2 10001) sample_disk" "log_ok sample_disk"
  by (simp_all add: disk_ok_def names_ok_def stream_ok_def sample_disk_def FileExists_def log_ok_def
      file_resize_def)

theorem WritePage_ReadPage_witness:
  "\<exists>d'. WritePage (GetFilePath 2 10001) 3 (replicate 256 7) sample_disk = (Inr (), d')
     \<and> fst (ReadPage (GetFilePath 2 10001) 3 d') = Inr (replicate 256 7)"
  using WritePage_ReadPage [OF sample_disk_ok(1), of 2 10001 "replicate 256 7" 3] sample_disk_ok(2) by auto

text \<open>
  C30. The path of a table determines its oids: \<^verbatim>\<open>GetOid\<close> inverts \<^verbatim>\<open>GetFilePath\<close> for oids that fit a
  32-bit signed integer, and fails with the out-of-range exception of \<^verbatim>\<open>std::stoi\<close> for a larger
  database oid.
\<close>

theorem GetOid_of_path:
  "GetOid (GetFilePath db tb) =
     (if 2 ^ 31 \<le> unat db \<or> 2 ^ 31 \<le> unat tb then Inl OutOfRange else Inr (db, tb))"
proof -
  have "stoi (nat_to_string n) = (if n < 2 ^ 31 then Inr (int n) else Inl OutOfRange)" for n
  proof (cases "n < 2 ^ 31")
    case True
    then show ?thesis using stoi_nat_to_string by simp
  next
    case False
    have "dropWhile is_space (nat_to_string n) = nat_to_string n"
      using hd_nat_to_string(2) [of n] by (cases "nat_to_string n") auto
    then show ?thesis
      using False hd_nat_to_string(1) [of n] is_digit_not_sign [OF hd_nat_to_string(1) [of n]]
      by (simp add: stoi_def Let_def)
  qed
  then show ?thesis
    unfolding GetOid_def GetFilePath_def
    using Split_two [of "nat_to_string (unat db)" "CHR ''/''" "nat_to_string (unat tb)"]
      slash_not_digit nat_to_string_last_not_space by (simp add: Let_def)
qed

text \<open>
  A block written to the log file is what a later \<^verbatim>\<open>ReadLog\<close> of that range returns, and every range
  that does not overlap the block reads as before, also when the write makes the log grow by a
  segment; the bounds are one segment past the end of the file and 4095 segments in all, so
  that 32-bit offsets do not wrap.
\<close>

theorem WriteLog_ReadLog:
  assumes "log_ok d" "length data = unat n" "unat off + unat n \<le> length (dk_log d) + LOG_SEGMENT_SIZE"
  shows "\<exists>d'. WriteLog off n data d = (Inr (), d') \<and> ReadLog off n d' = (Inr data, d')
     \<and> (\<forall>off' n' b. unat off' + unat n' \<le> length (dk_log d) \<longrightarrow>
          unat off' + unat n' \<le> unat off \<or> unat off + unat n \<le> unat off' \<longrightarrow>
          fst (ReadLog off' n' d') = fst (ReadLog off' n' d))"
proof -
  obtain d' where d': "WriteLog off n data d = (Inr (), d')" "slice (unat off) (unat n) (dk_log d') = data"
    "\<And>o' m. o' + m \<le> length (dk_log d) \<Longrightarrow> o' + m \<le> unat off \<or> unat off + unat n \<le> o' \<Longrightarrow>
       slice o' m (dk_log d') = slice o' m (dk_log d)"
    "length (dk_log d) \<le> length (dk_log d')" "\<not> dk_log_fail d'" "unat off + unat n \<le> length (dk_log d')"
    using WriteLog_ok [OF assms] by metis
  have nf: "\<not> dk_log_fail d" using assms(1) by (simp add: log_ok_def)
  show ?thesis
    using d' nf by (intro exI [of _ d']) (simp add: ReadLog_ok)
qed

theorem WriteLog_ReadLog_witness:
  "\<exists>d'. WriteLog 1048574 4 [1, 2, 3, 4] sample_disk = (Inr (), d') \<and> ReadLog 1048574 4 d' = (Inr [1, 2, 3, 4], d')"
  using WriteLog_ReadLog [OF sample_disk_ok(3), of "[1, 2, 3, 4]" 4 1048574]
  by (auto simp: sample_disk_def file_resize_def)

end
