(* ===== verification/Log_Records.thy ===== *)
theory Log_Records
  imports Common_Types
begin

text \<open>
  \<^verbatim>\<open>src/src/log/log_record.cpp\<close> and \<^verbatim>\<open>src/src/log/log_records\<close>: the eight kinds of log records, their
  sizes and their byte form. The common part (type, xid, previous LSN) is 13 bytes; the LSN is the
  position in the log file and is not stored. The active transaction table and the dirty page
  table in an end-of-checkpoint record are association lists with distinct keys, in the order the
  hash tables are traversed.
\<close>

section \<open>Log records\<close>

datatype LogType = BEGIN | COMMIT | ROLLBACK | INSERT | DELETE | NEW_PAGE | BEGIN_CHECKPOINT | END_CHECKPOINT

type_synonym att_t = "(xid_t \<times> lsn_t) list"
type_synonym dpt_t = "(TablePageid \<times> lsn_t) list"

datatype LogBody =
    BeginLog
  | CommitLog
  | RollbackLog
  | InsertLog (il_oid: oid_t) (il_page_id: pageid_t) (il_slot_id: slotid_t) (il_page_offset: db_size_t)
      (il_record_size: db_size_t) (il_record: "byte list")
  | DeleteLog (dl_oid: oid_t) (dl_page_id: pageid_t) (dl_slot_id: slotid_t)
  | NewPageLog (nl_oid: oid_t) (nl_prev_page_id: pageid_t) (nl_page_id: pageid_t)
  | BeginCheckpointLog
  | EndCheckpointLog (ec_att: att_t) (ec_dpt: dpt_t)

record LogRecord =
  lr_lsn :: lsn_t
  lr_xid :: xid_t
  lr_prev_lsn :: lsn_t
  lr_body :: LogBody

fun body_type :: "LogBody \<Rightarrow> LogType" where
  "body_type BeginLog = BEGIN"
| "body_type CommitLog = COMMIT"
| "body_type RollbackLog = ROLLBACK"
| "body_type (InsertLog _ _ _ _ _ _) = INSERT"
| "body_type (DeleteLog _ _ _) = DELETE"
| "body_type (NewPageLog _ _ _) = NEW_PAGE"
| "body_type BeginCheckpointLog = BEGIN_CHECKPOINT"
| "body_type (EndCheckpointLog _ _) = END_CHECKPOINT"

definition LogRecord_GetType :: "LogRecord \<Rightarrow> LogType" where
  "LogRecord_GetType r = body_type (lr_body r)"

fun type_code :: "LogType \<Rightarrow> enum_t" where
  "type_code BEGIN = 0"
| "type_code COMMIT = 1"
| "type_code ROLLBACK = 2"
| "type_code INSERT = 3"
| "type_code DELETE = 4"
| "type_code NEW_PAGE = 5"
| "type_code BEGIN_CHECKPOINT = 6"
| "type_code END_CHECKPOINT = 7"

section \<open>Sizes\<close>

text \<open>The field \<^verbatim>\<open>size_\<close>: 32 bits, set by the constructors.\<close>

fun body_size :: "LogBody \<Rightarrow> 32 word" where
  "body_size (InsertLog _ _ _ _ sz _) = 4 + 4 + 2 + 2 + 2 + ucast sz"
| "body_size (DeleteLog _ _ _) = 4 + 4 + 2"
| "body_size (NewPageLog _ _ _) = 4 + 4 + 4"
| "body_size (EndCheckpointLog att dpt) = of_nat (8 + length att * (4 + 8) + 8 + length dpt * (8 + 8))"
| "body_size _ = 0"

definition LogRecord_GetSize :: "LogRecord \<Rightarrow> 64 word" where
  "LogRecord_GetSize r = ucast (1 + 4 + 8 + body_size (lr_body r) :: 32 word)"

section \<open>Serialisation\<close>

definition LogRecord_base_bytes :: "LogRecord \<Rightarrow> byte list" where
  "LogRecord_base_bytes r =
     le_encode 1 (type_code (LogRecord_GetType r)) @ le_encode 4 (lr_xid r) @ le_encode 8 (lr_prev_lsn r)"

definition InsertLog_bytes ::
    "oid_t \<Rightarrow> pageid_t \<Rightarrow> slotid_t \<Rightarrow> db_size_t \<Rightarrow> db_size_t \<Rightarrow> byte list \<Rightarrow> byte list" where
  "InsertLog_bytes oid page_id slot_id page_offset record_size rec =
     le_encode 4 oid @ le_encode 4 page_id @ le_encode 2 slot_id @ le_encode 2 page_offset
     @ le_encode 2 record_size @ take (unat record_size) rec"

definition DeleteLog_bytes :: "oid_t \<Rightarrow> pageid_t \<Rightarrow> slotid_t \<Rightarrow> byte list" where
  "DeleteLog_bytes oid page_id slot_id = le_encode 4 oid @ le_encode 4 page_id @ le_encode 2 slot_id"

definition NewPageLog_bytes :: "oid_t \<Rightarrow> pageid_t \<Rightarrow> pageid_t \<Rightarrow> byte list" where
  "NewPageLog_bytes oid prev_page_id page_id = le_encode 4 oid @ le_encode 4 prev_page_id @ le_encode 4 page_id"

definition att_entry_bytes :: "xid_t \<times> lsn_t \<Rightarrow> byte list" where
  "att_entry_bytes e = le_encode 4 (fst e) @ le_encode 8 (snd e)"

definition dpt_entry_bytes :: "TablePageid \<times> lsn_t \<Rightarrow> byte list" where
  "dpt_entry_bytes e = le_encode 4 (tp_table_oid (fst e)) @ le_encode 4 (tp_page_id (fst e)) @ le_encode 8 (snd e)"

definition EndCheckpointLog_bytes :: "att_t \<Rightarrow> dpt_t \<Rightarrow> byte list" where
  "EndCheckpointLog_bytes att dpt =
     le_encode 8 (of_nat (length att) :: 64 word) @ concat (map att_entry_bytes att)
     @ le_encode 8 (of_nat (length dpt) :: 64 word) @ concat (map dpt_entry_bytes dpt)"

fun body_bytes_log :: "LogBody \<Rightarrow> byte list" where
  "body_bytes_log (InsertLog oid page_id slot_id page_offset record_size rec)
     = InsertLog_bytes oid page_id slot_id page_offset record_size rec"
| "body_bytes_log (DeleteLog oid page_id slot_id) = DeleteLog_bytes oid page_id slot_id"
| "body_bytes_log (NewPageLog oid prev_page_id page_id) = NewPageLog_bytes oid prev_page_id page_id"
| "body_bytes_log (EndCheckpointLog att dpt) = EndCheckpointLog_bytes att dpt"
| "body_bytes_log _ = []"

definition LogRecord_SerializeTo :: "LogRecord \<Rightarrow> byte list result" where
  "LogRecord_SerializeTo r =
     (let bs = LogRecord_base_bytes r @ body_bytes_log (lr_body r)
      in rbind (rassert (length bs = unat (LogRecord_GetSize r)) (AssertFail ''offset == size_'')) (\<lambda>_. Inr bs))"

section \<open>Deserialisation\<close>

text \<open>A \<^verbatim>\<open>memcpy\<close> of an integer out of the buffer.\<close>

definition read_int :: "nat \<Rightarrow> nat \<Rightarrow> byte list \<Rightarrow> 'a::len word result" where
  "read_int off n data = rbind (mem_read off n data) (\<lambda>bs. Inr (le_decode bs))"

definition Plain_DeserializeFrom :: "LogBody \<Rightarrow> lsn_t \<Rightarrow> byte list \<Rightarrow> LogRecord result" where
  "Plain_DeserializeFrom body lsn data =
     rbind (read_int 0 4 data) (\<lambda>xid.
     rbind (read_int 4 8 data) (\<lambda>prev_lsn.
       Inr \<lparr>lr_lsn = lsn, lr_xid = xid, lr_prev_lsn = prev_lsn, lr_body = body\<rparr>))"

definition BeginLog_DeserializeFrom :: "lsn_t \<Rightarrow> byte list \<Rightarrow> LogRecord result" where
  "BeginLog_DeserializeFrom = Plain_DeserializeFrom BeginLog"
definition CommitLog_DeserializeFrom :: "lsn_t \<Rightarrow> byte list \<Rightarrow> LogRecord result" where
  "CommitLog_DeserializeFrom = Plain_DeserializeFrom CommitLog"
definition RollbackLog_DeserializeFrom :: "lsn_t \<Rightarrow> byte list \<Rightarrow> LogRecord result" where
  "RollbackLog_DeserializeFrom = Plain_DeserializeFrom RollbackLog"
definition BeginCheckpointLog_DeserializeFrom :: "lsn_t \<Rightarrow> byte list \<Rightarrow> LogRecord result" where
  "BeginCheckpointLog_DeserializeFrom = Plain_DeserializeFrom BeginCheckpointLog"

definition InsertLog_DeserializeFrom :: "lsn_t \<Rightarrow> byte list \<Rightarrow> LogRecord result" where
  "InsertLog_DeserializeFrom lsn data =
     rbind (read_int 0 4 data) (\<lambda>xid.
     rbind (read_int 4 8 data) (\<lambda>prev_lsn.
     rbind (read_int 12 4 data) (\<lambda>oid.
     rbind (read_int 16 4 data) (\<lambda>page_id.
     rbind (read_int 20 2 data) (\<lambda>slot_id.
     rbind (read_int 22 2 data) (\<lambda>page_offset.
     rbind (read_int 24 2 data) (\<lambda>record_size.
     rbind (mem_read 26 (unat record_size) data) (\<lambda>rec.
       Inr \<lparr>lr_lsn = lsn, lr_xid = xid, lr_prev_lsn = prev_lsn,
            lr_body = InsertLog oid page_id slot_id page_offset record_size rec\<rparr>))))))))"

definition DeleteLog_DeserializeFrom :: "lsn_t \<Rightarrow> byte list \<Rightarrow> LogRecord result" where
  "DeleteLog_DeserializeFrom lsn data =
     rbind (read_int 0 4 data) (\<lambda>xid.
     rbind (read_int 4 8 data) (\<lambda>prev_lsn.
     rbind (read_int 12 4 data) (\<lambda>oid.
     rbind (read_int 16 4 data) (\<lambda>page_id.
     rbind (read_int 20 2 data) (\<lambda>slot_id.
       Inr \<lparr>lr_lsn = lsn, lr_xid = xid, lr_prev_lsn = prev_lsn, lr_body = DeleteLog oid page_id slot_id\<rparr>)))))"

definition NewPageLog_DeserializeFrom :: "lsn_t \<Rightarrow> byte list \<Rightarrow> LogRecord result" where
  "NewPageLog_DeserializeFrom lsn data =
     rbind (read_int 0 4 data) (\<lambda>xid.
     rbind (read_int 4 8 data) (\<lambda>prev_lsn.
     rbind (read_int 12 4 data) (\<lambda>oid.
     rbind (read_int 16 4 data) (\<lambda>prev_page_id.
     rbind (read_int 20 4 data) (\<lambda>page_id.
       Inr \<lparr>lr_lsn = lsn, lr_xid = xid, lr_prev_lsn = prev_lsn, lr_body = NewPageLog oid prev_page_id page_id\<rparr>)))))"

fun read_att :: "nat \<Rightarrow> nat \<Rightarrow> byte list \<Rightarrow> att_t \<Rightarrow> att_t result" where
  "read_att 0 off data att = Inr att"
| "read_att (Suc n) off data att =
     rbind (read_int off 4 data) (\<lambda>xid.
     rbind (read_int (off + 4) 8 data) (\<lambda>lsn.
       read_att n (off + 12) data (AList.update xid lsn att)))"

fun read_dpt :: "nat \<Rightarrow> nat \<Rightarrow> byte list \<Rightarrow> dpt_t \<Rightarrow> dpt_t result" where
  "read_dpt 0 off data dpt = Inr dpt"
| "read_dpt (Suc n) off data dpt =
     rbind (read_int off 4 data) (\<lambda>oid.
     rbind (read_int (off + 4) 4 data) (\<lambda>page_id.
     rbind (read_int (off + 8) 8 data) (\<lambda>lsn.
       read_dpt n (off + 16) data (AList.update \<lparr>tp_table_oid = oid, tp_page_id = page_id\<rparr> lsn dpt))))"

definition EndCheckpointLog_DeserializeFrom :: "lsn_t \<Rightarrow> byte list \<Rightarrow> LogRecord result" where
  "EndCheckpointLog_DeserializeFrom lsn data =
     rbind (read_int 0 4 data) (\<lambda>xid.
     rbind (read_int 4 8 data) (\<lambda>prev_lsn.
     rbind (read_int 12 8 data) (\<lambda>att_size :: 64 word.
     rbind (read_att (unat att_size) 20 data []) (\<lambda>att.
     rbind (read_int (20 + 12 * unat att_size) 8 data) (\<lambda>dpt_size :: 64 word.
     rbind (read_dpt (unat dpt_size) (28 + 12 * unat att_size) data []) (\<lambda>dpt.
       Inr \<lparr>lr_lsn = lsn, lr_xid = xid, lr_prev_lsn = prev_lsn, lr_body = EndCheckpointLog att dpt\<rparr>))))))"

definition LogRecord_DeserializeFrom :: "lsn_t \<Rightarrow> byte list \<Rightarrow> LogRecord result" where
  "LogRecord_DeserializeFrom lsn data =
     rbind (read_int 0 1 data) (\<lambda>ty :: enum_t.
       if ty = type_code INSERT then InsertLog_DeserializeFrom lsn (drop 1 data)
       else if ty = type_code DELETE then DeleteLog_DeserializeFrom lsn (drop 1 data)
       else if ty = type_code NEW_PAGE then NewPageLog_DeserializeFrom lsn (drop 1 data)
       else if ty = type_code BEGIN then BeginLog_DeserializeFrom lsn (drop 1 data)
       else if ty = type_code COMMIT then CommitLog_DeserializeFrom lsn (drop 1 data)
       else if ty = type_code ROLLBACK then RollbackLog_DeserializeFrom lsn (drop 1 data)
       else if ty = type_code BEGIN_CHECKPOINT then BeginCheckpointLog_DeserializeFrom lsn (drop 1 data)
       else if ty = type_code END_CHECKPOINT then EndCheckpointLog_DeserializeFrom lsn (drop 1 data)
       else Inl (DbException ''Unknown log type in DeserializeFrom''))"

section \<open>Round trip\<close>

definition body_wf :: "LogBody \<Rightarrow> bool" where
  "body_wf b = (case b of
      InsertLog _ _ _ _ sz rec \<Rightarrow> length rec = unat sz
    | EndCheckpointLog att dpt \<Rightarrow> distinct (map fst att) \<and> distinct (map fst dpt) \<and>
        length att < 2 ^ 20 \<and> length dpt < 2 ^ 20
    | _ \<Rightarrow> True)"

definition log_bytes :: "LogRecord \<Rightarrow> byte list" where
  "log_bytes r = LogRecord_base_bytes r @ body_bytes_log (lr_body r)"

lemma read_int_append:
  assumes "off = length pre" "LENGTH('a) \<le> 8 * n"
  shows "read_int off n (pre @ le_encode n (w :: 'a::len word) @ rest) = Inr w"
  using assms by (simp add: read_int_def slice_append_right) (simp add: slice_def)

lemma length_log_base [simp]: "length (LogRecord_base_bytes r) = 13"
  by (simp add: LogRecord_base_bytes_def)

lemma length_att_bytes [simp]: "length (concat (map att_entry_bytes att)) = 12 * length att"
  by (induction att) (simp_all add: att_entry_bytes_def)

lemma length_dpt_bytes [simp]: "length (concat (map dpt_entry_bytes dpt)) = 16 * length dpt"
  by (induction dpt) (simp_all add: dpt_entry_bytes_def)

lemma unat_body_size: "body_wf b \<Longrightarrow> unat (13 + body_size b) = 13 + length (body_bytes_log b)"
proof (cases b)
  case (InsertLog oid pid slot off sz rec)
  assume wf: "body_wf b"
  have "unat sz < 2 ^ 16" using unat_less_exp [of sz] by simp
  then have "unat (27 + ucast sz :: 32 word) = 27 + unat sz"
    by (subst unat_add_small) (simp_all add: unat_ucast_up)
  then show ?thesis
    using wf InsertLog by (simp add: body_wf_def InsertLog_bytes_def)
next
  case (EndCheckpointLog att dpt)
  assume wf: "body_wf b"
  have "13 + body_size b = of_nat (13 + (8 + length att * 12 + 8 + length dpt * 16))"
    unfolding EndCheckpointLog by simp
  moreover have "unat (of_nat (13 + (8 + length att * 12 + 8 + length dpt * 16)) :: 32 word)
      = 13 + (8 + length att * 12 + 8 + length dpt * 16)"
    using wf EndCheckpointLog by (intro unat_of_nat_small) (simp add: body_wf_def)
  ultimately show ?thesis
    using EndCheckpointLog by (simp only:) (simp add: EndCheckpointLog_bytes_def)
qed (simp_all add: DeleteLog_bytes_def NewPageLog_bytes_def)

lemma LogRecord_GetSize_eq: "body_wf (lr_body r) \<Longrightarrow> unat (LogRecord_GetSize r) = length (log_bytes r)"
  using unat_body_size [of "lr_body r"] unat_less_exp [of "13 + body_size (lr_body r)"]
  by (simp add: LogRecord_GetSize_def log_bytes_def unat_ucast_up)

lemma LogRecord_SerializeTo_eq: "body_wf (lr_body r) \<Longrightarrow> LogRecord_SerializeTo r = Inr (log_bytes r)"
  using LogRecord_GetSize_eq [of r] by (simp add: LogRecord_SerializeTo_def Let_def log_bytes_def)

lemma AList_update_snoc: "k \<notin> fst ` set al \<Longrightarrow> AList.update k v al = al @ [(k, v)]"
  by (induction al) auto

lemma read_att_eq:
  assumes "distinct (map fst (acc @ att))" "off = length pre"
  shows "read_att (length att) off (pre @ concat (map att_entry_bytes att) @ rest) acc = Inr (acc @ att)"
  using assms
proof (induction att arbitrary: acc pre off)
  case Nil
  then show ?case by simp
next
  case (Cons e att)
  let ?tail = "concat (map att_entry_bytes att) @ rest"
  let ?data = "pre @ concat (map att_entry_bytes (e # att)) @ rest"
  have 1: "read_int off 4 ?data = Inr (fst e)"
    using read_int_append [of off pre 4 "fst e" "le_encode 8 (snd e) @ ?tail"] Cons.prems(2)
    by (simp add: att_entry_bytes_def)
  have 2: "read_int (off + 4) 8 ?data = Inr (snd e)"
    using read_int_append [of "off + 4" "pre @ le_encode 4 (fst e)" 8 "snd e" ?tail] Cons.prems(2)
    by (simp add: att_entry_bytes_def)
  have 3: "AList.update (fst e) (snd e) acc = acc @ [e]"
    using Cons.prems(1) by (subst AList_update_snoc) auto
  have "read_att (length att) (off + 12) ((pre @ att_entry_bytes e) @ ?tail) (acc @ [e]) = Inr ((acc @ [e]) @ att)"
    using Cons.prems by (intro Cons.IH) (simp_all add: att_entry_bytes_def)
  then show ?case
    using 1 2 3 by simp
qed

lemma read_dpt_eq:
  assumes "distinct (map fst (acc @ dpt))" "off = length pre"
  shows "read_dpt (length dpt) off (pre @ concat (map dpt_entry_bytes dpt) @ rest) acc = Inr (acc @ dpt)"
  using assms
proof (induction dpt arbitrary: acc pre off)
  case Nil
  then show ?case by simp
next
  case (Cons e dpt)
  let ?tail = "concat (map dpt_entry_bytes dpt) @ rest"
  let ?data = "pre @ concat (map dpt_entry_bytes (e # dpt)) @ rest"
  let ?o = "le_encode 4 (tp_table_oid (fst e))" and ?p = "le_encode 4 (tp_page_id (fst e))"
  have 1: "read_int off 4 ?data = Inr (tp_table_oid (fst e))"
    using read_int_append [of off pre 4 "tp_table_oid (fst e)" "?p @ le_encode 8 (snd e) @ ?tail"] Cons.prems(2)
    by (simp add: dpt_entry_bytes_def)
  have 2: "read_int (off + 4) 4 ?data = Inr (tp_page_id (fst e))"
    using read_int_append [of "off + 4" "pre @ ?o" 4 "tp_page_id (fst e)" "le_encode 8 (snd e) @ ?tail"] Cons.prems(2)
    by (simp add: dpt_entry_bytes_def)
  have 3: "read_int (off + 8) 8 ?data = Inr (snd e)"
    using read_int_append [of "off + 8" "pre @ ?o @ ?p" 8 "snd e" ?tail] Cons.prems(2)
    by (simp add: dpt_entry_bytes_def)
  have 4: "AList.update \<lparr>tp_table_oid = tp_table_oid (fst e), tp_page_id = tp_page_id (fst e)\<rparr> (snd e) dacc = dacc @ [e]"
    if "fst e \<notin> fst ` set dacc" for dacc
    using AList_update_snoc [OF that, of "snd e"] by (cases e, cases "fst e") simp
  have "read_dpt (length dpt) (off + 16) ((pre @ dpt_entry_bytes e) @ ?tail) (acc @ [e]) = Inr ((acc @ [e]) @ dpt)"
    using Cons.prems by (intro Cons.IH) (simp_all add: dpt_entry_bytes_def)
  then show ?case
    using 1 2 3 4 [of acc] Cons.prems(1) by (simp add: image_iff)
qed

text \<open>The bytes after the type tag.\<close>

definition payload :: "LogRecord \<Rightarrow> byte list" where
  "payload r = le_encode 4 (lr_xid r) @ le_encode 8 (lr_prev_lsn r) @ body_bytes_log (lr_body r)"

lemma log_bytes_payload: "log_bytes r = [type_code (LogRecord_GetType r)] @ payload r"
  by (simp add: log_bytes_def LogRecord_base_bytes_def payload_def)

lemma length_payload: "length (payload r) = 12 + length (body_bytes_log (lr_body r))"
  by (simp add: payload_def)

lemma payload_common: "read_int 0 4 (payload r @ rest) = Inr (lr_xid r)" "read_int 4 8 (payload r @ rest) = Inr (lr_prev_lsn r)"
  by (simp_all add: payload_def read_int_def slice_def)

lemma InsertLog_read:
  assumes "lr_body r = InsertLog oid pid slot off sz rec" "length rec = unat sz"
  shows "InsertLog_DeserializeFrom lsn (payload r @ rest) = Inr (r\<lparr>lr_lsn := lsn\<rparr>)"
  using assms unfolding InsertLog_DeserializeFrom_def payload_common
  by (simp add: payload_def read_int_def slice_def InsertLog_bytes_def)

lemma EndCheckpointLog_read:
  assumes b: "lr_body r = EndCheckpointLog att dpt" and wf: "body_wf (lr_body r)"
  shows "EndCheckpointLog_DeserializeFrom lsn (payload r @ rest) = Inr (r\<lparr>lr_lsn := lsn\<rparr>)"
proof -
  let ?hd = "le_encode 4 (lr_xid r) @ le_encode 8 (lr_prev_lsn r)"
  let ?na = "le_encode 8 (of_nat (length att) :: 64 word)" and ?nd = "le_encode 8 (of_nat (length dpt) :: 64 word)"
  let ?a = "concat (map att_entry_bytes att)" and ?d = "concat (map dpt_entry_bytes dpt)"
  have data: "payload r @ rest = ?hd @ ?na @ ?a @ ?nd @ ?d @ rest"
    by (simp add: payload_def b EndCheckpointLog_bytes_def)
  have w: "distinct (map fst att)" "distinct (map fst dpt)" "length att < 2 ^ 20" "length dpt < 2 ^ 20"
    using wf b by (simp_all add: body_wf_def)
  have u: "unat (of_nat (length att) :: 64 word) = length att" "unat (of_nat (length dpt) :: 64 word) = length dpt"
    using w(3,4) by (intro unat_of_nat_small, simp)+
  have n1: "read_int 12 8 (payload r @ rest) = Inr (of_nat (length att) :: 64 word)"
    unfolding data using read_int_append [of 12 ?hd 8 "of_nat (length att) :: 64 word"] by simp
  have n2: "read_att (length att) 20 (payload r @ rest) [] = Inr att"
    unfolding data using read_att_eq [of "[]" att 20 "?hd @ ?na"] w(1) by simp
  have n3: "read_int (20 + 12 * length att) 8 (payload r @ rest) = Inr (of_nat (length dpt) :: 64 word)"
    unfolding data using read_int_append [of "20 + 12 * length att" "?hd @ ?na @ ?a" 8 "of_nat (length dpt) :: 64 word"] by simp
  have n4: "read_dpt (length dpt) (28 + 12 * length att) (payload r @ rest) [] = Inr dpt"
    unfolding data using read_dpt_eq [of "[]" dpt "28 + 12 * length att" "?hd @ ?na @ ?a @ ?nd"] w(2) by simp
  show ?thesis
    unfolding EndCheckpointLog_DeserializeFrom_def payload_common n1 rbind_simps u n2 n3 n4
    using b by simp
qed

lemma LogRecord_DeserializeFrom_eq:
  assumes "body_wf (lr_body r)"
  shows "LogRecord_DeserializeFrom lsn (log_bytes r @ rest) = Inr (r\<lparr>lr_lsn := lsn\<rparr>)"
proof -
  have ty: "read_int 0 1 (log_bytes r @ rest) = Inr (type_code (LogRecord_GetType r))"
    by (simp add: log_bytes_payload read_int_def slice_def)
  have tl: "drop 1 (log_bytes r @ rest) = payload r @ rest"
    by (simp add: log_bytes_payload)
  have plain: "Plain_DeserializeFrom b lsn (payload r @ rest) = Inr (r\<lparr>lr_lsn := lsn\<rparr>)" if "lr_body r = b" for b
    unfolding Plain_DeserializeFrom_def payload_common using that by simp
  show ?thesis
  proof (cases "lr_body r")
    case (InsertLog oid pid slot off sz rec)
    then show ?thesis
      using ty tl InsertLog_read [OF InsertLog] assms
      by (simp add: LogRecord_DeserializeFrom_def LogRecord_GetType_def body_wf_def)
  next
    case (EndCheckpointLog att dpt)
    then show ?thesis
      using ty tl EndCheckpointLog_read [OF EndCheckpointLog assms]
      by (simp add: LogRecord_DeserializeFrom_def LogRecord_GetType_def)
  next
    case (DeleteLog oid pid slot)
    then have "DeleteLog_DeserializeFrom lsn (payload r @ rest) = Inr (r\<lparr>lr_lsn := lsn\<rparr>)"
      unfolding DeleteLog_DeserializeFrom_def payload_common
      by (simp add: payload_def read_int_def slice_def DeleteLog_bytes_def)
    then show ?thesis
      using DeleteLog ty tl by (simp add: LogRecord_DeserializeFrom_def LogRecord_GetType_def)
  next
    case (NewPageLog oid prev pid)
    then have "NewPageLog_DeserializeFrom lsn (payload r @ rest) = Inr (r\<lparr>lr_lsn := lsn\<rparr>)"
      unfolding NewPageLog_DeserializeFrom_def payload_common
      by (simp add: payload_def read_int_def slice_def NewPageLog_bytes_def)
    then show ?thesis
      using NewPageLog ty tl by (simp add: LogRecord_DeserializeFrom_def LogRecord_GetType_def)
  qed (use ty tl plain in \<open>simp_all add: LogRecord_DeserializeFrom_def LogRecord_GetType_def BeginLog_DeserializeFrom_def
      CommitLog_DeserializeFrom_def RollbackLog_DeserializeFrom_def BeginCheckpointLog_DeserializeFrom_def\<close>)
qed

section \<open>Properties\<close>

text \<open>
  Every log record survives the log file: \<^verbatim>\<open>SerializeTo\<close> passes its size assertion and produces
  exactly \<^verbatim>\<open>GetSize\<close> bytes, and \<^verbatim>\<open>LogRecord::DeserializeFrom\<close> on these bytes, whatever follows them,
  gives the record back, stamped with the LSN it was read at.
\<close>

theorem LogRecord_roundtrip:
  assumes "body_wf (lr_body r)"
  shows "\<exists>bs. LogRecord_SerializeTo r = Inr bs \<and> length bs = unat (LogRecord_GetSize r)
           \<and> LogRecord_DeserializeFrom lsn (bs @ rest) = Inr (r\<lparr>lr_lsn := lsn\<rparr>)"
  using LogRecord_SerializeTo_eq [OF assms] LogRecord_GetSize_eq [OF assms] LogRecord_DeserializeFrom_eq [OF assms]
  by simp

theorem LogRecord_roundtrip_witness:
  "\<exists>bs. LogRecord_SerializeTo \<lparr>lr_lsn = NULL_LSN, lr_xid = 7, lr_prev_lsn = 130,
        lr_body = EndCheckpointLog [(7, 130), (9, 13)] [(\<lparr>tp_table_oid = 10001, tp_page_id = 2\<rparr>, 40)]\<rparr> = Inr bs
     \<and> LogRecord_DeserializeFrom 500 (bs @ [1, 2, 3])
        = Inr \<lparr>lr_lsn = 500, lr_xid = 7, lr_prev_lsn = 130,
        lr_body = EndCheckpointLog [(7, 130), (9, 13)] [(\<lparr>tp_table_oid = 10001, tp_page_id = 2\<rparr>, 40)]\<rparr>"
  using LogRecord_roundtrip [of "\<lparr>lr_lsn = NULL_LSN, lr_xid = 7, lr_prev_lsn = 130,
        lr_body = EndCheckpointLog [(7, 130), (9, 13)] [(\<lparr>tp_table_oid = 10001, tp_page_id = 2\<rparr>, 40)]\<rparr>" 500 "[1, 2, 3]"]
  by (auto simp: body_wf_def)

end
