(* ===== verification/Log_Core.thy ===== *)
theory Log_Core
  imports Disk_Model Log_Records
begin

text \<open>
  \<^verbatim>\<open>src/src/log/log_manager.cpp\<close> up to \<^verbatim>\<open>FlushPage\<close>, and \<^verbatim>\<open>Flush\<close>: appending log records, the
  active transaction table, the dirty page table, flushing the log buffer and taking a checkpoint.
  The operations run on the log manager together with the disk.
\<close>

section \<open>State\<close>

record LogManager =
  lm_att :: att_t
  lm_dpt :: dpt_t
  lm_next_lsn :: lsn_t
  lm_flushed_lsn :: lsn_t
  lm_buffer :: "LogRecord list"
  lm_redo_count :: "32 word"

record LogEnv =
  le_disk :: Disk
  le_log :: LogManager

definition LogManager_new :: "lsn_t \<Rightarrow> LogManager" where
  "LogManager_new next_lsn = \<lparr>lm_att = [], lm_dpt = [], lm_next_lsn = next_lsn, lm_flushed_lsn = next_lsn - 1,
     lm_buffer = [], lm_redo_count = 0\<rparr>"

definition NEXT_LSN_NAME :: string where "NEXT_LSN_NAME = ''next_lsn''"
definition MASTER_RECORD_NAME :: string where "MASTER_RECORD_NAME = ''master_record''"

definition on_log :: "(LogManager, 'a) em \<Rightarrow> (LogEnv, 'a) em" where
  "on_log = ezoom le_log (\<lambda>l e. e\<lparr>le_log := l\<rparr>)"

definition on_disk :: "(Disk, 'a) em \<Rightarrow> (LogEnv, 'a) em" where
  "on_disk = ezoom le_disk (\<lambda>d e. e\<lparr>le_disk := d\<rparr>)"

section \<open>The log buffer and the tables\<close>

definition LogManager_Clear :: "LogManager \<Rightarrow> LogManager" where
  "LogManager_Clear l = l\<lparr>lm_buffer := []\<rparr>"

definition SetDirtyPage :: "oid_t \<Rightarrow> pageid_t \<Rightarrow> lsn_t \<Rightarrow> LogManager \<Rightarrow> LogManager" where
  "SetDirtyPage oid page_id lsn l =
     (if map_of (lm_dpt l) \<lparr>tp_table_oid = oid, tp_page_id = page_id\<rparr> = None
      then l\<lparr>lm_dpt := AList.update \<lparr>tp_table_oid = oid, tp_page_id = page_id\<rparr> lsn (lm_dpt l)\<rparr>
      else l)"

text \<open>Reserving the LSN by \<^verbatim>\<open>fetch_add\<close> and storing it in the record, and the insertion into the buffer.\<close>

definition fetch_lsn :: "LogRecord \<Rightarrow> LogManager \<Rightarrow> LogRecord \<times> LogManager" where
  "fetch_lsn r l = (r\<lparr>lr_lsn := lm_next_lsn l\<rparr>, l\<lparr>lm_next_lsn := lm_next_lsn l + LogRecord_GetSize r\<rparr>)"

definition push_back :: "LogRecord \<Rightarrow> LogManager \<Rightarrow> LogManager" where
  "push_back r l = l\<lparr>lm_buffer := lm_buffer l @ [r]\<rparr>"

definition set_att :: "xid_t \<Rightarrow> lsn_t \<Rightarrow> LogManager \<Rightarrow> LogManager" where
  "set_att xid lsn l = l\<lparr>lm_att := AList.update xid lsn (lm_att l)\<rparr>"

definition not_in_att :: "xid_t \<Rightarrow> string \<Rightarrow> db_error" where
  "not_in_att xid fn = DbException (nat_to_string (unat xid) @ '' does not exist in att (in '' @ fn @ '')'')"

definition AppendInsertLog ::
    "xid_t \<Rightarrow> oid_t \<Rightarrow> pageid_t \<Rightarrow> slotid_t \<Rightarrow> db_size_t \<Rightarrow> db_size_t \<Rightarrow> byte list \<Rightarrow> (LogManager, lsn_t) em" where
  "AppendInsertLog xid oid page_id slot_id offset sz new_record l =
     (case map_of (lm_att l) xid of
        None \<Rightarrow> (Inl (not_in_att xid ''AppendInsertLog''), l)
      | Some prev \<Rightarrow>
          (case mem_read 0 (unat sz) new_record of
             Inl e \<Rightarrow> (Inl e, l)
           | Inr raw \<Rightarrow>
               (let (r, l1) = fetch_lsn \<lparr>lr_lsn = NULL_LSN, lr_xid = xid, lr_prev_lsn = prev,
                                 lr_body = InsertLog oid page_id slot_id offset sz raw\<rparr> l;
                    l2 = push_back r (set_att xid (lr_lsn r) l1)
                in (Inr (lr_lsn r), SetDirtyPage oid page_id (lr_lsn r) l2))))"

definition AppendDeleteLog :: "xid_t \<Rightarrow> oid_t \<Rightarrow> pageid_t \<Rightarrow> slotid_t \<Rightarrow> (LogManager, lsn_t) em" where
  "AppendDeleteLog xid oid page_id slot_id l =
     (case map_of (lm_att l) xid of
        None \<Rightarrow> (Inl (not_in_att xid ''AppendDeleteLog''), l)
      | Some prev \<Rightarrow>
          (let (r, l1) = fetch_lsn \<lparr>lr_lsn = NULL_LSN, lr_xid = xid, lr_prev_lsn = prev,
                            lr_body = DeleteLog oid page_id slot_id\<rparr> l;
               l2 = push_back r (set_att xid (lr_lsn r) l1)
           in (Inr (lr_lsn r), SetDirtyPage oid page_id (lr_lsn r) l2)))"

text \<open>
  The previous LSN of a new-page record passes through a variable of the 32-bit type \<^verbatim>\<open>xid_t\<close>, and a
  record of a DDL statement has \<^verbatim>\<open>NULL_XID\<close> there.
\<close>

definition AppendNewPageLog :: "xid_t \<Rightarrow> oid_t \<Rightarrow> pageid_t \<Rightarrow> pageid_t \<Rightarrow> (LogManager, lsn_t) em" where
  "AppendNewPageLog xid oid prev_page_id page_id l =
     (if xid \<noteq> DDL_XID \<and> map_of (lm_att l) xid = None
      then (Inl (not_in_att xid ''AppendNewPageLog''), l)
      else let log_xid = (if xid = DDL_XID then NULL_XID else ucast (the (map_of (lm_att l) xid)) :: xid_t);
               (r, l1) = fetch_lsn \<lparr>lr_lsn = NULL_LSN, lr_xid = xid, lr_prev_lsn = ucast log_xid,
                            lr_body = NewPageLog oid prev_page_id page_id\<rparr> l;
               l2 = push_back r (if xid \<noteq> DDL_XID then set_att xid (lr_lsn r) l1 else l1);
               l3 = SetDirtyPage oid page_id (lr_lsn r) l2
           in (Inr (lr_lsn r), if prev_page_id \<noteq> NULL_PAGE_ID then SetDirtyPage oid prev_page_id (lr_lsn r) l3 else l3))"

definition AppendBeginLog :: "xid_t \<Rightarrow> (LogManager, lsn_t) em" where
  "AppendBeginLog xid l =
     (if map_of (lm_att l) xid \<noteq> None
      then (Inl (DbException (nat_to_string (unat xid) @ '' already exists in att'')), l)
      else let (r, l1) = fetch_lsn \<lparr>lr_lsn = NULL_LSN, lr_xid = xid, lr_prev_lsn = NULL_LSN, lr_body = BeginLog\<rparr> l
           in (Inr (lr_lsn r), push_back r (set_att xid (lr_lsn r) l1)))"

section \<open>Flushing\<close>

text \<open>
  The loop over the log buffer: a record past the bound stays, any other is written to the log file
  and erased from the buffer. The accumulator is the largest LSN written and the size of its record.
\<close>

fun Flush_loop :: "lsn_t \<Rightarrow> LogRecord list \<Rightarrow> LogRecord list \<Rightarrow> lsn_t \<Rightarrow> 64 word \<Rightarrow> (LogEnv, lsn_t \<times> 64 word) em" where
  "Flush_loop lsn kept [] max_lsn max_log_size = eret (max_lsn, max_log_size)"
| "Flush_loop lsn kept (r # rs) max_lsn max_log_size =
     (if lsn \<noteq> NULL_LSN \<and> lr_lsn r > lsn then Flush_loop lsn (kept @ [r]) rs max_lsn max_log_size
      else ebind (elift (LogRecord_SerializeTo r)) (\<lambda>bs.
           ebind (on_disk (WriteLog (ucast (lr_lsn r)) (ucast (LogRecord_GetSize r)) bs)) (\<lambda>_.
           ebind (on_log (emodify (\<lambda>l. l\<lparr>lm_buffer := kept @ rs\<rparr>))) (\<lambda>_.
             if max_lsn = NULL_LSN \<or> lr_lsn r > max_lsn
             then Flush_loop lsn kept rs (lr_lsn r) (LogRecord_GetSize r)
             else Flush_loop lsn kept rs max_lsn max_log_size))))"

definition update_next_lsn :: "lsn_t \<Rightarrow> 64 word \<Rightarrow> LogEnv \<Rightarrow> LogEnv" where
  "update_next_lsn max_lsn max_log_size e =
     (if max_lsn \<noteq> NULL_LSN \<and> (lm_flushed_lsn (le_log e) = NULL_LSN \<or> max_lsn > lm_flushed_lsn (le_log e))
      then let next_lsn = (if FileExists NEXT_LSN_NAME (le_disk e) then read_number NEXT_LSN_NAME FIRST_LSN (le_disk e)
                           else FIRST_LSN);
               e1 = e\<lparr>le_log := (le_log e)\<lparr>lm_flushed_lsn := max_lsn\<rparr>\<rparr>
           in if max_lsn + max_log_size > next_lsn
              then e1\<lparr>le_disk := write_number NEXT_LSN_NAME (max_lsn + max_log_size) (le_disk e)\<rparr>
              else e1
      else e)"

definition LogManager_Flush :: "lsn_t \<Rightarrow> (LogEnv, unit) em" where
  "LogManager_Flush lsn =
     ebind (\<lambda>e. Flush_loop lsn [] (lm_buffer (le_log e)) NULL_LSN 0 e) (\<lambda>(max_lsn, max_log_size).
       emodify (update_next_lsn max_lsn max_log_size))"

definition LogManager_Flush_all :: "(LogEnv, unit) em" where
  "LogManager_Flush_all = LogManager_Flush NULL_LSN"

definition append_final :: "LogBody \<Rightarrow> string \<Rightarrow> xid_t \<Rightarrow> (LogEnv, lsn_t) em" where
  "append_final body fn xid e =
     (case map_of (lm_att (le_log e)) xid of
        None \<Rightarrow> (Inl (not_in_att xid fn), e)
      | Some prev \<Rightarrow>
          (let (r, l1) = fetch_lsn \<lparr>lr_lsn = NULL_LSN, lr_xid = xid, lr_prev_lsn = prev, lr_body = body\<rparr> (le_log e)
           in ebind (LogManager_Flush (lr_lsn r)) (\<lambda>_.
              ebind (on_log (emodify (\<lambda>l. l\<lparr>lm_att := AList.delete xid (lm_att l)\<rparr>))) (\<lambda>_.
                eret (lr_lsn r))) (e\<lparr>le_log := push_back r l1\<rparr>)))"

definition AppendCommitLog :: "xid_t \<Rightarrow> (LogEnv, lsn_t) em" where
  "AppendCommitLog = append_final CommitLog ''AppendCommitLog''"

definition AppendRollbackLog :: "xid_t \<Rightarrow> (LogEnv, lsn_t) em" where
  "AppendRollbackLog = append_final RollbackLog ''AppendRollbackLog''"

definition Checkpoint :: "(LogEnv, lsn_t) em" where
  "Checkpoint e =
     (let (b, l1) = fetch_lsn \<lparr>lr_lsn = NULL_LSN, lr_xid = NULL_XID, lr_prev_lsn = NULL_LSN,
                       lr_body = BeginCheckpointLog\<rparr> (le_log e);
          l2 = push_back b l1;
          (n, l3) = fetch_lsn \<lparr>lr_lsn = NULL_LSN, lr_xid = NULL_XID, lr_prev_lsn = NULL_LSN,
                       lr_body = EndCheckpointLog (lm_att l2) (lm_dpt l2)\<rparr> l2
      in ebind (LogManager_Flush (lr_lsn n)) (\<lambda>_.
         ebind (on_disk (emodify (write_number MASTER_RECORD_NAME (lr_lsn b)))) (\<lambda>_.
           eret (lr_lsn n))) (e\<lparr>le_log := push_back n l3\<rparr>))"

definition LogManager_FlushPage :: "oid_t \<Rightarrow> pageid_t \<Rightarrow> lsn_t \<Rightarrow> (LogEnv, unit) em" where
  "LogManager_FlushPage table_oid page_id page_lsn =
     ebind (LogManager_Flush page_lsn) (\<lambda>_.
       on_log (emodify (\<lambda>l. l\<lparr>lm_dpt := AList.delete \<lparr>tp_table_oid = table_oid, tp_page_id = page_id\<rparr> (lm_dpt l)\<rparr>)))"

definition IncrementRedoCount :: "LogManager \<Rightarrow> LogManager" where
  "IncrementRedoCount l = l\<lparr>lm_redo_count := lm_redo_count l + 1\<rparr>"

section \<open>The log as a sequence of records\<close>

text \<open>
  The history of the log since position \<open>base\<close> is a list of records laid out one after the other:
  the records in the log file followed by those in the buffer.
\<close>

fun contiguous :: "nat \<Rightarrow> LogRecord list \<Rightarrow> bool" where
  "contiguous b [] = True"
| "contiguous b (r # rs) \<longleftrightarrow> unat (lr_lsn r) = b \<and> contiguous (b + length (log_bytes r)) rs"

definition log_end :: "nat \<Rightarrow> LogRecord list \<Rightarrow> nat" where
  "log_end b rs = b + sum_list (map (\<lambda>r. length (log_bytes r)) rs)"

definition rec_wf :: "LogRecord \<Rightarrow> bool" where
  "rec_wf r \<longleftrightarrow> body_wf (lr_body r) \<and> length (log_bytes r) \<le> LOG_SEGMENT_SIZE"

definition MAX_LOG_END :: nat where "MAX_LOG_END = 4094 * LOG_SEGMENT_SIZE"

definition log_core :: "nat \<Rightarrow> LogRecord list \<Rightarrow> LogEnv \<Rightarrow> bool" where
  "log_core base fl e \<longleftrightarrow>
     contiguous base (fl @ lm_buffer (le_log e)) \<and> (\<forall>r \<in> set (fl @ lm_buffer (le_log e)). rec_wf r) \<and>
     unat (lm_next_lsn (le_log e)) = log_end base (fl @ lm_buffer (le_log e)) \<and>
     log_end base (fl @ lm_buffer (le_log e)) \<le> MAX_LOG_END \<and>
     log_ok (le_disk e) \<and> log_end base fl \<le> length (dk_log (le_disk e)) \<and>
     (\<forall>r \<in> set fl. slice (unat (lr_lsn r)) (length (log_bytes r)) (dk_log (le_disk e)) = log_bytes r)"

definition next_lsn_file :: "Disk \<Rightarrow> lsn_t" where
  "next_lsn_file d = (if FileExists NEXT_LSN_NAME d then read_number NEXT_LSN_NAME FIRST_LSN d else FIRST_LSN)"

definition log_rep :: "nat \<Rightarrow> LogRecord list \<Rightarrow> LogEnv \<Rightarrow> bool" where
  "log_rep base fl e \<longleftrightarrow> log_core base fl e \<and>
     lm_flushed_lsn (le_log e) = (if fl = [] then of_nat base - 1 else lr_lsn (last fl)) \<and>
     \<not> DirectoryExists NEXT_LSN_NAME (le_disk e) \<and> next_lsn_file (le_disk e) = of_nat (log_end base fl)"

lemma log_end_simps [simp]:
  "log_end b [] = b" "log_end b (r # rs) = log_end (b + length (log_bytes r)) rs"
  "log_end b (xs @ ys) = log_end (log_end b xs) ys"
  by (simp_all add: log_end_def)

lemma log_end_ge: "b \<le> log_end b rs"
  by (simp add: log_end_def)

lemma log_bytes_nonempty: "13 \<le> length (log_bytes r)"
  by (simp add: log_bytes_def)

lemma contiguous_append [simp]:
  "contiguous b (xs @ ys) \<longleftrightarrow> contiguous b xs \<and> contiguous (log_end b xs) ys"
  by (induction xs arbitrary: b) auto

lemma contiguous_lsn:
  "contiguous b rs \<Longrightarrow> r \<in> set rs \<Longrightarrow> b \<le> unat (lr_lsn r) \<and> unat (lr_lsn r) + length (log_bytes r) \<le> log_end b rs"
proof (induction rs arbitrary: b)
  case Nil
  then show ?case by simp
next
  case (Cons x rs)
  then show ?case
    using log_end_ge [of "b + length (log_bytes x)" rs] by fastforce
qed

lemma WriteLog_record:
  assumes core: "log_core base fl e" and buf: "lm_buffer (le_log e) = r # rs"
  obtains d' where "WriteLog (ucast (lr_lsn r)) (ucast (LogRecord_GetSize r)) (log_bytes r) (le_disk e) = (Inr (), d')"
    "log_core base (fl @ [r]) (e\<lparr>le_disk := d', le_log := (le_log e)\<lparr>lm_buffer := rs\<rparr>\<rparr>)"
    "d' = (le_disk e)\<lparr>dk_log := dk_log d', dk_segments := dk_segments d'\<rparr>" "length (dk_log (le_disk e)) \<le> length (dk_log d')"
proof -
  let ?d = "le_disk e" and ?n = "length (log_bytes r)" and ?b = "log_end base fl"
  have c: "contiguous base (fl @ r # rs)" "\<forall>x \<in> set (fl @ r # rs). rec_wf x"
    "log_end base (fl @ r # rs) \<le> MAX_LOG_END" "log_ok ?d" "?b \<le> length (dk_log ?d)"
    "\<forall>x \<in> set fl. slice (unat (lr_lsn x)) (length (log_bytes x)) (dk_log ?d) = log_bytes x"
    "unat (lm_next_lsn (le_log e)) = log_end base (fl @ r # rs)"
    using core buf unfolding log_core_def by auto
  have lsn: "unat (lr_lsn r) = ?b" using c(1) by simp
  have wf: "body_wf (lr_body r)" "?n \<le> LOG_SEGMENT_SIZE" using c(2) by (simp_all add: rec_wf_def)
  have bn: "?b + ?n \<le> MAX_LOG_END" using c(3) log_end_ge [of "?b + ?n" rs] by simp
  have u1: "unat (ucast (lr_lsn r) :: 32 word) = ?b"
    using bn lsn by (simp add: unsigned_ucast_eq take_bit_nat_eq_self MAX_LOG_END_def)
  have u2: "unat (ucast (LogRecord_GetSize r) :: 32 word) = ?n"
    using LogRecord_GetSize_eq [OF wf(1)] wf(2) by (simp add: unsigned_ucast_eq take_bit_nat_eq_self)
  obtain d' where d': "WriteLog (ucast (lr_lsn r)) (ucast (LogRecord_GetSize r)) (log_bytes r) ?d = (Inr (), d')"
    "slice ?b ?n (dk_log d') = log_bytes r"
    "\<And>o' m. o' + m \<le> length (dk_log ?d) \<Longrightarrow> o' + m \<le> ?b \<or> ?b + ?n \<le> o' \<Longrightarrow> slice o' m (dk_log d') = slice o' m (dk_log ?d)"
    "?b + ?n \<le> length (dk_log d')" "d' = ?d\<lparr>dk_log := dk_log d', dk_segments := dk_segments d'\<rparr>" "log_ok d'"
    "length (dk_log ?d) \<le> length (dk_log d')"
    using WriteLog_ok [OF c(4), of "log_bytes r" "ucast (LogRecord_GetSize r)" "ucast (lr_lsn r)"] u1 u2 wf(2) c(5) bn
    unfolding MAX_LOG_END_def by (metis add_le_mono)
  have "slice (unat (lr_lsn x)) (length (log_bytes x)) (dk_log d') = log_bytes x" if "x \<in> set fl" for x
  proof -
    have "unat (lr_lsn x) + length (log_bytes x) \<le> ?b"
      using contiguous_lsn [of base fl x] c(1) that by simp
    then show ?thesis using d'(3) c(5,6) that by simp
  qed
  then have "log_core base (fl @ [r]) (e\<lparr>le_disk := d', le_log := (le_log e)\<lparr>lm_buffer := rs\<rparr>\<rparr>)"
    using c d' lsn by (auto simp: log_core_def)
  then show thesis using that d'(1,5,7) by blast
qed

lemma Flush_loop_writes:
  assumes "log_core base fl e" "lm_buffer (le_log e) = xs @ ys"
    and "\<forall>r \<in> set xs. lsn = NULL_LSN \<or> lr_lsn r \<le> lsn" "mx = NULL_LSN \<or> unat mx < log_end base fl"
  obtains d' where
    "Flush_loop lsn [] (xs @ ys) mx sz e = Flush_loop lsn [] ys
       (if xs = [] then mx else lr_lsn (last xs)) (if xs = [] then sz else LogRecord_GetSize (last xs))
       (e\<lparr>le_disk := d', le_log := (le_log e)\<lparr>lm_buffer := ys\<rparr>\<rparr>)"
    "log_core base (fl @ xs) (e\<lparr>le_disk := d', le_log := (le_log e)\<lparr>lm_buffer := ys\<rparr>\<rparr>)"
    "d' = (le_disk e)\<lparr>dk_log := dk_log d', dk_segments := dk_segments d'\<rparr>" "length (dk_log (le_disk e)) \<le> length (dk_log d')"
  using assms
proof (induction xs arbitrary: fl e mx sz thesis)
  case Nil
  have "e\<lparr>le_disk := le_disk e, le_log := (le_log e)\<lparr>lm_buffer := ys\<rparr>\<rparr> = e"
    using Nil.prems(3) by simp
  then show ?case
    using Nil.prems(1) [of "le_disk e"] Nil.prems(2) by simp
next
  case (Cons r xs)
  obtain d1 where d1: "WriteLog (ucast (lr_lsn r)) (ucast (LogRecord_GetSize r)) (log_bytes r) (le_disk e) = (Inr (), d1)"
    "log_core base (fl @ [r]) (e\<lparr>le_disk := d1, le_log := (le_log e)\<lparr>lm_buffer := xs @ ys\<rparr>\<rparr>)"
    "d1 = (le_disk e)\<lparr>dk_log := dk_log d1, dk_segments := dk_segments d1\<rparr>" "length (dk_log (le_disk e)) \<le> length (dk_log d1)"
    using WriteLog_record [OF Cons.prems(2)] Cons.prems(3) by (metis append_Cons)
  let ?e1 = "e\<lparr>le_disk := d1, le_log := (le_log e)\<lparr>lm_buffer := xs @ ys\<rparr>\<rparr>"
  have wf: "body_wf (lr_body r)" and lsn: "unat (lr_lsn r) = log_end base fl"
    using Cons.prems(2,3) by (simp_all add: log_core_def rec_wf_def)
  have mx: "mx = NULL_LSN \<or> lr_lsn r > mx"
    using Cons.prems(5) lsn by (auto simp: word_less_nat_alt)
  have step: "Flush_loop lsn [] ((r # xs) @ ys) mx sz e = Flush_loop lsn [] (xs @ ys) (lr_lsn r) (LogRecord_GetSize r) ?e1"
    using Cons.prems(4) mx d1(1) LogRecord_SerializeTo_eq [OF wf]
    by (auto simp: ebind_def on_disk_def on_log_def ezoom_def not_less)
  have "lr_lsn r = NULL_LSN \<or> unat (lr_lsn r) < log_end base (fl @ [r])"
    using lsn log_bytes_nonempty [of r] by auto
  then obtain d' where d': "Flush_loop lsn [] (xs @ ys) (lr_lsn r) (LogRecord_GetSize r) ?e1 = Flush_loop lsn [] ys
       (if xs = [] then lr_lsn r else lr_lsn (last xs)) (if xs = [] then LogRecord_GetSize r else LogRecord_GetSize (last xs))
       (?e1\<lparr>le_disk := d', le_log := (le_log ?e1)\<lparr>lm_buffer := ys\<rparr>\<rparr>)"
    "log_core base ((fl @ [r]) @ xs) (?e1\<lparr>le_disk := d', le_log := (le_log ?e1)\<lparr>lm_buffer := ys\<rparr>\<rparr>)"
    "d' = (le_disk ?e1)\<lparr>dk_log := dk_log d', dk_segments := dk_segments d'\<rparr>" "length (dk_log d1) \<le> length (dk_log d')"
    using Cons.IH [OF _ d1(2), of "lr_lsn r" "LogRecord_GetSize r"] Cons.prems(4) by auto
  have "d' = (le_disk e)\<lparr>dk_log := dk_log d', dk_segments := dk_segments d'\<rparr>"
    using d'(3) d1(3) by (cases "le_disk e", cases d1, cases d') simp
  then show ?case
    using Cons.prems(1) [of d'] step d'(1,2,4) d1(4) by simp
qed

lemma Flush_loop_keeps:
  "\<forall>r \<in> set ys. lsn \<noteq> NULL_LSN \<and> lsn < lr_lsn r \<Longrightarrow> Flush_loop lsn kept ys mx sz e = (Inr (mx, sz), e)"
  by (induction ys arbitrary: kept) auto

lemma contiguous_past:
  assumes "contiguous b (r # rs)" "lsn < lr_lsn r"
  shows "\<forall>x \<in> set (r # rs). lsn < lr_lsn x"
  using contiguous_lsn [OF assms(1)] assms by (fastforce simp: word_less_nat_alt)

text \<open>What flushing leaves alone: the pages of the tables, the other log manager fields.\<close>

definition pages_kept :: "Disk \<Rightarrow> Disk \<Rightarrow> bool" where
  "pages_kept d d' \<longleftrightarrow> (disk_ok d \<longrightarrow> disk_ok d' \<and> disk_content d' = disk_content d \<and> disk_writable d' = disk_writable d)
     \<and> dk_dirs d' = dk_dirs d"

lemma pages_kept_trans: "pages_kept a b \<Longrightarrow> pages_kept b c \<Longrightarrow> pages_kept a c"
  by (simp add: pages_kept_def)

lemma pages_kept_refl [simp]: "pages_kept d d"
  by (simp add: pages_kept_def)

lemma pages_kept_log:
  assumes "d' = d\<lparr>dk_log := x, dk_segments := y\<rparr>"
  shows "pages_kept d d'" "next_lsn_file d' = next_lsn_file d"
proof -
  have pc: "page_content d' = page_content d"
    unfolding assms by (intro ext) (simp add: page_content_def split: option.split)
  show "pages_kept d d'"
    unfolding pages_kept_def disk_content_def pc disk_writable_def disk_ok_def names_ok_def stream_ok_def FileExists_def
    by (simp add: assms)
  show "next_lsn_file d' = next_lsn_file d"
    by (simp add: assms next_lsn_file_def FileExists_def read_number_def split: option.split)
qed

lemma NEXT_LSN_NAME_plain [simp]: "CHR ''/'' \<notin> set NEXT_LSN_NAME" "parent_exists NEXT_LSN_NAME d"
  "CHR ''/'' \<notin> set MASTER_RECORD_NAME" "parent_exists MASTER_RECORD_NAME d"
  by (simp_all add: NEXT_LSN_NAME_def MASTER_RECORD_NAME_def parent_exists_def)

lemma pages_kept_number: "CHR ''/'' \<notin> set path \<Longrightarrow> pages_kept d (write_number path n d)"
  using write_number_frame [of d path n] by (simp add: pages_kept_def)

lemma next_lsn_file_write:
  "\<not> DirectoryExists NEXT_LSN_NAME d \<Longrightarrow> next_lsn_file (write_number NEXT_LSN_NAME n d) = n"
  by (simp add: next_lsn_file_def read_number_write)
    (auto simp: write_number_def ofstream_write_def FileExists_def split: option.splits)

definition to_flush :: "lsn_t \<Rightarrow> LogManager \<Rightarrow> LogRecord list" where
  "to_flush lsn l = takeWhile (\<lambda>r. lsn = NULL_LSN \<or> lr_lsn r \<le> lsn) (lm_buffer l)"

lemma to_flush_split:
  assumes "contiguous b (lm_buffer l)"
  obtains ys where "lm_buffer l = to_flush lsn l @ ys" "\<forall>r \<in> set ys. lsn \<noteq> NULL_LSN \<and> lsn < lr_lsn r"
    "\<forall>r \<in> set (to_flush lsn l). lsn = NULL_LSN \<or> lr_lsn r \<le> lsn"
proof -
  let ?P = "\<lambda>r. lsn = NULL_LSN \<or> lr_lsn r \<le> lsn"
  let ?ys = "dropWhile ?P (lm_buffer l)"
  have split: "lm_buffer l = to_flush lsn l @ ?ys"
    by (simp add: to_flush_def)
  have "\<forall>r \<in> set ?ys. lsn \<noteq> NULL_LSN \<and> lsn < lr_lsn r"
  proof (cases ?ys)
    case (Cons y ys)
    then have y: "lsn \<noteq> NULL_LSN" "lsn < lr_lsn y"
      using hd_dropWhile [of ?P "lm_buffer l"] by (auto simp: not_le)
    have "contiguous (log_end b (to_flush lsn l)) (y # ys)"
      using assms split Cons by (metis contiguous_append)
    then show ?thesis
      using contiguous_past y Cons by metis
  next
    case Nil
    then show ?thesis by (simp only: list.set) simp
  qed
  then show thesis
    using that split set_takeWhileD by (metis (mono_tags, lifting) to_flush_def)
qed

lemma log_rep_flushed_less:
  assumes "log_rep base fl e" "r \<in> set (lm_buffer (le_log e))"
  shows "lm_flushed_lsn (le_log e) = NULL_LSN \<or> lm_flushed_lsn (le_log e) < lr_lsn r" "lr_lsn r \<noteq> NULL_LSN"
proof -
  have core: "log_core base fl e" using assms(1) by (simp add: log_rep_def)
  have c: "contiguous base (fl @ lm_buffer (le_log e))" "log_end base (fl @ lm_buffer (le_log e)) \<le> MAX_LOG_END"
    using core by (auto simp: log_core_def)
  then have b: "log_end base fl \<le> unat (lr_lsn r)" "unat (lr_lsn r) \<le> MAX_LOG_END"
    using contiguous_lsn [of "log_end base fl" "lm_buffer (le_log e)" r] assms(2) by auto
  show "lr_lsn r \<noteq> NULL_LSN"
  proof
    assume "lr_lsn r = NULL_LSN"
    then have "unat (lr_lsn r) = 2 ^ 64 - 1" by (simp add: unsigned_minus_1_eq_mask mask_eq_exp_minus_1)
    then show False using b(2) by (simp add: MAX_LOG_END_def)
  qed
  show "lm_flushed_lsn (le_log e) = NULL_LSN \<or> lm_flushed_lsn (le_log e) < lr_lsn r"
  proof (cases "fl = []")
    case True
    have "base \<le> MAX_LOG_END" using b True by simp
    then have u: "unat (of_nat base :: lsn_t) = base"
      by (intro unat_of_nat_small) (simp add: MAX_LOG_END_def)
    show ?thesis
    proof (cases "base = 0")
      case True
      then show ?thesis using assms(1) \<open>fl = []\<close> by (simp add: log_rep_def)
    next
      case False
      then have "unat (of_nat base - 1 :: lsn_t) = base - 1"
        using u by (subst unat_sub_small) simp_all
      then show ?thesis
        using assms(1) \<open>fl = []\<close> False b by (auto simp: log_rep_def word_less_nat_alt)
    qed
  next
    case False
    then have "unat (lr_lsn (last fl)) + length (log_bytes (last fl)) \<le> log_end base fl"
      using contiguous_lsn [of base fl "last fl"] c(1) by simp
    then show ?thesis
      using assms(1) False b log_bytes_nonempty [of "last fl"] by (simp add: log_rep_def word_less_nat_alt)
  qed
qed

lemma log_core_disk:
  "log_core base fl e \<Longrightarrow> dk_log d' = dk_log (le_disk e) \<Longrightarrow> dk_log_fail d' = dk_log_fail (le_disk e) \<Longrightarrow>
   dk_segments d' = dk_segments (le_disk e) \<Longrightarrow> log_core base fl (e\<lparr>le_disk := d'\<rparr>)"
  by (simp add: log_core_def log_ok_def)

lemma log_core_manager:
  "log_core base fl e \<Longrightarrow> lm_buffer l' = lm_buffer (le_log e) \<Longrightarrow> lm_next_lsn l' = lm_next_lsn (le_log e) \<Longrightarrow>
   log_core base fl (e\<lparr>le_log := l'\<rparr>)"
  by (simp add: log_core_def)

lemma log_rep_manager:
  "log_rep base fl e \<Longrightarrow> lm_buffer l' = lm_buffer (le_log e) \<Longrightarrow> lm_next_lsn l' = lm_next_lsn (le_log e) \<Longrightarrow>
   lm_flushed_lsn l' = lm_flushed_lsn (le_log e) \<Longrightarrow> log_rep base fl (e\<lparr>le_log := l'\<rparr>)"
  unfolding log_rep_def using log_core_manager by simp

text \<open>\<^verbatim>\<open>Flush\<close> moves the records up to the bound from the buffer to the file.\<close>

lemma LogManager_Flush_rep:
  assumes rep: "log_rep base fl e"
  obtains e' ys where "LogManager_Flush lsn e = (Inr (), e')" "log_rep base (fl @ to_flush lsn (le_log e)) e'"
    "pages_kept (le_disk e) (le_disk e')" "lm_buffer (le_log e) = to_flush lsn (le_log e) @ ys"
    "\<forall>r \<in> set ys. lsn \<noteq> NULL_LSN \<and> lsn < lr_lsn r"
    "le_log e' = (le_log e)\<lparr>lm_buffer := ys, lm_flushed_lsn := lm_flushed_lsn (le_log e')\<rparr>"
    "length (dk_log (le_disk e)) \<le> length (dk_log (le_disk e'))"
proof -
  let ?l = "le_log e" and ?xs = "to_flush lsn (le_log e)"
  have core: "log_core base fl e" using rep by (simp add: log_rep_def)
  then obtain ys where ys: "lm_buffer ?l = ?xs @ ys" "\<forall>r \<in> set ys. lsn \<noteq> NULL_LSN \<and> lsn < lr_lsn r"
    "\<forall>r \<in> set ?xs. lsn = NULL_LSN \<or> lr_lsn r \<le> lsn"
    using to_flush_split [of "log_end base fl" ?l lsn] by (auto simp: log_core_def)
  obtain d1 where d1: "Flush_loop lsn [] (?xs @ ys) NULL_LSN 0 e = Flush_loop lsn [] ys
       (if ?xs = [] then NULL_LSN else lr_lsn (last ?xs)) (if ?xs = [] then 0 else LogRecord_GetSize (last ?xs))
       (e\<lparr>le_disk := d1, le_log := ?l\<lparr>lm_buffer := ys\<rparr>\<rparr>)"
    "log_core base (fl @ ?xs) (e\<lparr>le_disk := d1, le_log := ?l\<lparr>lm_buffer := ys\<rparr>\<rparr>)"
    "d1 = (le_disk e)\<lparr>dk_log := dk_log d1, dk_segments := dk_segments d1\<rparr>" "length (dk_log (le_disk e)) \<le> length (dk_log d1)"
    using Flush_loop_writes [OF core ys(1,3), of NULL_LSN 0] by blast
  let ?e1 = "e\<lparr>le_disk := d1, le_log := ?l\<lparr>lm_buffer := ys\<rparr>\<rparr>"
  have kept: "pages_kept (le_disk e) d1" "next_lsn_file d1 = next_lsn_file (le_disk e)"
    using pages_kept_log [OF d1(3)] by simp_all
  have dirs: "dk_dirs d1 = dk_dirs (le_disk e)" by (subst d1(3)) simp
  show thesis
  proof (cases "?xs = []")
    case True
    have "LogManager_Flush lsn e = (Inr (), ?e1)"
      using d1(1) ys Flush_loop_keeps [OF ys(2)] True by (simp add: LogManager_Flush_def ebind_def update_next_lsn_def)
    moreover have "log_rep base (fl @ ?xs) ?e1"
      using rep d1(2) True kept dirs by (simp add: log_rep_def DirectoryExists_def)
    ultimately show ?thesis
      using that [of ?e1 ys] kept(1) ys(1,2) d1(4) by auto
  next
    case False
    let ?z = "last ?xs"
    let ?n = "lr_lsn ?z + LogRecord_GetSize ?z"
    let ?e2 = "?e1\<lparr>le_log := (le_log ?e1)\<lparr>lm_flushed_lsn := lr_lsn ?z\<rparr>, le_disk := write_number NEXT_LSN_NAME ?n d1\<rparr>"
    have zb: "?z \<in> set (lm_buffer ?l)" using False ys(1) by simp
    have zs: "contiguous base (fl @ ?xs)" "\<forall>r \<in> set (fl @ ?xs). rec_wf r" "log_end base (fl @ ?xs) \<le> MAX_LOG_END"
      using d1(2) log_end_ge [of "log_end base (fl @ ?xs)" ys] by (auto simp: log_core_def)
    have "\<exists>zs. ?xs = zs @ [?z]" using False by (metis append_butlast_last_id)
    then have zend: "unat (lr_lsn ?z) + length (log_bytes ?z) = log_end base (fl @ ?xs)"
      using zs(1) by (metis append_assoc contiguous.simps(2) contiguous_append log_end_simps)
    have "body_wf (lr_body ?z)" using zs(2) False by (simp add: rec_wf_def)
    then have sz: "unat (LogRecord_GetSize ?z) = length (log_bytes ?z)" by (rule LogRecord_GetSize_eq)
    have n: "unat ?n = log_end base (fl @ ?xs)"
      using zend sz zs(3) by (subst unat_add_small) (simp_all add: MAX_LOG_END_def)
    have fu: "unat (of_nat (log_end base fl) :: lsn_t) = log_end base fl"
      using zs(3) log_end_ge [of "log_end base fl" ?xs] by (intro unat_of_nat_small) (simp add: MAX_LOG_END_def)
    have gt: "next_lsn_file d1 < ?n"
      using rep kept(2) fu n zend contiguous_lsn [of "log_end base fl" ?xs ?z] False zs(1) log_bytes_nonempty [of ?z]
      by (simp add: log_rep_def word_less_nat_alt)
    have cond: "lr_lsn ?z \<noteq> NULL_LSN" "lm_flushed_lsn ?l = NULL_LSN \<or> lr_lsn ?z > lm_flushed_lsn ?l"
      using log_rep_flushed_less [OF rep zb] by simp_all
    have "update_next_lsn (lr_lsn ?z) (LogRecord_GetSize ?z) ?e1 = ?e2"
      unfolding update_next_lsn_def next_lsn_file_def [symmetric] Let_def using cond gt by simp
    then have "LogManager_Flush lsn e = (Inr (), ?e2)"
      using d1(1) ys Flush_loop_keeps [OF ys(2)] False by (simp add: LogManager_Flush_def ebind_def)
    moreover have "log_core base (fl @ ?xs) ?e2"
      using log_core_disk [OF log_core_manager [OF d1(2), of "(le_log ?e1)\<lparr>lm_flushed_lsn := lr_lsn ?z\<rparr>"],
          of "write_number NEXT_LSN_NAME ?n d1"] by simp
    moreover have "?n = of_nat (log_end base (fl @ ?xs))"
      using n by (metis word_nat_cases unat_of_nat_small unat_less_exp word_unat_eq_iff of_nat_unat ucast_id)
    then have "log_rep base (fl @ ?xs) ?e2"
      using calculation(2) rep False dirs
      by (simp add: log_rep_def next_lsn_file_write DirectoryExists_def)
    moreover have "pages_kept (le_disk e) (le_disk ?e2)"
      using pages_kept_trans [OF kept(1) pages_kept_number] by simp
    ultimately show ?thesis
      using that [of ?e2 ys] ys(1,2) d1(4) by auto
  qed
qed

section \<open>Appending\<close>

text \<open>The log stays below the bound up to which 32-bit file offsets cannot wrap.\<close>

definition log_room :: "LogRecord \<Rightarrow> LogManager \<Rightarrow> bool" where
  "log_room r l \<longleftrightarrow> rec_wf r \<and> unat (lm_next_lsn l) + length (log_bytes r) \<le> MAX_LOG_END"

lemma log_bytes_lsn [simp]: "log_bytes (r\<lparr>lr_lsn := x\<rparr>) = log_bytes r"
  by (simp add: log_bytes_def LogRecord_base_bytes_def LogRecord_GetType_def)

lemma rec_wf_lsn [simp]: "rec_wf (r\<lparr>lr_lsn := x\<rparr>) = rec_wf r"
  by (simp add: rec_wf_def)

lemma append_rep:
  assumes "log_rep base fl e" "log_room r (le_log e)"
    and "lm_next_lsn l' = lm_next_lsn (le_log e) + LogRecord_GetSize r"
    and "lm_buffer l' = lm_buffer (le_log e) @ [r\<lparr>lr_lsn := lm_next_lsn (le_log e)\<rparr>]"
    and "lm_flushed_lsn l' = lm_flushed_lsn (le_log e)"
  shows "log_rep base fl (e\<lparr>le_log := l'\<rparr>)"
proof -
  have wf: "rec_wf r" "unat (lm_next_lsn (le_log e)) + length (log_bytes r) \<le> MAX_LOG_END"
    using assms(2) by (simp_all add: log_room_def)
  have "unat (LogRecord_GetSize r) = length (log_bytes r)"
    using wf(1) LogRecord_GetSize_eq by (simp add: rec_wf_def)
  then have "unat (lm_next_lsn l') = unat (lm_next_lsn (le_log e)) + length (log_bytes r)"
    unfolding assms(3) using wf(2) by (subst unat_add_small) (simp_all add: MAX_LOG_END_def)
  then show ?thesis
    using assms(1,4,5) wf by (auto simp: log_rep_def log_core_def)
qed

subsection \<open>The chain of a transaction\<close>

text \<open>
  The records of a transaction since it began, and the links between them: each record's previous
  LSN is the LSN of the record before it, and the first one has none.
\<close>

fun tx_log :: "xid_t \<Rightarrow> LogRecord list \<Rightarrow> LogRecord list \<Rightarrow> LogRecord list" where
  "tx_log xid acc [] = acc"
| "tx_log xid acc (r # rs) =
     tx_log xid (if lr_xid r \<noteq> xid then acc else if lr_body r = BeginLog then [r] else acc @ [r]) rs"

fun linked :: "lsn_t \<Rightarrow> LogRecord list \<Rightarrow> bool" where
  "linked p [] = True"
| "linked p (r # rs) \<longleftrightarrow> lr_prev_lsn r = p \<and> linked (lr_lsn r) rs"

definition chain_inv :: "LogRecord list \<Rightarrow> LogManager \<Rightarrow> bool" where
  "chain_inv fl l \<longleftrightarrow> (\<forall>xid lsn. map_of (lm_att l) xid = Some lsn \<longrightarrow>
     (let xs = tx_log xid [] (fl @ lm_buffer l) in xs \<noteq> [] \<and> linked NULL_LSN xs \<and> lr_lsn (last xs) = lsn))"

lemma tx_log_append: "tx_log xid acc (xs @ ys) = tx_log xid (tx_log xid acc xs) ys"
  by (induction xs arbitrary: acc) auto

lemma linked_snoc: "linked p (xs @ [r]) \<longleftrightarrow> linked p xs \<and> lr_prev_lsn r = (if xs = [] then p else lr_lsn (last xs))"
  by (induction xs arbitrary: p) auto

lemma chain_inv_append:
  assumes "chain_inv fl l" "lm_buffer l' = lm_buffer l @ [r]"
    and "if lr_body r = BeginLog then lr_prev_lsn r = NULL_LSN else map_of (lm_att l) (lr_xid r) = Some (lr_prev_lsn r)"
    and "map_of (lm_att l') = (map_of (lm_att l))(lr_xid r \<mapsto> lr_lsn r)"
  shows "chain_inv fl l'"
  unfolding chain_inv_def Let_def
proof (intro allI impI)
  fix xid lsn assume a: "map_of (lm_att l') xid = Some lsn"
  let ?xs = "tx_log xid [] (fl @ lm_buffer l)"
  have t: "tx_log xid [] (fl @ lm_buffer l') =
      (if lr_xid r \<noteq> xid then ?xs else if lr_body r = BeginLog then [r] else ?xs @ [r])"
    using assms(2) by (simp add: tx_log_append)
  show "tx_log xid [] (fl @ lm_buffer l') \<noteq> [] \<and> linked NULL_LSN (tx_log xid [] (fl @ lm_buffer l')) \<and>
      lr_lsn (last (tx_log xid [] (fl @ lm_buffer l'))) = lsn"
  proof (cases "lr_xid r = xid")
    case True
    then have "lsn = lr_lsn r" using a assms(4) by simp
    moreover have "?xs \<noteq> [] \<and> linked NULL_LSN ?xs \<and> lr_lsn (last ?xs) = lr_prev_lsn r" if "lr_body r \<noteq> BeginLog"
      using assms(1,3) that True by (simp add: chain_inv_def Let_def)
    ultimately show ?thesis
      unfolding t using True assms(3) by (auto simp: linked_snoc)
  next
    case False
    then show ?thesis
      unfolding t using a assms(1,4) by (simp add: chain_inv_def Let_def)
  qed
qed

lemma chain_inv_other:
  assumes "chain_inv fl l" "lm_buffer l' = lm_buffer l @ rs"
    and "\<forall>r \<in> set rs. map_of (lm_att l') (lr_xid r) = None" "map_of (lm_att l') \<subseteq>\<^sub>m map_of (lm_att l)"
  shows "chain_inv fl l'"
  unfolding chain_inv_def Let_def
proof (intro allI impI)
  fix xid lsn assume a: "map_of (lm_att l') xid = Some lsn"
  have "tx_log xid acc rs = acc" for acc
    using assms(3) a by (induction rs arbitrary: acc) (auto split: if_splits)
  then have "tx_log xid [] (fl @ lm_buffer l') = tx_log xid [] (fl @ lm_buffer l)"
    using assms(2) by (simp add: tx_log_append)
  moreover have "map_of (lm_att l) xid = Some lsn"
    using a assms(4) by (metis domI map_le_def)
  ultimately show "tx_log xid [] (fl @ lm_buffer l') \<noteq> [] \<and> linked NULL_LSN (tx_log xid [] (fl @ lm_buffer l')) \<and>
      lr_lsn (last (tx_log xid [] (fl @ lm_buffer l'))) = lsn"
    using assms(1) by (simp add: chain_inv_def Let_def)
qed

lemma chain_inv_flush:
  "chain_inv fl l \<Longrightarrow> lm_buffer l = xs @ ys \<Longrightarrow> lm_buffer l' = ys \<Longrightarrow> lm_att l' = lm_att l \<Longrightarrow> chain_inv (fl @ xs) l'"
  by (simp add: chain_inv_def)

section \<open>The log manager as a state machine\<close>

text \<open>
  \<open>log_open\<close>: two more records of any size fit below the bound of the log file, and the tables of a
  checkpoint fit a segment.
\<close>

definition log_open :: "LogManager \<Rightarrow> bool" where
  "log_open l \<longleftrightarrow> unat (lm_next_lsn l) + 2 * LOG_SEGMENT_SIZE \<le> MAX_LOG_END \<and>
     29 + 12 * length (lm_att l) + 16 * length (lm_dpt l) \<le> LOG_SEGMENT_SIZE"

inductive log_step :: "LogEnv \<Rightarrow> LogEnv \<Rightarrow> bool" where
  L_begin: "log_open (le_log e) \<Longrightarrow> xid \<noteq> DDL_XID \<Longrightarrow> xid \<noteq> NULL_XID \<Longrightarrow>
     AppendBeginLog xid (le_log e) = (Inr lsn, l') \<Longrightarrow> log_step e (e\<lparr>le_log := l'\<rparr>)"
| L_insert: "log_open (le_log e) \<Longrightarrow> AppendInsertLog xid oid pid slot off sz rec (le_log e) = (Inr lsn, l') \<Longrightarrow>
     log_step e (e\<lparr>le_log := l'\<rparr>)"
| L_delete: "log_open (le_log e) \<Longrightarrow> AppendDeleteLog xid oid pid slot (le_log e) = (Inr lsn, l') \<Longrightarrow>
     log_step e (e\<lparr>le_log := l'\<rparr>)"
| L_new_page: "log_open (le_log e) \<Longrightarrow> AppendNewPageLog xid oid prev pid (le_log e) = (Inr lsn, l') \<Longrightarrow>
     log_step e (e\<lparr>le_log := l'\<rparr>)"
| L_commit: "log_open (le_log e) \<Longrightarrow> AppendCommitLog xid e = (Inr lsn, e') \<Longrightarrow> log_step e e'"
| L_rollback: "log_open (le_log e) \<Longrightarrow> AppendRollbackLog xid e = (Inr lsn, e') \<Longrightarrow> log_step e e'"
| L_checkpoint: "log_open (le_log e) \<Longrightarrow> Checkpoint e = (Inr lsn, e') \<Longrightarrow> log_step e e'"
| L_flush_page: "LogManager_FlushPage oid pid lsn e = (Inr (), e') \<Longrightarrow> log_step e e'"
| L_flush_all: "LogManager_Flush_all e = (Inr (), e') \<Longrightarrow> log_step e e'"

inductive_cases log_stepE: "log_step e e'"

definition log_inv :: "nat \<Rightarrow> LogEnv \<Rightarrow> bool" where
  "log_inv base e \<longleftrightarrow> (\<exists>fl. log_rep base fl e \<and> chain_inv fl (le_log e)) \<and>
     distinct (map fst (lm_att (le_log e))) \<and> distinct (map fst (lm_dpt (le_log e))) \<and>
     map_of (lm_att (le_log e)) DDL_XID = None \<and> map_of (lm_att (le_log e)) NULL_XID = None \<and>
     \<not> DirectoryExists MASTER_RECORD_NAME (le_disk e) \<and> disk_ok (le_disk e)"

lemma SetDirtyPage_fields [simp]:
  "lm_att (SetDirtyPage oid pid lsn l) = lm_att l" "lm_buffer (SetDirtyPage oid pid lsn l) = lm_buffer l"
  "lm_next_lsn (SetDirtyPage oid pid lsn l) = lm_next_lsn l"
  "lm_flushed_lsn (SetDirtyPage oid pid lsn l) = lm_flushed_lsn l"
  by (simp_all add: SetDirtyPage_def)

lemma SetDirtyPage_distinct:
  "distinct (map fst (lm_dpt l)) \<Longrightarrow> distinct (map fst (lm_dpt (SetDirtyPage oid pid lsn l)))"
  by (simp add: SetDirtyPage_def distinct_update)

lemma SetDirtyPage_lookup:
  "map_of (lm_dpt (SetDirtyPage oid pid lsn l)) k =
     (if k = \<lparr>tp_table_oid = oid, tp_page_id = pid\<rparr> \<and> map_of (lm_dpt l) k = None then Some lsn else map_of (lm_dpt l) k)"
  by (auto simp: SetDirtyPage_def update_conv)

lemma fixed_rec_wf:
  "lr_body r = BeginLog \<Longrightarrow> rec_wf r" "lr_body r = CommitLog \<Longrightarrow> rec_wf r" "lr_body r = RollbackLog \<Longrightarrow> rec_wf r"
  "lr_body r = BeginCheckpointLog \<Longrightarrow> rec_wf r" "lr_body r = DeleteLog a b c \<Longrightarrow> rec_wf r"
  "lr_body r = NewPageLog a b c' \<Longrightarrow> rec_wf r"
  by (simp_all add: rec_wf_def body_wf_def log_bytes_def DeleteLog_bytes_def NewPageLog_bytes_def)

lemma InsertLog_rec_wf:
  assumes "lr_body r = InsertLog oid pid slot off sz rec" "length rec = unat sz"
  shows "rec_wf r"
proof -
  have "unat sz < 2 ^ 16" using unat_less_exp [of sz] by simp
  then show ?thesis using assms by (simp add: rec_wf_def body_wf_def log_bytes_def InsertLog_bytes_def)
qed

lemma log_open_room: "log_open l \<Longrightarrow> rec_wf r \<Longrightarrow> log_room r l"
  by (simp add: log_open_def log_room_def rec_wf_def)

text \<open>Appending a record of an active transaction, or the first record of a new one.\<close>

lemma append_inv:
  assumes inv: "log_inv base e" and op: "log_open (le_log e)" and wf: "rec_wf r"
    and l': "lm_next_lsn l' = lm_next_lsn (le_log e) + LogRecord_GetSize r"
      "lm_buffer l' = lm_buffer (le_log e) @ [r\<lparr>lr_lsn := lm_next_lsn (le_log e)\<rparr>]"
      "lm_flushed_lsn l' = lm_flushed_lsn (le_log e)"
      "lm_att l' = AList.update (lr_xid r) (lm_next_lsn (le_log e)) (lm_att (le_log e))"
      "distinct (map fst (lm_dpt l'))"
    and prev: "if lr_body r = BeginLog then lr_prev_lsn r = NULL_LSN
       else map_of (lm_att (le_log e)) (lr_xid r) = Some (lr_prev_lsn r)"
    and xid: "lr_xid r \<noteq> DDL_XID" "lr_xid r \<noteq> NULL_XID"
  shows "log_inv base (e\<lparr>le_log := l'\<rparr>)"
proof -
  obtain fl where fl: "log_rep base fl e" "chain_inv fl (le_log e)"
    using inv by (auto simp: log_inv_def)
  have "log_rep base fl (e\<lparr>le_log := l'\<rparr>)"
    by (rule append_rep [OF fl(1) log_open_room [OF op wf] l'(1-3)])
  moreover have "chain_inv fl l'"
    using prev l'(4) by (intro chain_inv_append [OF fl(2) l'(2)]) (simp_all add: update_conv')
  ultimately show ?thesis
    using inv l'(4,5) xid by (auto simp: log_inv_def distinct_update update_conv)
qed

lemma tx_log_subset: "set (tx_log xid acc rs) \<subseteq> set acc \<union> set rs"
proof (induction rs arbitrary: acc)
  case (Cons r rs)
  let ?acc = "if lr_xid r \<noteq> xid then acc else if lr_body r = BeginLog then [r] else acc @ [r]"
  have "set ?acc \<subseteq> insert r (set acc)" by auto
  then show ?case
    using Cons.IH [of ?acc] by (simp only: tx_log.simps list.set) blast
qed simp

text \<open>Below the bound, the 32-bit detour of \<^verbatim>\<open>AppendNewPageLog\<close> loses nothing.\<close>

lemma att_lsn_small:
  assumes "log_inv base e" "map_of (lm_att (le_log e)) xid = Some lsn"
  shows "(ucast (ucast lsn :: xid_t) :: lsn_t) = lsn"
proof -
  obtain fl where fl: "log_rep base fl e" "chain_inv fl (le_log e)"
    using assms(1) by (auto simp: log_inv_def)
  let ?H = "fl @ lm_buffer (le_log e)" and ?xs = "tx_log xid [] (fl @ lm_buffer (le_log e))"
  have "?xs \<noteq> []" "lr_lsn (last ?xs) = lsn"
    using fl(2) assms(2) by (simp_all add: chain_inv_def Let_def)
  then have "last ?xs \<in> set ?H"
    using tx_log_subset [of xid "[]" ?H] by (metis last_in_set Un_iff empty_iff list.set(1) subsetD)
  moreover have "contiguous base ?H" "log_end base ?H \<le> MAX_LOG_END"
    using fl(1) by (simp_all add: log_rep_def log_core_def)
  ultimately have "unat lsn \<le> MAX_LOG_END"
    using contiguous_lsn \<open>lr_lsn (last ?xs) = lsn\<close> by fastforce
  then have "unat lsn < 2 ^ 32" by (simp add: MAX_LOG_END_def)
  then show ?thesis
    by (simp add: word_unat_eq_iff unsigned_ucast_eq unsigned_take_bit_eq take_bit_nat_eq_self)
qed

lemma begin_inv:
  assumes "log_inv base e" "log_open (le_log e)" "xid \<noteq> DDL_XID" "xid \<noteq> NULL_XID"
    and "AppendBeginLog xid (le_log e) = (Inr lsn, l')"
  shows "log_inv base (e\<lparr>le_log := l'\<rparr>)"
  using assms(5) append_inv [OF assms(1,2), of "\<lparr>lr_lsn = NULL_LSN, lr_xid = xid, lr_prev_lsn = NULL_LSN, lr_body = BeginLog\<rparr>" l']
    assms(1,3,4) fixed_rec_wf
  by (auto simp: AppendBeginLog_def fetch_lsn_def push_back_def set_att_def log_inv_def split: if_splits)

lemma att_not_special:
  "log_inv base e \<Longrightarrow> map_of (lm_att (le_log e)) xid = Some lsn \<Longrightarrow> xid \<noteq> DDL_XID \<and> xid \<noteq> NULL_XID"
  unfolding log_inv_def by (metis option.distinct(1))

lemma insert_inv:
  assumes "log_inv base e" "log_open (le_log e)"
    and "AppendInsertLog xid oid pid slot off sz rec (le_log e) = (Inr lsn, l')"
  shows "log_inv base (e\<lparr>le_log := l'\<rparr>)"
proof -
  obtain prev where p: "map_of (lm_att (le_log e)) xid = Some prev" and l: "unat sz \<le> length rec"
    using assms(3) by (auto simp: AppendInsertLog_def mem_read_def split: option.splits if_splits)
  let ?r = "\<lparr>lr_lsn = NULL_LSN, lr_xid = xid, lr_prev_lsn = prev, lr_body = InsertLog oid pid slot off sz (slice 0 (unat sz) rec)\<rparr>"
  have "rec_wf ?r" using l InsertLog_rec_wf [of ?r oid pid slot off sz "slice 0 (unat sz) rec"] by simp
  moreover have "distinct (map fst (lm_dpt (le_log e)))" using assms(1) by (simp add: log_inv_def)
  ultimately show ?thesis
    using append_inv [OF assms(1,2), of ?r l'] assms(3) p l att_not_special [OF assms(1) p]
    by (auto simp: AppendInsertLog_def fetch_lsn_def push_back_def set_att_def SetDirtyPage_distinct)
qed

lemma delete_inv:
  assumes "log_inv base e" "log_open (le_log e)" "AppendDeleteLog xid oid pid slot (le_log e) = (Inr lsn, l')"
  shows "log_inv base (e\<lparr>le_log := l'\<rparr>)"
proof -
  obtain prev where p: "map_of (lm_att (le_log e)) xid = Some prev"
    using assms(3) by (auto simp: AppendDeleteLog_def split: option.splits)
  let ?r = "\<lparr>lr_lsn = NULL_LSN, lr_xid = xid, lr_prev_lsn = prev, lr_body = DeleteLog oid pid slot\<rparr>"
  have "rec_wf ?r" by (rule fixed_rec_wf) simp
  moreover have "distinct (map fst (lm_dpt (le_log e)))" using assms(1) by (simp add: log_inv_def)
  ultimately show ?thesis
    using append_inv [OF assms(1,2), of ?r l'] assms(3) p att_not_special [OF assms(1) p]
    by (auto simp: AppendDeleteLog_def fetch_lsn_def push_back_def set_att_def SetDirtyPage_distinct)
qed

lemma new_page_inv:
  assumes "log_inv base e" "log_open (le_log e)" "AppendNewPageLog xid oid prv pid (le_log e) = (Inr lsn, l')"
  shows "log_inv base (e\<lparr>le_log := l'\<rparr>)"
proof -
  have d: "distinct (map fst (lm_dpt (le_log e)))" using assms(1) by (simp add: log_inv_def)
  show ?thesis
  proof (cases "xid = DDL_XID")
    case True
    let ?r = "\<lparr>lr_lsn = NULL_LSN, lr_xid = DDL_XID, lr_prev_lsn = ucast NULL_XID, lr_body = NewPageLog oid prv pid\<rparr>"
    have wf: "rec_wf ?r" by (rule fixed_rec_wf) simp
    obtain fl where fl: "log_rep base fl e" "chain_inv fl (le_log e)"
      using assms(1) by (auto simp: log_inv_def)
    have l': "lm_next_lsn l' = lm_next_lsn (le_log e) + LogRecord_GetSize ?r"
      "lm_buffer l' = lm_buffer (le_log e) @ [?r\<lparr>lr_lsn := lm_next_lsn (le_log e)\<rparr>]"
      "lm_flushed_lsn l' = lm_flushed_lsn (le_log e)" "lm_att l' = lm_att (le_log e)" "distinct (map fst (lm_dpt l'))"
      using assms(3) True d
      by (auto simp: AppendNewPageLog_def fetch_lsn_def push_back_def SetDirtyPage_distinct Let_def split: if_splits)
    have "log_rep base fl (e\<lparr>le_log := l'\<rparr>)"
      by (rule append_rep [OF fl(1) log_open_room [OF assms(2) wf] l'(1-3)])
    moreover have "chain_inv fl l'"
      using assms(1) l'(4) by (intro chain_inv_other [OF fl(2) l'(2)]) (simp_all add: log_inv_def)
    ultimately show ?thesis
      using assms(1) l'(4,5) by (auto simp: log_inv_def)
  next
    case False
    then obtain prev where p: "map_of (lm_att (le_log e)) xid = Some prev"
      using assms(3) by (auto simp: AppendNewPageLog_def split: if_splits)
    let ?r = "\<lparr>lr_lsn = NULL_LSN, lr_xid = xid, lr_prev_lsn = prev, lr_body = NewPageLog oid prv pid\<rparr>"
    have "rec_wf ?r" by (rule fixed_rec_wf) simp
    then show ?thesis
      using append_inv [OF assms(1,2), of ?r l'] assms(3) p att_not_special [OF assms(1) p] False d
        att_lsn_small [OF assms(1) p]
      by (auto simp: AppendNewPageLog_def fetch_lsn_def push_back_def set_att_def SetDirtyPage_distinct Let_def split: if_splits)
  qed
qed

lemma flush_inv:
  assumes "log_inv base e"
  obtains e' where "LogManager_Flush lsn e = (Inr (), e')" "log_inv base e'"
    "lm_att (le_log e') = lm_att (le_log e)" "lm_dpt (le_log e') = lm_dpt (le_log e)"
    "pages_kept (le_disk e) (le_disk e')"
proof -
  obtain fl where fl: "log_rep base fl e" "chain_inv fl (le_log e)"
    using assms by (auto simp: log_inv_def)
  obtain e' ys where e': "LogManager_Flush lsn e = (Inr (), e')" "log_rep base (fl @ to_flush lsn (le_log e)) e'"
    "pages_kept (le_disk e) (le_disk e')" "lm_buffer (le_log e) = to_flush lsn (le_log e) @ ys"
    "le_log e' = (le_log e)\<lparr>lm_buffer := ys, lm_flushed_lsn := lm_flushed_lsn (le_log e')\<rparr>"
    using LogManager_Flush_rep [OF fl(1), of lsn] by metis
  have l: "lm_buffer (le_log e') = ys" "lm_att (le_log e') = lm_att (le_log e)" "lm_dpt (le_log e') = lm_dpt (le_log e)"
    by (subst e'(5), simp)+
  have "chain_inv (fl @ to_flush lsn (le_log e)) (le_log e')"
    by (rule chain_inv_flush [OF fl(2) e'(4) l(1,2)])
  then have "log_inv base e'"
    using assms e'(2,3) l(2,3) by (auto simp: log_inv_def pages_kept_def DirectoryExists_def)
  then show thesis
    using that e'(1,3) l(2,3) by blast
qed

text \<open>A record is on file when reading its range of the log gives it back.\<close>

definition on_log_file :: "Disk \<Rightarrow> LogRecord \<Rightarrow> bool" where
  "on_log_file d r \<longleftrightarrow> (\<exists>bs. ReadLog (ucast (lr_lsn r)) (ucast (LogRecord_GetSize r)) d = (Inr bs, d) \<and>
     LogRecord_DeserializeFrom (lr_lsn r) bs = Inr r)"

lemma log_rep_on_file:
  assumes "log_rep base fl e" "r \<in> set fl"
  shows "on_log_file (le_disk e) r"
proof -
  have c: "contiguous base fl" "log_end base fl \<le> length (dk_log (le_disk e))" "log_ok (le_disk e)" "rec_wf r"
    "slice (unat (lr_lsn r)) (length (log_bytes r)) (dk_log (le_disk e)) = log_bytes r"
    "log_end base (fl @ lm_buffer (le_log e)) \<le> MAX_LOG_END"
    using assms by (auto simp: log_rep_def log_core_def)
  have b: "unat (lr_lsn r) + length (log_bytes r) \<le> log_end base fl" "log_end base fl \<le> MAX_LOG_END"
    using contiguous_lsn [OF c(1) assms(2)] c(6) log_end_ge [of "log_end base fl" "lm_buffer (le_log e)"] by simp_all
  have wf: "body_wf (lr_body r)" using c(4) by (simp add: rec_wf_def)
  have u: "unat (ucast (lr_lsn r) :: 32 word) = unat (lr_lsn r)"
    "unat (ucast (LogRecord_GetSize r) :: 32 word) = length (log_bytes r)"
    using b LogRecord_GetSize_eq [OF wf] by (simp_all add: unsigned_ucast_eq take_bit_nat_eq_self MAX_LOG_END_def)
  have "ReadLog (ucast (lr_lsn r)) (ucast (LogRecord_GetSize r)) (le_disk e) = (Inr (log_bytes r), le_disk e)"
    using ReadLog_ok [of "le_disk e" "ucast (lr_lsn r)" "ucast (LogRecord_GetSize r)"] u b c by (simp add: log_ok_def)
  moreover have "LogRecord_DeserializeFrom (lr_lsn r) (log_bytes r) = Inr r"
    using LogRecord_DeserializeFrom_eq [OF wf, of "lr_lsn r" "[]"] by simp
  ultimately show ?thesis
    by (auto simp: on_log_file_def)
qed

lemma to_flush_whole:
  assumes "contiguous b (lm_buffer l)" "lm_buffer l = xs @ [r]"
  shows "to_flush (lr_lsn r) l = lm_buffer l"
proof -
  have "lr_lsn x \<le> lr_lsn r" if "x \<in> set (lm_buffer l)" for x
  proof (cases "x = r")
    case False
    then have "x \<in> set xs" using that assms(2) by simp
    then have "unat (lr_lsn x) + length (log_bytes x) \<le> log_end b xs" "unat (lr_lsn r) = log_end b xs"
      using contiguous_lsn [of b xs x] assms by auto
    then show ?thesis by (simp add: word_le_nat_alt)
  qed simp
  then show ?thesis
    by (simp add: to_flush_def takeWhile_eq_all_conv)
qed

text \<open>
  The last record of a transaction: it is flushed with everything before it, and the transaction
  leaves the active transaction table.
\<close>

lemma append_final_ok:
  assumes inv: "log_inv base e" and op: "log_open (le_log e)" and x: "map_of (lm_att (le_log e)) xid = Some prev"
    and body: "body = CommitLog \<or> body = RollbackLog"
  obtains e' where "append_final body fn xid e = (Inr (lm_next_lsn (le_log e)), e')" "log_inv base e'"
    "lm_buffer (le_log e') = []" "lm_att (le_log e') = AList.delete xid (lm_att (le_log e))"
    "\<forall>r \<in> set (lm_buffer (le_log e) @ [\<lparr>lr_lsn = lm_next_lsn (le_log e), lr_xid = xid, lr_prev_lsn = prev, lr_body = body\<rparr>]).
       on_log_file (le_disk e') r"
    "pages_kept (le_disk e) (le_disk e')"
proof -
  let ?l = "le_log e"
  let ?r = "\<lparr>lr_lsn = lm_next_lsn ?l, lr_xid = xid, lr_prev_lsn = prev, lr_body = body\<rparr>"
  obtain fl where fl: "log_rep base fl e" "chain_inv fl ?l" using inv by (auto simp: log_inv_def)
  have wf: "rec_wf ?r" using body fixed_rec_wf by auto
  let ?l1 = "?l\<lparr>lm_next_lsn := lm_next_lsn ?l + LogRecord_GetSize ?r, lm_buffer := lm_buffer ?l @ [?r]\<rparr>"
  let ?e1 = "e\<lparr>le_log := ?l1\<rparr>"
  have rep1: "log_rep base fl ?e1"
    by (rule append_rep [OF fl(1) log_open_room [OF op wf]]) simp_all
  have "contiguous (log_end base fl) (lm_buffer ?l1)" using rep1 by (simp add: log_rep_def log_core_def)
  then have whole: "to_flush (lr_lsn ?r) ?l1 = lm_buffer ?l @ [?r]"
    using to_flush_whole [of "log_end base fl" ?l1 "lm_buffer ?l" ?r] by simp
  obtain e2 ys where e2: "LogManager_Flush (lr_lsn ?r) ?e1 = (Inr (), e2)" "log_rep base (fl @ (lm_buffer ?l @ [?r])) e2"
    "pages_kept (le_disk e) (le_disk e2)" "lm_buffer ?l @ [?r] = (lm_buffer ?l @ [?r]) @ ys"
    "le_log e2 = ?l1\<lparr>lm_buffer := ys, lm_flushed_lsn := lm_flushed_lsn (le_log e2)\<rparr>" "length (dk_log (le_disk e)) \<le> length (dk_log (le_disk e2))"
    using LogManager_Flush_rep [OF rep1, of "lr_lsn ?r"] whole by auto
  let ?e' = "e2\<lparr>le_log := (le_log e2)\<lparr>lm_att := AList.delete xid (lm_att (le_log e2))\<rparr>\<rparr>"
  have ys: "ys = []" using e2(4) by simp
  have l2: "lm_buffer (le_log e2) = []" "lm_att (le_log e2) = lm_att ?l" "lm_dpt (le_log e2) = lm_dpt ?l"
    by (subst e2(5), simp add: ys)+
  have sz: "LogRecord_GetSize \<lparr>lr_lsn = NULL_LSN, lr_xid = xid, lr_prev_lsn = prev, lr_body = body\<rparr> = LogRecord_GetSize ?r"
    by (simp add: LogRecord_GetSize_def)
  have run: "append_final body fn xid e = (Inr (lm_next_lsn ?l), ?e')"
    using x e2(1) sz by (simp add: append_final_def fetch_lsn_def push_back_def ebind_def on_log_def ezoom_def)
  have rep': "log_rep base (fl @ lm_buffer ?l @ [?r]) ?e'"
    using e2(2) by (rule log_rep_manager) simp_all
  have "chain_inv fl ((le_log ?e')\<lparr>lm_buffer := lm_buffer ?l @ [?r]\<rparr>)"
    by (rule chain_inv_other [OF fl(2)]) (auto simp: l2 delete_conv' map_le_def)
  then have "chain_inv (fl @ lm_buffer ?l @ [?r]) (le_log ?e')"
    by (rule chain_inv_flush) (simp_all add: l2)
  then have "log_inv base ?e'"
    using inv rep' e2(3) l2
    by (auto simp: log_inv_def delete_conv' distinct_delete pages_kept_def DirectoryExists_def)
  moreover have "\<forall>r \<in> set (lm_buffer ?l @ [?r]). on_log_file (le_disk ?e') r"
    using log_rep_on_file [OF rep'] by simp
  ultimately show thesis
    using that run l2 e2(3) by simp
qed

lemma next_lsn_file_master:
  "names_ok d \<Longrightarrow> next_lsn_file (write_number MASTER_RECORD_NAME n d) = next_lsn_file d"
  using write_number_other [where d = d and q = NEXT_LSN_NAME and path = MASTER_RECORD_NAME and n = n]
  by (auto simp: next_lsn_file_def FileExists_def read_number_def NEXT_LSN_NAME_def MASTER_RECORD_NAME_def split: option.split)

lemma log_rep_master:
  assumes "log_rep base fl e" "names_ok (le_disk e)"
  shows "log_rep base fl (e\<lparr>le_disk := write_number MASTER_RECORD_NAME n (le_disk e)\<rparr>)"
  using assms log_core_disk [of base fl e "write_number MASTER_RECORD_NAME n (le_disk e)"]
  by (simp add: log_rep_def next_lsn_file_master DirectoryExists_def)

lemma EndCheckpointLog_rec_wf:
  assumes "lr_body r = EndCheckpointLog att dpt" "distinct (map fst att)" "distinct (map fst dpt)"
    and "29 + 12 * length att + 16 * length dpt \<le> LOG_SEGMENT_SIZE"
  shows "rec_wf r"
  using assms by (simp add: rec_wf_def body_wf_def log_bytes_def EndCheckpointLog_bytes_def)

lemma Checkpoint_ok:
  assumes inv: "log_inv base e" and op: "log_open (le_log e)"
  defines "l \<equiv> le_log e"
  obtains e' where "Checkpoint e = (Inr (lm_next_lsn l + 13), e')" "log_inv base e'"
    "read_number MASTER_RECORD_NAME 0 (le_disk e') = lm_next_lsn l" "lm_buffer (le_log e') = []"
    "on_log_file (le_disk e') \<lparr>lr_lsn = lm_next_lsn l, lr_xid = NULL_XID, lr_prev_lsn = NULL_LSN, lr_body = BeginCheckpointLog\<rparr>"
    "on_log_file (le_disk e') \<lparr>lr_lsn = lm_next_lsn l + 13, lr_xid = NULL_XID, lr_prev_lsn = NULL_LSN,
       lr_body = EndCheckpointLog (lm_att l) (lm_dpt l)\<rparr>"
    "pages_kept (le_disk e) (le_disk e')"
proof -
  let ?b = "\<lparr>lr_lsn = lm_next_lsn l, lr_xid = NULL_XID, lr_prev_lsn = NULL_LSN, lr_body = BeginCheckpointLog\<rparr>"
  let ?n = "\<lparr>lr_lsn = lm_next_lsn l + 13, lr_xid = NULL_XID, lr_prev_lsn = NULL_LSN,
     lr_body = EndCheckpointLog (lm_att l) (lm_dpt l)\<rparr>"
  obtain fl where fl: "log_rep base fl e" "chain_inv fl l" using inv by (auto simp: log_inv_def l_def)
  have wfb: "rec_wf ?b" by (rule fixed_rec_wf) simp
  have wfn: "rec_wf ?n"
    using inv op EndCheckpointLog_rec_wf [of ?n "lm_att l" "lm_dpt l"] by (simp add: log_inv_def log_open_def l_def)
  have szb: "LogRecord_GetSize ?b = 13" by (simp add: LogRecord_GetSize_def)
  let ?l1 = "l\<lparr>lm_next_lsn := lm_next_lsn l + 13, lm_buffer := lm_buffer l @ [?b]\<rparr>"
  let ?l2 = "?l1\<lparr>lm_next_lsn := lm_next_lsn ?l1 + LogRecord_GetSize ?n, lm_buffer := lm_buffer ?l1 @ [?n]\<rparr>"
  have rep1: "log_rep base fl (e\<lparr>le_log := ?l1\<rparr>)"
    by (rule append_rep [OF fl(1) log_open_room [OF op wfb]]) (simp_all add: l_def LogRecord_GetSize_def)
  have un: "unat (lm_next_lsn l + 13) = unat (lm_next_lsn l) + 13"
    using op by (subst unat_add_small) (simp_all add: log_open_def l_def MAX_LOG_END_def)
  have "log_room ?n ?l1" using op wfn un by (simp add: log_room_def log_open_def rec_wf_def l_def)
  then have rep2: "log_rep base fl (e\<lparr>le_log := ?l2\<rparr>)"
    using append_rep [OF rep1, of ?n ?l2] by simp
  have "contiguous (log_end base fl) (lm_buffer ?l2)" using rep2 by (simp add: log_rep_def log_core_def)
  then have whole: "to_flush (lr_lsn ?n) ?l2 = lm_buffer l @ [?b, ?n]"
    using to_flush_whole [of "log_end base fl" ?l2 "lm_buffer l @ [?b]" ?n] by simp
  obtain e3 ys where e3: "LogManager_Flush (lr_lsn ?n) (e\<lparr>le_log := ?l2\<rparr>) = (Inr (), e3)"
    "log_rep base (fl @ (lm_buffer l @ [?b, ?n])) e3" "pages_kept (le_disk e) (le_disk e3)"
    "lm_buffer l @ [?b, ?n] = (lm_buffer l @ [?b, ?n]) @ ys"
    "le_log e3 = ?l2\<lparr>lm_buffer := ys, lm_flushed_lsn := lm_flushed_lsn (le_log e3)\<rparr>" "length (dk_log (le_disk e)) \<le> length (dk_log (le_disk e3))"
    using LogManager_Flush_rep [OF rep2, of "lr_lsn ?n"] whole by auto
  have ys: "ys = []" using e3(4) by simp
  have l3: "lm_buffer (le_log e3) = []" "lm_att (le_log e3) = lm_att l" "lm_dpt (le_log e3) = lm_dpt l"
    by (subst e3(5), simp add: ys)+
  have ok3: "disk_ok (le_disk e3)" "\<not> DirectoryExists MASTER_RECORD_NAME (le_disk e3)"
    using inv e3(3) by (auto simp: log_inv_def pages_kept_def DirectoryExists_def)
  let ?e' = "e3\<lparr>le_disk := write_number MASTER_RECORD_NAME (lm_next_lsn l) (le_disk e3)\<rparr>"
  have szb': "LogRecord_GetSize \<lparr>lr_lsn = NULL_LSN, lr_xid = NULL_XID, lr_prev_lsn = NULL_LSN, lr_body = BeginCheckpointLog\<rparr> = 13"
    "LogRecord_GetSize \<lparr>lr_lsn = NULL_LSN, lr_xid = NULL_XID, lr_prev_lsn = NULL_LSN,
       lr_body = EndCheckpointLog (lm_att l) (lm_dpt l)\<rparr> = LogRecord_GetSize ?n"
    by (simp_all add: LogRecord_GetSize_def)
  have run: "Checkpoint e = (Inr (lm_next_lsn l + 13), ?e')"
    using e3(1) szb' by (simp add: Checkpoint_def fetch_lsn_def push_back_def ebind_def on_disk_def ezoom_def l_def)
  have rep': "log_rep base (fl @ lm_buffer l @ [?b, ?n]) ?e'"
    using log_rep_master e3(2) ok3(1) by (simp add: disk_ok_def)
  have "chain_inv fl ((le_log e3)\<lparr>lm_buffer := lm_buffer l @ [?b, ?n]\<rparr>)"
    using inv by (intro chain_inv_other [OF fl(2)]) (auto simp: l3 log_inv_def l_def)
  then have "chain_inv (fl @ lm_buffer l @ [?b, ?n]) (le_log ?e')"
    by (rule chain_inv_flush) (simp_all add: l3)
  then have "log_inv base ?e'"
    using inv rep' ok3 l3 write_number_frame(1) [OF ok3(1), of MASTER_RECORD_NAME]
    by (auto simp: log_inv_def l_def DirectoryExists_def)
  moreover have "pages_kept (le_disk e) (le_disk ?e')"
    using pages_kept_trans [OF e3(3) pages_kept_number] by simp
  moreover have "read_number MASTER_RECORD_NAME 0 (le_disk ?e') = lm_next_lsn l"
    using ok3(2) by (simp add: read_number_write)
  ultimately show thesis
    using that run l3 log_rep_on_file [OF rep'] by simp
qed

lemma FlushPage_ok:
  assumes "log_inv base e"
  obtains e' where "LogManager_FlushPage oid pid lsn e = (Inr (), e')" "log_inv base e'" "pages_kept (le_disk e) (le_disk e')"
    "lm_att (le_log e') = lm_att (le_log e)"
    "lm_dpt (le_log e') = AList.delete \<lparr>tp_table_oid = oid, tp_page_id = pid\<rparr> (lm_dpt (le_log e))"
proof -
  obtain e1 where e1: "LogManager_Flush lsn e = (Inr (), e1)" "log_inv base e1"
    "lm_att (le_log e1) = lm_att (le_log e)" "lm_dpt (le_log e1) = lm_dpt (le_log e)" "pages_kept (le_disk e) (le_disk e1)"
    using flush_inv [OF assms] by metis
  let ?e' = "e1\<lparr>le_log := (le_log e1)\<lparr>lm_dpt := AList.delete \<lparr>tp_table_oid = oid, tp_page_id = pid\<rparr> (lm_dpt (le_log e1))\<rparr>\<rparr>"
  have "LogManager_FlushPage oid pid lsn e = (Inr (), ?e')"
    using e1(1) by (simp add: LogManager_FlushPage_def ebind_def on_log_def ezoom_def)
  moreover have "log_inv base ?e'"
  proof -
    obtain fl where fl: "log_rep base fl e1" "chain_inv fl (le_log e1)" using e1(2) by (auto simp: log_inv_def)
    have "log_rep base fl ?e'" by (rule log_rep_manager [OF fl(1)]) simp_all
    moreover have "chain_inv fl (le_log ?e')" using fl(2) by (simp add: chain_inv_def)
    ultimately show ?thesis using e1(2) by (auto simp: log_inv_def distinct_delete)
  qed
  ultimately show thesis
    using that e1 by simp
qed

lemma append_final_active:
  "append_final body fn xid e = (Inr lsn, e') \<Longrightarrow> \<exists>prev. map_of (lm_att (le_log e)) xid = Some prev"
  by (auto simp: append_final_def split: option.splits)

lemma log_step_inv:
  assumes "log_step e e'" "log_inv base e"
  shows "log_inv base e'"
  using assms
proof (induction rule: log_step.induct)
  case (L_begin e xid lsn l')
  then show ?case using begin_inv by blast
next
  case (L_insert e xid oid pid slot off sz rec lsn l')
  then show ?case using insert_inv by blast
next
  case (L_delete e xid oid pid slot lsn l')
  then show ?case using delete_inv by blast
next
  case (L_new_page e xid oid prev pid lsn l')
  then show ?case using new_page_inv by blast
next
  case (L_commit e xid lsn e')
  then obtain prev where "map_of (lm_att (le_log e)) xid = Some prev"
    using append_final_active unfolding AppendCommitLog_def by blast
  then show ?case
    using append_final_ok [OF L_commit.prems L_commit.hyps(1)] L_commit.hyps(2) unfolding AppendCommitLog_def
    by (metis prod.inject)
next
  case (L_rollback e xid lsn e')
  then obtain prev where "map_of (lm_att (le_log e)) xid = Some prev"
    using append_final_active unfolding AppendRollbackLog_def by blast
  then show ?case
    using append_final_ok [OF L_rollback.prems L_rollback.hyps(1)] L_rollback.hyps(2) unfolding AppendRollbackLog_def
    by (metis prod.inject)
next
  case (L_checkpoint e lsn e')
  then show ?case using Checkpoint_ok [OF L_checkpoint.prems L_checkpoint.hyps(1)] by (metis prod.inject)
next
  case (L_flush_page oid pid lsn e e')
  then show ?case using FlushPage_ok by (metis prod.inject)
next
  case (L_flush_all e e')
  then show ?case using flush_inv unfolding LogManager_Flush_all_def by (metis prod.inject)
qed

section \<open>The write-ahead interface\<close>

text \<open>
  What the buffer pool relies on when it writes a page: forcing the log up to an LSN succeeds, keeps
  the log well formed, the active transactions and every page as they were, and leaves no record up
  to that LSN in memory only.
\<close>

locale write_ahead =
  fixes force :: "'p \<Rightarrow> lsn_t \<Rightarrow> ('s, unit) em" and good :: "'s \<Rightarrow> bool" and disk_of :: "'s \<Rightarrow> Disk"
    and pending :: "'s \<Rightarrow> LogRecord list" and kept :: "'s \<Rightarrow> 's \<Rightarrow> bool"
  assumes force_ok: "good s \<Longrightarrow> \<exists>s'. force p lsn s = (Inr (), s') \<and> good s' \<and> pages_kept (disk_of s) (disk_of s') \<and> kept s s'
      \<and> (\<forall>r \<in> set (pending s). (lsn = NULL_LSN \<or> lr_lsn r \<le> lsn) \<longrightarrow> on_log_file (disk_of s') r)
      \<and> set (pending s') = {r \<in> set (pending s). lsn \<noteq> NULL_LSN \<and> lsn < lr_lsn r}"
begin

text \<open>Forcing twice up to growing LSNs is forcing once up to the larger.\<close>

lemma force_twice:
  assumes "good s" "a \<le> b"
  shows "\<exists>s1 s2 s3. force p a s = (Inr (), s1) \<and> force q b s1 = (Inr (), s2) \<and> force q b s = (Inr (), s3)
     \<and> set (pending s2) = set (pending s3)"
proof -
  obtain s1 where s1: "force p a s = (Inr (), s1)" "good s1" "set (pending s1) = {r \<in> set (pending s). a \<noteq> NULL_LSN \<and> a < lr_lsn r}"
    using force_ok [OF assms(1)] by blast
  obtain s2 where s2: "force q b s1 = (Inr (), s2)" "set (pending s2) = {r \<in> set (pending s1). b \<noteq> NULL_LSN \<and> b < lr_lsn r}"
    using force_ok [OF s1(2)] by blast
  obtain s3 where s3: "force q b s = (Inr (), s3)" "set (pending s3) = {r \<in> set (pending s). b \<noteq> NULL_LSN \<and> b < lr_lsn r}"
    using force_ok [OF assms(1)] by blast
  have "a \<noteq> NULL_LSN" if "b \<noteq> NULL_LSN"
    using that assms(2) by (metis NULL_LSN_def word_n1_ge order_antisym)
  then have "set (pending s2) = set (pending s3)"
    using s1(3) s2(2) s3(2) assms(2) by auto
  then show ?thesis using s1(1) s2(1) s3(1) by blast
qed

lemma force_durable:
  assumes "good s" "r \<in> set (pending s)" "lr_lsn r \<le> lsn"
  shows "on_log_file (disk_of (snd (force p lsn s))) r"
proof -
  obtain s' where "force p lsn s = (Inr (), s')"
    "\<forall>r \<in> set (pending s). (lsn = NULL_LSN \<or> lr_lsn r \<le> lsn) \<longrightarrow> on_log_file (disk_of s') r"
    using force_ok [OF assms(1), of p lsn] by blast
  then show ?thesis using assms(2,3) by simp
qed

end

definition force_page :: "oid_t \<times> pageid_t \<Rightarrow> lsn_t \<Rightarrow> (LogEnv, unit) em" where
  "force_page k lsn = LogManager_FlushPage (fst k) (snd k) lsn"

definition log_good :: "LogEnv \<Rightarrow> bool" where
  "log_good e \<longleftrightarrow> (\<exists>base. log_inv base e)"

definition pending_log :: "LogEnv \<Rightarrow> LogRecord list" where
  "pending_log e = lm_buffer (le_log e)"

text \<open>The history of the log: the records on file and in the buffer.\<close>

definition log_hist :: "nat \<Rightarrow> LogRecord list \<Rightarrow> LogEnv \<Rightarrow> bool" where
  "log_hist base H e \<longleftrightarrow> (\<exists>fl. H = fl @ lm_buffer (le_log e) \<and> log_rep base fl e)"

lemma Flush_flushed:
  assumes rep: "log_rep base fl e" and run: "LogManager_Flush lsn e = (Inr (), e')" and fl: "lm_flushed_lsn (le_log e) \<noteq> NULL_LSN"
  shows "lm_flushed_lsn (le_log e') \<noteq> NULL_LSN"
proof -
  obtain e1 where e1: "LogManager_Flush lsn e = (Inr (), e1)" "log_rep base (fl @ to_flush lsn (le_log e)) e1"
    using LogManager_Flush_rep [OF rep, of lsn] by metis
  let ?xs = "fl @ to_flush lsn (le_log e)"
  have f: "lm_flushed_lsn (le_log e') = (if ?xs = [] then of_nat base - 1 else lr_lsn (last ?xs))"
    using e1 run by (simp add: log_rep_def)
  show ?thesis
  proof (cases "?xs = []")
    case True
    then show ?thesis using f fl rep by (simp add: log_rep_def)
  next
    case False
    have c: "contiguous base ?xs" "log_end base ?xs \<le> MAX_LOG_END"
      using e1(2) log_end_ge [of "log_end base ?xs" "lm_buffer (le_log e1)"] by (auto simp: log_rep_def log_core_def)
    have "unat (lr_lsn (last ?xs)) \<le> MAX_LOG_END"
      using contiguous_lsn [OF c(1) last_in_set [OF False]] c(2) by simp
    moreover have "MAX_LOG_END < unat NULL_LSN"
      by (simp add: MAX_LOG_END_def unsigned_minus_1_eq_mask mask_eq_exp_minus_1)
    ultimately have "lr_lsn (last ?xs) \<noteq> NULL_LSN" by (metis not_less)
    then show ?thesis using f False by metis
  qed
qed

text \<open>
  Forcing the log touches neither the active transactions nor the LSN counter nor the history, and
  only cleans pages.
\<close>

definition log_kept :: "LogEnv \<Rightarrow> LogEnv \<Rightarrow> bool" where
  "log_kept e e' \<longleftrightarrow> lm_att (le_log e') = lm_att (le_log e) \<and> lm_next_lsn (le_log e') = lm_next_lsn (le_log e) \<and>
     length (lm_dpt (le_log e')) \<le> length (lm_dpt (le_log e)) \<and> length (dk_log (le_disk e)) \<le> length (dk_log (le_disk e')) \<and>
     (lm_flushed_lsn (le_log e) \<noteq> NULL_LSN \<longrightarrow> lm_flushed_lsn (le_log e') \<noteq> NULL_LSN) \<and>
     (\<forall>base H. log_hist base H e \<longrightarrow> log_hist base H e')"

lemma log_kept_refl [simp]: "log_kept e e"
  by (simp add: log_kept_def)

lemma log_kept_trans: "log_kept a b \<Longrightarrow> log_kept b c \<Longrightarrow> log_kept a c"
  by (simp add: log_kept_def)

lemma log_kept_open: "log_kept e e' \<Longrightarrow> log_open (le_log e) \<Longrightarrow> log_open (le_log e')"
  by (simp add: log_kept_def log_open_def)

lemma Flush_kept:
  assumes "log_good e" "LogManager_FlushPage oid pid lsn e = (Inr (), e')"
  shows "log_kept e e'"
proof -
  obtain base fl where fl: "log_inv base e" "log_rep base fl e" using assms(1) by (auto simp: log_good_def log_inv_def)
  obtain e1 ys where e1: "LogManager_Flush lsn e = (Inr (), e1)"
    "le_log e1 = (le_log e)\<lparr>lm_buffer := ys, lm_flushed_lsn := lm_flushed_lsn (le_log e1)\<rparr>"
    "length (dk_log (le_disk e)) \<le> length (dk_log (le_disk e1))"
    using LogManager_Flush_rep [OF fl(2), of lsn] by metis
  let ?l' = "(le_log e1)\<lparr>lm_dpt := AList.delete \<lparr>tp_table_oid = oid, tp_page_id = pid\<rparr> (lm_dpt (le_log e1))\<rparr>"
  have e': "e' = e1\<lparr>le_log := ?l'\<rparr>"
    using assms(2) e1(1) by (simp add: LogManager_FlushPage_def ebind_def on_log_def ezoom_def)
  have fld: "lm_att (le_log e1) = lm_att (le_log e)" "lm_next_lsn (le_log e1) = lm_next_lsn (le_log e)"
    "lm_dpt (le_log e1) = lm_dpt (le_log e)"
    by (subst e1(2), simp)+
  have hist: "log_hist base H e'" if hh: "log_hist base H e" for base H
  proof -
    obtain fl where h: "H = fl @ lm_buffer (le_log e)" "log_rep base fl e" using hh by (auto simp: log_hist_def)
    obtain e2 zs where e2: "LogManager_Flush lsn e = (Inr (), e2)" "log_rep base (fl @ to_flush lsn (le_log e)) e2"
      "lm_buffer (le_log e) = to_flush lsn (le_log e) @ zs"
      "le_log e2 = (le_log e)\<lparr>lm_buffer := zs, lm_flushed_lsn := lm_flushed_lsn (le_log e2)\<rparr>"
      using LogManager_Flush_rep [OF h(2), of lsn] by metis
    have "e2 = e1" using e1(1) e2(1) by simp
    moreover have "lm_buffer (le_log e2) = zs" by (subst e2(4)) simp
    ultimately have "lm_buffer (le_log e') = zs" "log_rep base (fl @ to_flush lsn (le_log e)) e'"
      using e2(2) log_rep_manager [of base _ e1 ?l'] by (simp_all add: e')
    then show ?thesis unfolding log_hist_def using h(1) e2(3) by auto
  qed
  have "lm_flushed_lsn (le_log e1) \<noteq> NULL_LSN" if "lm_flushed_lsn (le_log e) \<noteq> NULL_LSN"
    using Flush_flushed [OF fl(2) e1(1) that] .
  then show ?thesis
    using fld hist e1(3) length_delete_le by (simp add: log_kept_def e')
qed

interpretation wal: write_ahead force_page log_good le_disk pending_log log_kept
proof
  fix e lsn and k :: "oid_t \<times> pageid_t"
  assume good: "log_good e"
  then obtain base where inv: "log_inv base e" by (auto simp: log_good_def)
  obtain fl where fl: "log_rep base fl e" "chain_inv fl (le_log e)" using inv by (auto simp: log_inv_def)
  obtain e1 ys where e1: "LogManager_Flush lsn e = (Inr (), e1)" "log_rep base (fl @ to_flush lsn (le_log e)) e1"
    "lm_buffer (le_log e) = to_flush lsn (le_log e) @ ys" "\<forall>r \<in> set ys. lsn \<noteq> NULL_LSN \<and> lsn < lr_lsn r"
    "le_log e1 = (le_log e)\<lparr>lm_buffer := ys, lm_flushed_lsn := lm_flushed_lsn (le_log e1)\<rparr>"
    using LogManager_Flush_rep [OF fl(1), of lsn] by metis
  obtain e' where e': "LogManager_FlushPage (fst k) (snd k) lsn e = (Inr (), e')" "log_inv base e'" "pages_kept (le_disk e) (le_disk e')"
    using FlushPage_ok [OF inv] by metis
  have same: "le_disk e' = le_disk e1" "lm_buffer (le_log e') = lm_buffer (le_log e1)"
    using e'(1) e1(1) by (auto simp: LogManager_FlushPage_def ebind_def on_log_def ezoom_def)
  have ys: "lm_buffer (le_log e1) = ys" by (subst e1(5)) simp
  have tf: "\<forall>r \<in> set (to_flush lsn (le_log e)). lsn = NULL_LSN \<or> lr_lsn r \<le> lsn"
    using set_takeWhileD by (force simp: to_flush_def)
  have "\<forall>r \<in> set (lm_buffer (le_log e)). (lsn = NULL_LSN \<or> lr_lsn r \<le> lsn) \<longrightarrow> on_log_file (le_disk e') r"
    using e1(3,4) log_rep_on_file [OF e1(2)] same(1) by auto
  moreover have "set (lm_buffer (le_log e')) = {r \<in> set (lm_buffer (le_log e)). lsn \<noteq> NULL_LSN \<and> lsn < lr_lsn r}"
    unfolding same(2) ys using e1(3,4) tf by auto
  moreover have "log_kept e e'" by (rule Flush_kept [OF good e'(1)])
  ultimately show "\<exists>s'. force_page k lsn e = (Inr (), s') \<and> log_good s' \<and> pages_kept (le_disk e) (le_disk s') \<and> log_kept e s'
      \<and> (\<forall>r \<in> set (pending_log e). (lsn = NULL_LSN \<or> lr_lsn r \<le> lsn) \<longrightarrow> on_log_file (le_disk s') r)
      \<and> set (pending_log s') = {r \<in> set (pending_log e). lsn \<noteq> NULL_LSN \<and> lsn < lr_lsn r}"
    using e' by (auto simp: force_page_def log_good_def pending_log_def)
qed

section \<open>Properties\<close>

text \<open>
  C23. The invariant of the log manager holds in every reachable state: whatever sequence of appends,
  commits, rollbacks, flushes and checkpoints is run, the log is a gap-free sequence of records whose
  flushed part is in the log file byte for byte, the stored next LSN is the end of that part, and
  for every active transaction the previous-LSN chain from its entry in the active transaction
  table passes through exactly the records it wrote since it began.
\<close>

theorem log_reachable_inv:
  assumes "log_step\<^sup>*\<^sup>* e e'" "log_inv base e"
  shows "log_inv base e'"
  using assms by (induction rule: rtranclp_induct) (auto intro: log_step_inv)

definition sample_log :: LogEnv where
  "sample_log = \<lparr>le_disk = sample_disk, le_log = LogManager_new 0\<rparr>"

lemma table_path_not_number: "GetFilePath a b \<noteq> NEXT_LSN_NAME" "GetFilePath a b \<noteq> MASTER_RECORD_NAME"
proof -
  have "CHR ''/'' \<in> set (GetFilePath a b)" by (simp add: GetFilePath_def)
  then show "GetFilePath a b \<noteq> NEXT_LSN_NAME" "GetFilePath a b \<noteq> MASTER_RECORD_NAME"
    using NEXT_LSN_NAME_plain(1,3) by metis+
qed

lemma sample_log_inv: "log_inv 0 sample_log"
proof -
  have "\<not> DirectoryExists NEXT_LSN_NAME sample_disk" "\<not> FileExists NEXT_LSN_NAME sample_disk"
    using table_path_not_number(1) [of 2 10001]
    by (simp_all add: sample_disk_def DirectoryExists_def FileExists_def) (simp add: NEXT_LSN_NAME_def)
  then have "log_rep 0 [] sample_log"
    using sample_disk_ok(3)
    by (simp add: log_rep_def log_core_def sample_log_def LogManager_new_def MAX_LOG_END_def next_lsn_file_def)
  moreover have "chain_inv [] (le_log sample_log)"
    by (simp add: chain_inv_def sample_log_def LogManager_new_def)
  ultimately show ?thesis
    using sample_disk_ok(1)
    by (auto simp: log_inv_def) (simp_all add: sample_log_def LogManager_new_def sample_disk_def DirectoryExists_def MASTER_RECORD_NAME_def)
qed

lemma sample_log_open: "log_open (le_log sample_log)"
  by (simp add: log_open_def sample_log_def LogManager_new_def MAX_LOG_END_def)

theorem log_reachable_inv_witness:
  "\<exists>lsn l'. AppendBeginLog 7 (le_log sample_log) = (Inr lsn, l') \<and> log_inv 0 (sample_log\<lparr>le_log := l'\<rparr>)"
proof -
  obtain l' where run: "AppendBeginLog 7 (le_log sample_log) = (Inr 0, l')"
    by (simp add: AppendBeginLog_def sample_log_def LogManager_new_def fetch_lsn_def)
  have "log_step sample_log (sample_log\<lparr>le_log := l'\<rparr>)"
    using L_begin [OF sample_log_open _ _ run] by simp
  then show ?thesis
    using log_reachable_inv [OF r_into_rtranclp sample_log_inv] run by blast
qed

text \<open>
  C2. Commit is durable: for an active transaction \<^verbatim>\<open>AppendCommitLog\<close> returns normally, and afterwards the
  commit record and every record that was still in the log buffer can be read back from the log
  file, the buffer is empty, and the transaction is no longer active.
\<close>

theorem AppendCommitLog_durable:
  assumes "log_inv base e" "log_open (le_log e)" "map_of (lm_att (le_log e)) xid = Some prev"
  shows "\<exists>e'. AppendCommitLog xid e = (Inr (lm_next_lsn (le_log e)), e') \<and> log_inv base e'
     \<and> (\<forall>r \<in> set (lm_buffer (le_log e)). on_log_file (le_disk e') r)
     \<and> on_log_file (le_disk e') \<lparr>lr_lsn = lm_next_lsn (le_log e), lr_xid = xid, lr_prev_lsn = prev, lr_body = CommitLog\<rparr>
     \<and> lm_buffer (le_log e') = [] \<and> map_of (lm_att (le_log e')) xid = None"
proof -
  obtain e' where "append_final CommitLog ''AppendCommitLog'' xid e = (Inr (lm_next_lsn (le_log e)), e')" "log_inv base e'"
    "lm_buffer (le_log e') = []" "lm_att (le_log e') = AList.delete xid (lm_att (le_log e))"
    "\<forall>r \<in> set (lm_buffer (le_log e) @ [\<lparr>lr_lsn = lm_next_lsn (le_log e), lr_xid = xid, lr_prev_lsn = prev, lr_body = CommitLog\<rparr>]).
       on_log_file (le_disk e') r"
    using append_final_ok [OF assms, of CommitLog "''AppendCommitLog''"] by blast
  then show ?thesis
    by (intro exI [of _ e']) (simp add: AppendCommitLog_def delete_conv')
qed

definition sample_log1 :: LogEnv where
  "sample_log1 = sample_log\<lparr>le_log := snd (AppendBeginLog 7 (le_log sample_log))\<rparr>"

lemma sample_log1_ok: "log_inv 0 sample_log1" "log_open (le_log sample_log1)" "map_of (lm_att (le_log sample_log1)) 7 = Some 0"
  "lm_next_lsn (le_log sample_log1) = 13"
proof -
  obtain l' where run: "AppendBeginLog 7 (le_log sample_log) = (Inr 0, l')"
    by (simp add: AppendBeginLog_def sample_log_def LogManager_new_def fetch_lsn_def)
  show "log_inv 0 sample_log1"
    using begin_inv [OF sample_log_inv sample_log_open _ _ run] run by (simp add: sample_log1_def)
  show "log_open (le_log sample_log1)" "map_of (lm_att (le_log sample_log1)) 7 = Some 0" "lm_next_lsn (le_log sample_log1) = 13"
    by (simp_all add: sample_log1_def sample_log_def LogManager_new_def AppendBeginLog_def fetch_lsn_def push_back_def
        set_att_def log_open_def MAX_LOG_END_def LogRecord_GetSize_def)
qed

theorem AppendCommitLog_durable_witness:
  "\<exists>e'. AppendCommitLog 7 sample_log1 = (Inr 13, e')
     \<and> on_log_file (le_disk e') \<lparr>lr_lsn = 13, lr_xid = 7, lr_prev_lsn = 0, lr_body = CommitLog\<rparr>
     \<and> lm_buffer (le_log e') = []"
  using AppendCommitLog_durable [OF sample_log1_ok(1-3)] sample_log1_ok(4) by auto

text \<open>
  A checkpoint writes a begin record and, right after it, an end record with the active transaction
  table and the dirty page table of that moment; both can be read back from the log file at their
  LSNs, the master record names the begin record, and the log invariant holds.
\<close>

theorem Checkpoint_records_tables:
  assumes "log_inv base e" "log_open (le_log e)"
  shows "\<exists>e'. Checkpoint e = (Inr (lm_next_lsn (le_log e) + 13), e') \<and> log_inv base e'
     \<and> read_number MASTER_RECORD_NAME 0 (le_disk e') = lm_next_lsn (le_log e)
     \<and> on_log_file (le_disk e') \<lparr>lr_lsn = lm_next_lsn (le_log e), lr_xid = NULL_XID, lr_prev_lsn = NULL_LSN,
          lr_body = BeginCheckpointLog\<rparr>
     \<and> on_log_file (le_disk e') \<lparr>lr_lsn = lm_next_lsn (le_log e) + 13, lr_xid = NULL_XID, lr_prev_lsn = NULL_LSN,
          lr_body = EndCheckpointLog (lm_att (le_log e)) (lm_dpt (le_log e))\<rparr>"
  using Checkpoint_ok [OF assms] by metis

theorem Checkpoint_records_tables_witness:
  "\<exists>e'. Checkpoint sample_log1 = (Inr 26, e') \<and> read_number MASTER_RECORD_NAME 0 (le_disk e') = 13"
  using Checkpoint_records_tables [OF sample_log1_ok(1,2)] sample_log1_ok(4) by auto

text \<open>
  C1. The write-ahead rule: \<^verbatim>\<open>FlushPage\<close> of the log manager, which the buffer pool calls before it writes a
  page, leaves every log record up to the LSN of the page readable from the log file, keeps exactly
  the later records in the buffer, and removes the page from the dirty page table.
\<close>

theorem FlushPage_write_ahead:
  assumes "log_inv base e"
  shows "\<exists>e'. LogManager_FlushPage oid pid page_lsn e = (Inr (), e') \<and> log_inv base e'
     \<and> (\<forall>r \<in> set (lm_buffer (le_log e)). lr_lsn r \<le> page_lsn \<longrightarrow> on_log_file (le_disk e') r)
     \<and> set (lm_buffer (le_log e')) = {r \<in> set (lm_buffer (le_log e)). page_lsn \<noteq> NULL_LSN \<and> page_lsn < lr_lsn r}
     \<and> map_of (lm_dpt (le_log e')) \<lparr>tp_table_oid = oid, tp_page_id = pid\<rparr> = None"
proof -
  have good: "log_good e" using assms by (auto simp: log_good_def)
  obtain e' where e': "LogManager_FlushPage oid pid page_lsn e = (Inr (), e')" "log_inv base e'"
    "lm_dpt (le_log e') = AList.delete \<lparr>tp_table_oid = oid, tp_page_id = pid\<rparr> (lm_dpt (le_log e))"
    using FlushPage_ok [OF assms] by metis
  have "on_log_file (le_disk e') r" if "r \<in> set (lm_buffer (le_log e))" "lr_lsn r \<le> page_lsn" for r
    using wal.force_durable [OF good, of r page_lsn "(oid, pid)"] that e'(1) by (simp add: force_page_def pending_log_def)
  moreover have "set (lm_buffer (le_log e')) = {r \<in> set (lm_buffer (le_log e)). page_lsn \<noteq> NULL_LSN \<and> page_lsn < lr_lsn r}"
    using wal.force_ok [OF good, of "(oid, pid)" page_lsn] e'(1) by (auto simp: force_page_def pending_log_def)
  ultimately show ?thesis
    using e' by (intro exI [of _ e']) (simp add: delete_conv')
qed

theorem FlushPage_write_ahead_witness:
  "\<exists>e'. LogManager_FlushPage 10001 0 13 sample_log1 = (Inr (), e') \<and> log_inv 0 e'"
  using FlushPage_write_ahead [OF sample_log1_ok(1), of 10001 0 13] by auto

end
