(* ===== verification/Lru_Strategy.thy ===== *)
theory Lru_Strategy
  imports Huadb_Prelude
begin

text \<open>
  \<^verbatim>\<open>src/src/storage/lru_buffer_strategy.cpp\<close>: the replacement strategy of the buffer pool. The state is
  the vector \<^verbatim>\<open>buffer_vec\<close>, most recently used frame first. The interface \<^verbatim>\<open>BufferStrategy\<close> is the
  locale \<open>replacer\<close>.
\<close>

section \<open>Operations\<close>

definition Access :: "nat \<Rightarrow> nat list \<Rightarrow> nat list" where
  "Access frame_no buffer_vec =
     frame_no # (if frame_no \<in> set buffer_vec then remove1 frame_no buffer_vec else buffer_vec)"

text \<open>The loop that leaves \<^verbatim>\<open>victim\<close> at the last element.\<close>

fun victim_loop :: "nat \<Rightarrow> nat list \<Rightarrow> nat" where
  "victim_loop victim [] = victim"
| "victim_loop victim (i # is) = victim_loop i is"

definition Evict :: "nat list \<Rightarrow> (nat \<times> nat list) result" where
  "Evict buffer_vec =
     (if buffer_vec = [] then Inl (Undefined ''vector index out of range'')
      else let victim = victim_loop (buffer_vec ! 0) buffer_vec
           in Inr (victim, remove1 victim buffer_vec))"

section \<open>The replacer interface\<close>

text \<open>
  A strategy keeps track of a set of frames: an access adds the frame, and an eviction picks a
  tracked frame and stops tracking it.
\<close>

locale replacer =
  fixes access :: "nat \<Rightarrow> 'r \<Rightarrow> 'r" and evict :: "'r \<Rightarrow> (nat \<times> 'r) result"
    and tracked :: "'r \<Rightarrow> nat set" and ok :: "'r \<Rightarrow> bool"
  assumes access_tracked: "ok r \<Longrightarrow> tracked (access f r) = insert f (tracked r)"
    and access_ok: "ok r \<Longrightarrow> ok (access f r)"
    and evict_ok: "ok r \<Longrightarrow> tracked r \<noteq> {} \<Longrightarrow>
       \<exists>v r'. evict r = Inr (v, r') \<and> v \<in> tracked r \<and> tracked r' = tracked r - {v} \<and> ok r'"
begin

text \<open>Reusing the frame of the victim, as the buffer pool does, keeps the set of tracked frames.\<close>

lemma replace_ok:
  assumes "ok r" "tracked r \<noteq> {}"
  shows "\<exists>v r'. evict r = Inr (v, r') \<and> v \<in> tracked r \<and> tracked (access v r') = tracked r \<and> ok (access v r')"
proof -
  obtain v r' where "evict r = Inr (v, r')" "v \<in> tracked r" "tracked r' = tracked r - {v}" "ok r'"
    using evict_ok [OF assms] by blast
  then show ?thesis
    using access_tracked [of r' v] access_ok [of r' v] by (intro exI [of _ v] exI [of _ r']) auto
qed

lemma fill_tracked: "ok r \<Longrightarrow> tracked (fold access fs r) = tracked r \<union> set fs \<and> ok (fold access fs r)"
  by (induction fs arbitrary: r) (auto simp: access_tracked access_ok)

end

lemma victim_loop_last: "victim_loop v xs = (if xs = [] then v else last xs)"
  by (induction xs arbitrary: v) auto

lemma Access_eq: "Access f vec = f # remove1 f vec"
  by (simp add: Access_def remove1_idem)

lemma Evict_eq: "vec \<noteq> [] \<Longrightarrow> Evict vec = Inr (last vec, remove1 (last vec) vec)"
  by (simp add: Evict_def victim_loop_last Let_def)

interpretation lru: replacer Access Evict set distinct
proof
  fix r :: "nat list" and f
  assume d: "distinct r"
  show "set (Access f r) = insert f (set r)" "distinct (Access f r)"
    using d by (auto simp: Access_eq distinct_remove1)
next
  fix r :: "nat list"
  assume "distinct r" "set r \<noteq> {}"
  then show "\<exists>v r'. Evict r = Inr (v, r') \<and> v \<in> set r \<and> set r' = set r - {v} \<and> distinct r'"
    by (simp add: Evict_eq set_remove1_eq distinct_remove1)
qed

section \<open>Properties\<close>

lemma remdups_snoc: "remdups (xs @ [x]) = remove1 x (remdups xs) @ [x]"
  by (induction xs) (auto simp: remove1_idem)

lemma fold_Access: "fold Access fs [] = rev (remdups fs)"
proof (induction fs rule: rev_induct)
  case (snoc f fs)
  have "remove1 f (rev (remdups fs)) = rev (remove1 f (remdups fs))"
    by (metis distinct_remdups distinct_remove1_removeAll distinct_rev removeAll_filter_not_eq rev_filter)
  then show ?case
    using snoc by (simp add: Access_eq remdups_snoc)
qed simp

lemma hd_remdups_split:
  assumes "fs \<noteq> []"
  shows "\<exists>xs ys. fs = xs @ hd (remdups fs) # ys \<and> hd (remdups fs) \<notin> set ys \<and> set fs - {hd (remdups fs)} \<subseteq> set ys"
  using assms
proof (induction fs)
  case (Cons f fs)
  show ?case
  proof (cases "f \<in> set fs")
    case True
    then obtain xs ys where "fs = xs @ hd (remdups fs) # ys" "hd (remdups fs) \<notin> set ys"
      "set fs - {hd (remdups fs)} \<subseteq> set ys"
      using Cons by fastforce
    then show ?thesis
      using True by (intro exI [of _ "f # xs"] exI [of _ ys]) auto
  next
    case False
    then show ?thesis
      by (intro exI [of _ "[]"] exI [of _ fs]) auto
  qed
qed simp

text \<open>
  \<^verbatim>\<open>Evict\<close> returns the least recently used frame: after any non-empty sequence of accesses the victim
  is a frame that was accessed, and every other accessed frame was accessed again after the last
  access to the victim; the victim is no longer tracked and the others keep their order.
\<close>

theorem Evict_least_recently_used:
  assumes "fs \<noteq> []"
  shows "\<exists>v vec' xs ys. Evict (fold Access fs []) = Inr (v, vec') \<and> fs = xs @ v # ys \<and> v \<notin> set ys
     \<and> set fs - {v} \<subseteq> set ys \<and> vec' = rev (remdups (filter (\<lambda>f. f \<noteq> v) fs))"
proof -
  let ?v = "hd (remdups fs)"
  have ne: "rev (remdups fs) \<noteq> []" using assms by simp
  obtain xs ys where s: "fs = xs @ ?v # ys" "?v \<notin> set ys" "set fs - {?v} \<subseteq> set ys"
    using hd_remdups_split [OF assms] by blast
  have "last (rev (remdups fs)) = ?v" using ne by (simp add: last_rev)
  moreover have "remove1 ?v (rev (remdups fs)) = rev (remdups (filter (\<lambda>f. f \<noteq> ?v) fs))"
    by (simp add: distinct_remove1_removeAll removeAll_filter_not_eq rev_filter remdups_filter eq_commute)
  ultimately show ?thesis
    using Evict_eq [OF ne] s unfolding fold_Access by metis
qed

theorem Evict_least_recently_used_witness:
  "\<exists>vec'. Evict (fold Access [0, 1, 2, 0] []) = Inr (1, vec')"
proof -
  have "fold Access [0, 1, 2, 0] [] = [0, 2, 1]" by (simp add: Access_def)
  then show ?thesis
    using Evict_least_recently_used [of "[0, 1, 2, 0]"] by (auto simp: Evict_eq)
qed

end
