(* ===== verification/Values.thy ===== *)
theory Values
  imports Common_Types
begin

text \<open>
  \<^verbatim>\<open>src/src/common/value.cpp\<close>: typed SQL values, their byte representation, comparison and
  arithmetic. The anonymous union \<^verbatim>\<open>val_\<close> is its 64 bits. Members a constructor leaves
  indeterminate are zero here; no operation below lets them show.
\<close>

section \<open>Doubles\<close>

text \<open>
  A \<^verbatim>\<open>double\<close> is its IEEE 754 bit pattern. Comparisons are those of the standard: a NaN is
  unordered, the two zeros are equal, everything else is ordered by sign and magnitude.
  Arithmetic and printing of doubles are parameters (\<open>fp_ops\<close>) of the definitions that use them.
\<close>

definition dbl_is_nan :: "64 word \<Rightarrow> bool" where
  "dbl_is_nan w \<longleftrightarrow> 0x7FF0000000000000 < uint (take_bit 63 w)"

definition dbl_key :: "64 word \<Rightarrow> int" where
  "dbl_key w = (if bit w 63 then - uint (take_bit 63 w) else uint (take_bit 63 w))"

definition dbl_less :: "64 word \<Rightarrow> 64 word \<Rightarrow> bool" where
  "dbl_less a b \<longleftrightarrow> \<not> dbl_is_nan a \<and> \<not> dbl_is_nan b \<and> dbl_key a < dbl_key b"

definition dbl_equal :: "64 word \<Rightarrow> 64 word \<Rightarrow> bool" where
  "dbl_equal a b \<longleftrightarrow> \<not> dbl_is_nan a \<and> \<not> dbl_is_nan b \<and> dbl_key a = dbl_key b"

record fp_ops =
  fp_add :: "64 word \<Rightarrow> 64 word \<Rightarrow> 64 word"
  fp_sub :: "64 word \<Rightarrow> 64 word \<Rightarrow> 64 word"
  fp_mul :: "64 word \<Rightarrow> 64 word \<Rightarrow> 64 word"
  fp_div :: "64 word \<Rightarrow> 64 word \<Rightarrow> 64 word"
  fp_of_int :: "32 word \<Rightarrow> 64 word"
  fp_show :: "64 word \<Rightarrow> string"

section \<open>Values (common/value.h)\<close>

datatype Val = Value
  (v_type: vtype) (v_is_null: bool) (v_bits: "64 word") (v_str: string) (v_values: "Val list")
  (v_size: db_size_t)

definition Value_null :: Val where
  "Value_null = Value TNULL True 0 [] [] 0"

definition Value_typed :: "vtype \<Rightarrow> db_size_t \<Rightarrow> Val" where
  "Value_typed t sz = Value t True 0 [] [] sz"

definition Value_bool :: "bool \<Rightarrow> Val" where
  "Value_bool b = Value TBOOL False (if b then 1 else 0) [] [] 1"

definition Value_int :: "32 word \<Rightarrow> Val" where
  "Value_int i = Value TINT False (ucast i) [] [] 4"

definition Value_uint :: "32 word \<Rightarrow> Val" where
  "Value_uint u = Value TUINT False (ucast u) [] [] 4"

definition Value_double :: "64 word \<Rightarrow> Val" where
  "Value_double d = Value TDOUBLE False d [] [] 8"

definition Value_string :: "string \<Rightarrow> vtype \<Rightarrow> Val" where
  "Value_string s t = Value t False 0 s [] (of_nat (length s))"

definition Value_list :: "Val list \<Rightarrow> Val" where
  "Value_list vs = Value TLIST False 0 [] vs 0"

definition IsNull :: "Val \<Rightarrow> bool" where
  "IsNull v \<longleftrightarrow> v_is_null v \<or> v_type v = TNULL"

text \<open>Reading the union members.\<close>

definition v_bool :: "Val \<Rightarrow> bool" where "v_bool v \<longleftrightarrow> take_bit 8 (v_bits v) \<noteq> 0"
definition v_int :: "Val \<Rightarrow> 32 word" where "v_int v = ucast (v_bits v)"
definition v_uint :: "Val \<Rightarrow> 32 word" where "v_uint v = ucast (v_bits v)"

fun ToString :: "fp_ops \<Rightarrow> Val \<Rightarrow> string result" where
  "ToString fp (Value t nul bits str vs sz) =
     (if nul then Inr ''NULL''
      else case t of
        TBOOL \<Rightarrow> Inr (if v_bool (Value t nul bits str vs sz) then ''true'' else ''false'')
      | TINT \<Rightarrow> Inr (int_to_string (sint (ucast bits :: 32 word)))
      | TUINT \<Rightarrow> Inr (nat_to_string (unat (ucast bits :: 32 word)))
      | TDOUBLE \<Rightarrow> Inr (fp_show fp bits)
      | TCHAR \<Rightarrow> Inr str
      | TVARCHAR \<Rightarrow> Inr str
      | _ \<Rightarrow> Inl (DbException ''Unknown value type in ToString''))"

section \<open>Byte representation\<close>

text \<open>
  \<open>Value_SerializeTo\<close> gives the bytes written at \<^verbatim>\<open>data\<close> and the returned count;
  \<open>Value_DeserializeFrom\<close> reads the bytes from \<^verbatim>\<open>data\<close> on. Copying more than the eight bytes of
  the union, or past a string's terminator, has no meaning.
\<close>

definition union_bytes :: "Val \<Rightarrow> byte list result" where
  "union_bytes v = (if unat (v_size v) \<le> 8 then Inr (le_encode (unat (v_size v)) (v_bits v))
                    else Inl (Undefined ''memcpy past the union''))"

definition Value_SerializeTo :: "Val \<Rightarrow> (byte list \<times> db_size_t) result" where
  "Value_SerializeTo v =
     (case v_type v of
        TBOOL \<Rightarrow> rbind (union_bytes v) (\<lambda>bs. Inr (bs, v_size v))
      | TINT \<Rightarrow> rbind (union_bytes v) (\<lambda>bs. Inr (bs, v_size v))
      | TUINT \<Rightarrow> rbind (union_bytes v) (\<lambda>bs. Inr (bs, v_size v))
      | TDOUBLE \<Rightarrow> rbind (union_bytes v) (\<lambda>bs. Inr (bs, v_size v))
      | TNULL \<Rightarrow> Inl (DbException ''Unknown value type in SerializeTo'')
      | TLIST \<Rightarrow> Inl (DbException ''Unknown value type in SerializeTo'')
      | _ \<Rightarrow> (let str_size = of_nat (length (v_str v)) :: db_size_t
              in rbind (mem_read 0 (unat (v_size v)) (map char_byte (v_str v) @ [0]))
                   (\<lambda>cs. Inr (le_encode 2 str_size @ cs, str_size + 2))))"

definition union_read :: "Val \<Rightarrow> byte list \<Rightarrow> (Val \<times> db_size_t) result" where
  "union_read v data =
     (if unat (v_size v) \<le> 8
      then rbind (mem_read 0 (unat (v_size v)) data)
             (\<lambda>bs. Inr (Value (v_type v) False
                          (le_decode bs OR (v_bits v AND NOT (mask (8 * unat (v_size v)))))
                          (v_str v) (v_values v) (v_size v), v_size v))
      else Inl (Undefined ''memcpy past the union''))"

definition Value_DeserializeFrom :: "Val \<Rightarrow> byte list \<Rightarrow> (Val \<times> db_size_t) result" where
  "Value_DeserializeFrom v data =
     (case v_type v of
        TBOOL \<Rightarrow> union_read v data
      | TINT \<Rightarrow> union_read v data
      | TUINT \<Rightarrow> union_read v data
      | TDOUBLE \<Rightarrow> union_read v data
      | TNULL \<Rightarrow> Inl (DbException ''Unknown value type in DeserializeFrom'')
      | TLIST \<Rightarrow> Inl (DbException ''Unknown value type in DeserializeFrom'')
      | _ \<Rightarrow> rbind (mem_read 0 2 data) (\<lambda>sz_bytes.
              let sz = le_decode sz_bytes :: db_size_t
              in rbind (mem_read 2 (unat sz) data) (\<lambda>cs.
                   Inr (Value (v_type v) False (v_bits v) (map byte_char cs) (v_values v) sz, sz + 2))))"

section \<open>Typed access, comparison, arithmetic\<close>

definition GetValue_bool :: "Val \<Rightarrow> bool result" where
  "GetValue_bool v =
     (if v_type v \<noteq> TBOOL then Inl (DbException ''Type mismatch (expected bool)'') else Inr (v_bool v))"

definition GetValue_int :: "Val \<Rightarrow> 32 word result" where
  "GetValue_int v =
     (if v_type v \<noteq> TINT then Inl (DbException ''Type mismatch (expected int)'') else Inr (v_int v))"

definition GetValue_uint :: "Val \<Rightarrow> 32 word result" where
  "GetValue_uint v =
     (if v_type v \<noteq> TUINT then Inl (DbException ''Type mismatch (expected uint32_t)'') else Inr (v_uint v))"

definition GetValue_double :: "Val \<Rightarrow> 64 word result" where
  "GetValue_double v =
     (if v_type v \<noteq> TDOUBLE then Inl (DbException ''Type mismatch (expected double)'') else Inr (v_bits v))"

definition GetValue_string :: "Val \<Rightarrow> string result" where
  "GetValue_string v =
     (if \<not> IsString (v_type v) then Inl (DbException ''Type mismatch (expected char/varchar)'')
      else Inr (v_str v))"

definition Less :: "Val \<Rightarrow> Val \<Rightarrow> bool result" where
  "Less v w =
     (if v_type v \<noteq> v_type w then Inl (DbException ''Type mismatch (in Less)'')
      else case v_type v of
        TINT \<Rightarrow> Inr (sint (v_int v) < sint (v_int w))
      | TDOUBLE \<Rightarrow> Inr (dbl_less (v_bits v) (v_bits w))
      | TCHAR \<Rightarrow> Inr (v_str v < v_str w)
      | TVARCHAR \<Rightarrow> Inr (v_str v < v_str w)
      | _ \<Rightarrow> Inl (DbException ''Type unsupported for Less operation''))"

definition Equal :: "Val \<Rightarrow> Val \<Rightarrow> bool result" where
  "Equal v w =
     (if v_type v \<noteq> v_type w then Inl (DbException ''Type mismatch (in Equal)'')
      else case v_type v of
        TBOOL \<Rightarrow> Inr (v_bool v = v_bool w)
      | TINT \<Rightarrow> Inr (v_int v = v_int w)
      | TDOUBLE \<Rightarrow> Inr (dbl_equal (v_bits v) (v_bits w))
      | TCHAR \<Rightarrow> Inr (v_str v = v_str w)
      | TVARCHAR \<Rightarrow> Inr (v_str v = v_str w)
      | _ \<Rightarrow> Inl (DbException ''Type unsupported for Equal operation''))"

definition Greater :: "Val \<Rightarrow> Val \<Rightarrow> bool result" where
  "Greater v w =
     (if v_type v \<noteq> v_type w then Inl (DbException ''Type mismatch (in Greater)'')
      else case v_type v of
        TINT \<Rightarrow> Inr (sint (v_int w) < sint (v_int v))
      | TDOUBLE \<Rightarrow> Inr (dbl_less (v_bits w) (v_bits v))
      | TCHAR \<Rightarrow> Inr (v_str w < v_str v)
      | TVARCHAR \<Rightarrow> Inr (v_str w < v_str v)
      | _ \<Rightarrow> Inl (DbException ''Type unsupported for Greater operation''))"

text \<open>Signed arithmetic on \<^verbatim>\<open>int32_t\<close>: a result outside the type has no meaning in C++.\<close>

definition int32_checked :: "int \<Rightarrow> 32 word result" where
  "int32_checked i = (if - (2 ^ 31) \<le> i \<and> i < 2 ^ 31 then Inr (word_of_int i)
                      else Inl (Undefined ''signed overflow''))"

definition Value_Add :: "fp_ops \<Rightarrow> Val \<Rightarrow> Val \<Rightarrow> Val result" where
  "Value_Add fp v w =
     (if v_type v \<noteq> v_type w then Inl (DbException ''Type mismatch (in Add)'')
      else case v_type v of
        TINT \<Rightarrow> rbind (int32_checked (sint (v_int v) + sint (v_int w))) (\<lambda>i. Inr (Value_int i))
      | TDOUBLE \<Rightarrow> Inr (Value_double (fp_add fp (v_bits v) (v_bits w)))
      | _ \<Rightarrow> Inl (DbException ''Type unsupported for Add operation''))"

definition Value_Max :: "Val \<Rightarrow> Val \<Rightarrow> Val result" where
  "Value_Max v w =
     (if v_type v \<noteq> v_type w then Inl (DbException ''Type mismatch (in Max)'')
      else case v_type v of
        TINT \<Rightarrow> Inr (Value_int (if sint (v_int v) < sint (v_int w) then v_int w else v_int v))
      | TDOUBLE \<Rightarrow> Inr (Value_double (if dbl_less (v_bits v) (v_bits w) then v_bits w else v_bits v))
      | _ \<Rightarrow> Inl (DbException ''Type unsupported for Max operation''))"

definition Value_Min :: "Val \<Rightarrow> Val \<Rightarrow> Val result" where
  "Value_Min v w =
     (if v_type v \<noteq> v_type w then Inl (DbException ''Type mismatch (in Min)'')
      else case v_type v of
        TINT \<Rightarrow> Inr (Value_int (if sint (v_int w) < sint (v_int v) then v_int w else v_int v))
      | TDOUBLE \<Rightarrow> Inr (Value_double (if dbl_less (v_bits w) (v_bits v) then v_bits w else v_bits v))
      | _ \<Rightarrow> Inl (DbException ''Type unsupported for Min operation''))"

definition Value_Not :: "Val \<Rightarrow> Val result" where
  "Value_Not v =
     (case v_type v of TBOOL \<Rightarrow> Inr (Value_bool (\<not> v_bool v))
      | _ \<Rightarrow> Inl (DbException ''Type unsupported for Not operation''))"

definition CastAsBool :: "Val \<Rightarrow> Val result" where
  "CastAsBool v =
     (case v_type v of
        TBOOL \<Rightarrow> Inr (Value_bool (v_bool v))
      | TCHAR \<Rightarrow> (if v_str v = ''t'' then Inr (Value_bool True)
                  else if v_str v = ''f'' then Inr (Value_bool False)
                  else Inl (DbException (''Unknown str in CastAsBool: '' @ v_str v)))
      | TVARCHAR \<Rightarrow> (if v_str v = ''t'' then Inr (Value_bool True)
                  else if v_str v = ''f'' then Inr (Value_bool False)
                  else Inl (DbException (''Unknown str in CastAsBool: '' @ v_str v)))
      | _ \<Rightarrow> Inl (DbException ''Type unsupported for CastAsBool operation''))"

section \<open>Lemmas\<close>

text \<open>The values a table column can hold in serialised form.\<close>

definition storable :: "Val \<Rightarrow> bool" where
  "storable v \<longleftrightarrow> \<not> v_is_null v \<and> v_values v = [] \<and>
     (case v_type v of
        TBOOL \<Rightarrow> v_size v = 1 \<and> v_str v = [] \<and> v_bits v AND NOT (mask 8) = 0
      | TINT \<Rightarrow> v_size v = 4 \<and> v_str v = [] \<and> v_bits v AND NOT (mask 32) = 0
      | TUINT \<Rightarrow> v_size v = 4 \<and> v_str v = [] \<and> v_bits v AND NOT (mask 32) = 0
      | TDOUBLE \<Rightarrow> v_size v = 8 \<and> v_str v = []
      | TCHAR \<Rightarrow> v_bits v = 0 \<and> length (v_str v) < 65534 \<and> v_size v = of_nat (length (v_str v))
      | TVARCHAR \<Rightarrow> v_bits v = 0 \<and> length (v_str v) < 65534 \<and> v_size v = of_nat (length (v_str v))
      | _ \<Rightarrow> False)"

text \<open>The value object \<^verbatim>\<open>Record::DeserializeFrom\<close> prepares for a column can receive \<open>v\<close>.\<close>

definition column_fits :: "vtype \<Rightarrow> db_size_t \<Rightarrow> Val \<Rightarrow> bool" where
  "column_fits t sz v \<longleftrightarrow> v_type v = t \<and> (IsString t \<or> sz = v_size v)"

lemma storable_constructors [simp]:
  "storable (Value_bool b)" "storable (Value_int i)" "storable (Value_uint u)" "storable (Value_double d)"
  "IsString t \<Longrightarrow> length s < 65534 \<Longrightarrow> storable (Value_string s t)"
proof -
  have c: "(ucast w :: 64 word) AND NOT (mask 32) = 0" for w :: "32 word"
    by (rule bit_word_eqI) (auto simp: bit_simps dest: bit_imp_le_length)
  show "storable (Value_bool b)" "storable (Value_int i)" "storable (Value_uint u)" "storable (Value_double d)"
    using c [of i] c [of u]
    by (simp_all add: storable_def Value_bool_def Value_int_def Value_uint_def Value_double_def mask_eq_exp_minus_1)
  show "IsString t \<Longrightarrow> length s < 65534 \<Longrightarrow> storable (Value_string s t)"
    by (cases t) (simp_all add: storable_def Value_string_def)
qed

lemma word_and_not_mask_imp_take_bit:
  "(w :: 'a::len word) AND NOT (mask n) = 0 \<Longrightarrow> take_bit n w = w"
proof (rule bit_word_eqI)
  fix k assume h: "w AND NOT (mask n) = 0" and k: "k < LENGTH('a)"
  have "bit (w AND NOT (mask n)) k = bit 0 k" using h by simp
  then show "bit (take_bit n w) k = bit w k"
    using k by (auto simp: bit_simps)
qed

lemma le_decode_prefix:
  "le_decode (le_encode n w) = take_bit (8 * n) (w :: 'a::len word)"
  by (rule le_decode_encode_take_bit)

lemma union_roundtrip:
  assumes "v_size v = of_nat n" "n \<le> 8" "v_bits v AND NOT (mask (8 * n)) = 0"
    and "v_is_null v = False" "v_values v = []" "v_str v = []" "sz = v_size v"
  shows "rbind (union_bytes v) (\<lambda>bs. Inr (bs, v_size v)) = Inr (le_encode n (v_bits v), v_size v)"
    and "union_read (Value_typed (v_type v) sz) (le_encode n (v_bits v) @ rest) = Inr (v, v_size v)"
proof -
  have n: "unat (v_size v) = n"
    using assms(1,2) by (simp add: unat_of_nat)
  show "rbind (union_bytes v) (\<lambda>bs. Inr (bs, v_size v)) = Inr (le_encode n (v_bits v), v_size v)"
    using n assms(2) by (simp add: union_bytes_def)
  have "take_bit (8 * n) (v_bits v) = v_bits v"
    using assms(3) by (rule word_and_not_mask_imp_take_bit)
  then show "union_read (Value_typed (v_type v) sz) (le_encode n (v_bits v) @ rest) = Inr (v, v_size v)"
    using n assms
    by (cases v) (simp add: union_read_def Value_typed_def slice_def le_decode_encode_take_bit)
qed

lemma string_roundtrip:
  assumes "IsString (v_type v)" "length (v_str v) < 65534" "v_size v = of_nat (length (v_str v))"
    and "v_is_null v = False" "v_values v = []" "v_bits v = 0"
  shows "Value_SerializeTo v = Inr (le_encode 2 (v_size v) @ map char_byte (v_str v), v_size v + 2)"
    and "Value_DeserializeFrom (Value_typed (v_type v) sz)
           (le_encode 2 (v_size v) @ map char_byte (v_str v) @ rest) = Inr (v, v_size v + 2)"
proof -
  have n: "unat (v_size v) = length (v_str v)"
    using assms(2,3) by (simp add: unat_of_nat)
  have str: "v_type v = TCHAR \<or> v_type v = TVARCHAR"
    using assms(1) by (cases "v_type v") auto
  show "Value_SerializeTo v = Inr (le_encode 2 (v_size v) @ map char_byte (v_str v), v_size v + 2)"
    using str n assms(3) by (auto simp: Value_SerializeTo_def slice_def Let_def)
  have d: "le_decode (slice 0 2 (le_encode 2 (v_size v) @ map char_byte (v_str v) @ rest)) = v_size v"
    by (simp add: slice_def)
  have s: "slice 2 (length (v_str v)) (le_encode 2 (v_size v) @ map char_byte (v_str v) @ rest)
             = map char_byte (v_str v)"
    by (simp add: slice_def)
  show "Value_DeserializeFrom (Value_typed (v_type v) sz)
           (le_encode 2 (v_size v) @ map char_byte (v_str v) @ rest) = Inr (v, v_size v + 2)"
    using str assms n d s
    by (cases v) (auto simp: Value_DeserializeFrom_def Value_typed_def Let_def)
qed

lemma Value_roundtrip:
  assumes "storable v" "column_fits t sz v"
  shows "\<exists>bs. Value_SerializeTo v = Inr (bs, of_nat (length bs)) \<and> length bs < 65536 \<and>
              (\<forall>rest. Value_DeserializeFrom (Value_typed t sz) (bs @ rest) = Inr (v, of_nat (length bs)))"
proof (cases "IsString (v_type v)")
  case True
  then have wf: "length (v_str v) < 65534" "v_size v = of_nat (length (v_str v))"
    "v_is_null v = False" "v_values v = []" "v_bits v = 0"
    using assms(1) by (auto simp: storable_def split: vtype.splits)
  let ?bs = "le_encode 2 (v_size v) @ map char_byte (v_str v)"
  have "v_size v + 2 = of_nat (length ?bs)"
    using wf by simp
  then show ?thesis
    using string_roundtrip [OF True wf] assms(2) wf(1)
    by (intro exI [of _ ?bs]) (auto simp: column_fits_def)
next
  case False
  then obtain n where n: "v_size v = of_nat n" "n \<le> 8" "v_bits v AND NOT (mask (8 * n)) = 0"
    and ty: "v_type v \<in> {TBOOL, TINT, TUINT, TDOUBLE}"
    and wf: "v_is_null v = False" "v_values v = []" "v_str v = []"
  proof -
    assume a: "\<And>n. v_size v = of_nat n \<Longrightarrow> n \<le> 8 \<Longrightarrow> v_bits v AND NOT (mask (8 * n)) = 0 \<Longrightarrow>
      v_type v \<in> {TBOOL, TINT, TUINT, TDOUBLE} \<Longrightarrow> v_is_null v = False \<Longrightarrow> v_values v = [] \<Longrightarrow>
      v_str v = [] \<Longrightarrow> thesis"
    have m64: "w AND NOT (mask 64) = (0 :: 64 word)" for w
      by (rule bit_word_eqI) (auto simp: bit_simps)
    show thesis
      using assms(1) False a [of 1] a [of 4] a [of 8] m64
      by (auto simp: storable_def split: vtype.splits)
  qed
  have sz: "sz = v_size v" "v_type v = t"
    using assms(2) False by (auto simp: column_fits_def)
  note rt = union_roundtrip [OF n wf sz(1)]
  have "Value_SerializeTo v = Inr (le_encode n (v_bits v), of_nat n)"
    using rt(1) ty n(1) by (auto simp: Value_SerializeTo_def)
  moreover have "Value_DeserializeFrom (Value_typed t sz) (le_encode n (v_bits v) @ rest)
      = Inr (v, of_nat n)" for rest
    using rt(2) [of rest] ty sz n(1) by (auto simp: Value_DeserializeFrom_def Value_typed_def)
  ultimately show ?thesis
    using n(2) by (intro exI [of _ "le_encode n (v_bits v)"]) auto
qed

text \<open>Comparable values: exactly the types on which \<^verbatim>\<open>Less\<close> and \<^verbatim>\<open>Greater\<close> do not throw.\<close>

definition comparable :: "Val \<Rightarrow> Val \<Rightarrow> bool" where
  "comparable v w \<longleftrightarrow> v_type v = v_type w \<and> v_type v \<in> {TINT, TDOUBLE, TCHAR, TVARCHAR} \<and>
     (v_type v = TDOUBLE \<longrightarrow> \<not> dbl_is_nan (v_bits v) \<and> \<not> dbl_is_nan (v_bits w))"

lemma sint_v_int_eq: "sint (v_int v) = sint (v_int w) \<longleftrightarrow> v_int v = v_int w"
  by (auto dest: signed_word_eqI)

section \<open>Properties\<close>

text \<open>
  On values of the same comparable type \<^verbatim>\<open>Less\<close>, \<^verbatim>\<open>Equal\<close> and \<^verbatim>\<open>Greater\<close> are defined and form a total order:
  exactly one of them holds, \<^verbatim>\<open>Greater\<close> is \<^verbatim>\<open>Less\<close> with the operands exchanged, and \<^verbatim>\<open>Less\<close> is
  transitive. (A double that is a NaN is not comparable.)
\<close>

theorem Value_comparison_total:
  assumes "comparable u v" "comparable v w"
  shows "\<exists>l e g. Less u v = Inr l \<and> Equal u v = Inr e \<and> Greater u v = Inr g \<and> Less v u = Inr g
           \<and> (l \<and> \<not> e \<and> \<not> g \<or> \<not> l \<and> e \<and> \<not> g \<or> \<not> l \<and> \<not> e \<and> g)
           \<and> (l \<longrightarrow> Less v w = Inr True \<longrightarrow> Less u w = Inr True)"
  using assms
  by (auto simp: comparable_def Less_def Equal_def Greater_def dbl_less_def dbl_equal_def sint_v_int_eq [symmetric])

theorem Value_comparison_total_witness:
  "\<exists>l e g. Less (Value_int 3) (Value_int 5) = Inr l \<and> Equal (Value_int 3) (Value_int 5) = Inr e
     \<and> Greater (Value_int 3) (Value_int 5) = Inr g \<and> (l \<and> \<not> e \<and> \<not> g \<or> \<not> l \<and> e \<and> \<not> g \<or> \<not> l \<and> \<not> e \<and> g)"
  using Value_comparison_total [of "Value_int 3" "Value_int 5" "Value_int 5"]
  by (auto simp: comparable_def Value_int_def)

end
