(* ===== verification/Bitmaps.thy ===== *)
theory Bitmaps
  imports Common_Types
begin

text \<open>
  \<^verbatim>\<open>src/src/common/bitmap.cpp\<close>, the null bitmap of a record, and the contract its client relies
  on: a set of indices below a bound, with set, clear and test (locale \<open>bit_set\<close>).
\<close>

section \<open>The bitmap\<close>

record Bitmap =
  bm_size :: db_size_t
  bm_bits :: "byte list"

definition Bitmap_empty :: Bitmap where
  "Bitmap_empty = \<lparr>bm_size = 0, bm_bits = []\<rparr>"

definition vector_resize :: "nat \<Rightarrow> 'a \<Rightarrow> 'a list \<Rightarrow> 'a list" where
  "vector_resize n x xs = take n xs @ replicate (n - length xs) x"

definition Bitmap_Resize :: "db_size_t \<Rightarrow> Bitmap \<Rightarrow> Bitmap" where
  "Bitmap_Resize sz b = b\<lparr>bm_size := sz, bm_bits := vector_resize ((unat sz + 7) div 8) 0 (bm_bits b)\<rparr>"

definition Bitmap_new :: "db_size_t \<Rightarrow> Bitmap" where
  "Bitmap_new sz = Bitmap_Resize sz \<lparr>bm_size = sz, bm_bits = []\<rparr>"

definition Bitmap_Set :: "db_size_t \<Rightarrow> Bitmap \<Rightarrow> Bitmap result" where
  "Bitmap_Set idx b =
     (if unat idx \<ge> length (bm_bits b) * 8 then Inl (DbException ''Index out of range in bitmap Set'')
      else let i = unat idx div 8 in
        Inr (b\<lparr>bm_bits := (bm_bits b)[i := bm_bits b ! i OR push_bit (unat idx mod 8) 1]\<rparr>))"

definition Bitmap_Clear :: "db_size_t \<Rightarrow> Bitmap \<Rightarrow> Bitmap result" where
  "Bitmap_Clear idx b =
     (if unat idx \<ge> length (bm_bits b) * 8 then Inl (DbException ''Index out of range in bitmap Clear'')
      else let i = unat idx div 8 in
        Inr (b\<lparr>bm_bits := (bm_bits b)[i := bm_bits b ! i AND NOT (push_bit (unat idx mod 8) 1)]\<rparr>))"

definition Bitmap_Test :: "db_size_t \<Rightarrow> Bitmap \<Rightarrow> bool result" where
  "Bitmap_Test idx b =
     (if unat idx \<ge> length (bm_bits b) * 8 then Inl (DbException ''Index out of range in bitmap Test'')
      else Inr (bm_bits b ! (unat idx div 8) AND push_bit (unat idx mod 8) 1 \<noteq> 0))"

definition Bitmap_GetSize :: "Bitmap \<Rightarrow> db_size_t" where
  "Bitmap_GetSize b = bm_size b"

definition Bitmap_GetBytes :: "Bitmap \<Rightarrow> db_size_t" where
  "Bitmap_GetBytes b = of_nat (length (bm_bits b))"

definition Bitmap_SerializeTo :: "Bitmap \<Rightarrow> nat \<Rightarrow> byte list \<Rightarrow> (byte list \<times> db_size_t) result" where
  "Bitmap_SerializeTo b off data =
     rbind (mem_write off (take (unat (Bitmap_GetBytes b)) (bm_bits b)) data)
       (\<lambda>data'. Inr (data', Bitmap_GetBytes b))"

definition Bitmap_DeserializeFrom :: "Bitmap \<Rightarrow> byte list \<Rightarrow> (Bitmap \<times> db_size_t) result" where
  "Bitmap_DeserializeFrom b data =
     (let n = unat (Bitmap_GetBytes b) in
      rbind (mem_read 0 n data) (\<lambda>bs.
        Inr (b\<lparr>bm_bits := bs @ drop n (bm_bits b)\<rparr>, Bitmap_GetBytes b)))"

section \<open>Bits of the representation\<close>

definition bm_member :: "Bitmap \<Rightarrow> nat \<Rightarrow> bool" where
  "bm_member b i \<longleftrightarrow> bit (bm_bits b ! (i div 8)) (i mod 8)"

definition bm_bound :: "Bitmap \<Rightarrow> nat" where
  "bm_bound b = length (bm_bits b) * 8"

lemma Bitmap_Test_eq: "unat i < bm_bound b \<Longrightarrow> Bitmap_Test i b = Inr (bm_member b (unat i))"
  by (simp add: Bitmap_Test_def bm_bound_def bm_member_def and_exp_eq_0_iff_not_bit)

lemma Bitmap_Set_eq:
  assumes "unat i < bm_bound b"
  obtains b' where "Bitmap_Set i b = Inr b'" "bm_bound b' = bm_bound b" "bm_size b' = bm_size b"
    "\<And>j. j < bm_bound b \<Longrightarrow> bm_member b' j \<longleftrightarrow> j = unat i \<or> bm_member b j"
proof -
  let ?i = "unat i div 8"
  let ?b' = "b\<lparr>bm_bits := (bm_bits b)[?i := bm_bits b ! ?i OR push_bit (unat i mod 8) 1]\<rparr>"
  have "bm_member ?b' j \<longleftrightarrow> j = unat i \<or> bm_member b j" if "j < bm_bound b" for j
  proof (cases "j div 8 = ?i")
    case True
    moreover have "j mod 8 = unat i mod 8 \<longleftrightarrow> j = unat i"
      using True by (metis div_mult_mod_eq)
    ultimately show ?thesis
      using that assms by (auto simp: bm_member_def bm_bound_def bit_simps less_mult_imp_div_less)
  next
    case False
    then show ?thesis by (auto simp: bm_member_def)
  qed
  moreover have "Bitmap_Set i b = Inr ?b'"
    using assms by (simp add: Bitmap_Set_def bm_bound_def Let_def)
  ultimately show thesis
    by (intro that [of ?b']) (simp_all add: bm_bound_def)
qed

lemma Bitmap_Clear_eq:
  assumes "unat i < bm_bound b"
  obtains b' where "Bitmap_Clear i b = Inr b'" "bm_bound b' = bm_bound b" "bm_size b' = bm_size b"
    "\<And>j. j < bm_bound b \<Longrightarrow> bm_member b' j \<longleftrightarrow> j \<noteq> unat i \<and> bm_member b j"
proof -
  let ?i = "unat i div 8"
  let ?b' = "b\<lparr>bm_bits := (bm_bits b)[?i := bm_bits b ! ?i AND NOT (push_bit (unat i mod 8) 1)]\<rparr>"
  have "bm_member ?b' j \<longleftrightarrow> j \<noteq> unat i \<and> bm_member b j" if "j < bm_bound b" for j
  proof (cases "j div 8 = ?i")
    case True
    moreover have "j mod 8 = unat i mod 8 \<longleftrightarrow> j = unat i"
      using True by (metis div_mult_mod_eq)
    ultimately show ?thesis
      using that assms by (auto simp: bm_member_def bm_bound_def bit_simps less_mult_imp_div_less)
  next
    case False
    then show ?thesis by (auto simp: bm_member_def)
  qed
  moreover have "Bitmap_Clear i b = Inr ?b'"
    using assms by (simp add: Bitmap_Clear_def bm_bound_def Let_def)
  ultimately show thesis
    by (intro that [of ?b']) (simp_all add: bm_bound_def)
qed

section \<open>The contract: a set of indices\<close>

locale bit_set =
  fixes bset :: "db_size_t \<Rightarrow> 'b \<Rightarrow> 'b result"
    and bclear :: "db_size_t \<Rightarrow> 'b \<Rightarrow> 'b result"
    and btest :: "db_size_t \<Rightarrow> 'b \<Rightarrow> bool result"
    and bound :: "'b \<Rightarrow> nat"
    and mem :: "'b \<Rightarrow> nat \<Rightarrow> bool"
  assumes set_ok: "unat i < bound b \<Longrightarrow>
      \<exists>b'. bset i b = Inr b' \<and> bound b' = bound b \<and>
           (\<forall>j < bound b. mem b' j \<longleftrightarrow> j = unat i \<or> mem b j)"
    and clear_ok: "unat i < bound b \<Longrightarrow>
      \<exists>b'. bclear i b = Inr b' \<and> bound b' = bound b \<and>
           (\<forall>j < bound b. mem b' j \<longleftrightarrow> j \<noteq> unat i \<and> mem b j)"
    and test_ok: "unat i < bound b \<Longrightarrow> btest i b = Inr (mem b (unat i))"
begin

text \<open>The client's loop: mark the positions of a list that satisfy a predicate.\<close>

definition mark :: "('v \<Rightarrow> bool) \<Rightarrow> 'v list \<Rightarrow> nat \<Rightarrow> 'b \<Rightarrow> 'b result" where
  "mark p vs k = rfold (\<lambda>(i, v) b. if p v then bset (of_nat i) b else Inr b) (zip [k..<k + length vs] vs)"

lemma mark_Cons:
  "mark p (v # vs) k b = rbind (if p v then bset (of_nat k) b else Inr b) (mark p vs (Suc k))"
  by (simp add: mark_def upt_conv_Cons del: upt_Suc)

lemma mark_ok:
  "k + length vs \<le> bound b \<Longrightarrow> bound b \<le> 65536 \<Longrightarrow>
   \<exists>b'. mark p vs k b = Inr b' \<and> bound b' = bound b \<and>
        (\<forall>j < bound b. mem b' j \<longleftrightarrow>
            (k \<le> j \<and> j < k + length vs \<and> p (vs ! (j - k))) \<or> mem b j)"
proof (induction vs arbitrary: k b)
  case Nil
  show ?case by (simp add: mark_def) force
next
  case (Cons v vs)
  have k: "unat (of_nat k :: db_size_t) = k"
    using Cons.prems by (simp add: unat_of_nat)
  obtain b1 where b1: "(if p v then bset (of_nat k) b else Inr b) = Inr b1" "bound b1 = bound b"
    "\<And>j. j < bound b \<Longrightarrow> mem b1 j \<longleftrightarrow> (j = k \<and> p v) \<or> mem b j"
  proof (cases "p v")
    case True
    then show ?thesis
      using set_ok [of "of_nat k" b] Cons.prems k that by auto
  next
    case False
    then show ?thesis using that [of b] by simp
  qed
  obtain b' where b': "mark p vs (Suc k) b1 = Inr b'" "bound b' = bound b1"
    "\<forall>j < bound b1. mem b' j \<longleftrightarrow>
        (Suc k \<le> j \<and> j < Suc k + length vs \<and> p (vs ! (j - Suc k))) \<or> mem b1 j"
    using Cons.IH [of "Suc k" b1] Cons.prems b1(2) by auto
  have "mem b' j \<longleftrightarrow> (k \<le> j \<and> j < k + length (v # vs) \<and> p ((v # vs) ! (j - k))) \<or> mem b j"
    if "j < bound b" for j
    using that b1 b' by (cases "j = k") (auto simp: nth_Cons' diff_Suc split: nat.splits)
  then show ?case
    using b1 b' by (simp add: mark_Cons)
qed

end

interpretation bm: bit_set Bitmap_Set Bitmap_Clear Bitmap_Test bm_bound bm_member
proof unfold_locales
  fix i :: db_size_t and b
  assume i: "unat i < bm_bound b"
  show "\<exists>b'. Bitmap_Set i b = Inr b' \<and> bm_bound b' = bm_bound b \<and>
      (\<forall>j < bm_bound b. bm_member b' j \<longleftrightarrow> j = unat i \<or> bm_member b j)"
    by (rule Bitmap_Set_eq [OF i]) auto
  show "\<exists>b'. Bitmap_Clear i b = Inr b' \<and> bm_bound b' = bm_bound b \<and>
      (\<forall>j < bm_bound b. bm_member b' j \<longleftrightarrow> j \<noteq> unat i \<and> bm_member b j)"
    by (rule Bitmap_Clear_eq [OF i]) auto
  show "Bitmap_Test i b = Inr (bm_member b (unat i))"
    using i by (rule Bitmap_Test_eq)
qed

lemma Bitmap_Set_size: "Bitmap_Set i b = Inr b' \<Longrightarrow> bm_size b' = bm_size b"
  by (auto simp: Bitmap_Set_def Let_def split: if_splits)

lemma Bitmap_Set_length: "Bitmap_Set i b = Inr b' \<Longrightarrow> length (bm_bits b') = length (bm_bits b)"
  by (auto simp: Bitmap_Set_def Let_def split: if_splits)

lemma length_bm_bits_new [simp]: "length (bm_bits (Bitmap_new sz)) = (unat sz + 7) div 8"
  by (simp add: Bitmap_new_def Bitmap_Resize_def vector_resize_def)

lemma bm_member_new: "i < bm_bound (Bitmap_new sz) \<Longrightarrow> \<not> bm_member (Bitmap_new sz) i"
  by (simp add: bm_member_def bm_bound_def Bitmap_new_def Bitmap_Resize_def vector_resize_def
      less_mult_imp_div_less)

lemma bm_bound_new_ge: "unat sz \<le> bm_bound (Bitmap_new sz)"
  by (simp add: bm_bound_def)

lemma bm_bound_new_le: "bm_bound (Bitmap_new sz) \<le> 65536"
  using unat_less_exp [of sz] by (simp add: bm_bound_def)

lemma Bitmap_roundtrip:
  assumes "length (bm_bits b) < 65536" "length (bm_bits c) = length (bm_bits b)"
    and "off + length (bm_bits b) \<le> length data"
  shows "Bitmap_SerializeTo b off data = Inr (splice off (bm_bits b) data, of_nat (length (bm_bits b)))"
    and "Bitmap_DeserializeFrom c (bm_bits b @ rest) =
           Inr (c\<lparr>bm_bits := bm_bits b\<rparr>, of_nat (length (bm_bits b)))"
proof -
  have "unat (Bitmap_GetBytes b) = length (bm_bits b)"
    using assms(1) by (simp add: Bitmap_GetBytes_def unat_of_nat)
  then show "Bitmap_SerializeTo b off data
      = Inr (splice off (bm_bits b) data, of_nat (length (bm_bits b)))"
    using assms(3) by (simp add: Bitmap_SerializeTo_def Bitmap_GetBytes_def)
  have "unat (Bitmap_GetBytes c) = length (bm_bits b)"
    using assms(1,2) by (simp add: Bitmap_GetBytes_def unat_of_nat)
  then show "Bitmap_DeserializeFrom c (bm_bits b @ rest)
      = Inr (c\<lparr>bm_bits := bm_bits b\<rparr>, of_nat (length (bm_bits b)))"
    using assms(2) by (simp add: Bitmap_DeserializeFrom_def Bitmap_GetBytes_def slice_def Let_def)
qed

section \<open>Properties\<close>

text \<open>
  The null bitmap is a set of column indices: after \<^verbatim>\<open>Set\<close> (\<^verbatim>\<open>Clear\<close>) of a bit inside the bitmap, \<^verbatim>\<open>Test\<close>
  of that bit answers true (false), and \<^verbatim>\<open>Test\<close> of every other bit answers as before.
\<close>

theorem Bitmap_Set_Clear_Test:
  assumes "unat i < bm_bound b" "unat j < bm_bound b"
  shows "\<exists>s c. Bitmap_Set i b = Inr s \<and> Bitmap_Clear i b = Inr c
     \<and> Bitmap_Test j s = (if j = i then Inr True else Bitmap_Test j b)
     \<and> Bitmap_Test j c = (if j = i then Inr False else Bitmap_Test j b)"
proof -
  obtain s where s: "Bitmap_Set i b = Inr s" "bm_bound s = bm_bound b"
    "\<forall>k < bm_bound b. bm_member s k \<longleftrightarrow> k = unat i \<or> bm_member b k"
    using bm.set_ok [OF assms(1)] by blast
  obtain c where c: "Bitmap_Clear i b = Inr c" "bm_bound c = bm_bound b"
    "\<forall>k < bm_bound b. bm_member c k \<longleftrightarrow> k \<noteq> unat i \<and> bm_member b k"
    using bm.clear_ok [OF assms(1)] by blast
  have "unat j = unat i \<longleftrightarrow> j = i" by (simp add: word_unat_eq_iff)
  then show ?thesis
    using s c assms(2) bm.test_ok [of j s] bm.test_ok [of j c] bm.test_ok [of j b] by simp
qed

theorem Bitmap_Set_Clear_Test_witness:
  "\<exists>s. Bitmap_Set 9 (Bitmap_new 12) = Inr s \<and> Bitmap_Test 9 s = Inr True"
  using Bitmap_Set_Clear_Test [of 9 "Bitmap_new 12" 9] by (auto simp: bm_bound_def)

end
