(* ===== verification/Records.thy ===== *)
theory Records
  imports Values Bitmaps Columns
begin

text \<open>
  \<^verbatim>\<open>src/src/table/record_header.cpp\<close> and \<^verbatim>\<open>record.cpp\<close>: the 13-byte record header with the
  transaction information, records with their null bitmap, and the byte form of both. A
  \<^verbatim>\<open>char *\<close> argument is a buffer and an offset into it; a serialisation returns the changed
  buffer and the count.
\<close>

section \<open>Record headers\<close>

definition RECORD_HEADER_SIZE :: nat where [simp]: "RECORD_HEADER_SIZE = 13"

record RecordHeader =
  rh_deleted :: bool
  rh_xmin :: xid_t
  rh_xmax :: xid_t
  rh_cid :: cid_t

definition RecordHeader_default :: RecordHeader where
  "RecordHeader_default = \<lparr>rh_deleted = False, rh_xmin = NULL_XID, rh_xmax = NULL_XID, rh_cid = NULL_CID\<rparr>"

definition bool_byte :: "bool \<Rightarrow> byte" where
  "bool_byte b = (if b then 1 else 0)"

definition RecordHeader_SerializeTo ::
    "RecordHeader \<Rightarrow> nat \<Rightarrow> byte list \<Rightarrow> (byte list \<times> db_size_t) result" where
  "RecordHeader_SerializeTo h off data =
     rbind (mem_write off [bool_byte (rh_deleted h)] data) (\<lambda>d1.
     rbind (mem_write (off + 1) (le_encode 4 (rh_xmin h)) d1) (\<lambda>d2.
     rbind (mem_write (off + 5) (le_encode 4 (rh_xmax h)) d2) (\<lambda>d3.
     rbind (mem_write (off + 9) (le_encode 4 (rh_cid h)) d3) (\<lambda>d4.
       Inr (d4, of_nat RECORD_HEADER_SIZE)))))"

definition RecordHeader_DeserializeFrom :: "byte list \<Rightarrow> (RecordHeader \<times> db_size_t) result" where
  "RecordHeader_DeserializeFrom data =
     rbind (mem_read 0 1 data) (\<lambda>b0.
     rbind (mem_read 1 4 data) (\<lambda>b1.
     rbind (mem_read 5 4 data) (\<lambda>b2.
     rbind (mem_read 9 4 data) (\<lambda>b3.
       Inr (\<lparr>rh_deleted = (b0 \<noteq> [0]), rh_xmin = le_decode b1, rh_xmax = le_decode b2,
             rh_cid = le_decode b3\<rparr>, of_nat RECORD_HEADER_SIZE)))))"

definition header_bytes :: "RecordHeader \<Rightarrow> byte list" where
  "header_bytes h = bool_byte (rh_deleted h) # le_encode 4 (rh_xmin h)
                    @ le_encode 4 (rh_xmax h) @ le_encode 4 (rh_cid h)"

lemma length_header_bytes [simp]: "length (header_bytes h) = 13"
  by (simp add: header_bytes_def)

lemma RecordHeader_SerializeTo_eq:
  assumes "off + 13 \<le> length data"
  shows "RecordHeader_SerializeTo h off data = Inr (splice off (header_bytes h) data, 13)"
  using assms
  by (simp add: RecordHeader_SerializeTo_def header_bytes_def splice_append [of off _ _ data])

lemma RecordHeader_DeserializeFrom_eq [simp]:
  "RecordHeader_DeserializeFrom (header_bytes h @ rest) = Inr (h, 13)"
  by (simp add: RecordHeader_DeserializeFrom_def header_bytes_def slice_def bool_byte_def)

section \<open>Records\<close>

record Record =
  r_null_bitmap :: Bitmap
  r_values :: "Val list"
  r_header :: RecordHeader
  r_rid :: Rid
  r_size :: db_size_t

definition Record_default :: Record where
  "Record_default = \<lparr>r_null_bitmap = Bitmap_empty, r_values = [], r_header = RecordHeader_default,
     r_rid = \<lparr>rid_page_id = 0, rid_slot_id = 0\<rparr>, r_size = 0\<rparr>"

definition UpdateSize :: "Record \<Rightarrow> Record" where
  "UpdateSize r = r\<lparr>r_size :=
     fold (\<lambda>v sz. if IsNull v then sz
                  else sz + v_size v + (if IsString (v_type v) then 2 else 0))
       (r_values r) (of_nat RECORD_HEADER_SIZE + Bitmap_GetBytes (r_null_bitmap r))\<rparr>"

definition null_marks :: "Val list \<Rightarrow> nat \<Rightarrow> Bitmap \<Rightarrow> Bitmap result" where
  "null_marks vs k = rfold (\<lambda>(i, v) b. if IsNull v then Bitmap_Set (of_nat i) b else Inr b)
                       (zip [k..<k + length vs] vs)"

definition Record_new :: "Val list \<Rightarrow> Rid \<Rightarrow> Record result" where
  "Record_new vs rid =
     rbind (null_marks vs 0 (Bitmap_new (of_nat (length vs)))) (\<lambda>bm.
       Inr (UpdateSize \<lparr>r_null_bitmap = bm, r_values = vs, r_header = RecordHeader_default,
                        r_rid = rid, r_size = 0\<rparr>))"

fun Append_values :: "Val list \<Rightarrow> Record \<Rightarrow> Record result" where
  "Append_values [] r = Inr r"
| "Append_values (v # vs) r =
     rbind ((if IsNull v then Bitmap_Set else Bitmap_Clear) (of_nat (length (r_values r))) (r_null_bitmap r))
       (\<lambda>bm. Append_values vs (r\<lparr>r_null_bitmap := bm, r_values := r_values r @ [v]\<rparr>))"

definition Record_Append :: "Record \<Rightarrow> Record \<Rightarrow> Record result" where
  "Record_Append r other =
     rbind (Append_values (r_values other)
              (r\<lparr>r_null_bitmap := Bitmap_Resize (Bitmap_GetSize (r_null_bitmap r)
                                  + of_nat (length (r_values other))) (r_null_bitmap r)\<rparr>))
       (\<lambda>r'. Inr (UpdateSize r'))"

definition Record_GetValue :: "nat \<Rightarrow> Record \<Rightarrow> Val result" where
  "Record_GetValue i r =
     (if i \<ge> length (r_values r) then Inl (DbException ''Column index out of range'')
      else Inr (r_values r ! i))"

definition Record_SetValue :: "nat \<Rightarrow> Val \<Rightarrow> Record \<Rightarrow> Record result" where
  "Record_SetValue i v r =
     (if i \<ge> length (r_values r) then Inl (Undefined ''vector index out of range'')
      else rbind ((if IsNull v then Bitmap_Set else Bitmap_Clear) (of_nat i) (r_null_bitmap r)) (\<lambda>bm.
             Inr (UpdateSize (r\<lparr>r_values := (r_values r)[i := v], r_null_bitmap := bm\<rparr>))))"

fun Record_values_to ::
    "Val list \<Rightarrow> nat \<Rightarrow> byte list \<Rightarrow> db_size_t \<Rightarrow> (byte list \<times> db_size_t) result" where
  "Record_values_to [] off data cnt = Inr (data, cnt)"
| "Record_values_to (v # vs) off data cnt =
     (if IsNull v then Record_values_to vs off data cnt
      else rbind (Value_SerializeTo v) (\<lambda>(bs, n).
           rbind (mem_write (off + unat cnt) bs data) (\<lambda>data'.
             Record_values_to vs off data' (cnt + n))))"

definition Record_SerializeTo :: "Record \<Rightarrow> nat \<Rightarrow> byte list \<Rightarrow> (byte list \<times> db_size_t) result" where
  "Record_SerializeTo r off data =
     rbind (RecordHeader_SerializeTo (r_header r) off data) (\<lambda>(d1, o1).
     rbind (Bitmap_SerializeTo (r_null_bitmap r) (off + unat o1) d1) (\<lambda>(d2, n2).
     rbind (Record_values_to (r_values r) off d2 (o1 + n2)) (\<lambda>(d3, o3).
     rbind (rassert (o3 = r_size r) (AssertFail ''offset == GetSize()'')) (\<lambda>_.
       Inr (d3, o3)))))"

fun Record_values_from ::
    "ColumnDefinition list \<Rightarrow> nat \<Rightarrow> Bitmap \<Rightarrow> byte list \<Rightarrow> db_size_t \<Rightarrow> (Val list \<times> db_size_t) result" where
  "Record_values_from [] i bm data cnt = Inr ([], cnt)"
| "Record_values_from (c # cs) i bm data cnt =
     rbind (Bitmap_Test (of_nat i) bm) (\<lambda>null.
       if null
       then rbind (Record_values_from cs (Suc i) bm data cnt) (\<lambda>(vs, n). Inr (Value_null # vs, n))
       else rbind (Value_DeserializeFrom (Value_typed (cd_type c) (cd_max_size c)) (drop (unat cnt) data))
              (\<lambda>(v, k). rbind (Record_values_from cs (Suc i) bm data (cnt + k))
                 (\<lambda>(vs, n). Inr (v # vs, n))))"

definition Record_DeserializeFrom :: "Record \<Rightarrow> byte list \<Rightarrow> ColumnList \<Rightarrow> (Record \<times> db_size_t) result" where
  "Record_DeserializeFrom r data cl =
     rbind (RecordHeader_DeserializeFrom data) (\<lambda>(h, o1).
     rbind (Bitmap_DeserializeFrom (Bitmap_Resize (of_nat (ColumnList_Length cl)) (r_null_bitmap r))
              (drop (unat o1) data)) (\<lambda>(bm, n2).
     rbind (Record_values_from (cl_columns cl) 0 bm data (o1 + n2)) (\<lambda>(vs, o3).
       let r' = UpdateSize (r\<lparr>r_header := h, r_null_bitmap := bm, r_values := r_values r @ vs\<rparr>)
       in rbind (rassert (o3 = r_size r') (AssertFail ''offset == GetSize()'')) (\<lambda>_. Inr (r', o3)))))"

definition SetDeleted :: "bool \<Rightarrow> Record \<Rightarrow> Record" where
  "SetDeleted d r = r\<lparr>r_header := (r_header r)\<lparr>rh_deleted := d\<rparr>\<rparr>"
definition SetXmin :: "xid_t \<Rightarrow> Record \<Rightarrow> Record" where
  "SetXmin x r = r\<lparr>r_header := (r_header r)\<lparr>rh_xmin := x\<rparr>\<rparr>"
definition SetXmax :: "xid_t \<Rightarrow> Record \<Rightarrow> Record" where
  "SetXmax x r = r\<lparr>r_header := (r_header r)\<lparr>rh_xmax := x\<rparr>\<rparr>"
definition SetCid :: "cid_t \<Rightarrow> Record \<Rightarrow> Record" where
  "SetCid c r = r\<lparr>r_header := (r_header r)\<lparr>rh_cid := c\<rparr>\<rparr>"
definition SetRid :: "Rid \<Rightarrow> Record \<Rightarrow> Record" where
  "SetRid rid r = r\<lparr>r_rid := rid\<rparr>"

section \<open>The byte image of a record\<close>

definition value_bytes :: "Val \<Rightarrow> byte list" where
  "value_bytes v = (if IsNull v then [] else fst (projr (Value_SerializeTo v)))"

definition body_bytes :: "Val list \<Rightarrow> byte list" where
  "body_bytes vs = concat (map value_bytes vs)"

definition record_bytes :: "Record \<Rightarrow> byte list" where
  "record_bytes r = header_bytes (r_header r) @ bm_bits (r_null_bitmap r) @ body_bytes (r_values r)"

definition values_ok :: "Val list \<Rightarrow> bool" where
  "values_ok vs \<longleftrightarrow> (\<forall>v \<in> set vs. IsNull v \<or> storable v) \<and> length vs < 65536 \<and>
     13 + (length vs + 7) div 8 + length (body_bytes vs) < 65536"

definition record_ok :: "Record \<Rightarrow> bool" where
  "record_ok r \<longleftrightarrow> values_ok (r_values r) \<and>
     length (bm_bits (r_null_bitmap r)) = (length (r_values r) + 7) div 8 \<and>
     (\<forall>i < length (r_values r). bm_member (r_null_bitmap r) i \<longleftrightarrow> IsNull (r_values r ! i)) \<and>
     bm_size (r_null_bitmap r) = of_nat (length (r_values r)) \<and>
     r_size r = of_nat (length (record_bytes r))"

lemma storable_SerializeTo:
  assumes "storable v"
  shows "Value_SerializeTo v = Inr (value_bytes v, of_nat (length (value_bytes v)))"
    and "of_nat (length (value_bytes v)) = v_size v + (if IsString (v_type v) then 2 else 0)"
    and "column_fits t sz v \<Longrightarrow>
           Value_DeserializeFrom (Value_typed t sz) (value_bytes v @ rest) = Inr (v, of_nat (length (value_bytes v)))"
proof -
  have nn: "\<not> IsNull v"
    using assms by (auto simp: storable_def IsNull_def)
  have fits: "column_fits (v_type v) (v_size v) v"
    by (simp add: column_fits_def)
  obtain bs where bs: "Value_SerializeTo v = Inr (bs, of_nat (length bs))"
    using Value_roundtrip [OF assms fits] by blast
  then have vb: "value_bytes v = bs"
    using nn by (simp add: value_bytes_def)
  show ser: "Value_SerializeTo v = Inr (value_bytes v, of_nat (length (value_bytes v)))"
    using bs vb by simp
  show "column_fits t sz v \<Longrightarrow>
      Value_DeserializeFrom (Value_typed t sz) (value_bytes v @ rest) = Inr (v, of_nat (length (value_bytes v)))"
    using Value_roundtrip [OF assms, of t sz] bs vb by auto
  show "of_nat (length (value_bytes v)) = v_size v + (if IsString (v_type v) then 2 else 0)"
    using ser assms
    by (auto simp: Value_SerializeTo_def storable_def Let_def rbind_eq_Inr_iff split: vtype.splits)
qed

lemma body_bytes_Nil [simp]: "body_bytes [] = []"
  and body_bytes_Cons [simp]: "body_bytes (v # vs) = value_bytes v @ body_bytes vs"
  by (simp_all add: body_bytes_def)

lemma value_bytes_null [simp]: "IsNull v \<Longrightarrow> value_bytes v = []"
  by (simp add: value_bytes_def)

lemma fold_size_eq:
  assumes "\<forall>v \<in> set vs. IsNull v \<or> storable v"
  shows "fold (\<lambda>v sz. if IsNull v then sz else sz + v_size v + (if IsString (v_type v) then 2 else 0)) vs acc
           = acc + of_nat (length (body_bytes vs))"
  using assms
proof (induction vs arbitrary: acc)
  case Nil
  show ?case by simp
next
  case (Cons v vs)
  then show ?case
    using storable_SerializeTo(2) [of v] by (auto simp: algebra_simps)
qed

lemma UpdateSize_size:
  assumes "\<forall>v \<in> set (r_values r). IsNull v \<or> storable v"
  shows "r_size (UpdateSize r) = of_nat (length (record_bytes r))"
  using assms
  by (simp add: UpdateSize_def fold_size_eq record_bytes_def Bitmap_GetBytes_def algebra_simps)

lemma UpdateSize_fields [simp]:
  "r_null_bitmap (UpdateSize r) = r_null_bitmap r"
  "r_values (UpdateSize r) = r_values r"
  "r_header (UpdateSize r) = r_header r"
  "r_rid (UpdateSize r) = r_rid r"
  "record_bytes (UpdateSize r) = record_bytes r"
  by (simp_all add: UpdateSize_def record_bytes_def)

lemma Record_values_to_eq:
  assumes "\<forall>v \<in> set vs. IsNull v \<or> storable v"
    and "off + n + length (body_bytes vs) \<le> length data" "n + length (body_bytes vs) < 65536"
  shows "Record_values_to vs off data (of_nat n)
           = Inr (splice (off + n) (body_bytes vs) data, of_nat (n + length (body_bytes vs)))"
  using assms
proof (induction vs arbitrary: data n)
  case Nil
  then show ?case by (simp add: splice_def)
next
  case (Cons v vs)
  show ?case
  proof (cases "IsNull v")
    case True
    then show ?thesis using Cons by simp
  next
    case False
    then have v: "storable v" using Cons.prems by simp
    have u: "unat (of_nat n :: db_size_t) = n"
      using Cons.prems by (simp add: unat_of_nat)
    have "Record_values_to vs off (splice (off + n) (value_bytes v) data) (of_nat (n + length (value_bytes v)))
        = Inr (splice (off + (n + length (value_bytes v))) (body_bytes vs) (splice (off + n) (value_bytes v) data),
               of_nat (n + length (value_bytes v) + length (body_bytes vs)))"
      using Cons.prems by (intro Cons.IH) auto
    moreover have "splice (off + (n + length (value_bytes v))) (body_bytes vs) (splice (off + n) (value_bytes v) data)
        = splice (off + n) (value_bytes v @ body_bytes vs) data"
      using Cons.prems by (intro splice_append) auto
    ultimately show ?thesis
      using False storable_SerializeTo(1) [OF v] u Cons.prems by (simp add: algebra_simps)
  qed
qed

lemma length_record_bytes: "record_ok r \<Longrightarrow> length (record_bytes r) < 65536"
  by (simp add: record_ok_def record_bytes_def values_ok_def)

lemma Record_SerializeTo_eq:
  assumes "record_ok r" "off + length (record_bytes r) \<le> length data"
  shows "Record_SerializeTo r off data
           = Inr (splice off (record_bytes r) data, of_nat (length (record_bytes r)))"
proof -
  let ?bm = "bm_bits (r_null_bitmap r)" and ?h = "header_bytes (r_header r)"
  let ?d1 = "splice off ?h data" and ?body = "body_bytes (r_values r)"
  have lens: "length ?bm < 65536" "13 + length ?bm + length ?body < 65536"
    "off + 13 + length ?bm + length ?body \<le> length data" "off + 13 \<le> length data"
    using assms by (auto simp: record_ok_def values_ok_def record_bytes_def)
  have ok: "\<forall>v \<in> set (r_values r). IsNull v \<or> storable v"
    using assms(1) by (simp add: record_ok_def values_ok_def)
  have b: "Bitmap_SerializeTo (r_null_bitmap r) (off + 13) ?d1
      = Inr (splice (off + 13) ?bm ?d1, of_nat (length ?bm))"
    using lens by (intro Bitmap_roundtrip) auto
  have v: "Record_values_to (r_values r) off (splice (off + 13) ?bm ?d1) (of_nat (13 + length ?bm))
      = Inr (splice (off + (13 + length ?bm)) ?body (splice (off + 13) ?bm ?d1),
             of_nat (13 + length ?bm + length ?body))"
    using ok lens by (intro Record_values_to_eq) auto
  have sp: "splice (off + (13 + length ?bm)) ?body (splice (off + 13) ?bm ?d1)
      = splice off (record_bytes r) data"
    using lens by (simp add: splice_append [of off ?h ?bm data] splice_append [of off "?h @ ?bm" ?body data]
        record_bytes_def add.assoc)
  have "r_size r = of_nat (13 + length ?bm + length ?body)"
    using assms(1) by (simp add: record_ok_def record_bytes_def)
  then show ?thesis
    using RecordHeader_SerializeTo_eq [OF lens(4), of "r_header r"] b v sp
    by (simp add: Record_SerializeTo_def record_bytes_def add.assoc)
qed

section \<open>Building and reading records\<close>

lemma null_marks_mark: "null_marks vs k = bm.mark IsNull vs k"
  by (simp add: null_marks_def bm.mark_def)

lemma null_marks_frame:
  "null_marks vs k b = Inr b' \<Longrightarrow> bm_size b' = bm_size b \<and> length (bm_bits b') = length (bm_bits b)"
proof (induction vs arbitrary: k b)
  case Nil
  then show ?case by (simp add: null_marks_def)
next
  case (Cons v vs)
  then show ?case
    by (fastforce simp: null_marks_mark bm.mark_Cons rbind_eq_Inr_iff Bitmap_Set_size Bitmap_Set_length
        split: if_splits)
qed

lemma Record_new_ok:
  assumes "values_ok vs"
  obtains r where "Record_new vs rid = Inr r" "record_ok r" "r_values r = vs" "r_rid r = rid"
    "r_header r = RecordHeader_default"
proof -
  let ?b0 = "Bitmap_new (of_nat (length vs))"
  have u: "unat (of_nat (length vs) :: db_size_t) = length vs"
    using assms by (simp add: values_ok_def unat_of_nat)
  have bound: "0 + length vs \<le> bm_bound ?b0" "bm_bound ?b0 \<le> 65536"
    using bm_bound_new_ge [of "of_nat (length vs)"] bm_bound_new_le u by simp_all
  obtain bm where bm: "null_marks vs 0 ?b0 = Inr bm"
    "\<forall>j < bm_bound ?b0. bm_member bm j \<longleftrightarrow> (j < length vs \<and> IsNull (vs ! j)) \<or> bm_member ?b0 j"
    using bm.mark_ok [OF bound, of IsNull] unfolding null_marks_mark by auto
  have fr: "bm_size bm = of_nat (length vs)" "length (bm_bits bm) = (length vs + 7) div 8"
    using null_marks_frame [OF bm(1)] u by (simp_all add: Bitmap_new_def Bitmap_Resize_def vector_resize_def)
  let ?r0 = "\<lparr>r_null_bitmap = bm, r_values = vs, r_header = RecordHeader_default, r_rid = rid, r_size = 0\<rparr>"
  have "record_ok (UpdateSize ?r0)"
    using assms bm fr bound bm_member_new UpdateSize_size [of ?r0]
    by (auto simp: record_ok_def values_ok_def)
  moreover have "Record_new vs rid = Inr (UpdateSize ?r0)"
    using bm(1) by (simp add: Record_new_def)
  ultimately show thesis
    by (intro that [of "UpdateSize ?r0"]) simp_all
qed

definition nullify :: "Val \<Rightarrow> Val" where
  "nullify v = (if IsNull v then Value_null else v)"

definition columns_fit :: "ColumnList \<Rightarrow> Val list \<Rightarrow> bool" where
  "columns_fit cl vs \<longleftrightarrow>
     list_all2 (\<lambda>c v. IsNull v \<or> column_fits (cd_type c) (cd_max_size c) v) (cl_columns cl) vs"

lemma IsNull_nullify [simp]: "IsNull (nullify v) = IsNull v"
  by (simp add: nullify_def IsNull_def Value_null_def)

lemma value_bytes_nullify [simp]: "value_bytes (nullify v) = value_bytes v"
  by (cases "IsNull v") (simp_all add: nullify_def, simp add: value_bytes_def IsNull_def Value_null_def)

lemma body_bytes_nullify [simp]: "body_bytes (map nullify vs) = body_bytes vs"
  by (induction vs) simp_all

lemma Record_values_from_eq:
  assumes "list_all2 (\<lambda>c v. IsNull v \<or> column_fits (cd_type c) (cd_max_size c) v) cs vs"
    and "\<forall>v \<in> set vs. IsNull v \<or> storable v"
    and "\<forall>j < length vs. bm_member bm (i + j) \<longleftrightarrow> IsNull (vs ! j)"
    and "i + length vs \<le> bm_bound bm" "i + length vs < 65536" "length pre + length (body_bytes vs) < 65536"
  shows "Record_values_from cs i bm (pre @ body_bytes vs @ rest) (of_nat (length pre))
           = Inr (map nullify vs, of_nat (length pre + length (body_bytes vs)))"
  using assms
proof (induction cs vs arbitrary: i pre rule: list_all2_induct)
  case Nil
  then show ?case by simp
next
  case (Cons c cs v vs)
  have ui: "unat (of_nat i :: db_size_t) = i" and up: "unat (of_nat (length pre) :: db_size_t) = length pre"
    using Cons.prems by (simp_all add: unat_of_nat)
  have test: "Bitmap_Test (of_nat i) bm = Inr (IsNull v)"
    using Cons.prems(2) [rule_format, of 0] Cons.prems(3) ui by (simp add: Bitmap_Test_eq)
  have mem: "\<forall>j < length vs. bm_member bm (Suc i + j) \<longleftrightarrow> IsNull (vs ! j)"
    using Cons.prems(2) by auto
  note IH = Cons.IH [of "Suc i", OF _ mem]
  show ?case
  proof (cases "IsNull v")
    case True
    then show ?thesis
      using test IH [of pre] Cons.prems by (simp add: nullify_def)
  next
    case False
    then have sv: "storable v" and fits: "column_fits (cd_type c) (cd_max_size c) v"
      using Cons by simp_all
    have "Record_values_from cs (Suc i) bm ((pre @ value_bytes v) @ body_bytes vs @ rest)
        (of_nat (length (pre @ value_bytes v)))
        = Inr (map nullify vs, of_nat (length (pre @ value_bytes v) + length (body_bytes vs)))"
      using Cons.prems by (intro IH) auto
    then show ?thesis
      using test False up storable_SerializeTo(3) [OF sv fits, of "body_bytes vs @ rest"]
      by (simp add: nullify_def algebra_simps)
  qed
qed

lemma Record_DeserializeFrom_eq:
  assumes "record_ok r" "columns_fit cl (r_values r)"
  obtains r' where
    "Record_DeserializeFrom Record_default (record_bytes r @ rest) cl = Inr (r', of_nat (length (record_bytes r)))"
    "r_values r' = map nullify (r_values r)" "r_header r' = r_header r"
    "r_null_bitmap r' = r_null_bitmap r" "r_size r' = r_size r"
proof -
  let ?vs = "r_values r" and ?bm = "r_null_bitmap r"
  let ?bits = "bm_bits ?bm" and ?h = "header_bytes (r_header r)"
  have len: "length (cl_columns cl) = length ?vs"
    using assms(2) by (simp add: columns_fit_def list_all2_lengthD)
  have wf: "\<forall>v \<in> set ?vs. IsNull v \<or> storable v" "length ?vs < 65536"
    "length ?bits = (length ?vs + 7) div 8" "13 + length ?bits + length (body_bytes ?vs) < 65536"
    "\<forall>j < length ?vs. bm_member ?bm j \<longleftrightarrow> IsNull (?vs ! j)" "bm_size ?bm = of_nat (length ?vs)"
    using assms(1) by (auto simp: record_ok_def values_ok_def)
  have ul: "unat (of_nat (length ?vs) :: db_size_t) = length ?vs"
    using wf(2) by (simp add: unat_of_nat)
  let ?b0 = "Bitmap_Resize (of_nat (ColumnList_Length cl)) Bitmap_empty"
  have b0: "length (bm_bits ?b0) = length ?bits" "?b0\<lparr>bm_bits := ?bits\<rparr> = ?bm"
    using wf len ul
    by (simp_all add: Bitmap_Resize_def Bitmap_empty_def vector_resize_def ColumnList_Length_def)
  have bits: "Bitmap_DeserializeFrom ?b0 (?bits @ body_bytes ?vs @ rest) = Inr (?bm, of_nat (length ?bits))"
    using Bitmap_roundtrip(2) [of ?bm ?b0 0 ?bits "body_bytes ?vs @ rest"] b0 wf(4) by simp
  have bnd: "length ?vs \<le> bm_bound ?bm"
    using wf(3) by (simp add: bm_bound_def)
  have vals: "Record_values_from (cl_columns cl) 0 ?bm ((?h @ ?bits) @ body_bytes ?vs @ rest)
      (of_nat (length (?h @ ?bits)))
      = Inr (map nullify ?vs, of_nat (length (?h @ ?bits) + length (body_bytes ?vs)))"
    using assms(2) wf bnd by (intro Record_values_from_eq) (auto simp: columns_fit_def)
  let ?r' = "UpdateSize (Record_default\<lparr>r_header := r_header r, r_null_bitmap := ?bm,
               r_values := map nullify ?vs\<rparr>)"
  have sz: "r_size ?r' = of_nat (length (record_bytes r))"
    using wf(1) by (subst UpdateSize_size) (auto simp: record_bytes_def nullify_def IsNull_def Value_null_def)
  have "Record_DeserializeFrom Record_default (record_bytes r @ rest) cl
      = Inr (?r', of_nat (length (record_bytes r)))"
    using bits vals sz
    by (simp add: Record_DeserializeFrom_def record_bytes_def Record_default_def Let_def add.assoc)
  moreover have "r_size r = of_nat (length (record_bytes r))"
    using assms(1) by (simp add: record_ok_def)
  ultimately show thesis
    using sz by (intro that [of ?r']) simp_all
qed

text \<open>Changing the header keeps a record well formed and the length of its image.\<close>

lemma record_bytes_header_update:
  "record_bytes (r\<lparr>r_header := h\<rparr>) = header_bytes h @ drop 13 (record_bytes r)"
  by (simp add: record_bytes_def)

lemma record_ok_header_update: "record_ok r \<Longrightarrow> record_ok (r\<lparr>r_header := h\<rparr>)"
  by (simp add: record_ok_def record_bytes_def)

lemma record_ok_setters:
  assumes "record_ok r"
  shows "record_ok (SetDeleted d r)" "record_ok (SetXmin x r)" "record_ok (SetXmax x r)" "record_ok (SetCid c r)"
  using assms by (simp_all add: SetDeleted_def SetXmin_def SetXmax_def SetCid_def record_ok_header_update)

lemma record_ok_SetRid: "record_ok r \<Longrightarrow> record_ok (SetRid rid r)"
  by (simp add: record_ok_def record_bytes_def SetRid_def)

lemma record_setters_fields [simp]:
  "r_size (SetDeleted d r) = r_size r" "r_size (SetXmin x r) = r_size r"
  "r_size (SetXmax x r) = r_size r" "r_size (SetCid c r) = r_size r" "r_size (SetRid rid r) = r_size r"
  "r_values (SetDeleted d r) = r_values r" "r_values (SetXmin x r) = r_values r"
  "r_values (SetXmax x r) = r_values r" "r_values (SetCid c r) = r_values r" "r_values (SetRid rid r) = r_values r"
  by (simp_all add: SetDeleted_def SetXmin_def SetXmax_def SetCid_def SetRid_def)

section \<open>Properties\<close>

text \<open>
  A row survives the page: a record built from storable values passes the size assertion of
  \<^verbatim>\<open>SerializeTo\<close>, occupies exactly \<^verbatim>\<open>GetSize\<close> bytes, and \<^verbatim>\<open>DeserializeFrom\<close> under the schema gives back
  its values (nulls in the untyped form), its header and its size, leaving the rest of the buffer alone.
\<close>

theorem Record_roundtrip:
  assumes "values_ok vs" "columns_fit cl vs" "off + 13 + (length vs + 7) div 8 + length (body_bytes vs) \<le> length data"
  shows "\<exists>r data' r'. Record_new vs rid = Inr r \<and> Record_SerializeTo r off data = Inr (data', r_size r)
     \<and> length data' = length data \<and> take off data' = take off data
     \<and> drop (off + unat (r_size r)) data' = drop (off + unat (r_size r)) data
     \<and> Record_DeserializeFrom Record_default (drop off data') cl = Inr (r', r_size r)
     \<and> r_values r' = map nullify vs \<and> r_header r' = r_header r \<and> r_size r' = r_size r"
proof -
  obtain r where r: "Record_new vs rid = Inr r" "record_ok r" "r_values r = vs"
    using Record_new_ok [OF assms(1)] by metis
  have sz: "r_size r = of_nat (length (record_bytes r))" "length (record_bytes r) < 65536"
    using r(2) length_record_bytes by (simp_all add: record_ok_def)
  then have u: "unat (r_size r) = length (record_bytes r)"
    by (simp add: unat_of_nat)
  have fit: "off + length (record_bytes r) \<le> length data"
    using assms(3) r by (simp add: record_bytes_def record_ok_def)
  let ?data = "splice off (record_bytes r) data"
  have ser: "Record_SerializeTo r off data = Inr (?data, r_size r)"
    unfolding sz(1) by (rule Record_SerializeTo_eq [OF r(2) fit])
  obtain r' where r': "Record_DeserializeFrom Record_default (drop off ?data) cl = Inr (r', r_size r)"
    "r_values r' = map nullify vs" "r_header r' = r_header r" "r_size r' = r_size r"
    using Record_DeserializeFrom_eq [OF r(2), of cl "drop (off + length (record_bytes r)) data"] assms(2) r(3) sz(1) fit
    by (auto simp: drop_splice_prefix)
  show ?thesis
    using r(1) ser r' fit u by (intro exI [of _ r] exI [of _ ?data] exI [of _ r']) (simp add: splice_def)
qed

theorem Record_roundtrip_witness:
  "\<exists>r data' r'. Record_new [Value_int 42, Value_null] \<lparr>rid_page_id = 0, rid_slot_id = 0\<rparr> = Inr r
     \<and> Record_SerializeTo r 100 (replicate 256 0) = Inr (data', r_size r)
     \<and> Record_DeserializeFrom Record_default (drop 100 data')
          (ColumnList_new [\<lparr>cd_name = ''a'', cd_type = TINT, cd_max_size = 4\<rparr>, \<lparr>cd_name = ''b'', cd_type = TBOOL, cd_max_size = 1\<rparr>])
        = Inr (r', r_size r) \<and> r_values r' = [Value_int 42, Value_null]"
proof -
  let ?vs = "[Value_int 42, Value_null]"
  let ?cl = "ColumnList_new [\<lparr>cd_name = ''a'', cd_type = TINT, cd_max_size = 4\<rparr>, \<lparr>cd_name = ''b'', cd_type = TBOOL, cd_max_size = 1\<rparr>]"
  have nn: "\<not> IsNull (Value_int 42)" "IsNull Value_null" by (simp_all add: IsNull_def Value_int_def Value_null_def)
  have len: "length (value_bytes (Value_int 42)) = 4"
    using nn by (simp add: value_bytes_def Value_SerializeTo_def union_bytes_def Value_int_def)
  have "values_ok ?vs" using nn len by (simp add: values_ok_def)
  moreover have "columns_fit ?cl ?vs" using nn by (simp add: columns_fit_def column_fits_def Value_int_def)
  ultimately show ?thesis
    using Record_roundtrip [of ?vs ?cl 100 "replicate 256 0" "\<lparr>rid_page_id = 0, rid_slot_id = 0\<rparr>"] nn len
    by (auto simp: nullify_def)
qed

end
