(* ===== verification/Table_Pages.thy ===== *)
theory Table_Pages
  imports Records
begin

text \<open>
  \<^verbatim>\<open>src/src/storage/page.cpp\<close> and \<^verbatim>\<open>src/src/table/table_page.cpp\<close>: slotted pages at byte level.
  A page is 256 bytes: page LSN (8), next page id (4), lower (2), upper (2), the slot directory
  growing upwards from byte 16, and the records growing downwards from byte 256. The abstract view
  \<open>page_view\<close> is the LSN, the next page and the list of raw records by slot; \<open>page_rep\<close> relates the
  bytes to it, and every operation is shown to implement the list operation it stands for.
\<close>

section \<open>Pages\<close>

record Page =
  pg_data :: "byte list"
  pg_dirty :: bool

definition SetDirty :: "Page \<Rightarrow> Page" where
  "SetDirty p = p\<lparr>pg_dirty := True\<rparr>"

definition PAGE_HEADER_SIZE :: nat where [simp]: "PAGE_HEADER_SIZE = 16"

text \<open>The pointers into the page set up by the constructor of \<^verbatim>\<open>TablePage\<close>.\<close>

definition page_lsn :: "Page \<Rightarrow> lsn_t" where "page_lsn p = le_decode (slice 0 8 (pg_data p))"
definition next_page_id :: "Page \<Rightarrow> pageid_t" where "next_page_id p = le_decode (slice 8 4 (pg_data p))"
definition lower :: "Page \<Rightarrow> db_size_t" where "lower p = le_decode (slice 12 2 (pg_data p))"
definition upper :: "Page \<Rightarrow> db_size_t" where "upper p = le_decode (slice 14 2 (pg_data p))"

definition set_page_lsn :: "lsn_t \<Rightarrow> Page \<Rightarrow> Page" where
  "set_page_lsn x p = p\<lparr>pg_data := splice 0 (le_encode 8 x) (pg_data p)\<rparr>"
definition set_next_page_id :: "pageid_t \<Rightarrow> Page \<Rightarrow> Page" where
  "set_next_page_id x p = p\<lparr>pg_data := splice 8 (le_encode 4 x) (pg_data p)\<rparr>"
definition set_lower :: "db_size_t \<Rightarrow> Page \<Rightarrow> Page" where
  "set_lower x p = p\<lparr>pg_data := splice 12 (le_encode 2 x) (pg_data p)\<rparr>"
definition set_upper :: "db_size_t \<Rightarrow> Page \<Rightarrow> Page" where
  "set_upper x p = p\<lparr>pg_data := splice 14 (le_encode 2 x) (pg_data p)\<rparr>"

definition get_slot :: "nat \<Rightarrow> Page \<Rightarrow> Slot result" where
  "get_slot i p =
     rbind (mem_read (PAGE_HEADER_SIZE + 4 * i) 2 (pg_data p)) (\<lambda>a.
     rbind (mem_read (PAGE_HEADER_SIZE + 4 * i + 2) 2 (pg_data p)) (\<lambda>b.
       Inr \<lparr>slot_offset = le_decode a, slot_size = le_decode b\<rparr>))"

definition put_slot :: "nat \<Rightarrow> db_size_t \<Rightarrow> db_size_t \<Rightarrow> Page \<Rightarrow> Page result" where
  "put_slot i offset sz p =
     rbind (mem_write (PAGE_HEADER_SIZE + 4 * i) (le_encode 2 offset) (pg_data p)) (\<lambda>d1.
     rbind (mem_write (PAGE_HEADER_SIZE + 4 * i + 2) (le_encode 2 sz) d1) (\<lambda>d2.
       Inr (p\<lparr>pg_data := d2\<rparr>)))"

section \<open>Operations (table/table\_page.cpp)\<close>

definition TablePage_Init :: "Page \<Rightarrow> Page" where
  "TablePage_Init p =
     SetDirty (set_upper (of_nat DB_PAGE_SIZE) (set_lower (of_nat PAGE_HEADER_SIZE)
       (set_next_page_id NULL_PAGE_ID (set_page_lsn 0 p))))"

definition GetRecordCount :: "Page \<Rightarrow> db_size_t" where
  "GetRecordCount p = ucast ((ucast (lower p) - of_nat PAGE_HEADER_SIZE :: 64 word) div 4)"

definition GetFreeSpaceSize :: "Page \<Rightarrow> db_size_t" where
  "GetFreeSpaceSize p =
     (if unat (upper p) < unat (lower p) + 4 then 0 else upper p - lower p - 4)"

definition SetNextPageId :: "pageid_t \<Rightarrow> Page \<Rightarrow> Page" where
  "SetNextPageId pid p = SetDirty (set_next_page_id pid p)"

definition SetPageLSN :: "lsn_t \<Rightarrow> Page \<Rightarrow> Page" where
  "SetPageLSN l p = SetDirty (set_page_lsn l p)"

definition TablePage_InsertRecord ::
    "Record \<Rightarrow> xid_t \<Rightarrow> cid_t \<Rightarrow> Page \<Rightarrow> (slotid_t \<times> Record \<times> Page) result" where
  "TablePage_InsertRecord rec xid cid p =
     (let get_count = GetRecordCount p;
          p1 = set_lower (lower p + 4) p;
          p2 = set_upper (upper p1 - r_size rec) p1;
          rec' = SetXmin xid (SetCid cid rec)
      in rbind (put_slot (unat get_count) (upper p2) (r_size rec') p2) (\<lambda>p3.
         rbind (Record_SerializeTo rec' (unat (upper p3)) (pg_data p3)) (\<lambda>(d, n).
           let p4 = SetDirty (p3\<lparr>pg_data := d\<rparr>)
           in Inr (GetRecordCount p4 - 1, rec', p4))))"

text \<open>Rewriting the header of the record a slot points to.\<close>

definition edit_header :: "(RecordHeader \<Rightarrow> RecordHeader) \<Rightarrow> slotid_t \<Rightarrow> Page \<Rightarrow> Page result" where
  "edit_header f slot_id p =
     rbind (get_slot (unat slot_id) p) (\<lambda>s.
       let off = unat (slot_offset s) in
       rbind (RecordHeader_DeserializeFrom (drop off (pg_data p))) (\<lambda>(h, n).
       rbind (RecordHeader_SerializeTo (f h) off (pg_data p)) (\<lambda>(d, n).
         Inr (SetDirty (p\<lparr>pg_data := d\<rparr>)))))"

definition TablePage_DeleteRecord :: "slotid_t \<Rightarrow> xid_t \<Rightarrow> Page \<Rightarrow> Page result" where
  "TablePage_DeleteRecord slot_id xid = edit_header (\<lambda>h. h\<lparr>rh_deleted := True, rh_xmax := xid\<rparr>) slot_id"

definition UndoDeleteRecord :: "slotid_t \<Rightarrow> Page \<Rightarrow> Page result" where
  "UndoDeleteRecord slot_id = edit_header (\<lambda>h. h\<lparr>rh_deleted := False, rh_xmax := NULL_XID\<rparr>) slot_id"

definition TablePage_UpdateRecordInPlace :: "Record \<Rightarrow> slotid_t \<Rightarrow> Page \<Rightarrow> Page result" where
  "TablePage_UpdateRecordInPlace rec slot_id p =
     rbind (get_slot (unat slot_id) p) (\<lambda>s.
     rbind (Record_SerializeTo rec (unat (slot_offset s)) (pg_data p)) (\<lambda>(d, n).
       Inr (SetDirty (p\<lparr>pg_data := d\<rparr>))))"

definition TablePage_GetRecord :: "Rid \<Rightarrow> ColumnList \<Rightarrow> Page \<Rightarrow> Record result" where
  "TablePage_GetRecord rid cl p =
     rbind (get_slot (unat (rid_slot_id rid)) p) (\<lambda>s.
     rbind (Record_DeserializeFrom Record_default (drop (unat (slot_offset s)) (pg_data p)) cl) (\<lambda>(rec, n).
     rbind (Record_new (r_values rec) rid) (\<lambda>r.
       Inr (SetXmin (rh_xmin (r_header rec)) (SetXmax (rh_xmax (r_header rec))
             (SetCid (rh_cid (r_header rec)) (SetDeleted (rh_deleted (r_header rec)) r)))))))"

definition RedoInsertRecord ::
    "slotid_t \<Rightarrow> byte list \<Rightarrow> db_size_t \<Rightarrow> db_size_t \<Rightarrow> Page \<Rightarrow> Page result" where
  "RedoInsertRecord slot_id raw_record page_offset record_size p =
     (let p1 = set_lower (lower p + 4) p;
          p2 = set_upper (upper p1 - record_size) p1
      in rbind (put_slot (unat slot_id) (upper p2) record_size p2) (\<lambda>p3.
         rbind (mem_read 0 (unat record_size) raw_record) (\<lambda>raw.
         rbind (mem_write (unat (upper p3)) raw (pg_data p3)) (\<lambda>d.
           Inr (SetDirty (p3\<lparr>pg_data := d\<rparr>))))))"

section \<open>The abstract view\<close>

record page_view =
  pv_lsn :: lsn_t
  pv_next :: pageid_t
  pv_recs :: "byte list list"

definition total_len :: "byte list list \<Rightarrow> nat" where
  "total_len recs = sum_list (map length recs)"

definition rec_off :: "byte list list \<Rightarrow> nat \<Rightarrow> nat" where
  "rec_off recs i = 256 - total_len (take (Suc i) recs)"

definition slot_entry :: "byte list list \<Rightarrow> nat \<Rightarrow> byte list" where
  "slot_entry recs i = le_encode 2 (of_nat (rec_off recs i) :: db_size_t)
                       @ le_encode 2 (of_nat (length (recs ! i)) :: db_size_t)"

definition slot_bytes :: "byte list list \<Rightarrow> byte list" where
  "slot_bytes recs = concat (map (slot_entry recs) [0..<length recs])"

definition head_bytes :: "lsn_t \<Rightarrow> pageid_t \<Rightarrow> db_size_t \<Rightarrow> db_size_t \<Rightarrow> byte list" where
  "head_bytes l nx lo up = le_encode 8 l @ le_encode 4 nx @ le_encode 2 lo @ le_encode 2 up"

definition page_image :: "page_view \<Rightarrow> byte list \<Rightarrow> byte list" where
  "page_image v free =
     head_bytes (pv_lsn v) (pv_next v) (of_nat (16 + 4 * length (pv_recs v)))
       (of_nat (256 - total_len (pv_recs v)))
     @ slot_bytes (pv_recs v) @ free @ concat (rev (pv_recs v))"

definition page_rep :: "page_view \<Rightarrow> Page \<Rightarrow> bool" where
  "page_rep v p \<longleftrightarrow> (\<forall>r \<in> set (pv_recs v). 13 \<le> length r) \<and>
     (\<exists>free. pg_data p = page_image v free \<and> 16 + 4 * length (pv_recs v) + length free + total_len (pv_recs v) = 256)"

definition free_space :: "page_view \<Rightarrow> nat" where
  "free_space v = 256 - (16 + 4 * length (pv_recs v) + total_len (pv_recs v))"

subsection \<open>Lengths\<close>

lemma length_head_bytes [simp]: "length (head_bytes l nx lo up) = 16"
  by (simp add: head_bytes_def)

lemma length_slot_entry [simp]: "length (slot_entry recs i) = 4"
  by (simp add: slot_entry_def)

lemma length_concat_const: "(\<And>i. i \<in> set is \<Longrightarrow> length (f i) = k) \<Longrightarrow> length (concat (map f is)) = k * length is"
  by (induction "is") auto

lemma length_slot_bytes [simp]: "length (slot_bytes recs) = 4 * length recs"
  by (simp add: slot_bytes_def length_concat_const [where k = 4])

lemma total_len_simps [simp]:
  "total_len [] = 0" "total_len (r # rs) = length r + total_len rs" "total_len (rs @ ss) = total_len rs + total_len ss"
  by (simp_all add: total_len_def)

lemma length_concat_total [simp]: "length (concat recs) = total_len recs"
  by (simp add: total_len_def length_concat)

lemma total_len_rev [simp]: "total_len (rev recs) = total_len recs"
  by (induction recs) simp_all

lemma total_take_le: "total_len (take n recs) \<le> total_len recs"
  by (metis append_take_drop_id le_add1 total_len_simps(3))

lemma page_rep_length: "page_rep v p \<Longrightarrow> length (pg_data p) = 256"
  by (auto simp: page_rep_def page_image_def)

lemma page_rep_bounds:
  assumes "page_rep v p"
  shows "16 + 4 * length (pv_recs v) + total_len (pv_recs v) \<le> 256" "length (pv_recs v) \<le> 14"
proof -
  show le: "16 + 4 * length (pv_recs v) + total_len (pv_recs v) \<le> 256"
    using assms by (auto simp: page_rep_def)
  have "13 * length rs \<le> total_len rs" if "\<forall>r \<in> set rs. 13 \<le> length r" for rs
    using that by (induction rs) auto
  then show "length (pv_recs v) \<le> 14"
    using assms le by (fastforce simp: page_rep_def)
qed

subsection \<open>Reading the header fields\<close>

lemma page_rep_fields:
  assumes "page_rep v p"
  shows "page_lsn p = pv_lsn v" "next_page_id p = pv_next v"
    "lower p = of_nat (16 + 4 * length (pv_recs v))" "upper p = of_nat (256 - total_len (pv_recs v))"
    "unat (lower p) = 16 + 4 * length (pv_recs v)" "unat (upper p) = 256 - total_len (pv_recs v)"
proof -
  obtain free where d: "pg_data p = page_image v free"
    using assms by (auto simp: page_rep_def)
  show "page_lsn p = pv_lsn v" "next_page_id p = pv_next v"
    by (simp_all add: page_lsn_def next_page_id_def d page_image_def head_bytes_def slice_def)
  show lo: "lower p = of_nat (16 + 4 * length (pv_recs v))" and up: "upper p = of_nat (256 - total_len (pv_recs v))"
    by (simp_all add: lower_def upper_def d page_image_def head_bytes_def slice_def)
  show "unat (lower p) = 16 + 4 * length (pv_recs v)"
    unfolding lo by (rule unat_of_nat_small) (use page_rep_bounds [OF assms] in simp)
  show "unat (upper p) = 256 - total_len (pv_recs v)"
    unfolding up by (rule unat_of_nat_small) simp
qed

lemma GetRecordCount_word:
  assumes "unat w = 16 + 4 * n" "n < 1000"
  shows "(ucast ((ucast (w :: db_size_t) - of_nat PAGE_HEADER_SIZE :: 64 word) div 4) :: db_size_t) = of_nat n"
proof -
  have w: "ucast w = (of_nat (16 + 4 * n) :: 64 word)"
    using assms(1) by (metis of_nat_unat)
  have "(of_nat (16 + 4 * n) - of_nat PAGE_HEADER_SIZE :: 64 word) = of_nat (4 * n)"
    by simp
  moreover have "(of_nat (4 * n) :: 64 word) div 4 = of_nat n"
  proof -
    have "unat (of_nat (4 * n) :: 64 word) = 4 * n"
      using assms(2) by (intro unat_of_nat_small) simp
    then show ?thesis
      using assms(2) by (simp only: word_unat_eq_iff unat_div) (simp add: unat_of_nat_small)
  qed
  ultimately have "(ucast w - of_nat PAGE_HEADER_SIZE :: 64 word) div 4 = of_nat n"
    unfolding w by simp
  moreover have "unat (of_nat n :: 64 word) = n"
    using assms(2) by (intro unat_of_nat_small) simp
  then have "(ucast (of_nat n :: 64 word) :: db_size_t) = of_nat n"
    using of_nat_unat [of "of_nat n :: 64 word", where 'a = "16 word"] by simp
  ultimately show ?thesis by simp
qed

lemma page_rep_count: "page_rep v p \<Longrightarrow> GetRecordCount p = of_nat (length (pv_recs v))"
  using GetRecordCount_word [of "lower p" "length (pv_recs v)"] page_rep_fields(5) [of v p] page_rep_bounds(2) [of v p]
  by (simp add: GetRecordCount_def)

lemma page_rep_free:
  assumes "page_rep v p"
  shows "unat (GetFreeSpaceSize p) = (if free_space v < 4 then 0 else free_space v - 4)"
proof -
  note f = page_rep_fields [OF assms] page_rep_bounds [OF assms]
  show ?thesis
  proof (cases "free_space v < 4")
    case True
    then have "unat (upper p) < unat (lower p) + 4"
      unfolding f(5,6) using f(7) by (simp add: free_space_def)
    then show ?thesis using True by (simp add: GetFreeSpaceSize_def)
  next
    case False
    then have ge: "unat (lower p) + 4 \<le> unat (upper p)"
      unfolding f(5,6) by (simp add: free_space_def)
    have "unat (upper p - lower p - 4) = unat (upper p) - unat (lower p) - 4"
    proof -
      have "unat (upper p - lower p) = unat (upper p) - unat (lower p)"
        using ge by (intro unat_sub_small) simp
      moreover have "unat (upper p - lower p - 4) = unat (upper p - lower p) - unat (4 :: db_size_t)"
        using ge calculation by (intro unat_sub_small) simp
      ultimately show ?thesis by simp
    qed
    then have "unat (GetFreeSpaceSize p) = unat (upper p) - unat (lower p) - 4"
      using ge by (simp add: GetFreeSpaceSize_def)
    then show ?thesis
      unfolding f(5,6) using False by (simp add: free_space_def)
  qed
qed

subsection \<open>Reading slots and records\<close>

lemma slice_concat_chunks:
  assumes "\<And>j. j \<in> set is \<Longrightarrow> length (f j) = k" "i < length is"
  shows "slice (k * i) k (concat (map f is) @ rest) = f (is ! i)"
  using assms
proof (induction "is" arbitrary: i)
  case Nil
  then show ?case by simp
next
  case (Cons x xs)
  show ?case
  proof (cases i)
    case 0
    then show ?thesis using Cons.prems by (simp add: slice_def)
  next
    case (Suc j)
    then have "slice (k * j) k (concat (map f xs) @ rest) = f (xs ! j)"
      using Cons.prems by (intro Cons.IH) auto
    then show ?thesis
      using Cons.prems Suc by (simp add: slice_def)
  qed
qed

lemma slot_slice:
  assumes "i < length (pv_recs v)"
  shows "slice (16 + 4 * i) 4 (page_image v free) = slot_entry (pv_recs v) i"
proof -
  have "slice (16 + 4 * i) 4 (page_image v free)
      = slice (4 * i) 4 (slot_bytes (pv_recs v) @ free @ concat (rev (pv_recs v)))"
    by (simp add: page_image_def slice_append_right)
  also have "\<dots> = slot_entry (pv_recs v) i"
    unfolding slot_bytes_def
    using slice_concat_chunks [of "[0..<length (pv_recs v)]" "slot_entry (pv_recs v)" 4 i] assms by simp
  finally show ?thesis .
qed

lemma get_slot_rep:
  assumes "page_rep v p" "i < length (pv_recs v)"
  obtains s where "get_slot i p = Inr s" "unat (slot_offset s) = rec_off (pv_recs v) i"
    "unat (slot_size s) = length (pv_recs v ! i)"
proof -
  obtain free where d: "pg_data p = page_image v free"
    using assms(1) by (auto simp: page_rep_def)
  have len: "16 + 4 * i + 4 \<le> length (pg_data p)"
    using page_rep_length [OF assms(1)] page_rep_bounds [OF assms(1)] assms(2) by simp
  have sl: "slice (16 + 4 * i) 4 (pg_data p) = slot_entry (pv_recs v) i"
    using slot_slice [OF assms(2)] d by simp
  have a: "slice (16 + 4 * i) 2 (pg_data p) = le_encode 2 (of_nat (rec_off (pv_recs v) i) :: db_size_t)"
    using arg_cong [OF sl, of "slice 0 2"] by (simp add: slice_slice slot_entry_def, simp add: slice_def)
  have b: "slice (16 + 4 * i + 2) 2 (pg_data p) = le_encode 2 (of_nat (length (pv_recs v ! i)) :: db_size_t)"
    using arg_cong [OF sl, of "slice 2 2"] by (simp add: slice_slice slot_entry_def, simp add: slice_def)
  have "length (pv_recs v ! i) \<le> total_len (pv_recs v)"
    using assms(2) by (simp add: total_len_def elem_le_sum_list [of i "map length (pv_recs v)", simplified])
  then have "length (pv_recs v ! i) < 2 ^ 16" "rec_off (pv_recs v) i < 2 ^ 16"
    using page_rep_bounds [OF assms(1)] by (auto simp: rec_off_def)
  then show thesis
    using that a b len by (simp add: get_slot_def unat_of_nat_small)
qed

lemma concat_rev_split:
  assumes "i < length recs"
  shows "concat (rev recs) = concat (rev (drop (Suc i) recs)) @ recs ! i @ concat (rev (take i recs))"
proof -
  have "recs = take i recs @ recs ! i # drop (Suc i) recs"
    using assms by (rule id_take_nth_drop)
  then show ?thesis
    by (metis append.assoc concat_append concat.simps(2) rev.simps(2) rev_append append_Nil2 concat.simps(1))
qed

lemma page_image_split:
  assumes "i < length (pv_recs v)" "16 + 4 * length (pv_recs v) + length free + total_len (pv_recs v) = 256"
  obtains pre post where "page_image v free = pre @ pv_recs v ! i @ post"
    "length pre = rec_off (pv_recs v) i" "post = concat (rev (take i (pv_recs v)))"
    "pre = head_bytes (pv_lsn v) (pv_next v) (of_nat (16 + 4 * length (pv_recs v)))
       (of_nat (256 - total_len (pv_recs v))) @ slot_bytes (pv_recs v) @ free
       @ concat (rev (drop (Suc i) (pv_recs v)))"
proof -
  let ?recs = "pv_recs v"
  let ?pre = "head_bytes (pv_lsn v) (pv_next v) (of_nat (16 + 4 * length ?recs)) (of_nat (256 - total_len ?recs))
     @ slot_bytes ?recs @ free @ concat (rev (drop (Suc i) ?recs))"
  have "total_len ?recs = total_len (take (Suc i) ?recs) + total_len (drop (Suc i) ?recs)"
    by (metis append_take_drop_id total_len_simps(3))
  then have "length ?pre = rec_off ?recs i"
    using assms(2) by (simp add: rec_off_def)
  moreover have "page_image v free = ?pre @ ?recs ! i @ concat (rev (take i ?recs))"
    using concat_rev_split [OF assms(1)] by (simp add: page_image_def)
  ultimately show thesis
    using that by blast
qed

section \<open>Refinement\<close>

text \<open>The header of a raw record, and the raw record with another header.\<close>

definition raw_header :: "byte list \<Rightarrow> RecordHeader" where
  "raw_header r = fst (projr (RecordHeader_DeserializeFrom r))"

definition with_header :: "(RecordHeader \<Rightarrow> RecordHeader) \<Rightarrow> byte list \<Rightarrow> byte list" where
  "with_header f r = header_bytes (f (raw_header r)) @ drop 13 r"

lemma length_with_header [simp]: "13 \<le> length r \<Longrightarrow> length (with_header f r) = length r"
  by (simp add: with_header_def)

lemma raw_header_bytes [simp]: "raw_header (header_bytes h @ rest) = h"
  by (simp add: raw_header_def)

lemma raw_header_with_header [simp]: "raw_header (with_header f r) = f (raw_header r)"
  by (simp add: with_header_def)

lemma with_header_with_header: "with_header g (with_header f r) = with_header (g \<circ> f) r"
  by (simp add: with_header_def raw_header_def)

lemma RecordHeader_DeserializeFrom_raw:
  assumes "13 \<le> length r"
  shows "RecordHeader_DeserializeFrom (r @ rest) = Inr (raw_header r, 13)"
  using assms by (simp add: raw_header_def RecordHeader_DeserializeFrom_def slice_def)

lemma slot_bytes_cong:
  "length recs' = length recs \<Longrightarrow> (\<And>i. i < length recs \<Longrightarrow> length (recs' ! i) = length (recs ! i)) \<Longrightarrow>
   slot_bytes recs' = slot_bytes recs \<and> total_len recs' = total_len recs"
proof -
  assume l: "length recs' = length recs" and n: "\<And>i. i < length recs \<Longrightarrow> length (recs' ! i) = length (recs ! i)"
  have m: "map length recs' = map length recs"
    using l n by (intro nth_equalityI) auto
  then have t: "total_len (take k recs') = total_len (take k recs)" for k
    by (simp add: total_len_def take_map [symmetric])
  have "slot_entry recs' i = slot_entry recs i" if "i < length recs" for i
    using that n t [of "Suc i"] by (simp add: slot_entry_def rec_off_def)
  then have "map (slot_entry recs') [0..<length recs] = map (slot_entry recs) [0..<length recs]"
    by (intro map_cong) auto
  then show ?thesis
    using l m unfolding slot_bytes_def total_len_def by (simp del: map_eq_conv)
qed

lemma slot_bytes_list_update:
  assumes "length r' = length (recs ! i)"
  shows "slot_bytes (recs[i := r']) = slot_bytes recs" "total_len (recs[i := r']) = total_len recs"
proof -
  have "length (recs[i := r'] ! j) = length (recs ! j)" if "j < length recs" for j
    using that assms by (cases "i = j") simp_all
  then show "slot_bytes (recs[i := r']) = slot_bytes recs" "total_len (recs[i := r']) = total_len recs"
    using slot_bytes_cong [of "recs[i := r']" recs] by auto
qed

lemma page_image_update:
  assumes "i < length (pv_recs v)" "length r' = length (pv_recs v ! i)"
    and "16 + 4 * length (pv_recs v) + length free + total_len (pv_recs v) = 256"
  shows "splice (rec_off (pv_recs v) i) r' (page_image v free)
           = page_image (v\<lparr>pv_recs := (pv_recs v)[i := r']\<rparr>) free"
proof -
  let ?recs' = "(pv_recs v)[i := r']"
  note c = slot_bytes_list_update [OF assms(2)]
  obtain pre post where s: "page_image v free = pre @ pv_recs v ! i @ post"
    "length pre = rec_off (pv_recs v) i" "post = concat (rev (take i (pv_recs v)))"
    "pre = head_bytes (pv_lsn v) (pv_next v) (of_nat (16 + 4 * length (pv_recs v)))
       (of_nat (256 - total_len (pv_recs v))) @ slot_bytes (pv_recs v) @ free
       @ concat (rev (drop (Suc i) (pv_recs v)))"
    by (rule page_image_split [OF assms(1,3)])
  have "splice (rec_off (pv_recs v) i) r' (page_image v free) = pre @ r' @ post"
    using s(1,2) assms(2) by (simp add: splice_def)
  also have "\<dots> = page_image (v\<lparr>pv_recs := ?recs'\<rparr>) free"
    using concat_rev_split [of i ?recs'] assms(1) c by (simp add: page_image_def s(3,4))
  finally show ?thesis .
qed

lemma edit_header_rep:
  assumes "page_rep v p" "unat slot < length (pv_recs v)"
  obtains p' where "edit_header f slot p = Inr p'" "pg_dirty p'"
    "page_rep (v\<lparr>pv_recs := (pv_recs v)[unat slot := with_header f (pv_recs v ! unat slot)]\<rparr>) p'"
    "pg_data p' = splice (rec_off (pv_recs v) (unat slot)) (with_header f (pv_recs v ! unat slot)) (pg_data p)"
    "rec_off (pv_recs v) (unat slot) + length (pv_recs v ! unat slot) \<le> length (pg_data p)"
    "slice (rec_off (pv_recs v) (unat slot)) (length (pv_recs v ! unat slot)) (pg_data p) = pv_recs v ! unat slot"
proof -
  let ?i = "unat slot" and ?recs = "pv_recs v"
  let ?r = "?recs ! ?i"
  obtain free where d: "pg_data p = page_image v free"
    "16 + 4 * length ?recs + length free + total_len ?recs = 256" "\<forall>r \<in> set ?recs. 13 \<le> length r"
    using assms(1) by (auto simp: page_rep_def)
  have r13: "13 \<le> length ?r" using d(3) assms(2) by simp
  obtain s where s: "get_slot ?i p = Inr s" "unat (slot_offset s) = rec_off ?recs ?i"
    using get_slot_rep [OF assms] by blast
  obtain pre post where sp: "page_image v free = pre @ ?r @ post" "length pre = rec_off ?recs ?i"
    by (rule page_image_split [OF assms(2) d(2)])
  have len: "rec_off ?recs ?i + length ?r \<le> length (pg_data p)"
    using sp d(1) by simp
  have rd: "RecordHeader_DeserializeFrom (drop (rec_off ?recs ?i) (pg_data p)) = Inr (raw_header ?r, 13)"
    using sp d(1) RecordHeader_DeserializeFrom_raw [OF r13, of post] by simp
  have wr: "RecordHeader_SerializeTo (f (raw_header ?r)) (rec_off ?recs ?i) (pg_data p)
      = Inr (splice (rec_off ?recs ?i) (header_bytes (f (raw_header ?r))) (pg_data p), 13)"
    using len r13 by (intro RecordHeader_SerializeTo_eq) simp
  have same: "splice (rec_off ?recs ?i) (header_bytes (f (raw_header ?r))) (pg_data p)
      = splice (rec_off ?recs ?i) (with_header f ?r) (pg_data p)"
    using sp d(1) r13 by (simp add: splice_def with_header_def)
  let ?v' = "v\<lparr>pv_recs := ?recs[?i := with_header f ?r]\<rparr>"
  have img: "splice (rec_off ?recs ?i) (with_header f ?r) (pg_data p) = page_image ?v' free"
    unfolding d(1) using r13 by (intro page_image_update assms(2) d(2)) simp
  have tl: "total_len (?recs[?i := with_header f ?r]) = total_len ?recs"
    using r13 by (intro slot_bytes_list_update) simp
  have "page_rep ?v' (SetDirty (p\<lparr>pg_data := page_image ?v' free\<rparr>))"
    using d r13 assms(2) tl by (auto simp: page_rep_def SetDirty_def
        dest!: subsetD [OF set_update_subset_insert])
  moreover have "edit_header f slot p = Inr (SetDirty (p\<lparr>pg_data := page_image ?v' free\<rparr>))"
    using s rd wr same img by (simp add: edit_header_def Let_def)
  moreover have "slice (rec_off ?recs ?i) (length ?r) (pg_data p) = ?r"
    using sp d(1) by (simp add: slice_def)
  ultimately show thesis
    using that [of "SetDirty (p\<lparr>pg_data := page_image ?v' free\<rparr>)"] len img by (simp add: SetDirty_def)
qed

text \<open>An edit that a second edit reverts leaves the bytes of the page as they were.\<close>

lemma edit_header_inverse:
  assumes "page_rep v p" "unat slot < length (pv_recs v)" "edit_header f slot p = Inr p'"
    and "with_header g (with_header f (pv_recs v ! unat slot)) = pv_recs v ! unat slot"
  obtains p'' where "edit_header g slot p' = Inr p''" "pg_data p'' = pg_data p"
proof -
  let ?i = "unat slot" and ?recs = "pv_recs v"
  let ?r = "?recs ! ?i" and ?recs' = "?recs[?i := with_header f (?recs ! ?i)]"
  have l: "length (with_header f ?r) = length ?r"
    using assms(1,2) by (auto simp: page_rep_def)
  have e: "page_rep (v\<lparr>pv_recs := ?recs'\<rparr>) p'" "pg_data p' = splice (rec_off ?recs ?i) (with_header f ?r) (pg_data p)"
    "rec_off ?recs ?i + length ?r \<le> length (pg_data p)" "slice (rec_off ?recs ?i) (length ?r) (pg_data p) = ?r"
    using edit_header_rep [OF assms(1,2), of f] assms(3) by (metis Inr_inject)+
  have "total_len (take (Suc ?i) ?recs') = total_len (take (Suc ?i) ?recs)"
    using slot_bytes_list_update(2) [of "with_header f ?r" "take (Suc ?i) ?recs" ?i] l assms(2)
    by (simp add: take_update_swap)
  then have off: "rec_off ?recs' ?i = rec_off ?recs ?i"
    by (simp add: rec_off_def)
  obtain p'' where p'': "edit_header g slot p' = Inr p''"
    "pg_data p'' = splice (rec_off ?recs' ?i) (with_header g (with_header f ?r)) (pg_data p')"
    using edit_header_rep [OF e(1), of slot g] assms(2) by auto
  have "pg_data p'' = splice (rec_off ?recs ?i) ?r (pg_data p)"
    unfolding p''(2) off assms(4) e(2) using e(3) l by (intro splice_splice_same) simp_all
  also have "\<dots> = pg_data p"
    using e(3,4) by (intro splice_same) simp_all
  finally show thesis
    using that p''(1) by blast
qed


lemma set_field_lengths [simp]:
  assumes "16 \<le> length (pg_data p)"
  shows "length (pg_data (set_page_lsn a p)) = length (pg_data p)"
    "length (pg_data (set_next_page_id b p)) = length (pg_data p)"
    "length (pg_data (set_lower c p)) = length (pg_data p)"
    "length (pg_data (set_upper c p)) = length (pg_data p)"
  using assms by (simp_all add: set_page_lsn_def set_next_page_id_def set_lower_def set_upper_def)

lemma field_updates [simp]:
  assumes "16 \<le> length (pg_data p)"
  shows "lower (set_lower c p) = c" "upper (set_lower c p) = upper p"
    "lower (set_upper c p) = lower p" "upper (set_upper c p) = c"
  using assms
  by (simp_all add: lower_def upper_def set_lower_def set_upper_def slice_splice_disjoint)

lemma splice_middle: "off = length pre \<Longrightarrow> length old = length ds \<Longrightarrow> splice off ds (pre @ old @ post) = pre @ ds @ post"
  by (simp add: splice_def)

subsection \<open>Initialisation and header fields\<close>

lemma TablePage_Init_rep:
  assumes "length (pg_data p) = 256"
  shows "page_rep \<lparr>pv_lsn = 0, pv_next = NULL_PAGE_ID, pv_recs = []\<rparr> (TablePage_Init p)" "pg_dirty (TablePage_Init p)"
proof -
  have "pg_data (TablePage_Init p) = splice 0 (head_bytes 0 NULL_PAGE_ID 16 256) (pg_data p)"
    using assms
    by (simp add: TablePage_Init_def SetDirty_def set_page_lsn_def set_next_page_id_def set_lower_def set_upper_def
        head_bytes_def splice_append [of 0 _ _ "pg_data p"])
  also have "\<dots> = head_bytes 0 NULL_PAGE_ID 16 256 @ drop 16 (pg_data p)"
    by (simp add: splice_def)
  finally show "page_rep \<lparr>pv_lsn = 0, pv_next = NULL_PAGE_ID, pv_recs = []\<rparr> (TablePage_Init p)"
    using assms by (auto simp: page_rep_def page_image_def slot_bytes_def intro: exI [of _ "drop 16 (pg_data p)"])
  show "pg_dirty (TablePage_Init p)"
    by (simp add: TablePage_Init_def SetDirty_def)
qed

lemma SetNextPageId_rep:
  "page_rep v p \<Longrightarrow> page_rep (v\<lparr>pv_next := n\<rparr>) (SetNextPageId n p) \<and> pg_dirty (SetNextPageId n p)"
  by (auto simp: page_rep_def page_image_def head_bytes_def SetNextPageId_def SetDirty_def set_next_page_id_def splice_def)

lemma SetPageLSN_rep:
  "page_rep v p \<Longrightarrow> page_rep (v\<lparr>pv_lsn := l\<rparr>) (SetPageLSN l p) \<and> pg_dirty (SetPageLSN l p)"
  by (auto simp: page_rep_def page_image_def head_bytes_def SetPageLSN_def SetDirty_def set_page_lsn_def splice_def)

subsection \<open>Insertion\<close>

lemma slot_bytes_snoc: "slot_bytes (recs @ [r]) = slot_bytes recs @ slot_entry (recs @ [r]) (length recs)"
proof -
  have "slot_entry (recs @ [r]) i = slot_entry recs i" if "i < length recs" for i
    using that by (simp add: slot_entry_def rec_off_def nth_append)
  then have "map (slot_entry (recs @ [r])) [0..<length recs] = map (slot_entry recs) [0..<length recs]"
    by (intro map_cong) auto
  then show ?thesis by (simp add: slot_bytes_def del: map_eq_conv)
qed

definition snoc_view :: "byte list \<Rightarrow> page_view \<Rightarrow> page_view" where
  "snoc_view r v = v\<lparr>pv_recs := pv_recs v @ [r]\<rparr>"

lemma page_image_snoc:
  fixes v r free
  defines "n \<equiv> length (pv_recs v)" and "t \<equiv> total_len (pv_recs v)"
  assumes len: "16 + 4 * n + length free + t = 256" and fit: "length r + 4 \<le> length free"
  shows "splice (256 - (t + length r)) r
          (splice (16 + 4 * n) (slot_entry (pv_recs v @ [r]) n)
            (splice 14 (le_encode 2 (of_nat (256 - (t + length r)) :: db_size_t))
              (splice 12 (le_encode 2 (of_nat (16 + 4 * Suc n) :: db_size_t)) (page_image v free))))
         = page_image (snoc_view r v) (take (length free - length r - 4) (drop 4 free))"
proof -
  define a b c where "a = take 4 free" and "b = take (length free - length r - 4) (drop 4 free)"
    and "c = drop (length free - length r) free"
  have abc: "free = a @ b @ c" "length a = 4" "length c = length r" "length b = length free - length r - 4"
  proof -
    have "c = drop (length free - length r - 4) (drop 4 free)"
      using fit by (simp add: c_def)
    then have "drop 4 free = b @ c"
      by (simp only: b_def append_take_drop_id)
    then show "free = a @ b @ c" unfolding a_def by (metis append_take_drop_id)
  qed (use fit in \<open>simp_all add: a_def b_def c_def\<close>)
  let ?l = "le_encode 8 (pv_lsn v)" and ?nx = "le_encode 4 (pv_next v)"
  let ?lo = "le_encode 2 (of_nat (16 + 4 * n) :: db_size_t)" and ?up = "le_encode 2 (of_nat (256 - t) :: db_size_t)"
  let ?lo' = "le_encode 2 (of_nat (16 + 4 * Suc n) :: db_size_t)"
  let ?up' = "le_encode 2 (of_nat (256 - (t + length r)) :: db_size_t)"
  let ?s = "slot_bytes (pv_recs v)" and ?e = "slot_entry (pv_recs v @ [r]) n" and ?cc = "concat (rev (pv_recs v))"
  have "page_image v free = (?l @ ?nx) @ ?lo @ (?up @ ?s @ a @ b @ c @ ?cc)"
    unfolding page_image_def head_bytes_def n_def t_def by (simp add: abc(1))
  then have 1: "splice 12 ?lo' (page_image v free) = (?l @ ?nx @ ?lo') @ ?up @ (?s @ a @ b @ c @ ?cc)"
    using splice_middle [of 12 "?l @ ?nx" ?lo ?lo'] by simp
  have 2: "splice 14 ?up' (splice 12 ?lo' (page_image v free)) = (?l @ ?nx @ ?lo' @ ?up' @ ?s) @ a @ (b @ c @ ?cc)"
    unfolding 1 by (subst splice_middle) simp_all
  have 3: "splice (16 + 4 * n) ?e (splice 14 ?up' (splice 12 ?lo' (page_image v free)))
      = (?l @ ?nx @ ?lo' @ ?up' @ ?s @ ?e @ b) @ c @ ?cc"
    unfolding 2 using abc(2) by (subst splice_middle) (simp_all add: n_def)
  show ?thesis
    unfolding 3 using abc len fit
    by (subst splice_middle)
      (simp_all add: page_image_def head_bytes_def snoc_view_def slot_bytes_snoc n_def t_def b_def)
qed

text \<open>The stores shared by \<^verbatim>\<open>InsertRecord\<close> and \<^verbatim>\<open>RedoInsertRecord\<close>, up to the record itself.\<close>

definition reserve :: "nat \<Rightarrow> db_size_t \<Rightarrow> Page \<Rightarrow> Page result" where
  "reserve i sz p = (let p1 = set_lower (lower p + 4) p; p2 = set_upper (upper p1 - sz) p1
                     in put_slot i (upper p2) sz p2)"

lemma reserve_rep:
  assumes rep: "page_rep v p" and fit: "length r + 4 \<le> free_space v" and r: "13 \<le> length r"
  obtains p3 where "reserve (length (pv_recs v)) (of_nat (length r)) p = Inr p3"
    "unat (upper p3) + length r \<le> 256" "length (pg_data p3) = 256"
    "\<And>dt. page_rep (snoc_view r v) \<lparr>pg_data = splice (unat (upper p3)) r (pg_data p3), pg_dirty = dt\<rparr>"
proof -
  let ?recs = "pv_recs v"
  let ?n = "length ?recs" and ?t = "total_len ?recs" and ?off = "256 - (total_len ?recs + length r)"
  obtain free where d: "pg_data p = page_image v free" "16 + 4 * ?n + length free + ?t = 256"
    "\<forall>r \<in> set ?recs. 13 \<le> length r"
    using rep by (auto simp: page_rep_def)
  have fit': "length r + 4 \<le> length free" using fit d(2) by (simp add: free_space_def)
  note len = page_rep_length [OF rep] and f = page_rep_fields [OF rep]
  have lo: "lower p + 4 = of_nat (16 + 4 * Suc ?n)" unfolding f(3) by simp
  have up: "upper p - of_nat (length r) = of_nat ?off"
    unfolding f(4) using fit' d(2) by (simp add: of_nat_diff)
  define p2 where p2: "p2 = set_upper (of_nat ?off) (set_lower (of_nat (16 + 4 * Suc ?n)) p)"
  have up2: "upper p2 = of_nat ?off" unfolding p2 using len by simp
  have l2: "length (pg_data p2) = 256" unfolding p2 using len by simp
  have entry: "slot_entry (?recs @ [r]) ?n = le_encode 2 (of_nat ?off :: db_size_t) @ le_encode 2 (of_nat (length r) :: db_size_t)"
    by (simp add: slot_entry_def rec_off_def)
  define p3 where "p3 = p2\<lparr>pg_data := splice (16 + 4 * ?n) (slot_entry (?recs @ [r]) ?n) (pg_data p2)\<rparr>"
  have "put_slot ?n (of_nat ?off) (of_nat (length r)) p2 = Inr p3"
    unfolding p3_def entry using l2 d(2) fit'
    by (simp add: put_slot_def splice_append [of "16 + 4 * ?n" _ _ "pg_data p2"])
  then have put: "reserve ?n (of_nat (length r)) p = Inr p3"
    unfolding reserve_def lo Let_def using len up p2 by simp
  have l3: "length (pg_data p3) = 256" unfolding p3_def using l2 d(2) fit' by simp
  have "upper p3 = upper p2"
    using l2 d(2) fit' by (simp add: p3_def upper_def slice_splice_disjoint)
  then have up3: "unat (upper p3) = ?off"
    unfolding up2 by (simp only:) (rule unat_of_nat_small, simp)
  have img: "splice ?off r (pg_data p3) = page_image (snoc_view r v) (take (length free - length r - 4) (drop 4 free))"
    unfolding p3_def p2 using page_image_snoc [OF d(2) fit'] d(1) by (simp add: set_upper_def set_lower_def)
  have "page_rep (snoc_view r v) \<lparr>pg_data = splice (unat (upper p3)) r (pg_data p3), pg_dirty = dt\<rparr>" for dt
    unfolding page_rep_def up3 img using d(2,3) fit' r by (auto simp: snoc_view_def)
  then show thesis
    using that put l3 up3 d(2) fit' by simp
qed

definition appended :: "byte list \<Rightarrow> page_view \<Rightarrow> Page \<Rightarrow> Page \<Rightarrow> bool" where
  "appended r v p p' \<longleftrightarrow> (\<exists>p3. reserve (length (pv_recs v)) (of_nat (length r)) p = Inr p3 \<and>
     p' = SetDirty (p3\<lparr>pg_data := splice (unat (upper p3)) r (pg_data p3)\<rparr>))"

lemma TablePage_InsertRecord_rep:
  assumes rep: "page_rep v p" and ok: "record_ok rec" and fit: "length (record_bytes rec) + 4 \<le> free_space v"
  obtains p' where
    "TablePage_InsertRecord rec xid cid p = Inr (of_nat (length (pv_recs v)), SetXmin xid (SetCid cid rec), p')"
    "page_rep (snoc_view (record_bytes (SetXmin xid (SetCid cid rec))) v) p'" "pg_dirty p'"
    "appended (record_bytes (SetXmin xid (SetCid cid rec))) v p p'"
proof -
  let ?rec = "SetXmin xid (SetCid cid rec)"
  let ?r = "record_bytes ?rec"
  have okr: "record_ok ?rec" using ok by (intro record_ok_setters)
  have lr: "length ?r = length (record_bytes rec)"
    by (simp add: SetXmin_def SetCid_def record_bytes_def)
  have sz: "r_size rec = of_nat (length ?r)" "r_size ?rec = of_nat (length ?r)"
    using ok okr by (simp_all add: record_ok_def lr)
  have r13: "13 \<le> length ?r" by (simp add: record_bytes_def)
  have fitr: "length ?r + 4 \<le> free_space v" using fit lr by simp
  obtain p3 where p3: "reserve (length (pv_recs v)) (of_nat (length ?r)) p = Inr p3"
    "unat (upper p3) + length ?r \<le> 256" "length (pg_data p3) = 256"
    "\<And>dt. page_rep (snoc_view ?r v) \<lparr>pg_data = splice (unat (upper p3)) ?r (pg_data p3), pg_dirty = dt\<rparr>"
    using reserve_rep [OF rep fitr r13] by metis
  let ?p' = "SetDirty (p3\<lparr>pg_data := splice (unat (upper p3)) ?r (pg_data p3)\<rparr>)"
  have rep': "page_rep (snoc_view ?r v) ?p'"
    using p3(4) [of True] by (simp add: SetDirty_def page_rep_def)
  have n: "unat (GetRecordCount p) = length (pv_recs v)"
    unfolding page_rep_count [OF rep] using page_rep_bounds(2) [OF rep] by (intro unat_of_nat_small) simp
  have cnt: "GetRecordCount ?p' - 1 = of_nat (length (pv_recs v))"
    unfolding page_rep_count [OF rep'] by (simp add: snoc_view_def)
  have ser: "Record_SerializeTo ?rec (unat (upper p3)) (pg_data p3)
      = Inr (splice (unat (upper p3)) ?r (pg_data p3), of_nat (length ?r))"
    using p3(2,3) by (intro Record_SerializeTo_eq okr) simp
  have "TablePage_InsertRecord rec xid cid p = Inr (of_nat (length (pv_recs v)), ?rec, ?p')"
    using p3(1) ser cnt n sz by (simp add: TablePage_InsertRecord_def reserve_def Let_def)
  moreover have "appended ?r v p ?p'"
    using p3(1) by (simp add: appended_def)
  ultimately show thesis
    using that rep' by (simp add: SetDirty_def)
qed

lemma RedoInsertRecord_rep:
  assumes rep: "page_rep v p" and fit: "length raw + 4 \<le> free_space v" and r: "13 \<le> length raw"
    and slot: "unat slot = length (pv_recs v)"
  obtains p' where "RedoInsertRecord slot raw off (of_nat (length raw)) p = Inr p'"
    "page_rep (snoc_view raw v) p'" "pg_dirty p'" "appended raw v p p'"
proof -
  obtain p3 where p3: "reserve (length (pv_recs v)) (of_nat (length raw)) p = Inr p3"
    "unat (upper p3) + length raw \<le> 256" "length (pg_data p3) = 256"
    "\<And>dt. page_rep (snoc_view raw v) \<lparr>pg_data = splice (unat (upper p3)) raw (pg_data p3), pg_dirty = dt\<rparr>"
    using reserve_rep [OF rep fit r] by metis
  let ?p' = "SetDirty (p3\<lparr>pg_data := splice (unat (upper p3)) raw (pg_data p3)\<rparr>)"
  have "unat (of_nat (length raw) :: db_size_t) = length raw"
    using fit by (intro unat_of_nat_small) (simp add: free_space_def)
  then have "RedoInsertRecord slot raw off (of_nat (length raw)) p = Inr ?p'"
    using p3 slot by (simp add: RedoInsertRecord_def reserve_def Let_def slice_0)
  moreover have "page_rep (snoc_view raw v) ?p'" "appended raw v p ?p'"
    using p3(4) [of True] p3(1) by (simp_all add: SetDirty_def page_rep_def appended_def)
  ultimately show thesis
    using that by (simp add: SetDirty_def)
qed

subsection \<open>Reading records back\<close>

text \<open>What \<^verbatim>\<open>GetRecord\<close> returns for a stored record: its header, its values with every null
  normalised to the untyped null value, and the rid that was asked for.\<close>

definition copy_row :: "Val list \<Rightarrow> Rid \<Rightarrow> RecordHeader \<Rightarrow> Record result" where
  "copy_row vs rid h = rbind (Record_new vs rid) (\<lambda>r. Inr (SetXmin (rh_xmin h) (SetXmax (rh_xmax h)
     (SetCid (rh_cid h) (SetDeleted (rh_deleted h) r)))))"

definition reads_as :: "Record \<Rightarrow> Rid \<Rightarrow> Record \<Rightarrow> bool" where
  "reads_as r rid r' \<longleftrightarrow> record_ok r' \<and> r_values r' = map nullify (r_values r) \<and> r_header r' = r_header r \<and> r_rid r' = rid \<and>
     copy_row (map nullify (r_values r)) rid (r_header r) = Inr r'"

lemma values_ok_nullify: "values_ok vs \<Longrightarrow> values_ok (map nullify vs)"
  by (auto simp: values_ok_def nullify_def IsNull_def Value_null_def)

lemma TablePage_GetRecord_rep:
  assumes "page_rep v p" "unat (rid_slot_id rid) < length (pv_recs v)"
    and "pv_recs v ! unat (rid_slot_id rid) = record_bytes r" "record_ok r" "columns_fit cl (r_values r)"
  obtains r' where "TablePage_GetRecord rid cl p = Inr r'" "reads_as r rid r'"
proof -
  let ?i = "unat (rid_slot_id rid)" and ?recs = "pv_recs v"
  obtain free where d: "pg_data p = page_image v free" "16 + 4 * length ?recs + length free + total_len ?recs = 256"
    using assms(1) by (auto simp: page_rep_def)
  obtain s where s: "get_slot ?i p = Inr s" "unat (slot_offset s) = rec_off ?recs ?i"
    using get_slot_rep [OF assms(1,2)] by blast
  obtain pre post where sp: "page_image v free = pre @ ?recs ! ?i @ post" "length pre = rec_off ?recs ?i"
    by (rule page_image_split [OF assms(2) d(2)])
  obtain r1 where r1: "Record_DeserializeFrom Record_default (record_bytes r @ post) cl = Inr (r1, of_nat (length (record_bytes r)))"
    "r_values r1 = map nullify (r_values r)" "r_header r1 = r_header r"
    using Record_DeserializeFrom_eq [OF assms(4,5), of post] by metis
  obtain r2 where r2: "Record_new (map nullify (r_values r)) rid = Inr r2" "record_ok r2"
    "r_values r2 = map nullify (r_values r)" "r_rid r2 = rid"
    using Record_new_ok [OF values_ok_nullify] assms(4) by (metis record_ok_def)
  let ?r' = "SetXmin (rh_xmin (r_header r)) (SetXmax (rh_xmax (r_header r))
     (SetCid (rh_cid (r_header r)) (SetDeleted (rh_deleted (r_header r)) r2)))"
  have "TablePage_GetRecord rid cl p = Inr ?r'"
    using s sp d(1) assms(3) r1 r2(1) by (simp add: TablePage_GetRecord_def)
  moreover have "reads_as r rid ?r'"
    using r2 record_ok_setters
    by (simp add: reads_as_def copy_row_def) (simp add: SetXmin_def SetXmax_def SetCid_def SetDeleted_def)
  ultimately show thesis by (rule that)
qed

subsection \<open>Stored rows\<close>

text \<open>A page whose raw records are the images of well-formed rows of a schema.\<close>

definition page_rows :: "ColumnList \<Rightarrow> Record list \<Rightarrow> page_view \<Rightarrow> bool" where
  "page_rows cl rows v \<longleftrightarrow> pv_recs v = map record_bytes rows \<and>
     (\<forall>r \<in> set rows. record_ok r \<and> columns_fit cl (r_values r))"

lemma page_rows_get:
  assumes "page_rep v p" "page_rows cl rows v" "unat (rid_slot_id rid) < length rows"
  shows "\<exists>r'. TablePage_GetRecord rid cl p = Inr r' \<and> reads_as (rows ! unat (rid_slot_id rid)) rid r'"
  using TablePage_GetRecord_rep [OF assms(1), of rid "rows ! unat (rid_slot_id rid)" cl] assms(2,3)
  by (auto simp: page_rows_def)

lemma page_rows_snoc:
  assumes "page_rows cl rows v" "record_ok r" "columns_fit cl (r_values r)"
  shows "page_rows cl (rows @ [r]) (snoc_view (record_bytes r) v)"
  using assms by (auto simp: page_rows_def snoc_view_def)

lemma raw_header_record_bytes [simp]: "raw_header (record_bytes r) = r_header r"
  unfolding record_bytes_def by (rule raw_header_bytes)

lemma with_header_record_bytes: "with_header f (record_bytes r) = record_bytes (r\<lparr>r_header := f (r_header r)\<rparr>)"
  by (simp add: with_header_def record_bytes_header_update)

lemma page_rows_header:
  assumes "page_rows cl rows v" "i < length rows"
  shows "page_rows cl (rows[i := (rows ! i)\<lparr>r_header := f (r_header (rows ! i))\<rparr>])
           (v\<lparr>pv_recs := (pv_recs v)[i := with_header f (pv_recs v ! i)]\<rparr>)"
proof -
  let ?r = "(rows ! i)\<lparr>r_header := f (r_header (rows ! i))\<rparr>"
  have wh: "with_header f (pv_recs v ! i) = record_bytes ?r"
    using assms by (simp add: page_rows_def with_header_record_bytes)
  have "record_ok ?r" "columns_fit cl (r_values ?r)"
    using assms by (auto simp: page_rows_def intro: record_ok_header_update)
  then show ?thesis
    using assms unfolding page_rows_def wh
    by (auto simp: map_update dest!: subsetD [OF set_update_subset_insert])
qed

section \<open>A sample page\<close>

text \<open>A schema with two columns, a row of it, and the page holding that row; the witnesses use them.\<close>

definition sample_cols :: ColumnList where
  "sample_cols = ColumnList_new [\<lparr>cd_name = ''id'', cd_type = TINT, cd_max_size = 4\<rparr>,
     \<lparr>cd_name = ''name'', cd_type = TVARCHAR, cd_max_size = 20\<rparr>]"

definition sample_row :: Record where
  "sample_row = UpdateSize \<lparr>r_null_bitmap = \<lparr>bm_size = 2, bm_bits = [0]\<rparr>,
     r_values = [Value_int 42, Value_string ''hua'' TVARCHAR], r_header = RecordHeader_default,
     r_rid = \<lparr>rid_page_id = 0, rid_slot_id = 0\<rparr>, r_size = 0\<rparr>"

definition sample_page :: Page where
  "sample_page = TablePage_Init \<lparr>pg_data = replicate 256 0, pg_dirty = False\<rparr>"

definition sample_page1 :: Page where
  "sample_page1 = snd (snd (projr (TablePage_InsertRecord sample_row 7 1 sample_page)))"

definition empty_view :: page_view where
  "empty_view = \<lparr>pv_lsn = 0, pv_next = NULL_PAGE_ID, pv_recs = []\<rparr>"

lemma sample_row_ok: "record_ok sample_row" "columns_fit sample_cols (r_values sample_row)"
  "length (record_bytes sample_row) = 23"
proof -
  let ?vs = "[Value_int 42, Value_string ''hua'' TVARCHAR]"
  have nn: "\<not> IsNull (Value_int 42)" "\<not> IsNull (Value_string ''hua'' TVARCHAR)"
    by (simp_all add: IsNull_def Value_int_def Value_string_def)
  have lens: "length (value_bytes (Value_int 42)) = 4" "length (value_bytes (Value_string ''hua'' TVARCHAR)) = 5"
    using nn by (simp_all add: value_bytes_def Value_SerializeTo_def union_bytes_def Value_int_def Value_string_def)
  have st: "storable (Value_int 42)" "storable (Value_string ''hua'' TVARCHAR)"
    by simp_all
  have vok: "values_ok ?vs"
    using nn lens st by (simp add: values_ok_def)
  show len: "length (record_bytes sample_row) = 23"
    using lens by (simp add: sample_row_def record_bytes_def)
  show "columns_fit sample_cols (r_values sample_row)"
    by (simp add: columns_fit_def sample_cols_def sample_row_def column_fits_def Value_int_def Value_string_def)
  have "r_size sample_row = of_nat (length (record_bytes sample_row))"
    unfolding sample_row_def by (subst UpdateSize_size) (use st in simp_all)
  then show "record_ok sample_row"
    using vok nn len by (simp add: record_ok_def sample_row_def bm_member_def All_less_Suc2 numeral_2_eq_2)
qed

lemma sample_page_rep: "page_rep empty_view sample_page" "page_rows sample_cols [] empty_view"
  "length (record_bytes sample_row) \<le> unat (GetFreeSpaceSize sample_page)"
proof -
  show rep: "page_rep empty_view sample_page"
    unfolding sample_page_def empty_view_def by (intro TablePage_Init_rep) simp
  show "page_rows sample_cols [] empty_view"
    by (simp add: page_rows_def empty_view_def)
  show "length (record_bytes sample_row) \<le> unat (GetFreeSpaceSize sample_page)"
    unfolding page_rep_free [OF rep] sample_row_ok by (simp add: free_space_def empty_view_def)
qed

lemma sample_page1_rep:
  obtains v where "page_rep v sample_page1" "page_rows sample_cols [SetXmin 7 (SetCid 1 sample_row)] v"
proof -
  have "length (record_bytes sample_row) + 4 \<le> free_space empty_view"
    unfolding sample_row_ok by (simp add: free_space_def empty_view_def)
  then obtain p' where "TablePage_InsertRecord sample_row 7 1 sample_page = Inr (0, SetXmin 7 (SetCid 1 sample_row), p')"
    "page_rep (snoc_view (record_bytes (SetXmin 7 (SetCid 1 sample_row))) empty_view) p'"
    using TablePage_InsertRecord_rep [OF sample_page_rep(1) sample_row_ok(1), of 7 1] by (auto simp: empty_view_def)
  moreover have "page_rows sample_cols ([] @ [SetXmin 7 (SetCid 1 sample_row)])
      (snoc_view (record_bytes (SetXmin 7 (SetCid 1 sample_row))) empty_view)"
    using sample_row_ok by (intro page_rows_snoc sample_page_rep record_ok_setters) simp_all
  ultimately show thesis
    using that by (simp add: sample_page1_def)
qed

section \<open>Properties\<close>

text \<open>
  A fresh page after \<^verbatim>\<open>Init\<close> stands for the empty list of rows with no successor, and
  \<^verbatim>\<open>InsertRecord\<close> on a page with room appends: it returns the next slot number, stamps the
  record with the transaction and command ids, leaves all earlier rows as they were, and a
  \<^verbatim>\<open>GetRecord\<close> of the returned slot reads the inserted row back.
\<close>

theorem TablePage_insert_appends:
  assumes "page_rep v p" "page_rows cl rows v" "record_ok rec" "columns_fit cl (r_values rec)"
    and "length (record_bytes rec) \<le> unat (GetFreeSpaceSize p)"
  shows "\<exists>p' v'. TablePage_InsertRecord rec xid cid p
             = Inr (of_nat (length rows), SetXmin xid (SetCid cid rec), p')
           \<and> page_rep v' p' \<and> page_rows cl (rows @ [SetXmin xid (SetCid cid rec)]) v'
           \<and> pv_next v' = pv_next v \<and> pv_lsn v' = pv_lsn v \<and> pg_dirty p'
           \<and> (\<forall>rid. unat (rid_slot_id rid) \<le> length rows \<longrightarrow>
                (\<exists>r'. TablePage_GetRecord rid cl p' = Inr r'
                   \<and> reads_as ((rows @ [SetXmin xid (SetCid cid rec)]) ! unat (rid_slot_id rid)) rid r'))"
proof -
  let ?rec = "SetXmin xid (SetCid cid rec)"
  have len: "length (pv_recs v) = length rows" using assms(2) by (simp add: page_rows_def)
  have "13 \<le> length (record_bytes rec)" by (simp add: record_bytes_def)
  then have fit: "length (record_bytes rec) + 4 \<le> free_space v"
    using assms(5) unfolding page_rep_free [OF assms(1)] by (simp split: if_splits)
  obtain p' where p': "TablePage_InsertRecord rec xid cid p = Inr (of_nat (length rows), ?rec, p')"
    "page_rep (snoc_view (record_bytes ?rec) v) p'" "pg_dirty p'"
    using TablePage_InsertRecord_rep [OF assms(1,3) fit, of xid cid] unfolding len by metis
  have rows: "page_rows cl (rows @ [?rec]) (snoc_view (record_bytes ?rec) v)"
    using assms(2-4) by (intro page_rows_snoc record_ok_setters) simp_all
  then show ?thesis
    using p' page_rows_get [OF p'(2) rows] by (intro exI) (auto simp: snoc_view_def)
qed

theorem TablePage_insert_appends_witness:
  "\<exists>p' v'. TablePage_InsertRecord sample_row 7 1 sample_page = Inr (0, SetXmin 7 (SetCid 1 sample_row), p')
     \<and> page_rep v' p' \<and> page_rows sample_cols [SetXmin 7 (SetCid 1 sample_row)] v'"
  using TablePage_insert_appends [OF sample_page_rep(1,2) sample_row_ok(1,2) sample_page_rep(3), of 7 1] by auto

text \<open>
  \<^verbatim>\<open>DeleteRecord\<close> changes the header of the addressed row only (deleted flag and xmax), and
  \<^verbatim>\<open>UndoDeleteRecord\<close> on the result gives back the bytes of the page before the deletion,
  provided the row was live.
\<close>

theorem TablePage_delete_undo:
  assumes "page_rep v p" "page_rows cl rows v" "unat slot < length rows"
    and "\<not> rh_deleted (r_header (rows ! unat slot))" "rh_xmax (r_header (rows ! unat slot)) = NULL_XID"
  shows "\<exists>p' v' p''. TablePage_DeleteRecord slot xid p = Inr p' \<and> page_rep v' p' \<and> pg_dirty p'
           \<and> page_rows cl (rows[unat slot := SetXmax xid (SetDeleted True (rows ! unat slot))]) v'
           \<and> UndoDeleteRecord slot p' = Inr p'' \<and> pg_data p'' = pg_data p"
proof -
  let ?i = "unat slot" and ?del = "\<lambda>h. h\<lparr>rh_deleted := True, rh_xmax := xid\<rparr>"
    and ?undel = "\<lambda>h. h\<lparr>rh_deleted := False, rh_xmax := NULL_XID\<rparr>"
  have len: "length (pv_recs v) = length rows" using assms(2) by (simp add: page_rows_def)
  let ?v' = "v\<lparr>pv_recs := (pv_recs v)[?i := with_header ?del (pv_recs v ! ?i)]\<rparr>"
  obtain p' where p': "edit_header ?del slot p = Inr p'" "pg_dirty p'" "page_rep ?v' p'"
    using edit_header_rep [OF assms(1), of slot ?del] assms(3) len by metis
  have rows': "page_rows cl (rows[?i := SetXmax xid (SetDeleted True (rows ! ?i))]) ?v'"
    using page_rows_header [OF assms(2,3), of ?del] by (simp add: SetXmax_def SetDeleted_def)
  have live: "h\<lparr>rh_deleted := False, rh_xmax := - 1\<rparr> = h" if "\<not> rh_deleted h" "rh_xmax h = - 1" for h :: RecordHeader
    using that by (cases h) simp
  have "with_header ?undel (with_header ?del (pv_recs v ! ?i)) = pv_recs v ! ?i"
    using assms(2-5)
    by (simp add: with_header_with_header page_rows_def with_header_record_bytes) (simp add: record_bytes_def live)
  then obtain p'' where "edit_header ?undel slot p' = Inr p''" "pg_data p'' = pg_data p"
    using edit_header_inverse [OF assms(1) _ p'(1)] assms(3) len by metis
  then show ?thesis
    using p' rows' by (auto simp: TablePage_DeleteRecord_def UndoDeleteRecord_def)
qed

theorem TablePage_delete_undo_witness:
  "\<exists>p' p''. TablePage_DeleteRecord 0 8 sample_page1 = Inr p' \<and> UndoDeleteRecord 0 p' = Inr p''
     \<and> pg_data p'' = pg_data sample_page1"
proof -
  obtain v where v: "page_rep v sample_page1" "page_rows sample_cols [SetXmin 7 (SetCid 1 sample_row)] v"
    by (rule sample_page1_rep)
  show ?thesis
    using TablePage_delete_undo [OF v, of 0 8]
    by (auto simp: SetXmin_def SetCid_def sample_row_def RecordHeader_default_def)
qed

text \<open>
  Replaying an insertion writes the page that the insertion wrote: \<^verbatim>\<open>RedoInsertRecord\<close> with the
  slot, the bytes and the size of the inserted record, on the page as it was before, gives the
  same bytes as \<^verbatim>\<open>InsertRecord\<close>.
\<close>

theorem RedoInsertRecord_replays:
  assumes "page_rep v p" "record_ok rec" "length (record_bytes rec) \<le> unat (GetFreeSpaceSize p)"
    and "TablePage_InsertRecord rec xid cid p = Inr (slot, rec', p')"
  shows "RedoInsertRecord slot (record_bytes rec') off (r_size rec') p = Inr p'"
proof -
  have "13 \<le> length (record_bytes rec)" by (simp add: record_bytes_def)
  then have fit: "length (record_bytes rec) + 4 \<le> free_space v"
    using assms(3) unfolding page_rep_free [OF assms(1)] by (simp split: if_splits)
  have ins: "slot = of_nat (length (pv_recs v))" "rec' = SetXmin xid (SetCid cid rec)"
    "appended (record_bytes rec') v p p'"
    using TablePage_InsertRecord_rep [OF assms(1,2) fit, of xid cid] assms(4) by (metis Inr_inject prod.inject)+
  have "record_ok rec'" unfolding ins(2) using assms(2) by (intro record_ok_setters)
  then have sz: "r_size rec' = of_nat (length (record_bytes rec'))"
    by (simp add: record_ok_def)
  have l: "length (record_bytes rec') = length (record_bytes rec)"
    by (simp add: ins(2) SetXmin_def SetCid_def record_bytes_def)
  have slot: "unat slot = length (pv_recs v)"
    unfolding ins(1) using page_rep_bounds(2) [OF assms(1)] by (intro unat_of_nat_small) simp
  obtain p1 where p1: "RedoInsertRecord slot (record_bytes rec') off (r_size rec') p = Inr p1"
    "appended (record_bytes rec') v p p1"
    using RedoInsertRecord_rep [OF assms(1) _ _ slot, of "record_bytes rec'" off] fit l sz
      \<open>13 \<le> length (record_bytes rec)\<close> by metis
  then show ?thesis
    using ins(3) by (auto simp: appended_def)
qed

theorem RedoInsertRecord_replays_witness:
  "\<exists>p'. TablePage_InsertRecord sample_row 7 1 sample_page = Inr (0, SetXmin 7 (SetCid 1 sample_row), p')
     \<and> RedoInsertRecord 0 (record_bytes (SetXmin 7 (SetCid 1 sample_row))) 0 (r_size sample_row) sample_page = Inr p'"
proof -
  have "length (record_bytes sample_row) + 4 \<le> free_space empty_view"
    unfolding sample_row_ok by (simp add: free_space_def empty_view_def)
  then obtain p' where ins: "TablePage_InsertRecord sample_row 7 1 sample_page = Inr (0, SetXmin 7 (SetCid 1 sample_row), p')"
    using TablePage_InsertRecord_rep [OF sample_page_rep(1) sample_row_ok(1), of 7 1] by (auto simp: empty_view_def)
  show ?thesis
    using RedoInsertRecord_replays [OF sample_page_rep(1) sample_row_ok(1) sample_page_rep(3) ins, of 0] ins by simp
qed

end
