(* ===== verification/Buffer_Pool.thy ===== *)
theory Buffer_Pool
  imports Log_Core Lru_Strategy Table_Pages
begin

text \<open>
  \<^verbatim>\<open>src/src/storage/buffer_pool.cpp\<close>: the page cache. A \<^verbatim>\<open>shared_ptr<Page>\<close> is a reference into a heap of
  pages, since the callers hold and change pages while the pool may drop them from its frames;
  references are never reused. A page made by \<^verbatim>\<open>new char[DB_PAGE_SIZE]\<close> has arbitrary contents:
  \<open>pe_fresh\<close> gives them for the n-th allocation.
\<close>

section \<open>State\<close>

record BufferPoolEntry =
  be_db :: oid_t
  be_table :: oid_t
  be_page :: pageid_t
  be_ref :: nat

record BufferPool =
  bp_strategy :: "nat list"
  bp_buffers :: "BufferPoolEntry list"
  bp_hashmap :: "TablePageid \<rightharpoonup> nat"
  bp_sys_buffers :: "BufferPoolEntry list"
  bp_sys_hashmap :: "TablePageid \<rightharpoonup> nat"

record PoolEnv =
  pe_log :: LogEnv
  pe_pool :: BufferPool
  pe_heap :: "Page list"
  pe_fresh :: "nat \<Rightarrow> byte list"

definition BufferPool_new :: BufferPool where
  "BufferPool_new = \<lparr>bp_strategy = [], bp_buffers = [], bp_hashmap = Map.empty, bp_sys_buffers = [],
     bp_sys_hashmap = Map.empty\<rparr>"

abbreviation pe_disk :: "PoolEnv \<Rightarrow> Disk" where
  "pe_disk s \<equiv> le_disk (pe_log s)"

definition in_log :: "(LogEnv, 'a) em \<Rightarrow> (PoolEnv, 'a) em" where
  "in_log = ezoom pe_log (\<lambda>l s. s\<lparr>pe_log := l\<rparr>)"

definition in_disk :: "(Disk, 'a) em \<Rightarrow> (PoolEnv, 'a) em" where
  "in_disk m = in_log (on_disk m)"

definition upd_pool :: "(BufferPool \<Rightarrow> BufferPool) \<Rightarrow> (PoolEnv, unit) em" where
  "upd_pool f = emodify (\<lambda>s. s\<lparr>pe_pool := f (pe_pool s)\<rparr>)"

text \<open>\<^verbatim>\<open>std::make_shared<Page>()\<close>, and the access to a page through a reference.\<close>

definition make_page :: "byte list \<Rightarrow> (PoolEnv, nat) em" where
  "make_page data s = (Inr (length (pe_heap s)), s\<lparr>pe_heap := pe_heap s @ [\<lparr>pg_data = data, pg_dirty = False\<rparr>]\<rparr>)"

definition page_of :: "nat \<Rightarrow> PoolEnv \<Rightarrow> Page" where
  "page_of r s = pe_heap s ! r"

definition set_page :: "nat \<Rightarrow> Page \<Rightarrow> (PoolEnv, unit) em" where
  "set_page r p = emodify (\<lambda>s. s\<lparr>pe_heap := (pe_heap s)[r := p]\<rparr>)"

section \<open>Operations\<close>

definition entry_key :: "BufferPoolEntry \<Rightarrow> TablePageid" where
  "entry_key b = \<lparr>tp_table_oid = be_table b, tp_page_id = be_page b\<rparr>"

definition BufferPool_FlushPage :: "nat \<Rightarrow> (PoolEnv, unit) em" where
  "BufferPool_FlushPage frame_id s =
     (if frame_id \<ge> length (bp_buffers (pe_pool s)) then (Inl (Undefined ''vector index out of range''), s)
      else let b = bp_buffers (pe_pool s) ! frame_id;
               p = page_of (be_ref b) s
           in ebind (if pg_dirty p
                     then ebind (in_log (LogManager_FlushPage (be_table b) (be_page b) (page_lsn p))) (\<lambda>_.
                          if be_db b = SYSTEM_DATABASE_OID
                          then ethrow (AssertFail ''db_oid_ != SYSTEM_DATABASE_OID'')
                          else in_disk (WritePage (GetFilePath (be_db b) (be_table b)) (be_page b) (pg_data p)))
                     else eret ())
                (\<lambda>_. upd_pool (\<lambda>q. q\<lparr>bp_hashmap := (bp_hashmap q)(entry_key b := None)\<rparr>)) s)"

definition FlushSysTablePage :: "nat \<Rightarrow> (PoolEnv, unit) em" where
  "FlushSysTablePage frame_id s =
     (if frame_id \<ge> length (bp_sys_buffers (pe_pool s)) then (Inl (Undefined ''vector index out of range''), s)
      else let b = bp_sys_buffers (pe_pool s) ! frame_id;
               p = page_of (be_ref b) s
           in ebind (if pg_dirty p
                     then if be_db b \<noteq> SYSTEM_DATABASE_OID
                          then ethrow (AssertFail ''db_oid_ == SYSTEM_DATABASE_OID'')
                          else in_disk (WritePage (GetFilePath (be_db b) (be_table b)) (be_page b) (pg_data p))
                     else eret ())
                (\<lambda>_. upd_pool (\<lambda>q. q\<lparr>bp_sys_hashmap := (bp_sys_hashmap q)(entry_key b := None)\<rparr>)) s)"

definition AddToBuffer :: "oid_t \<Rightarrow> oid_t \<Rightarrow> pageid_t \<Rightarrow> nat \<Rightarrow> (PoolEnv, unit) em" where
  "AddToBuffer db_oid table_oid page_id ref =
     (let b = \<lparr>be_db = db_oid, be_table = table_oid, be_page = page_id, be_ref = ref\<rparr>
      in if db_oid = SYSTEM_DATABASE_OID
         then upd_pool (\<lambda>q. q\<lparr>bp_sys_hashmap := (bp_sys_hashmap q)(entry_key b \<mapsto> length (bp_sys_buffers q)),
                              bp_sys_buffers := bp_sys_buffers q @ [b]\<rparr>)
         else ebind (eget (\<lambda>s. length (bp_buffers (pe_pool s)))) (\<lambda>n.
              if n = BUFFER_SIZE
              then ebind (eget (\<lambda>s. bp_strategy (pe_pool s))) (\<lambda>vec.
                   ebind (elift (Evict vec)) (\<lambda>(victim, vec').
                   ebind (upd_pool (\<lambda>q. q\<lparr>bp_strategy := vec'\<rparr>)) (\<lambda>_.
                   ebind (BufferPool_FlushPage victim) (\<lambda>_.
                     upd_pool (\<lambda>q. q\<lparr>bp_strategy := Access victim (bp_strategy q),
                                     bp_buffers := (bp_buffers q)[victim := b],
                                     bp_hashmap := (bp_hashmap q)(entry_key b \<mapsto> victim)\<rparr>)))))
              else upd_pool (\<lambda>q. q\<lparr>bp_strategy := Access n (bp_strategy q),
                                   bp_hashmap := (bp_hashmap q)(entry_key b \<mapsto> n),
                                   bp_buffers := bp_buffers q @ [b]\<rparr>)))"

definition GetPage :: "oid_t \<Rightarrow> oid_t \<Rightarrow> pageid_t \<Rightarrow> (PoolEnv, nat) em" where
  "GetPage db_oid table_oid page_id s =
     (let sys = (db_oid = SYSTEM_DATABASE_OID);
          buffers = (if sys then bp_sys_buffers else bp_buffers) (pe_pool s);
          hashmap = (if sys then bp_sys_hashmap else bp_hashmap) (pe_pool s)
      in case hashmap \<lparr>tp_table_oid = table_oid, tp_page_id = page_id\<rparr> of
           None \<Rightarrow>
             ebind (in_disk (ReadPage (GetFilePath db_oid table_oid) page_id)) (\<lambda>data.
             ebind (make_page data) (\<lambda>ref.
             ebind (AddToBuffer db_oid table_oid page_id ref) (\<lambda>_.
               eret ref))) s
         | Some i \<Rightarrow>
             if i \<ge> length buffers then (Inl (Undefined ''vector index out of range''), s)
             else ebind (if sys then eret () else upd_pool (\<lambda>q. q\<lparr>bp_strategy := Access i (bp_strategy q)\<rparr>))
                    (\<lambda>_. eret (be_ref (buffers ! i))) s)"

definition NewPage :: "oid_t \<Rightarrow> oid_t \<Rightarrow> pageid_t \<Rightarrow> (PoolEnv, nat) em" where
  "NewPage db_oid table_oid page_id =
     ebind (\<lambda>s. make_page (pe_fresh s (length (pe_heap s))) s) (\<lambda>ref.
     ebind (AddToBuffer db_oid table_oid page_id ref) (\<lambda>_.
       eret ref))"

definition BufferPool_Flush :: "bool \<Rightarrow> (PoolEnv, unit) em" where
  "BufferPool_Flush regular_only =
     ebind (\<lambda>s. efor BufferPool_FlushPage [0..<length (bp_buffers (pe_pool s))] s) (\<lambda>_.
     ebind (upd_pool (\<lambda>q. q\<lparr>bp_buffers := []\<rparr>)) (\<lambda>_.
       if regular_only then eret ()
       else ebind (\<lambda>s. efor FlushSysTablePage [0..<length (bp_sys_buffers (pe_pool s))] s) (\<lambda>_.
              upd_pool (\<lambda>q. q\<lparr>bp_sys_buffers := []\<rparr>))))"

definition BufferPool_Clear :: "(PoolEnv, unit) em" where
  "BufferPool_Clear = upd_pool (\<lambda>q. q\<lparr>bp_buffers := [], bp_hashmap := Map.empty, bp_sys_buffers := [],
                                       bp_sys_hashmap := Map.empty\<rparr>)"

section \<open>The invariant\<close>

definition entry_disk_key :: "BufferPoolEntry \<Rightarrow> page_key" where
  "entry_disk_key b = (be_db b, be_table b, be_page b)"

text \<open>The hash map points exactly to the frames.\<close>

definition map_ok :: "BufferPoolEntry list \<Rightarrow> (TablePageid \<rightharpoonup> nat) \<Rightarrow> bool" where
  "map_ok buffers hm \<longleftrightarrow> (\<forall>k i. hm k = Some i \<longleftrightarrow> i < length buffers \<and> entry_key (buffers ! i) = k)"

text \<open>
  A frame holds a live page of the right size whose table file exists, and a clean page agrees with
  the disk; pages in \<open>X\<close>, just allocated and not yet initialised, are exempt from the last part.
\<close>

definition frame_ok :: "nat set \<Rightarrow> Disk \<Rightarrow> Page list \<Rightarrow> BufferPoolEntry \<Rightarrow> bool" where
  "frame_ok X d heap b \<longleftrightarrow> be_ref b < length heap \<and> length (pg_data (heap ! be_ref b)) = 256 \<and>
     disk_writable d (entry_disk_key b) \<and>
     (be_ref b \<notin> X \<longrightarrow> pg_dirty (heap ! be_ref b) \<or> disk_content d (entry_disk_key b) = Some (pg_data (heap ! be_ref b)))"

definition frames :: "PoolEnv \<Rightarrow> BufferPoolEntry list" where
  "frames s = bp_buffers (pe_pool s) @ bp_sys_buffers (pe_pool s)"

definition frames_inv :: "nat set \<Rightarrow> PoolEnv \<Rightarrow> bool" where
  "frames_inv X s \<longleftrightarrow>
     (\<forall>b \<in> set (frames s). frame_ok X (pe_disk s) (pe_heap s) b) \<and> distinct (map be_ref (frames s)) \<and>
     (\<forall>b \<in> set (bp_buffers (pe_pool s)). be_db b \<noteq> SYSTEM_DATABASE_OID) \<and>
     (\<forall>b \<in> set (bp_sys_buffers (pe_pool s)). be_db b = SYSTEM_DATABASE_OID) \<and>
     length (bp_buffers (pe_pool s)) \<le> BUFFER_SIZE \<and> log_good (pe_log s) \<and> (\<forall>n. length (pe_fresh s n) = 256)"

definition strategy_ok :: "BufferPool \<Rightarrow> bool" where
  "strategy_ok q \<longleftrightarrow> distinct (bp_strategy q) \<and> {0..<length (bp_buffers q)} \<subseteq> set (bp_strategy q) \<and>
     set (bp_strategy q) \<subseteq> {0..<BUFFER_SIZE}"

definition pool_inv :: "nat set \<Rightarrow> PoolEnv \<Rightarrow> bool" where
  "pool_inv X s \<longleftrightarrow> frames_inv X s \<and> strategy_ok (pe_pool s) \<and>
     map_ok (bp_buffers (pe_pool s)) (bp_hashmap (pe_pool s)) \<and>
     map_ok (bp_sys_buffers (pe_pool s)) (bp_sys_hashmap (pe_pool s))"

section \<open>The view through the cache\<close>

text \<open>What a page reads as: its frame if it is cached, the disk otherwise.\<close>

definition frame_ref :: "PoolEnv \<Rightarrow> page_key \<Rightarrow> nat option" where
  "frame_ref s k = map_of (map (\<lambda>b. (entry_disk_key b, be_ref b)) (frames s)) k"

definition pool_view :: "PoolEnv \<Rightarrow> page_key \<Rightarrow> byte list option" where
  "pool_view s k = (case frame_ref s k of Some r \<Rightarrow> Some (pg_data (page_of r s)) | None \<Rightarrow> disk_content (pe_disk s) k)"

text \<open>No frame holds the page under another database: the hash map is keyed by table and page only.\<close>

definition consistent :: "PoolEnv \<Rightarrow> page_key \<Rightarrow> bool" where
  "consistent s k \<longleftrightarrow> (\<forall>b \<in> set (frames s). (be_db b = SYSTEM_DATABASE_OID \<longleftrightarrow> fst k = SYSTEM_DATABASE_OID) \<and>
     be_table b = fst (snd k) \<and> be_page b = snd (snd k) \<longrightarrow> be_db b = fst k)"

lemma map_ok_distinct: "map_ok bs hm \<Longrightarrow> distinct (map entry_key bs)"
  unfolding map_ok_def distinct_conv_nth by (metis length_map nth_map option.inject)

lemma entry_key_eq: "entry_key b = entry_key c \<longleftrightarrow> be_table b = be_table c \<and> be_page b = be_page c"
  by (simp add: entry_key_def)

lemma frames_keys_distinct:
  assumes "pool_inv X s"
  shows "distinct (map entry_disk_key (frames s))"
proof -
  have inj: "distinct (map entry_disk_key bs)" if "distinct (map entry_key bs)" for bs
    using that by (auto simp: distinct_map inj_on_def entry_disk_key_def entry_key_def)
  have "entry_disk_key b \<noteq> entry_disk_key c"
    if "b \<in> set (bp_buffers (pe_pool s))" "c \<in> set (bp_sys_buffers (pe_pool s))" for b c
    using assms that by (auto simp: pool_inv_def frames_inv_def entry_disk_key_def)
  then have "entry_disk_key ` set (bp_buffers (pe_pool s)) \<inter> entry_disk_key ` set (bp_sys_buffers (pe_pool s)) = {}"
    by blast
  then show ?thesis
    using assms inj [OF map_ok_distinct] unfolding frames_def pool_inv_def map_append distinct_append by auto
qed

lemma frame_ref_iff:
  assumes "distinct (map entry_disk_key (frames s))"
  shows "frame_ref s k = Some r \<longleftrightarrow> (\<exists>b \<in> set (frames s). entry_disk_key b = k \<and> be_ref b = r)"
proof -
  have "distinct (map fst (map (\<lambda>b. (entry_disk_key b, be_ref b)) (frames s)))"
    using assms by (simp add: comp_def)
  then show ?thesis
    unfolding frame_ref_def by (auto simp: map_of_eq_Some_iff)
qed

lemma frame_ref_None: "frame_ref s k = None \<longleftrightarrow> (\<forall>b \<in> set (frames s). entry_disk_key b \<noteq> k)"
  by (auto simp: frame_ref_def map_of_eq_None_iff image_image)

lemma pool_view_frame:
  assumes "pool_inv X s" "b \<in> set (frames s)"
  shows "pool_view s (entry_disk_key b) = Some (pg_data (page_of (be_ref b) s))"
  using frame_ref_iff [OF frames_keys_distinct [OF assms(1)], of "entry_disk_key b" "be_ref b"] assms(2)
  by (auto simp: pool_view_def)

lemma pool_view_disk:
  "\<forall>b \<in> set (frames s). entry_disk_key b \<noteq> k \<Longrightarrow> pool_view s k = disk_content (pe_disk s) k"
  using frame_ref_None [of s k] by (simp add: pool_view_def)

section \<open>Flushing a frame\<close>

lemma log_rep_disk:
  assumes "log_rep base fl e" "disk_rest d' = disk_rest (le_disk e)"
  shows "log_rep base fl (e\<lparr>le_disk := d'\<rparr>)"
proof -
  have r: "dk_log d' = dk_log (le_disk e)" "dk_log_fail d' = dk_log_fail (le_disk e)"
    "dk_segments d' = dk_segments (le_disk e)" "dk_names d' = dk_names (le_disk e)" "dk_dirs d' = dk_dirs (le_disk e)"
    "plain_file d' = plain_file (le_disk e)"
    using assms(2) by (simp_all add: disk_rest_def)
  have "plain_file d' NEXT_LSN_NAME = plain_file (le_disk e) NEXT_LSN_NAME" using r(6) by simp
  then have "next_lsn_file d' = next_lsn_file (le_disk e)"
    using r(4) by (auto simp: next_lsn_file_def FileExists_def read_number_def plain_file_def split: option.splits)
  then show ?thesis
    using assms(1) log_core_disk [of base fl e d'] r by (simp add: log_rep_def DirectoryExists_def)
qed

lemma log_good_disk:
  assumes "log_good e" "disk_ok d'" "disk_rest d' = disk_rest (le_disk e)"
  shows "log_good (e\<lparr>le_disk := d'\<rparr>)"
proof -
  obtain base fl where inv: "log_inv base e" "log_rep base fl e" "chain_inv fl (le_log e)"
    using assms(1) by (auto simp: log_good_def log_inv_def)
  have "dk_dirs d' = dk_dirs (le_disk e)" using assms(3) by (simp add: disk_rest_def)
  then show ?thesis
    using inv assms(2) log_rep_disk [OF inv(2) assms(3)] by (auto simp: log_good_def log_inv_def DirectoryExists_def)
qed

lemma log_kept_disk: "disk_rest d' = disk_rest (le_disk e) \<Longrightarrow> log_kept e (e\<lparr>le_disk := d'\<rparr>)"
  using log_rep_disk [of _ _ e d'] by (auto simp: log_kept_def log_hist_def disk_rest_def)

lemma log_good_disk_ok: "log_good e \<Longrightarrow> disk_ok (le_disk e)"
  by (auto simp: log_good_def log_inv_def)

text \<open>A block written through the log environment.\<close>

lemma in_disk_write:
  assumes "log_good (pe_log s)" "disk_writable (pe_disk s) k" "length b = 256"
  obtains s' where "in_disk (WritePage (key_path k) (snd (snd k)) b) s = (Inr (), s')" "log_good (pe_log s')"
    "disk_writable (pe_disk s') = disk_writable (pe_disk s)" "disk_content (pe_disk s') k = Some b"
    "\<forall>k' c. k' \<noteq> k \<longrightarrow> disk_content (pe_disk s) k' = Some c \<longrightarrow> disk_content (pe_disk s') k' = Some c"
    "s' = s\<lparr>pe_log := pe_log s'\<rparr>" "log_kept (pe_log s) (pe_log s')"
proof -
  obtain d' where d': "disk_write k b (pe_disk s) = (Inr (), d')" "disk_ok d'"
    "disk_writable d' = disk_writable (pe_disk s)" "disk_rest d' = disk_rest (pe_disk s)" "disk_content d' k = Some b"
    "\<forall>k' c. k' \<noteq> k \<longrightarrow> disk_content (pe_disk s) k' = Some c \<longrightarrow> disk_content d' k' = Some c"
    using dsk.wr_ok [OF log_good_disk_ok [OF assms(1)] assms(2,3)] by blast
  let ?s' = "s\<lparr>pe_log := (pe_log s)\<lparr>le_disk := d'\<rparr>\<rparr>"
  have "in_disk (WritePage (key_path k) (snd (snd k)) b) s = (Inr (), ?s')"
    using d'(1) by (simp add: in_disk_def in_log_def on_disk_def ezoom_def disk_write_def)
  then show thesis
    using that [of ?s'] d' log_good_disk [OF assms(1) d'(2,4)] log_kept_disk [OF d'(4)] by simp
qed

lemma in_log_force:
  assumes "log_good (pe_log s)"
  obtains s' where "in_log (LogManager_FlushPage oid pid lsn) s = (Inr (), s')" "log_good (pe_log s')"
    "disk_writable (pe_disk s') = disk_writable (pe_disk s)" "disk_content (pe_disk s') = disk_content (pe_disk s)"
    "s' = s\<lparr>pe_log := pe_log s'\<rparr>" "log_kept (pe_log s) (pe_log s')"
proof -
  obtain e' where e': "force_page (oid, pid) lsn (pe_log s) = (Inr (), e')" "log_good e'" "pages_kept (pe_disk s) (le_disk e')"
    "log_kept (pe_log s) e'"
    using wal.force_ok [OF assms, of "(oid, pid)" lsn] by blast
  have "in_log (LogManager_FlushPage oid pid lsn) s = (Inr (), s\<lparr>pe_log := e'\<rparr>)"
    using e'(1) by (simp add: in_log_def ezoom_def force_page_def)
  then show thesis
    using that [of "s\<lparr>pe_log := e'\<rparr>"] e' log_good_disk_ok [OF assms] by (simp add: pages_kept_def)
qed

text \<open>Flushing a frame writes it to the disk unless it agrees with the disk already.\<close>

lemma BufferPool_FlushPage_ok:
  assumes inv: "frames_inv X s" and i: "i < length (bp_buffers (pe_pool s))"
  defines "b \<equiv> bp_buffers (pe_pool s) ! i"
  assumes x: "be_ref b \<notin> X"
  obtains s' where "BufferPool_FlushPage i s = (Inr (), s')" "log_good (pe_log s')"
    "disk_writable (pe_disk s') = disk_writable (pe_disk s)"
    "disk_content (pe_disk s') (entry_disk_key b) = Some (pg_data (page_of (be_ref b) s))"
    "\<forall>k c. k \<noteq> entry_disk_key b \<longrightarrow> disk_content (pe_disk s) k = Some c \<longrightarrow> disk_content (pe_disk s') k = Some c"
    "s' = s\<lparr>pe_log := pe_log s', pe_pool := (pe_pool s)\<lparr>bp_hashmap := (bp_hashmap (pe_pool s))(entry_key b := None)\<rparr>\<rparr>"
    "log_kept (pe_log s) (pe_log s')"
proof -
  let ?p = "page_of (be_ref b) s" and ?hm = "(bp_hashmap (pe_pool s))(entry_key b := None)"
  have bs: "b \<in> set (bp_buffers (pe_pool s))" "b \<in> set (frames s)" using i by (simp_all add: b_def frames_def)
  have fo: "length (pg_data ?p) = 256" "disk_writable (pe_disk s) (entry_disk_key b)"
    "pg_dirty ?p \<or> disk_content (pe_disk s) (entry_disk_key b) = Some (pg_data ?p)"
    and lg: "log_good (pe_log s)" and db: "be_db b \<noteq> SYSTEM_DATABASE_OID"
    using inv bs x by (auto simp: frames_inv_def frame_ok_def page_of_def)
  show thesis
  proof (cases "pg_dirty ?p")
    case True
    obtain s1 where s1: "in_log (LogManager_FlushPage (be_table b) (be_page b) (page_lsn ?p)) s = (Inr (), s1)"
      "log_good (pe_log s1)" "disk_writable (pe_disk s1) = disk_writable (pe_disk s)"
      "disk_content (pe_disk s1) = disk_content (pe_disk s)" "s1 = s\<lparr>pe_log := pe_log s1\<rparr>" "log_kept (pe_log s) (pe_log s1)"
      by (rule in_log_force [OF lg])
    have w1: "disk_writable (pe_disk s1) (entry_disk_key b)" using fo(2) s1(3) by simp
    obtain s2 where s2: "in_disk (WritePage (key_path (entry_disk_key b)) (snd (snd (entry_disk_key b))) (pg_data ?p)) s1 = (Inr (), s2)"
      "log_good (pe_log s2)" "disk_writable (pe_disk s2) = disk_writable (pe_disk s1)"
      "disk_content (pe_disk s2) (entry_disk_key b) = Some (pg_data ?p)"
      "\<forall>k' c. k' \<noteq> entry_disk_key b \<longrightarrow> disk_content (pe_disk s1) k' = Some c \<longrightarrow> disk_content (pe_disk s2) k' = Some c"
      "s2 = s1\<lparr>pe_log := pe_log s2\<rparr>" "log_kept (pe_log s1) (pe_log s2)"
      by (rule in_disk_write [OF s1(2) w1 fo(1)])
    have pool: "pe_pool s2 = pe_pool s" by (subst s2(6), subst s1(5)) simp
    have all: "s2 = s\<lparr>pe_log := pe_log s2\<rparr>" by (subst s2(6), subst s1(5)) simp
    let ?s' = "s2\<lparr>pe_pool := (pe_pool s)\<lparr>bp_hashmap := ?hm\<rparr>\<rparr>"
    have "BufferPool_FlushPage i s = (Inr (), ?s')"
      using i True s1(1) s2(1) db pool
      by (simp add: BufferPool_FlushPage_def b_def [symmetric] ebind_def upd_pool_def entry_disk_key_def key_path_def)
    moreover have "?s' = s\<lparr>pe_log := pe_log ?s', pe_pool := (pe_pool s)\<lparr>bp_hashmap := ?hm\<rparr>\<rparr>"
      by (subst all) simp
    ultimately show ?thesis
      using that [of ?s'] s1(1-4) s2(1-5) log_kept_trans [OF s1(6) s2(7)] by simp
  next
    case False
    let ?s' = "s\<lparr>pe_pool := (pe_pool s)\<lparr>bp_hashmap := ?hm\<rparr>\<rparr>"
    have "BufferPool_FlushPage i s = (Inr (), ?s')"
      using i False by (simp add: BufferPool_FlushPage_def b_def [symmetric] upd_pool_def)
    then show ?thesis
      using that [of ?s'] lg fo(3) False by simp
  qed
qed

section \<open>Adding a page\<close>

lemma map_ok_append:
  assumes "map_ok bs hm" "hm (entry_key b) = None"
  shows "map_ok (bs @ [b]) (hm(entry_key b \<mapsto> length bs))"
proof -
  have m: "hm k = Some j \<longleftrightarrow> j < length bs \<and> entry_key (bs ! j) = k" for k j
    using assms(1) by (simp add: map_ok_def)
  have "\<not> (j < length bs \<and> entry_key (bs ! j) = entry_key b)" for j
    using m [of "entry_key b" j] assms(2) by simp
  then show ?thesis
    unfolding map_ok_def by (auto simp: m nth_append less_Suc_eq)
qed

lemma map_ok_replace:
  assumes "map_ok bs hm" "hm (entry_key b) = None" "v < length bs"
  shows "map_ok (bs[v := b]) (hm(entry_key (bs ! v) := None, entry_key b \<mapsto> v))"
  unfolding map_ok_def
proof (intro allI)
  fix k i
  have m: "hm k = Some j \<longleftrightarrow> j < length bs \<and> entry_key (bs ! j) = k" for k j
    using assms(1) by (simp add: map_ok_def)
  have hv: "hm (entry_key (bs ! v)) = Some v" using m assms(3) by simp
  show "(hm(entry_key (bs ! v) := None, entry_key b \<mapsto> v)) k = Some i \<longleftrightarrow>
      i < length (bs[v := b]) \<and> entry_key (bs[v := b] ! i) = k"
  proof (cases "i = v")
    case True
    then show ?thesis using m [of k v] assms(3) hv by auto
  next
    case False
    then show ?thesis using m [of k i] m [of "entry_key b" i] assms(2) hv by auto
  qed
qed

lemma pool_view_add:
  assumes inv: "pool_inv Y s" and inv': "pool_inv X s'" and heap: "\<And>b. b \<in> set (frames s) \<Longrightarrow> page_of (be_ref b) s' = page_of (be_ref b) s"
    and F: "set (frames s') = insert b (set (frames s) - E)" "E \<subseteq> set (frames s)"
    and C: "\<forall>v \<in> E. disk_content (pe_disk s') (entry_disk_key v) = Some (pg_data (page_of (be_ref v) s))"
    and D: "\<forall>k c. k \<notin> entry_disk_key ` E \<longrightarrow> disk_content (pe_disk s) k = Some c \<longrightarrow> disk_content (pe_disk s') k = Some c"
    and k: "k \<noteq> entry_disk_key b" "pool_view s k = Some c"
  shows "pool_view s' k = Some c"
proof -
  consider (kept) f where "f \<in> set (frames s) - E" "entry_disk_key f = k"
    | (gone) f where "f \<in> E" "entry_disk_key f = k" "\<forall>g \<in> set (frames s'). entry_disk_key g \<noteq> k"
    | (none) "\<forall>g \<in> set (frames s). entry_disk_key g \<noteq> k" "\<forall>g \<in> set (frames s'). entry_disk_key g \<noteq> k"
  proof -
    have inj: "inj_on entry_disk_key (set (frames s))"
      using frames_keys_distinct [OF inv] by (simp add: distinct_map)
    show thesis
    proof (cases "\<exists>f \<in> set (frames s). entry_disk_key f = k")
      case True
      then obtain f where f: "f \<in> set (frames s)" "entry_disk_key f = k" by blast
      show thesis
      proof (cases "f \<in> E")
        case True
        have "\<forall>g \<in> set (frames s'). entry_disk_key g \<noteq> k"
          using F f k(1) True inj by (auto simp: inj_on_def)
        then show thesis using gone True f(2) by blast
      next
        case False
        then show thesis using kept f by blast
      qed
    next
      case False
      then show thesis using none F(1) k(1) by auto
    qed
  qed
  then show ?thesis
  proof cases
    case kept
    then have "pool_view s' k = Some (pg_data (page_of (be_ref f) s'))" "pool_view s k = Some (pg_data (page_of (be_ref f) s))"
      using pool_view_frame [OF inv', of f] pool_view_frame [OF inv, of f] F(1) by auto
    then show ?thesis using heap [of f] kept k(2) by simp
  next
    case gone
    then have "pool_view s k = Some (pg_data (page_of (be_ref f) s))"
      using pool_view_frame [OF inv, of f] F(2) by auto
    then show ?thesis using gone C k(2) pool_view_disk [of s' k] by auto
  next
    case none
    then have "disk_content (pe_disk s) k = Some c" "pool_view s' k = disk_content (pe_disk s') k"
      using k(2) pool_view_disk by metis+
    moreover have "k \<notin> entry_disk_key ` E" using none(1) F(2) by blast
    ultimately show ?thesis using D by simp
  qed
qed

text \<open>The page and the key a new frame is made from.\<close>

definition addable :: "nat set \<Rightarrow> PoolEnv \<Rightarrow> BufferPoolEntry \<Rightarrow> bool" where
  "addable X s b \<longleftrightarrow> frame_ok X (pe_disk s) (pe_heap s) b \<and> X \<subseteq> {be_ref b} \<and> be_ref b \<notin> be_ref ` set (frames s) \<and>
     (if be_db b = SYSTEM_DATABASE_OID then bp_sys_hashmap else bp_hashmap) (pe_pool s) (entry_key b) = None"

definition added :: "nat set \<Rightarrow> PoolEnv \<Rightarrow> BufferPoolEntry \<Rightarrow> PoolEnv \<Rightarrow> bool" where
  "added X s b s' \<longleftrightarrow> pool_inv X s' \<and> pe_heap s' = pe_heap s \<and> pe_fresh s' = pe_fresh s \<and> b \<in> set (frames s') \<and>
     set (frames s') \<subseteq> insert b (set (frames s)) \<and> disk_writable (pe_disk s') = disk_writable (pe_disk s) \<and>
     log_kept (pe_log s) (pe_log s') \<and>
     (\<forall>k c. k \<noteq> entry_disk_key b \<longrightarrow> pool_view s k = Some c \<longrightarrow> pool_view s' k = Some c)"

lemma frame_ok_weaken: "frame_ok {} d h b \<Longrightarrow> frame_ok X d h b"
  by (auto simp: frame_ok_def)

lemma AddToBuffer_sys:
  assumes inv: "pool_inv {} s" and b: "addable X s b" and sys: "be_db b = SYSTEM_DATABASE_OID"
  obtains s' where "AddToBuffer (be_db b) (be_table b) (be_page b) (be_ref b) s = (Inr (), s')" "added X s b s'"
proof -
  let ?q = "pe_pool s"
  let ?s' = "s\<lparr>pe_pool := ?q\<lparr>bp_sys_hashmap := (bp_sys_hashmap ?q)(entry_key b \<mapsto> length (bp_sys_buffers ?q)),
                              bp_sys_buffers := bp_sys_buffers ?q @ [b]\<rparr>\<rparr>"
  have be: "\<lparr>be_db = be_db b, be_table = be_table b, be_page = be_page b, be_ref = be_ref b\<rparr> = b" by simp
  have run: "AddToBuffer (be_db b) (be_table b) (be_page b) (be_ref b) s = (Inr (), ?s')"
    unfolding AddToBuffer_def be Let_def using sys by (simp add: upd_pool_def)
  have fr: "set (frames ?s') = insert b (set (frames s) - {})" by (auto simp: frames_def)
  have "pool_inv X ?s'"
    using inv b sys map_ok_append [of "bp_sys_buffers ?q" "bp_sys_hashmap ?q" b] frame_ok_weaken
    by (auto simp: pool_inv_def frames_inv_def strategy_ok_def addable_def frames_def)
  moreover from pool_view_add [OF inv this _ fr]
  have "\<forall>k c. k \<noteq> entry_disk_key b \<longrightarrow> pool_view s k = Some c \<longrightarrow> pool_view ?s' k = Some c"
    by (auto simp: page_of_def)
  ultimately have "added X s b ?s'" using fr by (auto simp: added_def)
  then show thesis using that run by blast
qed

lemma AddToBuffer_free:
  assumes inv: "pool_inv {} s" and b: "addable X s b" and sys: "be_db b \<noteq> SYSTEM_DATABASE_OID"
    and room: "length (bp_buffers (pe_pool s)) \<noteq> BUFFER_SIZE"
  obtains s' where "AddToBuffer (be_db b) (be_table b) (be_page b) (be_ref b) s = (Inr (), s')" "added X s b s'"
proof -
  let ?q = "pe_pool s" and ?n = "length (bp_buffers (pe_pool s))"
  let ?s' = "s\<lparr>pe_pool := ?q\<lparr>bp_strategy := Access ?n (bp_strategy ?q), bp_hashmap := (bp_hashmap ?q)(entry_key b \<mapsto> ?n),
                              bp_buffers := bp_buffers ?q @ [b]\<rparr>\<rparr>"
  have be: "\<lparr>be_db = be_db b, be_table = be_table b, be_page = be_page b, be_ref = be_ref b\<rparr> = b" by simp
  have run: "AddToBuffer (be_db b) (be_table b) (be_page b) (be_ref b) s = (Inr (), ?s')"
    unfolding AddToBuffer_def be Let_def using sys room by (simp add: upd_pool_def ebind_def)
  have fr: "set (frames ?s') = insert b (set (frames s) - {})" by (auto simp: frames_def)
  have n: "?n < BUFFER_SIZE" using inv room by (simp add: pool_inv_def frames_inv_def)
  have st: "strategy_ok (pe_pool ?s')"
    using inv n lru.access_tracked [of "bp_strategy ?q" ?n] lru.access_ok [of "bp_strategy ?q" ?n]
    by (auto simp: strategy_ok_def pool_inv_def less_Suc_eq)
  have "pool_inv X ?s'"
    using inv b sys n st map_ok_append [of "bp_buffers ?q" "bp_hashmap ?q" b] frame_ok_weaken
    by (auto simp: pool_inv_def frames_inv_def addable_def frames_def)
  moreover from pool_view_add [OF inv this _ fr]
  have "\<forall>k c. k \<noteq> entry_disk_key b \<longrightarrow> pool_view s k = Some c \<longrightarrow> pool_view ?s' k = Some c"
    by (auto simp: page_of_def)
  ultimately have "added X s b ?s'" using fr by (auto simp: added_def)
  then show thesis using that run by blast
qed

lemma AddToBuffer_evict:
  assumes inv: "pool_inv {} s" and b: "addable X s b" and sys: "be_db b \<noteq> SYSTEM_DATABASE_OID"
    and full: "length (bp_buffers (pe_pool s)) = BUFFER_SIZE"
  obtains s' where "AddToBuffer (be_db b) (be_table b) (be_page b) (be_ref b) s = (Inr (), s')" "added X s b s'"
proof -
  let ?q = "pe_pool s"
  have be: "\<lparr>be_db = be_db b, be_table = be_table b, be_page = be_page b, be_ref = be_ref b\<rparr> = b" by simp
  have fi: "frames_inv {} s" and mo: "map_ok (bp_buffers ?q) (bp_hashmap ?q)"
    and st: "distinct (bp_strategy ?q)" "set (bp_strategy ?q) = {0..<BUFFER_SIZE}"
    using inv full by (auto simp: pool_inv_def strategy_ok_def)
  obtain v vec where v: "Evict (bp_strategy ?q) = Inr (v, vec)" "v < BUFFER_SIZE"
    "set (Access v vec) = {0..<BUFFER_SIZE}" "distinct (Access v vec)"
    using lru.replace_ok [OF st(1)] st(2) by auto
  let ?s1 = "s\<lparr>pe_pool := ?q\<lparr>bp_strategy := vec\<rparr>\<rparr>" and ?f = "bp_buffers ?q ! v"
  have i: "v < length (bp_buffers (pe_pool ?s1))" using v(2) full by simp
  have "frames_inv {} ?s1" using fi by (simp add: frames_inv_def frames_def)
  then obtain s2 where s2: "BufferPool_FlushPage v ?s1 = (Inr (), s2)" "log_good (pe_log s2)"
    "disk_writable (pe_disk s2) = disk_writable (pe_disk s)"
    "disk_content (pe_disk s2) (entry_disk_key ?f) = Some (pg_data (page_of (be_ref ?f) s))"
    "\<forall>k c. k \<noteq> entry_disk_key ?f \<longrightarrow> disk_content (pe_disk s) k = Some c \<longrightarrow> disk_content (pe_disk s2) k = Some c"
    "s2 = ?s1\<lparr>pe_log := pe_log s2, pe_pool := (pe_pool ?s1)\<lparr>bp_hashmap := (bp_hashmap ?q)(entry_key ?f := None)\<rparr>\<rparr>"
    "log_kept (pe_log s) (pe_log s2)"
    using BufferPool_FlushPage_ok [OF _ i, of "{}"] by (auto simp: page_of_def)
  let ?q' = "?q\<lparr>bp_strategy := Access v vec, bp_buffers := (bp_buffers ?q)[v := b],
                bp_hashmap := (bp_hashmap ?q)(entry_key ?f := None, entry_key b \<mapsto> v)\<rparr>"
  let ?s' = "s\<lparr>pe_log := pe_log s2, pe_pool := ?q'\<rparr>"
  have pool2: "pe_pool s2 = ?q\<lparr>bp_strategy := vec, bp_hashmap := (bp_hashmap ?q)(entry_key ?f := None)\<rparr>"
    by (subst s2(6)) simp
  have "s2\<lparr>pe_pool := (pe_pool s2)\<lparr>bp_strategy := Access v vec, bp_buffers := (bp_buffers ?q)[v := b],
      bp_hashmap := (bp_hashmap ?q)(entry_key ?f := None, entry_key b \<mapsto> v)\<rparr>\<rparr> = ?s'"
    by (subst s2(6), subst pool2) simp
  then have run: "AddToBuffer (be_db b) (be_table b) (be_page b) (be_ref b) s = (Inr (), ?s')"
    unfolding AddToBuffer_def be Let_def using sys full v(1) s2(1) pool2 by (simp add: upd_pool_def ebind_def)
  have vl: "v < length (bp_buffers ?q)" using v(2) full by simp
  have fin: "?f \<in> set (frames s)" using vl by (simp add: frames_def)
  have dr: "distinct (map be_ref (frames s))" using fi by (simp add: frames_inv_def)
  then have "set ((bp_buffers ?q)[v := b]) = insert b (set (bp_buffers ?q) - {?f})"
    using vl by (intro set_update_distinct) (simp_all add: frames_def distinct_map)
  moreover have "?f \<notin> set (bp_sys_buffers ?q)"
    using fi vl nth_mem [OF vl] by (auto simp: frames_inv_def)
  ultimately have fr: "set (frames ?s') = insert b (set (frames s) - {?f})"
    by (auto simp: frames_def)
  have fo: "frame_ok X (pe_disk ?s') (pe_heap ?s') c" if "c \<in> set (frames ?s')" for c
  proof (cases "c = b")
    case True
    have "bp_hashmap ?q (entry_key ?f) = Some v" using mo vl by (simp add: map_ok_def)
    then have "entry_key b \<noteq> entry_key ?f" using b sys by (auto simp: addable_def)
    then have "entry_disk_key b \<noteq> entry_disk_key ?f"
      by (auto simp: entry_disk_key_def entry_key_def)
    then have "\<forall>c. disk_content (pe_disk s) (entry_disk_key b) = Some c \<longrightarrow> disk_content (pe_disk s2) (entry_disk_key b) = Some c"
      using s2(5) by blast
    then show ?thesis using b True s2(3) by (auto simp: addable_def frame_ok_def)
  next
    case False
    then have c: "c \<in> set (frames s)" "c \<noteq> ?f" using that fr by auto
    then have "entry_disk_key c \<noteq> entry_disk_key ?f"
      using frames_keys_distinct [OF inv] fin by (auto simp: distinct_map inj_on_def)
    then have "\<forall>x. disk_content (pe_disk s) (entry_disk_key c) = Some x \<longrightarrow> disk_content (pe_disk s2) (entry_disk_key c) = Some x"
      using s2(5) by blast
    then show ?thesis
      using fi c s2(3) by (auto simp: frames_inv_def frame_ok_def)
  qed
  have "distinct ((map be_ref (bp_buffers ?q))[v := be_ref b])"
    using dr b by (intro distinct_list_update) (auto simp: frames_def addable_def)
  moreover have "set ((map be_ref (bp_buffers ?q))[v := be_ref b]) \<inter> be_ref ` set (bp_sys_buffers ?q) = {}"
  proof -
    have "be_ref b \<notin> be_ref ` set (bp_sys_buffers ?q)" "be_ref ` set (bp_buffers ?q) \<inter> be_ref ` set (bp_sys_buffers ?q) = {}"
      using b dr by (auto simp: addable_def frames_def image_Un)
    moreover have "A \<subseteq> insert x B \<Longrightarrow> x \<notin> C \<Longrightarrow> B \<inter> C = {} \<Longrightarrow> A \<inter> C = {}" for A B C :: "nat set" and x by blast
    ultimately show ?thesis
      using set_update_subset_insert [of "map be_ref (bp_buffers ?q)" v "be_ref b"] unfolding set_map by metis
  qed
  ultimately have refs: "distinct (map be_ref (frames ?s'))"
    using dr by (simp add: frames_def map_update)
  have "frames_inv X ?s'"
    using fi fo refs s2(2) sys full
    by (auto simp: frames_inv_def dest!: subsetD [OF set_update_subset_insert])
  moreover have "strategy_ok ?q'"
    using v(3,4) full by (simp add: strategy_ok_def)
  moreover have "map_ok (bp_buffers ?q') (bp_hashmap ?q')"
    using map_ok_replace [OF mo _ vl, of b] b sys by (simp add: addable_def)
  ultimately have inv': "pool_inv X ?s'"
    using inv by (simp add: pool_inv_def)
  have "\<forall>k c. k \<noteq> entry_disk_key b \<longrightarrow> pool_view s k = Some c \<longrightarrow> pool_view ?s' k = Some c"
    using pool_view_add [OF inv inv' _ fr] fin s2(4,5) by (auto simp: page_of_def)
  then have "added X s b ?s'" using inv' fr s2(3,7) by (auto simp: added_def)
  then show thesis using that run by blast
qed

lemma AddToBuffer_ok:
  assumes "pool_inv {} s" "addable X s b"
  obtains s' where "AddToBuffer (be_db b) (be_table b) (be_page b) (be_ref b) s = (Inr (), s')" "added X s b s'"
  using AddToBuffer_sys [OF assms] AddToBuffer_free [OF assms] AddToBuffer_evict [OF assms] by blast

section \<open>Getting pages\<close>

lemma pool_inv_log:
  assumes "pool_inv X s" "log_good l'" "disk_content (le_disk l') = disk_content (pe_disk s)"
    "disk_writable (le_disk l') = disk_writable (pe_disk s)"
  shows "pool_inv X (s\<lparr>pe_log := l'\<rparr>)" "pool_view (s\<lparr>pe_log := l'\<rparr>) = pool_view s"
proof -
  have fr: "frames (s\<lparr>pe_log := l'\<rparr>) = frames s" by (simp add: frames_def)
  show "pool_inv X (s\<lparr>pe_log := l'\<rparr>)"
    using assms by (simp add: pool_inv_def frames_inv_def frame_ok_def fr)
  show "pool_view (s\<lparr>pe_log := l'\<rparr>) = pool_view s"
    using assms(3) by (intro ext) (simp add: pool_view_def frame_ref_def fr page_of_def split: option.split)
qed

lemma pool_inv_heap:
  assumes "pool_inv X s"
  shows "pool_inv X (s\<lparr>pe_heap := pe_heap s @ [p]\<rparr>)" "pool_view (s\<lparr>pe_heap := pe_heap s @ [p]\<rparr>) = pool_view s"
proof -
  let ?s' = "s\<lparr>pe_heap := pe_heap s @ [p]\<rparr>"
  have fr: "frames ?s' = frames s" by (simp add: frames_def)
  show inv: "pool_inv X ?s'"
    using assms by (auto simp: pool_inv_def frames_inv_def frame_ok_def fr nth_append)
  have "frame_ref s k = Some r \<Longrightarrow> r < length (pe_heap s)" for k r
    using assms frame_ref_iff [OF frames_keys_distinct [OF assms], of k r]
    by (auto simp: pool_inv_def frames_inv_def frame_ok_def)
  then show "pool_view ?s' = pool_view s"
    by (intro ext) (simp add: pool_view_def frame_ref_def fr page_of_def nth_append split: option.split)
qed

lemma in_disk_read:
  assumes "log_good (pe_log s)" "disk_content (pe_disk s) k = Some c"
  obtains l' where "in_disk (ReadPage (key_path k) (snd (snd k))) s = (Inr c, s\<lparr>pe_log := l'\<rparr>)" "log_good l'"
    "disk_content (le_disk l') = disk_content (pe_disk s)" "disk_writable (le_disk l') = disk_writable (pe_disk s)"
    "log_kept (pe_log s) l'"
proof -
  obtain d' where d': "disk_read k (pe_disk s) = (Inr c, d')" "disk_ok d'" "disk_content d' = disk_content (pe_disk s)"
    "disk_writable d' = disk_writable (pe_disk s)" "disk_rest d' = disk_rest (pe_disk s)"
    using dsk.rd_ok [OF log_good_disk_ok [OF assms(1)] assms(2)] by blast
  have "in_disk (ReadPage (key_path k) (snd (snd k))) s = (Inr c, s\<lparr>pe_log := (pe_log s)\<lparr>le_disk := d'\<rparr>\<rparr>)"
    using d'(1) by (simp add: in_disk_def in_log_def on_disk_def ezoom_def disk_read_def)
  then show thesis
    using that [of "(pe_log s)\<lparr>le_disk := d'\<rparr>"] d' log_good_disk [OF assms(1) d'(2,5)] log_kept_disk [OF d'(5)] by simp
qed

text \<open>The hash map lookup of \<^verbatim>\<open>GetPage\<close> decides whether the page is cached.\<close>

definition lookup :: "PoolEnv \<Rightarrow> page_key \<Rightarrow> nat option" where
  "lookup s k = (if fst k = SYSTEM_DATABASE_OID then bp_sys_hashmap else bp_hashmap) (pe_pool s)
     \<lparr>tp_table_oid = fst (snd k), tp_page_id = snd (snd k)\<rparr>"

definition bank :: "PoolEnv \<Rightarrow> page_key \<Rightarrow> BufferPoolEntry list" where
  "bank s k = (if fst k = SYSTEM_DATABASE_OID then bp_sys_buffers else bp_buffers) (pe_pool s)"

lemma lookup_Some:
  assumes "pool_inv X s" "consistent s k" "lookup s k = Some i"
  shows "i < length (bank s k)" "bank s k ! i \<in> set (frames s)" "entry_disk_key (bank s k ! i) = k"
proof -
  have m: "map_ok (bank s k) (if fst k = SYSTEM_DATABASE_OID then bp_sys_hashmap (pe_pool s) else bp_hashmap (pe_pool s))"
    using assms(1) by (simp add: pool_inv_def bank_def)
  then have i: "i < length (bank s k)" "entry_key (bank s k ! i) = \<lparr>tp_table_oid = fst (snd k), tp_page_id = snd (snd k)\<rparr>"
    using assms(3) by (auto simp: map_ok_def lookup_def split: if_splits)
  show "i < length (bank s k)" by (rule i)
  show inf: "bank s k ! i \<in> set (frames s)"
    using nth_mem [OF i(1)] by (auto simp: bank_def frames_def split: if_splits)
  have "be_db (bank s k ! i) = SYSTEM_DATABASE_OID \<longleftrightarrow> fst k = SYSTEM_DATABASE_OID"
    using nth_mem [OF i(1)] assms(1) by (auto simp: bank_def pool_inv_def frames_inv_def split: if_splits)
  then have "be_db (bank s k ! i) = fst k"
    using assms(2) inf i(2) by (simp add: consistent_def entry_key_def)
  then show "entry_disk_key (bank s k ! i) = k"
    using i(2) by (simp add: entry_disk_key_def entry_key_def prod_eq_iff)
qed

lemma lookup_None:
  assumes "pool_inv X s" "lookup s k = None"
  shows "\<forall>b \<in> set (frames s). entry_disk_key b \<noteq> k"
proof
  fix b assume b: "b \<in> set (frames s)"
  show "entry_disk_key b \<noteq> k"
  proof
    assume e: "entry_disk_key b = k"
    then have "b \<in> set (bank s k)"
      using b assms(1) by (auto simp: frames_def bank_def pool_inv_def frames_inv_def entry_disk_key_def)
    then obtain i where "i < length (bank s k)" "bank s k ! i = b" by (auto simp: in_set_conv_nth)
    then have "lookup s k = Some i"
      using assms(1) e by (auto simp: lookup_def bank_def pool_inv_def map_ok_def entry_disk_key_def entry_key_def)
    then show False using assms(2) by simp
  qed
qed

definition holds :: "PoolEnv \<Rightarrow> page_key \<Rightarrow> nat \<Rightarrow> bool" where
  "holds s k r \<longleftrightarrow> (\<exists>b \<in> set (frames s). entry_disk_key b = k \<and> be_ref b = r)"

definition frame_keys :: "PoolEnv \<Rightarrow> page_key set" where
  "frame_keys s = entry_disk_key ` set (frames s)"

definition views_kept :: "PoolEnv \<Rightarrow> PoolEnv \<Rightarrow> bool" where
  "views_kept s s' \<longleftrightarrow> (\<forall>k c. pool_view s k = Some c \<longrightarrow> pool_view s' k = Some c) \<and>
     disk_writable (pe_disk s') = disk_writable (pe_disk s) \<and>
     length (pe_heap s) \<le> length (pe_heap s') \<and> (\<forall>r < length (pe_heap s). page_of r s' = page_of r s) \<and>
     log_kept (pe_log s) (pe_log s')"

lemma GetPage_hit:
  assumes inv: "pool_inv X s" and con: "consistent s k" and hit: "lookup s k = Some i"
  obtains s' where "GetPage (fst k) (fst (snd k)) (snd (snd k)) s = (Inr (be_ref (bank s k ! i)), s')" "pool_inv X s'"
    "frames s' = frames s" "pe_heap s' = pe_heap s" "pe_log s' = pe_log s" "pe_fresh s' = pe_fresh s"
proof -
  note l = lookup_Some [OF inv con hit]
  let ?q' = "if fst k = SYSTEM_DATABASE_OID then pe_pool s else (pe_pool s)\<lparr>bp_strategy := Access i (bp_strategy (pe_pool s))\<rparr>"
  let ?s' = "s\<lparr>pe_pool := ?q'\<rparr>"
  have run: "GetPage (fst k) (fst (snd k)) (snd (snd k)) s = (Inr (be_ref (bank s k ! i)), ?s')"
    using hit l(1) by (auto simp: GetPage_def lookup_def bank_def upd_pool_def ebind_def)
  have fr: "frames ?s' = frames s" by (simp add: frames_def)
  have "strategy_ok ?q'"
  proof (cases "fst k = SYSTEM_DATABASE_OID")
    case False
    then have "i < length (bp_buffers (pe_pool s))" using l(1) by (simp add: bank_def)
    then show ?thesis
      using inv False lru.access_tracked [of "bp_strategy (pe_pool s)" i] lru.access_ok [of "bp_strategy (pe_pool s)" i]
      by (auto simp: strategy_ok_def pool_inv_def frames_inv_def)
  qed (use inv in \<open>simp add: pool_inv_def\<close>)
  then have "pool_inv X ?s'"
    using inv unfolding pool_inv_def frames_inv_def fr by (simp split: if_splits)
  then show thesis using that [OF run] fr by simp
qed

lemma pool_view_holds:
  assumes "pool_inv X s" "holds s k r"
  shows "pool_view s k = Some (pg_data (page_of r s))" "r < length (pe_heap s)"
  using assms pool_view_frame [OF assms(1)] by (auto simp: holds_def pool_inv_def frames_inv_def frame_ok_def)

text \<open>The frame for a page just put on the heap.\<close>

lemma make_page_addable:
  assumes inv: "pool_inv {} s" and w: "disk_writable (pe_disk s) k" and l: "length data = 256" and miss: "lookup s k = None"
    and ok: "X = {length (pe_heap s)} \<or> X = {} \<and> disk_content (pe_disk s) k = Some data"
  defines "s1 \<equiv> s\<lparr>pe_heap := pe_heap s @ [\<lparr>pg_data = data, pg_dirty = False\<rparr>]\<rparr>"
    and "b \<equiv> \<lparr>be_db = fst k, be_table = fst (snd k), be_page = snd (snd k), be_ref = length (pe_heap s)\<rparr>"
  shows "pool_inv {} s1" "addable X s1 b" "entry_disk_key b = k" "pool_view s1 = pool_view s"
proof -
  show "pool_inv {} s1" "pool_view s1 = pool_view s"
    unfolding s1_def by (rule pool_inv_heap [OF inv])+
  show k: "entry_disk_key b = k" by (simp add: b_def entry_disk_key_def)
  have "be_ref b \<notin> be_ref ` set (frames s1)"
    using inv by (auto simp: b_def s1_def frames_def pool_inv_def frames_inv_def frame_ok_def)
  then show "addable X s1 b"
    using w l miss ok k
    by (auto simp: addable_def frame_ok_def s1_def b_def lookup_def entry_key_def)
qed

lemma added_holds: "added X s b s' \<Longrightarrow> holds s' (entry_disk_key b) (be_ref b)"
  by (auto simp: added_def holds_def)

lemma GetPage_miss:
  assumes inv: "pool_inv {} s" and miss: "lookup s k = None" and c: "disk_content (pe_disk s) k = Some c"
  obtains s' where "GetPage (fst k) (fst (snd k)) (snd (snd k)) s = (Inr (length (pe_heap s)), s')" "pool_inv {} s'"
    "holds s' k (length (pe_heap s))" "views_kept s s'" "pe_fresh s' = pe_fresh s" "pg_data (page_of (length (pe_heap s)) s') = c"
    "\<not> pg_dirty (page_of (length (pe_heap s)) s')" "frame_keys s' \<subseteq> insert k (frame_keys s)"
proof -
  have lg: "log_good (pe_log s)" using inv by (simp add: pool_inv_def frames_inv_def)
  obtain l' where l': "in_disk (ReadPage (key_path k) (snd (snd k))) s = (Inr c, s\<lparr>pe_log := l'\<rparr>)" "log_good l'"
    "disk_content (le_disk l') = disk_content (pe_disk s)" "disk_writable (le_disk l') = disk_writable (pe_disk s)"
    "log_kept (pe_log s) l'"
    by (rule in_disk_read [OF lg c])
  let ?s0 = "s\<lparr>pe_log := l'\<rparr>" and ?r = "length (pe_heap s)"
  let ?s1 = "?s0\<lparr>pe_heap := pe_heap ?s0 @ [\<lparr>pg_data = c, pg_dirty = False\<rparr>]\<rparr>"
  let ?b = "\<lparr>be_db = fst k, be_table = fst (snd k), be_page = snd (snd k), be_ref = ?r\<rparr>"
  have w: "disk_writable (pe_disk s) k" by (rule dsk.content_writable [OF c])
  have len: "length c = 256"
    using c by (auto simp: disk_content_def page_content_def split: if_splits option.splits)
  note p0 = pool_inv_log [OF inv l'(2,3,4)]
  have m: "pool_inv {} ?s1" "addable {} ?s1 ?b" "entry_disk_key ?b = k" "pool_view ?s1 = pool_view s"
    using make_page_addable [OF p0(1), of k c "{}"] w l' len miss c p0(2) by (simp_all add: lookup_def)
  obtain s' where s': "AddToBuffer (fst k) (fst (snd k)) (snd (snd k)) ?r ?s1 = (Inr (), s')" "added {} ?s1 ?b s'"
    using AddToBuffer_ok [OF m(1,2)] by auto
  have run: "GetPage (fst k) (fst (snd k)) (snd (snd k)) s = (Inr ?r, s')"
    using miss l'(1) s'(1) by (simp add: GetPage_def lookup_def key_path_def ebind_def make_page_def split: if_splits)
  have hold: "holds s' k ?r" using added_holds [OF s'(2)] m(3) by simp
  have hp: "pe_heap s' = pe_heap s @ [\<lparr>pg_data = c, pg_dirty = False\<rparr>]" "pe_fresh s' = pe_fresh s" "pool_inv {} s'"
    using s'(2) by (simp_all add: added_def)
  have vk: "pool_view s' k' = Some x" if "pool_view s k' = Some x" for k' x
  proof (cases "k' = k")
    case True
    have "pool_view s k = Some c" using pool_view_disk [OF lookup_None [OF inv miss]] c by simp
    then show ?thesis using that True pool_view_holds(1) [OF hp(3) hold] hp(1) by (simp add: page_of_def)
  next
    case False
    then show ?thesis using that s'(2) m(3,4) unfolding added_def by metis
  qed
  have "views_kept s s'"
    using vk hp(1) s'(2) l'(4) log_kept_trans [OF l'(5)] by (auto simp: views_kept_def added_def page_of_def nth_append)
  moreover have "frame_keys s' \<subseteq> insert k (frame_keys s)"
    using s'(2) m(3) by (auto simp: frame_keys_def added_def frames_def)
  ultimately show thesis
    using that [OF run hp(3) hold] hp by (simp add: page_of_def)
qed

lemma GetPage_ok:
  assumes inv: "pool_inv {} s" and con: "consistent s k" and c: "pool_view s k = Some c"
  obtains r s' where "GetPage (fst k) (fst (snd k)) (snd (snd k)) s = (Inr r, s')" "pool_inv {} s'" "holds s' k r"
    "pg_data (page_of r s') = c" "views_kept s s'" "pe_fresh s' = pe_fresh s" "frame_keys s' \<subseteq> insert k (frame_keys s)"
proof (cases "lookup s k")
  case None
  have "disk_content (pe_disk s) k = Some c"
    using pool_view_disk [OF lookup_None [OF inv None]] c by simp
  then show thesis
    using GetPage_miss [OF inv None] that by metis
next
  case (Some i)
  note l = lookup_Some [OF inv con Some]
  obtain s' where s': "GetPage (fst k) (fst (snd k)) (snd (snd k)) s = (Inr (be_ref (bank s k ! i)), s')" "pool_inv {} s'"
    "frames s' = frames s" "pe_heap s' = pe_heap s" "pe_log s' = pe_log s" "pe_fresh s' = pe_fresh s"
    by (rule GetPage_hit [OF inv con Some])
  have "holds s' k (be_ref (bank s k ! i))" using l s'(3) by (auto simp: holds_def)
  moreover have pv: "pool_view s' = pool_view s"
    using s'(3-5) by (intro ext) (simp add: pool_view_def frame_ref_def page_of_def split: option.split)
  moreover have "views_kept s s'"
    using s'(4,5) pv by (simp add: views_kept_def page_of_def)
  moreover have "pg_data (page_of (be_ref (bank s k ! i)) s') = c"
    using pool_view_holds(1) [OF s'(2) calculation(1)] pv c by simp
  moreover have "frame_keys s' \<subseteq> insert k (frame_keys s)" using s'(3) by (auto simp: frame_keys_def)
  ultimately show thesis
    using that s'(1,2,6) by blast
qed

lemma NewPage_ok:
  assumes inv: "pool_inv {} s" and w: "disk_writable (pe_disk s) k" and miss: "lookup s k = None"
  obtains s' where "NewPage (fst k) (fst (snd k)) (snd (snd k)) s = (Inr (length (pe_heap s)), s')"
    "pool_inv {length (pe_heap s)} s'" "holds s' k (length (pe_heap s))"
    "\<forall>k' c. k' \<noteq> k \<longrightarrow> pool_view s k' = Some c \<longrightarrow> pool_view s' k' = Some c" "pe_fresh s' = pe_fresh s"
    "\<forall>r < length (pe_heap s). page_of r s' = page_of r s" "length (pe_heap s') = Suc (length (pe_heap s))"
    "length (pg_data (page_of (length (pe_heap s)) s')) = 256" "disk_writable (pe_disk s') = disk_writable (pe_disk s)"
    "log_kept (pe_log s) (pe_log s')" "frame_keys s' \<subseteq> insert k (frame_keys s)"
proof -
  let ?r = "length (pe_heap s)" and ?data = "pe_fresh s (length (pe_heap s))"
  let ?s1 = "s\<lparr>pe_heap := pe_heap s @ [\<lparr>pg_data = ?data, pg_dirty = False\<rparr>]\<rparr>"
  let ?b = "\<lparr>be_db = fst k, be_table = fst (snd k), be_page = snd (snd k), be_ref = ?r\<rparr>"
  have len: "length ?data = 256" using inv by (simp add: pool_inv_def frames_inv_def)
  have m: "pool_inv {} ?s1" "addable {?r} ?s1 ?b" "entry_disk_key ?b = k" "pool_view ?s1 = pool_view s"
    using make_page_addable [OF inv w len miss, of "{?r}"] by simp_all
  obtain s' where s': "AddToBuffer (fst k) (fst (snd k)) (snd (snd k)) ?r ?s1 = (Inr (), s')" "added {?r} ?s1 ?b s'"
    using AddToBuffer_ok [OF m(1,2)] by auto
  have run: "NewPage (fst k) (fst (snd k)) (snd (snd k)) s = (Inr ?r, s')"
    using s'(1) by (simp add: NewPage_def ebind_def make_page_def)
  have "frame_keys s' \<subseteq> insert k (frame_keys s)"
    using s'(2) m(3) by (auto simp: frame_keys_def added_def frames_def)
  then show thesis
    using that [OF run] added_holds [OF s'(2)] s'(2) m(3,4) len by (simp add: added_def page_of_def nth_append)
qed

section \<open>Changing a page\<close>

text \<open>
  A change through a reference that marks the page dirty: the page the frame stands for reads as the
  new contents, all other pages as before, and an uninitialised page becomes an ordinary one.
\<close>

lemma set_page_ok:
  assumes inv: "pool_inv X s" and r: "holds s k r" and p: "pg_dirty p" "length (pg_data p) = 256"
  defines "s' \<equiv> s\<lparr>pe_heap := (pe_heap s)[r := p]\<rparr>"
  shows "set_page r p s = (Inr (), s')" "pool_inv (X - {r}) s'" "holds s' k r" "page_of r s' = p"
    "\<forall>k'. k' \<noteq> k \<longrightarrow> pool_view s' k' = pool_view s k'" "pool_view s' k = Some (pg_data p)"
proof -
  have fr: "frames s' = frames s" by (simp add: frames_def s'_def)
  have rl: "r < length (pe_heap s)" by (rule pool_view_holds(2) [OF inv r])
  show "set_page r p s = (Inr (), s')" by (simp add: set_page_def s'_def)
  show pr: "page_of r s' = p" using rl by (simp add: page_of_def s'_def)
  show hold: "holds s' k r" using r by (simp add: holds_def fr)
  have fo: "frame_ok (X - {r}) (pe_disk s') (pe_heap s') b" if "b \<in> set (frames s)" for b
  proof (cases "be_ref b = r")
    case True
    have "frame_ok X (pe_disk s) (pe_heap s) b" using inv that by (simp add: pool_inv_def frames_inv_def)
    then show ?thesis using True p rl by (simp add: frame_ok_def s'_def)
  next
    case False
    have "frame_ok X (pe_disk s) (pe_heap s) b" using inv that by (simp add: pool_inv_def frames_inv_def)
    then show ?thesis using False by (auto simp: frame_ok_def s'_def)
  qed
  then show inv': "pool_inv (X - {r}) s'"
    using inv by (auto simp: pool_inv_def frames_inv_def fr) (simp_all add: s'_def)
  show "pool_view s' k = Some (pg_data p)"
    using pool_view_holds(1) [OF inv' hold] pr by simp
  show "\<forall>k'. k' \<noteq> k \<longrightarrow> pool_view s' k' = pool_view s k'"
  proof (intro allI impI)
    fix k' assume ne: "k' \<noteq> k"
    have "r' \<noteq> r" if fk: "frame_ref s k' = Some r'" for r'
    proof
      assume "r' = r"
      then obtain b c where "b \<in> set (frames s)" "entry_disk_key b = k'" "be_ref b = r"
        "c \<in> set (frames s)" "entry_disk_key c = k" "be_ref c = r"
        using fk frame_ref_iff [OF frames_keys_distinct [OF inv], of k' r] r unfolding holds_def by blast
      moreover have "inj_on be_ref (set (frames s))" using inv by (simp add: pool_inv_def frames_inv_def distinct_map)
      ultimately show False using ne by (auto simp: inj_on_def)
    qed
    moreover have "frame_ref s' k' = frame_ref s k'" "pe_disk s' = pe_disk s"
      unfolding frame_ref_def fr by (simp_all add: s'_def)
    ultimately show "pool_view s' k' = pool_view s k'"
      by (cases "frame_ref s k'") (simp_all add: pool_view_def page_of_def s'_def)
  qed
qed

section \<open>Flushing the pool\<close>

declare split_paired_All [simp del] split_paired_Ex [simp del]

text \<open>The regular frames flushed one after the other.\<close>

lemma flush_frames:
  assumes inv: "frames_inv {} s" and n: "n \<le> length (bp_buffers (pe_pool s))"
    and d: "distinct (map entry_disk_key (frames s))"
  shows "\<exists>s' hm. efor BufferPool_FlushPage [0..<n] s = (Inr (), s') \<and> frames_inv {} s' \<and> pe_heap s' = pe_heap s
     \<and> pe_pool s' = (pe_pool s)\<lparr>bp_hashmap := hm\<rparr> \<and> pe_fresh s' = pe_fresh s
     \<and> disk_writable (pe_disk s') = disk_writable (pe_disk s)
     \<and> (\<forall>k. hm k = (if k \<in> entry_key ` set (take n (bp_buffers (pe_pool s))) then None else bp_hashmap (pe_pool s) k))
     \<and> (\<forall>b \<in> set (take n (bp_buffers (pe_pool s))).
          disk_content (pe_disk s') (entry_disk_key b) = Some (pg_data (page_of (be_ref b) s)))
     \<and> (\<forall>k c. k \<notin> entry_disk_key ` set (take n (bp_buffers (pe_pool s))) \<longrightarrow>
          disk_content (pe_disk s) k = Some c \<longrightarrow> disk_content (pe_disk s') k = Some c)"
  using n
proof (induction n)
  case 0
  show ?case using inv by (intro exI [of _ s] exI [of _ "bp_hashmap (pe_pool s)"]) simp
next
  case (Suc n)
  let ?bs = "bp_buffers (pe_pool s)"
  let ?f = "?bs ! n"
  obtain s1 hm where s1: "efor BufferPool_FlushPage [0..<n] s = (Inr (), s1)" "frames_inv {} s1" "pe_heap s1 = pe_heap s"
    "pe_pool s1 = (pe_pool s)\<lparr>bp_hashmap := hm\<rparr>" "pe_fresh s1 = pe_fresh s"
    "disk_writable (pe_disk s1) = disk_writable (pe_disk s)"
    "\<forall>k. hm k = (if k \<in> entry_key ` set (take n ?bs) then None else bp_hashmap (pe_pool s) k)"
    "\<forall>b \<in> set (take n ?bs). disk_content (pe_disk s1) (entry_disk_key b) = Some (pg_data (page_of (be_ref b) s))"
    "\<forall>k c. k \<notin> entry_disk_key ` set (take n ?bs) \<longrightarrow> disk_content (pe_disk s) k = Some c \<longrightarrow> disk_content (pe_disk s1) k = Some c"
    using Suc.IH Suc.prems by (metis Suc_leD)
  have i: "n < length (bp_buffers (pe_pool s1))" using Suc.prems s1(4) by simp
  obtain s2 where s2: "BufferPool_FlushPage n s1 = (Inr (), s2)" "log_good (pe_log s2)"
    "disk_writable (pe_disk s2) = disk_writable (pe_disk s1)"
    "disk_content (pe_disk s2) (entry_disk_key ?f) = Some (pg_data (page_of (be_ref ?f) s1))"
    "\<forall>k c. k \<noteq> entry_disk_key ?f \<longrightarrow> disk_content (pe_disk s1) k = Some c \<longrightarrow> disk_content (pe_disk s2) k = Some c"
    "s2 = s1\<lparr>pe_log := pe_log s2, pe_pool := (pe_pool s1)\<lparr>bp_hashmap := (bp_hashmap (pe_pool s1))(entry_key ?f := None)\<rparr>\<rparr>" "log_kept (pe_log s1) (pe_log s2)"
    using BufferPool_FlushPage_ok [OF s1(2) i] s1(4) by auto
  have fld: "pe_heap s2 = pe_heap s" "pe_fresh s2 = pe_fresh s" "pe_pool s2 = (pe_pool s)\<lparr>bp_hashmap := hm(entry_key ?f := None)\<rparr>"
    using s1(3-5) by (subst s2(6), simp)+
  have fin: "?f \<in> set (frames s)" "set (take n ?bs) \<subseteq> set (frames s)"
    using Suc.prems set_take_subset [of n ?bs] by (auto simp: frames_def)
  have tk: "take (Suc n) ?bs = take n ?bs @ [?f]" using Suc.prems by (simp add: take_Suc_conv_app_nth)
  have "distinct (map entry_disk_key (take (Suc n) ?bs))"
    using d by (metis append_take_drop_id distinct_append frames_def map_append)
  then have new: "entry_disk_key ?f \<notin> entry_disk_key ` set (take n ?bs)" by (simp add: tk)
  have same: "page_of r s1 = page_of r s" for r using s1(3) by (simp add: page_of_def)
  have run: "efor BufferPool_FlushPage [0..<Suc n] s = (Inr (), s2)"
    using s1(1) s2(1) by (simp add: efor_append ebind_def)
  have fr: "frames s2 = frames s1" using fld(3) s1(4) by (simp add: frames_def)
  have fo: "frame_ok {} (pe_disk s2) (pe_heap s2) b" if "b \<in> set (frames s1)" for b
  proof -
    have ok: "frame_ok {} (pe_disk s1) (pe_heap s1) b" using s1(2) that by (simp add: frames_inv_def)
    have bs: "b \<in> set (frames s)" using that s1(4) by (simp add: frames_def)
    show ?thesis
    proof (cases "entry_disk_key b = entry_disk_key ?f")
      case True
      then have "b = ?f" using d bs fin(1) by (auto simp: distinct_map inj_on_def)
      then show ?thesis
        using ok s2(3,4) fld(1) s1(3) by (simp add: frame_ok_def page_of_def)
    next
      case False
      then have "\<forall>x. disk_content (pe_disk s1) (entry_disk_key b) = Some x \<longrightarrow> disk_content (pe_disk s2) (entry_disk_key b) = Some x"
        using s2(5) by blast
      then show ?thesis
        using ok s2(3) fld(1) s1(3) by (auto simp: frame_ok_def)
    qed
  qed
  have "frames_inv {} s2"
    using s1(2) fo s2(2) fld s1(4,5) fr by (auto simp: frames_inv_def)
  moreover have "\<forall>b \<in> set (take (Suc n) ?bs). disk_content (pe_disk s2) (entry_disk_key b) = Some (pg_data (page_of (be_ref b) s))"
  proof
    fix b assume b: "b \<in> set (take (Suc n) ?bs)"
    show "disk_content (pe_disk s2) (entry_disk_key b) = Some (pg_data (page_of (be_ref b) s))"
    proof (cases "b = ?f")
      case True
      then show ?thesis using s2(4) same by simp
    next
      case False
      then have t: "b \<in> set (take n ?bs)" using b tk by simp
      then have "entry_disk_key b \<noteq> entry_disk_key ?f" using new by (metis image_eqI)
      then show ?thesis using s1(8) t s2(5) by blast
    qed
  qed
  moreover have "\<forall>k c. k \<notin> entry_disk_key ` set (take (Suc n) ?bs) \<longrightarrow> disk_content (pe_disk s) k = Some c \<longrightarrow> disk_content (pe_disk s2) k = Some c"
  proof (intro allI impI)
    fix k c assume k: "k \<notin> entry_disk_key ` set (take (Suc n) ?bs)" "disk_content (pe_disk s) k = Some c"
    then have "k \<noteq> entry_disk_key ?f" "k \<notin> entry_disk_key ` set (take n ?bs)" unfolding tk by auto
    then show "disk_content (pe_disk s2) k = Some c" using s1(9) s2(5) k(2) by blast
  qed
  moreover have "\<forall>k. (hm(entry_key ?f := None)) k = (if k \<in> entry_key ` set (take (Suc n) ?bs) then None else bp_hashmap (pe_pool s) k)"
    using s1(7) unfolding tk by auto
  moreover have "disk_writable (pe_disk s2) = disk_writable (pe_disk s)" using s1(6) s2(3) by simp
  ultimately show ?case
    using run fld by blast
qed

lemma map_ok_Nil: "map_ok [] hm \<longleftrightarrow> hm = Map.empty"
proof
  assume "map_ok [] hm"
  then have "hm k \<noteq> Some i" for k i by (simp add: map_ok_def)
  then show "hm = Map.empty" by (intro ext) (metis option.exhaust)
qed (simp add: map_ok_def)

lemma BufferPool_Flush_regular:
  assumes inv: "pool_inv {} s"
  obtains s' where "BufferPool_Flush True s = (Inr (), s')" "pool_inv {} s'" "bp_buffers (pe_pool s') = []"
    "\<forall>k c. pool_view s k = Some c \<longrightarrow> pool_view s' k = Some c"
    "\<forall>k c. fst k \<noteq> SYSTEM_DATABASE_OID \<longrightarrow> pool_view s k = Some c \<longrightarrow> disk_content (pe_disk s') k = Some c"
proof -
  let ?bs = "bp_buffers (pe_pool s)" and ?q = "pe_pool s"
  have fi: "frames_inv {} s" using inv by (simp add: pool_inv_def)
  note dk = frames_keys_distinct [OF inv]
  obtain s1 hm where s1: "efor BufferPool_FlushPage [0..<length ?bs] s = (Inr (), s1)" "frames_inv {} s1" "pe_heap s1 = pe_heap s"
    "pe_pool s1 = ?q\<lparr>bp_hashmap := hm\<rparr>" "pe_fresh s1 = pe_fresh s"
    "\<forall>k. hm k = (if k \<in> entry_key ` set ?bs then None else bp_hashmap ?q k)"
    "\<forall>b \<in> set ?bs. disk_content (pe_disk s1) (entry_disk_key b) = Some (pg_data (page_of (be_ref b) s))"
    "\<forall>k c. k \<notin> entry_disk_key ` set ?bs \<longrightarrow> disk_content (pe_disk s) k = Some c \<longrightarrow> disk_content (pe_disk s1) k = Some c"
    using flush_frames [OF fi order_refl dk] unfolding take_all [OF order_refl] by blast
  let ?s' = "s1\<lparr>pe_pool := (pe_pool s1)\<lparr>bp_buffers := []\<rparr>\<rparr>"
  have run: "BufferPool_Flush True s = (Inr (), ?s')"
    using s1(1) by (simp add: BufferPool_Flush_def ebind_def upd_pool_def)
  have "hm = Map.empty"
  proof
    fix k
    show "hm k = None"
    proof (cases "bp_hashmap ?q k")
      case (Some i)
      then have "i < length ?bs" "entry_key (?bs ! i) = k"
        using inv by (auto simp: pool_inv_def map_ok_def)
      then have "k \<in> entry_key ` set ?bs" by (metis nth_mem imageI)
      then show ?thesis using s1(6) by simp
    qed (use s1(6) in simp)
  qed
  then have inv': "pool_inv {} ?s'"
    using s1(2,4) inv
    by (auto simp: pool_inv_def frames_inv_def frames_def map_ok_Nil strategy_ok_def)
  have fr': "frames ?s' = bp_sys_buffers ?q" using s1(4) by (simp add: frames_def)
  have reg: "disk_content (pe_disk ?s') k = Some c" if k: "fst k \<noteq> SYSTEM_DATABASE_OID" "pool_view s k = Some c" for k c
  proof (cases "k \<in> entry_disk_key ` set ?bs")
    case True
    then obtain b where "b \<in> set ?bs" "k = entry_disk_key b" by blast
    then show ?thesis using s1(7) pool_view_frame [OF inv, of b] k(2) by (simp add: frames_def)
  next
    case False
    have "\<forall>b \<in> set (frames s). entry_disk_key b \<noteq> k"
      using False fi k(1) by (auto simp: frames_def frames_inv_def entry_disk_key_def)
    then have "disk_content (pe_disk s) k = Some c" using pool_view_disk k(2) by metis
    then show ?thesis using False s1(8) by simp
  qed
  have kept: "pool_view ?s' k = Some c" if k: "pool_view s k = Some c" for k c
  proof (cases "\<exists>b \<in> set (bp_sys_buffers ?q). entry_disk_key b = k")
    case True
    then obtain b where b: "b \<in> set (bp_sys_buffers ?q)" "entry_disk_key b = k" by blast
    then have "pool_view ?s' k = Some (pg_data (page_of (be_ref b) ?s'))" "pool_view s k = Some (pg_data (page_of (be_ref b) s))"
      using pool_view_frame [OF inv', of b] pool_view_frame [OF inv, of b] fr' by (auto simp: frames_def)
    then show ?thesis using k s1(3) by (simp add: page_of_def)
  next
    case False
    then have d: "pool_view ?s' k = disk_content (pe_disk ?s') k" using fr' by (intro pool_view_disk) auto
    show ?thesis
    proof (cases "k \<in> entry_disk_key ` set ?bs")
      case True
      then obtain b where "b \<in> set ?bs" "k = entry_disk_key b" by blast
      then show ?thesis using s1(7) pool_view_frame [OF inv, of b] k d by (simp add: frames_def)
    next
      case nb: False
      then have "\<forall>b \<in> set (frames s). entry_disk_key b \<noteq> k" using False by (auto simp: frames_def)
      then have "disk_content (pe_disk s) k = Some c" using pool_view_disk k by metis
      then show ?thesis using nb s1(8) d by simp
    qed
  qed
  show thesis
    using that [OF run inv'] kept reg by simp
qed

section \<open>Properties\<close>

text \<open>
  C5. The cache is transparent: \<^verbatim>\<open>GetPage\<close> of an existing page succeeds, also when it has to evict and
  flush another page, and returns a reference to a page with the contents the page had (in its
  frame, or on the disk); afterwards every page reads as before, no live page object has changed,
  and the invariant of the pool holds.
\<close>

theorem GetPage_transparent:
  assumes "pool_inv {} s" "consistent s (db, tb, pid)" "pool_view s (db, tb, pid) = Some c"
  shows "\<exists>r s'. GetPage db tb pid s = (Inr r, s') \<and> pg_data (page_of r s') = c \<and> pool_inv {} s'
     \<and> holds s' (db, tb, pid) r \<and> (\<forall>k b. pool_view s k = Some b \<longrightarrow> pool_view s' k = Some b)
     \<and> (\<forall>q < length (pe_heap s). page_of q s' = page_of q s)"
proof -
  obtain r s' where "GetPage db tb pid s = (Inr r, s')" "pool_inv {} s'" "holds s' (db, tb, pid) r"
    "pg_data (page_of r s') = c" "views_kept s s'"
    using GetPage_ok [OF assms] unfolding fst_conv snd_conv by metis
  then show ?thesis
    unfolding views_kept_def by blast
qed

definition sample_pool :: PoolEnv where
  "sample_pool = \<lparr>pe_log = sample_log\<lparr>le_disk := sample_disk\<lparr>dk_data := (\<lambda>_. replicate 256 0)\<rparr>\<rparr>,
     pe_pool = BufferPool_new, pe_heap = [], pe_fresh = (\<lambda>_. replicate 256 170)\<rparr>"

lemma sample_pool_ok: "pool_inv {} sample_pool" "consistent sample_pool (2, 10001, 0)"
  "pool_view sample_pool (2, 10001, 0) = Some (replicate 256 0)"
proof -
  have d: "disk_ok (sample_disk\<lparr>dk_data := (\<lambda>_. replicate 256 0)\<rparr>)"
    using sample_disk_ok(1) by (simp add: disk_ok_def names_ok_def stream_ok_def)
  have "CHR ''/'' \<in> set (GetFilePath 2 10001)" by (simp add: GetFilePath_def)
  then have "disk_rest (sample_disk\<lparr>dk_data := (\<lambda>_. replicate 256 0)\<rparr>) = disk_rest (le_disk sample_log)"
    by (auto simp: disk_rest_def plain_file_def fun_eq_iff sample_log_def sample_disk_def)
  then have "log_good (pe_log sample_pool)"
    using log_good_disk [OF _ d, of sample_log] sample_log_inv unfolding log_good_def by (auto simp: sample_pool_def)
  then show "pool_inv {} sample_pool"
    by (simp add: pool_inv_def frames_inv_def frames_def sample_pool_def BufferPool_new_def strategy_ok_def map_ok_Nil)
  show "consistent sample_pool (2, 10001, 0)"
    by (simp add: consistent_def frames_def sample_pool_def BufferPool_new_def)
  show "pool_view sample_pool (2, 10001, 0) = Some (replicate 256 0)"
    by (simp add: pool_view_def frame_ref_def frames_def sample_pool_def BufferPool_new_def disk_content_def oids_small_def
        page_content_def key_path_def sample_disk_def slice_def)
qed

theorem GetPage_transparent_witness:
  "\<exists>r s'. GetPage 2 10001 0 sample_pool = (Inr r, s') \<and> pg_data (page_of r s') = replicate 256 0"
  using GetPage_transparent [OF sample_pool_ok] by blast

text \<open>
  \<^verbatim>\<open>Flush\<close> makes the cache durable: it succeeds, writes every page of the user tables back (each under
  the write-ahead rule), empties the frames and the hash map, and changes what no page reads as;
  afterwards a page of a user table reads from the disk as it read through the cache before.
\<close>

theorem Flush_durable:
  assumes "pool_inv {} s"
  shows "\<exists>s'. BufferPool_Flush True s = (Inr (), s') \<and> pool_inv {} s' \<and> bp_buffers (pe_pool s') = []
     \<and> bp_hashmap (pe_pool s') = Map.empty
     \<and> (\<forall>k b. pool_view s k = Some b \<longrightarrow> pool_view s' k = Some b)
     \<and> (\<forall>k b. fst k \<noteq> SYSTEM_DATABASE_OID \<longrightarrow> pool_view s k = Some b \<longrightarrow> disk_content (pe_disk s') k = Some b)"
proof -
  obtain s' where s': "BufferPool_Flush True s = (Inr (), s')" "pool_inv {} s'" "bp_buffers (pe_pool s') = []"
    "\<forall>k c. pool_view s k = Some c \<longrightarrow> pool_view s' k = Some c"
    "\<forall>k c. fst k \<noteq> SYSTEM_DATABASE_OID \<longrightarrow> pool_view s k = Some c \<longrightarrow> disk_content (pe_disk s') k = Some c"
    by (rule BufferPool_Flush_regular [OF assms])
  moreover have "bp_hashmap (pe_pool s') = Map.empty"
    using s'(2,3) by (simp add: pool_inv_def map_ok_Nil)
  ultimately show ?thesis by blast
qed

theorem Flush_durable_witness:
  "\<exists>s'. BufferPool_Flush True sample_pool = (Inr (), s') \<and> disk_content (pe_disk s') (2, 10001, 0) = Some (replicate 256 0)"
proof -
  obtain s' where s': "BufferPool_Flush True sample_pool = (Inr (), s')"
    "\<forall>k b. fst k \<noteq> SYSTEM_DATABASE_OID \<longrightarrow> pool_view sample_pool k = Some b \<longrightarrow> disk_content (pe_disk s') k = Some b"
    using Flush_durable [OF sample_pool_ok(1)] by blast
  have "disk_content (pe_disk s') (2, 10001, 0) = Some (replicate 256 0)"
    using s'(2) [rule_format, OF _ sample_pool_ok(3)] by simp
  then show ?thesis using s'(1) by blast
qed

end
