(* ===== verification/Tables.thy ===== *)
theory Tables
  imports Buffer_Pool
begin

text \<open>
  \<^verbatim>\<open>src/src/table/table.cpp\<close>: a table as a chain of slotted pages reached through the buffer pool. The
  operations run on the pool (with its log and disk) and the table object together. The abstract view
  \<open>table_rep\<close> is the list of pages, each the list of its rows; insertion is shown to implement a
  first-fit insertion into that list, deletion and update likewise.
\<close>

section \<open>State\<close>

record Table =
  tb_oid :: oid_t
  tb_db_oid :: oid_t
  tb_first_page_id :: pageid_t
  tb_column_list :: ColumnList

text \<open>\<open>te_junk\<close> gives the contents of a buffer from \<^verbatim>\<open>new char[n]\<close>.\<close>

record TableEnv =
  te_pool :: PoolEnv
  te_table :: Table
  te_junk :: "nat \<Rightarrow> byte"

definition Table_new :: "oid_t \<Rightarrow> oid_t \<Rightarrow> ColumnList \<Rightarrow> bool \<Rightarrow> bool \<Rightarrow> Table" where
  "Table_new oid db_oid column_list new_table is_empty =
     \<lparr>tb_oid = oid, tb_db_oid = db_oid,
      tb_first_page_id = (if new_table \<or> is_empty then NULL_PAGE_ID else 0), tb_column_list = column_list\<rparr>"

definition on_pool :: "(PoolEnv, 'a) em \<Rightarrow> (TableEnv, 'a) em" where
  "on_pool = ezoom te_pool (\<lambda>p s. s\<lparr>te_pool := p\<rparr>)"

definition on_lm :: "(LogManager, 'a) em \<Rightarrow> (PoolEnv, 'a) em" where
  "on_lm m = in_log (on_log m)"

text \<open>Operations of \<^verbatim>\<open>TablePage\<close> on a shared page.\<close>

definition page_upd :: "nat \<Rightarrow> (Page \<Rightarrow> Page) \<Rightarrow> (PoolEnv, unit) em" where
  "page_upd r f s = set_page r (f (page_of r s)) s"

definition page_run :: "nat \<Rightarrow> (Page \<Rightarrow> ('a \<times> Page) result) \<Rightarrow> (PoolEnv, 'a) em" where
  "page_run r f s = (case f (page_of r s) of Inl e \<Rightarrow> (Inl e, s) | Inr (x, p) \<Rightarrow> (Inr x, snd (set_page r p s)))"

definition unit_run :: "(Page \<Rightarrow> Page result) \<Rightarrow> Page \<Rightarrow> (unit \<times> Page) result" where
  "unit_run f p = rbind (f p) (\<lambda>p'. Inr ((), p'))"

section \<open>Operations\<close>

text \<open>
  The log entries of an insertion into the page \<open>r\<close> with id \<open>page_id\<close>; \<open>fresh\<close> is the id of the page
  before it when the page has just been created.
\<close>

definition log_inserted ::
    "oid_t \<Rightarrow> nat \<Rightarrow> pageid_t \<Rightarrow> slotid_t \<Rightarrow> Record \<Rightarrow> xid_t \<Rightarrow> pageid_t option \<Rightarrow> (nat \<Rightarrow> byte) \<Rightarrow> (PoolEnv, unit) em" where
  "log_inserted oid r page_id slot_id rec xid fresh junk =
     ebind (case fresh of
              None \<Rightarrow> eret ()
            | Some prev \<Rightarrow> ebind (on_lm (AppendNewPageLog xid oid prev page_id)) (\<lambda>lsn_new.
                page_upd r (SetPageLSN lsn_new))) (\<lambda>_.
     ebind (eget (\<lambda>s. upper (page_of r s))) (\<lambda>offset.
     ebind (elift (Record_SerializeTo rec 0 (map junk [0..<unat (r_size rec) + 30]))) (\<lambda>(new_record, n).
     ebind (on_lm (AppendInsertLog xid oid page_id slot_id offset (r_size rec) new_record)) (\<lambda>lsn_insert.
       page_upd r (SetPageLSN lsn_insert)))))"

definition insert_at ::
    "oid_t \<Rightarrow> nat \<Rightarrow> pageid_t \<Rightarrow> Record \<Rightarrow> xid_t \<Rightarrow> cid_t \<Rightarrow> bool \<Rightarrow> pageid_t option \<Rightarrow> (nat \<Rightarrow> byte)
      \<Rightarrow> (PoolEnv, pageid_t \<times> slotid_t \<times> Record) em" where
  "insert_at oid r page_id rec xid cid write_log fresh junk =
     ebind (page_run r (\<lambda>p. rbind (TablePage_InsertRecord rec xid cid p) (\<lambda>(slot, rec', p'). Inr ((slot, rec'), p'))))
       (\<lambda>(slot, rec').
     ebind (if write_log then log_inserted oid r page_id slot rec' xid fresh junk else eret ()) (\<lambda>_.
       eret (page_id, slot, rec')))"

text \<open>
  The loop over the pages after the first one: \<open>Inl\<close> the place where the record went, or \<open>Inr\<close> the last
  page when no page has room, whose successor is then already set. A chain that runs into a cycle of
  full pages is followed for ever.
\<close>

fun insert_loop ::
    "oid_t \<Rightarrow> oid_t \<Rightarrow> Record \<Rightarrow> xid_t \<Rightarrow> cid_t \<Rightarrow> bool \<Rightarrow> (nat \<Rightarrow> byte) \<Rightarrow> nat \<Rightarrow> pageid_t \<Rightarrow> pageid_t
      \<Rightarrow> (PoolEnv, (pageid_t \<times> slotid_t \<times> Record) + pageid_t) em" where
  "insert_loop db oid rec xid cid write_log junk 0 last_page_id next_id = ethrow Diverges"
| "insert_loop db oid rec xid cid write_log junk (Suc fuel) last_page_id next_id =
     (if next_id = NULL_PAGE_ID then eret (Inr last_page_id)
      else ebind (GetPage db oid next_id) (\<lambda>r.
           ebind (eget (page_of r)) (\<lambda>p.
             if r_size rec \<le> GetFreeSpaceSize p
             then ebind (insert_at oid r next_id rec xid cid write_log None junk) (\<lambda>x. eret (Inl x))
             else ebind (if next_page_id p = NULL_PAGE_ID then page_upd r (SetNextPageId (next_id + 1)) else eret ()) (\<lambda>_.
                  insert_loop db oid rec xid cid write_log junk fuel next_id (next_page_id p)))))"

definition PAGE_FUEL :: nat where "PAGE_FUEL = 2 ^ 32"

definition append_page ::
    "oid_t \<Rightarrow> oid_t \<Rightarrow> Record \<Rightarrow> xid_t \<Rightarrow> cid_t \<Rightarrow> bool \<Rightarrow> (nat \<Rightarrow> byte) \<Rightarrow> pageid_t \<Rightarrow> pageid_t
      \<Rightarrow> (PoolEnv, pageid_t \<times> slotid_t \<times> Record) em" where
  "append_page db oid rec xid cid write_log junk prev page_id =
     ebind (NewPage db oid page_id) (\<lambda>r.
     ebind (page_upd r TablePage_Init) (\<lambda>_.
       insert_at oid r page_id rec xid cid write_log (Some prev) junk))"

definition insert_chain ::
    "oid_t \<Rightarrow> oid_t \<Rightarrow> Record \<Rightarrow> xid_t \<Rightarrow> cid_t \<Rightarrow> bool \<Rightarrow> (nat \<Rightarrow> byte) \<Rightarrow> pageid_t
      \<Rightarrow> (PoolEnv, pageid_t \<times> slotid_t \<times> Record) em" where
  "insert_chain db oid rec xid cid write_log junk first =
     ebind (GetPage db oid first) (\<lambda>r.
     ebind (eget (page_of r)) (\<lambda>p.
       if r_size rec \<le> GetFreeSpaceSize p
       then insert_at oid r first rec xid cid write_log None junk
       else ebind (insert_loop db oid rec xid cid write_log junk PAGE_FUEL first (next_page_id p)) (\<lambda>found.
            case found of
              Inl x \<Rightarrow> eret x
            | Inr last_page_id \<Rightarrow>
                ebind (if last_page_id = first then page_upd r (SetNextPageId (first + 1)) else eret ()) (\<lambda>_.
                  append_page db oid rec xid cid write_log junk last_page_id (last_page_id + 1)))))"

text \<open>\<open>Table_InsertRecord\<close> returns the rid and the record, which it stamps.\<close>

definition Table_InsertRecord :: "Record \<Rightarrow> xid_t \<Rightarrow> cid_t \<Rightarrow> bool \<Rightarrow> (TableEnv, Rid \<times> Record) em" where
  "Table_InsertRecord rec xid cid write_log s =
     (let t = te_table s; db = tb_db_oid t; oid = tb_oid t; junk = te_junk s
      in if unat (r_size rec) > MAX_RECORD_SIZE
         then (Inl (DbException (''Record size too large: '' @ nat_to_string (unat (r_size rec)))), s)
         else ebind (if tb_first_page_id t = NULL_PAGE_ID
                     then ebind (on_pool (NewPage db oid 0)) (\<lambda>r.
                          ebind (emodify (\<lambda>s. s\<lparr>te_table := (te_table s)\<lparr>tb_first_page_id := 0\<rparr>\<rparr>)) (\<lambda>_.
                          ebind (on_pool (page_upd r TablePage_Init)) (\<lambda>_.
                            on_pool (insert_at oid r 0 rec xid cid write_log (Some NULL_PAGE_ID) junk))))
                     else on_pool (insert_chain db oid rec xid cid write_log junk (tb_first_page_id t)))
                (\<lambda>(page_id, slot_id, rec').
                   let rid = \<lparr>rid_page_id = page_id, rid_slot_id = slot_id\<rparr>
                   in eret (rid, rec'\<lparr>r_rid := rid\<rparr>)) s)"

definition Table_DeleteRecord :: "Rid \<Rightarrow> xid_t \<Rightarrow> bool \<Rightarrow> (TableEnv, unit) em" where
  "Table_DeleteRecord rid xid write_log s =
     (let t = te_table s
      in on_pool
           (ebind (GetPage (tb_db_oid t) (tb_oid t) (rid_page_id rid)) (\<lambda>r.
            ebind (page_run r (unit_run (TablePage_DeleteRecord (rid_slot_id rid) xid))) (\<lambda>_.
              if write_log
              then ebind (on_lm (AppendDeleteLog xid (tb_oid t) (rid_page_id rid) (rid_slot_id rid))) (\<lambda>lsn_delete.
                     page_upd r (SetPageLSN lsn_delete))
              else eret ()))) s)"

definition Table_UpdateRecord :: "Rid \<Rightarrow> xid_t \<Rightarrow> cid_t \<Rightarrow> Record \<Rightarrow> bool \<Rightarrow> (TableEnv, Rid \<times> Record) em" where
  "Table_UpdateRecord rid xid cid rec write_log =
     ebind (Table_DeleteRecord rid xid write_log) (\<lambda>_. Table_InsertRecord rec xid cid write_log)"

definition Table_UpdateRecordInPlace :: "Record \<Rightarrow> (TableEnv, unit) em" where
  "Table_UpdateRecordInPlace rec s =
     (let t = te_table s
      in on_pool (ebind (GetPage (tb_db_oid t) (tb_oid t) (rid_page_id (r_rid rec))) (\<lambda>r.
            page_run r (unit_run (TablePage_UpdateRecordInPlace rec (rid_slot_id (r_rid rec)))))) s)"

section \<open>The abstract view\<close>

definition tkey :: "Table \<Rightarrow> nat \<Rightarrow> page_key" where
  "tkey t i = (tb_db_oid t, tb_oid t, of_nat i)"

definition page_at :: "PoolEnv \<Rightarrow> page_key \<Rightarrow> page_view \<Rightarrow> bool" where
  "page_at s k v \<longleftrightarrow> (\<exists>c. pool_view s k = Some c \<and> page_rep v \<lparr>pg_data = c, pg_dirty = False\<rparr>)"

text \<open>
  The table owns its file and the frames with its oid, which are frames of its pages \<open>0 ..< n\<close>; page
  \<open>i\<close> holds the rows \<open>rss ! i\<close> and points to page \<open>i + 1\<close>, the last page to \<open>nx\<close>.
\<close>

definition table_owns :: "Table \<Rightarrow> nat \<Rightarrow> PoolEnv \<Rightarrow> bool" where
  "table_owns t n s \<longleftrightarrow> pool_inv {} s \<and> n < 2 ^ 32 \<and> (\<forall>i. disk_writable (pe_disk s) (tkey t i)) \<and>
     (\<forall>k \<in> frame_keys s. fst (snd k) = tb_oid t \<longrightarrow> (\<exists>i < n. k = tkey t i))"

definition page_holds :: "Table \<Rightarrow> PoolEnv \<Rightarrow> nat \<Rightarrow> Record list \<Rightarrow> pageid_t \<Rightarrow> bool" where
  "page_holds t s i rows nx \<longleftrightarrow>
     (\<exists>v. page_at s (tkey t i) v \<and> page_rows (tb_column_list t) rows v \<and> pv_next v = nx)"

definition next_of :: "nat \<Rightarrow> pageid_t \<Rightarrow> nat \<Rightarrow> pageid_t" where
  "next_of n nx i = (if Suc i < n then of_nat (Suc i) else nx)"

definition table_pages :: "pageid_t \<Rightarrow> Table \<Rightarrow> Record list list \<Rightarrow> PoolEnv \<Rightarrow> bool" where
  "table_pages nx t rss s \<longleftrightarrow> table_owns t (length rss) s \<and>
     (\<forall>i < length rss. page_holds t s i (rss ! i) (next_of (length rss) nx i))"

definition table_rep :: "Record list list \<Rightarrow> TableEnv \<Rightarrow> bool" where
  "table_rep rss s \<longleftrightarrow> table_pages NULL_PAGE_ID (te_table s) rss (te_pool s) \<and> (\<forall>rows \<in> set rss. rows \<noteq> []) \<and>
     tb_first_page_id (te_table s) = (if rss = [] then NULL_PAGE_ID else 0)"

text \<open>Nothing outside the table changes.\<close>

definition frames_kept :: "Table \<Rightarrow> PoolEnv \<Rightarrow> PoolEnv \<Rightarrow> bool" where
  "frames_kept t s s' \<longleftrightarrow> disk_writable (pe_disk s') = disk_writable (pe_disk s) \<and>
     (\<forall>k \<in> frame_keys s'. k \<in> frame_keys s \<or> fst (snd k) = tb_oid t)"

definition outside_kept :: "Table \<Rightarrow> PoolEnv \<Rightarrow> PoolEnv \<Rightarrow> bool" where
  "outside_kept t s s' \<longleftrightarrow> frames_kept t s s' \<and> (\<forall>k c. fst (snd k) \<noteq> tb_oid t \<longrightarrow> pool_view s k = Some c \<longrightarrow> pool_view s' k = Some c)"

lemma outside_kept_refl [simp]:
  "pool_view s' = pool_view s \<Longrightarrow> frame_keys s' = frame_keys s \<Longrightarrow> disk_writable (pe_disk s') = disk_writable (pe_disk s) \<Longrightarrow>
   outside_kept t s s'"
  by (simp add: outside_kept_def frames_kept_def)

lemma outside_kept_trans: "outside_kept t a b \<Longrightarrow> outside_kept t b c \<Longrightarrow> outside_kept t a c"
  by (auto simp: outside_kept_def frames_kept_def)

lemma page_rep_dirty: "page_rep v \<lparr>pg_data = pg_data p, pg_dirty = d\<rparr> \<longleftrightarrow> page_rep v p"
  by (simp add: page_rep_def)

lemma tkey_inject:
  assumes "i < 2 ^ 32" "j < 2 ^ 32"
  shows "tkey t i = tkey t j \<longleftrightarrow> i = j"
proof -
  have "unat (of_nat i :: pageid_t) = i" "unat (of_nat j :: pageid_t) = j"
    by (rule unat_of_nat_small, use assms in simp)+
  then show ?thesis by (metis Pair_inject tkey_def)
qed

lemma table_owns_consistent:
  assumes "table_owns t n s"
  shows "consistent s (tkey t i)"
proof -
  have "be_db b = tb_db_oid t" if "b \<in> set (frames s)" "be_table b = tb_oid t" for b
    using assms that by (fastforce simp: table_owns_def frame_keys_def entry_disk_key_def tkey_def)
  then show ?thesis by (simp add: consistent_def tkey_def)
qed

lemma table_owns_lookup:
  assumes "table_owns t n s"
  shows "lookup s (tkey t n) = None"
proof (rule ccontr)
  assume "lookup s (tkey t n) \<noteq> None"
  then obtain j where j: "lookup s (tkey t n) = Some j" by blast
  have inv: "pool_inv {} s" using assms by (simp add: table_owns_def)
  have "tkey t n \<in> frame_keys s"
    using lookup_Some(2,3) [OF inv table_owns_consistent [OF assms] j] by (force simp: frame_keys_def)
  then obtain i where "i < n" "tkey t n = tkey t i"
    using assms by (auto simp: table_owns_def tkey_def)
  moreover have "n < 2 ^ 32" using assms by (simp add: table_owns_def)
  ultimately show False using tkey_inject [of n i t] by simp
qed

text \<open>A table is unaffected by a step that keeps its pages and adds frames of it only.\<close>

lemma table_pages_kept:
  assumes "table_pages nx t rss s" "pool_inv {} s'" "disk_writable (pe_disk s') = disk_writable (pe_disk s)"
    and "\<forall>k c. pool_view s k = Some c \<longrightarrow> pool_view s' k = Some c"
    and "\<forall>k \<in> frame_keys s'. k \<in> frame_keys s \<or> fst (snd k) \<noteq> tb_oid t \<or> (\<exists>i < length rss. k = tkey t i)"
  shows "table_pages nx t rss s'"
proof -
  have "page_holds t s' i rows nx'" if "page_holds t s i rows nx'" for i rows nx'
    using that assms(4) unfolding page_holds_def page_at_def by blast
  moreover have "table_owns t (length rss) s'"
    using assms(1-3,5) unfolding table_pages_def table_owns_def by metis
  ultimately show ?thesis
    using assms(1) by (auto simp: table_pages_def)
qed

lemma table_pages_log:
  assumes "table_pages nx t rss s" "log_good l'" "le_disk l' = pe_disk s"
  shows "table_pages nx t rss (s\<lparr>pe_log := l'\<rparr>)" "pool_view (s\<lparr>pe_log := l'\<rparr>) = pool_view s"
proof -
  have "pool_inv {} s" using assms(1) by (simp add: table_pages_def table_owns_def)
  note p = pool_inv_log [OF this assms(2)]
  show "pool_view (s\<lparr>pe_log := l'\<rparr>) = pool_view s" using p(2) assms(3) by simp
  then show "table_pages nx t rss (s\<lparr>pe_log := l'\<rparr>)"
    using p(1) assms(3) by (intro table_pages_kept [OF assms(1)]) (auto simp: frame_keys_def frames_def)
qed

text \<open>Fetching a page of the table.\<close>

lemma frames_kept_refl [simp]: "frames_kept t s s"
  by (simp add: frames_kept_def)

lemma frames_kept_trans: "frames_kept t a b \<Longrightarrow> frames_kept t b c \<Longrightarrow> frames_kept t a c"
  unfolding frames_kept_def by auto

lemma GetPage_table_frames:
  assumes tp: "table_pages nx t rss s" and i: "i < length rss"
  obtains r s' v where "GetPage (tb_db_oid t) (tb_oid t) (of_nat i) s = (Inr r, s')" "table_pages nx t rss s'"
    "holds s' (tkey t i) r" "page_rep v (page_of r s')" "page_rows (tb_column_list t) (rss ! i) v"
    "pv_next v = next_of (length rss) nx i" "log_kept (pe_log s) (pe_log s')" "outside_kept t s s'" "frames_kept t s s'"
proof -
  have own: "table_owns t (length rss) s" using tp by (simp add: table_pages_def)
  have inv: "pool_inv {} s" using own by (simp add: table_owns_def)
  obtain v c where v: "pool_view s (tkey t i) = Some c" "page_rep v \<lparr>pg_data = c, pg_dirty = False\<rparr>"
    "page_rows (tb_column_list t) (rss ! i) v" "pv_next v = next_of (length rss) nx i"
    using tp i by (auto simp: table_pages_def page_holds_def page_at_def)
  obtain r s' where g: "GetPage (fst (tkey t i)) (fst (snd (tkey t i))) (snd (snd (tkey t i))) s = (Inr r, s')"
    "pool_inv {} s'" "holds s' (tkey t i) r" "pg_data (page_of r s') = c" "views_kept s s'" "pe_fresh s' = pe_fresh s"
    "frame_keys s' \<subseteq> insert (tkey t i) (frame_keys s)"
    by (rule GetPage_ok [OF inv table_owns_consistent [OF own] v(1)])
  have vk: "\<forall>k c. pool_view s k = Some c \<longrightarrow> pool_view s' k = Some c"
    "disk_writable (pe_disk s') = disk_writable (pe_disk s)" "log_kept (pe_log s) (pe_log s')"
    using g(5) by (simp_all add: views_kept_def)
  have "table_pages nx t rss s'"
    by (rule table_pages_kept [OF tp g(2) vk(2,1)]) (use g(7) i in blast)
  moreover have "page_rep v (page_of r s')"
    using v(2) page_rep_dirty [of v "page_of r s'" False] g(4) by simp
  moreover have "frames_kept t s s'" using g(7) vk(2) by (auto simp: frames_kept_def tkey_def)
  moreover from this have "outside_kept t s s'" using vk(1) by (simp add: outside_kept_def)
  ultimately show thesis
    using that g(1,3) v(3,4) vk(3) by (simp add: tkey_def)
qed

lemma GetPage_table:
  assumes tp: "table_pages nx t rss s" and i: "i < length rss"
  obtains r s' v where "GetPage (tb_db_oid t) (tb_oid t) (of_nat i) s = (Inr r, s')" "table_pages nx t rss s'"
    "holds s' (tkey t i) r" "page_rep v (page_of r s')" "page_rows (tb_column_list t) (rss ! i) v"
    "pv_next v = next_of (length rss) nx i" "log_kept (pe_log s) (pe_log s')" "outside_kept t s s'"
  by (rule GetPage_table_frames [OF tp i]) (rule that)

text \<open>Another table survives what touches only the pages of \<open>t\<close>.\<close>

lemma table_pages_other:
  assumes "table_pages nx t2 rss s" "tb_oid t2 \<noteq> tb_oid t" "outside_kept t s s'" "frames_kept t s s'" "pool_inv {} s'"
  shows "table_pages nx t2 rss s'"
proof -
  have own: "table_owns t2 (length rss) s'"
    using assms(1,2,4,5) unfolding table_pages_def table_owns_def frames_kept_def by metis
  have "page_holds t2 s' i rows nx'" if "page_holds t2 s i rows nx'" for i rows nx'
    using that assms(2,3) unfolding page_holds_def page_at_def outside_kept_def by (metis fst_conv snd_conv tkey_def)
  then show ?thesis using own assms(1) by (auto simp: table_pages_def)
qed

text \<open>Changing a page of the table through a reference.\<close>

definition edited :: "nat \<Rightarrow> Page \<Rightarrow> PoolEnv \<Rightarrow> PoolEnv" where
  "edited r p s = s\<lparr>pe_heap := (pe_heap s)[r := p]\<rparr>"

lemma edited_simps [simp]: "pe_log (edited r p s) = pe_log s" "pe_pool (edited r p s) = pe_pool s"
  "pe_fresh (edited r p s) = pe_fresh s" "frame_keys (edited r p s) = frame_keys s"
  "edited r q (edited r p s) = edited r q s" "edited r p (s\<lparr>pe_log := l\<rparr>) = (edited r p s)\<lparr>pe_log := l\<rparr>"
  by (simp_all add: edited_def frame_keys_def frames_def)

lemma set_page_edited: "set_page r p s = (Inr (), edited r p s)"
  by (simp add: set_page_def edited_def)

lemma page_upd_edited: "page_upd r f s = (Inr (), edited r (f (page_of r s)) s)"
  by (simp add: page_upd_def set_page_edited)

lemma page_run_edited: "f (page_of r s) = Inr (x, p) \<Longrightarrow> page_run r f s = (Inr x, edited r p s)"
  by (simp add: page_run_def set_page_edited)

lemma edit_table:
  assumes tp: "table_pages nx t rss s" and i: "i < length rss" and h: "holds s (tkey t i) r"
    and p: "page_rep v p" "pg_dirty p" "page_rows (tb_column_list t) rows v"
    and nx: "pv_next v = next_of (length rss) nx' i" "Suc i < length rss \<longrightarrow> nx' = nx"
  shows "table_pages nx' t (rss[i := rows]) (edited r p s)" "holds (edited r p s) (tkey t i) r"
    "page_of r (edited r p s) = p" "outside_kept t s (edited r p s)"
proof -
  have own: "table_owns t (length rss) s" using tp by (simp add: table_pages_def)
  have inv: "pool_inv {} s" and n: "length rss < 2 ^ 32" using own by (simp_all add: table_owns_def)
  note sp = set_page_ok [OF inv h p(2) page_rep_length [OF p(1)], folded edited_def]
  show "holds (edited r p s) (tkey t i) r" "page_of r (edited r p s) = p" by (rule sp)+
  show "outside_kept t s (edited r p s)"
    unfolding outside_kept_def
  proof (intro conjI allI impI)
    show "frames_kept t s (edited r p s)" by (simp add: frames_kept_def)
    fix k c assume k: "fst (snd k) \<noteq> tb_oid t" "pool_view s k = Some c"
    then have "k \<noteq> tkey t i" by (auto simp: tkey_def)
    then show "pool_view (edited r p s) k = Some c" using sp(5) k(2) by simp
  qed
  have "table_owns t (length rss) (edited r p s)"
    using own sp(2) by (simp add: table_owns_def)
  moreover have "page_holds t (edited r p s) j (rss[i := rows] ! j) (next_of (length rss) nx' j)" if j: "j < length rss" for j
  proof (cases "j = i")
    case True
    then show ?thesis
      using sp(6) p nx(1) i by (auto simp: page_holds_def page_at_def page_rep_dirty)
  next
    case False
    then have "tkey t j \<noteq> tkey t i" using tkey_inject [of j i t] j i n by simp
    then have "pool_view (edited r p s) (tkey t j) = pool_view s (tkey t j)" using sp(5) by blast
    moreover have "next_of (length rss) nx' j = next_of (length rss) nx j"
      using nx(2) False i j by (auto simp: next_of_def)
    ultimately show ?thesis
      using tp False j by (simp add: table_pages_def page_holds_def page_at_def)
  qed
  ultimately show "table_pages nx' t (rss[i := rows]) (edited r p s)"
    by (simp add: table_pages_def)
qed

lemma held_view:
  assumes "table_pages nx t rss s" "i < length rss" "holds s (tkey t i) r"
  obtains v where "page_rep v (page_of r s)" "page_rows (tb_column_list t) (rss ! i) v"
    "pv_next v = next_of (length rss) nx i"
proof -
  have "pool_inv {} s" using assms(1) by (simp add: table_pages_def table_owns_def)
  then have "pool_view s (tkey t i) = Some (pg_data (page_of r s))"
    using pool_view_holds(1) assms(3) by blast
  then show thesis
    using assms(1,2) that by (auto simp: table_pages_def page_holds_def page_at_def page_rep_dirty)
qed

lemma lsn_edit:
  assumes tp: "table_pages nx t rss s" "i < length rss" "holds s (tkey t i) r"
  obtains s' v where "page_upd r (SetPageLSN lsn) s = (Inr (), s')" "table_pages nx t rss s'" "holds s' (tkey t i) r"
    "outside_kept t s s'" "pe_log s' = pe_log s" "page_at s' (tkey t i) v" "pv_lsn v = lsn"
proof -
  obtain v where v: "page_rep v (page_of r s)" "page_rows (tb_column_list t) (rss ! i) v"
    "pv_next v = next_of (length rss) nx i"
    by (rule held_view [OF tp])
  let ?v = "v\<lparr>pv_lsn := lsn\<rparr>" and ?p = "SetPageLSN lsn (page_of r s)"
  have p: "page_rep ?v ?p" "pg_dirty ?p" using SetPageLSN_rep [OF v(1), of lsn] by simp_all
  have rows: "page_rows (tb_column_list t) (rss ! i) ?v" using v(2) by (simp add: page_rows_def)
  note e = edit_table [OF tp p rows, of nx]
  have e1: "table_pages nx t rss (edited r ?p s)" "holds (edited r ?p s) (tkey t i) r" "page_of r (edited r ?p s) = ?p"
    "outside_kept t s (edited r ?p s)"
    using e v(3) by simp_all
  have "pool_inv {} (edited r ?p s)" using e1(1) by (simp add: table_pages_def table_owns_def)
  then have "page_at (edited r ?p s) (tkey t i) ?v"
    using pool_view_holds(1) e1(2,3) p(1) by (auto simp: page_at_def page_rep_dirty)
  then show thesis
    using that [OF _ e1(1,2,4)] by (simp add: page_upd_edited)
qed

section \<open>Writing the log\<close>

text \<open>The transaction is active and the log has room for \<open>m\<close> more records.\<close>

definition log_ready :: "nat \<Rightarrow> xid_t \<Rightarrow> LogEnv \<Rightarrow> bool" where
  "log_ready m xid e \<longleftrightarrow> map_of (lm_att (le_log e)) xid \<noteq> None \<and>
     unat (lm_next_lsn (le_log e)) + (m + 1) * LOG_SEGMENT_SIZE \<le> MAX_LOG_END \<and>
     29 + 12 * (length (lm_att (le_log e)) + m) + 16 * (length (lm_dpt (le_log e)) + 2 * m) \<le> LOG_SEGMENT_SIZE"

lemma log_ready_open: "log_ready (Suc m) xid e \<Longrightarrow> log_open (le_log e)"
  by (simp add: log_ready_def log_open_def)

lemma log_kept_ready: "log_kept e e' \<Longrightarrow> log_ready m xid e \<Longrightarrow> log_ready m xid e'"
  by (auto simp: log_kept_def log_ready_def)

lemma length_update_le: "length (AList.update k v al) \<le> Suc (length al)"
  by (induction al) auto

lemma length_SetDirtyPage: "length (lm_dpt (SetDirtyPage oid pid lsn l)) \<le> Suc (length (lm_dpt l))"
  by (simp add: SetDirtyPage_def length_update_le)

lemma length_SetDirtyPage2:
  "length (lm_dpt (if c then SetDirtyPage a b x (SetDirtyPage a' b' x l) else SetDirtyPage a' b' x l)) \<le> length (lm_dpt l) + 2"
  using length_SetDirtyPage [of a b x "SetDirtyPage a' b' x l"] length_SetDirtyPage [of a' b' x l] by simp

lemma append_ready:
  assumes "log_ready (Suc m) xid e" "rec_wf r" "lm_next_lsn l' = lm_next_lsn (le_log e) + LogRecord_GetSize r"
    and "map_of (lm_att l') xid \<noteq> None" "length (lm_att l') \<le> Suc (length (lm_att (le_log e)))"
    and "length (lm_dpt l') \<le> length (lm_dpt (le_log e)) + 2"
  shows "log_ready m xid (e\<lparr>le_log := l'\<rparr>)"
proof -
  have len: "unat (LogRecord_GetSize r) = length (log_bytes r)" "length (log_bytes r) \<le> LOG_SEGMENT_SIZE"
    using assms(2) LogRecord_GetSize_eq [of r] by (simp_all add: rec_wf_def)
  have "unat (lm_next_lsn (le_log e)) + (m + 2) * LOG_SEGMENT_SIZE \<le> MAX_LOG_END"
    using assms(1) by (simp add: log_ready_def)
  moreover from this have "unat (lm_next_lsn l') = unat (lm_next_lsn (le_log e)) + length (log_bytes r)"
    unfolding assms(3) using len by (subst unat_add_small) (simp_all add: MAX_LOG_END_def)
  ultimately show ?thesis
    using assms(1,4-6) len by (simp add: log_ready_def)
qed

lemma AppendInsertLog_ready:
  assumes "log_good e" "log_ready (Suc m) xid e" "unat sz \<le> length raw"
  obtains l' prev where "AppendInsertLog xid oid pid slot off sz raw (le_log e) = (Inr (lm_next_lsn (le_log e)), l')"
    "log_good (e\<lparr>le_log := l'\<rparr>)" "log_ready m xid (e\<lparr>le_log := l'\<rparr>)"
    "lm_buffer l' = lm_buffer (le_log e) @ [\<lparr>lr_lsn = lm_next_lsn (le_log e), lr_xid = xid, lr_prev_lsn = prev,
       lr_body = InsertLog oid pid slot off sz (take (unat sz) raw)\<rparr>]"
proof -
  obtain base prev where inv: "log_inv base e" and prev: "map_of (lm_att (le_log e)) xid = Some prev"
    using assms(1,2) by (auto simp: log_good_def log_ready_def)
  let ?r = "\<lparr>lr_lsn = NULL_LSN, lr_xid = xid, lr_prev_lsn = prev, lr_body = InsertLog oid pid slot off sz (take (unat sz) raw)\<rparr>"
  obtain l' where l': "AppendInsertLog xid oid pid slot off sz raw (le_log e) = (Inr (lm_next_lsn (le_log e)), l')"
    "lm_buffer l' = lm_buffer (le_log e) @ [?r\<lparr>lr_lsn := lm_next_lsn (le_log e)\<rparr>]"
    "lm_next_lsn l' = lm_next_lsn (le_log e) + LogRecord_GetSize ?r"
    "lm_att l' = AList.update xid (lm_next_lsn (le_log e)) (lm_att (le_log e))"
    "length (lm_dpt l') \<le> Suc (length (lm_dpt (le_log e)))"
  proof -
    let ?l1 = "push_back (?r\<lparr>lr_lsn := lm_next_lsn (le_log e)\<rparr>) (set_att xid (lm_next_lsn (le_log e))
       ((le_log e)\<lparr>lm_next_lsn := lm_next_lsn (le_log e) + LogRecord_GetSize ?r\<rparr>))"
    have "AppendInsertLog xid oid pid slot off sz raw (le_log e)
        = (Inr (lm_next_lsn (le_log e)), SetDirtyPage oid pid (lm_next_lsn (le_log e)) ?l1)"
      using prev assms(3) by (simp add: AppendInsertLog_def fetch_lsn_def slice_def)
    then show thesis
      using that length_SetDirtyPage [of oid pid "lm_next_lsn (le_log e)" ?l1] by (simp add: push_back_def set_att_def)
  qed
  have "rec_wf ?r" using assms(3) by (intro InsertLog_rec_wf) auto
  then have "log_ready m xid (e\<lparr>le_log := l'\<rparr>)"
    using l' by (intro append_ready [OF assms(2)]) (auto simp: update_conv length_update_le)
  moreover have "log_good (e\<lparr>le_log := l'\<rparr>)"
    using insert_inv [OF inv log_ready_open [OF assms(2)] l'(1)] by (auto simp: log_good_def)
  ultimately show thesis
    using that l'(1,2) by simp
qed

lemma AppendNewPageLog_ready:
  assumes "log_good e" "log_ready (Suc m) xid e"
  obtains l' lsn where "AppendNewPageLog xid oid prv pid (le_log e) = (Inr lsn, l')"
    "log_good (e\<lparr>le_log := l'\<rparr>)" "log_ready m xid (e\<lparr>le_log := l'\<rparr>)"
proof -
  obtain base prev where inv: "log_inv base e" and prev: "map_of (lm_att (le_log e)) xid = Some prev"
    using assms(1,2) by (auto simp: log_good_def log_ready_def)
  have x: "xid \<noteq> DDL_XID" using att_not_special [OF inv prev] by simp
  let ?r = "\<lparr>lr_lsn = NULL_LSN, lr_xid = xid, lr_prev_lsn = prev, lr_body = NewPageLog oid prv pid\<rparr>"
  obtain l' where l': "AppendNewPageLog xid oid prv pid (le_log e) = (Inr (lm_next_lsn (le_log e)), l')"
    "lm_next_lsn l' = lm_next_lsn (le_log e) + LogRecord_GetSize ?r"
    "lm_att l' = AList.update xid (lm_next_lsn (le_log e)) (lm_att (le_log e))"
    "length (lm_dpt l') \<le> length (lm_dpt (le_log e)) + 2"
  proof -
    let ?l1 = "push_back (?r\<lparr>lr_lsn := lm_next_lsn (le_log e)\<rparr>) (set_att xid (lm_next_lsn (le_log e))
       ((le_log e)\<lparr>lm_next_lsn := lm_next_lsn (le_log e) + LogRecord_GetSize ?r\<rparr>))"
    let ?l2 = "SetDirtyPage oid pid (lm_next_lsn (le_log e)) ?l1"
    let ?l' = "if prv \<noteq> NULL_PAGE_ID then SetDirtyPage oid prv (lm_next_lsn (le_log e)) ?l2 else ?l2"
    have "length (lm_dpt ?l') \<le> length (lm_dpt ?l1) + 2"
      by (rule length_SetDirtyPage2)
    moreover have "AppendNewPageLog xid oid prv pid (le_log e) = (Inr (lm_next_lsn (le_log e)), ?l')"
      using prev x att_lsn_small [OF inv prev]
      by (simp add: AppendNewPageLog_def fetch_lsn_def)
    ultimately show thesis using that by (simp add: push_back_def set_att_def)
  qed
  have "rec_wf ?r" by (rule fixed_rec_wf) simp
  then have "log_ready m xid (e\<lparr>le_log := l'\<rparr>)"
    using l' by (intro append_ready [OF assms(2)]) (auto simp: update_conv length_update_le)
  moreover have "log_good (e\<lparr>le_log := l'\<rparr>)"
    using new_page_inv [OF inv log_ready_open [OF assms(2)] l'(1)] by (auto simp: log_good_def)
  ultimately show thesis
    using that l'(1) by simp
qed

lemma on_lm_apply:
  "on_lm m s = (case m (le_log (pe_log s)) of (x, l') \<Rightarrow> (x, s\<lparr>pe_log := (pe_log s)\<lparr>le_log := l'\<rparr>\<rparr>))"
  by (simp add: on_lm_def in_log_def on_log_def ezoom_def split: prod.split)

lemma record_size:
  assumes "record_ok rec"
  shows "unat (r_size rec) = length (record_bytes rec)"
proof -
  have "r_size rec = of_nat (length (record_bytes rec))" using assms by (simp add: record_ok_def)
  then show ?thesis using length_record_bytes [OF assms] by (simp only:) (rule unat_of_nat_small, simp)
qed

lemma append_table:
  assumes tp: "table_pages nx t rss s" and l': "log_good ((pe_log s)\<lparr>le_log := l'\<rparr>)"
  defines "s' \<equiv> s\<lparr>pe_log := (pe_log s)\<lparr>le_log := l'\<rparr>\<rparr>"
  shows "table_pages nx t rss s'" "outside_kept t s s'" "holds s' k r = holds s k r"
    "page_of r s' = page_of r s"
  using table_pages_log [OF tp l'] by (simp_all add: s'_def holds_def frames_def page_of_def frame_keys_def)

lemma table_pages_good: "table_pages nx t rss s \<Longrightarrow> log_good (pe_log s)"
  by (simp add: table_pages_def table_owns_def pool_inv_def frames_inv_def)

text \<open>The log ends with the record of the insertion, and the page carries its LSN.\<close>

definition logs_insert :: "Table \<Rightarrow> nat \<Rightarrow> nat \<Rightarrow> Record \<Rightarrow> xid_t \<Rightarrow> PoolEnv \<Rightarrow> bool" where
  "logs_insert t i j rec xid s \<longleftrightarrow>
     (\<exists>rs lr off v. lm_buffer (le_log (pe_log s)) = rs @ [lr] \<and> lr_xid lr = xid \<and>
        lr_body lr = InsertLog (tb_oid t) (of_nat i) (of_nat j) off (r_size rec) (record_bytes rec) \<and>
        page_at s (tkey t i) v \<and> pv_lsn v = lr_lsn lr)"

lemma log_new_page_ok:
  assumes tp: "table_pages nx t rss s" and i: "i < length rss" and h: "holds s (tkey t i) r"
    and lg: "log_ready (Suc m) xid (pe_log s)"
  obtains s' where "(case fresh of None \<Rightarrow> eret ()
            | Some prev \<Rightarrow> ebind (on_lm (AppendNewPageLog xid (tb_oid t) prev pid)) (\<lambda>lsn_new.
                page_upd r (SetPageLSN lsn_new))) s = (Inr (), s')" "table_pages nx t rss s'" "holds s' (tkey t i) r"
    "outside_kept t s s'" "log_ready m xid (pe_log s')"
proof (cases fresh)
  case None
  have "log_ready m xid (pe_log s)" using lg by (auto simp: log_ready_def)
  then show thesis using that [of s] None tp h by simp
next
  case (Some prev)
  obtain l1 lsn where l1: "AppendNewPageLog xid (tb_oid t) prev pid (le_log (pe_log s)) = (Inr lsn, l1)"
    "log_good ((pe_log s)\<lparr>le_log := l1\<rparr>)" "log_ready m xid ((pe_log s)\<lparr>le_log := l1\<rparr>)"
    by (rule AppendNewPageLog_ready [OF table_pages_good [OF tp] lg])
  let ?s1 = "s\<lparr>pe_log := (pe_log s)\<lparr>le_log := l1\<rparr>\<rparr>"
  note a = append_table [OF tp l1(2)]
  obtain s' v where s': "page_upd r (SetPageLSN lsn) ?s1 = (Inr (), s')" "table_pages nx t rss s'" "holds s' (tkey t i) r"
    "outside_kept t ?s1 s'" "pe_log s' = pe_log ?s1" "page_at s' (tkey t i) v" "pv_lsn v = lsn"
    by (rule lsn_edit [OF a(1) i, of r lsn]) (use a(3) h in simp)
  have "(case fresh of None \<Rightarrow> eret ()
            | Some prev \<Rightarrow> ebind (on_lm (AppendNewPageLog xid (tb_oid t) prev pid)) (\<lambda>lsn_new.
                page_upd r (SetPageLSN lsn_new))) s = (Inr (), s')"
    using Some s'(1) by (simp add: ebind_def on_lm_apply l1(1))
  then show thesis
    using that s' l1(3) outside_kept_trans [OF a(2) s'(4)] by simp
qed

lemma log_inserted_ok:
  assumes tp: "table_pages nx t rss s" and i: "i < length rss" and h: "holds s (tkey t i) r"
    and ok: "record_ok rec" and lg: "log_ready (Suc (Suc m)) xid (pe_log s)"
  obtains s' where "log_inserted (tb_oid t) r (of_nat i) (of_nat j) rec xid fresh junk s = (Inr (), s')"
    "table_pages nx t rss s'" "outside_kept t s s'" "logs_insert t i j rec xid s'" "log_ready m xid (pe_log s')"
proof -
  obtain s1 where s1: "(case fresh of None \<Rightarrow> eret ()
            | Some prev \<Rightarrow> ebind (on_lm (AppendNewPageLog xid (tb_oid t) prev (of_nat i))) (\<lambda>lsn_new.
                page_upd r (SetPageLSN lsn_new))) s = (Inr (), s1)" "table_pages nx t rss s1" "holds s1 (tkey t i) r"
    "outside_kept t s s1" "log_ready (Suc m) xid (pe_log s1)"
    using log_new_page_ok [OF tp i h lg, where fresh = fresh] by metis
  let ?buf = "map junk [0..<unat (r_size rec) + 30]" and ?off = "upper (page_of r s1)"
  note sz = record_size [OF ok]
  let ?raw = "splice 0 (record_bytes rec) ?buf"
  have ser: "Record_SerializeTo rec 0 ?buf = Inr (?raw, of_nat (length (record_bytes rec)))"
    using sz by (intro Record_SerializeTo_eq ok) simp
  have raw: "take (unat (r_size rec)) ?raw = record_bytes rec" "unat (r_size rec) \<le> length ?raw"
    using sz by (simp_all add: splice_def)
  obtain l' prev where l': "AppendInsertLog xid (tb_oid t) (of_nat i) (of_nat j) ?off (r_size rec) ?raw (le_log (pe_log s1))
      = (Inr (lm_next_lsn (le_log (pe_log s1))), l')" "log_good ((pe_log s1)\<lparr>le_log := l'\<rparr>)"
    "log_ready m xid ((pe_log s1)\<lparr>le_log := l'\<rparr>)"
    "lm_buffer l' = lm_buffer (le_log (pe_log s1)) @ [\<lparr>lr_lsn = lm_next_lsn (le_log (pe_log s1)), lr_xid = xid, lr_prev_lsn = prev,
       lr_body = InsertLog (tb_oid t) (of_nat i) (of_nat j) ?off (r_size rec) (take (unat (r_size rec)) ?raw)\<rparr>]"
    using AppendInsertLog_ready [OF table_pages_good [OF s1(2)] s1(5) raw(2)] by metis
  let ?s2 = "s1\<lparr>pe_log := (pe_log s1)\<lparr>le_log := l'\<rparr>\<rparr>" and ?lsn = "lm_next_lsn (le_log (pe_log s1))"
  note a = append_table [OF s1(2) l'(2)]
  obtain s' v where s': "page_upd r (SetPageLSN ?lsn) ?s2 = (Inr (), s')" "table_pages nx t rss s'" "holds s' (tkey t i) r"
    "outside_kept t ?s2 s'" "pe_log s' = pe_log ?s2" "page_at s' (tkey t i) v" "pv_lsn v = ?lsn"
    by (rule lsn_edit [OF a(1) i, of r ?lsn]) (use a(3) s1(3) in simp)
  have run: "log_inserted (tb_oid t) r (of_nat i) (of_nat j) rec xid fresh junk s = (Inr (), s')"
    using s'(1) by (simp add: log_inserted_def ebind_def s1(1) ser on_lm_apply l'(1))
  have out: "outside_kept t s s'"
    using outside_kept_trans [OF s1(4) outside_kept_trans [OF a(2) s'(4)]] .
  have "logs_insert t i j rec xid s'"
    using s'(5-7) l'(4) raw(1) unfolding logs_insert_def by auto
  then show thesis using that [OF run s'(2) out] l'(3) s'(5) by simp
qed

section \<open>Inserting\<close>

definition fits :: "Record \<Rightarrow> Record list \<Rightarrow> bool" where
  "fits rec rows \<longleftrightarrow> 16 + sum_list (map (\<lambda>r. 4 + length (record_bytes r)) (rows @ [rec])) \<le> 256"

lemma fits_free:
  assumes "page_rep v p" "page_rows cl rows v" "record_ok rec"
  shows "r_size rec \<le> GetFreeSpaceSize p \<longleftrightarrow> fits rec rows" "fits rec rows \<Longrightarrow> length (record_bytes rec) + 4 \<le> free_space v"
proof -
  have sz: "unat (r_size rec) = length (record_bytes rec)" "13 \<le> length (record_bytes rec)"
    using record_size [OF assms(3)] by (simp_all add: record_bytes_def)
  have sum: "sum_list (map (\<lambda>r. 4 + length (record_bytes r)) rows) = 4 * length (pv_recs v) + total_len (pv_recs v)"
    using assms(2) by (simp add: page_rows_def total_len_def sum_list_addf comp_def sum_list_triv)
  have le: "16 + 4 * length (pv_recs v) + total_len (pv_recs v) \<le> 256" by (rule page_rep_bounds(1) [OF assms(1)])
  show "r_size rec \<le> GetFreeSpaceSize p \<longleftrightarrow> fits rec rows"
    unfolding word_le_nat_alt page_rep_free [OF assms(1)] sz(1) fits_def
    using sz(2) sum le by (auto simp: free_space_def)
  show "fits rec rows \<Longrightarrow> length (record_bytes rec) + 4 \<le> free_space v"
    using sum le by (simp add: fits_def free_space_def)
qed

definition stamped :: "xid_t \<Rightarrow> cid_t \<Rightarrow> Record \<Rightarrow> Record" where
  "stamped xid cid rec = SetXmin xid (SetCid cid rec)"

definition insertable :: "nat \<Rightarrow> Table \<Rightarrow> Record \<Rightarrow> bool \<Rightarrow> xid_t \<Rightarrow> LogEnv \<Rightarrow> bool" where
  "insertable m t rec write_log xid e \<longleftrightarrow> record_ok rec \<and> columns_fit (tb_column_list t) (r_values rec) \<and>
     length (record_bytes rec) \<le> MAX_RECORD_SIZE \<and> (write_log \<longrightarrow> log_ready (Suc (Suc m)) xid e)"

lemma insertable_kept: "log_kept e e' \<Longrightarrow> insertable m t rec w xid e \<Longrightarrow> insertable m t rec w xid e'"
  by (auto simp: insertable_def intro: log_kept_ready)

lemma insert_at_ok:
  assumes tp: "table_pages nx t rss s" and i: "i < length rss" and h: "holds s (tkey t i) r"
    and ins: "insertable m t rec write_log xid (pe_log s)" and fit: "fits rec (rss ! i)"
  obtains s' where "insert_at (tb_oid t) r (of_nat i) rec xid cid write_log fresh junk s
      = (Inr (of_nat i, of_nat (length (rss ! i)), stamped xid cid rec), s')"
    "table_pages nx t (rss[i := rss ! i @ [stamped xid cid rec]]) s'" "outside_kept t s s'"
    "write_log \<longrightarrow> logs_insert t i (length (rss ! i)) (stamped xid cid rec) xid s' \<and> log_ready m xid (pe_log s')"
    "\<not> write_log \<longrightarrow> pe_log s' = pe_log s"
proof -
  let ?rec = "stamped xid cid rec" and ?rss = "rss[i := rss ! i @ [stamped xid cid rec]]"
  have ok: "record_ok rec" "columns_fit (tb_column_list t) (r_values rec)" using ins by (simp_all add: insertable_def)
  have okr: "record_ok ?rec" using ok(1) unfolding stamped_def by (intro record_ok_setters)
  obtain v where v: "page_rep v (page_of r s)" "page_rows (tb_column_list t) (rss ! i) v"
    "pv_next v = next_of (length rss) nx i"
    by (rule held_view [OF tp i h])
  have len: "length (pv_recs v) = length (rss ! i)" using v(2) by (simp add: page_rows_def)
  obtain p where p: "TablePage_InsertRecord rec xid cid (page_of r s) = Inr (of_nat (length (rss ! i)), ?rec, p)"
    "page_rep (snoc_view (record_bytes ?rec) v) p" "pg_dirty p"
    using TablePage_InsertRecord_rep [OF v(1) ok(1) fits_free(2) [OF v(1,2) ok(1) fit], of xid cid] len
    unfolding stamped_def by metis
  have rows: "page_rows (tb_column_list t) (rss ! i @ [?rec]) (snoc_view (record_bytes ?rec) v)"
    using ok(2) okr by (intro page_rows_snoc v(2)) (simp_all add: stamped_def)
  note e = edit_table [OF tp i h p(2,3) rows, of nx]
  have e1: "table_pages nx t ?rss (edited r p s)" "holds (edited r p s) (tkey t i) r" "outside_kept t s (edited r p s)"
    using e v(3) by (simp_all add: snoc_view_def)
  have run: "page_run r (\<lambda>p. rbind (TablePage_InsertRecord rec xid cid p) (\<lambda>(slot, rec', p'). Inr ((slot, rec'), p'))) s
      = (Inr (of_nat (length (rss ! i)), ?rec), edited r p s)"
    by (rule page_run_edited) (simp add: p(1))
  show thesis
  proof (cases write_log)
    case False
    then show thesis using that [OF _ e1(1,3)] run by (simp add: insert_at_def ebind_def)
  next
    case True
    then have "log_ready (Suc (Suc m)) xid (pe_log (edited r p s))" using ins by (simp add: insertable_def)
    then obtain s' where s': "log_inserted (tb_oid t) r (of_nat i) (of_nat (length (rss ! i))) ?rec xid fresh junk (edited r p s) = (Inr (), s')"
      "table_pages nx t ?rss s'" "outside_kept t (edited r p s) s'" "logs_insert t i (length (rss ! i)) ?rec xid s'"
      "log_ready m xid (pe_log s')"
      using log_inserted_ok [OF e1(1) _ e1(2) okr] i by (metis length_list_update)
    then show thesis
      using that [OF _ s'(2) outside_kept_trans [OF e1(3) s'(3)]] True run by (simp add: insert_at_def ebind_def)
  qed
qed

subsection \<open>The specification: first fit\<close>

fun first_fit :: "Record \<Rightarrow> Record list list \<Rightarrow> nat" where
  "first_fit rec [] = 0"
| "first_fit rec (rows # rss) = (if fits rec rows then 0 else Suc (first_fit rec rss))"

definition place :: "nat \<Rightarrow> Record \<Rightarrow> Record list list \<Rightarrow> Record list list" where
  "place k rec rss = (if k < length rss then rss[k := rss ! k @ [rec]] else rss @ [[rec]])"

definition place_slot :: "nat \<Rightarrow> Record list list \<Rightarrow> nat" where
  "place_slot k rss = (if k < length rss then length (rss ! k) else 0)"

lemma first_fit_less:
  "i < length rss \<Longrightarrow> fits rec (rss ! i) \<Longrightarrow> \<forall>j < i. \<not> fits rec (rss ! j) \<Longrightarrow> first_fit rec rss = i"
proof (induction rss arbitrary: i)
  case (Cons rows rss)
  show ?case
  proof (cases i)
    case 0
    then show ?thesis using Cons.prems by simp
  next
    case (Suc j)
    then have "\<not> fits rec rows" "\<forall>m < j. \<not> fits rec (rss ! m)"
      using Cons.prems(3) by fastforce+
    then show ?thesis using Cons.IH [of j] Cons.prems Suc by simp
  qed
qed simp

lemma first_fit_none: "\<forall>j < length rss. \<not> fits rec (rss ! j) \<Longrightarrow> first_fit rec rss = length rss"
proof (induction rss)
  case (Cons rows rss)
  then have "\<not> fits rec rows" "\<forall>j < length rss. \<not> fits rec (rss ! j)" by fastforce+
  then show ?case using Cons.IH by simp
qed simp

text \<open>The state after the record has gone to page \<open>k\<close>.\<close>

definition placed :: "nat \<Rightarrow> Table \<Rightarrow> nat \<Rightarrow> Record \<Rightarrow> bool \<Rightarrow> xid_t \<Rightarrow> Record list list \<Rightarrow> PoolEnv \<Rightarrow> PoolEnv \<Rightarrow> bool" where
  "placed m t k rec write_log xid rss s s' \<longleftrightarrow> table_pages NULL_PAGE_ID t (place k rec rss) s' \<and> outside_kept t s s' \<and>
     (write_log \<longrightarrow> logs_insert t k (place_slot k rss) rec xid s' \<and> log_ready m xid (pe_log s'))"

abbreviation placed_at :: "nat \<Rightarrow> Record list list \<Rightarrow> Record \<Rightarrow> pageid_t \<times> slotid_t \<times> Record" where
  "placed_at k rss rec \<equiv> (of_nat k, of_nat (place_slot k rss), rec)"

lemma placed_outside: "outside_kept t a b \<Longrightarrow> placed m t k rec w xid rss b c \<Longrightarrow> placed m t k rec w xid rss a c"
  using outside_kept_trans by (auto simp: placed_def)

lemma insert_at_placed:
  assumes "table_pages NULL_PAGE_ID t rss s" "i < length rss" "holds s (tkey t i) r"
    "insertable m t rec write_log xid (pe_log s)" "fits rec (rss ! i)"
  obtains s' where "insert_at (tb_oid t) r (of_nat i) rec xid cid write_log None junk s
      = (Inr (placed_at i rss (stamped xid cid rec)), s')" "placed m t i (stamped xid cid rec) write_log xid rss s s'"
  using insert_at_ok [OF assms, of cid None junk] assms(2) unfolding placed_def place_def place_slot_def by auto

subsection \<open>A new page\<close>

lemma fresh_page_ok:
  assumes tp: "table_pages nx t rss s" and nx: "rss = [] \<or> nx = of_nat (length rss)" and n: "length rss + 1 < 2 ^ 32"
  obtains r s1 s2 where "NewPage (tb_db_oid t) (tb_oid t) (of_nat (length rss)) s = (Inr r, s1)"
    "page_upd r TablePage_Init s1 = (Inr (), s2)" "table_pages NULL_PAGE_ID t (rss @ [[]]) s2"
    "holds s2 (tkey t (length rss)) r" "outside_kept t s s2" "log_kept (pe_log s) (pe_log s2)"
proof -
  let ?k = "tkey t (length rss)" and ?r = "length (pe_heap s)"
  have own: "table_owns t (length rss) s" using tp by (simp add: table_pages_def)
  have inv: "pool_inv {} s" and w: "disk_writable (pe_disk s) ?k" using own by (simp_all add: table_owns_def)
  obtain s1 where s1: "NewPage (fst ?k) (fst (snd ?k)) (snd (snd ?k)) s = (Inr ?r, s1)"
    "pool_inv {?r} s1" "holds s1 ?k ?r"
    "\<forall>k' c. k' \<noteq> ?k \<longrightarrow> pool_view s k' = Some c \<longrightarrow> pool_view s1 k' = Some c" "pe_fresh s1 = pe_fresh s"
    "\<forall>r < length (pe_heap s). page_of r s1 = page_of r s" "length (pe_heap s1) = Suc (length (pe_heap s))"
    "length (pg_data (page_of ?r s1)) = 256" "disk_writable (pe_disk s1) = disk_writable (pe_disk s)"
    "log_kept (pe_log s) (pe_log s1)" "frame_keys s1 \<subseteq> insert ?k (frame_keys s)"
    by (rule NewPage_ok [OF inv w table_owns_lookup [OF own]])
  let ?p = "TablePage_Init (page_of ?r s1)"
  let ?s2 = "edited ?r ?p s1" and ?v = "\<lparr>pv_lsn = 0, pv_next = NULL_PAGE_ID, pv_recs = []\<rparr>"
  note p = TablePage_Init_rep [OF s1(8)]
  note sp = set_page_ok [OF s1(2,3) p(2) page_rep_length [OF p(1)], folded edited_def]
  have kept: "pool_view ?s2 k = Some c" if "k \<noteq> ?k" "pool_view s k = Some c" for k c
    using sp(5) s1(4) that by simp
  have "table_owns t (Suc (length rss)) ?s2"
    unfolding table_owns_def
  proof (intro conjI allI ballI impI)
    show "pool_inv {} ?s2" using sp(2) by simp
    show "Suc (length rss) < 2 ^ 32" using n by simp
    show "disk_writable (pe_disk ?s2) (tkey t i)" for i using own s1(9) by (simp add: table_owns_def)
    show "\<exists>i < Suc (length rss). k = tkey t i" if "k \<in> frame_keys ?s2" "fst (snd k) = tb_oid t" for k
    proof (cases "k = ?k")
      case False
      then have "k \<in> frame_keys s" using that(1) s1(11) by auto
      then show ?thesis using own that(2) unfolding table_owns_def by (meson less_SucI)
    qed blast
  qed
  moreover have "page_holds t ?s2 i ((rss @ [[]]) ! i) (next_of (Suc (length rss)) NULL_PAGE_ID i)" if i: "i < Suc (length rss)" for i
  proof (cases "i = length rss")
    case True
    have "page_at ?s2 ?k ?v" using sp(6) p(1) by (auto simp: page_at_def page_rep_dirty)
    then show ?thesis using True by (auto simp: page_holds_def page_rows_def next_of_def)
  next
    case False
    then have il: "i < length rss" using i by simp
    then have ne: "tkey t i \<noteq> ?k" using tkey_inject [of i "length rss" t] n by simp
    have "page_holds t s i (rss ! i) (next_of (length rss) nx i)" using tp il by (simp add: table_pages_def)
    moreover have "next_of (length rss) nx i = next_of (Suc (length rss)) NULL_PAGE_ID i"
    proof (cases "Suc i < length rss")
      case False
      then have "Suc i = length rss" using il by simp
      then show ?thesis using nx by (auto simp: next_of_def)
    qed (simp add: next_of_def)
    ultimately show ?thesis
      using kept [OF ne] il by (auto simp: page_holds_def page_at_def nth_append)
  qed
  ultimately have "table_pages NULL_PAGE_ID t (rss @ [[]]) ?s2"
    by (simp add: table_pages_def)
  moreover have "outside_kept t s ?s2"
    unfolding outside_kept_def using s1(9,11) by (intro conjI allI impI kept) (auto simp: tkey_def frames_kept_def)
  ultimately show thesis
    using that [of ?r s1 ?s2] s1(1,10) sp(3) by (simp add: page_upd_edited tkey_def)
qed

lemma fits_empty: "length (record_bytes rec) \<le> MAX_RECORD_SIZE \<Longrightarrow> fits rec []"
  by (simp add: fits_def)

lemma insert_fresh_ok:
  assumes tp: "table_pages NULL_PAGE_ID t (rss @ [[]]) s" and h: "holds s (tkey t (length rss)) r"
    and ins: "insertable m t rec write_log xid (pe_log s)"
  obtains s' where "insert_at (tb_oid t) r (of_nat (length rss)) rec xid cid write_log fresh junk s
      = (Inr (placed_at (length rss) rss (stamped xid cid rec)), s')"
    "placed m t (length rss) (stamped xid cid rec) write_log xid rss s s'"
proof -
  have i: "length rss < length (rss @ [[]])" by simp
  have f: "fits rec ((rss @ [[]]) ! length rss)" using ins by (simp add: fits_empty insertable_def)
  show thesis
    using insert_at_ok [OF tp i h ins f, of cid fresh junk] that by (auto simp: placed_def place_def place_slot_def)
qed

lemma append_page_ok:
  assumes "table_pages nx t rss s" "rss = [] \<or> nx = of_nat (length rss)" "length rss + 1 < 2 ^ 32"
    and ins: "insertable m t rec write_log xid (pe_log s)"
  obtains s' where "append_page (tb_db_oid t) (tb_oid t) rec xid cid write_log junk prev (of_nat (length rss)) s
      = (Inr (placed_at (length rss) rss (stamped xid cid rec)), s')"
    "placed m t (length rss) (stamped xid cid rec) write_log xid rss s s'"
proof -
  obtain r s1 s2 where s2: "NewPage (tb_db_oid t) (tb_oid t) (of_nat (length rss)) s = (Inr r, s1)"
    "page_upd r TablePage_Init s1 = (Inr (), s2)" "table_pages NULL_PAGE_ID t (rss @ [[]]) s2"
    "holds s2 (tkey t (length rss)) r" "outside_kept t s s2" "log_kept (pe_log s) (pe_log s2)"
    by (rule fresh_page_ok [OF assms(1-3)])
  obtain s' where "insert_at (tb_oid t) r (of_nat (length rss)) rec xid cid write_log (Some prev) junk s2
      = (Inr (placed_at (length rss) rss (stamped xid cid rec)), s')"
    "placed m t (length rss) (stamped xid cid rec) write_log xid rss s2 s'"
    by (rule insert_fresh_ok [OF s2(3,4) insertable_kept [OF s2(6) ins]])
  then show thesis
    using that s2(1,2) placed_outside [OF s2(5)] by (simp add: append_page_def ebind_def)
qed

subsection \<open>Walking the chain\<close>

lemma page_id_not_null: "Suc i < 2 ^ 32 \<Longrightarrow> of_nat i \<noteq> NULL_PAGE_ID"
proof
  assume i: "Suc i < 2 ^ 32" and e: "of_nat i = NULL_PAGE_ID"
  have "unat (of_nat i :: pageid_t) = i" by (rule unat_of_nat_small) (use i in simp)
  then show False using i unfolding e by simp
qed

text \<open>The successor of the last page is set before the new page exists.\<close>

lemma set_next_ok:
  assumes tp: "table_pages NULL_PAGE_ID t rss s" and i: "Suc i = length rss" and h: "holds s (tkey t i) r"
  obtains s' where "page_upd r (SetNextPageId (of_nat i + 1)) s = (Inr (), s')"
    "table_pages (of_nat (length rss)) t rss s'" "outside_kept t s s'" "pe_log s' = pe_log s"
proof -
  have il: "i < length rss" using i by simp
  obtain v where v: "page_rep v (page_of r s)" "page_rows (tb_column_list t) (rss ! i) v"
    by (rule held_view [OF tp il h])
  let ?x = "of_nat i + 1 :: pageid_t"
  let ?p = "SetNextPageId ?x (page_of r s)" and ?v = "v\<lparr>pv_next := ?x\<rparr>"
  have p: "page_rep ?v ?p" "pg_dirty ?p" using SetNextPageId_rep [OF v(1), of ?x] by simp_all
  have rows: "page_rows (tb_column_list t) (rss ! i) ?v" using v(2) by (simp add: page_rows_def)
  have nx: "of_nat (length rss) = ?x" unfolding i [symmetric] by simp
  note e = edit_table [OF tp il h p rows, of ?x]
  have "table_pages ?x t rss (edited r ?p s)" "outside_kept t s (edited r ?p s)"
    using e(1,4) i by (simp_all add: next_of_def)
  then show thesis
    using that [of "edited r ?p s"] nx by (simp add: page_upd_edited)
qed

text \<open>
  From page \<open>i\<close> on: the record goes to the first page with room, or the last page is returned with
  its successor set. Fuel for every remaining page is enough.
\<close>

lemma insert_loop_ok:
  assumes "table_pages NULL_PAGE_ID t rss s" "Suc i < length rss" "\<forall>j \<le> i. \<not> fits rec (rss ! j)" "length rss - i \<le> fuel"
    and "insertable m t rec w xid (pe_log s)"
  shows "\<exists>s'. if first_fit rec rss < length rss
     then insert_loop (tb_db_oid t) (tb_oid t) rec xid cid w junk fuel (of_nat i) (of_nat (Suc i)) s
            = (Inr (Inl (placed_at (first_fit rec rss) rss (stamped xid cid rec))), s')
          \<and> placed m t (first_fit rec rss) (stamped xid cid rec) w xid rss s s'
     else insert_loop (tb_db_oid t) (tb_oid t) rec xid cid w junk fuel (of_nat i) (of_nat (Suc i)) s
            = (Inr (Inr (of_nat (length rss - 1))), s') \<and> first_fit rec rss = length rss
          \<and> table_pages (of_nat (length rss)) t rss s' \<and> outside_kept t s s' \<and> insertable m t rec w xid (pe_log s')"
  using assms
proof (induction fuel arbitrary: i s)
  case 0
  then show ?case by simp
next
  case (Suc fuel)
  let ?loop = "insert_loop (tb_db_oid t) (tb_oid t) rec xid cid w junk"
  have n: "length rss < 2 ^ 32" using Suc.prems(1) by (simp add: table_pages_def table_owns_def)
  have nn: "(of_nat (Suc i) :: pageid_t) \<noteq> NULL_PAGE_ID" by (rule page_id_not_null) (use n Suc.prems(2) in linarith)
  obtain r s1 v where g: "GetPage (tb_db_oid t) (tb_oid t) (of_nat (Suc i)) s = (Inr r, s1)"
    "table_pages NULL_PAGE_ID t rss s1" "holds s1 (tkey t (Suc i)) r" "page_rep v (page_of r s1)"
    "page_rows (tb_column_list t) (rss ! Suc i) v" "pv_next v = next_of (length rss) NULL_PAGE_ID (Suc i)"
    "log_kept (pe_log s) (pe_log s1)" "outside_kept t s s1"
    by (rule GetPage_table [OF Suc.prems(1,2)])
  have ok: "record_ok rec" using Suc.prems(5) by (simp add: insertable_def)
  note ff = fits_free(1) [OF g(4,5) ok] and ins1 = insertable_kept [OF g(7) Suc.prems(5)]
  have step: "?loop (Suc fuel) (of_nat i) (of_nat (Suc i)) s =
      (if fits rec (rss ! Suc i)
       then ebind (insert_at (tb_oid t) r (of_nat (Suc i)) rec xid cid w None junk) (\<lambda>x. eret (Inl x)) s1
       else ebind (if next_of (length rss) NULL_PAGE_ID (Suc i) = NULL_PAGE_ID
                   then page_upd r (SetNextPageId (of_nat (Suc i) + 1)) else eret ()) (\<lambda>_.
              ?loop fuel (of_nat (Suc i)) (next_of (length rss) NULL_PAGE_ID (Suc i))) s1)"
    using nn g(1) ff page_rep_fields(2) [OF g(4)] g(6) by (simp only: insert_loop.simps if_False) (simp add: ebind_def)
  show ?case
  proof (cases "fits rec (rss ! Suc i)")
    case True
    have k: "first_fit rec rss = Suc i"
      by (rule first_fit_less [OF Suc.prems(2) True]) (use Suc.prems(3) in auto)
    obtain s' where "insert_at (tb_oid t) r (of_nat (Suc i)) rec xid cid w None junk s1
        = (Inr (placed_at (Suc i) rss (stamped xid cid rec)), s')" "placed m t (Suc i) (stamped xid cid rec) w xid rss s1 s'"
      by (rule insert_at_placed [OF g(2) Suc.prems(2) g(3) ins1 True])
    then show ?thesis
      unfolding step k using Suc.prems(2) True placed_outside [OF g(8)] by (simp add: ebind_def)
  next
    case False
    have no: "\<forall>j \<le> Suc i. \<not> fits rec (rss ! j)" using Suc.prems(3) False by (auto simp: le_Suc_eq)
    show ?thesis
    proof (cases "Suc (Suc i) < length rss")
      case True
      have nx: "next_of (length rss) NULL_PAGE_ID (Suc i) = of_nat (Suc (Suc i))" using True by (simp add: next_of_def)
      have "(of_nat (Suc (Suc i)) :: pageid_t) \<noteq> NULL_PAGE_ID" by (rule page_id_not_null) (use n True in linarith)
      then have run: "?loop (Suc fuel) (of_nat i) (of_nat (Suc i)) s = ?loop fuel (of_nat (Suc i)) (of_nat (Suc (Suc i))) s1"
        unfolding step nx using False by (simp only: if_False ebind_eret)
      have "length rss - Suc i \<le> fuel" using Suc.prems(4) by simp
      from Suc.IH [OF g(2) True no this ins1] show ?thesis
        unfolding run using placed_outside [OF g(8)] outside_kept_trans [OF g(8)] by (auto split: if_splits)
    next
      case last: False
      then have e: "Suc (Suc i) = length rss" using Suc.prems(2) by simp
      then have nx: "next_of (length rss) NULL_PAGE_ID (Suc i) = NULL_PAGE_ID" by (simp add: next_of_def)
      have k: "first_fit rec rss = length rss"
        by (rule first_fit_none) (use no e in \<open>auto simp: less_Suc_eq_le dest!: sym [of _ "length rss"]\<close>)
      obtain s2 where s2: "page_upd r (SetNextPageId (of_nat (Suc i) + 1)) s1 = (Inr (), s2)"
        "table_pages (of_nat (length rss)) t rss s2" "outside_kept t s1 s2" "pe_log s2 = pe_log s1"
        by (rule set_next_ok [OF g(2) e g(3)])
      obtain f where f: "fuel = Suc f" using Suc.prems(4) e by (cases fuel) auto
      have "?loop (Suc fuel) (of_nat i) (of_nat (Suc i)) s = (Inr (Inr (of_nat (Suc i))), s2)"
        unfolding step nx using False s2(1) by (simp add: ebind_def f)
      moreover have "Suc i = length rss - 1" using e by simp
      ultimately show ?thesis
        using k s2 ins1 outside_kept_trans [OF g(8) s2(3)] by auto
    qed
  qed
qed

text \<open>What \<open>insert_chain\<close> does once the first page has been fetched.\<close>

definition chain_rest :: "Table \<Rightarrow> Record list list \<Rightarrow> Record \<Rightarrow> xid_t \<Rightarrow> cid_t \<Rightarrow> bool \<Rightarrow> (nat \<Rightarrow> byte) \<Rightarrow> nat
    \<Rightarrow> (PoolEnv, pageid_t \<times> slotid_t \<times> Record) em" where
  "chain_rest t rss rec xid cid w junk r =
     (if fits rec (rss ! 0) then insert_at (tb_oid t) r 0 rec xid cid w None junk
      else ebind (insert_loop (tb_db_oid t) (tb_oid t) rec xid cid w junk PAGE_FUEL 0 (next_of (length rss) NULL_PAGE_ID 0)) (\<lambda>found.
             case found of Inl x \<Rightarrow> eret x
             | Inr last_page_id \<Rightarrow>
                 ebind (if last_page_id = 0 then page_upd r (SetNextPageId (0 + 1)) else eret ()) (\<lambda>_.
                   append_page (tb_db_oid t) (tb_oid t) rec xid cid w junk last_page_id (last_page_id + 1))))"

lemma chain_rest_single:
  assumes tp: "table_pages NULL_PAGE_ID t rss s" and h: "holds s (tkey t 0) r" and len: "Suc 0 = length rss"
    and ins: "insertable m t rec w xid (pe_log s)" and no: "\<not> fits rec (rss ! 0)"
  obtains s' where "chain_rest t rss rec xid cid w junk r s = (Inr (placed_at (first_fit rec rss) rss (stamped xid cid rec)), s')"
    "placed m t (first_fit rec rss) (stamped xid cid rec) w xid rss s s'"
proof -
  have k: "first_fit rec rss = length rss" by (rule first_fit_none) (use no len [symmetric] in auto)
  obtain f where f: "PAGE_FUEL = Suc f" using not0_implies_Suc [of PAGE_FUEL] by (auto simp: PAGE_FUEL_def)
  obtain s1 where s1: "page_upd r (SetNextPageId (of_nat 0 + 1)) s = (Inr (), s1)"
    "table_pages (of_nat (length rss)) t rss s1" "outside_kept t s s1" "pe_log s1 = pe_log s"
    by (rule set_next_ok [OF tp len h])
  have ins1: "insertable m t rec w xid (pe_log s1)" using ins s1(4) by simp
  have n: "length rss + 1 < 2 ^ 32" using len [symmetric] by simp
  obtain s' where s': "append_page (tb_db_oid t) (tb_oid t) rec xid cid w junk 0 (of_nat (length rss)) s1
      = (Inr (placed_at (length rss) rss (stamped xid cid rec)), s')"
    "placed m t (length rss) (stamped xid cid rec) w xid rss s1 s'"
    by (rule append_page_ok [OF s1(2) _ n ins1]) simp
  have "chain_rest t rss rec xid cid w junk r s = (Inr (placed_at (length rss) rss (stamped xid cid rec)), s')"
    using no s1(1) s'(1) len [symmetric] by (simp add: chain_rest_def f next_of_def ebind_def)
  then show thesis using that k placed_outside [OF s1(3) s'(2)] by simp
qed

lemma last_page_id:
  assumes "Suc 0 < length rss" "length rss < 2 ^ 32"
  shows "(of_nat (length rss - 1) :: pageid_t) \<noteq> 0" "(of_nat (length rss - 1) :: pageid_t) + 1 = of_nat (length rss)"
proof -
  have "unat (of_nat (length rss - 1) :: pageid_t) = length rss - 1" by (rule unat_of_nat_small) (use assms in simp)
  then show "(of_nat (length rss - 1) :: pageid_t) \<noteq> 0" using assms by auto
  have "(of_nat (length rss) :: pageid_t) = of_nat (Suc (length rss - 1))" using assms by simp
  then show "(of_nat (length rss - 1) :: pageid_t) + 1 = of_nat (length rss)" by (simp only: of_nat_Suc add.commute)
qed

lemma chain_rest_many:
  assumes tp: "table_pages NULL_PAGE_ID t rss s" and len: "Suc 0 < length rss" and n: "length rss + 1 < 2 ^ 32"
    and ins: "insertable m t rec w xid (pe_log s)" and no: "\<not> fits rec (rss ! 0)"
  obtains s' where "chain_rest t rss rec xid cid w junk r s = (Inr (placed_at (first_fit rec rss) rss (stamped xid cid rec)), s')"
    "placed m t (first_fit rec rss) (stamped xid cid rec) w xid rss s s'"
proof -
  have nx: "next_of (length rss) NULL_PAGE_ID 0 = of_nat (Suc 0)" using len by (simp add: next_of_def)
  let ?loop = "insert_loop (tb_db_oid t) (tb_oid t) rec xid cid w junk PAGE_FUEL 0 1 s"
  have fu: "length rss - 0 \<le> PAGE_FUEL" using n by (simp add: PAGE_FUEL_def)
  have "\<forall>j \<le> 0. \<not> fits rec (rss ! j)" using no by simp
  from insert_loop_ok [OF tp len this fu ins, of cid junk]
  obtain s2 where s2: "if first_fit rec rss < length rss
    then ?loop = (Inr (Inl (placed_at (first_fit rec rss) rss (stamped xid cid rec))), s2)
      \<and> placed m t (first_fit rec rss) (stamped xid cid rec) w xid rss s s2
    else ?loop = (Inr (Inr (of_nat (length rss - 1))), s2) \<and> first_fit rec rss = length rss
      \<and> table_pages (of_nat (length rss)) t rss s2 \<and> outside_kept t s s2 \<and> insertable m t rec w xid (pe_log s2)"
    unfolding semiring_1_class.of_nat_0 One_nat_def [symmetric] of_nat_1 by blast
  show thesis
  proof (cases "first_fit rec rss < length rss")
    case True
    then have "chain_rest t rss rec xid cid w junk r s = (Inr (placed_at (first_fit rec rss) rss (stamped xid cid rec)), s2)"
      unfolding chain_rest_def nx using no s2 by (simp add: ebind_def)
    then show thesis using that s2 True by simp
  next
    case False
    have s3: "?loop = (Inr (Inr (of_nat (length rss - 1))), s2)" "first_fit rec rss = length rss"
      "table_pages (of_nat (length rss)) t rss s2" "outside_kept t s s2" "insertable m t rec w xid (pe_log s2)"
      using s2 False by simp_all
    obtain s' where s': "append_page (tb_db_oid t) (tb_oid t) rec xid cid w junk (of_nat (length rss - 1)) (of_nat (length rss)) s2
        = (Inr (placed_at (length rss) rss (stamped xid cid rec)), s')"
      "placed m t (length rss) (stamped xid cid rec) w xid rss s2 s'"
      by (rule append_page_ok [OF s3(3) _ n s3(5)]) simp
    have "chain_rest t rss rec xid cid w junk r s = (Inr (placed_at (length rss) rss (stamped xid cid rec)), s')"
      unfolding chain_rest_def nx using no s3(1) s'(1) last_page_id [OF len] n by (simp add: ebind_def)
    then show thesis using that s3(2) placed_outside [OF s3(4) s'(2)] by simp
  qed
qed

lemma insert_chain_ok:
  assumes tp: "table_pages NULL_PAGE_ID t rss s" and ne: "rss \<noteq> []" and n: "length rss + 1 < 2 ^ 32"
    and ins: "insertable m t rec w xid (pe_log s)"
  obtains s' where "insert_chain (tb_db_oid t) (tb_oid t) rec xid cid w junk 0 s
      = (Inr (placed_at (first_fit rec rss) rss (stamped xid cid rec)), s')"
    "placed m t (first_fit rec rss) (stamped xid cid rec) w xid rss s s'"
proof -
  have i: "0 < length rss" using ne by simp
  obtain r s1 v where g: "GetPage (tb_db_oid t) (tb_oid t) (of_nat 0) s = (Inr r, s1)"
    "table_pages NULL_PAGE_ID t rss s1" "holds s1 (tkey t 0) r" "page_rep v (page_of r s1)"
    "page_rows (tb_column_list t) (rss ! 0) v" "pv_next v = next_of (length rss) NULL_PAGE_ID 0"
    "log_kept (pe_log s) (pe_log s1)" "outside_kept t s s1"
    by (rule GetPage_table [OF tp i])
  have ok: "record_ok rec" using ins by (simp add: insertable_def)
  note ff = fits_free(1) [OF g(4,5) ok] and ins1 = insertable_kept [OF g(7) ins]
  have run: "insert_chain (tb_db_oid t) (tb_oid t) rec xid cid w junk 0 s = chain_rest t rss rec xid cid w junk r s1"
    using g(1) ff page_rep_fields(2) [OF g(4)] g(6) by (simp add: insert_chain_def chain_rest_def ebind_def)
  have "\<exists>s'. chain_rest t rss rec xid cid w junk r s1 = (Inr (placed_at (first_fit rec rss) rss (stamped xid cid rec)), s')
      \<and> placed m t (first_fit rec rss) (stamped xid cid rec) w xid rss s1 s'"
  proof (cases "fits rec (rss ! 0)")
    case True
    obtain s' where "insert_at (tb_oid t) r (of_nat 0) rec xid cid w None junk s1 = (Inr (placed_at 0 rss (stamped xid cid rec)), s')"
      "placed m t 0 (stamped xid cid rec) w xid rss s1 s'"
      by (rule insert_at_placed [OF g(2) i g(3) ins1 True])
    then show ?thesis using True first_fit_less [OF i True] by (simp add: chain_rest_def)
  next
    case False
    then show ?thesis
      using chain_rest_single [OF g(2,3) _ ins1] chain_rest_many [OF g(2) _ n ins1] i by (metis Suc_lessI)
  qed
  then show thesis
    using that run placed_outside [OF g(8)] by metis
qed

section \<open>Deleting\<close>

text \<open>The history grows by one record of an active transaction.\<close>

definition log_adds :: "LogRecord \<Rightarrow> LogEnv \<Rightarrow> LogEnv \<Rightarrow> bool" where
  "log_adds r e e' \<longleftrightarrow> (\<forall>base H. log_hist base H e \<longrightarrow> log_hist base (H @ [r]) e') \<and>
     map_of (lm_att (le_log e)) (lr_xid r) = Some (lr_prev_lsn r) \<and>
     map_of (lm_att (le_log e')) = (map_of (lm_att (le_log e)))(lr_xid r \<mapsto> lr_lsn r) \<and>
     length (dk_log (le_disk e)) \<le> length (dk_log (le_disk e')) \<and>
     (lm_flushed_lsn (le_log e) \<noteq> NULL_LSN \<longrightarrow> lm_flushed_lsn (le_log e') \<noteq> NULL_LSN)"

lemma log_adds_kept: "log_kept e e1 \<Longrightarrow> log_adds r e1 e' \<Longrightarrow> log_adds r e e'"
  by (simp add: log_kept_def log_adds_def)

lemma append_adds:
  assumes "log_room r (le_log e)" "lm_next_lsn l' = lm_next_lsn (le_log e) + LogRecord_GetSize r"
    and "lm_buffer l' = lm_buffer (le_log e) @ [r\<lparr>lr_lsn := lm_next_lsn (le_log e)\<rparr>]"
    and "lm_flushed_lsn l' = lm_flushed_lsn (le_log e)" "map_of (lm_att (le_log e)) (lr_xid r) = Some (lr_prev_lsn r)"
    and "lm_att l' = AList.update (lr_xid r) (lm_next_lsn (le_log e)) (lm_att (le_log e))"
  shows "log_adds (r\<lparr>lr_lsn := lm_next_lsn (le_log e)\<rparr>) e (e\<lparr>le_log := l'\<rparr>)"
  using append_rep [OF _ assms(1-4)] assms(3-6) by (auto simp: log_adds_def log_hist_def update_conv')

lemma AppendDeleteLog_ready:
  assumes "log_good e" "log_ready (Suc m) xid e"
  obtains l' prev where "AppendDeleteLog xid oid pid slot (le_log e) = (Inr (lm_next_lsn (le_log e)), l')"
    "log_good (e\<lparr>le_log := l'\<rparr>)" "log_ready m xid (e\<lparr>le_log := l'\<rparr>)"
    "lm_buffer l' = lm_buffer (le_log e) @ [\<lparr>lr_lsn = lm_next_lsn (le_log e), lr_xid = xid, lr_prev_lsn = prev,
       lr_body = DeleteLog oid pid slot\<rparr>]"
    "log_adds \<lparr>lr_lsn = lm_next_lsn (le_log e), lr_xid = xid, lr_prev_lsn = prev, lr_body = DeleteLog oid pid slot\<rparr> e (e\<lparr>le_log := l'\<rparr>)"
proof -
  obtain base prev where inv: "log_inv base e" and prev: "map_of (lm_att (le_log e)) xid = Some prev"
    using assms(1,2) by (auto simp: log_good_def log_ready_def)
  let ?r = "\<lparr>lr_lsn = NULL_LSN, lr_xid = xid, lr_prev_lsn = prev, lr_body = DeleteLog oid pid slot\<rparr>"
  let ?l1 = "push_back (?r\<lparr>lr_lsn := lm_next_lsn (le_log e)\<rparr>) (set_att xid (lm_next_lsn (le_log e))
     ((le_log e)\<lparr>lm_next_lsn := lm_next_lsn (le_log e) + LogRecord_GetSize ?r\<rparr>))"
  let ?l' = "SetDirtyPage oid pid (lm_next_lsn (le_log e)) ?l1"
  have run: "AppendDeleteLog xid oid pid slot (le_log e) = (Inr (lm_next_lsn (le_log e)), ?l')"
    using prev by (simp add: AppendDeleteLog_def fetch_lsn_def)
  have dp: "length (lm_dpt ?l') \<le> Suc (length (lm_dpt (le_log e)))"
    using length_SetDirtyPage [of oid pid "lm_next_lsn (le_log e)" ?l1] by (simp add: push_back_def set_att_def)
  have "rec_wf ?r" by (rule fixed_rec_wf) simp
  from this have "log_ready m xid (e\<lparr>le_log := ?l'\<rparr>)"
    by (intro append_ready [OF assms(2)]) (use dp in \<open>auto simp: update_conv length_update_le push_back_def set_att_def\<close>)
  moreover have "log_good (e\<lparr>le_log := ?l'\<rparr>)"
    using delete_inv [OF inv log_ready_open [OF assms(2)] run] by (auto simp: log_good_def)
  moreover have "log_adds (?r\<lparr>lr_lsn := lm_next_lsn (le_log e)\<rparr>) e (e\<lparr>le_log := ?l'\<rparr>)"
    using log_open_room [OF log_ready_open [OF assms(2)] \<open>rec_wf ?r\<close>] prev
    by (intro append_adds) (simp_all add: push_back_def set_att_def)
  ultimately show thesis
    using that [OF run] by (simp add: push_back_def set_att_def)
qed

definition logs_delete :: "Table \<Rightarrow> nat \<Rightarrow> nat \<Rightarrow> xid_t \<Rightarrow> PoolEnv \<Rightarrow> bool" where
  "logs_delete t i j xid s \<longleftrightarrow>
     (\<exists>rs lr v. lm_buffer (le_log (pe_log s)) = rs @ [lr] \<and> lr_xid lr = xid \<and>
        lr_body lr = DeleteLog (tb_oid t) (of_nat i) (of_nat j) \<and> page_at s (tkey t i) v \<and> pv_lsn v = lr_lsn lr)"

text \<open>Rewriting the header of one row.\<close>

definition edit_row :: "nat \<Rightarrow> nat \<Rightarrow> (RecordHeader \<Rightarrow> RecordHeader) \<Rightarrow> Record list list \<Rightarrow> Record list list" where
  "edit_row i j f rss = rss[i := (rss ! i)[j := (rss ! i ! j)\<lparr>r_header := f (r_header (rss ! i ! j))\<rparr>]]"

definition mark_deleted :: "nat \<Rightarrow> nat \<Rightarrow> xid_t \<Rightarrow> Record list list \<Rightarrow> Record list list" where
  "mark_deleted i j xid rss = rss[i := (rss ! i)[j := SetXmax xid (SetDeleted True (rss ! i ! j))]]"

text \<open>The row addressed by a rid exists.\<close>

definition rid_valid :: "Rid \<Rightarrow> Record list list \<Rightarrow> bool" where
  "rid_valid rid rss \<longleftrightarrow> unat (rid_page_id rid) < length rss \<and> unat (rid_slot_id rid) < length (rss ! unat (rid_page_id rid))"

lemma edit_row_ok:
  assumes tp: "table_pages nx t rss s" and i: "i < length rss" and h: "holds s (tkey t i) r"
    and j: "unat slot < length (rss ! i)"
  obtains s' where "page_run r (unit_run (edit_header f slot)) s = (Inr (), s')"
    "table_pages nx t (edit_row i (unat slot) f rss) s'" "holds s' (tkey t i) r" "outside_kept t s s'" "pe_log s' = pe_log s"
proof -
  obtain v where v: "page_rep v (page_of r s)" "page_rows (tb_column_list t) (rss ! i) v"
    "pv_next v = next_of (length rss) nx i"
    by (rule held_view [OF tp i h])
  let ?v = "v\<lparr>pv_recs := (pv_recs v)[unat slot := with_header f (pv_recs v ! unat slot)]\<rparr>"
  have jl: "unat slot < length (pv_recs v)" using v(2) j by (simp add: page_rows_def)
  obtain p where p: "edit_header f slot (page_of r s) = Inr p" "pg_dirty p" "page_rep ?v p"
    using edit_header_rep [OF v(1) jl, of f] by metis
  note e = edit_table [OF tp i h p(3,2) page_rows_header [OF v(2) j, of f], of nx]
  have "page_run r (unit_run (edit_header f slot)) s = (Inr (), edited r p s)"
    by (rule page_run_edited) (simp add: unit_run_def p(1))
  then show thesis
    using that [of "edited r p s"] e v(3) by (simp add: edit_row_def)
qed

lemma mark_deleted_edit: "mark_deleted i j xid rss = edit_row i j (\<lambda>h. h\<lparr>rh_deleted := True, rh_xmax := xid\<rparr>) rss"
  by (simp add: mark_deleted_def edit_row_def SetXmax_def SetDeleted_def)

lemma delete_page_ok:
  assumes "table_pages nx t rss s" "i < length rss" "holds s (tkey t i) r" "unat slot < length (rss ! i)"
  obtains s' where "page_run r (unit_run (TablePage_DeleteRecord slot xid)) s = (Inr (), s')"
    "table_pages nx t (mark_deleted i (unat slot) xid rss) s'" "holds s' (tkey t i) r" "outside_kept t s s'" "pe_log s' = pe_log s"
  using edit_row_ok [OF assms, of "\<lambda>h. h\<lparr>rh_deleted := True, rh_xmax := xid\<rparr>"]
  unfolding mark_deleted_edit TablePage_DeleteRecord_def by metis

lemma Table_DeleteRecord_ok:
  assumes tp: "table_pages nx (te_table s) rss (te_pool s)" and rid: "rid_valid rid rss"
    and lg: "w \<Longrightarrow> log_ready (Suc m) xid (pe_log (te_pool s))"
  defines "i \<equiv> unat (rid_page_id rid)" and "j \<equiv> unat (rid_slot_id rid)"
  obtains p' where "Table_DeleteRecord rid xid w s = (Inr (), s\<lparr>te_pool := p'\<rparr>)"
    "table_pages nx (te_table s) (mark_deleted i j xid rss) p'" "outside_kept (te_table s) (te_pool s) p'"
    "w \<longrightarrow> logs_delete (te_table s) i j xid p' \<and> log_ready m xid (pe_log p')"
    "w \<longrightarrow> (\<exists>lsn prev. log_adds \<lparr>lr_lsn = lsn, lr_xid = xid, lr_prev_lsn = prev,
       lr_body = DeleteLog (tb_oid (te_table s)) (rid_page_id rid) (rid_slot_id rid)\<rparr> (pe_log (te_pool s)) (pe_log p'))"
proof -
  let ?t = "te_table s" and ?rss = "mark_deleted i j xid rss"
  have i: "i < length rss" and j: "unat (rid_slot_id rid) < length (rss ! i)"
    using rid by (simp_all add: rid_valid_def i_def)
  have ids: "of_nat i = rid_page_id rid" "of_nat j = rid_slot_id rid" by (simp_all add: i_def j_def)
  obtain r s1 v where g: "GetPage (tb_db_oid ?t) (tb_oid ?t) (of_nat i) (te_pool s) = (Inr r, s1)"
    "table_pages nx ?t rss s1" "holds s1 (tkey ?t i) r" "log_kept (pe_log (te_pool s)) (pe_log s1)" "outside_kept ?t (te_pool s) s1"
    using GetPage_table [OF tp i] by metis
  obtain s2 where s2: "page_run r (unit_run (TablePage_DeleteRecord (rid_slot_id rid) xid)) s1 = (Inr (), s2)"
    "table_pages nx ?t ?rss s2" "holds s2 (tkey ?t i) r" "outside_kept ?t s1 s2" "pe_log s2 = pe_log s1"
    using delete_page_ok [OF g(2) i g(3) j] unfolding j_def by metis
  note out2 = outside_kept_trans [OF g(5) s2(4)]
  show thesis
  proof (cases w)
    case False
    then have "Table_DeleteRecord rid xid w s = (Inr (), s\<lparr>te_pool := s2\<rparr>)"
      using g(1) s2(1) by (simp add: Table_DeleteRecord_def on_pool_def ezoom_def ebind_def ids Let_def)
    then show thesis using that s2(2) out2 False by simp
  next
    case True
    have rd: "log_ready (Suc m) xid (pe_log s2)" using log_kept_ready [OF g(4) lg [OF True]] s2(5) by simp
    let ?lsn = "lm_next_lsn (le_log (pe_log s2))"
    obtain l' prev where l': "AppendDeleteLog xid (tb_oid ?t) (rid_page_id rid) (rid_slot_id rid) (le_log (pe_log s2)) = (Inr ?lsn, l')"
      "log_good ((pe_log s2)\<lparr>le_log := l'\<rparr>)" "log_ready m xid ((pe_log s2)\<lparr>le_log := l'\<rparr>)"
      "lm_buffer l' = lm_buffer (le_log (pe_log s2)) @ [\<lparr>lr_lsn = ?lsn, lr_xid = xid, lr_prev_lsn = prev,
         lr_body = DeleteLog (tb_oid ?t) (rid_page_id rid) (rid_slot_id rid)\<rparr>]"
      "log_adds \<lparr>lr_lsn = ?lsn, lr_xid = xid, lr_prev_lsn = prev,
         lr_body = DeleteLog (tb_oid ?t) (rid_page_id rid) (rid_slot_id rid)\<rparr> (pe_log s2) ((pe_log s2)\<lparr>le_log := l'\<rparr>)"
      by (rule AppendDeleteLog_ready [OF table_pages_good [OF s2(2)] rd])
    let ?s3 = "s2\<lparr>pe_log := (pe_log s2)\<lparr>le_log := l'\<rparr>\<rparr>"
    note a = append_table [OF s2(2) l'(2)]
    have il: "i < length ?rss" using i by (simp add: mark_deleted_def)
    obtain s4 v where s4: "page_upd r (SetPageLSN ?lsn) ?s3 = (Inr (), s4)" "table_pages nx ?t ?rss s4" "holds s4 (tkey ?t i) r"
      "outside_kept ?t ?s3 s4" "pe_log s4 = pe_log ?s3" "page_at s4 (tkey ?t i) v" "pv_lsn v = ?lsn"
      by (rule lsn_edit [OF a(1) il, of r ?lsn]) (use a(3) s2(3) in simp)
    have "Table_DeleteRecord rid xid w s = (Inr (), s\<lparr>te_pool := s4\<rparr>)"
      using g(1) s2(1) s4(1) True
      by (simp add: Table_DeleteRecord_def on_pool_def ezoom_def ebind_def ids Let_def on_lm_apply l'(1))
    moreover have "logs_delete ?t i j xid s4"
      using s4(5-7) l'(4) ids unfolding logs_delete_def by auto
    moreover have "log_adds \<lparr>lr_lsn = ?lsn, lr_xid = xid, lr_prev_lsn = prev,
        lr_body = DeleteLog (tb_oid ?t) (rid_page_id rid) (rid_slot_id rid)\<rparr> (pe_log (te_pool s)) (pe_log s4)"
      using log_adds_kept [OF g(4)] l'(5) s2(5) s4(5) by simp
    ultimately show thesis
      using that [of s4] s4(2,5) l'(3) outside_kept_trans [OF out2 outside_kept_trans [OF a(2) s4(4)]] by auto
  qed
qed

section \<open>The operations on the whole table\<close>

lemma table_pages_first [simp]:
  "table_pages nx (t\<lparr>tb_first_page_id := x\<rparr>) rss s = table_pages nx t rss s"
  "outside_kept (t\<lparr>tb_first_page_id := x\<rparr>) s s' = outside_kept t s s'"
  "logs_insert (t\<lparr>tb_first_page_id := x\<rparr>) i j rec xid s = logs_insert t i j rec xid s"
proof -
  have k: "tkey (t\<lparr>tb_first_page_id := x\<rparr>) = tkey t" by (simp add: tkey_def fun_eq_iff)
  show "table_pages nx (t\<lparr>tb_first_page_id := x\<rparr>) rss s = table_pages nx t rss s"
    "outside_kept (t\<lparr>tb_first_page_id := x\<rparr>) s s' = outside_kept t s s'"
    "logs_insert (t\<lparr>tb_first_page_id := x\<rparr>) i j rec xid s = logs_insert t i j rec xid s"
    by (simp_all add: table_pages_def table_owns_def page_holds_def outside_kept_def frames_kept_def logs_insert_def k)
qed

definition placed_rid :: "nat \<Rightarrow> Record list list \<Rightarrow> Rid" where
  "placed_rid k rss = \<lparr>rid_page_id = of_nat k, rid_slot_id = of_nat (place_slot k rss)\<rparr>"

lemma insertable_size: "insertable m t rec w xid e \<Longrightarrow> unat (r_size rec) \<le> MAX_RECORD_SIZE"
  by (simp add: insertable_def record_size)

lemma insert_empty_ok:
  assumes tp: "table_pages nx t [] s" and ins: "insertable m t rec w xid (pe_log s)"
  obtains r s1 s2 s3 where "NewPage (tb_db_oid t) (tb_oid t) 0 s = (Inr r, s1)" "page_upd r TablePage_Init s1 = (Inr (), s2)"
    "insert_at (tb_oid t) r 0 rec xid cid w fresh junk s2 = (Inr (placed_at 0 [] (stamped xid cid rec)), s3)"
    "placed m t 0 (stamped xid cid rec) w xid [] s s3"
proof -
  obtain r s1 s2 where s2: "NewPage (tb_db_oid t) (tb_oid t) (of_nat (length ([] :: Record list list))) s = (Inr r, s1)"
    "page_upd r TablePage_Init s1 = (Inr (), s2)" "table_pages NULL_PAGE_ID t ([] @ [[]]) s2"
    "holds s2 (tkey t (length ([] :: Record list list))) r" "outside_kept t s s2" "log_kept (pe_log s) (pe_log s2)"
    by (rule fresh_page_ok [OF tp]) simp_all
  obtain s3 where s3: "insert_at (tb_oid t) r (of_nat (length ([] :: Record list list))) rec xid cid w fresh junk s2
      = (Inr (placed_at (length ([] :: Record list list)) [] (stamped xid cid rec)), s3)"
    "placed m t (length ([] :: Record list list)) (stamped xid cid rec) w xid [] s2 s3"
    by (rule insert_fresh_ok [OF s2(3,4) insertable_kept [OF s2(6) ins]])
  show thesis
    using that [of r s1 s2 s3] s2(1,2) s3 placed_outside [OF s2(5)] by simp
qed

lemma Table_InsertRecord_ok:
  assumes rep: "table_rep rss s" and ins: "insertable m (te_table s) rec w xid (pe_log (te_pool s))"
    and n: "length rss + 1 < 2 ^ 32"
  defines "k \<equiv> first_fit rec rss"
  obtains p' where "Table_InsertRecord rec xid cid w s = (Inr (placed_rid k rss, (stamped xid cid rec)\<lparr>r_rid := placed_rid k rss\<rparr>),
       s\<lparr>te_pool := p', te_table := (te_table s)\<lparr>tb_first_page_id := 0\<rparr>\<rparr>)"
    "placed m (te_table s) k (stamped xid cid rec) w xid rss (te_pool s) p'"
proof (cases "rss = []")
  case True
  let ?t = "te_table s"
  have tp: "table_pages NULL_PAGE_ID ?t [] (te_pool s)" and f: "tb_first_page_id ?t = NULL_PAGE_ID"
    using rep True by (simp_all add: table_rep_def)
  obtain r s1 s2 s3 where a: "NewPage (tb_db_oid ?t) (tb_oid ?t) 0 (te_pool s) = (Inr r, s1)"
    "page_upd r TablePage_Init s1 = (Inr (), s2)"
    "insert_at (tb_oid ?t) r 0 rec xid cid w (Some NULL_PAGE_ID) (te_junk s) s2 = (Inr (placed_at 0 [] (stamped xid cid rec)), s3)"
    "placed m ?t 0 (stamped xid cid rec) w xid [] (te_pool s) s3"
    by (rule insert_empty_ok [OF tp ins])
  have "Table_InsertRecord rec xid cid w s = (Inr (placed_rid 0 [], (stamped xid cid rec)\<lparr>r_rid := placed_rid 0 []\<rparr>),
      s\<lparr>te_pool := s3, te_table := ?t\<lparr>tb_first_page_id := 0\<rparr>\<rparr>)"
    using f insertable_size [OF ins] a(1-3) [unfolded place_slot_def]
    by (simp add: Table_InsertRecord_def Let_def ebind_def on_pool_def ezoom_def placed_rid_def place_slot_def)
  then show thesis using that a(4) True by (simp add: k_def)
next
  case False
  let ?t = "te_table s"
  have tp: "table_pages NULL_PAGE_ID ?t rss (te_pool s)" and f: "tb_first_page_id ?t = 0"
    using rep False by (simp_all add: table_rep_def)
  have t: "?t\<lparr>tb_first_page_id := 0\<rparr> = ?t" using f by simp
  obtain p' where p': "insert_chain (tb_db_oid ?t) (tb_oid ?t) rec xid cid w (te_junk s) 0 (te_pool s)
      = (Inr (placed_at k rss (stamped xid cid rec)), p')" "placed m ?t k (stamped xid cid rec) w xid rss (te_pool s) p'"
    unfolding k_def by (rule insert_chain_ok [OF tp False n ins])
  have "Table_InsertRecord rec xid cid w s = (Inr (placed_rid k rss, (stamped xid cid rec)\<lparr>r_rid := placed_rid k rss\<rparr>),
      s\<lparr>te_pool := p', te_table := ?t\<lparr>tb_first_page_id := 0\<rparr>\<rparr>)"
    unfolding Table_InsertRecord_def t using f insertable_size [OF ins] p'(1)
    by (simp add: Let_def ebind_def on_pool_def ezoom_def placed_rid_def)
  then show thesis using that p'(2) by blast
qed

lemma place_nonempty: "\<forall>rows \<in> set rss. rows \<noteq> [] \<Longrightarrow> \<forall>rows \<in> set (place k rec rss). rows \<noteq> []"
  by (auto simp: place_def dest!: subsetD [OF set_update_subset_insert])

lemma mark_deleted_nonempty: "\<forall>rows \<in> set rss. rows \<noteq> [] \<Longrightarrow> i < length rss \<Longrightarrow> \<forall>rows \<in> set (mark_deleted i j xid rss). rows \<noteq> []"
  unfolding mark_deleted_def by (intro ballI) (metis list_update_nonempty nth_mem set_update_subset_insert insertE subsetD)

lemma placed_rep:
  assumes "table_rep rss s" "placed m (te_table s) k rec w xid rss (te_pool s) p'"
  shows "table_rep (place k rec rss) (s\<lparr>te_pool := p', te_table := (te_table s)\<lparr>tb_first_page_id := 0\<rparr>\<rparr>)"
  using assms place_nonempty [of rss k rec] by (auto simp: table_rep_def placed_def place_def)

text \<open>Deletion does not change the size of a row, so it frees no space.\<close>

lemma fits_mark_deleted:
  assumes "i < length rss" "j < length (rss ! i)"
  shows "first_fit rec (mark_deleted i j xid rss) = first_fit rec rss"
proof -
  have "map (\<lambda>r. 4 + length (record_bytes r)) (xs[j := SetXmax xid (SetDeleted True (xs ! j))])
      = map (\<lambda>r. 4 + length (record_bytes r)) xs" for xs
  proof (rule nth_equalityI)
    fix m assume "m < length (map (\<lambda>r. 4 + length (record_bytes r)) (xs[j := SetXmax xid (SetDeleted True (xs ! j))]))"
    then show "map (\<lambda>r. 4 + length (record_bytes r)) (xs[j := SetXmax xid (SetDeleted True (xs ! j))]) ! m
        = map (\<lambda>r. 4 + length (record_bytes r)) xs ! m"
      by (cases "m = j") (simp_all add: record_bytes_def SetXmax_def SetDeleted_def)
  qed simp
  then have f: "fits rec (xs[j := SetXmax xid (SetDeleted True (xs ! j))]) = fits rec xs" for xs
    by (simp add: fits_def)
  have "first_fit rec (rss[i := rows]) = first_fit rec rss" if "i < length rss" "fits rec rows = fits rec (rss ! i)" for i rows rss
    using that by (induction rss arbitrary: i) (auto simp: nth_Cons' split: nat.split)
  then show ?thesis using assms(1) f by (simp add: mark_deleted_def)
qed

lemma Table_UpdateRecord_ok:
  assumes rep: "table_rep rss s" and rid: "rid_valid rid rss" and ins: "insertable m (te_table s) rec w xid (pe_log (te_pool s))"
    and n: "length rss + 1 < 2 ^ 32" and lg: "w \<Longrightarrow> log_ready (Suc (Suc (Suc m))) xid (pe_log (te_pool s))"
  defines "k \<equiv> first_fit rec rss" and "rss1 \<equiv> mark_deleted (unat (rid_page_id rid)) (unat (rid_slot_id rid)) xid rss"
  obtains p' where "Table_UpdateRecord rid xid cid rec w s = (Inr (placed_rid k rss1, (stamped xid cid rec)\<lparr>r_rid := placed_rid k rss1\<rparr>),
       s\<lparr>te_pool := p', te_table := (te_table s)\<lparr>tb_first_page_id := 0\<rparr>\<rparr>)"
    "table_rep (place k (stamped xid cid rec) rss1) (s\<lparr>te_pool := p', te_table := (te_table s)\<lparr>tb_first_page_id := 0\<rparr>\<rparr>)"
    "outside_kept (te_table s) (te_pool s) p'" "w \<longrightarrow> log_ready m xid (pe_log p')"
proof -
  let ?i = "unat (rid_page_id rid)" and ?j = "unat (rid_slot_id rid)" and ?t = "te_table s"
  have ij: "?i < length rss" "?j < length (rss ! ?i)" using rid by (simp_all add: rid_valid_def)
  have tp: "table_pages NULL_PAGE_ID ?t rss (te_pool s)" using rep by (simp add: table_rep_def)
  obtain p' where p': "Table_DeleteRecord rid xid w s = (Inr (), s\<lparr>te_pool := p'\<rparr>)"
    "table_pages NULL_PAGE_ID ?t rss1 p'" "outside_kept ?t (te_pool s) p'"
    "w \<longrightarrow> logs_delete ?t ?i ?j xid p' \<and> log_ready (Suc (Suc m)) xid (pe_log p')"
    using Table_DeleteRecord_ok [OF tp rid, of w "Suc (Suc m)" xid] lg unfolding rss1_def by metis
  let ?s = "s\<lparr>te_pool := p'\<rparr>"
  have rep1: "table_rep rss1 ?s"
    using rep p'(2) ij(1) mark_deleted_nonempty [of rss ?i] by (auto simp: table_rep_def mark_deleted_def rss1_def)
  have ins1: "insertable m (te_table ?s) rec w xid (pe_log (te_pool ?s))"
    using ins p'(4) by (simp add: insertable_def)
  have n1: "length rss1 + 1 < 2 ^ 32" using n by (simp add: mark_deleted_def rss1_def)
  have k: "first_fit rec rss1 = k" unfolding rss1_def k_def by (rule fits_mark_deleted [OF ij])
  obtain p2 where p2: "Table_InsertRecord rec xid cid w ?s =
      (Inr (placed_rid k rss1, (stamped xid cid rec)\<lparr>r_rid := placed_rid k rss1\<rparr>),
       ?s\<lparr>te_pool := p2, te_table := (te_table ?s)\<lparr>tb_first_page_id := 0\<rparr>\<rparr>)"
    "placed m (te_table ?s) k (stamped xid cid rec) w xid rss1 (te_pool ?s) p2"
    using Table_InsertRecord_ok [OF rep1 ins1 n1] unfolding k by blast
  have "outside_kept ?t (te_pool s) p2"
    using outside_kept_trans [OF p'(3)] p2(2) by (simp add: placed_def)
  then show thesis
    using that [of p2] p'(1) p2 placed_rep [OF rep1 p2(2)] by (simp add: Table_UpdateRecord_def ebind_def placed_def)
qed

section \<open>A sample table\<close>

text \<open>An empty table of the sample schema in the sample database, with transaction 7 running.\<close>

definition sample_table :: TableEnv where
  "sample_table = \<lparr>te_pool = sample_pool\<lparr>pe_log := (pe_log sample_pool)\<lparr>le_log := le_log sample_log1\<rparr>\<rparr>,
     te_table = Table_new 10001 2 sample_cols True True, te_junk = (\<lambda>_. 0)\<rparr>"

definition sample_table1 :: TableEnv where
  "sample_table1 = snd (Table_InsertRecord sample_row 7 1 False sample_table)"

lemma sample_table_ok: "table_rep [] sample_table"
  "insertable 0 (te_table sample_table) sample_row w 7 (pe_log (te_pool sample_table))"
  "table_pages NULL_PAGE_ID (te_table sample_table) [] (te_pool sample_table)"
proof -
  let ?e = "pe_log sample_pool"
  have e: "le_log ?e = le_log sample_log" by (simp add: sample_pool_def)
  have "log_good ?e" using sample_pool_ok(1) by (simp add: pool_inv_def frames_inv_def)
  then obtain base where inv: "log_inv base ?e" by (auto simp: log_good_def)
  obtain l' where run: "AppendBeginLog 7 (le_log ?e) = (Inr 0, l')"
    by (simp add: e AppendBeginLog_def sample_log_def LogManager_new_def fetch_lsn_def)
  have l': "l' = le_log sample_log1" using run by (simp add: e sample_log1_def)
  have "log_inv base (?e\<lparr>le_log := l'\<rparr>)"
    by (rule begin_inv [OF inv _ _ _ run]) (use sample_log_open in \<open>simp_all add: e\<close>)
  then have lg: "log_good (?e\<lparr>le_log := le_log sample_log1\<rparr>)" unfolding l' by (auto simp: log_good_def)
  have "pool_inv {} (te_pool sample_table)"
    using pool_inv_log(1) [OF sample_pool_ok(1) lg] by (simp add: sample_table_def)
  moreover have "disk_writable (pe_disk (te_pool sample_table)) (tkey (te_table sample_table) i)" for i
    by (simp add: sample_table_def Table_new_def tkey_def disk_writable_def oids_small_def key_path_def sample_pool_def
        FileExists_def sample_disk_def)
  moreover have "frame_keys (te_pool sample_table) = {}"
    by (simp add: frame_keys_def frames_def sample_table_def sample_pool_def BufferPool_new_def)
  ultimately show tp: "table_pages NULL_PAGE_ID (te_table sample_table) [] (te_pool sample_table)"
    by (simp add: table_pages_def table_owns_def)
  then show "table_rep [] sample_table"
    by (simp add: table_rep_def sample_table_def Table_new_def)
  have "log_ready (Suc (Suc 0)) 7 (pe_log (te_pool sample_table))"
    by (simp add: sample_table_def sample_log1_def sample_log_def LogManager_new_def AppendBeginLog_def fetch_lsn_def push_back_def
        set_att_def log_ready_def MAX_LOG_END_def LogRecord_GetSize_def)
  then show "insertable 0 (te_table sample_table) sample_row w 7 (pe_log (te_pool sample_table))"
    using sample_row_ok by (simp add: insertable_def sample_table_def Table_new_def)
qed

lemma sample_table1_ok: "table_rep [[stamped 7 1 sample_row]] sample_table1"
  "insertable 0 (te_table sample_table1) sample_row False 7 (pe_log (te_pool sample_table1))"
proof -
  obtain p' where p': "Table_InsertRecord sample_row 7 1 False sample_table
      = (Inr (placed_rid 0 [], (stamped 7 1 sample_row)\<lparr>r_rid := placed_rid 0 []\<rparr>),
         sample_table\<lparr>te_pool := p', te_table := (te_table sample_table)\<lparr>tb_first_page_id := 0\<rparr>\<rparr>)"
    "placed 0 (te_table sample_table) 0 (stamped 7 1 sample_row) False 7 [] (te_pool sample_table) p'"
    using Table_InsertRecord_ok [OF sample_table_ok(1) sample_table_ok(2) [of False], of 1] by auto
  show "table_rep [[stamped 7 1 sample_row]] sample_table1"
    using placed_rep [OF sample_table_ok(1) p'(2)] p'(1) by (simp add: sample_table1_def place_def)
  show "insertable 0 (te_table sample_table1) sample_row False 7 (pe_log (te_pool sample_table1))"
    using sample_table_ok(2) [of False] p'(1) by (simp add: insertable_def sample_table1_def)
qed

section \<open>Properties\<close>

text \<open>
  C8. \<^verbatim>\<open>Table::InsertRecord\<close> refines first-fit insertion into the list of pages: it always returns, it
  appends the record, stamped with the transaction and command, to the first page with room or to a
  new page at the end of the chain, returns that place, leaves every other table alone, and with
  logging the log ends with an insertion record that holds the very bytes stored and whose LSN is
  the page's LSN.
\<close>

theorem Table_InsertRecord_first_fit:
  assumes "table_rep rss s" "insertable 0 (te_table s) rec write_log xid (pe_log (te_pool s))" "length rss + 1 < 2 ^ 32"
  shows "\<exists>s'. Table_InsertRecord rec xid cid write_log s =
       (Inr (placed_rid (first_fit rec rss) rss, (stamped xid cid rec)\<lparr>r_rid := placed_rid (first_fit rec rss) rss\<rparr>), s')
     \<and> table_rep (place (first_fit rec rss) (stamped xid cid rec) rss) s' \<and> outside_kept (te_table s) (te_pool s) (te_pool s')
     \<and> (write_log \<longrightarrow> logs_insert (te_table s) (first_fit rec rss) (place_slot (first_fit rec rss) rss) (stamped xid cid rec) xid (te_pool s'))"
proof -
  obtain p' where p': "Table_InsertRecord rec xid cid write_log s =
      (Inr (placed_rid (first_fit rec rss) rss, (stamped xid cid rec)\<lparr>r_rid := placed_rid (first_fit rec rss) rss\<rparr>),
       s\<lparr>te_pool := p', te_table := (te_table s)\<lparr>tb_first_page_id := 0\<rparr>\<rparr>)"
    "placed 0 (te_table s) (first_fit rec rss) (stamped xid cid rec) write_log xid rss (te_pool s) p'"
    by (rule Table_InsertRecord_ok [OF assms])
  then show ?thesis
    using placed_rep [OF assms(1) p'(2)] p'(2) by (intro exI conjI) (auto simp: placed_def)
qed

theorem Table_InsertRecord_first_fit_witness:
  "\<exists>s'. fst (Table_InsertRecord sample_row 7 1 True sample_table) = Inr (placed_rid 0 [], (stamped 7 1 sample_row)\<lparr>r_rid := placed_rid 0 []\<rparr>)
     \<and> table_rep [[stamped 7 1 sample_row]] s' \<and> logs_insert (te_table sample_table) 0 0 (stamped 7 1 sample_row) 7 (te_pool s')"
  using Table_InsertRecord_first_fit [OF sample_table_ok(1) sample_table_ok(2) [of True], of 1]
  by (auto simp: place_def place_slot_def)

text \<open>
  \<^verbatim>\<open>Table::DeleteRecord\<close> of an existing row marks that row deleted by the transaction and changes
  nothing else, in this table or another; with logging the log ends with the deletion record of
  that slot and the page carries its LSN.
\<close>

theorem Table_DeleteRecord_marks:
  assumes "table_rep rss s" "rid_valid rid rss" "write_log \<Longrightarrow> log_ready 1 xid (pe_log (te_pool s))"
  shows "\<exists>s'. Table_DeleteRecord rid xid write_log s = (Inr (), s')
     \<and> table_rep (mark_deleted (unat (rid_page_id rid)) (unat (rid_slot_id rid)) xid rss) s'
     \<and> outside_kept (te_table s) (te_pool s) (te_pool s')
     \<and> (write_log \<longrightarrow> logs_delete (te_table s) (unat (rid_page_id rid)) (unat (rid_slot_id rid)) xid (te_pool s'))"
proof -
  have tp: "table_pages NULL_PAGE_ID (te_table s) rss (te_pool s)" using assms(1) by (simp add: table_rep_def)
  obtain p' where p': "Table_DeleteRecord rid xid write_log s = (Inr (), s\<lparr>te_pool := p'\<rparr>)"
    "table_pages NULL_PAGE_ID (te_table s) (mark_deleted (unat (rid_page_id rid)) (unat (rid_slot_id rid)) xid rss) p'"
    "outside_kept (te_table s) (te_pool s) p'"
    "write_log \<longrightarrow> logs_delete (te_table s) (unat (rid_page_id rid)) (unat (rid_slot_id rid)) xid p' \<and> log_ready 0 xid (pe_log p')"
    using Table_DeleteRecord_ok [OF tp assms(2), of write_log 0 xid] assms(3) by (metis One_nat_def)
  have "table_rep (mark_deleted (unat (rid_page_id rid)) (unat (rid_slot_id rid)) xid rss) (s\<lparr>te_pool := p'\<rparr>)"
    using assms(1,2) p'(2) mark_deleted_nonempty [of rss "unat (rid_page_id rid)"]
    by (auto simp: table_rep_def rid_valid_def mark_deleted_def)
  then show ?thesis using p' by (intro exI conjI) auto
qed

theorem Table_DeleteRecord_marks_witness:
  "\<exists>s'. Table_DeleteRecord \<lparr>rid_page_id = 0, rid_slot_id = 0\<rparr> 7 False sample_table1 = (Inr (), s')
     \<and> table_rep [[SetXmax 7 (SetDeleted True (stamped 7 1 sample_row))]] s'"
  using Table_DeleteRecord_marks [OF sample_table1_ok(1), of "\<lparr>rid_page_id = 0, rid_slot_id = 0\<rparr>" False 7]
  by (auto simp: rid_valid_def mark_deleted_def)

text \<open>
  \<^verbatim>\<open>Table::UpdateRecord\<close> marks the old version deleted and adds the new version by first fit; the
  deleted version keeps its space, so the new version goes where it would have gone before the
  deletion, and every other row stays as it was.
\<close>

theorem Table_UpdateRecord_versions:
  assumes "table_rep rss s" "rid_valid rid rss" "insertable 0 (te_table s) rec write_log xid (pe_log (te_pool s))"
    and "length rss + 1 < 2 ^ 32" "write_log \<Longrightarrow> log_ready 3 xid (pe_log (te_pool s))"
  shows "\<exists>s' rid'. Table_UpdateRecord rid xid cid rec write_log s = (Inr (rid', (stamped xid cid rec)\<lparr>r_rid := rid'\<rparr>), s')
     \<and> rid' = placed_rid (first_fit rec rss) (mark_deleted (unat (rid_page_id rid)) (unat (rid_slot_id rid)) xid rss)
     \<and> table_rep (place (first_fit rec rss) (stamped xid cid rec)
         (mark_deleted (unat (rid_page_id rid)) (unat (rid_slot_id rid)) xid rss)) s'
     \<and> outside_kept (te_table s) (te_pool s) (te_pool s')"
proof -
  have lg: "write_log \<Longrightarrow> log_ready (Suc (Suc (Suc 0))) xid (pe_log (te_pool s))" using assms(5) by (simp add: eval_nat_numeral)
  show ?thesis by (rule Table_UpdateRecord_ok [OF assms(1-4) lg, of cid]) auto
qed

theorem Table_UpdateRecord_versions_witness:
  "\<exists>s'. table_rep [[SetXmax 7 (SetDeleted True (stamped 7 1 sample_row)), stamped 7 2 sample_row]] s'
     \<and> snd (Table_UpdateRecord \<lparr>rid_page_id = 0, rid_slot_id = 0\<rparr> 7 2 sample_row False sample_table1) = s'"
proof -
  have "fits sample_row [stamped 7 1 sample_row]"
    using sample_row_ok(3) by (simp add: fits_def stamped_def SetXmin_def SetCid_def) (simp add: record_bytes_def)
  then show ?thesis
    using Table_UpdateRecord_versions [OF sample_table1_ok(1) _ sample_table1_ok(2), of "\<lparr>rid_page_id = 0, rid_slot_id = 0\<rparr>" 2]
    by (auto simp: rid_valid_def mark_deleted_def place_def)
qed

end
