(* ===== verification/Lock_Manager.thy ===== *)
theory Lock_Manager
  imports Common_Types
begin

text \<open>
  \<^verbatim>\<open>src/src/transaction/lock_manager.cpp\<close>: the multi-granularity lock table. Operations follow the
  loops of the source; the abstract view of a lock table is the map from a transaction and an
  object (a table, a row) to the mode held, and the operations are shown to refine the lattice-free
  specification on that view. The safety result is over every sequence of requests and releases.
\<close>

section \<open>Modes and locks\<close>

datatype LockType = IS | IX | S | SIX | X

datatype LockGranularity = TABLE | ROW

datatype DeadlockType = NONE | WAIT_DIE | WOUND_WAIT | DETECTION

text \<open>The \<^verbatim>\<open>rid_\<close> of a table lock is never written, and never read: \<open>None\<close>.\<close>

record Lock =
  lk_granularity :: LockGranularity
  lk_type :: LockType
  lk_oid :: oid_t
  lk_rid :: "Rid option"

text \<open>
  The \<^verbatim>\<open>std::map\<close> from transactions to their locks is an association list with distinct keys. Its
  order only decides which conflict ends a search first, never its outcome.
\<close>

record LockManager =
  lm_deadlock_type :: DeadlockType
  lm_lock_map :: "(xid_t \<times> Lock list) list"

definition LockManager_new :: LockManager where
  "LockManager_new = \<lparr>lm_deadlock_type = NONE, lm_lock_map = []\<rparr>"

definition SetDeadLockType :: "DeadlockType \<Rightarrow> LockManager \<Rightarrow> LockManager" where
  "SetDeadLockType d lm = lm\<lparr>lm_deadlock_type := d\<rparr>"

definition locks_of :: "LockManager \<Rightarrow> xid_t \<Rightarrow> Lock list" where
  "locks_of lm xid = (case map_of (lm_lock_map lm) xid of Some ls \<Rightarrow> ls | None \<Rightarrow> [])"

definition Compatible :: "LockType \<Rightarrow> LockType \<Rightarrow> bool" where
  "Compatible type_a type_b =
     (if type_a = S then (if type_b = S \<or> type_b = IS then True else False)
      else if type_a = X then False
      else if type_a = IS then (if type_b = X then False else True)
      else if type_a = IX then (if type_b = IS \<or> type_b = IX then True else False)
      else if type_a = SIX then (if type_b = IS then True else False)
      else True)"

definition Upgrade :: "LockType \<Rightarrow> LockType \<Rightarrow> LockType" where
  "Upgrade self other =
     (if self = S then (if other = X then X else if other = IX then SIX else S)
      else if self = X then X
      else if self = IS then other
      else if self = IX then
        (if other = S then SIX else if other = X \<or> other = SIX then other else self)
      else if self = SIX then (if other = X then other else self)
      else IS)"

section \<open>Requests and releases\<close>

definition is_table_lock :: "oid_t \<Rightarrow> Lock \<Rightarrow> bool" where
  "is_table_lock oid l \<longleftrightarrow> lk_granularity l = TABLE \<and> oid = lk_oid l"

definition is_row_lock :: "oid_t \<Rightarrow> Rid \<Rightarrow> Lock \<Rightarrow> bool" where
  "is_row_lock oid rid l \<longleftrightarrow> lk_granularity l = ROW \<and> lk_oid l = oid \<and> lk_rid l = Some rid"

text \<open>
  The first loop of a request: it upgrades the locks the transaction already has on the object and
  remembers the mode the last of them got; \<open>None\<close> means that none was found
  (\<^verbatim>\<open>exist_table_lock == false\<close>).
\<close>

fun LockTable_loop :: "oid_t \<Rightarrow> LockType \<Rightarrow> Lock list \<Rightarrow> LockType option \<Rightarrow> Lock list \<times> LockType option" where
  "LockTable_loop oid lock_type [] now = ([], now)"
| "LockTable_loop oid lock_type (it # ls) now =
     (if is_table_lock oid it then
        let t = Upgrade (lk_type it) lock_type;
            (ls', now') = LockTable_loop oid lock_type ls (Some t)
        in (it\<lparr>lk_type := t\<rparr> # ls', now')
      else
        let (ls', now') = LockTable_loop oid lock_type ls now
        in (it # ls', now'))"

definition LockTable_check :: "xid_t \<Rightarrow> oid_t \<Rightarrow> LockType \<Rightarrow> LockManager \<Rightarrow> bool" where
  "LockTable_check xid oid now lm =
     list_all (\<lambda>(x, ls). x = xid \<or> list_all (\<lambda>it. is_table_lock oid it \<longrightarrow> Compatible (lk_type it) now) ls)
       (lm_lock_map lm)"

definition LockTable :: "xid_t \<Rightarrow> LockType \<Rightarrow> oid_t \<Rightarrow> LockManager \<Rightarrow> bool \<times> LockManager" where
  "LockTable xid lock_type oid lm =
     (let (ls, now) = LockTable_loop oid lock_type (locks_of lm xid) None;
          (ls', now') = (case now of
             Some t \<Rightarrow> (ls, t)
           | None \<Rightarrow> (ls @ [\<lparr>lk_granularity = TABLE, lk_type = lock_type, lk_oid = oid, lk_rid = None\<rparr>], lock_type));
          lm' = lm\<lparr>lm_lock_map := AList.update xid ls' (lm_lock_map lm)\<rparr>
      in (LockTable_check xid oid now' lm', lm'))"

definition intention :: "LockType \<Rightarrow> LockType" where
  "intention lock_type = (if lock_type = S then IS else IX)"

fun LockRow_loop :: "oid_t \<Rightarrow> Rid \<Rightarrow> LockType \<Rightarrow> Lock list \<Rightarrow> LockType option \<Rightarrow> LockType option
    \<Rightarrow> Lock list \<times> LockType option \<times> LockType option" where
  "LockRow_loop oid rid lock_type [] tnow rnow = ([], tnow, rnow)"
| "LockRow_loop oid rid lock_type (it # ls) tnow rnow =
     (if is_table_lock oid it then
        let t = Upgrade (lk_type it) (intention lock_type);
            (ls', now') = LockRow_loop oid rid lock_type ls (Some t) rnow
        in (it\<lparr>lk_type := t\<rparr> # ls', now')
      else if is_row_lock oid rid it then
        let t = Upgrade (lk_type it) lock_type;
            (ls', now') = LockRow_loop oid rid lock_type ls tnow (Some t)
        in (it\<lparr>lk_type := t\<rparr> # ls', now')
      else
        let (ls', now') = LockRow_loop oid rid lock_type ls tnow rnow
        in (it # ls', now'))"

definition LockRow_check :: "xid_t \<Rightarrow> oid_t \<Rightarrow> Rid \<Rightarrow> LockType \<Rightarrow> LockType \<Rightarrow> LockManager \<Rightarrow> bool" where
  "LockRow_check xid oid rid tnow rnow lm =
     list_all (\<lambda>(x, ls). x = xid \<or>
         list_all (\<lambda>it. if is_table_lock oid it then Compatible (lk_type it) tnow
                        else is_row_lock oid rid it \<longrightarrow> Compatible (lk_type it) rnow) ls)
       (lm_lock_map lm)"

definition LockRow :: "xid_t \<Rightarrow> LockType \<Rightarrow> oid_t \<Rightarrow> Rid \<Rightarrow> LockManager \<Rightarrow> bool \<times> LockManager" where
  "LockRow xid lock_type oid rid lm =
     (let (ls, tnow, rnow) = LockRow_loop oid rid lock_type (locks_of lm xid) None None;
          (ls1, rnow') = (case rnow of
             Some t \<Rightarrow> (ls, t)
           | None \<Rightarrow> (ls @ [\<lparr>lk_granularity = ROW, lk_type = lock_type, lk_oid = oid, lk_rid = Some rid\<rparr>], lock_type));
          (ls2, tnow') = (case tnow of
             Some t \<Rightarrow> (ls1, t)
           | None \<Rightarrow> (ls1 @ [\<lparr>lk_granularity = TABLE, lk_type = intention lock_type, lk_oid = oid, lk_rid = None\<rparr>],
                      intention lock_type));
          lm' = lm\<lparr>lm_lock_map := AList.update xid ls2 (lm_lock_map lm)\<rparr>
      in (LockRow_check xid oid rid tnow' rnow' lm', lm'))"

definition ReleaseLocks :: "xid_t \<Rightarrow> LockManager \<Rightarrow> LockManager" where
  "ReleaseLocks xid lm = lm\<lparr>lm_lock_map := AList.update xid [] (lm_lock_map lm)\<rparr>"

section \<open>The abstract view\<close>

datatype lobj = TableObj oid_t | RowObj oid_t "Rid option"

definition lock_obj :: "Lock \<Rightarrow> lobj" where
  "lock_obj l = (case lk_granularity l of TABLE \<Rightarrow> TableObj (lk_oid l) | ROW \<Rightarrow> RowObj (lk_oid l) (lk_rid l))"

definition modes :: "Lock list \<Rightarrow> lobj \<Rightarrow> LockType option" where
  "modes ls = map_of (map (\<lambda>l. (lock_obj l, lk_type l)) ls)"

definition held :: "LockManager \<Rightarrow> xid_t \<Rightarrow> lobj \<Rightarrow> LockType option" where
  "held lm xid = modes (locks_of lm xid)"

definition lock_wf :: "LockManager \<Rightarrow> bool" where
  "lock_wf lm \<longleftrightarrow> distinct (map fst (lm_lock_map lm))
     \<and> (\<forall>(x, ls) \<in> set (lm_lock_map lm). distinct (map lock_obj ls))"

definition acquire :: "LockType option \<Rightarrow> LockType \<Rightarrow> LockType" where
  "acquire cur t = (case cur of None \<Rightarrow> t | Some s \<Rightarrow> Upgrade s t)"

definition mode_ok :: "LockType option \<Rightarrow> LockType \<Rightarrow> bool" where
  "mode_ok other t = (case other of None \<Rightarrow> True | Some s \<Rightarrow> Compatible s t)"

lemma is_table_lock_obj: "is_table_lock oid l \<longleftrightarrow> lock_obj l = TableObj oid"
  by (auto simp: is_table_lock_def lock_obj_def split: LockGranularity.splits)

lemma is_row_lock_obj: "is_row_lock oid rid l \<longleftrightarrow> lock_obj l = RowObj oid (Some rid)"
  by (auto simp: is_row_lock_def lock_obj_def split: LockGranularity.splits)

lemma lock_obj_update [simp]: "lock_obj (l\<lparr>lk_type := t\<rparr>) = lock_obj l"
  by (simp add: lock_obj_def split: LockGranularity.split)

lemma lock_obj_make [simp]:
  "lock_obj \<lparr>lk_granularity = TABLE, lk_type = t, lk_oid = oid, lk_rid = r\<rparr> = TableObj oid"
  "lock_obj \<lparr>lk_granularity = ROW, lk_type = t, lk_oid = oid, lk_rid = r\<rparr> = RowObj oid r"
  by (simp_all add: lock_obj_def)

lemma modes_simps [simp]:
  "modes [] = Map.empty"
  "modes (l # ls) = (modes ls)(lock_obj l \<mapsto> lk_type l)"
  by (simp_all add: modes_def)

lemma modes_None_iff: "modes ls k = None \<longleftrightarrow> k \<notin> lock_obj ` set ls"
  by (auto simp: modes_def map_of_eq_None_iff image_image)

lemma modes_append: "modes (ls @ ms) = modes ms ++ modes ls"
  by (simp add: modes_def)

lemma modes_Some_iff:
  "distinct (map lock_obj ls) \<Longrightarrow> modes ls k = Some t \<longleftrightarrow> (\<exists>l \<in> set ls. lock_obj l = k \<and> lk_type l = t)"
  by (subst modes_def, subst map_of_eq_Some_iff) (auto simp: comp_def)

lemma Compatible_sym: "Compatible a b = Compatible b a"
  by (cases a; cases b) (simp_all add: Compatible_def)


section \<open>Refinement of the view\<close>

lemma LockTable_loop_spec:
  assumes "distinct (map lock_obj ls)"
  shows "LockTable_loop oid t ls now = (ls', now') \<Longrightarrow>
     map lock_obj ls' = map lock_obj ls
     \<and> now' = (case modes ls (TableObj oid) of None \<Rightarrow> now | Some s \<Rightarrow> Some (Upgrade s t))
     \<and> modes ls' = (case modes ls (TableObj oid) of None \<Rightarrow> modes ls
                    | Some s \<Rightarrow> (modes ls)(TableObj oid \<mapsto> Upgrade s t))"
  using assms
proof (induction ls arbitrary: now ls' now')
  case Nil
  then show ?case by simp
next
  case (Cons l ls)
  have d: "distinct (map lock_obj ls)" and new: "modes ls (lock_obj l) = None"
    using Cons.prems(2) by (auto simp: modes_None_iff)
  obtain m n where mn: "LockTable_loop oid t ls (if is_table_lock oid l then Some (Upgrade (lk_type l) t) else now) = (m, n)"
    by fastforce
  show ?case
    using Cons.IH [OF mn d] Cons.prems(1) mn new
    by (auto simp: is_table_lock_obj Let_def split: if_splits option.splits)
qed

lemma LockRow_loop_spec:
  assumes "distinct (map lock_obj ls)"
  shows "LockRow_loop oid rid t ls tnow rnow = (ls', tnow', rnow') \<Longrightarrow>
     map lock_obj ls' = map lock_obj ls
     \<and> tnow' = (case modes ls (TableObj oid) of None \<Rightarrow> tnow | Some s \<Rightarrow> Some (Upgrade s (intention t)))
     \<and> rnow' = (case modes ls (RowObj oid (Some rid)) of None \<Rightarrow> rnow | Some s \<Rightarrow> Some (Upgrade s t))
     \<and> (\<forall>k. modes ls' k = (if k = TableObj oid then map_option (\<lambda>s. Upgrade s (intention t)) (modes ls k)
                         else if k = RowObj oid (Some rid) then map_option (\<lambda>s. Upgrade s t) (modes ls k)
                         else modes ls k))"
  using assms
proof (induction ls arbitrary: tnow rnow ls' tnow' rnow')
  case Nil
  then show ?case by simp
next
  case (Cons l ls)
  have d: "distinct (map lock_obj ls)" and new: "modes ls (lock_obj l) = None"
    using Cons.prems(2) by (auto simp: modes_None_iff)
  let ?tn = "if is_table_lock oid l then Some (Upgrade (lk_type l) (intention t)) else tnow"
  let ?rn = "if \<not> is_table_lock oid l \<and> is_row_lock oid rid l then Some (Upgrade (lk_type l) t) else rnow"
  obtain m tn rn where mn: "LockRow_loop oid rid t ls ?tn ?rn = (m, tn, rn)"
    by (metis prod_cases3)
  note ih = Cons.IH [OF mn d]
  consider (tab) "lock_obj l = TableObj oid" | (row) "lock_obj l = RowObj oid (Some rid)"
    | (other) "lock_obj l \<noteq> TableObj oid" "lock_obj l \<noteq> RowObj oid (Some rid)" by blast
  then show ?case
  proof cases
    case tab
    then have eq: "ls' = l\<lparr>lk_type := Upgrade (lk_type l) (intention t)\<rparr> # m" "tnow' = tn" "rnow' = rn"
      using Cons.prems(1) mn by (simp_all add: is_table_lock_obj Let_def)
    show ?thesis using ih new tab unfolding eq by (auto simp: is_table_lock_obj)
  next
    case row
    then have eq: "ls' = l\<lparr>lk_type := Upgrade (lk_type l) t\<rparr> # m" "tnow' = tn" "rnow' = rn"
      using Cons.prems(1) mn by (simp_all add: is_table_lock_obj is_row_lock_obj Let_def)
    show ?thesis using ih new row unfolding eq by (auto simp: is_table_lock_obj is_row_lock_obj)
  next
    case other
    then have eq: "ls' = l # m" "tnow' = tn" "rnow' = rn"
      using Cons.prems(1) mn by (simp_all add: is_table_lock_obj is_row_lock_obj Let_def)
    show ?thesis using ih other unfolding eq by (auto simp: is_table_lock_obj is_row_lock_obj)
  qed
qed

lemma locks_of_update [simp]:
  "locks_of (lm\<lparr>lm_lock_map := AList.update xid ls (lm_lock_map lm)\<rparr>) y = (if y = xid then ls else locks_of lm y)"
  by (simp add: locks_of_def update_conv')

lemma held_update:
  "held (lm\<lparr>lm_lock_map := AList.update xid ls (lm_lock_map lm)\<rparr>) = (held lm)(xid := modes ls)"
  by (rule ext) (simp add: held_def)

lemma lock_wf_locks_of: "lock_wf lm \<Longrightarrow> distinct (map lock_obj (locks_of lm xid))"
  by (auto simp: lock_wf_def locks_of_def split: option.split dest!: map_of_SomeD)

lemma lock_wf_update:
  assumes "lock_wf lm" "distinct (map lock_obj ls)"
  shows "lock_wf (lm\<lparr>lm_lock_map := AList.update xid ls (lm_lock_map lm)\<rparr>)"
proof -
  have "set (AList.update xid ls m) \<subseteq> insert (xid, ls) (set m)" for m :: "(xid_t \<times> Lock list) list"
    by (induction m) auto
  then show ?thesis
    using assms by (fastforce simp: lock_wf_def distinct_update)
qed

lemma lock_map_all_iff:
  assumes "lock_wf lm" "P []"
  shows "list_all (\<lambda>(x, ls). x = xid \<or> P ls) (lm_lock_map lm) \<longleftrightarrow> (\<forall>x. x \<noteq> xid \<longrightarrow> P (locks_of lm x))"
proof -
  have d: "distinct (map fst (lm_lock_map lm))" using assms by (simp add: lock_wf_def)
  show ?thesis
  proof safe
    fix x assume "list_all (\<lambda>(x, ls). x = xid \<or> P ls) (lm_lock_map lm)" "x \<noteq> xid"
    then show "P (locks_of lm x)"
      using assms(2) by (auto simp: locks_of_def list_all_iff split: option.split dest!: map_of_SomeD)
  next
    assume *: "\<forall>x. x \<noteq> xid \<longrightarrow> P (locks_of lm x)"
    have "x = xid \<or> P ls" if "(x, ls) \<in> set (lm_lock_map lm)" for x ls
      using * map_of_is_SomeI [OF d that] by (force simp: locks_of_def)
    then show "list_all (\<lambda>(x, ls). x = xid \<or> P ls) (lm_lock_map lm)"
      by (auto simp: list_all_iff)
  qed
qed

lemma modes_all_iff:
  assumes "distinct (map lock_obj ls)"
  shows "(\<forall>l \<in> set ls. lock_obj l = k \<longrightarrow> Compatible (lk_type l) t) \<longleftrightarrow> mode_ok (modes ls k) t"
proof (cases "modes ls k")
  case None
  then have "k \<notin> lock_obj ` set ls" by (simp add: modes_None_iff)
  with None show ?thesis by (auto simp: mode_ok_def)
next
  case (Some s)
  have "lk_type l = s" if "l \<in> set ls" "lock_obj l = k" for l
    using modes_Some_iff [OF assms, of k "lk_type l"] that Some by auto
  moreover have "\<exists>l \<in> set ls. lock_obj l = k \<and> lk_type l = s"
    using modes_Some_iff [OF assms] Some by blast
  ultimately show ?thesis using Some by (auto simp: mode_ok_def)
qed

lemma LockTable_check_iff:
  assumes "lock_wf lm"
  shows "LockTable_check xid oid t lm \<longleftrightarrow> (\<forall>x. x \<noteq> xid \<longrightarrow> mode_ok (held lm x (TableObj oid)) t)"
proof -
  have "LockTable_check xid oid t lm \<longleftrightarrow>
      (\<forall>x. x \<noteq> xid \<longrightarrow> list_all (\<lambda>it. is_table_lock oid it \<longrightarrow> Compatible (lk_type it) t) (locks_of lm x))"
    unfolding LockTable_check_def by (rule lock_map_all_iff [OF assms]) simp
  then show ?thesis
    unfolding list_all_iff is_table_lock_obj modes_all_iff [OF lock_wf_locks_of [OF assms]] held_def .
qed

lemma LockRow_check_iff:
  assumes "lock_wf lm"
  shows "LockRow_check xid oid rid t r lm \<longleftrightarrow>
     (\<forall>x. x \<noteq> xid \<longrightarrow> mode_ok (held lm x (TableObj oid)) t \<and> mode_ok (held lm x (RowObj oid (Some rid))) r)"
proof -
  have eq: "list_all (\<lambda>it. if is_table_lock oid it then Compatible (lk_type it) t
                           else is_row_lock oid rid it \<longrightarrow> Compatible (lk_type it) r) ls
     \<longleftrightarrow> (\<forall>l \<in> set ls. lock_obj l = TableObj oid \<longrightarrow> Compatible (lk_type l) t)
       \<and> (\<forall>l \<in> set ls. lock_obj l = RowObj oid (Some rid) \<longrightarrow> Compatible (lk_type l) r)" for ls
    unfolding list_all_iff is_table_lock_obj is_row_lock_obj by fastforce
  let ?P = "\<lambda>ls. (\<forall>l \<in> set ls. lock_obj l = TableObj oid \<longrightarrow> Compatible (lk_type l) t)
       \<and> (\<forall>l \<in> set ls. lock_obj l = RowObj oid (Some rid) \<longrightarrow> Compatible (lk_type l) r)"
  have "LockRow_check xid oid rid t r lm \<longleftrightarrow> (\<forall>x. x \<noteq> xid \<longrightarrow> ?P (locks_of lm x))"
    unfolding LockRow_check_def eq by (rule lock_map_all_iff [OF assms]) simp
  then show ?thesis
    unfolding modes_all_iff [OF lock_wf_locks_of [OF assms]] held_def .
qed

lemma LockTable_spec:
  assumes wf: "lock_wf lm" and r: "LockTable xid t oid lm = (ok, lm')"
  shows "lock_wf lm'"
    and "held lm' = (held lm)(xid := (held lm xid)(TableObj oid \<mapsto> acquire (held lm xid (TableObj oid)) t))"
    and "ok \<longleftrightarrow> (\<forall>x. x \<noteq> xid \<longrightarrow>
           mode_ok (held lm x (TableObj oid)) (acquire (held lm xid (TableObj oid)) t))"
proof -
  let ?m = "held lm xid (TableObj oid)"
  obtain ls now where loop: "LockTable_loop oid t (locks_of lm xid) None = (ls, now)" by fastforce
  let ?ls = "if now = None then ls @ [\<lparr>lk_granularity = TABLE, lk_type = t, lk_oid = oid, lk_rid = None\<rparr>] else ls"
  note sp = LockTable_loop_spec [OF lock_wf_locks_of [OF wf] loop, folded held_def]
  have now: "now = map_option (\<lambda>s. Upgrade s t) ?m" using sp by (simp split: option.splits)
  have lm': "lm' = lm\<lparr>lm_lock_map := AList.update xid ?ls (lm_lock_map lm)\<rparr>"
    and ok: "ok = LockTable_check xid oid (acquire ?m t) lm'"
    using r now by (auto simp: LockTable_def loop Let_def acquire_def split: option.splits)
  have objs: "map lock_obj ls = map lock_obj (locks_of lm xid)" using sp by simp
  have d: "distinct (map lock_obj ?ls)"
  proof (cases "now = None")
    case True
    then have "TableObj oid \<notin> lock_obj ` set (locks_of lm xid)"
      using now by (simp add: held_def modes_None_iff)
    then have "TableObj oid \<notin> set (map lock_obj ls)" unfolding objs by simp
    then show ?thesis using True lock_wf_locks_of [OF wf, of xid] objs by simp
  next
    case False
    then show ?thesis using objs lock_wf_locks_of [OF wf, of xid] by auto
  qed
  show wf': "lock_wf lm'" unfolding lm' by (rule lock_wf_update [OF wf d])
  have "modes ?ls = (held lm xid)(TableObj oid \<mapsto> acquire ?m t)"
    using sp now
    by (cases "?m") (auto simp: modes_append acquire_def map_add_def fun_eq_iff split: option.split)
  then show h: "held lm' = (held lm)(xid := (held lm xid)(TableObj oid \<mapsto> acquire ?m t))"
    unfolding lm' held_update by simp
  show "ok \<longleftrightarrow> (\<forall>x. x \<noteq> xid \<longrightarrow> mode_ok (held lm x (TableObj oid)) (acquire ?m t))"
    unfolding ok LockTable_check_iff [OF wf'] h by simp
qed

lemma LockRow_spec:
  assumes wf: "lock_wf lm" and r: "LockRow xid t oid rid lm = (ok, lm')"
  defines "tm \<equiv> acquire (held lm xid (TableObj oid)) (intention t)"
    and "rm \<equiv> acquire (held lm xid (RowObj oid (Some rid))) t"
  shows "lock_wf lm'"
    and "held lm' = (held lm)(xid := (held lm xid)(TableObj oid \<mapsto> tm, RowObj oid (Some rid) \<mapsto> rm))"
    and "ok \<longleftrightarrow> (\<forall>x. x \<noteq> xid \<longrightarrow>
           mode_ok (held lm x (TableObj oid)) tm \<and> mode_ok (held lm x (RowObj oid (Some rid))) rm)"
proof -
  let ?T = "held lm xid (TableObj oid)" and ?R = "held lm xid (RowObj oid (Some rid))"
  obtain ls tnow rnow where loop: "LockRow_loop oid rid t (locks_of lm xid) None None = (ls, tnow, rnow)"
    by (metis prod_cases3)
  let ?rl = "\<lparr>lk_granularity = ROW, lk_type = t, lk_oid = oid, lk_rid = Some rid\<rparr>"
  let ?tl = "\<lparr>lk_granularity = TABLE, lk_type = intention t, lk_oid = oid, lk_rid = None\<rparr>"
  let ?ls = "ls @ (if rnow = None then [?rl] else []) @ (if tnow = None then [?tl] else [])"
  note sp = LockRow_loop_spec [OF lock_wf_locks_of [OF wf] loop, folded held_def]
  have now: "tnow = map_option (\<lambda>s. Upgrade s (intention t)) ?T" "rnow = map_option (\<lambda>s. Upgrade s t) ?R"
    using sp by (simp_all split: option.splits)
  have lm': "lm' = lm\<lparr>lm_lock_map := AList.update xid ?ls (lm_lock_map lm)\<rparr>"
    and ok: "ok = LockRow_check xid oid rid tm rm lm'"
    using r now unfolding tm_def rm_def
    by (auto simp: LockRow_def loop Let_def acquire_def split: option.splits)
  have objs: "map lock_obj ls = map lock_obj (locks_of lm xid)" using sp by simp
  then have objs': "lock_obj ` set ls = lock_obj ` set (locks_of lm xid)" by (metis set_map)
  have "tnow = None \<Longrightarrow> TableObj oid \<notin> lock_obj ` set ls" "rnow = None \<Longrightarrow> RowObj oid (Some rid) \<notin> lock_obj ` set ls"
    using now unfolding objs' by (simp_all add: held_def modes_None_iff)
  then have d: "distinct (map lock_obj ?ls)"
    using lock_wf_locks_of [OF wf, of xid] unfolding map_append distinct_append objs
    by (auto simp: objs')
  show wf': "lock_wf lm'" unfolding lm' by (rule lock_wf_update [OF wf d])
  have "modes ?ls k = ((held lm xid)(TableObj oid \<mapsto> tm, RowObj oid (Some rid) \<mapsto> rm)) k" for k
    using sp now unfolding tm_def rm_def
    by (cases "?T"; cases "?R") (auto simp: modes_append acquire_def map_add_def split: option.split)
  then show h: "held lm' = (held lm)(xid := (held lm xid)(TableObj oid \<mapsto> tm, RowObj oid (Some rid) \<mapsto> rm))"
    unfolding lm' held_update by (intro arg_cong [of _ _ "fun_upd (held lm) xid"]) (rule ext)
  show "ok \<longleftrightarrow> (\<forall>x. x \<noteq> xid \<longrightarrow>
      mode_ok (held lm x (TableObj oid)) tm \<and> mode_ok (held lm x (RowObj oid (Some rid))) rm)"
    unfolding ok LockRow_check_iff [OF wf'] h by simp
qed

lemma ReleaseLocks_spec:
  assumes "lock_wf lm"
  shows "lock_wf (ReleaseLocks xid lm)" "held (ReleaseLocks xid lm) = (held lm)(xid := Map.empty)"
  using lock_wf_update [OF assms, of "[]" xid] by (simp_all add: ReleaseLocks_def held_update)

section \<open>Strength of modes\<close>

text \<open>A mode covers another when every mode it admits beside it the other admits too.\<close>

definition covers :: "LockType \<Rightarrow> LockType \<Rightarrow> bool" where
  "covers a b \<longleftrightarrow> list_all (\<lambda>c. Compatible c a \<longrightarrow> Compatible c b) [IS, IX, S, SIX, X]"

lemma covers_iff: "covers a b \<longleftrightarrow> (\<forall>c. Compatible c a \<longrightarrow> Compatible c b)"
proof
  assume h: "covers a b"
  have "Compatible c a \<longrightarrow> Compatible c b" for c
    using h by (cases c) (simp_all add: covers_def)
  then show "\<forall>c. Compatible c a \<longrightarrow> Compatible c b" by blast
qed (simp add: covers_def)

lemma covers_refl [simp]: "covers a a"
  by (simp add: covers_iff)

lemma covers_trans: "covers a b \<Longrightarrow> covers b c \<Longrightarrow> covers a c"
  by (simp add: covers_iff)

lemma Upgrade_self: "covers (Upgrade a b) a"
  by (cases a; cases b) (simp_all add: covers_def Upgrade_def Compatible_def)

lemma Upgrade_other: "\<not> (a = S \<and> b = SIX) \<Longrightarrow> covers (Upgrade a b) b"
  by (cases a; cases b) (simp_all add: covers_def Upgrade_def Compatible_def)

lemma mode_ok_covers: "covers a b \<Longrightarrow> mode_ok m a \<Longrightarrow> mode_ok m b"
  by (auto simp: mode_ok_def covers_iff split: option.splits)

section \<open>Sequences of requests\<close>

text \<open>
  A refused request leaves the mode it asked for in the table until the transaction releases its
  locks, so a state is a lock table together with the transactions that have been refused since
  their last release.
\<close>

inductive lock_step :: "LockManager \<times> xid_t set \<Rightarrow> LockManager \<times> xid_t set \<Rightarrow> bool" where
  table: "LockTable xid t oid lm = (ok, lm') \<Longrightarrow> lock_step (lm, D) (lm', if ok then D else insert xid D)"
| row: "LockRow xid t oid rid lm = (ok, lm') \<Longrightarrow> lock_step (lm, D) (lm', if ok then D else insert xid D)"
| release: "lock_step (lm, D) (ReleaseLocks xid lm, D - {xid})"

inductive_cases lock_stepE: "lock_step (lm, D) (lm', D')"

definition lock_safe :: "LockManager \<Rightarrow> xid_t set \<Rightarrow> bool" where
  "lock_safe lm D \<longleftrightarrow> (\<forall>x y k a b. x \<noteq> y \<and> x \<notin> D \<and> y \<notin> D \<and> held lm x k = Some a \<and> held lm y k = Some b
      \<longrightarrow> Compatible a b)"

text \<open>Every row lock is announced on its table.\<close>

definition announced :: "LockManager \<Rightarrow> bool" where
  "announced lm \<longleftrightarrow> (\<forall>x oid r t. held lm x (RowObj oid r) = Some t
      \<longrightarrow> (\<exists>m. held lm x (TableObj oid) = Some m \<and> covers m (intention t)))"

definition lock_inv :: "LockManager \<times> xid_t set \<Rightarrow> bool" where
  "lock_inv s \<longleftrightarrow> lock_wf (fst s) \<and> lock_safe (fst s) (snd s) \<and> announced (fst s)"

lemma lock_safe_update:
  assumes safe: "lock_safe lm D" and other: "\<And>y. y \<noteq> xid \<Longrightarrow> held lm' y = held lm y"
    and new: "\<And>y k a. xid \<notin> D' \<Longrightarrow> y \<noteq> xid \<Longrightarrow> held lm' xid k = Some a \<Longrightarrow> held lm' xid k \<noteq> held lm xid k
                \<Longrightarrow> mode_ok (held lm y k) a"
    and D: "D \<subseteq> insert xid D'" "xid \<in> D \<Longrightarrow> xid \<notin> D' \<Longrightarrow> held lm' xid = Map.empty"
  shows "lock_safe lm' D'"
proof -
  have half: "Compatible b a" if "x = xid" "y \<noteq> xid" "x \<notin> D'" "y \<notin> D'" "held lm' x k = Some a" "held lm' y k = Some b"
    for x y k a b
  proof (cases "held lm' xid k = held lm xid k")
    case True
    have "xid \<notin> D" using D(2) that by auto
    moreover have "y \<notin> D" using D(1) that by auto
    ultimately show ?thesis
      using safe that True other [of y] unfolding lock_safe_def by metis
  next
    case False
    then show ?thesis
      using new [of y k a] that other [of y] by (simp add: mode_ok_def)
  qed
  have "Compatible a b" if "x \<noteq> y" "x \<notin> D'" "y \<notin> D'" "held lm' x k = Some a" "held lm' y k = Some b" for x y k a b
  proof -
    consider "x = xid" | "y = xid" | "x \<noteq> xid" "y \<noteq> xid" by blast
    then show ?thesis
    proof cases
      case 1 then show ?thesis using half that Compatible_sym by metis
    next
      case 2 then show ?thesis using half that Compatible_sym by metis
    next
      case 3
      then have "x \<notin> D" "y \<notin> D" using D(1) that by auto
      then show ?thesis using safe that 3 other unfolding lock_safe_def by metis
    qed
  qed
  then show ?thesis by (auto simp: lock_safe_def)
qed

lemma acquire_covers:
  assumes "m \<noteq> Some S \<or> t \<noteq> SIX"
  shows "covers (acquire m t) t"
  using assms by (cases m) (auto simp: acquire_def intro: Upgrade_other)

lemma acquire_self: "m = Some a \<Longrightarrow> covers (acquire m t) a"
  by (simp add: acquire_def Upgrade_self)

lemma covers_IX_IS: "covers IX IS"
  by (simp add: covers_def Compatible_def)

lemma intention_acquire:
  assumes "\<And>a. mr = Some a \<Longrightarrow> \<exists>b. mt = Some b \<and> covers b (intention a)"
  shows "covers (acquire mt (intention t)) (intention (acquire mr t))"
proof (cases mr)
  case None
  then show ?thesis by (simp add: acquire_covers intention_def acquire_def [of None])
next
  case (Some a)
  then obtain b where b: "mt = Some b" "covers b (intention a)" using assms by blast
  have 1: "covers (acquire mt (intention t)) (intention a)"
    using acquire_self [OF b(1)] b(2) covers_trans by blast
  have 2: "covers (acquire mt (intention t)) (intention t)"
    by (rule acquire_covers) (simp add: intention_def)
  have "intention (acquire mr t) = intention a \<or> intention (acquire mr t) = intention t \<or>
      intention (acquire mr t) = IS"
    using Some by (cases a; cases t) (simp_all add: acquire_def Upgrade_def intention_def)
  then show ?thesis
    using 1 2 covers_trans [OF _ covers_IX_IS] by (auto simp: intention_def split: if_splits)
qed

lemma announced_table:
  assumes "announced lm" "held lm' = (held lm)(xid := (held lm xid)(TableObj oid \<mapsto> acquire (held lm xid (TableObj oid)) t))"
  shows "announced lm'"
proof -
  have "\<exists>m. held lm' x (TableObj o') = Some m \<and> covers m (intention a)"
    if r: "held lm' x (RowObj o' r) = Some a" for x o' r a
  proof -
    have "held lm x (RowObj o' r) = Some a" using r assms(2) by (auto split: if_splits)
    then obtain m where "held lm x (TableObj o') = Some m" "covers m (intention a)"
      using assms(1) unfolding announced_def by blast
    then show ?thesis
      using assms(2) acquire_self covers_trans by fastforce
  qed
  then show ?thesis unfolding announced_def by blast
qed

lemma announced_row:
  assumes an: "announced lm"
    and h: "held lm' = (held lm)(xid := (held lm xid)(TableObj oid \<mapsto> acquire (held lm xid (TableObj oid)) (intention t),
          RowObj oid (Some rid) \<mapsto> acquire (held lm xid (RowObj oid (Some rid))) t))"
  shows "announced lm'"
proof -
  have "\<exists>m. held lm' x (TableObj o') = Some m \<and> covers m (intention a)"
    if r: "held lm' x (RowObj o' r) = Some a" for x o' r a
  proof (cases "x = xid \<and> o' = oid \<and> r = Some rid")
    case True
    have "covers (acquire (held lm xid (TableObj oid)) (intention t))
        (intention (acquire (held lm xid (RowObj oid (Some rid))) t))"
      by (rule intention_acquire) (use an in \<open>unfold announced_def, blast\<close>)
    then show ?thesis using True r h by auto
  next
    case False
    then have "held lm x (RowObj o' r) = Some a" using r h by (auto split: if_splits)
    then obtain m where "held lm x (TableObj o') = Some m" "covers m (intention a)"
      using an unfolding announced_def by blast
    then show ?thesis
      using h acquire_self covers_trans by fastforce
  qed
  then show ?thesis unfolding announced_def by blast
qed

lemma lock_step_inv:
  assumes "lock_step s s'" "lock_inv s"
  shows "lock_inv s'"
  using assms
proof (induction rule: lock_step.induct)
  case (table xid t oid lm ok lm' D)
  then have wf: "lock_wf lm" and safe: "lock_safe lm D" and an: "announced lm" by (simp_all add: lock_inv_def)
  note sp = LockTable_spec [OF wf table.hyps]
  have "lock_safe lm' (if ok then D else insert xid D)"
    by (rule lock_safe_update [OF safe, where xid = xid]) (use sp(2,3) in \<open>auto split: if_splits\<close>)
  then show ?case using sp(1) announced_table [OF an sp(2)] by (simp add: lock_inv_def)
next
  case (row xid t oid rid lm ok lm' D)
  then have wf: "lock_wf lm" and safe: "lock_safe lm D" and an: "announced lm" by (simp_all add: lock_inv_def)
  note sp = LockRow_spec [OF wf row.hyps]
  have "lock_safe lm' (if ok then D else insert xid D)"
    by (rule lock_safe_update [OF safe, where xid = xid]) (use sp(2,3) in \<open>auto split: if_splits\<close>)
  then show ?case using sp(1) announced_row [OF an sp(2)] by (simp add: lock_inv_def)
next
  case (release lm D xid)
  then have wf: "lock_wf lm" and safe: "lock_safe lm D" and an: "announced lm" by (simp_all add: lock_inv_def)
  note sp = ReleaseLocks_spec [OF wf, of xid]
  have "lock_safe (ReleaseLocks xid lm) (D - {xid})"
    by (rule lock_safe_update [OF safe, where xid = xid]) (use sp(2) in \<open>auto\<close>)
  moreover have "announced (ReleaseLocks xid lm)"
    using an unfolding announced_def sp(2) by simp
  ultimately show ?case using sp(1) by (simp add: lock_inv_def)
qed

lemma lock_steps_inv: "lock_step\<^sup>*\<^sup>* s s' \<Longrightarrow> lock_inv s \<Longrightarrow> lock_inv s'"
  by (induction rule: rtranclp_induct) (auto intro: lock_step_inv)

lemma lock_inv_new: "lock_inv (LockManager_new, {})"
  by (simp add: lock_inv_def lock_wf_def lock_safe_def announced_def held_def locks_of_def LockManager_new_def)

section \<open>What the transaction manager relies on\<close>

text \<open>
  The transaction manager calls only \<^verbatim>\<open>ReleaseLocks\<close>. It relies on a release to drop every lock of
  the transaction and none of another.
\<close>

locale lock_service =
  fixes release :: "'x \<Rightarrow> 's \<Rightarrow> 's"
    and holding :: "'s \<Rightarrow> 'x \<Rightarrow> 'k \<Rightarrow> 'm option"
    and good :: "'s \<Rightarrow> bool"
  assumes release_good: "good s \<Longrightarrow> good (release x s)"
    and release_holding: "good s \<Longrightarrow> holding (release x s) y = (if y = x then Map.empty else holding s y)"
begin

lemma releases_good: "good s \<Longrightarrow> good (fold release xs s)"
  by (induction xs arbitrary: s) (simp_all add: release_good)

lemma releases_holding:
  "good s \<Longrightarrow> holding (fold release xs s) y = (if y \<in> set xs then Map.empty else holding s y)"
  by (induction xs arbitrary: s) (auto simp: release_good release_holding)

lemma release_twice: "good s \<Longrightarrow> holding (release x (release x s)) = holding (release x s)"
  by (rule ext) (simp add: release_good release_holding)

end

interpretation locks: lock_service ReleaseLocks held lock_wf
proof unfold_locales
  fix lm x y
  assume "lock_wf lm"
  note sp = ReleaseLocks_spec [OF this, of x]
  show "lock_wf (ReleaseLocks x lm)" by (rule sp(1))
  show "held (ReleaseLocks x lm) y = (if y = x then Map.empty else held lm y)"
    unfolding sp(2) by simp
qed

section \<open>Properties\<close>

text \<open>
  C22. In every state reached by any sequence of \<^verbatim>\<open>LockTable\<close>, \<^verbatim>\<open>LockRow\<close> and \<^verbatim>\<open>ReleaseLocks\<close> calls, two
  different transactions that have not been refused since their last release hold only compatible
  modes on every table and row.
\<close>

theorem lock_reachable_compatible:
  assumes "lock_step\<^sup>*\<^sup>* (LockManager_new, {}) (lm, D)"
    and "x \<noteq> y" "x \<notin> D" "y \<notin> D" "held lm x k = Some a" "held lm y k = Some b"
  shows "Compatible a b"
  using lock_steps_inv [OF assms(1) lock_inv_new] assms(2-)
  unfolding lock_inv_def lock_safe_def by auto

definition sample_locks :: LockManager where
  "sample_locks = snd (LockRow 2 X 7 \<lparr>rid_page_id = 0, rid_slot_id = 1\<rparr>
      (snd (LockRow 1 S 7 \<lparr>rid_page_id = 0, rid_slot_id = 0\<rparr> LockManager_new)))"

lemma sample_locks_steps: "lock_step\<^sup>*\<^sup>* (LockManager_new, {}) (sample_locks, {})"
proof -
  let ?l1 = "snd (LockRow 1 S 7 \<lparr>rid_page_id = 0, rid_slot_id = 0\<rparr> LockManager_new)"
  have "LockRow 1 S 7 \<lparr>rid_page_id = 0, rid_slot_id = 0\<rparr> LockManager_new = (True, ?l1)"
    by (simp add: LockRow_def LockManager_new_def locks_of_def LockRow_check_def)
  from lock_step.row [OF this, of "{}"] have 1: "lock_step (LockManager_new, {}) (?l1, {})" by simp
  have "LockRow 2 X 7 \<lparr>rid_page_id = 0, rid_slot_id = 1\<rparr> ?l1 = (True, sample_locks)"
    by (simp add: LockRow_def LockManager_new_def locks_of_def LockRow_check_def sample_locks_def
        is_table_lock_def is_row_lock_def intention_def Compatible_def)
  from lock_step.row [OF this, of "{}"] have 2: "lock_step (?l1, {}) (sample_locks, {})" by simp
  from 1 2 show ?thesis by auto
qed

lemma sample_locks_held:
  "held sample_locks 1 (TableObj 7) = Some IS" "held sample_locks 2 (TableObj 7) = Some IX"
  by (simp_all add: sample_locks_def LockRow_def LockManager_new_def locks_of_def LockRow_check_def
      held_def intention_def)

theorem lock_reachable_compatible_witness:
  "held sample_locks 1 (TableObj 7) = Some IS \<and> held sample_locks 2 (TableObj 7) = Some IX \<and> Compatible IS IX"
  using lock_reachable_compatible [OF sample_locks_steps, of 1 2 "TableObj 7" IS IX] sample_locks_held by simp

text \<open>
  Row locks are announced on their tables, so a table lock in mode X keeps every other
  transaction off the table and all of its rows, in every reachable state, between transactions that
  have not been refused.
\<close>

theorem table_exclusive:
  assumes "lock_step\<^sup>*\<^sup>* (LockManager_new, {}) (lm, D)"
    and "x \<noteq> y" "x \<notin> D" "y \<notin> D" "held lm x (TableObj oid) = Some X"
  shows "held lm y (TableObj oid) = None \<and> held lm y (RowObj oid r) = None"
proof -
  have inv: "lock_safe lm D" "announced lm"
    using lock_steps_inv [OF assms(1) lock_inv_new] by (simp_all add: lock_inv_def)
  have tab: "held lm y (TableObj oid) = None"
  proof (rule ccontr)
    assume "held lm y (TableObj oid) \<noteq> None"
    then obtain b where "held lm y (TableObj oid) = Some b" by blast
    then have "Compatible X b" using inv(1) assms(2-) unfolding lock_safe_def by blast
    then show False by (simp add: Compatible_def)
  qed
  then show ?thesis using inv(2) unfolding announced_def by (cases "held lm y (RowObj oid r)") fastforce+
qed

theorem table_exclusive_witness:
  "held (snd (LockTable 1 X 7 LockManager_new)) 2 (TableObj 7) = None
     \<and> held (snd (LockTable 1 X 7 LockManager_new)) 2 (RowObj 7 None) = None"
proof -
  let ?l = "snd (LockTable 1 X 7 LockManager_new)"
  have "LockTable 1 X 7 LockManager_new = (True, ?l)"
    by (simp add: LockTable_def LockManager_new_def locks_of_def LockTable_check_def)
  from lock_step.table [OF this, of "{}"] have "lock_step\<^sup>*\<^sup>* (LockManager_new, {}) (?l, {})" by simp
  moreover have "held ?l 1 (TableObj 7) = Some X"
    by (simp add: LockTable_def LockManager_new_def locks_of_def LockTable_check_def held_def)
  ultimately show ?thesis using table_exclusive [of ?l "{}" 1 2 7 None] by simp
qed

text \<open>
  Refinement of a row request: on the map of modes held, \<^verbatim>\<open>LockRow\<close> acquires the intention mode on
  the table and the requested mode on the row for the caller, changes nothing of another transaction,
  keeps one lock per object, and answers true exactly when no other transaction holds a mode
  incompatible with either of the two modes the caller now has.
\<close>

theorem LockRow_refines:
  assumes "lock_wf lm" "LockRow xid t oid rid lm = (ok, lm')"
  shows "lock_wf lm'
     \<and> held lm' = (held lm)(xid := (held lm xid)
          (TableObj oid \<mapsto> acquire (held lm xid (TableObj oid)) (intention t),
           RowObj oid (Some rid) \<mapsto> acquire (held lm xid (RowObj oid (Some rid))) t))
     \<and> (ok \<longleftrightarrow> (\<forall>x. x \<noteq> xid \<longrightarrow>
           mode_ok (held lm x (TableObj oid)) (acquire (held lm xid (TableObj oid)) (intention t))
           \<and> mode_ok (held lm x (RowObj oid (Some rid))) (acquire (held lm xid (RowObj oid (Some rid))) t)))"
  using LockRow_spec [OF assms] by simp

theorem LockRow_refines_witness:
  "\<exists>lm'. LockRow 1 S 7 \<lparr>rid_page_id = 0, rid_slot_id = 0\<rparr> LockManager_new = (True, lm')
     \<and> held lm' 1 (RowObj 7 (Some \<lparr>rid_page_id = 0, rid_slot_id = 0\<rparr>)) = Some S
     \<and> held lm' 1 (TableObj 7) = Some IS"
proof -
  let ?l1 = "snd (LockRow 1 S 7 \<lparr>rid_page_id = 0, rid_slot_id = 0\<rparr> LockManager_new)"
  have r: "LockRow 1 S 7 \<lparr>rid_page_id = 0, rid_slot_id = 0\<rparr> LockManager_new = (True, ?l1)"
    by (simp add: LockRow_def LockManager_new_def locks_of_def LockRow_check_def)
  have "held LockManager_new x = Map.empty" for x
    by (simp add: held_def locks_of_def LockManager_new_def)
  moreover have "lock_wf LockManager_new" by (simp add: lock_wf_def LockManager_new_def)
  ultimately show ?thesis
    using LockRow_refines [OF _ r] r by (auto simp: acquire_def intention_def)
qed

text \<open>
  An upgraded mode always excludes what the mode held before excluded, and what the requested
  mode excludes unless a shared lock is asked to become shared with intention exclusive: \<^verbatim>\<open>Upgrade\<close>
  answers S there, which admits the other readers that SIX keeps out.
\<close>

theorem Upgrade_strength:
  "(\<forall>c. Compatible c (Upgrade a b) \<longrightarrow> Compatible c a)
     \<and> ((\<forall>c. Compatible c (Upgrade a b) \<longrightarrow> Compatible c b) \<longleftrightarrow> \<not> (a = S \<and> b = SIX))"
proof -
  have "\<not> covers (Upgrade S SIX) SIX" by (simp add: covers_def Upgrade_def Compatible_def)
  then show ?thesis
    using Upgrade_self [of a b] Upgrade_other [of a b] unfolding covers_iff by blast
qed

theorem Upgrade_strength_witness:
  "Upgrade IX S = SIX \<and> \<not> Compatible IX (Upgrade IX S)"
  using Upgrade_strength [of IX S] by (auto simp: Upgrade_def Compatible_def)

end
