(* ===== verification/Transaction_Manager.thy ===== *)
theory Transaction_Manager
  imports Lock_Manager
begin

text \<open>
  \<^verbatim>\<open>src/src/transaction/transaction_manager.cpp\<close>: transaction ids, command counters, the snapshot taken
  when a transaction begins and the table of active transactions. The two hash maps are association
  lists with distinct keys. The lock manager the class holds by reference is part of the state.
  The results are over every sequence of operations, with a history kept beside the program state.
\<close>

section \<open>State and operations\<close>

datatype IsolationLevel = READ_COMMITTED | REPEATABLE_READ | SERIALIZABLE

record TransactionManager =
  tm_next_xid :: xid_t
  tm_xid2cid :: "(xid_t \<times> cid_t) list"
  tm_xid2active_set :: "(xid_t \<times> xid_t set) list"

record TxEnv =
  te_tm :: TransactionManager
  te_locks :: LockManager

definition TransactionManager_new :: "LockManager \<Rightarrow> xid_t \<Rightarrow> TxEnv" where
  "TransactionManager_new lm next_xid =
     \<lparr>te_tm = \<lparr>tm_next_xid = next_xid, tm_xid2cid = [], tm_xid2active_set = []\<rparr>, te_locks = lm\<rparr>"

definition tm_update :: "(TransactionManager \<Rightarrow> TransactionManager) \<Rightarrow> (TxEnv, unit) em" where
  "tm_update f = emodify (\<lambda>e. e\<lparr>te_tm := f (te_tm e)\<rparr>)"

definition xid_missing :: "xid_t \<Rightarrow> string \<Rightarrow> db_error" where
  "xid_missing xid place = DbException (''xid'' @ nat_to_string (unat xid) @ ''not found in '' @ place)"

definition GetCidAndIncrement :: "xid_t \<Rightarrow> (TxEnv, cid_t) em" where
  "GetCidAndIncrement xid =
     ebind (eget (\<lambda>e. map_of (tm_xid2cid (te_tm e)) xid)) (\<lambda>found.
       case found of
         None \<Rightarrow> ethrow (xid_missing xid ''GetCidAndIncrement'')
       | Some cid \<Rightarrow>
           ebind (tm_update (\<lambda>tm. tm\<lparr>tm_xid2cid := AList.update xid (cid + 1) (tm_xid2cid tm)\<rparr>)) (\<lambda>_.
             eret cid))"

definition GetNextXid :: "TxEnv \<Rightarrow> xid_t" where
  "GetNextXid e = tm_next_xid (te_tm e)"

definition SetNextXid :: "xid_t \<Rightarrow> (TxEnv, unit) em" where
  "SetNextXid next_xid =
     tm_update (\<lambda>tm. if next_xid > tm_next_xid tm then tm\<lparr>tm_next_xid := next_xid\<rparr> else tm)"

definition GetActiveTransactions :: "TxEnv \<Rightarrow> xid_t set" where
  "GetActiveTransactions e = set (map fst (tm_xid2cid (te_tm e)))"

definition Begin :: "(TxEnv, xid_t) em" where
  "Begin =
     ebind (eget GetNextXid) (\<lambda>xid.
     ebind (tm_update (\<lambda>tm. tm\<lparr>tm_next_xid := tm_next_xid tm + 1\<rparr>)) (\<lambda>_.
     ebind (eget (\<lambda>e. set (map fst (tm_xid2cid (te_tm e))))) (\<lambda>active_xids.
     ebind (tm_update (\<lambda>tm. tm\<lparr>tm_xid2active_set := AList.update xid active_xids (tm_xid2active_set tm)\<rparr>)) (\<lambda>_.
     ebind (tm_update (\<lambda>tm. tm\<lparr>tm_xid2cid := AList.update xid FIRST_CID (tm_xid2cid tm)\<rparr>)) (\<lambda>_.
       eret xid)))))"

definition tm_ReleaseLocks :: "xid_t \<Rightarrow> (TxEnv, unit) em" where
  "tm_ReleaseLocks xid = emodify (\<lambda>e. e\<lparr>te_locks := ReleaseLocks xid (te_locks e)\<rparr>)"

definition finish :: "string \<Rightarrow> xid_t \<Rightarrow> (TxEnv, unit) em" where
  "finish who xid =
     ebind (eget (\<lambda>e. map_of (tm_xid2cid (te_tm e)) xid)) (\<lambda>c.
       if c = None then ethrow (xid_missing xid (''xid2cid_ in '' @ who))
       else ebind (eget (\<lambda>e. map_of (tm_xid2active_set (te_tm e)) xid)) (\<lambda>a.
         if a = None then ethrow (xid_missing xid (''xid2active_set_ in '' @ who))
         else ebind (tm_ReleaseLocks xid) (\<lambda>_.
              ebind (tm_update (\<lambda>tm. tm\<lparr>tm_xid2cid := AList.delete xid (tm_xid2cid tm)\<rparr>)) (\<lambda>_.
                tm_update (\<lambda>tm. tm\<lparr>tm_xid2active_set := AList.delete xid (tm_xid2active_set tm)\<rparr>)))))"

definition Commit :: "xid_t \<Rightarrow> (TxEnv, unit) em" where
  "Commit = finish ''Commit''"

definition Rollback :: "xid_t \<Rightarrow> (TxEnv, unit) em" where
  "Rollback = finish ''Rollback''"

definition GetSnapshot :: "xid_t \<Rightarrow> (TxEnv, xid_t set) em" where
  "GetSnapshot xid =
     ebind (eget (\<lambda>e. map_of (tm_xid2active_set (te_tm e)) xid)) (\<lambda>found.
       case found of
         None \<Rightarrow> ethrow (xid_missing xid ''xid2active_set_ in GetSnapshot'')
       | Some active \<Rightarrow> eret active)"

section \<open>Exact effects\<close>

definition tx_active :: "TxEnv \<Rightarrow> xid_t \<rightharpoonup> cid_t" where
  "tx_active e = map_of (tm_xid2cid (te_tm e))"

definition tx_snap :: "TxEnv \<Rightarrow> xid_t \<rightharpoonup> xid_t set" where
  "tx_snap e = map_of (tm_xid2active_set (te_tm e))"

lemma GetActiveTransactions_dom: "GetActiveTransactions e = dom (tx_active e)"
  by (simp add: GetActiveTransactions_def tx_active_def dom_map_of_conv_image_fst)

lemma Begin_spec:
  "\<exists>e'. Begin e = (Inr (GetNextXid e), e') \<and> te_locks e' = te_locks e \<and> GetNextXid e' = GetNextXid e + 1
     \<and> tx_active e' = (tx_active e)(GetNextXid e \<mapsto> FIRST_CID)
     \<and> tx_snap e' = (tx_snap e)(GetNextXid e \<mapsto> dom (tx_active e))"
  by (simp add: Begin_def ebind_def tm_update_def GetNextXid_def tx_active_def tx_snap_def update_conv'
      dom_map_of_conv_image_fst)

lemma GetCidAndIncrement_spec:
  "GetCidAndIncrement xid e = (case tx_active e xid of
       None \<Rightarrow> (Inl (xid_missing xid ''GetCidAndIncrement''), e)
     | Some c \<Rightarrow> (Inr c, e\<lparr>te_tm := (te_tm e)\<lparr>tm_xid2cid := AList.update xid (c + 1) (tm_xid2cid (te_tm e))\<rparr>\<rparr>))"
  by (simp add: GetCidAndIncrement_def ebind_def tx_active_def tm_update_def split: option.split)

lemma finish_ok:
  assumes "finish who xid e = (Inr (), e')"
  shows "xid \<in> dom (tx_active e)" "te_locks e' = ReleaseLocks xid (te_locks e)" "GetNextXid e' = GetNextXid e"
    and "tx_active e' = (tx_active e)(xid := None)" "tx_snap e' = (tx_snap e)(xid := None)"
  using assms
  by (auto simp: finish_def ebind_def tx_active_def tx_snap_def tm_ReleaseLocks_def tm_update_def GetNextXid_def
      delete_conv' split: if_splits)

lemma finish_total:
  assumes "xid \<in> dom (tx_active e)" "xid \<in> dom (tx_snap e)"
  shows "\<exists>e'. finish who xid e = (Inr (), e')"
  using assms by (auto simp: finish_def ebind_def tx_active_def tx_snap_def tm_ReleaseLocks_def tm_update_def)

lemma finish_error:
  assumes "xid \<notin> dom (tx_active e)"
  shows "finish who xid e = (Inl (xid_missing xid (''xid2cid_ in '' @ who)), e)"
  using assms by (auto simp: finish_def ebind_def tx_active_def)

lemma GetSnapshot_spec:
  "GetSnapshot xid e = (case tx_snap e xid of
       None \<Rightarrow> (Inl (xid_missing xid ''xid2active_set_ in GetSnapshot''), e) | Some A \<Rightarrow> (Inr A, e))"
  by (simp add: GetSnapshot_def ebind_def tx_snap_def split: option.split)

section \<open>Histories\<close>

text \<open>
  The history records which transactions have ended, and for each transaction which had ended when
  it began. Ids below the first id given out belong to earlier runs of the program and count as
  ended. \<^verbatim>\<open>next_xid_\<close> is a 32-bit counter that nothing stops from wrapping; a run is a sequence of
  steps in which it has not reached \<^verbatim>\<open>NULL_XID\<close>.
\<close>

record TxHist =
  th_ended :: "xid_t set"
  th_before :: "xid_t \<Rightarrow> xid_t set"

definition TxHist_new :: "xid_t \<Rightarrow> TxHist" where
  "TxHist_new n = \<lparr>th_ended = {x. x < n}, th_before = (\<lambda>x. {})\<rparr>"

inductive tx_step :: "TxEnv \<times> TxHist \<Rightarrow> TxEnv \<times> TxHist \<Rightarrow> bool" where
  start: "GetNextXid e < NULL_XID \<Longrightarrow> Begin e = (Inr xid, e') \<Longrightarrow>
     tx_step (e, h) (e', h\<lparr>th_before := (th_before h)(xid := th_ended h)\<rparr>)"
| commit: "Commit xid e = (Inr (), e') \<Longrightarrow> tx_step (e, h) (e', h\<lparr>th_ended := insert xid (th_ended h)\<rparr>)"
| rollback: "Rollback xid e = (Inr (), e') \<Longrightarrow> tx_step (e, h) (e', h\<lparr>th_ended := insert xid (th_ended h)\<rparr>)"
| command: "GetCidAndIncrement xid e = (Inr c, e') \<Longrightarrow> tx_step (e, h) (e', h)"
| lock_table: "xid \<in> GetActiveTransactions e \<Longrightarrow> LockTable xid t oid (te_locks e) = (ok, lm') \<Longrightarrow>
     tx_step (e, h) (e\<lparr>te_locks := lm'\<rparr>, h)"
| lock_row: "xid \<in> GetActiveTransactions e \<Longrightarrow> LockRow xid t oid rid (te_locks e) = (ok, lm') \<Longrightarrow>
     tx_step (e, h) (e\<lparr>te_locks := lm'\<rparr>, h)"

definition tx_inv :: "TxEnv \<times> TxHist \<Rightarrow> bool" where
  "tx_inv s \<longleftrightarrow> (case s of (e, h) \<Rightarrow>
     dom (tx_active e) = {x. x < GetNextXid e} - th_ended h
     \<and> dom (tx_snap e) = {x. x < GetNextXid e} - th_ended h
     \<and> th_ended h \<subseteq> {x. x < GetNextXid e}
     \<and> (\<forall>x A. tx_snap e x = Some A \<longrightarrow> th_before h x = {y. y < x} - A \<and> x \<notin> A)
     \<and> lock_wf (te_locks e) \<and> (\<forall>x. x \<notin> dom (tx_active e) \<longrightarrow> held (te_locks e) x = Map.empty))"

lemma next_xid_less: "(n :: xid_t) < NULL_XID \<Longrightarrow> x < n + 1 \<longleftrightarrow> x < n \<or> x = n"
proof -
  assume "n < NULL_XID"
  then have "unat n < 2 ^ 32 - 1" by (simp add: word_less_nat_alt unsigned_minus_1_eq_mask mask_eq_exp_minus_1)
  then have "unat (n + 1) = unat n + 1" by (simp add: unat_add_small)
  then show ?thesis by (auto simp: word_less_nat_alt less_Suc_eq unsigned_word_eqI)
qed

lemma tx_inv_new:
  "lock_wf lm \<Longrightarrow> (\<And>x. held lm x = Map.empty) \<Longrightarrow> tx_inv (TransactionManager_new lm n, TxHist_new n)"
  by (auto simp: tx_inv_def TransactionManager_new_def TxHist_new_def tx_active_def tx_snap_def GetNextXid_def)

lemma tx_inv_begin:
  assumes inv: "tx_inv (e, h)" and small: "GetNextXid e < NULL_XID" and b: "Begin e = (Inr xid, e')"
  shows "tx_inv (e', h\<lparr>th_before := (th_before h)(xid := th_ended h)\<rparr>)"
proof -
  let ?n = "GetNextXid e"
  have e': "xid = ?n" "te_locks e' = te_locks e" "GetNextXid e' = ?n + 1"
    "tx_active e' = (tx_active e)(?n \<mapsto> FIRST_CID)" "tx_snap e' = (tx_snap e)(?n \<mapsto> dom (tx_active e))"
    using Begin_spec [of e] b by auto
  have act: "dom (tx_active e) = {x. x < ?n} - th_ended h" "dom (tx_snap e) = {x. x < ?n} - th_ended h"
    and ended: "th_ended h \<subseteq> {x. x < ?n}" and wf: "lock_wf (te_locks e)"
    and snap: "\<And>x A. tx_snap e x = Some A \<Longrightarrow> th_before h x = {y. y < x} - A \<and> x \<notin> A"
    and free: "\<And>x. x \<notin> dom (tx_active e) \<Longrightarrow> held (te_locks e) x = Map.empty"
    using inv unfolding tx_inv_def prod.case by blast+
  have dom': "insert ?n ({x. x < ?n} - th_ended h) = {x. x < ?n + 1} - th_ended h"
    using ended next_xid_less [OF small] by auto
  have before: "th_ended h = {y. y < ?n} - dom (tx_active e)" "?n \<notin> dom (tx_active e)"
    using act(1) ended by auto
  show ?thesis
    unfolding tx_inv_def prod.case e'
  proof (intro conjI allI impI)
    fix x A assume "((tx_snap e)(?n \<mapsto> dom (tx_active e))) x = Some A"
    then show "th_before (h\<lparr>th_before := (th_before h)(?n := th_ended h)\<rparr>) x = {y. y < x} - A" "x \<notin> A"
      using snap [of x A] before by (auto split: if_splits)
  next
    show "dom ((tx_active e)(?n \<mapsto> FIRST_CID)) = {x. x < ?n + 1} - th_ended (h\<lparr>th_before := (th_before h)(?n := th_ended h)\<rparr>)"
      "dom ((tx_snap e)(?n \<mapsto> dom (tx_active e))) = {x. x < ?n + 1} - th_ended (h\<lparr>th_before := (th_before h)(?n := th_ended h)\<rparr>)"
      using act dom' by simp_all
  next
    show "th_ended (h\<lparr>th_before := (th_before h)(?n := th_ended h)\<rparr>) \<subseteq> {x. x < ?n + 1}"
      using ended next_xid_less [OF small] by auto
  qed (use wf free in auto)
qed

lemma tx_inv_finish:
  assumes inv: "tx_inv (e, h)" and f: "finish who xid e = (Inr (), e')"
  shows "tx_inv (e', h\<lparr>th_ended := insert xid (th_ended h)\<rparr>)"
proof -
  note sp = finish_ok [OF f]
  have wf: "lock_wf (te_locks e)" using inv by (simp add: tx_inv_def)
  have lk: "lock_wf (te_locks e')" "held (te_locks e') y = (if y = xid then Map.empty else held (te_locks e) y)" for y
    unfolding sp(2) using locks.release_good [OF wf] locks.release_holding [OF wf] by auto
  have x: "xid < GetNextXid e" "xid \<notin> th_ended h" using inv sp(1) unfolding tx_inv_def by auto
  show ?thesis
    using inv x unfolding tx_inv_def prod.case sp(3-5) lk(2)
    by (simp add: lk(1)) blast
qed

lemma tx_inv_locks:
  assumes inv: "tx_inv (e, h)" and x: "xid \<in> GetActiveTransactions e"
    and lm: "lock_wf lm'" "\<And>y. y \<noteq> xid \<Longrightarrow> held lm' y = held (te_locks e) y"
  shows "tx_inv (e\<lparr>te_locks := lm'\<rparr>, h)"
proof -
  have "held lm' y = Map.empty" if "y \<notin> dom (tx_active e)" for y
    using that x lm(2) [of y] inv unfolding GetActiveTransactions_dom tx_inv_def by (cases "y = xid") auto
  moreover have "tx_active (e\<lparr>te_locks := lm'\<rparr>) = tx_active e" "tx_snap (e\<lparr>te_locks := lm'\<rparr>) = tx_snap e"
    "GetNextXid (e\<lparr>te_locks := lm'\<rparr>) = GetNextXid e"
    by (simp_all add: tx_active_def tx_snap_def GetNextXid_def)
  ultimately show ?thesis
    using inv lm(1) by (simp add: tx_inv_def)
qed

lemma tx_step_inv: "tx_step s s' \<Longrightarrow> tx_inv s \<Longrightarrow> tx_inv s'"
proof (induction rule: tx_step.induct)
  case (start e xid e' h)
  then show ?case using tx_inv_begin by blast
next
  case (commit xid e e' h)
  then show ?case using tx_inv_finish unfolding Commit_def by blast
next
  case (rollback xid e e' h)
  then show ?case using tx_inv_finish unfolding Rollback_def by blast
next
  case (command xid e c e' h)
  then obtain c' where c: "tx_active e xid = Some c'"
    and e': "e' = e\<lparr>te_tm := (te_tm e)\<lparr>tm_xid2cid := AList.update xid (c' + 1) (tm_xid2cid (te_tm e))\<rparr>\<rparr>"
    by (auto simp: GetCidAndIncrement_spec split: option.splits)
  have "dom (tx_active e') = dom (tx_active e)" "tx_snap e' = tx_snap e" "GetNextXid e' = GetNextXid e" "te_locks e' = te_locks e"
    using c unfolding e' by (auto simp: tx_active_def tx_snap_def GetNextXid_def update_conv')
  then show ?case using command.prems by (simp add: tx_inv_def)
next
  case (lock_table xid e t oid ok lm' h)
  then have "lock_wf (te_locks e)" by (simp add: tx_inv_def)
  from LockTable_spec [OF this lock_table.hyps(2)] show ?case
    by (intro tx_inv_locks [OF lock_table.prems lock_table.hyps(1)]) auto
next
  case (lock_row xid e t oid rid ok lm' h)
  then have "lock_wf (te_locks e)" by (simp add: tx_inv_def)
  from LockRow_spec [OF this lock_row.hyps(2)] show ?case
    by (intro tx_inv_locks [OF lock_row.prems lock_row.hyps(1)]) auto
qed

lemma tx_steps_inv: "tx_step\<^sup>*\<^sup>* s s' \<Longrightarrow> tx_inv s \<Longrightarrow> tx_inv s'"
  by (induction rule: rtranclp_induct) (auto intro: tx_step_inv)

lemma tx_run_inv:
  assumes "tx_step\<^sup>*\<^sup>* (TransactionManager_new LockManager_new n, TxHist_new n) s"
  shows "tx_inv s"
  by (rule tx_steps_inv [OF assms tx_inv_new])
    (simp_all add: LockManager_new_def lock_wf_def held_def locks_of_def)

lemma tx_inv_snapshot:
  assumes "tx_inv (e, h)" "GetSnapshot xid e = (Inr A, e')"
  shows "e' = e" "xid \<notin> A" "th_before h xid = {x. x < xid} - A" "xid < GetNextXid e"
proof -
  have A: "tx_snap e xid = Some A" and "e' = e"
    using assms(2) by (auto simp: GetSnapshot_spec split: option.splits)
  then show "e' = e" "xid \<notin> A" "th_before h xid = {x. x < xid} - A" "xid < GetNextXid e"
    using assms(1) unfolding tx_inv_def by auto
qed

lemma tx_inv_active:
  assumes "tx_inv (e, h)"
  shows "GetActiveTransactions e = {x. x < GetNextXid e} - th_ended h"
  using assms unfolding GetActiveTransactions_dom tx_inv_def by simp

section \<open>Properties\<close>

text \<open>
  The snapshot of a transaction names exactly the transactions that were running when it began:
  an older transaction is missing from it if and only if it had ended by then, whatever has begun,
  ended, run commands or taken locks since; and a transaction is never in its own snapshot.
\<close>

theorem snapshot_exact:
  assumes "tx_step\<^sup>*\<^sup>* (TransactionManager_new LockManager_new n, TxHist_new n) (e, h)"
    and "GetSnapshot xid e = (Inr A, e')"
  shows "e' = e \<and> xid \<notin> A \<and> th_before h xid = {x. x < xid} - A"
  using tx_inv_snapshot [OF tx_run_inv [OF assms(1)] assms(2)] by simp

definition sample_tx :: TxEnv where
  "sample_tx = \<lparr>te_tm = \<lparr>tm_next_xid = 4, tm_xid2cid = [(2, FIRST_CID), (3, FIRST_CID)],
     tm_xid2active_set = [(2, {1}), (3, {2})]\<rparr>, te_locks = ReleaseLocks 1 LockManager_new\<rparr>"

definition sample_hist :: TxHist where
  "sample_hist = \<lparr>th_ended = insert 1 {x. x < 1}, th_before = (\<lambda>x. {})(1 := {x. x < 1}, 2 := {x. x < 1}, 3 := insert 1 {x. x < 1})\<rparr>"

lemma sample_tx_run:
  "tx_step\<^sup>*\<^sup>* (TransactionManager_new LockManager_new FIRST_XID, TxHist_new FIRST_XID) (sample_tx, sample_hist)"
proof -
  let ?e0 = "TransactionManager_new LockManager_new FIRST_XID"
  define e1 where "e1 = snd (Begin ?e0)"
  define e2 where "e2 = snd (Begin e1)"
  define e3 where "e3 = snd (Commit 1 e2)"
  note defs = e1_def e2_def e3_def TransactionManager_new_def Begin_def ebind_def tm_update_def GetNextXid_def
  have small: "(1::xid_t) < - 1" "(2::xid_t) < - 1" "(3::xid_t) < - 1"
    by (simp_all add: word_less_nat_alt unsigned_minus_1_eq_mask mask_eq_exp_minus_1)
  let ?h0 = "TxHist_new FIRST_XID"
  let ?h1 = "?h0\<lparr>th_before := (th_before ?h0)(1 := th_ended ?h0)\<rparr>"
  let ?h2 = "?h1\<lparr>th_before := (th_before ?h1)(2 := th_ended ?h1)\<rparr>"
  let ?h3 = "?h2\<lparr>th_ended := insert 1 (th_ended ?h2)\<rparr>"
  let ?h4 = "?h3\<lparr>th_before := (th_before ?h3)(3 := th_ended ?h3)\<rparr>"
  have 1: "tx_step (?e0, ?h0) (e1, ?h1)"
    by (rule tx_step.start) (simp_all add: defs small)
  have 2: "tx_step (e1, ?h1) (e2, ?h2)"
    by (rule tx_step.start) (simp_all add: defs small)
  have 3: "tx_step (e2, ?h2) (e3, ?h3)"
    by (rule tx_step.commit) (simp add: defs Commit_def finish_def tm_ReleaseLocks_def)
  have 4: "tx_step (e3, ?h3) (sample_tx, ?h4)"
    by (rule tx_step.start) (simp_all add: defs small Commit_def finish_def tm_ReleaseLocks_def sample_tx_def)
  have "?h4 = sample_hist" by (simp add: sample_hist_def TxHist_new_def)
  with 1 2 3 4 show ?thesis by auto
qed

theorem snapshot_exact_witness:
  "GetSnapshot 3 sample_tx = (Inr {2}, sample_tx) \<and> th_before sample_hist 3 = {x. x < 3} - {2}"
proof -
  have "GetSnapshot 3 sample_tx = (Inr {2}, sample_tx)"
    by (simp add: GetSnapshot_def ebind_def sample_tx_def)
  then show ?thesis using snapshot_exact [OF sample_tx_run, of 3 "{2}"] by simp
qed

text \<open>
  In every run the active transactions are exactly those begun and not ended; \<^verbatim>\<open>Commit\<close> and
  \<^verbatim>\<open>Rollback\<close> succeed exactly on them, throwing without effect on any other id, and a transaction
  that is not active holds no lock on any table or row.
\<close>

theorem active_exact:
  assumes "tx_step\<^sup>*\<^sup>* (TransactionManager_new LockManager_new n, TxHist_new n) (e, h)"
  shows "GetActiveTransactions e = {x. x < GetNextXid e} - th_ended h
     \<and> ((\<exists>e'. Commit xid e = (Inr (), e')) \<longleftrightarrow> xid \<in> GetActiveTransactions e)
     \<and> ((\<exists>e'. Rollback xid e = (Inr (), e')) \<longleftrightarrow> xid \<in> GetActiveTransactions e)
     \<and> (xid \<notin> GetActiveTransactions e \<longrightarrow> snd (Commit xid e) = e \<and> snd (Rollback xid e) = e
          \<and> held (te_locks e) xid = Map.empty)"
proof -
  have inv: "tx_inv (e, h)" by (rule tx_run_inv [OF assms])
  have same: "dom (tx_snap e) = dom (tx_active e)" using inv by (simp add: tx_inv_def)
  have iff: "(\<exists>e'. finish who xid e = (Inr (), e')) \<longleftrightarrow> xid \<in> GetActiveTransactions e" for who
    using finish_ok(1) finish_total [of xid e who] same unfolding GetActiveTransactions_dom by blast
  have "xid \<notin> GetActiveTransactions e \<Longrightarrow> held (te_locks e) xid = Map.empty"
    using inv unfolding GetActiveTransactions_dom tx_inv_def by simp
  then show ?thesis
    using iff tx_inv_active [OF inv] finish_error [of xid e] unfolding Commit_def Rollback_def GetActiveTransactions_dom
    by auto
qed

theorem active_exact_witness:
  "GetActiveTransactions sample_tx = {2, 3} \<and> \<not> (\<exists>e'. Commit 1 sample_tx = (Inr (), e'))
     \<and> held (te_locks sample_tx) 1 = Map.empty"
proof -
  have "GetActiveTransactions sample_tx = {2, 3}"
    by (simp add: GetActiveTransactions_def sample_tx_def)
  then show ?thesis using active_exact [OF sample_tx_run, of 1] by simp
qed

end
