(* ===== verification/Visibility.thy ===== *)
theory Visibility
  imports Transaction_Manager Records
begin

text \<open>
  \<^verbatim>\<open>TableScan::CanGet\<close> of \<^verbatim>\<open>src/src/table/table_scan.cpp\<close>, the test on the version stamps of a record that
  decides whether a scan passes over it: it answers true for a record the scan must skip. It is
  compared with the specification of visible versions that the isolation levels stand for, first
  on an arbitrary set of active transactions, then on the sets the transaction manager provides.
\<close>

section \<open>The test of the code\<close>

definition CanGet :: "Record \<Rightarrow> xid_t \<Rightarrow> cid_t \<Rightarrow> IsolationLevel \<Rightarrow> xid_t set \<Rightarrow> bool" where
  "CanGet record xid cid isolation_level active_xids =
     (let rcid = rh_cid (r_header record); xmin = rh_xmin (r_header record); xmax = rh_xmax (r_header record)
      in case isolation_level of
           READ_COMMITTED \<Rightarrow>
             if rcid = cid \<and> xmin = xid then True
             else let find_in_active = (xmin \<in> active_xids) in
               if find_in_active \<and> xmin \<noteq> xid then True
               else if find_in_active \<and> xmin = xid then
                 (if xid = xmax \<and> xmax \<noteq> NULL_XID then True
                  else if xmax \<noteq> NULL_XID \<and> xmax \<notin> active_xids then True else False)
               else if \<not> find_in_active then
                 (if xmax = xid \<and> xmax \<noteq> NULL_XID then True
                  else if xmax \<noteq> NULL_XID \<and> xmax \<notin> active_xids then True else False)
               else False
         | REPEATABLE_READ \<Rightarrow>
             if rcid = cid \<and> xmin = xid then True
             else let find_in_active = (xmin \<in> active_xids) in
               if find_in_active \<and> xmin \<noteq> xid then True
               else if find_in_active \<and> xmin = xid then
                 (if xmax = xid \<and> xmax \<noteq> NULL_XID then True else False)
               else if \<not> find_in_active \<and> xmin \<le> xid then
                 (if xmax = xid \<and> xmax \<noteq> NULL_XID then True
                  else if xmax \<in> active_xids \<or> xmax > xid then False else True)
               else if \<not> find_in_active \<and> xmin > xid then True
               else False
         | SERIALIZABLE \<Rightarrow>
             (xmin \<noteq> xid \<and> xmin \<in> active_xids)
             \<or> (xmax = xid \<or> (rcid = cid \<and> xmin = xid) \<or> (xmax \<noteq> NULL_XID \<and> xmax \<notin> active_xids)))"

section \<open>Visible versions\<close>

text \<open>
  A version is visible when its insertion is visible and its deletion is not. What the transaction
  did itself is visible, except the insertions of the running command; of the others' work
  what belongs to the set of settled transactions is.
\<close>

definition visible :: "(xid_t \<Rightarrow> bool) \<Rightarrow> xid_t \<Rightarrow> cid_t \<Rightarrow> Record \<Rightarrow> bool" where
  "visible settled xid cid record \<longleftrightarrow>
     (let h = r_header record in
      (if rh_xmin h = xid then rh_cid h \<noteq> cid else settled (rh_xmin h))
      \<and> \<not> (rh_xmax h = xid \<or> (rh_xmax h \<noteq> NULL_XID \<and> settled (rh_xmax h))))"

lemma less_NULL_XID: "(x :: xid_t) \<noteq> NULL_XID \<Longrightarrow> x < NULL_XID"
  using word_order.not_eq_extremum [of x] by simp

lemma repeatable_read_core:
  fixes a b x n :: "'a::linorder"
  assumes "x \<notin> A" "x < n"
  shows "(if c \<and> a = x then True
          else if a \<in> A \<and> a \<noteq> x then True
          else if a \<in> A \<and> a = x then (if b = x \<and> b \<noteq> n then True else False)
          else if a \<notin> A \<and> a \<le> x then
            (if b = x \<and> b \<noteq> n then True else if b \<in> A \<or> b > x then False else True)
          else if a \<notin> A \<and> a > x then True else False)
     \<longleftrightarrow> \<not> ((if a = x then \<not> c else a < x \<and> a \<notin> A) \<and> \<not> (b = x \<or> (b \<noteq> n \<and> (b < x \<and> b \<notin> A))))"
proof -
  have 1: "a \<le> x \<longleftrightarrow> a < x \<or> a = x" "a > x \<longleftrightarrow> \<not> a < x \<and> a \<noteq> x" "b > x \<longleftrightarrow> \<not> b < x \<and> b \<noteq> x" by auto
  have 2: "b = n \<Longrightarrow> \<not> b < x" "b = n \<Longrightarrow> b \<noteq> x" "b < x \<Longrightarrow> b \<noteq> x" "a < x \<Longrightarrow> a \<noteq> x" using assms(2) by auto
  have 3: "a = x \<Longrightarrow> a \<notin> A" "b = x \<Longrightarrow> b \<notin> A" using assms(1) by auto
  show ?thesis unfolding 1 using 2 3 by argo
qed

lemma CanGet_repeatable_read:
  assumes "xid \<notin> A" "xid \<noteq> NULL_XID"
  shows "CanGet record xid cid REPEATABLE_READ A \<longleftrightarrow> \<not> visible (\<lambda>x. x < xid \<and> x \<notin> A) xid cid record"
  unfolding CanGet_def visible_def Let_def IsolationLevel.case
  by (rule repeatable_read_core [OF assms(1) less_NULL_XID [OF assms(2)]])

lemma CanGet_read_committed:
  assumes "xid \<noteq> NULL_XID"
  shows "CanGet record xid cid READ_COMMITTED A \<longleftrightarrow> \<not> visible (\<lambda>x. x \<notin> A) xid cid record"
  using assms unfolding CanGet_def visible_def Let_def IsolationLevel.case by argo

lemma CanGet_serializable:
  "xid \<noteq> NULL_XID \<Longrightarrow> CanGet record xid cid SERIALIZABLE A \<longleftrightarrow> \<not> visible (\<lambda>x. x \<notin> A) xid cid record"
  unfolding CanGet_def visible_def Let_def IsolationLevel.case by argo

lemma visible_cong:
  assumes "\<And>x. x \<noteq> xid \<Longrightarrow> x = rh_xmin (r_header record) \<or> x = rh_xmax (r_header record) \<and> x \<noteq> NULL_XID \<Longrightarrow> p x = q x"
  shows "visible p xid cid record = visible q xid cid record"
  using assms [of "rh_xmin (r_header record)"] assms [of "rh_xmax (r_header record)"]
  unfolding visible_def Let_def by argo

section \<open>Properties\<close>

text \<open>
  C21. Snapshot isolation: in every run of the transaction manager, a repeatable-read scan that uses
  the transaction's snapshot returns exactly the record versions inserted by an earlier command of
  the transaction or by a transaction that had ended before it began, and not deleted by either.
\<close>

theorem repeatable_read_snapshot:
  assumes "tx_step\<^sup>*\<^sup>* (TransactionManager_new LockManager_new n, TxHist_new n) (e, h)"
    and "GetSnapshot xid e = (Inr A, e')"
  shows "CanGet record xid cid REPEATABLE_READ A \<longleftrightarrow> \<not> visible (\<lambda>x. x \<in> th_before h xid) xid cid record"
proof -
  note sn = tx_inv_snapshot [OF tx_run_inv [OF assms(1)] assms(2)]
  have "xid \<noteq> NULL_XID" using sn(4) word_order.extremum_strict [of "GetNextXid e"] by auto
  then have "CanGet record xid cid REPEATABLE_READ A \<longleftrightarrow> \<not> visible (\<lambda>x. x < xid \<and> x \<notin> A) xid cid record"
    by (rule CanGet_repeatable_read [OF sn(2)])
  then show ?thesis unfolding sn(3) by simp
qed

definition sample_version :: Record where
  "sample_version = SetXmin 1 (SetXmax 2 (SetCid FIRST_CID Record_default))"

theorem repeatable_read_snapshot_witness:
  "\<not> CanGet sample_version 3 FIRST_CID REPEATABLE_READ {2}"
proof -
  have "GetSnapshot 3 sample_tx = (Inr {2}, sample_tx)"
    by (simp add: GetSnapshot_def ebind_def sample_tx_def)
  from repeatable_read_snapshot [OF sample_tx_run this, of sample_version FIRST_CID] show ?thesis
    by (simp add: visible_def sample_version_def SetXmin_def SetXmax_def SetCid_def sample_hist_def)
qed

text \<open>
  Read committed: in every run, a scan that uses the currently active transactions returns exactly
  the record versions inserted by an earlier command of the transaction or by a transaction that has
  ended, and not deleted by either; the serializable level applies the same test. The stamps of
  the record are ids the manager has given out, or none.
\<close>

theorem read_committed_current:
  assumes "tx_step\<^sup>*\<^sup>* (TransactionManager_new LockManager_new n, TxHist_new n) (e, h)"
    and "xid \<in> GetActiveTransactions e" "rh_xmin (r_header record) < GetNextXid e"
    and "rh_xmax (r_header record) < GetNextXid e \<or> rh_xmax (r_header record) = NULL_XID"
    and "level = READ_COMMITTED \<or> level = SERIALIZABLE"
  shows "CanGet record xid cid level (GetActiveTransactions e)
     \<longleftrightarrow> \<not> visible (\<lambda>x. x \<in> th_ended h) xid cid record"
proof -
  have act: "GetActiveTransactions e = {x. x < GetNextXid e} - th_ended h"
    by (rule tx_inv_active [OF tx_run_inv [OF assms(1)]])
  have "xid < GetNextXid e" using assms(2) act by simp
  then have "xid \<noteq> NULL_XID" using word_order.extremum_strict [of "GetNextXid e"] by auto
  then have "CanGet record xid cid level (GetActiveTransactions e)
      \<longleftrightarrow> \<not> visible (\<lambda>x. x \<notin> GetActiveTransactions e) xid cid record"
    using assms(5) CanGet_read_committed CanGet_serializable by blast
  also have "visible (\<lambda>x. x \<notin> GetActiveTransactions e) xid cid record = visible (\<lambda>x. x \<in> th_ended h) xid cid record"
    using assms(3,4) unfolding act by (intro visible_cong) auto
  finally show ?thesis .
qed

theorem read_committed_current_witness:
  "\<not> CanGet sample_version 3 FIRST_CID READ_COMMITTED (GetActiveTransactions sample_tx)"
proof -
  have "rh_xmin (r_header sample_version) < GetNextXid sample_tx" "rh_xmax (r_header sample_version) < GetNextXid sample_tx"
    by (simp_all add: sample_version_def sample_tx_def SetXmin_def SetXmax_def SetCid_def GetNextXid_def)
  moreover have "3 \<in> GetActiveTransactions sample_tx"
    by (simp add: GetActiveTransactions_def sample_tx_def)
  ultimately have "CanGet sample_version 3 FIRST_CID READ_COMMITTED (GetActiveTransactions sample_tx)
      \<longleftrightarrow> \<not> visible (\<lambda>x. x \<in> th_ended sample_hist) 3 FIRST_CID sample_version"
    by (intro read_committed_current [OF sample_tx_run]) simp_all
  then show ?thesis
    by (simp add: visible_def sample_version_def SetXmin_def SetXmax_def SetCid_def sample_hist_def)
qed

end
