(* ===== verification/Table_Scan.thy ===== *)
theory Table_Scan
  imports Tables Visibility
begin

text \<open>
  \<^verbatim>\<open>TableScan\<close> of \<^verbatim>\<open>src/src/table/table_scan.cpp\<close>: the iteration over the rows of a table through the
  buffer pool, passing over the versions that \<^verbatim>\<open>CanGet\<close> rejects. A whole scan is shown to return
  exactly the visible rows of the table, in the order of the pages and slots.
\<close>

section \<open>The scan\<close>

record TableScan =
  ts_pool :: PoolEnv
  ts_table :: Table
  ts_rid :: Rid

definition TableScan_new :: "PoolEnv \<Rightarrow> Table \<Rightarrow> Rid \<Rightarrow> TableScan" where
  "TableScan_new pool table rid = \<lparr>ts_pool = pool, ts_table = table, ts_rid = rid\<rparr>"

definition scan_page :: "pageid_t \<Rightarrow> (TableScan, nat) em" where
  "scan_page page_id s =
     (case GetPage (tb_db_oid (ts_table s)) (tb_oid (ts_table s)) page_id (ts_pool s) of (r, p) \<Rightarrow> (r, s\<lparr>ts_pool := p\<rparr>))"

definition scan_record :: "nat \<Rightarrow> (TableScan, Record) em" where
  "scan_record r s =
     (case TablePage_GetRecord (ts_rid s) (tb_column_list (ts_table s)) (page_of r (ts_pool s)) of
        Inl e \<Rightarrow> (Inl e, s)
      | Inr rec \<Rightarrow> (Inr (rec\<lparr>r_rid := ts_rid s\<rparr>), s))"

definition set_rid :: "Rid \<Rightarrow> (TableScan, unit) em" where
  "set_rid rid = emodify (\<lambda>s. s\<lparr>ts_rid := rid\<rparr>)"

text \<open>The comparison \<^verbatim>\<open>rid_.slot_id_ < record_count - 1\<close> is made in \<^verbatim>\<open>int\<close>.\<close>

definition more_slots :: "Page \<Rightarrow> Rid \<Rightarrow> bool" where
  "more_slots p rid \<longleftrightarrow> int (unat (rid_slot_id rid)) < int (unat (GetRecordCount p)) - 1"

definition next_slot :: "Rid \<Rightarrow> Rid" where
  "next_slot rid = rid\<lparr>rid_slot_id := rid_slot_id rid + 1\<rparr>"

definition page_start :: "pageid_t \<Rightarrow> Rid" where
  "page_start page_id = \<lparr>rid_page_id = page_id, rid_slot_id = 0\<rparr>"

text \<open>
  The loop over the records to skip; the result is the record with the page it is on, or none at the
  end of the table. A chain of pages that runs into a cycle may be followed for ever.
\<close>

fun scan_loop ::
    "xid_t \<Rightarrow> IsolationLevel \<Rightarrow> cid_t \<Rightarrow> xid_t set \<Rightarrow> nat \<Rightarrow> nat \<Rightarrow> Record \<Rightarrow> (TableScan, (Record \<times> nat) option) em" where
  "scan_loop xid level cid active 0 r rec = ethrow Diverges"
| "scan_loop xid level cid active (Suc fuel) r rec =
     (if CanGet rec xid cid level active
      then ebind (eget (\<lambda>s. (ts_rid s, page_of r (ts_pool s)))) (\<lambda>(rid, p).
             if more_slots p rid
             then ebind (set_rid (next_slot rid)) (\<lambda>_.
                  ebind (scan_record r) (\<lambda>rec'. scan_loop xid level cid active fuel r rec'))
             else ebind (set_rid (page_start (next_page_id p))) (\<lambda>_.
                  if next_page_id p = NULL_PAGE_ID then eret None
                  else ebind (scan_page (next_page_id p)) (\<lambda>r'.
                       ebind (scan_record r') (\<lambda>rec'. scan_loop xid level cid active fuel r' rec'))))
      else eret (Some (rec, r)))"

text \<open>Every step of a scan that ends visits another rid.\<close>

definition SCAN_FUEL :: nat where "SCAN_FUEL = 2 ^ 48"

definition GetNextRecord ::
    "xid_t \<Rightarrow> IsolationLevel \<Rightarrow> cid_t \<Rightarrow> xid_t set \<Rightarrow> (TableScan, Record option) em" where
  "GetNextRecord xid level cid active =
     ebind (eget ts_rid) (\<lambda>rid.
       if rid_page_id rid = NULL_PAGE_ID then eret None
       else ebind (scan_page (rid_page_id rid)) (\<lambda>r.
            ebind (scan_record r) (\<lambda>rec.
            ebind (scan_loop xid level cid active SCAN_FUEL r rec) (\<lambda>found.
              case found of
                None \<Rightarrow> eret None
              | Some (rec', r') \<Rightarrow>
                  ebind (eget (\<lambda>s. (ts_rid s, page_of r' (ts_pool s)))) (\<lambda>(rid', p).
                  ebind (set_rid (if more_slots p rid' then next_slot rid' else page_start (next_page_id p))) (\<lambda>_.
                    eret (Some rec')))))))"

section \<open>What reading a page keeps\<close>

definition scan_kept :: "Table \<Rightarrow> PoolEnv \<Rightarrow> PoolEnv \<Rightarrow> bool" where
  "scan_kept t s s' \<longleftrightarrow> outside_kept t s s' \<and> frames_kept t s s' \<and> log_kept (pe_log s) (pe_log s')"

lemma scan_kept_refl [simp]: "scan_kept t s s"
  by (simp add: scan_kept_def log_kept_def)

lemma scan_kept_trans: "scan_kept t a b \<Longrightarrow> scan_kept t b c \<Longrightarrow> scan_kept t a c"
  unfolding scan_kept_def using outside_kept_trans frames_kept_trans log_kept_trans by blast

section \<open>Positions\<close>

definition rid_at :: "nat \<Rightarrow> nat \<Rightarrow> Rid" where
  "rid_at i j = \<lparr>rid_page_id = of_nat i, rid_slot_id = of_nat j\<rparr>"

definition page_rids :: "Record list list \<Rightarrow> nat \<Rightarrow> nat \<Rightarrow> (Rid \<times> Record) list" where
  "page_rids rss i j = map (\<lambda>m. (rid_at i m, rss ! i ! m)) [j..<length (rss ! i)]"

text \<open>The rows of a table with their rids, and those from a position on.\<close>

definition rows_from :: "Record list list \<Rightarrow> nat \<Rightarrow> nat \<Rightarrow> (Rid \<times> Record) list" where
  "rows_from rss i j = page_rids rss i j @ concat (map (\<lambda>m. page_rids rss m 0) [Suc i..<length rss])"

definition table_rows :: "Record list list \<Rightarrow> (Rid \<times> Record) list" where
  "table_rows rss = concat (map (\<lambda>m. page_rids rss m 0) [0..<length rss])"

lemma rows_from_next_page: "concat (map (\<lambda>m. page_rids rss m 0) [i..<length rss]) = (if i < length rss then rows_from rss i 0 else [])"
  by (simp add: rows_from_def upt_conv_Cons)

lemma table_rows_from: "table_rows rss = (if rss = [] then [] else rows_from rss 0 0)"
  using rows_from_next_page [of rss 0] by (simp add: table_rows_def)

lemma rows_from_step:
  assumes "j < length (rss ! i)"
  shows "rows_from rss i j = (rid_at i j, rss ! i ! j) #
     (if Suc j < length (rss ! i) then rows_from rss i (Suc j) else if Suc i < length rss then rows_from rss (Suc i) 0 else [])"
proof -
  have "page_rids rss i j = (rid_at i j, rss ! i ! j) # page_rids rss i (Suc j)"
    using assms by (simp add: page_rids_def upt_conv_Cons)
  moreover have "page_rids rss i (Suc j) = []" if "\<not> Suc j < length (rss ! i)"
    using that by (simp add: page_rids_def)
  ultimately show ?thesis
    by (simp add: rows_from_def rows_from_next_page del: upt_Suc)
qed

text \<open>What is left of the table at the position of a scan.\<close>

definition scan_rest :: "Record list list \<Rightarrow> TableScan \<Rightarrow> (Rid \<times> Record) list \<Rightarrow> bool" where
  "scan_rest rss s rest \<longleftrightarrow> table_pages NULL_PAGE_ID (ts_table s) rss (ts_pool s) \<and> (\<forall>rows \<in> set rss. rows \<noteq> []) \<and>
     (rid_page_id (ts_rid s) = NULL_PAGE_ID \<and> rest = [] \<or>
      (\<exists>i j. i < length rss \<and> j < length (rss ! i) \<and> ts_rid s = rid_at i j \<and> rest = rows_from rss i j))"

text \<open>The scan stands at row \<open>j\<close> of page \<open>i\<close> and holds the page.\<close>

definition scan_at :: "Record list list \<Rightarrow> nat \<Rightarrow> nat \<Rightarrow> nat \<Rightarrow> TableScan \<Rightarrow> bool" where
  "scan_at rss i j r s \<longleftrightarrow> table_pages NULL_PAGE_ID (ts_table s) rss (ts_pool s) \<and> (\<forall>rows \<in> set rss. rows \<noteq> []) \<and>
     i < length rss \<and> j < length (rss ! i) \<and> ts_rid s = rid_at i j \<and> holds (ts_pool s) (tkey (ts_table s) i) r"

lemma scan_at_rest: "scan_at rss i j r s \<Longrightarrow> scan_rest rss s (rows_from rss i j)"
  unfolding scan_at_def scan_rest_def by blast

lemma row_count:
  assumes "table_pages nx t rss s" "i < length rss"
  shows "length (rss ! i) \<le> 14"
proof -
  obtain v c where "page_rep v \<lparr>pg_data = c, pg_dirty = False\<rparr>" "page_rows (tb_column_list t) (rss ! i) v"
    using assms by (auto simp: table_pages_def page_holds_def page_at_def)
  then show ?thesis using page_rep_bounds(2) [of v] by (auto simp: page_rows_def)
qed

lemma scan_at_view:
  assumes "scan_at rss i j r s"
  obtains v where "page_rep v (page_of r (ts_pool s))" "page_rows (tb_column_list (ts_table s)) (rss ! i) v"
    "next_page_id (page_of r (ts_pool s)) = (if Suc i < length rss then of_nat (Suc i) else NULL_PAGE_ID)"
    "unat (rid_slot_id (rid_at i j)) = j" "more_slots (page_of r (ts_pool s)) (ts_rid s) \<longleftrightarrow> Suc j < length (rss ! i)"
proof -
  have a: "table_pages NULL_PAGE_ID (ts_table s) rss (ts_pool s)" "i < length rss" "j < length (rss ! i)"
    "ts_rid s = rid_at i j" "holds (ts_pool s) (tkey (ts_table s) i) r"
    using assms by (auto simp: scan_at_def)
  obtain v where v: "page_rep v (page_of r (ts_pool s))" "page_rows (tb_column_list (ts_table s)) (rss ! i) v"
    "pv_next v = next_of (length rss) NULL_PAGE_ID i"
    by (rule held_view [OF a(1,2,5)])
  have l: "length (rss ! i) \<le> 14" by (rule row_count [OF a(1,2)])
  have u: "unat (rid_slot_id (rid_at i j)) = j"
    unfolding rid_at_def Rid.select_convs by (rule unat_of_nat_small) (use a(3) l in simp)
  have "unat (GetRecordCount (page_of r (ts_pool s))) = length (rss ! i)"
  proof -
    have "length (pv_recs v) = length (rss ! i)" using v(2) by (simp add: page_rows_def)
    then show ?thesis unfolding page_rep_count [OF v(1)] using l by (simp only:) (rule unat_of_nat_small, simp)
  qed
  then have "more_slots (page_of r (ts_pool s)) (ts_rid s) \<longleftrightarrow> Suc j < length (rss ! i)"
    unfolding more_slots_def a(4) u by auto
  then show thesis
    using that [OF v(1,2) _ u] page_rep_fields(2) [OF v(1)] v(3) by (simp add: next_of_def)
qed

lemma scan_record_ok:
  assumes "scan_at rss i j r s"
  obtains rec where "scan_record r s = (Inr rec, s)" "reads_as (rss ! i ! j) (rid_at i j) rec"
proof -
  obtain v where v: "page_rep v (page_of r (ts_pool s))" "page_rows (tb_column_list (ts_table s)) (rss ! i) v"
    "unat (rid_slot_id (rid_at i j)) = j"
    by (rule scan_at_view [OF assms])
  have a: "j < length (rss ! i)" "ts_rid s = rid_at i j" using assms by (auto simp: scan_at_def)
  obtain rec where rec: "TablePage_GetRecord (rid_at i j) (tb_column_list (ts_table s)) (page_of r (ts_pool s)) = Inr rec"
    "reads_as (rss ! i ! j) (rid_at i j) rec"
    using page_rows_get [OF v(1,2), of "rid_at i j"] a(1) v(3) by auto
  have "rec\<lparr>r_rid := rid_at i j\<rparr> = rec" using rec(2) by (simp add: reads_as_def)
  then show thesis
    using that rec a(2) by (simp add: scan_record_def)
qed

lemma scan_page_ok:
  assumes "table_pages NULL_PAGE_ID (ts_table s) rss (ts_pool s)" "\<forall>rows \<in> set rss. rows \<noteq> []"
    "i < length rss" "j < length (rss ! i)" "ts_rid s = rid_at i j"
  obtains r p' where "scan_page (of_nat i) s = (Inr r, s\<lparr>ts_pool := p'\<rparr>)" "scan_at rss i j r (s\<lparr>ts_pool := p'\<rparr>)"
    "scan_kept (ts_table s) (ts_pool s) p'"
proof -
  obtain r p' where "GetPage (tb_db_oid (ts_table s)) (tb_oid (ts_table s)) (of_nat i) (ts_pool s) = (Inr r, p')"
    "table_pages NULL_PAGE_ID (ts_table s) rss p'" "holds p' (tkey (ts_table s) i) r"
    "scan_kept (ts_table s) (ts_pool s) p'"
    using GetPage_table_frames [OF assms(1,3)] unfolding scan_kept_def by metis
  then show thesis
    using that assms by (simp add: scan_page_def scan_at_def)
qed

section \<open>One call\<close>

lemma CanGet_reads: "reads_as row rid rec \<Longrightarrow> CanGet rec xid cid level active = CanGet row xid cid level active"
  by (simp add: CanGet_def reads_as_def)

definition skips :: "xid_t \<Rightarrow> IsolationLevel \<Rightarrow> cid_t \<Rightarrow> xid_t set \<Rightarrow> Rid \<times> Record \<Rightarrow> bool" where
  "skips xid level cid active x = CanGet (snd x) xid cid level active"

definition loop_result ::
    "Record list list \<Rightarrow> (Rid \<times> Record) list \<Rightarrow> TableScan \<Rightarrow> (Record \<times> nat) option \<Rightarrow> TableScan \<Rightarrow> bool" where
  "loop_result rss rest s res s' \<longleftrightarrow> ts_table s' = ts_table s \<and> scan_kept (ts_table s) (ts_pool s) (ts_pool s') \<and>
     (case rest of [] \<Rightarrow> res = None \<and> scan_rest rss s' []
      | x # xs \<Rightarrow> \<exists>i j r rec. res = Some (rec, r) \<and> scan_at rss i j r s' \<and> rest = rows_from rss i j \<and> reads_as (snd x) (fst x) rec)"

lemma loop_result_trans:
  "ts_table s1 = ts_table s \<Longrightarrow> scan_kept (ts_table s) (ts_pool s) (ts_pool s1) \<Longrightarrow> loop_result rss rest s1 res s'
     \<Longrightarrow> loop_result rss rest s res s'"
  using scan_kept_trans by (auto simp: loop_result_def)

lemma scan_next_slot:
  assumes "scan_at rss i j r s" "Suc j < length (rss ! i)"
  shows "scan_at rss i (Suc j) r (s\<lparr>ts_rid := next_slot (ts_rid s)\<rparr>)"
  using assms by (simp add: scan_at_def next_slot_def rid_at_def add.commute)

lemma scan_next_page:
  assumes at: "scan_at rss i j r s" and n: "Suc i < length rss"
  obtains r' p' where "scan_page (of_nat (Suc i)) (s\<lparr>ts_rid := page_start (of_nat (Suc i))\<rparr>)
      = (Inr r', s\<lparr>ts_rid := rid_at (Suc i) 0, ts_pool := p'\<rparr>)"
    "scan_at rss (Suc i) 0 r' (s\<lparr>ts_rid := rid_at (Suc i) 0, ts_pool := p'\<rparr>)" "scan_kept (ts_table s) (ts_pool s) p'"
proof -
  let ?s = "s\<lparr>ts_rid := rid_at (Suc i) 0\<rparr>"
  have e: "page_start (of_nat (Suc i)) = rid_at (Suc i) 0" by (simp add: page_start_def rid_at_def)
  have t: "table_pages NULL_PAGE_ID (ts_table ?s) rss (ts_pool ?s)" "\<forall>rows \<in> set rss. rows \<noteq> []"
    using at by (auto simp: scan_at_def)
  have "rss ! Suc i \<noteq> []" using t(2) n nth_mem by blast
  then have "0 < length (rss ! Suc i)" by simp
  from scan_page_ok [OF t n this] show thesis
    using that unfolding e by auto
qed

text \<open>Skipping a row: the scan ends, or goes on at the next row.\<close>

lemma scan_loop_skip:
  assumes at: "scan_at rss i j r s" and skip: "CanGet rec xid cid level active"
  defines "rest \<equiv> tl (rows_from rss i j)" and "loop \<equiv> scan_loop xid level cid active"
  obtains (finish) s' where "rest = []" "\<And>n. loop (Suc n) r rec s = (Inr None, s')" "loop_result rss [] s None s'"
    | (continue) i' j' r' rec' s' where "rest = rows_from rss i' j'" "scan_at rss i' j' r' s'"
        "reads_as (rss ! i' ! j') (rid_at i' j') rec'" "\<And>n. loop (Suc n) r rec s = loop n r' rec' s'"
        "ts_table s' = ts_table s" "scan_kept (ts_table s) (ts_pool s) (ts_pool s')"
proof -
  let ?p = "page_of r (ts_pool s)"
  have j: "j < length (rss ! i)" using at by (simp add: scan_at_def)
  obtain v where v: "next_page_id ?p = (if Suc i < length rss then of_nat (Suc i) else NULL_PAGE_ID)"
    "more_slots ?p (ts_rid s) \<longleftrightarrow> Suc j < length (rss ! i)"
    using scan_at_view [OF at] by metis
  have rest: "rest = (if Suc j < length (rss ! i) then rows_from rss i (Suc j) else if Suc i < length rss then rows_from rss (Suc i) 0 else [])"
    unfolding rest_def rows_from_step [OF j] by simp
  consider "Suc j < length (rss ! i)" | "\<not> Suc j < length (rss ! i)" "Suc i < length rss"
    | "\<not> Suc j < length (rss ! i)" "\<not> Suc i < length rss" by blast
  then show thesis
  proof cases
    case 1
    let ?s = "s\<lparr>ts_rid := next_slot (ts_rid s)\<rparr>"
    note at' = scan_next_slot [OF at 1]
    obtain rec' where rec': "scan_record r ?s = (Inr rec', ?s)" "reads_as (rss ! i ! Suc j) (rid_at i (Suc j)) rec'"
      by (rule scan_record_ok [OF at'])
    have "loop (Suc n) r rec s = loop n r rec' ?s" for n
      using skip v(2) 1 rec'(1) by (simp add: ebind_def set_rid_def loop_def)
    then show thesis
      using continue [OF _ at' rec'(2)] rest 1 by simp
  next
    case 2
    have n: "length rss < 2 ^ 32" using at by (simp add: scan_at_def table_pages_def table_owns_def)
    have nn: "of_nat (Suc i) \<noteq> NULL_PAGE_ID" by (rule page_id_not_null) (use n 2 in linarith)
    obtain r' p' where p': "scan_page (of_nat (Suc i)) (s\<lparr>ts_rid := page_start (of_nat (Suc i))\<rparr>)
        = (Inr r', s\<lparr>ts_rid := rid_at (Suc i) 0, ts_pool := p'\<rparr>)"
      "scan_at rss (Suc i) 0 r' (s\<lparr>ts_rid := rid_at (Suc i) 0, ts_pool := p'\<rparr>)" "scan_kept (ts_table s) (ts_pool s) p'"
      by (rule scan_next_page [OF at 2(2)])
    let ?s = "s\<lparr>ts_rid := rid_at (Suc i) 0, ts_pool := p'\<rparr>"
    obtain rec' where rec': "scan_record r' ?s = (Inr rec', ?s)" "reads_as (rss ! Suc i ! 0) (rid_at (Suc i) 0) rec'"
      by (rule scan_record_ok [OF p'(2)])
    have np: "next_page_id ?p = of_nat (Suc i)" using v(1) 2 by simp
    have "loop (Suc n) r rec s = loop n r' rec' ?s" for n
      unfolding loop_def scan_loop.simps using skip v(2) 2 nn p'(1) rec'(1)
      by (simp only: ebind_def em_apply prod.case sum.case if_True if_False np set_rid_def)
    then show thesis
      using continue [OF _ p'(2) rec'(2)] rest 2 p'(3) by simp
  next
    case 3
    let ?s = "s\<lparr>ts_rid := page_start NULL_PAGE_ID\<rparr>"
    have "loop (Suc n) r rec s = (Inr None, ?s)" for n
      using skip v 3 by (simp add: ebind_def set_rid_def loop_def)
    moreover have "loop_result rss [] s None ?s"
      using at by (simp add: loop_result_def scan_rest_def scan_at_def page_start_def)
    ultimately show thesis using finish rest 3 by simp
  qed
qed

lemma scan_loop_ok:
  assumes "scan_at rss i j r s" "reads_as (rss ! i ! j) (rid_at i j) rec" "length (rows_from rss i j) \<le> fuel"
  shows "\<exists>res s'. scan_loop xid level cid active fuel r rec s = (Inr res, s')
     \<and> loop_result rss (dropWhile (skips xid level cid active) (rows_from rss i j)) s res s'"
  using assms
proof (induction fuel arbitrary: i j r s rec)
  case 0
  then show ?case by (simp add: rows_from_step scan_at_def)
next
  case (Suc fuel)
  let ?sk = "skips xid level cid active"
  have "j < length (rss ! i)" using Suc.prems(1) by (simp add: scan_at_def)
  note step = rows_from_step [OF this]
  show ?case
  proof (cases "CanGet (rss ! i ! j) xid cid level active")
    case False
    then have "scan_loop xid level cid active (Suc fuel) r rec s = (Inr (Some (rec, r)), s)"
      using CanGet_reads [OF Suc.prems(2)] by simp
    moreover have "dropWhile ?sk (rows_from rss i j) = rows_from rss i j"
      using False by (simp add: step skips_def)
    moreover have "loop_result rss (rows_from rss i j) s (Some (rec, r)) s"
      unfolding loop_result_def using Suc.prems(1,2) by (subst (2) step) auto
    ultimately show ?thesis by auto
  next
    case True
    have can: "CanGet rec xid cid level active" using True CanGet_reads [OF Suc.prems(2)] by simp
    have dw: "dropWhile ?sk (rows_from rss i j) = dropWhile ?sk (tl (rows_from rss i j))"
      using True by (simp add: step skips_def)
    have len: "length (tl (rows_from rss i j)) \<le> fuel" using Suc.prems(3) by simp
    show ?thesis
    proof (cases rule: scan_loop_skip [OF Suc.prems(1) can])
      case (1 s')
      then show ?thesis unfolding dw by (auto simp only: dropWhile.simps)
    next
      case (2 i' j' r' rec' s')
      then show ?thesis
        unfolding dw using Suc.IH [OF 2(2,3)] len loop_result_trans [OF 2(5,6)] by (simp only:) blast
    qed
  qed
qed

section \<open>The whole scan\<close>

lemma rows_from_length:
  assumes "table_pages nx t rss s" "i < length rss"
  shows "length (rows_from rss i j) \<le> SCAN_FUEL"
proof -
  have l: "length (page_rids rss m k) \<le> 14" if "m < length rss" for m k
    using row_count [OF assms(1) that] by (simp add: page_rids_def)
  have "length (concat (map (\<lambda>m. page_rids rss m 0) ms)) \<le> 14 * length ms" if "set ms \<subseteq> {0..<length rss}" for ms
    using that by (induction ms) (auto dest!: l [where k = 0])
  from this [of "[Suc i..<length rss]"] have "length (rows_from rss i j) \<le> 14 * (1 + length rss)"
    using l [OF assms(2), of j] by (simp add: rows_from_def)
  moreover have "length rss < 2 ^ 32" using assms(1) by (simp add: table_pages_def table_owns_def)
  ultimately show ?thesis by (simp add: SCAN_FUEL_def)
qed

text \<open>Moving behind the row found.\<close>

lemma scan_rest_next:
  assumes at: "scan_at rss i j r s" and rest: "x # xs = rows_from rss i j"
  shows "scan_rest rss (s\<lparr>ts_rid := if more_slots (page_of r (ts_pool s)) (ts_rid s) then next_slot (ts_rid s)
     else page_start (next_page_id (page_of r (ts_pool s)))\<rparr>) xs"
proof -
  have j: "j < length (rss ! i)" and tp: "table_pages NULL_PAGE_ID (ts_table s) rss (ts_pool s)" "\<forall>rows \<in> set rss. rows \<noteq> []"
    using at by (auto simp: scan_at_def)
  obtain v where v: "next_page_id (page_of r (ts_pool s)) = (if Suc i < length rss then of_nat (Suc i) else NULL_PAGE_ID)"
    "more_slots (page_of r (ts_pool s)) (ts_rid s) \<longleftrightarrow> Suc j < length (rss ! i)"
    using scan_at_view [OF at] by metis
  have xs: "xs = (if Suc j < length (rss ! i) then rows_from rss i (Suc j) else if Suc i < length rss then rows_from rss (Suc i) 0 else [])"
    using rest unfolding rows_from_step [OF j] by simp
  show ?thesis
  proof (cases "Suc j < length (rss ! i)")
    case True
    then show ?thesis using scan_at_rest [OF scan_next_slot [OF at True]] v(2) xs by simp
  next
    case False
    show ?thesis
    proof (cases "Suc i < length rss")
      case True
      then have "0 < length (rss ! Suc i)" using tp(2) nth_mem by blast
      moreover have "next_page_id (page_of r (ts_pool s)) = of_nat (Suc i)" using v(1) True by simp
      moreover have "page_start (of_nat (Suc i)) = rid_at (Suc i) 0" by (simp add: page_start_def rid_at_def)
      ultimately have "scan_rest rss (s\<lparr>ts_rid := page_start (next_page_id (page_of r (ts_pool s)))\<rparr>) (rows_from rss (Suc i) 0)"
        unfolding scan_rest_def using tp True by (intro conjI disjI2 exI) simp_all
      then show ?thesis using False True v(2) xs by simp
    next
      case last: False
      then show ?thesis
        using False v tp xs by (simp add: scan_rest_def page_start_def)
    qed
  qed
qed

text \<open>One call returns the next visible row and moves behind it.\<close>

lemma GetNextRecord_ok:
  assumes "scan_rest rss s rest"
  obtains res s' where "GetNextRecord xid level cid active s = (Inr res, s')" "ts_table s' = ts_table s"
    "scan_kept (ts_table s) (ts_pool s) (ts_pool s')"
    "case dropWhile (skips xid level cid active) rest of
       [] \<Rightarrow> res = None \<and> scan_rest rss s' []
     | x # xs \<Rightarrow> (\<exists>rec. res = Some rec \<and> reads_as (snd x) (fst x) rec) \<and> scan_rest rss s' xs"
proof (cases "rid_page_id (ts_rid s) = NULL_PAGE_ID")
  case True
  have "\<not> Suc i < 2 ^ 32 \<or> rid_page_id (rid_at i j) \<noteq> NULL_PAGE_ID" for i j
    using page_id_not_null [of i] by (auto simp: rid_at_def)
  moreover have "length rss < 2 ^ 32" using assms by (simp add: scan_rest_def table_pages_def table_owns_def)
  ultimately have "rest = []"
    using assms True unfolding scan_rest_def by (metis Suc_lessI less_trans_Suc order.strict_trans)
  moreover have "GetNextRecord xid level cid active s = (Inr None, s)"
    using True by (simp add: GetNextRecord_def ebind_def)
  ultimately show thesis using that assms by simp
next
  case False
  obtain i j where ij: "table_pages NULL_PAGE_ID (ts_table s) rss (ts_pool s)" "\<forall>rows \<in> set rss. rows \<noteq> []"
    "i < length rss" "j < length (rss ! i)" "ts_rid s = rid_at i j" "rest = rows_from rss i j"
    using assms False unfolding scan_rest_def by blast
  obtain r p' where p': "scan_page (of_nat i) s = (Inr r, s\<lparr>ts_pool := p'\<rparr>)" "scan_at rss i j r (s\<lparr>ts_pool := p'\<rparr>)"
    "scan_kept (ts_table s) (ts_pool s) p'"
    by (rule scan_page_ok [OF ij(1-5)])
  let ?s = "s\<lparr>ts_pool := p'\<rparr>"
  obtain rec where rec: "scan_record r ?s = (Inr rec, ?s)" "reads_as (rss ! i ! j) (rid_at i j) rec"
    by (rule scan_record_ok [OF p'(2)])
  obtain res s1 where s1: "scan_loop xid level cid active SCAN_FUEL r rec ?s = (Inr res, s1)"
    "loop_result rss (dropWhile (skips xid level cid active) rest) ?s res s1"
    using scan_loop_ok [OF p'(2) rec(2) rows_from_length [OF ij(1,3)]] ij(6) by blast
  have rid: "rid_page_id (ts_rid s) = of_nat i" by (simp add: ij(5) rid_at_def)
  note run = GetNextRecord_def ebind_def False [unfolded rid] rid p'(1) rec(1) s1(1)
  have kept: "ts_table s1 = ts_table s" "scan_kept (ts_table s) (ts_pool s) (ts_pool s1)"
    using s1(2) scan_kept_trans [OF p'(3)] by (simp_all add: loop_result_def)
  show thesis
  proof (cases "dropWhile (skips xid level cid active) rest")
    case Nil
    have "res = None" "scan_rest rss s1 []" using s1(2) unfolding Nil by (simp_all add: loop_result_def)
    then show thesis using that [of None s1] kept Nil False rid by (simp add: run)
  next
    case (Cons x xs)
    obtain i' j' r' rec' where f: "res = Some (rec', r')" "scan_at rss i' j' r' s1" "x # xs = rows_from rss i' j'"
      "reads_as (snd x) (fst x) rec'"
      using s1(2) unfolding Cons by (auto simp: loop_result_def)
    let ?p = "page_of r' (ts_pool s1)"
    let ?s2 = "s1\<lparr>ts_rid := if more_slots ?p (ts_rid s1) then next_slot (ts_rid s1) else page_start (next_page_id ?p)\<rparr>"
    have "GetNextRecord xid level cid active s = (Inr (Some rec'), ?s2)"
      using False rid f(1) by (simp add: run set_rid_def)
    moreover have "scan_rest rss ?s2 xs" by (rule scan_rest_next [OF f(2,3)])
    ultimately show thesis using that [of "Some rec'" ?s2] kept f(4) Cons by auto
  qed
qed

text \<open>Successive calls, as the executors make them.\<close>

fun scan_calls :: "xid_t \<Rightarrow> IsolationLevel \<Rightarrow> cid_t \<Rightarrow> xid_t set \<Rightarrow> nat \<Rightarrow> (TableScan, Record option list) em" where
  "scan_calls xid level cid active 0 = eret []"
| "scan_calls xid level cid active (Suc n) =
     ebind (GetNextRecord xid level cid active) (\<lambda>res.
     ebind (scan_calls xid level cid active n) (\<lambda>rs. eret (res # rs)))"

text \<open>The results of the calls: the rows in order, then nothing.\<close>

fun returns_rows :: "(Rid \<times> Record) list \<Rightarrow> Record option list \<Rightarrow> bool" where
  "returns_rows xs [] \<longleftrightarrow> True"
| "returns_rows [] (res # rs) \<longleftrightarrow> res = None \<and> returns_rows [] rs"
| "returns_rows (x # xs) (res # rs) \<longleftrightarrow> (\<exists>rec. res = Some rec \<and> reads_as (snd x) (fst x) rec) \<and> returns_rows xs rs"

lemma filter_dropWhile: "filter (\<lambda>x. \<not> p x) (dropWhile p xs) = filter (\<lambda>x. \<not> p x) xs"
  by (induction xs) auto

lemma scan_calls_ok:
  assumes "scan_rest rss s rest"
  shows "\<exists>rs s'. scan_calls xid level cid active n s = (Inr rs, s') \<and> length rs = n
     \<and> returns_rows (filter (\<lambda>x. \<not> skips xid level cid active x) rest) rs
     \<and> table_pages NULL_PAGE_ID (ts_table s) rss (ts_pool s') \<and> scan_kept (ts_table s) (ts_pool s) (ts_pool s')"
  using assms
proof (induction n arbitrary: s rest)
  case 0
  then show ?case by (simp add: scan_rest_def)
next
  case (Suc n)
  let ?sk = "skips xid level cid active"
  obtain res s1 where s1: "GetNextRecord xid level cid active s = (Inr res, s1)" "ts_table s1 = ts_table s"
    "scan_kept (ts_table s) (ts_pool s) (ts_pool s1)"
    "case dropWhile ?sk rest of [] \<Rightarrow> res = None \<and> scan_rest rss s1 []
     | x # xs \<Rightarrow> (\<exists>rec. res = Some rec \<and> reads_as (snd x) (fst x) rec) \<and> scan_rest rss s1 xs"
    by (rule GetNextRecord_ok [OF Suc.prems])
  define rest1 where "rest1 = (case dropWhile ?sk rest of [] \<Rightarrow> [] | x # xs \<Rightarrow> xs)"
  have r1: "scan_rest rss s1 rest1" using s1(4) unfolding rest1_def by (cases "dropWhile ?sk rest") (simp_all only: list.case)
  obtain rs s' where s': "scan_calls xid level cid active n s1 = (Inr rs, s')" "length rs = n"
    "returns_rows (filter (\<lambda>x. \<not> ?sk x) rest1) rs" "table_pages NULL_PAGE_ID (ts_table s1) rss (ts_pool s')"
    "scan_kept (ts_table s1) (ts_pool s1) (ts_pool s')"
    using Suc.IH [OF r1] by blast
  have "scan_calls xid level cid active (Suc n) s = (Inr (res # rs), s')"
    using s1(1) s'(1) by (simp add: ebind_def)
  moreover have "returns_rows (filter (\<lambda>x. \<not> ?sk x) rest) (res # rs)"
  proof (cases "dropWhile ?sk rest")
    case Nil
    then have "filter (\<lambda>x. \<not> ?sk x) rest = []" using filter_dropWhile [of ?sk rest] by simp
    then show ?thesis using s1(4) s'(3) Nil unfolding rest1_def Nil by simp
  next
    case (Cons x xs)
    then have "\<not> ?sk x" using hd_dropWhile [of ?sk rest] by auto
    then have "filter (\<lambda>x. \<not> ?sk x) rest = x # filter (\<lambda>x. \<not> ?sk x) xs"
      using filter_dropWhile [of ?sk rest] Cons by simp
    then show ?thesis using s1(4) s'(3) unfolding rest1_def Cons by simp
  qed
  moreover have "scan_kept (ts_table s) (ts_pool s) (ts_pool s')" "table_pages NULL_PAGE_ID (ts_table s) rss (ts_pool s')"
    using s'(4,5) scan_kept_trans [OF s1(3)] s1(2) by simp_all
  moreover have "length (res # rs) = Suc n" using s'(2) by simp
  ultimately show ?case by blast
qed

text \<open>A scan as \<^verbatim>\<open>SeqScanExecutor::Init\<close> starts it.\<close>

definition scan_start :: "TableEnv \<Rightarrow> TableScan" where
  "scan_start s = TableScan_new (te_pool s) (te_table s) (page_start (tb_first_page_id (te_table s)))"

lemma scan_start_rest:
  assumes "table_rep rss s"
  shows "scan_rest rss (scan_start s) (table_rows rss)"
proof (cases "rss = []")
  case True
  then show ?thesis
    using assms by (simp add: scan_rest_def table_rep_def scan_start_def TableScan_new_def page_start_def table_rows_def)
next
  case False
  have "0 < length (rss ! 0)" using assms False nth_mem [of 0 rss] by (auto simp: table_rep_def)
  moreover have "page_start 0 = rid_at 0 0" by (simp add: page_start_def rid_at_def)
  ultimately have "ts_rid (scan_start s) = rid_at 0 0" "0 < length rss" "0 < length (rss ! 0)"
    using assms False by (simp_all add: table_rep_def scan_start_def TableScan_new_def)
  moreover have "table_pages NULL_PAGE_ID (ts_table (scan_start s)) rss (ts_pool (scan_start s))" "\<forall>rows \<in> set rss. rows \<noteq> []"
    using assms by (simp_all add: table_rep_def scan_start_def TableScan_new_def)
  ultimately show ?thesis
    using False unfolding table_rows_from scan_rest_def by metis
qed

section \<open>Properties\<close>

text \<open>
  C7. A scan of a table from its first page returns, call by call, exactly the rows that the
  visibility test does not reject, in the order of pages and slots, each with its rid, and then
  nothing; every call returns, and the scan changes no page.
\<close>

theorem scan_returns_visible:
  assumes "table_rep rss s"
  shows "\<exists>rs s'. scan_calls xid level cid active n (scan_start s) = (Inr rs, s') \<and> length rs = n
     \<and> returns_rows (filter (\<lambda>(rid, row). \<not> CanGet row xid cid level active) (table_rows rss)) rs
     \<and> table_pages NULL_PAGE_ID (te_table s) rss (ts_pool s') \<and> outside_kept (te_table s) (te_pool s) (ts_pool s')"
proof -
  have "(\<lambda>x. \<not> skips xid level cid active x) = (\<lambda>(rid, row). \<not> CanGet row xid cid level active)"
    by (auto simp: skips_def)
  then show ?thesis
    using scan_calls_ok [OF scan_start_rest [OF assms], of xid level cid active n]
    by (auto simp: scan_start_def TableScan_new_def scan_kept_def)
qed

theorem scan_returns_visible_witness:
  "\<exists>rec s'. scan_calls 8 READ_COMMITTED 1 {8} 2 (scan_start sample_table1) = (Inr [Some rec, None], s')
     \<and> r_values rec = r_values sample_row"
proof -
  let ?row = "stamped 7 1 sample_row"
  have rows: "table_rows [[?row]] = [(rid_at 0 0, ?row)]"
    by (simp add: table_rows_def page_rids_def)
  have h: "rh_xmin (r_header ?row) = 7" "rh_cid (r_header ?row) = 1" "rh_xmax (r_header ?row) = NULL_XID"
    by (simp_all add: stamped_def SetXmin_def SetCid_def sample_row_def RecordHeader_default_def)
  then have v: "\<not> CanGet ?row 8 1 READ_COMMITTED {8}" by (simp add: CanGet_def)
  obtain rs s' where s': "scan_calls 8 READ_COMMITTED 1 {8} 2 (scan_start sample_table1) = (Inr rs, s')" "length rs = 2"
    "returns_rows [(rid_at 0 0, ?row)] rs"
    using scan_returns_visible [OF sample_table1_ok(1), of 8 READ_COMMITTED 1 "{8}" 2] v
    unfolding rows filter.simps prod.case by (simp only: if_True not_True_eq_False not_False_eq_True) blast
  then obtain rec where rec: "rs = [Some rec, None]" "reads_as ?row (rid_at 0 0) rec"
    by (auto simp: length_Suc_conv numeral_2_eq_2)
  have "r_values ?row = r_values sample_row" "\<forall>v \<in> set (r_values sample_row). nullify v = v"
    by (auto simp: stamped_def SetXmin_def SetCid_def sample_row_def nullify_def IsNull_def Value_int_def Value_string_def)
  then have "r_values rec = r_values sample_row" using rec(2) by (simp add: reads_as_def map_idI)
  then show ?thesis using s'(1) rec(1) by blast
qed

end
