(* ===== verification/Recovery.thy ===== *)
theory Recovery
  imports Table_Scan
begin

text \<open>
  Rollback and recovery: \<^verbatim>\<open>Undo\<close> and \<^verbatim>\<open>Redo\<close> of the log records (\<^verbatim>\<open>src/src/log/log_records/\<close>) and
  \<^verbatim>\<open>Rollback\<close>, \<^verbatim>\<open>Analyze\<close>, \<^verbatim>\<open>Redo\<close>, \<^verbatim>\<open>Undo\<close> and \<^verbatim>\<open>Recover\<close> of \<^verbatim>\<open>src/src/log/log_manager.cpp\<close>. The catalog is
  reached through its interface only: whether a table exists, and which database it is in, which may need pages of the
  pool. The
  iteration over the hash map of active transactions follows the order of the association list.
\<close>

section \<open>Undo and redo of one record\<close>

record CatalogView =
  cat_table_exists :: "oid_t \<Rightarrow> bool"
  cat_database_oid :: "oid_t \<Rightarrow> (PoolEnv, oid_t) em"

definition table_page :: "CatalogView \<Rightarrow> oid_t \<Rightarrow> pageid_t \<Rightarrow> (PoolEnv, nat) em" where
  "table_page cat oid page_id = ebind (cat_database_oid cat oid) (\<lambda>db_oid. GetPage db_oid oid page_id)"

definition InsertLog_Undo :: "CatalogView \<Rightarrow> xid_t \<Rightarrow> oid_t \<Rightarrow> pageid_t \<Rightarrow> slotid_t \<Rightarrow> (PoolEnv, unit) em" where
  "InsertLog_Undo cat xid oid page_id slot_id =
     ebind (table_page cat oid page_id) (\<lambda>r. page_run r (unit_run (TablePage_DeleteRecord slot_id xid)))"

definition InsertLog_Redo ::
    "CatalogView \<Rightarrow> oid_t \<Rightarrow> pageid_t \<Rightarrow> slotid_t \<Rightarrow> db_size_t \<Rightarrow> db_size_t \<Rightarrow> byte list \<Rightarrow> (PoolEnv, unit) em" where
  "InsertLog_Redo cat oid page_id slot_id page_offset record_size rec =
     (if \<not> cat_table_exists cat oid then eret ()
      else ebind (table_page cat oid page_id) (\<lambda>r.
             page_run r (unit_run (RedoInsertRecord slot_id rec page_offset record_size))))"

definition DeleteLog_Undo :: "CatalogView \<Rightarrow> oid_t \<Rightarrow> pageid_t \<Rightarrow> slotid_t \<Rightarrow> (PoolEnv, unit) em" where
  "DeleteLog_Undo cat oid page_id slot_id =
     ebind (table_page cat oid page_id) (\<lambda>r. page_run r (unit_run (UndoDeleteRecord slot_id)))"

definition DeleteLog_Redo :: "CatalogView \<Rightarrow> xid_t \<Rightarrow> oid_t \<Rightarrow> pageid_t \<Rightarrow> slotid_t \<Rightarrow> (PoolEnv, unit) em" where
  "DeleteLog_Redo cat xid oid page_id slot_id =
     (if \<not> cat_table_exists cat oid then eret ()
      else ebind (table_page cat oid page_id) (\<lambda>r. page_run r (unit_run (TablePage_DeleteRecord slot_id xid))))"

definition NewPageLog_Undo :: "CatalogView \<Rightarrow> oid_t \<Rightarrow> pageid_t \<Rightarrow> pageid_t \<Rightarrow> (PoolEnv, unit) em" where
  "NewPageLog_Undo cat oid prev_page_id page_id =
     ebind (cat_database_oid cat oid) (\<lambda>db_oid.
     ebind (GetPage db_oid oid prev_page_id) (\<lambda>prev.
     ebind (GetPage db_oid oid page_id) (\<lambda>r.
     ebind (eget (\<lambda>s. next_page_id (page_of r s))) (\<lambda>nx.
       page_upd prev (SetNextPageId nx)))))"

definition NewPageLog_Redo :: "CatalogView \<Rightarrow> oid_t \<Rightarrow> pageid_t \<Rightarrow> pageid_t \<Rightarrow> (PoolEnv, unit) em" where
  "NewPageLog_Redo cat oid prev_page_id page_id =
     (if \<not> cat_table_exists cat oid then eret ()
      else ebind (cat_database_oid cat oid) (\<lambda>db_oid.
             if prev_page_id \<noteq> NULL_PAGE_ID
             then ebind (GetPage db_oid oid prev_page_id) (\<lambda>prev.
                  ebind (NewPage db_oid oid page_id) (\<lambda>r.
                  ebind (page_upd r TablePage_Init) (\<lambda>_.
                  ebind (eget (\<lambda>s. next_page_id (page_of prev s))) (\<lambda>nx.
                  ebind (page_upd r (SetNextPageId nx)) (\<lambda>_.
                    page_upd prev (SetNextPageId page_id))))))
             else ebind (GetPage db_oid oid page_id) (\<lambda>r.
                  ebind (page_upd r TablePage_Init) (\<lambda>_.
                    page_upd r (SetNextPageId NULL_PAGE_ID)))))"

text \<open>The virtual calls; the base class does nothing.\<close>

definition LogRecord_Undo :: "CatalogView \<Rightarrow> LogRecord \<Rightarrow> (PoolEnv, unit) em" where
  "LogRecord_Undo cat r =
     (case lr_body r of
        InsertLog oid page_id slot_id page_offset record_size rec \<Rightarrow> InsertLog_Undo cat (lr_xid r) oid page_id slot_id
      | DeleteLog oid page_id slot_id \<Rightarrow> DeleteLog_Undo cat oid page_id slot_id
      | NewPageLog oid prev_page_id page_id \<Rightarrow> NewPageLog_Undo cat oid prev_page_id page_id
      | _ \<Rightarrow> eret ())"

definition LogRecord_Redo :: "CatalogView \<Rightarrow> LogRecord \<Rightarrow> (PoolEnv, unit) em" where
  "LogRecord_Redo cat r =
     (case lr_body r of
        InsertLog oid page_id slot_id page_offset record_size rec \<Rightarrow>
          InsertLog_Redo cat oid page_id slot_id page_offset record_size rec
      | DeleteLog oid page_id slot_id \<Rightarrow> DeleteLog_Redo cat (lr_xid r) oid page_id slot_id
      | NewPageLog oid prev_page_id page_id \<Rightarrow> NewPageLog_Redo cat oid prev_page_id page_id
      | _ \<Rightarrow> eret ())"

section \<open>Rollback\<close>

text \<open>Reading the record at an LSN from the log file, with as many bytes as the longest record has.\<close>

definition read_log :: "lsn_t \<Rightarrow> (PoolEnv, LogRecord) em" where
  "read_log lsn =
     ebind (in_disk (ReadLog (ucast lsn) (of_nat MAX_LOG_SIZE))) (\<lambda>bs. elift (LogRecord_DeserializeFrom lsn bs))"

text \<open>A record that is neither flushed nor in the buffer is looked for over and over.\<close>

fun rollback_loop :: "CatalogView \<Rightarrow> nat \<Rightarrow> lsn_t \<Rightarrow> (PoolEnv, unit) em" where
  "rollback_loop cat 0 lsn_now = ethrow Diverges"
| "rollback_loop cat (Suc fuel) lsn_now =
     (if lsn_now = NULL_LSN then eret ()
      else ebind (eget (\<lambda>s. le_log (pe_log s))) (\<lambda>l.
             if lsn_now > lm_flushed_lsn l
             then case find (\<lambda>r. lr_lsn r = lsn_now) (lm_buffer l) of
                    None \<Rightarrow> rollback_loop cat fuel lsn_now
                  | Some r \<Rightarrow> ebind (LogRecord_Undo cat r) (\<lambda>_. rollback_loop cat fuel (lr_prev_lsn r))
             else ebind (read_log lsn_now) (\<lambda>r.
                  ebind (LogRecord_Undo cat r) (\<lambda>_. rollback_loop cat fuel (lr_prev_lsn r)))))"

text \<open>Every step of a rollback that ends visits another LSN.\<close>

definition LOG_FUEL :: nat where "LOG_FUEL = 2 ^ 64"

text \<open>\<^verbatim>\<open>att_[xid]\<close> of the hash map enters 0 for a transaction that is not there.\<close>

definition LogManager_Rollback :: "CatalogView \<Rightarrow> xid_t \<Rightarrow> (PoolEnv, unit) em" where
  "LogManager_Rollback cat xid =
     ebind (on_lm (\<lambda>l. case map_of (lm_att l) xid of
                          Some lsn \<Rightarrow> (Inr lsn, l)
                        | None \<Rightarrow> (Inr 0, l\<lparr>lm_att := AList.update xid 0 (lm_att l)\<rparr>))) (\<lambda>last_lsn.
       rollback_loop cat LOG_FUEL last_lsn)"

definition LogManager_Undo :: "CatalogView \<Rightarrow> (PoolEnv, unit) em" where
  "LogManager_Undo cat s = efor (LogManager_Rollback cat) (map fst (lm_att (le_log (pe_log s)))) s"

section \<open>Analysis\<close>

record RecoveryEnv =
  re_pool :: PoolEnv
  re_tx :: TxEnv

definition on_re_pool :: "(PoolEnv, 'a) em \<Rightarrow> (RecoveryEnv, 'a) em" where
  "on_re_pool = ezoom re_pool (\<lambda>p s. s\<lparr>re_pool := p\<rparr>)"

definition on_re_tx :: "(TxEnv, 'a) em \<Rightarrow> (RecoveryEnv, 'a) em" where
  "on_re_tx = ezoom re_tx (\<lambda>t s. s\<lparr>re_tx := t\<rparr>)"

text \<open>A number from a file, if there is one.\<close>

definition file_number :: "string \<Rightarrow> 64 word \<Rightarrow> Disk \<Rightarrow> 64 word" where
  "file_number name other d = (if FileExists name d then read_number name other d else other)"

text \<open>The page a record is about: insertions and deletions, and for a new page that page.\<close>

definition log_target :: "LogRecord \<Rightarrow> TablePageid option" where
  "log_target r =
     (case lr_body r of
        InsertLog oid page_id _ _ _ _ \<Rightarrow> Some \<lparr>tp_table_oid = oid, tp_page_id = page_id\<rparr>
      | DeleteLog oid page_id _ \<Rightarrow> Some \<lparr>tp_table_oid = oid, tp_page_id = page_id\<rparr>
      | NewPageLog oid _ page_id \<Rightarrow> Some \<lparr>tp_table_oid = oid, tp_page_id = page_id\<rparr>
      | _ \<Rightarrow> None)"

definition ends_transaction :: "LogRecord \<Rightarrow> bool" where
  "ends_transaction r \<longleftrightarrow> lr_body r = CommitLog \<or> lr_body r = RollbackLog"

definition analyze_att :: "LogRecord \<Rightarrow> att_t \<Rightarrow> att_t" where
  "analyze_att r att = (if ends_transaction r then AList.delete (lr_xid r) att else AList.update (lr_xid r) (lr_lsn r) att)"

definition analyze_dpt :: "LogRecord \<Rightarrow> dpt_t \<Rightarrow> dpt_t" where
  "analyze_dpt r dpt =
     (case log_target r of
        None \<Rightarrow> dpt
      | Some k \<Rightarrow> if map_of dpt k = None then AList.update k (lr_lsn r) dpt else dpt)"

text \<open>
  The loop over the log after the checkpoint. A record about a page is read a second time to get at
  its page.
\<close>

fun analyze_loop :: "nat \<Rightarrow> lsn_t \<Rightarrow> att_t \<Rightarrow> dpt_t \<Rightarrow> xid_t \<Rightarrow> (PoolEnv, att_t \<times> dpt_t \<times> xid_t) em" where
  "analyze_loop 0 lsn_now att dpt xid_max = ethrow Diverges"
| "analyze_loop (Suc fuel) lsn_now att dpt xid_max =
     ebind (eget (\<lambda>s. lm_next_lsn (le_log (pe_log s)))) (\<lambda>next_lsn.
       if \<not> lsn_now < next_lsn then eret (att, dpt, xid_max)
       else ebind (read_log lsn_now) (\<lambda>r.
            ebind (if log_target r = None then eret r else read_log lsn_now) (\<lambda>r2.
              analyze_loop fuel (lsn_now + LogRecord_GetSize r) (analyze_att r att) (analyze_dpt r2 dpt)
                (if lr_xid r > xid_max then lr_xid r else xid_max))))"

definition LogManager_Analyze :: "(RecoveryEnv, unit) em" where
  "LogManager_Analyze =
     ebind (on_re_pool (eget pe_disk)) (\<lambda>d.
     ebind (on_re_pool (on_lm (emodify (\<lambda>l. let n = file_number NEXT_LSN_NAME FIRST_LSN d
                                             in l\<lparr>lm_next_lsn := n, lm_flushed_lsn := n - 1\<rparr>)))) (\<lambda>_.
     ebind (on_re_pool (eget (\<lambda>s. lm_next_lsn (le_log (pe_log s))))) (\<lambda>next_lsn.
     let checkpoint_lsn = file_number MASTER_RECORD_NAME 0 d in
     ebind (on_re_pool (in_disk (ReadLog (ucast checkpoint_lsn) (ucast (next_lsn - checkpoint_lsn))))) (\<lambda>begin_log.
     ebind (elift (BeginLog_DeserializeFrom checkpoint_lsn begin_log)) (\<lambda>begin_rec.
     let end_lsn = checkpoint_lsn + LogRecord_GetSize begin_rec in
     ebind (on_re_pool (in_disk (ReadLog (ucast end_lsn) (ucast (next_lsn - end_lsn))))) (\<lambda>get_log.
     ebind (elift (EndCheckpointLog_DeserializeFrom end_lsn (drop 1 get_log))) (\<lambda>end_rec.
     case lr_body end_rec of
       EndCheckpointLog att dpt \<Rightarrow>
         ebind (on_re_pool (analyze_loop LOG_FUEL (end_lsn + LogRecord_GetSize end_rec) att dpt 0)) (\<lambda>(att', dpt', xid_max).
         ebind (on_re_tx (SetNextXid (xid_max + 1))) (\<lambda>_.
           on_re_pool (on_lm (emodify (\<lambda>l. l\<lparr>lm_att := att', lm_dpt := dpt'\<rparr>)))))
     | _ \<Rightarrow> ethrow (Undefined ''not an end of checkpoint''))))))))"

section \<open>Redo\<close>

text \<open>
  One record of the log file: it is redone when its page is in the dirty page table since before the
  record and the page does not carry the record's LSN yet; a new page is redone without that test.
\<close>

definition redo_disk :: "CatalogView \<Rightarrow> lsn_t \<Rightarrow> LogRecord \<Rightarrow> (PoolEnv, unit) em" where
  "redo_disk cat lsn_now r =
     (case log_target r of
        None \<Rightarrow> eret ()
      | Some k \<Rightarrow>
          ebind (eget (\<lambda>s. map_of (lm_dpt (le_log (pe_log s))) k)) (\<lambda>found.
            case found of
              None \<Rightarrow> eret ()
            | Some rec_lsn \<Rightarrow>
                if lr_lsn r < rec_lsn then eret ()
                else if LogRecord_GetType r = NEW_PAGE then LogRecord_Redo cat r
                else ebind (table_page cat (tp_table_oid k) (tp_page_id k)) (\<lambda>ref.
                     ebind (eget (\<lambda>s. page_lsn (page_of ref s))) (\<lambda>plsn.
                       if lsn_now \<le> plsn then eret () else LogRecord_Redo cat r))))"

text \<open>
  One record of the log buffer. A new-page record is cast to \<^verbatim>\<open>DeleteLog\<close>, which gives a null pointer,
  and that is dereferenced.
\<close>

definition redo_buffer :: "CatalogView \<Rightarrow> lsn_t \<Rightarrow> LogRecord \<Rightarrow> (PoolEnv, unit) em" where
  "redo_buffer cat lsn_now r =
     (case log_target r of
        None \<Rightarrow> eret ()
      | Some k \<Rightarrow>
          if LogRecord_GetType r = NEW_PAGE then ethrow (Undefined ''null pointer'')
          else ebind (eget (\<lambda>s. map_of (lm_dpt (le_log (pe_log s))) k)) (\<lambda>found.
            case found of
              None \<Rightarrow> eret ()
            | Some rec_lsn \<Rightarrow>
                if lr_lsn r \<le> rec_lsn then eret ()
                else ebind (table_page cat (tp_table_oid k) (tp_page_id k)) (\<lambda>ref.
                     ebind (eget (\<lambda>s. page_lsn (page_of ref s))) (\<lambda>plsn.
                       if lsn_now < plsn then eret () else LogRecord_Redo cat r))))"

fun redo_loop :: "CatalogView \<Rightarrow> nat \<Rightarrow> lsn_t \<Rightarrow> (PoolEnv, unit) em" where
  "redo_loop cat 0 lsn_now = ethrow Diverges"
| "redo_loop cat (Suc fuel) lsn_now =
     ebind (eget (\<lambda>s. le_log (pe_log s))) (\<lambda>l.
       if \<not> lsn_now < lm_next_lsn l then eret ()
       else if lsn_now > lm_flushed_lsn l
       then case find (\<lambda>r. lr_lsn r = lsn_now) (lm_buffer l) of
              None \<Rightarrow> redo_loop cat fuel lsn_now
            | Some r \<Rightarrow> ebind (redo_buffer cat lsn_now r) (\<lambda>_. redo_loop cat fuel (lsn_now + LogRecord_GetSize r))
       else ebind (read_log lsn_now) (\<lambda>r.
            ebind (redo_disk cat lsn_now r) (\<lambda>_. redo_loop cat fuel (lsn_now + LogRecord_GetSize r))))"

definition LogManager_Redo :: "CatalogView \<Rightarrow> (PoolEnv, unit) em" where
  "LogManager_Redo cat s =
     (let l = le_log (pe_log s);
          min_lsn = foldl (\<lambda>m x. if snd x < m then snd x else m) (lm_next_lsn l) (lm_dpt l);
          start = (if min_lsn = lm_next_lsn l then file_number MASTER_RECORD_NAME 0 (pe_disk s) else min_lsn)
      in redo_loop cat LOG_FUEL start s)"

definition Recover :: "CatalogView \<Rightarrow> (RecoveryEnv, unit) em" where
  "Recover cat =
     ebind LogManager_Analyze (\<lambda>_.
     ebind (on_re_pool (LogManager_Redo cat)) (\<lambda>_.
       on_re_pool (LogManager_Undo cat)))"

section \<open>Undoing on the rows of a table\<close>

definition cat_knows :: "CatalogView \<Rightarrow> Table \<Rightarrow> bool" where
  "cat_knows cat t \<longleftrightarrow> cat_table_exists cat (tb_oid t) \<and> cat_database_oid cat (tb_oid t) = eret (tb_db_oid t)"

definition row_exists :: "Record list list \<Rightarrow> pageid_t \<Rightarrow> slotid_t \<Rightarrow> bool" where
  "row_exists rss page_id slot_id \<longleftrightarrow> unat page_id < length rss \<and> unat slot_id < length (rss ! unat page_id)"

text \<open>A record whose undo touches an existing row of the table only.\<close>

fun undo_valid :: "Table \<Rightarrow> Record list list \<Rightarrow> LogBody \<Rightarrow> bool" where
  "undo_valid t rss (InsertLog oid page_id slot_id _ _ _) \<longleftrightarrow> oid = tb_oid t \<and> row_exists rss page_id slot_id"
| "undo_valid t rss (DeleteLog oid page_id slot_id) \<longleftrightarrow> oid = tb_oid t \<and> row_exists rss page_id slot_id"
| "undo_valid t rss (NewPageLog _ _ _) \<longleftrightarrow> False"
| "undo_valid t rss _ \<longleftrightarrow> True"

fun undo_rows :: "xid_t \<Rightarrow> LogBody \<Rightarrow> Record list list \<Rightarrow> Record list list" where
  "undo_rows xid (InsertLog oid page_id slot_id _ _ _) rss =
     edit_row (unat page_id) (unat slot_id) (\<lambda>h. h\<lparr>rh_deleted := True, rh_xmax := xid\<rparr>) rss"
| "undo_rows xid (DeleteLog oid page_id slot_id) rss =
     edit_row (unat page_id) (unat slot_id) (\<lambda>h. h\<lparr>rh_deleted := False, rh_xmax := NULL_XID\<rparr>) rss"
| "undo_rows xid _ rss = rss"

lemma row_exists_edit [simp]: "row_exists (edit_row i j f rss) p sl = row_exists rss p sl"
  by (cases "unat p = i") (auto simp: row_exists_def edit_row_def nth_list_update)

lemma undo_valid_edit [simp]: "undo_valid t (edit_row i j f rss) b = undo_valid t rss b"
  by (cases b) simp_all

lemma undo_valid_rows: "undo_valid t (undo_rows xid b rss) b' = undo_valid t rss b'"
  by (cases b) simp_all

lemma length_undo_rows [simp]: "length (undo_rows xid b rss) = length rss"
  by (cases b) (simp_all add: edit_row_def)

text \<open>An operation that fetches a page of the table and rewrites the header of one of its rows.\<close>

lemma edit_via_catalog:
  assumes tp: "table_pages nx t rss s" and cat: "cat_knows cat t" and ex: "row_exists rss pid slot"
  obtains s' where "ebind (table_page cat (tb_oid t) pid) (\<lambda>r. page_run r (unit_run (edit_header f slot))) s = (Inr (), s')"
    "table_pages nx t (edit_row (unat pid) (unat slot) f rss) s'" "outside_kept t s s'" "log_kept (pe_log s) (pe_log s')"
proof -
  have i: "unat pid < length rss" and j: "unat slot < length (rss ! unat pid)" using ex by (simp_all add: row_exists_def)
  obtain r s1 where g: "GetPage (tb_db_oid t) (tb_oid t) (of_nat (unat pid)) s = (Inr r, s1)"
    "table_pages nx t rss s1" "holds s1 (tkey t (unat pid)) r" "log_kept (pe_log s) (pe_log s1)" "outside_kept t s s1"
    using GetPage_table [OF tp i] by metis
  obtain s' where s': "page_run r (unit_run (edit_header f slot)) s1 = (Inr (), s')"
    "table_pages nx t (edit_row (unat pid) (unat slot) f rss) s'" "outside_kept t s1 s'" "pe_log s' = pe_log s1"
    using edit_row_ok [OF g(2) i g(3) j, of f] by metis
  have "ebind (table_page cat (tb_oid t) pid) (\<lambda>r. page_run r (unit_run (edit_header f slot))) s = (Inr (), s')"
    using g(1) s'(1) cat by (simp add: table_page_def ebind_def cat_knows_def)
  then show thesis
    using that s'(2,4) outside_kept_trans [OF g(5) s'(3)] g(4) by simp
qed

lemma Undo_ok:
  assumes tp: "table_pages nx t rss s" and cat: "cat_knows cat t" and v: "undo_valid t rss (lr_body r)"
  obtains s' where "LogRecord_Undo cat r s = (Inr (), s')" "table_pages nx t (undo_rows (lr_xid r) (lr_body r) rss) s'"
    "outside_kept t s s'" "log_kept (pe_log s) (pe_log s')"
proof (cases "lr_body r")
  case (InsertLog oid pid slot off sz raw)
  then have "oid = tb_oid t" "row_exists rss pid slot" using v by simp_all
  then show thesis
    using edit_via_catalog [OF tp cat, of pid slot "\<lambda>h. h\<lparr>rh_deleted := True, rh_xmax := lr_xid r\<rparr>"] that InsertLog
    by (auto simp: LogRecord_Undo_def InsertLog_Undo_def TablePage_DeleteRecord_def)
next
  case (DeleteLog oid pid slot)
  then have "oid = tb_oid t" "row_exists rss pid slot" using v by simp_all
  then show thesis
    using edit_via_catalog [OF tp cat, of pid slot "\<lambda>h. h\<lparr>rh_deleted := False, rh_xmax := NULL_XID\<rparr>"] that DeleteLog
    by (auto simp: LogRecord_Undo_def DeleteLog_Undo_def UndoDeleteRecord_def)
qed (use that [of s] tp v in \<open>simp_all add: LogRecord_Undo_def outside_kept_def\<close>)

section \<open>Fetching the records of the history\<close>

text \<open>
  The log file has room behind the last record for a read of the longest record, no record of the
  history is longer, and something has been flushed before.
\<close>

definition log_readable :: "nat \<Rightarrow> LogRecord list \<Rightarrow> LogEnv \<Rightarrow> bool" where
  "log_readable base H e \<longleftrightarrow> log_hist base H e \<and> log_end base H + MAX_LOG_SIZE \<le> length (dk_log (le_disk e)) \<and>
     lm_flushed_lsn (le_log e) \<noteq> NULL_LSN"

lemma log_readable_kept: "log_kept e e' \<Longrightarrow> log_readable base H e \<Longrightarrow> log_readable base H e'"
  by (auto simp: log_readable_def log_kept_def)

lemma slice_prefix: "n \<le> m \<Longrightarrow> off + m \<le> length bs \<Longrightarrow> slice off m bs = slice off n bs @ slice (off + n) (m - n) bs"
  using slice_Suc_split [of off n "m - n" bs] by simp

lemma hist_lsn:
  assumes "log_hist base H e" "r \<in> set H"
  shows "unat (lr_lsn r) + length (log_bytes r) \<le> log_end base H" "log_end base H \<le> MAX_LOG_END" "rec_wf r"
    "contiguous base H"
proof -
  show c: "contiguous base H" "log_end base H \<le> MAX_LOG_END" "rec_wf r"
    using assms by (auto simp: log_hist_def log_rep_def log_core_def)
  show "unat (lr_lsn r) + length (log_bytes r) \<le> log_end base H"
    using contiguous_lsn [OF c(1) assms(2)] by simp
qed

lemma contiguous_distinct:
  "contiguous b H \<Longrightarrow> r \<in> set H \<Longrightarrow> r' \<in> set H \<Longrightarrow> lr_lsn r = lr_lsn r' \<Longrightarrow> r = r'"
proof (induction H arbitrary: b)
  case (Cons x H)
  have "lr_lsn x < lr_lsn y" if "y \<in> set H" for y
    using contiguous_lsn [of "b + length (log_bytes x)" H y] Cons.prems(1) that log_bytes_nonempty [of x]
    by (auto simp: word_less_nat_alt)
  then show ?case using Cons by (metis contiguous.simps(2) less_irrefl set_ConsD)
qed simp

text \<open>The comparison with the flushed LSN tells where a record is.\<close>

lemma flushed_split:
  assumes rd: "log_readable base H e" and r: "r \<in> set H"
  shows "lr_lsn r > lm_flushed_lsn (le_log e) \<Longrightarrow> find (\<lambda>x. lr_lsn x = lr_lsn r) (lm_buffer (le_log e)) = Some r"
    and "\<not> lr_lsn r > lm_flushed_lsn (le_log e) \<Longrightarrow>
      slice (unat (lr_lsn r)) (length (log_bytes r)) (dk_log (le_disk e)) = log_bytes r"
proof -
  obtain fl where fl: "H = fl @ lm_buffer (le_log e)" "log_rep base fl e"
    using rd by (auto simp: log_readable_def log_hist_def)
  have c: "contiguous base fl" "contiguous (log_end base fl) (lm_buffer (le_log e))"
    "\<forall>x \<in> set fl. slice (unat (lr_lsn x)) (length (log_bytes x)) (dk_log (le_disk e)) = log_bytes x"
    "lm_flushed_lsn (le_log e) = (if fl = [] then of_nat base - 1 else lr_lsn (last fl))" "contiguous base H"
    using fl by (auto simp: log_rep_def log_core_def)
  have end_small: "log_end base fl \<le> MAX_LOG_END"
    using fl(2) log_end_ge [of "log_end base fl" "lm_buffer (le_log e)"] by (auto simp: log_rep_def log_core_def)
  have le: "lr_lsn x \<le> lm_flushed_lsn (le_log e)" if x: "x \<in> set fl" for x
  proof -
    obtain ys z where ys: "fl = ys @ [z]" using x by (cases fl rule: rev_cases) auto
    have "x = z \<or> unat (lr_lsn x) + length (log_bytes x) \<le> unat (lr_lsn z)"
      using x c(1) contiguous_lsn [of base ys x] ys by auto
    then show ?thesis using c(4) ys by (auto simp: word_le_nat_alt)
  qed
  have gt: "lr_lsn x > lm_flushed_lsn (le_log e)" if x: "x \<in> set (lm_buffer (le_log e))" for x
  proof -
    have "log_end base fl \<le> unat (lr_lsn x)" using contiguous_lsn [OF c(2) x] by simp
    moreover have "unat (lm_flushed_lsn (le_log e)) < log_end base fl"
    proof (cases "fl = []")
      case True
      have "base \<noteq> 0"
      proof
        assume "base = 0"
        then show False using c(4) True rd by (simp add: log_readable_def)
      qed
      then have "unat (of_nat base - 1 :: lsn_t) = base - 1"
      proof -
        have u: "unat (of_nat base :: lsn_t) = base"
          by (rule unat_of_nat_small) (use end_small True in \<open>simp add: MAX_LOG_END_def\<close>)
        then show ?thesis using \<open>base \<noteq> 0\<close> by (subst unat_sub_small) simp_all
      qed
      then show ?thesis using c(4) True \<open>base \<noteq> 0\<close> by simp
    next
      case False
      then show ?thesis
        using contiguous_lsn [OF c(1) last_in_set [OF False]] log_bytes_nonempty [of "last fl"] c(4) by simp
    qed
    ultimately show ?thesis by (simp add: word_less_nat_alt)
  qed
  show "find (\<lambda>x. lr_lsn x = lr_lsn r) (lm_buffer (le_log e)) = Some r" if "lr_lsn r > lm_flushed_lsn (le_log e)"
  proof -
    have rb: "r \<in> set (lm_buffer (le_log e))" using r fl(1) le that by (auto simp: not_less [symmetric])
    then obtain x where x: "find (\<lambda>x. lr_lsn x = lr_lsn r) (lm_buffer (le_log e)) = Some x"
      by (cases "find (\<lambda>x. lr_lsn x = lr_lsn r) (lm_buffer (le_log e))") (auto simp: find_None_iff)
    then have "x \<in> set (lm_buffer (le_log e))" "lr_lsn x = lr_lsn r"
      by (metis (mono_tags, lifting) find_Some_iff nth_mem)+
    then have "x = r" using contiguous_distinct [OF c(2)] rb by blast
    then show ?thesis using x by simp
  qed
  show "slice (unat (lr_lsn r)) (length (log_bytes r)) (dk_log (le_disk e)) = log_bytes r" if "\<not> lr_lsn r > lm_flushed_lsn (le_log e)"
    using r fl(1) gt that c(3) by auto
qed

lemma read_log_at:
  assumes ok: "log_ok (pe_disk s)" and wf: "rec_wf r" "length (log_bytes r) \<le> MAX_LOG_SIZE"
    and sl: "slice (unat (lr_lsn r)) (length (log_bytes r)) (dk_log (pe_disk s)) = log_bytes r"
    and room: "unat (lr_lsn r) + MAX_LOG_SIZE \<le> length (dk_log (pe_disk s))" "unat (lr_lsn r) \<le> MAX_LOG_END"
  shows "read_log (lr_lsn r) s = (Inr r, s)"
proof -
  let ?d = "pe_disk s"
  have u: "unat (ucast (lr_lsn r) :: 32 word) = unat (lr_lsn r)" "unat (of_nat MAX_LOG_SIZE :: 32 word) = MAX_LOG_SIZE"
    using room(2) by (simp_all add: unsigned_ucast_eq take_bit_nat_eq_self MAX_LOG_END_def)
  have bs: "slice (unat (lr_lsn r)) MAX_LOG_SIZE (dk_log ?d)
      = log_bytes r @ slice (unat (lr_lsn r) + length (log_bytes r)) (MAX_LOG_SIZE - length (log_bytes r)) (dk_log ?d)"
    using slice_prefix [OF wf(2) room(1)] sl by simp
  have "ReadLog (ucast (lr_lsn r)) (of_nat MAX_LOG_SIZE) ?d = (Inr (slice (unat (lr_lsn r)) MAX_LOG_SIZE (dk_log ?d)), ?d)"
    using ReadLog_ok [of ?d "ucast (lr_lsn r)" "of_nat MAX_LOG_SIZE"] u room(1) ok by (simp add: log_ok_def)
  moreover have "LogRecord_DeserializeFrom (lr_lsn r) (slice (unat (lr_lsn r)) MAX_LOG_SIZE (dk_log ?d)) = Inr r"
    unfolding bs using LogRecord_DeserializeFrom_eq [of r "lr_lsn r"] wf(1) by (simp add: rec_wf_def)
  ultimately show ?thesis
    by (simp add: read_log_def ebind_def in_disk_def in_log_def on_disk_def ezoom_def)
qed

section \<open>Rolling a chain back\<close>

definition undo_all :: "LogRecord list \<Rightarrow> Record list list \<Rightarrow> Record list list" where
  "undo_all xs rss = foldr (\<lambda>r. undo_rows (lr_xid r) (lr_body r)) xs rss"

definition undoable :: "Table \<Rightarrow> Record list list \<Rightarrow> LogRecord list \<Rightarrow> bool" where
  "undoable t rss xs \<longleftrightarrow> (\<forall>r \<in> set xs. undo_valid t rss (lr_body r) \<and> length (log_bytes r) \<le> MAX_LOG_SIZE)"

text \<open>One round of the loop, wherever the record is.\<close>

lemma rollback_step:
  assumes rd: "log_readable base H (pe_log s)" and r: "r \<in> set H" "length (log_bytes r) \<le> MAX_LOG_SIZE"
    and u: "LogRecord_Undo cat r s = (Inr (), s')"
  shows "rollback_loop cat (Suc fuel) (lr_lsn r) s = rollback_loop cat fuel (lr_prev_lsn r) s'"
proof -
  have h: "log_hist base H (pe_log s)" "log_end base H + MAX_LOG_SIZE \<le> length (dk_log (pe_disk s))"
    using rd by (simp_all add: log_readable_def)
  note hl = hist_lsn [OF h(1) r(1)]
  have nn: "lr_lsn r \<noteq> NULL_LSN"
    using hl(1,2) by (auto simp: MAX_LOG_END_def unsigned_minus_1_eq_mask mask_eq_exp_minus_1)
  show ?thesis
  proof (cases "lr_lsn r > lm_flushed_lsn (le_log (pe_log s))")
    case True
    then show ?thesis using flushed_split(1) [OF rd r(1) True] u nn by (simp add: ebind_def)
  next
    case False
    have "log_ok (pe_disk s)" using h(1) by (auto simp: log_hist_def log_rep_def log_core_def)
    then have "read_log (lr_lsn r) s = (Inr r, s)"
      using flushed_split(2) [OF rd r(1) False] hl h(2) r(2) by (intro read_log_at) auto
    then show ?thesis using False u nn by (simp add: ebind_def)
  qed
qed

lemma rollback_loop_ok:
  assumes "table_pages nx t rss s" "cat_knows cat t" "log_readable base H (pe_log s)" "linked NULL_LSN xs" "set xs \<subseteq> set H"
    "undoable t rss xs" "length xs < fuel"
  shows "\<exists>s'. rollback_loop cat fuel (if xs = [] then NULL_LSN else lr_lsn (last xs)) s = (Inr (), s') \<and>
     table_pages nx t (undo_all xs rss) s' \<and> outside_kept t s s' \<and> log_kept (pe_log s) (pe_log s')"
  using assms
proof (induction xs arbitrary: rss s fuel rule: rev_induct)
  case Nil
  then show ?case by (cases fuel) (simp_all add: undo_all_def outside_kept_def)
next
  case (snoc r xs)
  obtain n where n: "fuel = Suc n" "length xs < n" using snoc.prems(7) by (cases fuel) simp_all
  have r: "r \<in> set H" "undo_valid t rss (lr_body r)" "length (log_bytes r) \<le> MAX_LOG_SIZE"
    using snoc.prems(5,6) by (simp_all add: undoable_def)
  obtain s1 where s1: "LogRecord_Undo cat r s = (Inr (), s1)" "table_pages nx t (undo_rows (lr_xid r) (lr_body r) rss) s1"
    "outside_kept t s s1" "log_kept (pe_log s) (pe_log s1)"
    using Undo_ok [OF snoc.prems(1,2) r(2)] by metis
  have "undoable t (undo_rows (lr_xid r) (lr_body r) rss) xs"
    using snoc.prems(6) by (simp add: undoable_def undo_valid_rows)
  moreover have l: "linked NULL_LSN xs" "lr_prev_lsn r = (if xs = [] then NULL_LSN else lr_lsn (last xs))"
    using snoc.prems(4) unfolding linked_snoc by blast+
  moreover have "set xs \<subseteq> set H" using snoc.prems(5) by simp
  ultimately obtain s' where s': "rollback_loop cat n (lr_prev_lsn r) s1 = (Inr (), s')"
    "table_pages nx t (undo_all xs (undo_rows (lr_xid r) (lr_body r) rss)) s'" "outside_kept t s1 s'" "log_kept (pe_log s1) (pe_log s')"
    using snoc.IH [OF s1(2) snoc.prems(2) log_readable_kept [OF s1(4) snoc.prems(3)]] n(2) unfolding l(2) by blast
  have "rollback_loop cat fuel (lr_lsn r) s = (Inr (), s')"
    unfolding n(1) rollback_step [OF snoc.prems(3) r(1,3) s1(1)] by (rule s'(1))
  then show ?case
    using s'(2) outside_kept_trans [OF s1(3) s'(3)] log_kept_trans [OF s1(4) s'(4)] by (auto simp: undo_all_def)
qed

lemma tx_log_length: "length (tx_log xid acc rs) \<le> Suc (length acc + length rs)"
proof (induction rs arbitrary: acc)
  case (Cons r rs)
  let ?acc = "if lr_xid r \<noteq> xid then acc else if lr_body r = BeginLog then [r] else acc @ [r]"
  have "length ?acc \<le> Suc (length acc)" by simp
  then show ?case using Cons.IH [of ?acc] by (simp only: tx_log.simps list.size)
qed simp

lemma hist_length: "13 * length rs \<le> log_end b rs"
proof -
  have "13 * length rs \<le> sum_list (map (\<lambda>r. length (log_bytes r)) rs)"
    by (induction rs) (use log_bytes_nonempty in \<open>auto intro: add_mono\<close>)
  then show ?thesis by (simp add: log_end_def)
qed

text \<open>
  The entry of an active transaction is the end of the chain of its records, as the invariant of the
  log manager has it.
\<close>

definition ends_chain :: "xid_t \<Rightarrow> LogRecord list \<Rightarrow> LogEnv \<Rightarrow> bool" where
  "ends_chain xid H e \<longleftrightarrow> tx_log xid [] H \<noteq> [] \<and> linked NULL_LSN (tx_log xid [] H) \<and>
     map_of (lm_att (le_log e)) xid = Some (lr_lsn (last (tx_log xid [] H)))"

lemma log_inv_chain:
  assumes "log_inv base e" "map_of (lm_att (le_log e)) xid = Some lsn"
  obtains H where "log_hist base H e" "ends_chain xid H e"
proof -
  obtain fl where fl: "log_rep base fl e" "chain_inv fl (le_log e)" using assms(1) by (auto simp: log_inv_def)
  then have "log_hist base (fl @ lm_buffer (le_log e)) e" "ends_chain xid (fl @ lm_buffer (le_log e)) e"
    using assms(2) by (auto simp: log_hist_def ends_chain_def chain_inv_def Let_def)
  then show thesis by (rule that)
qed

lemma Rollback_ok:
  assumes tp: "table_pages nx t rss s" and cat: "cat_knows cat t" and rd: "log_readable base H (pe_log s)"
    and ch: "ends_chain xid H (pe_log s)" and u: "undoable t rss (tx_log xid [] H)"
  obtains s' where "LogManager_Rollback cat xid s = (Inr (), s')" "table_pages nx t (undo_all (tx_log xid [] H) rss) s'"
    "outside_kept t s s'" "log_kept (pe_log s) (pe_log s')"
proof -
  let ?xs = "tx_log xid [] H"
  have xs: "?xs \<noteq> []" "linked NULL_LSN ?xs" "map_of (lm_att (le_log (pe_log s))) xid = Some (lr_lsn (last ?xs))"
    using ch unfolding ends_chain_def by blast+
  have "13 * length H \<le> MAX_LOG_END"
    using hist_length [of H base] rd by (auto simp: log_readable_def log_hist_def log_rep_def log_core_def)
  then have "length ?xs < LOG_FUEL"
    using tx_log_length [of xid "[]" H] by (simp add: LOG_FUEL_def MAX_LOG_END_def)
  then obtain s' where s': "rollback_loop cat LOG_FUEL (if ?xs = [] then NULL_LSN else lr_lsn (last ?xs)) s = (Inr (), s')"
      "table_pages nx t (undo_all ?xs rss) s'" "outside_kept t s s'" "log_kept (pe_log s) (pe_log s')"
    using rollback_loop_ok [OF tp cat rd xs(2) _ u] tx_log_subset [of xid "[]" H] by auto
  have "LogManager_Rollback cat xid s = (Inr (), s')"
    using xs(1,3) s'(1) by (simp add: LogManager_Rollback_def ebind_def on_lm_apply [of _ s])
  then show thesis using that s'(2-4) by blast
qed

text \<open>A logged step of the transaction extends its chain.\<close>

lemma ends_chain_adds:
  assumes ad: "log_adds r e e'" and ch: "ends_chain xid H e" and r: "lr_xid r = xid" "lr_body r \<noteq> BeginLog"
  shows "ends_chain xid (H @ [r]) e'" "tx_log xid [] (H @ [r]) = tx_log xid [] H @ [r]"
proof -
  show t: "tx_log xid [] (H @ [r]) = tx_log xid [] H @ [r]" using r by (simp add: tx_log_append)
  have "lr_prev_lsn r = lr_lsn (last (tx_log xid [] H))" "map_of (lm_att (le_log e')) xid = Some (lr_lsn r)"
    using ad ch r(1) by (auto simp: log_adds_def ends_chain_def)
  then show "ends_chain xid (H @ [r]) e'" using ch unfolding ends_chain_def t linked_snoc by auto
qed

lemma log_readable_adds:
  assumes "log_adds r e e'" "log_readable base H e" "log_end base H + length (log_bytes r) + MAX_LOG_SIZE \<le> length (dk_log (le_disk e))"
  shows "log_readable base (H @ [r]) e'"
  using assms by (auto simp: log_readable_def log_adds_def)

definition live_row :: "Record \<Rightarrow> bool" where
  "live_row rec \<longleftrightarrow> \<not> rh_deleted (r_header rec) \<and> rh_xmax (r_header rec) = NULL_XID"

lemma undo_delete:
  assumes "rid_valid rid rss" "live_row (rss ! unat (rid_page_id rid) ! unat (rid_slot_id rid))"
  shows "undo_rows xid (DeleteLog oid (rid_page_id rid) (rid_slot_id rid))
     (mark_deleted (unat (rid_page_id rid)) (unat (rid_slot_id rid)) xid rss) = rss"
proof -
  let ?i = "unat (rid_page_id rid)" and ?j = "unat (rid_slot_id rid)"
  have ij: "?i < length rss" "?j < length (rss ! ?i)" using assms(1) by (simp_all add: rid_valid_def)
  have "h\<lparr>rh_deleted := False, rh_xmax := NULL_XID\<rparr> = h" if "\<not> rh_deleted h" "rh_xmax h = NULL_XID" for h :: RecordHeader
    using that by (cases h) simp
  then have "(rss ! ?i ! ?j)\<lparr>r_header := (r_header (rss ! ?i ! ?j))\<lparr>rh_deleted := False, rh_xmax := NULL_XID\<rparr>\<rparr> = rss ! ?i ! ?j"
    using assms(2) by (simp add: live_row_def)
  then show ?thesis
    using ij by (simp add: mark_deleted_edit edit_row_def)
qed

section \<open>A sample transaction\<close>

text \<open>
  Transaction 7 has begun, its first record is in the log file, and the sample table has one row.
\<close>

definition sample_begin :: LogRecord where
  "sample_begin = \<lparr>lr_lsn = 0, lr_xid = 7, lr_prev_lsn = NULL_LSN, lr_body = BeginLog\<rparr>"

definition sample_flushed :: PoolEnv where
  "sample_flushed = snd (in_log (LogManager_FlushPage 10001 0 0) (te_pool sample_table))"

definition sample_cat :: CatalogView where
  "sample_cat = \<lparr>cat_table_exists = (\<lambda>oid. oid = 10001), cat_database_oid = (\<lambda>oid. if oid = 10001 then eret 2 else ethrow (DbException ''none''))\<rparr>"

lemma sample_begin_bytes: "length (log_bytes sample_begin) = 13" "rec_wf sample_begin"
proof -
  show "length (log_bytes sample_begin) = 13" by (simp add: sample_begin_def log_bytes_def)
  show "rec_wf sample_begin" by (rule fixed_rec_wf(1)) (simp add: sample_begin_def)
qed

lemma sample_log_start: "log_rep 0 [] (pe_log (te_pool sample_table))" "lm_buffer (le_log (pe_log (te_pool sample_table))) = [sample_begin]"
  "lm_att (le_log (pe_log (te_pool sample_table))) = [(7, 0)]" "LOG_SEGMENT_SIZE \<le> length (dk_log (pe_disk (te_pool sample_table)))"
proof -
  let ?e = "pe_log (te_pool sample_table)"
  show b: "lm_buffer (le_log ?e) = [sample_begin]" "lm_att (le_log ?e) = [(7, 0)]"
    by (simp_all add: sample_table_def sample_pool_def sample_log1_def sample_log_def LogManager_new_def AppendBeginLog_def
        fetch_lsn_def push_back_def set_att_def sample_begin_def)
  have n: "lm_next_lsn (le_log ?e) = 13" "lm_flushed_lsn (le_log ?e) = NULL_LSN"
    by (simp_all add: sample_table_def sample_pool_def sample_log1_def sample_log_def LogManager_new_def AppendBeginLog_def
        fetch_lsn_def push_back_def set_att_def LogRecord_GetSize_def)
  have d: "le_disk ?e = sample_disk\<lparr>dk_data := (\<lambda>_. replicate 256 0)\<rparr>"
    by (simp add: sample_table_def sample_pool_def)
  show "LOG_SEGMENT_SIZE \<le> length (dk_log (pe_disk (te_pool sample_table)))"
    unfolding d by (simp add: sample_disk_def file_resize_def)
  have "\<not> DirectoryExists NEXT_LSN_NAME (le_disk ?e)" "\<not> FileExists NEXT_LSN_NAME (le_disk ?e)" "log_ok (le_disk ?e)"
    unfolding d using table_path_not_number(1) [of 2 10001] sample_disk_ok(3)
    by (simp_all add: sample_disk_def DirectoryExists_def FileExists_def log_ok_def) (simp add: NEXT_LSN_NAME_def)
  moreover have "contiguous 0 [sample_begin]" by (simp add: sample_begin_def)
  ultimately show "log_rep 0 [] ?e"
    using b n sample_begin_bytes by (simp add: log_rep_def log_core_def MAX_LOG_END_def next_lsn_file_def)
qed

lemma sample_flushed_ok:
  "table_pages NULL_PAGE_ID (te_table sample_table) [] sample_flushed" "log_readable 0 [sample_begin] (pe_log sample_flushed)"
  "ends_chain 7 [sample_begin] (pe_log sample_flushed)" "log_ready 2 7 (pe_log sample_flushed)"
  "LOG_SEGMENT_SIZE \<le> length (dk_log (pe_disk sample_flushed))"
proof -
  let ?s = "te_pool sample_table"
  have tp: "table_pages NULL_PAGE_ID (te_table sample_table) [] ?s" by (rule sample_table_ok(3))
  obtain s' where s': "in_log (LogManager_FlushPage 10001 0 0) ?s = (Inr (), s')" "log_good (pe_log s')"
    "disk_writable (pe_disk s') = disk_writable (pe_disk ?s)" "disk_content (pe_disk s') = disk_content (pe_disk ?s)"
    "s' = ?s\<lparr>pe_log := pe_log s'\<rparr>" "log_kept (pe_log ?s) (pe_log s')"
    using in_log_force [OF table_pages_good [OF tp], of 10001 0 0] by metis
  have s: "sample_flushed = s'" using s'(1) by (simp add: sample_flushed_def)
  have inv: "pool_inv {} ?s" using tp by (simp add: table_pages_def table_owns_def)
  have v: "pool_inv {} s'" "pool_view s' = pool_view ?s"
    using pool_inv_log [OF inv s'(2,4,3)] s'(5) by simp_all
  have "frames s' = frames ?s" by (subst s'(5)) (simp add: frames_def)
  then show "table_pages NULL_PAGE_ID (te_table sample_table) [] sample_flushed"
    unfolding s using v s'(3) by (intro table_pages_kept [OF tp]) (auto simp: frame_keys_def)
  have h: "log_hist 0 [sample_begin] (pe_log ?s)"
    using sample_log_start(1,2) unfolding log_hist_def by (intro exI [of _ "[]"]) simp
  obtain e1 where e1: "LogManager_Flush 0 (pe_log ?s) = (Inr (), e1)" "log_rep 0 ([] @ to_flush 0 (le_log (pe_log ?s))) e1"
    using LogManager_Flush_rep [OF sample_log_start(1), of 0] by metis
  have "lm_flushed_lsn (le_log (pe_log s')) = lm_flushed_lsn (le_log e1)"
    using s'(1) e1(1) by (auto simp: in_log_def ezoom_def LogManager_FlushPage_def ebind_def on_log_def)
  moreover have "to_flush 0 (le_log (pe_log ?s)) = [sample_begin]"
    unfolding to_flush_def sample_log_start(2) by (simp add: sample_begin_def)
  ultimately have "lm_flushed_lsn (le_log (pe_log s')) = 0" using e1(2) by (simp add: log_rep_def sample_begin_def)
  then show "log_readable 0 [sample_begin] (pe_log sample_flushed)"
    unfolding s using s'(6) h sample_log_start(4) sample_begin_bytes(1) by (auto simp: log_readable_def log_kept_def)
  show "ends_chain 7 [sample_begin] (pe_log sample_flushed)"
    unfolding s using s'(6) sample_log_start(3) by (auto simp: ends_chain_def log_kept_def sample_begin_def)
  show "log_ready 2 7 (pe_log sample_flushed)"
    unfolding s using log_kept_ready [OF s'(6)] sample_table_ok(2) [of True] by (simp add: insertable_def numeral_2_eq_2)
  show "LOG_SEGMENT_SIZE \<le> length (dk_log (pe_disk sample_flushed))"
    unfolding s using s'(6) sample_log_start(4) by (simp add: log_kept_def)
qed

text \<open>
  C12. \<^verbatim>\<open>LogManager::Rollback\<close> of an active transaction all of whose log records are about existing rows of one
  table (insertions and deletions; it has added no page), on a log from which something has been flushed before and
  whose file has room for a read of the longest record: it returns, for records still in the buffer and for
  records read back from the log file alike, and has undone exactly the transaction's records since
  its beginning, the last one first: the rows it inserted are marked deleted by it and the rows it
  deleted are live again; the other rows of the table and all other tables are as before.
\<close>

theorem Rollback_undoes:
  assumes "table_pages nx t rss s" "cat_knows cat t" "log_readable base H (pe_log s)"
    and "ends_chain xid H (pe_log s)" "undoable t rss (tx_log xid [] H)"
  shows "\<exists>s'. LogManager_Rollback cat xid s = (Inr (), s') \<and> table_pages nx t (undo_all (tx_log xid [] H) rss) s' \<and>
     outside_kept t s s'"
  using Rollback_ok [OF assms] by metis

lemma sample_flushed_fields: "lm_dpt (le_log (pe_log sample_flushed)) = []" "lm_next_lsn (le_log (pe_log sample_flushed)) = 13"
proof -
  obtain s' where s': "in_log (LogManager_FlushPage 10001 0 0) (te_pool sample_table) = (Inr (), s')"
    "log_kept (pe_log (te_pool sample_table)) (pe_log s')"
    using in_log_force [OF table_pages_good [OF sample_table_ok(3)], of 10001 0 0] by metis
  moreover have "lm_dpt (le_log (pe_log (te_pool sample_table))) = []" "lm_next_lsn (le_log (pe_log (te_pool sample_table))) = 13"
    by (simp_all add: sample_table_def sample_pool_def sample_log1_def sample_log_def LogManager_new_def AppendBeginLog_def
        fetch_lsn_def push_back_def set_att_def LogRecord_GetSize_def)
  ultimately show "lm_dpt (le_log (pe_log sample_flushed)) = []" "lm_next_lsn (le_log (pe_log sample_flushed)) = 13"
    by (simp_all add: sample_flushed_def log_kept_def)
qed

lemma sample_one_row:
  obtains p where "table_rep [[stamped 7 1 sample_row]] (sample_table\<lparr>te_pool := p, te_table := (te_table sample_table)\<lparr>tb_first_page_id := 0\<rparr>\<rparr>)"
    "log_kept (pe_log sample_flushed) (pe_log p)"
proof -
  let ?t = "te_table sample_table" and ?no = "[] :: Record list list"
  obtain r s1 s2 where s2: "NewPage (tb_db_oid ?t) (tb_oid ?t) (of_nat (length ?no)) sample_flushed = (Inr r, s1)"
    "page_upd r TablePage_Init s1 = (Inr (), s2)" "table_pages NULL_PAGE_ID ?t (?no @ [[]]) s2"
    "holds s2 (tkey ?t (length ?no)) r" "outside_kept ?t sample_flushed s2" "log_kept (pe_log sample_flushed) (pe_log s2)"
    by (rule fresh_page_ok [OF sample_flushed_ok(1)]) simp_all
  have ins: "insertable 0 ?t sample_row False 7 (pe_log s2)" using sample_table_ok(2) [of False] by (simp add: insertable_def)
  have fit: "fits sample_row ([[]] ! 0)" using sample_row_ok(3) by (simp add: fits_def)
  obtain s3 where s3: "table_pages NULL_PAGE_ID ?t ([[]][0 := [[]] ! 0 @ [stamped 7 1 sample_row]]) s3" "pe_log s3 = pe_log s2"
    using insert_at_ok [of NULL_PAGE_ID ?t "[[]]" s2 0 r 0 sample_row False 7 1 None "\<lambda>_. 0"] s2(3,4) ins fit
    by (metis append_Nil length_Cons list.size(3) zero_less_Suc)
  show thesis
    using that [of s3] s3 s2(6) by (simp add: table_rep_def)
qed

text \<open>What a logged deletion leaves: the marked row, and the chain of the transaction longer by its record.\<close>

lemma logged_delete:
  assumes rep: "table_rep rss s" and rid: "rid_valid rid rss"
    and rd: "log_readable base H (pe_log (te_pool s))" and ch: "ends_chain xid H (pe_log (te_pool s))"
    and u: "undoable (te_table s) rss (tx_log xid [] H)" and lr: "log_ready 1 xid (pe_log (te_pool s))"
    and room: "log_end base H + 2 * MAX_LOG_SIZE \<le> length (dk_log (pe_disk (te_pool s)))"
  obtains p r where "Table_DeleteRecord rid xid True s = (Inr (), s\<lparr>te_pool := p\<rparr>)"
    "table_pages NULL_PAGE_ID (te_table s) (mark_deleted (unat (rid_page_id rid)) (unat (rid_slot_id rid)) xid rss) p"
    "outside_kept (te_table s) (te_pool s) p"
    "lr_xid r = xid" "lr_body r = DeleteLog (tb_oid (te_table s)) (rid_page_id rid) (rid_slot_id rid)"
    "log_readable base (H @ [r]) (pe_log p)" "ends_chain xid (H @ [r]) (pe_log p)" "tx_log xid [] (H @ [r]) = tx_log xid [] H @ [r]"
    "undoable (te_table s) (mark_deleted (unat (rid_page_id rid)) (unat (rid_slot_id rid)) xid rss) (tx_log xid [] H @ [r])"
proof -
  let ?i = "unat (rid_page_id rid)" and ?j = "unat (rid_slot_id rid)" and ?t = "te_table s"
  let ?rss = "mark_deleted ?i ?j xid rss" and ?b = "DeleteLog (tb_oid (te_table s)) (rid_page_id rid) (rid_slot_id rid)"
  have tp: "table_pages NULL_PAGE_ID ?t rss (te_pool s)" using rep by (simp add: table_rep_def)
  obtain p lsn prev where p: "Table_DeleteRecord rid xid True s = (Inr (), s\<lparr>te_pool := p\<rparr>)" "table_pages NULL_PAGE_ID ?t ?rss p"
    "outside_kept ?t (te_pool s) p" "log_adds \<lparr>lr_lsn = lsn, lr_xid = xid, lr_prev_lsn = prev, lr_body = ?b\<rparr> (pe_log (te_pool s)) (pe_log p)"
    using Table_DeleteRecord_ok [OF tp rid, of True 0 xid] lr by (metis One_nat_def)
  let ?r = "\<lparr>lr_lsn = lsn, lr_xid = xid, lr_prev_lsn = prev, lr_body = ?b\<rparr>"
  have len: "length (log_bytes ?r) = 23" by (simp add: log_bytes_def DeleteLog_bytes_def)
  have rd': "log_readable base (H @ [?r]) (pe_log p)"
    using room len by (intro log_readable_adds [OF p(4) rd]) simp
  have ch': "ends_chain xid (H @ [?r]) (pe_log p)" "tx_log xid [] (H @ [?r]) = tx_log xid [] H @ [?r]"
    using ends_chain_adds [OF p(4) ch] by simp_all
  have "undoable ?t ?rss (tx_log xid [] H @ [?r])"
    using u rid len by (auto simp: undoable_def mark_deleted_edit rid_valid_def) (simp_all add: row_exists_def)
  then show thesis using that [of p ?r, OF p(1-3) _ _ rd' ch'] by simp
qed

lemma undo_all_deleted:
  assumes rid: "rid_valid rid rss" and live: "live_row (rss ! unat (rid_page_id rid) ! unat (rid_slot_id rid))"
    and r: "lr_xid r = xid" "lr_body r = DeleteLog oid (rid_page_id rid) (rid_slot_id rid)"
  shows "undo_all (xs @ [r]) (mark_deleted (unat (rid_page_id rid)) (unat (rid_slot_id rid)) xid rss) = undo_all xs rss"
  using undo_delete [OF rid live, of xid oid] r by (simp add: undo_all_def)

text \<open>The sample transaction may delete the row of the sample table.\<close>

lemma sample_deletable:
  obtains s where "te_table s = (te_table sample_table)\<lparr>tb_first_page_id := 0\<rparr>" "table_rep [[stamped 7 1 sample_row]] s"
    "log_readable 0 [sample_begin] (pe_log (te_pool s))" "ends_chain 7 [sample_begin] (pe_log (te_pool s))"
    "undoable (te_table s) [[stamped 7 1 sample_row]] (tx_log 7 [] [sample_begin])" "log_ready 1 7 (pe_log (te_pool s))"
    "log_end 0 [sample_begin] + 2 * MAX_LOG_SIZE \<le> length (dk_log (pe_disk (te_pool s)))"
proof -
  obtain p where p: "table_rep [[stamped 7 1 sample_row]] (sample_table\<lparr>te_pool := p, te_table := (te_table sample_table)\<lparr>tb_first_page_id := 0\<rparr>\<rparr>)"
    "log_kept (pe_log sample_flushed) (pe_log p)"
    by (rule sample_one_row)
  let ?s = "sample_table\<lparr>te_pool := p, te_table := (te_table sample_table)\<lparr>tb_first_page_id := 0\<rparr>\<rparr>"
  have tx: "tx_log 7 [] [sample_begin] = [sample_begin]" by (simp add: sample_begin_def)
  have "ends_chain 7 [sample_begin] (pe_log (te_pool ?s))"
    using sample_flushed_ok(3) p(2) by (simp add: ends_chain_def log_kept_def)
  moreover have "undoable (te_table ?s) [[stamped 7 1 sample_row]] (tx_log 7 [] [sample_begin])"
    using sample_begin_bytes(1) by (simp add: undoable_def tx) (simp add: sample_begin_def)
  moreover have "log_ready 1 7 (pe_log (te_pool ?s))"
    using log_kept_ready [OF p(2) sample_flushed_ok(4)] by (simp add: log_ready_def)
  moreover have "log_end 0 [sample_begin] + 2 * MAX_LOG_SIZE \<le> length (dk_log (pe_disk (te_pool ?s)))"
    using sample_flushed_ok(5) p(2) sample_begin_bytes(1) by (simp add: log_kept_def)
  moreover have "log_readable 0 [sample_begin] (pe_log (te_pool ?s))"
    using log_readable_kept [OF p(2) sample_flushed_ok(2)] by simp
  moreover have "te_table ?s = (te_table sample_table)\<lparr>tb_first_page_id := 0\<rparr>" by simp
  ultimately show thesis using that [of ?s] p(1) by blast
qed

abbreviation sample_rid :: Rid where
  "sample_rid \<equiv> \<lparr>rid_page_id = 0, rid_slot_id = 0\<rparr>"

lemma sample_rid_ok:
  "rid_valid sample_rid [[stamped 7 1 sample_row]]"
  "live_row ([[stamped 7 1 sample_row]] ! unat (rid_page_id sample_rid) ! unat (rid_slot_id sample_rid))"
  "undo_all (tx_log 7 [] [sample_begin]) [[stamped 7 1 sample_row]] = [[stamped 7 1 sample_row]]"
  "cat_knows sample_cat ((te_table sample_table)\<lparr>tb_first_page_id := n\<rparr>)"
proof -
  show "rid_valid sample_rid [[stamped 7 1 sample_row]]" by (simp add: rid_valid_def)
  show "live_row ([[stamped 7 1 sample_row]] ! unat (rid_page_id sample_rid) ! unat (rid_slot_id sample_rid))"
    by (simp add: live_row_def stamped_def SetXmin_def SetCid_def sample_row_def UpdateSize_def RecordHeader_default_def)
  show "undo_all (tx_log 7 [] [sample_begin]) [[stamped 7 1 sample_row]] = [[stamped 7 1 sample_row]]"
    by (simp add: undo_all_def sample_begin_def)
  show "cat_knows sample_cat ((te_table sample_table)\<lparr>tb_first_page_id := n\<rparr>)"
    by (simp add: cat_knows_def sample_cat_def sample_table_def Table_new_def)
qed

text \<open>The row the transaction has marked deleted is live again after its rollback, exactly as it was.\<close>

theorem Rollback_undoes_witness:
  "\<exists>s s'. table_pages NULL_PAGE_ID (te_table sample_table) [[SetXmax 7 (SetDeleted True (stamped 7 1 sample_row))]] s \<and>
     LogManager_Rollback sample_cat 7 s = (Inr (), s') \<and>
     table_pages NULL_PAGE_ID (te_table sample_table) [[stamped 7 1 sample_row]] s'"
proof -
  let ?rss = "[[stamped 7 1 sample_row]]"
  obtain s where s: "te_table s = (te_table sample_table)\<lparr>tb_first_page_id := 0\<rparr>" "table_rep ?rss s"
    "log_readable 0 [sample_begin] (pe_log (te_pool s))" "ends_chain 7 [sample_begin] (pe_log (te_pool s))"
    "undoable (te_table s) ?rss (tx_log 7 [] [sample_begin])" "log_ready 1 7 (pe_log (te_pool s))"
    "log_end 0 [sample_begin] + 2 * MAX_LOG_SIZE \<le> length (dk_log (pe_disk (te_pool s)))"
    by (rule sample_deletable)
  let ?del = "mark_deleted (unat (rid_page_id sample_rid)) (unat (rid_slot_id sample_rid)) 7 ?rss"
  obtain p r where p: "table_pages NULL_PAGE_ID (te_table s) ?del p" "lr_xid r = 7"
    "lr_body r = DeleteLog (tb_oid (te_table s)) (rid_page_id sample_rid) (rid_slot_id sample_rid)"
    "log_readable 0 ([sample_begin] @ [r]) (pe_log p)" "ends_chain 7 ([sample_begin] @ [r]) (pe_log p)"
    "tx_log 7 [] ([sample_begin] @ [r]) = tx_log 7 [] [sample_begin] @ [r]"
    "undoable (te_table s) ?del (tx_log 7 [] [sample_begin] @ [r])"
    by (rule logged_delete [OF s(2) sample_rid_ok(1) s(3-7)])
  have cat: "cat_knows sample_cat (te_table s)" unfolding s(1) by (rule sample_rid_ok(4))
  have "\<exists>s'. LogManager_Rollback sample_cat 7 p = (Inr (), s') \<and>
      table_pages NULL_PAGE_ID (te_table s) (undo_all (tx_log 7 [] [sample_begin] @ [r]) ?del) s' \<and> outside_kept (te_table s) p s'"
    using Rollback_undoes [OF p(1) cat p(4,5)] p(7) unfolding p(6) by blast
  moreover have "?del = [[SetXmax 7 (SetDeleted True (stamped 7 1 sample_row))]]" by (simp add: mark_deleted_def)
  ultimately show ?thesis
    using p(1) unfolding undo_all_deleted [OF sample_rid_ok(1,2) p(2,3)] sample_rid_ok(3) s(1) table_pages_first by metis
qed

text \<open>
  Rolling back after a logged deletion gives the same rows as rolling back without it: the
  deletion record that \<^verbatim>\<open>Table::DeleteRecord\<close> writes is reached by the chain of the transaction and its
  undo restores the row exactly, header included. In particular a transaction that only deletes
  leaves the table as it found it.
\<close>

theorem Delete_Rollback_restores:
  assumes rep: "table_rep rss s" and rid: "rid_valid rid rss"
    and live: "live_row (rss ! unat (rid_page_id rid) ! unat (rid_slot_id rid))" and cat: "cat_knows cat (te_table s)"
    and rd: "log_readable base H (pe_log (te_pool s))" and ch: "ends_chain xid H (pe_log (te_pool s))"
    and u: "undoable (te_table s) rss (tx_log xid [] H)" and lr: "log_ready 1 xid (pe_log (te_pool s))"
    and room: "log_end base H + 2 * MAX_LOG_SIZE \<le> length (dk_log (pe_disk (te_pool s)))"
  shows "\<exists>s1 s2. Table_DeleteRecord rid xid True s = (Inr (), s1) \<and> LogManager_Rollback cat xid (te_pool s1) = (Inr (), s2) \<and>
     table_pages NULL_PAGE_ID (te_table s) (undo_all (tx_log xid [] H) rss) s2 \<and> outside_kept (te_table s) (te_pool s) s2"
proof -
  obtain p r where p: "Table_DeleteRecord rid xid True s = (Inr (), s\<lparr>te_pool := p\<rparr>)"
    "table_pages NULL_PAGE_ID (te_table s) (mark_deleted (unat (rid_page_id rid)) (unat (rid_slot_id rid)) xid rss) p"
    "outside_kept (te_table s) (te_pool s) p"
    "lr_xid r = xid" "lr_body r = DeleteLog (tb_oid (te_table s)) (rid_page_id rid) (rid_slot_id rid)"
    "log_readable base (H @ [r]) (pe_log p)" "ends_chain xid (H @ [r]) (pe_log p)" "tx_log xid [] (H @ [r]) = tx_log xid [] H @ [r]"
    "undoable (te_table s) (mark_deleted (unat (rid_page_id rid)) (unat (rid_slot_id rid)) xid rss) (tx_log xid [] H @ [r])"
    by (rule logged_delete [OF rep rid rd ch u lr room])
  obtain s2 where s2: "LogManager_Rollback cat xid p = (Inr (), s2)"
    "table_pages NULL_PAGE_ID (te_table s) (undo_all (tx_log xid [] H @ [r])
       (mark_deleted (unat (rid_page_id rid)) (unat (rid_slot_id rid)) xid rss)) s2" "outside_kept (te_table s) p s2"
    using Rollback_ok [OF p(2) cat p(6,7)] p(8,9) by metis
  then show ?thesis
    using p(1) undo_all_deleted [OF rid live p(4,5)] outside_kept_trans [OF p(3) s2(3)] by auto
qed

theorem Delete_Rollback_restores_witness:
  "\<exists>s s1 s2. table_rep [[stamped 7 1 sample_row]] s \<and> Table_DeleteRecord \<lparr>rid_page_id = 0, rid_slot_id = 0\<rparr> 7 True s = (Inr (), s1) \<and>
     LogManager_Rollback sample_cat 7 (te_pool s1) = (Inr (), s2) \<and>
     table_pages NULL_PAGE_ID (te_table s) [[stamped 7 1 sample_row]] s2"
proof -
  obtain s where s: "te_table s = (te_table sample_table)\<lparr>tb_first_page_id := 0\<rparr>" "table_rep [[stamped 7 1 sample_row]] s"
    "log_readable 0 [sample_begin] (pe_log (te_pool s))" "ends_chain 7 [sample_begin] (pe_log (te_pool s))"
    "undoable (te_table s) [[stamped 7 1 sample_row]] (tx_log 7 [] [sample_begin])" "log_ready 1 7 (pe_log (te_pool s))"
    "log_end 0 [sample_begin] + 2 * MAX_LOG_SIZE \<le> length (dk_log (pe_disk (te_pool s)))"
    by (rule sample_deletable)
  have cat: "cat_knows sample_cat (te_table s)" unfolding s(1) by (rule sample_rid_ok(4))
  show ?thesis
    using Delete_Rollback_restores [OF s(2) sample_rid_ok(1,2) cat s(3-7)] s(2) unfolding sample_rid_ok(3) by metis
qed

section \<open>Redo of one record\<close>

text \<open>The LSN that page \<open>i\<close> of the table carries.\<close>

definition carries_lsn :: "Table \<Rightarrow> PoolEnv \<Rightarrow> nat \<Rightarrow> lsn_t \<Rightarrow> bool" where
  "carries_lsn t s i lsn \<longleftrightarrow> (\<exists>v. page_at s (tkey t i) v \<and> pv_lsn v = lsn)"

text \<open>The page is dirty since before the record, and the record is younger than the page.\<close>

definition due :: "LogManager \<Rightarrow> Table \<Rightarrow> nat \<Rightarrow> lsn_t \<Rightarrow> lsn_t \<Rightarrow> bool" where
  "due l t i plsn lsn \<longleftrightarrow>
     (\<exists>rec_lsn. map_of (lm_dpt l) \<lparr>tp_table_oid = tb_oid t, tp_page_id = of_nat i\<rparr> = Some rec_lsn \<and> rec_lsn \<le> lsn) \<and> plsn < lsn"

text \<open>The row a record adds or deletes, on the rows as they were when it was written.\<close>

inductive replays :: "Table \<Rightarrow> nat \<Rightarrow> LogRecord \<Rightarrow> Record list list \<Rightarrow> Record list list \<Rightarrow> bool" where
  replay_insert: "lr_body r = InsertLog (tb_oid t) (of_nat i) (of_nat (length (rss ! i))) off (r_size rec) (record_bytes rec) \<Longrightarrow>
     record_ok rec \<Longrightarrow> columns_fit (tb_column_list t) (r_values rec) \<Longrightarrow> fits rec (rss ! i) \<Longrightarrow>
     replays t i r rss (rss[i := rss ! i @ [rec]])"
| replay_delete: "lr_body r = DeleteLog (tb_oid t) (of_nat i) slot \<Longrightarrow> unat slot < length (rss ! i) \<Longrightarrow>
     replays t i r rss (mark_deleted i (unat slot) (lr_xid r) rss)"

inductive_cases replaysE: "replays t i r rss rss'"

lemma redo_insert_page:
  assumes tp: "table_pages nx t rss s" and i: "i < length rss" and h: "holds s (tkey t i) r"
    and rec: "record_ok rec" "columns_fit (tb_column_list t) (r_values rec)" "fits rec (rss ! i)"
  obtains s' where "page_run r (unit_run (RedoInsertRecord (of_nat (length (rss ! i))) (record_bytes rec) off (r_size rec))) s = (Inr (), s')"
    "table_pages nx t (rss[i := rss ! i @ [rec]]) s'" "outside_kept t s s'"
proof -
  obtain v where v: "page_rep v (page_of r s)" "page_rows (tb_column_list t) (rss ! i) v" "pv_next v = next_of (length rss) nx i"
    by (rule held_view [OF tp i h])
  have fit: "length (record_bytes rec) + 4 \<le> free_space v" by (rule fits_free(2) [OF v(1,2) rec(1,3)])
  have len: "length (pv_recs v) = length (rss ! i)" using v(2) by (simp add: page_rows_def)
  have "length (rss ! i) < 2 ^ 16" using page_rep_bounds(1) [OF v(1)] len by simp
  then have slot: "unat (of_nat (length (rss ! i)) :: slotid_t) = length (pv_recs v)"
    unfolding len by (intro unat_of_nat_small) simp
  have sz: "r_size rec = of_nat (length (record_bytes rec))" using rec(1) by (simp add: record_ok_def)
  have "13 \<le> length (record_bytes rec)" by (simp add: record_bytes_def)
  then obtain p where p: "RedoInsertRecord (of_nat (length (rss ! i))) (record_bytes rec) off (r_size rec) (page_of r s) = Inr p"
    "page_rep (snoc_view (record_bytes rec) v) p" "pg_dirty p"
    using RedoInsertRecord_rep [OF v(1) fit _ slot, of off] unfolding sz by metis
  have rows: "page_rows (tb_column_list t) (rss ! i @ [rec]) (snoc_view (record_bytes rec) v)"
    using rec by (intro page_rows_snoc v(2)) simp_all
  note e = edit_table [OF tp i h p(2,3) rows, of nx]
  have "page_run r (unit_run (RedoInsertRecord (of_nat (length (rss ! i))) (record_bytes rec) off (r_size rec))) s = (Inr (), edited r p s)"
    by (rule page_run_edited) (simp add: unit_run_def p(1))
  then show thesis using that [of "edited r p s"] e v(3) by (simp add: snoc_view_def)
qed

lemma Redo_ok:
  assumes tp: "table_pages nx t rss s" and cat: "cat_knows cat t" and i: "i < length rss" and rp: "replays t i r rss rss'"
  obtains s' where "LogRecord_Redo cat r s = (Inr (), s')" "table_pages nx t rss' s'" "outside_kept t s s'"
proof -
  have c: "cat_table_exists cat (tb_oid t)" "cat_database_oid cat (tb_oid t) = eret (tb_db_oid t)"
    using cat by (simp_all add: cat_knows_def)
  obtain ref s1 where g: "GetPage (tb_db_oid t) (tb_oid t) (of_nat i) s = (Inr ref, s1)"
    "table_pages nx t rss s1" "holds s1 (tkey t i) ref" "outside_kept t s s1"
    using GetPage_table [OF tp i] by metis
  consider (ins) off rec where
      "lr_body r = InsertLog (tb_oid t) (of_nat i) (of_nat (length (rss ! i))) off (r_size rec) (record_bytes rec)"
      "record_ok rec" "columns_fit (tb_column_list t) (r_values rec)" "fits rec (rss ! i)" "rss' = rss[i := rss ! i @ [rec]]"
    | (del) slot where "lr_body r = DeleteLog (tb_oid t) (of_nat i) slot" "unat slot < length (rss ! i)"
      "rss' = mark_deleted i (unat slot) (lr_xid r) rss"
    using rp by (elim replaysE) blast+
  then show thesis
  proof cases
    case ins
    obtain s' where s': "page_run ref (unit_run (RedoInsertRecord (of_nat (length (rss ! i))) (record_bytes rec) off (r_size rec))) s1 = (Inr (), s')"
      "table_pages nx t rss' s'" "outside_kept t s1 s'"
      using redo_insert_page [OF g(2) i g(3) ins(2-4), of off] ins(5) by metis
    then show thesis
      using that [of s'] outside_kept_trans [OF g(4)] g(1) c ins(1)
      by (simp add: LogRecord_Redo_def InsertLog_Redo_def table_page_def ebind_def)
  next
    case del
    obtain s' where s': "page_run ref (unit_run (TablePage_DeleteRecord slot (lr_xid r))) s1 = (Inr (), s')"
      "table_pages nx t rss' s'" "outside_kept t s1 s'"
      using delete_page_ok [OF g(2) i g(3) del(2)] del(3) by metis
    then show thesis
      using that [of s'] outside_kept_trans [OF g(4)] g(1) c del(1)
      by (simp add: LogRecord_Redo_def DeleteLog_Redo_def table_page_def ebind_def)
  qed
qed

lemma GetPage_lsn:
  assumes tp: "table_pages nx t rss s" and c: "carries_lsn t s i lsn"
  obtains r s' where "GetPage (tb_db_oid t) (tb_oid t) (of_nat i) s = (Inr r, s')" "page_lsn (page_of r s') = lsn"
proof -
  have own: "table_owns t (length rss) s" using tp by (simp add: table_pages_def)
  have inv: "pool_inv {} s" using own by (simp add: table_owns_def)
  obtain v b where v: "pool_view s (tkey t i) = Some b" "page_rep v \<lparr>pg_data = b, pg_dirty = False\<rparr>" "pv_lsn v = lsn"
    using c by (auto simp: carries_lsn_def page_at_def)
  obtain r s' where g: "GetPage (fst (tkey t i)) (fst (snd (tkey t i))) (snd (snd (tkey t i))) s = (Inr r, s')"
    "pg_data (page_of r s') = b"
    by (rule GetPage_ok [OF inv table_owns_consistent [OF own] v(1)])
  have "page_rep v (page_of r s')" using v(2) page_rep_dirty [of v "page_of r s'" False] g(2) by simp
  then have "page_lsn (page_of r s') = lsn" using page_rep_fields(1) v(3) by simp
  then show thesis using that g(1) by (simp add: tkey_def)
qed

text \<open>An insertion or deletion on page \<open>i\<close> of the table, whether or not it is already on the page.\<close>

definition changes_page :: "Table \<Rightarrow> nat \<Rightarrow> LogRecord \<Rightarrow> bool" where
  "changes_page t i r \<longleftrightarrow>
     (case lr_body r of
        InsertLog oid page_id slot_id off sz raw \<Rightarrow> oid = tb_oid t \<and> page_id = of_nat i
      | DeleteLog oid page_id slot_id \<Rightarrow> oid = tb_oid t \<and> page_id = of_nat i
      | _ \<Rightarrow> False)"

lemma changes_page_target:
  "changes_page t i r \<Longrightarrow>
   log_target r = Some \<lparr>tp_table_oid = tb_oid t, tp_page_id = of_nat i\<rparr> \<and> LogRecord_GetType r \<noteq> NEW_PAGE"
  by (cases "lr_body r") (simp_all add: changes_page_def log_target_def LogRecord_GetType_def)

text \<open>
  C13. \<^verbatim>\<open>Redo\<close> of a flushed record about an insertion or deletion on an existing page of a table does it exactly
  when it is due. When the page has been dirty since before the record and carries an older LSN, the row the record
  describes is added or marked, provided the page is as it was when the record was written: for an
  insertion its slot is the next one and there is room, for a deletion the slot exists. When the dirty page table
  has no entry for the page that is as old as the record, or the page
  already carries the LSN of the record or a younger one, the table stays as it is, whatever the
  record says and whether or not its row is already there.
\<close>

theorem redo_disk_when_due:
  assumes tp: "table_pages nx t rss s" and cat: "cat_knows cat t" and i: "i < length rss"
    and r: "changes_page t i r" and lsn: "carries_lsn t s i plsn" "lr_lsn r = lsn_now"
  shows "(due (le_log (pe_log s)) t i plsn lsn_now \<longrightarrow> (\<forall>rss'. replays t i r rss rss' \<longrightarrow>
      (\<exists>s'. redo_disk cat lsn_now r s = (Inr (), s') \<and> table_pages nx t rss' s' \<and> outside_kept t s s'))) \<and>
    (\<not> due (le_log (pe_log s)) t i plsn lsn_now \<longrightarrow>
      (\<exists>s'. redo_disk cat lsn_now r s = (Inr (), s') \<and> table_pages nx t rss s' \<and> outside_kept t s s'))"
proof -
  let ?k = "\<lparr>tp_table_oid = tb_oid t, tp_page_id = of_nat i\<rparr>" and ?dpt = "lm_dpt (le_log (pe_log s))"
  have tg: "log_target r = Some ?k" "LogRecord_GetType r \<noteq> NEW_PAGE" using changes_page_target [OF r] by simp_all
  obtain ref s1 where g: "GetPage (tb_db_oid t) (tb_oid t) (of_nat i) s = (Inr ref, s1)" "table_pages nx t rss s1" "outside_kept t s s1"
    using GetPage_table [OF tp i] by metis
  have pl: "page_lsn (page_of ref s1) = plsn" using GetPage_lsn [OF tp lsn(1)] g(1) by auto
  have page: "table_page cat (tb_oid t) (of_nat i) s = (Inr ref, s1)"
    using g(1) cat by (simp add: table_page_def ebind_def cat_knows_def)
  show ?thesis
  proof (cases "\<exists>rec_lsn. map_of ?dpt ?k = Some rec_lsn \<and> rec_lsn \<le> lsn_now")
    case False
    then have "redo_disk cat lsn_now r s = (Inr (), s)" "\<not> due (le_log (pe_log s)) t i plsn lsn_now"
      using tg lsn(2) by (auto simp: redo_disk_def ebind_def due_def split: option.split)
    then show ?thesis using tp by auto
  next
    case True
    then obtain rec_lsn where rl: "map_of ?dpt ?k = Some rec_lsn" "\<not> lr_lsn r < rec_lsn" using lsn(2) by auto
    have run: "redo_disk cat lsn_now r s = (if lsn_now \<le> plsn then eret () else LogRecord_Redo cat r) s1"
      using tg rl page pl by (simp add: redo_disk_def ebind_def)
    have d: "due (le_log (pe_log s)) t i plsn lsn_now \<longleftrightarrow> \<not> lsn_now \<le> plsn" using True by (auto simp: due_def)
    have "\<exists>s'. LogRecord_Redo cat r s1 = (Inr (), s') \<and> table_pages nx t rss' s' \<and> outside_kept t s s'"
      if "replays t i r rss rss'" for rss'
      using Redo_ok [OF g(2) cat i that] outside_kept_trans [OF g(3)] by metis
    then show ?thesis unfolding run d using g(2,3) by auto
  qed
qed

text \<open>A deletion that has reached the log but not the page.\<close>

lemma sample_logged_delete:
  obtains s and r :: LogRecord where "table_pages NULL_PAGE_ID (te_table sample_table) [[stamped 7 1 sample_row]] s"
    "carries_lsn (te_table sample_table) s 0 0" "due (le_log (pe_log s)) (te_table sample_table) 0 0 13"
    "lr_lsn r = 13" "lr_xid r = 7" "lr_body r = DeleteLog 10001 0 0"
proof -
  let ?t = "te_table sample_table" and ?rss = "[[stamped 7 1 sample_row]]"
  obtain p where p: "table_pages NULL_PAGE_ID ?t ?rss p" "log_kept (pe_log sample_flushed) (pe_log p)"
    using sample_one_row by (auto simp: table_rep_def)
  have i: "0 < length ?rss" by simp
  obtain r s1 where s1: "table_pages NULL_PAGE_ID ?t ?rss s1" "holds s1 (tkey ?t 0) r" "log_kept (pe_log p) (pe_log s1)"
    using GetPage_table [OF p(1) i] by metis
  obtain s2 v where s2: "table_pages NULL_PAGE_ID ?t ?rss s2" "pe_log s2 = pe_log s1" "page_at s2 (tkey ?t 0) v" "pv_lsn v = 0"
    using lsn_edit [OF s1(1) i s1(2), of 0] by metis
  let ?l = "le_log (pe_log s2)"
  have k: "log_kept (pe_log sample_flushed) (pe_log s2)" using log_kept_trans [OF p(2) s1(3)] s2(2) by simp
  have n: "lm_next_lsn ?l = 13" "lm_dpt ?l = []" using k sample_flushed_fields by (simp_all add: log_kept_def)
  obtain l' prev where l': "AppendDeleteLog 7 10001 0 0 ?l = (Inr (lm_next_lsn ?l), l')" "log_good ((pe_log s2)\<lparr>le_log := l'\<rparr>)"
    "lm_buffer l' = lm_buffer ?l @ [\<lparr>lr_lsn = lm_next_lsn ?l, lr_xid = 7, lr_prev_lsn = prev, lr_body = DeleteLog 10001 0 0\<rparr>]"
    using AppendDeleteLog_ready [OF table_pages_good [OF s2(1)], of 1 7 10001 0 0] log_kept_ready [OF k sample_flushed_ok(4)]
    by (metis Suc_1)
  have "map_of (lm_dpt l') \<lparr>tp_table_oid = 10001, tp_page_id = 0\<rparr> = Some 13"
    using l'(1) n by (auto simp: AppendDeleteLog_def fetch_lsn_def SetDirtyPage_def push_back_def set_att_def split: option.splits)
  moreover have t: "tb_oid ?t = 10001" by (simp add: sample_table_def Table_new_def)
  moreover have s3: "table_pages NULL_PAGE_ID ?t ?rss (s2\<lparr>pe_log := (pe_log s2)\<lparr>le_log := l'\<rparr>\<rparr>)"
    "pool_view (s2\<lparr>pe_log := (pe_log s2)\<lparr>le_log := l'\<rparr>\<rparr>) = pool_view s2"
    using table_pages_log [OF s2(1) l'(2)] by simp_all
  ultimately show thesis
    using that [OF s3(1), of "\<lparr>lr_lsn = 13, lr_xid = 7, lr_prev_lsn = prev, lr_body = DeleteLog 10001 0 0\<rparr>"] s2(3,4) l'(3) n
    by (auto simp: carries_lsn_def page_at_def due_def)
qed

text \<open>The deletion is due; an insertion record that the page already carries is not.\<close>

theorem redo_disk_when_due_witness:
  "\<exists>s s' s'' r r0. lr_body r = DeleteLog 10001 0 0 \<and> redo_disk sample_cat 13 r s = (Inr (), s') \<and>
     table_pages NULL_PAGE_ID (te_table sample_table) [[stamped 7 1 sample_row]] s \<and>
     table_pages NULL_PAGE_ID (te_table sample_table) [[SetXmax 7 (SetDeleted True (stamped 7 1 sample_row))]] s' \<and>
     lr_body r0 = InsertLog 10001 0 0 243 13 (record_bytes (stamped 7 1 sample_row)) \<and> redo_disk sample_cat 0 r0 s = (Inr (), s'') \<and>
     table_pages NULL_PAGE_ID (te_table sample_table) [[stamped 7 1 sample_row]] s''"
proof -
  let ?t = "te_table sample_table" and ?rss = "[[stamped 7 1 sample_row]]"
  obtain s and r :: LogRecord where s: "table_pages NULL_PAGE_ID ?t ?rss s" "carries_lsn ?t s 0 0" "due (le_log (pe_log s)) ?t 0 0 13"
    "lr_lsn r = 13" "lr_xid r = 7" "lr_body r = DeleteLog 10001 0 0"
    by (rule sample_logged_delete)
  let ?r0 = "\<lparr>lr_lsn = 0, lr_xid = 7, lr_prev_lsn = NULL_LSN,
      lr_body = InsertLog 10001 0 0 243 13 (record_bytes (stamped 7 1 sample_row))\<rparr>"
  have cat: "cat_knows sample_cat ?t" by (simp add: cat_knows_def sample_cat_def sample_table_def Table_new_def)
  have rp: "replays ?t 0 r ?rss (mark_deleted 0 (unat (0 :: slotid_t)) (lr_xid r) ?rss)"
    using s(6) by (intro replay_delete) (simp_all add: sample_table_def Table_new_def)
  have ch: "changes_page ?t 0 r" "changes_page ?t 0 ?r0"
    using s(6) by (simp_all add: changes_page_def sample_table_def Table_new_def)
  have i: "0 < length ?rss" by simp
  have "\<exists>s'. redo_disk sample_cat 13 r s = (Inr (), s') \<and> table_pages NULL_PAGE_ID ?t (mark_deleted 0 0 7 ?rss) s'"
    using redo_disk_when_due [OF s(1) cat i ch(1) s(2,4)] s(3,5) rp by auto
  moreover have "\<exists>s''. redo_disk sample_cat 0 ?r0 s = (Inr (), s'') \<and> table_pages NULL_PAGE_ID ?t ?rss s''"
    using redo_disk_when_due [OF s(1) cat i ch(2) s(2), of 0] by (auto simp: due_def)
  moreover have "mark_deleted 0 0 7 ?rss = [[SetXmax 7 (SetDeleted True (stamped 7 1 sample_row))]]" by (simp add: mark_deleted_def)
  moreover have "lr_body ?r0 = InsertLog 10001 0 0 243 13 (record_bytes (stamped 7 1 sample_row))" by simp
  ultimately show ?thesis using s(1,6) by metis
qed

section \<open>Analysis rebuilds the tables\<close>

text \<open>What the tables say after the records \<open>xs\<close>, whatever order the loop handles them in.\<close>

definition att_after :: "LogRecord list \<Rightarrow> (xid_t \<rightharpoonup> lsn_t) \<Rightarrow> (xid_t \<rightharpoonup> lsn_t)" where
  "att_after xs m xid =
     (let ys = filter (\<lambda>r. lr_xid r = xid) xs
      in if ys = [] then m xid else if ends_transaction (last ys) then None else Some (lr_lsn (last ys)))"

definition dpt_after :: "LogRecord list \<Rightarrow> (TablePageid \<rightharpoonup> lsn_t) \<Rightarrow> (TablePageid \<rightharpoonup> lsn_t)" where
  "dpt_after xs m k = (case m k of Some lsn \<Rightarrow> Some lsn | None \<Rightarrow> map_option lr_lsn (find (\<lambda>r. log_target r = Some k) xs))"

lemma fold_att: "map_of (fold analyze_att xs att) = att_after xs (map_of att)"
proof (induction xs arbitrary: att)
  case Nil
  show ?case by (simp add: att_after_def fun_eq_iff)
next
  case (Cons r xs)
  have "map_of (analyze_att r att) = (map_of att)(lr_xid r := (if ends_transaction r then None else Some (lr_lsn r)))"
    by (simp add: analyze_att_def delete_conv' update_conv')
  then show ?case by (auto simp: Cons.IH att_after_def fun_eq_iff Let_def)
qed

lemma fold_dpt: "map_of (fold analyze_dpt xs dpt) = dpt_after xs (map_of dpt)"
proof (induction xs arbitrary: dpt)
  case Nil
  show ?case by (simp add: dpt_after_def fun_eq_iff split: option.split)
next
  case (Cons r xs)
  have "map_of (analyze_dpt r dpt) = (case log_target r of None \<Rightarrow> map_of dpt
      | Some k \<Rightarrow> if map_of dpt k = None then (map_of dpt)(k \<mapsto> lr_lsn r) else map_of dpt)"
    by (simp add: analyze_dpt_def update_conv' split: option.split)
  then show ?case by (auto simp: Cons.IH dpt_after_def fun_eq_iff split: option.split)
qed

text \<open>The records \<open>H\<close> are in the log file, with room for a read of the longest record behind them.\<close>

definition log_file :: "nat \<Rightarrow> LogRecord list \<Rightarrow> Disk \<Rightarrow> bool" where
  "log_file base H d \<longleftrightarrow> contiguous base H \<and> log_ok d \<and> log_end base H \<le> MAX_LOG_END \<and>
     log_end base H + MAX_LOG_SIZE \<le> length (dk_log d) \<and>
     (\<forall>r \<in> set H. rec_wf r \<and> slice (unat (lr_lsn r)) (length (log_bytes r)) (dk_log d) = log_bytes r)"

lemma word_of_unat: "unat (w :: 'a::len word) = n \<Longrightarrow> w = of_nat n"
  by auto

lemma log_file_at:
  assumes "log_file base (pre @ r # xs) d"
  shows "lr_lsn r = of_nat (log_end base pre)" "unat (lr_lsn r) = log_end base pre"
    "lr_lsn r + LogRecord_GetSize r = of_nat (log_end base (pre @ [r]))"
proof -
  have wf: "body_wf (lr_body r)" "unat (lr_lsn r) = log_end base pre" using assms by (simp_all add: log_file_def rec_wf_def)
  then show l: "lr_lsn r = of_nat (log_end base pre)" "unat (lr_lsn r) = log_end base pre" by (auto intro: word_of_unat)
  have "LogRecord_GetSize r = of_nat (length (log_bytes r))"
    using LogRecord_GetSize_eq [OF wf(1)] by (rule word_of_unat)
  then show "lr_lsn r + LogRecord_GetSize r = of_nat (log_end base (pre @ [r]))" using l(1) by simp
qed

lemma analyze_loop_ok:
  assumes lf: "log_file base H (pe_disk s)" and nx: "lm_next_lsn (le_log (pe_log s)) = of_nat (log_end base H)"
  shows "H = pre @ xs \<Longrightarrow> \<forall>r \<in> set xs. length (log_bytes r) \<le> MAX_LOG_SIZE \<Longrightarrow> length xs < fuel \<Longrightarrow>
     analyze_loop fuel (of_nat (log_end base pre)) att dpt m s =
       (Inr (fold analyze_att xs att, fold analyze_dpt xs dpt, fold max (map lr_xid xs) m), s)"
proof (induction xs arbitrary: pre att dpt m fuel)
  case Nil
  then show ?case using nx by (cases fuel) (simp_all add: ebind_def)
next
  case (Cons r xs)
  obtain n where n: "fuel = Suc n" "length xs < n" using Cons.prems(3) by (cases fuel) simp_all
  note at = log_file_at [OF lf [unfolded Cons.prems(1)]]
  have r: "r \<in> set H" using Cons.prems(1) by simp
  have e: "log_end base pre + length (log_bytes r) \<le> log_end base H" "log_end base H \<le> MAX_LOG_END"
    using lf contiguous_lsn [of base H r] r at(2) by (simp_all add: log_file_def)
  then have "unat (lm_next_lsn (le_log (pe_log s))) = log_end base H"
    unfolding nx by (intro unat_of_nat_small) (simp add: MAX_LOG_END_def)
  then have "lr_lsn r < lm_next_lsn (le_log (pe_log s))"
    using e(1) at(2) log_bytes_nonempty [of r] by (simp add: word_less_nat_alt)
  moreover have "read_log (lr_lsn r) s = (Inr r, s)"
  proof (rule read_log_at)
    show "slice (unat (lr_lsn r)) (length (log_bytes r)) (dk_log (pe_disk s)) = log_bytes r" "rec_wf r" "log_ok (pe_disk s)"
      using lf r by (simp_all add: log_file_def)
  qed (use lf e at(2) Cons.prems(2) in \<open>simp_all add: log_file_def\<close>)
  moreover have "(if lr_xid r > m then lr_xid r else m) = max (lr_xid r) m" by (auto simp: max_def)
  ultimately show ?case
    using Cons.IH [of "pre @ [r]" n] Cons.prems(1,2) n at(3) unfolding at(1) [symmetric] by (simp add: ebind_def)
qed

text \<open>The bytes of the log file from a record to the end of the log.\<close>

lemma ReadLog_rest:
  assumes lf: "log_file base (pre @ r # xs) d" and nx: "next_lsn = of_nat (log_end base (pre @ r # xs))"
  obtains rest where "ReadLog (ucast (lr_lsn r)) (ucast (next_lsn - lr_lsn r)) d = (Inr (log_bytes r @ rest), d)"
proof -
  let ?H = "pre @ r # xs" and ?o = "log_end base pre" and ?e = "log_end base (pre @ r # xs)"
  note at = log_file_at(1,2) [OF lf]
  have b: "?e \<le> MAX_LOG_END" "?o + length (log_bytes r) \<le> ?e" "?e + MAX_LOG_SIZE \<le> length (dk_log d)" "\<not> dk_log_fail d"
    "slice ?o (length (log_bytes r)) (dk_log d) = log_bytes r"
    using lf log_end_ge [of "?o + length (log_bytes r)" xs] at(2) by (auto simp: log_file_def log_ok_def)
  have u: "unat (of_nat ?e :: lsn_t) = ?e" "unat (of_nat ?o :: lsn_t) = ?o"
    by (rule unat_of_nat_small, use b in \<open>simp add: MAX_LOG_END_def\<close>)+
  have "unat (next_lsn - lr_lsn r) = ?e - ?o"
    unfolding nx at(1) using b(2) u by (subst unat_sub_small) simp_all
  then have u32: "unat (ucast (next_lsn - lr_lsn r) :: 32 word) = ?e - ?o" "unat (ucast (lr_lsn r) :: 32 word) = ?o"
    using b(1,2) at(2) by (simp_all add: unsigned_ucast_eq take_bit_nat_eq_self MAX_LOG_END_def)
  have "ReadLog (ucast (lr_lsn r)) (ucast (next_lsn - lr_lsn r)) d = (Inr (slice ?o (?e - ?o) (dk_log d)), d)"
    using ReadLog_ok [OF b(4), of "ucast (lr_lsn r)" "ucast (next_lsn - lr_lsn r)"] b(2,3) u32 by simp
  moreover have "slice ?o (?e - ?o) (dk_log d) = log_bytes r @ slice (?o + length (log_bytes r)) (?e - ?o - length (log_bytes r)) (dk_log d)"
    using slice_prefix [of "length (log_bytes r)" "?e - ?o" ?o "dk_log d"] b(2,3,5) by simp
  ultimately show thesis using that by simp
qed

lemma BeginLog_anything: "13 \<le> length bs \<Longrightarrow> \<exists>x. BeginLog_DeserializeFrom lsn bs = Inr x \<and> LogRecord_GetSize x = 13"
  by (simp add: BeginLog_DeserializeFrom_def Plain_DeserializeFrom_def read_int_def LogRecord_GetSize_def rbind_def)

lemma EndCheckpointLog_at:
  assumes "lr_body r = EndCheckpointLog att dpt" "rec_wf r"
  shows "EndCheckpointLog_DeserializeFrom (lr_lsn r) (drop 1 (log_bytes r @ rest)) = Inr r"
  using EndCheckpointLog_read [OF assms(1), of "lr_lsn r" rest] assms(2) by (simp add: log_bytes_payload rec_wf_def)

lemma Analyze_ok:
  assumes lf: "log_file base (pre @ bc # ec # xs) (pe_disk (re_pool s))"
    and bc: "length (log_bytes bc) = 13" and ec: "lr_body ec = EndCheckpointLog att dpt"
    and nx: "next_lsn_file (pe_disk (re_pool s)) = of_nat (log_end base (pre @ bc # ec # xs))"
    and mr: "file_number MASTER_RECORD_NAME 0 (pe_disk (re_pool s)) = lr_lsn bc"
    and sz: "\<forall>r \<in> set xs. length (log_bytes r) \<le> MAX_LOG_SIZE"
  defines "n \<equiv> of_nat (log_end base (pre @ bc # ec # xs))" and "m \<equiv> fold max (map lr_xid xs) 0"
  shows "LogManager_Analyze s = (Inr (), s
     \<lparr>re_pool := (re_pool s)\<lparr>pe_log := (pe_log (re_pool s))\<lparr>le_log := (le_log (pe_log (re_pool s)))
        \<lparr>lm_next_lsn := n, lm_flushed_lsn := n - 1, lm_att := fold analyze_att xs att, lm_dpt := fold analyze_dpt xs dpt\<rparr>\<rparr>\<rparr>,
      re_tx := snd (SetNextXid (m + 1) (re_tx s))\<rparr>)"
proof -
  let ?H = "pre @ bc # ec # xs" and ?d = "pe_disk (re_pool s)"
  let ?p1 = "(re_pool s)\<lparr>pe_log := (pe_log (re_pool s))\<lparr>le_log := (le_log (pe_log (re_pool s)))\<lparr>lm_next_lsn := n, lm_flushed_lsn := n - 1\<rparr>\<rparr>\<rparr>"
  have num: "file_number NEXT_LSN_NAME FIRST_LSN ?d = n" using nx unfolding file_number_def next_lsn_file_def n_def by argo
  obtain r1 where r1: "ReadLog (ucast (lr_lsn bc)) (ucast (n - lr_lsn bc)) ?d = (Inr (log_bytes bc @ r1), ?d)"
    by (rule ReadLog_rest [OF lf]) (auto simp: n_def)
  have lf': "log_file base ((pre @ [bc]) @ ec # xs) ?d" using lf by simp
  obtain r2 where r2: "ReadLog (ucast (lr_lsn ec)) (ucast (n - lr_lsn ec)) ?d = (Inr (log_bytes ec @ r2), ?d)"
    by (rule ReadLog_rest [OF lf']) (auto simp: n_def)
  have wf: "rec_wf bc" "rec_wf ec" using lf by (auto simp: log_file_def)
  obtain x where x: "BeginLog_DeserializeFrom (lr_lsn bc) (log_bytes bc @ r1) = Inr x" "LogRecord_GetSize x = 13"
    using BeginLog_anything [of "log_bytes bc @ r1"] bc by auto
  have "lr_lsn bc + LogRecord_GetSize bc = of_nat (log_end base (pre @ [bc]))" by (rule log_file_at(3) [OF lf])
  moreover have "LogRecord_GetSize bc = 13"
    using LogRecord_GetSize_eq [of bc] bc wf(1) word_of_unat [of "LogRecord_GetSize bc" 13] by (simp add: rec_wf_def)
  ultimately have e: "lr_lsn bc + 13 = lr_lsn ec" using log_file_at(1) [OF lf'] by simp
  have end_rec: "EndCheckpointLog_DeserializeFrom (lr_lsn ec) (drop 1 (log_bytes ec @ r2)) = Inr ec"
    by (rule EndCheckpointLog_at [OF ec wf(2)])
  have "13 * length ?H \<le> MAX_LOG_END" using hist_length [of ?H base] lf by (simp add: log_file_def)
  then have fuel: "length xs < LOG_FUEL" by (simp add: LOG_FUEL_def MAX_LOG_END_def)
  have "analyze_loop LOG_FUEL (of_nat (log_end base (pre @ [bc, ec]))) att dpt 0 ?p1 =
      (Inr (fold analyze_att xs att, fold analyze_dpt xs dpt, m), ?p1)"
    using analyze_loop_ok [where s = ?p1 and base = base and pre = "pre @ [bc, ec]" and xs = xs] lf sz fuel by (simp add: n_def m_def)
  moreover have "lr_lsn ec + LogRecord_GetSize ec = of_nat (log_end base (pre @ [bc, ec]))" using log_file_at(3) [OF lf'] by simp
  ultimately have loop: "analyze_loop LOG_FUEL (lr_lsn ec + LogRecord_GetSize ec) att dpt 0 ?p1 =
      (Inr (fold analyze_att xs att, fold analyze_dpt xs dpt, m), ?p1)" by simp
  show ?thesis
    using num mr r1 r2 x e ec end_rec loop
    by (simp add: LogManager_Analyze_def ebind_def on_re_pool_def on_re_tx_def ezoom_def Let_def on_lm_apply
        in_disk_def in_log_def on_disk_def SetNextXid_def tm_update_def)
qed

lemma fold_max_ge: "(m :: 'a::linorder) \<le> fold max xs m \<and> (\<forall>x \<in> set xs. x \<le> fold max xs m)"
proof (induction xs arbitrary: m)
  case (Cons y ys)
  have "max y m \<le> fold max ys (max y m)" "\<forall>x \<in> set ys. x \<le> fold max ys (max y m)" using Cons.IH by blast+
  then show ?case by simp
qed simp

text \<open>
  C14. \<^verbatim>\<open>Analyze\<close> after a checkpoint rebuilds the state of the log manager from the log file: the active
  transactions are those of the checkpoint and of the later records without the ones whose last
  record is a commit or rollback, each with the LSN of its last record; the dirty page table has for
  every page its entry in the checkpoint or else the first later record about it; the LSN counter is
  the end of the log, and the next transaction id is beyond every id in the records read.
\<close>

theorem Analyze_rebuilds:
  assumes "log_file base (pre @ bc # ec # xs) (pe_disk (re_pool s))"
    and "length (log_bytes bc) = 13" "lr_body ec = EndCheckpointLog att dpt"
    and "next_lsn_file (pe_disk (re_pool s)) = of_nat (log_end base (pre @ bc # ec # xs))"
    and "file_number MASTER_RECORD_NAME 0 (pe_disk (re_pool s)) = lr_lsn bc"
    and "\<forall>r \<in> set xs. length (log_bytes r) \<le> MAX_LOG_SIZE" "\<forall>r \<in> set xs. lr_xid r \<noteq> NULL_XID"
  shows "\<exists>s'. LogManager_Analyze s = (Inr (), s')
     \<and> map_of (lm_att (le_log (pe_log (re_pool s')))) = att_after xs (map_of att)
     \<and> map_of (lm_dpt (le_log (pe_log (re_pool s')))) = dpt_after xs (map_of dpt)
     \<and> lm_next_lsn (le_log (pe_log (re_pool s'))) = of_nat (log_end base (pre @ bc # ec # xs))
     \<and> (\<forall>r \<in> set xs. lr_xid r < tm_next_xid (te_tm (re_tx s')))"
proof -
  let ?m = "fold max (map lr_xid xs) 0"
  have "?m \<in> insert 0 (set (map lr_xid xs))"
    by (induction xs rule: rev_induct) (auto simp: max_def)
  then have "?m \<noteq> NULL_XID" using assms(7) by auto
  then have "1 + ?m \<noteq> 0" by (simp add: add_eq_0_iff)
  then have "?m < ?m + 1" using unatSuc [of ?m] by (simp add: word_less_nat_alt add.commute)
  then have "lr_xid r < ?m + 1" if "r \<in> set xs" for r
    using fold_max_ge [of 0 "map lr_xid xs"] that by force
  moreover have "?m + 1 \<le> tm_next_xid (te_tm (snd (SetNextXid (?m + 1) (re_tx s))))"
    by (auto simp: SetNextXid_def tm_update_def)
  ultimately show ?thesis
    using Analyze_ok [OF assms(1-6)] fold_att [of xs att] fold_dpt [of xs dpt] by (auto intro: less_le_trans)
qed

definition sample_crash :: "LogRecord list" where
  "sample_crash = [\<lparr>lr_lsn = 0, lr_xid = 7, lr_prev_lsn = NULL_LSN, lr_body = BeginLog\<rparr>,
     \<lparr>lr_lsn = 13, lr_xid = NULL_XID, lr_prev_lsn = NULL_LSN, lr_body = BeginCheckpointLog\<rparr>,
     \<lparr>lr_lsn = 26, lr_xid = NULL_XID, lr_prev_lsn = NULL_LSN, lr_body = EndCheckpointLog [(7, 0)] []\<rparr>,
     \<lparr>lr_lsn = 67, lr_xid = 8, lr_prev_lsn = NULL_LSN, lr_body = BeginLog\<rparr>,
     \<lparr>lr_lsn = 80, lr_xid = 8, lr_prev_lsn = 67, lr_body = DeleteLog 10001 0 0\<rparr>,
     \<lparr>lr_lsn = 103, lr_xid = 7, lr_prev_lsn = 0, lr_body = CommitLog\<rparr>]"

definition sample_crash_disk :: Disk where
  "sample_crash_disk = write_number MASTER_RECORD_NAME 13 (write_number NEXT_LSN_NAME 116
     (sample_disk\<lparr>dk_log := concat (map log_bytes sample_crash) @ replicate (LOG_SEGMENT_SIZE - 116) 0\<rparr>))"

definition sample_restart :: RecoveryEnv where
  "sample_restart = \<lparr>re_pool = sample_pool\<lparr>pe_log := \<lparr>le_disk = sample_crash_disk, le_log = LogManager_new 0\<rparr>\<rparr>,
     re_tx = TransactionManager_new LockManager_new 0\<rparr>"

lemma sample_crash_lengths: "map (\<lambda>r. length (log_bytes r)) sample_crash = [13, 13, 41, 13, 23, 13]"
  by (simp add: sample_crash_def log_bytes_def DeleteLog_bytes_def EndCheckpointLog_bytes_def att_entry_bytes_def)

lemma slice_concat_log:
  assumes "contiguous 0 xs" "r \<in> set xs"
  shows "slice (unat (lr_lsn r)) (length (log_bytes r)) (concat (map log_bytes xs) @ rest) = log_bytes r"
proof -
  obtain ys zs where xs: "xs = ys @ r # zs" using assms(2) by (auto simp: in_set_conv_decomp)
  have "log_end 0 ys = length (concat (map log_bytes ys))" by (simp add: log_end_def length_concat total_len_def comp_def)
  then have "unat (lr_lsn r) = length (concat (map log_bytes ys))" using assms(1) xs by simp
  then show ?thesis by (simp add: xs slice_def)
qed

lemma sample_crash_file: "log_file 0 sample_crash sample_crash_disk" "log_end 0 sample_crash = 116"
  "next_lsn_file sample_crash_disk = 116" "file_number MASTER_RECORD_NAME 0 sample_crash_disk = 13"
proof -
  have l: "length (log_bytes (sample_crash ! 0)) = 13" "length (log_bytes (sample_crash ! 1)) = 13"
    "length (log_bytes (sample_crash ! 2)) = 41" "length (log_bytes (sample_crash ! 3)) = 13"
    "length (log_bytes (sample_crash ! 4)) = 23" "length (log_bytes (sample_crash ! 5)) = 13"
    using sample_crash_lengths by (simp_all add: sample_crash_def)
  then have c: "contiguous 0 sample_crash" "log_end 0 sample_crash = 116" by (simp_all add: sample_crash_def)
  have w: "rec_wf r" if "r \<in> set sample_crash" for r
    using that l by (auto simp: sample_crash_def rec_wf_def body_wf_def)
  let ?d0 = "sample_disk\<lparr>dk_log := concat (map log_bytes sample_crash) @ replicate (LOG_SEGMENT_SIZE - 116) 0\<rparr>"
  have len: "length (concat (map log_bytes sample_crash)) = 116"
    using c(2) by (simp add: log_end_def length_concat total_len_def comp_def)
  show "log_end 0 sample_crash = 116" by (rule c(2))
  show "log_file 0 sample_crash sample_crash_disk"
    using c w len slice_concat_log [OF c(1)] sample_disk_ok(3)
    by (simp add: log_file_def sample_crash_disk_def MAX_LOG_END_def log_ok_def sample_disk_def)
  have nd: "\<not> DirectoryExists NEXT_LSN_NAME ?d0" "names_ok ?d0" "\<not> DirectoryExists MASTER_RECORD_NAME ?d0"
    using sample_disk_ok(1) by (simp_all add: sample_disk_def DirectoryExists_def disk_ok_def names_ok_def NEXT_LSN_NAME_def MASTER_RECORD_NAME_def)
  have "disk_ok ?d0" using sample_disk_ok(1) by (simp add: disk_ok_def names_ok_def stream_ok_def)
  then have "names_ok (write_number NEXT_LSN_NAME 116 ?d0)"
    using write_number_frame(1) [of ?d0 NEXT_LSN_NAME 116] by (simp add: disk_ok_def)
  then show "next_lsn_file sample_crash_disk = 116"
    unfolding sample_crash_disk_def using next_lsn_file_write [OF nd(1)] by (simp only: next_lsn_file_master)
  have "\<not> DirectoryExists MASTER_RECORD_NAME (write_number NEXT_LSN_NAME 116 ?d0)"
    using nd(3) by (simp add: DirectoryExists_def write_number_def ofstream_write_def split: option.split)
  then show "file_number MASTER_RECORD_NAME 0 sample_crash_disk = 13"
    unfolding sample_crash_disk_def file_number_def by (simp add: read_number_write)
      (auto simp: write_number_def ofstream_write_def FileExists_def split: option.splits)
qed

text \<open>Of the sample log, transaction 8 is still active at the crash and page 0 has to be redone from LSN 80.\<close>

theorem Analyze_rebuilds_witness:
  "\<exists>s'. LogManager_Analyze sample_restart = (Inr (), s') \<and> map_of (lm_att (le_log (pe_log (re_pool s')))) 8 = Some 80
     \<and> map_of (lm_att (le_log (pe_log (re_pool s')))) 7 = None
     \<and> map_of (lm_dpt (le_log (pe_log (re_pool s')))) \<lparr>tp_table_oid = 10001, tp_page_id = 0\<rparr> = Some 80"
proof -
  let ?bc = "sample_crash ! 1" and ?ec = "sample_crash ! 2" and ?xs = "drop 3 sample_crash"
  have H: "sample_crash = [sample_crash ! 0] @ ?bc # ?ec # ?xs" by (simp add: sample_crash_def)
  have d: "pe_disk (re_pool sample_restart) = sample_crash_disk" by (simp add: sample_restart_def)
  have xs: "\<forall>r \<in> set ?xs. length (log_bytes r) \<le> MAX_LOG_SIZE" "\<forall>r \<in> set ?xs. lr_xid r \<noteq> NULL_XID" "length (log_bytes ?bc) = 13"
    using sample_crash_lengths by (auto simp: sample_crash_def)
  have ec: "lr_body ?ec = EndCheckpointLog [(7, 0)] []" by (simp add: sample_crash_def)
  have lf: "log_file 0 ([sample_crash ! 0] @ ?bc # ?ec # ?xs) (pe_disk (re_pool sample_restart))"
    unfolding H [symmetric] d by (rule sample_crash_file(1))
  have nx: "next_lsn_file (pe_disk (re_pool sample_restart)) = of_nat (log_end 0 ([sample_crash ! 0] @ ?bc # ?ec # ?xs))"
    unfolding H [symmetric] d sample_crash_file(2,3) by simp
  have mr: "file_number MASTER_RECORD_NAME 0 (pe_disk (re_pool sample_restart)) = lr_lsn ?bc"
    unfolding d sample_crash_file(4) by (simp add: sample_crash_def)
  have a: "att_after ?xs (map_of [(7, 0)]) 8 = Some 80" "att_after ?xs (map_of [(7, 0)]) 7 = None"
    "dpt_after ?xs (map_of []) \<lparr>tp_table_oid = 10001, tp_page_id = 0\<rparr> = Some 80"
    by (simp_all add: att_after_def dpt_after_def sample_crash_def ends_transaction_def log_target_def)
  show ?thesis
    using Analyze_rebuilds [OF lf xs(3) ec nx mr xs(1,2)] a by auto
qed

section \<open>A log that was never flushed\<close>

text \<open>A blank stretch of the log file reads as the beginning of transaction 0, preceded by the record at 0.\<close>

definition blank_record :: "lsn_t \<Rightarrow> LogRecord" where
  "blank_record lsn = \<lparr>lr_lsn = lsn, lr_xid = 0, lr_prev_lsn = 0, lr_body = BeginLog\<rparr>"

definition blank_at :: "lsn_t \<Rightarrow> Disk \<Rightarrow> bool" where
  "blank_at lsn d \<longleftrightarrow> unat lsn \<le> MAX_LOG_END \<and> unat lsn + MAX_LOG_SIZE \<le> length (dk_log d) \<and>
     slice (unat lsn) 13 (dk_log d) = replicate 13 0"

lemma blank_record_read:
  assumes "log_ok (pe_disk s)" "blank_at lsn (pe_disk s)"
  shows "read_log lsn s = (Inr (blank_record lsn), s)"
proof -
  have "log_bytes (blank_record lsn) = replicate 13 0"
    by (simp add: blank_record_def log_bytes_def LogRecord_base_bytes_def LogRecord_GetType_def numeral_eq_Suc)
  moreover have "rec_wf (blank_record lsn)" by (rule fixed_rec_wf(1)) (simp add: blank_record_def)
  ultimately show ?thesis
    using read_log_at [OF assms(1), of "blank_record lsn"] assms(2) by (simp add: blank_record_def blank_at_def)
qed

lemma rollback_blank_step:
  assumes "log_ok (pe_disk s)" "blank_at lsn (pe_disk s)" "lm_flushed_lsn (le_log (pe_log s)) = NULL_LSN" "lsn \<noteq> NULL_LSN"
  shows "rollback_loop cat (Suc fuel) lsn s = rollback_loop cat fuel 0 s"
  using blank_record_read [OF assms(1,2)] assms(3,4) by (simp add: ebind_def LogRecord_Undo_def blank_record_def)

lemma rollback_blank:
  assumes "log_ok (pe_disk s)" "blank_at 0 (pe_disk s)" "lm_flushed_lsn (le_log (pe_log s)) = NULL_LSN"
  shows "rollback_loop cat fuel 0 s = (Inl Diverges, s)"
proof (induction fuel)
  case 0
  show ?case by (simp add: ethrow_def)
next
  case (Suc fuel)
  then show ?case using rollback_blank_step [OF assms, of cat fuel] by simp
qed

text \<open>
  C27. A transaction that is rolled back while the log manager of a new database has not flushed anything
  is not undone from the log buffer, however many records it has there: the flushed LSN of an empty log is the largest 64-bit number,
  so \<^verbatim>\<open>Rollback\<close> takes every record for flushed, reads the log file, still blank at the last LSN of the transaction and at 0,
  and follows the previous LSN
  0 of what it finds there to LSN 0 and from there to the same place again; however long it runs, it does not return,
  and nothing is undone.
\<close>

theorem Rollback_unflushed_diverges:
  assumes "map_of (lm_att (le_log (pe_log s))) xid = Some lsn" "lsn \<noteq> NULL_LSN"
    and "lm_flushed_lsn (le_log (pe_log s)) = FIRST_LSN - 1"
    and "log_ok (pe_disk s)" "blank_at 0 (pe_disk s)" "blank_at lsn (pe_disk s)"
  shows "LogManager_Rollback cat xid s = (Inl Diverges, s) \<and> (\<forall>fuel. rollback_loop cat fuel lsn s = (Inl Diverges, s))"
proof -
  have f: "lm_flushed_lsn (le_log (pe_log s)) = NULL_LSN" using assms(3) by simp
  have "rollback_loop cat fuel lsn s = (Inl Diverges, s)" for fuel
  proof (cases fuel)
    case 0
    then show ?thesis by (simp add: ethrow_def)
  next
    case (Suc n)
    show ?thesis unfolding Suc rollback_blank_step [OF assms(4,6) f assms(2)] by (rule rollback_blank [OF assms(4,5) f])
  qed
  then show ?thesis
    using assms(1) by (simp add: LogManager_Rollback_def ebind_def on_lm_apply [of _ s])
qed

text \<open>Transaction 7 of the sample has also deleted a row; its two records are in the log buffer.\<close>

theorem Rollback_unflushed_diverges_witness:
  "\<exists>l s. AppendBeginLog 7 (LogManager_new FIRST_LSN) = (Inr 0, l) \<and> AppendDeleteLog 7 10001 0 0 l = (Inr 13, le_log (pe_log s)) \<and>
     lm_buffer (le_log (pe_log s)) = [sample_begin, \<lparr>lr_lsn = 13, lr_xid = 7, lr_prev_lsn = 0, lr_body = DeleteLog 10001 0 0\<rparr>] \<and>
     LogManager_Rollback sample_cat 7 s = (Inl Diverges, s)"
proof -
  let ?s0 = "te_pool sample_table" and ?l = "snd (AppendBeginLog 7 (LogManager_new FIRST_LSN))"
  let ?l' = "snd (AppendDeleteLog 7 10001 0 0 ?l)"
  let ?s = "?s0\<lparr>pe_log := (pe_log ?s0)\<lparr>le_log := ?l'\<rparr>\<rparr>"
  have l: "AppendBeginLog 7 (LogManager_new FIRST_LSN) = (Inr 0, ?l)"
    by (simp add: LogManager_new_def AppendBeginLog_def fetch_lsn_def push_back_def set_att_def)
  have l': "AppendDeleteLog 7 10001 0 0 ?l = (Inr 13, ?l')"
    "lm_buffer ?l' = [sample_begin, \<lparr>lr_lsn = 13, lr_xid = 7, lr_prev_lsn = 0, lr_body = DeleteLog 10001 0 0\<rparr>]"
    "map_of (lm_att ?l') 7 = Some 13" "lm_flushed_lsn ?l' = FIRST_LSN - 1"
    by (simp_all add: LogManager_new_def AppendBeginLog_def AppendDeleteLog_def SetDirtyPage_def fetch_lsn_def push_back_def
        set_att_def LogRecord_GetSize_def sample_begin_def)
  have ok: "log_ok (pe_disk ?s)" using sample_log_start(1) by (simp add: log_rep_def log_core_def)
  have z: "blank_at 0 (pe_disk ?s)" "blank_at 13 (pe_disk ?s)"
    using sample_log_start(4)
    by (simp_all add: blank_at_def MAX_LOG_END_def sample_table_def sample_pool_def sample_disk_def file_resize_def slice_def take_replicate)
  have "LogManager_Rollback sample_cat 7 ?s = (Inl Diverges, ?s)"
    using Rollback_unflushed_diverges [OF _ _ _ ok z(1) z(2), of 7 sample_cat] l'(3,4) by simp
  then show ?thesis using l l'(1,2) by (intro exI [of _ ?l] exI [of _ ?s]) simp
qed

end
