(* ===== verification/Expressions.thy ===== *)
theory Expressions
  imports Records
begin

text \<open>
  \<^verbatim>\<open>src/src/operators/expressions\<close>: the expressions the executors evaluate, on one record
  (\<^verbatim>\<open>Evaluate\<close>) and on the two records of a join (\<^verbatim>\<open>EvaluateJoin\<close>). Double arithmetic and the
  regular expression engine behind \<^verbatim>\<open>LIKE\<close> (\<^verbatim>\<open>std::wregex\<close> on the UTF-8 decoded strings, which may
  throw) are parameters.
\<close>

section \<open>Expressions\<close>

datatype ArithmeticType = ADD | SUB | MUL | DIV

datatype ComparisonType =
  EQUAL | NOT_EQUAL | LESS | LESS_EQUAL | GREATER | GREATER_EQUAL
  | BETWEEN | NOT_BETWEEN | IN | NOT_IN | LIKE | NOT_LIKE

datatype LogicType = LogicAnd | LogicOr | LogicNot

datatype Expr =
    Arithmetic ArithmeticType Expr Expr
  | ColumnValue nat vtype string nat bool
  | Comparison ComparisonType Expr Expr
  | Const Val
  | FuncCall string "Expr list"
  | ListExpr "Expr list"
  | Logic LogicType "Expr list"
  | NullTest bool Expr
  | TypeCast vtype Expr

record eval_env =
  ev_fp :: fp_ops
  ev_regex_match :: "string \<Rightarrow> string \<Rightarrow> bool result"

definition FuncCall_GetReturnType :: "string \<Rightarrow> vtype result" where
  "FuncCall_GetReturnType f =
     (if f = ''lower'' then Inr TVARCHAR
      else if f = ''upper'' then Inr TVARCHAR
      else if f = ''length'' then Inr TINT
      else Inl (RuntimeError (''Unknown function name '' @ f)))"

text \<open>\<^verbatim>\<open>value_type_\<close>, as the constructors set it.\<close>

fun GetValueType :: "Expr \<Rightarrow> vtype" where
  "GetValueType (Arithmetic _ _ _) = TINT"
| "GetValueType (ColumnValue _ t _ _ _) = t"
| "GetValueType (Comparison _ _ _) = TBOOL"
| "GetValueType (Const v) = v_type v"
| "GetValueType (FuncCall f _) = (case FuncCall_GetReturnType f of Inr t \<Rightarrow> t | Inl _ \<Rightarrow> TNULL)"
| "GetValueType (ListExpr _) = TLIST"
| "GetValueType (Logic _ _) = TBOOL"
| "GetValueType (NullTest _ _) = TBOOL"
| "GetValueType (TypeCast t _) = t"

definition FuncCall_new :: "string \<Rightarrow> Expr list \<Rightarrow> Expr result" where
  "FuncCall_new f args =
     rbind (FuncCall_GetReturnType f) (\<lambda>_.
       if f = ''lower'' \<or> f = ''upper'' \<or> f = ''length'' then
         (if length args \<noteq> 1 \<or> \<not> IsString (GetValueType (hd args))
          then Inl (DbException (''Argument mismatch for function '' @ f))
          else Inr (FuncCall f args))
       else Inl (RuntimeError (''Unknown function name '' @ f)))"

definition Logic_new :: "LogicType \<Rightarrow> Expr \<Rightarrow> Expr result" where
  "Logic_new lt arg =
     rbind (rassert (lt = LogicNot) (AssertFail ''logic_type == LogicType::NOT'')) (\<lambda>_. Inr (Logic lt [arg]))"

section \<open>Operations on values\<close>

definition int_quot :: "int \<Rightarrow> int \<Rightarrow> int" where
  "int_quot a b = sgn a * sgn b * (\<bar>a\<bar> div \<bar>b\<bar>)"

definition DoOperation_int :: "ArithmeticType \<Rightarrow> 32 word \<Rightarrow> 32 word \<Rightarrow> 32 word result" where
  "DoOperation_int op l r =
     (case op of
        ADD \<Rightarrow> int32_checked (sint l + sint r)
      | SUB \<Rightarrow> int32_checked (sint l - sint r)
      | MUL \<Rightarrow> int32_checked (sint l * sint r)
      | DIV \<Rightarrow> if r = 0 then Inl (Undefined ''division by zero'') else int32_checked (int_quot (sint l) (sint r)))"

definition DoOperation_double :: "fp_ops \<Rightarrow> ArithmeticType \<Rightarrow> 64 word \<Rightarrow> 64 word \<Rightarrow> 64 word" where
  "DoOperation_double fp op l r =
     (case op of ADD \<Rightarrow> fp_add fp l r | SUB \<Rightarrow> fp_sub fp l r | MUL \<Rightarrow> fp_mul fp l r | DIV \<Rightarrow> fp_div fp l r)"

definition Arithmetic_Compute :: "fp_ops \<Rightarrow> ArithmeticType \<Rightarrow> Val \<Rightarrow> Val \<Rightarrow> Val result" where
  "Arithmetic_Compute fp op lhs rhs =
     (if IsNull lhs \<or> IsNull rhs then Inr Value_null
      else case v_type lhs of
        TINT \<Rightarrow> rbind (GetValue_int lhs) (\<lambda>l. rbind (GetValue_int rhs) (\<lambda>r.
                  rbind (DoOperation_int op l r) (\<lambda>i. Inr (Value_int i))))
      | TDOUBLE \<Rightarrow> rbind (GetValue_double lhs) (\<lambda>l. rbind (GetValue_double rhs) (\<lambda>r.
                  Inr (Value_double (DoOperation_double fp op l r))))
      | _ \<Rightarrow> Inl (DbException ''Type unsupported for arithmetic operation''))"

text \<open>
  \<^verbatim>\<open>DoOperation\<close> of a comparison, given how its operands compare: equal, less, greater (a NaN is
  none of these).
\<close>

definition DoOperation_cmp :: "ComparisonType \<Rightarrow> bool \<Rightarrow> bool \<Rightarrow> bool \<Rightarrow> bool result" where
  "DoOperation_cmp op eq lt gt =
     (case op of
        EQUAL \<Rightarrow> Inr eq
      | NOT_EQUAL \<Rightarrow> Inr (\<not> eq)
      | LESS \<Rightarrow> Inr lt
      | LESS_EQUAL \<Rightarrow> Inr (lt \<or> eq)
      | GREATER \<Rightarrow> Inr gt
      | GREATER_EQUAL \<Rightarrow> Inr (gt \<or> eq)
      | _ \<Rightarrow> Inl (DbException ''Unknown comparison type''))"

definition cmp_int :: "ComparisonType \<Rightarrow> 32 word \<Rightarrow> 32 word \<Rightarrow> bool result" where
  "cmp_int op l r = DoOperation_cmp op (l = r) (sint l < sint r) (sint l > sint r)"

definition cmp_double :: "ComparisonType \<Rightarrow> 64 word \<Rightarrow> 64 word \<Rightarrow> bool result" where
  "cmp_double op l r = DoOperation_cmp op (dbl_equal l r) (dbl_less l r) (dbl_less r l)"

definition cmp_string :: "ComparisonType \<Rightarrow> string \<Rightarrow> string \<Rightarrow> bool result" where
  "cmp_string op l r = DoOperation_cmp op (l = r) (l < r) (l > r)"

definition list_elem :: "Val \<Rightarrow> nat \<Rightarrow> Val result" where
  "list_elem v i = (if i < length (v_values v) then Inr (v_values v ! i)
                    else Inl (Undefined ''vector index out of range''))"

definition Compute_between :: "Val \<Rightarrow> Val \<Rightarrow> bool result" where
  "Compute_between lhs rhs =
     (case v_type lhs of
        TINT \<Rightarrow> rbind (GetValue_int lhs) (\<lambda>l. rbind (list_elem rhs 0) (\<lambda>v0. rbind (GetValue_int v0) (\<lambda>lo.
                  if sint l \<ge> sint lo
                  then rbind (list_elem rhs 1) (\<lambda>v1. rbind (GetValue_int v1) (\<lambda>hi. Inr (sint l \<le> sint hi)))
                  else Inr False)))
      | TDOUBLE \<Rightarrow> rbind (GetValue_double lhs) (\<lambda>l. rbind (list_elem rhs 0) (\<lambda>v0. rbind (GetValue_double v0) (\<lambda>lo.
                  if dbl_less lo l \<or> dbl_equal lo l
                  then rbind (list_elem rhs 1) (\<lambda>v1. rbind (GetValue_double v1) (\<lambda>hi.
                         Inr (dbl_less l hi \<or> dbl_equal l hi)))
                  else Inr False)))
      | _ \<Rightarrow> Inl (DbException ''Type unsupported for comparison operation (between)''))"

fun Compute_in :: "Val \<Rightarrow> Val list \<Rightarrow> bool result" where
  "Compute_in lhs [] = Inr False"
| "Compute_in lhs (v # vs) =
     rbind (case v_type lhs of
              TINT \<Rightarrow> rbind (GetValue_int lhs) (\<lambda>l. rbind (GetValue_int v) (\<lambda>x. Inr (l = x)))
            | TDOUBLE \<Rightarrow> rbind (GetValue_double lhs) (\<lambda>l. rbind (GetValue_double v) (\<lambda>x. Inr (dbl_equal l x)))
            | TCHAR \<Rightarrow> rbind (GetValue_string lhs) (\<lambda>l. rbind (GetValue_string v) (\<lambda>x. Inr (l = x)))
            | TVARCHAR \<Rightarrow> rbind (GetValue_string lhs) (\<lambda>l. rbind (GetValue_string v) (\<lambda>x. Inr (l = x)))
            | _ \<Rightarrow> Inl (DbException ''Type unsupported for comparison operation (in)''))
       (\<lambda>in_list. if in_list then Inr True else Compute_in lhs vs)"

text \<open>The two \<^verbatim>\<open>regex_replace\<close> calls that turn a LIKE pattern into a regular expression.\<close>

definition like_pattern :: "string \<Rightarrow> string" where
  "like_pattern p =
     concat (map (\<lambda>c. if c = CHR ''_'' then ''.'' else [c])
       (concat (map (\<lambda>c. if c = CHR ''%'' then ''.*'' else [c]) p)))"

definition Comparison_Compute :: "eval_env \<Rightarrow> ComparisonType \<Rightarrow> Val \<Rightarrow> Val \<Rightarrow> Val result" where
  "Comparison_Compute env op lhs rhs =
     (if IsNull lhs \<or> IsNull rhs then Inr Value_null
      else if op = BETWEEN \<or> op = NOT_BETWEEN then
        rbind (Compute_between lhs rhs) (\<lambda>between. Inr (Value_bool (if op = BETWEEN then between else \<not> between)))
      else if op = IN \<or> op = NOT_IN then
        rbind (Compute_in lhs (v_values rhs)) (\<lambda>in_list. Inr (Value_bool (if op = IN then in_list else \<not> in_list)))
      else if op = LIKE \<or> op = NOT_LIKE then
        (if \<not> IsString (v_type lhs) \<or> \<not> IsString (v_type rhs)
         then Inl (DbException ''LIKE operator only supports CHAR and VARCHAR types'')
         else rbind (GetValue_string rhs) (\<lambda>p. rbind (GetValue_string lhs) (\<lambda>s.
              rbind (ev_regex_match env (like_pattern p) s) (\<lambda>matched.
                Inr (Value_bool (if op = LIKE then matched else \<not> matched))))))
      else rbind (case v_type lhs of
          TINT \<Rightarrow>
            (if v_type rhs = TINT then rbind (GetValue_int lhs) (\<lambda>l. rbind (GetValue_int rhs) (cmp_int op l))
             else if v_type rhs = TDOUBLE then
               rbind (GetValue_int lhs) (\<lambda>l. rbind (GetValue_double rhs) (cmp_double op (fp_of_int (ev_fp env) l)))
             else Inl (DbException ''Type unsupported for comparison operation''))
        | TDOUBLE \<Rightarrow>
            (if v_type rhs = TINT then
               rbind (GetValue_double lhs) (\<lambda>l. rbind (GetValue_int rhs) (\<lambda>r. cmp_double op l (fp_of_int (ev_fp env) r)))
             else if v_type rhs = TDOUBLE then
               rbind (GetValue_double lhs) (\<lambda>l. rbind (GetValue_double rhs) (cmp_double op l))
             else Inl (DbException ''Type unsupported for comparison operation''))
        | TCHAR \<Rightarrow> rbind (GetValue_string lhs) (\<lambda>l. rbind (GetValue_string rhs) (cmp_string op l))
        | TVARCHAR \<Rightarrow> rbind (GetValue_string lhs) (\<lambda>l. rbind (GetValue_string rhs) (cmp_string op l))
        | _ \<Rightarrow> Inl (DbException ''Type unsupported for comparison operation''))
        (\<lambda>b. Inr (Value_bool b)))"

definition Logic_Compute :: "LogicType \<Rightarrow> Val \<Rightarrow> Val \<Rightarrow> Val result" where
  "Logic_Compute op lhs rhs =
     (if IsNull lhs \<or> IsNull rhs then Inr Value_null
      else case v_type lhs of
        TBOOL \<Rightarrow> rbind (GetValue_bool lhs) (\<lambda>l. rbind (GetValue_bool rhs) (\<lambda>r.
                   case op of
                     LogicAnd \<Rightarrow> Inr (Value_bool (l \<and> r))
                   | LogicOr \<Rightarrow> Inr (Value_bool (l \<or> r))
                   | LogicNot \<Rightarrow> Inl (DbException ''Unknown logic type'')))
      | _ \<Rightarrow> Inl (DbException ''Type unsupported for logic operation''))"

definition FuncCall_Compute :: "string \<Rightarrow> Val result \<Rightarrow> Val result" where
  "FuncCall_Compute f arg =
     (if f = ''lower'' then rbind arg (\<lambda>v. rbind (GetValue_string v) (\<lambda>s. Inr (Value_string (Lower s) TVARCHAR)))
      else if f = ''upper'' then rbind arg (\<lambda>v. rbind (GetValue_string v) (\<lambda>s. Inr (Value_string (Upper s) TVARCHAR)))
      else if f = ''length'' then
        rbind arg (\<lambda>v. rbind (GetValue_string v) (\<lambda>s. Inr (Value_uint (of_nat (length s)))))
      else Inl (RuntimeError (''Unknown function name '' @ f)))"

definition TypeCast_Compute :: "vtype \<Rightarrow> Val \<Rightarrow> Val result" where
  "TypeCast_Compute t v =
     (if t = TBOOL then CastAsBool v else Inl (DbException ''Type unsupported for cast operation''))"

section \<open>Evaluation\<close>

lemma rmap_cong [fundef_cong]:
  "xs = ys \<Longrightarrow> (\<And>x. x \<in> set ys \<Longrightarrow> f x = g x) \<Longrightarrow> rmap f xs = rmap g ys"
  by (induction xs arbitrary: ys) auto

abbreviation no_child :: "Val result" where
  "no_child \<equiv> Inl (Undefined ''vector index out of range'')"

fun Evaluate :: "eval_env \<Rightarrow> Expr \<Rightarrow> Record \<Rightarrow> Val result" where
  "Evaluate env (Arithmetic op l r) record =
     rbind (Evaluate env l record) (\<lambda>lhs. rbind (Evaluate env r record) (\<lambda>rhs. Arithmetic_Compute (ev_fp env) op lhs rhs))"
| "Evaluate env (ColumnValue i t name sz is_left) record = Record_GetValue i record"
| "Evaluate env (Comparison op l r) record =
     rbind (Evaluate env l record) (\<lambda>lhs. rbind (Evaluate env r record) (\<lambda>rhs. Comparison_Compute env op lhs rhs))"
| "Evaluate env (Const v) record = Inr v"
| "Evaluate env (FuncCall f []) record = FuncCall_Compute f no_child"
| "Evaluate env (FuncCall f (e # es)) record = FuncCall_Compute f (Evaluate env e record)"
| "Evaluate env (ListExpr es) record = rbind (rmap (\<lambda>e. Evaluate env e record) es) (\<lambda>vs. Inr (Value_list vs))"
| "Evaluate env (Logic op []) record = no_child"
| "Evaluate env (Logic op [e]) record =
     rbind (Evaluate env e record) (\<lambda>v. if op = LogicNot then Value_Not v else no_child)"
| "Evaluate env (Logic op (l # r # es)) record =
     (if op = LogicNot then rbind (Evaluate env l record) Value_Not
      else rbind (Evaluate env l record) (\<lambda>lhs. rbind (Evaluate env r record) (\<lambda>rhs. Logic_Compute op lhs rhs)))"
| "Evaluate env (NullTest is_null e) record =
     rbind (Evaluate env e record) (\<lambda>v. Inr (Value_bool (if is_null then IsNull v else \<not> IsNull v)))"
| "Evaluate env (TypeCast t e) record = rbind (Evaluate env e record) (TypeCast_Compute t)"

text \<open>On a null record, as \<^verbatim>\<open>VALUES\<close> evaluates its expressions: a column is read through the null pointer.\<close>

fun Evaluate_null :: "eval_env \<Rightarrow> Expr \<Rightarrow> Val result" where
  "Evaluate_null env (Arithmetic op l r) =
     rbind (Evaluate_null env l) (\<lambda>lhs. rbind (Evaluate_null env r) (\<lambda>rhs. Arithmetic_Compute (ev_fp env) op lhs rhs))"
| "Evaluate_null env (ColumnValue i t name sz is_left) = Inl (Undefined ''null pointer'')"
| "Evaluate_null env (Comparison op l r) =
     rbind (Evaluate_null env l) (\<lambda>lhs. rbind (Evaluate_null env r) (\<lambda>rhs. Comparison_Compute env op lhs rhs))"
| "Evaluate_null env (Const v) = Inr v"
| "Evaluate_null env (FuncCall f []) = FuncCall_Compute f no_child"
| "Evaluate_null env (FuncCall f (e # es)) = FuncCall_Compute f (Evaluate_null env e)"
| "Evaluate_null env (ListExpr es) = rbind (rmap (\<lambda>e. Evaluate_null env e) es) (\<lambda>vs. Inr (Value_list vs))"
| "Evaluate_null env (Logic op []) = no_child"
| "Evaluate_null env (Logic op [e]) =
     rbind (Evaluate_null env e) (\<lambda>v. if op = LogicNot then Value_Not v else no_child)"
| "Evaluate_null env (Logic op (l # r # es)) =
     (if op = LogicNot then rbind (Evaluate_null env l) Value_Not
      else rbind (Evaluate_null env l) (\<lambda>lhs. rbind (Evaluate_null env r) (\<lambda>rhs. Logic_Compute op lhs rhs)))"
| "Evaluate_null env (NullTest is_null e) =
     rbind (Evaluate_null env e) (\<lambda>v. Inr (Value_bool (if is_null then IsNull v else \<not> IsNull v)))"
| "Evaluate_null env (TypeCast t e) = rbind (Evaluate_null env e) (TypeCast_Compute t)"

text \<open>
  On two records: the argument of \<^verbatim>\<open>NOT\<close>, the elements of a list, and the arguments of a null test
  and a cast are evaluated on the left record alone.
\<close>

fun EvaluateJoin :: "eval_env \<Rightarrow> Expr \<Rightarrow> Record \<Rightarrow> Record \<Rightarrow> Val result" where
  "EvaluateJoin env (Arithmetic op l r) left right =
     rbind (EvaluateJoin env l left right) (\<lambda>lhs. rbind (EvaluateJoin env r left right) (\<lambda>rhs.
       Arithmetic_Compute (ev_fp env) op lhs rhs))"
| "EvaluateJoin env (ColumnValue i t name sz is_left) left right =
     (if is_left then Record_GetValue i left else Record_GetValue i right)"
| "EvaluateJoin env (Comparison op l r) left right =
     rbind (EvaluateJoin env l left right) (\<lambda>lhs. rbind (EvaluateJoin env r left right) (\<lambda>rhs.
       Comparison_Compute env op lhs rhs))"
| "EvaluateJoin env (Const v) left right = Inr v"
| "EvaluateJoin env (FuncCall f []) left right = FuncCall_Compute f no_child"
| "EvaluateJoin env (FuncCall f (e # es)) left right = FuncCall_Compute f (EvaluateJoin env e left right)"
| "EvaluateJoin env (ListExpr es) left right =
     rbind (rmap (\<lambda>e. Evaluate env e left) es) (\<lambda>vs. Inr (Value_list vs))"
| "EvaluateJoin env (Logic op []) left right = no_child"
| "EvaluateJoin env (Logic op [e]) left right =
     (if op = LogicNot then rbind (Evaluate env e left) Value_Not
      else rbind (EvaluateJoin env e left right) (\<lambda>_. no_child))"
| "EvaluateJoin env (Logic op (l # r # es)) left right =
     (if op = LogicNot then rbind (Evaluate env l left) Value_Not
      else rbind (EvaluateJoin env l left right) (\<lambda>lhs. rbind (EvaluateJoin env r left right) (\<lambda>rhs.
             Logic_Compute op lhs rhs)))"
| "EvaluateJoin env (NullTest is_null e) left right =
     rbind (Evaluate env e left) (\<lambda>v. Inr (Value_bool (if is_null then IsNull v else \<not> IsNull v)))"
| "EvaluateJoin env (TypeCast t e) left right = rbind (Evaluate env e left) (TypeCast_Compute t)"

section \<open>Joins against concatenated records\<close>

text \<open>The expression on the concatenated record that a join expression stands for.\<close>

fun shift :: "nat \<Rightarrow> Expr \<Rightarrow> Expr" where
  "shift n (Arithmetic op l r) = Arithmetic op (shift n l) (shift n r)"
| "shift n (ColumnValue i t name sz is_left) = ColumnValue (if is_left then i else n + i) t name sz True"
| "shift n (Comparison op l r) = Comparison op (shift n l) (shift n r)"
| "shift n (Const v) = Const v"
| "shift n (FuncCall f es) = FuncCall f (map (shift n) es)"
| "shift n (ListExpr es) = ListExpr (map (shift n) es)"
| "shift n (Logic op es) = Logic op (map (shift n) es)"
| "shift n (NullTest b e) = NullTest b (shift n e)"
| "shift n (TypeCast t e) = TypeCast t (shift n e)"

fun left_only :: "nat \<Rightarrow> Expr \<Rightarrow> bool" where
  "left_only n (Arithmetic op l r) \<longleftrightarrow> left_only n l \<and> left_only n r"
| "left_only n (ColumnValue i t name sz is_left) \<longleftrightarrow> is_left \<and> i < n"
| "left_only n (Comparison op l r) \<longleftrightarrow> left_only n l \<and> left_only n r"
| "left_only n (Const v) \<longleftrightarrow> True"
| "left_only n (FuncCall f es) \<longleftrightarrow> list_all (left_only n) es"
| "left_only n (ListExpr es) \<longleftrightarrow> list_all (left_only n) es"
| "left_only n (Logic op es) \<longleftrightarrow> list_all (left_only n) es"
| "left_only n (NullTest b e) \<longleftrightarrow> left_only n e"
| "left_only n (TypeCast t e) \<longleftrightarrow> left_only n e"

fun join_ok :: "nat \<Rightarrow> Expr \<Rightarrow> bool" where
  "join_ok n (Arithmetic op l r) \<longleftrightarrow> join_ok n l \<and> join_ok n r"
| "join_ok n (ColumnValue i t name sz is_left) \<longleftrightarrow> (is_left \<longrightarrow> i < n)"
| "join_ok n (Comparison op l r) \<longleftrightarrow> join_ok n l \<and> join_ok n r"
| "join_ok n (Const v) \<longleftrightarrow> True"
| "join_ok n (FuncCall f es) \<longleftrightarrow> list_all (join_ok n) es"
| "join_ok n (ListExpr es) \<longleftrightarrow> list_all (left_only n) es"
| "join_ok n (Logic op es) \<longleftrightarrow> (if op = LogicNot then list_all (left_only n) es else list_all (join_ok n) es)"
| "join_ok n (NullTest b e) \<longleftrightarrow> left_only n e"
| "join_ok n (TypeCast t e) \<longleftrightarrow> left_only n e"

lemma Append_values_values: "Append_values vs r = Inr r' \<Longrightarrow> r_values r' = r_values r @ vs"
  by (induction vs arbitrary: r) (auto simp: rbind_eq_Inr_iff)

lemma Record_Append_values: "Record_Append l r = Inr j \<Longrightarrow> r_values j = r_values l @ r_values r"
  by (auto simp: Record_Append_def rbind_eq_Inr_iff UpdateSize_def dest!: Append_values_values)

lemma Evaluate_list_cases:
  "Evaluate env (FuncCall f es) r = FuncCall_Compute f (case es of [] \<Rightarrow> no_child | e # _ \<Rightarrow> Evaluate env e r)"
  "Evaluate env (Logic op es) r =
     (case es of [] \<Rightarrow> no_child
      | [e] \<Rightarrow> rbind (Evaluate env e r) (\<lambda>v. if op = LogicNot then Value_Not v else no_child)
      | a # b # _ \<Rightarrow> (if op = LogicNot then rbind (Evaluate env a r) Value_Not
          else rbind (Evaluate env a r) (\<lambda>x. rbind (Evaluate env b r) (\<lambda>y. Logic_Compute op x y))))"
  by (cases es; simp split: list.split)+

text \<open>Without columns the record does not matter.\<close>

lemma Evaluate_null_list_cases:
  "Evaluate_null env (FuncCall f es) = FuncCall_Compute f (case es of [] \<Rightarrow> no_child | e # _ \<Rightarrow> Evaluate_null env e)"
  "Evaluate_null env (Logic op es) =
     (case es of [] \<Rightarrow> no_child
      | [e] \<Rightarrow> rbind (Evaluate_null env e) (\<lambda>v. if op = LogicNot then Value_Not v else no_child)
      | a # b # _ \<Rightarrow> (if op = LogicNot then rbind (Evaluate_null env a) Value_Not
          else rbind (Evaluate_null env a) (\<lambda>x. rbind (Evaluate_null env b) (\<lambda>y. Logic_Compute op x y))))"
  by (cases es; simp split: list.split)+

lemma Evaluate_null_columns: "left_only 0 e \<Longrightarrow> Evaluate_null env e = Evaluate env e r"
proof (induction e)
  case (ListExpr es)
  have "rmap (\<lambda>e. Evaluate_null env e) es = rmap (\<lambda>e. Evaluate env e r) es"
    by (rule rmap_cong [OF refl]) (use ListExpr in \<open>auto simp: list_all_iff\<close>)
  then show ?case by simp
next
  case (FuncCall f es)
  then show ?case unfolding Evaluate_list_cases Evaluate_null_list_cases by (auto simp: list_all_iff split: list.splits)
next
  case (Logic op es)
  then show ?case unfolding Evaluate_list_cases Evaluate_null_list_cases by (auto simp: list_all_iff split: list.splits)
qed simp_all

lemma rmap_map [simp]: "rmap f (map g xs) = rmap (\<lambda>x. f (g x)) xs"
  by (induction xs) simp_all

lemma Evaluate_left_only:
  assumes j: "r_values j = r_values l @ vs" and n: "n = length (r_values l)"
  shows "left_only n e \<Longrightarrow> Evaluate env (shift n e) j = Evaluate env e l"
proof (induction e)
  case (ColumnValue i t name sz is_left)
  then show ?case using j n by (auto simp: Record_GetValue_def nth_append)
next
  case (FuncCall f es)
  then show ?case by (cases es) simp_all
next
  case (ListExpr es)
  have "rmap (\<lambda>x. Evaluate env (shift n x) j) es = rmap (\<lambda>x. Evaluate env x l) es"
    by (rule rmap_cong [OF refl]) (use ListExpr in \<open>auto simp: list_all_iff\<close>)
  then show ?case by simp
next
  case (Logic op es)
  then show ?case
    unfolding Evaluate_list_cases shift.simps by (auto simp: list_all_iff split: list.splits)
qed simp_all

lemma EvaluateJoin_list_cases:
  "EvaluateJoin env (FuncCall f es) l r = FuncCall_Compute f (case es of [] \<Rightarrow> no_child | e # _ \<Rightarrow> EvaluateJoin env e l r)"
  "op \<noteq> LogicNot \<Longrightarrow> EvaluateJoin env (Logic op es) l r =
     (case es of [] \<Rightarrow> no_child
      | [e] \<Rightarrow> rbind (EvaluateJoin env e l r) (\<lambda>_. no_child)
      | a # b # _ \<Rightarrow> rbind (EvaluateJoin env a l r) (\<lambda>x. rbind (EvaluateJoin env b l r) (\<lambda>y. Logic_Compute op x y)))"
  "EvaluateJoin env (Logic LogicNot es) l r = Evaluate env (Logic LogicNot es) l"
  by (cases es; simp) (cases es rule: remdups_adj.cases; simp)+

lemma EvaluateJoin_shift:
  assumes j: "r_values j = r_values l @ r_values r" and n: "n = length (r_values l)"
  shows "join_ok n e \<Longrightarrow> EvaluateJoin env e l r = Evaluate env (shift n e) j"
proof (induction e)
  case (ColumnValue i t name sz is_left)
  then show ?case using j n by (auto simp: Record_GetValue_def nth_append)
next
  case (FuncCall f es)
  then show ?case by (cases es) simp_all
next
  case (ListExpr es)
  have "rmap (\<lambda>x. Evaluate env (shift n x) j) es = rmap (\<lambda>x. Evaluate env x l) es"
    by (rule rmap_cong [OF refl]) (use ListExpr Evaluate_left_only [OF j n] in \<open>auto simp: list_all_iff\<close>)
  then show ?case by simp
next
  case (Logic op es)
  show ?case
  proof (cases "op = LogicNot")
    case True
    then have "left_only n (Logic op es)" using Logic.prems by simp
    from Evaluate_left_only [OF j n this] show ?thesis
      using True EvaluateJoin_list_cases(3) by simp
  next
    case False
    then show ?thesis
      using Logic unfolding Evaluate_list_cases EvaluateJoin_list_cases(2) [OF False] shift.simps
      by (auto simp: list_all_iff split: list.splits)
  qed
qed (simp_all add: Evaluate_left_only [OF j n])

section \<open>Typing\<close>

text \<open>
  The types under which evaluation meets no type error, on a record whose values have the types
  \<open>cs\<close> and are not null. The list of \<^verbatim>\<open>BETWEEN\<close> and \<^verbatim>\<open>IN\<close> has the type of the left operand
  throughout. \<^verbatim>\<open>LIKE\<close> is left out: the regular expression engine may refuse a pattern.
\<close>

definition comparison_types :: "ComparisonType \<Rightarrow> vtype \<Rightarrow> vtype \<Rightarrow> bool" where
  "comparison_types op t u \<longleftrightarrow>
     op \<in> {EQUAL, NOT_EQUAL, LESS, LESS_EQUAL, GREATER, GREATER_EQUAL}
     \<and> (t \<in> {TINT, TDOUBLE} \<and> u \<in> {TINT, TDOUBLE} \<or> IsString t \<and> IsString u)"

definition list_types :: "ComparisonType \<Rightarrow> vtype \<Rightarrow> nat \<Rightarrow> bool" where
  "list_types op t n \<longleftrightarrow>
     (op \<in> {BETWEEN, NOT_BETWEEN} \<and> n = 2 \<and> t \<in> {TINT, TDOUBLE})
     \<or> (op \<in> {IN, NOT_IN} \<and> t \<in> {TINT, TDOUBLE, TCHAR, TVARCHAR})"

inductive expr_typed :: "vtype list \<Rightarrow> Expr \<Rightarrow> vtype \<Rightarrow> bool" for cs where
  arith: "expr_typed cs l t \<Longrightarrow> expr_typed cs r t \<Longrightarrow> t = TINT \<or> t = TDOUBLE \<Longrightarrow> expr_typed cs (Arithmetic op l r) t"
| column: "i < length cs \<Longrightarrow> expr_typed cs (ColumnValue i t name sz is_left) (cs ! i)"
| compare: "expr_typed cs l t \<Longrightarrow> expr_typed cs r u \<Longrightarrow> comparison_types op t u \<Longrightarrow> expr_typed cs (Comparison op l r) TBOOL"
| compare_list: "expr_typed cs l t \<Longrightarrow> (\<And>e. e \<in> set es \<Longrightarrow> expr_typed cs e t) \<Longrightarrow> list_types op t (length es) \<Longrightarrow>
     expr_typed cs (Comparison op l (ListExpr es)) TBOOL"
| const: "\<not> IsNull v \<Longrightarrow> expr_typed cs (Const v) (v_type v)"
| func: "expr_typed cs e t \<Longrightarrow> IsString t \<Longrightarrow> f = ''lower'' \<or> f = ''upper'' \<Longrightarrow> expr_typed cs (FuncCall f [e]) TVARCHAR"
| len: "expr_typed cs e t \<Longrightarrow> IsString t \<Longrightarrow> expr_typed cs (FuncCall ''length'' [e]) TUINT"
| nt: "expr_typed cs e TBOOL \<Longrightarrow> expr_typed cs (Logic LogicNot [e]) TBOOL"
| logic: "expr_typed cs l TBOOL \<Longrightarrow> expr_typed cs r TBOOL \<Longrightarrow> op \<noteq> LogicNot \<Longrightarrow> expr_typed cs (Logic op [l, r]) TBOOL"
| null_test: "expr_typed cs e t \<Longrightarrow> expr_typed cs (NullTest b e) TBOOL"
| cast: "expr_typed cs e TBOOL \<Longrightarrow> expr_typed cs (TypeCast TBOOL e) TBOOL"

text \<open>What a well-typed expression may come to: a value of its type, or the integer arithmetic C++ leaves undefined.\<close>

definition evaluates_to :: "Val result \<Rightarrow> vtype \<Rightarrow> bool" where
  "evaluates_to r t \<longleftrightarrow> (case r of
       Inr v \<Rightarrow> v_type v = t \<and> \<not> IsNull v
     | Inl e \<Rightarrow> e = Undefined ''signed overflow'' \<or> e = Undefined ''division by zero'')"

lemma evaluates_to_Inr [simp]: "evaluates_to (Inr v) t \<longleftrightarrow> v_type v = t \<and> \<not> IsNull v"
  by (simp add: evaluates_to_def)

lemma evaluates_to_bind:
  "evaluates_to m t \<Longrightarrow> (\<And>v. v_type v = t \<Longrightarrow> \<not> IsNull v \<Longrightarrow> evaluates_to (f v) u) \<Longrightarrow> evaluates_to (rbind m f) u"
  by (cases m) (auto simp: evaluates_to_def)

lemma value_typing [simp]:
  "v_type (Value_bool b) = TBOOL" "\<not> IsNull (Value_bool b)"
  "v_type (Value_int i) = TINT" "\<not> IsNull (Value_int i)"
  "v_type (Value_uint i) = TUINT" "\<not> IsNull (Value_uint i)"
  "v_type (Value_double d) = TDOUBLE" "\<not> IsNull (Value_double d)"
  "v_type (Value_string s t) = t" "t \<noteq> TNULL \<Longrightarrow> \<not> IsNull (Value_string s t)"
  by (simp_all add: Value_bool_def Value_int_def Value_uint_def Value_double_def Value_string_def IsNull_def)

lemma GetValue_typed [simp]:
  "v_type v = TBOOL \<Longrightarrow> GetValue_bool v = Inr (v_bool v)"
  "v_type v = TINT \<Longrightarrow> GetValue_int v = Inr (v_int v)"
  "v_type v = TDOUBLE \<Longrightarrow> GetValue_double v = Inr (v_bits v)"
  "IsString (v_type v) \<Longrightarrow> GetValue_string v = Inr (v_str v)"
  by (simp_all add: GetValue_bool_def GetValue_int_def GetValue_double_def GetValue_string_def)

lemma IsString_cases: "IsString t \<longleftrightarrow> t = TCHAR \<or> t = TVARCHAR"
  by (cases t) simp_all

lemma evaluates_to_int_op: "evaluates_to (rbind (DoOperation_int op l r) (\<lambda>i. Inr (Value_int i))) TINT"
  by (cases op) (simp_all add: DoOperation_int_def int32_checked_def evaluates_to_def)

lemma Arithmetic_Compute_typed:
  assumes "v_type v = t" "v_type w = t" "\<not> IsNull v" "\<not> IsNull w" "t = TINT \<or> t = TDOUBLE"
  shows "evaluates_to (Arithmetic_Compute fp op v w) t"
  using assms evaluates_to_int_op by (auto simp: Arithmetic_Compute_def)

lemma DoOperation_cmp_total:
  "op \<in> {EQUAL, NOT_EQUAL, LESS, LESS_EQUAL, GREATER, GREATER_EQUAL} \<Longrightarrow> \<exists>b. DoOperation_cmp op eq lt gt = Inr b"
  by (auto simp: DoOperation_cmp_def)

lemma Comparison_Compute_typed:
  assumes "v_type v = t" "v_type w = u" "\<not> IsNull v" "\<not> IsNull w" "comparison_types op t u"
  shows "evaluates_to (Comparison_Compute env op v w) TBOOL"
proof -
  have op: "op \<in> {EQUAL, NOT_EQUAL, LESS, LESS_EQUAL, GREATER, GREATER_EQUAL}"
    using assms(5) by (simp add: comparison_types_def)
  have tot: "\<exists>b. cmp_int op i j = Inr b" "\<exists>b. cmp_double op x y = Inr b" "\<exists>b. cmp_string op s r = Inr b" for i j x y s r
    using DoOperation_cmp_total [OF op] by (simp_all add: cmp_int_def cmp_double_def cmp_string_def)
  have "t \<in> {TINT, TDOUBLE} \<and> u \<in> {TINT, TDOUBLE} \<or> (t = TCHAR \<or> t = TVARCHAR) \<and> (u = TCHAR \<or> u = TVARCHAR)"
    using assms(5) by (simp add: comparison_types_def IsString_cases)
  moreover have "op \<notin> {BETWEEN, NOT_BETWEEN, IN, NOT_IN, LIKE, NOT_LIKE}" using op by auto
  ultimately show ?thesis
    using assms(1-4) tot(1) [of "v_int v" "v_int w"] tot(2) [of "v_bits v" "v_bits w"]
      tot(2) [of "fp_of_int (ev_fp env) (v_int v)" "v_bits w"] tot(2) [of "v_bits v" "fp_of_int (ev_fp env) (v_int w)"]
      tot(3) [of "v_str v" "v_str w"]
    by (auto simp: Comparison_Compute_def)
qed

lemma Compute_in_total:
  assumes "v_type v = t" "\<forall>w \<in> set vs. v_type w = t" "t \<in> {TINT, TDOUBLE, TCHAR, TVARCHAR}"
  shows "\<exists>b. Compute_in v vs = Inr b"
  using assms(2)
proof (induction vs)
  case (Cons w vs)
  then obtain b where "Compute_in v vs = Inr b" by auto
  then show ?case using assms(1,3) Cons.prems by auto
next
  case Nil
  show ?case by (rule exI [of _ False]) simp
qed

lemma Compute_between_total:
  assumes "v_type v = t" "v_type a = t" "v_type b = t" "v_values w = [a, b]" "t \<in> {TINT, TDOUBLE}"
  shows "\<exists>c. Compute_between v w = Inr c"
  using assms by (auto simp: Compute_between_def list_elem_def)

lemma list_Compute_typed:
  assumes "v_type v = t" "\<not> IsNull v" "\<forall>w \<in> set vs. v_type w = t" "list_types op t (length vs)"
  shows "evaluates_to (Comparison_Compute env op v (Value_list vs)) TBOOL"
proof -
  have nn: "\<not> IsNull (Value_list vs)" and vl: "v_values (Value_list vs) = vs"
    by (simp_all add: Value_list_def IsNull_def)
  consider "op \<in> {BETWEEN, NOT_BETWEEN}" "length vs = 2" "t \<in> {TINT, TDOUBLE}"
    | "op \<in> {IN, NOT_IN}" "t \<in> {TINT, TDOUBLE, TCHAR, TVARCHAR}"
    using assms(4) by (auto simp: list_types_def)
  then show ?thesis
  proof cases
    case 1
    obtain a b where ab: "vs = [a, b]" using 1(2) by (auto simp: length_Suc_conv numeral_2_eq_2)
    obtain c where "Compute_between v (Value_list vs) = Inr c"
      using Compute_between_total [of v t a b "Value_list vs"] assms(1,3) vl ab 1(3) by auto
    then show ?thesis using 1(1) assms(2) nn by (auto simp: Comparison_Compute_def)
  next
    case 2
    obtain c where "Compute_in v vs = Inr c"
      using Compute_in_total [OF assms(1,3) 2(2)] by blast
    then show ?thesis using 2(1) assms(2) nn vl by (auto simp: Comparison_Compute_def)
  qed
qed

lemma evaluates_to_rmap:
  assumes "\<And>e. e \<in> set es \<Longrightarrow> evaluates_to (f e) t"
    and "\<And>vs. length vs = length es \<Longrightarrow> \<forall>w \<in> set vs. v_type w = t \<Longrightarrow> evaluates_to (g vs) u"
  shows "evaluates_to (rbind (rmap f es) g) u"
  using assms
proof (induction es arbitrary: g)
  case Nil
  then show ?case by simp
next
  case (Cons e es)
  have "evaluates_to (rbind (rmap f es) (\<lambda>vs. g (v # vs))) u" if "v_type v = t" for v
    using Cons.prems that by (intro Cons.IH) auto
  then show ?case
    using Cons.prems(1) [of e] by (auto simp: rbind_assoc intro!: evaluates_to_bind [of _ t])
qed

lemma Evaluate_typed:
  assumes "expr_typed (map v_type (r_values record)) e t" "\<forall>v \<in> set (r_values record). \<not> IsNull v"
  shows "evaluates_to (Evaluate env e record) t"
  using assms(1)
proof (induction rule: expr_typed.induct)
  case (arith l t r op)
  then show ?case
    by (auto intro!: evaluates_to_bind [of _ t] Arithmetic_Compute_typed)
next
  case (compare l t r u op)
  have "evaluates_to (rbind (Evaluate env r record) (Comparison_Compute env op v)) TBOOL"
    if "v_type v = t" "\<not> IsNull v" for v
    using compare that by (auto intro!: evaluates_to_bind [of _ u] Comparison_Compute_typed)
  then show ?case
    unfolding Evaluate.simps by (rule evaluates_to_bind [OF compare.IH(1)])
next
  case (compare_list l t es op)
  have "evaluates_to (rbind (rmap (\<lambda>e. Evaluate env e record) es) (\<lambda>vs. Comparison_Compute env op v (Value_list vs))) TBOOL"
    if "v_type v = t" "\<not> IsNull v" for v
    using compare_list.IH(2) compare_list.hyps that by (intro evaluates_to_rmap list_Compute_typed) auto
  then show ?case
    using compare_list.IH(1) by (auto simp: rbind_assoc intro!: evaluates_to_bind [of _ t])
next
  case (func e t f)
  then show ?case
    by (auto simp: FuncCall_Compute_def intro!: evaluates_to_bind [of _ t])
next
  case (len e t)
  then show ?case
    by (auto simp: FuncCall_Compute_def intro!: evaluates_to_bind [of _ t])
next
  case (nt e)
  then show ?case by (auto simp: Value_Not_def intro!: evaluates_to_bind [of _ TBOOL])
next
  case (logic l r op)
  then show ?case
    by (cases op) (auto simp: Logic_Compute_def intro!: evaluates_to_bind [of _ TBOOL])
next
  case (null_test e t b)
  then show ?case by (auto intro!: evaluates_to_bind [of _ t])
next
  case (cast e)
  then show ?case by (auto simp: TypeCast_Compute_def CastAsBool_def intro!: evaluates_to_bind [of _ TBOOL])
qed (use assms(2) in \<open>auto simp: Record_GetValue_def\<close>)

section \<open>Properties\<close>

text \<open>
  C28. A join condition means what the same condition means on the concatenated record: \<^verbatim>\<open>EvaluateJoin\<close>
  on two records gives the result, or the exception, of \<^verbatim>\<open>Evaluate\<close> on the record \<^verbatim>\<open>Append\<close> makes of
  them with the right columns renumbered, as long as the left columns are in range and the arguments
  of NOT, lists, null tests and casts refer to the left record only.
\<close>

theorem EvaluateJoin_concatenation:
  assumes "Record_Append l r = Inr j" "join_ok (length (r_values l)) e"
  shows "EvaluateJoin env e l r = Evaluate env (shift (length (r_values l)) e) j"
  by (rule EvaluateJoin_shift [OF Record_Append_values [OF assms(1)] refl assms(2)])

definition no_fp :: fp_ops where
  "no_fp = \<lparr>fp_add = (\<lambda>a b. 0), fp_sub = (\<lambda>a b. 0), fp_mul = (\<lambda>a b. 0), fp_div = (\<lambda>a b. 0),
     fp_of_int = (\<lambda>i. 0), fp_show = (\<lambda>d. [])\<rparr>"

definition sample_env :: eval_env where
  "sample_env = \<lparr>ev_fp = no_fp, ev_regex_match = (\<lambda>p s. Inr (p = s))\<rparr>"

definition sample_left :: Record where
  "sample_left = Record_default\<lparr>r_null_bitmap := Bitmap_new 2, r_values := [Value_int 7, Value_int 8]\<rparr>"

definition sample_right :: Record where
  "sample_right = Record_default\<lparr>r_null_bitmap := Bitmap_new 1, r_values := [Value_int 7]\<rparr>"

definition sample_condition :: Expr where
  "sample_condition = Comparison EQUAL (ColumnValue 0 TINT ''a'' 4 True) (ColumnValue 0 TINT ''b'' 4 False)"

theorem EvaluateJoin_concatenation_witness:
  "\<exists>j. Record_Append sample_left sample_right = Inr j
     \<and> EvaluateJoin sample_env sample_condition sample_left sample_right
         = Evaluate sample_env (Comparison EQUAL (ColumnValue 0 TINT ''a'' 4 True) (ColumnValue 2 TINT ''b'' 4 True)) j"
proof -
  obtain j where j: "Record_Append sample_left sample_right = Inr j"
  proof -
    have "\<exists>j. Record_Append sample_left sample_right = Inr j"
      by (simp add: Record_Append_def sample_left_def sample_right_def Record_default_def Bitmap_new_def
          Bitmap_Resize_def Bitmap_GetSize_def vector_resize_def Bitmap_Clear_def IsNull_def Value_int_def Bitmap_empty_def)
    then show thesis using that by blast
  qed
  have "join_ok (length (r_values sample_left)) sample_condition"
    by (simp add: sample_left_def sample_condition_def)
  from EvaluateJoin_concatenation [OF j this, of sample_env] j show ?thesis
    by (intro exI [of _ j]) (simp add: sample_condition_def sample_left_def numeral_2_eq_2)
qed

text \<open>
  C29. Type safety: on a record without nulls, a well-typed expression evaluates to a non-null value of
  its type; it throws no exception, and the only other outcome is 32-bit integer arithmetic that
  overflows or divides by zero.
\<close>

theorem Evaluate_type_safe:
  assumes "expr_typed (map v_type (r_values record)) e t" "\<forall>v \<in> set (r_values record). \<not> IsNull v"
  shows "(\<exists>v. Evaluate env e record = Inr v \<and> v_type v = t \<and> \<not> IsNull v)
     \<or> Evaluate env e record = Inl (Undefined ''signed overflow'')
     \<or> Evaluate env e record = Inl (Undefined ''division by zero'')"
  using Evaluate_typed [OF assms, of env] by (auto simp: evaluates_to_def split: sum.splits)

theorem Evaluate_type_safe_witness:
  "\<exists>v. Evaluate sample_env (Comparison LESS (ColumnValue 0 TINT ''a'' 4 True) (ColumnValue 1 TINT ''b'' 4 True)) sample_left
       = Inr v \<and> v_type v = TBOOL \<and> \<not> IsNull v"
proof -
  let ?e = "Comparison LESS (ColumnValue 0 TINT ''a'' 4 True) (ColumnValue 1 TINT ''b'' 4 True)"
  have vals: "r_values sample_left = [Value_int 7, Value_int 8]" by (simp add: sample_left_def)
  have "expr_typed [TINT, TINT] ?e TBOOL"
    using expr_typed.column [of 0 "[TINT, TINT]"] expr_typed.column [of 1 "[TINT, TINT]"]
    by (intro expr_typed.compare [of _ _ TINT _ TINT]) (auto simp: comparison_types_def)
  then have "expr_typed (map v_type (r_values sample_left)) ?e TBOOL" by (simp add: vals)
  from Evaluate_type_safe [OF this, of sample_env] show ?thesis
    by (auto simp: vals Record_GetValue_def Comparison_Compute_def cmp_int_def DoOperation_cmp_def)
qed

end
