(* ===== verification/Executors.thy ===== *)
theory Executors
  imports Recovery Expressions
begin

text \<open>
  The executors of \<^verbatim>\<open>src/src/executors/\<close>. An executor is an iterator: \<^verbatim>\<open>Next\<close> returns a record or the null
  pointer at the end. The state of a tree of executors is one value that holds the state of every
  node and what they share; \<^verbatim>\<open>Next\<close> of a node is a function of the \<^verbatim>\<open>Next\<close> of its children, and a node with
  variables of its own adds them to the state of its children. The contract of an iterator is the
  locale \<open>record_source\<close>: the records that are still to come. Every executor that turns a source into
  a source is proved to be one, so that trees of executors compute what the algebra says.
\<close>

section \<open>The executors without variables\<close>

text \<open>\<^verbatim>\<open>while (auto record = children_[i]->Next())\<close>, collecting the records.\<close>

fun drain :: "('s, Record option) em \<Rightarrow> nat \<Rightarrow> ('s, Record list) em" where
  "drain next 0 = ethrow Diverges"
| "drain next (Suc fuel) =
     ebind next (\<lambda>r. case r of
       None \<Rightarrow> eret []
     | Some rec \<Rightarrow> ebind (drain next fuel) (\<lambda>rs. eret (rec # rs)))"

text \<open>Every source has fewer records than there are rids.\<close>

definition ROW_FUEL :: nat where "ROW_FUEL = 2 ^ 48"

definition passes :: "eval_env \<Rightarrow> Expr \<Rightarrow> Record \<Rightarrow> bool result" where
  "passes env predicate record =
     rbind (Evaluate env predicate record) (\<lambda>v. if IsNull v then Inr False else GetValue_bool v)"

fun filter_loop :: "eval_env \<Rightarrow> Expr \<Rightarrow> ('s, Record option) em \<Rightarrow> nat \<Rightarrow> ('s, Record option) em" where
  "filter_loop env predicate next 0 = ethrow Diverges"
| "filter_loop env predicate next (Suc fuel) =
     ebind next (\<lambda>r. case r of
       None \<Rightarrow> eret None
     | Some record \<Rightarrow>
         ebind (elift (passes env predicate record)) (\<lambda>ok.
           if ok then eret (Some record) else filter_loop env predicate next fuel))"

definition Filter_Next :: "eval_env \<Rightarrow> Expr \<Rightarrow> ('s, Record option) em \<Rightarrow> ('s, Record option) em" where
  "Filter_Next env predicate next = filter_loop env predicate next ROW_FUEL"

definition evaluate_all :: "eval_env \<Rightarrow> Expr list \<Rightarrow> Record \<Rightarrow> Val list result" where
  "evaluate_all env exprs record = rmap (\<lambda>expr. Evaluate env expr record) exprs"

definition Projection_Next :: "eval_env \<Rightarrow> Expr list \<Rightarrow> ('s, Record option) em \<Rightarrow> ('s, Record option) em" where
  "Projection_Next env exprs next =
     ebind next (\<lambda>r. case r of
       None \<Rightarrow> eret None
     | Some record \<Rightarrow>
         ebind (elift (rbind (evaluate_all env exprs record) (\<lambda>values. Record_new values (r_rid record)))) (\<lambda>p.
           eret (Some p)))"

section \<open>Values, limit\<close>

text \<open>The expressions of \<^verbatim>\<open>VALUES\<close> are evaluated without a record; a column of the record that is not there is an error.\<close>

definition no_rid :: Rid where
  "no_rid = \<lparr>rid_page_id = 0, rid_slot_id = 0\<rparr>"

record 's ValuesExec =
  ve_cursor :: nat
  ve_rest :: 's

definition Values_Next :: "eval_env \<Rightarrow> Expr list list \<Rightarrow> ('s ValuesExec, Record option) em" where
  "Values_Next env values s =
     (if length values \<le> ve_cursor s then (Inr None, s)
      else case rmap (Evaluate_null env) (values ! ve_cursor s) of
             Inl e \<Rightarrow> (Inl e, s)
           | Inr vs \<Rightarrow> let s' = s\<lparr>ve_cursor := ve_cursor s + 1\<rparr>
                       in case Record_new vs no_rid of Inl e \<Rightarrow> (Inl e, s') | Inr rec \<Rightarrow> (Inr (Some rec), s'))"

record 's LimitExec =
  li_count :: "32 word"
  li_offset :: "32 word"
  li_child :: 's

definition on_child :: "('s, 'a) em \<Rightarrow> ('s LimitExec, 'a) em" where
  "on_child = ezoom li_child (\<lambda>c s. s\<lparr>li_child := c\<rparr>)"

text \<open>The counters are of type \<^verbatim>\<open>int\<close>; they are compared as unsigned numbers.\<close>

definition int_incr :: "32 word \<Rightarrow> 32 word result" where
  "int_incr w = (if w = 2147483647 then Inl (Undefined ''signed overflow'') else Inr (w + 1))"

fun limit_skip :: "('s, Record option) em \<Rightarrow> nat \<Rightarrow> ('s LimitExec, unit) em" where
  "limit_skip next 0 = eret ()"
| "limit_skip next (Suc n) =
     ebind (eget li_offset) (\<lambda>offset.
     ebind (elift (int_incr offset)) (\<lambda>offset'.
     ebind (emodify (\<lambda>s. s\<lparr>li_offset := offset'\<rparr>)) (\<lambda>_.
     ebind (on_child next) (\<lambda>_.
       limit_skip next n))))"

definition Limit_Next ::
    "32 word option \<Rightarrow> 32 word option \<Rightarrow> ('s, Record option) em \<Rightarrow> ('s LimitExec, Record option) em" where
  "Limit_Next limit_count limit_offset next =
     ebind (eget li_offset) (\<lambda>offset.
     ebind (limit_skip next (unat (case limit_offset of None \<Rightarrow> 0 | Some l \<Rightarrow> l) - unat offset)) (\<lambda>_.
       case limit_count of
         None \<Rightarrow> on_child next
       | Some limit \<Rightarrow>
           ebind (eget li_count) (\<lambda>count.
             if count < limit
             then ebind (elift (int_incr count)) (\<lambda>count'.
                  ebind (emodify (\<lambda>s. s\<lparr>li_count := count'\<rparr>)) (\<lambda>_.
                    on_child next))
             else eret None)))"

section \<open>The contract of an iterator\<close>

text \<open>
  \<open>left s\<close> are the records a source in state \<open>s\<close> will still return, if it can return them all.
\<close>

locale record_source =
  fixes "next" :: "('s, Record option) em"
    and "left" :: "'s \<Rightarrow> Record list option"
  assumes next_end: "left s = Some [] \<Longrightarrow> \<exists>s'. next s = (Inr None, s') \<and> left s' = Some []"
    and next_record: "left s = Some (x # xs) \<Longrightarrow> \<exists>s'. next s = (Inr (Some x), s') \<and> left s' = Some xs"
begin

lemma drain_ok: "left s = Some xs \<Longrightarrow> length xs < fuel \<Longrightarrow> \<exists>s'. drain next fuel s = (Inr xs, s') \<and> left s' = Some []"
proof (induction xs arbitrary: s fuel)
  case Nil
  then show ?case using next_end [OF Nil(1)] by (cases fuel) (auto simp: ebind_def)
next
  case (Cons x xs)
  obtain n where n: "fuel = Suc n" "length xs < n" using Cons.prems(2) by (cases fuel) auto
  obtain s1 where s1: "next s = (Inr (Some x), s1)" "left s1 = Some xs" using next_record [OF Cons.prems(1)] by blast
  then show ?case using Cons.IH [OF s1(2) n(2)] n(1) by (auto simp: ebind_def)
qed

text \<open>One step of a source, at the end or not.\<close>

lemma next_step:
  assumes "left s = Some xs"
  obtains s' where "next s = (Inr (case xs of [] \<Rightarrow> None | x # _ \<Rightarrow> Some x), s')" "left s' = Some (tl xs)"
  using next_end [of s] next_record [of s] assms by (cases xs) auto

end

lemma record_sourceI:
  assumes "\<And>s xs. left s = Some xs \<Longrightarrow>
     \<exists>s'. next s = (Inr (case xs of [] \<Rightarrow> None | x # _ \<Rightarrow> Some x), s') \<and> left s' = Some (tl xs)"
  shows "record_source next left"
proof
  show "\<exists>s'. next s = (Inr None, s') \<and> left s' = Some []" if "left s = Some []" for s
    using assms [OF that] by simp
  show "\<exists>s'. next s = (Inr (Some x), s') \<and> left s' = Some xs" if "left s = Some (x # xs)" for s x xs
    using assms [OF that] by simp
qed

text \<open>Consecutive calls of \<^verbatim>\<open>Next\<close> on a source return the records one by one, and then null.\<close>

fun calls :: "('s, Record option) em \<Rightarrow> nat \<Rightarrow> ('s, Record option list) em" where
  "calls next 0 = eret []"
| "calls next (Suc n) = ebind next (\<lambda>r. ebind (calls next n) (\<lambda>rs. eret (r # rs)))"

context record_source
begin

lemma calls_ok:
  "left s = Some xs \<Longrightarrow>
   \<exists>s'. calls next n s = (Inr (take n (map Some xs @ replicate n None)), s') \<and> left s' = Some (drop n xs)"
proof (induction n arbitrary: s xs)
  case (Suc n)
  obtain s1 where s1: "next s = (Inr (case xs of [] \<Rightarrow> None | x # _ \<Rightarrow> Some x), s1)" "left s1 = Some (tl xs)"
    by (rule next_step [OF Suc.prems])
  obtain s' where s': "calls next n s1 = (Inr (take n (map Some (tl xs) @ replicate n None)), s')" "left s' = Some (drop n (tl xs))"
    using Suc.IH [OF s1(2)] by blast
  have "calls next (Suc n) s = (Inr (take (Suc n) (map Some xs @ replicate (Suc n) None)), s')"
    using s1(1) s'(1) by (cases xs) (simp_all add: ebind_def replicate_append_same [symmetric])
  then show ?case using s'(2) by (cases xs) auto
qed simp

end

section \<open>What the executors compute\<close>

text \<open>Selection: the records for which the predicate is true, not those for which it is null.\<close>

definition holds_for :: "eval_env \<Rightarrow> Expr \<Rightarrow> Record \<Rightarrow> bool" where
  "holds_for env predicate x \<longleftrightarrow>
     (\<exists>v. Evaluate env predicate x = Inr v \<and> \<not> IsNull v \<and> GetValue_bool v = Inr True)"

text \<open>The predicate has a truth value on the record, which may be null.\<close>

definition decided :: "eval_env \<Rightarrow> Expr \<Rightarrow> Record \<Rightarrow> bool" where
  "decided env predicate x \<longleftrightarrow>
     (\<exists>v. Evaluate env predicate x = Inr v \<and> (IsNull v \<or> (\<exists>b. GetValue_bool v = Inr b)))"

text \<open>The test of the filter decides it.\<close>

lemma holds_for_passes: "holds_for env predicate x \<longleftrightarrow> passes env predicate x = Inr True"
  by (auto simp: holds_for_def passes_def rbind_eq_Inr_iff split: if_splits)

lemma decided_passes: "decided env predicate x \<longleftrightarrow> (\<exists>b. passes env predicate x = Inr b)"
  by (auto simp: decided_def passes_def rbind_eq_Inr_iff)

definition filter_left :: "eval_env \<Rightarrow> Expr \<Rightarrow> Record list \<Rightarrow> Record list option" where
  "filter_left env predicate xs =
     (if list_all (decided env predicate) xs \<and> length xs < ROW_FUEL then Some (filter (holds_for env predicate) xs) else None)"

text \<open>Projection.\<close>

definition project :: "eval_env \<Rightarrow> Expr list \<Rightarrow> Record \<Rightarrow> Record result" where
  "project env exprs x = rbind (evaluate_all env exprs x) (\<lambda>values. Record_new values (r_rid x))"

definition project_left :: "eval_env \<Rightarrow> Expr list \<Rightarrow> Record list \<Rightarrow> Record list option" where
  "project_left env exprs xs = (case rmap (project env exprs) xs of Inl _ \<Rightarrow> None | Inr ys \<Rightarrow> Some ys)"

lemma project_left_iff: "project_left env exprs xs = Some ys \<longleftrightarrow> list_all2 (\<lambda>x y. project env exprs x = Inr y) xs ys"
  unfolding rmap_Inr_iff [symmetric] by (auto simp: project_left_def split: sum.split)

text \<open>Limit, with what is left of the offset and of the count.\<close>

definition limit_left ::
    "32 word option \<Rightarrow> 32 word option \<Rightarrow> ('s \<Rightarrow> Record list option) \<Rightarrow> 's LimitExec \<Rightarrow> Record list option" where
  "limit_left limit_count limit_offset remaining s =
     (let l = (case limit_offset of None \<Rightarrow> 0 | Some l \<Rightarrow> l)
      in case remaining (li_child s) of
           None \<Rightarrow> None
         | Some xs \<Rightarrow>
             if unat l < 2 ^ 31 \<and> unat (li_offset s) < 2 ^ 31 \<and> (case limit_count of None \<Rightarrow> True | Some n \<Rightarrow> unat n < 2 ^ 31)
             then let ys = drop (unat l - unat (li_offset s)) xs
                  in Some (case limit_count of None \<Rightarrow> ys | Some n \<Rightarrow> take (unat n - unat (li_count s)) ys)
             else None)"

context record_source
begin

lemma filter_loop_ok:
  assumes "left s = Some xs" "list_all (decided env predicate) xs" "length xs < fuel"
  shows "\<exists>s'. filter_loop env predicate next fuel s =
       (Inr (case filter (holds_for env predicate) xs of [] \<Rightarrow> None | x # _ \<Rightarrow> Some x), s') \<and>
     (\<exists>ys. left s' = Some ys \<and> list_all (decided env predicate) ys \<and> length ys \<le> length xs \<and>
        filter (holds_for env predicate) ys = tl (filter (holds_for env predicate) xs))"
  using assms
proof (induction xs arbitrary: s fuel)
  case Nil
  obtain s' where "next s = (Inr None, s')" "left s' = Some []" using next_end [OF Nil(1)] by blast
  then show ?case using Nil(3) by (cases fuel) (auto simp: ebind_def)
next
  case (Cons x xs)
  obtain n where n: "fuel = Suc n" "length xs < n" using Cons.prems(3) by (cases fuel) auto
  obtain s1 where s1: "next s = (Inr (Some x), s1)" "left s1 = Some xs" using next_record [OF Cons.prems(1)] by blast
  have d: "list_all (decided env predicate) xs" using Cons.prems(2) by simp
  obtain b where b: "passes env predicate x = Inr b" using Cons.prems(2) by (auto simp: decided_passes)
  then have h: "holds_for env predicate x \<longleftrightarrow> b" by (simp add: holds_for_passes)
  show ?case
  proof (cases b)
    case True
    then show ?thesis using s1 b h n(1) d by (auto simp: ebind_def)
  next
    case False
    obtain s' ys where "filter_loop env predicate next n s1 =
        (Inr (case filter (holds_for env predicate) xs of [] \<Rightarrow> None | x # _ \<Rightarrow> Some x), s')" "left s' = Some ys"
      "list_all (decided env predicate) ys" "length ys \<le> length xs"
      "filter (holds_for env predicate) ys = tl (filter (holds_for env predicate) xs)"
      using Cons.IH [OF s1(2) d n(2)] by blast
    then show ?thesis using s1 b h n(1) False by (auto simp: ebind_def)
  qed
qed

lemma filter_source: "record_source (Filter_Next env predicate next) (\<lambda>s. Option.bind (left s) (filter_left env predicate))"
proof
  fix s assume "Option.bind (left s) (filter_left env predicate) = Some []"
  then obtain xs where xs: "left s = Some xs" "list_all (decided env predicate) xs" "length xs < ROW_FUEL"
    "filter (holds_for env predicate) xs = []"
    by (auto simp: bind_eq_Some_conv filter_left_def split: if_splits)
  then show "\<exists>s'. Filter_Next env predicate next s = (Inr None, s') \<and> Option.bind (left s') (filter_left env predicate) = Some []"
    using filter_loop_ok [OF xs(1-3)] by (force simp: Filter_Next_def filter_left_def)
next
  fix s y ys assume "Option.bind (left s) (filter_left env predicate) = Some (y # ys)"
  then obtain xs where xs: "left s = Some xs" "list_all (decided env predicate) xs" "length xs < ROW_FUEL"
    "filter (holds_for env predicate) xs = y # ys"
    by (auto simp: bind_eq_Some_conv filter_left_def split: if_splits)
  then show "\<exists>s'. Filter_Next env predicate next s = (Inr (Some y), s') \<and> Option.bind (left s') (filter_left env predicate) = Some ys"
    using filter_loop_ok [OF xs(1-3)] by (force simp: Filter_Next_def filter_left_def)
qed

lemma Projection_step:
  "next s = (Inr (Some x), s') \<Longrightarrow> project env exprs x = Inr y \<Longrightarrow> Projection_Next env exprs next s = (Inr (Some y), s')"
  by (simp add: Projection_Next_def ebind_def project_def)

lemma projection_source: "record_source (Projection_Next env exprs next) (\<lambda>s. Option.bind (left s) (project_left env exprs))"
proof
  fix s assume "Option.bind (left s) (project_left env exprs) = Some []"
  then have "left s = Some []"
    by (auto simp: bind_eq_Some_conv project_left_iff)
  then obtain s' where "next s = (Inr None, s')" "left s' = Some []" using next_end by blast
  then show "\<exists>s'. Projection_Next env exprs next s = (Inr None, s') \<and> Option.bind (left s') (project_left env exprs) = Some []"
    by (intro exI [of _ s']) (simp add: Projection_Next_def ebind_def project_left_iff)
next
  fix s y ys assume "Option.bind (left s) (project_left env exprs) = Some (y # ys)"
  then obtain x xs where x: "left s = Some (x # xs)" "project env exprs x = Inr y" "project_left env exprs xs = Some ys"
    by (auto simp: bind_eq_Some_conv project_left_iff list_all2_Cons2)
  then obtain s' where "next s = (Inr (Some x), s')" "left s' = Some xs" using next_record by blast
  then show "\<exists>s'. Projection_Next env exprs next s = (Inr (Some y), s') \<and> Option.bind (left s') (project_left env exprs) = Some ys"
    using x(2,3) Projection_step by (intro exI [of _ s']) simp
qed

lemma limit_skip_ok:
  assumes "left (li_child s) = Some xs" "unat (li_offset s) + n < 2 ^ 31"
  shows "\<exists>c. limit_skip next n s = (Inr (), s\<lparr>li_offset := li_offset s + of_nat n, li_child := c\<rparr>) \<and> left c = Some (drop n xs)"
  using assms
proof (induction n arbitrary: s xs)
  case (Suc n)
  have "int_incr (li_offset s) = Inr (li_offset s + 1)" using Suc.prems(2) by (auto simp: int_incr_def)
  moreover obtain c where c: "next (li_child s) = (Inr (case xs of [] \<Rightarrow> None | x # _ \<Rightarrow> Some x), c)" "left c = Some (tl xs)"
    by (rule next_step [OF Suc.prems(1)])
  ultimately have run: "limit_skip next (Suc n) s = limit_skip next n (s\<lparr>li_offset := li_offset s + 1, li_child := c\<rparr>)"
    by (simp add: ebind_def on_child_def ezoom_def)
  let ?s = "s\<lparr>li_offset := li_offset s + 1, li_child := c\<rparr>"
  have "unat (li_offset s + 1) = unat (li_offset s) + 1" using Suc.prems(2) by (subst unat_add_small) simp_all
  then have "\<exists>c'. limit_skip next n ?s = (Inr (), ?s\<lparr>li_offset := li_offset ?s + of_nat n, li_child := c'\<rparr>) \<and> left c' = Some (drop n (tl xs))"
    using Suc.IH [of ?s "tl xs"] c(2) Suc.prems(2) by simp
  then show ?case unfolding run by (auto simp: algebra_simps drop_Suc)
next
  case 0
  then show ?case by (intro exI [of _ "li_child s"]) simp
qed

lemma limit_step:
  assumes "limit_left limit_count limit_offset left s = Some xs"
  shows "\<exists>s'. Limit_Next limit_count limit_offset next s = (Inr (case xs of [] \<Rightarrow> None | x # _ \<Rightarrow> Some x), s') \<and>
     limit_left limit_count limit_offset left s' = Some (tl xs)"
proof -
  let ?l = "case limit_offset of None \<Rightarrow> 0 | Some l \<Rightarrow> l"
  let ?k = "unat ?l - unat (li_offset s)"
  obtain zs where zs: "left (li_child s) = Some zs" "unat ?l < 2 ^ 31" "unat (li_offset s) < 2 ^ 31"
    "\<And>n. limit_count = Some n \<Longrightarrow> unat n < 2 ^ 31"
    "xs = (case limit_count of None \<Rightarrow> drop ?k zs | Some n \<Rightarrow> take (unat n - unat (li_count s)) (drop ?k zs))"
    using assms by (auto simp: limit_left_def Let_def split: option.splits if_splits)
  have "unat (li_offset s) + ?k < 2 ^ 31" using zs(2,3) by simp
  then obtain c where c: "limit_skip next ?k s = (Inr (), s\<lparr>li_offset := li_offset s + of_nat ?k, li_child := c\<rparr>)"
    "left c = Some (drop ?k zs)"
    using limit_skip_ok [OF zs(1)] by blast
  let ?s1 = "s\<lparr>li_offset := li_offset s + of_nat ?k, li_child := c\<rparr>"
  have "unat (of_nat ?k :: 32 word) = ?k" by (rule unat_of_nat_small) (use zs(2) in simp)
  then have off: "unat (li_offset s + of_nat ?k) = unat (li_offset s) + ?k"
    using zs(2,3) by (subst unat_add_small) simp_all
  obtain c' where c': "next c = (Inr (case drop ?k zs of [] \<Rightarrow> None | x # _ \<Rightarrow> Some x), c')" "left c' = Some (tl (drop ?k zs))"
    by (rule next_step [OF c(2)])
  show ?thesis
  proof (cases limit_count)
    case None
    then show ?thesis
      using c c' zs off by (auto simp: Limit_Next_def ebind_def on_child_def ezoom_def limit_left_def Let_def)
  next
    case (Some n)
    show ?thesis
    proof (cases "li_count s < n")
      case True
      have lt: "unat (li_count s) < unat n" "unat n < 2 ^ 31" using True zs(4) Some by (simp_all add: word_less_nat_alt)
      then have i: "int_incr (li_count s) = Inr (li_count s + 1)" by (auto simp: int_incr_def)
      have "unat (li_count s + 1) = Suc (unat (li_count s))" using lt by (subst unat_add_small) simp_all
      then have "take (unat n - unat (li_count s + 1)) (tl (drop ?k zs)) = tl xs"
        using zs(5) Some lt by (simp add: Suc_diff_Suc [symmetric] tl_take)
      moreover have "(case xs of [] \<Rightarrow> None | x # _ \<Rightarrow> Some x) = (case drop ?k zs of [] \<Rightarrow> None | x # _ \<Rightarrow> Some x)"
        using zs(5) Some lt by (cases "drop ?k zs") (auto simp: take_Cons split: nat.split)
      ultimately show ?thesis
        using c c' zs off i True Some by (auto simp: Limit_Next_def ebind_def on_child_def ezoom_def limit_left_def Let_def)
    next
      case False
      then have "xs = []" using zs(5) Some by (simp add: word_less_nat_alt)
      then show ?thesis
        using c zs off False Some by (auto simp: Limit_Next_def ebind_def limit_left_def Let_def word_less_nat_alt)
    qed
  qed
qed

lemma limit_source: "record_source (Limit_Next limit_count limit_offset next) (limit_left limit_count limit_offset left)"
  by (rule record_sourceI) (rule limit_step)

end

section \<open>Values\<close>

definition values_row :: "eval_env \<Rightarrow> Expr list \<Rightarrow> Record result" where
  "values_row env exprs = rbind (rmap (Evaluate_null env) exprs) (\<lambda>vs. Record_new vs no_rid)"

definition values_left :: "eval_env \<Rightarrow> Expr list list \<Rightarrow> 's ValuesExec \<Rightarrow> Record list option" where
  "values_left env values s = (case rmap (values_row env) (drop (ve_cursor s) values) of Inl _ \<Rightarrow> None | Inr xs \<Rightarrow> Some xs)"

lemma values_left_iff:
  "values_left env values s = Some xs \<longleftrightarrow> list_all2 (\<lambda>e x. values_row env e = Inr x) (drop (ve_cursor s) values) xs"
  unfolding rmap_Inr_iff [symmetric] by (auto simp: values_left_def split: sum.split)

interpretation values_source: record_source "Values_Next env rows" "values_left env rows" for env rows
proof (rule record_sourceI)
  fix s :: "'s ValuesExec" and xs
  assume l: "values_left env rows s = Some xs"
  show "\<exists>s'. Values_Next env rows s = (Inr (case xs of [] \<Rightarrow> None | x # _ \<Rightarrow> Some x), s') \<and> values_left env rows s' = Some (tl xs)"
  proof (cases "length rows \<le> ve_cursor s")
    case True
    then show ?thesis using l by (auto simp: values_left_iff Values_Next_def)
  next
    case False
    then have d: "drop (ve_cursor s) rows = rows ! ve_cursor s # drop (Suc (ve_cursor s)) rows"
      by (simp add: Cons_nth_drop_Suc)
    obtain x ys where x: "xs = x # ys" "values_row env (rows ! ve_cursor s) = Inr x"
      "list_all2 (\<lambda>e x. values_row env e = Inr x) (drop (Suc (ve_cursor s)) rows) ys"
      using l unfolding values_left_iff d by (auto simp: list_all2_Cons1)
    then show ?thesis
      using False by (auto simp: values_left_iff Values_Next_def values_row_def rbind_eq_Inr_iff Let_def)
  qed
qed

section \<open>Sequential scan\<close>

record ScanEnv =
  sx_scan :: TableScan
  sx_tx :: TxEnv

definition SeqScan_Init :: "(oid_t \<Rightarrow> Table result) \<Rightarrow> oid_t \<Rightarrow> PoolEnv \<Rightarrow> TableScan result" where
  "SeqScan_Init get_table oid pool =
     rbind (get_table oid) (\<lambda>table. Inr (TableScan_new pool table (page_start (tb_first_page_id table))))"

definition active_xids :: "IsolationLevel \<Rightarrow> xid_t \<Rightarrow> (TxEnv, xid_t set) em" where
  "active_xids level xid = (if level = REPEATABLE_READ then GetSnapshot xid else eget GetActiveTransactions)"

definition lock_table :: "xid_t \<Rightarrow> LockType \<Rightarrow> oid_t \<Rightarrow> (TxEnv, bool) em" where
  "lock_table xid ty oid e = (case LockTable xid ty oid (te_locks e) of (ok, lm) \<Rightarrow> (Inr ok, e\<lparr>te_locks := lm\<rparr>))"

definition SeqScan_Next :: "xid_t \<Rightarrow> IsolationLevel \<Rightarrow> cid_t \<Rightarrow> oid_t \<Rightarrow> (ScanEnv, Record option) em" where
  "SeqScan_Next xid level cid oid =
     ebind (ezoom sx_tx (\<lambda>t s. s\<lparr>sx_tx := t\<rparr>) (active_xids level xid)) (\<lambda>active.
     ebind (ezoom sx_tx (\<lambda>t s. s\<lparr>sx_tx := t\<rparr>) (lock_table xid IS oid)) (\<lambda>lock_flag.
       if \<not> lock_flag then ethrow (DbException ''seq scan failed'')
       else ezoom sx_scan (\<lambda>t s. s\<lparr>sx_scan := t\<rparr>) (GetNextRecord xid level cid active)))"

text \<open>Asking again for the intention lock that one has changes nothing.\<close>

lemma Upgrade_IS: "Upgrade (Upgrade a IS) IS = Upgrade a IS" "Upgrade IS IS = IS"
  by (cases a; simp add: Upgrade_def)+

lemma LockTable_loop_Cons:
  "LockTable_loop oid ty (it # ls) now =
     (if is_table_lock oid it
      then (it\<lparr>lk_type := Upgrade (lk_type it) ty\<rparr> # fst (LockTable_loop oid ty ls (Some (Upgrade (lk_type it) ty))),
            snd (LockTable_loop oid ty ls (Some (Upgrade (lk_type it) ty))))
      else (it # fst (LockTable_loop oid ty ls now), snd (LockTable_loop oid ty ls now)))"
  by (simp add: Let_def split: prod.split)

lemma is_table_lock_retype [simp]: "is_table_lock oid (it\<lparr>lk_type := ty\<rparr>) = is_table_lock oid it"
  by (simp add: is_table_lock_def)

lemma LockTable_loop_again:
  "LockTable_loop oid IS (fst (LockTable_loop oid IS ls now)) now = LockTable_loop oid IS ls now"
  by (induction ls arbitrary: now) (simp_all add: LockTable_loop_Cons Upgrade_IS del: LockTable_loop.simps(2))

lemma LockTable_loop_some: "snd (LockTable_loop oid ty ls (Some t)) \<noteq> None"
  by (induction ls arbitrary: t) (simp_all add: LockTable_loop_Cons del: LockTable_loop.simps(2))

lemma LockTable_loop_none:
  "snd (LockTable_loop oid IS ls None) = None \<Longrightarrow>
   LockTable_loop oid IS (fst (LockTable_loop oid IS ls None) @ [\<lparr>lk_granularity = TABLE, lk_type = IS, lk_oid = oid, lk_rid = None\<rparr>]) None =
     (fst (LockTable_loop oid IS ls None) @ [\<lparr>lk_granularity = TABLE, lk_type = IS, lk_oid = oid, lk_rid = None\<rparr>], Some IS)"
proof (induction ls)
  case Nil
  then show ?case by (simp add: is_table_lock_def Upgrade_IS)
next
  case (Cons it ls)
  then have "\<not> is_table_lock oid it"
    using LockTable_loop_some [of oid IS ls "Upgrade (lk_type it) IS"] by (auto simp: LockTable_loop_Cons simp del: LockTable_loop.simps(2))
  then show ?case using Cons by (simp add: LockTable_loop_Cons del: LockTable_loop.simps(2))
qed

lemma LockTable_IS_again: "LockTable xid IS oid lm = (ok, lm') \<Longrightarrow> LockTable xid IS oid lm' = (ok, lm')"
proof -
  assume run: "LockTable xid IS oid lm = (ok, lm')"
  obtain ls now where l: "LockTable_loop oid IS (locks_of lm xid) None = (ls, now)" by fastforce
  let ?new = "\<lparr>lk_granularity = TABLE, lk_type = IS, lk_oid = oid, lk_rid = None\<rparr>"
  let ?ls = "case now of Some t \<Rightarrow> ls | None \<Rightarrow> ls @ [?new]" and ?now = "case now of Some t \<Rightarrow> t | None \<Rightarrow> IS"
  have lm': "lm' = lm\<lparr>lm_lock_map := AList.update xid ?ls (lm_lock_map lm)\<rparr>" "ok = LockTable_check xid oid ?now lm'"
    using run l by (auto simp: LockTable_def Let_def split: option.splits)
  have "LockTable_loop oid IS ?ls None = (?ls, Some ?now)"
    using LockTable_loop_again [of oid "locks_of lm xid" None] LockTable_loop_none [of oid "locks_of lm xid"] l by (cases now) auto
  moreover have "locks_of lm' xid = ?ls" by (simp add: lm'(1) locks_of_def update_conv)
  moreover have "AList.update xid ?ls (lm_lock_map lm') = lm_lock_map lm'" by (simp add: lm'(1))
  ultimately show ?thesis using lm'(2) by (simp add: LockTable_def)
qed

text \<open>The rows behind the position of the scan, and a row as it is returned.\<close>

definition seq_rest :: "Record list list \<Rightarrow> TableScan \<Rightarrow> (Rid \<times> Record) list" where
  "seq_rest rss s =
     (if rid_page_id (ts_rid s) = NULL_PAGE_ID then []
      else rows_from rss (unat (rid_page_id (ts_rid s))) (unat (rid_slot_id (ts_rid s))))"

definition read_row :: "Rid \<times> Record \<Rightarrow> Record" where
  "read_row x = (case copy_row (map nullify (r_values (snd x))) (fst x) (r_header (snd x)) of Inr r \<Rightarrow> r | Inl _ \<Rightarrow> snd x)"

lemma reads_as_row: "reads_as (snd x) (fst x) rec \<Longrightarrow> rec = read_row x"
  by (simp add: reads_as_def read_row_def)

lemma scan_rest_seq:
  assumes "scan_rest rss s rest"
  shows "rest = seq_rest rss s"
proof (cases "rid_page_id (ts_rid s) = NULL_PAGE_ID")
  case True
  have n: "length rss < 2 ^ 32" using assms by (simp add: scan_rest_def table_pages_def table_owns_def)
  have "rid_page_id (rid_at i j) \<noteq> NULL_PAGE_ID" if "i < length rss" for i j
    using page_id_not_null [of i] that n by (auto simp: rid_at_def)
  then show ?thesis using assms True unfolding scan_rest_def seq_rest_def by metis
next
  case False
  then obtain i j where ij: "i < length rss" "j < length (rss ! i)" "ts_rid s = rid_at i j" "rest = rows_from rss i j"
    "table_pages NULL_PAGE_ID (ts_table s) rss (ts_pool s)"
    using assms unfolding scan_rest_def by blast
  have "length rss < 2 ^ 32" "length (rss ! i) \<le> 14"
    using ij(1,5) row_count [OF ij(5,1)] by (simp_all add: table_pages_def table_owns_def)
  then have "unat (of_nat i :: pageid_t) = i" "unat (of_nat j :: slotid_t) = j"
    using ij(1,2) by (simp_all add: unat_of_nat_small)
  then show ?thesis using False ij(3,4) unfolding seq_rest_def by (simp add: rid_at_def)
qed

definition seq_left ::
    "Record list list \<Rightarrow> xid_t \<Rightarrow> IsolationLevel \<Rightarrow> cid_t \<Rightarrow> oid_t \<Rightarrow> ScanEnv \<Rightarrow> Record list option" where
  "seq_left rss xid level cid oid s =
     (case active_xids level xid (sx_tx s) of
        (Inl _, _) \<Rightarrow> None
      | (Inr active, _) \<Rightarrow>
          if fst (LockTable xid IS oid (te_locks (sx_tx s))) \<and> scan_rest rss (sx_scan s) (seq_rest rss (sx_scan s))
          then Some (map read_row (filter (\<lambda>x. \<not> skips xid level cid active x) (seq_rest rss (sx_scan s))))
          else None)"

lemma active_xids_locks:
  "active_xids level xid e = (Inr A, e') \<Longrightarrow> e' = e \<and> active_xids level xid (e\<lparr>te_locks := lm\<rparr>) = (Inr A, e\<lparr>te_locks := lm\<rparr>)"
  by (auto simp: active_xids_def GetSnapshot_def GetActiveTransactions_def ebind_def split: if_splits option.splits)

interpretation seq_source: record_source "SeqScan_Next xid level cid oid" "seq_left rss xid level cid oid" for rss xid level cid oid
proof (rule record_sourceI)
  fix s xs assume l: "seq_left rss xid level cid oid s = Some xs"
  obtain A e where a: "active_xids level xid (sx_tx s) = (Inr A, e)" and lk: "fst (LockTable xid IS oid (te_locks (sx_tx s)))"
    and sr: "scan_rest rss (sx_scan s) (seq_rest rss (sx_scan s))"
    and xs: "xs = map read_row (filter (\<lambda>x. \<not> skips xid level cid A x) (seq_rest rss (sx_scan s)))"
    using l by (auto simp: seq_left_def split: prod.splits sum.splits if_splits)
  let ?sk = "skips xid level cid A" and ?rest = "seq_rest rss (sx_scan s)"
  obtain lm where lm: "LockTable xid IS oid (te_locks (sx_tx s)) = (True, lm)" using lk by (metis prod.collapse)
  let ?tx = "(sx_tx s)\<lparr>te_locks := lm\<rparr>"
  obtain res t where g: "GetNextRecord xid level cid A (sx_scan s) = (Inr res, t)"
    "case dropWhile ?sk ?rest of [] \<Rightarrow> res = None \<and> scan_rest rss t []
     | x # xs \<Rightarrow> (\<exists>rec. res = Some rec \<and> reads_as (snd x) (fst x) rec) \<and> scan_rest rss t xs"
    by (rule GetNextRecord_ok [OF sr])
  let ?s' = "s\<lparr>sx_tx := ?tx, sx_scan := t\<rparr>"
  have run: "SeqScan_Next xid level cid oid s = (Inr res, ?s')"
    using active_xids_locks [OF a] a lm g(1) by (simp add: SeqScan_Next_def ebind_def ezoom_def lock_table_def)
  have tx: "active_xids level xid ?tx = (Inr A, ?tx)" "LockTable xid IS oid (te_locks ?tx) = (True, lm)"
    using active_xids_locks [OF a] LockTable_IS_again [OF lm] by simp_all
  have left': "seq_left rss xid level cid oid ?s' = Some (map read_row (filter (\<lambda>x. \<not> ?sk x) rest'))" if "scan_rest rss t rest'" for rest'
    using that scan_rest_seq [OF that] tx by (simp add: seq_left_def)
  show "\<exists>s'. SeqScan_Next xid level cid oid s = (Inr (case xs of [] \<Rightarrow> None | x # _ \<Rightarrow> Some x), s') \<and>
      seq_left rss xid level cid oid s' = Some (tl xs)"
  proof (cases "dropWhile ?sk ?rest")
    case Nil
    then have "xs = []" using filter_dropWhile [of ?sk ?rest] xs by simp
    then show ?thesis using run g(2) Nil left' [of "[]"] by auto
  next
    case (Cons x ys)
    then have "\<not> ?sk x" using hd_dropWhile [of ?sk ?rest] by auto
    then have "filter (\<lambda>x. \<not> ?sk x) ?rest = x # filter (\<lambda>x. \<not> ?sk x) ys"
      using filter_dropWhile [of ?sk ?rest] Cons by simp
    then have "xs = read_row x # map read_row (filter (\<lambda>x. \<not> ?sk x) ys)" using xs by simp
    then show ?thesis using run g(2) Cons left' [of ys] reads_as_row [of x] by auto
  qed
qed

section \<open>Properties\<close>

text \<open>
  C24. A query of a projection over a filter over a source, with \<^verbatim>\<open>LIMIT\<close> and \<^verbatim>\<open>OFFSET\<close>, computes the
  relational expression: when the predicate and the projected expressions can be evaluated on the
  records of the source, and \<^verbatim>\<open>LIMIT\<close> and \<^verbatim>\<open>OFFSET\<close> are below \<open>2 ^ 31\<close> (the counts are signed), the calls of \<^verbatim>\<open>Next\<close> return, in order, the projections of the records that
  satisfy the predicate, without the first \<^verbatim>\<open>OFFSET\<close> and at most \<^verbatim>\<open>LIMIT\<close> of them, and then null; a record
  whose predicate is null is left out.
\<close>

theorem query_pipeline:
  assumes src: "record_source next remaining" and xs: "remaining s = Some xs" "length xs < ROW_FUEL"
    and dec: "list_all (decided env predicate) xs" and pr: "rmap (project env exprs) (filter (holds_for env predicate) xs) = Inr ys"
    and lim: "unat limit < 2 ^ 31" "unat offset < 2 ^ 31"
  shows "\<exists>s'. calls (Limit_Next (Some limit) (Some offset) (Projection_Next env exprs (Filter_Next env predicate next))) n
       \<lparr>li_count = 0, li_offset = 0, li_child = s\<rparr> =
     (Inr (take n (map Some (take (unat limit) (drop (unat offset) ys)) @ replicate n None)), s')"
proof -
  let ?f = "\<lambda>s. Option.bind (remaining s) (filter_left env predicate)"
  let ?p = "\<lambda>s. Option.bind (?f s) (project_left env exprs)"
  have src': "record_source (Limit_Next (Some limit) (Some offset) (Projection_Next env exprs (Filter_Next env predicate next)))
      (limit_left (Some limit) (Some offset) ?p)"
    by (intro record_source.limit_source record_source.projection_source record_source.filter_source src)
  have "limit_left (Some limit) (Some offset) ?p \<lparr>li_count = 0, li_offset = 0, li_child = s\<rparr>
      = Some (take (unat limit) (drop (unat offset) ys))"
    using xs dec pr lim by (simp add: limit_left_def filter_left_def project_left_def)
  then show ?thesis using record_source.calls_ok [OF src'] by blast
qed

definition sample_rows :: "Expr list list" where
  "sample_rows = [[Const (Value_int 1)], [Const (Value_int 7)]]"

definition sample_column :: Expr where
  "sample_column = ColumnValue 0 TINT ''a'' 4 True"

definition sample_predicate :: Expr where
  "sample_predicate = Comparison GREATER sample_column (Const (Value_int 3))"

definition int_row :: "32 word \<Rightarrow> Record" where
  "int_row n = UpdateSize \<lparr>r_null_bitmap = Bitmap_new 1, r_values = [Value_int n], r_header = RecordHeader_default,
     r_rid = no_rid, r_size = 0\<rparr>"

lemma Record_new_int: "Record_new [Value_int n] no_rid = Inr (int_row n)"
  by (simp add: Record_new_def null_marks_def int_row_def IsNull_def Value_int_def)

lemma int_row_fields [simp]: "r_values (int_row n) = [Value_int n]" "r_rid (int_row n) = no_rid"
  by (simp_all add: int_row_def)

lemma sample_pipeline_facts:
  "values_left env sample_rows \<lparr>ve_cursor = 0, ve_rest = ()\<rparr> = Some [int_row 1, int_row 7]"
  "passes env sample_predicate (int_row 1) = Inr False" "passes env sample_predicate (int_row 7) = Inr True"
  "project env [sample_column] (int_row 7) = Inr (int_row 7)"
proof -
  show "values_left env sample_rows \<lparr>ve_cursor = 0, ve_rest = ()\<rparr> = Some [int_row 1, int_row 7]"
    by (simp add: values_left_iff sample_rows_def values_row_def evaluate_all_def Record_new_int)
  show "project env [sample_column] (int_row 7) = Inr (int_row 7)"
    by (simp add: project_def evaluate_all_def sample_column_def Record_GetValue_def Record_new_int)
  have u: "ucast (ucast n :: 64 word) = n" for n :: "32 word" by (rule bit_word_eqI) (simp add: bit_simps)
  have "passes env sample_predicate (int_row n) = Inr (3 <s n)" for n
    by (simp add: u passes_def sample_predicate_def sample_column_def Record_GetValue_def Comparison_Compute_def cmp_int_def
        DoOperation_cmp_def v_int_def v_bool_def Value_int_def Value_bool_def IsNull_def GetValue_bool_def word_sless_alt)
  then show "passes env sample_predicate (int_row 1) = Inr False" "passes env sample_predicate (int_row 7) = Inr True"
    by (simp_all add: word_sless_alt)
qed

lemma replicate_2_None: "replicate 2 None = [None, None]"
  by (simp add: numeral_2_eq_2)

theorem query_pipeline_witness:
  "\<exists>s'. calls (Limit_Next (Some 5) (Some 0) (Projection_Next sample_env [sample_column]
       (Filter_Next sample_env sample_predicate (Values_Next sample_env sample_rows)))) 2
       \<lparr>li_count = 0, li_offset = 0, li_child = \<lparr>ve_cursor = 0, ve_rest = ()\<rparr>\<rparr> = (Inr [Some (int_row 7), None], s')"
proof -
  let ?xs = "[int_row 1, int_row 7]"
  have f: "filter (holds_for sample_env sample_predicate) ?xs = [int_row 7]" "list_all (decided sample_env sample_predicate) ?xs"
    using sample_pipeline_facts(2,3) [of sample_env] by (auto simp: holds_for_passes decided_passes)
  have p: "rmap (project sample_env [sample_column]) (filter (holds_for sample_env sample_predicate) ?xs) = Inr [int_row 7]"
    unfolding f using sample_pipeline_facts(4) by simp
  have "\<exists>s'. calls (Limit_Next (Some 5) (Some 0) (Projection_Next sample_env [sample_column]
      (Filter_Next sample_env sample_predicate (Values_Next sample_env sample_rows)))) 2
      \<lparr>li_count = 0, li_offset = 0, li_child = \<lparr>ve_cursor = 0, ve_rest = ()\<rparr>\<rparr> =
    (Inr (take 2 (map Some (take (unat (5 :: 32 word)) (drop (unat (0 :: 32 word)) [int_row 7])) @ replicate 2 None)), s')"
    by (rule query_pipeline [OF values_source.record_source_axioms sample_pipeline_facts(1) _ f(2) p]) (simp_all add: ROW_FUEL_def)
  then show ?thesis by (simp add: replicate_2_None)
qed

end
