(* ===== verification/Join_Executors.thy ===== *)
theory Join_Executors
  imports Executors
begin

text \<open>
  The joins of \<^verbatim>\<open>src/src/executors/\<close>, which read their children to the end before they return a record:
  \<^verbatim>\<open>NestedLoopJoinExecutor\<close> and \<^verbatim>\<open>MergeJoinExecutor\<close>. The two are compared with the join of two lists of
  records.
\<close>

section \<open>Buffered output\<close>

text \<open>
  The counter of the records that were returned is an \<^verbatim>\<open>int\<close> that starts at 0; adding to the largest one is undefined.
\<close>

definition CNT_END :: nat where "CNT_END = 2 ^ 31"

record 's BufferExec =
  be_cnt :: nat
  be_records :: "Record list"
  be_child :: 's

definition on_children :: "('s, 'a) em \<Rightarrow> ('s BufferExec, 'a) em" where
  "on_children = ezoom be_child (\<lambda>c s. s\<lparr>be_child := c\<rparr>)"

definition push_record :: "Record \<Rightarrow> ('s BufferExec, unit) em" where
  "push_record r = emodify (\<lambda>s. s\<lparr>be_records := be_records s @ [r]\<rparr>)"

text \<open>The joins return a new record with the values, the rid and the stamps of the buffered one.\<close>

definition copy_record :: "Record \<Rightarrow> Record result" where
  "copy_record r = copy_row (r_values r) (r_rid r) (r_header r)"

definition join_emit :: "('s BufferExec, Record option) em" where
  "join_emit s =
     (if be_cnt s < length (be_records s)
      then if be_cnt s + 1 = CNT_END then (Inl (Undefined ''signed overflow''), s)
           else (case copy_record (be_records s ! be_cnt s) of
                   Inl e \<Rightarrow> (Inl e, s\<lparr>be_cnt := be_cnt s + 1\<rparr>)
                 | Inr r \<Rightarrow> (Inr (Some r), s\<lparr>be_cnt := be_cnt s + 1\<rparr>))
      else (Inr None, s))"

section \<open>Nested loop join\<close>

definition join_true :: "eval_env \<Rightarrow> Expr \<Rightarrow> Record \<Rightarrow> Record \<Rightarrow> bool result" where
  "join_true env condition r0 r1 = rbind (EvaluateJoin env condition r0 r1) GetValue_bool"

definition join_pair :: "eval_env \<Rightarrow> Expr \<Rightarrow> Record \<times> Record \<Rightarrow> ('s BufferExec, unit) em" where
  "join_pair env condition p =
     ebind (elift (join_true env condition (fst p) (snd p))) (\<lambda>ok.
       if ok then ebind (elift (Record_Append (fst p) (snd p))) push_record else eret ())"

definition NestedLoopJoin_Next ::
    "eval_env \<Rightarrow> Expr \<Rightarrow> ('s, Record option) em \<Rightarrow> ('s, Record option) em \<Rightarrow> ('s BufferExec, Record option) em" where
  "NestedLoopJoin_Next env condition next0 next1 =
     ebind (eget be_cnt) (\<lambda>cnt.
       if cnt = 0
       then ebind (on_children (drain next0 ROW_FUEL)) (\<lambda>records0.
            ebind (on_children (drain next1 ROW_FUEL)) (\<lambda>records1.
              if records0 = [] \<or> records1 = [] then eret None
              else ebind (efor (join_pair env condition) (List.product records0 records1)) (\<lambda>_.
                   ebind (eget be_records) (\<lambda>records.
                     if records = [] then ebind (emodify (\<lambda>s. s\<lparr>be_cnt := be_cnt s + 1\<rparr>)) (\<lambda>_. eret None)
                     else join_emit))))
       else join_emit)"

section \<open>Merge join\<close>

text \<open>
  An iterator into the records of a child is the list of the records from it on; the end iterator is
  the empty list. The variable \<^verbatim>\<open>s_\<close> of the source is singular (\<open>None\<close>) until it is assigned.
\<close>

definition key_cmp ::
    "eval_env \<Rightarrow> (Val \<Rightarrow> Val \<Rightarrow> bool result) \<Rightarrow> Expr \<Rightarrow> Expr \<Rightarrow> Record \<Rightarrow> Record \<Rightarrow> bool result" where
  "key_cmp env cmp left_key right_key r s =
     rbind (Evaluate env left_key r) (\<lambda>a. rbind (Evaluate env right_key s) (cmp a))"

fun mj_skip_right :: "eval_env \<Rightarrow> Expr \<Rightarrow> Expr \<Rightarrow> Record \<Rightarrow> Record list \<Rightarrow> Record list result" where
  "mj_skip_right env lk rk r [] = Inr []"
| "mj_skip_right env lk rk r (s # ss) =
     rbind (key_cmp env Greater lk rk r s) (\<lambda>b. if b then mj_skip_right env lk rk r ss else Inr (s # ss))"

fun mj_skip_left :: "eval_env \<Rightarrow> Expr \<Rightarrow> Expr \<Rightarrow> Record list \<Rightarrow> Record list \<Rightarrow> Record list result" where
  "mj_skip_left env lk rk [] ss = Inr []"
| "mj_skip_left env lk rk (r # rs) [] = Inl (Undefined ''end iterator dereferenced'')"
| "mj_skip_left env lk rk (r # rs) (s # ss) =
     rbind (key_cmp env Less lk rk r s) (\<lambda>b. if b then mj_skip_left env lk rk rs (s # ss) else Inr (r # rs))"

fun mj_inner :: "eval_env \<Rightarrow> Expr \<Rightarrow> Expr \<Rightarrow> Record \<Rightarrow> Record list \<Rightarrow> (Record list \<times> Record list) result" where
  "mj_inner env lk rk r [] = Inr ([], [])"
| "mj_inner env lk rk r (s # ss) =
     rbind (key_cmp env Equal lk rk r s) (\<lambda>b.
       if b then rbind (Record_Append r s) (\<lambda>j.
                 rbind (mj_inner env lk rk r ss) (\<lambda>(out, s'). Inr (j # out, s')))
       else Inr ([], s # ss))"

fun mj_match ::
    "eval_env \<Rightarrow> Expr \<Rightarrow> Expr \<Rightarrow> Record list \<Rightarrow> Record list \<Rightarrow> Record list option
      \<Rightarrow> (Record list \<times> Record list \<times> Record list option) result" where
  "mj_match env lk rk [] ss sx = Inr ([], [], sx)"
| "mj_match env lk rk (r # rs) [] sx = Inr ([], r # rs, sx)"
| "mj_match env lk rk (r # rs) (s # ss) sx =
     rbind (key_cmp env Equal lk rk r s) (\<lambda>b.
       if b then rbind (mj_inner env lk rk r (s # ss)) (\<lambda>(out, s').
                 rbind (mj_match env lk rk rs (s # ss) (Some s')) (\<lambda>(out', rs', sx'). Inr (out @ out', rs', sx')))
       else Inr ([], r # rs, sx))"

text \<open>
  Every round of the outer loop that is followed by another has matched a record of the left child,
  so as many rounds as there are records are enough.
\<close>

fun mj_loop :: "eval_env \<Rightarrow> Expr \<Rightarrow> Expr \<Rightarrow> nat \<Rightarrow> Record list \<Rightarrow> Record list option \<Rightarrow> Record list result" where
  "mj_loop env lk rk 0 rs ss = Inl Diverges"
| "mj_loop env lk rk (Suc fuel) rs ss =
     (if rs = [] then Inr []
      else case ss of
             None \<Rightarrow> Inl (Undefined ''singular iterator dereferenced'')
           | Some [] \<Rightarrow> Inr []
           | Some (s # ss') \<Rightarrow>
               rbind (mj_skip_right env lk rk (hd rs) (s # ss')) (\<lambda>ss1.
               rbind (mj_skip_left env lk rk rs ss1) (\<lambda>rs1.
               rbind (mj_match env lk rk rs1 ss1 None) (\<lambda>(out, rs2, sx).
               rbind (mj_loop env lk rk fuel rs2 sx) (\<lambda>out'. Inr (out @ out'))))))"

definition MergeJoin_Next ::
    "eval_env \<Rightarrow> Expr \<Rightarrow> Expr \<Rightarrow> ('s, Record option) em \<Rightarrow> ('s, Record option) em \<Rightarrow> ('s BufferExec, Record option) em" where
  "MergeJoin_Next env left_key right_key next0 next1 =
     ebind (eget be_cnt) (\<lambda>cnt.
       if cnt = 0
       then ebind (on_children (drain next0 ROW_FUEL)) (\<lambda>records0.
            ebind (on_children (drain next1 ROW_FUEL)) (\<lambda>records1.
            ebind (elift (mj_loop env left_key right_key (length records0 + 1) records0 (Some records1))) (\<lambda>out.
            ebind (emodify (\<lambda>s. s\<lparr>be_records := be_records s @ out\<rparr>)) (\<lambda>_.
            ebind (eget be_records) (\<lambda>records.
              if records = [] then eret None else join_emit)))))
       else join_emit)"

section \<open>Two children\<close>

text \<open>Reading one child does not touch the other.\<close>

context record_source
begin

lemma drain_keeps:
  assumes keeps: "\<And>s x s'. next s = (x, s') \<Longrightarrow> left s \<noteq> None \<Longrightarrow> other s = Some ys \<Longrightarrow> other s' = Some ys"
  shows "left s = Some xs \<Longrightarrow> length xs < fuel \<Longrightarrow> other s = Some ys \<Longrightarrow>
     \<exists>s'. drain next fuel s = (Inr xs, s') \<and> left s' = Some [] \<and> other s' = Some ys"
proof (induction xs arbitrary: s fuel)
  case Nil
  obtain s' where s': "next s = (Inr None, s')" "left s' = Some []" using next_end [OF Nil(1)] by blast
  then show ?case using keeps [OF s'(1) _ Nil(3)] Nil by (cases fuel) (auto simp: ebind_def)
next
  case (Cons x xs)
  obtain n where n: "fuel = Suc n" "length xs < n" using Cons.prems(2) by (cases fuel) auto
  obtain s1 where s1: "next s = (Inr (Some x), s1)" "left s1 = Some xs" using next_record [OF Cons.prems(1)] by blast
  have "other s1 = Some ys" using keeps [OF s1(1) _ Cons.prems(3)] Cons.prems(1) by simp
  then show ?case using Cons.IH [OF s1(2) n(2)] n(1) s1 by (auto simp: ebind_def)
qed

end

locale join_sources = l: record_source next0 left0 + r: record_source next1 left1
  for next0 :: "('s, Record option) em" and left0 and next1 :: "('s, Record option) em" and left1 +
  assumes keeps_right: "next0 s = (x, s') \<Longrightarrow> left0 s \<noteq> None \<Longrightarrow> left1 s = Some ys \<Longrightarrow> left1 s' = Some ys"
    and keeps_left: "next1 s = (x, s') \<Longrightarrow> left1 s \<noteq> None \<Longrightarrow> left0 s = Some xs \<Longrightarrow> left0 s' = Some xs"
begin

text \<open>What the joins do first.\<close>

lemma drain_both:
  assumes "left0 (be_child s) = Some xs" "left1 (be_child s) = Some ys" "length xs < ROW_FUEL" "length ys < ROW_FUEL"
  obtains c where "\<forall>f :: Record list \<Rightarrow> Record list \<Rightarrow> ('s BufferExec, Record option) em. ebind (on_children (drain next0 ROW_FUEL)) (\<lambda>a. ebind (on_children (drain next1 ROW_FUEL)) (f a)) s
     = f xs ys (s\<lparr>be_child := c\<rparr>)" "left0 c = Some []" "left1 c = Some []"
proof -
  obtain c0 where c0: "drain next0 ROW_FUEL (be_child s) = (Inr xs, c0)" "left0 c0 = Some []" "left1 c0 = Some ys"
    using l.drain_keeps [of left1 ys "be_child s" xs ROW_FUEL] keeps_right assms(1-3) by blast
  obtain c1 where "drain next1 ROW_FUEL c0 = (Inr ys, c1)" "left1 c1 = Some []" "left0 c1 = Some []"
    using r.drain_keeps [of left0 "[]" c0 ys ROW_FUEL] keeps_left c0(2,3) assms(4) by blast
  then show thesis using that [of c1] c0 by (simp add: on_children_def ezoom_def ebind_def)
qed

end

text \<open>Two children with states of their own.\<close>

definition on_left :: "('a, 'x) em \<Rightarrow> ('a \<times> 'b, 'x) em" where
  "on_left = ezoom fst (\<lambda>a p. (a, snd p))"

definition on_right :: "('b, 'x) em \<Rightarrow> ('a \<times> 'b, 'x) em" where
  "on_right = ezoom snd (\<lambda>b p. (fst p, b))"

lemma pair_sources:
  assumes "record_source next0 left0" "record_source next1 left1"
  shows "join_sources (on_left next0) (\<lambda>p. left0 (fst p)) (on_right next1) (\<lambda>p. left1 (snd p))"
proof -
  have 1: "record_source (on_left next0) (\<lambda>p. left0 (fst p))"
  proof (rule record_sourceI)
    fix p xs assume "left0 (fst p) = Some xs"
    then obtain s' where "next0 (fst p) = (Inr (case xs of [] \<Rightarrow> None | x # _ \<Rightarrow> Some x), s')" "left0 s' = Some (tl xs)"
      using record_source.next_step [OF assms(1)] by blast
    then show "\<exists>s'. on_left next0 p = (Inr (case xs of [] \<Rightarrow> None | x # _ \<Rightarrow> Some x), s') \<and> left0 (fst s') = Some (tl xs)"
      by (simp add: on_left_def ezoom_def)
  qed
  have 2: "record_source (on_right next1) (\<lambda>p. left1 (snd p))"
  proof (rule record_sourceI)
    fix p xs assume "left1 (snd p) = Some xs"
    then obtain s' where "next1 (snd p) = (Inr (case xs of [] \<Rightarrow> None | x # _ \<Rightarrow> Some x), s')" "left1 s' = Some (tl xs)"
      using record_source.next_step [OF assms(2)] by blast
    then show "\<exists>s'. on_right next1 p = (Inr (case xs of [] \<Rightarrow> None | x # _ \<Rightarrow> Some x), s') \<and> left1 (snd s') = Some (tl xs)"
      by (simp add: on_right_def ezoom_def)
  qed
  have 3: "left1 (snd p') = left1 (snd p)" if "on_left next0 p = (x, p')" for p x p'
    using that by (auto simp: on_left_def ezoom_def split: prod.splits)
  have 4: "left0 (fst p') = left0 (fst p)" if "on_right next1 p = (x, p')" for p x p'
    using that by (auto simp: on_right_def ezoom_def split: prod.splits)
  show ?thesis
    by (intro join_sources.intro join_sources_axioms.intro 1 2) (simp_all add: 3 4)
qed

interpretation values_pair: join_sources "on_left (Values_Next env rows)" "\<lambda>p. values_left env rows (fst p)"
  "on_right (Values_Next env rows')" "\<lambda>p. values_left env rows' (snd p)" for env rows rows'
  by (rule pair_sources [OF values_source.record_source_axioms values_source.record_source_axioms])

section \<open>The buffer as a source\<close>

definition buffer_left :: "'s BufferExec \<Rightarrow> Record list option" where
  "buffer_left s =
     (if length (be_records s) < CNT_END
      then case rmap copy_record (drop (be_cnt s) (be_records s)) of Inl _ \<Rightarrow> None | Inr xs \<Rightarrow> Some xs
      else None)"

lemma buffer_left_iff:
  "buffer_left s = Some xs \<longleftrightarrow>
     length (be_records s) < CNT_END \<and> list_all2 (\<lambda>r x. copy_record r = Inr x) (drop (be_cnt s) (be_records s)) xs"
  unfolding rmap_Inr_iff [symmetric] by (auto simp: buffer_left_def split: sum.split)

lemma join_emit_step:
  assumes "buffer_left s = Some xs"
  shows "\<exists>s'. join_emit s = (Inr (case xs of [] \<Rightarrow> None | x # _ \<Rightarrow> Some x), s') \<and> buffer_left s' = Some (tl xs) \<and>
     (xs \<noteq> [] \<or> be_cnt s \<noteq> 0 \<longrightarrow> be_cnt s' \<noteq> 0) \<and> be_child s' = be_child s"
proof (cases "be_cnt s < length (be_records s)")
  case True
  then have "drop (be_cnt s) (be_records s) = be_records s ! be_cnt s # drop (Suc (be_cnt s)) (be_records s)"
    by (simp add: Cons_nth_drop_Suc)
  then obtain x ys where "xs = x # ys" "copy_record (be_records s ! be_cnt s) = Inr x"
    "list_all2 (\<lambda>r x. copy_record r = Inr x) (drop (Suc (be_cnt s)) (be_records s)) ys"
    using assms unfolding buffer_left_iff by (auto simp: list_all2_Cons1)
  moreover have "length (be_records s) < CNT_END" using assms by (simp add: buffer_left_iff)
  ultimately show ?thesis using True by (simp add: join_emit_def buffer_left_iff)
next
  case False
  then show ?thesis using assms by (simp add: join_emit_def buffer_left_iff)
qed

definition buffered :: "Record list result \<Rightarrow> Record list option" where
  "buffered r = (case r of Inl _ \<Rightarrow> None | Inr zs \<Rightarrow> if length zs < CNT_END then Some zs else None)"

lemma buffered_iff: "buffered r = Some zs \<longleftrightarrow> r = Inr zs \<and> length zs < CNT_END"
  by (auto simp: buffered_def split: sum.split)

text \<open>The records a join has still to return: before the first call, what the join of its children gives.\<close>

definition join_left ::
    "('s \<Rightarrow> Record list option) \<Rightarrow> ('s \<Rightarrow> Record list option) \<Rightarrow> (Record list \<Rightarrow> Record list \<Rightarrow> Record list result)
      \<Rightarrow> 's BufferExec \<Rightarrow> Record list option" where
  "join_left left0 left1 J s =
     (if be_cnt s \<noteq> 0
      then (if left0 (be_child s) = Some [] \<and> left1 (be_child s) = Some [] then buffer_left s else None)
      else if be_records s \<noteq> [] then None
      else case (left0 (be_child s), left1 (be_child s)) of
             (Some xs, Some ys) \<Rightarrow>
               if length xs < ROW_FUEL \<and> length ys < ROW_FUEL
               then buffered (rbind (J xs ys) (rmap copy_record))
               else None
           | _ \<Rightarrow> None)"

lemma join_left_first:
  assumes "join_left left0 left1 J s = Some zs" "be_cnt s = 0"
  obtains xs ys js where "be_records s = []" "left0 (be_child s) = Some xs" "left1 (be_child s) = Some ys"
      "length xs < ROW_FUEL" "length ys < ROW_FUEL" "J xs ys = Inr js" "rmap copy_record js = Inr zs" "length zs < CNT_END"
proof -
  have r: "be_records s = []" using assms by (simp add: join_left_def split: if_splits)
  obtain xs ys where xs: "left0 (be_child s) = Some xs" "left1 (be_child s) = Some ys"
    using assms r by (cases "left0 (be_child s)"; cases "left1 (be_child s)") (simp_all add: join_left_def)
  have n: "length xs < ROW_FUEL" "length ys < ROW_FUEL" using assms r xs by (simp_all add: join_left_def split: if_splits)
  have "rbind (J xs ys) (rmap copy_record) = Inr zs" "length zs < CNT_END"
    using assms r xs n by (simp_all add: join_left_def buffered_iff)
  then show thesis using that r xs n by (auto simp: rbind_eq_Inr_iff)
qed

context join_sources
begin

lemma join_source:
  assumes emit: "\<And>s. be_cnt s \<noteq> 0 \<Longrightarrow> nx s = join_emit s" and nil: "J [] [] = Inr []"
    and first: "\<And>s xs ys js. be_cnt s = 0 \<Longrightarrow> be_records s = [] \<Longrightarrow> left0 (be_child s) = Some xs \<Longrightarrow>
      left1 (be_child s) = Some ys \<Longrightarrow> length xs < ROW_FUEL \<Longrightarrow> length ys < ROW_FUEL \<Longrightarrow> J xs ys = Inr js \<Longrightarrow>
      \<exists>c k. left0 c = Some [] \<and> left1 c = Some [] \<and>
        nx s = (if js = [] then (Inr None, s\<lparr>be_child := c, be_cnt := k\<rparr>) else join_emit (s\<lparr>be_child := c, be_records := js\<rparr>))"
  shows "record_source nx (join_left left0 left1 J)"
proof (rule record_sourceI)
  fix s zs assume l: "join_left left0 left1 J s = Some zs"
  show "\<exists>s'. nx s = (Inr (case zs of [] \<Rightarrow> None | x # _ \<Rightarrow> Some x), s') \<and> join_left left0 left1 J s' = Some (tl zs)"
  proof (cases "be_cnt s = 0")
    case False
    have b: "buffer_left s = Some zs" and ends: "left0 (be_child s) = Some []" "left1 (be_child s) = Some []"
      using l False by (simp_all add: join_left_def split: if_splits)
    obtain s' where "join_emit s = (Inr (case zs of [] \<Rightarrow> None | x # _ \<Rightarrow> Some x), s')" "buffer_left s' = Some (tl zs)"
      "be_cnt s' \<noteq> 0" "be_child s' = be_child s"
      using join_emit_step [OF b] False by blast
    then show ?thesis using emit [OF False] ends by (intro exI [of _ s']) (simp add: join_left_def)
  next
    case True
    obtain xs ys js where xs: "be_records s = []" "left0 (be_child s) = Some xs" "left1 (be_child s) = Some ys"
      "length xs < ROW_FUEL" "length ys < ROW_FUEL" "J xs ys = Inr js" "rmap copy_record js = Inr zs"
      "length zs < CNT_END"
      by (rule join_left_first [OF l True])
    obtain c k where c: "left0 c = Some []" "left1 c = Some []"
      "nx s = (if js = [] then (Inr None, s\<lparr>be_child := c, be_cnt := k\<rparr>) else join_emit (s\<lparr>be_child := c, be_records := js\<rparr>))"
      using first [OF True xs(1-6)] by blast
    show ?thesis
    proof (cases "js = []")
      case js: True
      then have "zs = []" using xs(7) by simp
      moreover have "join_left left0 left1 J (s\<lparr>be_child := c, be_cnt := k\<rparr>) = Some []"
        using xs(1) c(1,2) nil by (simp add: join_left_def buffer_left_iff buffered_iff ROW_FUEL_def CNT_END_def)
      ultimately show ?thesis using c(3) js by simp
    next
      case False
      let ?s = "s\<lparr>be_child := c, be_records := js\<rparr>"
      have "length js = length zs" using xs(7) by (simp add: rmap_Inr_iff list_all2_lengthD)
      then have b: "buffer_left ?s = Some zs" using xs(7,8) True by (simp add: buffer_left_def)
      have "zs \<noteq> []" using xs(7) False by (auto simp: rmap_Inr_iff)
      then obtain s' where "join_emit ?s = (Inr (case zs of [] \<Rightarrow> None | x # _ \<Rightarrow> Some x), s')" "buffer_left s' = Some (tl zs)"
        "be_cnt s' \<noteq> 0" "be_child s' = be_child ?s"
        using join_emit_step [OF b] by blast
      then show ?thesis using c False by (intro exI [of _ s']) (simp add: join_left_def)
    qed
  qed
qed

end

section \<open>What the joins compute\<close>

fun join_rows :: "eval_env \<Rightarrow> Expr \<Rightarrow> (Record \<times> Record) list \<Rightarrow> Record list result" where
  "join_rows env condition [] = Inr []"
| "join_rows env condition (p # ps) =
     rbind (join_true env condition (fst p) (snd p)) (\<lambda>ok.
       if ok then rbind (Record_Append (fst p) (snd p)) (\<lambda>j. rbind (join_rows env condition ps) (\<lambda>js. Inr (j # js)))
       else join_rows env condition ps)"

lemma join_pairs_push:
  "join_rows env condition ps = Inr js \<Longrightarrow>
   efor (join_pair env condition) ps s = (Inr (), s\<lparr>be_records := be_records s @ js\<rparr>)"
proof (induction ps arbitrary: s js)
  case (Cons p ps)
  then show ?case
    by (auto simp: rbind_eq_Inr_iff join_pair_def ebind_def push_record_def split: if_splits)
qed simp

text \<open>The row of a pair: the values of both, the rid and the stamps of the left one.\<close>

definition joined :: "Record \<times> Record \<Rightarrow> Record \<Rightarrow> bool" where
  "joined p j \<longleftrightarrow> r_values j = r_values (fst p) @ r_values (snd p) \<and> r_rid j = r_rid (fst p) \<and> r_header j = r_header (fst p)"

lemma Append_fields: "Record_Append r s = Inr j \<Longrightarrow> r_rid j = r_rid r \<and> r_header j = r_header r"
proof -
  have "Append_values vs r = Inr j \<Longrightarrow> r_rid j = r_rid r \<and> r_header j = r_header r" for vs r j
    by (induction vs arbitrary: r) (auto simp: rbind_eq_Inr_iff)
  then show "Record_Append r s = Inr j \<Longrightarrow> r_rid j = r_rid r \<and> r_header j = r_header r"
    by (fastforce simp: Record_Append_def rbind_eq_Inr_iff UpdateSize_def)
qed

lemma copy_record_fields:
  "copy_record r = Inr x \<Longrightarrow> r_values x = r_values r \<and> r_rid x = r_rid r \<and> r_header x = r_header r"
  by (auto simp: copy_record_def copy_row_def Record_new_def rbind_eq_Inr_iff SetXmin_def SetXmax_def SetCid_def SetDeleted_def)

lemma joined_Append: "Record_Append r s = Inr j \<Longrightarrow> copy_record j = Inr z \<Longrightarrow> joined (r, s) z"
  using Record_Append_values Append_fields copy_record_fields by (simp add: joined_def)

lemma join_rows_joined:
  assumes "join_rows env condition ps = Inr js" "rmap copy_record js = Inr zs"
  shows "list_all2 joined (filter (\<lambda>p. join_true env condition (fst p) (snd p) = Inr True) ps) zs"
  using assms
proof (induction ps arbitrary: js zs)
  case (Cons p ps)
  then show ?case
    by (cases p) (auto simp: rbind_eq_Inr_iff joined_Append split: if_splits)
qed simp

definition nested_join :: "eval_env \<Rightarrow> Expr \<Rightarrow> Record list \<Rightarrow> Record list \<Rightarrow> Record list result" where
  "nested_join env condition xs ys = join_rows env condition (List.product xs ys)"

context join_sources
begin

lemma nested_source: "record_source (NestedLoopJoin_Next env condition next0 next1) (join_left left0 left1 (nested_join env condition))"
proof (rule join_source)
  show "NestedLoopJoin_Next env condition next0 next1 s = join_emit s" if "be_cnt s \<noteq> 0" for s :: "'s BufferExec"
    using that by (simp add: NestedLoopJoin_Next_def ebind_def)
  show "nested_join env condition [] [] = Inr []" by (simp add: nested_join_def)
  fix s :: "'s BufferExec" and xs ys js
  assume s: "be_cnt s = 0" "be_records s = []" "left0 (be_child s) = Some xs" "left1 (be_child s) = Some ys"
    "length xs < ROW_FUEL" "length ys < ROW_FUEL" and js: "nested_join env condition xs ys = Inr js"
  obtain c where c: "\<forall>f :: Record list \<Rightarrow> Record list \<Rightarrow> ('s BufferExec, Record option) em. ebind (on_children (drain next0 ROW_FUEL)) (\<lambda>a. ebind (on_children (drain next1 ROW_FUEL)) (f a)) s
      = f xs ys (s\<lparr>be_child := c\<rparr>)" "left0 c = Some []" "left1 c = Some []"
    by (rule drain_both [OF s(3-6)])
  have run: "NestedLoopJoin_Next env condition next0 next1 s =
      (if xs = [] \<or> ys = [] then (Inr None, s\<lparr>be_child := c\<rparr>)
       else if js = [] then (Inr None, s\<lparr>be_child := c, be_cnt := 1\<rparr>) else join_emit (s\<lparr>be_child := c, be_records := js\<rparr>))"
    using s(1,2) c(1) join_pairs_push [of env condition "List.product xs ys" js "s\<lparr>be_child := c\<rparr>"] js
    by (simp add: NestedLoopJoin_Next_def ebind_def [of "eget be_cnt"] nested_join_def)
      (simp add: ebind_def)
  have "js = []" if "xs = [] \<or> ys = []"
  proof -
    have "List.product xs ys = []" using that set_product [of xs ys] by (metis Sigma_empty1 Sigma_empty2 set_empty)
    then show ?thesis using js by (simp only: nested_join_def join_rows.simps sum.inject)
  qed
  then show "\<exists>c k. left0 c = Some [] \<and> left1 c = Some [] \<and> NestedLoopJoin_Next env condition next0 next1 s =
      (if js = [] then (Inr None, s\<lparr>be_child := c, be_cnt := k\<rparr>) else join_emit (s\<lparr>be_child := c, be_records := js\<rparr>))"
    using run c(2,3) s(1) by (intro exI [of _ c] exI [of _ "if xs = [] \<or> ys = [] then 0 else 1"]) auto
qed

end

text \<open>The rounds of the merge join on integer keys.\<close>

definition int_key :: "eval_env \<Rightarrow> Expr \<Rightarrow> (Record \<Rightarrow> 32 word) \<Rightarrow> Record list \<Rightarrow> bool" where
  "int_key env key f xs \<longleftrightarrow> (\<forall>x \<in> set xs. Evaluate env key x = Inr (Value_int (f x)))"

lemma v_int_Value_int [simp]: "v_int (Value_int n) = n" "v_type (Value_int n) = TINT"
proof -
  show "v_int (Value_int n) = n" unfolding v_int_def Value_int_def by (rule bit_word_eqI) (simp add: bit_simps)
qed (simp add: Value_int_def)

lemma int_key_cmp:
  assumes "Evaluate env lk r = Inr (Value_int a)" "Evaluate env rk s = Inr (Value_int b)"
  shows "key_cmp env Equal lk rk r s = Inr (a = b)" "key_cmp env Less lk rk r s = Inr (sint a < sint b)"
    "key_cmp env Greater lk rk r s = Inr (sint b < sint a)"
  using assms by (simp_all add: key_cmp_def Equal_def Less_def Greater_def)

definition appends :: "(Record \<Rightarrow> Record \<Rightarrow> Record) \<Rightarrow> Record list \<Rightarrow> Record list \<Rightarrow> bool" where
  "appends A xs ys \<longleftrightarrow> (\<forall>x \<in> set xs. \<forall>y \<in> set ys. Record_Append x y = Inr (A x y))"

lemma mj_inner_ok:
  assumes "Evaluate env lk r = Inr (Value_int k)" "int_key env rk g ss" "\<forall>s \<in> set ss. Record_Append r s = Inr (A s)"
  shows "mj_inner env lk rk r ss = Inr (map A (takeWhile (\<lambda>s. g s = k) ss), dropWhile (\<lambda>s. g s = k) ss)"
  using assms(2,3)
proof (induction ss)
  case (Cons s ss)
  have "key_cmp env Equal lk rk r s = Inr (k = g s)"
    using int_key_cmp(1) [OF assms(1)] Cons.prems(1) by (simp add: int_key_def)
  then show ?case using Cons by (simp add: int_key_def)
qed simp

text \<open>The rounds of one key: the records of the left child with that key meet those of the right child.\<close>

lemma mj_match_ok:
  assumes rs: "int_key env lk f rs" and ss: "int_key env rk g (s # ss)" and ap: "appends A rs (s # ss)"
  defines "k \<equiv> g s"
  shows "mj_match env lk rk rs (s # ss) sx =
     Inr (concat (map (\<lambda>r. map (A r) (takeWhile (\<lambda>y. g y = k) (s # ss))) (takeWhile (\<lambda>r. f r = k) rs)), dropWhile (\<lambda>r. f r = k) rs,
          if rs \<noteq> [] \<and> f (hd rs) = k then Some (dropWhile (\<lambda>y. g y = k) (s # ss)) else sx)"
  using rs ap
proof (induction rs arbitrary: sx)
  case (Cons r rs)
  have r: "Evaluate env lk r = Inr (Value_int (f r))" using Cons.prems(1) by (simp add: int_key_def)
  have eq: "key_cmp env Equal lk rk r s = Inr (f r = k)"
    using int_key_cmp(1) [OF r] ss by (simp add: int_key_def k_def)
  have "\<forall>y \<in> set (s # ss). Record_Append r y = Inr (A r y)" using Cons.prems(2) by (simp add: appends_def)
  note inner = mj_inner_ok [OF r ss this]
  show ?case
  proof (cases "f r = k")
    case True
    have "mj_match env lk rk rs (s # ss) (Some (dropWhile (\<lambda>y. g y = k) (s # ss))) =
        Inr (concat (map (\<lambda>r. map (A r) (takeWhile (\<lambda>y. g y = k) (s # ss))) (takeWhile (\<lambda>r. f r = k) rs)), dropWhile (\<lambda>r. f r = k) rs,
          Some (dropWhile (\<lambda>y. g y = k) (s # ss)))"
      using Cons.IH [of "Some (dropWhile (\<lambda>y. g y = k) (s # ss))"] Cons.prems by (simp add: int_key_def appends_def)
    then show ?thesis using eq inner True by simp
  next
    case False
    then show ?thesis using eq by simp
  qed
qed simp

lemma sorted_split:
  fixes h :: "'a \<Rightarrow> 'b::linorder"
  assumes "sorted (map h xs)" "\<forall>z \<in> set xs. k \<le> h z"
  shows "takeWhile (\<lambda>z. h z = k) xs = filter (\<lambda>z. h z = k) xs" "dropWhile (\<lambda>z. h z = k) xs = filter (\<lambda>z. h z \<noteq> k) xs"
proof -
  have "(takeWhile (\<lambda>z. h z = k) xs = filter (\<lambda>z. h z = k) xs) \<and> (dropWhile (\<lambda>z. h z = k) xs = filter (\<lambda>z. h z \<noteq> k) xs)"
    using assms
  proof (induction xs)
    case (Cons x xs)
    have "\<forall>z \<in> set xs. h z \<noteq> k" if "h x \<noteq> k"
      using Cons.prems that by (metis (no_types) imageI list.set_map list.set_intros order.antisym sorted_simps(2) list.simps(9))
    then show ?case using Cons by (auto simp: filter_empty_conv filter_id_conv)
  qed simp
  then show "takeWhile (\<lambda>z. h z = k) xs = filter (\<lambda>z. h z = k) xs" "dropWhile (\<lambda>z. h z = k) xs = filter (\<lambda>z. h z \<noteq> k) xs"
    by blast+
qed

definition sorted_key :: "(Record \<Rightarrow> 32 word) \<Rightarrow> Record list \<Rightarrow> bool" where
  "sorted_key f xs \<longleftrightarrow> sorted (map (\<lambda>x. sint (f x)) xs)"

lemma sorted_key_split:
  assumes "sorted_key f (x # xs)"
  shows "takeWhile (\<lambda>z. f z = f x) (x # xs) = filter (\<lambda>z. f z = f x) (x # xs)"
    "dropWhile (\<lambda>z. f z = f x) (x # xs) = filter (\<lambda>z. f z \<noteq> f x) (x # xs)"
    "sorted_key f (filter p (x # xs))" "\<forall>z \<in> set (x # xs). sint (f x) \<le> sint (f z)"
proof -
  have eq: "(f z = f x) = (sint (f z) = sint (f x))" for z by (auto intro: signed_word_eqI)
  show m: "\<forall>z \<in> set (x # xs). sint (f x) \<le> sint (f z)" using assms by (auto simp: sorted_key_def)
  show "takeWhile (\<lambda>z. f z = f x) (x # xs) = filter (\<lambda>z. f z = f x) (x # xs)"
    "dropWhile (\<lambda>z. f z = f x) (x # xs) = filter (\<lambda>z. f z \<noteq> f x) (x # xs)"
    unfolding eq using sorted_split [OF assms [unfolded sorted_key_def] m] by simp_all
  show "sorted_key f (filter p (x # xs))"
    using sorted_filter [of "\<lambda>x. sint (f x)" "x # xs" p] assms by (simp add: sorted_key_def)
qed

lemma split_concat:
  assumes "takeWhile p xs = filter p xs" "dropWhile p xs = filter (\<lambda>x. \<not> p x) xs"
    "\<And>x. p x \<Longrightarrow> F1 x = F x" "\<And>x. \<not> p x \<Longrightarrow> F2 x = F x"
  shows "concat (map F1 (filter p xs)) @ concat (map F2 (filter (\<lambda>x. \<not> p x) xs)) = concat (map F xs)"
proof -
  have "map F1 (filter p xs) = map F (filter p xs)" "map F2 (filter (\<lambda>x. \<not> p x) xs) = map F (filter (\<lambda>x. \<not> p x) xs)"
    using assms(3,4) by simp_all
  moreover have "filter p xs @ filter (\<lambda>x. \<not> p x) xs = xs" using assms(1,2) takeWhile_dropWhile_id [of p xs] by simp
  ultimately show ?thesis by (metis concat_append map_append)
qed

lemma mj_loop_ok:
  assumes "int_key env lk f xs" "int_key env rk g ys" "appends A xs ys" "sorted_key f xs" "sorted_key g ys"
    "f ` set xs = g ` set ys" "length xs < fuel"
  shows "mj_loop env lk rk fuel xs (Some ys) = Inr (concat (map (\<lambda>x. map (A x) (filter (\<lambda>y. g y = f x) ys)) xs))"
  using assms
proof (induction fuel arbitrary: xs ys)
  case (Suc fuel)
  show ?case
  proof (cases xs)
    case (Cons x xs')
    obtain y ys' where ys: "ys = y # ys'" using Suc.prems(6) Cons by (cases ys) auto
    note fx = sorted_key_split [OF Suc.prems(4) [unfolded Cons]] and gy = sorted_key_split [OF Suc.prems(5) [unfolded ys]]
    have k: "f x = g y"
    proof (rule signed_word_eqI)
      have "g y \<in> f ` set xs" using Suc.prems(6) ys by simp
      then obtain x' where "x' \<in> set xs" "g y = f x'" by blast
      then have "sint (f x) \<le> sint (g y)" using fx(4) Cons by auto
      moreover have "f x \<in> g ` set ys" unfolding Suc.prems(6) [symmetric] using Cons by simp
      then obtain y' where "y' \<in> set ys" "f x = g y'" by blast
      then have "sint (g y) \<le> sint (f x)" using gy(4) ys by auto
      ultimately show "sint (f x) = sint (g y)" by simp
    qed
    have e: "Evaluate env lk x = Inr (Value_int (f x))" "Evaluate env rk y = Inr (Value_int (g y))"
      using Suc.prems(1,2) Cons ys by (simp_all add: int_key_def)
    have skip: "mj_skip_right env lk rk (hd xs) ys = Inr ys" "mj_skip_left env lk rk xs ys = Inr xs"
      using int_key_cmp(2,3) [OF e] k Cons ys by simp_all
    let ?xs = "filter (\<lambda>z. f z \<noteq> f x) xs" and ?ys = "filter (\<lambda>z. g z \<noteq> g y) ys"
    let ?out = "concat (map (\<lambda>r. map (A r) (filter (\<lambda>z. g z = g y) ys)) (filter (\<lambda>z. f z = f x) xs))"
    have match: "mj_match env lk rk xs ys None = Inr (?out, ?xs, Some ?ys)"
      using mj_match_ok [OF Suc.prems(1) Suc.prems(2,3) [unfolded ys], of None] fx(1,2) gy(1,2) k Cons ys by simp
    have rest: "mj_loop env lk rk fuel ?xs (Some ?ys) = Inr (concat (map (\<lambda>x. map (A x) (filter (\<lambda>y. g y = f x) ?ys)) ?xs))"
    proof (rule Suc.IH)
      show "int_key env lk f ?xs" "int_key env rk g ?ys" "appends A ?xs ?ys"
        using Suc.prems(1-3) by (simp_all add: int_key_def appends_def)
      show "sorted_key f ?xs" "sorted_key g ?ys" unfolding Cons ys by (rule fx(3), rule gy(3))
      have "f ` set ?xs = f ` set xs - {f x}" "g ` set ?ys = g ` set ys - {g y}" by auto
      then show "f ` set ?xs = g ` set ?ys" using Suc.prems(6) k by simp
      have "length ?xs < length xs" by (rule length_filter_less [of x]) (simp_all add: Cons)
      then show "length ?xs < fuel" using Suc.prems(7) by simp
    qed
    have "mj_loop env lk rk (Suc fuel) xs (Some ys) = Inr (?out @ concat (map (\<lambda>x. map (A x) (filter (\<lambda>y. g y = f x) ?ys)) ?xs))"
      using skip match rest ys Cons by simp
    also have "?out @ concat (map (\<lambda>x. map (A x) (filter (\<lambda>y. g y = f x) ?ys)) ?xs)
        = concat (map (\<lambda>x. map (A x) (filter (\<lambda>y. g y = f x) ys)) xs)"
    proof (rule split_concat)
      show "takeWhile (\<lambda>z. f z = f x) xs = filter (\<lambda>z. f z = f x) xs" "dropWhile (\<lambda>z. f z = f x) xs = filter (\<lambda>z. f z \<noteq> f x) xs"
        using fx(1,2) Cons by simp_all
      show "map (A z) (filter (\<lambda>z. g z = g y) ys) = map (A z) (filter (\<lambda>y. g y = f z) ys)" if "f z = f x" for z
        using that k by simp
      show "map (A z) (filter (\<lambda>y. g y = f z) ?ys) = map (A z) (filter (\<lambda>y. g y = f z) ys)" if "f z \<noteq> f x" for z
        using that k by (auto intro!: arg_cong [where f = "map (A z)"] filter_cong)
    qed
    finally show ?thesis .
  qed simp
qed simp

definition merge_join :: "eval_env \<Rightarrow> Expr \<Rightarrow> Expr \<Rightarrow> Record list \<Rightarrow> Record list \<Rightarrow> Record list result" where
  "merge_join env lk rk xs ys = mj_loop env lk rk (length xs + 1) xs (Some ys)"

context join_sources
begin

lemma merge_source: "record_source (MergeJoin_Next env lk rk next0 next1) (join_left left0 left1 (merge_join env lk rk))"
proof (rule join_source)
  show "MergeJoin_Next env lk rk next0 next1 s = join_emit s" if "be_cnt s \<noteq> 0" for s :: "'s BufferExec"
    using that by (simp add: MergeJoin_Next_def ebind_def)
  show "merge_join env lk rk [] [] = Inr []" by (simp add: merge_join_def)
  fix s :: "'s BufferExec" and xs ys js
  assume s: "be_cnt s = 0" "be_records s = []" "left0 (be_child s) = Some xs" "left1 (be_child s) = Some ys"
    "length xs < ROW_FUEL" "length ys < ROW_FUEL" and js: "merge_join env lk rk xs ys = Inr js"
  obtain c where c: "\<forall>f :: Record list \<Rightarrow> Record list \<Rightarrow> ('s BufferExec, Record option) em.
      ebind (on_children (drain next0 ROW_FUEL)) (\<lambda>a. ebind (on_children (drain next1 ROW_FUEL)) (f a)) s
      = f xs ys (s\<lparr>be_child := c\<rparr>)" "left0 c = Some []" "left1 c = Some []"
    by (rule drain_both [OF s(3-6)])
  have "MergeJoin_Next env lk rk next0 next1 s =
      (if js = [] then (Inr None, s\<lparr>be_child := c\<rparr>) else join_emit (s\<lparr>be_child := c, be_records := js\<rparr>))"
    using s(1,2) c(1) js by (simp add: MergeJoin_Next_def ebind_def [of "eget be_cnt"] merge_join_def) (simp add: ebind_def)
  then show "\<exists>c k. left0 c = Some [] \<and> left1 c = Some [] \<and> MergeJoin_Next env lk rk next0 next1 s =
      (if js = [] then (Inr None, s\<lparr>be_child := c, be_cnt := k\<rparr>) else join_emit (s\<lparr>be_child := c, be_records := js\<rparr>))"
    using c(2,3) s(1) by (intro exI [of _ c] exI [of _ 0]) auto
qed

end

lemma join_calls:
  assumes "record_source nx (join_left left0 left1 J)" "left0 s = Some xs" "left1 s = Some ys"
    "length xs < ROW_FUEL" "length ys < ROW_FUEL" "J xs ys = Inr js" "rmap copy_record js = Inr zs" "length zs < CNT_END"
  shows "\<exists>s'. calls nx n \<lparr>be_cnt = 0, be_records = [], be_child = s\<rparr> = (Inr (take n (map Some zs @ replicate n None)), s')"
proof -
  have "join_left left0 left1 J \<lparr>be_cnt = 0, be_records = [], be_child = s\<rparr> = Some zs"
    using assms(2-8) by (simp add: join_left_def buffered_iff)
  then show ?thesis using record_source.calls_ok [OF assms(1)] by blast
qed

lemma product_filter_concat:
  "concat (map (\<lambda>x. map (A x) (filter (\<lambda>y. g y = f x) ys)) xs)
     = map (\<lambda>p. A (fst p) (snd p)) (filter (\<lambda>p. g (snd p) = f (fst p)) (List.product xs ys))"
  by (induction xs) (simp_all add: filter_map comp_def)

lemma appends_joined:
  assumes "appends A xs ys" "rmap copy_record (map (\<lambda>p. A (fst p) (snd p)) ps) = Inr zs" "set ps \<subseteq> set xs \<times> set ys"
  shows "list_all2 joined ps zs"
  using assms(2,3)
proof (induction ps arbitrary: zs)
  case (Cons p ps)
  then show ?case using assms(1) by (cases p) (auto simp: rbind_eq_Inr_iff appends_def joined_Append)
qed simp

section \<open>Properties\<close>

text \<open>
  C25. The nested loop join computes the join: when the condition can be decided for every pair of
  records of its children, the calls of \<^verbatim>\<open>Next\<close> return one record for each pair that satisfies it, with
  the values of both and the rid and stamps of the left one, in the order of the left child and then
  of the right one, and then null; fewer than \<open>2 ^ 31\<close> of them, as the executor counts them in an \<^verbatim>\<open>int\<close>.
\<close>

theorem nested_loop_join_rows:
  assumes "join_sources next0 left0 next1 left1" "left0 s = Some xs" "left1 s = Some ys" "length xs < ROW_FUEL" "length ys < ROW_FUEL"
    and "join_rows env condition (List.product xs ys) = Inr js" "rmap copy_record js = Inr zs"
    and "length zs < 2 ^ 31"
  shows "(\<exists>s'. calls (NestedLoopJoin_Next env condition next0 next1) n \<lparr>be_cnt = 0, be_records = [], be_child = s\<rparr> =
       (Inr (take n (map Some zs @ replicate n None)), s')) \<and>
     list_all2 joined (filter (\<lambda>p. join_true env condition (fst p) (snd p) = Inr True) (List.product xs ys)) zs"
  using join_calls [OF join_sources.nested_source [OF assms(1)] assms(2-5) _ assms(7)] assms(6,8)
    join_rows_joined [OF assms(6,7)] by (simp add: nested_join_def CNT_END_def)

text \<open>
  C26. The merge join computes the equi-join of children sorted by their integer keys, when every key of
  one child is a key of the other: one record for each pair with equal keys, as the nested loop join
  would return them, when there are fewer than \<open>2 ^ 31\<close>.
\<close>

theorem merge_join_rows:
  assumes src: "join_sources next0 left0 next1 left1" "left0 s = Some xs" "left1 s = Some ys" "length xs < ROW_FUEL" "length ys < ROW_FUEL"
    and keys: "int_key env lk f xs" "int_key env rk g ys" "sorted_key f xs" "sorted_key g ys" "f ` set xs = g ` set ys"
    and ap: "appends A xs ys"
    and zs: "rmap copy_record (map (\<lambda>p. A (fst p) (snd p)) (filter (\<lambda>p. g (snd p) = f (fst p)) (List.product xs ys))) = Inr zs"
      "length zs < 2 ^ 31"
  shows "(\<exists>s'. calls (MergeJoin_Next env lk rk next0 next1) n \<lparr>be_cnt = 0, be_records = [], be_child = s\<rparr> =
       (Inr (take n (map Some zs @ replicate n None)), s')) \<and>
     list_all2 joined (filter (\<lambda>p. g (snd p) = f (fst p)) (List.product xs ys)) zs"
proof
  have "merge_join env lk rk xs ys = Inr (map (\<lambda>p. A (fst p) (snd p)) (filter (\<lambda>p. g (snd p) = f (fst p)) (List.product xs ys)))"
    unfolding merge_join_def product_filter_concat [symmetric] by (rule mj_loop_ok [OF keys(1,2) ap keys(3-5)]) simp
  then show "\<exists>s'. calls (MergeJoin_Next env lk rk next0 next1) n \<lparr>be_cnt = 0, be_records = [], be_child = s\<rparr> =
      (Inr (take n (map Some zs @ replicate n None)), s')"
    by (rule join_calls [OF join_sources.merge_source [OF src(1)] src(2-5) _ zs(1)]) (use zs(2) in \<open>simp add: CNT_END_def\<close>)
  show "list_all2 joined (filter (\<lambda>p. g (snd p) = f (fst p)) (List.product xs ys)) zs"
    by (rule appends_joined [OF ap zs(1)]) auto
qed

text \<open>
  Without that condition the merge join goes wrong on sorted children: when the left keys are
  \<open>a < c\<close> and the right keys \<open>b, c\<close> with a key \<open>b\<close> between them that the left child does not have, the loop
  goes on with an iterator that was never assigned.
\<close>

theorem merge_join_gap:
  assumes "sint a < sint b" "sint b < sint c"
  shows "merge_join env (ColumnValue 0 TINT ''a'' 4 True) (ColumnValue 0 TINT ''b'' 4 False)
     [int_row a, int_row c] [int_row b, int_row c] = Inl (Undefined ''singular iterator dereferenced'')"
proof -
  have e: "Evaluate env (ColumnValue 0 TINT name 4 l) (int_row n) = Inr (Value_int n)" for name l n
    by (simp add: Record_GetValue_def)
  note cmp = int_key_cmp [OF e e]
  have "b \<noteq> c" "c \<noteq> b" "a \<noteq> b" using assms by auto
  then show ?thesis
    using assms by (simp add: merge_join_def cmp numeral_2_eq_2 del: Evaluate.simps)
qed

theorem merge_join_gap_witness:
  "sint (1 :: 32 word) < sint (2 :: 32 word) \<and> sint (2 :: 32 word) < sint (3 :: 32 word) \<and>
   merge_join sample_env (ColumnValue 0 TINT ''a'' 4 True) (ColumnValue 0 TINT ''b'' 4 False)
     [int_row 1, int_row 3] [int_row 2, int_row 3] = Inl (Undefined ''singular iterator dereferenced'')"
proof -
  have "sint (1 :: 32 word) < sint (2 :: 32 word)" "sint (2 :: 32 word) < sint (3 :: 32 word)" by simp_all
  then show ?thesis using merge_join_gap by blast
qed

lemma Append_int_row:
  obtains j where "Record_Append (int_row a) (int_row b) = Inr j" "r_values j = [Value_int a, Value_int b]"
proof -
  have "\<exists>j. Record_Append (int_row a) (int_row b) = Inr j"
    by (simp add: Record_Append_def int_row_def UpdateSize_def Bitmap_GetSize_def Bitmap_new_def Bitmap_Resize_def
        Bitmap_Clear_def IsNull_def Value_int_def vector_resize_def)
  then show thesis using that Record_Append_values [of "int_row a" "int_row b"] by auto
qed

text \<open>Two children that return the rows 1 and 7.\<close>

definition sample_condition :: Expr where
  "sample_condition = Comparison EQUAL (ColumnValue 0 TINT ''a'' 4 True) (ColumnValue 0 TINT ''b'' 4 False)"

definition sample_pair :: "32 word \<Rightarrow> 32 word \<Rightarrow> Record" where
  "sample_pair a b = projr (Record_Append (int_row a) (int_row b))"

lemma sample_pair:
  "Record_Append (int_row a) (int_row b) = Inr (sample_pair a b)"
  "\<exists>z. copy_record (sample_pair a b) = Inr z \<and> r_values z = [Value_int a, Value_int b]"
proof -
  obtain j where j: "Record_Append (int_row a) (int_row b) = Inr j" "r_values j = [Value_int a, Value_int b]"
    by (rule Append_int_row)
  then show "Record_Append (int_row a) (int_row b) = Inr (sample_pair a b)" by (simp add: sample_pair_def)
  have "\<exists>z. copy_record j = Inr z"
    using j(2) by (simp add: copy_record_def copy_row_def Record_new_def null_marks_def IsNull_def Value_int_def)
  then show "\<exists>z. copy_record (sample_pair a b) = Inr z \<and> r_values z = [Value_int a, Value_int b]"
    using copy_record_fields j by (auto simp: sample_pair_def)
qed

lemma sample_join_true: "join_true env sample_condition (int_row a) (int_row b) = Inr (a = b)"
proof -
  have u: "ucast (ucast n :: 64 word) = n" for n :: "32 word" by (rule bit_word_eqI) (simp add: bit_simps)
  show ?thesis
    by (simp add: u join_true_def sample_condition_def Record_GetValue_def Comparison_Compute_def cmp_int_def
        DoOperation_cmp_def v_int_def v_bool_def Value_int_def Value_bool_def IsNull_def GetValue_bool_def)
qed

theorem nested_loop_join_rows_witness:
  "\<exists>z1 z7 s'. calls (NestedLoopJoin_Next sample_env sample_condition (on_left (Values_Next sample_env sample_rows))
       (on_right (Values_Next sample_env sample_rows))) 3
       \<lparr>be_cnt = 0, be_records = [], be_child = (\<lparr>ve_cursor = 0, ve_rest = ()\<rparr>, \<lparr>ve_cursor = 0, ve_rest = ()\<rparr>)\<rparr> =
     (Inr [Some z1, Some z7, None], s') \<and> r_values z1 = [Value_int 1, Value_int 1] \<and> r_values z7 = [Value_int 7, Value_int 7]"
proof -
  let ?xs = "[int_row 1, int_row 7]" and ?s = "(\<lparr>ve_cursor = 0, ve_rest = ()\<rparr>, \<lparr>ve_cursor = 0, ve_rest = ()\<rparr>)"
  obtain z1 z7 where z: "copy_record (sample_pair 1 1) = Inr z1" "copy_record (sample_pair 7 7) = Inr z7"
    "r_values z1 = [Value_int 1, Value_int 1]" "r_values z7 = [Value_int 7, Value_int 7]"
    using sample_pair(2) by blast
  have f: "values_left sample_env sample_rows (fst ?s) = Some ?xs" "values_left sample_env sample_rows (snd ?s) = Some ?xs"
    using sample_pipeline_facts(1) by simp_all
  have j: "join_rows sample_env sample_condition (List.product ?xs ?xs) = Inr [sample_pair 1 1, sample_pair 7 7]"
    by (simp add: sample_join_true sample_pair(1))
  have c: "rmap copy_record [sample_pair 1 1, sample_pair 7 7] = Inr [z1, z7]" using z by simp
  have "\<exists>s'. calls (NestedLoopJoin_Next sample_env sample_condition (on_left (Values_Next sample_env sample_rows))
       (on_right (Values_Next sample_env sample_rows))) 3 \<lparr>be_cnt = 0, be_records = [], be_child = ?s\<rparr> =
     (Inr (take 3 (map Some [z1, z7] @ replicate 3 None)), s')"
    by (rule nested_loop_join_rows [OF values_pair.join_sources_axioms f _ _ j c, THEN conjunct1]) (simp_all add: ROW_FUEL_def)
  then show ?thesis using z(3,4) by (auto simp: numeral_3_eq_3)
qed

theorem merge_join_rows_witness:
  "\<exists>z1 z7 s'. calls (MergeJoin_Next sample_env sample_column sample_column (on_left (Values_Next sample_env sample_rows))
       (on_right (Values_Next sample_env sample_rows))) 3
       \<lparr>be_cnt = 0, be_records = [], be_child = (\<lparr>ve_cursor = 0, ve_rest = ()\<rparr>, \<lparr>ve_cursor = 0, ve_rest = ()\<rparr>)\<rparr> =
     (Inr [Some z1, Some z7, None], s') \<and> r_values z1 = [Value_int 1, Value_int 1] \<and> r_values z7 = [Value_int 7, Value_int 7]"
proof -
  let ?xs = "[int_row 1, int_row 7]" and ?s = "(\<lparr>ve_cursor = 0, ve_rest = ()\<rparr>, \<lparr>ve_cursor = 0, ve_rest = ()\<rparr>)"
  let ?k = "\<lambda>r. v_int (r_values r ! 0)" and ?A = "\<lambda>x y. projr (Record_Append x y)"
  obtain z1 z7 where z: "copy_record (sample_pair 1 1) = Inr z1" "copy_record (sample_pair 7 7) = Inr z7"
    "r_values z1 = [Value_int 1, Value_int 1]" "r_values z7 = [Value_int 7, Value_int 7]"
    using sample_pair(2) by blast
  have f: "values_left sample_env sample_rows (fst ?s) = Some ?xs" "values_left sample_env sample_rows (snd ?s) = Some ?xs"
    using sample_pipeline_facts(1) by simp_all
  have k: "int_key sample_env sample_column ?k ?xs" by (simp add: int_key_def sample_column_def Record_GetValue_def)
  have so: "sorted_key ?k ?xs" by (simp add: sorted_key_def)
  have ap: "appends ?A ?xs ?xs" by (simp add: appends_def sample_pair(1))
  have c: "rmap copy_record (map (\<lambda>p. ?A (fst p) (snd p)) (filter (\<lambda>p. ?k (snd p) = ?k (fst p)) (List.product ?xs ?xs)))
      = Inr [z1, z7]"
    using z by (simp add: sample_pair(1))
  have "\<exists>s'. calls (MergeJoin_Next sample_env sample_column sample_column (on_left (Values_Next sample_env sample_rows))
       (on_right (Values_Next sample_env sample_rows))) 3 \<lparr>be_cnt = 0, be_records = [], be_child = ?s\<rparr> =
     (Inr (take 3 (map Some [z1, z7] @ replicate 3 None)), s')"
    by (rule merge_join_rows [OF values_pair.join_sources_axioms f _ _ k k so so refl ap c, THEN conjunct1])
      (simp_all add: ROW_FUEL_def)
  then show ?thesis using z(3,4) by (auto simp: numeral_3_eq_3)
qed

end
