(* ===== verification/Sort_Executor.thy ===== *)
theory Sort_Executor
  imports Join_Executors "HOL-Library.Multiset"
begin

text \<open>
  \<^verbatim>\<open>OrderByExecutor\<close> of \<^verbatim>\<open>src/src/executors/\<close>: it reads its child to the end, sorts the records by each key,
  the last key first, and returns them one by one. The sorting function of the standard library is a
  parameter: it returns a permutation that is sorted, and nothing is known about the order of records
  that compare equal.
\<close>

section \<open>Order by\<close>

datatype OrderByType = DEFAULT | ASC | DESC

definition order_cmp :: "eval_env \<Rightarrow> OrderByType \<times> Expr \<Rightarrow> Record \<Rightarrow> Record \<Rightarrow> bool result" where
  "order_cmp env ob a b =
     rbind (Evaluate env (snd ob) a) (\<lambda>x. rbind (Evaluate env (snd ob) b) (\<lambda>y.
       if fst ob = DEFAULT then Less x y else if fst ob = ASC then Less x y else Greater x y))"

type_synonym sort_function = "(Record \<Rightarrow> Record \<Rightarrow> bool result) \<Rightarrow> Record list \<Rightarrow> Record list result"

definition OrderBy_Next ::
    "eval_env \<Rightarrow> sort_function \<Rightarrow> (OrderByType \<times> Expr) list \<Rightarrow> ('s, Record option) em \<Rightarrow> ('s BufferExec, Record option) em" where
  "OrderBy_Next env std_sort order_bys next s =
     (if be_cnt s = 0
      then ebind (on_children (drain next ROW_FUEL)) (\<lambda>read.
           ebind (emodify (\<lambda>s. s\<lparr>be_records := be_records s @ read\<rparr>)) (\<lambda>_.
           ebind (eget be_records) (\<lambda>records.
             if records = [] then eret None
             else ebind (elift (rfold (\<lambda>ob rs. std_sort (order_cmp env ob) rs) (rev order_bys) records)) (\<lambda>sorted.
                  ebind (emodify (\<lambda>s. s\<lparr>be_records := sorted, be_cnt := be_cnt s + 1\<rparr>)) (\<lambda>_.
                  ebind (eget (\<lambda>s. be_records s ! 0)) (\<lambda>r. eret (Some r))))))) s
      else if be_cnt s < length (be_records s)
      then if be_cnt s + 1 = CNT_END then (Inl (Undefined ''signed overflow''), s)
           else (Inr (Some (be_records s ! be_cnt s)), s\<lparr>be_cnt := be_cnt s + 1\<rparr>)
      else (Inr None, s))"

section \<open>What is known of the sorting function\<close>

text \<open>
  \<^verbatim>\<open>std::sort\<close> with a comparison that decides by a key of the records: the result is a permutation,
  ascending in the key.
\<close>

definition sorts :: "sort_function \<Rightarrow> bool" where
  "sorts std_sort \<longleftrightarrow>
     (\<forall>cmp (k :: Record \<Rightarrow> int) xs. (\<forall>x \<in> set xs. \<forall>y \<in> set xs. cmp x y = Inr (k x < k y)) \<longrightarrow>
        (\<exists>ys. std_sort cmp xs = Inr ys \<and> mset ys = mset xs \<and> sorted (map k ys)))"

definition order_key :: "OrderByType \<Rightarrow> (Record \<Rightarrow> 32 word) \<Rightarrow> Record \<Rightarrow> int" where
  "order_key t f x = (if t = DESC then - sint (f x) else sint (f x))"

lemma order_cmp_key:
  assumes "int_key env e f xs" "x \<in> set xs" "y \<in> set xs"
  shows "order_cmp env (t, e) x y = Inr (order_key t f x < order_key t f y)"
  using assms by (cases t) (simp_all add: order_cmp_def int_key_def order_key_def Less_def Greater_def)

definition sort_all :: "eval_env \<Rightarrow> sort_function \<Rightarrow> (OrderByType \<times> Expr) list \<Rightarrow> Record list \<Rightarrow> Record list result" where
  "sort_all env std_sort order_bys = rfold (\<lambda>ob. std_sort (order_cmp env ob)) (rev order_bys)"

lemma sort_step:
  assumes "sorts std_sort" "int_key env e f xs"
  obtains ys where "std_sort (order_cmp env (t, e)) xs = Inr ys" "mset ys = mset xs" "sorted (map (order_key t f) ys)"
  using assms(1) order_cmp_key [OF assms(2)] unfolding sorts_def by blast

definition int_keys :: "eval_env \<Rightarrow> (OrderByType \<times> Expr) list \<Rightarrow> Record list \<Rightarrow> bool" where
  "int_keys env order_bys xs \<longleftrightarrow> (\<forall>ob \<in> set order_bys. \<exists>f. int_key env (snd ob) f xs)"

lemma int_key_mset: "mset ys = mset xs \<Longrightarrow> int_key env e f ys \<longleftrightarrow> int_key env e f xs"
  unfolding int_key_def by (metis set_mset_mset)

lemma sort_all_permutes:
  assumes "sorts std_sort" "int_keys env order_bys xs"
  obtains ys where "sort_all env std_sort order_bys xs = Inr ys" "mset ys = mset xs"
  using assms(2)
proof (induction order_bys arbitrary: thesis)
  case Nil
  then show ?case by (simp add: sort_all_def)
next
  case (Cons ob order_bys)
  obtain t e where ob: "ob = (t, e)" by fastforce
  obtain ys where ys: "sort_all env std_sort order_bys xs = Inr ys" "mset ys = mset xs"
    using Cons.IH Cons.prems(2) by (auto simp: int_keys_def)
  obtain f where "int_key env e f ys" using Cons.prems(2) int_key_mset [OF ys(2)] by (auto simp: int_keys_def ob)
  then obtain zs where "std_sort (order_cmp env (t, e)) ys = Inr zs" "mset zs = mset ys"
    using sort_step [OF assms(1)] by metis
  then show ?case using Cons.prems(1) [of zs] ys by (simp add: sort_all_def rfold_append ob)
qed

lemma sort_all_sorted:
  assumes "sorts std_sort" "int_keys env order_bys xs" "int_key env e f xs"
  obtains ys where "sort_all env std_sort ((t, e) # order_bys) xs = Inr ys" "mset ys = mset xs" "sorted (map (order_key t f) ys)"
proof -
  obtain ys where ys: "sort_all env std_sort order_bys xs = Inr ys" "mset ys = mset xs"
    by (rule sort_all_permutes [OF assms(1,2)])
  obtain zs where "std_sort (order_cmp env (t, e)) ys = Inr zs" "mset zs = mset ys" "sorted (map (order_key t f) zs)"
    using sort_step [OF assms(1)] assms(3) int_key_mset [OF ys(2)] by metis
  then show thesis using that [of zs] ys by (simp add: sort_all_def rfold_append)
qed

section \<open>The executor as a source\<close>

definition order_left ::
    "eval_env \<Rightarrow> sort_function \<Rightarrow> (OrderByType \<times> Expr) list \<Rightarrow> ('s \<Rightarrow> Record list option) \<Rightarrow> 's BufferExec \<Rightarrow> Record list option" where
  "order_left env std_sort order_bys remaining s =
     (if be_cnt s \<noteq> 0
      then (if remaining (be_child s) = Some [] \<and> length (be_records s) < CNT_END then Some (drop (be_cnt s) (be_records s)) else None)
      else if be_records s \<noteq> [] then None
      else case remaining (be_child s) of
             None \<Rightarrow> None
           | Some xs \<Rightarrow>
               if xs = [] then Some []
               else if length xs < ROW_FUEL
               then case buffered (sort_all env std_sort order_bys xs) of Some (z # zs) \<Rightarrow> Some (z # zs) | _ \<Rightarrow> None
               else None)"

context record_source
begin

lemma order_source: "record_source (OrderBy_Next env std_sort order_bys next) (order_left env std_sort order_bys left)"
proof (rule record_sourceI)
  fix s zs assume l: "order_left env std_sort order_bys left s = Some zs"
  let ?N = "OrderBy_Next env std_sort order_bys next" and ?L = "order_left env std_sort order_bys left"
  show "\<exists>s'. ?N s = (Inr (case zs of [] \<Rightarrow> None | x # _ \<Rightarrow> Some x), s') \<and> ?L s' = Some (tl zs)"
  proof (cases "be_cnt s = 0")
    case False
    then have "zs = drop (be_cnt s) (be_records s)" "left (be_child s) = Some []" "length (be_records s) < CNT_END"
      using l by (simp_all add: order_left_def split: if_splits)
    then show ?thesis using False
      by (cases "be_cnt s < length (be_records s)")
        (simp_all add: OrderBy_Next_def order_left_def Cons_nth_drop_Suc [symmetric] drop_Suc tl_drop)
  next
    case True
    then have r: "be_records s = []" using l by (simp add: order_left_def split: if_splits)
    obtain xs where xs: "left (be_child s) = Some xs" using l True r by (cases "left (be_child s)") (simp_all add: order_left_def)
    have n: "length xs < ROW_FUEL" using l True r xs by (cases "xs = []") (simp_all add: order_left_def ROW_FUEL_def split: if_splits)
    obtain c where c: "drain next ROW_FUEL (be_child s) = (Inr xs, c)" "left c = Some []" using drain_ok [OF xs n] by blast
    note run = OrderBy_Next_def ebind_def on_children_def ezoom_def
    show ?thesis
    proof (cases "xs = []")
      case nil: True
      then have "zs = []" using l True r xs by (simp add: order_left_def)
      then show ?thesis using True r c nil by (simp add: run order_left_def)
    next
      case False
      obtain z ys where ys: "sort_all env std_sort order_bys xs = Inr (z # ys)" "zs = z # ys" "length (z # ys) < CNT_END"
        using l True r xs False n by (auto simp: order_left_def buffered_iff split: option.splits list.splits)
      then show ?thesis using True r c False by (simp add: run order_left_def sort_all_def)
    qed
  qed
qed

end

section \<open>Properties\<close>

text \<open>
  \<^verbatim>\<open>ORDER BY\<close> over integer keys returns the records of the child, each as often as the child does,
  in the order of the first key, ascending unless the key is marked \<^verbatim>\<open>DESC\<close>, and then null.
\<close>

theorem order_by_rows:
  assumes src: "record_source next remaining" and xs: "remaining s = Some xs" "length xs < ROW_FUEL"
    and few: "length xs < 2 ^ 31" and so: "sorts std_sort" and keys: "int_keys env order_bys xs" "int_key env e f xs"
  shows "\<exists>zs. mset zs = mset xs \<and> sorted (map (order_key t f) zs) \<and>
     (\<exists>s'. calls (OrderBy_Next env std_sort ((t, e) # order_bys) next) n \<lparr>be_cnt = 0, be_records = [], be_child = s\<rparr> =
       (Inr (take n (map Some zs @ replicate n None)), s'))"
proof -
  obtain zs where zs: "sort_all env std_sort ((t, e) # order_bys) xs = Inr zs" "mset zs = mset xs" "sorted (map (order_key t f) zs)"
    by (rule sort_all_sorted [OF so keys])
  have "zs = [] \<longleftrightarrow> xs = []" "buffered (Inr zs) = Some zs"
    using zs(2) few mset_eq_length [OF zs(2)] by (auto simp: buffered_iff CNT_END_def)
  then have "order_left env std_sort ((t, e) # order_bys) remaining \<lparr>be_cnt = 0, be_records = [], be_child = s\<rparr> = Some zs"
    using xs zs(1) by (auto simp: order_left_def split: list.splits)
  then show ?thesis
    using zs(2,3) record_source.calls_ok [OF record_source.order_source [OF src]] by blast
qed

text \<open>A sorting function that does what \<^verbatim>\<open>std::sort\<close> promises: insertion.\<close>

fun sample_insert :: "(Record \<Rightarrow> Record \<Rightarrow> bool result) \<Rightarrow> Record \<Rightarrow> Record list \<Rightarrow> Record list" where
  "sample_insert cmp x [] = [x]"
| "sample_insert cmp x (y # ys) = (if cmp y x = Inr True then y # sample_insert cmp x ys else x # y # ys)"

definition sample_sort :: sort_function where
  "sample_sort cmp xs = Inr (foldr (sample_insert cmp) xs [])"

lemma sample_insert_mset [simp]: "mset (sample_insert cmp x ys) = add_mset x (mset ys)"
  by (induction ys) auto

lemma sample_insert_sorted:
  fixes k :: "Record \<Rightarrow> int"
  assumes "\<forall>y \<in> set ys. cmp y x = Inr (k y < k x)" "sorted (map k ys)"
  shows "sorted (map k (sample_insert cmp x ys))"
  using assms
proof (induction ys)
  case (Cons y ys)
  have "set (sample_insert cmp x ys) = insert x (set ys)"
    by (metis sample_insert_mset set_mset_add_mset_insert set_mset_mset)
  then show ?case using Cons by (auto simp: not_less)
qed simp

lemma sorts_sample_sort: "sorts sample_sort"
proof -
  have "sorted (map k (foldr (sample_insert cmp) xs [])) \<and> mset (foldr (sample_insert cmp) xs []) = mset xs"
    if "\<forall>x \<in> set xs. \<forall>y \<in> set xs. cmp x y = Inr (k x < k y)" for cmp and k :: "Record \<Rightarrow> int" and xs
    using that
  proof (induction xs)
    case (Cons x xs)
    then have ih: "sorted (map k (foldr (sample_insert cmp) xs []))" "mset (foldr (sample_insert cmp) xs []) = mset xs" by auto
    have "set (foldr (sample_insert cmp) xs []) = set xs" using ih(2) by (metis set_mset_mset)
    then show ?case using sample_insert_sorted [OF _ ih(1), of cmp x] ih(2) Cons.prems by simp
  qed simp
  then show ?thesis unfolding sorts_def sample_sort_def by blast
qed

theorem order_by_rows_witness:
  "\<exists>s'. calls (OrderBy_Next sample_env sample_sort [(DESC, sample_column)] (Values_Next sample_env sample_rows)) 3
       \<lparr>be_cnt = 0, be_records = [], be_child = \<lparr>ve_cursor = 0, ve_rest = ()\<rparr>\<rparr> =
     (Inr [Some (int_row 7), Some (int_row 1), None], s')"
proof -
  let ?k = "\<lambda>r. v_int (r_values r ! 0)" and ?xs = "[int_row 1, int_row 7]"
  have k: "int_key sample_env sample_column ?k ?xs" by (simp add: int_key_def sample_column_def Record_GetValue_def)
  obtain zs where zs: "mset zs = mset ?xs" "sorted (map (order_key DESC ?k) zs)"
    "\<exists>s'. calls (OrderBy_Next sample_env sample_sort [(DESC, sample_column)] (Values_Next sample_env sample_rows)) 3
       \<lparr>be_cnt = 0, be_records = [], be_child = \<lparr>ve_cursor = 0, ve_rest = ()\<rparr>\<rparr> = (Inr (take 3 (map Some zs @ replicate 3 None)), s')"
    using order_by_rows [OF values_source.record_source_axioms [of sample_env] sample_pipeline_facts(1) _ _ sorts_sample_sort _ k,
        of "[]" DESC 3] by (simp add: ROW_FUEL_def int_keys_def) blast
  have "zs = [int_row 7, int_row 1]"
  proof -
    obtain a b where ab: "zs = [a, b]" using zs(1) mset_eq_length [OF zs(1)] by (auto simp: length_Suc_conv numeral_2_eq_2)
    then have "{#a, b#} = {#int_row 1, int_row 7#}" using zs(1) by simp
    then have "a = int_row 1 \<and> b = int_row 7 \<or> a = int_row 7 \<and> b = int_row 1" by (auto simp: add_eq_conv_ex)
    then show ?thesis using zs(2) ab by (auto simp: order_key_def)
  qed
  then show ?thesis using zs(3) by (simp add: numeral_3_eq_3)
qed

end
