(* ===== verification/Write_Executors.thy ===== *)
theory Write_Executors
  imports Join_Executors
begin

text \<open>
  The executors that change tables or take row locks: \<^verbatim>\<open>InsertExecutor\<close>, \<^verbatim>\<open>DeleteExecutor\<close>,
  \<^verbatim>\<open>UpdateExecutor\<close> and \<^verbatim>\<open>LockRowsExecutor\<close> of \<^verbatim>\<open>src/src/executors/\<close>. Their state holds the transaction and
  lock managers, the table with its pool, log and disk, and the state of the child, which may scan the
  same table. The locale \<open>dml_child\<close> says what a statement needs of the child: the records to come, and
  that they do not change under the statement's own edits.
\<close>

section \<open>State\<close>

record 's DmlEnv =
  dm_tx :: TxEnv
  dm_table :: TableEnv
  dm_finished :: bool
  dm_child :: 's

definition on_tx :: "(TxEnv, 'a) em \<Rightarrow> ('s DmlEnv, 'a) em" where
  "on_tx = ezoom dm_tx (\<lambda>t s. s\<lparr>dm_tx := t\<rparr>)"

definition on_table :: "(TableEnv, 'a) em \<Rightarrow> ('s DmlEnv, 'a) em" where
  "on_table = ezoom dm_table (\<lambda>t s. s\<lparr>dm_table := t\<rparr>)"

definition lock_row :: "xid_t \<Rightarrow> LockType \<Rightarrow> oid_t \<Rightarrow> Rid \<Rightarrow> (TxEnv, bool) em" where
  "lock_row xid ty oid rid e = (case LockRow xid ty oid rid (te_locks e) of (ok, lm) \<Rightarrow> (Inr ok, e\<lparr>te_locks := lm\<rparr>))"

definition need_lock :: "string \<Rightarrow> (TxEnv, bool) em \<Rightarrow> ('s DmlEnv, unit) em" where
  "need_lock msg m = ebind (on_tx m) (\<lambda>lock_flag. if lock_flag then eret () else ethrow (DbException msg))"

section \<open>Statements\<close>

text \<open>The loop of a statement counts the records of the child in a \<^verbatim>\<open>uint32_t\<close>.\<close>

fun dml_loop :: "(Record \<Rightarrow> ('s, unit) em) \<Rightarrow> ('s, Record option) em \<Rightarrow> nat \<Rightarrow> 32 word \<Rightarrow> ('s, 32 word) em" where
  "dml_loop body next 0 count = ethrow Diverges"
| "dml_loop body next (Suc fuel) count =
     ebind next (\<lambda>r. case r of
       None \<Rightarrow> eret count
     | Some record \<Rightarrow> ebind (body record) (\<lambda>_. dml_loop body next fuel (count + 1)))"

definition dml_Next :: "(Record \<Rightarrow> ('s DmlEnv, unit) em) \<Rightarrow> ('s DmlEnv, Record option) em \<Rightarrow> ('s DmlEnv, Record option) em" where
  "dml_Next body next =
     ebind (eget dm_finished) (\<lambda>finished.
       if finished then eret None
       else ebind (dml_loop body next ROW_FUEL 0) (\<lambda>count.
            ebind (emodify (\<lambda>s. s\<lparr>dm_finished := True\<rparr>)) (\<lambda>_.
            ebind (elift (Record_new [Value_uint count] no_rid)) (\<lambda>r. eret (Some r)))))"

text \<open>The values of an inserted record: null where the statement names no column.\<close>

definition insert_values :: "ColumnList \<Rightarrow> ColumnList \<Rightarrow> Record \<Rightarrow> Val list result" where
  "insert_values column_list insert_columns record =
     rfold (\<lambda>(i, name) vs.
              rbind (GetColumnIndex name column_list) (\<lambda>column_index.
              rbind (Record_GetValue i record) (\<lambda>v.
                if column_index < length vs then Inr (vs[column_index := v])
                else Inl (Undefined ''vector index out of range''))))
           (enumerate 0 (map cd_name (cl_columns insert_columns)))
           (replicate (ColumnList_Length column_list) Value_null)"

definition insert_row :: "xid_t \<Rightarrow> cid_t \<Rightarrow> oid_t \<Rightarrow> ColumnList \<Rightarrow> ColumnList \<Rightarrow> Record \<Rightarrow> ('s DmlEnv, unit) em" where
  "insert_row xid cid oid column_list insert_columns record =
     ebind (elift (rbind (insert_values column_list insert_columns record) (\<lambda>vs. Record_new vs no_rid))) (\<lambda>table_record.
     ebind (need_lock ''insert table lock failed!'' (lock_table xid IX oid)) (\<lambda>_.
     ebind (on_table (Table_InsertRecord table_record xid cid True)) (\<lambda>(rid, _).
       need_lock ''insert lock failed!'' (lock_row xid X oid rid))))"

definition Insert_Next ::
    "xid_t \<Rightarrow> cid_t \<Rightarrow> oid_t \<Rightarrow> ColumnList \<Rightarrow> ColumnList \<Rightarrow> ('s DmlEnv, Record option) em \<Rightarrow> ('s DmlEnv, Record option) em" where
  "Insert_Next xid cid oid column_list insert_columns = dml_Next (insert_row xid cid oid column_list insert_columns)"

definition delete_row :: "xid_t \<Rightarrow> oid_t \<Rightarrow> Record \<Rightarrow> ('s DmlEnv, unit) em" where
  "delete_row xid oid record =
     ebind (need_lock ''delete lock failed!'' (lock_row xid X oid (r_rid record))) (\<lambda>_.
       on_table (Table_DeleteRecord (r_rid record) xid True))"

definition Delete_Next :: "xid_t \<Rightarrow> oid_t \<Rightarrow> ('s DmlEnv, Record option) em \<Rightarrow> ('s DmlEnv, Record option) em" where
  "Delete_Next xid oid = dml_Next (delete_row xid oid)"

definition update_row :: "eval_env \<Rightarrow> Expr list \<Rightarrow> xid_t \<Rightarrow> cid_t \<Rightarrow> oid_t \<Rightarrow> Record \<Rightarrow> ('s DmlEnv, unit) em" where
  "update_row env update_exprs xid cid oid record =
     ebind (elift (rbind (evaluate_all env update_exprs record) (\<lambda>vs. Record_new vs no_rid))) (\<lambda>new_record.
     ebind (need_lock ''update lock failed!'' (lock_row xid X oid (r_rid record))) (\<lambda>_.
     ebind (on_table (Table_UpdateRecord (r_rid record) xid cid new_record True)) (\<lambda>(rid, _).
       need_lock ''update lock failed!'' (lock_row xid X oid rid))))"

definition Update_Next ::
    "eval_env \<Rightarrow> Expr list \<Rightarrow> xid_t \<Rightarrow> cid_t \<Rightarrow> oid_t \<Rightarrow> ('s DmlEnv, Record option) em \<Rightarrow> ('s DmlEnv, Record option) em" where
  "Update_Next env update_exprs xid cid oid = dml_Next (update_row env update_exprs xid cid oid)"

datatype SelectLockType = NOLOCK | SHARE | UPDATE

definition LockRows_Next :: "SelectLockType \<Rightarrow> xid_t \<Rightarrow> oid_t \<Rightarrow> ('s DmlEnv, Record option) em \<Rightarrow> ('s DmlEnv, Record option) em" where
  "LockRows_Next lock_type xid oid next =
     ebind next (\<lambda>r. case r of
       None \<Rightarrow> eret None
     | Some record \<Rightarrow>
         ebind (need_lock ''lock row failed!''
                  (if lock_type = SHARE then lock_row xid S oid (r_rid record)
                   else if lock_type = UPDATE then lock_row xid X oid (r_rid record) else eret True)) (\<lambda>_.
           eret (Some record)))"

text \<open>A scan of the table that the statement changes: the pool and the table are shared, the position is its own.\<close>

definition scan_view :: "Rid DmlEnv \<Rightarrow> ScanEnv" where
  "scan_view s = \<lparr>sx_scan = \<lparr>ts_pool = te_pool (dm_table s), ts_table = te_table (dm_table s), ts_rid = dm_child s\<rparr>, sx_tx = dm_tx s\<rparr>"

definition scan_put :: "ScanEnv \<Rightarrow> Rid DmlEnv \<Rightarrow> Rid DmlEnv" where
  "scan_put e s = s\<lparr>dm_tx := sx_tx e, dm_table := (dm_table s)\<lparr>te_pool := ts_pool (sx_scan e)\<rparr>, dm_child := ts_rid (sx_scan e)\<rparr>"

definition scan_Next :: "xid_t \<Rightarrow> IsolationLevel \<Rightarrow> cid_t \<Rightarrow> oid_t \<Rightarrow> (Rid DmlEnv, Record option) em" where
  "scan_Next xid level cid oid = ezoom scan_view scan_put (SeqScan_Next xid level cid oid)"

section \<open>Locks\<close>

text \<open>
  The transaction may take row locks for writing: the others have at most intention locks on the
  table and no lock on its rows.
\<close>

definition intends :: "LockType option \<Rightarrow> bool" where
  "intends m \<longleftrightarrow> m \<in> {None, Some IS, Some IX}"

definition may_write :: "xid_t \<Rightarrow> oid_t \<Rightarrow> LockManager \<Rightarrow> bool" where
  "may_write xid oid lm \<longleftrightarrow> lock_wf lm \<and> (\<forall>x. intends (held lm x (TableObj oid))) \<and>
     (\<forall>x rid. x \<noteq> xid \<longrightarrow> held lm x (RowObj oid (Some rid)) = None)"

definition locks_grow :: "xid_t \<Rightarrow> oid_t \<Rightarrow> LockManager \<Rightarrow> LockManager \<Rightarrow> bool" where
  "locks_grow xid oid lm lm' \<longleftrightarrow>
     (\<forall>rid. held lm xid (RowObj oid (Some rid)) = Some X \<longrightarrow> held lm' xid (RowObj oid (Some rid)) = Some X)"

lemma locks_grow_refl [simp]: "locks_grow xid oid lm lm"
  by (simp add: locks_grow_def)

lemma locks_grow_trans: "locks_grow xid oid a b \<Longrightarrow> locks_grow xid oid b c \<Longrightarrow> locks_grow xid oid a c"
  by (simp add: locks_grow_def)

lemma acquire_intends:
  assumes "intends m" "t = IS \<or> t = IX"
  shows "intends (Some (acquire m t))" "intends other \<Longrightarrow> mode_ok other (acquire m t)"
proof -
  show *: "intends (Some (acquire m t))"
    using assms by (auto simp: intends_def acquire_def Upgrade_def)
  show "intends other \<Longrightarrow> mode_ok other (acquire m t)"
    using * by (auto simp: intends_def mode_ok_def Compatible_def split: option.splits)
qed

lemma acquire_X: "acquire m X = X"
  by (cases m) (auto simp: acquire_def Upgrade_def intro: LockType.exhaust)

lemma lock_table_ok:
  assumes "may_write xid oid (te_locks e)" "ty = IS \<or> ty = IX"
  obtains lm where "lock_table xid ty oid e = (Inr True, e\<lparr>te_locks := lm\<rparr>)" "may_write xid oid lm" "locks_grow xid oid (te_locks e) lm"
proof -
  obtain ok lm where r: "LockTable xid ty oid (te_locks e) = (ok, lm)" by fastforce
  note sp = LockTable_spec [OF _ r]
  have wf: "lock_wf (te_locks e)" and i: "\<forall>x. intends (held (te_locks e) x (TableObj oid))"
    using assms(1) by (simp_all add: may_write_def)
  note a = acquire_intends [OF i [rule_format, of xid] assms(2)]
  have "ok" using sp(3) [OF wf] a(2) i by simp
  moreover have "may_write xid oid lm"
    using assms(1) sp(1,2) [OF wf] a(1) by (auto simp: may_write_def)
  moreover have "locks_grow xid oid (te_locks e) lm" using sp(2) [OF wf] by (simp add: locks_grow_def)
  ultimately show thesis using that r by (simp add: lock_table_def)
qed

lemma lock_row_ok:
  assumes "may_write xid oid (te_locks e)"
  obtains lm where "lock_row xid X oid rid e = (Inr True, e\<lparr>te_locks := lm\<rparr>)" "may_write xid oid lm"
    "locks_grow xid oid (te_locks e) lm" "held lm xid (RowObj oid (Some rid)) = Some X"
proof -
  obtain ok lm where r: "LockRow xid X oid rid (te_locks e) = (ok, lm)" by fastforce
  note sp = LockRow_spec [OF _ r]
  have wf: "lock_wf (te_locks e)" and i: "\<forall>x. intends (held (te_locks e) x (TableObj oid))"
    and n: "\<forall>x rid. x \<noteq> xid \<longrightarrow> held (te_locks e) x (RowObj oid (Some rid)) = None"
    using assms(1) by (simp_all add: may_write_def)
  note a = acquire_intends [OF i [rule_format, of xid], of IX]
  have "ok" using sp(3) [OF wf] a(2) i n by (simp add: intention_def mode_ok_def)
  moreover have "may_write xid oid lm"
    using assms(1) sp(1,2) [OF wf] a(1) by (auto simp: may_write_def intention_def)
  moreover have "locks_grow xid oid (te_locks e) lm" "held lm xid (RowObj oid (Some rid)) = Some X"
    using sp(2) [OF wf] by (simp_all add: locks_grow_def acquire_X)
  ultimately show thesis using that r by (simp add: lock_row_def)
qed

section \<open>The contract of the child\<close>

text \<open>The table is well-formed and the transaction may write to it.\<close>

definition dml_rep :: "xid_t \<Rightarrow> oid_t \<Rightarrow> Record list list \<Rightarrow> 's DmlEnv \<Rightarrow> bool" where
  "dml_rep xid oid rss s \<longleftrightarrow> table_rep rss (dm_table s) \<and> may_write xid oid (te_locks (dm_tx s))"

text \<open>What a call of the child keeps.\<close>

definition dml_kept :: "xid_t \<Rightarrow> oid_t \<Rightarrow> 's DmlEnv \<Rightarrow> 's DmlEnv \<Rightarrow> bool" where
  "dml_kept xid oid s s' \<longleftrightarrow> te_table (dm_table s') = te_table (dm_table s) \<and> dm_finished s' = dm_finished s \<and>
     scan_kept (te_table (dm_table s)) (te_pool (dm_table s)) (te_pool (dm_table s')) \<and>
     locks_grow xid oid (te_locks (dm_tx s)) (te_locks (dm_tx s'))"

lemma dml_kept_refl [simp]: "dml_kept xid oid s s"
  by (simp add: dml_kept_def)

lemma dml_kept_trans: "dml_kept xid oid a b \<Longrightarrow> dml_kept xid oid b c \<Longrightarrow> dml_kept xid oid a c"
  unfolding dml_kept_def using scan_kept_trans locks_grow_trans by metis

text \<open>The edits of a statement: a row that is not ahead of the child is deleted, or a new version is added.\<close>

definition delete_at :: "xid_t \<Rightarrow> Rid \<Rightarrow> Record list list \<Rightarrow> Record list list" where
  "delete_at xid rid = mark_deleted (unat (rid_page_id rid)) (unat (rid_slot_id rid)) xid"

definition row_edit :: "xid_t \<Rightarrow> cid_t \<Rightarrow> Rid set \<Rightarrow> Record list list \<Rightarrow> Record list list \<Rightarrow> bool" where
  "row_edit xid cid R rss rss' \<longleftrightarrow>
     (\<exists>rss1. (rss1 = rss \<or> (\<exists>rid. rid \<notin> R \<and> rid_valid rid rss \<and> rss1 = delete_at xid rid rss)) \<and>
        (rss' = rss1 \<or> (\<exists>k rec. k \<le> length rss1 \<and> rss' = place k (stamped xid cid rec) rss1)))"

text \<open>The variables of the child and the transactions are as they were.\<close>

definition same_child :: "'s DmlEnv \<Rightarrow> 's DmlEnv \<Rightarrow> bool" where
  "same_child s s' \<longleftrightarrow> dm_child s' = dm_child s \<and> dm_tx s' = (dm_tx s)\<lparr>te_locks := te_locks (dm_tx s')\<rparr>"

locale dml_child =
  fixes xid :: xid_t and cid :: cid_t and oid :: oid_t
    and "next" :: "('s DmlEnv, Record option) em"
    and "left" :: "Record list list \<Rightarrow> 's DmlEnv \<Rightarrow> Record list option"
    and ahead :: "Record list list \<Rightarrow> 's DmlEnv \<Rightarrow> Rid set"
  assumes child_rep: "left rss s = Some xs \<Longrightarrow> dml_rep xid oid rss s"
    and child_valid: "left rss s = Some xs \<Longrightarrow> x \<in> set xs \<Longrightarrow> rid_valid (r_rid x) rss"
    and child_end: "left rss s = Some [] \<Longrightarrow> \<exists>s'. next s = (Inr None, s') \<and> left rss s' = Some [] \<and> dml_kept xid oid s s'"
    and child_record: "left rss s = Some (x # xs) \<Longrightarrow>
      \<exists>s'. next s = (Inr (Some x), s') \<and> left rss s' = Some xs \<and> dml_kept xid oid s s' \<and> r_rid x \<notin> ahead rss s'"
    and child_edit: "left rss s = Some xs \<Longrightarrow> row_edit xid cid (ahead rss s) rss rss' \<Longrightarrow> dml_rep xid oid rss' s' \<Longrightarrow>
      same_child s s' \<Longrightarrow> left rss' s' = Some xs"
begin

text \<open>A filter over a child is one.\<close>

lemma filter_child_loop:
  assumes "left rss s = Some xs" "list_all (decided env predicate) xs" "length xs < fuel"
  shows "\<exists>s' ys. filter_loop env predicate next fuel s =
       (Inr (case filter (holds_for env predicate) xs of [] \<Rightarrow> None | x # _ \<Rightarrow> Some x), s') \<and> left rss s' = Some ys \<and>
     list_all (decided env predicate) ys \<and> length ys \<le> length xs \<and>
     filter (holds_for env predicate) ys = tl (filter (holds_for env predicate) xs) \<and> dml_kept xid oid s s' \<and>
     (filter (holds_for env predicate) xs \<noteq> [] \<longrightarrow> r_rid (hd (filter (holds_for env predicate) xs)) \<notin> ahead rss s')"
  using assms
proof (induction xs arbitrary: s fuel)
  case Nil
  obtain s' where "next s = (Inr None, s')" "left rss s' = Some []" "dml_kept xid oid s s'" using child_end [OF Nil(1)] by blast
  then show ?case using Nil(3) by (cases fuel) (auto simp: ebind_def)
next
  case (Cons x xs)
  obtain n where n: "fuel = Suc n" "length xs < n" using Cons.prems(3) by (cases fuel) auto
  obtain s1 where s1: "next s = (Inr (Some x), s1)" "left rss s1 = Some xs" "dml_kept xid oid s s1" "r_rid x \<notin> ahead rss s1"
    using child_record [OF Cons.prems(1)] by blast
  have d: "list_all (decided env predicate) xs" using Cons.prems(2) by simp
  obtain b where b: "passes env predicate x = Inr b" using Cons.prems(2) by (auto simp: decided_passes)
  then have h: "holds_for env predicate x \<longleftrightarrow> b" by (simp add: holds_for_passes)
  show ?case
  proof (cases b)
    case True
    then show ?thesis using s1 b h n(1) d by (auto simp: ebind_def)
  next
    case False
    have run: "filter_loop env predicate next fuel s = filter_loop env predicate next n s1"
      using s1(1) b False by (simp add: n(1) ebind_def)
    have f: "filter (holds_for env predicate) (x # xs) = filter (holds_for env predicate) xs" using h False by simp
    show ?thesis unfolding run f using Cons.IH [OF s1(2) d n(2)] dml_kept_trans [OF s1(3)] by (auto intro: le_SucI)
  qed
qed

lemma filter_child:
  "dml_child xid cid oid (Filter_Next env predicate next) (\<lambda>rss s. Option.bind (left rss s) (filter_left env predicate)) ahead"
proof -
  let ?L = "\<lambda>rss s. Option.bind (left rss s) (filter_left env predicate)"
  have pre: "\<exists>ys. left rss s = Some ys \<and> list_all (decided env predicate) ys \<and> length ys < ROW_FUEL \<and>
      filter (holds_for env predicate) ys = xs" if "?L rss s = Some xs" for rss s xs
    using that by (auto simp: bind_eq_Some_conv filter_left_def split: if_splits)
  show ?thesis
  proof
    fix rss s xs assume "?L rss s = Some xs"
    then obtain ys where ys: "left rss s = Some ys" "filter (holds_for env predicate) ys = xs" using pre by blast
    show "dml_rep xid oid rss s" by (rule child_rep [OF ys(1)])
    show "rid_valid (r_rid x) rss" if "x \<in> set xs" for x using child_valid [OF ys(1)] that ys(2) by auto
  next
    fix rss s assume "?L rss s = Some []"
    then obtain ys where ys: "left rss s = Some ys" "list_all (decided env predicate) ys" "length ys < ROW_FUEL"
      "filter (holds_for env predicate) ys = []" using pre by blast
    show "\<exists>s'. Filter_Next env predicate next s = (Inr None, s') \<and> ?L rss s' = Some [] \<and> dml_kept xid oid s s'"
      using filter_child_loop [OF ys(1-3)] ys(3,4) by (force simp: Filter_Next_def filter_left_def)
  next
    fix rss s x xs assume "?L rss s = Some (x # xs)"
    then obtain ys where ys: "left rss s = Some ys" "list_all (decided env predicate) ys" "length ys < ROW_FUEL"
      "filter (holds_for env predicate) ys = x # xs" using pre by blast
    show "\<exists>s'. Filter_Next env predicate next s = (Inr (Some x), s') \<and> ?L rss s' = Some xs \<and> dml_kept xid oid s s' \<and>
        r_rid x \<notin> ahead rss s'"
      using filter_child_loop [OF ys(1-3)] ys(3,4) by (force simp: Filter_Next_def filter_left_def)
  next
    fix rss s xs rss' s'
    assume l: "?L rss s = Some xs" and e: "row_edit xid cid (ahead rss s) rss rss'" "dml_rep xid oid rss' s'" "same_child s s'"
    then obtain ys where "left rss s = Some ys" "?L rss s = filter_left env predicate ys" using pre by fastforce
    then show "?L rss' s' = Some xs" using child_edit [OF _ e] l by simp
  qed
qed

end

section \<open>One row\<close>

text \<open>What a statement keeps: the other tables and the locks for writing it has.\<close>

definition dml_changed :: "xid_t \<Rightarrow> oid_t \<Rightarrow> 's DmlEnv \<Rightarrow> 's DmlEnv \<Rightarrow> bool" where
  "dml_changed xid oid s s' \<longleftrightarrow> (\<exists>f. te_table (dm_table s') = (te_table (dm_table s))\<lparr>tb_first_page_id := f\<rparr>) \<and>
     dm_finished s' = dm_finished s \<and> outside_kept (te_table (dm_table s)) (te_pool (dm_table s)) (te_pool (dm_table s')) \<and>
     locks_grow xid oid (te_locks (dm_tx s)) (te_locks (dm_tx s'))"

lemma dml_changed_first:
  "te_table (dm_table s') = te_table (dm_table s) \<Longrightarrow> dm_finished s' = dm_finished s \<Longrightarrow>
   outside_kept (te_table (dm_table s)) (te_pool (dm_table s)) (te_pool (dm_table s')) \<Longrightarrow>
   locks_grow xid oid (te_locks (dm_tx s)) (te_locks (dm_tx s')) \<Longrightarrow> dml_changed xid oid s s'"
  unfolding dml_changed_def by (intro conjI exI [of _ "tb_first_page_id (te_table (dm_table s))"]) simp_all

lemma dml_changed_trans:
  assumes "dml_changed xid oid a b" "dml_changed xid oid b c"
  shows "dml_changed xid oid a c"
proof -
  obtain f g where t: "te_table (dm_table b) = (te_table (dm_table a))\<lparr>tb_first_page_id := f\<rparr>"
    "te_table (dm_table c) = (te_table (dm_table b))\<lparr>tb_first_page_id := g\<rparr>"
    using assms by (auto simp: dml_changed_def)
  have "te_table (dm_table c) = (te_table (dm_table a))\<lparr>tb_first_page_id := g\<rparr>" using t by simp
  moreover have "outside_kept (te_table (dm_table a)) (te_pool (dm_table b)) (te_pool (dm_table c))"
    using assms(2) t(1) by (simp add: dml_changed_def)
  ultimately show ?thesis
    using assms outside_kept_trans locks_grow_trans unfolding dml_changed_def by metis
qed

lemma dml_kept_changed: "dml_kept xid oid s s' \<Longrightarrow> dml_changed xid oid s s'"
  by (simp add: dml_kept_def scan_kept_def dml_changed_first)

abbreviation dml_log :: "'s DmlEnv \<Rightarrow> LogEnv" where
  "dml_log s \<equiv> pe_log (te_pool (dm_table s))"

abbreviation write_locked :: "xid_t \<Rightarrow> oid_t \<Rightarrow> 's DmlEnv \<Rightarrow> Rid \<Rightarrow> bool" where
  "write_locked xid oid s rid \<equiv> held (te_locks (dm_tx s)) xid (RowObj oid (Some rid)) = Some X"

lemma write_locked_changed: "dml_changed xid oid s s' \<Longrightarrow> write_locked xid oid s rid \<Longrightarrow> write_locked xid oid s' rid"
  by (simp add: dml_changed_def locks_grow_def)

lemma need_lock_row_ok:
  assumes "may_write xid oid (te_locks (dm_tx s))"
  obtains lm where "need_lock msg (lock_row xid X oid rid) s = (Inr (), s\<lparr>dm_tx := (dm_tx s)\<lparr>te_locks := lm\<rparr>\<rparr>)" "may_write xid oid lm"
    "locks_grow xid oid (te_locks (dm_tx s)) lm" "held lm xid (RowObj oid (Some rid)) = Some X"
proof -
  obtain lm where "lock_row xid X oid rid (dm_tx s) = (Inr True, (dm_tx s)\<lparr>te_locks := lm\<rparr>)" "may_write xid oid lm"
    "locks_grow xid oid (te_locks (dm_tx s)) lm" "held lm xid (RowObj oid (Some rid)) = Some X"
    by (rule lock_row_ok [OF assms])
  then show thesis using that [of lm] by (simp add: need_lock_def ebind_def on_tx_def ezoom_def)
qed

lemma delete_row_ok:
  assumes rep: "dml_rep xid oid rss s" and rid: "rid_valid (r_rid x) rss" and lg: "log_ready (Suc m) xid (dml_log s)"
  obtains s' where "delete_row xid oid x s = (Inr (), s')" "dml_rep xid oid (delete_at xid (r_rid x) rss) s'" "same_child s s'"
    "dml_changed xid oid s s'" "log_ready m xid (dml_log s')" "write_locked xid oid s' (r_rid x)"
proof -
  have tr: "table_rep rss (dm_table s)" and mw: "may_write xid oid (te_locks (dm_tx s))" using rep by (simp_all add: dml_rep_def)
  obtain lm where lm: "need_lock ''delete lock failed!'' (lock_row xid X oid (r_rid x)) s = (Inr (), s\<lparr>dm_tx := (dm_tx s)\<lparr>te_locks := lm\<rparr>\<rparr>)"
    "may_write xid oid lm" "locks_grow xid oid (te_locks (dm_tx s)) lm" "held lm xid (RowObj oid (Some (r_rid x))) = Some X"
    by (rule need_lock_row_ok [OF mw])
  let ?t = "dm_table s" and ?i = "unat (rid_page_id (r_rid x))" and ?j = "unat (rid_slot_id (r_rid x))"
  have tp: "table_pages NULL_PAGE_ID (te_table ?t) rss (te_pool ?t)" using tr by (simp add: table_rep_def)
  obtain p' where p': "Table_DeleteRecord (r_rid x) xid True ?t = (Inr (), ?t\<lparr>te_pool := p'\<rparr>)"
    "table_pages NULL_PAGE_ID (te_table ?t) (mark_deleted ?i ?j xid rss) p'" "outside_kept (te_table ?t) (te_pool ?t) p'"
    "log_ready m xid (pe_log p')"
    by (rule Table_DeleteRecord_ok [OF tp rid, of True m xid]) (use lg in blast)+
  have "table_rep (mark_deleted ?i ?j xid rss) (?t\<lparr>te_pool := p'\<rparr>)"
    using tr rid p'(2) mark_deleted_nonempty [of rss ?i] by (auto simp: table_rep_def rid_valid_def mark_deleted_def)
  then show thesis
    using that [of "s\<lparr>dm_tx := (dm_tx s)\<lparr>te_locks := lm\<rparr>, dm_table := ?t\<lparr>te_pool := p'\<rparr>\<rparr>"] lm p'(1,3,4)
    by (simp add: delete_row_def ebind_def on_table_def ezoom_def dml_rep_def delete_at_def same_child_def dml_changed_first)
qed

text \<open>The new version of a row.\<close>

definition new_version :: "eval_env \<Rightarrow> Expr list \<Rightarrow> Record \<Rightarrow> Record result" where
  "new_version env update_exprs x = rbind (evaluate_all env update_exprs x) (\<lambda>vs. Record_new vs no_rid)"

text \<open>It can be stored in the table.\<close>

definition storable_row :: "Table \<Rightarrow> Record \<Rightarrow> bool" where
  "storable_row t rec \<longleftrightarrow> record_ok rec \<and> columns_fit (tb_column_list t) (r_values rec) \<and> length (record_bytes rec) \<le> MAX_RECORD_SIZE"

lemma storable_first [simp]: "storable_row (t\<lparr>tb_first_page_id := f\<rparr>) rec = storable_row t rec"
  by (simp add: storable_row_def)

lemma storable_changed: "dml_changed xid oid s s' \<Longrightarrow> storable_row (te_table (dm_table s')) rec = storable_row (te_table (dm_table s)) rec"
  by (auto simp: dml_changed_def)

definition update_at :: "xid_t \<Rightarrow> cid_t \<Rightarrow> Rid \<Rightarrow> Record \<Rightarrow> Record list list \<Rightarrow> Record list list" where
  "update_at xid cid rid rec rss = place (first_fit rec rss) (stamped xid cid rec) (delete_at xid rid rss)"

lemma update_row_ok:
  assumes rep: "dml_rep xid oid rss s" and rid: "rid_valid (r_rid x) rss" and lg: "log_ready (Suc (Suc (Suc m))) xid (dml_log s)"
    and rec: "new_version env exprs x = Inr rec" "storable_row (te_table (dm_table s)) rec" and n: "length rss + 1 < 2 ^ 32"
  obtains s' where "update_row env exprs xid cid oid x s = (Inr (), s')" "dml_rep xid oid (update_at xid cid (r_rid x) rec rss) s'"
    "same_child s s'" "dml_changed xid oid s s'" "log_ready m xid (dml_log s')" "write_locked xid oid s' (r_rid x)"
proof -
  have tr: "table_rep rss (dm_table s)" and mw: "may_write xid oid (te_locks (dm_tx s))" using rep by (simp_all add: dml_rep_def)
  let ?t = "dm_table s"
  obtain lm where lm: "need_lock ''update lock failed!'' (lock_row xid X oid (r_rid x)) s = (Inr (), s\<lparr>dm_tx := (dm_tx s)\<lparr>te_locks := lm\<rparr>\<rparr>)"
    "may_write xid oid lm" "locks_grow xid oid (te_locks (dm_tx s)) lm" "held lm xid (RowObj oid (Some (r_rid x))) = Some X"
    by (rule need_lock_row_ok [OF mw])
  have ins: "insertable m (te_table ?t) rec True xid (pe_log (te_pool ?t))"
    using rec(2) lg by (auto simp: insertable_def storable_row_def log_ready_def)
  let ?rid = "placed_rid (first_fit rec rss) (delete_at xid (r_rid x) rss)"
  obtain p' where p': "Table_UpdateRecord (r_rid x) xid cid rec True ?t = (Inr (?rid, (stamped xid cid rec)\<lparr>r_rid := ?rid\<rparr>),
       ?t\<lparr>te_pool := p', te_table := (te_table ?t)\<lparr>tb_first_page_id := 0\<rparr>\<rparr>)"
    "table_rep (update_at xid cid (r_rid x) rec rss) (?t\<lparr>te_pool := p', te_table := (te_table ?t)\<lparr>tb_first_page_id := 0\<rparr>\<rparr>)"
    "outside_kept (te_table ?t) (te_pool ?t) p'" "log_ready m xid (pe_log p')"
    using Table_UpdateRecord_ok [OF tr rid ins n lg, of cid] unfolding update_at_def delete_at_def by blast
  let ?s1 = "s\<lparr>dm_tx := (dm_tx s)\<lparr>te_locks := lm\<rparr>, dm_table := ?t\<lparr>te_pool := p', te_table := (te_table ?t)\<lparr>tb_first_page_id := 0\<rparr>\<rparr>\<rparr>"
  obtain lm2 where lm2: "need_lock ''update lock failed!'' (lock_row xid X oid ?rid) ?s1 = (Inr (), ?s1\<lparr>dm_tx := (dm_tx ?s1)\<lparr>te_locks := lm2\<rparr>\<rparr>)"
    "may_write xid oid lm2" "locks_grow xid oid lm lm2"
    by (rule need_lock_row_ok [of xid oid ?s1]) (use lm(2) in simp_all)
  let ?s2 = "?s1\<lparr>dm_tx := (dm_tx s)\<lparr>te_locks := lm2\<rparr>\<rparr>"
  have run: "update_row env exprs xid cid oid x s = (Inr (), ?s2)"
    using rec(1) lm(1) p'(1) lm2(1) by (simp add: update_row_def new_version_def ebind_def on_table_def ezoom_def)
  have "dml_changed xid oid s ?s2"
    unfolding dml_changed_def using p'(3) locks_grow_trans [OF lm(3) lm2(3)] by (intro conjI exI [of _ 0]) simp_all
  moreover have "write_locked xid oid ?s2 (r_rid x)" using lm(4) lm2(3) by (simp add: locks_grow_def)
  ultimately show thesis
    using that [OF run] p'(2,4) lm2(2) by (simp add: dml_rep_def same_child_def)
qed

section \<open>Whole statements\<close>

lemma log_ready_kept: "dml_kept xid oid s s' \<Longrightarrow> log_ready m x (dml_log s) \<Longrightarrow> log_ready m x (dml_log s')"
  using log_kept_ready by (auto simp: dml_kept_def scan_kept_def)

lemma row_edit_delete: "rid \<notin> R \<Longrightarrow> rid_valid rid rss \<Longrightarrow> row_edit xid cid R rss (delete_at xid rid rss)"
  unfolding row_edit_def by blast

lemma first_fit_le: "first_fit rec rss \<le> length rss"
  by (induction rss) auto

lemma length_delete_at [simp]: "length (delete_at xid rid rss) = length rss"
  by (simp add: delete_at_def mark_deleted_def)

lemma length_delete_at_row [simp]: "i < length rss \<Longrightarrow> length (delete_at xid rid rss ! i) = length (rss ! i)"
  by (cases "unat (rid_page_id rid) = i") (simp_all add: delete_at_def mark_deleted_def)

lemma row_edit_update: "rid \<notin> R \<Longrightarrow> rid_valid rid rss \<Longrightarrow> row_edit xid cid R rss (update_at xid cid rid rec rss)"
  unfolding row_edit_def update_at_def using first_fit_le length_delete_at by metis

context dml_child
begin

lemma delete_loop_ok:
  assumes "left rss s = Some xs" "log_ready (length xs) xid (dml_log s)" "length xs < fuel"
  shows "\<exists>s'. dml_loop (delete_row xid oid) next fuel c s = (Inr (c + of_nat (length xs)), s') \<and>
     dml_rep xid oid (fold (\<lambda>x. delete_at xid (r_rid x)) xs rss) s' \<and> dml_changed xid oid s s' \<and>
     (\<forall>x \<in> set xs. write_locked xid oid s' (r_rid x))"
  using assms
proof (induction xs arbitrary: rss s c fuel)
  case Nil
  obtain s' where "next s = (Inr None, s')" "left rss s' = Some []" "dml_kept xid oid s s'" using child_end [OF Nil(1)] by blast
  then show ?case using Nil(3) child_rep dml_kept_changed by (cases fuel) (auto simp: ebind_def)
next
  case (Cons x xs)
  obtain n where n: "fuel = Suc n" "length xs < n" using Cons.prems(3) by (cases fuel) auto
  obtain s1 where s1: "next s = (Inr (Some x), s1)" "left rss s1 = Some xs" "dml_kept xid oid s s1" "r_rid x \<notin> ahead rss s1"
    using child_record [OF Cons.prems(1)] by blast
  have v: "rid_valid (r_rid x) rss" using child_valid [OF Cons.prems(1)] by simp
  have lg: "log_ready (Suc (length xs)) xid (dml_log s1)" using log_ready_kept [OF s1(3)] Cons.prems(2) by simp
  obtain s2 where s2: "delete_row xid oid x s1 = (Inr (), s2)" "dml_rep xid oid (delete_at xid (r_rid x) rss) s2" "same_child s1 s2"
    "dml_changed xid oid s1 s2" "log_ready (length xs) xid (dml_log s2)" "write_locked xid oid s2 (r_rid x)"
    by (rule delete_row_ok [OF child_rep [OF s1(2)] v lg])
  have l2: "left (delete_at xid (r_rid x) rss) s2 = Some xs"
    by (rule child_edit [OF s1(2) row_edit_delete [OF s1(4) v] s2(2,3)])
  obtain s' where s': "dml_loop (delete_row xid oid) next n (c + 1) s2 = (Inr (c + 1 + of_nat (length xs)), s')"
    "dml_rep xid oid (fold (\<lambda>x. delete_at xid (r_rid x)) xs (delete_at xid (r_rid x) rss)) s'" "dml_changed xid oid s2 s'"
    "\<forall>x \<in> set xs. write_locked xid oid s' (r_rid x)"
    using Cons.IH [OF l2 s2(5) n(2)] by blast
  have "dml_loop (delete_row xid oid) next fuel c s = (Inr (c + of_nat (length (x # xs))), s')"
    using s1(1) s2(1) s'(1) by (simp add: n(1) ebind_def add.assoc)
  moreover have "dml_changed xid oid s s'"
    using dml_kept_changed [OF s1(3)] s2(4) s'(3) dml_changed_trans by blast
  ultimately show ?case using s'(2,4) write_locked_changed [OF s'(3) s2(6)] by auto
qed

lemma update_loop_ok:
  assumes "left rss s = Some xs" "log_ready (3 * length xs) xid (dml_log s)" "length xs < fuel" "length rss + length xs < 2 ^ 32"
    and "list_all2 (\<lambda>x rec. new_version env exprs x = Inr rec \<and> storable_row (te_table (dm_table s)) rec) xs recs"
  shows "\<exists>s'. dml_loop (update_row env exprs xid cid oid) next fuel c s = (Inr (c + of_nat (length xs)), s') \<and>
     dml_rep xid oid (fold (\<lambda>(x, rec). update_at xid cid (r_rid x) rec) (zip xs recs) rss) s' \<and> dml_changed xid oid s s' \<and>
     (\<forall>x \<in> set xs. write_locked xid oid s' (r_rid x))"
  using assms
proof (induction xs arbitrary: rss s c fuel recs)
  case Nil
  obtain s' where "next s = (Inr None, s')" "left rss s' = Some []" "dml_kept xid oid s s'" using child_end [OF Nil(1)] by blast
  then show ?case using Nil(3) child_rep dml_kept_changed by (cases fuel) (auto simp: ebind_def)
next
  case (Cons x xs)
  obtain n where n: "fuel = Suc n" "length xs < n" using Cons.prems(3) by (cases fuel) auto
  obtain rec rs where rec: "recs = rec # rs" "new_version env exprs x = Inr rec" "storable_row (te_table (dm_table s)) rec"
    "list_all2 (\<lambda>x rec. new_version env exprs x = Inr rec \<and> storable_row (te_table (dm_table s)) rec) xs rs"
    using Cons.prems(5) by (auto simp: list_all2_Cons1)
  obtain s1 where s1: "next s = (Inr (Some x), s1)" "left rss s1 = Some xs" "dml_kept xid oid s s1" "r_rid x \<notin> ahead rss s1"
    using child_record [OF Cons.prems(1)] by blast
  have v: "rid_valid (r_rid x) rss" using child_valid [OF Cons.prems(1)] by simp
  have lg: "log_ready (Suc (Suc (Suc (3 * length xs)))) xid (dml_log s1)"
    using log_ready_kept [OF s1(3)] Cons.prems(2) by (simp add: eval_nat_numeral)
  have st1: "storable_row (te_table (dm_table s1)) rec" using rec(3) storable_changed [OF dml_kept_changed [OF s1(3)]] by simp
  have len: "length rss + 1 < 2 ^ 32" using Cons.prems(4) by (cases xs) auto
  let ?rss = "update_at xid cid (r_rid x) rec rss"
  obtain s2 where s2: "update_row env exprs xid cid oid x s1 = (Inr (), s2)" "dml_rep xid oid ?rss s2" "same_child s1 s2"
    "dml_changed xid oid s1 s2" "log_ready (3 * length xs) xid (dml_log s2)" "write_locked xid oid s2 (r_rid x)"
    by (rule update_row_ok [OF child_rep [OF s1(2)] v lg rec(2) st1 len])
  have l2: "left ?rss s2 = Some xs" by (rule child_edit [OF s1(2) row_edit_update [OF s1(4) v] s2(2,3)])
  have ch: "dml_changed xid oid s s2" using dml_kept_changed [OF s1(3)] s2(4) dml_changed_trans by blast
  have len2: "length ?rss + length xs < 2 ^ 32" using Cons.prems(4) by (simp add: update_at_def place_def)
  have st2: "list_all2 (\<lambda>x rec. new_version env exprs x = Inr rec \<and> storable_row (te_table (dm_table s2)) rec) xs rs"
    using rec(4) storable_changed [OF ch] by simp
  obtain s' where s': "dml_loop (update_row env exprs xid cid oid) next n (c + 1) s2 = (Inr (c + 1 + of_nat (length xs)), s')"
    "dml_rep xid oid (fold (\<lambda>(x, rec). update_at xid cid (r_rid x) rec) (zip xs rs) ?rss) s'" "dml_changed xid oid s2 s'"
    "\<forall>x \<in> set xs. write_locked xid oid s' (r_rid x)"
    using Cons.IH [OF l2 s2(5) n(2) len2 st2] by blast
  have "dml_loop (update_row env exprs xid cid oid) next fuel c s = (Inr (c + of_nat (length (x # xs))), s')"
    using s1(1) s2(1) s'(1) by (simp add: n(1) ebind_def add.assoc)
  then show ?case using s'(2,4) write_locked_changed [OF s'(3) s2(6)] dml_changed_trans [OF ch s'(3)] rec(1) by auto
qed

end

text \<open>The count that a statement returns.\<close>

definition count_record :: "32 word \<Rightarrow> Record" where
  "count_record c = UpdateSize \<lparr>r_null_bitmap = Bitmap_new 1, r_values = [Value_uint c], r_header = RecordHeader_default,
     r_rid = no_rid, r_size = 0\<rparr>"

lemma Record_new_count: "Record_new [Value_uint c] no_rid = Inr (count_record c)"
  by (simp add: Record_new_def null_marks_def count_record_def IsNull_def Value_uint_def)

lemma dml_Next_first:
  assumes "\<not> dm_finished s" "dml_loop body next ROW_FUEL 0 s = (Inr c, s')"
  shows "dml_Next body next s = (Inr (Some (count_record c)), s'\<lparr>dm_finished := True\<rparr>)"
  using assms by (simp add: dml_Next_def ebind_def Record_new_count)

lemma dml_Next_again: "dm_finished s \<Longrightarrow> dml_Next body next s = (Inr None, s)"
  by (simp add: dml_Next_def ebind_def)

section \<open>Insertion\<close>

text \<open>A child that does not touch the table.\<close>

definition on_own :: "('s, 'a) em \<Rightarrow> ('s DmlEnv, 'a) em" where
  "on_own = ezoom dm_child (\<lambda>c s. s\<lparr>dm_child := c\<rparr>)"

text \<open>
  The record that an insertion stores, by the names of the columns: a column that the statement names has the value given
  for it (the last one, if it is named twice), every other column is null.
\<close>

definition given :: "ColumnList \<Rightarrow> Record \<Rightarrow> ColumnDefinition \<Rightarrow> Val" where
  "given insert_columns x c =
     (case map_of (rev (zip (map cd_name (cl_columns insert_columns)) (r_values x))) (cd_name c) of
        Some v \<Rightarrow> v
      | None \<Rightarrow> Value_null)"

definition inserted :: "ColumnList \<Rightarrow> ColumnList \<Rightarrow> Record \<Rightarrow> Record result" where
  "inserted column_list insert_columns x = Record_new (map (given insert_columns x) (cl_columns column_list)) no_rid"

text \<open>The statement names columns of the table, and the record has a value for each of them.\<close>

definition names_columns :: "ColumnList \<Rightarrow> ColumnList \<Rightarrow> Record \<Rightarrow> bool" where
  "names_columns column_list insert_columns x \<longleftrightarrow>
     index_ok column_list \<and> distinct (map cd_name (cl_columns column_list)) \<and>
     cd_name ` set (cl_columns insert_columns) \<subseteq> cd_name ` set (cl_columns column_list) \<and>
     length (cl_columns insert_columns) \<le> length (r_values x)"

lemma map_update_named:
  assumes "distinct (map cd_name cs)" "j < length cs"
  shows "(map g cs)[j := v] = map (\<lambda>c. if cd_name c = cd_name (cs ! j) then v else g c) cs"
proof (rule nth_equalityI)
  fix i assume i: "i < length ((map g cs)[j := v])"
  then have "cd_name (cs ! i) = cd_name (cs ! j) \<longleftrightarrow> i = j"
    using assms by (simp add: distinct_conv_nth) metis
  then show "(map g cs)[j := v] ! i = map (\<lambda>c. if cd_name c = cd_name (cs ! j) then v else g c) cs ! i"
    using i by (simp add: nth_list_update)
qed simp

lemma insert_values_from:
  assumes cl: "index_ok cl" "distinct (map cd_name (cl_columns cl))"
  shows "set names \<subseteq> cd_name ` set (cl_columns cl) \<Longrightarrow> k + length names \<le> length (r_values x) \<Longrightarrow>
    rfold (\<lambda>(i, name) vs.
             rbind (GetColumnIndex name cl) (\<lambda>column_index.
             rbind (Record_GetValue i x) (\<lambda>v.
               if column_index < length vs then Inr (vs[column_index := v])
               else Inl (Undefined ''vector index out of range''))))
          (enumerate k names) (map g (cl_columns cl)) =
    Inr (map (\<lambda>c. case map_of (rev (zip names (drop k (r_values x)))) (cd_name c) of Some v \<Rightarrow> v | None \<Rightarrow> g c) (cl_columns cl))"
proof (induction names arbitrary: k g)
  case (Cons name names)
  obtain j where j: "j < length (cl_columns cl)" "cd_name (cl_columns cl ! j) = name"
    using Cons.prems(1) by (auto simp: in_set_conv_nth)
  have ix: "GetColumnIndex name cl = Inr j"
    using index_ok_lookup [OF cl j(1)] j(2) by (simp add: GetColumnIndex_def)
  have k: "k < length (r_values x)" using Cons.prems(2) by simp
  then have v: "Record_GetValue k x = Inr (r_values x ! k)" "drop k (r_values x) = r_values x ! k # drop (Suc k) (r_values x)"
    by (simp_all add: Record_GetValue_def Cons_nth_drop_Suc)
  let ?g = "\<lambda>c. if cd_name c = name then r_values x ! k else g c"
  have m: "set names \<subseteq> cd_name ` set (cl_columns cl)" "Suc k + length names \<le> length (r_values x)" using Cons.prems by simp_all
  have "(map g (cl_columns cl))[j := r_values x ! k] = map ?g (cl_columns cl)"
    using map_update_named [OF cl(2) j(1)] j(2) by simp
  then show ?case
    using Cons.IH [OF m, of ?g] ix v j(1) by (simp add: map_add_def) (auto split: option.split)
qed (simp add: case_prod_unfold)

lemma insert_values_named: "names_columns cl ic x \<Longrightarrow> insert_values cl ic x = Inr (map (given ic x) (cl_columns cl))"
  using insert_values_from [of cl "map cd_name (cl_columns ic)" 0 x "\<lambda>_. Value_null"]
  by (simp add: names_columns_def insert_values_def given_def ColumnList_Length_def map_replicate_const image_image comp_def)

definition insert_at_first_fit :: "xid_t \<Rightarrow> cid_t \<Rightarrow> Record \<Rightarrow> Record list list \<Rightarrow> Record list list" where
  "insert_at_first_fit xid cid rec rss = place (first_fit rec rss) (stamped xid cid rec) rss"

lemma insert_row_ok:
  assumes rep: "dml_rep xid oid rss s" and lg: "log_ready (Suc (Suc m)) xid (dml_log s)"
    and ic: "names_columns cl ic x" and rec: "inserted cl ic x = Inr rec" "storable_row (te_table (dm_table s)) rec" and n: "length rss + 1 < 2 ^ 32"
  obtains s' where "insert_row xid cid oid cl ic x s = (Inr (), s')" "dml_rep xid oid (insert_at_first_fit xid cid rec rss) s'"
    "dm_child s' = dm_child s" "dml_changed xid oid s s'" "log_ready m xid (dml_log s')"
    "write_locked xid oid s' (placed_rid (first_fit rec rss) rss)"
proof -
  have tr: "table_rep rss (dm_table s)" and mw: "may_write xid oid (te_locks (dm_tx s))" using rep by (simp_all add: dml_rep_def)
  let ?t = "dm_table s" and ?rid = "placed_rid (first_fit rec rss) rss"
  obtain lm where lm: "lock_table xid IX oid (dm_tx s) = (Inr True, (dm_tx s)\<lparr>te_locks := lm\<rparr>)" "may_write xid oid lm"
    "locks_grow xid oid (te_locks (dm_tx s)) lm"
    by (rule lock_table_ok [OF mw, of IX]) simp_all
  have ins: "insertable m (te_table ?t) rec True xid (pe_log (te_pool ?t))"
    using rec(2) lg by (simp add: insertable_def storable_row_def)
  obtain p' where p': "Table_InsertRecord rec xid cid True ?t = (Inr (?rid, (stamped xid cid rec)\<lparr>r_rid := ?rid\<rparr>),
       ?t\<lparr>te_pool := p', te_table := (te_table ?t)\<lparr>tb_first_page_id := 0\<rparr>\<rparr>)"
    "placed m (te_table ?t) (first_fit rec rss) (stamped xid cid rec) True xid rss (te_pool ?t) p'"
    by (rule Table_InsertRecord_ok [OF tr ins n])
  let ?s1 = "s\<lparr>dm_tx := (dm_tx s)\<lparr>te_locks := lm\<rparr>, dm_table := ?t\<lparr>te_pool := p', te_table := (te_table ?t)\<lparr>tb_first_page_id := 0\<rparr>\<rparr>\<rparr>"
  obtain lm2 where lm2: "need_lock ''insert lock failed!'' (lock_row xid X oid ?rid) ?s1 = (Inr (), ?s1\<lparr>dm_tx := (dm_tx ?s1)\<lparr>te_locks := lm2\<rparr>\<rparr>)"
    "may_write xid oid lm2" "locks_grow xid oid lm lm2" "held lm2 xid (RowObj oid (Some ?rid)) = Some X"
    by (rule need_lock_row_ok [of xid oid ?s1]) (use lm(2) in simp_all)
  let ?s2 = "?s1\<lparr>dm_tx := (dm_tx s)\<lparr>te_locks := lm2\<rparr>\<rparr>"
  have run: "insert_row xid cid oid cl ic x s = (Inr (), ?s2)"
    using rec(1) lm(1) p'(1) lm2(1)
    by (simp add: insert_row_def insert_values_named [OF ic] inserted_def ebind_def on_table_def ezoom_def need_lock_def [of "''insert table lock failed!''"] on_tx_def)
  have "dml_changed xid oid s ?s2"
    unfolding dml_changed_def using p'(2) locks_grow_trans [OF lm(3) lm2(3)] by (intro conjI exI [of _ 0]) (simp_all add: placed_def)
  then show thesis
    using that [OF run] placed_rep [OF tr p'(2)] p'(2) lm2(2,4) by (simp add: dml_rep_def insert_at_first_fit_def placed_def)
qed

context record_source
begin

lemma insert_rows_ok:
  assumes "left (dm_child s) = Some xs" "log_ready (2 * length xs) xid (dml_log s)" "length xs < fuel" "length rss + length xs < 2 ^ 32"
    and "list_all2 (\<lambda>x rec. inserted cl ic x = Inr rec \<and> storable_row (te_table (dm_table s)) rec) xs recs"
    and "list_all (names_columns cl ic) xs"
    and "dml_rep xid oid rss s"
  shows "\<exists>s'. dml_loop (insert_row xid cid oid cl ic) (on_own next) fuel c s = (Inr (c + of_nat (length xs)), s') \<and>
     dml_rep xid oid (fold (insert_at_first_fit xid cid) recs rss) s' \<and> dml_changed xid oid s s'"
  using assms
proof (induction xs arbitrary: rss s c fuel recs)
  case Nil
  obtain d where d: "next (dm_child s) = (Inr None, d)" using next_end [OF Nil(1)] by blast
  have "dml_rep xid oid rss (s\<lparr>dm_child := d\<rparr>)" "dml_changed xid oid s (s\<lparr>dm_child := d\<rparr>)"
    using Nil(7) by (simp_all add: dml_rep_def dml_changed_first)
  then show ?case using Nil(3,5) d by (cases fuel) (auto simp: ebind_def on_own_def ezoom_def)
next
  case (Cons x xs)
  obtain n where n: "fuel = Suc n" "length xs < n" using Cons.prems(3) by (cases fuel) auto
  obtain rec rs where rec: "recs = rec # rs" "inserted cl ic x = Inr rec" "storable_row (te_table (dm_table s)) rec"
    "list_all2 (\<lambda>x rec. inserted cl ic x = Inr rec \<and> storable_row (te_table (dm_table s)) rec) xs rs"
    using Cons.prems(5) by (auto simp: list_all2_Cons1)
  obtain d where d: "next (dm_child s) = (Inr (Some x), d)" "left d = Some xs" using next_record [OF Cons.prems(1)] by blast
  let ?s1 = "s\<lparr>dm_child := d\<rparr>"
  have s1: "dml_rep xid oid rss ?s1" "dml_changed xid oid s ?s1" using Cons.prems(7) by (simp_all add: dml_rep_def dml_changed_first)
  have lg: "log_ready (Suc (Suc (2 * length xs))) xid (dml_log ?s1)" using Cons.prems(2) by simp
  have st1: "storable_row (te_table (dm_table ?s1)) rec" using rec(3) by simp
  have len: "length rss + 1 < 2 ^ 32" using Cons.prems(4) by (cases xs) auto
  have ic: "names_columns cl ic x" "list_all (names_columns cl ic) xs" using Cons.prems(6) by simp_all
  let ?rss = "insert_at_first_fit xid cid rec rss"
  obtain s2 where s2: "insert_row xid cid oid cl ic x ?s1 = (Inr (), s2)" "dml_rep xid oid ?rss s2" "dm_child s2 = dm_child ?s1"
    "dml_changed xid oid ?s1 s2" "log_ready (2 * length xs) xid (dml_log s2)"
    by (rule insert_row_ok [OF s1(1) lg ic(1) rec(2) st1 len])
  have ch: "dml_changed xid oid s s2" using s1(2) s2(4) dml_changed_trans by blast
  have l2: "left (dm_child s2) = Some xs" using d(2) s2(3) by simp
  have len2: "length ?rss + length xs < 2 ^ 32" using Cons.prems(4) by (simp add: insert_at_first_fit_def place_def)
  have st2: "list_all2 (\<lambda>x rec. inserted cl ic x = Inr rec \<and> storable_row (te_table (dm_table s2)) rec) xs rs"
    using rec(4) storable_changed [OF ch] by simp
  obtain s' where s': "dml_loop (insert_row xid cid oid cl ic) (on_own next) n (c + 1) s2 = (Inr (c + 1 + of_nat (length xs)), s')"
    "dml_rep xid oid (fold (insert_at_first_fit xid cid) rs ?rss) s'" "dml_changed xid oid s2 s'"
    using Cons.IH [OF l2 s2(5) n(2) len2 st2 ic(2) s2(2)] by blast
  have "dml_loop (insert_row xid cid oid cl ic) (on_own next) fuel c s = (Inr (c + of_nat (length (x # xs))), s')"
    using d(1) s2(1) s'(1) by (simp add: n(1) ebind_def on_own_def ezoom_def add.assoc)
  then show ?case using s'(2) dml_changed_trans [OF ch s'(3)] rec(1) by auto
qed

end

end
