(* ===== verification/Dml_Statements.thy ===== *)
theory Dml_Statements
  imports Write_Executors
begin

text \<open>
  \<^verbatim>\<open>DELETE\<close>, \<^verbatim>\<open>UPDATE\<close> and \<^verbatim>\<open>INSERT\<close> as whole statements: the executors over a filtered scan of the table
  they change, or over \<^verbatim>\<open>VALUES\<close>, through lock manager, table, buffer pool, log and disk. The scan is shown
  to be a \<open>dml_child\<close>: the rows a statement deletes lie behind it, and the versions it adds are invisible
  to it.
\<close>

section \<open>A scan below the statement\<close>

text \<open>The rows ahead of a scan, and what an edit does to them.\<close>

lemma rid_at_of [simp]: "rid_at (unat (rid_page_id rid)) (unat (rid_slot_id rid)) = rid"
  by (simp add: rid_at_def)

lemma set_rows_from:
  assumes "x \<in> set (rows_from rss i j)" "i < length rss"
  obtains m n where "m < length rss" "n < length (rss ! m)" "x = (rid_at m n, rss ! m ! n)"
  using assms by (auto simp: rows_from_def page_rids_def)

lemma rid_at_unat:
  assumes "table_pages nx t rss s" "m < length rss" "n < length (rss ! m)"
  shows "unat (rid_page_id (rid_at m n)) = m" "unat (rid_slot_id (rid_at m n)) = n"
proof -
  have "length rss < 2 ^ 32" "length (rss ! m) \<le> 14"
    using assms(1) row_count [OF assms(1,2)] by (simp_all add: table_pages_def table_owns_def)
  then show "unat (rid_page_id (rid_at m n)) = m" "unat (rid_slot_id (rid_at m n)) = n"
    using assms(2,3) by (simp_all add: rid_at_def unat_of_nat_small)
qed

lemma read_row_rid:
  assumes "table_pages nx t rss s" "m < length rss" "n < length (rss ! m)"
  shows "r_rid (read_row (rid_at m n, rss ! m ! n)) = rid_at m n"
proof -
  obtain v c where v: "page_rep v \<lparr>pg_data = c, pg_dirty = False\<rparr>" "page_rows (tb_column_list t) (rss ! m) v"
    using assms by (auto simp: table_pages_def page_holds_def page_at_def)
  obtain rec where "reads_as (rss ! m ! n) (rid_at m n) rec"
    using page_rows_get [OF v, of "rid_at m n"] rid_at_unat(2) [OF assms] assms(3) by metis
  then show ?thesis using reads_as_row [of "(rid_at m n, rss ! m ! n)" rec] by (simp add: reads_as_def)
qed

lemma distinct_rows_from:
  assumes tp: "table_pages nx t rss s" and i: "i < length rss"
  shows "distinct (map fst (rows_from rss i j))"
proof -
  have page: "unat (rid_page_id rid) = m" if "rid \<in> fst ` set (page_rids rss m k)" "m < length rss" for rid m k
    using that rid_at_unat(1) [OF tp] by (auto simp: page_rids_def)
  have one: "distinct (map fst (page_rids rss m k))" if "m < length rss" for m k
  proof -
    have "inj_on (rid_at m) (set [k..<length (rss ! m)])"
      by (rule inj_onI) (metis atLeastLessThan_iff rid_at_unat(2) [OF tp that] set_upt)
    then show ?thesis by (simp add: page_rids_def comp_def distinct_map)
  qed
  have disj: "fst ` set (page_rids rss m k) \<inter> fst ` set (concat (map (\<lambda>m. page_rids rss m 0) ms)) = {}"
    if m: "m \<notin> set ms" "m < length rss" "set ms \<subseteq> {..<length rss}" for m k ms
  proof (rule equals0I)
    fix rid assume "rid \<in> fst ` set (page_rids rss m k) \<inter> fst ` set (concat (map (\<lambda>m. page_rids rss m 0) ms))"
    then have r1: "rid \<in> fst ` set (page_rids rss m k)" and "\<exists>m' \<in> set ms. rid \<in> fst ` set (page_rids rss m' 0)"
      by (simp_all add: image_UN)
    then obtain m' where r2: "m' \<in> set ms" "rid \<in> fst ` set (page_rids rss m' 0)" by blast
    then show False using page [OF r1 m(2)] page [OF r2(2)] m by auto
  qed
  have all: "distinct (map fst (concat (map (\<lambda>m. page_rids rss m 0) ms)))" if "distinct ms" "set ms \<subseteq> {..<length rss}" for ms
    using that
  proof (induction ms)
    case (Cons m ms)
    then have m: "m \<notin> set ms" "m < length rss" "set ms \<subseteq> {..<length rss}" by auto
    show ?case
      unfolding list.map concat.simps map_append distinct_append set_map using one [OF m(2)] disj [OF m] Cons by simp
  qed simp
  have ms: "i \<notin> set [Suc i..<length rss]" "set [Suc i..<length rss] \<subseteq> {..<length rss}" by auto
  show ?thesis
    unfolding rows_from_def map_append distinct_append set_map using one [OF i] all [OF distinct_upt ms(2)] disj [OF ms(1) i ms(2)]
    by blast
qed

lemma page_rids_delete:
  assumes "rid \<notin> fst ` set (page_rids rss m k)" "rid_valid rid rss" "m < length rss"
  shows "page_rids (delete_at xid rid rss) m k = page_rids rss m k"
proof (cases "unat (rid_page_id rid) = m")
  case True
  have "unat (rid_slot_id rid) \<notin> set [k..<length (rss ! m)]"
  proof
    assume "unat (rid_slot_id rid) \<in> set [k..<length (rss ! m)]"
    then have "rid_at m (unat (rid_slot_id rid)) \<in> fst ` set (page_rids rss m k)" by (simp add: page_rids_def image_image)
    then show False using assms(1) rid_at_of [of rid] True by simp
  qed
  then show ?thesis using True assms(3) by (auto simp: page_rids_def delete_at_def mark_deleted_def nth_list_update)
next
  case False
  then show ?thesis by (simp add: page_rids_def delete_at_def mark_deleted_def)
qed

lemma rows_from_delete:
  assumes "rid \<notin> fst ` set (rows_from rss i j)" "rid_valid rid rss" "i < length rss"
  shows "rows_from (delete_at xid rid rss) i j = rows_from rss i j"
proof -
  have "page_rids (delete_at xid rid rss) m 0 = page_rids rss m 0" if "m \<in> set [Suc i..<length rss]" for m
    using assms(1,2) that by (intro page_rids_delete) (auto simp: rows_from_def)
  then have "map (\<lambda>m. page_rids (delete_at xid rid rss) m 0) [Suc i..<length rss] = map (\<lambda>m. page_rids rss m 0) [Suc i..<length rss]"
    by (rule map_cong [OF refl])
  moreover have "page_rids (delete_at xid rid rss) i j = page_rids rss i j"
    using assms by (intro page_rids_delete) (auto simp: rows_from_def)
  ultimately show ?thesis by (simp only: rows_from_def length_delete_at)
qed

lemma stamped_skips: "skips xid level cid A (rid, stamped xid cid rec)"
  by (cases level) (simp_all add: skips_def CanGet_def stamped_def SetXmin_def SetCid_def)

lemma page_rids_place:
  assumes "\<And>rid. p (rid, r)" "m < length rss" "j \<le> length (rss ! m)"
  shows "filter (\<lambda>x. \<not> p x) (page_rids (place k r rss) m j) = filter (\<lambda>x. \<not> p x) (page_rids rss m j)"
proof (cases "m = k")
  case True
  have "page_rids (place k r rss) m j = page_rids rss m j @ [(rid_at m (length (rss ! m)), r)]"
    using assms(2,3) True by (simp add: page_rids_def place_def nth_append)
  then show ?thesis using assms(1) by simp
next
  case False
  then have "place k r rss ! m = rss ! m" using assms(2) by (simp add: place_def nth_append)
  then show ?thesis by (simp add: page_rids_def)
qed

lemma rows_from_place:
  assumes skip: "\<And>rid. p (rid, r)" and i: "i < length rss" "j \<le> length (rss ! i)" and k: "k \<le> length rss"
  shows "filter (\<lambda>x. \<not> p x) (rows_from (place k r rss) i j) = filter (\<lambda>x. \<not> p x) (rows_from rss i j)"
proof -
  let ?P = "filter (\<lambda>x. \<not> p x)" and ?rss = "place k r rss"
  have "?P (concat (map (\<lambda>m. page_rids ?rss m 0) [Suc i..<length rss])) = ?P (concat (map (\<lambda>m. page_rids rss m 0) [Suc i..<length rss]))"
    unfolding filter_concat map_map comp_def
    by (rule arg_cong [where f = concat], rule map_cong [OF refl]) (use skip in \<open>simp add: page_rids_place\<close>)
  moreover have "?P (concat (map (\<lambda>m. page_rids ?rss m 0) [length rss..<length ?rss])) = []"
  proof (cases "k < length rss")
    case False
    then have "[length rss..<length ?rss] = [length rss]" "?rss ! length rss = [r]" by (simp_all add: place_def)
    then show ?thesis using skip by (simp add: page_rids_def)
  qed (simp add: place_def)
  moreover have "[Suc i..<length ?rss] = [Suc i..<length rss] @ [length rss..<length ?rss]"
    using upt_add_eq_append [of "Suc i" "length rss" "length ?rss - length rss"] i(1) by (simp add: place_def)
  ultimately show ?thesis
    using page_rids_place [of p, OF skip i] by (simp only: rows_from_def filter_append map_append concat_append append_Nil2)
qed

text \<open>What a scan has still to return, in the state of the statement.\<close>

abbreviation scan_of :: "Rid DmlEnv \<Rightarrow> TableScan" where
  "scan_of s \<equiv> sx_scan (scan_view s)"

definition scan_left :: "xid_t \<Rightarrow> IsolationLevel \<Rightarrow> cid_t \<Rightarrow> oid_t \<Rightarrow> Record list list \<Rightarrow> Rid DmlEnv \<Rightarrow> Record list option" where
  "scan_left xid level cid oid rss s =
     (case active_xids level xid (dm_tx s) of
        (Inl _, _) \<Rightarrow> None
      | (Inr active, _) \<Rightarrow>
          if dml_rep xid oid rss s \<and> scan_rest rss (scan_of s) (seq_rest rss (scan_of s))
          then Some (map read_row (filter (\<lambda>x. \<not> skips xid level cid active x) (seq_rest rss (scan_of s))))
          else None)"

definition scan_ahead :: "Record list list \<Rightarrow> Rid DmlEnv \<Rightarrow> Rid set" where
  "scan_ahead rss s = fst ` set (seq_rest rss (scan_of s))"

lemma scan_leftE:
  assumes "scan_left xid level cid oid rss s = Some xs"
  obtains A where "active_xids level xid (dm_tx s) = (Inr A, dm_tx s)" "dml_rep xid oid rss s"
    "scan_rest rss (scan_of s) (seq_rest rss (scan_of s))"
    "xs = map read_row (filter (\<lambda>x. \<not> skips xid level cid A x) (seq_rest rss (scan_of s)))"
proof -
  obtain r e where a: "active_xids level xid (dm_tx s) = (r, e)" by fastforce
  obtain A where r: "r = Inr A" using assms a by (cases r) (simp_all add: scan_left_def)
  have "e = dm_tx s" using active_xids_locks [OF a [unfolded r]] by simp
  then show thesis
    using that [of A] assms a r by (simp add: scan_left_def split: if_splits)
qed

lemma scan_of_fields [simp]:
  "ts_pool (scan_of s) = te_pool (dm_table s)" "ts_table (scan_of s) = te_table (dm_table s)" "ts_rid (scan_of s) = dm_child s"
  by (simp_all add: scan_view_def)

text \<open>Every row ahead is a row of the table, and no two have the same rid.\<close>

lemma seq_rest_rows:
  assumes "scan_rest rss (scan_of s) (seq_rest rss (scan_of s))"
  shows "distinct (map fst (seq_rest rss (scan_of s)))"
    "x \<in> set (seq_rest rss (scan_of s)) \<Longrightarrow> r_rid (read_row x) = fst x \<and> rid_valid (fst x) rss"
proof -
  have tp: "table_pages NULL_PAGE_ID (te_table (dm_table s)) rss (te_pool (dm_table s))" using assms by (simp add: scan_rest_def)
  have rest: "seq_rest rss (scan_of s) = [] \<or> (\<exists>i j. i < length rss \<and> seq_rest rss (scan_of s) = rows_from rss i j)"
    using assms unfolding scan_rest_def by blast
  show "distinct (map fst (seq_rest rss (scan_of s)))" using rest distinct_rows_from [OF tp] by auto
  assume "x \<in> set (seq_rest rss (scan_of s))"
  then obtain i j where "i < length rss" "x \<in> set (rows_from rss i j)" using rest by auto
  then obtain m n where mn: "m < length rss" "n < length (rss ! m)" "x = (rid_at m n, rss ! m ! n)" by (metis set_rows_from)
  then show "r_rid (read_row x) = fst x \<and> rid_valid (fst x) rss"
    using read_row_rid [OF tp] rid_at_unat [OF tp] by (simp add: rid_valid_def)
qed

lemma scan_Next_ok:
  assumes l: "scan_left xid level cid oid rss s = Some xs"
  shows "\<exists>s'. scan_Next xid level cid oid s = (Inr (case xs of [] \<Rightarrow> None | x # _ \<Rightarrow> Some x), s') \<and>
     scan_left xid level cid oid rss s' = Some (tl xs) \<and> dml_kept xid oid s s' \<and> (xs \<noteq> [] \<longrightarrow> r_rid (hd xs) \<notin> scan_ahead rss s')"
proof -
  obtain A where a: "active_xids level xid (dm_tx s) = (Inr A, dm_tx s)" "dml_rep xid oid rss s"
    "scan_rest rss (scan_of s) (seq_rest rss (scan_of s))"
    "xs = map read_row (filter (\<lambda>x. \<not> skips xid level cid A x) (seq_rest rss (scan_of s)))"
    by (rule scan_leftE [OF l])
  let ?sk = "skips xid level cid A" and ?rest = "seq_rest rss (scan_of s)"
  have mw: "may_write xid oid (te_locks (dm_tx s))" using a(2) by (simp add: dml_rep_def)
  obtain lm where lm: "lock_table xid IS oid (dm_tx s) = (Inr True, (dm_tx s)\<lparr>te_locks := lm\<rparr>)" "may_write xid oid lm"
    "locks_grow xid oid (te_locks (dm_tx s)) lm"
    by (rule lock_table_ok [OF mw, of IS]) simp_all
  obtain res t where g: "GetNextRecord xid level cid A (scan_of s) = (Inr res, t)" "ts_table t = te_table (dm_table s)"
    "scan_kept (te_table (dm_table s)) (te_pool (dm_table s)) (ts_pool t)"
    "case dropWhile ?sk ?rest of [] \<Rightarrow> res = None \<and> scan_rest rss t []
     | x # xs \<Rightarrow> (\<exists>rec. res = Some rec \<and> reads_as (snd x) (fst x) rec) \<and> scan_rest rss t xs"
    by (rule GetNextRecord_ok [OF a(3), of xid level cid A, unfolded scan_of_fields])
  let ?s' = "s\<lparr>dm_tx := (dm_tx s)\<lparr>te_locks := lm\<rparr>, dm_table := (dm_table s)\<lparr>te_pool := ts_pool t\<rparr>, dm_child := ts_rid t\<rparr>"
  have run: "scan_Next xid level cid oid s = (Inr res, ?s')"
    using a(1) lm(1) g(1) by (simp add: scan_Next_def SeqScan_Next_def ebind_def ezoom_def scan_view_def scan_put_def)
  have sv: "scan_of ?s' = t" using g(2) by (simp add: scan_view_def)
  have kept: "dml_kept xid oid s ?s'" using g(3) lm(3) by (simp add: dml_kept_def)
  have tp: "table_rep rss (dm_table ?s')" if "scan_rest rss t rest'" for rest'
    using that a(2) g(2) by (auto simp: scan_rest_def dml_rep_def table_rep_def)
  have left': "scan_left xid level cid oid rss ?s' = Some (map read_row (filter (\<lambda>x. \<not> ?sk x) rest'))" "scan_ahead rss ?s' = fst ` set rest'"
    if "scan_rest rss t rest'" for rest'
    using that scan_rest_seq [OF that] tp [OF that] lm(2) active_xids_locks [OF a(1)]
    unfolding scan_left_def scan_ahead_def sv by (simp_all add: dml_rep_def)
  show ?thesis
  proof (cases "dropWhile ?sk ?rest")
    case Nil
    then have "xs = []" using filter_dropWhile [of ?sk ?rest] a(4) by simp
    then show ?thesis using run g(4) Nil left'(1) [of "[]"] kept by auto
  next
    case (Cons x ys)
    then have "\<not> ?sk x" using hd_dropWhile [of ?sk ?rest] by auto
    then have "filter (\<lambda>x. \<not> ?sk x) ?rest = x # filter (\<lambda>x. \<not> ?sk x) ys"
      using filter_dropWhile [of ?sk ?rest] Cons by simp
    then have xs: "xs = read_row x # map read_row (filter (\<lambda>x. \<not> ?sk x) ys)" using a(4) by simp
    have suf: "?rest = takeWhile ?sk ?rest @ x # ys" using takeWhile_dropWhile_id [of ?sk ?rest] Cons by simp
    then have "x \<in> set ?rest" "distinct (map fst (x # ys))"
      using seq_rest_rows(1) [OF a(3)] by (metis in_set_conv_decomp, metis distinct_append map_append)
    then have "r_rid (read_row x) \<notin> fst ` set ys" using seq_rest_rows(2) [OF a(3)] by auto
    then show ?thesis using run g(4) Cons left' [of ys] reads_as_row [of x] kept xs by auto
  qed
qed

lemma scan_left_edit:
  assumes l: "scan_left xid level cid oid rss s = Some xs" and e: "row_edit xid cid (scan_ahead rss s) rss rss'"
    and r: "dml_rep xid oid rss' s'" and c: "same_child s s'"
  shows "scan_left xid level cid oid rss' s' = Some xs"
proof -
  obtain A where a: "active_xids level xid (dm_tx s) = (Inr A, dm_tx s)" "dml_rep xid oid rss s"
    "scan_rest rss (scan_of s) (seq_rest rss (scan_of s))"
    "xs = map read_row (filter (\<lambda>x. \<not> skips xid level cid A x) (seq_rest rss (scan_of s)))"
    by (rule scan_leftE [OF l])
  let ?P = "filter (\<lambda>x. \<not> skips xid level cid A x)"
  have act: "active_xids level xid (dm_tx s') = (Inr A, dm_tx s')"
    using active_xids_locks [OF a(1), of "te_locks (dm_tx s')"] c by (simp add: same_child_def)
  have tp: "table_pages NULL_PAGE_ID (te_table (dm_table s')) rss' (te_pool (dm_table s'))" "\<forall>rows \<in> set rss'. rows \<noteq> []"
    using r by (simp_all add: dml_rep_def table_rep_def)
  have rid: "dm_child s' = dm_child s" using c by (simp add: same_child_def)
  show ?thesis
  proof (cases "rid_page_id (dm_child s) = NULL_PAGE_ID")
    case True
    then have "seq_rest rss' (scan_of s') = []" "seq_rest rss (scan_of s) = []" using rid by (simp_all add: seq_rest_def)
    then show ?thesis using a(4) act r tp True rid by (simp add: scan_left_def scan_rest_def)
  next
    case False
    obtain i j where ij: "i < length rss" "j < length (rss ! i)" "dm_child s = rid_at i j" "seq_rest rss (scan_of s) = rows_from rss i j"
      using a(3) False unfolding scan_rest_def scan_of_fields by blast
    obtain rss1 where r1: "rss1 = rss \<or> (\<exists>rid. rid \<notin> scan_ahead rss s \<and> rid_valid rid rss \<and> rss1 = delete_at xid rid rss)"
      "rss' = rss1 \<or> (\<exists>k rec. k \<le> length rss1 \<and> rss' = place k (stamped xid cid rec) rss1)"
      using e unfolding row_edit_def by blast
    have 1: "rows_from rss1 i j = rows_from rss i j" "length rss1 = length rss" "length (rss1 ! i) = length (rss ! i)"
      using r1(1) rows_from_delete [OF _ _ ij(1)] ij(1,4) by (auto simp: scan_ahead_def)
    have i1: "i < length rss1" "j \<le> length (rss1 ! i)" using ij(1,2) 1(2,3) by simp_all
    have 2: "?P (rows_from rss' i j) = ?P (rows_from rss1 i j)"
      using r1(2) rows_from_place [of "skips xid level cid A", OF stamped_skips i1] by auto
    have 3: "i < length rss'" "j < length (rss' ! i)"
      using r1(2) ij(1,2) 1(2,3) by (auto simp: place_def nth_list_update nth_append)
    have "scan_rest rss' (scan_of s') (rows_from rss' i j)"
      unfolding scan_rest_def scan_of_fields using tp 3 ij(3) rid by metis
    then show ?thesis
      using scan_rest_seq [of rss' "scan_of s'"] act r a(4) 2 1(1) ij(4) by (simp add: scan_left_def)
  qed
qed

interpretation scan_child: dml_child xid cid oid "scan_Next xid level cid oid" "scan_left xid level cid oid" scan_ahead
  for xid cid oid level
proof
  fix rss :: "Record list list" and s xs assume l: "scan_left xid level cid oid rss s = Some xs"
  obtain A where a: "dml_rep xid oid rss s" "scan_rest rss (scan_of s) (seq_rest rss (scan_of s))"
    "xs = map read_row (filter (\<lambda>x. \<not> skips xid level cid A x) (seq_rest rss (scan_of s)))"
    by (rule scan_leftE [OF l])
  show "dml_rep xid oid rss s" by (rule a(1))
  show "rid_valid (r_rid x) rss" if "x \<in> set xs" for x using that a(3) seq_rest_rows(2) [OF a(2)] by auto
next
  show "\<exists>s'. scan_Next xid level cid oid s = (Inr None, s') \<and> scan_left xid level cid oid rss s' = Some [] \<and> dml_kept xid oid s s'"
    if "scan_left xid level cid oid rss s = Some []" for rss s
    using scan_Next_ok [OF that] by auto
  show "\<exists>s'. scan_Next xid level cid oid s = (Inr (Some x), s') \<and> scan_left xid level cid oid rss s' = Some xs \<and>
      dml_kept xid oid s s' \<and> r_rid x \<notin> scan_ahead rss s'" if "scan_left xid level cid oid rss s = Some (x # xs)" for rss s x xs
    using scan_Next_ok [OF that] by auto
  show "scan_left xid level cid oid rss' s' = Some xs"
    if "scan_left xid level cid oid rss s = Some xs" "row_edit xid cid (scan_ahead rss s) rss rss'" "dml_rep xid oid rss' s'" "same_child s s'"
    for rss s xs rss' s'
    by (rule scan_left_edit [OF that])
qed

section \<open>Statements over a filtered scan\<close>

text \<open>Deletions on the rows of the table.\<close>

definition in_range :: "Record list list \<Rightarrow> bool" where
  "in_range rss \<longleftrightarrow> length rss < 2 ^ 32 \<and> (\<forall>i < length rss. length (rss ! i) \<le> 14)"

lemma table_pages_range: "table_pages nx t rss s \<Longrightarrow> in_range rss"
  using row_count by (auto simp: in_range_def table_pages_def table_owns_def)

definition mark_rows :: "xid_t \<Rightarrow> Rid set \<Rightarrow> (Rid \<times> Record) list \<Rightarrow> (Rid \<times> Record) list" where
  "mark_rows xid R = map (\<lambda>(rid, row). (rid, if rid \<in> R then SetXmax xid (SetDeleted True row) else row))"

lemma mark_rows_comp: "mark_rows xid R' (mark_rows xid R xs) = mark_rows xid (R \<union> R') xs"
  by (auto simp: mark_rows_def SetXmax_def SetDeleted_def)

lemma page_rids_mark:
  assumes "in_range rss" "m < length rss"
  shows "page_rids (delete_at xid rid rss) m 0 = mark_rows xid {rid} (page_rids rss m 0)"
proof -
  have u: "rid_at m n = rid \<longleftrightarrow> unat (rid_page_id rid) = m \<and> unat (rid_slot_id rid) = n" if "n < length (rss ! m)" for n
  proof -
    have "unat (of_nat m :: pageid_t) = m" "unat (of_nat n :: slotid_t) = n"
      using assms that by (fastforce simp: in_range_def intro!: unat_of_nat_small)+
    then show ?thesis by (metis Rid.select_convs(1,2) rid_at_def rid_at_of)
  qed
  have "delete_at xid rid rss ! m ! n = (if rid_at m n = rid then SetXmax xid (SetDeleted True (rss ! m ! n)) else rss ! m ! n)"
    if "n < length (rss ! m)" for n
  proof (cases "unat (rid_page_id rid) = m")
    case True
    then show ?thesis using u [OF that] that assms(2) by (cases "unat (rid_slot_id rid) = n") (simp_all add: delete_at_def mark_deleted_def)
  next
    case False
    then show ?thesis using u [OF that] by (simp add: delete_at_def mark_deleted_def)
  qed
  then show ?thesis using assms(2) by (simp add: page_rids_def mark_rows_def)
qed

lemma table_rows_delete:
  assumes "in_range rss"
  shows "table_rows (delete_at xid rid rss) = mark_rows xid {rid} (table_rows rss)" "in_range (delete_at xid rid rss)"
proof -
  have "map (\<lambda>m. page_rids (delete_at xid rid rss) m 0) [0..<length rss] = map (\<lambda>m. mark_rows xid {rid} (page_rids rss m 0)) [0..<length rss]"
    by (rule map_cong [OF refl]) (simp add: page_rids_mark [OF assms])
  then show "table_rows (delete_at xid rid rss) = mark_rows xid {rid} (table_rows rss)"
    by (simp only: table_rows_def length_delete_at) (simp add: mark_rows_def map_concat comp_def)
  show "in_range (delete_at xid rid rss)" using assms by (simp add: in_range_def)
qed

lemma table_rows_deletes:
  "in_range rss \<Longrightarrow> table_rows (fold (\<lambda>x. delete_at xid (r_rid x)) xs rss) = mark_rows xid (r_rid ` set xs) (table_rows rss)"
proof (induction xs arbitrary: rss)
  case Nil
  show ?case by (simp add: mark_rows_def)
next
  case (Cons x xs)
  show ?case using Cons.IH [OF table_rows_delete(2) [OF Cons.prems]] table_rows_delete(1) [OF Cons.prems]
    by (simp add: mark_rows_comp)
qed

lemma table_rows_length:
  assumes "in_range rss"
  shows "length (table_rows rss) < ROW_FUEL"
proof -
  have "length (concat (map (\<lambda>m. page_rids rss m 0) ms)) \<le> 14 * length ms" if "set ms \<subseteq> {..<length rss}" for ms
    using that assms by (induction ms) (auto simp: in_range_def page_rids_def)
  moreover have "set [0..<length rss] \<subseteq> {..<length rss}" by auto
  ultimately have "length (table_rows rss) \<le> 14 * length rss" unfolding table_rows_def by fastforce
  then show ?thesis using assms by (simp add: in_range_def ROW_FUEL_def)
qed

text \<open>The rows that a statement reads: visible and not refused by its condition.\<close>

definition visible_rows :: "xid_t \<Rightarrow> IsolationLevel \<Rightarrow> cid_t \<Rightarrow> xid_t set \<Rightarrow> Record list list \<Rightarrow> Record list" where
  "visible_rows xid level cid active rss =
     map read_row (filter (\<lambda>(rid, row). \<not> CanGet row xid cid level active) (table_rows rss))"

text \<open>A statement that starts on a well-formed table, with its scan at the first page.\<close>

definition dml_start :: "xid_t \<Rightarrow> IsolationLevel \<Rightarrow> oid_t \<Rightarrow> xid_t set \<Rightarrow> Record list list \<Rightarrow> Rid DmlEnv \<Rightarrow> bool" where
  "dml_start xid level oid active rss s \<longleftrightarrow> dml_rep xid oid rss s \<and> \<not> dm_finished s \<and>
     dm_child s = page_start (tb_first_page_id (te_table (dm_table s))) \<and> active_xids level xid (dm_tx s) = (Inr active, dm_tx s)"

lemma dml_start_left:
  assumes "dml_start xid level oid A rss s" "list_all (decided env predicate) (visible_rows xid level cid A rss)"
  shows "Option.bind (scan_left xid level cid oid rss s) (filter_left env predicate) =
     Some (filter (holds_for env predicate) (visible_rows xid level cid A rss))"
    "length (filter (holds_for env predicate) (visible_rows xid level cid A rss)) < ROW_FUEL"
proof -
  have rep: "table_rep rss (dm_table s)" using assms(1) by (simp add: dml_start_def dml_rep_def)
  have "scan_of s = scan_start (dm_table s)"
    using assms(1) by (simp add: scan_view_def scan_start_def TableScan_new_def dml_start_def)
  then have sr: "scan_rest rss (scan_of s) (table_rows rss)" using scan_start_rest [OF rep] by simp
  have sk: "(\<lambda>x. \<not> skips xid level cid A x) = (\<lambda>(rid, row). \<not> CanGet row xid cid level A)" by (auto simp: skips_def)
  have l: "scan_left xid level cid oid rss s = Some (visible_rows xid level cid A rss)"
    using assms(1) sr scan_rest_seq [OF sr] by (simp add: scan_left_def dml_start_def visible_rows_def sk)
  have "in_range rss" using rep table_pages_range by (auto simp: table_rep_def)
  then have n: "length (visible_rows xid level cid A rss) < ROW_FUEL"
    using table_rows_length [of rss] length_filter_le by (simp add: visible_rows_def) (meson le_less_trans length_filter_le)
  show "Option.bind (scan_left xid level cid oid rss s) (filter_left env predicate) =
      Some (filter (holds_for env predicate) (visible_rows xid level cid A rss))"
    using l n assms(2) by (simp add: filter_left_def)
  show "length (filter (holds_for env predicate) (visible_rows xid level cid A rss)) < ROW_FUEL"
    using n by (meson le_less_trans length_filter_le)
qed

section \<open>A sample statement\<close>

text \<open>The sample table with one logged row, and the next command of the transaction that inserted it.\<close>

definition sample_table2 :: TableEnv where
  "sample_table2 = snd (Table_InsertRecord sample_row 7 1 True sample_table)"

definition sample_dml :: "Rid DmlEnv" where
  "sample_dml = \<lparr>dm_tx = \<lparr>te_tm = \<lparr>tm_next_xid = 8, tm_xid2cid = [(7, 2)], tm_xid2active_set = [(7, {})]\<rparr>, te_locks = LockManager_new\<rparr>,
     dm_table = sample_table2, dm_finished = False, dm_child = page_start 0\<rparr>"

abbreviation sample_version2 :: Record where
  "sample_version2 \<equiv> stamped 7 1 sample_row"

lemma sample_table2_ok: "table_rep [[sample_version2]] sample_table2" "log_ready 3 7 (pe_log (te_pool sample_table2))"
  "te_table sample_table2 = (te_table sample_table)\<lparr>tb_first_page_id := 0\<rparr>"
proof -
  have "log_ready (Suc (Suc 3)) 7 (pe_log (te_pool sample_table))"
    by (simp add: sample_table_def sample_log1_def sample_log_def LogManager_new_def AppendBeginLog_def fetch_lsn_def push_back_def
        set_att_def log_ready_def MAX_LOG_END_def LogRecord_GetSize_def)
  then have ins: "insertable 3 (te_table sample_table) sample_row True 7 (pe_log (te_pool sample_table))"
    using sample_row_ok by (simp add: insertable_def sample_table_def Table_new_def)
  obtain p' where p': "Table_InsertRecord sample_row 7 1 True sample_table
      = (Inr (placed_rid 0 [], sample_version2\<lparr>r_rid := placed_rid 0 []\<rparr>),
         sample_table\<lparr>te_pool := p', te_table := (te_table sample_table)\<lparr>tb_first_page_id := 0\<rparr>\<rparr>)"
    "placed 3 (te_table sample_table) 0 sample_version2 True 7 [] (te_pool sample_table) p'"
    using Table_InsertRecord_ok [OF sample_table_ok(1) ins, of 1] by auto
  show "table_rep [[sample_version2]] sample_table2"
    using placed_rep [OF sample_table_ok(1) p'(2)] p'(1) by (simp add: sample_table2_def place_def)
  show "log_ready 3 7 (pe_log (te_pool sample_table2))" "te_table sample_table2 = (te_table sample_table)\<lparr>tb_first_page_id := 0\<rparr>"
    using p' by (simp_all add: sample_table2_def placed_def)
qed

lemma sample_dml_start: "dml_start 7 READ_COMMITTED 10001 {7} [[sample_version2]] sample_dml"
proof -
  have "held LockManager_new x = Map.empty" for x
    by (simp add: held_def locks_of_def LockManager_new_def)
  then have "may_write 7 10001 LockManager_new" by (simp add: may_write_def intends_def lock_wf_def) (simp add: LockManager_new_def)
  moreover have "active_xids READ_COMMITTED 7 (dm_tx sample_dml) = (Inr {7}, dm_tx sample_dml)"
    by (simp add: active_xids_def GetActiveTransactions_def sample_dml_def)
  ultimately show ?thesis
    using sample_table2_ok by (simp add: dml_start_def dml_rep_def sample_dml_def)
qed

lemma sample_visible:
  "\<exists>x. visible_rows 7 READ_COMMITTED 2 {7} [[sample_version2]] = [x] \<and> r_rid x = rid_at 0 0"
proof -
  have rows: "table_rows [[sample_version2]] = [(rid_at 0 0, sample_version2)]" by (simp add: table_rows_def page_rids_def)
  have "rh_xmin (r_header sample_version2) = 7" "rh_cid (r_header sample_version2) = 1" "rh_xmax (r_header sample_version2) = NULL_XID"
    by (simp_all add: stamped_def SetXmin_def SetCid_def sample_row_def RecordHeader_default_def)
  then have v: "\<not> CanGet sample_version2 7 2 READ_COMMITTED {7}" by (simp add: CanGet_def)
  have "table_pages NULL_PAGE_ID (te_table sample_table2) [[sample_version2]] (te_pool sample_table2)"
    using sample_table2_ok(1) by (simp add: table_rep_def)
  from read_row_rid [OF this, of 0 0] have "r_rid (read_row (rid_at 0 0, sample_version2)) = rid_at 0 0" by simp
  then show ?thesis using v by (simp add: visible_rows_def rows)
qed

definition sample_true :: Expr where
  "sample_true = Const (Value_bool True)"

lemma sample_true_passes: "decided env sample_true x" "holds_for env sample_true x"
proof -
  have "passes env sample_true x = Inr True"
    by (simp add: sample_true_def passes_def GetValue_bool_def IsNull_def Value_bool_def v_bool_def)
  then show "decided env sample_true x" "holds_for env sample_true x" unfolding decided_passes holds_for_passes by blast+
qed

definition sample_exprs :: "Expr list" where
  "sample_exprs = [Const (Value_int 42), Const (Value_string ''hua'' TVARCHAR)]"

lemma sample_new_version: "new_version env sample_exprs x = Inr sample_row"
  by (simp add: new_version_def sample_exprs_def evaluate_all_def Record_new_def null_marks_def IsNull_def Value_int_def
      Value_string_def sample_row_def no_rid_def Bitmap_new_def Bitmap_Resize_def vector_resize_def Bitmap_Clear_def)

lemma mark_rows_sample: "table_rows rss' = mark_rows 7 {rid_at 0 0} (table_rows [[row]]) \<Longrightarrow>
   table_rows rss' = [(rid_at 0 0, SetXmax 7 (SetDeleted True row))]"
  by (simp add: table_rows_def page_rids_def mark_rows_def)

section \<open>Properties\<close>

text \<open>
  C10. \<^verbatim>\<open>DELETE FROM t WHERE predicate\<close>: when no other transaction has more than an intention lock on the
  table or a lock on its rows and the log has room, the statement returns the number of rows that are
  visible to it and satisfy the predicate; exactly these rows are marked deleted by the transaction,
  every other row of this and of every other table stays as it was, and the transaction has an
  exclusive lock on each of them.
\<close>

theorem delete_statement:
  assumes start: "dml_start xid level oid active rss s"
    and dec: "list_all (decided env predicate) (visible_rows xid level cid active rss)"
    and ys: "ys = filter (holds_for env predicate) (visible_rows xid level cid active rss)"
    and lg: "log_ready (length ys) xid (dml_log s)"
  shows "\<exists>s' rss'. Delete_Next xid oid (Filter_Next env predicate (scan_Next xid level cid oid)) s =
       (Inr (Some (count_record (of_nat (length ys)))), s') \<and> table_rep rss' (dm_table s') \<and>
     table_rows rss' = mark_rows xid (r_rid ` set ys) (table_rows rss) \<and>
     outside_kept (te_table (dm_table s)) (te_pool (dm_table s)) (te_pool (dm_table s')) \<and>
     (\<forall>y \<in> set ys. write_locked xid oid s' (r_rid y)) \<and> dm_finished s'"
proof -
  note l = dml_start_left [OF start dec, folded ys]
  obtain s' where s': "dml_loop (delete_row xid oid) (Filter_Next env predicate (scan_Next xid level cid oid)) ROW_FUEL 0 s =
      (Inr (0 + of_nat (length ys)), s')" "dml_rep xid oid (fold (\<lambda>x. delete_at xid (r_rid x)) ys rss) s'" "dml_changed xid oid s s'"
    "\<forall>x \<in> set ys. write_locked xid oid s' (r_rid x)"
    using dml_child.delete_loop_ok [OF scan_child.filter_child l(1) lg l(2)] by blast
  have "\<not> dm_finished s" "in_range rss"
    using start table_pages_range by (auto simp: dml_start_def dml_rep_def table_rep_def)
  then show ?thesis
    using dml_Next_first [OF _ s'(1)] s'(2-4) table_rows_deletes [of rss xid ys]
    by (intro exI [of _ "s'\<lparr>dm_finished := True\<rparr>"] exI [of _ "fold (\<lambda>x. delete_at xid (r_rid x)) ys rss"])
      (simp add: Delete_Next_def dml_rep_def dml_changed_def)
qed

theorem delete_statement_witness:
  "\<exists>s' rss'. Delete_Next 7 10001 (Filter_Next sample_env sample_true (scan_Next 7 READ_COMMITTED 2 10001)) sample_dml =
       (Inr (Some (count_record 1)), s') \<and> table_rep rss' (dm_table s') \<and>
     table_rows rss' = [(rid_at 0 0, SetXmax 7 (SetDeleted True sample_version2))] \<and> write_locked 7 10001 s' (rid_at 0 0)"
proof -
  obtain x where x: "visible_rows 7 READ_COMMITTED 2 {7} [[sample_version2]] = [x]" "r_rid x = rid_at 0 0"
    using sample_visible by blast
  have dec: "list_all (decided sample_env sample_true) (visible_rows 7 READ_COMMITTED 2 {7} [[sample_version2]])"
    using x(1) sample_true_passes(1) by simp
  have ys: "[x] = filter (holds_for sample_env sample_true) (visible_rows 7 READ_COMMITTED 2 {7} [[sample_version2]])"
    using x(1) sample_true_passes(2) by simp
  have lg: "log_ready (length [x]) 7 (dml_log sample_dml)"
    using sample_table2_ok(2) by (simp add: sample_dml_def log_ready_def)
  show ?thesis
    using delete_statement [OF sample_dml_start dec ys lg] x(2) mark_rows_sample by fastforce
qed

text \<open>
  C9. \<^verbatim>\<open>UPDATE t SET ... WHERE predicate\<close> under the same conditions updates each row that is visible when
  it starts and satisfies the predicate exactly once: the old version is marked deleted, the new one
  is placed by first fit, in the order of the scan; the new versions that the scan meets later are not
  updated again, so the statement ends, returns the number of rows and holds their exclusive locks.
\<close>

theorem update_statement:
  assumes start: "dml_start xid level oid active rss s"
    and dec: "list_all (decided env predicate) (visible_rows xid level cid active rss)"
    and ys: "ys = filter (holds_for env predicate) (visible_rows xid level cid active rss)"
    and recs: "list_all2 (\<lambda>y rec. new_version env exprs y = Inr rec \<and> storable_row (te_table (dm_table s)) rec) ys recs"
    and room: "log_ready (3 * length ys) xid (dml_log s)" "length rss + length ys < 2 ^ 32"
  shows "\<exists>s'. Update_Next env exprs xid cid oid (Filter_Next env predicate (scan_Next xid level cid oid)) s =
       (Inr (Some (count_record (of_nat (length ys)))), s') \<and>
     table_rep (fold (\<lambda>(y, rec). update_at xid cid (r_rid y) rec) (zip ys recs) rss) (dm_table s') \<and>
     outside_kept (te_table (dm_table s)) (te_pool (dm_table s)) (te_pool (dm_table s')) \<and>
     (\<forall>y \<in> set ys. write_locked xid oid s' (r_rid y)) \<and> dm_finished s'"
proof -
  note l = dml_start_left [OF start dec, folded ys]
  obtain s' where s': "dml_loop (update_row env exprs xid cid oid) (Filter_Next env predicate (scan_Next xid level cid oid)) ROW_FUEL 0 s =
      (Inr (0 + of_nat (length ys)), s')" "dml_rep xid oid (fold (\<lambda>(x, rec). update_at xid cid (r_rid x) rec) (zip ys recs) rss) s'"
    "dml_changed xid oid s s'" "\<forall>x \<in> set ys. write_locked xid oid s' (r_rid x)"
    using dml_child.update_loop_ok [OF scan_child.filter_child l(1) room(1) l(2) room(2) recs] by blast
  have "\<not> dm_finished s" using start by (simp add: dml_start_def)
  then show ?thesis
    using dml_Next_first [OF _ s'(1)] s'(2-4) by (simp add: Update_Next_def dml_rep_def dml_changed_def)
qed

theorem update_statement_witness:
  "\<exists>s'. Update_Next sample_env sample_exprs 7 2 10001 (Filter_Next sample_env sample_true (scan_Next 7 READ_COMMITTED 2 10001))
       sample_dml = (Inr (Some (count_record 1)), s') \<and>
     table_rep (update_at 7 2 (rid_at 0 0) sample_row [[sample_version2]]) (dm_table s')"
proof -
  obtain x where x: "visible_rows 7 READ_COMMITTED 2 {7} [[sample_version2]] = [x]" "r_rid x = rid_at 0 0"
    using sample_visible by blast
  have dec: "list_all (decided sample_env sample_true) (visible_rows 7 READ_COMMITTED 2 {7} [[sample_version2]])"
    using x(1) sample_true_passes(1) by simp
  have ys: "[x] = filter (holds_for sample_env sample_true) (visible_rows 7 READ_COMMITTED 2 {7} [[sample_version2]])"
    using x(1) sample_true_passes(2) by simp
  have lg: "log_ready (3 * length [x]) 7 (dml_log sample_dml)"
    using sample_table2_ok(2) by (simp add: sample_dml_def)
  have "storable_row (te_table (dm_table sample_dml)) sample_row"
    using sample_table2_ok(3) sample_row_ok by (simp add: sample_dml_def storable_row_def sample_table_def Table_new_def)
  then have recs: "list_all2 (\<lambda>y rec. new_version sample_env sample_exprs y = Inr rec \<and> storable_row (te_table (dm_table sample_dml)) rec)
      [x] [sample_row]" by (simp add: sample_new_version)
  show ?thesis
    using update_statement [OF sample_dml_start dec ys recs lg] x(2) by fastforce
qed

text \<open>
  C11. \<^verbatim>\<open>INSERT INTO t (columns) ...\<close>: when the statement names columns of the table, the records of its source have a value for each
  of them, the new rows can be stored and the log has room, the statement inserts, for each record its source returns, the record
  with the given values at the named columns and null elsewhere (\<open>inserted\<close>, by the names of the columns), by first fit
  and in the order of the source, stamped with the transaction and command; it returns their number and changes no other table.
\<close>

theorem insert_statement:
  assumes src: "record_source next remaining" and xs: "remaining (dm_child s) = Some xs" "length xs < ROW_FUEL"
    and rep: "dml_rep xid oid rss s" "\<not> dm_finished s"
    and cols: "list_all (names_columns cl ic) xs"
    and recs: "list_all2 (\<lambda>x rec. inserted cl ic x = Inr rec \<and> storable_row (te_table (dm_table s)) rec) xs recs"
    and room: "log_ready (2 * length xs) xid (dml_log s)" "length rss + length xs < 2 ^ 32"
  shows "\<exists>s'. Insert_Next xid cid oid cl ic (on_own next) s = (Inr (Some (count_record (of_nat (length xs)))), s') \<and>
     table_rep (fold (insert_at_first_fit xid cid) recs rss) (dm_table s') \<and>
     outside_kept (te_table (dm_table s)) (te_pool (dm_table s)) (te_pool (dm_table s')) \<and> dm_finished s'"
proof -
  obtain s' where s': "dml_loop (insert_row xid cid oid cl ic) (on_own next) ROW_FUEL 0 s = (Inr (0 + of_nat (length xs)), s')"
    "dml_rep xid oid (fold (insert_at_first_fit xid cid) recs rss) s'" "dml_changed xid oid s s'"
    using record_source.insert_rows_ok [OF src xs(1) room(1) xs(2) room(2) recs cols rep(1)] by blast
  then show ?thesis
    using dml_Next_first [OF rep(2) s'(1)] by (simp add: Insert_Next_def dml_rep_def dml_changed_def)
qed

definition sample_insert_dml :: "unit ValuesExec DmlEnv" where
  "sample_insert_dml = \<lparr>dm_tx = dm_tx sample_dml, dm_table = sample_table2, dm_finished = False,
     dm_child = \<lparr>ve_cursor = 0, ve_rest = ()\<rparr>\<rparr>"

lemma sample_inserted: "inserted sample_cols sample_cols sample_row = Inr sample_row"
proof -
  have "map (given sample_cols sample_row) (cl_columns sample_cols) = [Value_int 42, Value_string ''hua'' TVARCHAR]"
    by (simp add: given_def sample_cols_def sample_row_def UpdateSize_def)
  then show ?thesis using sample_new_version [of sample_env sample_row]
    by (simp add: inserted_def new_version_def sample_exprs_def evaluate_all_def)
qed

theorem insert_statement_witness:
  "\<exists>s'. Insert_Next 7 2 10001 sample_cols sample_cols (on_own (Values_Next sample_env [sample_exprs])) sample_insert_dml =
       (Inr (Some (count_record 1)), s') \<and>
     table_rep (insert_at_first_fit 7 2 sample_row [[sample_version2]]) (dm_table s')"
proof -
  have xs: "values_left sample_env [sample_exprs] (dm_child sample_insert_dml) = Some [sample_row]"
    using sample_new_version [of sample_env Record_default]
    by (simp add: values_left_iff values_row_def new_version_def evaluate_all_def sample_exprs_def sample_insert_dml_def)
  have rep: "dml_rep 7 10001 [[sample_version2]] sample_insert_dml" "\<not> dm_finished sample_insert_dml"
    using sample_dml_start by (simp_all add: dml_start_def dml_rep_def sample_insert_dml_def sample_dml_def)
  have "storable_row (te_table (dm_table sample_insert_dml)) sample_row"
    using sample_table2_ok(3) sample_row_ok by (simp add: sample_insert_dml_def storable_row_def sample_table_def Table_new_def)
  then have recs: "list_all2 (\<lambda>x rec. inserted sample_cols sample_cols x = Inr rec \<and> storable_row (te_table (dm_table sample_insert_dml)) rec)
      [sample_row] [sample_row]" by (simp add: sample_inserted)
  have lg: "log_ready (2 * length [sample_row]) 7 (dml_log sample_insert_dml)"
    using sample_table2_ok(2) by (simp add: sample_insert_dml_def log_ready_def)
  have n: "length [sample_row] < ROW_FUEL" by (simp add: ROW_FUEL_def)
  have ic: "list_all (names_columns sample_cols sample_cols) [sample_row]"
    by (simp add: names_columns_def sample_cols_def index_ok_new sample_row_def UpdateSize_def)
  show ?thesis
    using insert_statement [OF values_source.record_source_axioms xs n rep ic recs lg, of 2] by simp blast
qed

end
