(* ===== verification/Plans.thy ===== *)
theory Plans
  imports Sort_Executor Dml_Statements
begin

text \<open>
  \<^verbatim>\<open>src/src/operators\<close>: the operator trees that the planner builds, the optimizer rewrites and the
  executor factory turns into executors, and the printed form of expressions, which the optimizer
  reads. A tree is over a type of expressions; the operators that are executed hold \<^verbatim>\<open>OperatorExpression\<close>s.
\<close>

section \<open>Operators\<close>

datatype JoinType = INNER | LEFT | RIGHT | FULL

datatype AggregateType = AVG | COUNT_STAR | COUNT | SUM | MIN | MAX

text \<open>\<^verbatim>\<open>column_list_\<close> comes first and the children next, as in the constructors of the base class.\<close>

datatype 'e Plan =
    AggregateOperator ColumnList "'e Plan" "'e list" "'e list" "bool list" "AggregateType list"
  | DeleteOperator ColumnList "'e Plan" oid_t
  | FilterOperator ColumnList "'e Plan" 'e
  | HashJoinOperator ColumnList "'e Plan" "'e Plan" 'e 'e JoinType
  | InsertOperator ColumnList "'e Plan" ColumnList oid_t
  | LimitOperator ColumnList "'e Plan" "32 word option" "32 word option"
  | LockRowsOperator ColumnList "'e Plan" oid_t SelectLockType
  | MergeJoinOperator ColumnList "'e Plan" "'e Plan" 'e 'e JoinType
  | NestedLoopJoinOperator ColumnList "'e Plan" "'e Plan" 'e JoinType
  | OrderByOperator ColumnList "'e Plan" "(OrderByType \<times> 'e) list"
  | ProjectionOperator ColumnList "'e Plan" "'e list"
  | SeqScanOperator ColumnList oid_t string "string option" bool
  | UpdateOperator ColumnList "'e Plan" oid_t "'e list"
  | ValuesOperator ColumnList "'e list list"

primrec OutputColumns :: "'e Plan \<Rightarrow> ColumnList" where
  "OutputColumns (AggregateOperator cl _ _ _ _ _) = cl"
| "OutputColumns (DeleteOperator cl _ _) = cl"
| "OutputColumns (FilterOperator cl _ _) = cl"
| "OutputColumns (HashJoinOperator cl _ _ _ _ _) = cl"
| "OutputColumns (InsertOperator cl _ _ _) = cl"
| "OutputColumns (LimitOperator cl _ _ _) = cl"
| "OutputColumns (LockRowsOperator cl _ _ _) = cl"
| "OutputColumns (MergeJoinOperator cl _ _ _ _ _) = cl"
| "OutputColumns (NestedLoopJoinOperator cl _ _ _ _) = cl"
| "OutputColumns (OrderByOperator cl _ _) = cl"
| "OutputColumns (ProjectionOperator cl _ _) = cl"
| "OutputColumns (SeqScanOperator cl _ _ _ _) = cl"
| "OutputColumns (UpdateOperator cl _ _ _) = cl"
| "OutputColumns (ValuesOperator cl _) = cl"

text \<open>
  The rewrites assign to the entries of \<^verbatim>\<open>children_\<close>; \<open>map_children f\<close> replaces each by its image.
\<close>

primrec map_children :: "('e Plan \<Rightarrow> 'e Plan) \<Rightarrow> 'e Plan \<Rightarrow> 'e Plan" where
  "map_children f (AggregateOperator cl p gs as ds ts) = AggregateOperator cl (f p) gs as ds ts"
| "map_children f (DeleteOperator cl p oid) = DeleteOperator cl (f p) oid"
| "map_children f (FilterOperator cl p e) = FilterOperator cl (f p) e"
| "map_children f (HashJoinOperator cl l r lk rk ty) = HashJoinOperator cl (f l) (f r) lk rk ty"
| "map_children f (InsertOperator cl p cols oid) = InsertOperator cl (f p) cols oid"
| "map_children f (LimitOperator cl p n m) = LimitOperator cl (f p) n m"
| "map_children f (LockRowsOperator cl p oid ty) = LockRowsOperator cl (f p) oid ty"
| "map_children f (MergeJoinOperator cl l r lk rk ty) = MergeJoinOperator cl (f l) (f r) lk rk ty"
| "map_children f (NestedLoopJoinOperator cl l r e ty) = NestedLoopJoinOperator cl (f l) (f r) e ty"
| "map_children f (OrderByOperator cl p obs) = OrderByOperator cl (f p) obs"
| "map_children f (ProjectionOperator cl p es) = ProjectionOperator cl (f p) es"
| "map_children f (SeqScanOperator cl oid name alias lck) = SeqScanOperator cl oid name alias lck"
| "map_children f (UpdateOperator cl p oid es) = UpdateOperator cl (f p) oid es"
| "map_children f (ValuesOperator cl rows) = ValuesOperator cl rows"

lemma map_children_columns [simp]: "OutputColumns (map_children f p) = OutputColumns p"
  by (cases p) simp_all

definition GetTableNameOrAlias :: "string \<Rightarrow> string option \<Rightarrow> string" where
  "GetTableNameOrAlias table_name alias = (case alias of Some a \<Rightarrow> a | None \<Rightarrow> table_name)"

section \<open>Printed expressions\<close>

text \<open>The formatting library prints doubles (\<open>fp_show\<close>) and lists of strings (\<open>fm_list\<close>).\<close>

record fmt_env =
  fm_fp :: fp_ops
  fm_list :: "string list \<Rightarrow> string"

definition ArithmeticType_name :: "ArithmeticType \<Rightarrow> string" where
  "ArithmeticType_name op = (case op of ADD \<Rightarrow> ''+'' | SUB \<Rightarrow> ''-'' | MUL \<Rightarrow> ''*'' | DIV \<Rightarrow> ''/'')"

definition ComparisonType_name :: "ComparisonType \<Rightarrow> string" where
  "ComparisonType_name op =
     (case op of EQUAL \<Rightarrow> ''='' | NOT_EQUAL \<Rightarrow> ''!='' | LESS \<Rightarrow> ''<'' | LESS_EQUAL \<Rightarrow> ''<='' | GREATER \<Rightarrow> ''>''
      | GREATER_EQUAL \<Rightarrow> ''>='' | BETWEEN \<Rightarrow> ''between'' | NOT_BETWEEN \<Rightarrow> ''not between'' | IN \<Rightarrow> ''in''
      | NOT_IN \<Rightarrow> ''not_in'' | LIKE \<Rightarrow> ''~~'' | NOT_LIKE \<Rightarrow> ''!~~'')"

definition LogicType_name :: "LogicType \<Rightarrow> string" where
  "LogicType_name op = (case op of LogicAnd \<Rightarrow> ''and'' | LogicOr \<Rightarrow> ''or'' | LogicNot \<Rightarrow> ''not'')"

definition spaced :: "string \<Rightarrow> string \<Rightarrow> string \<Rightarrow> string" where
  "spaced l op r = l @ '' '' @ op @ '' '' @ r"

fun Expr_ToString :: "fmt_env \<Rightarrow> Expr \<Rightarrow> string result" where
  "Expr_ToString fm (Arithmetic op l r) =
     rbind (Expr_ToString fm l) (\<lambda>a. rbind (Expr_ToString fm r) (\<lambda>b. Inr (spaced a (ArithmeticType_name op) b)))"
| "Expr_ToString fm (ColumnValue idx ty name sz lft) = Inr name"
| "Expr_ToString fm (Comparison op l r) =
     rbind (Expr_ToString fm l) (\<lambda>a. rbind (Expr_ToString fm r) (\<lambda>b. Inr (spaced a (ComparisonType_name op) b)))"
| "Expr_ToString fm (Const v) = ToString (fm_fp fm) v"
| "Expr_ToString fm (FuncCall f args) =
     rbind (rmap (Expr_ToString fm) args) (\<lambda>ss. Inr (f @ ''('' @ fm_list fm ss @ '')''))"
| "Expr_ToString fm (ListExpr es) = rbind (rmap (Expr_ToString fm) es) (\<lambda>ss. Inr (fm_list fm ss))"
| "Expr_ToString fm (Logic op es) =
     rbind (rmap (Expr_ToString fm) es) (\<lambda>ss.
       if op = LogicNot then (case ss of a # _ \<Rightarrow> Inr (LogicType_name op @ '' '' @ a) | [] \<Rightarrow> Inl (Undefined ''vector index out of range''))
       else (case ss of a # b # _ \<Rightarrow> Inr (spaced a (LogicType_name op) b) | _ \<Rightarrow> Inl (Undefined ''vector index out of range'')))"
| "Expr_ToString fm (NullTest is_null a) = Expr_ToString fm a"
| "Expr_ToString fm (TypeCast ty a) = Expr_ToString fm a"

text \<open>\<^verbatim>\<open>children_\<close> of an expression; function calls, lists, casts and null tests keep theirs elsewhere.\<close>

fun Expr_children :: "Expr \<Rightarrow> Expr list" where
  "Expr_children (Arithmetic op l r) = [l, r]"
| "Expr_children (Comparison op l r) = [l, r]"
| "Expr_children (Logic op es) = es"
| "Expr_children e = []"

end
