(* ===== verification/Bound_Statements.thy ===== *)
theory Bound_Statements
  imports Plans
begin

text \<open>
  What the binder (\<^verbatim>\<open>src/src/binder\<close>) hands to the planner: bound expressions, table references and
  statements; and the part of the binder that does not walk the parse tree of the SQL library, the
  resolution of column names and of \<^verbatim>\<open>*\<close>.
\<close>

section \<open>Bound expressions\<close>

text \<open>\<open>NullExpression\<close> is a null pointer, which the binder leaves where it found no column.\<close>

datatype BExpr =
    AggregateExpression string bool "BExpr list"
  | AliasExpression string BExpr
  | BinaryOpExpression string BExpr BExpr
  | ColumnRefExpression "string list"
  | ConstExpression Val
  | FuncCallExpression string "BExpr list"
  | ListExpression "BExpr list"
  | NullExpression
  | NullTestExpression bool BExpr
  | StarExpression
  | TypeCastExpression vtype BExpr
  | UnaryOpExpression string BExpr

definition join_dots :: "string list \<Rightarrow> string" where
  "join_dots names = (case names of [] \<Rightarrow> [] | n # ns \<Rightarrow> n @ concat (map (\<lambda>m. CHR ''.'' # m) ns))"

fun BExpr_ToString :: "fmt_env \<Rightarrow> BExpr \<Rightarrow> string result" where
  "BExpr_ToString fm (AggregateExpression f dist args) =
     rbind (rmap (BExpr_ToString fm) args) (\<lambda>ss. Inr (f @ ''('' @ fm_list fm ss @ '')''))"
| "BExpr_ToString fm (AliasExpression name e) = rbind (BExpr_ToString fm e) (\<lambda>s. Inr (s @ '' as '' @ name))"
| "BExpr_ToString fm (BinaryOpExpression op l r) =
     rbind (BExpr_ToString fm l) (\<lambda>a. rbind (BExpr_ToString fm r) (\<lambda>b. Inr (spaced a op b)))"
| "BExpr_ToString fm (ColumnRefExpression names) = Inr (join_dots names)"
| "BExpr_ToString fm (ConstExpression v) = ToString (fm_fp fm) v"
| "BExpr_ToString fm (FuncCallExpression f args) =
     rbind (rmap (BExpr_ToString fm) args) (\<lambda>ss. Inr (f @ ''('' @ fm_list fm ss @ '')''))"
| "BExpr_ToString fm (ListExpression es) = rbind (rmap (BExpr_ToString fm) es) (\<lambda>ss. Inr (fm_list fm ss))"
| "BExpr_ToString fm NullExpression = Inr []"
| "BExpr_ToString fm (NullTestExpression is_null e) = BExpr_ToString fm e"
| "BExpr_ToString fm StarExpression = Inr ''*''"
| "BExpr_ToString fm (TypeCastExpression t e) =
     rbind (Type2String t) (\<lambda>a. rbind (BExpr_ToString fm e) (\<lambda>b. Inr (''Cast '' @ a @ '': '' @ b)))"
| "BExpr_ToString fm (UnaryOpExpression op e) = rbind (BExpr_ToString fm e) (\<lambda>s. Inr (op @ '' '' @ s))"

fun HasAggregation :: "BExpr \<Rightarrow> bool" where
  "HasAggregation (AggregateExpression f dist args) = True"
| "HasAggregation (AliasExpression name e) = HasAggregation e"
| "HasAggregation (BinaryOpExpression op l r) = (HasAggregation l \<or> HasAggregation r)"
| "HasAggregation (FuncCallExpression f args) = list_ex HasAggregation args"
| "HasAggregation (UnaryOpExpression op e) = HasAggregation e"
| "HasAggregation _ = False"

section \<open>Tables and statements\<close>

datatype BTableRef =
    BaseTableRef string "string option" oid_t ColumnList
  | CrossJoinRef BTableRef BTableRef
  | EmptyTableRef
  | ExpressionListRef "BExpr list list"
  | JoinRef JoinType BTableRef BTableRef BExpr

definition BaseTable_GetTableName :: "string \<Rightarrow> string option \<Rightarrow> string" where
  "BaseTable_GetTableName table alias = (case alias of Some a \<Rightarrow> a | None \<Rightarrow> table)"

record SelectStatement =
  ss_table :: BTableRef
  ss_select_list :: "BExpr list"
  ss_where :: "BExpr option"
  ss_group_by :: "BExpr list"
  ss_having :: "BExpr option"
  ss_order_by :: "(OrderByType \<times> BExpr) list"
  ss_limit_count :: "BExpr option"
  ss_limit_offset :: "BExpr option"
  ss_lock_type :: SelectLockType
  ss_distinct :: bool

text \<open>The table of the other statements is a base table: its name, alias, oid and columns.\<close>

type_synonym BBaseTable = "string \<times> string option \<times> oid_t \<times> ColumnList"

record InsertStatement =
  is_table :: BBaseTable
  is_columns :: "BExpr list"
  is_select :: SelectStatement

record DeleteStatement =
  ds_table :: BBaseTable
  ds_filter :: BExpr

record UpdateStatement =
  us_table :: BBaseTable
  us_filter :: BExpr
  us_exprs :: "(BExpr \<times> BExpr) list"

datatype BStatement =
    BInsert InsertStatement
  | BDelete DeleteStatement
  | BUpdate UpdateStatement
  | BSelect SelectStatement

section \<open>Resolution of columns\<close>

definition ResolveColumnFromBaseTable :: "string \<Rightarrow> string option \<Rightarrow> ColumnList \<Rightarrow> string list \<Rightarrow> BExpr option result" where
  "ResolveColumnFromBaseTable table alias column_list column_name =
     (if length column_name > 1 then
        (if hd column_name = BaseTable_GetTableName table alias then Inr (Some (ColumnRefExpression column_name)) else Inr None)
      else if length column_name = 1 then
        (case TryGetColumnIndex (hd column_name) column_list of
           Some _ \<Rightarrow> Inr (Some (ColumnRefExpression [BaseTable_GetTableName table alias, hd column_name]))
         | None \<Rightarrow> Inr None)
      else Inl (DbException ''Empty column name''))"

definition one_side :: "string \<Rightarrow> BExpr option \<Rightarrow> BExpr option \<Rightarrow> BExpr option result" where
  "one_side msg left right =
     (if left \<noteq> None \<and> right \<noteq> None then Inl (DbException msg)
      else if left \<noteq> None then Inr left else Inr right)"

fun ResolveColumnInternal :: "BTableRef \<Rightarrow> string list \<Rightarrow> BExpr option result" where
  "ResolveColumnInternal (BaseTableRef table alias oid column_list) column_name =
     ResolveColumnFromBaseTable table alias column_list column_name"
| "ResolveColumnInternal (CrossJoinRef l r) column_name =
     rbind (ResolveColumnInternal l column_name) (\<lambda>left. rbind (ResolveColumnInternal r column_name) (\<lambda>right.
       one_side (''Column reference '' @ join_dots column_name @ '' is ambiguous 3'') left right))"
| "ResolveColumnInternal (JoinRef ty l r cond) column_name =
     rbind (ResolveColumnInternal l column_name) (\<lambda>left. rbind (ResolveColumnInternal r column_name) (\<lambda>right.
       one_side (''Column reference '' @ join_dots column_name @ '' is ambiguous 4'') left right))"
| "ResolveColumnInternal _ column_name = Inl (DbException ''Unsupported table ref type in ResolveColumn'')"

text \<open>\<open>aliases\<close> is \<^verbatim>\<open>aliases_\<close>, a multimap from the names of the select list to printed expressions.\<close>

definition ResolveColumn :: "BTableRef \<Rightarrow> (string \<times> string) list \<Rightarrow> bool \<Rightarrow> string list \<Rightarrow> BExpr result" where
  "ResolveColumn table aliases adding_alias column_name =
     rbind (ResolveColumnInternal table column_name) (\<lambda>column.
       let named = (length column_name = 1 \<and> hd column_name \<in> fst ` set aliases)
       in case column of
            Some e \<Rightarrow>
              if \<not> adding_alias \<and> named
              then Inl (DbException (''Column reference '' @ hd column_name @ '' is ambiguous 1'')) else Inr e
          | None \<Rightarrow>
              if \<not> named then Inl (DbException (''Column '' @ join_dots column_name @ '' not found''))
              else if length (filter (\<lambda>a. fst a = hd column_name) aliases) > 1
              then Inl (DbException (''Column reference '' @ hd column_name @ '' is ambiguous 2''))
              else Inr (ColumnRefExpression [hd column_name]))"

fun GetAllColumns :: "BTableRef \<Rightarrow> BExpr list result" where
  "GetAllColumns (BaseTableRef table alias oid column_list) =
     Inr (map (\<lambda>c. ColumnRefExpression [BaseTable_GetTableName table alias, cd_name c]) (cl_columns column_list))"
| "GetAllColumns (CrossJoinRef l r) = rbind (GetAllColumns l) (\<lambda>a. rbind (GetAllColumns r) (\<lambda>b. Inr (a @ b)))"
| "GetAllColumns (JoinRef ty l r cond) = rbind (GetAllColumns l) (\<lambda>a. rbind (GetAllColumns r) (\<lambda>b. Inr (a @ b)))"
| "GetAllColumns _ = Inl (DbException ''Unsupported table type in GetAllColumns'')"

text \<open>The alias of a target is remembered once for every printed expression.\<close>

definition add_alias :: "string \<Rightarrow> string \<Rightarrow> (string \<times> string) list \<Rightarrow> (string \<times> string) list" where
  "add_alias name printed aliases = (if (name, printed) \<in> set aliases then aliases else aliases @ [(name, printed)])"

end
