(* ===== verification/Query_Trees.thy ===== *)
theory Query_Trees
  imports Plans
begin

text \<open>
  Whole executor trees: \<^verbatim>\<open>ExecutorFactory::CreateExecutor\<close> builds the executors of a plan and \<open>Exec_Next\<close>
  is the virtual \<^verbatim>\<open>Next\<close> of the object at the root. The executors of a tree share the tables, the pool
  and the lock and transaction managers; each has fields of its own. A tree of reading operators is a
  source of the rows that the plan denotes (\<open>plan_rows\<close>), whatever the other executors of the tree do
  to the pool and to the lock map in between.
\<close>

section \<open>State\<close>

text \<open>What \<^verbatim>\<open>ExecutorContext\<close> refers to: the constants of the statement, and the objects that change.\<close>

record QueryCtx =
  qc_env :: eval_env
  qc_sort :: sort_function
  qc_xid :: xid_t
  qc_level :: IsolationLevel
  qc_cid :: cid_t

record QueryEnv =
  qe_tables :: "oid_t \<Rightarrow> Table option"
  qe_pool :: PoolEnv
  qe_tx :: TxEnv
  qe_junk :: "nat \<Rightarrow> byte"

text \<open>
  The fields of an executor object, with its children. An aggregate initialises no child and returns
  nothing, so nothing is kept of it (\<open>IdleX\<close>).
\<close>

datatype XState =
    ScanX oid_t Rid
  | ValuesX nat
  | UnaryX XState
  | LimitX "32 word" "32 word" XState
  | BufferX nat "Record list" XState
  | JoinX nat "Record list" XState XState
  | DmlX bool XState
  | IdleX

type_synonym tree = "QueryEnv \<times> XState"

text \<open>
  An operation of one executor runs on the part of the state that it names. The objects are built
  from the plan, so an object of another class does not occur.
\<close>

definition on_node :: "('s \<Rightarrow> 't option) \<Rightarrow> ('t \<Rightarrow> 's \<Rightarrow> 's) \<Rightarrow> ('t, 'a) em \<Rightarrow> ('s, 'a) em" where
  "on_node view put m s =
     (case view s of
        None \<Rightarrow> (Inl (Undefined ''executor of another class''), s)
      | Some t \<Rightarrow> (case m t of (r, t') \<Rightarrow> (r, put t' s)))"

definition scan_get :: "tree \<Rightarrow> ScanEnv option" where
  "scan_get s = (case snd s of
     ScanX oid rid \<Rightarrow> map_option (\<lambda>t. \<lparr>sx_scan = \<lparr>ts_pool = qe_pool (fst s), ts_table = t, ts_rid = rid\<rparr>, sx_tx = qe_tx (fst s)\<rparr>)
                        (qe_tables (fst s) oid)
   | _ \<Rightarrow> None)"

definition scan_set :: "ScanEnv \<Rightarrow> tree \<Rightarrow> tree" where
  "scan_set e s = (case snd s of
     ScanX oid rid \<Rightarrow> ((fst s)\<lparr>qe_pool := ts_pool (sx_scan e), qe_tx := sx_tx e\<rparr>, ScanX oid (ts_rid (sx_scan e)))
   | _ \<Rightarrow> s)"

definition values_get :: "tree \<Rightarrow> QueryEnv ValuesExec option" where
  "values_get s = (case snd s of ValuesX k \<Rightarrow> Some \<lparr>ve_cursor = k, ve_rest = fst s\<rparr> | _ \<Rightarrow> None)"

definition values_set :: "QueryEnv ValuesExec \<Rightarrow> tree \<Rightarrow> tree" where
  "values_set v s = (ve_rest v, ValuesX (ve_cursor v))"

definition unary_get :: "tree \<Rightarrow> tree option" where
  "unary_get s = (case snd s of UnaryX c \<Rightarrow> Some (fst s, c) | _ \<Rightarrow> None)"

definition unary_set :: "tree \<Rightarrow> tree \<Rightarrow> tree" where
  "unary_set c s = (fst c, UnaryX (snd c))"

definition limit_get :: "tree \<Rightarrow> tree LimitExec option" where
  "limit_get s = (case snd s of
     LimitX n m c \<Rightarrow> Some \<lparr>li_count = n, li_offset = m, li_child = (fst s, c)\<rparr> | _ \<Rightarrow> None)"

definition limit_set :: "tree LimitExec \<Rightarrow> tree \<Rightarrow> tree" where
  "limit_set l s = (fst (li_child l), LimitX (li_count l) (li_offset l) (snd (li_child l)))"

definition buffer_get :: "tree \<Rightarrow> tree BufferExec option" where
  "buffer_get s = (case snd s of
     BufferX n rs c \<Rightarrow> Some \<lparr>be_cnt = n, be_records = rs, be_child = (fst s, c)\<rparr> | _ \<Rightarrow> None)"

definition buffer_set :: "tree BufferExec \<Rightarrow> tree \<Rightarrow> tree" where
  "buffer_set b s = (fst (be_child b), BufferX (be_cnt b) (be_records b) (snd (be_child b)))"

definition join_get :: "tree \<Rightarrow> (QueryEnv \<times> XState \<times> XState) BufferExec option" where
  "join_get s = (case snd s of
     JoinX n rs l r \<Rightarrow> Some \<lparr>be_cnt = n, be_records = rs, be_child = (fst s, l, r)\<rparr> | _ \<Rightarrow> None)"

definition join_set :: "(QueryEnv \<times> XState \<times> XState) BufferExec \<Rightarrow> tree \<Rightarrow> tree" where
  "join_set b s = (case be_child b of (q, l, r) \<Rightarrow> (q, JoinX (be_cnt b) (be_records b) l r))"

text \<open>The left and the right child of a join.\<close>

definition on_first :: "(tree, 'a) em \<Rightarrow> (QueryEnv \<times> XState \<times> XState, 'a) em" where
  "on_first m = ezoom (\<lambda>(q, l, r). (q, l)) (\<lambda>(q, l) (_, _, r). (q, l, r)) m"

definition on_second :: "(tree, 'a) em \<Rightarrow> (QueryEnv \<times> XState \<times> XState, 'a) em" where
  "on_second m = ezoom (\<lambda>(q, l, r). (q, r)) (\<lambda>(q, r) (_, l, _). (q, l, r)) m"

text \<open>The executors that change the table \<open>oid\<close>, or lock its rows; their child may read any table.\<close>

definition dml_get :: "oid_t \<Rightarrow> tree \<Rightarrow> (XState DmlEnv) option" where
  "dml_get oid s = (case (snd s, qe_tables (fst s) oid) of
     (DmlX b c, Some t) \<Rightarrow> Some \<lparr>dm_tx = qe_tx (fst s),
        dm_table = \<lparr>te_pool = qe_pool (fst s), te_table = t, te_junk = qe_junk (fst s)\<rparr>, dm_finished = b, dm_child = c\<rparr>
   | _ \<Rightarrow> None)"

definition dml_env :: "oid_t \<Rightarrow> QueryEnv \<Rightarrow> XState DmlEnv \<Rightarrow> QueryEnv" where
  "dml_env oid q d = q\<lparr>qe_tables := (qe_tables q)(oid \<mapsto> te_table (dm_table d)), qe_pool := te_pool (dm_table d),
     qe_tx := dm_tx d, qe_junk := te_junk (dm_table d)\<rparr>"

definition dml_set :: "oid_t \<Rightarrow> XState DmlEnv \<Rightarrow> tree \<Rightarrow> tree" where
  "dml_set oid d s = (dml_env oid (fst s) d, DmlX (dm_finished d) (dm_child d))"

definition dml_put_child :: "tree \<Rightarrow> XState DmlEnv \<Rightarrow> XState DmlEnv" where
  "dml_put_child c d = d\<lparr>dm_tx := qe_tx (fst c), dm_table := (dm_table d)\<lparr>te_pool := qe_pool (fst c)\<rparr>, dm_child := snd c\<rparr>"

text \<open>The child of a statement on table \<open>oid\<close> runs on the pool and the managers of the statement.\<close>

definition dml_next :: "oid_t \<Rightarrow> ((XState DmlEnv, Record option) em \<Rightarrow> (XState DmlEnv, Record option) em) \<Rightarrow> (tree, Record option) em
    \<Rightarrow> (tree, Record option) em" where
  "dml_next oid stmt next s =
     on_node (dml_get oid) (dml_set oid)
       (stmt (ezoom (\<lambda>d. (dml_env oid (fst s) d, dm_child d)) dml_put_child next)) s"

section \<open>The factory\<close>

definition GetTable_in :: "QueryEnv \<Rightarrow> oid_t \<Rightarrow> Table result" where
  "GetTable_in q oid = (case qe_tables q oid of
     None \<Rightarrow> Inl (DbException (''Table with oid '' @ nat_to_string (unat oid) @ '' does not exist'')) | Some t \<Rightarrow> Inr t)"

text \<open>
  The objects of a plan after \<^verbatim>\<open>Init\<close>. A deletion looks its table up in its constructor, before the children are
  initialised; the other modifications do so in their own \<^verbatim>\<open>Init\<close>, after their child.
\<close>

primrec CreateExecutor :: "QueryEnv \<Rightarrow> Expr Plan \<Rightarrow> XState result" where
  "CreateExecutor q (AggregateOperator cl p gs as ds ts) = Inr IdleX"
| "CreateExecutor q (DeleteOperator cl p oid) =
     rbind (GetTable_in q oid) (\<lambda>_. rbind (CreateExecutor q p) (\<lambda>c. Inr (DmlX False c)))"
| "CreateExecutor q (FilterOperator cl p e) = rbind (CreateExecutor q p) (\<lambda>c. Inr (UnaryX c))"
| "CreateExecutor q (HashJoinOperator cl l r lk rk ty) =
     rbind (CreateExecutor q l) (\<lambda>a. rbind (CreateExecutor q r) (\<lambda>b. Inr (JoinX 0 [] a b)))"
| "CreateExecutor q (InsertOperator cl p cols oid) =
     rbind (CreateExecutor q p) (\<lambda>c. rbind (GetTable_in q oid) (\<lambda>_. Inr (DmlX False c)))"
| "CreateExecutor q (LimitOperator cl p n m) = rbind (CreateExecutor q p) (\<lambda>c. Inr (LimitX 0 0 c))"
| "CreateExecutor q (LockRowsOperator cl p oid ty) = rbind (CreateExecutor q p) (\<lambda>c. Inr (DmlX False c))"
| "CreateExecutor q (MergeJoinOperator cl l r lk rk ty) =
     rbind (CreateExecutor q l) (\<lambda>a. rbind (CreateExecutor q r) (\<lambda>b. Inr (JoinX 0 [] a b)))"
| "CreateExecutor q (NestedLoopJoinOperator cl l r e ty) =
     rbind (CreateExecutor q l) (\<lambda>a. rbind (CreateExecutor q r) (\<lambda>b. Inr (JoinX 0 [] a b)))"
| "CreateExecutor q (OrderByOperator cl p obs) = rbind (CreateExecutor q p) (\<lambda>c. Inr (BufferX 0 [] c))"
| "CreateExecutor q (ProjectionOperator cl p es) = rbind (CreateExecutor q p) (\<lambda>c. Inr (UnaryX c))"
| "CreateExecutor q (SeqScanOperator cl oid name alias lck) =
     rbind (SeqScan_Init (GetTable_in q) oid (qe_pool q)) (\<lambda>s. Inr (ScanX oid (ts_rid s)))"
| "CreateExecutor q (UpdateOperator cl p oid es) =
     rbind (CreateExecutor q p) (\<lambda>c. rbind (GetTable_in q oid) (\<lambda>_. Inr (DmlX False c)))"
| "CreateExecutor q (ValuesOperator cl rows) = Inr (ValuesX 0)"

text \<open>\<^verbatim>\<open>Next\<close>; the executors of aggregates and of hash joins return null without reading their children.\<close>

primrec Exec_Next :: "QueryCtx \<Rightarrow> Expr Plan \<Rightarrow> (tree, Record option) em" where
  "Exec_Next c (AggregateOperator cl p gs as ds ts) = eret None"
| "Exec_Next c (DeleteOperator cl p oid) = dml_next oid (Delete_Next (qc_xid c) oid) (Exec_Next c p)"
| "Exec_Next c (FilterOperator cl p e) = on_node unary_get unary_set (Filter_Next (qc_env c) e (Exec_Next c p))"
| "Exec_Next c (HashJoinOperator cl l r lk rk ty) = eret None"
| "Exec_Next c (InsertOperator cl p cols oid) =
     (\<lambda>s. case qe_tables (fst s) oid of
        None \<Rightarrow> (Inl (Undefined ''null table''), s)
      | Some t \<Rightarrow> dml_next oid (Insert_Next (qc_xid c) (qc_cid c) oid (tb_column_list t) cols) (Exec_Next c p) s)"
| "Exec_Next c (LimitOperator cl p n m) = on_node limit_get limit_set (Limit_Next n m (Exec_Next c p))"
| "Exec_Next c (LockRowsOperator cl p oid ty) = dml_next oid (LockRows_Next ty (qc_xid c) oid) (Exec_Next c p)"
| "Exec_Next c (MergeJoinOperator cl l r lk rk ty) =
     on_node join_get join_set (MergeJoin_Next (qc_env c) lk rk (on_first (Exec_Next c l)) (on_second (Exec_Next c r)))"
| "Exec_Next c (NestedLoopJoinOperator cl l r e ty) =
     on_node join_get join_set (NestedLoopJoin_Next (qc_env c) e (on_first (Exec_Next c l)) (on_second (Exec_Next c r)))"
| "Exec_Next c (OrderByOperator cl p obs) =
     on_node buffer_get buffer_set (OrderBy_Next (qc_env c) (qc_sort c) obs (Exec_Next c p))"
| "Exec_Next c (ProjectionOperator cl p es) = on_node unary_get unary_set (Projection_Next (qc_env c) es (Exec_Next c p))"
| "Exec_Next c (SeqScanOperator cl oid name alias lck) =
     on_node scan_get scan_set (SeqScan_Next (qc_xid c) (qc_level c) (qc_cid c) oid)"
| "Exec_Next c (UpdateOperator cl p oid es) =
     dml_next oid (Update_Next (qc_env c) es (qc_xid c) (qc_cid c) oid) (Exec_Next c p)"
| "Exec_Next c (ValuesOperator cl rows) = on_node values_get values_set (Values_Next (qc_env c) rows)"

section \<open>Sources inside a tree\<close>

lemma on_node_source:
  assumes src: "record_source m L" and get: "\<And>s t t'. view s = Some t \<Longrightarrow> view (put t' s) = Some t'"
  shows "record_source (on_node view put m) (\<lambda>s. Option.bind (view s) L)"
proof (rule record_sourceI)
  fix s xs assume "Option.bind (view s) L = Some xs"
  then obtain t where t: "view s = Some t" "L t = Some xs" by (auto simp: bind_eq_Some_conv)
  obtain t' where "m t = (Inr (case xs of [] \<Rightarrow> None | x # _ \<Rightarrow> Some x), t')" "L t' = Some (tl xs)"
    by (rule record_source.next_step [OF src t(2)])
  then show "\<exists>s'. on_node view put m s = (Inr (case xs of [] \<Rightarrow> None | x # _ \<Rightarrow> Some x), s') \<and> Option.bind (view s') L = Some (tl xs)"
    using t(1) get [OF t(1)] by (simp add: on_node_def)
qed

lemma get_set [simp]:
  "unary_get (unary_set c s) = Some c"
  "limit_get (limit_set l s) = Some l"
  "buffer_get (buffer_set b s) = Some b"
  "join_get (join_set j s) = Some j"
  "values_get (values_set v s) = Some v"
  by (simp_all add: unary_get_def unary_set_def limit_get_def limit_set_def buffer_get_def buffer_set_def
      join_get_def join_set_def values_get_def values_set_def split: prod.split)

text \<open>What a statement finds: the tables with their rows, and the transactions that are active.\<close>

record World =
  wd_tables :: "oid_t \<Rightarrow> (Table \<times> Record list list) option"
  wd_active :: "xid_t set"

definition table_ok :: "QueryCtx \<Rightarrow> oid_t \<Rightarrow> Table \<Rightarrow> Record list list \<Rightarrow> QueryEnv \<Rightarrow> bool" where
  "table_ok c oid t rss q \<longleftrightarrow> qe_tables q oid = Some t \<and> tb_oid t = oid \<and> table_pages NULL_PAGE_ID t rss (qe_pool q) \<and>
     (\<forall>rows \<in> set rss. rows \<noteq> []) \<and> tb_first_page_id t = (if rss = [] then NULL_PAGE_ID else 0) \<and>
     fst (LockTable (qc_xid c) IS oid (te_locks (qe_tx q)))"

definition world_ok :: "QueryCtx \<Rightarrow> World \<Rightarrow> QueryEnv \<Rightarrow> bool" where
  "world_ok c W q \<longleftrightarrow> (\<forall>oid t rss. wd_tables W oid = Some (t, rss) \<longrightarrow> table_ok c oid t rss q) \<and>
     lock_wf (te_locks (qe_tx q)) \<and> fst (active_xids (qc_level c) (qc_xid c) (qe_tx q)) = Inr (wd_active W)"

text \<open>An intention lock on one table does not stand in the way of the one on another.\<close>

lemma LockTable_other:
  assumes wf: "lock_wf lm" and l: "LockTable xid ty oid lm = (ok, lm')" and f: "fst (LockTable xid ty oid' lm)"
    and "oid' \<noteq> oid"
  shows "fst (LockTable xid ty oid' lm')"
proof -
  obtain ok1 lm1 where l1: "LockTable xid ty oid' lm = (ok1, lm1)" by fastforce
  obtain ok2 lm2 where l2: "LockTable xid ty oid' lm' = (ok2, lm2)" by fastforce
  have h: "held lm' xid (TableObj oid') = held lm xid (TableObj oid')" "\<And>x. x \<noteq> xid \<Longrightarrow> held lm' x = held lm x"
    using LockTable_spec(2) [OF wf l] assms(4) by simp_all
  have "ok1" using f l1 by simp
  then have "ok2"
    using LockTable_spec(3) [OF wf l1] LockTable_spec(3) [OF LockTable_spec(1) [OF wf l] l2] h by simp
  then show ?thesis using l2 by simp
qed

text \<open>The rows behind a position of a scan.\<close>

definition scan_pos :: "Record list list \<Rightarrow> Rid \<Rightarrow> bool" where
  "scan_pos rss rid \<longleftrightarrow> rid_page_id rid = NULL_PAGE_ID \<or> (\<exists>i j. i < length rss \<and> j < length (rss ! i) \<and> rid = rid_at i j)"

definition rest_from :: "Record list list \<Rightarrow> Rid \<Rightarrow> (Rid \<times> Record) list" where
  "rest_from rss rid =
     (if rid_page_id rid = NULL_PAGE_ID then []
      else rows_from rss (unat (rid_page_id rid)) (unat (rid_slot_id rid)))"

definition seen :: "QueryCtx \<Rightarrow> World \<Rightarrow> (Rid \<times> Record) list \<Rightarrow> Record list" where
  "seen c W xs = map read_row (filter (\<lambda>x. \<not> skips (qc_xid c) (qc_level c) (qc_cid c) (wd_active W) x) xs)"

lemma rest_from_seq: "rest_from rss (ts_rid s) = seq_rest rss s"
  by (simp add: rest_from_def seq_rest_def)

lemma scan_pos_rest:
  assumes "table_ok c oid t rss q" "scan_pos rss rid"
  shows "scan_rest rss \<lparr>ts_pool = qe_pool q, ts_table = t, ts_rid = rid\<rparr> (rest_from rss rid)"
proof -
  let ?s = "\<lparr>ts_pool = qe_pool q, ts_table = t, ts_rid = rid\<rparr>"
  have tp: "table_pages NULL_PAGE_ID t rss (qe_pool q)" "\<forall>rows \<in> set rss. rows \<noteq> []"
    using assms(1) by (simp_all add: table_ok_def)
  show ?thesis
  proof (cases "rid_page_id rid = NULL_PAGE_ID")
    case True
    then show ?thesis using tp by (simp add: scan_rest_def rest_from_def)
  next
    case False
    then obtain i j where "i < length rss" "j < length (rss ! i)" "rid = rid_at i j"
      using assms(2) by (auto simp: scan_pos_def)
    then have r: "scan_rest rss ?s (rows_from rss i j)" using tp unfolding scan_rest_def by auto
    moreover have "rest_from rss rid = rows_from rss i j"
      using scan_rest_seq [OF r] rest_from_seq [of rss ?s] by simp
    ultimately show ?thesis by simp
  qed
qed

lemma scan_rest_pos: "scan_rest rss s rest \<Longrightarrow> scan_pos rss (ts_rid s) \<and> rest = rest_from rss (ts_rid s)"
  using scan_rest_seq [of rss s rest] unfolding scan_rest_def scan_pos_def rest_from_seq by blast

text \<open>One call of a scan: the row, and the world as it was.\<close>

lemma table_ok_scanned:
  assumes w: "table_ok c oid' t' rss' q" and wf: "lock_wf (te_locks (qe_tx q))"
    and lk: "LockTable (qc_xid c) IS oid (te_locks (qe_tx q)) = (True, lm)"
    and own: "table_pages NULL_PAGE_ID t rss p" "tb_oid t = oid" "scan_kept t (qe_pool q) p"
    and same: "oid' = oid \<longrightarrow> t' = t \<and> rss' = rss"
  shows "table_ok c oid' t' rss' (q\<lparr>qe_pool := p, qe_tx := (qe_tx q)\<lparr>te_locks := lm\<rparr>\<rparr>)"
proof -
  have "pool_inv {} p" using own(1) by (simp add: table_pages_def table_owns_def)
  then have "table_pages NULL_PAGE_ID t' rss' p"
    using w own same table_pages_other [of NULL_PAGE_ID t' rss' "qe_pool q" t p]
    by (cases "oid' = oid") (simp_all add: table_ok_def scan_kept_def)
  moreover have "fst (LockTable (qc_xid c) IS oid' lm)"
  proof (cases "oid' = oid")
    case True
    then show ?thesis using LockTable_IS_again [OF lk] by simp
  next
    case False
    then show ?thesis using LockTable_other [OF wf lk _ False] w by (simp add: table_ok_def)
  qed
  ultimately show ?thesis using w by (simp add: table_ok_def)
qed

lemma scan_step:
  assumes w: "world_ok c W q" and t: "wd_tables W oid = Some (t, rss)" and pos: "scan_pos rss rid"
  obtains q' rid' where
    "Exec_Next c (SeqScanOperator cl oid name alias lck) (q, ScanX oid rid) =
       (Inr (case seen c W (rest_from rss rid) of [] \<Rightarrow> None | x # _ \<Rightarrow> Some x), (q', ScanX oid rid'))"
    "world_ok c W q'" "scan_pos rss rid'" "seen c W (rest_from rss rid') = tl (seen c W (rest_from rss rid))"
proof -
  let ?A = "wd_active W" and ?s = "\<lparr>ts_pool = qe_pool q, ts_table = t, ts_rid = rid\<rparr>"
  let ?sk = "skips (qc_xid c) (qc_level c) (qc_cid c) ?A" and ?rest = "rest_from rss rid"
  have tok: "table_ok c oid t rss q" using w t by (simp add: world_ok_def)
  have wf: "lock_wf (te_locks (qe_tx q))" using w by (simp add: world_ok_def)
  obtain e where a: "active_xids (qc_level c) (qc_xid c) (qe_tx q) = (Inr ?A, e)"
    using w by (metis world_ok_def prod.collapse)
  obtain lm where lm: "LockTable (qc_xid c) IS oid (te_locks (qe_tx q)) = (True, lm)"
    using tok unfolding table_ok_def by (metis prod.collapse)
  obtain res u where g: "GetNextRecord (qc_xid c) (qc_level c) (qc_cid c) ?A ?s = (Inr res, u)" "ts_table u = t"
    "scan_kept t (qe_pool q) (ts_pool u)"
    "case dropWhile ?sk ?rest of [] \<Rightarrow> res = None \<and> scan_rest rss u []
     | x # xs \<Rightarrow> (\<exists>rec. res = Some rec \<and> reads_as (snd x) (fst x) rec) \<and> scan_rest rss u xs"
    by (rule GetNextRecord_ok [OF scan_pos_rest [OF tok pos]]) simp
  define rest' where "rest' = (case dropWhile ?sk ?rest of [] \<Rightarrow> [] | x # xs \<Rightarrow> xs)"
  have r: "scan_rest rss u rest'" and res: "res = (case dropWhile ?sk ?rest of [] \<Rightarrow> None | x # xs \<Rightarrow> Some (read_row x))"
    using g(4) reads_as_row by (cases "dropWhile ?sk ?rest"; auto simp: rest'_def simp del: dropWhile_eq_Nil_conv)+
  have hd: "seen c W ?rest = (case dropWhile ?sk ?rest of [] \<Rightarrow> [] | x # xs \<Rightarrow> read_row x # seen c W xs)"
    unfolding seen_def filter_dropWhile [of ?sk ?rest, symmetric] using hd_dropWhile [of ?sk ?rest]
    by (cases "dropWhile ?sk ?rest") (simp_all del: dropWhile_eq_Nil_conv)
  let ?q = "q\<lparr>qe_pool := ts_pool u, qe_tx := (qe_tx q)\<lparr>te_locks := lm\<rparr>\<rparr>"
  have run: "Exec_Next c (SeqScanOperator cl oid name alias lck) (q, ScanX oid rid) = (Inr res, (?q, ScanX oid (ts_rid u)))"
    using active_xids_locks [OF a] a lm g(1) tok
    by (simp add: on_node_def scan_get_def scan_set_def table_ok_def SeqScan_Next_def ebind_def ezoom_def lock_table_def)
  have tp: "table_pages NULL_PAGE_ID t rss (ts_pool u)" using r g(2) by (simp add: scan_rest_def)
  have "world_ok c W ?q"
    unfolding world_ok_def
  proof (intro conjI allI impI)
    show "table_ok c oid' t' rss' ?q" if "wd_tables W oid' = Some (t', rss')" for oid' t' rss'
    proof (rule table_ok_scanned [OF _ wf lm tp _ g(3)])
      show "table_ok c oid' t' rss' q" using that w by (simp add: world_ok_def)
      show "tb_oid t = oid" using tok by (simp add: table_ok_def)
      show "oid' = oid \<longrightarrow> t' = t \<and> rss' = rss" using that t by auto
    qed
    show "lock_wf (te_locks (qe_tx ?q))" using LockTable_spec(1) [OF wf lm] by simp
    show "fst (active_xids (qc_level c) (qc_xid c) (qe_tx ?q)) = Inr ?A" using active_xids_locks [OF a, of lm] a by simp
  qed
  moreover have "scan_pos rss (ts_rid u)" "rest' = rest_from rss (ts_rid u)" using scan_rest_pos [OF r] by simp_all
  moreover have "res = (case seen c W ?rest of [] \<Rightarrow> None | x # _ \<Rightarrow> Some x)" "seen c W rest' = tl (seen c W ?rest)"
    unfolding res hd rest'_def by (cases "dropWhile ?sk ?rest"; simp add: seen_def del: dropWhile_eq_Nil_conv)+
  ultimately show thesis using that run by simp
qed

text \<open>The rows that the executors of a plan have still to return.\<close>

primrec tree_left :: "QueryCtx \<Rightarrow> World \<Rightarrow> Expr Plan \<Rightarrow> tree \<Rightarrow> Record list option" where
  "tree_left c W (AggregateOperator cl p gs as ds ts) = (\<lambda>_. None)"
| "tree_left c W (DeleteOperator cl p oid) = (\<lambda>_. None)"
| "tree_left c W (FilterOperator cl p e) =
     (\<lambda>s. Option.bind (unary_get s) (\<lambda>t. Option.bind (tree_left c W p t) (filter_left (qc_env c) e)))"
| "tree_left c W (HashJoinOperator cl l r lk rk ty) = (\<lambda>_. None)"
| "tree_left c W (InsertOperator cl p cols oid) = (\<lambda>_. None)"
| "tree_left c W (LimitOperator cl p n m) = (\<lambda>s. Option.bind (limit_get s) (limit_left n m (tree_left c W p)))"
| "tree_left c W (LockRowsOperator cl p oid ty) = (\<lambda>_. None)"
| "tree_left c W (MergeJoinOperator cl l r lk rk ty) =
     (\<lambda>s. Option.bind (join_get s) (join_left (\<lambda>(q, a, b). tree_left c W l (q, a)) (\<lambda>(q, a, b). tree_left c W r (q, b))
        (merge_join (qc_env c) lk rk)))"
| "tree_left c W (NestedLoopJoinOperator cl l r e ty) =
     (\<lambda>s. Option.bind (join_get s) (join_left (\<lambda>(q, a, b). tree_left c W l (q, a)) (\<lambda>(q, a, b). tree_left c W r (q, b))
        (nested_join (qc_env c) e)))"
| "tree_left c W (OrderByOperator cl p obs) =
     (\<lambda>s. Option.bind (buffer_get s) (order_left (qc_env c) (qc_sort c) obs (tree_left c W p)))"
| "tree_left c W (ProjectionOperator cl p es) =
     (\<lambda>s. Option.bind (unary_get s) (\<lambda>t. Option.bind (tree_left c W p t) (project_left (qc_env c) es)))"
| "tree_left c W (SeqScanOperator cl oid name alias lck) =
     (\<lambda>(q, x). case (x, wd_tables W oid) of
        (ScanX oid' rid, Some (t, rss)) \<Rightarrow>
          if oid' = oid \<and> world_ok c W q \<and> scan_pos rss rid then Some (seen c W (rest_from rss rid)) else None
      | _ \<Rightarrow> None)"
| "tree_left c W (UpdateOperator cl p oid es) = (\<lambda>_. None)"
| "tree_left c W (ValuesOperator cl rows) =
     (\<lambda>s. if world_ok c W (fst s) then Option.bind (values_get s) (values_left (qc_env c) rows) else None)"

lemma tree_left_world: "tree_left c W p s = Some xs \<Longrightarrow> world_ok c W (fst s)"
proof (induction p arbitrary: s xs)
  case (FilterOperator cl p e)
  then show ?case by (auto simp: bind_eq_Some_conv unary_get_def split: XState.splits)
next
  case (ProjectionOperator cl p e)
  then show ?case by (auto simp: bind_eq_Some_conv unary_get_def split: XState.splits)
next
  case (LimitOperator cl p n m)
  then show ?case
    by (auto simp: bind_eq_Some_conv limit_get_def limit_left_def Let_def split: XState.splits option.splits if_splits)
next
  case (OrderByOperator cl p obs)
  then show ?case
    by (auto simp: bind_eq_Some_conv buffer_get_def order_left_def split: XState.splits option.splits if_splits)
next
  case (NestedLoopJoinOperator cl l r e ty)
  then show ?case
    by (auto simp: bind_eq_Some_conv join_get_def join_left_def split: XState.splits option.splits if_splits)
next
  case (MergeJoinOperator cl l r lk rk ty)
  then show ?case
    by (auto simp: bind_eq_Some_conv join_get_def join_left_def split: XState.splits option.splits if_splits)
qed (auto split: XState.splits option.splits if_splits prod.splits)

text \<open>They depend on the shared objects only through the world.\<close>

lemma tree_left_shared:
  assumes "world_ok c W q" "world_ok c W q'"
  shows "tree_left c W p (q, x) = tree_left c W p (q', x)"
proof (induction p arbitrary: x)
  case (LimitOperator cl p n m)
  show ?case by (cases x) (simp_all add: limit_get_def limit_left_def Let_def LimitOperator cong: option.case_cong if_cong)
next
  case (OrderByOperator cl p obs)
  show ?case by (cases x) (simp_all add: buffer_get_def order_left_def OrderByOperator cong: option.case_cong if_cong)
next
  case (NestedLoopJoinOperator cl l r e ty)
  show ?case
    by (cases x) (simp_all add: join_get_def join_left_def buffer_left_def NestedLoopJoinOperator cong: option.case_cong if_cong)
next
  case (MergeJoinOperator cl l r lk rk ty)
  show ?case
    by (cases x) (simp_all add: join_get_def join_left_def buffer_left_def MergeJoinOperator cong: option.case_cong if_cong)
next
  case (FilterOperator cl p e)
  show ?case by (cases x) (simp_all add: unary_get_def FilterOperator)
next
  case (ProjectionOperator cl p es)
  show ?case by (cases x) (simp_all add: unary_get_def ProjectionOperator)
next
  case (ValuesOperator cl rows)
  show ?case using assms by (cases x) (simp_all add: values_get_def values_left_def)
qed (use assms in \<open>auto split: XState.splits option.splits\<close>)

text \<open>Two executors under a join: reading one changes the shared objects, and not what the other returns.\<close>

lemma on_first_apply: "on_first m (q, l, r) = (case m (q, l) of (x, q', l') \<Rightarrow> (x, q', l', r))"
  by (simp add: on_first_def ezoom_def split: prod.split)

lemma on_second_apply: "on_second m (q, l, r) = (case m (q, r) of (x, q', r') \<Rightarrow> (x, q', l, r'))"
  by (simp add: on_second_def ezoom_def split: prod.split)

lemma tree_step_world:
  assumes "record_source n (tree_left c W p)" "tree_left c W p s \<noteq> None" "n s = (x, s')"
  shows "world_ok c W (fst s')"
proof -
  obtain xs where "tree_left c W p s = Some xs" using assms(2) by auto
  then have "tree_left c W p s' = Some (tl xs)"
    using record_source.next_step [OF assms(1)] assms(3) by (metis Pair_inject)
  then show ?thesis by (rule tree_left_world)
qed

lemma tree_left_moved: "tree_left c W p (q, x) = Some xs \<Longrightarrow> world_ok c W q' \<Longrightarrow> tree_left c W p (q', x) = Some xs"
  using tree_left_shared [of c W q q' p x] tree_left_world [of c W p "(q, x)" xs] by simp

lemma tree_pair:
  assumes l: "record_source n0 (tree_left c W p0)" and r: "record_source n1 (tree_left c W p1)"
  shows "join_sources (on_first n0) (\<lambda>(q, a, b). tree_left c W p0 (q, a)) (on_second n1) (\<lambda>(q, a, b). tree_left c W p1 (q, b))"
proof (intro join_sources.intro join_sources_axioms.intro)
  show "record_source (on_first n0) (\<lambda>(q, a, b). tree_left c W p0 (q, a))"
  proof (rule record_sourceI, clarify)
    fix q a b xs assume "tree_left c W p0 (q, a) = Some xs"
    then obtain s' where "n0 (q, a) = (Inr (case xs of [] \<Rightarrow> None | x # _ \<Rightarrow> Some x), s')" "tree_left c W p0 s' = Some (tl xs)"
      by (rule record_source.next_step [OF l])
    then show "\<exists>s'. on_first n0 (q, a, b) = (Inr (case xs of [] \<Rightarrow> None | x # _ \<Rightarrow> Some x), s') \<and>
        (case s' of (q, a, b) \<Rightarrow> tree_left c W p0 (q, a)) = Some (tl xs)"
      by (cases s') (simp add: on_first_apply)
  qed
  show "record_source (on_second n1) (\<lambda>(q, a, b). tree_left c W p1 (q, b))"
  proof (rule record_sourceI, clarify)
    fix q a b xs assume "tree_left c W p1 (q, b) = Some xs"
    then obtain s' where "n1 (q, b) = (Inr (case xs of [] \<Rightarrow> None | x # _ \<Rightarrow> Some x), s')" "tree_left c W p1 s' = Some (tl xs)"
      by (rule record_source.next_step [OF r])
    then show "\<exists>s'. on_second n1 (q, a, b) = (Inr (case xs of [] \<Rightarrow> None | x # _ \<Rightarrow> Some x), s') \<and>
        (case s' of (q, a, b) \<Rightarrow> tree_left c W p1 (q, b)) = Some (tl xs)"
      by (cases s') (simp add: on_second_apply)
  qed
next
  fix s x s' ys
  assume run: "on_first n0 s = (x, s')" and some: "(case s of (q, a, b) \<Rightarrow> tree_left c W p0 (q, a)) \<noteq> None"
    and other: "(case s of (q, a, b) \<Rightarrow> tree_left c W p1 (q, b)) = Some ys"
  obtain q a b where s: "s = (q, a, b)" by (cases s) auto
  obtain y q' z where n: "n0 (q, a) = (y, q', z)" by (cases "n0 (q, a)") auto
  have "world_ok c W q'" using tree_step_world [OF l _ n] some s by simp
  then have "tree_left c W p1 (q', b) = Some ys" using tree_left_moved other s by (metis prod.case)
  moreover have "s' = (q', z, b)" using run s n by (simp add: on_first_apply)
  ultimately show "(case s' of (q, a, b) \<Rightarrow> tree_left c W p1 (q, b)) = Some ys" by simp
next
  fix s x s' ys
  assume run: "on_second n1 s = (x, s')" and some: "(case s of (q, a, b) \<Rightarrow> tree_left c W p1 (q, b)) \<noteq> None"
    and other: "(case s of (q, a, b) \<Rightarrow> tree_left c W p0 (q, a)) = Some ys"
  obtain q a b where s: "s = (q, a, b)" by (cases s) auto
  obtain y q' z where n: "n1 (q, b) = (y, q', z)" by (cases "n1 (q, b)") auto
  have "world_ok c W q'" using tree_step_world [OF r _ n] some s by simp
  then have "tree_left c W p0 (q', a) = Some ys" using tree_left_moved other s by (metis prod.case)
  moreover have "s' = (q', a, z)" using run s n by (simp add: on_second_apply)
  ultimately show "(case s' of (q, a, b) \<Rightarrow> tree_left c W p0 (q, a)) = Some ys" by simp
qed

lemma scan_tree_source: "record_source (Exec_Next c (SeqScanOperator cl oid name alias lck)) (tree_left c W (SeqScanOperator cl oid name alias lck))"
proof (rule record_sourceI)
  let ?p = "SeqScanOperator cl oid name alias lck :: Expr Plan"
  fix s xs assume l: "tree_left c W ?p s = Some xs"
  obtain q rid t rss where s: "s = (q, ScanX oid rid)" "wd_tables W oid = Some (t, rss)" "world_ok c W q" "scan_pos rss rid"
    "xs = seen c W (rest_from rss rid)"
    using l by (cases s) (auto split: XState.splits option.splits if_splits)
  obtain q' rid' where "Exec_Next c ?p (q, ScanX oid rid) =
      (Inr (case seen c W (rest_from rss rid) of [] \<Rightarrow> None | x # _ \<Rightarrow> Some x), (q', ScanX oid rid'))"
    "world_ok c W q'" "scan_pos rss rid'" "seen c W (rest_from rss rid') = tl (seen c W (rest_from rss rid))"
    by (rule scan_step [OF s(3,2,4)])
  then show "\<exists>s'. Exec_Next c ?p s = (Inr (case xs of [] \<Rightarrow> None | x # _ \<Rightarrow> Some x), s') \<and> tree_left c W ?p s' = Some (tl xs)"
    using s(1,2,5) by (intro exI [of _ "(q', ScanX oid rid')"]) (simp del: Exec_Next.simps)
qed

lemma values_tree_source: "record_source (Exec_Next c (ValuesOperator cl rows)) (tree_left c W (ValuesOperator cl rows))"
proof (rule record_sourceI)
  fix s xs assume "tree_left c W (ValuesOperator cl rows) s = Some xs"
  then obtain v where v: "world_ok c W (fst s)" "values_get s = Some v" "values_left (qc_env c) rows v = Some xs"
    by (auto simp: bind_eq_Some_conv split: if_splits)
  obtain v' where v': "Values_Next (qc_env c) rows v = (Inr (case xs of [] \<Rightarrow> None | x # _ \<Rightarrow> Some x), v')"
    "values_left (qc_env c) rows v' = Some (tl xs)"
    by (rule values_source.next_step [OF v(3)])
  have "ve_rest v' = ve_rest v"
    using v'(1) by (auto simp: Values_Next_def Let_def split: if_splits sum.splits prod.splits)
  then have "world_ok c W (fst (values_set v' s))"
    using v(1,2) by (auto simp: values_set_def values_get_def split: XState.splits)
  then show "\<exists>s'. Exec_Next c (ValuesOperator cl rows) s = (Inr (case xs of [] \<Rightarrow> None | x # _ \<Rightarrow> Some x), s') \<and>
      tree_left c W (ValuesOperator cl rows) s' = Some (tl xs)"
    using v(2) v' by (simp add: on_node_def)
qed

lemma no_source: "record_source n (\<lambda>_. None)"
  by (rule record_sourceI) simp

interpretation tree: record_source "Exec_Next c p" "tree_left c W p" for c W p
proof (induction p)
  case (FilterOperator cl p e)
  then show ?case
    unfolding Exec_Next.simps tree_left.simps by (rule on_node_source [OF record_source.filter_source]) simp
next
  case (ProjectionOperator cl p es)
  then show ?case
    unfolding Exec_Next.simps tree_left.simps by (rule on_node_source [OF record_source.projection_source]) simp
next
  case (LimitOperator cl p n m)
  then show ?case
    unfolding Exec_Next.simps tree_left.simps by (rule on_node_source [OF record_source.limit_source]) simp
next
  case (OrderByOperator cl p obs)
  then show ?case
    unfolding Exec_Next.simps tree_left.simps by (rule on_node_source [OF record_source.order_source]) simp
next
  case (NestedLoopJoinOperator cl l r e ty)
  then show ?case
    unfolding Exec_Next.simps tree_left.simps by (intro on_node_source [OF join_sources.nested_source [OF tree_pair]]) simp_all
next
  case (MergeJoinOperator cl l r lk rk ty)
  then show ?case
    unfolding Exec_Next.simps tree_left.simps by (intro on_node_source [OF join_sources.merge_source [OF tree_pair]]) simp_all
next
  case (SeqScanOperator cl oid nm al lck)
  show ?case by (rule scan_tree_source)
next
  case (ValuesOperator cl rows)
  show ?case by (rule values_tree_source)
qed (simp_all only: tree_left.simps no_source)

section \<open>What a plan denotes\<close>

definition limit_rows :: "32 word option \<Rightarrow> 32 word option \<Rightarrow> Record list \<Rightarrow> Record list option" where
  "limit_rows limit_count limit_offset xs =
     (let m = (case limit_offset of None \<Rightarrow> 0 | Some l \<Rightarrow> unat l)
      in if m < 2 ^ 31 \<and> (case limit_count of None \<Rightarrow> True | Some n \<Rightarrow> unat n < 2 ^ 31)
         then Some (case limit_count of None \<Rightarrow> drop m xs | Some n \<Rightarrow> take (unat n) (drop m xs))
         else None)"

definition sorted_rows :: "QueryCtx \<Rightarrow> (OrderByType \<times> Expr) list \<Rightarrow> Record list \<Rightarrow> Record list option" where
  "sorted_rows c obs xs =
     (if xs = [] then Some []
      else if length xs < ROW_FUEL
      then case buffered (sort_all (qc_env c) (qc_sort c) obs xs) of Some (z # zs) \<Rightarrow> Some (z # zs) | _ \<Rightarrow> None
      else None)"

definition joined_rows :: "(Record list \<Rightarrow> Record list \<Rightarrow> Record list result) \<Rightarrow> Record list \<Rightarrow> Record list \<Rightarrow> Record list option" where
  "joined_rows J xs ys =
     (if length xs < ROW_FUEL \<and> length ys < ROW_FUEL
      then buffered (rbind (J xs ys) (rmap copy_record))
      else None)"

text \<open>The rows of a plan of reading operators, given the rows of the tables it scans.\<close>

primrec plan_rows :: "QueryCtx \<Rightarrow> (oid_t \<Rightarrow> Record list option) \<Rightarrow> Expr Plan \<Rightarrow> Record list option" where
  "plan_rows c T (AggregateOperator cl p gs as ds ts) = None"
| "plan_rows c T (DeleteOperator cl p oid) = None"
| "plan_rows c T (FilterOperator cl p e) = Option.bind (plan_rows c T p) (filter_left (qc_env c) e)"
| "plan_rows c T (HashJoinOperator cl l r lk rk ty) = None"
| "plan_rows c T (InsertOperator cl p cols oid) = None"
| "plan_rows c T (LimitOperator cl p n m) = Option.bind (plan_rows c T p) (limit_rows n m)"
| "plan_rows c T (LockRowsOperator cl p oid ty) = None"
| "plan_rows c T (MergeJoinOperator cl l r lk rk ty) =
     Option.bind (plan_rows c T l) (\<lambda>xs. Option.bind (plan_rows c T r) (joined_rows (merge_join (qc_env c) lk rk) xs))"
| "plan_rows c T (NestedLoopJoinOperator cl l r e ty) =
     Option.bind (plan_rows c T l) (\<lambda>xs. Option.bind (plan_rows c T r) (joined_rows (nested_join (qc_env c) e) xs))"
| "plan_rows c T (OrderByOperator cl p obs) = Option.bind (plan_rows c T p) (sorted_rows c obs)"
| "plan_rows c T (ProjectionOperator cl p es) = Option.bind (plan_rows c T p) (project_left (qc_env c) es)"
| "plan_rows c T (SeqScanOperator cl oid name alias lck) = T oid"
| "plan_rows c T (UpdateOperator cl p oid es) = None"
| "plan_rows c T (ValuesOperator cl rows) = (case rmap (values_row (qc_env c)) rows of Inl _ \<Rightarrow> None | Inr xs \<Rightarrow> Some xs)"

definition world_rows :: "QueryCtx \<Rightarrow> World \<Rightarrow> oid_t \<Rightarrow> Record list option" where
  "world_rows c W oid = map_option (\<lambda>(t, rss). seen c W (table_rows rss)) (wd_tables W oid)"

lemma limit_rows_left:
  "L s = Some xs \<Longrightarrow> limit_left n m L \<lparr>li_count = 0, li_offset = 0, li_child = s\<rparr> = limit_rows n m xs"
  by (cases n; cases m) (simp_all add: limit_left_def limit_rows_def Let_def)

lemma sorted_rows_left:
  "L s = Some xs \<Longrightarrow>
   order_left (qc_env c) (qc_sort c) obs L \<lparr>be_cnt = 0, be_records = [], be_child = s\<rparr> = sorted_rows c obs xs"
  by (simp add: order_left_def sorted_rows_def)

lemma joined_rows_left:
  "L s = Some xs \<Longrightarrow> R s = Some ys \<Longrightarrow>
   join_left L R J \<lparr>be_cnt = 0, be_records = [], be_child = s\<rparr> = joined_rows J xs ys"
  by (simp add: join_left_def joined_rows_def)

lemma rest_from_start:
  assumes "table_ok c oid t rss q"
  shows "scan_pos rss (page_start (tb_first_page_id t))" "rest_from rss (page_start (tb_first_page_id t)) = table_rows rss"
proof -
  have a: "tb_first_page_id t = (if rss = [] then NULL_PAGE_ID else 0)" "\<forall>rows \<in> set rss. rows \<noteq> []"
    using assms by (simp_all add: table_ok_def)
  have b: "rss = [] \<or> 0 < length rss \<and> 0 < length (rss ! 0)" using a(2) by (cases rss) auto
  have "page_start 0 = rid_at 0 0" by (simp add: page_start_def rid_at_def)
  then show "scan_pos rss (page_start (tb_first_page_id t))"
    using a(1) b unfolding scan_pos_def by (cases "rss = []") (simp_all add: page_start_def, blast)
  show "rest_from rss (page_start (tb_first_page_id t)) = table_rows rss"
    using a(1) by (simp add: rest_from_def table_rows_from page_start_def)
qed

text \<open>The new executors of a plan will return the rows of the plan.\<close>

lemma created_left:
  assumes w: "world_ok c W q"
  shows "plan_rows c (world_rows c W) p = Some xs \<Longrightarrow> \<exists>x. CreateExecutor q p = Inr x \<and> tree_left c W p (q, x) = Some xs"
proof (induction p arbitrary: xs)
  case (FilterOperator cl p e)
  then show ?case by (fastforce simp: bind_eq_Some_conv unary_get_def)
next
  case (ProjectionOperator cl p es)
  then show ?case by (fastforce simp: bind_eq_Some_conv unary_get_def)
next
  case (LimitOperator cl p n m)
  then obtain ys x where "limit_rows n m ys = Some xs" "CreateExecutor q p = Inr x" "tree_left c W p (q, x) = Some ys"
    by (auto simp: bind_eq_Some_conv)
  then show ?case by (simp add: limit_get_def limit_rows_left)
next
  case (OrderByOperator cl p obs)
  then obtain ys x where "sorted_rows c obs ys = Some xs" "CreateExecutor q p = Inr x" "tree_left c W p (q, x) = Some ys"
    by (auto simp: bind_eq_Some_conv)
  then show ?case by (simp add: buffer_get_def sorted_rows_left)
next
  case (NestedLoopJoinOperator cl l r e ty)
  then obtain ys zs a b where "joined_rows (nested_join (qc_env c) e) ys zs = Some xs" "CreateExecutor q l = Inr a"
    "tree_left c W l (q, a) = Some ys" "CreateExecutor q r = Inr b" "tree_left c W r (q, b) = Some zs"
    by (auto simp: bind_eq_Some_conv)
  then show ?case by (simp add: join_get_def joined_rows_left)
next
  case (MergeJoinOperator cl l r lk rk ty)
  then obtain ys zs a b where "joined_rows (merge_join (qc_env c) lk rk) ys zs = Some xs" "CreateExecutor q l = Inr a"
    "tree_left c W l (q, a) = Some ys" "CreateExecutor q r = Inr b" "tree_left c W r (q, b) = Some zs"
    by (auto simp: bind_eq_Some_conv)
  then show ?case by (simp add: join_get_def joined_rows_left)
next
  case (SeqScanOperator cl oid nm al lck)
  then obtain t rss where t: "wd_tables W oid = Some (t, rss)" "xs = seen c W (table_rows rss)"
    by (auto simp: world_rows_def)
  have ok: "table_ok c oid t rss q" using w t(1) by (simp add: world_ok_def)
  then have "qe_tables q oid = Some t" by (simp add: table_ok_def)
  then show ?case
    using t w rest_from_start [OF ok] by (simp add: SeqScan_Init_def GetTable_in_def TableScan_new_def)
next
  case (ValuesOperator cl rows)
  then show ?case using w by (simp add: values_get_def values_left_def)
qed simp_all

lemma query_tree_calls:
  assumes "world_ok c W q" "plan_rows c (world_rows c W) p = Some xs"
  shows "\<exists>x s'. CreateExecutor q p = Inr x \<and>
     calls (Exec_Next c p) n (q, x) = (Inr (take n (map Some xs @ replicate n None)), s') \<and> world_ok c W (fst s')"
proof -
  obtain x where x: "CreateExecutor q p = Inr x" "tree_left c W p (q, x) = Some xs"
    using created_left [OF assms] by blast
  then show ?thesis using tree.calls_ok [OF x(2)] tree_left_world by blast
qed

section \<open>Properties\<close>

text \<open>
  C31. Running a plan of reading operators computes the relational expression it denotes. When the
  scanned tables are stored in the pool and can be locked for reading, and the rows of the plan are
  defined (its expressions can be evaluated, and its joins and sorts have fewer than \<open>2 ^ 31\<close> records), the factory builds the executors of the plan, and any number
  of calls of \<^verbatim>\<open>Next\<close> of the root returns these rows in order and then null. Afterwards the stored rows of the tables and
  the set of active transactions are as before, and the transaction can still lock the tables for reading,
  although every scan of the tree
  evicts pages from the same pool. (Of the locks only this is claimed: the scans take intention locks and do not give them back.)
\<close>

theorem query_tree_rows:
  assumes "world_ok c W q" "plan_rows c (world_rows c W) p = Some xs"
  shows "\<exists>x s'. CreateExecutor q p = Inr x \<and>
     calls (Exec_Next c p) n (q, x) = (Inr (take n (map Some xs @ replicate n None)), s') \<and> world_ok c W (fst s')"
  by (rule query_tree_calls [OF assms])

definition sample_world :: World where
  "sample_world = \<lparr>wd_tables = [10001 \<mapsto> (te_table sample_table2, [[sample_version2]])], wd_active = {7}\<rparr>"

definition sample_ctx :: QueryCtx where
  "sample_ctx = \<lparr>qc_env = sample_env, qc_sort = (\<lambda>_. Inr), qc_xid = 7, qc_level = READ_COMMITTED, qc_cid = 2\<rparr>"

definition sample_query_env :: QueryEnv where
  "sample_query_env = \<lparr>qe_tables = [10001 \<mapsto> te_table sample_table2], qe_pool = te_pool sample_table2,
     qe_tx = dm_tx sample_dml, qe_junk = (\<lambda>_. 0)\<rparr>"

definition sample_scan :: "Expr Plan" where
  "sample_scan = SeqScanOperator sample_cols 10001 ''t'' None False"

definition sample_join :: "Expr Plan" where
  "sample_join = NestedLoopJoinOperator sample_cols (FilterOperator sample_cols sample_scan sample_true) sample_scan sample_true INNER"

lemma sample_world_ok: "world_ok sample_ctx sample_world sample_query_env"
proof -
  have m: "active_xids READ_COMMITTED 7 (dm_tx sample_dml) = (Inr {7}, dm_tx sample_dml)"
    using sample_dml_start by (simp add: dml_start_def)
  have "fst (LockTable 7 IS 10001 LockManager_new)" "lock_wf LockManager_new"
    by (simp_all add: LockTable_def LockManager_new_def locks_of_def LockTable_check_def lock_wf_def)
  moreover have "te_locks (dm_tx sample_dml) = LockManager_new" by (simp add: sample_dml_def)
  moreover have "tb_oid (te_table sample_table2) = 10001" by (simp add: sample_table2_ok(3) sample_table_def Table_new_def)
  ultimately show ?thesis
    using m sample_table2_ok(1) by (simp add: world_ok_def table_ok_def sample_world_def sample_query_env_def sample_ctx_def table_rep_def)
qed

lemma sample_seen:
  obtains x j z where "seen sample_ctx sample_world (table_rows [[sample_version2]]) = [x]" "Record_Append x x = Inr j"
    "copy_record j = Inr z" "r_values z = r_values sample_row @ r_values sample_row"
proof -
  let ?x = "read_row (rid_at 0 0, sample_version2)"
  have v: "\<not> CanGet sample_version2 7 2 READ_COMMITTED {7}"
    by (simp add: CanGet_def stamped_def SetXmin_def SetCid_def sample_row_def RecordHeader_default_def)
  have seen: "seen sample_ctx sample_world (table_rows [[sample_version2]]) = [?x]"
    using v by (simp add: seen_def table_rows_def page_rids_def skips_def sample_ctx_def sample_world_def)
  have vals: "r_values sample_row = [Value_int 42, Value_string ''hua'' TVARCHAR]" by (simp add: sample_row_def)
  have "\<exists>j. Record_Append ?x ?x = Inr j \<and> r_values ?x = r_values sample_row"
    by (simp add: read_row_def copy_row_def Record_new_def null_marks_def stamped_def SetXmin_def SetXmax_def SetCid_def SetDeleted_def
        nullify_def IsNull_def Value_int_def Value_string_def sample_row_def Record_Append_def UpdateSize_def Bitmap_GetSize_def
        Bitmap_new_def Bitmap_Resize_def Bitmap_Clear_def vector_resize_def)
  then obtain j where j: "Record_Append ?x ?x = Inr j" "r_values ?x = r_values sample_row" by blast
  then have jv: "r_values j = r_values sample_row @ r_values sample_row" using Record_Append_values by simp
  have "\<exists>z. copy_record j = Inr z"
    by (simp add: copy_record_def copy_row_def jv vals Record_new_def null_marks_def IsNull_def Value_int_def Value_string_def)
  then obtain z where "copy_record j = Inr z" by blast
  then show thesis using that [OF seen j(1)] copy_record_fields jv by simp
qed

theorem query_tree_rows_witness:
  "\<exists>x z s'. CreateExecutor sample_query_env sample_join = Inr x \<and>
     calls (Exec_Next sample_ctx sample_join) 2 (sample_query_env, x) = (Inr [Some z, None], s') \<and>
     r_values z = r_values sample_row @ r_values sample_row"
proof -
  obtain x j z where x: "seen sample_ctx sample_world (table_rows [[sample_version2]]) = [x]" "Record_Append x x = Inr j"
    "copy_record j = Inr z" "r_values z = r_values sample_row @ r_values sample_row"
    by (rule sample_seen)
  have T: "world_rows sample_ctx sample_world 10001 = Some [x]"
    using x(1) by (simp add: world_rows_def sample_world_def)
  have f: "filter_left sample_env sample_true [x] = Some [x]"
    using sample_true_passes by (simp add: filter_left_def ROW_FUEL_def)
  have "join_true sample_env sample_true x x = Inr True"
    by (simp add: join_true_def sample_true_def GetValue_bool_def Value_bool_def IsNull_def v_bool_def)
  then have "joined_rows (nested_join sample_env sample_true) [x] [x] = Some [z]"
    using x(2,3) by (simp add: joined_rows_def nested_join_def buffered_iff ROW_FUEL_def CNT_END_def)
  then have "plan_rows sample_ctx (world_rows sample_ctx sample_world) sample_join = Some [z]"
    using T f by (simp add: sample_join_def sample_scan_def sample_ctx_def)
  from query_tree_rows [OF sample_world_ok this, of 2] show ?thesis
    using x(4) by (auto simp: numeral_2_eq_2)
qed

end
