(* ===== verification/Planner.thy ===== *)
theory Planner
  imports Bound_Statements Query_Trees
begin

text \<open>
  \<^verbatim>\<open>src/src/planner/planner.cpp\<close>: from bound statements to operator trees. The planner renames
  expression objects (\<^verbatim>\<open>SetName\<close>) that it shares with its table of aliases, so their \<^verbatim>\<open>name_\<close> fields are
  in a heap of strings, \<open>pl_names\<close>; an object is a tree together with the address of the name of its
  root. Only columns print their name, so only columns keep an address inside a tree. A finished tree
  is read with the names as they are at the end (\<open>plan_of\<close>).
\<close>

section \<open>Objects and state\<close>

datatype PExpr =
    PArithmetic ArithmeticType PExpr PExpr
  | PColumn nat vtype nat nat bool
  | PComparison ComparisonType PExpr PExpr
  | PConst Val
  | PFuncCall string "PExpr list"
  | PList "PExpr list"
  | PLogic LogicType "PExpr list"
  | PNullTest bool PExpr
  | PTypeCast vtype PExpr

type_synonym PObj = "PExpr \<times> nat"

fun expr_of :: "string list \<Rightarrow> PExpr \<Rightarrow> Expr" where
  "expr_of ns (PArithmetic op l r) = Arithmetic op (expr_of ns l) (expr_of ns r)"
| "expr_of ns (PColumn i t a sz lft) = ColumnValue i t (ns ! a) sz lft"
| "expr_of ns (PComparison op l r) = Comparison op (expr_of ns l) (expr_of ns r)"
| "expr_of ns (PConst v) = Const v"
| "expr_of ns (PFuncCall f args) = FuncCall f (map (expr_of ns) args)"
| "expr_of ns (PList es) = ListExpr (map (expr_of ns) es)"
| "expr_of ns (PLogic op es) = Logic op (map (expr_of ns) es)"
| "expr_of ns (PNullTest is_null e) = NullTest is_null (expr_of ns e)"
| "expr_of ns (PTypeCast t e) = TypeCast t (expr_of ns e)"

definition plan_of :: "string list \<Rightarrow> PExpr Plan \<Rightarrow> Expr Plan" where
  "plan_of ns = map_Plan (expr_of ns)"

text \<open>The type of an object and its size do not depend on names.\<close>

definition p_type :: "PExpr \<Rightarrow> vtype" where
  "p_type e = GetValueType (expr_of [] e)"

fun p_size :: "PExpr \<Rightarrow> nat" where
  "p_size (PColumn i t a sz lft) = sz"
| "p_size (PConst v) = unat (v_size v)"
| "p_size _ = 0"

fun p_column :: "PExpr \<Rightarrow> bool" where
  "p_column (PColumn i t a sz lft) = True"
| "p_column _ = False"

fun p_const :: "PExpr \<Rightarrow> bool" where
  "p_const (PConst v) = True"
| "p_const _ = False"

fun p_funcall :: "PExpr \<Rightarrow> bool" where
  "p_funcall (PFuncCall f args) = True"
| "p_funcall _ = False"

fun p_list :: "PExpr \<Rightarrow> bool" where
  "p_list (PList es) = True"
| "p_list _ = False"

datatype ForceJoin = ForceNone | ForceMerge | ForceHash

record PlannerState =
  pl_names :: "string list"
  pl_aliases :: "(string \<times> PObj) list"
  pl_alias2colname :: "(string \<times> string) list"
  pl_aggregates :: "BExpr list"
  pl_aggregate_exprs :: "PObj list"
  pl_next_aggregate :: nat

definition Planner_new :: PlannerState where
  "Planner_new = \<lparr>pl_names = [], pl_aliases = [], pl_alias2colname = [], pl_aggregates = [], pl_aggregate_exprs = [],
     pl_next_aggregate = 0\<rparr>"

definition no_name :: string where
  "no_name = ''<no_name>''"

definition new_object :: "string \<Rightarrow> (nat \<Rightarrow> PExpr) \<Rightarrow> (PlannerState, PObj) em" where
  "new_object name mk st =
     (let a = length (pl_names st) in (Inr (mk a, a), st\<lparr>pl_names := pl_names st @ [name]\<rparr>))"

definition name_of :: "PObj \<Rightarrow> (PlannerState, string) em" where
  "name_of p = eget (\<lambda>st. pl_names st ! snd p)"

definition SetName :: "PObj \<Rightarrow> string \<Rightarrow> (PlannerState, unit) em" where
  "SetName p name = emodify (\<lambda>st. st\<lparr>pl_names := (pl_names st)[snd p := name]\<rparr>)"

definition p_ToString :: "fmt_env \<Rightarrow> PObj \<Rightarrow> (PlannerState, string) em" where
  "p_ToString fm p st = (Expr_ToString fm (expr_of (pl_names st) (fst p)), st)"

fun emap :: "('a \<Rightarrow> ('s, 'b) em) \<Rightarrow> 'a list \<Rightarrow> ('s, 'b list) em" where
  "emap f [] = eret []"
| "emap f (x # xs) = ebind (f x) (\<lambda>y. ebind (emap f xs) (\<lambda>ys. eret (y # ys)))"

lemma emap_cong [fundef_cong]:
  "xs = ys \<Longrightarrow> (\<And>x. x \<in> set ys \<Longrightarrow> f x = g x) \<Longrightarrow> emap f xs = emap g ys"
  by (induction xs arbitrary: ys) auto

section \<open>Expressions\<close>

definition BinaryFactory :: "string \<Rightarrow> PObj \<Rightarrow> PObj \<Rightarrow> (PlannerState, PObj) em" where
  "BinaryFactory op_name left right =
     (let l = fst left; r = fst right; make = (\<lambda>e. new_object no_name (\<lambda>_. e))
      in if op_name = ''+'' then make (PArithmetic ADD l r)
         else if op_name = ''-'' then make (PArithmetic SUB l r)
         else if op_name = ''*'' then make (PArithmetic MUL l r)
         else if op_name = ''/'' then make (PArithmetic DIV l r)
         else if op_name = ''='' \<and> p_list r then make (PComparison IN l r)
         else if op_name = ''='' then make (PComparison EQUAL l r)
         else if (op_name = ''!='' \<or> op_name = ''<>'') \<and> p_list r then make (PComparison NOT_IN l r)
         else if op_name = ''!='' \<or> op_name = ''<>'' then make (PComparison NOT_EQUAL l r)
         else if op_name = ''<'' then make (PComparison LESS l r)
         else if op_name = ''<='' then make (PComparison LESS_EQUAL l r)
         else if op_name = ''>'' then make (PComparison GREATER l r)
         else if op_name = ''>='' then make (PComparison GREATER_EQUAL l r)
         else if op_name = ''BETWEEN'' then make (PComparison BETWEEN l r)
         else if op_name = ''NOT BETWEEN'' then make (PComparison NOT_BETWEEN l r)
         else if op_name = ''~~'' then make (PComparison LIKE l r)
         else if op_name = ''!~~'' then make (PComparison NOT_LIKE l r)
         else if op_name = ''and'' then make (PLogic LogicAnd [l, r])
         else if op_name = ''or'' then make (PLogic LogicOr [l, r])
         else ethrow (DbException (''Unsupported binary operator in BinaryFactory: '' @ op_name)))"

text \<open>
  A column of one child, or of the two children of a join; the children are given by their columns. The size of
  a column of the right child is read from the list of the left child.
\<close>

definition aliases_named :: "string \<Rightarrow> PlannerState \<Rightarrow> PObj list" where
  "aliases_named name st = map snd (filter (\<lambda>a. fst a = name) (pl_aliases st))"

definition PlanColumnRef :: "string list \<Rightarrow> ColumnList list \<Rightarrow> (PlannerState, PObj) em" where
  "PlanColumnRef names children =
     (let col_name = join_dots names
      in case children of
           [] \<Rightarrow> ethrow (DbException ''No children in PlanColumnRef'')
         | [column_list] \<Rightarrow>
             (case TryGetColumnIndex col_name column_list of
                Some col_idx \<Rightarrow>
                  ebind (elift (GetColumn col_idx column_list)) (\<lambda>c.
                    new_object col_name (\<lambda>a. PColumn col_idx (cd_type c) a (unat (cd_max_size c)) True))
              | None \<Rightarrow>
                  ebind (eget (aliases_named col_name)) (\<lambda>named.
                    if length named > 1
                    then ethrow (DbException (''Column name '' @ col_name @ '' is ambiguous in PlanColumnRef''))
                    else case named of
                           p # _ \<Rightarrow> if p_column (fst p) then eret p
                                     else ethrow (DbException (''Column '' @ col_name @ '' not found in planner''))
                         | [] \<Rightarrow> ethrow (DbException (''Column '' @ col_name @ '' not found in planner''))))
         | [left, right] \<Rightarrow>
             (case (TryGetColumnIndex col_name left, TryGetColumnIndex col_name right) of
                (Some _, Some _) \<Rightarrow> ethrow (DbException (''Ambiguous column name '' @ col_name @ '' in PlanColumnRef''))
              | (Some i, None) \<Rightarrow>
                  ebind (elift (GetColumn i left)) (\<lambda>c.
                    new_object col_name (\<lambda>a. PColumn i (cd_type c) a (unat (cd_max_size c)) True))
              | (None, Some i) \<Rightarrow>
                  ebind (elift (GetColumn i right)) (\<lambda>c. ebind (elift (GetColumn i left)) (\<lambda>d.
                    new_object col_name (\<lambda>a. PColumn i (cd_type c) a (unat (cd_max_size d)) False)))
              | (None, None) \<Rightarrow> ethrow (DbException (col_name @ '' not found in PlanColumnRef'')))
         | _ \<Rightarrow> ethrow (DbException ''Too many children in PlanColumnRef''))"

text \<open>The alias of a planned expression: remembered unless the column it had names it already.\<close>

definition plan_alias :: "fmt_env \<Rightarrow> string \<Rightarrow> PObj \<Rightarrow> (PlannerState, PObj) em" where
  "plan_alias fm alias_name bound_expr =
     ebind (eget (\<lambda>st. map_of (pl_alias2colname st) alias_name)) (\<lambda>known.
     ebind (case known of
              None \<Rightarrow> eret True
            | Some col \<Rightarrow> ebind (p_ToString fm bound_expr) (\<lambda>s. eret (col \<noteq> s))) (\<lambda>add_to_alias.
     ebind (if add_to_alias
            then ebind (name_of bound_expr) (\<lambda>name. emodify (\<lambda>st. st\<lparr>pl_aliases := pl_aliases st @ [(alias_name, bound_expr)],
                   pl_alias2colname := AList.update alias_name name (pl_alias2colname st)\<rparr>))
            else eret ()) (\<lambda>_.
     ebind (SetName bound_expr alias_name) (\<lambda>_. eret bound_expr))))"

definition next_aggregate :: "(PlannerState, PObj) em" where
  "next_aggregate st =
     (if length (pl_aggregate_exprs st) \<le> pl_next_aggregate st
      then (Inl (DbException ''Too many aggregate calls in PlanExpression''), st)
      else (Inr (pl_aggregate_exprs st ! pl_next_aggregate st), st\<lparr>pl_next_aggregate := pl_next_aggregate st + 1\<rparr>))"

fun PlanExpression :: "fmt_env \<Rightarrow> BExpr \<Rightarrow> ColumnList list \<Rightarrow> (PlannerState, PObj) em" where
  "PlanExpression fm (ConstExpression v) children = new_object no_name (\<lambda>_. PConst v)"
| "PlanExpression fm (UnaryOpExpression op e) children =
     ebind (PlanExpression fm e children) (\<lambda>arg.
       if op = ''not'' then new_object no_name (\<lambda>_. PLogic LogicNot [fst arg])
       else ethrow (DbException (''Unknown unary operator '' @ op)))"
| "PlanExpression fm (BinaryOpExpression op l r) children =
     ebind (PlanExpression fm l children) (\<lambda>left. ebind (PlanExpression fm r children) (\<lambda>right.
       BinaryFactory op left right))"
| "PlanExpression fm (ColumnRefExpression names) children = PlanColumnRef names children"
| "PlanExpression fm (AliasExpression name e) children =
     ebind (PlanExpression fm e children) (plan_alias fm name)"
| "PlanExpression fm (AggregateExpression f dist args) children = next_aggregate"
| "PlanExpression fm (ListExpression es) children =
     ebind (emap (\<lambda>e. PlanExpression fm e children) es) (\<lambda>ps. new_object no_name (\<lambda>_. PList (map fst ps)))"
| "PlanExpression fm (TypeCastExpression t e) children =
     ebind (PlanExpression fm e children) (\<lambda>arg. new_object no_name (\<lambda>_. PTypeCast t (fst arg)))"
| "PlanExpression fm (NullTestExpression is_null e) children =
     ebind (PlanExpression fm e children) (\<lambda>arg. new_object no_name (\<lambda>_. PNullTest is_null (fst arg)))"
| "PlanExpression fm (FuncCallExpression f es) children =
     ebind (emap (\<lambda>e. PlanExpression fm e children) es) (\<lambda>ps.
     ebind (elift (FuncCall_new f (map (\<lambda>p. expr_of [] (fst p)) ps))) (\<lambda>_.
       new_object f (\<lambda>_. PFuncCall f (map fst ps))))"
| "PlanExpression fm NullExpression children = ethrow (Undefined ''null pointer dereferenced'')"
| "PlanExpression fm StarExpression children = ethrow (DbException ''Unsupported expression type in PlanExpression'')"

section \<open>Columns of operators\<close>

definition typed_column :: "string \<Rightarrow> vtype \<Rightarrow> nat \<Rightarrow> ColumnDefinition result" where
  "typed_column name t sz =
     (if IsString t then Inr \<lparr>cd_name = name, cd_type = t, cd_max_size = of_nat sz\<rparr> else ColumnDefinition_new name t)"

definition numbered :: "nat \<Rightarrow> string" where
  "numbered idx = CHR ''#'' # nat_to_string idx"

definition string_shape :: "db_error" where
  "string_shape = AssertFail ''GetExprType of a string column''"

text \<open>\<open>ok\<close> is the assertion on the expressions with string values.\<close>

definition infer_column :: "(PExpr \<Rightarrow> bool) \<Rightarrow> string \<Rightarrow> PExpr \<Rightarrow> ColumnDefinition result" where
  "infer_column ok name e =
     (if IsString (p_type e) \<and> \<not> ok e then Inl string_shape else typed_column name (p_type e) (p_size e))"

fun number_columns :: "(PExpr \<Rightarrow> bool) \<Rightarrow> nat \<Rightarrow> PExpr list \<Rightarrow> ColumnDefinition list result" where
  "number_columns ok idx [] = Inr []"
| "number_columns ok idx (e # es) =
     rbind (infer_column ok (numbered idx) e) (\<lambda>c. rbind (number_columns ok (idx + 1) es) (\<lambda>cs. Inr (c # cs)))"

definition InferColumnList :: "PExpr list \<Rightarrow> ColumnList result" where
  "InferColumnList exprs =
     rbind (number_columns (\<lambda>e. p_column e \<or> p_const e \<or> p_funcall e) 1 exprs) (\<lambda>cs. Inr (ColumnList_new cs))"

text \<open>The names of the columns are given with the expressions that group.\<close>

definition InferAggregateColumnList :: "(string \<times> PExpr) list \<Rightarrow> PExpr list \<Rightarrow> ColumnList result" where
  "InferAggregateColumnList group_bys aggregates =
     rbind (rmap (\<lambda>(name, e). infer_column (\<lambda>e. p_column e \<or> p_const e) name e) group_bys) (\<lambda>gs.
     rbind (rmap (\<lambda>e. infer_column (\<lambda>e. p_column e \<or> p_const e) ''no_name'' e) aggregates) (\<lambda>as.
       Inr (ColumnList_new (gs @ as))))"

definition GetJoinColumnList :: "'e Plan \<Rightarrow> 'e Plan \<Rightarrow> ColumnList" where
  "GetJoinColumnList left right = ColumnList_new (cl_columns (OutputColumns left) @ cl_columns (OutputColumns right))"

fun rename_columns :: "ColumnDefinition list \<Rightarrow> string list \<Rightarrow> ColumnDefinition list result" where
  "rename_columns [] names = Inr []"
| "rename_columns (c # cs) [] = Inl (Undefined ''vector index out of range'')"
| "rename_columns (c # cs) (n # ns) = rbind (rename_columns cs ns) (\<lambda>ds. Inr (c\<lparr>cd_name := n\<rparr> # ds))"

definition RenameColumnList :: "ColumnList \<Rightarrow> string list \<Rightarrow> ColumnList result" where
  "RenameColumnList column_list col_names =
     rbind (rename_columns (cl_columns column_list) col_names) (\<lambda>cs. Inr (ColumnList_new cs))"

definition GetColumnList :: "string \<Rightarrow> string option \<Rightarrow> ColumnList \<Rightarrow> ColumnList" where
  "GetColumnList table table_alias column_list =
     ColumnList_new (map (\<lambda>c. c\<lparr>cd_name := join_dots [BaseTable_GetTableName table table_alias, cd_name c]\<rparr>)
       (cl_columns column_list))"

section \<open>Tables\<close>

definition PlanBaseTable :: "string \<Rightarrow> string option \<Rightarrow> oid_t \<Rightarrow> ColumnList \<Rightarrow> bool \<Rightarrow> PExpr Plan" where
  "PlanBaseTable table table_alias oid column_list has_lock =
     SeqScanOperator (GetColumnList table table_alias column_list) oid table table_alias has_lock"

text \<open>The columns of \<^verbatim>\<open>VALUES\<close> are those of its first row; a string there has to be a constant.\<close>

definition PlanExpressionList :: "fmt_env \<Rightarrow> BExpr list list \<Rightarrow> (PlannerState, PExpr Plan) em" where
  "PlanExpressionList fm values_list =
     ebind (emap (emap (\<lambda>e. PlanExpression fm e [])) values_list) (\<lambda>exprs_list.
       case exprs_list of
         [] \<Rightarrow> ethrow (Undefined ''vector index out of range'')
       | row # _ \<Rightarrow> ebind (elift (number_columns p_const 1 (map fst row))) (\<lambda>cs.
           eret (ValuesOperator (ColumnList_new cs) (map (map fst) exprs_list))))"

definition equi_keys :: "PExpr \<Rightarrow> (PExpr \<times> PExpr) option" where
  "equi_keys e = (case e of PComparison EQUAL l r \<Rightarrow> if p_column l \<and> p_column r then Some (l, r) else None | _ \<Rightarrow> None)"

definition join_plan :: "ForceJoin \<Rightarrow> JoinType \<Rightarrow> PExpr Plan \<Rightarrow> PExpr Plan \<Rightarrow> PExpr \<Rightarrow> PExpr Plan" where
  "join_plan force_join ty left right join_condition =
     (let column_list = GetJoinColumnList left right;
          order = (\<lambda>p key. OrderByOperator (OutputColumns p) p [(ASC, key)])
      in case (force_join, equi_keys join_condition) of
           (ForceMerge, Some (left_key, right_key)) \<Rightarrow>
             MergeJoinOperator column_list (order left left_key) (order right right_key) left_key right_key ty
         | (ForceHash, Some (left_key, right_key)) \<Rightarrow> HashJoinOperator column_list left right left_key right_key ty
         | _ \<Rightarrow> NestedLoopJoinOperator column_list left right join_condition ty)"

fun PlanTableRef :: "fmt_env \<Rightarrow> ForceJoin \<Rightarrow> BTableRef \<Rightarrow> bool \<Rightarrow> (PlannerState, PExpr Plan) em" where
  "PlanTableRef fm force_join (BaseTableRef table table_alias oid column_list) has_lock =
     eret (PlanBaseTable table table_alias oid column_list has_lock)"
| "PlanTableRef fm force_join (ExpressionListRef values_list) has_lock = PlanExpressionList fm values_list"
| "PlanTableRef fm force_join (CrossJoinRef l r) has_lock =
     ebind (PlanTableRef fm force_join l False) (\<lambda>left. ebind (PlanTableRef fm force_join r False) (\<lambda>right.
       eret (NestedLoopJoinOperator (GetJoinColumnList left right) left right (PConst (Value_bool True)) INNER)))"
| "PlanTableRef fm force_join (JoinRef ty l r condition) has_lock =
     ebind (PlanTableRef fm force_join l False) (\<lambda>left. ebind (PlanTableRef fm force_join r False) (\<lambda>right.
     ebind (PlanExpression fm condition [OutputColumns left, OutputColumns right]) (\<lambda>join_condition.
       eret (join_plan force_join ty left right (fst join_condition)))))"
| "PlanTableRef fm force_join EmptyTableRef has_lock =
     ethrow (DbException ''TableRef type not supported in PlanTableRef'')"

section \<open>Aggregates\<close>

text \<open>An aggregate is moved to \<^verbatim>\<open>aggregates_\<close>; an aggregate without arguments stays in the statement.\<close>

fun AddAggregateExpression :: "BExpr \<Rightarrow> (PlannerState, BExpr) em" where
  "AddAggregateExpression (AggregateExpression f dist args) =
     ebind (emodify (\<lambda>st. st\<lparr>pl_aggregates := pl_aggregates st @ [AggregateExpression f dist args]\<rparr>)) (\<lambda>_.
       eret (AggregateExpression f dist []))"
| "AddAggregateExpression (BinaryOpExpression op l r) =
     ebind (AddAggregateExpression l) (\<lambda>l'. ebind (AddAggregateExpression r) (\<lambda>r'. eret (BinaryOpExpression op l' r')))"
| "AddAggregateExpression (AliasExpression name e) =
     ebind (AddAggregateExpression e) (\<lambda>e'. eret (AliasExpression name e'))"
| "AddAggregateExpression (ColumnRefExpression names) = eret (ColumnRefExpression names)"
| "AddAggregateExpression (ConstExpression v) = eret (ConstExpression v)"
| "AddAggregateExpression _ = ethrow (DbException ''Unknown Expression type in agg'')"

definition must_group :: "string \<Rightarrow> db_error" where
  "must_group name = DbException (name @ '' must appear in the GROUP BY clause or be used in an aggregate function'')"

fun is_aggregate :: "BExpr \<Rightarrow> bool" where
  "is_aggregate (AggregateExpression f dist args) = True"
| "is_aggregate _ = False"

fun CheckAggregate :: "fmt_env \<Rightarrow> BExpr \<Rightarrow> string list \<Rightarrow> unit result" where
  "CheckAggregate fm (AggregateExpression f dist args) group_by_names = Inr ()"
| "CheckAggregate fm (ConstExpression v) group_by_names = Inr ()"
| "CheckAggregate fm (ColumnRefExpression names) group_by_names =
     rassert (join_dots names \<in> set group_by_names) (must_group (join_dots names))"
| "CheckAggregate fm (BinaryOpExpression op l r) group_by_names =
     rbind (CheckAggregate fm l group_by_names) (\<lambda>_. CheckAggregate fm r group_by_names)"
| "CheckAggregate fm (AliasExpression name e) group_by_names =
     (if is_aggregate e then Inr ()
      else rbind (BExpr_ToString fm e) (\<lambda>s.
             rassert (s \<in> set group_by_names \<or> name \<in> set group_by_names) (must_group name)))"
| "CheckAggregate fm _ group_by_names = Inl (DbException ''Unknown Expression type in CheckAggregate'')"

text \<open>The argument of an aggregate; \<^verbatim>\<open>COUNT(*)\<close> has none.\<close>

definition aggregate_names :: "(string \<times> AggregateType) list" where
  "aggregate_names = [(''avg'', AVG), (''count'', COUNT), (''sum'', AggregateType.SUM), (''max'', AggregateType.MAX), (''min'', AggregateType.MIN)]"

definition GetAggregateType :: "fmt_env \<Rightarrow> string \<Rightarrow> bool \<Rightarrow> BExpr list \<Rightarrow> ColumnList
    \<Rightarrow> (PlannerState, AggregateType \<times> bool \<times> PExpr option) em" where
  "GetAggregateType fm function_name is_distinct args child =
     (case args of
        [] \<Rightarrow> eret (COUNT_STAR, is_distinct, None)
      | [e] \<Rightarrow> ebind (PlanExpression fm e [child]) (\<lambda>arg_expr.
          case map_of aggregate_names function_name of
            Some ty \<Rightarrow> eret (ty, is_distinct, Some (fst arg_expr))
          | None \<Rightarrow> ethrow (DbException (''Unknown function name '' @ function_name)))
      | _ \<Rightarrow> ethrow (DbException ''Too many arguments in aggregate function''))"

text \<open>
  A grouping expression with the name that is checked and the name of the output column. The name of
  the object is moved from; it is empty then.
\<close>

definition plan_group_by :: "fmt_env \<Rightarrow> ColumnList \<Rightarrow> BExpr \<Rightarrow> (PlannerState, string \<times> string \<times> PObj) em" where
  "plan_group_by fm child item =
     ebind (PlanExpression fm item [child]) (\<lambda>expr. ebind (name_of expr) (\<lambda>name.
     ebind (eget (\<lambda>st. aliases_named name st \<noteq> [])) (\<lambda>aliased.
       if aliased
       then ebind (eget (\<lambda>st. case map_of (pl_alias2colname st) name of Some col \<Rightarrow> col | None \<Rightarrow> [])) (\<lambda>col. eret (name, col, expr))
       else ebind (SetName expr []) (\<lambda>_. eret (name, name, expr)))))"

fun plan_aggregates :: "fmt_env \<Rightarrow> ColumnList \<Rightarrow> nat \<Rightarrow> BExpr list
    \<Rightarrow> (PlannerState, (AggregateType \<times> bool \<times> PExpr \<times> string) list) em" where
  "plan_aggregates fm child idx [] = eret []"
| "plan_aggregates fm child idx (AggregateExpression f dist args # items) =
     ebind (GetAggregateType fm f dist args child) (\<lambda>(ty, dist, arg).
     ebind (new_object f (\<lambda>a. PColumn idx TINT a 4 True)) (\<lambda>column.
     ebind (emodify (\<lambda>st. st\<lparr>pl_aggregate_exprs := pl_aggregate_exprs st @ [column]\<rparr>)) (\<lambda>_.
     ebind (plan_aggregates fm child (idx + 1) items) (\<lambda>aggs.
       eret ((ty, dist, (case arg of Some e \<Rightarrow> e | None \<Rightarrow> PConst (Value_int 1)), f) # aggs)))))"
| "plan_aggregates fm child idx (_ # items) = ethrow (AssertFail ''item->type_ == ExpressionType::AGGREGATE'')"

definition filter_plan :: "fmt_env \<Rightarrow> BExpr option \<Rightarrow> PExpr Plan \<Rightarrow> (PlannerState, PExpr Plan) em" where
  "filter_plan fm condition plan =
     (case condition of
        None \<Rightarrow> eret plan
      | Some e \<Rightarrow> ebind (PlanExpression fm e [OutputColumns plan]) (\<lambda>expr.
          eret (FilterOperator (OutputColumns plan) plan (fst expr))))"

definition PlanAggregate :: "fmt_env \<Rightarrow> SelectStatement \<Rightarrow> PExpr Plan \<Rightarrow> (PlannerState, PExpr Plan) em" where
  "PlanAggregate fm stmt child =
     (let cols = OutputColumns child
      in ebind (emap (plan_group_by fm cols) (ss_group_by stmt)) (\<lambda>groups.
         ebind (case ss_having stmt of None \<Rightarrow> eret None
                | Some e \<Rightarrow> ebind (AddAggregateExpression e) (\<lambda>h. eret (Some h))) (\<lambda>having.
         ebind (emap AddAggregateExpression (ss_select_list stmt)) (\<lambda>select_list.
         ebind (emap (\<lambda>o'. AddAggregateExpression (snd o')) (ss_order_by stmt)) (\<lambda>_.
         ebind (eget pl_aggregates) (\<lambda>items.
         ebind (plan_aggregates fm cols (length groups) items) (\<lambda>aggs.
         ebind (elift (rmap (\<lambda>item. CheckAggregate fm item (map fst groups)) select_list)) (\<lambda>_.
         ebind (eget (\<lambda>st. map (\<lambda>(_, _, e). (pl_names st ! snd e, fst e)) groups)) (\<lambda>group_bys.
         ebind (elift (rbind (InferAggregateColumnList group_bys (map (\<lambda>(_, _, e, _). e) aggs)) (\<lambda>cl.
                  RenameColumnList cl (map (\<lambda>(_, out, _). out) groups @ map (\<lambda>(_, _, _, f). f) aggs)))) (\<lambda>column_list.
           filter_plan fm having
             (AggregateOperator column_list child (map snd group_bys) (map (\<lambda>(_, _, e, _). e) aggs)
                (map (\<lambda>(_, d, _, _). d) aggs) (map fst aggs))))))))))))"

section \<open>Statements\<close>

text \<open>Aliases of the select list are planned once before the grouping and ordering clauses use them.\<close>

definition add_aliases :: "fmt_env \<Rightarrow> ColumnList \<Rightarrow> BExpr list \<Rightarrow> (PlannerState, unit) em" where
  "add_aliases fm cols items =
     efor (\<lambda>item. case item of
             AliasExpression name e \<Rightarrow>
               if is_aggregate e then eret () else ebind (PlanExpression fm item [cols]) (\<lambda>_. eret ())
           | _ \<Rightarrow> eret ()) items"

text \<open>The expressions of the select list with the names of their columns.\<close>

definition plan_select_list :: "fmt_env \<Rightarrow> ColumnList \<Rightarrow> BExpr list \<Rightarrow> (PlannerState, (string \<times> PExpr) list) em" where
  "plan_select_list fm cols items =
     emap (\<lambda>item. ebind (PlanExpression fm item [cols]) (\<lambda>expr. ebind (name_of expr) (\<lambda>name. eret (name, fst expr)))) items"

definition order_plan :: "fmt_env \<Rightarrow> (OrderByType \<times> BExpr) list \<Rightarrow> PExpr Plan \<Rightarrow> (PlannerState, PExpr Plan) em" where
  "order_plan fm order_by plan =
     (if order_by = [] then eret plan
      else ebind (emap (\<lambda>(ty, e). ebind (PlanExpression fm e [OutputColumns plan]) (\<lambda>expr. eret (ty, fst expr))) order_by) (\<lambda>obs.
             eret (OrderByOperator (OutputColumns plan) plan obs)))"

text \<open>The counts are evaluated at planning time, on a record without values.\<close>

definition plan_count :: "eval_env \<Rightarrow> fmt_env \<Rightarrow> ColumnList \<Rightarrow> string \<Rightarrow> BExpr option \<Rightarrow> (PlannerState, 32 word option) em" where
  "plan_count env fm cols msg expr =
     (case expr of
        None \<Rightarrow> eret None
      | Some e \<Rightarrow> ebind (PlanExpression fm e [cols]) (\<lambda>p.
          ebind (elift (rbind (Evaluate env (expr_of [] (fst p)) Record_default) GetValue_int)) (\<lambda>n.
            if sint n < 0 then ethrow (DbException msg) else eret (Some n))))"

definition limit_plan :: "eval_env \<Rightarrow> fmt_env \<Rightarrow> SelectStatement \<Rightarrow> PExpr Plan \<Rightarrow> (PlannerState, PExpr Plan) em" where
  "limit_plan env fm stmt plan =
     (if ss_limit_count stmt = None \<and> ss_limit_offset stmt = None then eret plan
      else ebind (plan_count env fm (OutputColumns plan) ''LIMIT must not be negative'' (ss_limit_count stmt)) (\<lambda>limit_count.
           ebind (plan_count env fm (OutputColumns plan) ''OFFSET must not be negative'' (ss_limit_offset stmt)) (\<lambda>limit_offset.
             eret (LimitOperator (OutputColumns plan) plan limit_count limit_offset))))"

definition lock_plan :: "SelectStatement \<Rightarrow> PExpr Plan \<Rightarrow> (PlannerState, PExpr Plan) em" where
  "lock_plan stmt plan =
     (if ss_lock_type stmt = NOLOCK then eret plan
      else case ss_table stmt of
             BaseTableRef table table_alias oid column_list \<Rightarrow>
               eret (LockRowsOperator (OutputColumns plan) plan oid (ss_lock_type stmt))
           | _ \<Rightarrow> ethrow (DbException ''Locking only supports for base table''))"

text \<open>\<^verbatim>\<open>SELECT DISTINCT\<close> groups by all columns of the result.\<close>

definition distinct_plan :: "bool \<Rightarrow> PExpr Plan \<Rightarrow> (PlannerState, PExpr Plan) em" where
  "distinct_plan dist plan =
     (if \<not> dist then eret plan
      else ebind (emap (\<lambda>(i, c). new_object (cd_name c) (\<lambda>a. PColumn i (cd_type c) a (unat (cd_max_size c)) True))
                   (enumerate 0 (cl_columns (OutputColumns plan)))) (\<lambda>exprs.
             eret (AggregateOperator (OutputColumns plan) plan (map fst exprs) [] [] [])))"

definition projection_plan :: "(string \<times> PExpr) list \<Rightarrow> PExpr Plan \<Rightarrow> (PlannerState, PExpr Plan) em" where
  "projection_plan exprs plan =
     ebind (elift (rbind (InferColumnList (map snd exprs)) (\<lambda>cl. RenameColumnList cl (map fst exprs)))) (\<lambda>column_list.
       eret (ProjectionOperator column_list plan (map snd exprs)))"

definition PlanSelect :: "eval_env \<Rightarrow> fmt_env \<Rightarrow> ForceJoin \<Rightarrow> SelectStatement \<Rightarrow> (PlannerState, PExpr Plan) em" where
  "PlanSelect env fm force_join stmt =
     ebind (case ss_table stmt of
              EmptyTableRef \<Rightarrow> eret (ValuesOperator (ColumnList_new []) [[]])
            | table \<Rightarrow> PlanTableRef fm force_join table (ss_lock_type stmt \<noteq> NOLOCK)) (\<lambda>table.
     ebind (filter_plan fm (ss_where stmt) table) (\<lambda>filtered.
     ebind (add_aliases fm (OutputColumns filtered) (ss_select_list stmt)) (\<lambda>_.
     ebind (if list_ex HasAggregation (ss_select_list stmt) \<or> ss_group_by stmt \<noteq> []
            then PlanAggregate fm stmt filtered else eret filtered) (\<lambda>grouped.
     ebind (plan_select_list fm (OutputColumns grouped) (ss_select_list stmt)) (\<lambda>exprs.
     ebind (order_plan fm (ss_order_by stmt) grouped) (\<lambda>ordered.
     ebind (limit_plan env fm stmt ordered) (\<lambda>limited.
     ebind (lock_plan stmt limited) (\<lambda>locked.
     ebind (projection_plan exprs locked) (distinct_plan (ss_distinct stmt))))))))))"

definition count_column :: "string \<Rightarrow> ColumnList result" where
  "count_column name = rbind (ColumnDefinition_new name TINT) (\<lambda>c. Inr (ColumnList_new [c]))"

text \<open>The columns that an \<^verbatim>\<open>INSERT\<close> names, by the part of the name behind the first dot.\<close>

definition insert_column :: "ColumnList \<Rightarrow> BExpr \<Rightarrow> (PlannerState, ColumnDefinition) em" where
  "insert_column all_columns column =
     (case column of
        ColumnRefExpression names \<Rightarrow>
          (let parts = Split CHR ''.'' (join_dots names)
           in if length parts < 2 then ethrow (Undefined ''vector index out of range'')
              else elift (rbind (GetColumnIndex (parts ! 1) all_columns) (\<lambda>i. GetColumn i all_columns)))
      | _ \<Rightarrow> ethrow (Undefined ''not a column reference''))"

definition check_insert_column :: "ColumnDefinition \<times> ColumnDefinition \<Rightarrow> unit result" where
  "check_insert_column p =
     (let child = fst p; table = snd p
      in if cd_type child \<noteq> cd_type table \<and> cd_type child \<noteq> TNULL \<and> \<not> (cd_type child = TVARCHAR \<and> cd_type table = TCHAR)
         then Inl (DbException ''Insert column type does not match table column type'')
         else if IsString (cd_type child) \<and> IsString (cd_type table) \<and> cd_max_size child > cd_max_size table
         then Inl (DbException ''Insert value too long'') else Inr ())"

definition PlanInsert :: "eval_env \<Rightarrow> fmt_env \<Rightarrow> ForceJoin \<Rightarrow> InsertStatement \<Rightarrow> (PlannerState, PExpr Plan) em" where
  "PlanInsert env fm force_join stmt =
     (case is_table stmt of
        (table, table_alias, oid, column_list) \<Rightarrow>
          ebind (PlanSelect env fm force_join (is_select stmt)) (\<lambda>select.
          ebind (if is_columns stmt = [] then eret column_list
                 else ebind (emap (insert_column column_list) (is_columns stmt)) (\<lambda>cs. eret (ColumnList_new cs))) (\<lambda>table_columns.
          let child_columns = OutputColumns select
          in if ColumnList_Length child_columns \<noteq> ColumnList_Length table_columns
             then ethrow (DbException ''Insert column number does not match table column number'')
             else ebind (elift (rmap check_insert_column (zip (cl_columns child_columns) (cl_columns table_columns)))) (\<lambda>_.
                  ebind (elift (count_column ''insert'')) (\<lambda>cl. eret (InsertOperator cl select table_columns oid))))))"

definition base_filter :: "fmt_env \<Rightarrow> BBaseTable \<Rightarrow> BExpr \<Rightarrow> (PlannerState, PExpr Plan) em" where
  "base_filter fm t condition =
     (case t of (table, table_alias, oid, column_list) \<Rightarrow>
        filter_plan fm (Some condition) (PlanBaseTable table table_alias oid column_list False))"

definition PlanDelete :: "fmt_env \<Rightarrow> DeleteStatement \<Rightarrow> (PlannerState, PExpr Plan) em" where
  "PlanDelete fm stmt =
     ebind (base_filter fm (ds_table stmt) (ds_filter stmt)) (\<lambda>filter_node.
     ebind (elift (count_column ''delete'')) (\<lambda>cl.
       eret (DeleteOperator cl filter_node (fst (snd (snd (ds_table stmt)))))))"

fun set_exprs :: "fmt_env \<Rightarrow> ColumnList \<Rightarrow> (BExpr \<times> BExpr) list \<Rightarrow> PExpr option list \<Rightarrow> (PlannerState, PExpr option list) em" where
  "set_exprs fm cols [] exprs = eret exprs"
| "set_exprs fm cols ((column, e) # items) exprs =
     (case column of
        ColumnRefExpression names \<Rightarrow>
          ebind (PlanColumnRef names [cols]) (\<lambda>c. ebind (PlanExpression fm e [cols]) (\<lambda>expr.
            case fst c of
              PColumn i t a sz lft \<Rightarrow>
                if i < length exprs then set_exprs fm cols items (exprs[i := Some (fst expr)])
                else ethrow (Undefined ''vector index out of range'')
            | _ \<Rightarrow> ethrow (Undefined ''not a column'')))
      | _ \<Rightarrow> ethrow (Undefined ''not a column reference''))"

text \<open>A column that is not assigned keeps its value.\<close>

definition keep_column :: "nat \<times> ColumnDefinition \<times> PExpr option \<Rightarrow> (PlannerState, PExpr) em" where
  "keep_column x =
     (case x of (i, c, e) \<Rightarrow>
        case e of
          Some expr \<Rightarrow> eret expr
        | None \<Rightarrow> ebind (new_object (cd_name c) (\<lambda>a. PColumn i (cd_type c) a (unat (cd_max_size c)) True)) (\<lambda>p. eret (fst p)))"

definition PlanUpdate :: "fmt_env \<Rightarrow> UpdateStatement \<Rightarrow> (PlannerState, PExpr Plan) em" where
  "PlanUpdate fm stmt =
     ebind (base_filter fm (us_table stmt) (us_filter stmt)) (\<lambda>filter_node.
       let cols = OutputColumns filter_node
       in ebind (set_exprs fm cols (us_exprs stmt) (replicate (ColumnList_Length cols) None)) (\<lambda>exprs.
          ebind (emap keep_column (enumerate 0 (zip (cl_columns cols) exprs))) (\<lambda>update_exprs.
          ebind (elift (count_column ''update'')) (\<lambda>cl.
            eret (UpdateOperator cl filter_node (fst (snd (snd (us_table stmt)))) update_exprs)))))"

definition PlanQuery :: "eval_env \<Rightarrow> fmt_env \<Rightarrow> ForceJoin \<Rightarrow> BStatement \<Rightarrow> (PlannerState, PExpr Plan) em" where
  "PlanQuery env fm force_join stmt =
     (case stmt of
        BInsert s \<Rightarrow> PlanInsert env fm force_join s
      | BDelete s \<Rightarrow> PlanDelete fm s
      | BUpdate s \<Rightarrow> PlanUpdate fm s
      | BSelect s \<Rightarrow> PlanSelect env fm force_join s)"

text \<open>The plan of a statement, with the final names.\<close>

definition planned :: "eval_env \<Rightarrow> fmt_env \<Rightarrow> ForceJoin \<Rightarrow> BStatement \<Rightarrow> Expr Plan result" where
  "planned env fm force_join stmt =
     (case PlanQuery env fm force_join stmt Planner_new of
        (Inl e, st) \<Rightarrow> Inl e
      | (Inr p, st) \<Rightarrow> Inr (plan_of (pl_names st) p))"

end
