(* ===== verification/Binder.thy ===== *)
theory Binder
  imports Planner
begin

text \<open>
  \<^verbatim>\<open>src/src/binder/binder.cpp\<close>: from the parse tree of the SQL library to bound statements. The nodes of
  the tree are those of \<^verbatim>\<open>parsenodes.hpp\<close> with the fields that the binder reads; a pointer that may be
  null is an option, and a node of any other kind is known by its tag. The catalog is given by the two
  functions that the binder calls, and the conversion of decimal constants is a parameter.
\<close>

section \<open>The parse tree\<close>

datatype PgValue = PgInteger "64 word" | PgFloat string | PgText string | PgNull | PgOtherValue string

datatype PgExprKind = AexprOp | AexprBetween | AexprNotBetween | AexprIn | AexprLike | AexprOther

datatype PgBoolOp = PgAnd | PgOr | PgNot

datatype PgSortDir = SortDefault | SortAsc | SortDesc | SortUsing

datatype PgJoinType = PgInner | PgLeft | PgRight | PgFull | PgOtherJoin

datatype PgLockStrength = ForShare | ForUpdate | OtherStrength

datatype PgNode =
    PgAConst PgValue
  | PgResTarget "string option" PgNode
  | PgColumnRef "PgNode list"
  | PgString string
  | PgAExpr PgExprKind string "PgNode option" "PgNode option"
  | PgAStar
  | PgFuncCall string "PgNode list" bool
  | PgBoolExpr PgBoolOp "PgNode list"
  | PgNullTest bool PgNode
  | PgList "PgNode list"
  | PgTypeCast string PgNode
  | PgSortBy PgSortDir PgNode
  | PgRangeVar string "string option"
  | PgJoinExpr PgJoinType PgNode PgNode "PgNode option" "string list option"
  | PgColumnDef string string "PgNode list option"
  | PgIndexElem "string option"
  | PgLockingClause PgLockStrength
  | PgOtherNode string

fun node_tag :: "PgNode \<Rightarrow> string" where
  "node_tag (PgAConst v) = ''T_PGAConst''"
| "node_tag (PgResTarget name v) = ''T_PGResTarget''"
| "node_tag (PgColumnRef parts) = ''T_PGColumnRef''"
| "node_tag (PgString str) = ''T_PGString''"
| "node_tag (PgAExpr k name l r) = ''T_PGAExpr''"
| "node_tag PgAStar = ''T_PGAStar''"
| "node_tag (PgFuncCall f args dist) = ''T_PGFuncCall''"
| "node_tag (PgBoolExpr op args) = ''T_PGBoolExpr''"
| "node_tag (PgNullTest is_null e) = ''T_PGNullTest''"
| "node_tag (PgList es) = ''T_PGList''"
| "node_tag (PgTypeCast ty e) = ''T_PGTypeCast''"
| "node_tag (PgSortBy dir e) = ''T_PGSortBy''"
| "node_tag (PgRangeVar name table_alias) = ''T_PGRangeVar''"
| "node_tag (PgJoinExpr ty l r quals cols) = ''T_PGJoinExpr''"
| "node_tag (PgColumnDef name ty mods) = ''T_PGColumnDef''"
| "node_tag (PgIndexElem name) = ''T_PGIndexElem''"
| "node_tag (PgLockingClause strength) = ''T_PGLockingClause''"
| "node_tag (PgOtherNode tag) = tag"

record PgSelectStmt =
  pg_valuesLists :: "PgNode list list option"
  pg_targetList :: "PgNode list option"
  pg_fromClause :: "PgNode list option"
  pg_distinctClause :: bool
  pg_whereClause :: "PgNode option"
  pg_groupClause :: "PgNode list option"
  pg_havingClause :: "PgNode option"
  pg_sortClause :: "PgNode list option"
  pg_limitCount :: "PgNode option"
  pg_limitOffset :: "PgNode option"
  pg_lockingClause :: "PgNode list option"

datatype PgObjectType = ObjectDatabase | ObjectIndex | ObjectTable | OtherObject

datatype PgTransactionKind = TransBegin | TransStart | TransCommit | TransRollback | OtherTrans

datatype PgVacuumOption = VacoptVacuum | VacoptAnalyze | OtherVacopt

text \<open>Tables are given by the name in their \<^verbatim>\<open>PGRangeVar\<close>, a dropped object by the list of its names.\<close>

datatype PgStmt =
    PgRawStmt PgStmt
  | PgCreateDatabaseStmt string
  | PgCreateStmt string "PgNode list"
  | PgIndexStmt "string option" string "PgNode list"
  | PgDropStmt PgObjectType "string list" bool
  | PgInsertStmt string "PgNode list option" PgSelectStmt
  | PgDeleteStmt string "PgNode option"
  | PgUpdateStmt string "PgNode option" "PgNode list"
  | PgSelectStatement PgSelectStmt
  | PgExplainStmt "string list option" PgStmt
  | PgTransactionStmt PgTransactionKind
  | PgCheckPointStmt
  | PgLockStmt string PgLockStrength
  | PgVariableSetStmt string "PgNode list"
  | PgVariableShowStmt string
  | PgCopyStmt
  | PgVacuumStmt PgVacuumOption "string option" "PgNode list option"
  | PgOtherStmt string

section \<open>State and environment\<close>

record bind_env =
  bd_GetTableOid :: "string \<Rightarrow> oid_t result"
  bd_GetTableColumnList :: "string \<Rightarrow> ColumnList result"
  bd_stod :: "string \<Rightarrow> 64 word result"
  bd_fmt :: fmt_env

text \<open>\<^verbatim>\<open>table_\<close> is a pointer to the table that columns are looked up in, null at first.\<close>

record BinderState =
  bs_table :: "BTableRef option"
  bs_aliases :: "(string \<times> string) list"
  bs_table_names :: "string list"
  bs_adding_alias :: bool

definition Binder_new :: BinderState where
  "Binder_new = \<lparr>bs_table = None, bs_aliases = [], bs_table_names = [], bs_adding_alias = True\<rparr>"

section \<open>Expressions\<close>

definition BindConstExpression :: "bind_env \<Rightarrow> PgValue \<Rightarrow> BExpr result" where
  "BindConstExpression be val =
     (case val of
        PgInteger i \<Rightarrow> Inr (ConstExpression (Value_int (ucast i)))
      | PgFloat str \<Rightarrow> rbind (bd_stod be str) (\<lambda>d. Inr (ConstExpression (Value_double d)))
      | PgText str \<Rightarrow> Inr (ConstExpression (Value_string str TVARCHAR))
      | PgNull \<Rightarrow> Inr (ConstExpression Value_null)
      | PgOtherValue tag \<Rightarrow> Inl (DbException (''Unsupported constant type: '' @ tag)))"

definition quoted :: "string \<Rightarrow> string" where
  "quoted str = CHR 0x22 # str @ [CHR 0x22]"

definition null_table :: db_error where
  "null_table = Undefined ''null pointer dereferenced''"

definition resolve_here :: "string list \<Rightarrow> (BinderState, BExpr) em" where
  "resolve_here names bs =
     ((case bs_table bs of
         None \<Rightarrow> Inl null_table
       | Some table \<Rightarrow> ResolveColumn table (bs_aliases bs) (bs_adding_alias bs) names), bs)"

fun field_name :: "PgNode \<Rightarrow> string result" where
  "field_name (PgString str) = Inr str"
| "field_name _ = Inl (Undefined ''node of another type'')"

definition BindColumnRefExpression :: "PgNode list \<Rightarrow> (BinderState, BExpr) em" where
  "BindColumnRefExpression parts =
     (case parts of
        [] \<Rightarrow> ethrow null_table
      | PgString str # _ \<Rightarrow> ebind (elift (rmap field_name parts)) resolve_here
      | PgAStar # _ \<Rightarrow> eret StarExpression
      | head # _ \<Rightarrow> ethrow (DbException (''Unsupported column ref type '' @ node_tag head)))"

definition note_alias :: "bind_env \<Rightarrow> string \<Rightarrow> BExpr \<Rightarrow> (BinderState, BExpr) em" where
  "note_alias be name e =
     ebind (elift (BExpr_ToString (bd_fmt be) e)) (\<lambda>printed.
     ebind (emodify (\<lambda>bs. bs\<lparr>bs_aliases := add_alias name printed (bs_aliases bs)\<rparr>)) (\<lambda>_.
       eret (AliasExpression name e)))"

definition bound_binary :: "PgExprKind \<Rightarrow> string \<Rightarrow> BExpr option \<Rightarrow> BExpr option \<Rightarrow> BExpr result" where
  "bound_binary kind name left right =
     (case (left, right) of
        (Some l, Some r) \<Rightarrow> Inr (BinaryOpExpression name l r)
      | _ \<Rightarrow> Inl (DbException ''Unreachable code in BindExprExpression''))"

definition aggregate_functions :: "string list" where
  "aggregate_functions = [''avg'', ''count'', ''sum'', ''min'', ''max'']"

definition bound_function :: "string \<Rightarrow> BExpr list \<Rightarrow> bool \<Rightarrow> BExpr result" where
  "bound_function function_name args agg_distinct =
     (if function_name \<in> set aggregate_functions then Inr (AggregateExpression function_name agg_distinct args)
      else if function_name \<in> {''lower'', ''upper'', ''length''} then
        (if agg_distinct then Inl (DbException (''DISTINCT specified, but '' @ function_name @ '' is not an aggregate function''))
         else Inr (FuncCallExpression function_name args))
      else Inl (DbException (''Unsupported function call: '' @ function_name)))"

text \<open>Conjunctions and disjunctions lean to the left.\<close>

definition bound_bool :: "PgBoolOp \<Rightarrow> BExpr list \<Rightarrow> BExpr result" where
  "bound_bool boolop exprs =
     (case boolop of
        PgNot \<Rightarrow> (case exprs of [e] \<Rightarrow> Inr (UnaryOpExpression ''not'' e)
                   | _ \<Rightarrow> Inl (DbException ''Not Expr should have only one argument''))
      | _ \<Rightarrow>
          let op_name = (if boolop = PgAnd then ''and'' else ''or'')
          in case exprs of
               a # b # es \<Rightarrow> Inr (foldl (BinaryOpExpression op_name) (BinaryOpExpression op_name a b) es)
             | _ \<Rightarrow> Inl (DbException ''Too few arguments in BindBoolExpression''))"

fun BindExpression :: "bind_env \<Rightarrow> PgNode \<Rightarrow> (BinderState, BExpr) em" where
  "BindExpression be (PgAConst v) = elift (BindConstExpression be v)"
| "BindExpression be (PgResTarget name val) =
     ebind (BindExpression be val) (\<lambda>bound_expr.
       case name of None \<Rightarrow> eret bound_expr | Some n \<Rightarrow> note_alias be n bound_expr)"
| "BindExpression be (PgColumnRef parts) = BindColumnRefExpression parts"
| "BindExpression be (PgAExpr kind name lexpr rexpr) =
     (if kind = AexprOther
      then ethrow (DbException (''Unsupported PGAExpr expression type in BindExprExpression: '' @ name))
      else ebind (case lexpr of None \<Rightarrow> eret None | Some e \<Rightarrow> ebind (BindExpression be e) (\<lambda>b. eret (Some b))) (\<lambda>left.
           ebind (case rexpr of None \<Rightarrow> eret None | Some e \<Rightarrow> ebind (BindExpression be e) (\<lambda>b. eret (Some b))) (\<lambda>right.
             elift (bound_binary kind name left right))))"
| "BindExpression be PgAStar = eret StarExpression"
| "BindExpression be (PgFuncCall name args agg_distinct) =
     ebind (emap (BindExpression be) args) (\<lambda>bs. elift (bound_function (Lower name) bs agg_distinct))"
| "BindExpression be (PgBoolExpr boolop args) =
     ebind (emap (BindExpression be) args) (\<lambda>bs. elift (bound_bool boolop bs))"
| "BindExpression be (PgNullTest is_null arg) =
     ebind (BindExpression be arg) (\<lambda>b. eret (NullTestExpression is_null b))"
| "BindExpression be (PgList items) = ebind (emap (BindExpression be) items) (\<lambda>bs. eret (ListExpression bs))"
| "BindExpression be (PgTypeCast type_name arg) =
     ebind (BindExpression be arg) (\<lambda>b. ebind (elift (String2Type type_name)) (\<lambda>t. eret (TypeCastExpression t b)))"
| "BindExpression be node = ethrow (DbException (''Unsupported expression type: '' @ node_tag node))"

text \<open>An optional clause.\<close>

definition bind_opt :: "('a \<Rightarrow> (BinderState, 'b) em) \<Rightarrow> 'a option \<Rightarrow> (BinderState, 'b option) em" where
  "bind_opt f c = (case c of None \<Rightarrow> eret None | Some x \<Rightarrow> ebind (f x) (\<lambda>y. eret (Some y)))"

definition BindExpressionList :: "bind_env \<Rightarrow> PgNode list \<Rightarrow> (BinderState, BExpr list) em" where
  "BindExpressionList be items = emap (BindExpression be) items"

definition bind_order_by :: "bind_env \<Rightarrow> PgNode \<Rightarrow> (BinderState, OrderByType \<times> BExpr) em" where
  "bind_order_by be item =
     (case item of
        PgSortBy dir node \<Rightarrow>
          ebind (elift (case dir of SortDefault \<Rightarrow> Inr DEFAULT | SortAsc \<Rightarrow> Inr ASC | SortDesc \<Rightarrow> Inr DESC
                   | SortUsing \<Rightarrow> Inl (DbException ''Unknown sort by type''))) (\<lambda>ty.
          ebind (BindExpression be node) (\<lambda>e. eret (ty, e)))
      | _ \<Rightarrow> ethrow (DbException (''Unsupported order by type: '' @ node_tag item)))"

section \<open>Tables\<close>

text \<open>A name may stand for one table of a statement only.\<close>

definition BindBaseTableRef :: "bind_env \<Rightarrow> string \<Rightarrow> string option \<Rightarrow> (BinderState, BBaseTable) em" where
  "BindBaseTableRef be table_name table_alias =
     (let name = BaseTable_GetTableName table_name table_alias
      in ebind (eget bs_table_names) (\<lambda>names.
           if name \<in> set names
           then ethrow (DbException (''Table name '' @ quoted name @ '' specified more than once''))
           else ebind (emodify (\<lambda>bs. bs\<lparr>bs_table_names := name # bs_table_names bs\<rparr>)) (\<lambda>_.
                ebind (elift (bd_GetTableOid be table_name)) (\<lambda>oid.
                ebind (elift (bd_GetTableColumnList be table_name)) (\<lambda>column_list.
                  eret (table_name, table_alias, oid, column_list))))))"

definition base_ref :: "BBaseTable \<Rightarrow> BTableRef" where
  "base_ref t = (case t of (table, table_alias, oid, column_list) \<Rightarrow> BaseTableRef table table_alias oid column_list)"

definition bound_join_type :: "PgJoinType \<Rightarrow> JoinType result" where
  "bound_join_type ty =
     (case ty of PgInner \<Rightarrow> Inr INNER | PgLeft \<Rightarrow> Inr LEFT | PgRight \<Rightarrow> Inr RIGHT | PgFull \<Rightarrow> Inr FULL
      | PgOtherJoin \<Rightarrow> Inl (DbException ''Unsupported join type''))"

text \<open>\<^verbatim>\<open>USING\<close> names a column of either side; a side that has no such column gives a null pointer.\<close>

definition using_side :: "BTableRef \<Rightarrow> string \<Rightarrow> BExpr result" where
  "using_side table column =
     rbind (ResolveColumnInternal table [column]) (\<lambda>r. Inr (case r of Some e \<Rightarrow> e | None \<Rightarrow> NullExpression))"

definition join_condition :: "bind_env \<Rightarrow> BTableRef \<Rightarrow> BTableRef \<Rightarrow> PgNode option \<Rightarrow> string list option \<Rightarrow> (BinderState, BExpr) em" where
  "join_condition be left right quals using_cols =
     (case quals of
        Some e \<Rightarrow> BindExpression be e
      | None \<Rightarrow> (case using_cols of
          Some [column] \<Rightarrow>
            elift (rbind (using_side left column) (\<lambda>l. rbind (using_side right column) (\<lambda>r. Inr (BinaryOpExpression ''='' l r))))
        | Some _ \<Rightarrow> ethrow (DbException ''Using clause only support one column now'')
        | None \<Rightarrow> ethrow (DbException ''Join condition is not specified'')))"

text \<open>While the condition of a join is bound, columns are looked up in its two sides.\<close>

fun BindTableRef :: "bind_env \<Rightarrow> PgNode \<Rightarrow> (BinderState, BTableRef) em" where
  "BindTableRef be (PgRangeVar relname table_alias) =
     ebind (BindBaseTableRef be relname table_alias) (\<lambda>t. eret (base_ref t))"
| "BindTableRef be (PgJoinExpr jointype larg rarg quals using_cols) =
     ebind (elift (bound_join_type jointype)) (\<lambda>ty.
     ebind (BindTableRef be larg) (\<lambda>left. ebind (BindTableRef be rarg) (\<lambda>right.
     ebind (emodify (\<lambda>bs. bs\<lparr>bs_table := Some (JoinRef ty left right NullExpression)\<rparr>)) (\<lambda>_.
     ebind (join_condition be left right quals using_cols) (\<lambda>condition.
       eret (JoinRef ty left right condition))))))"
| "BindTableRef be node = ethrow (DbException (''Unsupported table reference type: '' @ node_tag node))"

definition BindFrom :: "bind_env \<Rightarrow> PgNode list option \<Rightarrow> (BinderState, BTableRef) em" where
  "BindFrom be items =
     (case items of
        None \<Rightarrow> eret EmptyTableRef
      | Some [] \<Rightarrow> ethrow null_table
      | Some (node # nodes) \<Rightarrow>
          ebind (BindTableRef be node) (\<lambda>table. ebind (emap (BindTableRef be) nodes) (\<lambda>tables.
            eret (foldl CrossJoinRef table tables))))"

section \<open>Queries\<close>

text \<open>A star replaces the targets before it by the columns of the table.\<close>

fun bind_targets :: "bind_env \<Rightarrow> BTableRef \<Rightarrow> BExpr list \<Rightarrow> PgNode list \<Rightarrow> (BinderState, BExpr list) em" where
  "bind_targets be table exprs [] = eret exprs"
| "bind_targets be table exprs (node # nodes) =
     ebind (BindExpression be node) (\<lambda>e.
       if e = StarExpression
       then ebind (elift (GetAllColumns table)) (\<lambda>cols. bind_targets be table cols nodes)
       else bind_targets be table (exprs @ [e]) nodes)"

definition BindSelectList :: "bind_env \<Rightarrow> PgNode list option \<Rightarrow> (BinderState, BExpr list) em" where
  "BindSelectList be items =
     (case items of
        None \<Rightarrow> ethrow (DbException ''Select list is empty'')
      | Some nodes \<Rightarrow>
          ebind (eget bs_table) (\<lambda>table.
            case table of
              None \<Rightarrow> ethrow null_table
            | Some t \<Rightarrow> bind_targets be t [] nodes))"

definition no_clauses :: "BTableRef \<Rightarrow> BExpr list \<Rightarrow> SelectStatement" where
  "no_clauses table select_list =
     \<lparr>ss_table = table, ss_select_list = select_list, ss_where = None, ss_group_by = [], ss_having = None, ss_order_by = [],
      ss_limit_count = None, ss_limit_offset = None, ss_lock_type = NOLOCK, ss_distinct = False\<rparr>"

text \<open>\<^verbatim>\<open>VALUES\<close> selects the columns \<^verbatim>\<open>#1\<close>, \<^verbatim>\<open>#2\<close>, \<dots> of its first row.\<close>

definition bind_values :: "bind_env \<Rightarrow> PgNode list list \<Rightarrow> (BinderState, SelectStatement) em" where
  "bind_values be values_lists =
     ebind (emap (BindExpressionList be) values_lists) (\<lambda>rows.
       case rows of
         [] \<Rightarrow> ethrow (Undefined ''vector index out of range'')
       | row # _ \<Rightarrow> eret (no_clauses (ExpressionListRef rows) (map (\<lambda>i. ColumnRefExpression [numbered (i + 1)]) [0..<length row])))"

definition bind_locking :: "PgNode list option \<Rightarrow> SelectLockType result" where
  "bind_locking clause =
     (case clause of
        None \<Rightarrow> Inr NOLOCK
      | Some [] \<Rightarrow> Inl null_table
      | Some [PgLockingClause ForShare] \<Rightarrow> Inr SHARE
      | Some [PgLockingClause ForUpdate] \<Rightarrow> Inr UPDATE
      | Some [PgLockingClause OtherStrength] \<Rightarrow> Inl (DbException ''Unknown lock clause strength'')
      | Some [node] \<Rightarrow> Inl (DbException (''Unknown node type '' @ node_tag node))
      | Some _ \<Rightarrow> Inl (DbException ''Multiple locking clauses are not supported''))"

definition BindSelectStatement :: "bind_env \<Rightarrow> PgSelectStmt \<Rightarrow> (BinderState, SelectStatement) em" where
  "BindSelectStatement be stmt =
     (case pg_valuesLists stmt of
        Some values_lists \<Rightarrow> bind_values be values_lists
      | None \<Rightarrow>
          ebind (BindFrom be (pg_fromClause stmt)) (\<lambda>table.
          ebind (emodify (\<lambda>bs. bs\<lparr>bs_table := Some table\<rparr>)) (\<lambda>_.
          ebind (bind_opt (BindExpression be) (pg_whereClause stmt)) (\<lambda>condition.
          ebind (BindSelectList be (pg_targetList stmt)) (\<lambda>select_list.
          ebind (emodify (\<lambda>bs. bs\<lparr>bs_adding_alias := False\<rparr>)) (\<lambda>_.
          ebind (bind_opt (BindExpressionList be) (pg_groupClause stmt)) (\<lambda>group_by.
          ebind (bind_opt (BindExpression be) (pg_havingClause stmt)) (\<lambda>having.
          ebind (bind_opt (emap (bind_order_by be)) (pg_sortClause stmt)) (\<lambda>order_by.
          ebind (bind_opt (BindExpression be) (pg_limitCount stmt)) (\<lambda>limit_count.
          ebind (bind_opt (BindExpression be) (pg_limitOffset stmt)) (\<lambda>limit_offset.
          ebind (elift (bind_locking (pg_lockingClause stmt))) (\<lambda>lock_type.
            eret \<lparr>ss_table = table, ss_select_list = select_list, ss_where = condition,
              ss_group_by = (case group_by of None \<Rightarrow> [] | Some es \<Rightarrow> es), ss_having = having,
              ss_order_by = (case order_by of None \<Rightarrow> [] | Some es \<Rightarrow> es), ss_limit_count = limit_count,
              ss_limit_offset = limit_offset, ss_lock_type = lock_type,
              ss_distinct = pg_distinctClause stmt\<rparr>))))))))))))"

section \<open>Statements that change tables\<close>

definition insert_column_ref :: "BBaseTable \<Rightarrow> PgNode \<Rightarrow> (BinderState, BExpr) em" where
  "insert_column_ref t node =
     (case node of
        PgResTarget (Some name) v \<Rightarrow>
          (case t of (table, table_alias, oid, column_list) \<Rightarrow>
             ebind (elift (ResolveColumnFromBaseTable table table_alias column_list [name])) (\<lambda>column.
               case column of None \<Rightarrow> ethrow (DbException (''Column '' @ name @ '' not found'')) | Some e \<Rightarrow> eret e))
      | PgResTarget None v \<Rightarrow> ethrow null_table
      | _ \<Rightarrow> ethrow (DbException (''Unknown node type in insert statement: '' @ node_tag node)))"

definition BindInsertStatement :: "bind_env \<Rightarrow> string \<Rightarrow> PgNode list option \<Rightarrow> PgSelectStmt \<Rightarrow> (BinderState, InsertStatement) em" where
  "BindInsertStatement be relname cols select_stmt =
     ebind (BindBaseTableRef be relname None) (\<lambda>table.
     ebind (bind_opt (emap (insert_column_ref table)) cols) (\<lambda>columns.
     ebind (BindSelectStatement be select_stmt) (\<lambda>select.
       eret \<lparr>is_table = table, is_columns = (case columns of None \<Rightarrow> [] | Some cs \<Rightarrow> cs), is_select = select\<rparr>)))"

text \<open>Without a condition every row is meant.\<close>

definition bind_where :: "bind_env \<Rightarrow> PgNode option \<Rightarrow> (BinderState, BExpr) em" where
  "bind_where be clause =
     (case clause of None \<Rightarrow> eret (ConstExpression (Value_bool True)) | Some e \<Rightarrow> BindExpression be e)"

definition bind_target_table :: "bind_env \<Rightarrow> string \<Rightarrow> (BinderState, BBaseTable) em" where
  "bind_target_table be relname =
     ebind (BindBaseTableRef be relname None) (\<lambda>table.
     ebind (emodify (\<lambda>bs. bs\<lparr>bs_table := Some (base_ref table)\<rparr>)) (\<lambda>_. eret table))"

definition BindDeleteStatement :: "bind_env \<Rightarrow> string \<Rightarrow> PgNode option \<Rightarrow> (BinderState, DeleteStatement) em" where
  "BindDeleteStatement be relname clause =
     ebind (bind_target_table be relname) (\<lambda>table.
     ebind (bind_where be clause) (\<lambda>condition. eret \<lparr>ds_table = table, ds_filter = condition\<rparr>))"

text \<open>The targets are taken for \<^verbatim>\<open>PGResTarget\<close> nodes. A column that the table does not have is a null pointer.\<close>

definition bind_assignment :: "bind_env \<Rightarrow> BBaseTable \<Rightarrow> PgNode \<Rightarrow> (BinderState, BExpr \<times> BExpr) em" where
  "bind_assignment be t node =
     (case node of
        PgResTarget (Some name) v \<Rightarrow>
          (case t of (table, table_alias, oid, column_list) \<Rightarrow>
             ebind (elift (ResolveColumnFromBaseTable table table_alias column_list [name])) (\<lambda>column.
             ebind (BindExpression be v) (\<lambda>e.
               eret (case column of Some c \<Rightarrow> c | None \<Rightarrow> NullExpression, e))))
      | _ \<Rightarrow> ethrow null_table)"

definition BindUpdateStatement :: "bind_env \<Rightarrow> string \<Rightarrow> PgNode option \<Rightarrow> PgNode list \<Rightarrow> (BinderState, UpdateStatement) em" where
  "BindUpdateStatement be relname clause targets =
     ebind (bind_target_table be relname) (\<lambda>table.
     ebind (bind_where be clause) (\<lambda>condition.
     ebind (emap (bind_assignment be table) targets) (\<lambda>exprs.
       eret \<lparr>us_table = table, us_filter = condition, us_exprs = exprs\<rparr>)))"

section \<open>Definitions of tables and the other statements\<close>

datatype TransactionType = TransactionBegin | TransactionCommit | TransactionRollback

datatype TableLockType = TableShare | TableExclusive

datatype Statement =
    CreateDatabaseStatement string
  | CreateTableStatement string "ColumnDefinition list"
  | CreateIndexStatement string string "string list"
  | DropDatabaseStatement string bool
  | DropIndexStatement string bool
  | DropTableStatement string bool
  | QueryStatement BStatement
  | ExplainStatement Statement "8 word"
  | TransactionStatement TransactionType
  | CheckpointStatement
  | LockStatement BBaseTable TableLockType
  | VariableSetStatement string string
  | VariableShowStatement string
  | VacuumStatement "BBaseTable option"
  | AnalyzeStatement "BBaseTable option" "BExpr list"

text \<open>
  The length of a string column is the printed first constant of its type, read with \<^verbatim>\<open>std::stoi\<close> and kept in 16 bits.
\<close>

definition column_length :: "fmt_env \<Rightarrow> BExpr list \<Rightarrow> db_size_t result" where
  "column_length fm exprs =
     (case exprs of
        [] \<Rightarrow> Inl (Undefined ''vector index out of range'')
      | ConstExpression v # _ \<Rightarrow>
          rbind (ToString (fm_fp fm) v) (\<lambda>str. rbind (stoi str) (\<lambda>n.
            let max_size = of_int n :: db_size_t
            in if max_size = 0 then Inl (DbException ''length must be at least 1'') else Inr max_size))
      | _ \<Rightarrow> Inl (RuntimeError ''bad_cast''))"

definition BindColumnDefinition :: "bind_env \<Rightarrow> string \<Rightarrow> string \<Rightarrow> PgNode list option \<Rightarrow> (BinderState, ColumnDefinition) em" where
  "BindColumnDefinition be col_name type_name typmods =
     (if type_name = ''int4'' then elift (ColumnDefinition_new col_name TINT)
      else if type_name = ''double'' then elift (ColumnDefinition_new col_name TDOUBLE)
      else if type_name \<noteq> ''bpchar'' \<and> type_name \<noteq> ''varchar'' then ethrow (DbException (''Unknown column type '' @ type_name))
      else case typmods of
             None \<Rightarrow> ethrow (DbException ''Column length is not specified'')
           | Some mods \<Rightarrow>
               ebind (BindExpressionList be mods) (\<lambda>exprs.
               ebind (elift (column_length (bd_fmt be) exprs)) (\<lambda>max_size.
                 eret \<lparr>cd_name = col_name, cd_type = (if type_name = ''bpchar'' then TCHAR else TVARCHAR), cd_max_size = max_size\<rparr>)))"

fun bind_columns :: "bind_env \<Rightarrow> ColumnDefinition list \<Rightarrow> PgNode list \<Rightarrow> (BinderState, ColumnDefinition list) em" where
  "bind_columns be columns [] = eret columns"
| "bind_columns be columns (PgColumnDef name ty mods # nodes) =
     ebind (BindColumnDefinition be name ty mods) (\<lambda>c.
       if cd_name c \<in> cd_name ` set columns
       then ethrow (DbException (''Duplicate column name: '' @ cd_name c))
       else bind_columns be (columns @ [c]) nodes)"
| "bind_columns be columns (node # nodes) = ethrow (DbException (''Unsupported node type: '' @ node_tag node))"

fun index_columns :: "PgNode list \<Rightarrow> string list result" where
  "index_columns [] = Inr []"
| "index_columns (PgIndexElem name # nodes) =
     rbind (index_columns nodes) (\<lambda>ns. Inr (case name of None \<Rightarrow> ns | Some n \<Rightarrow> n # ns))"
| "index_columns (node # nodes) = Inl (DbException (''Unknown node type in index statement: '' @ node_tag node))"

definition BindDropStatement :: "PgObjectType \<Rightarrow> string list \<Rightarrow> bool \<Rightarrow> Statement result" where
  "BindDropStatement remove_type names missing_ok =
     (case names of
        [name] \<Rightarrow> (case remove_type of
            ObjectDatabase \<Rightarrow> Inr (DropDatabaseStatement name missing_ok)
          | ObjectIndex \<Rightarrow> Inr (DropIndexStatement name missing_ok)
          | ObjectTable \<Rightarrow> Inr (DropTableStatement name missing_ok)
          | OtherObject \<Rightarrow> Inl (DbException ''Unknown catalog type''))
      | _ \<Rightarrow> Inl (DbException (quoted ''schema.name'' @ '' is not supported'')))"

definition explain_option :: "string \<Rightarrow> 8 word result" where
  "explain_option defname =
     (if Lower defname = ''binder'' then Inr 1
      else if Lower defname = ''planner'' then Inr 2
      else if Lower defname = ''optimizer'' then Inr 4
      else Inl (DbException (''Unknown explain option: '' @ defname)))"

definition explain_options :: "string list option \<Rightarrow> 8 word result" where
  "explain_options names =
     (case names of
        None \<Rightarrow> Inr 7
      | Some ns \<Rightarrow> rbind (rmap explain_option ns) (\<lambda>bits. Inr (foldl Bit_Operations.or 0 bits)))"

definition BindTransactionStatement :: "PgTransactionKind \<Rightarrow> Statement result" where
  "BindTransactionStatement kind =
     (case kind of
        TransBegin \<Rightarrow> Inr (TransactionStatement TransactionBegin)
      | TransStart \<Rightarrow> Inr (TransactionStatement TransactionBegin)
      | TransCommit \<Rightarrow> Inr (TransactionStatement TransactionCommit)
      | TransRollback \<Rightarrow> Inr (TransactionStatement TransactionRollback)
      | OtherTrans \<Rightarrow> Inl (DbException ''Unknown transaction type''))"

definition BindLockStatement :: "bind_env \<Rightarrow> string \<Rightarrow> PgLockStrength \<Rightarrow> (BinderState, Statement) em" where
  "BindLockStatement be relname mode =
     ebind (BindBaseTableRef be relname None) (\<lambda>table.
       case mode of
         ForShare \<Rightarrow> eret (LockStatement table TableShare)
       | ForUpdate \<Rightarrow> eret (LockStatement table TableExclusive)
       | OtherStrength \<Rightarrow> ethrow (DbException ''Unknown lock mode''))"

definition BindVariableSetStatement :: "bind_env \<Rightarrow> string \<Rightarrow> PgNode list \<Rightarrow> (BinderState, Statement) em" where
  "BindVariableSetStatement be name args =
     ebind (BindExpressionList be args) (\<lambda>exprs.
       case exprs of
         [ConstExpression v] \<Rightarrow> ebind (elift (ToString (fm_fp (bd_fmt be)) v)) (\<lambda>str. eret (VariableSetStatement name str))
       | [_] \<Rightarrow> ethrow (DbException ''Only const is supoorted in SET'')
       | _ \<Rightarrow> ethrow (DbException ''SET takes only one argument''))"

definition BindVariableShowStatement :: "string \<Rightarrow> Statement result" where
  "BindVariableShowStatement name =
     rbind (rassert (length name > 2) (AssertFail ''name.size() > 2'')) (\<lambda>_.
       Inr (VariableShowStatement (take (length name - 2) (drop 1 name))))"

definition analyze_column :: "BBaseTable \<Rightarrow> PgNode \<Rightarrow> BExpr result" where
  "analyze_column t node =
     (case node of
        PgString str \<Rightarrow> (case t of (table, table_alias, oid, column_list) \<Rightarrow>
          rbind (ResolveColumnFromBaseTable table table_alias column_list [str]) (\<lambda>column.
            Inr (case column of Some c \<Rightarrow> c | None \<Rightarrow> NullExpression)))
      | _ \<Rightarrow> Inl (DbException (''Unknown node type in vacuum statement: '' @ node_tag node)))"

definition BindVacuumStatement :: "bind_env \<Rightarrow> PgVacuumOption \<Rightarrow> string option \<Rightarrow> PgNode list option \<Rightarrow> (BinderState, Statement) em" where
  "BindVacuumStatement be opt relation va_cols =
     (if opt = OtherVacopt then ethrow (DbException ''Only Analyze and Vacuum statement is supported now'')
      else ebind (bind_opt (\<lambda>r. BindBaseTableRef be r None) relation) (\<lambda>table.
           if opt = VacoptVacuum then eret (VacuumStatement table)
           else case (table, va_cols) of
                  (Some t, Some cols) \<Rightarrow> ebind (elift (rmap (analyze_column t) cols)) (\<lambda>columns. eret (AnalyzeStatement table columns))
                | _ \<Rightarrow> eret (AnalyzeStatement table [])))"

fun BindStatement :: "bind_env \<Rightarrow> PgStmt \<Rightarrow> (BinderState, Statement) em" where
  "BindStatement be (PgRawStmt stmt) = BindStatement be stmt"
| "BindStatement be (PgCreateDatabaseStmt name) = eret (CreateDatabaseStatement name)"
| "BindStatement be (PgCreateStmt table elts) =
     ebind (bind_columns be [] elts) (\<lambda>columns. eret (CreateTableStatement table columns))"
| "BindStatement be (PgIndexStmt idxname table params) =
     ebind (elift (index_columns params)) (\<lambda>columns.
       eret (CreateIndexStatement (case idxname of None \<Rightarrow> ''index'' | Some n \<Rightarrow> n) table columns))"
| "BindStatement be (PgDropStmt ty names missing_ok) = elift (BindDropStatement ty names missing_ok)"
| "BindStatement be (PgInsertStmt relname cols select) =
     ebind (BindInsertStatement be relname cols select) (\<lambda>s. eret (QueryStatement (BInsert s)))"
| "BindStatement be (PgDeleteStmt relname clause) =
     ebind (BindDeleteStatement be relname clause) (\<lambda>s. eret (QueryStatement (BDelete s)))"
| "BindStatement be (PgUpdateStmt relname clause targets) =
     ebind (BindUpdateStatement be relname clause targets) (\<lambda>s. eret (QueryStatement (BUpdate s)))"
| "BindStatement be (PgSelectStatement stmt) =
     ebind (BindSelectStatement be stmt) (\<lambda>s. eret (QueryStatement (BSelect s)))"
| "BindStatement be (PgExplainStmt names stmt) =
     ebind (elift (explain_options names)) (\<lambda>options.
     ebind (BindStatement be stmt) (\<lambda>s. eret (ExplainStatement s options)))"
| "BindStatement be (PgTransactionStmt kind) = elift (BindTransactionStatement kind)"
| "BindStatement be PgCheckPointStmt = eret CheckpointStatement"
| "BindStatement be (PgLockStmt relname mode) = BindLockStatement be relname mode"
| "BindStatement be (PgVariableSetStmt name args) = BindVariableSetStatement be name args"
| "BindStatement be (PgVariableShowStmt name) = elift (BindVariableShowStatement name)"
| "BindStatement be PgCopyStmt = ethrow (DbException ''BindCopyStatement not implemented'')"
| "BindStatement be (PgVacuumStmt opt relation va_cols) = BindVacuumStatement be opt relation va_cols"
| "BindStatement be (PgOtherStmt tag) = ethrow (DbException (''Unsupported statement type: '' @ tag))"

end
