(* ===== verification/Optimizer.thy ===== *)
theory Optimizer
  imports Query_Trees
begin

text \<open>
  \<^verbatim>\<open>Optimizer\<close> of \<^verbatim>\<open>src/src/optimizer/optimizer.cpp\<close>: splitting of conjunctions and push down of filters,
  compared with the rows that a plan denotes. The greedy join order (\<^verbatim>\<open>JoinOrderAlgorithm::GREEDY\<close>) is not
  modelled; for the other two settings \<^verbatim>\<open>ReorderJoin\<close> returns the plan as it is.
\<close>

section \<open>Splitting\<close>

primrec GetChildren :: "'e Plan \<Rightarrow> 'e Plan list" where
  "GetChildren (AggregateOperator cl p gs as ds ts) = [p]"
| "GetChildren (DeleteOperator cl p oid) = [p]"
| "GetChildren (FilterOperator cl p e) = [p]"
| "GetChildren (HashJoinOperator cl l r lk rk ty) = [l, r]"
| "GetChildren (InsertOperator cl p cols oid) = [p]"
| "GetChildren (LimitOperator cl p n m) = [p]"
| "GetChildren (LockRowsOperator cl p oid ty) = [p]"
| "GetChildren (MergeJoinOperator cl l r lk rk ty) = [l, r]"
| "GetChildren (NestedLoopJoinOperator cl l r e ty) = [l, r]"
| "GetChildren (OrderByOperator cl p obs) = [p]"
| "GetChildren (ProjectionOperator cl p es) = [p]"
| "GetChildren (SeqScanOperator cl oid name alias lck) = []"
| "GetChildren (UpdateOperator cl p oid es) = [p]"
| "GetChildren (ValuesOperator cl rows) = []"

lemma map_children_cong [fundef_cong]:
  "p = q \<Longrightarrow> (\<And>c. c \<in> set (GetChildren q) \<Longrightarrow> f c = g c) \<Longrightarrow> map_children f p = map_children g q"
  by (cases q) simp_all

text \<open>A child that is a filter on a conjunction becomes two filters, the first operand below the last.\<close>

definition split_child :: "Expr Plan \<Rightarrow> Expr Plan" where
  "split_child child =
     (case child of
        FilterOperator cl p (Logic LogicAnd es) \<Rightarrow>
          if length es \<ge> 2 then FilterOperator cl (FilterOperator cl p (hd es)) (last es) else child
      | _ \<Rightarrow> child)"

text \<open>What \<^verbatim>\<open>split\<close> goes down by: the operators and the sizes of the filters' predicates.\<close>

fun plan_weight :: "Expr Plan \<Rightarrow> nat" where
  "plan_weight (FilterOperator cl p e) = 1 + size e + plan_weight p"
| "plan_weight p = 1 + sum_list (map plan_weight (GetChildren p))"

lemma size_list_ends: "2 \<le> length es \<Longrightarrow> size (hd es) + size (last es) + 2 \<le> size_list size es" for es :: "Expr list"
proof -
  assume "2 \<le> length es"
  then obtain a b es' where es: "es = a # b # es'" by (cases es rule: list.exhaust; cases "tl es") auto
  have in_list: "size x < size_list size xs" if "x \<in> set xs" for x :: Expr and xs using that by (induction xs) auto
  have "size (last es) < size_list size (b # es')" by (rule in_list) (use es in auto)
  then show ?thesis using es by simp
qed

lemma split_child_weight: "plan_weight (split_child p) \<le> plan_weight p"
proof (cases "split_child p = p")
  case False
  then obtain cl q es where p: "p = FilterOperator cl q (Logic LogicAnd es)" "2 \<le> length es"
    by (auto simp: split_child_def split: Plan.splits Expr.splits LogicType.splits if_splits)
  then show ?thesis using size_list_ends [OF p(2)] by (simp add: split_child_def)
qed simp

lemma child_weight: "c \<in> set (GetChildren p) \<Longrightarrow> plan_weight c < plan_weight p"
  by (cases p) auto

function split_plan :: "Expr Plan \<Rightarrow> Expr Plan" where
  "split_plan plan = map_children (\<lambda>child. split_plan (split_child child)) plan"
  by pat_completeness auto
termination
  by (relation "measure plan_weight") (auto intro: le_less_trans [OF split_child_weight child_weight])

declare split_plan.simps [simp del]

lemma split_plan_apply [simp]:
  "split_plan (FilterOperator cl p e) = FilterOperator cl (split_plan (split_child p)) e"
  "split_plan (ProjectionOperator cl p es) = ProjectionOperator cl (split_plan (split_child p)) es"
  "split_plan (NestedLoopJoinOperator cl l r e ty) =
     NestedLoopJoinOperator cl (split_plan (split_child l)) (split_plan (split_child r)) e ty"
  "split_plan (SeqScanOperator cl oid name alias lck) = SeqScanOperator cl oid name alias lck"
  by (simp_all add: split_plan.simps [of "FilterOperator cl p e"] split_plan.simps [of "ProjectionOperator cl p es"]
      split_plan.simps [of "NestedLoopJoinOperator cl l r e ty"] split_plan.simps [of "SeqScanOperator cl oid name alias lck"])

definition SplitPredicates :: "Expr Plan \<Rightarrow> Expr Plan" where
  "SplitPredicates plan = split_plan plan"

section \<open>Push down\<close>

record OptState =
  op_is_connected :: "bool list"
  op_name_1 :: string
  op_name_2 :: string
  op_success :: bool
  op_filter_predicate :: "Expr list"

definition Optimizer_new :: OptState where
  "Optimizer_new = \<lparr>op_is_connected = [], op_name_1 = [], op_name_2 = [], op_success = False, op_filter_predicate = []\<rparr>"

definition is_column :: "Expr \<Rightarrow> bool" where
  "is_column e = (case e of ColumnValue _ _ _ _ _ \<Rightarrow> True | _ \<Rightarrow> False)"

lemma is_column_ColumnValue [simp]: "is_column (ColumnValue i t name sz lft)"
  by (simp add: is_column_def)

text \<open>The first part of \<^verbatim>\<open>PushDownFilter\<close>: a comparison is remembered; two columns make a join predicate.\<close>

definition note_predicate :: "fmt_env \<Rightarrow> Expr \<Rightarrow> (OptState, unit) em" where
  "note_predicate fm e =
     (case e of
        Comparison op l r \<Rightarrow>
          if is_column l \<and> is_column r
          then ebind (elift (Expr_ToString fm r)) (\<lambda>name.
                 emodify (\<lambda>s. s\<lparr>op_name_2 := name, op_filter_predicate := op_filter_predicate s @ [e],
                                op_is_connected := op_is_connected s @ [True]\<rparr>))
          else emodify (\<lambda>s. s\<lparr>op_filter_predicate := op_filter_predicate s @ [e],
                              op_is_connected := op_is_connected s @ [False]\<rparr>)
      | _ \<Rightarrow> emodify (\<lambda>s. s\<lparr>op_is_connected := op_is_connected s @ [False]\<rparr>))"

definition expr_child :: "nat \<Rightarrow> Expr \<Rightarrow> Expr result" where
  "expr_child i e = (if i < length (Expr_children e) then Inr (Expr_children e ! i)
                     else Inl (Undefined ''vector index out of range''))"

text \<open>
  The loops over \<^verbatim>\<open>filter_predicate\<close>, which read \<^verbatim>\<open>is_connected\<close> at the same index; there are at least as
  many flags as predicates. The result is the predicate to use.
\<close>

fun join_predicate :: "fmt_env \<Rightarrow> string list \<Rightarrow> (Expr \<times> bool) list \<Rightarrow> (OptState, Expr option) em" where
  "join_predicate fm column_names [] = eret None"
| "join_predicate fm column_names ((e, connect) # ps) =
     ebind (elift (rbind (expr_child 0 e) (Expr_ToString fm))) (\<lambda>n1.
     ebind (emodify (\<lambda>s. s\<lparr>op_name_1 := n1\<rparr>)) (\<lambda>_.
     ebind (elift (rbind (expr_child 1 e) (Expr_ToString fm))) (\<lambda>n2.
     ebind (emodify (\<lambda>s. s\<lparr>op_name_2 := n2\<rparr>)) (\<lambda>_.
       if connect \<and> n1 \<in> set column_names \<and> n2 \<in> set column_names
       then ebind (emodify (\<lambda>s. s\<lparr>op_success := True\<rparr>)) (\<lambda>_. eret (Some e))
       else join_predicate fm column_names ps))))"

text \<open>The part of a column name before the first dot, empty if there is none.\<close>

definition table_prefix :: "string \<Rightarrow> string" where
  "table_prefix name = (if CHR ''.'' \<in> set name then takeWhile (\<lambda>c. c \<noteq> CHR ''.'') name else [])"

fun scan_predicate :: "fmt_env \<Rightarrow> string \<Rightarrow> (Expr \<times> bool) list \<Rightarrow> (OptState, Expr option) em" where
  "scan_predicate fm table_name [] = eret None"
| "scan_predicate fm table_name ((e, connect) # ps) =
     ebind (elift (rbind (expr_child 0 e) (Expr_ToString fm))) (\<lambda>n1.
     ebind (emodify (\<lambda>s. s\<lparr>op_name_1 := n1\<rparr>)) (\<lambda>_.
       if \<not> connect \<and> table_prefix n1 = table_name
       then ebind (emodify (\<lambda>s. s\<lparr>op_success := True\<rparr>)) (\<lambda>_. eret (Some e))
       else scan_predicate fm table_name ps))"

definition predicates :: "OptState \<Rightarrow> (Expr \<times> bool) list" where
  "predicates s = zip (op_filter_predicate s) (op_is_connected s)"

fun PushDown :: "fmt_env \<Rightarrow> Expr Plan \<Rightarrow> (OptState, Expr Plan) em" where
  "PushDown fm (FilterOperator cl p e) =
     ebind (note_predicate fm e) (\<lambda>_.
     ebind (emodify (\<lambda>s. s\<lparr>op_success := False\<rparr>)) (\<lambda>_.
     ebind (PushDown fm p) (\<lambda>p'.
     ebind (eget op_success) (\<lambda>success. eret (if success then p' else FilterOperator cl p' e)))))"
| "PushDown fm (ProjectionOperator cl p es) =
     ebind (PushDown fm p) (\<lambda>p'. eret (ProjectionOperator cl p' es))"
| "PushDown fm (NestedLoopJoinOperator cl l r e ty) =
     ebind (eget predicates) (\<lambda>ps.
     ebind (join_predicate fm (map cd_name (cl_columns cl)) ps) (\<lambda>found.
     ebind (PushDown fm l) (\<lambda>l'.
     ebind (PushDown fm r) (\<lambda>r'.
       eret (NestedLoopJoinOperator cl l' r' (case found of Some e' \<Rightarrow> e' | None \<Rightarrow> e) ty)))))"
| "PushDown fm (SeqScanOperator cl oid name alias lck) =
     ebind (eget predicates) (\<lambda>ps.
     ebind (scan_predicate fm (GetTableNameOrAlias name alias) ps) (\<lambda>found.
       eret (case found of
          Some e \<Rightarrow> FilterOperator cl (SeqScanOperator cl oid name alias lck) e
        | None \<Rightarrow> SeqScanOperator cl oid name alias lck)))"
| "PushDown fm p = eret (map_children SplitPredicates p)"

text \<open>Without the greedy join order, \<^verbatim>\<open>ReorderJoin\<close> returns its argument.\<close>

definition Optimize :: "fmt_env \<Rightarrow> Expr Plan \<Rightarrow> Expr Plan result" where
  "Optimize fm plan = fst (PushDown fm (SplitPredicates plan) Optimizer_new)"

section \<open>Splitting keeps the rows\<close>

text \<open>Predicates as the planner builds them: truth values, with the operands that the logic needs.\<close>

fun predicate_expr :: "Expr \<Rightarrow> bool" where
  "predicate_expr (Comparison op l r) \<longleftrightarrow> True"
| "predicate_expr (NullTest is_null e) \<longleftrightarrow> True"
| "predicate_expr (Logic op es) \<longleftrightarrow> length es = (if op = LogicNot then 1 else 2) \<and> list_all predicate_expr es"
| "predicate_expr (Const v) \<longleftrightarrow> v_type v = TBOOL"
| "predicate_expr _ \<longleftrightarrow> False"

fun plan_filters :: "Expr Plan \<Rightarrow> Expr list" where
  "plan_filters (FilterOperator cl p e) = e # plan_filters p"
| "plan_filters p = concat (map plan_filters (GetChildren p))"

lemma Logic_cases:
  assumes "length es = (if op = LogicNot then 1 else 2)"
  obtains a where "op = LogicNot" "es = [a]" | a b where "op \<noteq> LogicNot" "es = [a, b]"
  using assms by (cases es rule: list.exhaust; cases "tl es"; cases op) auto

lemma Logic_Compute_value: "Logic_Compute op l r = Inr v \<Longrightarrow> IsNull v \<or> v_type v = TBOOL"
  by (cases op; cases "v_type l") (auto simp: Logic_Compute_def rbind_eq_Inr_iff Value_null_def Value_bool_def IsNull_def split: if_splits)

lemma Value_Not_value: "Value_Not u = Inr v \<Longrightarrow> v_type v = TBOOL"
  by (cases "v_type u") (auto simp: Value_Not_def Value_bool_def)

lemma predicate_value:
  assumes "predicate_expr e" "Evaluate env e x = Inr v"
  shows "IsNull v \<or> v_type v = TBOOL"
proof (cases e)
  case (Comparison op l r)
  then show ?thesis using assms(2)
    by (auto simp: rbind_eq_Inr_iff Comparison_Compute_def Value_bool_def Value_null_def IsNull_def split: if_splits vtype.splits)
next
  case (Logic op es)
  then have "length es = (if op = LogicNot then 1 else 2)" using assms(1) by simp
  then show ?thesis
    by (cases rule: Logic_cases; use Logic assms(2) in \<open>auto simp: rbind_eq_Inr_iff dest!: Logic_Compute_value Value_Not_value\<close>)
next
  case (NullTest n a)
  then show ?thesis using assms(2) by (auto simp: rbind_eq_Inr_iff Value_bool_def)
qed (use assms in auto)

text \<open>A conjunction that can be decided: both operands can, and it holds when both do.\<close>

lemma conjunction_decided:
  assumes p: "predicate_expr a" "predicate_expr b" and d: "decided env (Logic LogicAnd [a, b]) x"
  shows "decided env a x" "decided env b x"
    "holds_for env (Logic LogicAnd [a, b]) x \<longleftrightarrow> holds_for env a x \<and> holds_for env b x"
proof -
  obtain u v where uv: "Evaluate env a x = Inr u" "Evaluate env b x = Inr v"
    using d by (auto simp: decided_passes passes_def rbind_eq_Inr_iff)
  note t = predicate_value [OF p(1) uv(1)] predicate_value [OF p(2) uv(2)]
  show "decided env a x" "decided env b x"
    using uv t by (auto simp: decided_passes passes_def GetValue_bool_def)
  show "holds_for env (Logic LogicAnd [a, b]) x \<longleftrightarrow> holds_for env a x \<and> holds_for env b x"
    using uv t by (cases "IsNull u"; cases "IsNull v")
      (auto simp: holds_for_passes passes_def GetValue_bool_def Logic_Compute_def Value_null_def Value_bool_def IsNull_def v_bool_def)
qed

lemma filter_left_iff:
  "filter_left env e xs = Some ys \<longleftrightarrow> list_all (decided env e) xs \<and> length xs < ROW_FUEL \<and> ys = filter (holds_for env e) xs"
  by (auto simp: filter_left_def)

lemma filter_conjunction:
  assumes p: "predicate_expr a" "predicate_expr b" and f: "filter_left env (Logic LogicAnd [a, b]) xs = Some ys"
  shows "Option.bind (filter_left env a xs) (filter_left env b) = Some ys"
proof -
  have d: "\<forall>x \<in> set xs. decided env (Logic LogicAnd [a, b]) x" "length xs < ROW_FUEL" "ys = filter (holds_for env (Logic LogicAnd [a, b])) xs"
    using f by (auto simp: filter_left_iff list_all_iff)
  note c = conjunction_decided [OF p]
  have "ys = filter (holds_for env b) (filter (holds_for env a) xs)"
    using d(1,3) c(3) by (auto intro!: filter_cong)
  moreover have "length (filter (holds_for env a) xs) < ROW_FUEL" using d(2) length_filter_le le_less_trans by blast
  ultimately show ?thesis using d(1,2) c(1,2) by (auto simp: bind_eq_Some_conv filter_left_iff list_all_iff)
qed

lemma split_child_rows:
  assumes "\<forall>e \<in> set (plan_filters p). predicate_expr e" "plan_rows c T p = Some xs"
  shows "plan_rows c T (split_child p) = Some xs" "\<forall>e \<in> set (plan_filters (split_child p)). predicate_expr e"
proof -
  have "plan_rows c T (split_child p) = Some xs \<and> (\<forall>e \<in> set (plan_filters (split_child p)). predicate_expr e)"
  proof (cases "split_child p = p")
    case False
    then obtain cl q es where p: "p = FilterOperator cl q (Logic LogicAnd es)" "2 \<le> length es"
      by (auto simp: split_child_def split: Plan.splits Expr.splits LogicType.splits if_splits)
    have "predicate_expr (Logic LogicAnd es)" using assms(1) p(1) by simp
    then obtain a b where es: "es = [a, b]" "predicate_expr a" "predicate_expr b"
      by (cases es rule: list.exhaust; cases "tl es") auto
    have s: "split_child (FilterOperator cl q (Logic LogicAnd [a, b])) = FilterOperator cl (FilterOperator cl q a) b"
      by (simp add: split_child_def)
    obtain ys where ys: "plan_rows c T q = Some ys" "filter_left (qc_env c) (Logic LogicAnd [a, b]) ys = Some xs"
      using assms(2) p(1) es(1) by (auto simp: bind_eq_Some_conv)
    show ?thesis using filter_conjunction [OF es(2,3) ys(2)] ys(1) assms(1) es(2,3) unfolding p(1) es(1) s by simp
  qed (use assms in simp)
  then show "plan_rows c T (split_child p) = Some xs" "\<forall>e \<in> set (plan_filters (split_child p)). predicate_expr e" by simp_all
qed

lemma map_children_rows:
  assumes "\<And>q ys. q \<in> set (GetChildren p) \<Longrightarrow> plan_rows c T q = Some ys \<Longrightarrow> plan_rows c T (f q) = Some ys"
    and "plan_rows c T p = Some xs"
  shows "plan_rows c T (map_children f p) = Some xs"
  using assms by (cases p) (auto simp: bind_eq_Some_conv, blast?)

lemma child_filters: "q \<in> set (GetChildren p) \<Longrightarrow> set (plan_filters q) \<subseteq> set (plan_filters p)"
  by (cases p) auto

lemma split_plan_rows:
  "\<forall>e \<in> set (plan_filters p). predicate_expr e \<Longrightarrow> plan_rows c T p = Some xs \<Longrightarrow> plan_rows c T (split_plan p) = Some xs"
proof (induction p arbitrary: xs rule: split_plan.induct)
  case (1 p)
  show ?case
    unfolding split_plan.simps [of p]
  proof (rule map_children_rows [OF _ "1.prems"(2)])
    fix q ys assume q: "q \<in> set (GetChildren p)" "plan_rows c T q = Some ys"
    then have "\<forall>e \<in> set (plan_filters q). predicate_expr e" using child_filters "1.prems"(1) by blast
    note s = split_child_rows [OF this q(2)]
    show "plan_rows c T (split_plan (split_child q)) = Some ys" by (rule "1.IH" [OF q(1) s(2,1)])
  qed
qed

section \<open>Push down through a join\<close>

text \<open>A predicate on columns of the left child means the same on the joined record.\<close>

lemma Evaluate_left_part:
  assumes "r_values j = r_values l @ vs"
  shows "left_only (length (r_values l)) e \<Longrightarrow> Evaluate env e j = Evaluate env e l"
proof (induction e)
  case (ColumnValue i t name sz is_left)
  then show ?case using assms by (auto simp: Record_GetValue_def nth_append)
next
  case (FuncCall f es)
  then show ?case by (cases es) simp_all
next
  case (ListExpr es)
  then have "rmap (\<lambda>e. Evaluate env e j) es = rmap (\<lambda>e. Evaluate env e l) es"
    by (intro rmap_cong) (auto simp: list_all_iff)
  then show ?case by simp
next
  case (Logic op es)
  then show ?case by (cases es rule: list.exhaust; cases "tl es") auto
qed simp_all

lemma product_filter: "List.product (filter P xs) ys = filter (\<lambda>p. P (fst p)) (List.product xs ys)"
  by (induction xs) (simp_all add: filter_map comp_def)

lemma join_rows_filter:
  assumes e: "\<forall>p \<in> set ps. left_only (length (r_values (fst p))) e"
  shows "join_rows env condition ps = Inr js \<Longrightarrow> rmap copy_record js = Inr zs \<Longrightarrow>
     \<exists>js'. join_rows env condition (filter (\<lambda>p. holds_for env e (fst p)) ps) = Inr js' \<and>
       rmap copy_record js' = Inr (filter (holds_for env e) zs)"
  using e
proof (induction ps arbitrary: js zs)
  case (Cons p ps)
  obtain ok where ok: "join_true env condition (fst p) (snd p) = Inr ok" using Cons.prems(1) by (auto simp: rbind_eq_Inr_iff)
  show ?case
  proof (cases ok)
    case False
    then show ?thesis using Cons ok by auto
  next
    case True
    obtain j js1 where j: "Record_Append (fst p) (snd p) = Inr j" "join_rows env condition ps = Inr js1" "js = j # js1"
      using Cons.prems(1) ok True by (auto simp: rbind_eq_Inr_iff)
    obtain z zs1 where z: "copy_record j = Inr z" "rmap copy_record js1 = Inr zs1" "zs = z # zs1"
      using Cons.prems(2) j(3) by (auto simp: rbind_eq_Inr_iff)
    have "r_values z = r_values (fst p) @ r_values (snd p)" using Record_Append_values [OF j(1)] copy_record_fields [OF z(1)] by simp
    then have h: "holds_for env e z \<longleftrightarrow> holds_for env e (fst p)"
      using Cons.prems(3) Evaluate_left_part by (simp add: holds_for_passes passes_def)
    obtain js' where "join_rows env condition (filter (\<lambda>p. holds_for env e (fst p)) ps) = Inr js'"
      "rmap copy_record js' = Inr (filter (holds_for env e) zs1)"
      using Cons.IH [OF j(2) z(2)] Cons.prems(3) by auto
    then show ?thesis using ok True j z h by simp
  qed
qed simp

lemma joined_rows_filter:
  assumes "joined_rows (nested_join env condition) xs ys = Some zs" "\<forall>x \<in> set xs. left_only (length (r_values x)) e"
  shows "joined_rows (nested_join env condition) (filter (holds_for env e) xs) ys = Some (filter (holds_for env e) zs)"
proof -
  obtain js where js: "join_rows env condition (List.product xs ys) = Inr js" "rmap copy_record js = Inr zs"
    "length xs < ROW_FUEL" "length ys < ROW_FUEL" "length zs < CNT_END"
    using assms(1) by (auto simp: joined_rows_def nested_join_def buffered_iff rbind_eq_Inr_iff split: if_splits)
  have "\<forall>p \<in> set (List.product xs ys). left_only (length (r_values (fst p))) e" using assms(2) by auto
  from join_rows_filter [OF this js(1,2)] show ?thesis
    using js(3,4) le_less_trans [OF length_filter_le js(3)] le_less_trans [OF length_filter_le js(5)]
    by (auto simp: joined_rows_def nested_join_def product_filter buffered_iff)
qed

text \<open>The optimizer on a comparison of a column with an expression that is not a column.\<close>

definition simple_predicate :: "fmt_env \<Rightarrow> string \<Rightarrow> Expr \<Rightarrow> bool" where
  "simple_predicate fm table_name e \<longleftrightarrow>
     (\<exists>op i t name sz lft k s. e = Comparison op (ColumnValue i t name sz lft) k \<and> \<not> is_column k \<and>
        Expr_ToString fm k = Inr s \<and> table_prefix name = table_name)"

text \<open>A comparison of two columns of a join, as the planner builds it for a \<^verbatim>\<open>WHERE\<close> over the join.\<close>

definition join_comparison :: "ComparisonType \<Rightarrow> nat \<Rightarrow> nat \<Rightarrow> string \<Rightarrow> string \<Rightarrow> vtype \<Rightarrow> nat \<Rightarrow> Expr" where
  "join_comparison op i j n m t sz = Comparison op (ColumnValue i t n sz True) (ColumnValue j t m sz True)"

text \<open>A plan without filters stays as it is.\<close>

lemma map_children_id: "(\<And>c. c \<in> set (GetChildren p) \<Longrightarrow> f c = c) \<Longrightarrow> map_children f p = p"
  by (cases p) simp_all

lemma child_no_filter: "plan_filters p = [] \<Longrightarrow> c \<in> set (GetChildren p) \<Longrightarrow> plan_filters c = [] \<and> split_child c = c"
  by (cases p; cases c) (auto simp: split_child_def)

lemma split_no_filter: "plan_filters p = [] \<Longrightarrow> split_plan p = p"
proof (induction p rule: split_plan.induct)
  case (1 p)
  then show ?case
    using child_no_filter [OF 1(2)] by (subst split_plan.simps) (rule map_children_id, simp)
qed

lemma push_no_filter: "plan_filters p = [] \<Longrightarrow> predicates s = [] \<Longrightarrow> PushDown fm p s = (Inr p, s)"
proof (induction fm p arbitrary: s rule: PushDown.induct)
qed (simp_all add: ebind_def SplitPredicates_def split_no_filter)

lemma Optimize_no_filter: "plan_filters p = [] \<Longrightarrow> Optimize fm p = Inr p"
  by (simp add: Optimize_def SplitPredicates_def split_no_filter push_no_filter Optimizer_new_def predicates_def)

section \<open>Properties\<close>

text \<open>
  C32. Splitting keeps the meaning of a query: when every filter of a plan has a predicate as the
  planner builds them and the rows of the plan are defined, the plan with its conjunctions split into
  chains of filters has the same rows in the same order.
\<close>

theorem split_keeps_rows:
  assumes "\<forall>e \<in> set (plan_filters p). predicate_expr e" "plan_rows c T p = Some xs"
  shows "plan_rows c T (SplitPredicates p) = Some xs"
  unfolding SplitPredicates_def by (rule split_plan_rows [OF assms])

text \<open>
  C33. A query over the join of two tables with one comparison on the left table is optimised to filter
  that table before the join, and returns the same rows when the comparison can be decided on the rows
  of the table.
\<close>

theorem push_down_left:
  assumes l: "l = SeqScanOperator lc lo ln la lk" and r: "r = SeqScanOperator rc ro rn ra rk"
    and e: "simple_predicate fm (GetTableNameOrAlias ln la) e" "GetTableNameOrAlias rn ra \<noteq> GetTableNameOrAlias ln la"
    and left: "\<forall>x \<in> set xs. left_only (length (r_values x)) e \<and> decided (qc_env c) e x" "T lo = Some xs"
    and rows: "plan_rows c T (ProjectionOperator pc (FilterOperator fc (NestedLoopJoinOperator jc l r condition ty) e) es) = Some zs"
  shows "Optimize fm (ProjectionOperator pc (FilterOperator fc (NestedLoopJoinOperator jc l r condition ty) e) es) =
       Inr (ProjectionOperator pc (NestedLoopJoinOperator jc (FilterOperator lc l e) r condition ty) es) \<and>
     plan_rows c T (ProjectionOperator pc (NestedLoopJoinOperator jc (FilterOperator lc l e) r condition ty) es) = Some zs"
proof (rule conjI)
  obtain op i t name sz lft k s where k: "e = Comparison op (ColumnValue i t name sz lft) k" "\<not> is_column k"
    "Expr_ToString fm k = Inr s" "table_prefix name = GetTableNameOrAlias ln la"
    using e(1) unfolding simple_predicate_def by blast
  then show "Optimize fm (ProjectionOperator pc (FilterOperator fc (NestedLoopJoinOperator jc l r condition ty) e) es) =
       Inr (ProjectionOperator pc (NestedLoopJoinOperator jc (FilterOperator lc l e) r condition ty) es)"
    using e(2) by (simp add: Optimize_def SplitPredicates_def split_child_def l r
        note_predicate_def Optimizer_new_def predicates_def ebind_def expr_child_def)
  obtain ys js zs' where j: "T ro = Some ys" "joined_rows (nested_join (qc_env c) condition) xs ys = Some js"
    "filter_left (qc_env c) e js = Some zs'" "project_left (qc_env c) es zs' = Some zs"
    using rows left(2) by (auto simp: bind_eq_Some_conv l r)
  have "length xs < ROW_FUEL" using j(2) by (simp add: joined_rows_def split: if_splits)
  then have "filter_left (qc_env c) e xs = Some (filter (holds_for (qc_env c) e) xs)"
    using left(1) by (simp add: filter_left_iff list_all_iff)
  moreover have "joined_rows (nested_join (qc_env c) condition) (filter (holds_for (qc_env c) e) xs) ys = Some zs'"
    using joined_rows_filter [OF j(2)] left(1) j(3) by (simp add: filter_left_iff)
  ultimately show "plan_rows c T (ProjectionOperator pc (NestedLoopJoinOperator jc (FilterOperator lc l e) r condition ty) es) = Some zs"
    using j(1,4) left(2) by (simp add: l r)
qed

text \<open>
  C34. Of two comparisons on columns of one table, joined by \<^verbatim>\<open>AND\<close>, the optimizer keeps only the second:
  both filters are taken out of the plan because one of them was pushed down, and the scan takes the
  first predicate it finds.
\<close>

theorem conjunct_lost:
  assumes "scan = SeqScanOperator sc oid tn al lk"
    and "simple_predicate fm (GetTableNameOrAlias tn al) a" "simple_predicate fm (GetTableNameOrAlias tn al) b"
  shows "Optimize fm (ProjectionOperator pc (FilterOperator fc scan (Logic LogicAnd [a, b])) es) =
     Inr (ProjectionOperator pc (FilterOperator sc scan b) es)"
proof -
  obtain op i t name sz lft k s where k: "a = Comparison op (ColumnValue i t name sz lft) k" "\<not> is_column k"
    using assms(2) unfolding simple_predicate_def by blast
  obtain op' i' t' name' sz' lft' k' s' where k': "b = Comparison op' (ColumnValue i' t' name' sz' lft') k'" "\<not> is_column k'"
    "table_prefix name' = GetTableNameOrAlias tn al"
    using assms(3) unfolding simple_predicate_def by blast
  show ?thesis
    by (simp add: Optimize_def SplitPredicates_def split_child_def assms(1) k k'
        note_predicate_def Optimizer_new_def predicates_def ebind_def expr_child_def)
qed

text \<open>
  A comparison of columns of two joined tables in the \<^verbatim>\<open>WHERE\<close> clause becomes the condition of the
  join, with its column numbers as they were: they count the columns of the joined row, and both are
  read from the left record. The optimized query then fails on the first pair of rows with
  \<^verbatim>\<open>Column index out of range\<close>.
\<close>

theorem pushed_join_predicate_fails:
  assumes l: "l = SeqScanOperator lc lo ln la lk" and r: "r = SeqScanOperator rc ro rn ra rk"
    and names: "n \<in> set (map cd_name (cl_columns jc))" "m \<in> set (map cd_name (cl_columns jc))"
    and cols: "i < length (r_values x)" "length (r_values x) \<le> j"
  shows "Optimize fm (ProjectionOperator pc (FilterOperator fc (NestedLoopJoinOperator jc l r condition ty) (join_comparison op i j n m t sz)) es) =
       Inr (ProjectionOperator pc (NestedLoopJoinOperator jc l r (join_comparison op i j n m t sz) ty) es) \<and>
     nested_join env (join_comparison op i j n m t sz) (x # xs) (y # ys) = Inl (DbException ''Column index out of range'')"
proof
  show "Optimize fm (ProjectionOperator pc (FilterOperator fc (NestedLoopJoinOperator jc l r condition ty) (join_comparison op i j n m t sz)) es) =
       Inr (ProjectionOperator pc (NestedLoopJoinOperator jc l r (join_comparison op i j n m t sz) ty) es)"
    using names by (simp add: Optimize_def SplitPredicates_def split_child_def l r join_comparison_def
        note_predicate_def Optimizer_new_def predicates_def ebind_def expr_child_def)
  show "nested_join env (join_comparison op i j n m t sz) (x # xs) (y # ys) = Inl (DbException ''Column index out of range'')"
    using cols by (simp add: nested_join_def join_true_def join_comparison_def Record_GetValue_def)
qed

section \<open>Sample queries\<close>

definition sample_fmt :: fmt_env where
  "sample_fmt = \<lparr>fm_fp = no_fp, fm_list = concat\<rparr>"

definition sample_tables :: "oid_t \<Rightarrow> Record list option" where
  "sample_tables = [1 \<mapsto> [int_row 1, int_row 7], 2 \<mapsto> [int_row 7]]"

abbreviation sample_t :: "Expr Plan" where
  "sample_t \<equiv> SeqScanOperator ColumnList_empty 1 ''t'' None False"

abbreviation sample_u :: "Expr Plan" where
  "sample_u \<equiv> SeqScanOperator ColumnList_empty 2 ''u'' None False"

definition sample_compare :: "ComparisonType \<Rightarrow> 32 word \<Rightarrow> Expr" where
  "sample_compare op n = Comparison op (ColumnValue 0 TINT ''t.a'' 4 True) (Const (Value_int n))"

lemma sample_compare_passes:
  assumes "r_values x = Value_int m # vs"
  shows "passes env (sample_compare GREATER n) x = Inr (n <s m)" "passes env (sample_compare LESS n) x = Inr (m <s n)"
proof -
  have u: "ucast (ucast n :: 64 word) = n" for n :: "32 word" by (rule bit_word_eqI) (simp add: bit_simps)
  show "passes env (sample_compare GREATER n) x = Inr (n <s m)" "passes env (sample_compare LESS n) x = Inr (m <s n)"
    using assms by (simp_all add: u passes_def sample_compare_def Record_GetValue_def Comparison_Compute_def cmp_int_def
        DoOperation_cmp_def v_int_def v_bool_def Value_int_def Value_bool_def IsNull_def GetValue_bool_def word_sless_alt)
qed

lemma sample_int_row:
  "passes env (sample_compare GREATER n) (int_row m) = Inr (n <s m)" "passes env (sample_compare LESS n) (int_row m) = Inr (m <s n)"
  by (rule sample_compare_passes, simp)+

lemma passes_decides: "passes env e x = Inr b \<Longrightarrow> decided env e x" "passes env e x = Inr b \<Longrightarrow> holds_for env e x \<longleftrightarrow> b"
  unfolding decided_passes holds_for_passes by (blast, simp)

lemma sample_filter:
  "filter_left env (sample_compare GREATER 3) [int_row 1, int_row 7] = Some [int_row 7]"
  "filter_left env (sample_compare LESS 5) [int_row 1, int_row 7] = Some [int_row 1]"
  "filter_left env (sample_compare LESS 5) [int_row 7] = Some []"
  by (simp_all add: filter_left_def ROW_FUEL_def sample_int_row [THEN passes_decides(1)] sample_int_row [THEN passes_decides(2)] word_sless_alt)

lemma sample_simple: "simple_predicate sample_fmt ''t'' (sample_compare op n)"
  unfolding simple_predicate_def sample_compare_def
  by (intro exI conjI, rule refl) (simp_all add: is_column_def Value_int_def table_prefix_def)

lemma sample_project: "project_left env [] [] = Some []" "project_left env [sample_column] [int_row n] = Some [int_row n]"
  by (simp_all add: project_left_iff project_def evaluate_all_def sample_column_def Record_GetValue_def Record_new_int)

theorem split_keeps_rows_witness:
  "plan_rows sample_ctx sample_tables (SplitPredicates (ProjectionOperator ColumnList_empty
     (FilterOperator ColumnList_empty sample_t (Logic LogicAnd [sample_compare GREATER 3, sample_compare LESS 5])) [sample_column])) = Some []"
proof (rule split_keeps_rows)
  have nn: "\<not> v_is_null (Value_int n)" for n by (simp add: Value_int_def)
  have "Evaluate env (sample_compare op n) (int_row m) =
      rbind (cmp_int op m n) (\<lambda>b. Inr (Value_bool b))" if "op = GREATER \<or> op = LESS" for env op n m
    using that by (auto simp: nn sample_compare_def Record_GetValue_def Comparison_Compute_def IsNull_def GetValue_int_def)
  then have "passes env (Logic LogicAnd [sample_compare GREATER 3, sample_compare LESS 5]) (int_row n) = Inr (3 <s n \<and> n <s 5)" for env n
    by (simp add: passes_def Logic_Compute_def Value_bool_def IsNull_def GetValue_bool_def v_bool_def cmp_int_def DoOperation_cmp_def word_sless_alt)
  note p = this [THEN passes_decides(1)] this [THEN passes_decides(2)]
  have "filter_left env (Logic LogicAnd [sample_compare GREATER 3, sample_compare LESS 5]) [int_row 1, int_row 7] = Some []" for env
    using p by (simp add: filter_left_def ROW_FUEL_def word_sless_alt)
  then show "plan_rows sample_ctx sample_tables (ProjectionOperator ColumnList_empty
     (FilterOperator ColumnList_empty sample_t (Logic LogicAnd [sample_compare GREATER 3, sample_compare LESS 5])) [sample_column]) = Some []"
    by (simp add: sample_tables_def project_left_iff)
qed (simp add: sample_compare_def)

theorem conjunct_lost_witness:
  "Optimize sample_fmt (ProjectionOperator ColumnList_empty
     (FilterOperator ColumnList_empty sample_t (Logic LogicAnd [sample_compare GREATER 3, sample_compare LESS 5])) [sample_column]) =
     Inr (ProjectionOperator ColumnList_empty (FilterOperator ColumnList_empty sample_t (sample_compare LESS 5)) [sample_column]) \<and>
   plan_rows sample_ctx sample_tables
     (ProjectionOperator ColumnList_empty (FilterOperator ColumnList_empty sample_t (sample_compare LESS 5)) [sample_column]) = Some [int_row 1]"
proof
  show "Optimize sample_fmt (ProjectionOperator ColumnList_empty
     (FilterOperator ColumnList_empty sample_t (Logic LogicAnd [sample_compare GREATER 3, sample_compare LESS 5])) [sample_column]) =
     Inr (ProjectionOperator ColumnList_empty (FilterOperator ColumnList_empty sample_t (sample_compare LESS 5)) [sample_column])"
    by (rule conjunct_lost [OF refl]) (simp_all add: GetTableNameOrAlias_def sample_simple)
  show "plan_rows sample_ctx sample_tables
     (ProjectionOperator ColumnList_empty (FilterOperator ColumnList_empty sample_t (sample_compare LESS 5)) [sample_column]) = Some [int_row 1]"
    by (simp add: sample_tables_def sample_filter sample_project)
qed

lemma sample_joined:
  assumes "\<And>a b. join_true env condition (int_row a) (int_row b) = Inr True"
  obtains z1 z7 where "joined_rows (nested_join env condition) [int_row 1, int_row 7] [int_row 7] = Some [z1, z7]"
    "r_values z1 = [Value_int 1, Value_int 7]" "r_values z7 = [Value_int 7, Value_int 7]" "r_rid z1 = no_rid" "r_rid z7 = no_rid"
proof -
  obtain z1 z7 where z: "copy_record (sample_pair 1 7) = Inr z1" "copy_record (sample_pair 7 7) = Inr z7"
    "r_values z1 = [Value_int 1, Value_int 7]" "r_values z7 = [Value_int 7, Value_int 7]"
    using sample_pair(2) by blast
  have "r_rid z1 = no_rid" "r_rid z7 = no_rid"
    using copy_record_fields [OF z(1)] copy_record_fields [OF z(2)] Append_fields [OF sample_pair(1)] by simp_all
  then show thesis
    using that z assms by (simp add: joined_rows_def nested_join_def sample_pair(1) buffered_iff ROW_FUEL_def CNT_END_def)
qed

lemma sample_true_join: "join_true env sample_true x y = Inr True"
  by (simp add: join_true_def sample_true_def GetValue_bool_def Value_bool_def IsNull_def v_bool_def)

theorem push_down_left_witness:
  "plan_rows sample_ctx sample_tables (ProjectionOperator ColumnList_empty (NestedLoopJoinOperator ColumnList_empty
       (FilterOperator ColumnList_empty sample_t (sample_compare GREATER 3)) sample_u sample_true INNER) [sample_column]) = Some [int_row 7]"
proof -
  obtain z1 z7 where z: "joined_rows (nested_join sample_env sample_true) [int_row 1, int_row 7] [int_row 7] = Some [z1, z7]"
    "r_values z1 = [Value_int 1, Value_int 7]" "r_values z7 = [Value_int 7, Value_int 7]" "r_rid z7 = no_rid"
    by (rule sample_joined [OF sample_true_join])
  note p = sample_compare_passes(1) [OF z(2), of sample_env 3] sample_compare_passes(1) [OF z(3), of sample_env 3]
  have f: "filter_left sample_env (sample_compare GREATER 3) [z1, z7] = Some [z7]"
    using p [THEN passes_decides(1)] p [THEN passes_decides(2)] by (simp add: filter_left_def ROW_FUEL_def word_sless_alt)
  have pr: "project_left sample_env [sample_column] [z7] = Some [int_row 7]"
    using z(3,4) by (simp add: project_left_iff project_def evaluate_all_def sample_column_def Record_GetValue_def Record_new_int)
  have rows: "plan_rows sample_ctx sample_tables (ProjectionOperator ColumnList_empty (FilterOperator ColumnList_empty
      (NestedLoopJoinOperator ColumnList_empty sample_t sample_u sample_true INNER) (sample_compare GREATER 3)) [sample_column]) = Some [int_row 7]"
    using z(1) f pr by (simp add: sample_tables_def sample_ctx_def)
  have dec: "decided env (sample_compare GREATER 3) (int_row n)" for env n
    using sample_int_row(1) [THEN passes_decides(1)] .
  show ?thesis
    by (rule push_down_left [OF refl refl _ _ _ _ rows, of sample_fmt "[int_row 1, int_row 7]", THEN conjunct2])
      (simp_all add: GetTableNameOrAlias_def sample_simple sample_tables_def dec, simp_all add: sample_compare_def)
qed

definition sample_join_columns :: ColumnList where
  "sample_join_columns = ColumnList_new [\<lparr>cd_name = ''t.a'', cd_type = TINT, cd_max_size = 4\<rparr>,
     \<lparr>cd_name = ''u.b'', cd_type = TINT, cd_max_size = 4\<rparr>]"

theorem pushed_join_predicate_fails_witness:
  "Optimize sample_fmt (ProjectionOperator ColumnList_empty (FilterOperator ColumnList_empty
       (NestedLoopJoinOperator sample_join_columns sample_t sample_u sample_true INNER) (join_comparison EQUAL 0 1 ''t.a'' ''u.b'' TINT 4)) [sample_column]) =
     Inr (ProjectionOperator ColumnList_empty (NestedLoopJoinOperator sample_join_columns sample_t sample_u
       (join_comparison EQUAL 0 1 ''t.a'' ''u.b'' TINT 4) INNER) [sample_column]) \<and>
   plan_rows sample_ctx sample_tables (ProjectionOperator ColumnList_empty (NestedLoopJoinOperator sample_join_columns sample_t sample_u
       (join_comparison EQUAL 0 1 ''t.a'' ''u.b'' TINT 4) INNER) [sample_column]) = None"
proof -
  have names: "''t.a'' \<in> set (map cd_name (cl_columns sample_join_columns))" "''u.b'' \<in> set (map cd_name (cl_columns sample_join_columns))"
    by (simp_all add: sample_join_columns_def)
  have cols: "0 < length (r_values (int_row 1))" "length (r_values (int_row 1)) \<le> 1" by simp_all
  note p = pushed_join_predicate_fails [OF refl refl names cols]
  have "nested_join sample_env (join_comparison EQUAL 0 1 ''t.a'' ''u.b'' TINT 4) [int_row 1, int_row 7] [int_row 7] =
      Inl (DbException ''Column index out of range'')"
    by (rule p [THEN conjunct2])
  moreover note p [THEN conjunct1, of sample_fmt ColumnList_empty ColumnList_empty]
  ultimately show ?thesis
    by (simp add: sample_tables_def sample_ctx_def joined_rows_def buffered_def)
qed

end
