(* ===== verification/Printed_Statements.thy ===== *)
theory Printed_Statements
  imports Binder Optimizer
begin

text \<open>
  The printed form of operator trees (\<^verbatim>\<open>ToString\<close> of the classes in \<^verbatim>\<open>src/src/operators\<close>) and of bound statements
  (\<^verbatim>\<open>src/src/binder/statements\<close>, \<^verbatim>\<open>table_refs\<close>), which \<^verbatim>\<open>EXPLAIN\<close> writes. The formatting library prints lists
  (\<open>fm_list\<close>); a null pointer is printed as the empty string. The arguments of a call are evaluated before they are
  formatted, so an error of a child comes before one of the operator's own expression.
\<close>

section \<open>Operator trees\<close>

definition newline :: string where
  "newline = [CHR 0x0A]"

definition indent :: "nat \<Rightarrow> string" where
  "indent n = replicate (n * 2) CHR '' ''"

text \<open>An operator with one child, and one with two.\<close>

definition over_child :: "nat \<Rightarrow> string result \<Rightarrow> string result \<Rightarrow> string result" where
  "over_child n child title =
     rbind child (\<lambda>c. rbind title (\<lambda>t. Inr (indent n @ t @ newline @ c)))"

definition over_children :: "nat \<Rightarrow> string result \<Rightarrow> string result \<Rightarrow> string result \<Rightarrow> string result" where
  "over_children n left right title =
     rbind left (\<lambda>l. rbind right (\<lambda>r. rbind title (\<lambda>t. Inr (indent n @ t @ newline @ l @ newline @ r))))"

definition join_keys :: "fmt_env \<Rightarrow> string \<Rightarrow> Expr \<Rightarrow> Expr \<Rightarrow> string result" where
  "join_keys fm name left_key right_key =
     rbind (Expr_ToString fm left_key) (\<lambda>a. rbind (Expr_ToString fm right_key) (\<lambda>b.
       Inr (name @ '': left='' @ a @ '' right='' @ b)))"

primrec Plan_ToString :: "fmt_env \<Rightarrow> Expr Plan \<Rightarrow> nat \<Rightarrow> string result" where
  "Plan_ToString fm (AggregateOperator cl p gs as ds ts) n = over_child n (Plan_ToString fm p (Suc n)) (Inr ''Aggregate:'')"
| "Plan_ToString fm (DeleteOperator cl p oid) n = over_child n (Plan_ToString fm p (Suc n)) (Inr ''DeleteOperator:'')"
| "Plan_ToString fm (FilterOperator cl p e) n =
     over_child n (Plan_ToString fm p (Suc n)) (rbind (Expr_ToString fm e) (\<lambda>s. Inr (''Filter: '' @ s)))"
| "Plan_ToString fm (HashJoinOperator cl l r lk rk ty) n =
     over_children n (Plan_ToString fm l (Suc n)) (Plan_ToString fm r (Suc n)) (join_keys fm ''HashJoin'' lk rk)"
| "Plan_ToString fm (InsertOperator cl p cols oid) n = over_child n (Plan_ToString fm p (Suc n)) (Inr ''InsertOperator'')"
| "Plan_ToString fm (LimitOperator cl p k m) n = over_child n (Plan_ToString fm p (Suc n)) (Inr ''LimitOperator:'')"
| "Plan_ToString fm (LockRowsOperator cl p oid ty) n = over_child n (Plan_ToString fm p (Suc n)) (Inr ''LockRowsOperator:'')"
| "Plan_ToString fm (MergeJoinOperator cl l r lk rk ty) n =
     over_children n (Plan_ToString fm l (Suc n)) (Plan_ToString fm r (Suc n)) (join_keys fm ''MergeJoin'' lk rk)"
| "Plan_ToString fm (NestedLoopJoinOperator cl l r e ty) n =
     over_children n (Plan_ToString fm l (Suc n)) (Plan_ToString fm r (Suc n))
       (rbind (Expr_ToString fm e) (\<lambda>s. Inr (''NestedLoopJoin: '' @ s)))"
| "Plan_ToString fm (OrderByOperator cl p obs) n = over_child n (Plan_ToString fm p (Suc n)) (Inr ''Order:'')"
| "Plan_ToString fm (ProjectionOperator cl p es) n =
     over_child n (Plan_ToString fm p (Suc n))
       (rbind (rmap (Expr_ToString fm) es) (\<lambda>ss. Inr (''Projection: '' @ fm_list fm ss)))"
| "Plan_ToString fm (SeqScanOperator cl oid name alias lck) n =
     Inr (indent n @ ''SeqScan: '' @ name @ (case alias of Some a \<Rightarrow> '' '' @ a | None \<Rightarrow> []))"
| "Plan_ToString fm (UpdateOperator cl p oid es) n = over_child n (Plan_ToString fm p (Suc n)) (Inr ''UpdateOperator:'')"
| "Plan_ToString fm (ValuesOperator cl rows) n = Inr (indent n @ ''ValuesOperator'')"

section \<open>Tables and statements\<close>

definition JoinType_name :: "JoinType \<Rightarrow> string" where
  "JoinType_name ty = (case ty of INNER \<Rightarrow> ''inner'' | LEFT \<Rightarrow> ''left'' | RIGHT \<Rightarrow> ''right'' | FULL \<Rightarrow> ''full'')"

definition BaseTable_ToString :: "string \<Rightarrow> oid_t \<Rightarrow> string" where
  "BaseTable_ToString table oid = ''name='' @ table @ '', oid='' @ nat_to_string (unat oid)"

definition sides_ToString :: "string \<Rightarrow> string \<Rightarrow> string" where
  "sides_ToString l r = ''left=('' @ l @ ''), right=('' @ r @ '')''"

fun BTableRef_ToString :: "fmt_env \<Rightarrow> BTableRef \<Rightarrow> string result" where
  "BTableRef_ToString fm (BaseTableRef table alias oid cl) = Inr (BaseTable_ToString table oid)"
| "BTableRef_ToString fm (CrossJoinRef l r) =
     rbind (BTableRef_ToString fm l) (\<lambda>a. rbind (BTableRef_ToString fm r) (\<lambda>b. Inr (sides_ToString a b)))"
| "BTableRef_ToString fm EmptyTableRef = Inr ''<empty>''"
| "BTableRef_ToString fm (ExpressionListRef values) = Inr ''ExpressionListRef: values=''"
| "BTableRef_ToString fm (JoinRef ty l r condition) =
     rbind (BTableRef_ToString fm l) (\<lambda>a. rbind (BTableRef_ToString fm r) (\<lambda>b.
     rbind (BExpr_ToString fm condition) (\<lambda>c.
       Inr (sides_ToString a b @ '', type='' @ JoinType_name ty @ '', condition='' @ c))))"

definition opt_ToString :: "fmt_env \<Rightarrow> BExpr option \<Rightarrow> string result" where
  "opt_ToString fm e = (case e of None \<Rightarrow> Inr [] | Some e' \<Rightarrow> BExpr_ToString fm e')"

definition OrderByType_name :: "OrderByType \<Rightarrow> string" where
  "OrderByType_name ty = (case ty of DEFAULT \<Rightarrow> ''Default'' | ASC \<Rightarrow> ''Ascending'' | DESC \<Rightarrow> ''Descending'')"

definition OrderBy_ToString :: "fmt_env \<Rightarrow> OrderByType \<times> BExpr \<Rightarrow> string result" where
  "OrderBy_ToString fm ob =
     rbind (BExpr_ToString fm (snd ob)) (\<lambda>s. Inr (''(type='' @ OrderByType_name (fst ob) @ '', expr='' @ s @ '')''))"

definition SelectStatement_ToString :: "fmt_env \<Rightarrow> SelectStatement \<Rightarrow> string result" where
  "SelectStatement_ToString fm s =
     rbind (BTableRef_ToString fm (ss_table s)) (\<lambda>table.
     rbind (rmap (BExpr_ToString fm) (ss_select_list s)) (\<lambda>targets.
     rbind (opt_ToString fm (ss_where s)) (\<lambda>condition.
     rbind (rmap (OrderBy_ToString fm) (ss_order_by s)) (\<lambda>order_by.
     rbind (opt_ToString fm (ss_limit_count s)) (\<lambda>count.
     rbind (opt_ToString fm (ss_limit_offset s)) (\<lambda>offset.
       Inr (''SelectStatement:'' @ newline @ ''  table: '' @ table @ '','' @ newline @
            ''  select_list: '' @ fm_list fm targets @ '','' @ newline @ ''  where: '' @ condition @ '','' @ newline @
            ''  order_by: '' @ fm_list fm order_by @ '','' @ newline @ ''  limit: '' @ count @ '','' @ newline @
            ''  offset: '' @ offset @ '','' @ newline @
            ''  distinct: '' @ (if ss_distinct s then ''true'' else ''false'') @ newline)))))))"

definition base_ToString :: "BBaseTable \<Rightarrow> string" where
  "base_ToString t = (case t of (table, alias, oid, cl) \<Rightarrow> BaseTable_ToString table oid)"

definition opt_base_ToString :: "BBaseTable option \<Rightarrow> string" where
  "opt_base_ToString t = (case t of None \<Rightarrow> [] | Some t' \<Rightarrow> base_ToString t')"

definition BStatement_ToString :: "fmt_env \<Rightarrow> BStatement \<Rightarrow> string result" where
  "BStatement_ToString fm stmt =
     (case stmt of
        BInsert s \<Rightarrow> rbind (SelectStatement_ToString fm (is_select s)) (\<lambda>sel.
          Inr (''InsertStatement: table='' @ base_ToString (is_table s) @ '', select='' @ newline @ sel))
      | BDelete s \<Rightarrow> rbind (BExpr_ToString fm (ds_filter s)) (\<lambda>f.
          Inr (''DeleteStatement: table='' @ base_ToString (ds_table s) @ '' filter='' @ f))
      | BUpdate s \<Rightarrow> rbind (BExpr_ToString fm (us_filter s)) (\<lambda>f.
          Inr (''UpdateStatement: table='' @ base_ToString (us_table s) @ '', filter='' @ f @ newline))
      | BSelect s \<Rightarrow> SelectStatement_ToString fm s)"

definition TransactionType_name :: "TransactionType \<Rightarrow> string" where
  "TransactionType_name ty =
     (case ty of TransactionBegin \<Rightarrow> ''begin'' | TransactionCommit \<Rightarrow> ''commit'' | TransactionRollback \<Rightarrow> ''rollback'')"

definition TableLockType_name :: "TableLockType \<Rightarrow> string" where
  "TableLockType_name ty = (case ty of TableShare \<Rightarrow> ''share'' | TableExclusive \<Rightarrow> ''exclusive'')"

primrec Statement_ToString :: "fmt_env \<Rightarrow> Statement \<Rightarrow> string result" where
  "Statement_ToString fm (CreateDatabaseStatement db) = Inr (''CreateDatabaseStatement: database='' @ db @ newline)"
| "Statement_ToString fm (CreateTableStatement table columns) =
     rbind (rmap ColumnDefinition_ToString columns) (\<lambda>cs.
       Inr (''CreateTableStatement: table='' @ table @ '' columns='' @ fm_list fm cs @ newline))"
| "Statement_ToString fm (CreateIndexStatement index table columns) = Inr (''CreateIndexStatement: name='' @ index @ newline)"
| "Statement_ToString fm (DropDatabaseStatement db missing_ok) = Inr (''DropDatabaseStatement'' @ db @ newline)"
| "Statement_ToString fm (DropIndexStatement index missing_ok) = Inr (''DropIndexStatement: index_name='' @ index @ newline)"
| "Statement_ToString fm (DropTableStatement table missing_ok) = Inr (''DropTableStatement: table='' @ table @ newline)"
| "Statement_ToString fm (QueryStatement s) = BStatement_ToString fm s"
| "Statement_ToString fm (ExplainStatement s options) =
     rbind (Statement_ToString fm s) (\<lambda>str. Inr (''ExplainStatement:'' @ newline @ '' statement='' @ str @ newline))"
| "Statement_ToString fm (TransactionStatement ty) = Inr (''TransactionStatement: '' @ TransactionType_name ty @ newline)"
| "Statement_ToString fm CheckpointStatement = Inr (''CheckpointStatement'' @ newline)"
| "Statement_ToString fm (LockStatement table ty) =
     Inr (''LockStatement: '' @ base_ToString table @ '' '' @ TableLockType_name ty @ newline)"
| "Statement_ToString fm (VariableSetStatement variable val) =
     Inr (''VariableSetStatement: variable='' @ variable @ '', value='' @ val @ newline)"
| "Statement_ToString fm (VariableShowStatement variable) = Inr (''VariableShowStatement: variable: '' @ variable @ newline)"
| "Statement_ToString fm (VacuumStatement table) = Inr (''VacuumStatement: '' @ opt_base_ToString table @ newline)"
| "Statement_ToString fm (AnalyzeStatement table columns) = Inr (''AnalyzeStatement: '' @ opt_base_ToString table @ newline)"

end
