(* ===== verification/Result_Writers.thy ===== *)
theory Result_Writers
  imports Huadb_Prelude
begin

text \<open>
  \<^verbatim>\<open>src/src/common/result_writer.h\<close>: the calls through which the engine hands out a result, one value for each virtual
  function, and the two writers that print them into a stream. \<^verbatim>\<open>FortWriter\<close> hands the cells to a table library.
\<close>

datatype WriterEvent =
    BeginTable bool
  | BeginHeader
  | WriteHeaderCell string
  | EndHeader
  | BeginRow
  | WriteCell string
  | EndRow
  | EndTable
  | WriteRowCount nat

definition SimpleWriter_print :: "bool \<Rightarrow> string \<Rightarrow> WriterEvent \<Rightarrow> string" where
  "SimpleWriter_print disable_header separator ev =
     (case ev of
        WriteCell cell \<Rightarrow> cell @ separator
      | WriteHeaderCell cell \<Rightarrow> if disable_header then [] else cell @ separator
      | EndHeader \<Rightarrow> if disable_header then [] else [CHR 0x0A]
      | EndRow \<Rightarrow> [CHR 0x0A]
      | _ \<Rightarrow> [])"

definition SimpleWriter_stream :: "bool \<Rightarrow> string \<Rightarrow> WriterEvent list \<Rightarrow> string" where
  "SimpleWriter_stream disable_header separator evs = concat (map (SimpleWriter_print disable_header separator) evs)"

definition HtmlWriter_print :: "WriterEvent \<Rightarrow> string" where
  "HtmlWriter_print ev =
     (case ev of
        BeginTable simplified \<Rightarrow> ''<table>''
      | BeginHeader \<Rightarrow> ''<thead><tr>''
      | WriteHeaderCell cell \<Rightarrow> ''<td>'' @ cell @ ''</td>''
      | EndHeader \<Rightarrow> ''</tr></thead>''
      | BeginRow \<Rightarrow> ''<tr>''
      | WriteCell cell \<Rightarrow> ''<td>'' @ cell @ ''</td>''
      | EndRow \<Rightarrow> ''</tr>''
      | EndTable \<Rightarrow> ''</table>''
      | WriteRowCount count \<Rightarrow> ''('' @ nat_to_string count @ (if count = 1 then '' row)'' else '' rows)''))"

text \<open>The result of a command, of a query, and of a listing with a given header.\<close>

definition one_cell :: "string \<Rightarrow> WriterEvent list" where
  "one_cell str = [BeginTable True, BeginRow, WriteCell str, EndRow, EndTable]"

definition header_events :: "string list \<Rightarrow> WriterEvent list" where
  "header_events names = [BeginTable False, BeginHeader] @ map WriteHeaderCell names @ [EndHeader]"

definition row_events :: "string list \<Rightarrow> WriterEvent list" where
  "row_events cells = BeginRow # map WriteCell cells @ [EndRow]"

definition table_events :: "string list \<Rightarrow> string list list \<Rightarrow> WriterEvent list" where
  "table_events names rows =
     header_events names @ concat (map row_events rows) @ [EndTable, WriteRowCount (length rows)]"

end
