(* ===== verification/Planned_Queries.thy ===== *)
theory Planned_Queries
  imports Planner Optimizer
begin

text \<open>
  What the planner promises: an expression means the same before and after planning (\<open>sem\<close> evaluates a
  bound expression by the names of its columns), the names that the planner changes afterwards play no
  part in the execution, and the plan of a \<^verbatim>\<open>SELECT\<close> returns the rows of the statement.
\<close>

section \<open>Bound expressions by names\<close>

definition binary_ops :: "(string \<times> (eval_env \<Rightarrow> Val \<Rightarrow> Val \<Rightarrow> Val result)) list" where
  "binary_ops =
     [(''+'', \<lambda>env. Arithmetic_Compute (ev_fp env) ADD), (''-'', \<lambda>env. Arithmetic_Compute (ev_fp env) SUB),
      (''*'', \<lambda>env. Arithmetic_Compute (ev_fp env) MUL), (''/'', \<lambda>env. Arithmetic_Compute (ev_fp env) DIV),
      (''='', \<lambda>env. Comparison_Compute env EQUAL), (''!='', \<lambda>env. Comparison_Compute env NOT_EQUAL),
      (''<>'', \<lambda>env. Comparison_Compute env NOT_EQUAL), (''<'', \<lambda>env. Comparison_Compute env LESS),
      (''<='', \<lambda>env. Comparison_Compute env LESS_EQUAL), (''>'', \<lambda>env. Comparison_Compute env GREATER),
      (''>='', \<lambda>env. Comparison_Compute env GREATER_EQUAL), (''BETWEEN'', \<lambda>env. Comparison_Compute env BETWEEN),
      (''NOT BETWEEN'', \<lambda>env. Comparison_Compute env NOT_BETWEEN), (''~~'', \<lambda>env. Comparison_Compute env LIKE),
      (''!~~'', \<lambda>env. Comparison_Compute env NOT_LIKE), (''and'', \<lambda>env. Logic_Compute LogicAnd),
      (''or'', \<lambda>env. Logic_Compute LogicOr)]"

text \<open>With a list on the right, \<^verbatim>\<open>=\<close> and \<^verbatim>\<open><>\<close> are membership.\<close>

definition apply_op :: "eval_env \<Rightarrow> string \<Rightarrow> bool \<Rightarrow> Val \<Rightarrow> Val \<Rightarrow> Val result" where
  "apply_op env op in_list x y =
     (if in_list \<and> op = ''='' then Comparison_Compute env IN x y
      else if in_list \<and> (op = ''!='' \<or> op = ''<>'') then Comparison_Compute env NOT_IN x y
      else case map_of binary_ops op of Some f \<Rightarrow> f env x y | None \<Rightarrow> Inl (DbException ''unknown operator''))"

fun is_list_expr :: "BExpr \<Rightarrow> bool" where
  "is_list_expr (ListExpression es) = True"
| "is_list_expr (AliasExpression name e) = is_list_expr e"
| "is_list_expr _ = False"

fun sem :: "eval_env \<Rightarrow> (string \<Rightarrow> Val result) \<Rightarrow> BExpr \<Rightarrow> Val result" where
  "sem env col (ConstExpression v) = Inr v"
| "sem env col (UnaryOpExpression op e) = rbind (sem env col e) Value_Not"
| "sem env col (BinaryOpExpression op l r) =
     rbind (sem env col l) (\<lambda>x. rbind (sem env col r) (\<lambda>y. apply_op env op (is_list_expr r) x y))"
| "sem env col (ColumnRefExpression names) = col (join_dots names)"
| "sem env col (AliasExpression name e) = sem env col e"
| "sem env col (ListExpression es) = rbind (rmap (sem env col) es) (\<lambda>vs. Inr (Value_list vs))"
| "sem env col (TypeCastExpression t e) = rbind (sem env col e) (TypeCast_Compute t)"
| "sem env col (NullTestExpression is_null e) =
     rbind (sem env col e) (\<lambda>v. Inr (Value_bool (if is_null then IsNull v else \<not> IsNull v)))"
| "sem env col (FuncCallExpression f []) = FuncCall_Compute f no_child"
| "sem env col (FuncCallExpression f (e # es)) = FuncCall_Compute f (sem env col e)"
| "sem env col (AggregateExpression f dist args) = Inl (DbException ''aggregate'')"
| "sem env col StarExpression = Inl (DbException ''star'')"
| "sem env col NullExpression = Inl (Undefined ''null pointer dereferenced'')"

text \<open>The value of the one column of a record that has a given name.\<close>

definition named_value :: "ColumnList \<Rightarrow> Record \<Rightarrow> string \<Rightarrow> Val result" where
  "named_value cl x name =
     (case filter (\<lambda>(c, v). cd_name c = name) (zip (cl_columns cl) (r_values x)) of
        [(c, v)] \<Rightarrow> Inr v | _ \<Rightarrow> Inl (DbException ''no such column''))"

text \<open>Expressions that refer to these columns only.\<close>

fun refers_to :: "string set \<Rightarrow> BExpr \<Rightarrow> bool" where
  "refers_to C (ConstExpression v) = True"
| "refers_to C (UnaryOpExpression op e) = refers_to C e"
| "refers_to C (BinaryOpExpression op l r) = (refers_to C l \<and> refers_to C r)"
| "refers_to C (ColumnRefExpression names) = (join_dots names \<in> C)"
| "refers_to C (AliasExpression name e) = refers_to C e"
| "refers_to C (ListExpression es) = list_all (refers_to C) es"
| "refers_to C (TypeCastExpression t e) = refers_to C e"
| "refers_to C (NullTestExpression is_null e) = refers_to C e"
| "refers_to C (FuncCallExpression f es) = list_all (refers_to C) es"
| "refers_to C (AggregateExpression f dist args) = False"
| "refers_to C StarExpression = False"
| "refers_to C NullExpression = False"

definition column_names :: "ColumnList \<Rightarrow> string set" where
  "column_names cl = set (map cd_name (cl_columns cl))"

definition good_columns :: "ColumnList \<Rightarrow> bool" where
  "good_columns cl \<longleftrightarrow> index_ok cl \<and> distinct (map cd_name (cl_columns cl))"

definition fits_columns :: "ColumnList \<Rightarrow> Record \<Rightarrow> bool" where
  "fits_columns cl x \<longleftrightarrow> length (r_values x) = length (cl_columns cl)"

lemma filter_key_nth:
  "distinct (map f ps) \<Longrightarrow> i < length ps \<Longrightarrow> filter (\<lambda>p. f p = f (ps ! i)) ps = [ps ! i]"
proof (induction ps arbitrary: i)
  case (Cons p ps)
  then show ?case
  proof (cases i)
    case 0
    then have "filter (\<lambda>q. f q = f p) ps = []" using Cons.prems(1) by (auto simp: filter_empty_conv image_iff)
    then show ?thesis using 0 by simp
  next
    case (Suc j)
    then have "f p \<noteq> f (ps ! j)" using Cons.prems by auto
    then show ?thesis using Suc Cons by simp
  qed
qed simp

lemma named_value_at:
  assumes "distinct (map cd_name (cl_columns cl))" "fits_columns cl x" "i < length (cl_columns cl)"
  shows "named_value cl x (cd_name (cl_columns cl ! i)) = Inr (r_values x ! i)"
proof -
  let ?ps = "zip (cl_columns cl) (r_values x)" and ?f = "\<lambda>(c, v). cd_name c"
  have i: "i < length ?ps" using assms(2,3) by (simp add: fits_columns_def)
  have "map ?f ?ps = map cd_name (map fst ?ps)" by (simp only: map_map comp_def case_prod_unfold)
  also have "\<dots> = map cd_name (cl_columns cl)" using assms(2) by (simp add: fits_columns_def)
  finally have "distinct (map ?f ?ps)" using assms(1) by (simp only:)
  from filter_key_nth [OF this i] show ?thesis
    using i assms by (simp add: named_value_def fits_columns_def case_prod_unfold)
qed

text \<open>The planner finds a column by the index of its name.\<close>

lemma column_found:
  assumes "good_columns cl" "fits_columns cl x" "name \<in> column_names cl"
  obtains i where "TryGetColumnIndex name cl = Some i" "i < length (cl_columns cl)" "cd_name (cl_columns cl ! i) = name"
    "Record_GetValue i x = named_value cl x name"
proof -
  obtain i where i: "i < length (cl_columns cl)" "name = cd_name (cl_columns cl ! i)"
    using assms(3) by (auto simp: column_names_def in_set_conv_nth)
  have "TryGetColumnIndex name cl = Some i"
    using index_ok_lookup [of cl i] assms(1) i by (simp add: good_columns_def)
  moreover have "Record_GetValue i x = named_value cl x name"
    using named_value_at [of cl x i] assms i by (simp add: good_columns_def Record_GetValue_def fits_columns_def)
  ultimately show thesis using that i by simp
qed

section \<open>Planned expressions\<close>

lemma emap_all2:
  assumes "\<And>x s y t. x \<in> set xs \<Longrightarrow> f x s = (Inr y, t) \<Longrightarrow> P x y"
  shows "emap f xs s = (Inr ys, t) \<Longrightarrow> list_all2 P xs ys"
  using assms
proof (induction xs arbitrary: s ys)
  case (Cons x xs)
  obtain y u zs where "f x s = (Inr y, u)" "emap f xs u = (Inr zs, t)" "ys = y # zs"
    using Cons.prems(1) by (auto simp: ebind_eq_Inr_iff eret_def)
  then show ?case using Cons by auto
qed (simp add: eret_def)

lemma BinaryFactory_known: "BinaryFactory op l r st = (Inr q, st') \<Longrightarrow> op \<in> set (map fst binary_ops)"
  by (rule ccontr) (simp add: BinaryFactory_def binary_ops_def ethrow_def)

lemma BinaryFactory_Inr:
  assumes "BinaryFactory op l r st = (Inr (p, a), st')"
  shows "\<not> p_list p \<and> Evaluate env (expr_of ns p) x =
    rbind (Evaluate env (expr_of ns (fst l)) x) (\<lambda>v. rbind (Evaluate env (expr_of ns (fst r)) x) (\<lambda>w. apply_op env op (p_list (fst r)) v w))"
proof -
  have "op \<in> set (map fst binary_ops)" by (rule BinaryFactory_known [OF assms])
  then show ?thesis
    using assms unfolding binary_ops_def list.map set_simps insert_iff empty_iff fst_conv
    by (elim disjE; simp add: BinaryFactory_def new_object_def apply_op_def binary_ops_def Let_def split: if_splits; (elim conjE; hypsubst; simp))
qed

lemma plan_alias_Inr: "plan_alias fm name q st = (Inr q', st') \<Longrightarrow> q' = q"
  by (auto simp: plan_alias_def ebind_eq_Inr_iff eret_def)

lemma rmap_all2:
  assumes "list_all2 (\<lambda>x y. f y = g x) xs ys"
  shows "rmap f ys = rmap g xs"
  using assms by (induction xs ys rule: list_all2_induct) simp_all

text \<open>The meaning of a planned expression, whatever the names are.\<close>

definition means :: "eval_env \<Rightarrow> ColumnList \<Rightarrow> Record \<Rightarrow> BExpr \<Rightarrow> PExpr \<Rightarrow> bool" where
  "means env cl x e p \<longleftrightarrow> p_list p = is_list_expr e \<and> (\<forall>ns. Evaluate env (expr_of ns p) x = sem env (named_value cl x) e)"

lemma PlanColumnRef_at:
  "TryGetColumnIndex (join_dots names) cl = Some i \<Longrightarrow> i < length (cl_columns cl) \<Longrightarrow>
   PlanColumnRef names [cl] st = new_object (join_dots names)
     (\<lambda>a. PColumn i (cd_type (cl_columns cl ! i)) a (unat (cd_max_size (cl_columns cl ! i))) True) st"
  by (simp add: PlanColumnRef_def GetColumn_def ebind_def elift_def Let_def)

lemma PlanColumnRef_means:
  assumes "good_columns cl" "fits_columns cl x" "join_dots names \<in> column_names cl"
    and "PlanColumnRef names [cl] st = (Inr (p, a), st')"
  shows "means env cl x (ColumnRefExpression names) p"
proof -
  obtain i where i: "TryGetColumnIndex (join_dots names) cl = Some i" "i < length (cl_columns cl)"
    "cd_name (cl_columns cl ! i) = join_dots names" "Record_GetValue i x = named_value cl x (join_dots names)"
    by (rule column_found [OF assms(1-3)])
  then show ?thesis using assms(4) PlanColumnRef_at [OF i(1,2)] by (auto simp: new_object_def Let_def means_def)
qed

lemma planned_means:
  assumes cl: "good_columns cl" "fits_columns cl x"
  shows "refers_to (column_names cl) e \<Longrightarrow> PlanExpression fm e [cl] st = (Inr (p, a), st') \<Longrightarrow> means env cl x e p"
proof (induction e arbitrary: st st' p a)
  case (ColumnRefExpression names)
  then show ?case using PlanColumnRef_means [OF cl] by simp
next
  case (AliasExpression name e)
  then obtain q u where "PlanExpression fm e [cl] st = (Inr q, u)" "plan_alias fm name q u = (Inr (p, a), st')"
    by (auto simp: ebind_eq_Inr_iff)
  moreover have "q = (p, a)" using plan_alias_Inr [OF calculation(2)] by simp
  ultimately have "means env cl x e p" using AliasExpression.IH [of st p a u] AliasExpression.prems(1) by simp
  then show ?case by (simp add: means_def)
next
  case (BinaryOpExpression op l r)
  then obtain l' r' u v where s: "PlanExpression fm l [cl] st = (Inr l', u)" "PlanExpression fm r [cl] u = (Inr r', v)"
    "BinaryFactory op l' r' v = (Inr (p, a), st')"
    by (auto simp: ebind_eq_Inr_iff)
  have "means env cl x l (fst l')" "means env cl x r (fst r')"
    using BinaryOpExpression.IH(1) [of st "fst l'" "snd l'" u] BinaryOpExpression.IH(2) [of u "fst r'" "snd r'" v]
      BinaryOpExpression.prems(1) s by simp_all
  then show ?case using BinaryFactory_Inr [OF s(3)] by (simp add: means_def)
next
  case (FuncCallExpression f es)
  then obtain ps u v where s: "emap (\<lambda>e. PlanExpression fm e [cl]) es st = (Inr ps, u)" "p = PFuncCall f (map fst ps)"
    by (auto simp: ebind_eq_Inr_iff new_object_def Let_def)
  have "list_all2 (\<lambda>e q. means env cl x e (fst q)) es ps"
  proof (rule emap_all2 [OF _ s(1)])
    show "means env cl x e (fst q)" if "e \<in> set es" "PlanExpression fm e [cl] v = (Inr q, w)" for e v q w
      using FuncCallExpression.IH [OF that(1), of v "fst q" "snd q" w] FuncCallExpression.prems(1) that by (simp add: list_all_iff)
  qed
  then show ?case using s(2) by (cases es; cases ps) (auto simp: means_def)
next
  case (ListExpression es)
  then obtain ps u where s: "emap (\<lambda>e. PlanExpression fm e [cl]) es st = (Inr ps, u)" "p = PList (map fst ps)"
    by (auto simp: ebind_eq_Inr_iff new_object_def Let_def)
  have a2: "list_all2 (\<lambda>e q. means env cl x e (fst q)) es ps"
  proof (rule emap_all2 [OF _ s(1)])
    show "means env cl x e (fst q)" if "e \<in> set es" "PlanExpression fm e [cl] v = (Inr q, w)" for e v q w
      using ListExpression.IH [OF that(1), of v "fst q" "snd q" w] ListExpression.prems(1) that by (simp add: list_all_iff)
  qed
  have "rmap (\<lambda>q. Evaluate env (expr_of ns (fst q)) x) ps = rmap (sem env (named_value cl x)) es" for ns
    by (rule rmap_all2, rule list_all2_mono [OF a2]) (simp add: means_def)
  then show ?case using s(2) by (simp add: means_def comp_def)
next
  case (UnaryOpExpression op e)
  then obtain q u where s: "PlanExpression fm e [cl] st = (Inr q, u)" "p = PLogic LogicNot [fst q]"
    by (auto simp: ebind_eq_Inr_iff new_object_def Let_def ethrow_def split: if_splits)
  then have "means env cl x e (fst q)"
    using UnaryOpExpression.IH [of st "fst q" "snd q" u] UnaryOpExpression.prems(1) by simp
  then show ?case using s(2) by (simp add: means_def)
next
  case (NullTestExpression is_null e)
  then obtain q u where s: "PlanExpression fm e [cl] st = (Inr q, u)" "p = PNullTest is_null (fst q)"
    by (auto simp: ebind_eq_Inr_iff new_object_def Let_def)
  then have "means env cl x e (fst q)"
    using NullTestExpression.IH [of st "fst q" "snd q" u] NullTestExpression.prems(1) by simp
  then show ?case using s(2) by (simp add: means_def)
next
  case (TypeCastExpression t e)
  then obtain q u where s: "PlanExpression fm e [cl] st = (Inr q, u)" "p = PTypeCast t (fst q)"
    by (auto simp: ebind_eq_Inr_iff new_object_def Let_def)
  then have "means env cl x e (fst q)"
    using TypeCastExpression.IH [of st "fst q" "snd q" u] TypeCastExpression.prems(1) by simp
  then show ?case using s(2) by (simp add: means_def)
next
  case (ConstExpression v)
  then show ?case by (auto simp: new_object_def Let_def means_def)
qed simp_all

section \<open>Names are not read\<close>

lemma Evaluate_names: "Evaluate env (expr_of ns e) x = Evaluate env (expr_of ns' e) x"
proof (induction e)
  case (PFuncCall f args)
  then show ?case by (cases args) simp_all
next
  case (PList es)
  then show ?case by (simp cong: rmap_cong)
next
  case (PLogic op es)
  show ?case
  proof (cases es rule: remdups_adj.cases)
    case 1
    then show ?thesis by simp
  next
    case (2 a)
    then show ?thesis using PLogic [of a] by simp
  next
    case (3 a b cs)
    then show ?thesis using PLogic [of a] PLogic [of b] by simp
  qed
qed simp_all

lemma EvaluateJoin_names: "EvaluateJoin env (expr_of ns e) x y = EvaluateJoin env (expr_of ns' e) x y"
proof (induction e)
  case (PFuncCall f args)
  then show ?case by (cases args) simp_all
next
  case (PList es)
  then show ?case by (simp add: Evaluate_names [of env ns _ x ns'])
next
  case (PLogic op es)
  show ?case
  proof (cases es rule: remdups_adj.cases)
    case 1
    then show ?thesis by simp
  next
    case (2 a)
    then show ?thesis using PLogic [of a] by (simp add: Evaluate_names [of env ns _ x ns'])
  next
    case (3 a b cs)
    then show ?thesis using PLogic [of a] PLogic [of b] by (simp add: Evaluate_names [of env ns _ x ns'])
  qed
qed (simp_all add: Evaluate_names [of env ns _ x ns'])

lemma Evaluate_null_names: "Evaluate_null env (expr_of ns e) = Evaluate_null env (expr_of ns' e)"
proof (induction e)
  case (PFuncCall f args)
  then show ?case by (cases args) simp_all
next
  case (PList es)
  then show ?case by (simp cong: rmap_cong)
next
  case (PLogic op es)
  show ?case
  proof (cases es rule: remdups_adj.cases)
    case 1
    then show ?thesis by simp
  next
    case (2 a)
    then show ?thesis using PLogic [of a] by simp
  next
    case (3 a b cs)
    then show ?thesis using PLogic [of a] PLogic [of b] by simp
  qed
qed simp_all

text \<open>Two expressions that evaluate alike, on one record, on two, and on none.\<close>

definition alike :: "eval_env \<Rightarrow> Expr \<Rightarrow> Expr \<Rightarrow> bool" where
  "alike env e e' \<longleftrightarrow> Evaluate env e = Evaluate env e' \<and> EvaluateJoin env e = EvaluateJoin env e' \<and>
     Evaluate_null env e = Evaluate_null env e'"

lemma alike_names: "alike env (expr_of ns e) (expr_of ns' e)"
  unfolding alike_def using Evaluate_names EvaluateJoin_names Evaluate_null_names by blast

lemma filter_left_alike:
  assumes "alike env e e'"
  shows "filter_left env e = filter_left env e'"
proof -
  have "passes env e = passes env e'" using assms by (simp add: fun_eq_iff passes_def alike_def)
  then have "decided env e = decided env e'" "holds_for env e = holds_for env e'"
    by (simp_all add: fun_eq_iff decided_passes holds_for_passes)
  then show ?thesis unfolding filter_left_def [abs_def] by (simp cong: if_cong)
qed

lemma evaluate_all_alike: "list_all2 (alike env) es es' \<Longrightarrow> evaluate_all env es x = evaluate_all env es' x"
  unfolding evaluate_all_def by (induction rule: list_all2_induct) (simp_all add: alike_def)

lemma project_left_alike:
  assumes "list_all2 (alike env) es es'"
  shows "project_left env es = project_left env es'"
proof -
  have "project env es = project env es'" using evaluate_all_alike [OF assms] by (simp add: fun_eq_iff project_def)
  then show ?thesis unfolding project_left_def by simp
qed

lemma values_row_alike:
  assumes "list_all2 (alike env) es es'"
  shows "values_row env es = values_row env es'"
proof -
  have "rmap (Evaluate_null env) es = rmap (Evaluate_null env) es'"
    using assms by (induction rule: list_all2_induct) (simp_all add: alike_def)
  then show ?thesis by (simp add: values_row_def)
qed

lemma nested_join_alike:
  assumes "alike env e e'"
  shows "nested_join env e = nested_join env e'"
proof -
  have "join_true env e = join_true env e'" using assms by (simp add: fun_eq_iff join_true_def alike_def)
  then have "join_rows env e ps = join_rows env e' ps" for ps by (induction ps) (simp_all cong: if_cong)
  then show ?thesis by (simp add: fun_eq_iff nested_join_def)
qed

lemma merge_join_alike:
  assumes "alike env lk lk'" "alike env rk rk'"
  shows "merge_join env lk rk = merge_join env lk' rk'"
proof -
  have k: "key_cmp env cmp lk rk = key_cmp env cmp lk' rk'" for cmp
    using assms by (simp add: fun_eq_iff key_cmp_def alike_def)
  have r: "mj_skip_right env lk rk x ys = mj_skip_right env lk' rk' x ys" for x ys by (induction ys) (simp_all add: k cong: if_cong)
  have l: "mj_skip_left env lk rk xs ys = mj_skip_left env lk' rk' xs ys" for xs ys by (induction xs; cases ys) (simp_all add: k cong: if_cong)
  have i: "mj_inner env lk rk x ys = mj_inner env lk' rk' x ys" for x ys by (induction ys) (simp_all add: k cong: if_cong)
  have m: "mj_match env lk rk xs ys sx = mj_match env lk' rk' xs ys sx" for xs ys sx
    by (induction xs arbitrary: sx; cases ys) (simp_all add: k i cong: if_cong)
  have "mj_loop env lk rk n xs ss = mj_loop env lk' rk' n xs ss" for n xs ss
    by (induction n arbitrary: xs ss) (simp_all add: k r l m cong: if_cong split: option.split list.split)
  then show ?thesis by (intro ext) (simp only: merge_join_def)
qed

lemma sorted_rows_alike:
  assumes "list_all2 (rel_prod (=) (alike (qc_env c))) obs obs'"
  shows "sorted_rows c obs = sorted_rows c obs'"
proof -
  have "map (order_cmp (qc_env c)) obs = map (order_cmp (qc_env c)) obs'"
    using assms by (induction rule: list_all2_induct) (auto simp: fun_eq_iff order_cmp_def alike_def cong: if_cong)
  then have m: "map (order_cmp (qc_env c)) (rev obs) = map (order_cmp (qc_env c)) (rev obs')" by (metis rev_map)
  have r: "rfold (\<lambda>ob. std_sort (order_cmp env ob)) xs = rfold std_sort (map (order_cmp env) xs)" for std_sort env xs
    by (induction xs) (simp_all add: fun_eq_iff [of "rfold _ (_ # _)"])
  have "sort_all (qc_env c) std_sort obs = sort_all (qc_env c) std_sort obs'" for std_sort
    unfolding sort_all_def r [of std_sort "qc_env c" "rev obs"] r [of std_sort "qc_env c" "rev obs'"] m ..
  then show ?thesis by (intro ext) (simp only: sorted_rows_def)
qed

lemma alike_map: "list_all2 (alike env) (map (expr_of ns) es) (map (expr_of ns') es)"
  by (simp add: list_all2_conv_all_nth alike_names)

text \<open>The rows of a plan do not depend on the names in its expressions.\<close>

lemma plan_rows_names: "plan_rows c T (plan_of ns p) = plan_rows c T (plan_of ns' p)"
proof (induction p)
  case (FilterOperator cl p e)
  then show ?case using filter_left_alike [OF alike_names [of "qc_env c" ns e ns']] by (simp add: plan_of_def)
next
  case (MergeJoinOperator cl l r lk rk ty)
  then show ?case
    using merge_join_alike [OF alike_names [of "qc_env c" ns lk ns'] alike_names [of "qc_env c" ns rk ns']]
    by (simp add: plan_of_def)
next
  case (NestedLoopJoinOperator cl l r e ty)
  then show ?case using nested_join_alike [OF alike_names [of "qc_env c" ns e ns']] by (simp add: plan_of_def)
next
  case (OrderByOperator cl p obs)
  have "list_all2 (rel_prod (=) (alike (qc_env c))) (map (map_prod id (expr_of ns)) obs) (map (map_prod id (expr_of ns')) obs)"
    by (simp add: list_all2_conv_all_nth rel_prod_conv alike_names case_prod_unfold)
  then show ?case using OrderByOperator sorted_rows_alike by (fastforce simp: plan_of_def id_def)
next
  case (ProjectionOperator cl p es)
  then show ?case using project_left_alike [OF alike_map [of "qc_env c" ns es ns']] by (simp add: plan_of_def)
next
  case (ValuesOperator cl rows)
  have "rmap (values_row (qc_env c)) (map (map (expr_of ns)) rows) = rmap (values_row (qc_env c)) (map (map (expr_of ns')) rows)"
    using values_row_alike [OF alike_map [of "qc_env c" ns _ ns']] by (simp cong: rmap_cong)
  then show ?case by (simp add: plan_of_def)
qed (simp_all add: plan_of_def)

section \<open>SELECT\<close>

text \<open>The rows of a \<^verbatim>\<open>SELECT\<close>, by the names of the columns.\<close>

definition satisfied :: "eval_env \<Rightarrow> ColumnList \<Rightarrow> BExpr \<Rightarrow> Record \<Rightarrow> bool result" where
  "satisfied env cl e x = rbind (sem env (named_value cl x) e) (\<lambda>v. if IsNull v then Inr False else GetValue_bool v)"

definition where_rows :: "eval_env \<Rightarrow> ColumnList \<Rightarrow> BExpr option \<Rightarrow> Record list \<Rightarrow> Record list option" where
  "where_rows env cl condition xs =
     (case condition of
        None \<Rightarrow> Some xs
      | Some e \<Rightarrow>
          if list_all (\<lambda>x. \<exists>b. satisfied env cl e x = Inr b) xs \<and> length xs < ROW_FUEL
          then Some (filter (\<lambda>x. satisfied env cl e x = Inr True) xs) else None)"

definition select_row :: "eval_env \<Rightarrow> ColumnList \<Rightarrow> BExpr list \<Rightarrow> Record \<Rightarrow> Record result" where
  "select_row env cl items x = rbind (rmap (sem env (named_value cl x)) items) (\<lambda>vs. Record_new vs (r_rid x))"

definition select_rows :: "eval_env \<Rightarrow> ColumnList \<Rightarrow> BExpr list \<Rightarrow> Record list \<Rightarrow> Record list option" where
  "select_rows env cl items xs = (case rmap (select_row env cl items) xs of Inl _ \<Rightarrow> None | Inr ys \<Rightarrow> Some ys)"

definition const_count :: "BExpr option \<Rightarrow> 32 word option" where
  "const_count e =
     (case e of Some (ConstExpression v) \<Rightarrow> (case GetValue_int v of Inr n \<Rightarrow> Some n | Inl _ \<Rightarrow> None) | _ \<Rightarrow> None)"

definition statement_rows :: "eval_env \<Rightarrow> ColumnList \<Rightarrow> SelectStatement \<Rightarrow> Record list \<Rightarrow> Record list option" where
  "statement_rows env cl stmt xs =
     Option.bind (where_rows env cl (ss_where stmt) xs) (\<lambda>ys.
     Option.bind (limit_rows (const_count (ss_limit_count stmt)) (const_count (ss_limit_offset stmt)) ys)
       (select_rows env cl (ss_select_list stmt)))"

text \<open>Without grouping, ordering, locks and \<^verbatim>\<open>DISTINCT\<close>, over the columns of the table.\<close>

definition const_or_none :: "BExpr option \<Rightarrow> bool" where
  "const_or_none e \<longleftrightarrow> (case e of None \<Rightarrow> True | Some e' \<Rightarrow> (\<exists>v. e' = ConstExpression v))"

definition plain_select :: "ColumnList \<Rightarrow> SelectStatement \<Rightarrow> bool" where
  "plain_select cl stmt \<longleftrightarrow>
     pred_option (refers_to (column_names cl)) (ss_where stmt) \<and> list_all (refers_to (column_names cl)) (ss_select_list stmt) \<and>
     ss_group_by stmt = [] \<and> ss_order_by stmt = [] \<and> const_or_none (ss_limit_count stmt) \<and> const_or_none (ss_limit_offset stmt) \<and>
     ss_lock_type stmt = NOLOCK \<and> \<not> ss_distinct stmt"

lemma refers_to_plain: "refers_to C e \<Longrightarrow> \<not> HasAggregation e"
  by (induction e) (auto simp: list_all_iff list_ex_iff)

lemma filter_means:
  assumes m: "\<And>x. x \<in> set xs \<Longrightarrow> means env cl x e p"
  shows "filter_left env (expr_of ns p) xs = where_rows env cl (Some e) xs"
proof -
  have p: "passes env (expr_of ns p) x = satisfied env cl e x" if "x \<in> set xs" for x
    using m [OF that] by (simp add: passes_def satisfied_def means_def)
  then have "list_all (decided env (expr_of ns p)) xs = list_all (\<lambda>x. \<exists>b. satisfied env cl e x = Inr b) xs"
    "filter (holds_for env (expr_of ns p)) xs = filter (\<lambda>x. satisfied env cl e x = Inr True) xs"
    by (simp_all add: decided_passes holds_for_passes list_all_iff cong: filter_cong)
  then show ?thesis by (simp add: filter_left_def where_rows_def)
qed

lemma project_means:
  assumes m: "\<And>x. x \<in> set xs \<Longrightarrow> list_all2 (means env cl x) items ps"
  shows "project_left env (map (expr_of ns) ps) xs = select_rows env cl items xs"
proof -
  have "project env (map (expr_of ns) ps) x = select_row env cl items x" if "x \<in> set xs" for x
  proof -
    have "rmap (\<lambda>p. Evaluate env (expr_of ns p) x) ps = rmap (sem env (named_value cl x)) items"
      by (rule rmap_all2, rule list_all2_mono [OF m [OF that]]) (simp add: means_def)
    then show ?thesis by (simp add: project_def evaluate_all_def select_row_def)
  qed
  then have "rmap (project env (map (expr_of ns) ps)) xs = rmap (select_row env cl items) xs" by (simp cong: rmap_cong)
  then show ?thesis by (simp only: project_left_def select_rows_def)
qed

text \<open>The steps of \<^verbatim>\<open>PlanSelect\<close>.\<close>

lemma plan_count_const:
  assumes "plan_count env fm cols msg e st = (Inr n, st')" "const_or_none e"
  shows "n = const_count e"
proof (cases e)
  case (Some e')
  then obtain v where v: "e' = ConstExpression v" using assms(2) by (auto simp: const_or_none_def)
  show ?thesis
    using assms(1) unfolding Some v
    by (auto simp: plan_count_def const_count_def ebind_eq_Inr_iff elift_def new_object_def Let_def ethrow_def eret_def
        split: if_splits)
qed (use assms in \<open>simp add: plan_count_def const_count_def eret_def\<close>)

lemma filter_plan_rows:
  assumes f: "filter_plan fm e tp st = (Inr q, st')" and cl: "good_columns (OutputColumns tp)"
    and e: "pred_option (refers_to (column_names (OutputColumns tp))) e"
    and rows: "plan_rows c T (plan_of ns tp) = Some xs" "\<forall>x \<in> set xs. fits_columns (OutputColumns tp) x"
  shows "OutputColumns q = OutputColumns tp" "plan_rows c T (plan_of ns q) = where_rows (qc_env c) (OutputColumns tp) e xs"
proof -
  have "OutputColumns q = OutputColumns tp \<and> plan_rows c T (plan_of ns q) = where_rows (qc_env c) (OutputColumns tp) e xs"
  proof (cases e)
    case None
    then show ?thesis using f rows by (simp add: filter_plan_def eret_def where_rows_def)
  next
    case (Some e')
    then obtain p a u where p: "PlanExpression fm e' [OutputColumns tp] st = (Inr (p, a), u)"
      "q = FilterOperator (OutputColumns tp) tp p"
      using f by (auto simp: filter_plan_def ebind_eq_Inr_iff eret_def)
    have "means (qc_env c) (OutputColumns tp) x e' p" if "x \<in> set xs" for x
      by (rule planned_means [OF cl _ _ p(1)]) (use rows(2) that e Some in simp_all)
    then show ?thesis using filter_means [of xs] rows(1) p(2) Some by (simp add: plan_of_def)
  qed
  then show "OutputColumns q = OutputColumns tp" "plan_rows c T (plan_of ns q) = where_rows (qc_env c) (OutputColumns tp) e xs"
    by simp_all
qed

lemma plan_select_list_means:
  assumes s: "plan_select_list fm cl items st = (Inr ps, st')" and cl: "good_columns cl" "fits_columns cl x"
    and r: "list_all (refers_to (column_names cl)) items"
  shows "list_all2 (means env cl x) items (map snd ps)"
proof -
  have "list_all2 (\<lambda>e q. means env cl x e (snd q)) items ps"
  proof (rule emap_all2 [OF _ s [unfolded plan_select_list_def]])
    fix e u q v
    assume "e \<in> set items" "ebind (PlanExpression fm e [cl]) (\<lambda>expr. ebind (name_of expr) (\<lambda>name. eret (name, fst expr))) u = (Inr q, v)"
    moreover then obtain p a w where "PlanExpression fm e [cl] u = (Inr (p, a), w)" "snd q = p"
      by (auto simp: ebind_eq_Inr_iff eret_def name_of_def)
    ultimately show "means env cl x e (snd q)" using planned_means [OF cl] r by (simp add: list_all_iff)
  qed
  then show ?thesis by (simp add: list.rel_map)
qed

lemma where_rows_subset: "where_rows env cl e xs = Some ys \<Longrightarrow> set ys \<subseteq> set xs"
  by (auto simp: where_rows_def split: option.splits if_splits)

lemma limit_rows_subset: "limit_rows n m xs = Some ys \<Longrightarrow> set ys \<subseteq> set xs"
  by (auto simp: limit_rows_def Let_def dest!: in_set_takeD in_set_dropD split: option.splits if_splits)

lemma projection_rows:
  assumes q: "projection_plan exprs plan st = (Inr q, st')"
    and s: "plan_select_list fm cl items st0 = (Inr exprs, st1)" and cl: "good_columns cl"
    and r: "list_all (refers_to (column_names cl)) items"
    and rows: "plan_rows c T (plan_of ns plan) = Some ys" "\<forall>y \<in> set ys. fits_columns cl y"
  shows "plan_rows c T (plan_of ns q) = select_rows (qc_env c) cl items ys"
proof -
  obtain col where "q = ProjectionOperator col plan (map snd exprs)"
    using q by (auto simp: projection_plan_def ebind_eq_Inr_iff eret_def)
  moreover have "project_left (qc_env c) (map (expr_of ns) (map snd exprs)) ys = select_rows (qc_env c) cl items ys"
    by (rule project_means, rule plan_select_list_means [OF s cl _ r]) (use rows(2) in blast)
  ultimately show ?thesis using rows(1) by (simp add: plan_of_def)
qed

lemma limit_plan_rows:
  assumes "limit_plan env fm stmt plan st = (Inr q, st')"
    and "const_or_none (ss_limit_count stmt)" "const_or_none (ss_limit_offset stmt)"
  shows "plan_rows c T (plan_of ns q) = Option.bind (plan_rows c T (plan_of ns plan))
    (limit_rows (const_count (ss_limit_count stmt)) (const_count (ss_limit_offset stmt)))"
proof (cases "ss_limit_count stmt = None \<and> ss_limit_offset stmt = None")
  case True
  then show ?thesis
    using assms(1) by (cases "plan_rows c T (plan_of ns plan)") (auto simp: limit_plan_def eret_def const_count_def limit_rows_def)
next
  case False
  then obtain n m u v where
    n: "plan_count env fm (OutputColumns plan) ''LIMIT must not be negative'' (ss_limit_count stmt) st = (Inr n, u)" and
    m: "plan_count env fm (OutputColumns plan) ''OFFSET must not be negative'' (ss_limit_offset stmt) u = (Inr m, v)" and
    q: "q = LimitOperator (OutputColumns plan) plan n m"
    using assms(1) unfolding limit_plan_def if_not_P [OF False] ebind_eq_Inr_iff eret_def by blast
  show ?thesis
    unfolding q plan_count_const [OF n assms(2)] plan_count_const [OF m assms(3)] by (simp add: plan_of_def)
qed

lemma PlanSelect_plain:
  assumes p: "PlanSelect env fm fj stmt st = (Inr p, st')" and plain: "plain_select cl stmt"
    and t: "PlanTableRef fm fj (ss_table stmt) False st = (Inr tp, u)"
  obtains v q w exprs x1 x2 x3 limited x4 where "filter_plan fm (ss_where stmt) tp u = (Inr q, v)"
    "plan_select_list fm (OutputColumns q) (ss_select_list stmt) w = (Inr exprs, x1)"
    "limit_plan env fm stmt q x2 = (Inr limited, x3)" "projection_plan exprs limited x4 = (Inr p, st')"
proof -
  have agg: "\<not> list_ex HasAggregation (ss_select_list stmt)"
    using plain refers_to_plain by (auto simp: plain_select_def list_all_iff list_ex_iff)
  have flags: "ss_group_by stmt = []" "ss_order_by stmt = []" "ss_lock_type stmt = NOLOCK" "\<not> ss_distinct stmt"
    using plain by (simp_all add: plain_select_def)
  have "ss_table stmt \<noteq> EmptyTableRef" using t by (auto simp: ethrow_def)
  then have tab: "(case ss_table stmt of EmptyTableRef \<Rightarrow> eret (ValuesOperator (ColumnList_new []) [[]])
      | table \<Rightarrow> PlanTableRef fm fj table (ss_lock_type stmt \<noteq> NOLOCK)) = PlanTableRef fm fj (ss_table stmt) False"
    using flags(3) by (cases "ss_table stmt") simp_all
  obtain a1 t1 a2 t2 t3 a4 t4 a5 t5 a6 t6 a7 t7 a8 t8 a9 t9 where
    s: "(case ss_table stmt of EmptyTableRef \<Rightarrow> eret (ValuesOperator (ColumnList_new []) [[]])
      | table \<Rightarrow> PlanTableRef fm fj table (ss_lock_type stmt \<noteq> NOLOCK)) st = (Inr a1, t1)"
    "filter_plan fm (ss_where stmt) a1 t1 = (Inr a2, t2)"
    "(if list_ex HasAggregation (ss_select_list stmt) \<or> ss_group_by stmt \<noteq> [] then PlanAggregate fm stmt a2 else eret a2) t3 = (Inr a4, t4)"
    "plan_select_list fm (OutputColumns a4) (ss_select_list stmt) t4 = (Inr a5, t5)"
    "order_plan fm (ss_order_by stmt) a4 t5 = (Inr a6, t6)" "limit_plan env fm stmt a6 t6 = (Inr a7, t7)"
    "lock_plan stmt a7 t7 = (Inr a8, t8)" "projection_plan a5 a8 t8 = (Inr a9, t9)"
    "distinct_plan (ss_distinct stmt) a9 t9 = (Inr p, st')"
    using p unfolding PlanSelect_def ebind_eq_Inr_iff by blast
  have "a1 = tp" "t1 = u" using s(1) t unfolding tab by simp_all
  moreover have "a4 = a2" "a6 = a4" "a8 = a7" "a9 = p" "t9 = st'"
    using s(3,5,7,9) agg flags by (simp_all add: order_plan_def lock_plan_def distinct_plan_def eret_def)
  ultimately show thesis using that s by blast
qed

lemma plain_select_rows:
  assumes t: "PlanTableRef fm fj (ss_table stmt) False st = (Inr tp, u)"
    and cl: "good_columns (OutputColumns tp)" and plain: "plain_select (OutputColumns tp) stmt"
    and rows: "plan_rows c T (plan_of ns tp) = Some xs" "\<forall>x \<in> set xs. fits_columns (OutputColumns tp) x"
    and p: "PlanSelect env fm fj stmt st = (Inr p, st')"
    and ys: "statement_rows (qc_env c) (OutputColumns tp) stmt xs = Some ys"
  shows "plan_rows c T (plan_of ns p) = Some ys"
proof -
  let ?cl = "OutputColumns tp"
  obtain v q w exprs x1 x2 x3 limited x4 where s: "filter_plan fm (ss_where stmt) tp u = (Inr q, v)"
    "plan_select_list fm (OutputColumns q) (ss_select_list stmt) w = (Inr exprs, x1)"
    "limit_plan env fm stmt q x2 = (Inr limited, x3)" "projection_plan exprs limited x4 = (Inr p, st')"
    by (rule PlanSelect_plain [OF p plain t])
  obtain ks ls where k: "where_rows (qc_env c) ?cl (ss_where stmt) xs = Some ks"
    "limit_rows (const_count (ss_limit_count stmt)) (const_count (ss_limit_offset stmt)) ks = Some ls"
    "select_rows (qc_env c) ?cl (ss_select_list stmt) ls = Some ys"
    using ys by (auto simp: statement_rows_def bind_eq_Some_conv)
  have pl: "pred_option (refers_to (column_names ?cl)) (ss_where stmt)" "list_all (refers_to (column_names ?cl)) (ss_select_list stmt)"
    "const_or_none (ss_limit_count stmt)" "const_or_none (ss_limit_offset stmt)"
    using plain by (simp_all add: plain_select_def)
  note f = filter_plan_rows [OF s(1) cl pl(1) rows]
  have l: "plan_rows c T (plan_of ns limited) = Some ls" using limit_plan_rows [OF s(3) pl(3,4)] f(2) k(1,2) by simp
  have "\<forall>y \<in> set ls. fits_columns ?cl y" using where_rows_subset [OF k(1)] limit_rows_subset [OF k(2)] rows(2) by blast
  from projection_rows [OF s(4) s(2) _ _ l, unfolded f(1), OF cl pl(2) this] show ?thesis using k(3) by simp
qed

section \<open>UPDATE and INSERT\<close>

fun column_name :: "BExpr \<Rightarrow> string" where
  "column_name (ColumnRefExpression names) = join_dots names"
| "column_name _ = []"

text \<open>The assignments of an \<^verbatim>\<open>UPDATE\<close>: columns of the table, and expressions over them. The last one to a column counts.\<close>

definition assignment_ok :: "ColumnList \<Rightarrow> BExpr \<times> BExpr \<Rightarrow> bool" where
  "assignment_ok cl a \<longleftrightarrow>
     (\<exists>names. fst a = ColumnRefExpression names) \<and> column_name (fst a) \<in> column_names cl \<and> refers_to (column_names cl) (snd a)"

definition assigned :: "(BExpr \<times> BExpr) list \<Rightarrow> string \<Rightarrow> BExpr option" where
  "assigned items = map_of (rev (map (\<lambda>(c, e). (column_name c, e)) items))"

definition updated_value :: "eval_env \<Rightarrow> ColumnList \<Rightarrow> (BExpr \<times> BExpr) list \<Rightarrow> Record \<Rightarrow> ColumnDefinition \<Rightarrow> Val result" where
  "updated_value env cl items x c =
     (case assigned items (cd_name c) of
        Some e \<Rightarrow> sem env (named_value cl x) e
      | None \<Rightarrow> named_value cl x (cd_name c))"

text \<open>What \<^verbatim>\<open>update_exprs\<close> holds for a column after some of the assignments.\<close>

definition slot_ok :: "eval_env \<Rightarrow> ColumnList \<Rightarrow> Record \<Rightarrow> (BExpr \<times> BExpr) list \<Rightarrow> ColumnDefinition \<Rightarrow> PExpr option \<Rightarrow> bool" where
  "slot_ok env cl x items c slot \<longleftrightarrow>
     (case assigned items (cd_name c) of None \<Rightarrow> slot = None | Some e \<Rightarrow> \<exists>p. slot = Some p \<and> means env cl x e p)"

lemma assigned_snoc: "assigned (items @ [(c, e)]) name = (if column_name c = name then Some e else assigned items name)"
  by (simp add: assigned_def)

lemma set_exprs_ok:
  assumes cl: "good_columns cl" "fits_columns cl x"
  shows "set_exprs fm cl items slots st = (Inr slots', st') \<Longrightarrow> list_all (assignment_ok cl) items \<Longrightarrow>
    list_all2 (slot_ok env cl x past) (cl_columns cl) slots \<Longrightarrow>
    list_all2 (slot_ok env cl x (past @ items)) (cl_columns cl) slots'"
proof (induction items arbitrary: slots st past)
  case Nil
  then show ?case by (simp add: eret_def)
next
  case (Cons item items)
  obtain column e where item: "item = (column, e)" by fastforce
  obtain names where names: "column = ColumnRefExpression names" "join_dots names \<in> column_names cl" "refers_to (column_names cl) e"
    using Cons.prems(2) item by (auto simp: assignment_ok_def)
  obtain i where i: "TryGetColumnIndex (join_dots names) cl = Some i" "i < length (cl_columns cl)"
    "cd_name (cl_columns cl ! i) = join_dots names" "Record_GetValue i x = named_value cl x (join_dots names)"
    by (rule column_found [OF cl names(2)])
  have len: "length slots = length (cl_columns cl)" using Cons.prems(3) by (simp add: list_all2_lengthD)
  obtain p a u v where run: "PlanExpression fm e [cl] u = (Inr (p, a), v)"
    "set_exprs fm cl items (slots[i := Some p]) v = (Inr slots', st')"
    using Cons.prems(1) i(2) len unfolding item names(1)
    by (auto simp: ebind_eq_Inr_iff PlanColumnRef_at [OF i(1,2)] new_object_def Let_def)
  have m: "means env cl x e p" by (rule planned_means [OF cl names(3) run(1)])
  have d: "j = i" if "j < length (cl_columns cl)" "cd_name (cl_columns cl ! j) = join_dots names" for j
    using cl(1) i(2,3) that by (metis good_columns_def length_map nth_eq_iff_index_eq nth_map)
  have "list_all2 (slot_ok env cl x (past @ [item])) (cl_columns cl) (slots[i := Some p])"
    unfolding list_all2_conv_all_nth
  proof (intro conjI allI impI)
    show "slot_ok env cl x (past @ [item]) (cl_columns cl ! j) (slots[i := Some p] ! j)" if j: "j < length (cl_columns cl)" for j
    proof (cases "j = i")
      case True
      then show ?thesis using m i(3) j len by (simp add: slot_ok_def item names(1) assigned_snoc)
    next
      case False
      then have "cd_name (cl_columns cl ! j) \<noteq> join_dots names" using d [OF j] by blast
      then show ?thesis
        using False list_all2_nthD [OF Cons.prems(3) j] by (simp add: slot_ok_def item names(1) assigned_snoc)
    qed
  qed (simp add: len)
  from Cons.IH [OF run(2) _ this] show ?case using Cons.prems(2) by simp
qed

lemma keep_columns_ok:
  assumes cl: "good_columns cl" "fits_columns cl x" and slots: "list_all2 (slot_ok env cl x items) (cl_columns cl) slots"
    and run: "emap keep_column (enumerate 0 (zip (cl_columns cl) slots)) st = (Inr es, st')"
  shows "evaluate_all env (map (expr_of ns) es) x = rmap (updated_value env cl items x) (cl_columns cl)"
proof -
  let ?P = "\<lambda>(i, c, slot) p. Evaluate env (expr_of ns p) x = updated_value env cl items x c"
  have "list_all2 ?P (enumerate 0 (zip (cl_columns cl) slots)) es"
  proof (rule emap_all2 [OF _ run])
    fix y u p v
    assume y: "y \<in> set (enumerate 0 (zip (cl_columns cl) slots))" and k: "keep_column y u = (Inr p, v)"
    obtain i where i: "y = (i, cl_columns cl ! i, slots ! i)" "i < length (cl_columns cl)"
      using y list_all2_lengthD [OF slots] by (auto simp: enumerate_eq_zip set_zip)
    have nv: "named_value cl x (cd_name (cl_columns cl ! i)) = Record_GetValue i x"
      using named_value_at [of cl x i] cl i(2) by (simp add: good_columns_def Record_GetValue_def fits_columns_def)
    show "?P y p"
      using list_all2_nthD [OF slots i(2)] k unfolding i(1) slot_ok_def updated_value_def
      by (cases "assigned items (cd_name (cl_columns cl ! i))")
        (auto simp: keep_column_def ebind_eq_Inr_iff new_object_def Let_def eret_def means_def nv)
  qed
  then have "list_all2 (\<lambda>c p. Evaluate env (expr_of ns p) x = updated_value env cl items x c) (cl_columns cl) es"
    using list_all2_lengthD [OF slots] by (simp add: list_all2_conv_all_nth nth_enumerate_eq)
  then show ?thesis using rmap_all2 by (simp add: evaluate_all_def)
qed

text \<open>A value of the column \<open>child\<close> may be stored in the column \<open>table\<close>.\<close>

definition accepts :: "ColumnDefinition \<Rightarrow> ColumnDefinition \<Rightarrow> bool" where
  "accepts child table \<longleftrightarrow>
     (cd_type child = cd_type table \<or> cd_type child = TNULL \<or> cd_type child = TVARCHAR \<and> cd_type table = TCHAR) \<and>
     (IsString (cd_type child) \<longrightarrow> cd_max_size child \<le> cd_max_size table)"

lemma rmap_each: "rmap f xs = Inr ys \<Longrightarrow> x \<in> set xs \<Longrightarrow> \<exists>y. f x = Inr y"
  by (induction xs arbitrary: ys) (auto simp: rbind_eq_Inr_iff)

lemma check_insert_column_iff: "check_insert_column (child, table) = Inr u \<longleftrightarrow> accepts child table"
  by (cases "cd_type child"; cases "cd_type table") (auto simp: check_insert_column_def accepts_def Let_def)

lemma columns_new [simp]: "cl_columns (ColumnList_new cols) = cols"
  by (simp add: ColumnList_new_def ColumnList_empty_def)

lemma good_columns_new: "distinct (map cd_name cols) \<Longrightarrow> good_columns (ColumnList_new cols)"
  by (simp add: good_columns_def index_ok_new)

text \<open>A planned \<^verbatim>\<open>SELECT\<close>, what it denotes and run by its executors.\<close>

lemma planned_select_rows:
  assumes t: "PlanTableRef fm fj (ss_table stmt) False Planner_new = (Inr tp, st)"
    and rows: "plan_rows c T (plan_of [] tp) = Some xs"
    and cl: "good_columns (OutputColumns tp)" "\<forall>x \<in> set xs. fits_columns (OutputColumns tp) x"
    and plain: "plain_select (OutputColumns tp) stmt"
    and p: "planned (qc_env c) fm fj (BSelect stmt) = Inr p"
    and ys: "statement_rows (qc_env c) (OutputColumns tp) stmt xs = Some ys"
  shows "plan_rows c T p = Some ys"
proof -
  obtain r st' where r: "PlanSelect (qc_env c) fm fj stmt Planner_new = (Inr r, st')" "p = plan_of (pl_names st') r"
    using p by (auto simp: planned_def PlanQuery_def split: prod.splits sum.splits)
  show ?thesis
    unfolding r(2) by (rule plain_select_rows [OF t cl(1) plain _ cl(2) r(1) ys]) (use rows plan_rows_names in metis)
qed

lemma planned_select_calls:
  assumes w: "world_ok c W q"
    and t: "PlanTableRef fm fj (ss_table stmt) False Planner_new = (Inr tp, st)"
    and rows: "plan_rows c (world_rows c W) (plan_of [] tp) = Some xs"
    and cl: "good_columns (OutputColumns tp)" "\<forall>x \<in> set xs. fits_columns (OutputColumns tp) x"
    and plain: "plain_select (OutputColumns tp) stmt"
    and p: "planned (qc_env c) fm fj (BSelect stmt) = Inr p"
    and ys: "statement_rows (qc_env c) (OutputColumns tp) stmt xs = Some ys"
  shows "\<exists>x s'. CreateExecutor q p = Inr x \<and>
    calls (Exec_Next c p) n (q, x) = (Inr (take n (map Some ys @ replicate n None)), s')"
  using query_tree_calls [OF w planned_select_rows [OF assms(2-)], of n] by blast

text \<open>Without a condition there is no filter in the plan.\<close>

lemma planned_no_filter:
  assumes t: "PlanTableRef fm fj (ss_table stmt) False Planner_new = (Inr tp, st)"
    and plain: "plain_select cl stmt" and none: "ss_where stmt = None" "\<And>ns. plan_filters (plan_of ns tp) = []"
    and p: "planned env fm fj (BSelect stmt) = Inr p"
  shows "plan_filters p = []"
proof -
  obtain r st' where r: "PlanSelect env fm fj stmt Planner_new = (Inr r, st')" "p = plan_of (pl_names st') r"
    using p by (auto simp: planned_def PlanQuery_def split: prod.splits sum.splits)
  obtain v q w exprs x1 x2 x3 limited x4 where s: "filter_plan fm (ss_where stmt) tp st = (Inr q, v)"
    "limit_plan env fm stmt q x2 = (Inr limited, x3)" "projection_plan exprs limited x4 = (Inr r, st')"
    by (rule PlanSelect_plain [OF r(1) plain t])
  have "q = tp" using s(1) none(1) by (simp add: filter_plan_def eret_def)
  then have "plan_filters (plan_of ns limited) = []" for ns
    using s(2) none(2) by (auto simp: limit_plan_def plan_of_def ebind_eq_Inr_iff eret_def split: if_splits)
  then show ?thesis
    unfolding r(2) using s(3) by (auto simp: projection_plan_def plan_of_def ebind_eq_Inr_iff eret_def)
qed

section \<open>Properties\<close>

text \<open>
  A planned expression means what the statement says: whatever names the planner gives its objects
  later, the tree it builds for an expression over the columns of a table evaluates, on every record of
  the table, to the value of the bound expression with each column read by its name.
\<close>

theorem planned_expression:
  assumes "good_columns cl" "fits_columns cl x" "refers_to (column_names cl) e"
    and "PlanExpression fm e [cl] st = (Inr (p, a), st')"
  shows "Evaluate env (expr_of ns p) x = sem env (named_value cl x) e"
  using planned_means [OF assms] by (simp add: means_def)

text \<open>
  A \<^verbatim>\<open>SELECT\<close> from end to end: when the planner accepts a statement without grouping, ordering, locks and
  \<^verbatim>\<open>DISTINCT\<close>, the executors built from its plan return, one record per call and then null, the rows of
  its table that satisfy the condition, cut to the limit and the offset, with the select list evaluated on them.
\<close>

theorem select_statement:
  assumes w: "world_ok c W q"
    and t: "PlanTableRef fm fj (ss_table stmt) False Planner_new = (Inr tp, st)"
    and rows: "plan_rows c (world_rows c W) (plan_of [] tp) = Some xs"
    and cl: "good_columns (OutputColumns tp)" "\<forall>x \<in> set xs. fits_columns (OutputColumns tp) x"
    and plain: "plain_select (OutputColumns tp) stmt"
    and p: "planned (qc_env c) fm fj (BSelect stmt) = Inr p"
    and ys: "statement_rows (qc_env c) (OutputColumns tp) stmt xs = Some ys"
  shows "\<exists>x s'. CreateExecutor q p = Inr x \<and>
    calls (Exec_Next c p) n (q, x) = (Inr (take n (map Some ys @ replicate n None)), s')"
  by (rule planned_select_calls [OF assms])

text \<open>
  C35. The plan of an \<^verbatim>\<open>UPDATE\<close> holds one expression per column of the table: the assigned columns get the
  values of their assignments on the old row, the last one when a column is assigned twice, and every
  other column keeps its value.
\<close>

theorem planned_update:
  assumes p: "PlanUpdate fm stmt st = (Inr p, st')" and t: "us_table stmt = (table, table_alias, oid, cols)"
    and "cl = GetColumnList table table_alias cols" and cl: "good_columns cl" "fits_columns cl x"
    and items: "list_all (assignment_ok cl) (us_exprs stmt)"
  shows "\<exists>col plan es. p = UpdateOperator col plan oid es \<and>
    evaluate_all env (map (expr_of ns) es) x = rmap (updated_value env cl (us_exprs stmt) x) (cl_columns cl)"
proof -
  obtain flt u where f: "base_filter fm (us_table stmt) (us_filter stmt) st = (Inr flt, u)"
    using p by (auto simp: PlanUpdate_def ebind_eq_Inr_iff)
  have c: "OutputColumns flt = cl"
    using f t assms(3) by (auto simp: base_filter_def filter_plan_def PlanBaseTable_def ebind_eq_Inr_iff eret_def)
  obtain slots v es w col where s: "set_exprs fm cl (us_exprs stmt) (replicate (ColumnList_Length cl) None) u = (Inr slots, v)"
    "emap keep_column (enumerate 0 (zip (cl_columns cl) slots)) v = (Inr es, w)" "p = UpdateOperator col flt oid es"
    using p f t c by (auto simp: PlanUpdate_def ebind_eq_Inr_iff eret_def Let_def)
  have "list_all2 (slot_ok env cl x []) (cl_columns cl) (replicate (ColumnList_Length cl) None)"
    by (simp add: list_all2_conv_all_nth ColumnList_Length_def slot_ok_def assigned_def)
  from set_exprs_ok [OF cl s(1) items this] have "list_all2 (slot_ok env cl x (us_exprs stmt)) (cl_columns cl) slots" by simp
  from keep_columns_ok [OF cl this s(2)] show ?thesis using s(3) by blast
qed

text \<open>
  An \<^verbatim>\<open>INSERT\<close> that the planner accepts inserts, column by column, values of the type of the target column
  (or null, or a \<^verbatim>\<open>VARCHAR\<close> into a \<^verbatim>\<open>CHAR\<close>), and strings that are not longer than it allows.
\<close>

theorem planned_insert:
  assumes "PlanInsert env fm fj stmt st = (Inr p, st')"
  shows "\<exists>cl plan cols oid. p = InsertOperator cl plan cols oid \<and>
    list_all2 accepts (cl_columns (OutputColumns plan)) (cl_columns cols)"
proof -
  obtain cl plan cols oid us where s: "p = InsertOperator cl plan cols oid"
    "ColumnList_Length (OutputColumns plan) = ColumnList_Length cols"
    "rmap check_insert_column (zip (cl_columns (OutputColumns plan)) (cl_columns cols)) = Inr us"
    using assms by (fastforce simp: PlanInsert_def ebind_eq_Inr_iff eret_def elift_def ethrow_def Let_def
        split: prod.splits if_splits)
  have "\<forall>x \<in> set (zip (cl_columns (OutputColumns plan)) (cl_columns cols)). check_insert_column x = Inr ()"
    using rmap_each [OF s(3)] by simp
  then have "list_all2 accepts (cl_columns (OutputColumns plan)) (cl_columns cols)"
    using s(2) by (auto simp: list_all2_iff ColumnList_Length_def check_insert_column_iff)
  then show ?thesis using s(1) by blast
qed

text \<open>
  The size of a column of the right child of a join is read from the columns of the left child: when the left
  child has no column at that position, the planner reads behind the end of its columns.
\<close>

theorem right_column_size:
  assumes "TryGetColumnIndex (join_dots names) left = None" "TryGetColumnIndex (join_dots names) right = Some i"
    and "i < length (cl_columns right)" "length (cl_columns left) \<le> i"
  shows "PlanColumnRef names [left, right] st = (Inl (Undefined ''vector index out of range''), st)"
  using assms by (simp add: PlanColumnRef_def GetColumn_def ebind_def elift_def Let_def)

section \<open>The properties on concrete statements\<close>

definition sample_bound_columns :: ColumnList where
  "sample_bound_columns = ColumnList_new
     [\<lparr>cd_name = ''id'', cd_type = TINT, cd_max_size = 4\<rparr>, \<lparr>cd_name = ''name'', cd_type = TVARCHAR, cd_max_size = 10\<rparr>]"

text \<open>\<^verbatim>\<open>SELECT t.name AS who FROM t WHERE t.id = 42 LIMIT 1\<close>\<close>

definition sample_where :: BExpr where
  "sample_where = BinaryOpExpression ''='' (ColumnRefExpression [''t'', ''id'']) (ConstExpression (Value_int 42))"

definition sample_select :: SelectStatement where
  "sample_select = \<lparr>ss_table = BaseTableRef ''t'' None 10001 sample_bound_columns,
     ss_select_list = [AliasExpression ''who'' (ColumnRefExpression [''t'', ''name''])],
     ss_where = Some sample_where,
     ss_group_by = [], ss_having = None, ss_order_by = [], ss_limit_count = Some (ConstExpression (Value_int 1)),
     ss_limit_offset = None, ss_lock_type = NOLOCK, ss_distinct = False\<rparr>"

abbreviation sample_table_columns :: ColumnList where
  "sample_table_columns \<equiv> GetColumnList ''t'' None sample_bound_columns"

definition sample_values :: Record where
  "sample_values = Record_default\<lparr>r_values := [Value_int 42, Value_string ''hua'' TVARCHAR]\<rparr>"

lemma sample_table_columns: "good_columns sample_table_columns"
  unfolding GetColumnList_def
  by (rule good_columns_new)
    (simp add: sample_bound_columns_def BaseTable_GetTableName_def join_dots_def)

lemma sample_column_names: "column_names sample_table_columns = {''t.id'', ''t.name''}" "length (cl_columns sample_table_columns) = 2"
  by (simp_all add: column_names_def GetColumnList_def sample_bound_columns_def
      BaseTable_GetTableName_def join_dots_def)

theorem planned_expression_witness:
  "\<exists>p a st. PlanExpression sample_fmt sample_where [sample_table_columns] Planner_new = (Inr (p, a), st) \<and>
     Evaluate sample_env (expr_of [''x''] p) sample_values = sem sample_env (named_value sample_table_columns sample_values) sample_where"
proof -
  have "\<not> isl (fst (PlanExpression sample_fmt sample_where [sample_table_columns] Planner_new))" by code_simp
  then obtain p a st where p: "PlanExpression sample_fmt sample_where [sample_table_columns] Planner_new = (Inr (p, a), st)"
    by (cases "PlanExpression sample_fmt sample_where [sample_table_columns] Planner_new") (metis sum.collapse(2) surj_pair prod.sel(1))
  have "fits_columns sample_table_columns sample_values" "refers_to (column_names sample_table_columns) sample_where"
    by (simp_all add: fits_columns_def sample_column_names sample_values_def sample_where_def join_dots_def)
  from planned_expression [OF sample_table_columns this p] show ?thesis using p by blast
qed

theorem right_column_size_witness:
  "PlanColumnRef [''t'', ''name''] [ColumnList_new [], sample_table_columns] Planner_new =
     (Inl (Undefined ''vector index out of range''), Planner_new)"
proof (rule right_column_size)
  show "TryGetColumnIndex (join_dots [''t'', ''name'']) (ColumnList_new []) = None"
    "TryGetColumnIndex (join_dots [''t'', ''name'']) sample_table_columns = Some 1" by code_simp+
  show "1 < length (cl_columns sample_table_columns)" "length (cl_columns (ColumnList_new [])) \<le> 1" by code_simp+
qed

lemma sample_row_named:
  assumes "r_values x = r_values sample_row"
  shows "named_value sample_table_columns x ''t.id'' = Inr (Value_int 42)"
    "named_value sample_table_columns x ''t.name'' = Inr (Value_string ''hua'' TVARCHAR)"
  using assms
  by (simp_all add: named_value_def GetColumnList_def sample_bound_columns_def BaseTable_GetTableName_def join_dots_def sample_row_def)

lemma sample_statement_rows:
  assumes x: "r_values x = r_values sample_row"
  shows "\<exists>y. statement_rows sample_env sample_table_columns sample_select [x] = Some [y] \<and>
    r_values y = [Value_string ''hua'' TVARCHAR]"
proof -
  have "satisfied sample_env sample_table_columns sample_where x = Inr True"
    using sample_row_named [OF x]
    by (simp add: satisfied_def sample_where_def join_dots_def apply_op_def binary_ops_def Comparison_Compute_def cmp_int_def
        DoOperation_cmp_def GetValue_int_def Value_int_def IsNull_def v_int_def GetValue_bool_def Value_bool_def v_bool_def)
  then have w: "where_rows sample_env sample_table_columns (Some sample_where) [x] = Some [x]"
    by (simp add: where_rows_def ROW_FUEL_def) blast
  have l: "limit_rows (const_count (Some (ConstExpression (Value_int 1)))) (const_count None) [x] = Some [x]"
    by (simp add: const_count_def limit_rows_def GetValue_int_def Value_int_def IsNull_def v_int_def)
  have "\<exists>y. select_row sample_env sample_table_columns (ss_select_list sample_select) x = Inr y \<and>
      r_values y = [Value_string ''hua'' TVARCHAR]"
    using sample_row_named [OF x]
    by (simp add: select_row_def sample_select_def join_dots_def Record_new_def null_marks_def IsNull_def Value_string_def)
  then show ?thesis using w l by (auto simp: statement_rows_def sample_select_def select_rows_def)
qed

lemma sample_seen_row:
  obtains x where "seen sample_ctx sample_world (table_rows [[sample_version2]]) = [x]" "r_values x = r_values sample_row"
proof -
  obtain x j z where x: "seen sample_ctx sample_world (table_rows [[sample_version2]]) = [x]" "Record_Append x x = Inr j"
    "copy_record j = Inr z" "r_values z = r_values sample_row @ r_values sample_row"
    by (rule sample_seen)
  have "r_values x @ r_values x = r_values sample_row @ r_values sample_row"
    using x(4) Record_Append_values [OF x(2)] copy_record_fields [OF x(3)] by simp
  then have xv: "r_values x = r_values sample_row"
    by (metis append_eq_append_conv append_same_eq length_append less_not_refl nat_neq_iff add_less_mono)
  then show thesis using that x(1) by blast
qed

theorem select_statement_witness:
  "\<exists>p x y s'. planned sample_env sample_fmt ForceNone (BSelect sample_select) = Inr p \<and>
     CreateExecutor sample_query_env p = Inr x \<and>
     calls (Exec_Next sample_ctx p) 2 (sample_query_env, x) = (Inr [Some y, None], s') \<and>
     r_values y = [Value_string ''hua'' TVARCHAR]"
proof -
  let ?tp = "PlanBaseTable ''t'' None 10001 sample_bound_columns False"
  obtain x where x: "seen sample_ctx sample_world (table_rows [[sample_version2]]) = [x]" "r_values x = r_values sample_row"
    by (rule sample_seen_row)
  obtain y where y: "statement_rows sample_env sample_table_columns sample_select [x] = Some [y]" "r_values y = [Value_string ''hua'' TVARCHAR]"
    using sample_statement_rows [OF x(2)] by blast
  have "\<not> isl (planned sample_env sample_fmt ForceNone (BSelect sample_select))" by code_simp
  then obtain p where p: "planned sample_env sample_fmt ForceNone (BSelect sample_select) = Inr p" by (metis sum.collapse(2))
  have "\<exists>e s'. CreateExecutor sample_query_env p = Inr e \<and>
    calls (Exec_Next sample_ctx p) 2 (sample_query_env, e) = (Inr (take 2 (map Some [y] @ replicate 2 None)), s')"
  proof (rule select_statement [OF sample_world_ok, where fm = sample_fmt and fj = ForceNone and tp = ?tp])
    show "PlanTableRef sample_fmt ForceNone (ss_table sample_select) False Planner_new = (Inr ?tp, Planner_new)"
      by (simp add: sample_select_def eret_def)
    show "plan_rows sample_ctx (world_rows sample_ctx sample_world) (plan_of [] ?tp) = Some [x]"
      using x(1) by (simp add: plan_of_def PlanBaseTable_def world_rows_def sample_world_def)
    show "good_columns (OutputColumns ?tp)" by (simp add: PlanBaseTable_def sample_table_columns)
    show "\<forall>x \<in> set [x]. fits_columns (OutputColumns ?tp) x"
      using x(2) by (simp add: PlanBaseTable_def fits_columns_def sample_column_names sample_row_def)
    show "plain_select (OutputColumns ?tp) sample_select"
      by (simp add: PlanBaseTable_def plain_select_def sample_select_def sample_where_def sample_column_names join_dots_def const_or_none_def)
    show "planned (qc_env sample_ctx) sample_fmt ForceNone (BSelect sample_select) = Inr p" using p by (simp add: sample_ctx_def)
    show "statement_rows (qc_env sample_ctx) (OutputColumns ?tp) sample_select [x] = Some [y]"
      using y(1) by (simp add: PlanBaseTable_def sample_ctx_def)
  qed
  then show ?thesis using p y(2) by (auto simp: numeral_2_eq_2)
qed

text \<open>\<^verbatim>\<open>UPDATE t SET id = t.id + 1 WHERE t.id = 42\<close>\<close>

definition sample_update :: UpdateStatement where
  "sample_update = \<lparr>us_table = (''t'', None, 10001, sample_bound_columns), us_filter = sample_where,
     us_exprs = [(ColumnRefExpression [''t'', ''id''],
       BinaryOpExpression ''+'' (ColumnRefExpression [''t'', ''id'']) (ConstExpression (Value_int 1)))]\<rparr>"

theorem planned_update_witness:
  "\<exists>p st col plan es. PlanUpdate sample_fmt sample_update Planner_new = (Inr p, st) \<and> p = UpdateOperator col plan 10001 es \<and>
     evaluate_all sample_env (map (expr_of (pl_names st)) es) sample_row = Inr [Value_int 43, Value_string ''hua'' TVARCHAR]"
proof -
  have "\<not> isl (fst (PlanUpdate sample_fmt sample_update Planner_new))" by code_simp
  then obtain p st where p: "PlanUpdate sample_fmt sample_update Planner_new = (Inr p, st)"
    by (metis sum.collapse(2) surj_pair prod.sel(1))
  have "fits_columns sample_table_columns sample_row" by (simp add: fits_columns_def sample_column_names sample_row_def)
  moreover have "list_all (assignment_ok sample_table_columns) (us_exprs sample_update)"
    by (simp add: sample_update_def assignment_ok_def sample_column_names join_dots_def)
  ultimately obtain col plan es where u: "p = UpdateOperator col plan 10001 es"
    "evaluate_all sample_env (map (expr_of (pl_names st)) es) sample_row =
       rmap (updated_value sample_env sample_table_columns (us_exprs sample_update) sample_row) (cl_columns sample_table_columns)"
    using planned_update [OF p _ refl sample_table_columns, of 10001 sample_row sample_env "pl_names st"]
    by (auto simp: sample_update_def)
  have "rmap (updated_value sample_env sample_table_columns (us_exprs sample_update) sample_row) (cl_columns sample_table_columns) =
      Inr [Value_int 43, Value_string ''hua'' TVARCHAR]"
    using sample_row_named [OF refl] by code_simp
  then show ?thesis using p u by auto
qed

text \<open>\<^verbatim>\<open>INSERT INTO t (id, name) VALUES (7, 'hua')\<close>\<close>

definition sample_insert :: InsertStatement where
  "sample_insert = \<lparr>is_table = (''t'', None, 10001, sample_bound_columns),
     is_columns = [ColumnRefExpression [''t'', ''id''], ColumnRefExpression [''t'', ''name'']],
     is_select = sample_select\<lparr>
       ss_table := ExpressionListRef [[ConstExpression (Value_int 7), ConstExpression (Value_string ''hua'' TVARCHAR)]],
       ss_select_list := [ColumnRefExpression [''#1''], ColumnRefExpression [''#2'']],
       ss_where := None, ss_limit_count := None\<rparr>\<rparr>"

theorem planned_insert_witness:
  "\<exists>cl plan cols oid st. PlanInsert sample_env sample_fmt ForceNone sample_insert Planner_new = (Inr (InsertOperator cl plan cols oid), st) \<and>
     list_all2 accepts (cl_columns (OutputColumns plan)) (cl_columns cols)"
proof -
  have "\<not> isl (fst (PlanInsert sample_env sample_fmt ForceNone sample_insert Planner_new))" by code_simp
  then obtain p st where p: "PlanInsert sample_env sample_fmt ForceNone sample_insert Planner_new = (Inr p, st)"
    by (metis sum.collapse(2) surj_pair prod.sel(1))
  from planned_insert [OF this] show ?thesis using p by blast
qed

end
