(* ===== verification/Bound_Queries.thy ===== *)
theory Bound_Queries
  imports Binder Planned_Queries
begin

text \<open>
  What the binder promises: a column reference is bound to the one table of the \<^verbatim>\<open>FROM\<close> clause that has it,
  and the bound statement is one that the planner and the executors answer with the rows of the query.
  A few statements that users write are shown to be bound to something else, or refused.
\<close>

section \<open>Resolution of columns\<close>

text \<open>The tables of a \<^verbatim>\<open>FROM\<close> clause, with the names that qualify their columns.\<close>

fun base_tables :: "BTableRef \<Rightarrow> (string \<times> ColumnList) list" where
  "base_tables (BaseTableRef table table_alias oid column_list) = [(BaseTable_GetTableName table table_alias, column_list)]"
| "base_tables (CrossJoinRef l r) = base_tables l @ base_tables r"
| "base_tables (JoinRef ty l r condition) = base_tables l @ base_tables r"
| "base_tables _ = []"

fun only_tables :: "BTableRef \<Rightarrow> bool" where
  "only_tables (BaseTableRef table table_alias oid column_list) = True"
| "only_tables (CrossJoinRef l r) = (only_tables l \<and> only_tables r)"
| "only_tables (JoinRef ty l r condition) = (only_tables l \<and> only_tables r)"
| "only_tables _ = False"

text \<open>A name without a qualifier means a table that has the column, a qualified one the table of that name.\<close>

definition owner :: "string list \<Rightarrow> string \<times> ColumnList \<Rightarrow> bool" where
  "owner names t \<longleftrightarrow> (if length names = 1 then TryGetColumnIndex (hd names) (snd t) \<noteq> None else hd names = fst t)"

definition bound_name :: "string list \<Rightarrow> string \<times> ColumnList \<Rightarrow> BExpr" where
  "bound_name names t = ColumnRefExpression (if length names = 1 then [fst t, hd names] else names)"

definition resolves :: "string list \<Rightarrow> (string \<times> ColumnList) list \<Rightarrow> BExpr option result \<Rightarrow> bool" where
  "resolves names ts r \<longleftrightarrow>
     (case filter (owner names) ts of
        [] \<Rightarrow> r = Inr None
      | [t] \<Rightarrow> r = Inr (Some (bound_name names t))
      | _ \<Rightarrow> \<exists>msg. r = Inl (DbException msg))"

lemma resolves_append:
  assumes "resolves names ts l" "resolves names us r"
  shows "resolves names (ts @ us) (rbind l (\<lambda>left. rbind r (one_side msg left)))"
proof (cases "filter (owner names) ts" rule: remdups_adj.cases; cases "filter (owner names) us" rule: remdups_adj.cases)
qed (use assms in \<open>auto simp: resolves_def one_side_def\<close>)

lemma ResolveColumnInternal_resolves:
  "names \<noteq> [] \<Longrightarrow> only_tables table \<Longrightarrow> resolves names (base_tables table) (ResolveColumnInternal table names)"
proof (induction table)
  case (BaseTableRef table table_alias oid column_list)
  then show ?case
    by (cases "length names = 1")
      (auto simp: resolves_def ResolveColumnFromBaseTable_def owner_def bound_name_def Suc_lessI neq_Nil_conv split: option.splits)
next
  case (CrossJoinRef l r)
  then show ?case using resolves_append by simp
next
  case (JoinRef ty l r condition)
  then show ?case using resolves_append by simp
qed simp_all

section \<open>Expressions over one table\<close>

text \<open>
  What the nodes of the parse tree mean: \<open>col\<close> gives the value of a column by the name in the statement. An
  \<^verbatim>\<open>AND\<close> or \<^verbatim>\<open>OR\<close> of several operands combines them from the left.
\<close>

definition const_value :: "bind_env \<Rightarrow> PgValue \<Rightarrow> Val result" where
  "const_value be v =
     (case v of PgInteger i \<Rightarrow> Inr (Value_int (ucast i)) | PgFloat str \<Rightarrow> rbind (bd_stod be str) (\<lambda>d. Inr (Value_double d))
      | PgText str \<Rightarrow> Inr (Value_string str TVARCHAR) | PgNull \<Rightarrow> Inr Value_null
      | PgOtherValue tag \<Rightarrow> Inl (DbException ''unknown constant''))"

definition bool_value :: "PgBoolOp \<Rightarrow> Val result list \<Rightarrow> Val result" where
  "bool_value op vs =
     (case vs of
        [] \<Rightarrow> Inl (DbException ''no operand'')
      | v # ws \<Rightarrow> (case op of
          PgNot \<Rightarrow> rbind v Value_Not
        | PgAnd \<Rightarrow> foldl (\<lambda>x y. rbind x (\<lambda>a. rbind y (Logic_Compute LogicAnd a))) v ws
        | PgOr \<Rightarrow> foldl (\<lambda>x y. rbind x (\<lambda>a. rbind y (Logic_Compute LogicOr a))) v ws))"

definition operator_value :: "eval_env \<Rightarrow> string \<Rightarrow> bool \<Rightarrow> Val result option \<Rightarrow> Val result option \<Rightarrow> Val result" where
  "operator_value env op in_list l r =
     (case (l, r) of
        (Some x, Some y) \<Rightarrow> rbind x (\<lambda>a. rbind y (apply_op env op in_list a)) | _ \<Rightarrow> Inl (DbException ''no operand''))"

fun is_list_node :: "PgNode \<Rightarrow> bool" where
  "is_list_node (PgList es) = True"
| "is_list_node (PgResTarget name e) = is_list_node e"
| "is_list_node _ = False"

fun node_sem :: "bind_env \<Rightarrow> eval_env \<Rightarrow> (string \<Rightarrow> Val result) \<Rightarrow> PgNode \<Rightarrow> Val result" where
  "node_sem be env col (PgAConst v) = const_value be v"
| "node_sem be env col (PgResTarget name e) = node_sem be env col e"
| "node_sem be env col (PgColumnRef parts) = (case parts of [PgString n] \<Rightarrow> col n | _ \<Rightarrow> Inl (DbException ''not a column''))"
| "node_sem be env col (PgAExpr kind op l r) =
     operator_value env op (pred_option is_list_node r) (map_option (node_sem be env col) l) (map_option (node_sem be env col) r)"
| "node_sem be env col (PgFuncCall f args dist) =
     FuncCall_Compute (Lower f) (case map (node_sem be env col) args of [] \<Rightarrow> no_child | v # vs \<Rightarrow> v)"
| "node_sem be env col (PgBoolExpr op args) = bool_value op (map (node_sem be env col) args)"
| "node_sem be env col (PgNullTest is_null e) =
     rbind (node_sem be env col e) (\<lambda>v. Inr (Value_bool (if is_null then IsNull v else \<not> IsNull v)))"
| "node_sem be env col (PgList es) = rbind (rmap (node_sem be env col) es) (\<lambda>vs. Inr (Value_list vs))"
| "node_sem be env col (PgTypeCast ty e) =
     rbind (String2Type ty) (\<lambda>t. rbind (node_sem be env col e) (TypeCast_Compute t))"
| "node_sem be env col node = Inl (DbException ''not an expression'')"

text \<open>Expressions with unqualified references to these columns, without aggregates and stars.\<close>

fun plain_node :: "string set \<Rightarrow> PgNode \<Rightarrow> bool" where
  "plain_node C (PgAConst v) = True"
| "plain_node C (PgResTarget name v) = plain_node C v"
| "plain_node C (PgColumnRef parts) = (case parts of [PgString n] \<Rightarrow> n \<in> C | _ \<Rightarrow> False)"
| "plain_node C (PgAExpr kind name l r) = (pred_option (plain_node C) l \<and> pred_option (plain_node C) r)"
| "plain_node C (PgFuncCall f args dist) = (Lower f \<notin> set aggregate_functions \<and> list_all (plain_node C) args)"
| "plain_node C (PgBoolExpr op args) = list_all (plain_node C) args"
| "plain_node C (PgNullTest is_null e) = plain_node C e"
| "plain_node C (PgList es) = list_all (plain_node C) es"
| "plain_node C (PgTypeCast ty e) = plain_node C e"
| "plain_node C _ = False"

text \<open>The bound expression refers to the columns of the table and means what the node means.\<close>

definition table_columns :: "string \<Rightarrow> string option \<Rightarrow> ColumnList \<Rightarrow> string set" where
  "table_columns table table_alias cl = column_names (GetColumnList table table_alias cl)"

definition bound_as :: "bind_env \<Rightarrow> string \<Rightarrow> string option \<Rightarrow> ColumnList \<Rightarrow> PgNode \<Rightarrow> BExpr \<Rightarrow> bool" where
  "bound_as be table table_alias cl node e \<longleftrightarrow>
     refers_to (table_columns table table_alias cl) e \<and> is_list_expr e = is_list_node node \<and>
     (\<forall>env x. sem env (named_value (GetColumnList table table_alias cl) x) e = node_sem be env (named_value cl x) node)"

text \<open>Where the binder looks up columns.\<close>

definition at_table :: "string \<Rightarrow> string option \<Rightarrow> oid_t \<Rightarrow> ColumnList \<Rightarrow> BinderState \<Rightarrow> bool" where
  "at_table table table_alias oid cl bs \<longleftrightarrow> bs_table bs = Some (BaseTableRef table table_alias oid cl)"

lemma emap_inv:
  assumes "\<And>x s y t. x \<in> set xs \<Longrightarrow> I s \<Longrightarrow> f x s = (Inr y, t) \<Longrightarrow> P x y \<and> I t" and "I s"
  shows "emap f xs s = (Inr ys, t) \<Longrightarrow> list_all2 P xs ys \<and> I t"
  using assms
proof (induction xs arbitrary: s ys)
  case (Cons x xs)
  obtain y u zs where s: "f x s = (Inr y, u)" "emap f xs u = (Inr zs, t)" "ys = y # zs"
    using Cons.prems(1) by (auto simp: ebind_eq_Inr_iff eret_def)
  have u: "P x y" "I u" using Cons.prems(2) [OF _ Cons.prems(3) s(1)] by simp_all
  have "list_all2 P xs zs \<and> I t" by (rule Cons.IH [OF s(2) _ u(2)]) (use Cons.prems(2) in auto)
  then show ?case using u(1) s(3) by simp
qed (simp add: eret_def)

lemma table_columns_dots:
  "n \<in> column_names cl \<Longrightarrow> join_dots [BaseTable_GetTableName table table_alias, n] \<in> table_columns table table_alias cl"
  by (auto simp: table_columns_def column_names_def GetColumnList_def)

lemma named_value_dots:
  "named_value (GetColumnList table table_alias cl) x (join_dots [BaseTable_GetTableName table table_alias, n]) = named_value cl x n"
proof -
  let ?g = "\<lambda>c. c\<lparr>cd_name := join_dots [BaseTable_GetTableName table table_alias, cd_name c]\<rparr>"
  have e: "filter (\<lambda>(c, v). cd_name c = join_dots [BaseTable_GetTableName table table_alias, n]) (zip (map ?g cs) vs) =
      map (\<lambda>(c, v). (?g c, v)) (filter (\<lambda>(c, v). cd_name c = n) (zip cs vs))" for cs vs
    by (induction cs vs rule: list_induct2') (simp_all add: join_dots_def)
  show ?thesis
    by (cases "filter (\<lambda>(c, v). cd_name c = n) (zip (cl_columns cl) (r_values x))" rule: remdups_adj.cases)
      (simp_all add: named_value_def GetColumnList_def e split: prod.splits)
qed

lemma resolved_column:
  assumes "at_table table table_alias oid cl bs" "good_columns cl" "n \<in> column_names cl"
    and "resolve_here [n] bs = (Inr e, bs')"
  shows "e = ColumnRefExpression [BaseTable_GetTableName table table_alias, n]" "bs' = bs"
proof -
  obtain i where "TryGetColumnIndex n cl = Some i"
    using assms(2,3) index_ok_lookup [of cl] by (auto simp: good_columns_def column_names_def in_set_conv_nth)
  then show "e = ColumnRefExpression [BaseTable_GetTableName table table_alias, n]" "bs' = bs"
    using assms(1,4) by (auto simp: resolve_here_def at_table_def ResolveColumn_def ResolveColumnFromBaseTable_def Let_def split: if_splits)
qed

lemma note_alias_Inr:
  "note_alias be n e bs = (Inr b, bs') \<Longrightarrow> b = AliasExpression n e \<and> bs_table bs' = bs_table bs"
  by (auto simp: note_alias_def ebind_eq_Inr_iff eret_def)

lemma bound_as_list:
  assumes "list_all2 (bound_as be table table_alias cl) nodes es"
  shows "list_all (refers_to (table_columns table table_alias cl)) es"
    and "map (sem env (named_value (GetColumnList table table_alias cl) x)) es = map (node_sem be env (named_value cl x)) nodes"
    and "rmap (sem env (named_value (GetColumnList table table_alias cl) x)) es = rmap (node_sem be env (named_value cl x)) nodes"
  using assms by (induction nodes es rule: list_all2_induct) (simp_all add: bound_as_def)

lemma sem_foldl:
  assumes "\<And>in_list. apply_op env name in_list = Logic_Compute op"
  shows "sem env col (foldl (BinaryOpExpression name) a es) =
    foldl (\<lambda>x y. rbind x (\<lambda>u. rbind y (Logic_Compute op u))) (sem env col a) (map (sem env col) es)"
  by (induction es arbitrary: a) (simp_all add: assms)

lemma apply_logic:
  "apply_op env ''and'' in_list = Logic_Compute LogicAnd" "apply_op env ''or'' in_list = Logic_Compute LogicOr"
  by (intro ext, simp add: apply_op_def binary_ops_def)+

lemma foldl_refers: "refers_to C a \<Longrightarrow> list_all (refers_to C) es \<Longrightarrow> refers_to C (foldl (BinaryOpExpression name) a es)"
  by (induction es arbitrary: a) simp_all

lemma foldl_not_list: "\<not> is_list_expr a \<Longrightarrow> \<not> is_list_expr (foldl (BinaryOpExpression name) a es)"
  by (induction es arbitrary: a) simp_all

lemma bound_bool_as:
  assumes "list_all2 (bound_as be table table_alias cl) args es" "bound_bool op es = Inr e"
  shows "bound_as be table table_alias cl (PgBoolExpr op args) e"
proof (cases op)
  case PgNot
  then obtain a where "es = [a]" "e = UnaryOpExpression ''not'' a" using assms(2) by (auto simp: bound_bool_def split: list.splits)
  then show ?thesis using assms(1) PgNot by (auto simp: list_all2_Cons2 bound_as_def bool_value_def)
next
  case PgAnd
  then obtain a b es' where es: "es = a # b # es'" "e = foldl (BinaryOpExpression ''and'') (BinaryOpExpression ''and'' a b) es'"
    using assms(2) by (auto simp: bound_bool_def Let_def split: list.splits)
  note l = bound_as_list [OF assms(1)]
  have "sem env col e = bool_value PgAnd (map (sem env col) es)" for env col
    unfolding es by (simp add: bool_value_def sem_foldl [OF apply_logic(1)] apply_logic)
  then show ?thesis using l(1,2) PgAnd foldl_refers foldl_not_list by (simp add: bound_as_def es)
next
  case PgOr
  then obtain a b es' where es: "es = a # b # es'" "e = foldl (BinaryOpExpression ''or'') (BinaryOpExpression ''or'' a b) es'"
    using assms(2) by (auto simp: bound_bool_def Let_def split: list.splits)
  note l = bound_as_list [OF assms(1)]
  have "sem env col e = bool_value PgOr (map (sem env col) es)" for env col
    unfolding es by (simp add: bool_value_def sem_foldl [OF apply_logic(2)] apply_logic)
  then show ?thesis using l(1,2) PgOr foldl_refers foldl_not_list by (simp add: bound_as_def es)
qed

lemma bound_function_as:
  assumes "list_all2 (bound_as be table table_alias cl) args es" "bound_function (Lower f) es dist = Inr e"
    and "Lower f \<notin> set aggregate_functions"
  shows "bound_as be table table_alias cl (PgFuncCall f args dist) e"
proof -
  have e: "e = FuncCallExpression (Lower f) es" using assms(2,3) by (auto simp: bound_function_def split: if_splits)
  show ?thesis
    using assms(1) bound_as_list(1) [OF assms(1)] by (cases es) (auto simp: e bound_as_def list_all2_Cons2)
qed

lemma bound_operands:
  assumes "BindExpression be (PgAExpr kind name l r) bs = (Inr e, bs')"
  obtains l' r' a b u where "l = Some l'" "r = Some r'" "BindExpression be l' bs = (Inr a, u)"
    "BindExpression be r' u = (Inr b, bs')" "e = BinaryOpExpression name a b"
proof -
  have k: "kind \<noteq> AexprOther" using assms by (auto simp: ethrow_def)
  obtain a b u where s: "(case l of None \<Rightarrow> eret None | Some e \<Rightarrow> ebind (BindExpression be e) (\<lambda>b. eret (Some b))) bs = (Inr a, u)"
    "(case r of None \<Rightarrow> eret None | Some e \<Rightarrow> ebind (BindExpression be e) (\<lambda>b. eret (Some b))) u = (Inr b, bs')"
    "bound_binary kind name a b = Inr e"
    using assms k by (auto simp: ebind_eq_Inr_iff)
  obtain a' b' where ab: "a = Some a'" "b = Some b'" "e = BinaryOpExpression name a' b'"
    using s(3) by (auto simp: bound_binary_def split: option.splits)
  obtain l' where l': "l = Some l'" "BindExpression be l' bs = (Inr a', u)"
    using s(1) ab(1) by (cases l) (auto simp: ebind_eq_Inr_iff eret_def)
  obtain r' where r': "r = Some r'" "BindExpression be r' u = (Inr b', bs')"
    using s(2) ab(2) by (cases r) (auto simp: ebind_eq_Inr_iff eret_def)
  show thesis by (rule that [OF l'(1) r'(1) l'(2) r'(2) ab(3)])
qed

text \<open>The operands of an operator are bound one after the other, so where columns are looked up must not change.\<close>

lemma bound_nodes:
  assumes "\<And>node bs e bs'. node \<in> set nodes \<Longrightarrow> plain_node (column_names cl) node \<Longrightarrow> BindExpression be node bs = (Inr e, bs') \<Longrightarrow>
      at_table table table_alias oid cl bs \<Longrightarrow> bound_as be table table_alias cl node e \<and> at_table table table_alias oid cl bs'"
    and "list_all (plain_node (column_names cl)) nodes" "at_table table table_alias oid cl bs"
    and "emap (BindExpression be) nodes bs = (Inr es, bs')"
  shows "list_all2 (bound_as be table table_alias cl) nodes es \<and> at_table table table_alias oid cl bs'"
  using assms by (intro emap_inv [where I = "at_table table table_alias oid cl" and f = "BindExpression be"]) (auto simp: list_all_iff)

lemma bound_column_as:
  assumes "good_columns cl" "plain_node (column_names cl) (PgColumnRef parts)" "BindExpression be (PgColumnRef parts) bs = (Inr e, bs')"
    and at: "at_table table table_alias oid cl bs"
  shows "bound_as be table table_alias cl (PgColumnRef parts) e \<and> at_table table table_alias oid cl bs'"
proof -
  obtain n where n: "parts = [PgString n]" "n \<in> column_names cl"
    using assms(2) by (cases parts rule: remdups_adj.cases) (auto split: PgNode.splits)
  have "resolve_here [n] bs = (Inr e, bs')"
    using assms(3) n(1) by (simp add: BindColumnRefExpression_def ebind_eq_Inr_iff elift_def)
  from resolved_column [OF at assms(1) n(2) this] show ?thesis
    using n(1) at table_columns_dots [OF n(2)] by (simp add: bound_as_def named_value_dots)
qed

lemma bound_node:
  assumes cl: "good_columns cl"
  shows "plain_node (column_names cl) node \<Longrightarrow> BindExpression be node bs = (Inr e, bs') \<Longrightarrow> at_table table table_alias oid cl bs \<Longrightarrow>
    bound_as be table table_alias cl node e \<and> at_table table table_alias oid cl bs'"
proof (induction node arbitrary: bs e bs')
  case (PgColumnRef parts)
  show ?case by (rule bound_column_as [OF cl PgColumnRef.prems])
next
  case (PgResTarget name v)
  then obtain b u where s: "BindExpression be v bs = (Inr b, u)"
    "(case name of None \<Rightarrow> eret b | Some n \<Rightarrow> note_alias be n b) u = (Inr e, bs')"
    by (auto simp: ebind_eq_Inr_iff)
  have "bound_as be table table_alias cl v b \<and> at_table table table_alias oid cl u"
    using PgResTarget.IH [OF _ s(1)] PgResTarget.prems(1,3) by simp
  then show ?case using s(2) by (cases name) (auto simp: eret_def at_table_def bound_as_def dest!: note_alias_Inr)
next
  case (PgAExpr kind name l r)
  obtain l' r' a b u where s: "l = Some l'" "r = Some r'" "BindExpression be l' bs = (Inr a, u)"
    "BindExpression be r' u = (Inr b, bs')" "e = BinaryOpExpression name a b"
    by (rule bound_operands [OF PgAExpr.prems(2)])
  have "bound_as be table table_alias cl l' a \<and> at_table table table_alias oid cl u"
    using PgAExpr.IH(1) [of l' bs a u] PgAExpr.prems(1,3) s by simp
  then show ?case
    using PgAExpr.IH(2) [of r' u b bs'] PgAExpr.prems(1) s by (simp add: bound_as_def operator_value_def)
next
  case (PgFuncCall f args dist)
  then obtain es where s: "emap (BindExpression be) args bs = (Inr es, bs')" "bound_function (Lower f) es dist = Inr e"
    by (auto simp: ebind_eq_Inr_iff)
  have "list_all2 (bound_as be table table_alias cl) args es \<and> at_table table table_alias oid cl bs'"
    by (rule bound_nodes [OF PgFuncCall.IH _ PgFuncCall.prems(3) s(1)]) (use PgFuncCall.prems(1) in simp_all)
  then show ?case using bound_function_as [OF _ s(2)] PgFuncCall.prems(1) by simp
next
  case (PgBoolExpr op args)
  then obtain es where s: "emap (BindExpression be) args bs = (Inr es, bs')" "bound_bool op es = Inr e"
    by (auto simp: ebind_eq_Inr_iff)
  have "list_all2 (bound_as be table table_alias cl) args es \<and> at_table table table_alias oid cl bs'"
    by (rule bound_nodes [OF PgBoolExpr.IH _ PgBoolExpr.prems(3) s(1)]) (use PgBoolExpr.prems(1) in simp_all)
  then show ?case using bound_bool_as [OF _ s(2)] by simp
next
  case (PgList items)
  then obtain es where s: "emap (BindExpression be) items bs = (Inr es, bs')" "e = ListExpression es"
    by (auto simp: ebind_eq_Inr_iff eret_def)
  have "list_all2 (bound_as be table table_alias cl) items es \<and> at_table table table_alias oid cl bs'"
    by (rule bound_nodes [OF PgList.IH _ PgList.prems(3) s(1)]) (use PgList.prems(1) in simp_all)
  then show ?case using bound_as_list(1,3) [of be table table_alias cl items es] s(2) by (simp add: bound_as_def)
next
  case (PgNullTest is_null v)
  then obtain b where "BindExpression be v bs = (Inr b, bs')" "e = NullTestExpression is_null b"
    by (auto simp: ebind_eq_Inr_iff eret_def)
  then show ?case using PgNullTest.IH [of bs b bs'] PgNullTest.prems(1,3) by (simp add: bound_as_def)
next
  case (PgTypeCast ty v)
  then obtain b t where s: "BindExpression be v bs = (Inr b, bs')" "String2Type ty = Inr t" "e = TypeCastExpression t b"
    by (auto simp: ebind_eq_Inr_iff eret_def)
  then show ?case using PgTypeCast.IH [of bs b bs'] PgTypeCast.prems(1,3) by (simp add: bound_as_def)
next
  case (PgAConst v)
  then show ?case
    by (auto simp: BindConstExpression_def rbind_eq_Inr_iff bound_as_def const_value_def split: PgValue.splits)
qed simp_all

section \<open>Queries over one table\<close>

text \<open>
  What a \<^verbatim>\<open>SELECT\<close> over one table means, read off its parse tree: the rows of the table that satisfy the
  condition, cut to the limit and the offset, with the targets evaluated; a star stands for the row.
\<close>

definition star_target :: PgNode where
  "star_target = PgResTarget None (PgColumnRef [PgAStar])"

definition node_satisfied :: "bind_env \<Rightarrow> eval_env \<Rightarrow> ColumnList \<Rightarrow> PgNode \<Rightarrow> Record \<Rightarrow> bool result" where
  "node_satisfied be env cl node x =
     rbind (node_sem be env (named_value cl x) node) (\<lambda>v. if IsNull v then Inr False else GetValue_bool v)"

definition node_where :: "bind_env \<Rightarrow> eval_env \<Rightarrow> ColumnList \<Rightarrow> PgNode option \<Rightarrow> Record list \<Rightarrow> Record list option" where
  "node_where be env cl clause xs =
     (case clause of
        None \<Rightarrow> Some xs
      | Some e \<Rightarrow>
          if list_all (\<lambda>x. \<exists>b. node_satisfied be env cl e x = Inr b) xs \<and> length xs < ROW_FUEL
          then Some (filter (\<lambda>x. node_satisfied be env cl e x = Inr True) xs) else None)"

definition node_values :: "bind_env \<Rightarrow> eval_env \<Rightarrow> ColumnList \<Rightarrow> PgNode list \<Rightarrow> Record \<Rightarrow> Val list result" where
  "node_values be env cl items x =
     (if items = [star_target] then Inr (r_values x) else rmap (node_sem be env (named_value cl x)) items)"

definition node_count :: "PgNode option \<Rightarrow> 32 word option" where
  "node_count e = (case e of Some (PgAConst (PgInteger i)) \<Rightarrow> Some (ucast i) | _ \<Rightarrow> None)"

definition query_rows :: "bind_env \<Rightarrow> eval_env \<Rightarrow> ColumnList \<Rightarrow> PgSelectStmt \<Rightarrow> Record list \<Rightarrow> Record list option" where
  "query_rows be env cl stmt xs =
     (case pg_targetList stmt of
        None \<Rightarrow> None
      | Some items \<Rightarrow>
          Option.bind (node_where be env cl (pg_whereClause stmt) xs) (\<lambda>ys.
          Option.bind (limit_rows (node_count (pg_limitCount stmt)) (node_count (pg_limitOffset stmt)) ys) (\<lambda>zs.
          case rmap (\<lambda>x. rbind (node_values be env cl items x) (\<lambda>vs. Record_new vs (r_rid x))) zs of
            Inl _ \<Rightarrow> None | Inr rows \<Rightarrow> Some rows)))"

definition plain_count :: "PgNode option \<Rightarrow> bool" where
  "plain_count e \<longleftrightarrow> e = None \<or> (\<exists>i. e = Some (PgAConst (PgInteger i)))"

text \<open>One table, no grouping, no order, no lock, no \<^verbatim>\<open>DISTINCT\<close>.\<close>

definition plain_query :: "string \<Rightarrow> string option \<Rightarrow> string set \<Rightarrow> PgSelectStmt \<Rightarrow> bool" where
  "plain_query table table_alias C stmt \<longleftrightarrow>
     pg_valuesLists stmt = None \<and> pg_fromClause stmt = Some [PgRangeVar table table_alias] \<and>
     pred_option (plain_node C) (pg_whereClause stmt) \<and>
     (\<exists>items. pg_targetList stmt = Some items \<and> (items = [star_target] \<or> list_all (plain_node C) items)) \<and>
     pg_groupClause stmt = None \<and> pg_havingClause stmt = None \<and> pg_sortClause stmt = None \<and>
     plain_count (pg_limitCount stmt) \<and> plain_count (pg_limitOffset stmt) \<and>
     pg_lockingClause stmt = None \<and> \<not> pg_distinctClause stmt"

lemma good_table_columns: "good_columns cl \<Longrightarrow> good_columns (GetColumnList table table_alias cl)"
  unfolding GetColumnList_def
  by (rule good_columns_new) (auto simp: good_columns_def distinct_map inj_on_def join_dots_def)

lemma bind_plain_targets:
  assumes "good_columns cl"
  shows "list_all (plain_node (column_names cl)) items \<Longrightarrow> at_table table table_alias oid cl bs \<Longrightarrow>
    bind_targets be t exprs items bs = (Inr es, bs') \<Longrightarrow>
    (\<exists>new. es = exprs @ new \<and> list_all2 (bound_as be table table_alias cl) items new) \<and> at_table table table_alias oid cl bs'"
proof (induction items arbitrary: exprs bs)
  case Nil
  then show ?case by (simp add: eret_def)
next
  case (Cons node items)
  obtain e u where e: "BindExpression be node bs = (Inr e, u)"
    "(if e = StarExpression then ebind (elift (GetAllColumns t)) (\<lambda>cols. bind_targets be t cols items)
      else bind_targets be t (exprs @ [e]) items) u = (Inr es, bs')"
    using Cons.prems(3) by (auto simp: ebind_eq_Inr_iff)
  have b: "bound_as be table table_alias cl node e" "at_table table table_alias oid cl u"
    using bound_node [OF assms _ e(1) Cons.prems(2)] Cons.prems(1) by simp_all
  have "e \<noteq> StarExpression" using b(1) by (auto simp: bound_as_def)
  then have "bind_targets be t (exprs @ [e]) items u = (Inr es, bs')" using e(2) by simp
  from Cons.IH [OF _ b(2) this] show ?case using Cons.prems(1) b(1) by auto
qed

lemma bind_star: "bind_targets be t exprs [star_target] bs = (Inr es, bs') \<Longrightarrow> GetAllColumns t = Inr es \<and> bs' = bs"
  by (auto simp: star_target_def BindColumnRefExpression_def ebind_eq_Inr_iff eret_def)

lemma rmap_Inr [simp]: "rmap Inr xs = Inr xs"
  by (induction xs) simp_all

lemma star_refers:
  "GetAllColumns (BaseTableRef table table_alias oid cl) = Inr es \<Longrightarrow> list_all (refers_to (table_columns table table_alias cl)) es"
  using table_columns_dots by (auto simp: list_all_iff column_names_def)

lemma star_values:
  assumes "good_columns cl" "fits_columns cl x" "GetAllColumns (BaseTableRef table table_alias oid cl) = Inr es"
  shows "rmap (sem env (named_value (GetColumnList table table_alias cl) x)) es = Inr (r_values x)"
proof -
  have "rmap (\<lambda>c. named_value cl x (cd_name c)) (cl_columns cl) = rmap Inr (r_values x)"
    using assms(1,2) named_value_at
    by (intro rmap_all2) (auto simp: list_all2_conv_all_nth fits_columns_def good_columns_def)
  moreover have "es = map (\<lambda>c. ColumnRefExpression [BaseTable_GetTableName table table_alias, cd_name c]) (cl_columns cl)"
    using assms(3) by simp
  ultimately show ?thesis by (simp add: named_value_dots comp_def)
qed

text \<open>The bound statement has the rows of the parse tree.\<close>

lemma where_rows_bound:
  assumes "rel_option (bound_as be table table_alias cl) clause condition"
  shows "where_rows env (GetColumnList table table_alias cl) condition xs = node_where be env cl clause xs"
proof (cases clause)
  case (Some node)
  then obtain e where e: "condition = Some e" "bound_as be table table_alias cl node e"
    using assms by (auto simp: option_rel_Some1)
  then have "satisfied env (GetColumnList table table_alias cl) e = node_satisfied be env cl node"
    by (intro ext) (simp add: satisfied_def node_satisfied_def bound_as_def)
  then show ?thesis using Some e(1) by (simp add: where_rows_def node_where_def)
qed (use assms in \<open>simp add: where_rows_def node_where_def\<close>)

lemma bind_opt_Inr:
  "bind_opt f c bs = (Inr r, bs') \<longleftrightarrow>
     (case c of None \<Rightarrow> r = None \<and> bs' = bs | Some x \<Rightarrow> \<exists>y. f x bs = (Inr y, bs') \<and> r = Some y)"
  by (auto simp: bind_opt_def ebind_eq_Inr_iff eret_def split: option.splits)

lemma GetValue_int_new: "GetValue_int (Value_int i) = Inr i"
proof -
  have "ucast (ucast i :: 64 word) = i" by (rule bit_word_eqI) (simp add: bit_simps)
  then show ?thesis by (simp add: GetValue_int_def Value_int_def IsNull_def v_int_def)
qed

lemma bind_count:
  assumes "plain_count c" "bind_opt (BindExpression be) c bs = (Inr e, bs')"
  shows "bs' = bs \<and> const_or_none e \<and> const_count e = node_count c"
proof (cases c)
  case (Some node)
  then obtain i where "node = PgAConst (PgInteger i)" using assms(1) by (auto simp: plain_count_def)
  then show ?thesis
    using assms(2) Some by (auto simp: bind_opt_Inr BindConstExpression_def const_or_none_def const_count_def node_count_def GetValue_int_new)
qed (use assms(2) in \<open>simp add: bind_opt_Inr const_or_none_def const_count_def node_count_def\<close>)

text \<open>The bound targets give the values of the targets.\<close>

definition targets_as :: "bind_env \<Rightarrow> string \<Rightarrow> string option \<Rightarrow> ColumnList \<Rightarrow> PgNode list \<Rightarrow> BExpr list \<Rightarrow> bool" where
  "targets_as be table table_alias cl items es \<longleftrightarrow> list_all (refers_to (table_columns table table_alias cl)) es \<and>
     (\<forall>env x. fits_columns cl x \<longrightarrow>
        rmap (sem env (named_value (GetColumnList table table_alias cl) x)) es = node_values be env cl items x)"

lemma bind_select_list:
  assumes cl: "good_columns cl" and items: "items = [star_target] \<or> list_all (plain_node (column_names cl)) items"
    and at: "at_table table table_alias oid cl bs" and run: "BindSelectList be (Some items) bs = (Inr es, bs')"
  shows "targets_as be table table_alias cl items es \<and> at_table table table_alias oid cl bs'"
proof -
  have r: "bind_targets be (BaseTableRef table table_alias oid cl) [] items bs = (Inr es, bs')"
    using run at by (auto simp: BindSelectList_def ebind_eq_Inr_iff eget_def at_table_def)
  show ?thesis
  proof (cases "items = [star_target]")
    case True
    from bind_star [OF r [unfolded True]] have es: "GetAllColumns (BaseTableRef table table_alias oid cl) = Inr es" "bs' = bs"
      by blast+
    show ?thesis using star_refers [OF es(1)] star_values [OF cl _ es(1)] at es(2) True by (simp add: targets_as_def node_values_def)
  next
    case False
    then have "list_all2 (bound_as be table table_alias cl) items es" "at_table table table_alias oid cl bs'"
      using bind_plain_targets [OF cl _ at r] items by auto
    then show ?thesis using bound_as_list False by (simp add: targets_as_def node_values_def)
  qed
qed

text \<open>What the binder makes of a query over one table.\<close>

definition select_bound :: "bind_env \<Rightarrow> string \<Rightarrow> string option \<Rightarrow> oid_t \<Rightarrow> ColumnList \<Rightarrow> PgSelectStmt \<Rightarrow> SelectStatement \<Rightarrow> bool" where
  "select_bound be table table_alias oid cl stmt b \<longleftrightarrow>
     ss_table b = BaseTableRef table table_alias oid cl \<and>
     rel_option (bound_as be table table_alias cl) (pg_whereClause stmt) (ss_where b) \<and>
     (\<exists>items. pg_targetList stmt = Some items \<and> targets_as be table table_alias cl items (ss_select_list b)) \<and>
     const_or_none (ss_limit_count b) \<and> const_count (ss_limit_count b) = node_count (pg_limitCount stmt) \<and>
     const_or_none (ss_limit_offset b) \<and> const_count (ss_limit_offset b) = node_count (pg_limitOffset stmt) \<and>
     ss_group_by b = [] \<and> ss_order_by b = [] \<and> ss_lock_type b = NOLOCK \<and> \<not> ss_distinct b"

lemma bind_one_table:
  assumes "bd_GetTableOid be table = Inr oid" "bd_GetTableColumnList be table = Inr cl"
    and "BindFrom be (Some [PgRangeVar table table_alias]) bs = (Inr t, bs')"
  shows "t = BaseTableRef table table_alias oid cl"
  using assms by (auto simp: BindFrom_def BindBaseTableRef_def base_ref_def ebind_eq_Inr_iff Let_def eret_def ethrow_def split: if_splits)

lemma bind_condition:
  assumes cl: "good_columns cl" and "pred_option (plain_node (column_names cl)) clause" "at_table table table_alias oid cl bs"
    and "bind_opt (BindExpression be) clause bs = (Inr condition, bs')"
  shows "rel_option (bound_as be table table_alias cl) clause condition \<and> at_table table table_alias oid cl bs'"
proof (cases clause)
  case (Some node)
  then obtain e where "BindExpression be node bs = (Inr e, bs')" "condition = Some e" using assms(4) by (auto simp: bind_opt_Inr)
  then show ?thesis using bound_node [OF cl _ _ assms(3)] assms(2) Some by simp
qed (use assms in \<open>simp add: bind_opt_Inr\<close>)

lemma bind_select:
  assumes cl: "good_columns cl" and q: "plain_query table table_alias (column_names cl) stmt"
    and be: "bd_GetTableOid be table = Inr oid" "bd_GetTableColumnList be table = Inr cl"
    and run: "BindSelectStatement be stmt bs = (Inr b, bs')"
  shows "select_bound be table table_alias oid cl stmt b"
proof -
  obtain items where items: "pg_targetList stmt = Some items" "items = [star_target] \<or> list_all (plain_node (column_names cl)) items"
    using q by (auto simp: plain_query_def)
  obtain t u1 w u2 es u3 n u4 m where s: "BindFrom be (pg_fromClause stmt) bs = (Inr t, u1)"
    "bind_opt (BindExpression be) (pg_whereClause stmt) (u1\<lparr>bs_table := Some t\<rparr>) = (Inr w, u2)"
    "BindSelectList be (Some items) u2 = (Inr es, u3)"
    "bind_opt (BindExpression be) (pg_limitCount stmt) (u3\<lparr>bs_adding_alias := False\<rparr>) = (Inr n, u4)"
    "bind_opt (BindExpression be) (pg_limitOffset stmt) u4 = (Inr m, bs')"
    "b = \<lparr>ss_table = t, ss_select_list = es, ss_where = w, ss_group_by = [], ss_having = None, ss_order_by = [],
       ss_limit_count = n, ss_limit_offset = m, ss_lock_type = NOLOCK, ss_distinct = False\<rparr>"
    using run q items(1)
    by (auto simp: BindSelectStatement_def plain_query_def ebind_eq_Inr_iff eret_def bind_opt_def [of _ None] bind_locking_def)
  have t: "t = BaseTableRef table table_alias oid cl"
    by (rule bind_one_table [OF be]) (use s(1) q in \<open>simp add: plain_query_def\<close>)
  then have w: "rel_option (bound_as be table table_alias cl) (pg_whereClause stmt) w" "at_table table table_alias oid cl u2"
    using bind_condition [OF cl _ _ s(2)] q by (simp_all add: plain_query_def at_table_def)
  show ?thesis
    using t w(1) bind_select_list [OF cl items(2) w(2) s(3)] bind_count [OF _ s(4)] bind_count [OF _ s(5)] q items(1)
    by (auto simp: select_bound_def s(6) plain_query_def)
qed

lemma select_bound_plain:
  assumes "select_bound be table table_alias oid cl stmt b"
  shows "plain_select (GetColumnList table table_alias cl) b"
proof -
  have "pred_option (refers_to (table_columns table table_alias cl)) (ss_where b)"
    using assms by (auto simp: select_bound_def bound_as_def option_rel_Some2 option.pred_set elim: option.rel_cases)
  then show ?thesis using assms by (auto simp: select_bound_def plain_select_def targets_as_def table_columns_def)
qed

lemma rmap_cong_on: "(\<And>x. x \<in> set xs \<Longrightarrow> f x = g x) \<Longrightarrow> rmap f xs = rmap g xs"
  by (induction xs) simp_all

lemma select_bound_rows:
  assumes b: "select_bound be table table_alias oid cl stmt b" and fits: "\<forall>x \<in> set xs. fits_columns cl x"
  shows "statement_rows env (GetColumnList table table_alias cl) b xs = query_rows be env cl stmt xs"
proof -
  obtain items where items: "pg_targetList stmt = Some items" "targets_as be table table_alias cl items (ss_select_list b)"
    using b by (auto simp: select_bound_def)
  note w = where_rows_bound [of be table table_alias cl "pg_whereClause stmt" "ss_where b" env xs]
  have r: "select_rows env (GetColumnList table table_alias cl) (ss_select_list b) zs =
      (case rmap (\<lambda>x. rbind (node_values be env cl items x) (\<lambda>vs. Record_new vs (r_rid x))) zs of Inl _ \<Rightarrow> None | Inr rows \<Rightarrow> Some rows)"
    if "\<forall>x \<in> set zs. fits_columns cl x" for zs
  proof -
    have "rmap (select_row env (GetColumnList table table_alias cl) (ss_select_list b)) zs =
        rmap (\<lambda>x. rbind (node_values be env cl items x) (\<lambda>vs. Record_new vs (r_rid x))) zs"
      by (rule rmap_cong_on) (use items(2) that in \<open>simp add: select_row_def targets_as_def\<close>)
    then show ?thesis by (simp add: select_rows_def)
  qed
  have "select_rows env (GetColumnList table table_alias cl) (ss_select_list b) zs =
      (case rmap (\<lambda>x. rbind (node_values be env cl items x) (\<lambda>vs. Record_new vs (r_rid x))) zs of Inl _ \<Rightarrow> None | Inr rows \<Rightarrow> Some rows)"
    if "where_rows env (GetColumnList table table_alias cl) (ss_where b) xs = Some ys" "limit_rows n m ys = Some zs" for n m ys zs
    using r where_rows_subset [OF that(1)] limit_rows_subset [OF that(2)] fits by blast
  then show ?thesis using b w items(1) by (auto simp: statement_rows_def query_rows_def select_bound_def intro!: bind_option_cong)
qed

lemma bind_targets_append:
  "bind_targets be t exprs (items @ items') bs = (Inr es, bs') \<Longrightarrow>
    \<exists>mid u. bind_targets be t exprs items bs = (Inr mid, u) \<and> bind_targets be t mid items' u = (Inr es, bs')"
  by (induction items arbitrary: exprs bs) (fastforce simp: ebind_eq_Inr_iff eret_def split: if_splits)+

lemma column_length_of_nat:
  assumes "n < 2 ^ 31"
  shows "column_length fm [ConstExpression (Value_int (of_nat n))] =
    (if n mod 65536 = 0 then Inl (DbException ''length must be at least 1'') else Inr (of_nat n))"
proof -
  have "sint (of_nat n :: 32 word) = int n" using assms by (simp add: signed_of_nat signed_take_bit_int_eq_self)
  moreover have "ucast (ucast (of_nat n :: 32 word) :: 64 word) = (of_nat n :: 32 word)" by (rule bit_word_eqI) (simp add: bit_simps)
  ultimately have "ToString (fm_fp fm) (Value_int (of_nat n)) = Inr (nat_to_string n)" by (simp add: Value_int_def int_to_string_def)
  moreover have "(of_nat n :: db_size_t) = 0 \<longleftrightarrow> n mod 65536 = 0" by (simp add: word_of_nat_eq_0_iff dvd_eq_mod_eq_0)
  ultimately show ?thesis using stoi_nat_to_string [OF assms] by (simp add: column_length_def Let_def)
qed

lemma bind_length: "n < 2 ^ 31 \<Longrightarrow>
  BindExpressionList be [PgAConst (PgInteger (of_nat n))] bs = (Inr [ConstExpression (Value_int (of_nat n))], bs)"
  by (simp add: BindExpressionList_def BindConstExpression_def ebind_def elift_def eret_def unsigned_of_nat take_bit_nat_eq_self)

text \<open>The rows that the plan of a bound query denotes, and its filters.\<close>

lemma parsed_rows:
  assumes rows: "T oid = Some xs" "\<forall>x \<in> set xs. fits_columns cl x" and cl: "good_columns cl"
    and sb: "select_bound be table table_alias oid cl stmt b"
    and p: "planned (qc_env c) (bd_fmt be) fj (BSelect b) = Inr p"
  shows "query_rows be (qc_env c) cl stmt xs = Some ys \<Longrightarrow> plan_rows c T p = Some ys"
    and "pg_whereClause stmt = None \<Longrightarrow> plan_filters p = []"
proof -
  let ?tp = "PlanBaseTable table table_alias oid cl False"
  have t: "PlanTableRef (bd_fmt be) fj (ss_table b) False Planner_new = (Inr ?tp, Planner_new)"
    using sb by (simp add: select_bound_def eret_def)
  have out: "OutputColumns ?tp = GetColumnList table table_alias cl" by (simp add: PlanBaseTable_def)
  note plain = select_bound_plain [OF sb]
  show "plan_rows c T p = Some ys" if "query_rows be (qc_env c) cl stmt xs = Some ys"
  proof (rule planned_select_rows [OF t, unfolded out, OF _ _ _ plain p])
    show "plan_rows c T (plan_of [] ?tp) = Some xs" using rows(1) by (simp add: plan_of_def PlanBaseTable_def)
    show "statement_rows (qc_env c) (GetColumnList table table_alias cl) b xs = Some ys"
      using that select_bound_rows [OF sb rows(2)] by simp
    show "good_columns (GetColumnList table table_alias cl)" by (rule good_table_columns [OF cl])
    show "\<forall>x \<in> set xs. fits_columns (GetColumnList table table_alias cl) x"
      using rows(2) by (simp add: fits_columns_def GetColumnList_def)
  qed
  show "plan_filters p = []" if "pg_whereClause stmt = None"
    using planned_no_filter [OF t plain _ _ p] that sb by (auto simp: select_bound_def plan_of_def PlanBaseTable_def)
qed

section \<open>Properties\<close>

text \<open>
  C36. A column reference is bound to the one table of a \<^verbatim>\<open>FROM\<close> clause that owns it: over base tables joined in any way,
  the search through the tree of joins finds nothing when no table owns the name, the qualified name when
  exactly one does, and is refused as ambiguous otherwise. An unqualified name is owned by the tables
  that have a column of that name; a qualified one by the tables called by its first part, whether or
  not they have the column: the column itself is looked for later, by the planner.
\<close>

theorem resolve_unique:
  "names \<noteq> [] \<Longrightarrow> only_tables table \<Longrightarrow> resolves names (base_tables table) (ResolveColumnInternal table names)"
  by (rule ResolveColumnInternal_resolves)

text \<open>
  C6. From the parse tree to the rows, for plain queries: \<^verbatim>\<open>SELECT\<close> over one table, with or without an alias, without
  \<^verbatim>\<open>DISTINCT\<close>, grouping, \<^verbatim>\<open>HAVING\<close>, ordering and locking clause, whose limit and offset are integer constants, and whose
  targets (or a single star) and condition are built of constants, unqualified columns of the table, operators, lists, null tests, casts
  and functions, but no aggregates. When the table is stored in the pool and can be locked for reading, its columns have distinct names, the binder and the planner accept
  the query, and the rows it asks for are defined, the
  executors of the plan return, one record per call and then null, the rows that the parse tree asks for, with each
  column read by the name in the statement.
\<close>

theorem query_from_parse_tree:
  assumes w: "world_ok c W q" and rows: "world_rows c W oid = Some xs" "\<forall>x \<in> set xs. fits_columns cl x"
    and be: "bd_GetTableOid be table = Inr oid" "bd_GetTableColumnList be table = Inr cl" "good_columns cl"
    and plain: "plain_query table table_alias (column_names cl) stmt"
    and b: "BindSelectStatement be stmt Binder_new = (Inr b, bs)"
    and p: "planned (qc_env c) (bd_fmt be) fj (BSelect b) = Inr p"
    and ys: "query_rows be (qc_env c) cl stmt xs = Some ys"
  shows "\<exists>x s'. CreateExecutor q p = Inr x \<and>
    calls (Exec_Next c p) n (q, x) = (Inr (take n (map Some ys @ replicate n None)), s')"
  using query_tree_calls [OF w parsed_rows(1) [where T = "world_rows c W", OF rows be(3) bind_select [OF be(3) plain be(1,2) b] p ys], of n] by blast

text \<open>
  C37. The length of a \<^verbatim>\<open>CHAR\<close> or \<^verbatim>\<open>VARCHAR\<close> column is what is left of it in 16 bits: \<^verbatim>\<open>CHAR(65537)\<close> is a column
  of length 1, and a multiple of 65536 is refused as if it were 0.
\<close>

theorem column_length_wraps:
  assumes "type_name = ''bpchar'' \<or> type_name = ''varchar''" "n < 2 ^ 31"
  shows "BindColumnDefinition be col_name type_name (Some [PgAConst (PgInteger (of_nat n))]) bs =
    ((if n mod 65536 = 0 then Inl (DbException ''length must be at least 1'')
      else Inr \<lparr>cd_name = col_name, cd_type = (if type_name = ''bpchar'' then TCHAR else TVARCHAR), cd_max_size = of_nat n\<rparr>), bs)"
proof -
  have "type_name \<noteq> ''int4''" "type_name \<noteq> ''double''" using assms(1) by auto
  then show ?thesis
    using assms(1) by (auto simp: BindColumnDefinition_def bind_length [OF assms(2)] column_length_of_nat [OF assms(2)]
        ebind_def elift_def eret_def)
qed

text \<open>
  C38. The target of an \<^verbatim>\<open>INSERT\<close> and the tables of its query share the set of names that
  a statement may use once: an \<^verbatim>\<open>INSERT INTO t SELECT\<close> without a list of columns whose query has \<open>t\<close> itself, without an
  alias, as the first table of its \<^verbatim>\<open>FROM\<close> clause is refused as a repeated table name.
\<close>

theorem insert_from_itself:
  assumes "bd_GetTableOid be table = Inr oid" "bd_GetTableColumnList be table = Inr cl"
    and "pg_valuesLists stmt = None" "pg_fromClause stmt = Some (PgRangeVar table None # nodes)"
  shows "fst (BindInsertStatement be table None stmt Binder_new) =
    Inl (DbException (''Table name '' @ quoted table @ '' specified more than once''))"
  using assms
  by (simp add: BindInsertStatement_def BindSelectStatement_def BindFrom_def BindBaseTableRef_def BaseTable_GetTableName_def
      Binder_new_def bind_opt_def ebind_def elift_def eret_def ethrow_def eget_def emodify_def)

text \<open>
  C39. A star in a select list replaces every target before it: \<^verbatim>\<open>SELECT a + 1, * FROM t\<close> returns the columns of the table
  only.
\<close>

theorem star_drops_targets:
  assumes "bs_table bs = Some t" "BindSelectList be (Some (items @ [star_target])) bs = (Inr es, bs')"
  shows "GetAllColumns t = Inr es"
proof -
  have "bind_targets be t [] (items @ [star_target]) bs = (Inr es, bs')"
    using assms by (auto simp: BindSelectList_def ebind_eq_Inr_iff eget_def)
  from bind_targets_append [OF this] show ?thesis using bind_star by blast
qed

section \<open>The properties on concrete statements\<close>

definition sample_bind :: bind_env where
  "sample_bind = \<lparr>bd_GetTableOid = (\<lambda>name. if name = ''t'' then Inr 10001 else Inl (DbException ''Table does not exist'')),
     bd_GetTableColumnList = (\<lambda>name. if name = ''t'' then Inr sample_bound_columns else Inl (DbException ''Table does not exist'')),
     bd_stod = (\<lambda>str. Inl (RuntimeError ''stod'')), bd_fmt = sample_fmt\<rparr>"

text \<open>\<^verbatim>\<open>SELECT name AS who FROM t WHERE id = 42 LIMIT 1\<close>\<close>

definition sample_parse :: PgSelectStmt where
  "sample_parse = \<lparr>pg_valuesLists = None, pg_targetList = Some [PgResTarget (Some ''who'') (PgColumnRef [PgString ''name''])],
     pg_fromClause = Some [PgRangeVar ''t'' None], pg_distinctClause = False,
     pg_whereClause = Some (PgAExpr AexprOp ''='' (Some (PgColumnRef [PgString ''id''])) (Some (PgAConst (PgInteger 42)))),
     pg_groupClause = None, pg_havingClause = None, pg_sortClause = None, pg_limitCount = Some (PgAConst (PgInteger 1)),
     pg_limitOffset = None, pg_lockingClause = None\<rparr>"

lemma sample_bound: "fst (BindSelectStatement sample_bind sample_parse Binder_new) = Inr sample_select"
  by code_simp

lemma sample_query_rows:
  assumes x: "r_values x = r_values sample_row"
  shows "\<exists>y. query_rows sample_bind sample_env sample_bound_columns sample_parse [x] = Some [y] \<and>
    r_values y = [Value_string ''hua'' TVARCHAR]"
proof -
  have "named_value sample_bound_columns x ''id'' = Inr (Value_int 42)"
    "named_value sample_bound_columns x ''name'' = Inr (Value_string ''hua'' TVARCHAR)"
    using x by (simp_all add: named_value_def sample_bound_columns_def sample_row_def)
  then have "node_where sample_bind sample_env sample_bound_columns (pg_whereClause sample_parse) [x] = Some [x]"
    "\<exists>y. rbind (node_values sample_bind sample_env sample_bound_columns [PgResTarget (Some ''who'') (PgColumnRef [PgString ''name''])] x)
       (\<lambda>vs. Record_new vs (r_rid x)) = Inr y \<and> r_values y = [Value_string ''hua'' TVARCHAR]"
    by (simp_all add: node_where_def node_satisfied_def sample_parse_def const_value_def operator_value_def apply_op_def binary_ops_def
        Comparison_Compute_def cmp_int_def DoOperation_cmp_def GetValue_int_def Value_int_def IsNull_def v_int_def GetValue_bool_def
        Value_bool_def v_bool_def ROW_FUEL_def node_values_def star_target_def Record_new_def null_marks_def Value_string_def) blast
  moreover have "limit_rows (node_count (pg_limitCount sample_parse)) (node_count (pg_limitOffset sample_parse)) [x] = Some [x]"
    by (simp add: sample_parse_def node_count_def limit_rows_def)
  ultimately show ?thesis by (auto simp: query_rows_def sample_parse_def)
qed

theorem query_from_parse_tree_witness:
  "\<exists>p x y s'. planned sample_env sample_fmt ForceNone (BSelect sample_select) = Inr p \<and>
     fst (BindSelectStatement sample_bind sample_parse Binder_new) = Inr sample_select \<and>
     CreateExecutor sample_query_env p = Inr x \<and>
     calls (Exec_Next sample_ctx p) 2 (sample_query_env, x) = (Inr [Some y, None], s') \<and>
     r_values y = [Value_string ''hua'' TVARCHAR]"
proof -
  obtain x where x: "seen sample_ctx sample_world (table_rows [[sample_version2]]) = [x]" "r_values x = r_values sample_row"
    by (rule sample_seen_row)
  obtain y where y: "query_rows sample_bind sample_env sample_bound_columns sample_parse [x] = Some [y]"
    "r_values y = [Value_string ''hua'' TVARCHAR]"
    using sample_query_rows [OF x(2)] by blast
  have "\<not> isl (planned sample_env sample_fmt ForceNone (BSelect sample_select))" by code_simp
  then obtain p where p: "planned sample_env sample_fmt ForceNone (BSelect sample_select) = Inr p" by (metis sum.collapse(2))
  obtain bs where bs: "BindSelectStatement sample_bind sample_parse Binder_new = (Inr sample_select, bs)"
    using sample_bound by (metis prod.collapse)
  have "\<exists>e s'. CreateExecutor sample_query_env p = Inr e \<and>
    calls (Exec_Next sample_ctx p) 2 (sample_query_env, e) = (Inr (take 2 (map Some [y] @ replicate 2 None)), s')"
  proof (rule query_from_parse_tree [OF sample_world_ok, where be = sample_bind and cl = sample_bound_columns and oid = 10001])
    show "world_rows sample_ctx sample_world 10001 = Some [x]" using x(1) by (simp add: world_rows_def sample_world_def)
    show "\<forall>x \<in> set [x]. fits_columns sample_bound_columns x"
      using x(2) by (simp add: fits_columns_def sample_bound_columns_def sample_row_def)
    show "good_columns sample_bound_columns" unfolding sample_bound_columns_def by (rule good_columns_new) simp
    show "plain_query ''t'' None (column_names sample_bound_columns) sample_parse"
      by (simp add: plain_query_def sample_parse_def column_names_def sample_bound_columns_def plain_count_def)
    show "planned (qc_env sample_ctx) (bd_fmt sample_bind) ForceNone (BSelect sample_select) = Inr p"
      using p by (simp add: sample_ctx_def sample_bind_def)
    show "query_rows sample_bind (qc_env sample_ctx) sample_bound_columns sample_parse [x] = Some [y]"
      using y(1) by (simp add: sample_ctx_def)
    show "bd_GetTableOid sample_bind ''t'' = Inr 10001" "bd_GetTableColumnList sample_bind ''t'' = Inr sample_bound_columns"
      by (simp_all add: sample_bind_def)
  qed (rule bs)
  then show ?thesis using p y(2) bs by (auto simp: numeral_2_eq_2)
qed

theorem resolve_unique_witness:
  "\<exists>r. r = ResolveColumnInternal (CrossJoinRef (BaseTableRef ''t'' None 10001 sample_bound_columns)
       (BaseTableRef ''t'' (Some ''u'') 10001 sample_bound_columns)) [''id''] \<and>
     resolves [''id''] [(''t'', sample_bound_columns), (''u'', sample_bound_columns)] r \<and> (\<exists>msg. r = Inl (DbException msg))"
proof -
  let ?t = "CrossJoinRef (BaseTableRef ''t'' None 10001 sample_bound_columns) (BaseTableRef ''t'' (Some ''u'') 10001 sample_bound_columns)"
  have "resolves [''id''] (base_tables ?t) (ResolveColumnInternal ?t [''id''])" by (rule resolve_unique) simp_all
  moreover have "base_tables ?t = [(''t'', sample_bound_columns), (''u'', sample_bound_columns)]"
    by (simp add: BaseTable_GetTableName_def)
  moreover have "owner [''id''] (n, sample_bound_columns)" for n
  proof -
    have "TryGetColumnIndex ''id'' sample_bound_columns = Some 0" by code_simp
    then show ?thesis by (simp add: owner_def)
  qed
  ultimately show ?thesis by (simp add: resolves_def)
qed

theorem column_length_wraps_witness:
  "BindColumnDefinition sample_bind ''c'' ''bpchar'' (Some [PgAConst (PgInteger 65537)]) Binder_new =
     (Inr \<lparr>cd_name = ''c'', cd_type = TCHAR, cd_max_size = 1\<rparr>, Binder_new)"
  using column_length_wraps [of "''bpchar''" 65537 sample_bind "''c''" Binder_new] by simp

theorem insert_from_itself_witness:
  "fst (BindInsertStatement sample_bind ''t'' None sample_parse Binder_new) =
     Inl (DbException (''Table name '' @ quoted ''t'' @ '' specified more than once''))"
  by (rule insert_from_itself [where oid = 10001 and cl = sample_bound_columns and nodes = "[]"])
    (simp_all add: sample_bind_def sample_parse_def)

theorem star_drops_targets_witness:
  "\<exists>es bs. BindSelectList sample_bind (Some ([PgResTarget None (PgAConst (PgInteger 1))] @ [star_target]))
       (Binder_new\<lparr>bs_table := Some (BaseTableRef ''t'' None 10001 sample_bound_columns)\<rparr>) = (Inr es, bs) \<and>
     GetAllColumns (BaseTableRef ''t'' None 10001 sample_bound_columns) = Inr es"
proof -
  let ?bs = "Binder_new\<lparr>bs_table := Some (BaseTableRef ''t'' None 10001 sample_bound_columns)\<rparr>"
  have "\<not> isl (fst (BindSelectList sample_bind (Some ([PgResTarget None (PgAConst (PgInteger 1))] @ [star_target])) ?bs))"
    by code_simp
  then obtain es bs where r: "BindSelectList sample_bind (Some ([PgResTarget None (PgAConst (PgInteger 1))] @ [star_target])) ?bs = (Inr es, bs)"
    by (metis sum.collapse(2) surj_pair prod.sel(1))
  from star_drops_targets [OF _ r] have "GetAllColumns (BaseTableRef ''t'' None 10001 sample_bound_columns) = Inr es" by simp
  then show ?thesis using r by blast
qed

end
