(* ===== verification/Oid_Manager.thy ===== *)
theory Oid_Manager
  imports Common_Types
begin

text \<open>
  \<^verbatim>\<open>src/src/catalog/oid_manager.cpp\<close>: the names of databases and tables and their oids, in two hash maps. The
  invariant \<open>oids_ok\<close> says that they are inverse to each other; under it the operations are those of a
  finite injective map from kinds and names to oids.
\<close>

section \<open>State and operations\<close>

datatype OidType = DATABASE | TABLE | INDEX

record OidManager =
  om_next_oid :: oid_t
  om_name2oid :: "(string \<times> oid_t) list"
  om_oid2name :: "(oid_t \<times> string) list"

definition OidManager_new :: "oid_t \<Rightarrow> OidManager" where
  "OidManager_new next_oid = \<lparr>om_next_oid = next_oid, om_name2oid = [], om_oid2name = []\<rparr>"

definition GetEntryPrefix :: "OidType \<Rightarrow> string result" where
  "GetEntryPrefix ty =
     (case ty of TABLE \<Rightarrow> Inr ''TABLE.'' | DATABASE \<Rightarrow> Inr ''DATABASE.''
      | INDEX \<Rightarrow> Inl (DbException ''Unsupported object in oid system''))"

definition entry_name :: "OidType \<Rightarrow> string \<Rightarrow> string result" where
  "entry_name ty name = rbind (GetEntryPrefix ty) (\<lambda>prefix. Inr (prefix @ name))"

text \<open>The oid is taken, and the name entered under it, before an unsupported kind is refused.\<close>

definition CreateEntry :: "OidType \<Rightarrow> string \<Rightarrow> (OidManager, oid_t) em" where
  "CreateEntry ty name =
     ebind (eget om_next_oid) (\<lambda>oid.
     ebind (emodify (\<lambda>m. m\<lparr>om_next_oid := oid + 1, om_oid2name := AList.update oid name (om_oid2name m)\<rparr>)) (\<lambda>_.
     ebind (elift (entry_name ty name)) (\<lambda>entry.
     ebind (emodify (\<lambda>m. m\<lparr>om_name2oid := AList.update entry oid (om_name2oid m)\<rparr>)) (\<lambda>_.
       eret oid))))"

definition SetEntryOid :: "OidType \<Rightarrow> string \<Rightarrow> oid_t \<Rightarrow> (OidManager, unit) em" where
  "SetEntryOid ty name oid =
     ebind (elift (entry_name ty name)) (\<lambda>entry.
       emodify (\<lambda>m. m\<lparr>om_oid2name := AList.update oid name (om_oid2name m),
                      om_name2oid := AList.update entry oid (om_name2oid m)\<rparr>))"

definition GetEntryOid :: "OidType \<Rightarrow> string \<Rightarrow> OidManager \<Rightarrow> oid_t result" where
  "GetEntryOid ty name m =
     rbind (entry_name ty name) (\<lambda>entry.
       case map_of (om_name2oid m) entry of
         None \<Rightarrow> Inl (DbException (name @ '' not found in oid manager''))
       | Some oid \<Rightarrow> Inr oid)"

definition DropEntry :: "OidType \<Rightarrow> string \<Rightarrow> (OidManager, oid_t) em" where
  "DropEntry ty name =
     ebind (\<lambda>m. (GetEntryOid ty name m, m)) (\<lambda>oid.
     ebind (emodify (\<lambda>m. m\<lparr>om_oid2name := AList.delete oid (om_oid2name m)\<rparr>)) (\<lambda>_.
     ebind (elift (entry_name ty name)) (\<lambda>entry.
     ebind (emodify (\<lambda>m. m\<lparr>om_name2oid := AList.delete entry (om_name2oid m)\<rparr>)) (\<lambda>_.
       eret oid))))"

definition GetEntryName :: "oid_t \<Rightarrow> OidManager \<Rightarrow> string result" where
  "GetEntryName oid m =
     (case map_of (om_oid2name m) oid of
        None \<Rightarrow> Inl (DbException (''Entry with oid '' @ nat_to_string (unat oid) @ '' does not exist.''))
      | Some name \<Rightarrow> Inr name)"

definition EntryExists :: "OidType \<Rightarrow> string \<Rightarrow> OidManager \<Rightarrow> bool result" where
  "EntryExists ty name m = rbind (entry_name ty name) (\<lambda>entry. Inr (map_of (om_name2oid m) entry \<noteq> None))"

definition OidExists :: "oid_t \<Rightarrow> OidManager \<Rightarrow> bool" where
  "OidExists oid m \<longleftrightarrow> map_of (om_oid2name m) oid \<noteq> None"

section \<open>The names as one map\<close>

text \<open>Kinds other than indexes have entries, and entries of different kinds or names differ.\<close>

lemma entry_name_simps [simp]:
  "entry_name TABLE name = Inr (''TABLE.'' @ name)" "entry_name DATABASE name = Inr (''DATABASE.'' @ name)"
  "entry_name INDEX name = Inl (DbException ''Unsupported object in oid system'')"
  by (simp_all add: entry_name_def GetEntryPrefix_def)

definition supported :: "OidType \<Rightarrow> bool" where
  "supported ty \<longleftrightarrow> ty \<noteq> INDEX"

lemma entry_name_supported: "supported ty \<Longrightarrow> \<exists>e. entry_name ty name = Inr e"
  by (cases ty) (simp_all add: supported_def)

lemma entry_name_inject:
  "entry_name ty name = Inr e \<Longrightarrow> entry_name ty' name' = Inr e \<Longrightarrow> ty = ty' \<and> name = name'"
  by (cases ty; cases ty') auto

definition oid_of :: "OidManager \<Rightarrow> OidType \<times> string \<Rightarrow> oid_t option" where
  "oid_of m = (\<lambda>(ty, name). case entry_name ty name of Inl _ \<Rightarrow> None | Inr e \<Rightarrow> map_of (om_name2oid m) e)"

text \<open>Every entry has an oid of its own, under which its name is found.\<close>

definition oids_ok :: "OidManager \<Rightarrow> bool" where
  "oids_ok m \<longleftrightarrow>
     (\<forall>k oid. oid_of m k = Some oid \<longrightarrow> map_of (om_oid2name m) oid = Some (snd k)) \<and>
     (\<forall>k k' oid. oid_of m k = Some oid \<longrightarrow> oid_of m k' = Some oid \<longrightarrow> k = k') \<and>
     (\<forall>oid name. map_of (om_oid2name m) oid = Some name \<longrightarrow> (\<exists>ty. oid_of m (ty, name) = Some oid))"

text \<open>The oids from the next one on are free.\<close>

definition next_free :: "OidManager \<Rightarrow> bool" where
  "next_free m \<longleftrightarrow> (\<forall>oid. map_of (om_oid2name m) oid \<noteq> None \<longrightarrow> oid < om_next_oid m)"

lemma oid_of_update:
  assumes "entry_name ty name = Inr e" "map_of (om_name2oid m') = (map_of (om_name2oid m))(e \<mapsto> oid)"
  shows "oid_of m' = (oid_of m)((ty, name) \<mapsto> oid)"
proof
  fix k :: "OidType \<times> string"
  obtain ty' name' where k: "k = (ty', name')" by (cases k)
  show "oid_of m' k = ((oid_of m)((ty, name) \<mapsto> oid)) k"
    using assms unfolding k by (cases ty; cases ty') (auto simp: oid_of_def)
qed

lemma oid_of_delete:
  assumes "entry_name ty name = Inr e" "map_of (om_name2oid m') = (map_of (om_name2oid m))(e := None)"
  shows "oid_of m' = (oid_of m)((ty, name) := None)"
proof
  fix k :: "OidType \<times> string"
  obtain ty' name' where k: "k = (ty', name')" by (cases k)
  show "oid_of m' k = ((oid_of m)((ty, name) := None)) k"
    using assms unfolding k by (cases ty; cases ty') (auto simp: oid_of_def)
qed

text \<open>Entering a name under an oid, in both maps.\<close>

definition entered :: "OidType \<Rightarrow> string \<Rightarrow> oid_t \<Rightarrow> OidManager \<Rightarrow> OidManager \<Rightarrow> bool" where
  "entered ty name oid m m' \<longleftrightarrow> oid_of m' = (oid_of m)((ty, name) \<mapsto> oid) \<and>
     map_of (om_oid2name m') = (map_of (om_oid2name m))(oid \<mapsto> name)"

lemma entered_ok:
  assumes "oids_ok m" "oid_of m (ty, name) = None" "map_of (om_oid2name m) oid = None" "entered ty name oid m m'"
  shows "oids_ok m'"
  using assms unfolding oids_ok_def entered_def by (auto split: if_splits) (metis fst_conv snd_conv option.distinct(1))+

lemma SetEntryOid_enters:
  assumes "supported ty"
  shows "\<exists>m'. SetEntryOid ty name oid m = (Inr (), m') \<and> entered ty name oid m m' \<and> om_next_oid m' = om_next_oid m"
proof -
  obtain e where e: "entry_name ty name = Inr e" using entry_name_supported assms by blast
  show ?thesis
    using oid_of_update [OF e, of _ m oid] e
    by (simp add: SetEntryOid_def ebind_def elift_def emodify_def entered_def update_conv')
qed

lemma CreateEntry_enters:
  assumes "supported ty"
  shows "\<exists>m'. CreateEntry ty name m = (Inr (om_next_oid m), m') \<and> entered ty name (om_next_oid m) m m' \<and>
     om_next_oid m' = om_next_oid m + 1"
proof -
  obtain e where e: "entry_name ty name = Inr e" using entry_name_supported assms by blast
  show ?thesis
    using oid_of_update [OF e, of _ m "om_next_oid m"] e
    by (simp add: CreateEntry_def ebind_def eget_def eret_def elift_def emodify_def entered_def update_conv')
qed

lemma GetEntryOid_of:
  "supported ty \<Longrightarrow> GetEntryOid ty name m =
     (case oid_of m (ty, name) of None \<Rightarrow> Inl (DbException (name @ '' not found in oid manager'')) | Some oid \<Rightarrow> Inr oid)"
  using entry_name_supported [of ty name] by (auto simp: GetEntryOid_def oid_of_def)

lemma EntryExists_of: "supported ty \<Longrightarrow> EntryExists ty name m = Inr (oid_of m (ty, name) \<noteq> None)"
  using entry_name_supported [of ty name] by (auto simp: EntryExists_def oid_of_def)

lemma DropEntry_removes:
  assumes "supported ty" "oid_of m (ty, name) = Some oid"
  shows "\<exists>m'. DropEntry ty name m = (Inr oid, m') \<and> oid_of m' = (oid_of m)((ty, name) := None) \<and>
    map_of (om_oid2name m') = (map_of (om_oid2name m))(oid := None) \<and> om_next_oid m' = om_next_oid m"
proof -
  obtain e where e: "entry_name ty name = Inr e" using entry_name_supported assms(1) by blast
  have "GetEntryOid ty name m = Inr oid" using assms by (simp add: GetEntryOid_of)
  then show ?thesis
    using oid_of_delete [OF e, of _ m] e
    by (simp add: DropEntry_def ebind_def eret_def elift_def emodify_def delete_conv')
qed

lemma DropEntry_ok:
  assumes "oids_ok m" "supported ty" "oid_of m (ty, name) = Some oid"
  shows "\<exists>m'. DropEntry ty name m = (Inr oid, m') \<and> oids_ok m' \<and> oid_of m' = (oid_of m)((ty, name) := None)"
proof -
  obtain m' where m': "DropEntry ty name m = (Inr oid, m')" "oid_of m' = (oid_of m)((ty, name) := None)"
    "map_of (om_oid2name m') = (map_of (om_oid2name m))(oid := None)"
    using DropEntry_removes [OF assms(2,3)] by blast
  have "oids_ok m'"
    using assms(1,3) unfolding oids_ok_def m'(2,3) by (auto split: if_splits) (metis fst_conv snd_conv option.inject)+
  then show ?thesis using m'(1,2) by blast
qed

end
