(* ===== verification/System_Catalog.thy ===== *)
theory System_Catalog
  imports Table_Scan Oid_Manager
begin

text \<open>
  \<^verbatim>\<open>src/src/catalog/system_catalog.cpp\<close> and \<^verbatim>\<open>system_schema.h\<close>: databases and tables, kept in the rows of three meta
  tables that are stored like any other table, with the oid manager, the table objects and the
  statistics in memory. Shared pointers to a \<^verbatim>\<open>Table\<close> are its entry in \<^verbatim>\<open>oid2table_\<close>.
\<close>

section \<open>Constants and schemas\<close>

definition INVALID_OID :: oid_t where [simp]: "INVALID_OID = - 1"
definition PRESERVED_OID :: oid_t where [simp]: "PRESERVED_OID = 10000"
definition TABLE_META_OID :: oid_t where [simp]: "TABLE_META_OID = 501"
definition DATABASE_META_OID :: oid_t where [simp]: "DATABASE_META_OID = 502"
definition STATISTIC_META_OID :: oid_t where [simp]: "STATISTIC_META_OID = 503"
definition INVALID_CARDINALITY :: "32 word" where [simp]: "INVALID_CARDINALITY = - 1"
definition INVALID_DISTINCT :: "32 word" where [simp]: "INVALID_DISTINCT = - 1"
definition SYSTEM_DATABASE_NAME :: string where "SYSTEM_DATABASE_NAME = ''system''"
definition DEFAULT_DATABASE_NAME :: string where "DEFAULT_DATABASE_NAME = ''huadb''"
definition TABLE_META_NAME :: string where "TABLE_META_NAME = ''huadb_table''"
definition DATABASE_META_NAME :: string where "DATABASE_META_NAME = ''huadb_database''"
definition STATISTIC_META_NAME :: string where "STATISTIC_META_NAME = ''huadb_statistic''"

definition uint_column :: "string \<Rightarrow> ColumnDefinition" where
  "uint_column name = \<lparr>cd_name = name, cd_type = TUINT, cd_max_size = 4\<rparr>"

definition name_column :: "string \<Rightarrow> ColumnDefinition" where
  "name_column name = \<lparr>cd_name = name, cd_type = TVARCHAR, cd_max_size = 32\<rparr>"

definition table_meta_schema :: ColumnList where
  "table_meta_schema = ColumnList_new [uint_column ''table_oid'', uint_column ''db_oid'', name_column ''table_name'',
     \<lparr>cd_name = ''schema'', cd_type = TVARCHAR, cd_max_size = 1024\<rparr>, uint_column ''cardinality'']"

definition database_meta_schema :: ColumnList where
  "database_meta_schema = ColumnList_new [uint_column ''db_oid'', name_column ''db_name'']"

definition statistic_schema :: ColumnList where
  "statistic_schema = ColumnList_new [name_column ''table_name'', uint_column ''db_oid'', name_column ''column_name'',
     uint_column ''n_distinct'']"

section \<open>State\<close>

record SystemCatalog =
  sc_pool :: PoolEnv
  sc_oids :: OidManager
  sc_oid2table :: "(oid_t \<times> Table) list"
  sc_cardinality :: "(string \<times> 32 word) list"
  sc_distinct :: "(string \<times> 32 word) list"
  sc_database :: oid_t
  sc_junk :: "nat \<Rightarrow> byte"

definition SystemCatalog_new :: "PoolEnv \<Rightarrow> oid_t \<Rightarrow> (nat \<Rightarrow> byte) \<Rightarrow> SystemCatalog" where
  "SystemCatalog_new pool next_oid junk =
     \<lparr>sc_pool = pool, sc_oids = OidManager_new next_oid, sc_oid2table = [], sc_cardinality = [], sc_distinct = [],
      sc_database = INVALID_OID, sc_junk = junk\<rparr>"

definition on_oids :: "(OidManager, 'a) em \<Rightarrow> (SystemCatalog, 'a) em" where
  "on_oids = ezoom sc_oids (\<lambda>m s. s\<lparr>sc_oids := m\<rparr>)"

definition sc_on_pool :: "(PoolEnv, 'a) em \<Rightarrow> (SystemCatalog, 'a) em" where
  "sc_on_pool = ezoom sc_pool (\<lambda>p s. s\<lparr>sc_pool := p\<rparr>)"

definition sc_on_disk :: "(Disk, 'a) em \<Rightarrow> (SystemCatalog, 'a) em" where
  "sc_on_disk m = sc_on_pool (in_disk m)"

text \<open>A query that does not change the state.\<close>

definition query :: "(SystemCatalog \<Rightarrow> 'a result) \<Rightarrow> (SystemCatalog, 'a) em" where
  "query f s = (f s, s)"

definition GetTable :: "oid_t \<Rightarrow> SystemCatalog \<Rightarrow> Table result" where
  "GetTable oid s =
     (case map_of (sc_oid2table s) oid of
        None \<Rightarrow> Inl (DbException (''Table with oid '' @ nat_to_string (unat oid) @ '' does not exist''))
      | Some t \<Rightarrow> Inr t)"

text \<open>An operation of the table object, which may change its first page id.\<close>

definition with_table :: "oid_t \<Rightarrow> (TableEnv, 'a) em \<Rightarrow> (SystemCatalog, 'a) em" where
  "with_table oid m s =
     (case GetTable oid s of
        Inl e \<Rightarrow> (Inl e, s)
      | Inr t \<Rightarrow>
          (case m \<lparr>te_pool = sc_pool s, te_table = t, te_junk = sc_junk s\<rparr> of
             (r, e) \<Rightarrow> (r, s\<lparr>sc_pool := te_pool e, sc_oid2table := AList.update oid (te_table e) (sc_oid2table s)\<rparr>)))"

definition add_row :: "oid_t \<Rightarrow> Val list \<Rightarrow> (SystemCatalog, Rid \<times> Record) em" where
  "add_row oid vs =
     with_table oid (ebind (elift (Record_new vs \<lparr>rid_page_id = 0, rid_slot_id = 0\<rparr>)) (\<lambda>rec.
       Table_InsertRecord rec DDL_XID DDL_CID False))"

section \<open>Scans of the meta tables\<close>

text \<open>
  \<^verbatim>\<open>GetNextRecord\<close> without arguments. \<^verbatim>\<open>while (auto record = scan->GetNextRecord())\<close> is a loop whose body says whether it
  goes on; every round visits another row.
\<close>

definition next_row :: "Table \<Rightarrow> Rid \<Rightarrow> (SystemCatalog, Record option \<times> Rid) em" where
  "next_row t rid s =
     (case GetNextRecord NULL_XID READ_COMMITTED NULL_CID {} \<lparr>ts_pool = sc_pool s, ts_table = t, ts_rid = rid\<rparr> of
        (r, ts) \<Rightarrow> (rbind r (\<lambda>rec. Inr (rec, ts_rid ts)), s\<lparr>sc_pool := ts_pool ts\<rparr>))"

fun row_loop :: "Table \<Rightarrow> (Record \<Rightarrow> 'a \<Rightarrow> (SystemCatalog, 'a \<times> bool) em) \<Rightarrow> nat \<Rightarrow> Rid \<Rightarrow> 'a \<Rightarrow> (SystemCatalog, 'a) em" where
  "row_loop t body 0 rid acc = ethrow Diverges"
| "row_loop t body (Suc fuel) rid acc =
     ebind (next_row t rid) (\<lambda>(row, rid').
       case row of
         None \<Rightarrow> eret acc
       | Some record \<Rightarrow>
           ebind (body record acc) (\<lambda>(acc', more). if more then row_loop t body fuel rid' acc' else eret acc'))"

definition for_rows :: "oid_t \<Rightarrow> (Record \<Rightarrow> 'a \<Rightarrow> (SystemCatalog, 'a \<times> bool) em) \<Rightarrow> 'a \<Rightarrow> (SystemCatalog, 'a) em" where
  "for_rows oid body acc =
     ebind (query (GetTable oid)) (\<lambda>t. row_loop t body (Suc SCAN_FUEL) (page_start (tb_first_page_id t)) acc)"

definition uint_at :: "string \<Rightarrow> ColumnList \<Rightarrow> Record \<Rightarrow> 32 word result" where
  "uint_at name schema record = rbind (GetColumnIndex name schema) (\<lambda>i. rbind (Record_GetValue i record) GetValue_uint)"

definition string_at :: "string \<Rightarrow> ColumnList \<Rightarrow> Record \<Rightarrow> string result" where
  "string_at name schema record = rbind (GetColumnIndex name schema) (\<lambda>i. rbind (Record_GetValue i record) GetValue_string)"

section \<open>Lookups\<close>

definition CheckUsingDatabase :: "SystemCatalog \<Rightarrow> unit result" where
  "CheckUsingDatabase s = (if sc_database s = INVALID_OID then Inl (DbException ''Not using databases'') else Inr ())"

definition DatabaseExists :: "string \<Rightarrow> SystemCatalog \<Rightarrow> bool result" where
  "DatabaseExists name s = EntryExists DATABASE name (sc_oids s)"

definition GetTableOid :: "string \<Rightarrow> SystemCatalog \<Rightarrow> oid_t result" where
  "GetTableOid table_name s =
     rbind (EntryExists TABLE table_name (sc_oids s)) (\<lambda>ex.
       if \<not> ex then Inl (DbException (''Table '' @ [CHR 0x22] @ table_name @ [CHR 0x22] @ '' does not exist''))
       else GetEntryOid TABLE table_name (sc_oids s))"

definition GetTableColumnList :: "string \<Rightarrow> SystemCatalog \<Rightarrow> ColumnList result" where
  "GetTableColumnList table_name s =
     rbind (GetTableOid table_name s) (\<lambda>oid. rbind (GetTable oid s) (\<lambda>t. Inr (tb_column_list t)))"

definition TableExists :: "oid_t \<Rightarrow> SystemCatalog \<Rightarrow> bool" where
  "TableExists oid s = OidExists oid (sc_oids s)"

definition GetCardinality :: "string \<Rightarrow> SystemCatalog \<Rightarrow> 32 word" where
  "GetCardinality table_name s = (case map_of (sc_cardinality s) table_name of None \<Rightarrow> INVALID_CARDINALITY | Some n \<Rightarrow> n)"

definition GetDistinct :: "string \<Rightarrow> string \<Rightarrow> SystemCatalog \<Rightarrow> 32 word" where
  "GetDistinct table_name column_name s =
     (case map_of (sc_distinct s) (table_name @ ''.'' @ column_name) of None \<Rightarrow> INVALID_DISTINCT | Some n \<Rightarrow> n)"

text \<open>For a table of memory the answer is the current database.\<close>

definition GetDatabaseOid :: "oid_t \<Rightarrow> (SystemCatalog, oid_t) em" where
  "GetDatabaseOid table_oid =
     ebind (eget id) (\<lambda>s.
       if map_of (sc_oid2table s) table_oid \<noteq> None then eret (sc_database s)
       else ebind (for_rows TABLE_META_OID (\<lambda>record found.
                ebind (elift (uint_at ''table_oid'' table_meta_schema record)) (\<lambda>oid.
                  if oid = table_oid
                  then ebind (elift (uint_at ''db_oid'' table_meta_schema record)) (\<lambda>db. eret (Some db, False))
                  else eret (found, True))) None) (\<lambda>found.
            case found of
              None \<Rightarrow> ethrow (DbException (''Table with oid '' @ nat_to_string (unat table_oid) @ '' does not exist''))
            | Some db \<Rightarrow> eret db))"

definition GetDatabaseNames :: "(SystemCatalog, string list) em" where
  "GetDatabaseNames =
     ebind (eget id) (\<lambda>s.
       if map_of (sc_oid2table s) DATABASE_META_OID = None
       then ethrow (AssertFail ''oid2table_.find(DATABASE_META_OID) != oid2table_.end()'')
       else for_rows DATABASE_META_OID (\<lambda>record names.
              ebind (elift (string_at ''db_name'' database_meta_schema record)) (\<lambda>name. eret (names @ [name], True))) [])"

definition GetTableNames :: "(SystemCatalog, string list) em" where
  "GetTableNames =
     ebind (eget sc_database) (\<lambda>current.
       if current = INVALID_OID then ethrow (DbException ''Invalid database oid in GetDatabaseTableNames'')
       else for_rows TABLE_META_OID (\<lambda>record names.
              ebind (elift (uint_at ''db_oid'' table_meta_schema record)) (\<lambda>db.
                if db = current
                then ebind (elift (string_at ''table_name'' table_meta_schema record)) (\<lambda>name. eret (names @ [name], True))
                else eret (names, True))) [])"

section \<open>Statistics\<close>

text \<open>A row of this table in the current database; a second one is an error.\<close>

definition SetCardinality :: "string \<Rightarrow> 32 word \<Rightarrow> (SystemCatalog, unit) em" where
  "SetCardinality table_name cardinality =
     ebind (eget sc_database) (\<lambda>current.
     ebind (for_rows TABLE_META_OID (\<lambda>record found.
       ebind (elift (uint_at ''db_oid'' table_meta_schema record)) (\<lambda>db.
       ebind (if db \<noteq> current then eret False
              else ebind (elift (string_at ''table_name'' table_meta_schema record)) (\<lambda>name. eret (name = table_name))) (\<lambda>hit.
         if \<not> hit then eret (found, True)
         else if found then ethrow (DbException (table_name @ '' has more than one record in table_meta''))
         else ebind (elift (rbind (GetColumnIndex ''cardinality'' table_meta_schema) (\<lambda>i.
                Record_SetValue i (Value_uint cardinality) record))) (\<lambda>record'.
              ebind (with_table TABLE_META_OID (Table_UpdateRecordInPlace record')) (\<lambda>_.
              ebind (emodify (\<lambda>s. s\<lparr>sc_cardinality := AList.update table_name cardinality (sc_cardinality s)\<rparr>)) (\<lambda>_.
                eret (True, True))))))) False) (\<lambda>found.
       if found then eret ()
       else ethrow (DbException (''Table'' @ [CHR 0x22] @ table_name @ [CHR 0x22] @ '' does not exist in table_meta''))))"

definition statistic_key :: "string \<Rightarrow> string \<Rightarrow> string" where
  "statistic_key table_name column_name = table_name @ ''.'' @ column_name"

definition note_distinct :: "string \<Rightarrow> string \<Rightarrow> 32 word \<Rightarrow> (SystemCatalog, unit) em" where
  "note_distinct table_name column_name n =
     emodify (\<lambda>s. s\<lparr>sc_distinct := AList.update (statistic_key table_name column_name) n (sc_distinct s)\<rparr>)"

definition SetDistinct :: "string \<Rightarrow> string \<Rightarrow> 32 word \<Rightarrow> (SystemCatalog, unit) em" where
  "SetDistinct table_name column_name n =
     ebind (eget sc_database) (\<lambda>current.
     ebind (for_rows STATISTIC_META_OID (\<lambda>record found.
       ebind (elift (uint_at ''db_oid'' statistic_schema record)) (\<lambda>db.
       ebind (if db \<noteq> current then eret False
              else ebind (elift (string_at ''table_name'' statistic_schema record)) (\<lambda>t.
                   if t \<noteq> table_name then eret False
                   else ebind (elift (string_at ''column_name'' statistic_schema record)) (\<lambda>c. eret (c = column_name)))) (\<lambda>hit.
         if \<not> hit then eret (found, True)
         else if found
         then ethrow (DbException (table_name @ ''.'' @ column_name @ '' has more than one record in statistic_meta''))
         else ebind (elift (rbind (GetColumnIndex ''n_distinct'' statistic_schema) (\<lambda>i.
                Record_SetValue i (Value_uint n) record))) (\<lambda>record'.
              ebind (with_table STATISTIC_META_OID (Table_UpdateRecordInPlace record')) (\<lambda>_.
              ebind (note_distinct table_name column_name n) (\<lambda>_.
                eret (True, True))))))) False) (\<lambda>found.
       if found then eret ()
       else ebind (add_row STATISTIC_META_OID [Value_string table_name TVARCHAR, Value_uint current,
                     Value_string column_name TVARCHAR, Value_uint n]) (\<lambda>_.
            note_distinct table_name column_name n)))"

section \<open>Loading\<close>

definition LoadDatabaseMeta :: "(SystemCatalog, unit) em" where
  "LoadDatabaseMeta =
     ebind (eget (\<lambda>s. map_of (sc_oid2table s) DATABASE_META_OID)) (\<lambda>t.
       if t = None then ethrow (AssertFail ''oid2table_.find(DATABASE_META_OID) != oid2table_.end()'')
       else for_rows DATABASE_META_OID (\<lambda>record _.
              ebind (elift (uint_at ''db_oid'' database_meta_schema record)) (\<lambda>db_oid.
              ebind (elift (string_at ''db_name'' database_meta_schema record)) (\<lambda>db_name.
              ebind (on_oids (SetEntryOid DATABASE db_name db_oid)) (\<lambda>_. eret ((), True))))) ())"

definition EmptyTable :: "oid_t \<Rightarrow> oid_t \<Rightarrow> SystemCatalog \<Rightarrow> bool result" where
  "EmptyTable db_oid oid s = EmptyFile (GetFilePath db_oid oid) (pe_disk (sc_pool s))"

definition note_table :: "Table \<Rightarrow> (SystemCatalog, unit) em" where
  "note_table t = emodify (\<lambda>s. s\<lparr>sc_oid2table := AList.update (tb_oid t) t (sc_oid2table s)\<rparr>)"

text \<open>One row of the table meta: the table is entered under its name and its oid.\<close>

definition load_table :: "oid_t \<Rightarrow> Record \<Rightarrow> (SystemCatalog, unit) em" where
  "load_table current record =
     ebind (elift (uint_at ''table_oid'' table_meta_schema record)) (\<lambda>oid.
     ebind (elift (string_at ''table_name'' table_meta_schema record)) (\<lambda>table_name.
     ebind (elift (string_at ''schema'' table_meta_schema record)) (\<lambda>schema.
     ebind (elift (uint_at ''cardinality'' table_meta_schema record)) (\<lambda>cardinality.
     ebind (elift (ColumnList_FromString schema ColumnList_empty)) (\<lambda>column_list.
     ebind (on_oids (SetEntryOid TABLE table_name oid)) (\<lambda>_.
     ebind (GetDatabaseOid oid) (\<lambda>db.
     ebind (query (EmptyTable db oid)) (\<lambda>is_empty.
     ebind (note_table (Table_new oid current column_list False is_empty)) (\<lambda>_.
       emodify (\<lambda>s. s\<lparr>sc_cardinality := AList.update table_name cardinality (sc_cardinality s)\<rparr>))))))))))"

definition LoadTableMeta :: "(SystemCatalog, unit) em" where
  "LoadTableMeta =
     ebind (eget sc_database) (\<lambda>current.
       for_rows TABLE_META_OID (\<lambda>record _.
         ebind (elift (uint_at ''db_oid'' table_meta_schema record)) (\<lambda>db.
         ebind (if db = current then load_table current record else eret ()) (\<lambda>_. eret ((), True)))) ())"

definition LoadStatistics :: "(SystemCatalog, unit) em" where
  "LoadStatistics =
     ebind (eget sc_database) (\<lambda>current.
       for_rows STATISTIC_META_OID (\<lambda>record _.
         ebind (elift (uint_at ''db_oid'' statistic_schema record)) (\<lambda>db.
         ebind (if db \<noteq> current then eret ()
                else ebind (elift (string_at ''table_name'' statistic_schema record)) (\<lambda>table_name.
                     ebind (elift (string_at ''column_name'' statistic_schema record)) (\<lambda>column_name.
                     ebind (elift (uint_at ''n_distinct'' statistic_schema record)) (\<lambda>n.
                       note_distinct table_name column_name n)))) (\<lambda>_. eret ((), True)))) ())"

section \<open>Databases\<close>

text \<open>The tables of the database leave the memory; the rows of the meta tables and the statistics stay.\<close>

definition ExitDatabase :: "(SystemCatalog, unit) em" where
  "ExitDatabase =
     ebind (eget sc_database) (\<lambda>current.
       if current = INVALID_OID then ethrow (AssertFail ''current_database_oid_ != INVALID_OID'')
       else if current = SYSTEM_DATABASE_OID then eret ()
       else ebind (sc_on_pool (BufferPool_Flush True)) (\<lambda>_.
            ebind (eget (\<lambda>s. filter (\<lambda>oid. oid > PRESERVED_OID) (map fst (sc_oid2table s)))) (\<lambda>deleted_oids.
            ebind (efor (\<lambda>oid.
                ebind (query (\<lambda>s. GetEntryName oid (sc_oids s))) (\<lambda>table_name.
                ebind (on_oids (DropEntry TABLE table_name)) (\<lambda>_.
                  emodify (\<lambda>s. s\<lparr>sc_oid2table := AList.delete oid (sc_oid2table s)\<rparr>)))) deleted_oids) (\<lambda>_.
              emodify (\<lambda>s. s\<lparr>sc_database := INVALID_OID\<rparr>)))))"

definition ChangeDatabase :: "string \<Rightarrow> (SystemCatalog, unit) em" where
  "ChangeDatabase database_name =
     ebind (query (DatabaseExists database_name)) (\<lambda>ex.
       if \<not> ex then ethrow (DbException (''Database '' @ [CHR 0x22] @ database_name @ [CHR 0x22] @ '' does not exist''))
       else ebind (query (\<lambda>s. GetEntryOid DATABASE database_name (sc_oids s))) (\<lambda>db_oid.
            ebind (eget sc_database) (\<lambda>current.
              if db_oid = current then eret ()
              else ebind (if current \<noteq> INVALID_OID then ExitDatabase else eret ()) (\<lambda>_.
                   ebind (emodify (\<lambda>s. s\<lparr>sc_database := db_oid\<rparr>)) (\<lambda>_.
                     if db_oid = SYSTEM_DATABASE_OID then eret ()
                     else ebind LoadTableMeta (\<lambda>_. LoadStatistics))))))"

definition ChangeDatabase_oid :: "oid_t \<Rightarrow> (SystemCatalog, unit) em" where
  "ChangeDatabase_oid db_oid = ebind (query (\<lambda>s. GetEntryName db_oid (sc_oids s))) ChangeDatabase"

definition CreateDatabase :: "string \<Rightarrow> bool \<Rightarrow> oid_t \<Rightarrow> (SystemCatalog, unit) em" where
  "CreateDatabase database_name exists_ok db_oid =
     ebind (query (DatabaseExists database_name)) (\<lambda>ex.
       if \<not> exists_ok \<and> ex
       then ethrow (DbException (''Database '' @ [CHR 0x22] @ database_name @ [CHR 0x22] @ '' already exists''))
       else ebind (if db_oid = INVALID_OID then on_oids (CreateEntry DATABASE database_name)
                   else ebind (on_oids (SetEntryOid DATABASE database_name db_oid)) (\<lambda>_. eret db_oid)) (\<lambda>oid.
            ebind (add_row DATABASE_META_OID [Value_uint oid, Value_string database_name TVARCHAR]) (\<lambda>_.
            ebind (eget (\<lambda>s. DirectoryExists (nat_to_string (unat oid)) (pe_disk (sc_pool s)))) (\<lambda>there.
              if there then eret () else sc_on_disk (CreateDirectory (nat_to_string (unat oid)))))))"

text \<open>The deletion of the rows of a meta table with this database, all of them or the first one.\<close>

definition delete_rows :: "oid_t \<Rightarrow> string \<Rightarrow> ColumnList \<Rightarrow> oid_t \<Rightarrow> bool \<Rightarrow> (SystemCatalog, bool) em" where
  "delete_rows meta column schema oid all_rows =
     for_rows meta (\<lambda>record deleted.
       ebind (elift (uint_at column schema record)) (\<lambda>n.
         if n \<noteq> oid then eret (deleted, True)
         else ebind (with_table meta (Table_DeleteRecord (r_rid record) DDL_XID False)) (\<lambda>_.
              ebind (elift (if all_rows then string_at ''table_name'' schema record else Inr [])) (\<lambda>_.
                eret (True, all_rows))))) False"

definition DropDatabase :: "string \<Rightarrow> bool \<Rightarrow> (SystemCatalog, unit) em" where
  "DropDatabase database_name missing_ok =
     ebind (query (DatabaseExists database_name)) (\<lambda>ex.
       if \<not> ex
       then if missing_ok then eret ()
            else ethrow (DbException (''Database '' @ [CHR 0x22] @ database_name @ [CHR 0x22] @ '' does not exist''))
       else ebind (query (\<lambda>s. GetEntryOid DATABASE database_name (sc_oids s))) (\<lambda>db_oid.
            ebind (eget sc_database) (\<lambda>current.
              if db_oid = current then ethrow (DbException ''Cannot drop the currently open database'')
              else ebind (delete_rows TABLE_META_OID ''db_oid'' table_meta_schema db_oid True) (\<lambda>_.
                   ebind (delete_rows DATABASE_META_OID ''db_oid'' database_meta_schema db_oid False) (\<lambda>deleted.
                     if \<not> deleted
                     then ethrow (DbException (''Database '' @ [CHR 0x22] @ database_name @ [CHR 0x22] @ '' does not exist in Database Meta''))
                     else ebind (on_oids (DropEntry DATABASE database_name)) (\<lambda>_.
                          ebind (eget (\<lambda>s. DirectoryExists (nat_to_string (unat db_oid)) (pe_disk (sc_pool s)))) (\<lambda>there.
                            if there then sc_on_disk (RemoveDirectory (nat_to_string (unat db_oid))) else eret ())))))))"

section \<open>Tables\<close>

text \<open>The oid, the file and the table object are there before the row of the table meta is inserted.\<close>

definition CreateTable :: "string \<Rightarrow> ColumnList \<Rightarrow> oid_t \<Rightarrow> oid_t \<Rightarrow> bool \<Rightarrow> (SystemCatalog, unit) em" where
  "CreateTable table_name column_list oid0 db_oid0 new_table =
     ebind (if db_oid0 = INVALID_OID then ebind (query CheckUsingDatabase) (\<lambda>_. eget sc_database) else eret db_oid0) (\<lambda>db_oid.
     ebind (query (\<lambda>s. EntryExists TABLE table_name (sc_oids s))) (\<lambda>ex.
       if ex then ethrow (DbException (''Table '' @ [CHR 0x22] @ table_name @ [CHR 0x22] @ '' already exists''))
       else ebind (if oid0 = INVALID_OID then on_oids (CreateEntry TABLE table_name)
                   else ebind (on_oids (SetEntryOid TABLE table_name oid0)) (\<lambda>_. eret oid0)) (\<lambda>oid.
            if oid > PRESERVED_OID \<and> db_oid = SYSTEM_DATABASE_OID
            then ethrow (DbException ''Cannot create table in system database'')
            else ebind (if new_table then sc_on_disk (CreateFile (GetFilePath db_oid oid)) else eret ()) (\<lambda>_.
                 ebind (query (EmptyTable db_oid oid)) (\<lambda>is_empty.
                 ebind (note_table (Table_new oid db_oid column_list new_table is_empty)) (\<lambda>_.
                   if \<not> new_table then eret ()
                   else if db_oid = INVALID_OID then ethrow (AssertFail ''db_oid != INVALID_OID'')
                   else ebind (elift (ColumnList_ToString column_list)) (\<lambda>schema.
                        ebind (add_row TABLE_META_OID [Value_uint oid, Value_uint db_oid, Value_string table_name TVARCHAR,
                                 Value_string schema TVARCHAR, Value_uint INVALID_CARDINALITY]) (\<lambda>_. eret ()))))))))"

definition DropTable :: "string \<Rightarrow> (SystemCatalog, unit) em" where
  "DropTable table_name =
     ebind (query CheckUsingDatabase) (\<lambda>_.
     ebind (eget sc_database) (\<lambda>current.
       if current = SYSTEM_DATABASE_OID then ethrow (AssertFail ''current_database_oid_ != SYSTEM_DATABASE_OID'')
       else ebind (query (\<lambda>s. EntryExists TABLE table_name (sc_oids s))) (\<lambda>ex.
         if \<not> ex then ethrow (DbException (''Table '' @ [CHR 0x22] @ table_name @ [CHR 0x22] @ '' does not exist''))
         else ebind (query (\<lambda>s. GetEntryOid TABLE table_name (sc_oids s))) (\<lambda>table_oid.
              ebind (sc_on_disk (RemoveFile (GetFilePath current table_oid))) (\<lambda>_.
              ebind (emodify (\<lambda>s. s\<lparr>sc_oid2table := AList.delete table_oid (sc_oid2table s)\<rparr>)) (\<lambda>_.
              ebind (on_oids (DropEntry TABLE table_name)) (\<lambda>_.
              ebind (delete_rows TABLE_META_OID ''table_oid'' table_meta_schema table_oid False) (\<lambda>deleted.
                if deleted then eret ()
                else ethrow (DbException (''Table '' @ [CHR 0x22] @ table_name @ [CHR 0x22] @ '' does not exist in table_meta''))))))))))"

definition DropTable_oid :: "oid_t \<Rightarrow> (SystemCatalog, unit) em" where
  "DropTable_oid oid = ebind (query (\<lambda>s. GetEntryName oid (sc_oids s))) DropTable"

section \<open>The system tables\<close>

definition create_meta_tables :: "bool \<Rightarrow> (SystemCatalog, unit) em" where
  "create_meta_tables new_table =
     ebind (CreateTable TABLE_META_NAME table_meta_schema TABLE_META_OID SYSTEM_DATABASE_OID new_table) (\<lambda>_.
     ebind (CreateTable DATABASE_META_NAME database_meta_schema DATABASE_META_OID SYSTEM_DATABASE_OID new_table) (\<lambda>_.
       CreateTable STATISTIC_META_NAME statistic_schema STATISTIC_META_OID SYSTEM_DATABASE_OID new_table))"

definition CreateSystemTables :: "(SystemCatalog, unit) em" where
  "CreateSystemTables =
     ebind (sc_on_disk (CreateDirectory (nat_to_string (unat SYSTEM_DATABASE_OID)))) (\<lambda>_.
     ebind (create_meta_tables True) (\<lambda>_.
     ebind (CreateDatabase SYSTEM_DATABASE_NAME False SYSTEM_DATABASE_OID) (\<lambda>_.
     ebind (CreateDatabase DEFAULT_DATABASE_NAME False INVALID_OID) (\<lambda>_.
       ChangeDatabase DEFAULT_DATABASE_NAME))))"

definition LoadSystemTables :: "(SystemCatalog, unit) em" where
  "LoadSystemTables =
     ebind (create_meta_tables False) (\<lambda>_.
     ebind LoadDatabaseMeta (\<lambda>_. ChangeDatabase DEFAULT_DATABASE_NAME))"

end
