(* ===== verification/Catalog_Rows.thy ===== *)
theory Catalog_Rows
  imports System_Catalog Dml_Statements
begin

text \<open>
  What the scans of the meta tables compute: a rule for the loops over their rows, the rows as entries, and the
  lists of names that the catalog gives.
\<close>

section \<open>Loops over rows\<close>

text \<open>The rows that \<^verbatim>\<open>GetNextRecord\<close> without arguments passes on: those that are not deleted.\<close>

definition live :: "Rid \<times> Record \<Rightarrow> bool" where
  "live x \<longleftrightarrow> \<not> skips NULL_XID READ_COMMITTED NULL_CID {} x"

definition live_rows :: "Record list list \<Rightarrow> (Rid \<times> Record) list" where
  "live_rows rss = filter live (table_rows rss)"

lemma scan_rest_pool:
  "scan_rest rss \<lparr>ts_pool = p, ts_table = t, ts_rid = rid\<rparr> rest \<Longrightarrow> table_pages NULL_PAGE_ID t rss p' \<Longrightarrow>
   scan_rest rss \<lparr>ts_pool = p', ts_table = t, ts_rid = rid\<rparr> rest"
  by (auto simp: scan_rest_def)

lemma scan_rest_pages: "scan_rest rss \<lparr>ts_pool = p, ts_table = t, ts_rid = rid\<rparr> rest \<Longrightarrow> table_pages NULL_PAGE_ID t rss p"
  by (simp add: scan_rest_def)

lemma next_row_ok:
  assumes "scan_rest rss \<lparr>ts_pool = sc_pool s, ts_table = t, ts_rid = rid\<rparr> rest"
  obtains res rid' p where "next_row t rid s = (Inr (res, rid'), s\<lparr>sc_pool := p\<rparr>)" "scan_kept t (sc_pool s) p"
    "case filter live rest of
       [] \<Rightarrow> res = None
     | x # xs \<Rightarrow> \<exists>rec rest'. res = Some rec \<and> reads_as (snd x) (fst x) rec \<and> filter live rest' = xs \<and> length rest' < length rest \<and>
         scan_rest rss \<lparr>ts_pool = p, ts_table = t, ts_rid = rid'\<rparr> rest'"
proof -
  let ?sk = "skips NULL_XID READ_COMMITTED NULL_CID {}"
  let ?ts = "\<lparr>ts_pool = sc_pool s, ts_table = t, ts_rid = rid\<rparr>"
  obtain res ts where ts: "GetNextRecord NULL_XID READ_COMMITTED NULL_CID {} ?ts = (Inr res, ts)" "ts_table ts = t"
    "scan_kept t (sc_pool s) (ts_pool ts)"
    "case dropWhile ?sk rest of [] \<Rightarrow> res = None \<and> scan_rest rss ts []
     | x # xs \<Rightarrow> (\<exists>rec. res = Some rec \<and> reads_as (snd x) (fst x) rec) \<and> scan_rest rss ts xs"
    by (rule GetNextRecord_ok [OF assms]) auto
  have eq: "ts = \<lparr>ts_pool = ts_pool ts, ts_table = t, ts_rid = ts_rid ts\<rparr>" using ts(2) by (cases ts) simp
  have lv: "live = (\<lambda>x. \<not> ?sk x)" by (simp add: live_def fun_eq_iff)
  have f: "filter live rest = filter live (dropWhile ?sk rest)"
    using filter_dropWhile [of ?sk rest] unfolding lv by (rule sym)
  have n: "next_row t rid s = (Inr (res, ts_rid ts), s\<lparr>sc_pool := ts_pool ts\<rparr>)" using ts(1) by (simp add: next_row_def)
  have r: "case filter live rest of
       [] \<Rightarrow> res = None
     | x # xs \<Rightarrow> \<exists>rec rest'. res = Some rec \<and> reads_as (snd x) (fst x) rec \<and> filter live rest' = xs \<and> length rest' < length rest \<and>
         scan_rest rss \<lparr>ts_pool = ts_pool ts, ts_table = t, ts_rid = ts_rid ts\<rparr> rest'"
  proof (cases "dropWhile ?sk rest")
    case Nil
    then show ?thesis using ts(4) unfolding f Nil by simp
  next
    case (Cons x xs)
    then have "live x" "length xs < length rest"
      using hd_dropWhile [of ?sk rest] length_dropWhile_le [of ?sk rest] by (auto simp: live_def)
    moreover have "(\<exists>rec. res = Some rec \<and> reads_as (snd x) (fst x) rec)"
      "scan_rest rss \<lparr>ts_pool = ts_pool ts, ts_table = t, ts_rid = ts_rid ts\<rparr> xs"
      using ts(4) Cons eq by simp_all
    ultimately show ?thesis unfolding f Cons by auto
  qed
  show thesis by (rule that [OF n ts(3) r])
qed

text \<open>
  A loop whose body keeps the pages of the table goes through the live rows, or stops when the body says so. Fetching pages
  of the table may change the frames in between.
\<close>

lemma row_loop_rule:
  assumes kept: "\<And>xs acc s p. P xs acc s \<Longrightarrow> scan_kept t (sc_pool s) p \<Longrightarrow> P xs acc (s\<lparr>sc_pool := p\<rparr>)"
    and step: "\<And>x xs acc s rec. P (x # xs) acc s \<Longrightarrow> reads_as (snd x) (fst x) rec \<Longrightarrow> table_pages NULL_PAGE_ID t rss (sc_pool s) \<Longrightarrow>
      \<exists>acc' more s'. body rec acc s = (Inr (acc', more), s') \<and> table_pages NULL_PAGE_ID t rss (sc_pool s') \<and>
        (if more then P xs acc' s' else Q acc' s')"
    and finish: "\<And>acc s. P [] acc s \<Longrightarrow> Q acc s"
  shows "scan_rest rss \<lparr>ts_pool = sc_pool s, ts_table = t, ts_rid = rid\<rparr> rest \<Longrightarrow> P (filter live rest) acc s \<Longrightarrow> length rest < fuel \<Longrightarrow>
    \<exists>acc' s'. row_loop t body fuel rid acc s = (Inr acc', s') \<and> Q acc' s'"
proof (induction fuel arbitrary: rid rest acc s)
  case (Suc fuel)
  obtain res rid' p where n: "next_row t rid s = (Inr (res, rid'), s\<lparr>sc_pool := p\<rparr>)" "scan_kept t (sc_pool s) p"
    "case filter live rest of
       [] \<Rightarrow> res = None
     | x # xs \<Rightarrow> \<exists>rec rest'. res = Some rec \<and> reads_as (snd x) (fst x) rec \<and> filter live rest' = xs \<and> length rest' < length rest \<and>
         scan_rest rss \<lparr>ts_pool = p, ts_table = t, ts_rid = rid'\<rparr> rest'"
    by (rule next_row_ok [OF Suc.prems(1)])
  have P: "P (filter live rest) acc (s\<lparr>sc_pool := p\<rparr>)" by (rule kept [OF Suc.prems(2) n(2)])
  show ?case
  proof (cases "filter live rest")
    case Nil
    then show ?thesis using n finish P by (simp add: ebind_def)
  next
    case (Cons x xs)
    then obtain rec rest' where r: "res = Some rec" "reads_as (snd x) (fst x) rec" "filter live rest' = xs" "length rest' < length rest"
      "scan_rest rss \<lparr>ts_pool = p, ts_table = t, ts_rid = rid'\<rparr> rest'"
      using n(3) by auto
    obtain acc' more s' where b: "body rec acc (s\<lparr>sc_pool := p\<rparr>) = (Inr (acc', more), s')" "table_pages NULL_PAGE_ID t rss (sc_pool s')"
      "if more then P xs acc' s' else Q acc' s'"
      using step [of x xs acc "s\<lparr>sc_pool := p\<rparr>" rec] P Cons r(2) scan_rest_pages [OF r(5)] by auto
    show ?thesis
    proof (cases more)
      case True
      have "length rest' < fuel" using r(4) Suc.prems(3) by simp
      from Suc.IH [OF scan_rest_pool [OF r(5) b(2)] _ this] show ?thesis using b(1,3) n(1) r(1,3) True by (simp add: ebind_def)
    next
      case False
      then show ?thesis using b(1,3) n(1) r(1) by (simp add: ebind_def)
    qed
  qed
qed simp

section \<open>Meta tables\<close>

text \<open>The meta table \<open>oid\<close> is in memory, and its pages hold these rows.\<close>

definition meta_at :: "oid_t \<Rightarrow> Table \<Rightarrow> Record list list \<Rightarrow> SystemCatalog \<Rightarrow> bool" where
  "meta_at oid t rss s \<longleftrightarrow> map_of (sc_oid2table s) oid = Some t \<and> tb_oid t = oid \<and>
     table_rep rss \<lparr>te_pool = sc_pool s, te_table = t, te_junk = sc_junk s\<rparr>"

lemma for_rows_rule:
  assumes m: "meta_at oid t rss s" and P: "P (live_rows rss) acc s"
    and kept: "\<And>xs acc s p. P xs acc s \<Longrightarrow> scan_kept t (sc_pool s) p \<Longrightarrow> P xs acc (s\<lparr>sc_pool := p\<rparr>)"
    and step: "\<And>x xs acc s rec. P (x # xs) acc s \<Longrightarrow> reads_as (snd x) (fst x) rec \<Longrightarrow> table_pages NULL_PAGE_ID t rss (sc_pool s) \<Longrightarrow>
      \<exists>acc' more s'. body rec acc s = (Inr (acc', more), s') \<and> table_pages NULL_PAGE_ID t rss (sc_pool s') \<and>
        (if more then P xs acc' s' else Q acc' s')"
    and finish: "\<And>acc s. P [] acc s \<Longrightarrow> Q acc s"
  shows "\<exists>acc' s'. for_rows oid body acc s = (Inr acc', s') \<and> Q acc' s'"
proof -
  let ?te = "\<lparr>te_pool = sc_pool s, te_table = t, te_junk = sc_junk s\<rparr>"
  have rep: "table_rep rss ?te" using m by (simp add: meta_at_def)
  have "scan_rest rss \<lparr>ts_pool = sc_pool s, ts_table = t, ts_rid = page_start (tb_first_page_id t)\<rparr> (table_rows rss)"
    using scan_start_rest [OF rep] by (simp add: scan_start_def TableScan_new_def)
  moreover have "length (table_rows rss) < Suc SCAN_FUEL"
    using table_rows_length [OF table_pages_range [of NULL_PAGE_ID t rss "sc_pool s"]] rep
    by (simp add: table_rep_def SCAN_FUEL_def ROW_FUEL_def)
  moreover have "P (filter live (table_rows rss)) acc s" using P by (simp add: live_rows_def)
  ultimately have "\<exists>acc' s'. row_loop t body (Suc SCAN_FUEL) (page_start (tb_first_page_id t)) acc s = (Inr acc', s') \<and> Q acc' s'"
    by (intro row_loop_rule [where P = P and Q = Q and t = t and rss = rss and body = body]) (rule kept step finish; assumption)+
  then show ?thesis using m by (simp add: for_rows_def query_def GetTable_def meta_at_def ebind_def)
qed

section \<open>The rows of the meta tables\<close>

record TableRow =
  tr_oid :: oid_t
  tr_db :: oid_t
  tr_name :: string
  tr_schema :: string
  tr_cardinality :: "32 word"

definition table_row :: "TableRow \<Rightarrow> Val list" where
  "table_row e = [Value_uint (tr_oid e), Value_uint (tr_db e), Value_string (tr_name e) TVARCHAR,
     Value_string (tr_schema e) TVARCHAR, Value_uint (tr_cardinality e)]"

record StatisticRow =
  st_table :: string
  st_db :: oid_t
  st_column :: string
  st_distinct :: "32 word"

definition statistic_row :: "StatisticRow \<Rightarrow> Val list" where
  "statistic_row e = [Value_string (st_table e) TVARCHAR, Value_uint (st_db e), Value_string (st_column e) TVARCHAR,
     Value_uint (st_distinct e)]"

text \<open>The live rows of a meta table are these entries, in order.\<close>

definition rows_are :: "('e \<Rightarrow> Val list) \<Rightarrow> 'e list \<Rightarrow> (Rid \<times> Record) list \<Rightarrow> bool" where
  "rows_are f es xs \<longleftrightarrow> map (\<lambda>x. r_values (snd x)) xs = map f es"

lemma rows_are_Cons: "rows_are f es (x # xs) \<longleftrightarrow> (\<exists>e es'. es = e # es' \<and> r_values (snd x) = f e \<and> rows_are f es' xs)"
  by (auto simp: rows_are_def Cons_eq_map_conv)

lemma rows_are_Nil [simp]: "rows_are f es [] \<longleftrightarrow> es = []"
  by (auto simp: rows_are_def)

definition meta_rows :: "oid_t \<Rightarrow> ('e \<Rightarrow> Val list) \<Rightarrow> Table \<Rightarrow> 'e list \<Rightarrow> SystemCatalog \<Rightarrow> bool" where
  "meta_rows oid f t es s \<longleftrightarrow> (\<exists>rss. meta_at oid t rss s \<and> rows_are f es (live_rows rss))"

lemma not_null [simp]: "\<not> IsNull (Value_uint n)" "\<not> IsNull (Value_string str TVARCHAR)"
  by (simp_all add: IsNull_def Value_uint_def Value_string_def)

lemma nullify_rows [simp]: "map nullify (table_row e) = table_row e" "map nullify (statistic_row e') = statistic_row e'"
  by (simp_all add: table_row_def statistic_row_def nullify_def)

lemma GetValue_meta [simp]: "GetValue_uint (Value_uint n) = Inr n" "GetValue_string (Value_string str TVARCHAR) = Inr str"
proof -
  have "ucast (ucast n :: 64 word) = n" by (rule bit_word_eqI) (simp add: bit_simps)
  then show "GetValue_uint (Value_uint n) = Inr n" by (simp add: GetValue_uint_def Value_uint_def v_uint_def)
  show "GetValue_string (Value_string str TVARCHAR) = Inr str" by (simp add: GetValue_string_def Value_string_def)
qed

lemma meta_indexes:
  "GetColumnIndex ''table_oid'' table_meta_schema = Inr 0" "GetColumnIndex ''db_oid'' table_meta_schema = Inr 1"
  "GetColumnIndex ''table_name'' table_meta_schema = Inr 2" "GetColumnIndex ''schema'' table_meta_schema = Inr 3"
  "GetColumnIndex ''cardinality'' table_meta_schema = Inr 4"
  "GetColumnIndex ''table_name'' statistic_schema = Inr 0" "GetColumnIndex ''db_oid'' statistic_schema = Inr 1"
  "GetColumnIndex ''column_name'' statistic_schema = Inr 2" "GetColumnIndex ''n_distinct'' statistic_schema = Inr 3"
  by code_simp+

lemma table_row_fields:
  assumes "r_values rec = table_row e"
  shows "uint_at ''table_oid'' table_meta_schema rec = Inr (tr_oid e)" "uint_at ''db_oid'' table_meta_schema rec = Inr (tr_db e)"
    "string_at ''table_name'' table_meta_schema rec = Inr (tr_name e)" "string_at ''schema'' table_meta_schema rec = Inr (tr_schema e)"
    "uint_at ''cardinality'' table_meta_schema rec = Inr (tr_cardinality e)"
  using assms by (simp_all add: uint_at_def string_at_def meta_indexes Record_GetValue_def table_row_def)

lemma statistic_row_fields:
  assumes "r_values rec = statistic_row e"
  shows "string_at ''table_name'' statistic_schema rec = Inr (st_table e)" "uint_at ''db_oid'' statistic_schema rec = Inr (st_db e)"
    "string_at ''column_name'' statistic_schema rec = Inr (st_column e)" "uint_at ''n_distinct'' statistic_schema rec = Inr (st_distinct e)"
  using assms by (simp_all add: uint_at_def string_at_def meta_indexes Record_GetValue_def statistic_row_def)

lemma reads_table_row: "reads_as row rid rec \<Longrightarrow> r_values row = table_row e \<Longrightarrow> r_values rec = table_row e"
  by (simp add: reads_as_def)

lemma reads_statistic_row: "reads_as row rid rec \<Longrightarrow> r_values row = statistic_row e \<Longrightarrow> r_values rec = statistic_row e"
  by (simp add: reads_as_def)

section \<open>Lists of names\<close>

text \<open>Reading a meta table changes the frames of its pages only.\<close>

definition read_only :: "Table \<Rightarrow> SystemCatalog \<Rightarrow> SystemCatalog \<Rightarrow> bool" where
  "read_only t s s' \<longleftrightarrow> (\<exists>p. s' = s\<lparr>sc_pool := p\<rparr> \<and> scan_kept t (sc_pool s) p)"

lemma read_only_step: "read_only t s s' \<Longrightarrow> scan_kept t (sc_pool s') p \<Longrightarrow> read_only t s (s'\<lparr>sc_pool := p\<rparr>)"
  unfolding read_only_def by (elim exE conjE, rule exI [of _ p]) (auto intro: scan_kept_trans)

lemma read_only_refl [simp]: "read_only t s s"
  unfolding read_only_def by (rule exI [of _ "sc_pool s"]) simp

lemma GetTableNames_ok:
  assumes m: "meta_rows TABLE_META_OID table_row t es s" and db: "sc_database s \<noteq> INVALID_OID"
  shows "\<exists>s'. GetTableNames s = (Inr (map tr_name (filter (\<lambda>e. tr_db e = sc_database s) es)), s') \<and> read_only t s s'"
proof -
  let ?names = "\<lambda>es. map tr_name (filter (\<lambda>e. tr_db e = sc_database s) es)"
  let ?P = "\<lambda>xs acc s'. read_only t s s' \<and> (\<exists>fs. rows_are table_row fs xs \<and> acc @ ?names fs = ?names es)"
  obtain rss where rss: "meta_at TABLE_META_OID t rss s" "rows_are table_row es (live_rows rss)"
    using m by (auto simp: meta_rows_def)
  have "\<exists>acc' s'. for_rows TABLE_META_OID (\<lambda>record names.
      ebind (elift (uint_at ''db_oid'' table_meta_schema record)) (\<lambda>db.
        if db = sc_database s
        then ebind (elift (string_at ''table_name'' table_meta_schema record)) (\<lambda>name. eret (names @ [name], True))
        else eret (names, True))) [] s = (Inr acc', s') \<and> acc' = ?names es \<and> read_only t s s'"
  proof (rule for_rows_rule [OF rss(1), where P = ?P])
    show "?P (live_rows rss) [] s" using rss(2) by auto
    show "?P xs acc (s'\<lparr>sc_pool := p\<rparr>)" if "?P xs acc s'" "scan_kept t (sc_pool s') p" for xs acc s' p
      using that read_only_step by blast
    fix x xs acc s' rec
    assume P: "?P (x # xs) acc s'" and rec: "reads_as (snd x) (fst x) rec" and pages: "table_pages NULL_PAGE_ID t rss (sc_pool s')"
    then obtain e fs where e: "r_values (snd x) = table_row e" "rows_are table_row fs xs" "acc @ ?names (e # fs) = ?names es"
      by (auto simp: rows_are_Cons)
    note f = table_row_fields [OF reads_table_row [OF rec e(1)]]
    show "\<exists>acc' more s''. (ebind (elift (uint_at ''db_oid'' table_meta_schema rec)) (\<lambda>db.
        if db = sc_database s
        then ebind (elift (string_at ''table_name'' table_meta_schema rec)) (\<lambda>name. eret (acc @ [name], True))
        else eret (acc, True))) s' = (Inr (acc', more), s'') \<and> table_pages NULL_PAGE_ID t rss (sc_pool s'') \<and>
        (if more then ?P xs acc' s'' else acc' = ?names es \<and> read_only t s s'')"
      using e P pages by (cases "tr_db e = sc_database s") (auto simp: f ebind_def)
  qed auto
  then show ?thesis using db by (auto simp: GetTableNames_def ebind_def)
qed

end
