(* ===== verification/Catalog_Tables.thy ===== *)
theory Catalog_Tables
  imports Catalog_Rows
begin

text \<open>
  What \<^verbatim>\<open>SystemCatalog::CreateTable\<close> does to the memory of the catalog and to the rows of the table meta, when the
  row of the table fits into a record and when it does not.
\<close>

section \<open>A new file\<close>

text \<open>A table file can be created: its directory exists and nothing has its name.\<close>

definition free_path :: "string \<Rightarrow> Disk \<Rightarrow> bool" where
  "free_path path d \<longleftrightarrow> CHR ''/'' \<in> set path \<and> dk_names d path = None \<and> \<not> DirectoryExists path d \<and> parent_exists path d"

definition with_file :: "string \<Rightarrow> Disk \<Rightarrow> Disk" where
  "with_file path d = d\<lparr>dk_names := (dk_names d)(path \<mapsto> dk_next d), dk_data := (dk_data d)(dk_next d := []), dk_next := Suc (dk_next d)\<rparr>"

lemma CreateFile_free: "free_path path d \<Longrightarrow> CreateFile path d = (Inr (), with_file path d)"
  by (simp add: CreateFile_def ofstream_write_def free_path_def with_file_def)

lemma with_file_empty: "EmptyFile path (with_file path d) = Inr True"
  by (simp add: EmptyFile_def with_file_def)

lemma with_file_content:
  assumes "disk_ok d" "free_path path d"
  shows "disk_content (with_file path d) = disk_content d" "disk_ok (with_file path d)"
    "disk_writable d k \<Longrightarrow> disk_writable (with_file path d) k" "next_lsn_file (with_file path d) = next_lsn_file d"
proof -
  have new: "dk_names d p \<noteq> Some (dk_next d)" for p using assms(1) by (auto simp: disk_ok_def names_ok_def)
  have content: "page_content (with_file path d) p pid = page_content d p pid" for p pid
    using assms(2) new [of p] by (auto simp: page_content_def with_file_def free_path_def split: option.split)
  then show "disk_content (with_file path d) = disk_content d" by (simp add: disk_content_def fun_eq_iff)
  have "names_ok (with_file path d)"
    using assms(1) new by (auto simp: disk_ok_def names_ok_def with_file_def inj_on_def domI less_Suc_eq split: if_splits)
  moreover have "stream_ok (with_file path d) p" for p
    using assms by (cases "p = path") (auto simp: disk_ok_def stream_ok_def with_file_def free_path_def)
  ultimately show "disk_ok (with_file path d)" by (simp add: disk_ok_def)
  show "disk_writable d k \<Longrightarrow> disk_writable (with_file path d) k" by (auto simp: disk_writable_def FileExists_def with_file_def)
  have "path \<noteq> NEXT_LSN_NAME" using assms(2) by (auto simp: free_path_def NEXT_LSN_NAME_def)
  then show "next_lsn_file (with_file path d) = next_lsn_file d"
    using new [of NEXT_LSN_NAME]
    by (simp add: next_lsn_file_def FileExists_def read_number_def with_file_def split: option.split)
qed

lemma with_file_log:
  assumes "log_good e" "free_path path (le_disk e)"
  shows "log_good (e\<lparr>le_disk := with_file path (le_disk e)\<rparr>)"
proof -
  let ?d = "with_file path (le_disk e)"
  obtain base fl where inv: "log_inv base e" "log_rep base fl e" "chain_inv fl (le_log e)"
    using assms(1) by (auto simp: log_good_def log_inv_def)
  note f = with_file_content [OF log_good_disk_ok [OF assms(1)] assms(2)]
  have d: "dk_dirs ?d = dk_dirs (le_disk e)" "dk_log ?d = dk_log (le_disk e)" "dk_log_fail ?d = dk_log_fail (le_disk e)"
    "dk_segments ?d = dk_segments (le_disk e)"
    by (simp_all add: with_file_def)
  have "log_rep base fl (e\<lparr>le_disk := ?d\<rparr>)"
    using inv(2) log_core_disk [OF _ d(2-4)] f(4) d(1) by (simp add: log_rep_def DirectoryExists_def)
  then show ?thesis using inv f(2) d(1) by (auto simp: log_good_def log_inv_def DirectoryExists_def)
qed

definition pool_with_file :: "string \<Rightarrow> PoolEnv \<Rightarrow> PoolEnv" where
  "pool_with_file path p = p\<lparr>pe_log := (pe_log p)\<lparr>le_disk := with_file path (pe_disk p)\<rparr>\<rparr>"

lemma pool_with_file_inv:
  assumes inv: "pool_inv {} p" and free: "free_path path (pe_disk p)"
  shows "pool_inv {} (pool_with_file path p)" "pool_view (pool_with_file path p) = pool_view p"
    "frame_keys (pool_with_file path p) = frame_keys p" "disk_writable (pe_disk p) k \<Longrightarrow> disk_writable (pe_disk (pool_with_file path p)) k"
proof -
  let ?p = "pool_with_file path p"
  have lg: "log_good (pe_log p)" using inv by (simp add: pool_inv_def frames_inv_def)
  note f = with_file_content [OF log_good_disk_ok [OF lg] free]
  have same: "frames ?p = frames p" "pe_heap ?p = pe_heap p" "pe_pool ?p = pe_pool p" "pe_fresh ?p = pe_fresh p"
    "pe_disk ?p = with_file path (pe_disk p)" "log_good (pe_log ?p)"
    using with_file_log [OF lg free] by (simp_all add: pool_with_file_def frames_def)
  show "pool_view ?p = pool_view p"
    using f(1) by (simp add: fun_eq_iff pool_view_def frame_ref_def page_of_def same split: option.split)
  show "pool_inv {} ?p"
    using inv f(1,3) same by (auto simp: pool_inv_def frames_inv_def frame_ok_def)
  show "frame_keys ?p = frame_keys p" by (simp add: frame_keys_def same)
  show "disk_writable (pe_disk p) k \<Longrightarrow> disk_writable (pe_disk ?p) k" using f(3) by (simp add: same)
qed

lemma pool_with_file_pages:
  assumes "table_pages nx t rss p" "free_path path (pe_disk p)"
  shows "table_pages nx t rss (pool_with_file path p)"
  using assms pool_with_file_inv [OF _ assms(2)]
  by (simp add: table_pages_def table_owns_def page_holds_def page_at_def)

section \<open>A new row of the table meta\<close>

text \<open>A live row does not depend on its place.\<close>

lemma live_rows_concat: "map snd (live_rows rss) = filter (\<lambda>row. live (rid, row)) (concat rss)"
proof -
  have "map snd (page_rids rss i 0) = rss ! i" for i by (simp add: page_rids_def comp_def map_nth)
  then have "map snd (table_rows rss) = concat (map ((!) rss) [0..<length rss])"
    by (simp add: table_rows_def map_concat comp_def)
  then have "map snd (table_rows rss) = concat rss" by (simp add: map_nth)
  moreover have "map snd (filter live xs) = filter (\<lambda>row. live (rid, row)) (map snd xs)" for xs
    by (induction xs) (auto simp: live_def skips_def)
  ultimately show ?thesis by (simp add: live_rows_def)
qed

lemma rows_are_concat:
  "rows_are f es (live_rows rss) \<longleftrightarrow> map r_values (filter (\<lambda>row. live (undefined, row)) (concat rss)) = map f es"
  using arg_cong [OF live_rows_concat [of rss undefined], of "map r_values"] by (simp add: rows_are_def comp_def)

text \<open>A new live row appears at some place in the order of the entries.\<close>

lemma rows_are_place:
  assumes "rows_are f es (live_rows rss)" "live (undefined, rec)" "r_values rec = f e"
  shows "\<exists>es1 es2. es = es1 @ es2 \<and> rows_are f (es1 @ e # es2) (live_rows (place k rec rss))"
proof -
  let ?l = "\<lambda>rows. map r_values (filter (\<lambda>row. live (undefined, row)) (concat rows))"
  define A B where "A = (if k < length rss then take (Suc k) rss else rss)" and "B = drop (Suc k) rss"
  have "concat (rss[k := rss ! k @ [rec]]) = concat (take (Suc k) rss) @ rec # concat (drop (Suc k) rss)" if "k < length rss"
    using that by (simp add: upd_conv_take_nth_drop take_Suc_conv_app_nth)
  then have "concat (place k rec rss) = concat A @ rec # concat B" by (auto simp: place_def A_def B_def)
  moreover have "A @ B = rss" by (simp add: A_def B_def)
  ultimately have c: "concat (place k rec rss) = concat A @ rec # concat B" "concat rss = concat A @ concat B"
    by (simp, metis concat_append)
  have "?l A @ ?l B = map f es" using assms(1) unfolding rows_are_concat c(2) by simp
  then obtain es1 es2 where es: "es = es1 @ es2" "map f es1 = ?l A" "map f es2 = ?l B"
    by (auto simp: append_eq_map_conv)
  then have "rows_are f (es1 @ e # es2) (live_rows (place k rec rss))"
    using assms(2,3) unfolding rows_are_concat c(1) by simp
  then show ?thesis using es(1) by blast
qed

text \<open>A record of the table meta fits into a page when the name and the schema have at most 200 characters.\<close>

lemma length_value_bytes:
  "length (value_bytes (Value_uint n)) = 4"
  "length str < 65534 \<Longrightarrow> length (value_bytes (Value_string str TVARCHAR)) = 2 + length str"
proof -
  show "length (value_bytes (Value_uint n)) = 4"
    by (simp add: value_bytes_def Value_SerializeTo_def union_bytes_def Value_uint_def IsNull_def)
  show "length (value_bytes (Value_string str TVARCHAR)) = 2 + length str" if "length str < 65534"
    using that string_roundtrip(1) [of "Value_string str TVARCHAR"] by (simp add: value_bytes_def IsNull_def Value_string_def)
qed

definition row_length :: "TableRow \<Rightarrow> nat" where
  "row_length e = 30 + length (tr_name e) + length (tr_schema e)"

lemma table_row_record:
  assumes "row_length e < 65000"
  obtains r where "Record_new (table_row e) rid = Inr r" "record_ok r" "r_values r = table_row e" "r_header r = RecordHeader_default"
    "length (record_bytes r) = row_length e" "unat (r_size r) = row_length e"
proof -
  have str: "length (tr_name e) < 65534" "length (tr_schema e) < 65534" using assms by (simp_all add: row_length_def)
  have body: "length (body_bytes (table_row e)) = 16 + length (tr_name e) + length (tr_schema e)"
    using str by (simp add: table_row_def length_value_bytes)
  have ok: "values_ok (table_row e)"
    using str body assms by (simp add: values_ok_def row_length_def) (auto simp: table_row_def)
  obtain r where r: "Record_new (table_row e) rid = Inr r" "record_ok r" "r_values r = table_row e" "r_header r = RecordHeader_default"
    by (rule Record_new_ok [OF ok])
  have len: "length (record_bytes r) = row_length e"
    using r(2,3) body by (simp add: record_bytes_def record_ok_def row_length_def) (simp add: table_row_def)
  show thesis by (rule that [OF r len]) (simp add: record_size [OF r(2)] len)
qed

lemma table_row_fits: "columns_fit table_meta_schema (table_row e)"
  by (simp add: columns_fit_def table_meta_schema_def table_row_def uint_column_def name_column_def column_fits_def
      Value_uint_def Value_string_def)

lemma live_stamped: "r_header r = RecordHeader_default \<Longrightarrow> live (rid, stamped DDL_XID DDL_CID r)"
  by (simp add: live_def skips_def CanGet_def stamped_def SetXmin_def SetCid_def RecordHeader_default_def)

text \<open>Pages for \<open>n\<close> more rows are left.\<close>

definition meta_room :: "nat \<Rightarrow> Table \<Rightarrow> TableRow list \<Rightarrow> SystemCatalog \<Rightarrow> bool" where
  "meta_room n t es s \<longleftrightarrow> tb_column_list t = table_meta_schema \<and>
     (\<exists>rss. meta_at TABLE_META_OID t rss s \<and> rows_are table_row es (live_rows rss) \<and> length rss + n < 2 ^ 32)"

lemma meta_room_rows: "meta_room n t es s \<Longrightarrow> meta_rows TABLE_META_OID table_row t es s"
  by (auto simp: meta_room_def meta_rows_def)

text \<open>The new row is placed among the rows of the table meta.\<close>

lemma add_row_ok:
  assumes m: "meta_room (Suc k) t es s" and len: "row_length e \<le> MAX_RECORD_SIZE"
  obtains res s' es1 es2 where "add_row TABLE_META_OID (table_row e) s = (Inr res, s')" "es = es1 @ es2"
    "meta_room k (t\<lparr>tb_first_page_id := 0\<rparr>) (es1 @ e # es2) s'"
    "s' = s\<lparr>sc_pool := sc_pool s',
       sc_oid2table := AList.update TABLE_META_OID (t\<lparr>tb_first_page_id := 0\<rparr>) (sc_oid2table s)\<rparr>"
    "outside_kept t (sc_pool s) (sc_pool s')"
proof -
  let ?te = "\<lparr>te_pool = sc_pool s, te_table = t, te_junk = sc_junk s\<rparr>" and ?t' = "t\<lparr>tb_first_page_id := 0\<rparr>"
  let ?rid = "\<lparr>rid_page_id = 0, rid_slot_id = 0\<rparr>"
  obtain rss where rss: "meta_at TABLE_META_OID t rss s" "rows_are table_row es (live_rows rss)" and cols: "tb_column_list t = table_meta_schema"
    and n: "length rss + 1 < 2 ^ 32" "length rss + Suc k < 2 ^ 32"
    using m by (auto simp: meta_room_def)
  then have at: "map_of (sc_oid2table s) TABLE_META_OID = Some t" "tb_oid t = TABLE_META_OID" "table_rep rss ?te"
    by (simp_all add: meta_at_def)
  obtain rec where rec: "Record_new (table_row e) ?rid = Inr rec" "record_ok rec" "r_values rec = table_row e"
    "r_header rec = RecordHeader_default" "length (record_bytes rec) = row_length e"
    using table_row_record [of e ?rid] len by (auto simp: MAX_RECORD_SIZE_def)
  have ins: "insertable 0 (te_table ?te) rec False DDL_XID (pe_log (te_pool ?te))"
    using rec len cols table_row_fits by (simp add: insertable_def)
  define i where "i = first_fit rec rss"
  let ?new = "stamped DDL_XID DDL_CID rec"
  obtain p' where p': "Table_InsertRecord rec DDL_XID DDL_CID False ?te = (Inr (placed_rid i rss, ?new\<lparr>r_rid := placed_rid i rss\<rparr>),
      ?te\<lparr>te_pool := p', te_table := ?t'\<rparr>)" "placed 0 t i ?new False DDL_XID rss (sc_pool s) p'"
    unfolding i_def using Table_InsertRecord_ok [OF at(3) ins n(1)] by auto
  let ?s' = "s\<lparr>sc_pool := p', sc_oid2table := AList.update TABLE_META_OID ?t' (sc_oid2table s)\<rparr>"
  have run: "add_row TABLE_META_OID (table_row e) s = (Inr (placed_rid i rss, ?new\<lparr>r_rid := placed_rid i rss\<rparr>), ?s')"
    using rec(1) p'(1) at(1) by (simp add: add_row_def with_table_def GetTable_def ebind_def elift_def)
  have "r_values ?new = table_row e" by (simp add: stamped_def rec(3) SetXmin_def SetCid_def)
  then obtain es1 es2 where es: "es = es1 @ es2" "rows_are table_row (es1 @ e # es2) (live_rows (place i ?new rss))"
    using rows_are_place [OF rss(2) live_stamped [OF rec(4)]] by blast
  have "table_rep (place i ?new rss) (?te\<lparr>te_pool := p', te_table := ?t'\<rparr>)"
    using placed_rep [OF at(3), of 0 i ?new False DDL_XID p'] p'(2) by simp
  then have "meta_at TABLE_META_OID ?t' (place i ?new rss) ?s'"
    using at(2) by (simp add: meta_at_def update_conv')
  moreover have "length (place i ?new rss) \<le> Suc (length rss)" by (simp add: place_def)
  ultimately have "meta_room k ?t' (es1 @ e # es2) ?s'" using es(2) cols n(2) by (auto simp: meta_room_def intro!: exI [of _ "place i ?new rss"])
  then show thesis using that [OF run es(1)] p'(2) by (simp add: placed_def)
qed

text \<open>A row that is too long is refused, and nothing of the catalog changes.\<close>

lemma add_row_too_long:
  assumes at: "map_of (sc_oid2table s) TABLE_META_OID = Some t" and len: "MAX_RECORD_SIZE < row_length e" "row_length e < 65000"
  shows "\<exists>tables. add_row TABLE_META_OID (table_row e) s
       = (Inl (DbException (''Record size too large: '' @ nat_to_string (row_length e))), s\<lparr>sc_oid2table := tables\<rparr>) \<and>
     map_of tables = map_of (sc_oid2table s)"
proof -
  let ?te = "\<lparr>te_pool = sc_pool s, te_table = t, te_junk = sc_junk s\<rparr>" and ?rid = "\<lparr>rid_page_id = 0, rid_slot_id = 0\<rparr>"
  obtain rec where rec: "Record_new (table_row e) ?rid = Inr rec" "unat (r_size rec) = row_length e"
    using table_row_record [OF len(2), of ?rid] by metis
  have "add_row TABLE_META_OID (table_row e) s = (Inl (DbException (''Record size too large: '' @ nat_to_string (row_length e))),
      s\<lparr>sc_oid2table := AList.update TABLE_META_OID t (sc_oid2table s)\<rparr>)"
    using rec len at by (simp add: add_row_def with_table_def GetTable_def ebind_def elift_def Table_InsertRecord_def)
  moreover have "map_of (AList.update TABLE_META_OID t (sc_oid2table s)) = map_of (sc_oid2table s)"
    using at by (auto simp: update_conv')
  ultimately show ?thesis by blast
qed

section \<open>Creating a table\<close>

text \<open>
  In a database other than the system database, the name, the path and the pages of the next oid are free; the oids are small enough
  for \<^verbatim>\<open>stoi\<close>.
\<close>

definition can_create :: "string \<Rightarrow> SystemCatalog \<Rightarrow> bool" where
  "can_create name s \<longleftrightarrow> oid_of (sc_oids s) (TABLE, name) = None \<and> sc_database s \<noteq> INVALID_OID \<and>
     sc_database s \<noteq> SYSTEM_DATABASE_OID \<and> PRESERVED_OID < om_next_oid (sc_oids s) \<and>
     free_path (GetFilePath (sc_database s) (om_next_oid (sc_oids s))) (pe_disk (sc_pool s)) \<and>
     oids_small (sc_database s, om_next_oid (sc_oids s), 0) \<and> (\<forall>k \<in> frame_keys (sc_pool s). fst (snd k) \<noteq> om_next_oid (sc_oids s))"

definition new_row :: "string \<Rightarrow> string \<Rightarrow> SystemCatalog \<Rightarrow> TableRow" where
  "new_row name schema s = \<lparr>tr_oid = om_next_oid (sc_oids s), tr_db = sc_database s, tr_name = name, tr_schema = schema,
     tr_cardinality = INVALID_CARDINALITY\<rparr>"

definition new_table_object :: "ColumnList \<Rightarrow> SystemCatalog \<Rightarrow> Table" where
  "new_table_object cl s = Table_new (om_next_oid (sc_oids s)) (sc_database s) cl True True"

text \<open>The state before the row is inserted: the name, the file and the table object are there.\<close>

definition announced :: "string \<Rightarrow> ColumnList \<Rightarrow> SystemCatalog \<Rightarrow> SystemCatalog \<Rightarrow> bool" where
  "announced name cl s s' \<longleftrightarrow> entered TABLE name (om_next_oid (sc_oids s)) (sc_oids s) (sc_oids s') \<and>
     om_next_oid (sc_oids s') = om_next_oid (sc_oids s) + 1 \<and> sc_database s' = sc_database s \<and>
     GetTable (om_next_oid (sc_oids s)) s' = Inr (new_table_object cl s)"

lemma CreateTable_run:
  assumes "can_create name s" "ColumnList_ToString cl = Inr schema"
  obtains s1 where "announced name cl s s1"
    "CreateTable name cl INVALID_OID INVALID_OID True s =
       ebind (add_row TABLE_META_OID (table_row (new_row name schema s))) (\<lambda>_. eret ()) s1"
    "\<And>n es t. meta_room n t es s \<Longrightarrow> meta_room n t es s1"
    "sc_pool s1 = pool_with_file (GetFilePath (sc_database s) (om_next_oid (sc_oids s))) (sc_pool s)"
    "map_of (sc_oid2table s1) = (map_of (sc_oid2table s))(om_next_oid (sc_oids s) \<mapsto> new_table_object cl s)"
proof -
  let ?oid = "om_next_oid (sc_oids s)" and ?db = "sc_database s"
  let ?path = "GetFilePath ?db ?oid"
  note c = assms(1) [unfolded can_create_def]
  have free: "free_path ?path (pe_disk (sc_pool s))" using c by blast
  obtain m where m: "CreateEntry TABLE name (sc_oids s) = (Inr ?oid, m)" "entered TABLE name ?oid (sc_oids s) m" "om_next_oid m = ?oid + 1"
    using CreateEntry_enters [of TABLE name "sc_oids s"] by (auto simp: supported_def)
  let ?sA = "s\<lparr>sc_oids := m\<rparr>" and ?t = "new_table_object cl s"
  let ?sB = "?sA\<lparr>sc_pool := pool_with_file ?path (sc_pool s)\<rparr>"
  let ?s1 = "?sB\<lparr>sc_oid2table := AList.update ?oid ?t (sc_oid2table s)\<rparr>"
  have ex: "query (\<lambda>s. EntryExists TABLE name (sc_oids s)) s = (Inr False, s)"
    using c EntryExists_of [of TABLE name "sc_oids s"] by (simp add: supported_def query_def)
  have db: "ebind (query CheckUsingDatabase) (\<lambda>_. eget sc_database) s = (Inr ?db, s)"
    using c by (simp add: CheckUsingDatabase_def query_def ebind_def)
  have oid: "on_oids (CreateEntry TABLE name) s = (Inr ?oid, ?sA)" by (simp add: on_oids_def ezoom_def m(1))
  have created: "sc_on_disk (CreateFile ?path) ?sA = (Inr (), ?sB)"
    using CreateFile_free [OF free] by (simp add: sc_on_disk_def sc_on_pool_def in_disk_def in_log_def on_disk_def ezoom_def pool_with_file_def)
  have em: "query (EmptyTable ?db ?oid) ?sB = (Inr True, ?sB)"
    using with_file_empty [of ?path "pe_disk (sc_pool s)"] by (simp add: query_def EmptyTable_def pool_with_file_def)
  have noted: "note_table ?t ?sB = (Inr (), ?s1)" by (simp add: note_table_def emodify_def new_table_object_def Table_new_def)
  have big: "\<not> (?oid > PRESERVED_OID \<and> ?db = SYSTEM_DATABASE_OID)" "?db \<noteq> INVALID_OID" using c by blast+
  note step = trans [OF ebind_apply(1)]
  have run: "CreateTable name cl INVALID_OID INVALID_OID True s =
      ebind (add_row TABLE_META_OID (table_row (new_row name schema s))) (\<lambda>_. eret ()) ?s1"
    unfolding CreateTable_def if_P [OF refl]
    by (rule step, rule db, rule step, rule ex, simp only: if_False, rule step, rule oid, simp only: if_not_P [OF big(1)],
        rule step, simp only: if_True, rule created, rule step, rule em, rule step, rule noted [unfolded new_table_object_def],
        simp only: if_not_P [OF big(2)] not_True_eq_False if_False, rule step, simp only: assms(2), rule em_apply(5),
        simp add: new_row_def table_row_def new_table_object_def)
  have "?oid \<noteq> TABLE_META_OID" using c by auto
  then have "meta_at TABLE_META_OID t rss ?s1" if "meta_at TABLE_META_OID t rss s" for t rss
    using that pool_with_file_pages [of NULL_PAGE_ID t rss "sc_pool s", OF _ free] by (simp add: meta_at_def table_rep_def update_conv')
  then have "meta_room n t es ?s1" if "meta_room n t es s" for n es t
    using that unfolding meta_room_def by blast
  moreover have "announced name cl s ?s1" using m by (simp add: announced_def GetTable_def update_conv')
  ultimately show thesis using that [OF _ run] by (simp add: update_conv')
qed

text \<open>The new table is empty, and its pages belong to nothing else.\<close>

lemma new_table_rep:
  assumes can: "can_create name s" and m: "meta_room n t es s" and p': "pool_inv {} p'"
    "outside_kept t (pool_with_file (GetFilePath (sc_database s) (om_next_oid (sc_oids s))) (sc_pool s)) p'"
  shows "table_rep [] \<lparr>te_pool = p', te_table = new_table_object cl s, te_junk = junk\<rparr>"
    "disk_writable (pe_disk (sc_pool s)) k \<Longrightarrow> disk_writable (pe_disk p') k"
proof -
  let ?oid = "om_next_oid (sc_oids s)" and ?t = "new_table_object cl s"
  let ?path = "GetFilePath (sc_database s) ?oid"
  note c = can [unfolded can_create_def]
  obtain rss where "meta_at TABLE_META_OID t rss s" using m by (auto simp: meta_room_def)
  then have t: "tb_oid t = TABLE_META_OID" "pool_inv {} (sc_pool s)"
    by (simp_all add: meta_at_def table_rep_def table_pages_def table_owns_def)
  have free: "free_path ?path (pe_disk (sc_pool s))" using c by blast
  note f = pool_with_file_inv [OF t(2) free]
  have w: "disk_writable (pe_disk p') = disk_writable (pe_disk (pool_with_file ?path (sc_pool s)))"
    and fr: "\<forall>k \<in> frame_keys p'. k \<in> frame_keys (sc_pool s) \<or> fst (snd k) = tb_oid t"
    using p'(2) f(3) by (simp_all add: outside_kept_def frames_kept_def)
  have "disk_writable (pe_disk p') (tkey ?t i)" for i
    using c unfolding w
    by (simp add: tkey_def new_table_object_def Table_new_def disk_writable_def oids_small_def key_path_def pool_with_file_def
        FileExists_def with_file_def)
  moreover have "\<forall>k \<in> frame_keys p'. fst (snd k) \<noteq> tb_oid ?t"
    using fr c t(1) by (auto simp: new_table_object_def Table_new_def)
  ultimately show "table_rep [] \<lparr>te_pool = p', te_table = ?t, te_junk = junk\<rparr>"
    using p'(1) by (simp add: table_rep_def table_pages_def table_owns_def) (simp add: new_table_object_def Table_new_def)
  show "disk_writable (pe_disk (sc_pool s)) k \<Longrightarrow> disk_writable (pe_disk p') k" using f(4) unfolding w .
qed

text \<open>After the table is announced, its name is taken.\<close>

lemma announced_taken:
  "announced name cl s s1 \<Longrightarrow> CreateTable name cl' oid0 INVALID_OID new_table s1 =
     (if sc_database s1 = INVALID_OID then (Inl (DbException ''Not using databases''), s1)
      else (Inl (DbException (''Table '' @ [CHR 0x22] @ name @ [CHR 0x22] @ '' already exists'')), s1))"
  by (auto simp: announced_def entered_def CreateTable_def CheckUsingDatabase_def query_def ebind_def eget_def EntryExists_of supported_def)

lemma announced_memory:
  "announced name cl s s1 \<Longrightarrow> sc_oids s2 = sc_oids s1 \<Longrightarrow> sc_database s2 = sc_database s1 \<Longrightarrow>
   map_of (sc_oid2table s2) (om_next_oid (sc_oids s)) = map_of (sc_oid2table s1) (om_next_oid (sc_oids s)) \<Longrightarrow> announced name cl s s2"
  by (simp add: announced_def GetTable_def)

lemma announced_oids:
  "announced name cl s s1 \<Longrightarrow> oids_ok (sc_oids s) \<Longrightarrow> next_free (sc_oids s) \<Longrightarrow> can_create name s \<Longrightarrow> oids_ok (sc_oids s1)"
  using entered_ok [of "sc_oids s" TABLE name "om_next_oid (sc_oids s)" "sc_oids s1"]
  by (auto simp: announced_def next_free_def can_create_def)

text \<open>The whole operation, when the row fits into a record and when it does not.\<close>

lemma CreateTable_ok:
  assumes can: "can_create name s" "ColumnList_ToString cl = Inr schema" "oids_ok (sc_oids s)" "next_free (sc_oids s)"
    and m: "meta_room (Suc k) t es s" and len: "length name + length schema \<le> 200"
  obtains s' es1 es2 where "CreateTable name cl INVALID_OID INVALID_OID True s = (Inr (), s')" "announced name cl s s'"
    "oids_ok (sc_oids s')" "es = es1 @ es2" "meta_room k (t\<lparr>tb_first_page_id := 0\<rparr>) (es1 @ new_row name schema s # es2) s'"
    "table_rep [] \<lparr>te_pool = sc_pool s', te_table = new_table_object cl s, te_junk = sc_junk s'\<rparr>"
    "\<forall>k. disk_writable (pe_disk (sc_pool s)) k \<longrightarrow> disk_writable (pe_disk (sc_pool s')) k"
proof -
  let ?oid = "om_next_oid (sc_oids s)"
  obtain s1 where s1: "announced name cl s s1" "CreateTable name cl INVALID_OID INVALID_OID True s =
       ebind (add_row TABLE_META_OID (table_row (new_row name schema s))) (\<lambda>_. eret ()) s1"
    "meta_room (Suc k) t es s1" "sc_pool s1 = pool_with_file (GetFilePath (sc_database s) ?oid) (sc_pool s)"
    by (rule CreateTable_run [OF can(1,2)]) (use m in blast)
  have "row_length (new_row name schema s) \<le> MAX_RECORD_SIZE" using len by (simp add: row_length_def new_row_def MAX_RECORD_SIZE_def)
  then obtain res s' es1 es2 where a: "add_row TABLE_META_OID (table_row (new_row name schema s)) s1 = (Inr res, s')" "es = es1 @ es2"
    "meta_room k (t\<lparr>tb_first_page_id := 0\<rparr>) (es1 @ new_row name schema s # es2) s'"
    "s' = s1\<lparr>sc_pool := sc_pool s',
       sc_oid2table := AList.update TABLE_META_OID (t\<lparr>tb_first_page_id := 0\<rparr>) (sc_oid2table s1)\<rparr>"
    "outside_kept t (sc_pool s1) (sc_pool s')"
    using add_row_ok [OF s1(3)] by metis
  have "pool_inv {} (sc_pool s')"
    using a(3) by (auto simp: meta_room_def meta_at_def table_rep_def table_pages_def table_owns_def)
  note new = new_table_rep [OF can(1) m this a(5) [unfolded s1(4)]]
  have kept: "sc_oids s' = sc_oids s1" "sc_database s' = sc_database s1"
    "sc_oid2table s' = AList.update TABLE_META_OID (t\<lparr>tb_first_page_id := 0\<rparr>) (sc_oid2table s1)"
    by (subst a(4), simp)+
  have "?oid \<noteq> TABLE_META_OID" using can(1) by (auto simp: can_create_def)
  then have an: "announced name cl s s'" using announced_memory [OF s1(1) kept(1,2)] by (simp add: kept(3) update_conv')
  have "CreateTable name cl INVALID_OID INVALID_OID True s = (Inr (), s')" using s1(2) a(1) by (simp add: ebind_def)
  then show thesis using that an announced_oids [OF an can(3,4,1)] a(2,3) new by blast
qed

lemma CreateTable_too_long:
  assumes can: "can_create name s" "ColumnList_ToString cl = Inr schema" and m: "meta_room k t es s"
    and len: "200 < length name + length schema" "length name + length schema < 60000"
  obtains s' where "CreateTable name cl INVALID_OID INVALID_OID True s =
      (Inl (DbException (''Record size too large: '' @ nat_to_string (30 + length name + length schema))), s')"
    "announced name cl s s'" "meta_room k t es s'"
proof -
  let ?e = "new_row name schema s"
  obtain s1 where s1: "announced name cl s s1" "CreateTable name cl INVALID_OID INVALID_OID True s =
       ebind (add_row TABLE_META_OID (table_row ?e)) (\<lambda>_. eret ()) s1" "meta_room k t es s1"
    by (rule CreateTable_run [OF can]) (use m in blast)
  have len': "MAX_RECORD_SIZE < row_length ?e" "row_length ?e < 65000"
    using len by (simp_all add: row_length_def new_row_def MAX_RECORD_SIZE_def)
  have at: "map_of (sc_oid2table s1) TABLE_META_OID = Some t" using s1(3) by (auto simp: meta_room_def meta_at_def)
  obtain tables where a: "add_row TABLE_META_OID (table_row ?e) s1
       = (Inl (DbException (''Record size too large: '' @ nat_to_string (row_length ?e))), s1\<lparr>sc_oid2table := tables\<rparr>)"
    "map_of tables = map_of (sc_oid2table s1)"
    using add_row_too_long [OF at len'] by blast
  let ?s' = "s1\<lparr>sc_oid2table := tables\<rparr>"
  have "announced name cl s ?s'" by (rule announced_memory [OF s1(1)]) (simp_all add: a(2))
  moreover have "meta_room k t es ?s'" using s1(3) a(2) by (simp add: meta_room_def meta_at_def)
  moreover have "row_length ?e = 30 + length name + length schema" by (simp add: row_length_def new_row_def)
  ultimately show thesis using that s1(2) a(1) by (simp add: ebind_def)
qed

lemma GetTableOid_of: "GetTableOid name s = (case oid_of (sc_oids s) (TABLE, name) of
    None \<Rightarrow> Inl (DbException (''Table '' @ [CHR 0x22] @ name @ [CHR 0x22] @ '' does not exist'')) | Some oid \<Rightarrow> Inr oid)"
  by (auto simp: GetTableOid_def EntryExists_of GetEntryOid_of supported_def split: option.split)

lemma announced_found:
  assumes "announced name cl s s'"
  shows "GetTableOid name s' = Inr (om_next_oid (sc_oids s))"
    "GetTable (om_next_oid (sc_oids s)) s' = Inr (Table_new (om_next_oid (sc_oids s)) (sc_database s) cl True True)"
    "other \<noteq> name \<Longrightarrow> GetTableOid other s' = GetTableOid other s"
  using assms by (simp_all add: announced_def entered_def GetTableOid_of new_table_object_def)

section \<open>A sample catalog\<close>

text \<open>The table meta is an empty table of the system database; the current database is 2.\<close>

definition sample_meta :: Table where
  "sample_meta = Table_new TABLE_META_OID SYSTEM_DATABASE_OID table_meta_schema True True"

definition sample_catalog :: SystemCatalog where
  "sample_catalog = (SystemCatalog_new (pool_with_file (GetFilePath 1 501) sample_pool) 10002 (\<lambda>_. 0))\<lparr>
     sc_oid2table := [(TABLE_META_OID, sample_meta)], sc_database := 2\<rparr>"

lemma sample_paths: "free_path (GetFilePath 1 501) (pe_disk sample_pool)" "free_path (GetFilePath 2 10002) (pe_disk (sc_pool sample_catalog))"
proof -
  have p: "GetFilePath 1 501 = ''1/501''" "GetFilePath 2 10002 = ''2/10002''" "GetFilePath 2 10001 = ''2/10001''"
    by (simp_all add: GetFilePath_def nat_to_string.simps digit_char_def, code_simp+)
  show "free_path (GetFilePath 1 501) (pe_disk sample_pool)"
    by (simp add: p free_path_def sample_pool_def sample_disk_def DirectoryExists_def parent_exists_def)
  show "free_path (GetFilePath 2 10002) (pe_disk (sc_pool sample_catalog))"
    by (simp add: p free_path_def sample_catalog_def SystemCatalog_new_def pool_with_file_def with_file_def sample_pool_def sample_disk_def
        DirectoryExists_def parent_exists_def)
qed

lemma sample_catalog_ok: "meta_room 7 sample_meta [] sample_catalog" "can_create name sample_catalog"
  "oids_ok (sc_oids sample_catalog)" "next_free (sc_oids sample_catalog)"
proof -
  let ?p = "pool_with_file (GetFilePath 1 501) sample_pool"
  note f = pool_with_file_inv [OF sample_pool_ok(1) sample_paths(1)]
  have "disk_writable (pe_disk ?p) (tkey sample_meta i)" for i
    by (simp add: sample_meta_def Table_new_def tkey_def disk_writable_def oids_small_def key_path_def pool_with_file_def
        FileExists_def with_file_def)
  moreover have fk: "frame_keys ?p = {}"
    using f(3) by (simp add: frame_keys_def frames_def sample_pool_def BufferPool_new_def)
  ultimately have "table_pages NULL_PAGE_ID sample_meta [] ?p" using f(1) by (simp add: table_pages_def table_owns_def)
  then have "meta_at TABLE_META_OID sample_meta [] sample_catalog"
    by (simp add: meta_at_def table_rep_def sample_catalog_def SystemCatalog_new_def sample_meta_def Table_new_def)
  then show "meta_room 7 sample_meta [] sample_catalog"
    by (auto simp: meta_room_def live_rows_def table_rows_def sample_meta_def Table_new_def intro!: exI [of _ "[]"])
  have none: "oid_of (OidManager_new 10002) k = None" for k
    by (cases k) (auto simp: oid_of_def OidManager_new_def split: sum.split)
  then show "can_create name sample_catalog"
    using sample_paths(2) fk by (simp add: can_create_def sample_catalog_def SystemCatalog_new_def OidManager_new_def oids_small_def)
  show "oids_ok (sc_oids sample_catalog)"
    using none by (simp add: oids_ok_def sample_catalog_def SystemCatalog_new_def) (simp add: OidManager_new_def)
  show "next_free (sc_oids sample_catalog)" by (simp add: next_free_def sample_catalog_def SystemCatalog_new_def OidManager_new_def)
qed

lemma sample_schema: "\<exists>schema. ColumnList_ToString sample_column_list = Inr schema \<and> length schema \<le> 100"
proof -
  have "list_all (\<lambda>r. case r of Inr schema \<Rightarrow> length schema \<le> 100 | Inl _ \<Rightarrow> False) [ColumnList_ToString sample_column_list]" by code_simp
  then show ?thesis by (auto split: sum.splits)
qed

definition wide_column_list :: ColumnList where
  "wide_column_list = ColumnList_new [\<lparr>cd_name = replicate 200 (CHR ''a''), cd_type = TINT, cd_max_size = 4\<rparr>]"

lemma wide_schema: "\<exists>schema. ColumnList_ToString wide_column_list = Inr schema \<and> 200 \<le> length schema \<and> length schema \<le> 300"
proof -
  have "list_all (\<lambda>r. case r of Inr schema \<Rightarrow> 200 \<le> length schema \<and> length schema \<le> 300 | Inl _ \<Rightarrow> False)
      [ColumnList_ToString wide_column_list]" by code_simp
  then show ?thesis by (auto split: sum.splits)
qed

section \<open>Properties\<close>

text \<open>
  C18. \<^verbatim>\<open>SystemCatalog::CreateTable\<close> of a new name, whose schema fits into a record with it, returns; afterwards
  the name has the next oid, the oid the new table, whose pages hold no row yet, every other name the oid it had, the names and oids still determine each
  other, and \<^verbatim>\<open>GetTableNames\<close> gives the names of the tables of the current database with the new one among them.
\<close>

theorem create_table:
  assumes "can_create name s" "ColumnList_ToString cl = Inr schema" "oids_ok (sc_oids s)" "next_free (sc_oids s)"
    and "meta_room (Suc 0) t es s" and "length name + length schema \<le> 200"
  defines "oid \<equiv> om_next_oid (sc_oids s)" and "names \<equiv> map tr_name (filter (\<lambda>e. tr_db e = sc_database s) es)"
  shows "\<exists>s'. CreateTable name cl INVALID_OID INVALID_OID True s = (Inr (), s') \<and> GetTableOid name s' = Inr oid \<and>
     GetTable oid s' = Inr (Table_new oid (sc_database s) cl True True) \<and> oids_ok (sc_oids s') \<and>
     table_rep [] \<lparr>te_pool = sc_pool s', te_table = Table_new oid (sc_database s) cl True True, te_junk = sc_junk s'\<rparr> \<and>
     (\<forall>other. other \<noteq> name \<longrightarrow> GetTableOid other s' = GetTableOid other s) \<and>
     (\<exists>s'' names1 names2. GetTableNames s' = (Inr (names1 @ name # names2), s'') \<and> names = names1 @ names2)"
proof -
  obtain s' es1 es2 where c: "CreateTable name cl INVALID_OID INVALID_OID True s = (Inr (), s')" "announced name cl s s'"
    "oids_ok (sc_oids s')" "es = es1 @ es2" "meta_room 0 (t\<lparr>tb_first_page_id := 0\<rparr>) (es1 @ new_row name schema s # es2) s'"
    "table_rep [] \<lparr>te_pool = sc_pool s', te_table = new_table_object cl s, te_junk = sc_junk s'\<rparr>"
    by (rule CreateTable_ok [OF assms(1-6)])
  have db: "sc_database s' = sc_database s" "sc_database s \<noteq> INVALID_OID"
    using c(2) assms(1) by (simp_all add: announced_def can_create_def)
  let ?names = "\<lambda>es. map tr_name (filter (\<lambda>e. tr_db e = sc_database s) es)"
  obtain s'' where "GetTableNames s' = (Inr (?names (es1 @ new_row name schema s # es2)), s'')"
    using GetTableNames_ok [OF meta_room_rows [OF c(5)]] db by auto
  moreover have "?names (es1 @ new_row name schema s # es2) = ?names es1 @ name # ?names es2" by (simp add: new_row_def)
  moreover have "names = ?names es1 @ ?names es2" by (simp add: names_def c(4))
  ultimately show ?thesis
    using c(1,3,6) announced_found [OF c(2)] by (intro exI [of _ s']) (auto simp: oid_def new_table_object_def)
qed

theorem create_table_witness:
  "\<exists>s' s''. CreateTable ''users'' sample_column_list INVALID_OID INVALID_OID True sample_catalog = (Inr (), s') \<and>
     GetTableOid ''users'' s' = Inr 10002 \<and> GetTableNames s' = (Inr [''users''], s'')"
proof -
  obtain schema where sc: "ColumnList_ToString sample_column_list = Inr schema" "length schema \<le> 100" using sample_schema by blast
  have oid: "om_next_oid (sc_oids sample_catalog) = 10002" by (simp add: sample_catalog_def SystemCatalog_new_def OidManager_new_def)
  have "meta_room (Suc 0) sample_meta [] sample_catalog" using sample_catalog_ok(1) by (auto simp: meta_room_def)
  from create_table [OF sample_catalog_ok(2) sc(1) sample_catalog_ok(3,4) this, where name = "''users''"] sc(2) oid
  show ?thesis by auto
qed

text \<open>
  C40. A table whose name and schema together have more than 200 characters, but fewer than 60000 (the size of a record is kept in 16 bits and wraps
  beyond), is refused after half of the work:
  \<^verbatim>\<open>CreateTable\<close> throws because the row does not fit into a record, yet the name keeps the oid and the oid the
  table object, so that creating the table again, with any columns, is refused too, while
  \<^verbatim>\<open>GetTableNames\<close>, which reads the rows of the table meta, does not list the table.
\<close>

theorem create_table_ghost:
  assumes "can_create name s" "ColumnList_ToString cl = Inr schema" "meta_room 0 t es s"
    and "200 < length name + length schema" "length name + length schema < 60000"
  defines "oid \<equiv> om_next_oid (sc_oids s)" and "names \<equiv> map tr_name (filter (\<lambda>e. tr_db e = sc_database s) es)"
  shows "\<exists>s'. CreateTable name cl INVALID_OID INVALID_OID True s =
       (Inl (DbException (''Record size too large: '' @ nat_to_string (30 + length name + length schema))), s') \<and>
     GetTableOid name s' = Inr oid \<and> GetTable oid s' = Inr (Table_new oid (sc_database s) cl True True) \<and>
     (\<forall>cl'. CreateTable name cl' INVALID_OID INVALID_OID True s' =
        (Inl (DbException (''Table '' @ [CHR 0x22] @ name @ [CHR 0x22] @ '' already exists'')), s')) \<and>
     (\<exists>s''. GetTableNames s' = (Inr names, s''))"
proof -
  obtain s' where c: "CreateTable name cl INVALID_OID INVALID_OID True s =
      (Inl (DbException (''Record size too large: '' @ nat_to_string (30 + length name + length schema))), s')"
    "announced name cl s s'" "meta_room 0 t es s'"
    by (rule CreateTable_too_long [OF assms(1-5)])
  have db: "sc_database s' = sc_database s" "sc_database s \<noteq> INVALID_OID"
    using c(2) assms(1) by (simp_all add: announced_def can_create_def)
  obtain s'' where "GetTableNames s' = (Inr names, s'')"
    using GetTableNames_ok [OF meta_room_rows [OF c(3)]] db by (auto simp: names_def)
  moreover have "CreateTable name cl' INVALID_OID INVALID_OID True s' =
      (Inl (DbException (''Table '' @ [CHR 0x22] @ name @ [CHR 0x22] @ '' already exists'')), s')" for cl'
    using announced_taken [OF c(2), of cl' INVALID_OID True] db by simp
  ultimately show ?thesis using c(1) announced_found [OF c(2)] by (auto simp: oid_def)
qed

theorem create_table_ghost_witness:
  "\<exists>s' s'' e. CreateTable ''t'' wide_column_list INVALID_OID INVALID_OID True sample_catalog = (Inl e, s') \<and>
     GetTableOid ''t'' s' = Inr 10002 \<and> GetTableNames s' = (Inr [], s'')"
proof -
  obtain schema where sc: "ColumnList_ToString wide_column_list = Inr schema" "200 \<le> length schema" "length schema \<le> 300"
    using wide_schema by blast
  have oid: "om_next_oid (sc_oids sample_catalog) = 10002" by (simp add: sample_catalog_def SystemCatalog_new_def OidManager_new_def)
  have "meta_room 0 sample_meta [] sample_catalog" using sample_catalog_ok(1) by (auto simp: meta_room_def)
  from create_table_ghost [OF sample_catalog_ok(2) sc(1) this, where name = "''t''"] sc(2,3) oid
  show ?thesis by auto
qed

end
