(* ===== verification/Catalog_Loading.thy ===== *)
theory Catalog_Loading
  imports Catalog_Tables
begin

text \<open>
  What \<^verbatim>\<open>SystemCatalog::LoadTableMeta\<close> reads back from the rows of the table meta, and what it finds after a table
  was created.
\<close>

section \<open>The database of a table\<close>

lemma GetDatabaseOid_ok:
  assumes m: "meta_at TABLE_META_OID t rss s" "rows_are table_row es (live_rows rss)" and es: "distinct (map tr_oid es)" "e \<in> set es"
    and db: "map_of (sc_oid2table s) (tr_oid e) \<noteq> None \<Longrightarrow> sc_database s = tr_db e"
  shows "\<exists>s'. GetDatabaseOid (tr_oid e) s = (Inr (tr_db e), s') \<and> read_only t s s' \<and> table_pages NULL_PAGE_ID t rss (sc_pool s')"
proof (cases "map_of (sc_oid2table s) (tr_oid e) = None")
  case False
  then show ?thesis using db m(1) by (auto simp: GetDatabaseOid_def ebind_def meta_at_def table_rep_def)
next
  case True
  let ?body = "\<lambda>record found.
      ebind (elift (uint_at ''table_oid'' table_meta_schema record)) (\<lambda>oid.
        if oid = tr_oid e
        then ebind (elift (uint_at ''db_oid'' table_meta_schema record)) (\<lambda>db. eret (Some db, False))
        else eret (found, True))"
  let ?P = "\<lambda>xs acc s'. read_only t s s' \<and> (\<exists>fs. rows_are table_row fs xs \<and> e \<in> set fs \<and> distinct (map tr_oid fs))"
  let ?Q = "\<lambda>acc s'. acc = Some (tr_db e) \<and> read_only t s s' \<and> table_pages NULL_PAGE_ID t rss (sc_pool s')"
  have "\<exists>acc' s'. for_rows TABLE_META_OID ?body None s = (Inr acc', s') \<and> ?Q acc' s'"
  proof (rule for_rows_rule [OF m(1), where P = ?P])
    show "?P (live_rows rss) None s" using m(2) es by auto
    show "?P xs acc (s'\<lparr>sc_pool := p\<rparr>)" if "?P xs acc s'" "scan_kept t (sc_pool s') p" for xs acc s' p
      using that read_only_step by blast
    fix x xs acc s' rec
    assume P: "?P (x # xs) acc s'" and rec: "reads_as (snd x) (fst x) rec" and pages: "table_pages NULL_PAGE_ID t rss (sc_pool s')"
    then obtain f fs where f: "r_values (snd x) = table_row f" "rows_are table_row fs xs" "e \<in> set (f # fs)" "distinct (map tr_oid (f # fs))"
      by (auto simp: rows_are_Cons)
    note fields = table_row_fields [OF reads_table_row [OF rec f(1)]]
    show "\<exists>acc' more s''. ?body rec acc s' = (Inr (acc', more), s'') \<and> table_pages NULL_PAGE_ID t rss (sc_pool s'') \<and>
        (if more then ?P xs acc' s'' else ?Q acc' s'')"
    proof (cases "tr_oid f = tr_oid e")
      case True
      then have "f = e" using f(3,4) by auto
      then show ?thesis using P pages by (intro exI [of _ "Some (tr_db e)"] exI [of _ False] exI [of _ s']) (simp add: fields ebind_def)
    next
      case False
      then have "e \<in> set fs" using f(3) by auto
      then show ?thesis using P pages False f(2,4) by (auto simp: fields ebind_def)
    qed
  qed auto
  then show ?thesis using True by (auto simp: GetDatabaseOid_def ebind_def)
qed

section \<open>Loading one row\<close>

definition loaded :: "(TableRow \<Rightarrow> ColumnList) \<Rightarrow> TableRow \<Rightarrow> SystemCatalog \<Rightarrow> bool" where
  "loaded cl e s \<longleftrightarrow> oid_of (sc_oids s) (TABLE, tr_name e) = Some (tr_oid e) \<and>
     (\<exists>b. map_of (sc_oid2table s) (tr_oid e) = Some (Table_new (tr_oid e) (tr_db e) (cl e) False b)) \<and>
     map_of (sc_cardinality s) (tr_name e) = Some (tr_cardinality e)"

lemma EmptyFile_writable: "disk_writable d (db, oid, pid) \<Longrightarrow> \<exists>b. EmptyFile (GetFilePath db oid) d = Inr b"
  by (auto simp: disk_writable_def FileExists_def key_path_def EmptyFile_def)

lemma load_table_ok:
  assumes rec: "r_values rec = table_row e" and cl: "ColumnList_FromString (tr_schema e) ColumnList_empty = Inr (cl e)"
    and m: "meta_at TABLE_META_OID t rss s" "rows_are table_row es (live_rows rss)" and es: "distinct (map tr_oid es)" "e \<in> set es"
    and db: "sc_database s = tr_db e" and w: "disk_writable (pe_disk (sc_pool s)) (tr_db e, tr_oid e, 0)" and oid: "tr_oid e \<noteq> TABLE_META_OID"
  obtains s' where "load_table (tr_db e) rec s = (Inr (), s')" "meta_at TABLE_META_OID t rss s'" "sc_database s' = sc_database s"
    "disk_writable (pe_disk (sc_pool s')) = disk_writable (pe_disk (sc_pool s))" "loaded cl e s'"
    "\<And>f. loaded cl f s \<Longrightarrow> tr_oid f \<noteq> tr_oid e \<Longrightarrow> tr_name f \<noteq> tr_name e \<Longrightarrow> loaded cl f s'"
proof -
  note f = table_row_fields [OF rec]
  obtain m' where m': "SetEntryOid TABLE (tr_name e) (tr_oid e) (sc_oids s) = (Inr (), m')"
    "oid_of m' = (oid_of (sc_oids s))((TABLE, tr_name e) \<mapsto> tr_oid e)"
    using SetEntryOid_enters [of TABLE "tr_name e" "tr_oid e" "sc_oids s"] by (auto simp: supported_def entered_def)
  let ?s1 = "s\<lparr>sc_oids := m'\<rparr>"
  have "meta_at TABLE_META_OID t rss ?s1" using m(1) by (simp add: meta_at_def)
  then obtain p where p: "GetDatabaseOid (tr_oid e) ?s1 = (Inr (tr_db e), ?s1\<lparr>sc_pool := p\<rparr>)" "scan_kept t (sc_pool s) p"
    "table_pages NULL_PAGE_ID t rss p"
    using GetDatabaseOid_ok [of t rss ?s1 es e] m(2) es db by (auto simp: read_only_def)
  have wr: "disk_writable (pe_disk p) = disk_writable (pe_disk (sc_pool s))"
    using p(2) by (simp add: scan_kept_def frames_kept_def)
  obtain b where b: "EmptyFile (GetFilePath (tr_db e) (tr_oid e)) (pe_disk p) = Inr b" using EmptyFile_writable w wr by metis
  let ?t = "Table_new (tr_oid e) (tr_db e) (cl e) False b"
  let ?s' = "?s1\<lparr>sc_pool := p, sc_oid2table := AList.update (tr_oid e) ?t (sc_oid2table s),
    sc_cardinality := AList.update (tr_name e) (tr_cardinality e) (sc_cardinality s)\<rparr>"
  have "tb_oid ?t = tr_oid e" by (simp add: Table_new_def)
  then have run: "load_table (tr_db e) rec s = (Inr (), ?s')"
    by (simp add: load_table_def f cl ebind_def on_oids_def ezoom_def m' p(1) query_def EmptyTable_def b note_table_def)
  have "meta_at TABLE_META_OID t rss ?s'" using m(1) p(3) oid by (simp add: meta_at_def update_conv' table_rep_def)
  moreover have "loaded cl e ?s'" using m'(2) by (auto simp: loaded_def update_conv')
  moreover have "loaded cl f ?s'" if "loaded cl f s" "tr_oid f \<noteq> tr_oid e" "tr_name f \<noteq> tr_name e" for f
    using that m'(2) by (auto simp: loaded_def update_conv')
  ultimately show thesis using that run wr by simp
qed

section \<open>Loading the table meta\<close>

text \<open>The rows of a database can be read back: their schemas parse, their files exist, and they have names and oids of their own.\<close>

definition loadable :: "(TableRow \<Rightarrow> ColumnList) \<Rightarrow> TableRow list \<Rightarrow> SystemCatalog \<Rightarrow> bool" where
  "loadable cl es s \<longleftrightarrow> distinct (map tr_oid es) \<and> distinct (map tr_name (filter (\<lambda>e. tr_db e = sc_database s) es)) \<and>
     (\<forall>e \<in> set es. tr_db e = sc_database s \<longrightarrow> ColumnList_FromString (tr_schema e) ColumnList_empty = Inr (cl e) \<and>
        tr_oid e \<noteq> TABLE_META_OID \<and> disk_writable (pe_disk (sc_pool s)) (tr_db e, tr_oid e, 0))"

definition all_loaded :: "(TableRow \<Rightarrow> ColumnList) \<Rightarrow> oid_t \<Rightarrow> TableRow list \<Rightarrow> SystemCatalog \<Rightarrow> bool" where
  "all_loaded cl db es s \<longleftrightarrow> (\<forall>e \<in> set es. tr_db e = db \<longrightarrow> loaded cl e s)"

text \<open>One round of the loop: the row of another database is passed over.\<close>

lemma load_row_ok:
  assumes es: "loadable cl es s" "es = (ds @ [e]) @ fs" and rec: "r_values rec = table_row e"
    and m: "meta_at TABLE_META_OID t rss s'" "rows_are table_row es (live_rows rss)"
    and kept: "sc_database s' = sc_database s" "disk_writable (pe_disk (sc_pool s')) = disk_writable (pe_disk (sc_pool s))"
    and ds: "all_loaded cl (sc_database s) ds s'"
  obtains s'' where "(if tr_db e = sc_database s then load_table (sc_database s) rec else eret ()) s' = (Inr (), s'')"
    "meta_at TABLE_META_OID t rss s''" "sc_database s'' = sc_database s"
    "disk_writable (pe_disk (sc_pool s'')) = disk_writable (pe_disk (sc_pool s))" "all_loaded cl (sc_database s) (ds @ [e]) s''"
proof (cases "tr_db e = sc_database s")
  case True
  have hyps: "ColumnList_FromString (tr_schema e) ColumnList_empty = Inr (cl e)" "tr_oid e \<noteq> TABLE_META_OID" "distinct (map tr_oid es)"
    "disk_writable (pe_disk (sc_pool s')) (tr_db e, tr_oid e, 0)" "e \<in> set es" "sc_database s' = tr_db e"
    using es kept True by (auto simp: loadable_def)
  obtain s'' where l: "load_table (tr_db e) rec s' = (Inr (), s'')" "meta_at TABLE_META_OID t rss s''" "sc_database s'' = sc_database s'"
    "disk_writable (pe_disk (sc_pool s'')) = disk_writable (pe_disk (sc_pool s'))" "loaded cl e s''"
    "\<And>f. loaded cl f s' \<Longrightarrow> tr_oid f \<noteq> tr_oid e \<Longrightarrow> tr_name f \<noteq> tr_name e \<Longrightarrow> loaded cl f s''"
    by (rule load_table_ok [where cl = cl, OF rec hyps(1) m hyps(3,5,6,4,2)]) blast
  have "loaded cl f s''" if f: "f \<in> set ds" "tr_db f = sc_database s" for f
  proof -
    have "tr_oid f \<noteq> tr_oid e" "tr_name f \<noteq> tr_name e"
      using es f True by (auto simp: loadable_def image_iff)
    then show ?thesis using ds f l(6) by (auto simp: all_loaded_def)
  qed
  then have "all_loaded cl (sc_database s) (ds @ [e]) s''" using l(5) by (auto simp: all_loaded_def)
  then show thesis using that [of s''] l(1-4) True kept by simp
next
  case False
  then have "all_loaded cl (sc_database s) (ds @ [e]) s'" using ds by (auto simp: all_loaded_def)
  then show thesis using that [of s'] False m(1) kept by simp
qed

lemma LoadTableMeta_ok:
  assumes m: "meta_rows TABLE_META_OID table_row t es s" and es: "loadable cl es s"
  obtains s' where "LoadTableMeta s = (Inr (), s')" "all_loaded cl (sc_database s) es s'"
proof -
  let ?cur = "sc_database s"
  let ?body = "\<lambda>record (_ :: unit). ebind (elift (uint_at ''db_oid'' table_meta_schema record)) (\<lambda>db.
         ebind (if db = ?cur then load_table ?cur record else eret ()) (\<lambda>_. eret ((), True)))"
  let ?keep = "\<lambda>s'. map_of (sc_oid2table s') TABLE_META_OID = Some t \<and> sc_database s' = ?cur \<and>
     disk_writable (pe_disk (sc_pool s')) = disk_writable (pe_disk (sc_pool s))"
  obtain rss where rss: "meta_at TABLE_META_OID t rss s" "rows_are table_row es (live_rows rss)"
    using m by (auto simp: meta_rows_def)
  then have rep: "tb_oid t = TABLE_META_OID" "\<forall>rows \<in> set rss. rows \<noteq> []" "tb_first_page_id t = (if rss = [] then NULL_PAGE_ID else 0)"
    by (simp_all add: meta_at_def table_rep_def)
  let ?P = "\<lambda>xs (acc :: unit) s'. ?keep s' \<and> (\<exists>ds fs. es = ds @ fs \<and> rows_are table_row fs xs \<and> all_loaded cl ?cur ds s')"
  let ?Q = "\<lambda>(acc :: unit) s'. all_loaded cl ?cur es s'"
  have "\<exists>acc' s'. for_rows TABLE_META_OID ?body () s = (Inr acc', s') \<and> ?Q acc' s'"
  proof (rule for_rows_rule [OF rss(1), where P = ?P])
    show "?P (live_rows rss) () s" using rss(1)
      by (simp add: meta_at_def all_loaded_def) (rule exI [of _ "[]"], rule exI [of _ es], simp add: rss(2))
    show "?P xs acc (s'\<lparr>sc_pool := p\<rparr>)" if "?P xs acc s'" "scan_kept t (sc_pool s') p" for xs acc s' p
      using that by (auto simp: scan_kept_def frames_kept_def all_loaded_def loaded_def)
    show "?Q acc s'" if "?P [] acc s'" for acc s' using that by auto
    fix x xs acc s' rec
    assume P: "?P (x # xs) acc s'" and rec: "reads_as (snd x) (fst x) rec" and pages: "table_pages NULL_PAGE_ID t rss (sc_pool s')"
    then obtain ds e fs where e: "es = (ds @ [e]) @ fs" "r_values (snd x) = table_row e" "rows_are table_row fs xs"
      "all_loaded cl ?cur ds s'" by (auto simp: rows_are_Cons)
    note val = reads_table_row [OF rec e(2)]
    have at: "meta_at TABLE_META_OID t rss s'" using P pages rep by (auto simp: meta_at_def table_rep_def)
    obtain s'' where l: "(if tr_db e = ?cur then load_table ?cur rec else eret ()) s' = (Inr (), s'')"
      "meta_at TABLE_META_OID t rss s''" "sc_database s'' = ?cur"
      "disk_writable (pe_disk (sc_pool s'')) = disk_writable (pe_disk (sc_pool s))" "all_loaded cl ?cur (ds @ [e]) s''"
      by (rule load_row_ok [OF es e(1) val at rss(2) _ _ e(4)]) (use P in auto)
    have "?keep s''" "table_pages NULL_PAGE_ID t rss (sc_pool s'')"
      using l(2-4) by (simp_all add: meta_at_def table_rep_def)
    moreover from this have "?P xs () s''" using l(5) e(1,3) by blast
    moreover have "?body rec acc s' = (Inr ((), True), s'')" using l(1) by (simp add: table_row_fields [OF val] ebind_def)
    ultimately show "\<exists>acc' more s''. ?body rec acc s' = (Inr (acc', more), s'') \<and> table_pages NULL_PAGE_ID t rss (sc_pool s'') \<and>
        (if more then ?P xs acc' s'' else ?Q acc' s'')"
      by (intro exI [of _ "()"] exI [of _ True] exI [of _ s'']) simp
  qed
  then show thesis using that by (auto simp: LoadTableMeta_def ebind_def)
qed

lemma loaded_columns:
  assumes "loaded cl e s"
  shows "GetTableOid (tr_name e) s = Inr (tr_oid e)" "GetTableColumnList (tr_name e) s = Inr (cl e)"
    "GetCardinality (tr_name e) s = tr_cardinality e"
  using assms by (auto simp: loaded_def GetTableOid_of GetTableColumnList_def GetTable_def GetCardinality_def Table_new_def)

section \<open>A restart\<close>

text \<open>A catalog over the same pages, with the table meta and the same current database; names and tables are yet to be loaded.\<close>

definition restarted :: "SystemCatalog \<Rightarrow> SystemCatalog \<Rightarrow> bool" where
  "restarted s s2 \<longleftrightarrow> sc_pool s2 = sc_pool s \<and> sc_junk s2 = sc_junk s \<and> sc_database s2 = sc_database s \<and>
     map_of (sc_oid2table s2) TABLE_META_OID = map_of (sc_oid2table s) TABLE_META_OID"

lemma restarted_rows: "restarted s s2 \<Longrightarrow> meta_room n t es s \<Longrightarrow> meta_rows TABLE_META_OID table_row t es s2"
  by (auto simp: restarted_def meta_room_def meta_rows_def meta_at_def)

text \<open>No row of the table meta has the next oid, and none of the current database the name.\<close>

definition fresh_row :: "string \<Rightarrow> TableRow list \<Rightarrow> SystemCatalog \<Rightarrow> bool" where
  "fresh_row name es s \<longleftrightarrow>
     (\<forall>e \<in> set es. tr_oid e \<noteq> om_next_oid (sc_oids s) \<and> (tr_db e = sc_database s \<longrightarrow> tr_name e \<noteq> name))"

lemma loadable_new:
  assumes "loadable cl (es1 @ es2) s" "fresh_row name (es1 @ es2) s" "can_create name s"
    and "ColumnList_FromString schema ColumnList_empty = Inr cl'" "restarted s' s2" "sc_database s' = sc_database s"
    and "\<forall>k. disk_writable (pe_disk (sc_pool s)) k \<longrightarrow> disk_writable (pe_disk (sc_pool s')) k"
    and new: "disk_writable (pe_disk (sc_pool s')) (sc_database s, om_next_oid (sc_oids s), 0)"
  defines "e \<equiv> new_row name schema s"
  shows "loadable (\<lambda>f. if f = e then cl' else cl f) (es1 @ e # es2) s2"
proof -
  have "tr_oid e \<noteq> TABLE_META_OID" using assms(3) by (auto simp: e_def new_row_def can_create_def)
  moreover have "f \<noteq> e" if "f \<in> set (es1 @ es2)" for f
  proof -
    have "tr_oid f \<noteq> om_next_oid (sc_oids s)" using that assms(2) unfolding fresh_row_def by blast
    then show ?thesis by (auto simp: e_def new_row_def)
  qed
  ultimately show ?thesis
    using assms(1,2,4-7) new
    by (auto simp: loadable_def fresh_row_def restarted_def e_def new_row_def)
qed

text \<open>Loading the table meta makes the new table and those of the rows \<open>es\<close> known.\<close>

definition reloaded ::
    "string \<Rightarrow> ColumnList \<Rightarrow> (TableRow \<Rightarrow> ColumnList) \<Rightarrow> TableRow list \<Rightarrow> SystemCatalog \<Rightarrow> SystemCatalog \<Rightarrow> bool" where
  "reloaded name cl cls es s s2 \<longleftrightarrow> (\<exists>s3 cl'. LoadTableMeta s2 = (Inr (), s3) \<and>
     GetTableOid name s3 = Inr (om_next_oid (sc_oids s)) \<and> GetTableColumnList name s3 = Inr cl' \<and> cl_columns cl' = cl_columns cl \<and>
     (\<forall>e \<in> set es. tr_db e = sc_database s \<longrightarrow>
        GetTableOid (tr_name e) s3 = Inr (tr_oid e) \<and> GetTableColumnList (tr_name e) s3 = Inr (cls e)))"

lemma reloaded_rows:
  assumes load: "LoadTableMeta s2 = (Inr (), s3)" and new: "fresh_row name es s" "cl_columns cl' = cl_columns cl"
    and all: "all_loaded (\<lambda>f. if f = new_row name schema s then cl' else cls f) (sc_database s) (es1 @ new_row name schema s # es2) s3"
    and es: "es = es1 @ es2"
  shows "reloaded name cl cls es s s2"
proof -
  let ?e = "new_row name schema s"
  let ?cls = "\<lambda>f. if f = ?e then cl' else cls f"
  have e: "tr_oid ?e = om_next_oid (sc_oids s)" "tr_db ?e = sc_database s" "tr_name ?e = name" by (simp_all add: new_row_def)
  have "loaded ?cls ?e s3" using all e(2) unfolding all_loaded_def by auto
  from loaded_columns(1,2) [OF this] have 1: "GetTableOid name s3 = Inr (om_next_oid (sc_oids s))" "GetTableColumnList name s3 = Inr cl'"
    by (simp_all add: e)
  have 2: "GetTableOid (tr_name f) s3 = Inr (tr_oid f) \<and> GetTableColumnList (tr_name f) s3 = Inr (cls f)"
    if f: "f \<in> set es" "tr_db f = sc_database s" for f
  proof -
    have "f \<noteq> ?e" using f(1) new(1) e(1) by (auto simp: fresh_row_def)
    moreover have "loaded ?cls f s3" using all f es unfolding all_loaded_def by auto
    ultimately show ?thesis using loaded_columns(1,2) [of ?cls f s3] by simp
  qed
  show ?thesis unfolding reloaded_def using load 1 2 new(2) by blast
qed

section \<open>The sample catalog with a table\<close>

definition sample_created :: SystemCatalog where
  "sample_created = snd (CreateTable ''users'' sample_column_list INVALID_OID INVALID_OID True sample_catalog)"

lemma sample_plain: "\<forall>c \<in> set (cl_columns sample_column_list). plain_name (cd_name c)" "length (cl_columns sample_column_list) \<le> 65535"
  by (simp_all add: sample_column_list_def plain_name_def is_space_def Let_def)

lemma sample_next: "om_next_oid (sc_oids sample_catalog) = 10002" "sc_database sample_catalog = 2"
  by (simp_all add: sample_catalog_def SystemCatalog_new_def OidManager_new_def)

lemma sample_created_ok:
  obtains cl' schema where "meta_rows TABLE_META_OID table_row (sample_meta\<lparr>tb_first_page_id := 0\<rparr>) [new_row ''users'' schema sample_catalog] sample_created"
    "loadable (\<lambda>_. cl') [new_row ''users'' schema sample_catalog] sample_created" "cl_columns cl' = cl_columns sample_column_list"
    "sc_database sample_created = 2"
proof -
  let ?t = "new_table_object sample_column_list sample_catalog"
  obtain schema where sc: "ColumnList_ToString sample_column_list = Inr schema" "length schema \<le> 100" using sample_schema by blast
  obtain cl' where cl': "ColumnList_FromString schema ColumnList_empty = Inr cl'" "cl_columns cl' = cl_columns sample_column_list"
    using FromString_ToString_columns [OF sc(1) sample_plain] by blast
  have room: "meta_room (Suc 0) sample_meta [] sample_catalog" using sample_catalog_ok(1) by (auto simp: meta_room_def)
  have len: "length ''users'' + length schema \<le> 200" using sc(2) by simp
  obtain s' es1 es2 where c: "CreateTable ''users'' sample_column_list INVALID_OID INVALID_OID True sample_catalog = (Inr (), s')"
    "announced ''users'' sample_column_list sample_catalog s'" "oids_ok (sc_oids s')" "[] = es1 @ es2"
    "meta_room 0 (sample_meta\<lparr>tb_first_page_id := 0\<rparr>) (es1 @ new_row ''users'' schema sample_catalog # es2) s'"
    "table_rep [] \<lparr>te_pool = sc_pool s', te_table = ?t, te_junk = sc_junk s'\<rparr>"
    by (rule CreateTable_ok [OF sample_catalog_ok(2) sc(1) sample_catalog_ok(3,4) room len]) blast
  have s': "sample_created = s'" unfolding sample_created_def c(1) by simp
  have db: "sc_database s' = 2" using c(2) by (simp add: announced_def sample_next)
  have "tkey ?t 0 = (2, 10002, 0)" by (simp add: tkey_def new_table_object_def Table_new_def sample_next)
  then have "disk_writable (pe_disk (sc_pool s')) (2, 10002, 0)"
    using c(6) by (simp add: table_rep_def table_pages_def table_owns_def) metis
  then have "loadable (\<lambda>_. cl') [new_row ''users'' schema sample_catalog] sample_created"
    by (simp add: loadable_def s' db new_row_def sample_next cl'(1))
  then show thesis using that [of schema cl'] meta_room_rows [OF c(5)] c(4) cl'(2) by (simp add: s' db)
qed

text \<open>A new catalog over the pages of \<open>s\<close>.\<close>

definition reopened :: "SystemCatalog \<Rightarrow> SystemCatalog" where
  "reopened s = (SystemCatalog_new (sc_pool s) (om_next_oid (sc_oids s)) (sc_junk s))\<lparr>
     sc_oid2table := filter (\<lambda>(oid, _). oid = TABLE_META_OID) (sc_oid2table s), sc_database := sc_database s\<rparr>"

lemma restarted_reopened: "restarted s (reopened s)"
proof -
  have "map_of (filter (\<lambda>(oid, _). oid = a) xs) a = map_of xs a" for a :: oid_t and xs :: "(oid_t \<times> Table) list"
    by (induction xs) auto
  then show ?thesis by (simp add: restarted_def reopened_def SystemCatalog_new_def)
qed

section \<open>Properties\<close>

text \<open>
  \<^verbatim>\<open>LoadTableMeta\<close> inverts the rows of the table meta: it returns, and afterwards every table of the current
  database is known under its name with the oid, the columns and the cardinality of its row.
\<close>

theorem load_table_meta:
  assumes "meta_rows TABLE_META_OID table_row t es s" "loadable cl es s"
  shows "\<exists>s'. LoadTableMeta s = (Inr (), s') \<and> (\<forall>e \<in> set es. tr_db e = sc_database s \<longrightarrow>
     GetTableOid (tr_name e) s' = Inr (tr_oid e) \<and> GetTableColumnList (tr_name e) s' = Inr (cl e) \<and>
     GetCardinality (tr_name e) s' = tr_cardinality e)"
proof -
  obtain s' where "LoadTableMeta s = (Inr (), s')" "all_loaded cl (sc_database s) es s'"
    by (rule LoadTableMeta_ok [OF assms])
  then show ?thesis using loaded_columns unfolding all_loaded_def by blast
qed

theorem load_table_meta_witness:
  "\<exists>s' cl'. LoadTableMeta sample_created = (Inr (), s') \<and> GetTableOid ''users'' s' = Inr 10002 \<and>
     GetTableColumnList ''users'' s' = Inr cl' \<and> cl_columns cl' = cl_columns sample_column_list"
proof -
  obtain cl' schema where c: "meta_rows TABLE_META_OID table_row (sample_meta\<lparr>tb_first_page_id := 0\<rparr>)
      [new_row ''users'' schema sample_catalog] sample_created"
    "loadable (\<lambda>_. cl') [new_row ''users'' schema sample_catalog] sample_created" "cl_columns cl' = cl_columns sample_column_list"
    "sc_database sample_created = 2"
    by (rule sample_created_ok)
  from load_table_meta [OF c(1,2)] c(3,4) show ?thesis by (auto simp: new_row_def sample_next)
qed

text \<open>
  C19. A created table survives a restart, when its columns have plain names (not empty, without white space, at
  which the stored schema is split again), name and schema fit into a row of the table meta, and the catalog has the rows of the other tables in order:
  after \<^verbatim>\<open>CreateTable\<close> any catalog that loads the same pages knows the
  new table under its name, with its oid and its columns, and the older tables with theirs.
\<close>

theorem created_table_reloads:
  assumes "can_create name s" "ColumnList_ToString cl = Inr schema" "oids_ok (sc_oids s)" "next_free (sc_oids s)"
    and "meta_room (Suc 0) t es s" and "length name + length schema \<le> 200"
    and plain: "\<forall>c \<in> set (cl_columns cl). plain_name (cd_name c)" "length (cl_columns cl) \<le> 65535"
    and es: "loadable cls es s" "fresh_row name es s"
  shows "\<exists>s'. CreateTable name cl INVALID_OID INVALID_OID True s = (Inr (), s') \<and>
     (\<forall>s2. restarted s' s2 \<longrightarrow> reloaded name cl cls es s s2)"
proof -
  let ?e = "new_row name schema s" and ?t = "new_table_object cl s"
  obtain s' es1 es2 where c: "CreateTable name cl INVALID_OID INVALID_OID True s = (Inr (), s')" "announced name cl s s'"
    "oids_ok (sc_oids s')" "es = es1 @ es2" "meta_room 0 (t\<lparr>tb_first_page_id := 0\<rparr>) (es1 @ ?e # es2) s'"
    "table_rep [] \<lparr>te_pool = sc_pool s', te_table = ?t, te_junk = sc_junk s'\<rparr>"
    "\<forall>k. disk_writable (pe_disk (sc_pool s)) k \<longrightarrow> disk_writable (pe_disk (sc_pool s')) k"
    by (rule CreateTable_ok [OF assms(1-6)])
  obtain cl' where cl': "ColumnList_FromString schema ColumnList_empty = Inr cl'" "cl_columns cl' = cl_columns cl"
    using FromString_ToString_columns [OF assms(2) plain] by blast
  have db: "sc_database s' = sc_database s" using c(2) by (simp add: announced_def)
  have new: "disk_writable (pe_disk (sc_pool s')) (sc_database s, om_next_oid (sc_oids s), 0)"
  proof -
    have "tkey ?t 0 = (sc_database s, om_next_oid (sc_oids s), 0)" by (simp add: tkey_def new_table_object_def Table_new_def)
    then show ?thesis using c(6) by (simp add: table_rep_def table_pages_def table_owns_def) metis
  qed
  have "reloaded name cl cls es s s2" if r: "restarted s' s2" for s2
  proof -
    let ?cls = "\<lambda>f. if f = ?e then cl' else cls f"
    have l: "loadable ?cls (es1 @ ?e # es2) s2"
      by (rule loadable_new [OF es [unfolded c(4)] assms(1) cl'(1) r db c(7) new])
    have cur: "sc_database s2 = sc_database s" using r db by (simp add: restarted_def)
    obtain s3 where s3: "LoadTableMeta s2 = (Inr (), s3)" "all_loaded ?cls (sc_database s) (es1 @ ?e # es2) s3"
      by (rule LoadTableMeta_ok [OF restarted_rows [OF r c(5)] l]) (simp add: cur)
    show ?thesis using reloaded_rows [OF s3(1) _ cl'(2)] s3(2) es(2) c(4) by blast
  qed
  then show ?thesis using c(1) by blast
qed

theorem created_table_reloads_witness:
  "\<exists>s' s3 cl'. CreateTable ''users'' sample_column_list INVALID_OID INVALID_OID True sample_catalog = (Inr (), s') \<and>
     LoadTableMeta (reopened s') = (Inr (), s3) \<and> GetTableOid ''users'' s3 = Inr 10002 \<and>
     GetTableColumnList ''users'' s3 = Inr cl' \<and> cl_columns cl' = cl_columns sample_column_list"
proof -
  obtain schema where sc: "ColumnList_ToString sample_column_list = Inr schema" "length schema \<le> 100" using sample_schema by blast
  have room: "meta_room (Suc 0) sample_meta [] sample_catalog" using sample_catalog_ok(1) by (auto simp: meta_room_def)
  have "loadable (\<lambda>_. sample_column_list) [] sample_catalog" "fresh_row ''users'' [] sample_catalog"
    by (simp_all add: loadable_def fresh_row_def)
  then obtain s' where s': "CreateTable ''users'' sample_column_list INVALID_OID INVALID_OID True sample_catalog = (Inr (), s')"
    "\<forall>s2. restarted s' s2 \<longrightarrow> reloaded ''users'' sample_column_list (\<lambda>_. sample_column_list) [] sample_catalog s2"
    using created_table_reloads [OF sample_catalog_ok(2) sc(1) sample_catalog_ok(3,4) room _ sample_plain, where name = "''users''"] sc(2)
    by auto
  have "reloaded ''users'' sample_column_list (\<lambda>_. sample_column_list) [] sample_catalog (reopened s')"
    using s'(2) restarted_reopened by blast
  then show ?thesis using s'(1) by (auto simp: reloaded_def sample_next)
qed

end
