(* ===== verification/Catalog_Databases.thy ===== *)
theory Catalog_Databases
  imports Catalog_Loading
begin

text \<open>
  What \<^verbatim>\<open>SystemCatalog::ExitDatabase\<close> forgets: the tables and their names go, the pages are written back, but the
  statistics of the tables stay.
\<close>

section \<open>Forgetting tables\<close>

text \<open>The tables with these oids and their names are gone.\<close>

definition forgot :: "oid_t list \<Rightarrow> SystemCatalog \<Rightarrow> SystemCatalog \<Rightarrow> bool" where
  "forgot oids s s' \<longleftrightarrow> map_of (sc_oid2table s') = (map_of (sc_oid2table s)) |` (- set oids) \<and> oids_ok (sc_oids s') \<and>
     (\<forall>k. oid_of (sc_oids s') k = (if oid_of (sc_oids s) k \<in> Some ` set oids then None else oid_of (sc_oids s) k)) \<and>
     sc_pool s' = sc_pool s \<and> sc_cardinality s' = sc_cardinality s \<and> sc_distinct s' = sc_distinct s"

definition forget_table :: "oid_t \<Rightarrow> (SystemCatalog, unit) em" where
  "forget_table oid =
     ebind (query (\<lambda>s. GetEntryName oid (sc_oids s))) (\<lambda>table_name.
     ebind (on_oids (DropEntry TABLE table_name)) (\<lambda>_.
       emodify (\<lambda>s. s\<lparr>sc_oid2table := AList.delete oid (sc_oid2table s)\<rparr>)))"

lemma forget_table_ok:
  assumes "oids_ok (sc_oids s)" "oid_of (sc_oids s) (TABLE, name) = Some oid"
  obtains s' where "forget_table oid s = (Inr (), s')" "forgot [oid] s s'"
proof -
  obtain m where m: "DropEntry TABLE name (sc_oids s) = (Inr oid, m)" "oids_ok m" "oid_of m = (oid_of (sc_oids s))((TABLE, name) := None)"
    using DropEntry_ok [OF assms(1) _ assms(2)] by (auto simp: supported_def)
  have n: "map_of (om_oid2name (sc_oids s)) oid = Some name"
    using assms unfolding oids_ok_def by (metis snd_conv)
  let ?s' = "s\<lparr>sc_oids := m, sc_oid2table := AList.delete oid (sc_oid2table s)\<rparr>"
  have "forget_table oid s = (Inr (), ?s')"
    by (simp add: forget_table_def query_def GetEntryName_def n ebind_def on_oids_def ezoom_def m(1))
  moreover have "oid_of m k = (if oid_of (sc_oids s) k = Some oid then None else oid_of (sc_oids s) k)" for k
  proof (cases "oid_of (sc_oids s) k = Some oid")
    case True
    then have "k = (TABLE, name)" using assms unfolding oids_ok_def by blast
    then show ?thesis by (simp add: m(3) assms(2))
  next
    case False
    then show ?thesis using assms(2) by (auto simp: m(3))
  qed
  moreover have "map_of (AList.delete oid (sc_oid2table s)) = (map_of (sc_oid2table s)) |` (- {oid})"
    by (simp add: delete_conv' restrict_complement_singleton_eq)
  ultimately show thesis using that [of ?s'] m(2) by (auto simp: forgot_def)
qed

lemma forgot_trans:
  assumes "forgot xs a b" "forgot ys b c"
  shows "forgot (xs @ ys) a c"
proof -
  have "map_of (sc_oid2table c) = (map_of (sc_oid2table a)) |` (- set (xs @ ys))"
    using assms by (simp add: forgot_def restrict_restrict Compl_Un)
  then show ?thesis using assms by (auto simp: forgot_def)
qed

lemma forget_tables_ok:
  assumes "oids_ok (sc_oids s)" "distinct oids" "\<forall>oid \<in> set oids. \<exists>name. oid_of (sc_oids s) (TABLE, name) = Some oid"
  shows "\<exists>s'. efor forget_table oids s = (Inr (), s') \<and> forgot oids s s'"
  using assms
proof (induction oids arbitrary: s)
  case Nil
  then show ?case by (simp add: forgot_def) (simp add: restrict_map_def)
next
  case (Cons oid oids)
  obtain name where n: "oid_of (sc_oids s) (TABLE, name) = Some oid" using Cons.prems(3) by auto
  obtain s1 where s1: "forget_table oid s = (Inr (), s1)" "forgot [oid] s s1"
    by (rule forget_table_ok [OF Cons.prems(1) n])
  have "\<exists>name. oid_of (sc_oids s1) (TABLE, name) = Some o'" if in_oids: "o' \<in> set oids" for o'
  proof -
    have "o' \<noteq> oid" using in_oids Cons.prems(2) by auto
    moreover obtain name where "oid_of (sc_oids s) (TABLE, name) = Some o'"
      using in_oids Cons.prems(3) by (metis list.set_intros(2))
    ultimately show ?thesis using s1(2) by (auto simp: forgot_def intro: exI [of _ name])
  qed
  then have named: "\<forall>oid \<in> set oids. \<exists>name. oid_of (sc_oids s1) (TABLE, name) = Some oid" by blast
  have "oids_ok (sc_oids s1)" "distinct oids" using s1(2) Cons.prems(2) by (simp_all add: forgot_def)
  then obtain s' where "efor forget_table oids s1 = (Inr (), s')" "forgot oids s1 s'" using Cons.IH named by blast
  then show ?case using s1 forgot_trans [OF s1(2)] by (auto simp: ebind_def)
qed

section \<open>Properties\<close>

text \<open>Every table in memory other than the meta tables has a name.\<close>

definition tables_named :: "SystemCatalog \<Rightarrow> bool" where
  "tables_named s \<longleftrightarrow> distinct (map fst (sc_oid2table s)) \<and>
     (\<forall>oid. map_of (sc_oid2table s) oid \<noteq> None \<longrightarrow> oid > PRESERVED_OID \<longrightarrow> (\<exists>name. oid_of (sc_oids s) (TABLE, name) = Some oid))"

text \<open>
  C20. \<^verbatim>\<open>ExitDatabase\<close> of a user database writes the pages back, so that a page of a user table reads from the disk as it read
  before, and forgets the tables of the database and their names, but not the meta tables. It leaves the
  statistics as they are: right after it \<^verbatim>\<open>GetCardinality\<close> and \<^verbatim>\<open>GetDistinct\<close> answer for the tables it has forgotten
  as they did before.
\<close>

theorem exit_database:
  assumes "pool_inv {} (sc_pool s)" "oids_ok (sc_oids s)" "tables_named s" "sc_database s \<noteq> INVALID_OID" "sc_database s \<noteq> SYSTEM_DATABASE_OID"
  shows "\<exists>s'. ExitDatabase s = (Inr (), s') \<and> sc_database s' = INVALID_OID \<and>
     (\<forall>oid. map_of (sc_oid2table s') oid = (if oid > PRESERVED_OID then None else map_of (sc_oid2table s) oid)) \<and>
     (\<forall>name oid. GetTableOid name s' = Inr oid \<longrightarrow> GetTableOid name s = Inr oid \<and> map_of (sc_oid2table s') oid = map_of (sc_oid2table s) oid) \<and>
     (\<forall>k b. fst k \<noteq> SYSTEM_DATABASE_OID \<longrightarrow> pool_view (sc_pool s) k = Some b \<longrightarrow> disk_content (pe_disk (sc_pool s')) k = Some b) \<and>
     (\<forall>name. GetCardinality name s' = GetCardinality name s) \<and> (\<forall>name c. GetDistinct name c s' = GetDistinct name c s)"
proof -
  obtain p where p: "BufferPool_Flush True (sc_pool s) = (Inr (), p)"
    "\<forall>k b. fst k \<noteq> SYSTEM_DATABASE_OID \<longrightarrow> pool_view (sc_pool s) k = Some b \<longrightarrow> disk_content (pe_disk p) k = Some b"
    by (rule BufferPool_Flush_regular [OF assms(1)])
  let ?s1 = "s\<lparr>sc_pool := p\<rparr>" and ?oids = "filter (\<lambda>oid. oid > PRESERVED_OID) (map fst (sc_oid2table s))"
  have "\<forall>oid \<in> set ?oids. \<exists>name. oid_of (sc_oids ?s1) (TABLE, name) = Some oid"
    using assms(3) by (auto simp: tables_named_def map_of_eq_None_iff)
  moreover have "distinct ?oids" using assms(3) by (simp add: tables_named_def)
  ultimately obtain s2 where s2: "efor forget_table ?oids ?s1 = (Inr (), s2)" "forgot ?oids ?s1 s2"
    using forget_tables_ok [of ?s1 ?oids] assms(2) by auto
  let ?s' = "s2\<lparr>sc_database := INVALID_OID\<rparr>"
  have f: "(\<lambda>oid. ebind (query (\<lambda>s. GetEntryName oid (sc_oids s))) (\<lambda>table_name.
                ebind (on_oids (DropEntry TABLE table_name)) (\<lambda>_.
                  emodify (\<lambda>s. s\<lparr>sc_oid2table := AList.delete oid (sc_oid2table s)\<rparr>)))) = forget_table"
    by (simp add: forget_table_def fun_eq_iff)
  have "sc_on_pool (BufferPool_Flush True) s = (Inr (), ?s1)" by (simp add: sc_on_pool_def ezoom_def p(1))
  then have run: "ExitDatabase s = (Inr (), ?s')"
    unfolding ExitDatabase_def f using assms(4,5) s2(1) by (simp add: ebind_def)
  have kept: "sc_pool s2 = p" "sc_cardinality s2 = sc_cardinality s" "sc_distinct s2 = sc_distinct s"
    using s2(2) by (auto simp: forgot_def)
  have "map_of (sc_oid2table s2) oid = (if oid > PRESERVED_OID then None else map_of (sc_oid2table s) oid)" for oid
    using s2(2) by (auto simp: forgot_def restrict_map_def image_iff map_of_eq_None_iff)
  moreover have "GetTableOid name s = Inr oid \<and> map_of (sc_oid2table s2) oid = map_of (sc_oid2table s) oid" if "GetTableOid name ?s' = Inr oid" for name oid
    using that s2(2) by (auto simp: GetTableOid_of forgot_def restrict_map_def split: option.splits if_splits)
  ultimately show ?thesis
    using run p(2) by (intro exI [of _ ?s']) (simp add: kept GetCardinality_def GetDistinct_def)
qed

theorem exit_database_witness:
  "\<exists>s'. ExitDatabase (sample_catalog\<lparr>sc_cardinality := [(''t'', 9)]\<rparr>) = (Inr (), s') \<and> sc_database s' = INVALID_OID \<and>
     GetCardinality ''t'' s' = 9"
proof -
  let ?s = "sample_catalog\<lparr>sc_cardinality := [(''t'', 9)]\<rparr>"
  have t: "sc_oid2table ?s = [(501, sample_meta)]" by (simp add: sample_catalog_def)
  have "pool_inv {} (sc_pool ?s)" using sample_catalog_ok(1)
    by (auto simp: meta_room_def meta_at_def table_rep_def table_pages_def table_owns_def)
  moreover have "oids_ok (sc_oids ?s)" using sample_catalog_ok(3) by simp
  moreover have "tables_named ?s" unfolding tables_named_def t by simp
  ultimately obtain s' where "ExitDatabase ?s = (Inr (), s')" "sc_database s' = INVALID_OID"
    "\<forall>name. GetCardinality name s' = GetCardinality name ?s"
    using exit_database [of ?s] by (auto simp: sample_next)
  moreover have "GetCardinality ''t'' ?s = 9" by (simp add: GetCardinality_def)
  ultimately show ?thesis by metis
qed

end
