(* ===== verification/Database_Engine.thy ===== *)
theory Database_Engine
  imports Printed_Statements Result_Writers Bound_Queries Catalog_Databases Recovery
begin

text \<open>
  \<^verbatim>\<open>src/src/database/database_engine.cpp\<close> and \<^verbatim>\<open>connection.cpp\<close>: one string of SQL, from the parse tree to the rows that
  are written, with the transactions of the connections. The engine owns the catalog (which holds the pool, the log and
  the disk of the model) and the transaction and lock managers. A connection is a number, its address. What the engine
  prints on the console is left out.
\<close>

section \<open>State\<close>

datatype JoinOrderAlgorithm = JoinOrderNone | JoinOrderDp | JoinOrderGreedy

record Engine =
  en_catalog :: SystemCatalog
  en_tx :: TxEnv
  en_current_db :: string
  en_client_variables :: "(nat \<times> (string \<times> string) list) list"
  en_xids :: "(nat \<times> xid_t) list"
  en_isolation_levels :: "(nat \<times> IsolationLevel) list"
  en_auto :: "nat set"
  en_force_join :: ForceJoin
  en_join_order :: JoinOrderAlgorithm
  en_enable_optimizer :: bool
  en_enable_projection_pushdown :: bool
  en_crashed :: bool
  en_out :: "WriterEvent list"

text \<open>
  The SQL parser is third party: an error message, no parse tree, or the statements of the string. \<open>ee_fuel\<close> bounds the
  rows of one statement; a loop that asks for more has the value \<open>Diverges\<close>. \<open>ee_hash\<close> is \<^verbatim>\<open>std::hash\<close> of what a value holds,
  a function of the standard library that is not specified further.
\<close>

record engine_env =
  ee_parse :: "string \<Rightarrow> string + PgStmt list option"
  ee_stod :: "string \<Rightarrow> 64 word result"
  ee_eval :: eval_env
  ee_fmt :: fmt_env
  ee_sort :: sort_function
  ee_hash :: "Val \<Rightarrow> 64 word"
  ee_fuel :: nat

definition on_catalog :: "(SystemCatalog, 'a) em \<Rightarrow> (Engine, 'a) em" where
  "on_catalog = ezoom en_catalog (\<lambda>c e. e\<lparr>en_catalog := c\<rparr>)"

definition on_engine_tx :: "(TxEnv, 'a) em \<Rightarrow> (Engine, 'a) em" where
  "on_engine_tx = ezoom en_tx (\<lambda>t e. e\<lparr>en_tx := t\<rparr>)"

definition on_engine_pool :: "(PoolEnv, 'a) em \<Rightarrow> (Engine, 'a) em" where
  "on_engine_pool m = on_catalog (sc_on_pool m)"

definition on_engine_log :: "(LogEnv, 'a) em \<Rightarrow> (Engine, 'a) em" where
  "on_engine_log m = on_engine_pool (in_log m)"

definition engine_disk :: "Engine \<Rightarrow> Disk" where
  "engine_disk e = pe_disk (sc_pool (en_catalog e))"

definition emit :: "WriterEvent list \<Rightarrow> (Engine, unit) em" where
  "emit evs = emodify (\<lambda>e. e\<lparr>en_out := en_out e @ evs\<rparr>)"

text \<open>\<^verbatim>\<open>catch (DbException &e)\<close>; other exceptions are not caught.\<close>

definition catch_db :: "('s, 'a) em \<Rightarrow> (db_error \<Rightarrow> ('s, 'a) em) \<Rightarrow> ('s, 'a) em" where
  "catch_db m handler s =
     (case m s of
        (Inl (DbException msg), s') \<Rightarrow> handler (DbException msg) s'
      | (r, s') \<Rightarrow> (r, s'))"

text \<open>What rollback and recovery ask of the catalog.\<close>

definition catalog_view :: "SystemCatalog \<Rightarrow> CatalogView" where
  "catalog_view s =
     \<lparr>cat_table_exists = (\<lambda>oid. TableExists oid s),
      cat_database_oid = (\<lambda>oid p. case GetDatabaseOid oid (s\<lparr>sc_pool := p\<rparr>) of (r, s') \<Rightarrow> (r, sc_pool s'))\<rparr>"

section \<open>Transactions\<close>

definition InTransaction :: "nat \<Rightarrow> Engine \<Rightarrow> bool" where
  "InTransaction conn e \<longleftrightarrow> map_of (en_xids e) conn \<noteq> None"

definition CheckInTransaction :: "nat \<Rightarrow> Engine \<Rightarrow> bool" where
  "CheckInTransaction conn e \<longleftrightarrow> conn \<notin> en_auto e \<and> InTransaction conn e"

text \<open>\<^verbatim>\<open>xids_[&connection]\<close> of the hash map enters 0 for a connection that is not there.\<close>

definition connection_xid :: "nat \<Rightarrow> (Engine, xid_t) em" where
  "connection_xid conn e =
     (case map_of (en_xids e) conn of
        Some xid \<Rightarrow> (Inr xid, e)
      | None \<Rightarrow> (Inr 0, e\<lparr>en_xids := AList.update conn 0 (en_xids e)\<rparr>))"

definition forget_xid :: "nat \<Rightarrow> (Engine, unit) em" where
  "forget_xid conn = emodify (\<lambda>e. e\<lparr>en_xids := AList.delete conn (en_xids e)\<rparr>)"

definition Engine_Begin :: "nat \<Rightarrow> (Engine, unit) em" where
  "Engine_Begin conn =
     ebind (eget (InTransaction conn)) (\<lambda>busy.
       if busy then ethrow (DbException ''There is already a transaction in progress'')
       else ebind (on_engine_tx Begin) (\<lambda>xid.
            ebind (emodify (\<lambda>e. e\<lparr>en_xids := AList.update conn xid (en_xids e)\<rparr>)) (\<lambda>_.
            ebind (on_engine_pool (on_lm (AppendBeginLog xid))) (\<lambda>_. eret ()))))"

definition no_transaction :: db_error where
  "no_transaction = DbException ''There is no transaction in process''"

definition Engine_Commit :: "nat \<Rightarrow> (Engine, unit) em" where
  "Engine_Commit conn =
     ebind (eget (InTransaction conn)) (\<lambda>busy.
       if \<not> busy then ethrow no_transaction
       else ebind (connection_xid conn) (\<lambda>xid.
            ebind (on_engine_log (AppendCommitLog xid)) (\<lambda>_.
            ebind (on_engine_tx (Commit xid)) (\<lambda>_.
              forget_xid conn))))"

definition undo_transaction :: "xid_t \<Rightarrow> (Engine, unit) em" where
  "undo_transaction xid e = on_engine_pool (LogManager_Rollback (catalog_view (en_catalog e)) xid) e"

definition Engine_Rollback :: "nat \<Rightarrow> (Engine, unit) em" where
  "Engine_Rollback conn =
     ebind (eget (InTransaction conn)) (\<lambda>busy.
       if \<not> busy then ethrow no_transaction
       else ebind (connection_xid conn) (\<lambda>xid.
            ebind (undo_transaction xid) (\<lambda>_.
            ebind (on_engine_log (AppendRollbackLog xid)) (\<lambda>_.
            ebind (on_engine_tx (Rollback xid)) (\<lambda>_.
              forget_xid conn)))))"

definition end_auto :: "nat \<Rightarrow> (Engine, unit) em" where
  "end_auto conn = emodify (\<lambda>e. e\<lparr>en_auto := en_auto e - {conn}\<rparr>)"

text \<open>The handlers: an automatic transaction is rolled back, and the exception thrown again.\<close>

definition rollback_auto :: "nat \<Rightarrow> db_error \<Rightarrow> (Engine, 'a) em" where
  "rollback_auto conn err =
     ebind (eget (\<lambda>e. conn \<in> en_auto e)) (\<lambda>auto.
     ebind (if auto then ebind (Engine_Rollback conn) (\<lambda>_. end_auto conn) else eret ()) (\<lambda>_. ethrow err))"

section \<open>Start and end\<close>

definition CONTROL_NAME :: string where "CONTROL_NAME = ''control''"
definition INIT_NAME :: string where "INIT_NAME = ''init''"

text \<open>
  \<^verbatim>\<open>in >> n\<close> of an unsigned number and of a bool from a stream that is good or has its fail bit set; \<open>None\<close> is the
  indeterminate value of a variable that is not initialised.
\<close>

definition read_unsigned :: "'a::len word option \<Rightarrow> iss \<Rightarrow> 'a word option \<times> iss" where
  "read_unsigned old st =
     (case st of
        None \<Rightarrow> (old, None)
      | Some s \<Rightarrow>
          (let s1 = dropWhile is_space s;
               neg = (s1 \<noteq> [] \<and> hd s1 = CHR ''-'');
               s2 = (if s1 \<noteq> [] \<and> (hd s1 = CHR ''-'' \<or> hd s1 = CHR ''+'') then tl s1 else s1);
               n = read_digits 0 (takeWhile is_digit s2)
           in if s1 = [] then (old, None)
              else if takeWhile is_digit s2 = [] then (Some 0, None)
              else if n \<ge> 2 ^ LENGTH('a) then (Some (- 1), None)
              else (Some (if neg then - of_nat n else of_nat n), Some (dropWhile is_digit s2))))"

definition read_flag :: "bool \<Rightarrow> iss \<Rightarrow> bool \<times> iss" where
  "read_flag old st =
     (case read_unsigned None st of
        (None, st') \<Rightarrow> (old, None)
      | (Some n, st') \<Rightarrow> if n = (0 :: 64 word) then (False, st') else if n = 1 then (True, st') else (True, None))"

definition control_text :: "xid_t \<Rightarrow> lsn_t \<Rightarrow> oid_t \<Rightarrow> bool \<Rightarrow> string" where
  "control_text xid lsn oid normal =
     nat_to_string (unat xid) @ '' '' @ nat_to_string (unat lsn) @ '' '' @ nat_to_string (unat oid) @ '' '' @
     (if normal then ''1'' else ''0'')"

definition write_control :: "string \<Rightarrow> Disk \<Rightarrow> Disk" where
  "write_control str = ofstream_write CONTROL_NAME (map char_byte str)"

text \<open>The control file, with the values that are kept when it ends early.\<close>

definition read_control :: "string \<Rightarrow> xid_t option \<times> lsn_t option \<times> oid_t \<times> bool" where
  "read_control str =
     (case read_unsigned None (Some str) of (xid, st1) \<Rightarrow>
      case read_unsigned None st1 of (lsn, st2) \<Rightarrow>
      case read_unsigned (Some PRESERVED_OID) st2 of (oid, st3) \<Rightarrow>
      case read_flag True st3 of (normal, st4) \<Rightarrow>
        (xid, lsn, (case oid of Some n \<Rightarrow> n | None \<Rightarrow> 0), normal))"

definition new_engine :: "Disk \<Rightarrow> xid_t \<Rightarrow> lsn_t \<Rightarrow> oid_t \<Rightarrow> (nat \<Rightarrow> byte list) \<Rightarrow> (nat \<Rightarrow> byte) \<Rightarrow> Engine" where
  "new_engine disk xid lsn oid fresh junk =
     \<lparr>en_catalog = SystemCatalog_new \<lparr>pe_log = \<lparr>le_disk = disk, le_log = LogManager_new lsn\<rparr>, pe_pool = BufferPool_new,
        pe_heap = [], pe_fresh = fresh\<rparr> oid junk,
      en_tx = TransactionManager_new LockManager_new xid, en_current_db = [], en_client_variables = [], en_xids = [],
      en_isolation_levels = [], en_auto = {}, en_force_join = ForceNone, en_join_order = JoinOrderNone,
      en_enable_optimizer = True, en_enable_projection_pushdown = False, en_crashed = False, en_out = []\<rparr>"

definition on_recovery :: "(RecoveryEnv, 'a) em \<Rightarrow> (Engine, 'a) em" where
  "on_recovery = ezoom (\<lambda>e. \<lparr>re_pool = sc_pool (en_catalog e), re_tx = en_tx e\<rparr>)
     (\<lambda>r e. e\<lparr>en_catalog := (en_catalog e)\<lparr>sc_pool := re_pool r\<rparr>, en_tx := re_tx r\<rparr>)"

definition Engine_Recover :: "(Engine, unit) em" where
  "Engine_Recover e = on_recovery (Recover (catalog_view (en_catalog e))) e"

text \<open>The constructor, on the disk object of the files that are there.\<close>

definition open_system_tables :: "(Engine, unit) em" where
  "open_system_tables =
     ebind (eget (\<lambda>e. FileExists INIT_NAME (engine_disk e))) (\<lambda>initialised.
     ebind (if initialised then on_catalog LoadSystemTables
            else ebind (on_catalog CreateSystemTables) (\<lambda>_. on_engine_pool (in_disk (CreateFile INIT_NAME)))) (\<lambda>_.
       emodify (\<lambda>e. e\<lparr>en_current_db := DEFAULT_DATABASE_NAME\<rparr>)))"

definition DatabaseEngine_new :: "Disk \<Rightarrow> (nat \<Rightarrow> byte list) \<Rightarrow> (nat \<Rightarrow> byte) \<Rightarrow> Engine result" where
  "DatabaseEngine_new disk fresh junk =
     (case dk_names disk CONTROL_NAME of
        None \<Rightarrow>
          fst (ebind open_system_tables (\<lambda>_. eget id)
            (new_engine (write_control (control_text FIRST_XID FIRST_LSN PRESERVED_OID False) disk)
               FIRST_XID FIRST_LSN PRESERVED_OID fresh junk))
      | Some i \<Rightarrow>
          (case read_control (map byte_char (dk_data disk i)) of
             (Some xid, Some lsn, oid, normal) \<Rightarrow>
               fst (ebind open_system_tables (\<lambda>_. ebind (if normal then eret () else Engine_Recover) (\<lambda>_. eget id))
                 (new_engine (write_control (control_text xid lsn oid False @ newline) disk) xid lsn oid fresh junk))
           | _ \<Rightarrow> Inl (Undefined ''variable not initialised'')))"

definition CloseDatabase :: "(Engine, unit) em" where
  "CloseDatabase =
     ebind (on_engine_pool (BufferPool_Flush False)) (\<lambda>_.
     ebind (on_engine_log LogManager_Flush_all) (\<lambda>_.
     ebind (on_engine_log Checkpoint) (\<lambda>_.
     ebind (eget (\<lambda>e. control_text (GetNextXid (en_tx e)) (lm_next_lsn (le_log (pe_log (sc_pool (en_catalog e)))))
                        (om_next_oid (sc_oids (en_catalog e))) True)) (\<lambda>str.
       on_engine_pool (in_disk (emodify (write_control str)))))))"

definition DatabaseEngine_end :: "(Engine, unit) em" where
  "DatabaseEngine_end = ebind (eget en_crashed) (\<lambda>crashed. if crashed then eret () else CloseDatabase)"

definition Crash :: "(Engine, unit) em" where
  "Crash =
     ebind (on_engine_pool BufferPool_Clear) (\<lambda>_.
     ebind (on_engine_pool (on_lm (emodify LogManager_Clear))) (\<lambda>_.
       emodify (\<lambda>e. e\<lparr>en_crashed := True\<rparr>)))"

definition Engine_Flush :: "(Engine, unit) em" where
  "Engine_Flush = on_engine_pool (BufferPool_Flush False)"

end
