(* ===== verification/Engine_Statements.thy ===== *)
theory Engine_Statements
  imports Database_Engine
begin

text \<open>
  The statements of \<^verbatim>\<open>src/src/database/database_engine.cpp\<close>: the backslash commands, definitions of data, variables,
  statistics, \<^verbatim>\<open>EXPLAIN\<close>, and queries, which are planned, optimised and executed. \<^verbatim>\<open>ExecuteSql\<close> runs them in the
  transaction of the connection, or in one that it opens and commits itself.
\<close>

section \<open>Strings of settings\<close>

definition String2IsolationLevel :: "string \<Rightarrow> IsolationLevel result" where
  "String2IsolationLevel str =
     (if str = ''read_committed'' then Inr READ_COMMITTED
      else if str = ''repeatable_read'' then Inr REPEATABLE_READ
      else if str = ''serializable'' then Inr SERIALIZABLE
      else Inl (DbException (''Unknown isolation level '' @ str)))"

definition String2ForceJoin :: "string \<Rightarrow> ForceJoin result" where
  "String2ForceJoin str =
     (if str = ''none'' then Inr ForceNone
      else if str = ''hash'' then Inr ForceHash
      else if str = ''merge'' then Inr ForceMerge
      else Inl (DbException (''Unknown force join '' @ str)))"

definition String2JoinOrderAlgorithm :: "string \<Rightarrow> JoinOrderAlgorithm result" where
  "String2JoinOrderAlgorithm str =
     (if str = ''none'' then Inr JoinOrderNone
      else if str = ''dp'' then Inr JoinOrderDp
      else if str = ''greedy'' then Inr JoinOrderGreedy
      else Inl (DbException (''Unknown join order algorithm '' @ str)))"

definition String2DeadlockType :: "string \<Rightarrow> DeadlockType result" where
  "String2DeadlockType str =
     (if str = ''wait_die'' then Inr WAIT_DIE
      else if str = ''wound_wait'' then Inr WOUND_WAIT
      else if str = ''detection'' then Inr DETECTION
      else Inl (DbException (''Unknown deadlock type '' @ str)))"

definition String2Bool :: "string \<Rightarrow> bool result" where
  "String2Bool str =
     (if str = ''true'' \<or> str = ''1'' \<or> str = ''on'' then Inr True
      else if str = ''false'' \<or> str = ''0'' \<or> str = ''off'' then Inr False
      else Inl (DbException (''Unknown boolean value '' @ str)))"

section \<open>Commands and definitions of data\<close>

definition help_text :: string where
  "help_text = newline @ concat (map (\<lambda>line. ''  '' @ line @ newline)
     [[CHR 0x5C] @ ''? or '' @ [CHR 0x5C] @ ''h              show help message'',
      [CHR 0x5C] @ ''c [database_name]    change database'',
      [CHR 0x5C] @ ''d                    show tables'',
      [CHR 0x5C] @ ''d [table_name]       describe table'',
      [CHR 0x5C] @ ''l                    show databases'',
      [CHR 0x5C] @ ''q                    quit'']) @ ''  ''"

definition Help :: "(Engine, unit) em" where
  "Help = emit (one_cell help_text)"

definition ShowDatabases :: "(Engine, unit) em" where
  "ShowDatabases =
     ebind (emit (header_events [''database_name''])) (\<lambda>_.
     ebind (on_catalog GetDatabaseNames) (\<lambda>names.
       emit (concat (map (\<lambda>n. row_events [n]) names) @ [EndTable, WriteRowCount (length names)])))"

definition ShowTables :: "(Engine, unit) em" where
  "ShowTables =
     ebind (emit (header_events [''table_name''])) (\<lambda>_.
     ebind (on_catalog GetTableNames) (\<lambda>names.
       emit (concat (map (\<lambda>n. row_events [n]) names) @ [EndTable, WriteRowCount (length names)])))"

definition describe_column :: "ColumnDefinition \<Rightarrow> (Engine, unit) em" where
  "describe_column column =
     ebind (emit [BeginRow]) (\<lambda>_.
     ebind (elift (ColumnDefinition_ToStringVector column)) (\<lambda>cells.
       emit (map WriteCell cells @ [EndRow])))"

definition DescribeTable :: "string \<Rightarrow> (Engine, unit) em" where
  "DescribeTable table_name =
     ebind (on_catalog (query (GetTableColumnList table_name))) (\<lambda>column_list.
     ebind (emit (header_events [''name'', ''type'', ''size''])) (\<lambda>_.
     ebind (efor describe_column (cl_columns column_list)) (\<lambda>_.
       emit [EndTable, WriteRowCount (ColumnList_Length column_list)])))"

definition Engine_ChangeDatabase :: "string \<Rightarrow> (Engine, unit) em" where
  "Engine_ChangeDatabase db_name =
     ebind (eget en_current_db) (\<lambda>current.
     ebind (if db_name \<noteq> current
            then ebind (on_catalog (ChangeDatabase db_name)) (\<lambda>_. emodify (\<lambda>e. e\<lparr>en_current_db := db_name\<rparr>))
            else eret ()) (\<lambda>_.
       emit (one_cell (''Change to database '' @ db_name))))"

definition Engine_CreateDatabase :: "string \<Rightarrow> bool \<Rightarrow> (Engine, unit) em" where
  "Engine_CreateDatabase db_name exists_ok =
     ebind (on_catalog (CreateDatabase db_name exists_ok INVALID_OID)) (\<lambda>_. emit (one_cell ''CREATE DATABASE''))"

definition Engine_DropDatabase :: "string \<Rightarrow> bool \<Rightarrow> (Engine, unit) em" where
  "Engine_DropDatabase db_name missing_ok =
     ebind (eget en_current_db) (\<lambda>current.
       if db_name = current then ethrow (DbException ''Cannot drop the currently open database'')
       else ebind (on_catalog (DropDatabase db_name missing_ok)) (\<lambda>_. emit (one_cell ''DROP DATABASE'')))"

definition Engine_CreateTable :: "string \<Rightarrow> ColumnList \<Rightarrow> (Engine, unit) em" where
  "Engine_CreateTable table_name column_list =
     ebind (on_catalog (CreateTable table_name column_list INVALID_OID INVALID_OID True)) (\<lambda>_.
       emit (one_cell ''CREATE TABLE''))"

definition Engine_DropTable :: "string \<Rightarrow> (Engine, unit) em" where
  "Engine_DropTable table_name = ebind (on_catalog (DropTable table_name)) (\<lambda>_. emit (one_cell ''DROP TABLE''))"

definition CreateIndex :: "(Engine, unit) em" where
  "CreateIndex = emit (one_cell ''CREATE INDEX'')"

definition DropIndex :: "(Engine, unit) em" where
  "DropIndex = emit (one_cell ''DROP INDEX'')"

definition Vacuum :: "(Engine, unit) em" where
  "Vacuum = emit (one_cell ''Vacuum'')"

definition Engine_Lock :: "xid_t \<Rightarrow> BBaseTable \<Rightarrow> TableLockType \<Rightarrow> (Engine, unit) em" where
  "Engine_Lock xid table ty =
     (case table of (name, alias, oid, cl) \<Rightarrow>
        ebind (on_engine_tx (\<lambda>t. case LockTable xid (case ty of TableShare \<Rightarrow> S | TableExclusive \<Rightarrow> X) oid (te_locks t) of
                 (ok, lm) \<Rightarrow> (Inr ok, t\<lparr>te_locks := lm\<rparr>))) (\<lambda>ok.
          if ok then eret () else ethrow (DbException ''Cannot acquire lock'')))"

section \<open>Variables\<close>

definition set_option :: "nat \<Rightarrow> string \<Rightarrow> string \<Rightarrow> (Engine, unit) em" where
  "set_option conn variable val =
     (if variable = ''isolation_level''
      then ebind (elift (String2IsolationLevel val)) (\<lambda>l.
             emodify (\<lambda>e. e\<lparr>en_isolation_levels := AList.update conn l (en_isolation_levels e)\<rparr>))
      else if variable = ''join_order_algorithm''
      then ebind (elift (String2JoinOrderAlgorithm val)) (\<lambda>a. emodify (\<lambda>e. e\<lparr>en_join_order := a\<rparr>))
      else if variable = ''force_join''
      then ebind (elift (String2ForceJoin val)) (\<lambda>j. emodify (\<lambda>e. e\<lparr>en_force_join := j\<rparr>))
      else if variable = ''enable_optimizer''
      then ebind (elift (String2Bool val)) (\<lambda>b. emodify (\<lambda>e. e\<lparr>en_enable_optimizer := b\<rparr>))
      else if variable = ''enable_projection_pushdown''
      then ebind (elift (String2Bool val)) (\<lambda>b. emodify (\<lambda>e. e\<lparr>en_enable_projection_pushdown := b\<rparr>))
      else if variable = ''deadlock''
      then ebind (elift (String2DeadlockType val)) (\<lambda>d.
             on_engine_tx (emodify (\<lambda>t. t\<lparr>te_locks := SetDeadLockType d (te_locks t)\<rparr>)))
      else eret ())"

definition connection_variables :: "nat \<Rightarrow> Engine \<Rightarrow> (string \<times> string) list" where
  "connection_variables conn e = (case map_of (en_client_variables e) conn of None \<Rightarrow> [] | Some vs \<Rightarrow> vs)"

definition VariableSet :: "nat \<Rightarrow> string \<Rightarrow> string \<Rightarrow> (Engine, unit) em" where
  "VariableSet conn variable val =
     ebind (set_option conn variable val) (\<lambda>_.
     ebind (emodify (\<lambda>e. e\<lparr>en_client_variables :=
              AList.update conn (AList.update variable val (connection_variables conn e)) (en_client_variables e)\<rparr>)) (\<lambda>_.
       emit (one_cell ''SET'')))"

definition show_one :: "string \<Rightarrow> string \<Rightarrow> (Engine, unit) em" where
  "show_one variable str = emit (table_events [variable] [[str]])"

definition VariableShow :: "nat \<Rightarrow> string \<Rightarrow> (Engine, unit) em" where
  "VariableShow conn variable =
     (if variable = ''tables'' then ShowTables
      else if variable = ''databases'' then ShowDatabases
      else if variable = ''disk_access_count''
      then ebind (eget (\<lambda>e. nat_to_string (unat (GetAccessCount (engine_disk e))))) (show_one variable)
      else if variable = ''redo_count''
      then ebind (eget (\<lambda>e. nat_to_string (unat (lm_redo_count (le_log (pe_log (sc_pool (en_catalog e)))))))) (show_one variable)
      else ebind (eget (\<lambda>e. map_of (connection_variables conn e) variable)) (\<lambda>found.
             case found of None \<Rightarrow> ethrow (DbException ''Variable not found'') | Some str \<Rightarrow> show_one variable str))"

section \<open>Statistics\<close>

text \<open>
  The insertion into an unordered set of values: the hash is computed first, and the value is compared with those of the set that have
  the same hash; equal values are kept once. The values that a scan reads from one column have the type of the column, so the order
  of the comparisons does not matter.
\<close>

definition hashable :: "Val \<Rightarrow> bool" where
  "hashable v \<longleftrightarrow> v_type v \<in> {TBOOL, TINT, TUINT, TDOUBLE, TVARCHAR, TCHAR}"

fun contains_value :: "(Val \<Rightarrow> 64 word) \<Rightarrow> Val \<Rightarrow> Val list \<Rightarrow> bool result" where
  "contains_value h v [] = Inr False"
| "contains_value h v (w # ws) =
     (if h v \<noteq> h w then contains_value h v ws
      else rbind (Equal v w) (\<lambda>eq. if eq then Inr True else contains_value h v ws))"

definition insert_distinct :: "(Val \<Rightarrow> 64 word) \<Rightarrow> Val \<Rightarrow> Val list \<Rightarrow> Val list result" where
  "insert_distinct h v vs =
     (if \<not> hashable v then Inl (DbException ''Unknown value type in hash'')
      else rbind (contains_value h v vs) (\<lambda>there. Inr (if there then vs else vs @ [v])))"

fun insert_row_values :: "(Val \<Rightarrow> 64 word) \<Rightarrow> Record \<Rightarrow> (nat \<times> string) list \<Rightarrow> Val list list \<Rightarrow> Val list list result" where
  "insert_row_values h record ((i, name) # columns) (vs # sets) =
     rbind (Record_GetValue i record) (\<lambda>v. rbind (insert_distinct h v vs) (\<lambda>vs'.
     rbind (insert_row_values h record columns sets) (\<lambda>sets'. Inr (vs' # sets'))))"
| "insert_row_values h record columns sets = Inr sets"

definition all_columns :: "ColumnList \<Rightarrow> (nat \<times> string) list" where
  "all_columns cl = enumerate 0 (map cd_name (cl_columns cl))"

text \<open>A column that an \<^verbatim>\<open>ANALYZE\<close> names; a column that the binder did not find is a null pointer.\<close>

definition named_column :: "ColumnList \<Rightarrow> BExpr \<Rightarrow> (nat \<times> string) result" where
  "named_column cl column =
     (case column of
        ColumnRefExpression (t # name # ns) \<Rightarrow>
          rbind (GetColumnIndex name cl) (\<lambda>i. rbind (GetColumn i cl) (\<lambda>c. Inr (i, cd_name c)))
      | ColumnRefExpression names \<Rightarrow> Inl (Undefined ''vector index out of range'')
      | _ \<Rightarrow> Inl (Undefined ''null pointer''))"

definition analyze_table :: "(Val \<Rightarrow> 64 word) \<Rightarrow> (nat \<times> string) list option \<Rightarrow> string \<Rightarrow> (SystemCatalog, unit) em" where
  "analyze_table h named table_name =
     ebind (query (GetTableOid table_name)) (\<lambda>oid.
     ebind (query (GetTable oid)) (\<lambda>table.
     ebind (case named of
              Some columns \<Rightarrow> eret columns
            | None \<Rightarrow> ebind (query (GetTableColumnList table_name)) (\<lambda>cl. eret (all_columns cl))) (\<lambda>columns.
     ebind (for_rows oid (\<lambda>record (n, sets).
              ebind (elift (insert_row_values h record columns sets)) (\<lambda>sets'. eret ((n + 1, sets'), True)))
            (0, replicate (length columns) [])) (\<lambda>(n, sets).
     ebind (SetCardinality table_name n) (\<lambda>_.
       efor (\<lambda>(column, vs). SetDistinct table_name (snd column) (of_nat (length vs))) (zip columns sets))))))"

definition Analyze :: "(Val \<Rightarrow> 64 word) \<Rightarrow> BBaseTable option \<Rightarrow> BExpr list \<Rightarrow> (Engine, unit) em" where
  "Analyze h table columns =
     ebind (on_catalog (case table of
        None \<Rightarrow> ebind GetTableNames (\<lambda>names. eret (names, []))
      | Some (name, alias, oid, cl) \<Rightarrow>
          query (\<lambda>s. rbind (rmap (\<lambda>c. rbind (GetTableColumnList name s) (\<lambda>cl'. named_column cl' c)) columns)
                       (\<lambda>named. Inr ([name], named))))) (\<lambda>(names, named).
     ebind (on_catalog (efor (analyze_table h (if columns = [] then None else Some named)) names)) (\<lambda>_.
       emit (one_cell ''Analyze'')))"

section \<open>Queries\<close>

text \<open>
  \<^verbatim>\<open>ReorderJoin\<close>: without the greedy algorithm, or without a join below the root, the plan stays. Otherwise the
  source compares iterators of two different vectors, which has no meaning.
\<close>

definition is_nested_loop :: "'e Plan \<Rightarrow> bool" where
  "is_nested_loop p \<longleftrightarrow> (case p of NestedLoopJoinOperator _ _ _ _ _ \<Rightarrow> True | _ \<Rightarrow> False)"

function join_below :: "Expr Plan \<Rightarrow> bool" where
  "join_below p = list_ex (\<lambda>c. is_nested_loop c \<or> join_below c) (GetChildren p)"
  by pat_completeness auto
termination
  by (relation "measure plan_weight") (auto intro: child_weight)

declare join_below.simps [simp del]

definition ReorderJoin :: "JoinOrderAlgorithm \<Rightarrow> Expr Plan \<Rightarrow> (SystemCatalog, Expr Plan) em" where
  "ReorderJoin algorithm plan =
     (if algorithm \<noteq> JoinOrderGreedy then eret plan
      else ebind GetTableNames (\<lambda>names.
           ebind (query (\<lambda>s. rmap (\<lambda>n. GetTableColumnList n s) names)) (\<lambda>_.
             if join_below plan then ethrow (Undefined ''iterators of different vectors'') else eret plan)))"

definition optimized :: "engine_env \<Rightarrow> Expr Plan \<Rightarrow> (Engine, Expr Plan) em" where
  "optimized env plan =
     ebind (eget id) (\<lambda>e.
       if \<not> en_enable_optimizer e then eret plan
       else ebind (elift (Optimize (ee_fmt env) plan)) (\<lambda>p. on_catalog (ReorderJoin (en_join_order e) p)))"

text \<open>The tables, the pool and the managers of the engine, as the executors see them.\<close>

definition query_env :: "Engine \<Rightarrow> QueryEnv" where
  "query_env e =
     \<lparr>qe_tables = map_of (sc_oid2table (en_catalog e)), qe_pool = sc_pool (en_catalog e), qe_tx = en_tx e,
      qe_junk = sc_junk (en_catalog e)\<rparr>"

definition put_query :: "QueryEnv \<Rightarrow> Engine \<Rightarrow> Engine" where
  "put_query q e =
     e\<lparr>en_catalog := (en_catalog e)\<lparr>sc_pool := qe_pool q, sc_junk := qe_junk q,
          sc_oid2table := map (\<lambda>(oid, t). (oid, case qe_tables q oid of Some t' \<Rightarrow> t' | None \<Rightarrow> t)) (sc_oid2table (en_catalog e))\<rparr>,
       en_tx := qe_tx q\<rparr>"

text \<open>The loop that writes the records of a query, on the executor tree and the writer; the result is their number.\<close>

definition put_events :: "WriterEvent list \<Rightarrow> ('s \<times> WriterEvent list, unit) em" where
  "put_events evs = emodify (\<lambda>(s, out). (s, out @ evs))"

definition write_value :: "fmt_env \<Rightarrow> Val \<Rightarrow> ('s \<times> WriterEvent list, unit) em" where
  "write_value fm v = ebind (elift (ToString (fm_fp fm) v)) (\<lambda>str. put_events [WriteCell str])"

definition write_record :: "fmt_env \<Rightarrow> Record \<Rightarrow> ('s \<times> WriterEvent list, unit) em" where
  "write_record fm record =
     ebind (put_events [BeginRow]) (\<lambda>_.
     ebind (efor (write_value fm) (r_values record)) (\<lambda>_.
       put_events [EndRow]))"

fun fetch_rows :: "fmt_env \<Rightarrow> ('s, Record option) em \<Rightarrow> nat \<Rightarrow> nat \<Rightarrow> ('s \<times> WriterEvent list, nat) em" where
  "fetch_rows fm next 0 n = ethrow Diverges"
| "fetch_rows fm next (Suc fuel) n =
     ebind (ezoom fst (\<lambda>s p. (s, snd p)) next) (\<lambda>record.
       case record of
         None \<Rightarrow> eret n
       | Some rec \<Rightarrow> ebind (write_record fm rec) (\<lambda>_. fetch_rows fm next fuel (Suc n)))"

definition run_executor :: "engine_env \<Rightarrow> QueryCtx \<Rightarrow> Expr Plan \<Rightarrow> (Engine, nat) em" where
  "run_executor env ctx plan e =
     (case CreateExecutor (query_env e) plan of
        Inl err \<Rightarrow> (Inl err, e)
      | Inr x \<Rightarrow>
          (case fetch_rows (ee_fmt env) (Exec_Next ctx plan) (ee_fuel env) 0 ((query_env e, x), en_out e) of
             (r, ((q, x'), out)) \<Rightarrow> (r, (put_query q e)\<lparr>en_out := out\<rparr>)))"

definition DEFAULT_ISOLATION_LEVEL :: IsolationLevel where
  "DEFAULT_ISOLATION_LEVEL = READ_COMMITTED"

definition connection_level :: "nat \<Rightarrow> Engine \<Rightarrow> IsolationLevel" where
  "connection_level conn e =
     (case map_of (en_isolation_levels e) conn of None \<Rightarrow> DEFAULT_ISOLATION_LEVEL | Some l \<Rightarrow> l)"

definition plan_statement :: "engine_env \<Rightarrow> Statement \<Rightarrow> (Engine, Expr Plan) em" where
  "plan_statement env stmt =
     (case stmt of
        QueryStatement s \<Rightarrow> ebind (eget en_force_join) (\<lambda>j. elift (planned (ee_eval env) (ee_fmt env) j s))
      | _ \<Rightarrow> ethrow (DbException ''Statement Type not implemented in planner''))"

definition execute_query :: "engine_env \<Rightarrow> nat \<Rightarrow> Statement \<Rightarrow> (Engine, unit) em" where
  "execute_query env conn stmt =
     ebind (plan_statement env stmt) (\<lambda>plan0.
     ebind (optimized env plan0) (\<lambda>plan.
     ebind (emit (header_events (map cd_name (cl_columns (OutputColumns plan))))) (\<lambda>_.
     ebind (eget (connection_level conn)) (\<lambda>level.
     ebind (connection_xid conn) (\<lambda>xid.
     ebind (on_engine_tx (GetCidAndIncrement xid)) (\<lambda>cid.
     ebind (run_executor env \<lparr>qc_env = ee_eval env, qc_sort = ee_sort env, qc_xid = xid, qc_level = level, qc_cid = cid\<rparr> plan) (\<lambda>n.
       emit [EndTable, WriteRowCount n])))))))"

definition Explain :: "engine_env \<Rightarrow> Statement \<Rightarrow> 8 word \<Rightarrow> (Engine, unit) em" where
  "Explain env stmt options =
     ebind (if bit options 0
            then ebind (elift (Statement_ToString (ee_fmt env) stmt)) (\<lambda>s. eret (''===Binder==='' @ newline @ s))
            else eret []) (\<lambda>out1.
     ebind (plan_statement env stmt) (\<lambda>plan0.
     ebind (if bit options 1
            then ebind (elift (Plan_ToString (ee_fmt env) plan0 0)) (\<lambda>s. eret (''===Planner==='' @ newline @ s @ newline))
            else eret []) (\<lambda>out2.
     ebind (optimized env plan0) (\<lambda>plan.
     ebind (if bit options 2
            then ebind (elift (Plan_ToString (ee_fmt env) plan 0)) (\<lambda>s. eret (''===Optimizer==='' @ newline @ s))
            else eret []) (\<lambda>out3.
       emit (one_cell (out1 @ out2 @ out3)))))))"

section \<open>Statements\<close>

definition no_ddl :: db_error where
  "no_ddl = DbException ''Cannot execute DDL statement within a transaction block''"

definition outside_block :: "nat \<Rightarrow> (Engine, unit) em \<Rightarrow> (Engine, unit) em" where
  "outside_block conn m = ebind (eget (CheckInTransaction conn)) (\<lambda>inside. if inside then ethrow no_ddl else m)"

definition run_statement :: "engine_env \<Rightarrow> nat \<Rightarrow> Statement \<Rightarrow> (Engine, unit) em" where
  "run_statement env conn stmt =
     (case stmt of
        CreateDatabaseStatement db \<Rightarrow> outside_block conn (Engine_CreateDatabase db False)
      | CreateTableStatement table columns \<Rightarrow> outside_block conn (Engine_CreateTable table (ColumnList_new columns))
      | CreateIndexStatement index table columns \<Rightarrow> outside_block conn CreateIndex
      | DropDatabaseStatement db missing_ok \<Rightarrow> outside_block conn (Engine_DropDatabase db missing_ok)
      | DropTableStatement table missing_ok \<Rightarrow> outside_block conn (Engine_DropTable table)
      | DropIndexStatement index missing_ok \<Rightarrow> outside_block conn DropIndex
      | ExplainStatement s options \<Rightarrow> Explain env s options
      | LockStatement table ty \<Rightarrow> ebind (connection_xid conn) (\<lambda>xid. Engine_Lock xid table ty)
      | VariableSetStatement variable val \<Rightarrow> VariableSet conn variable val
      | VariableShowStatement variable \<Rightarrow> VariableShow conn variable
      | AnalyzeStatement table columns \<Rightarrow> Analyze (ee_hash env) table columns
      | VacuumStatement table \<Rightarrow> Vacuum
      | _ \<Rightarrow> catch_db (execute_query env conn stmt) (rollback_auto conn))"

text \<open>A statement in the transaction of the connection, or in one of its own, which is committed in the end.\<close>

definition open_auto :: "nat \<Rightarrow> (Engine, unit) em" where
  "open_auto conn =
     ebind (eget (InTransaction conn)) (\<lambda>busy.
       if busy then eret ()
       else ebind (Engine_Begin conn) (\<lambda>_. emodify (\<lambda>e. e\<lparr>en_auto := insert conn (en_auto e)\<rparr>)))"

definition commit_auto :: "nat \<Rightarrow> (Engine, unit) em" where
  "commit_auto conn =
     ebind (eget (\<lambda>e. conn \<in> en_auto e)) (\<lambda>auto.
       if auto then ebind (Engine_Commit conn) (\<lambda>_. end_auto conn) else eret ())"

definition in_own_transaction :: "engine_env \<Rightarrow> nat \<Rightarrow> Statement \<Rightarrow> (Engine, unit) em" where
  "in_own_transaction env conn stmt =
     ebind (open_auto conn) (\<lambda>_.
     ebind (catch_db (run_statement env conn stmt) (rollback_auto conn)) (\<lambda>_.
       commit_auto conn))"

definition execute_statement :: "engine_env \<Rightarrow> nat \<Rightarrow> Statement \<Rightarrow> (Engine, unit) em" where
  "execute_statement env conn stmt =
     (case stmt of
        TransactionStatement TransactionBegin \<Rightarrow> ebind (Engine_Begin conn) (\<lambda>_. emit (one_cell ''BEGIN''))
      | TransactionStatement TransactionCommit \<Rightarrow> ebind (Engine_Commit conn) (\<lambda>_. emit (one_cell ''COMMIT''))
      | TransactionStatement TransactionRollback \<Rightarrow> ebind (Engine_Rollback conn) (\<lambda>_. emit (one_cell ''ROLLBACK''))
      | CheckpointStatement \<Rightarrow> ebind (on_engine_log Checkpoint) (\<lambda>_. emit (one_cell ''CHECKPOINT''))
      | _ \<Rightarrow> in_own_transaction env conn stmt)"

section \<open>Strings of SQL\<close>

definition binder_env :: "engine_env \<Rightarrow> Engine \<Rightarrow> bind_env" where
  "binder_env env e =
     \<lparr>bd_GetTableOid = (\<lambda>n. GetTableOid n (en_catalog e)),
      bd_GetTableColumnList = (\<lambda>n. GetTableColumnList n (en_catalog e)), bd_stod = ee_stod env, bd_fmt = ee_fmt env\<rparr>"

text \<open>One binder binds all the statements of a string, each in the catalog that the ones before it left.\<close>

fun execute_nodes :: "engine_env \<Rightarrow> nat \<Rightarrow> PgStmt list \<Rightarrow> BinderState \<Rightarrow> (Engine, unit) em" where
  "execute_nodes env conn [] b = eret ()"
| "execute_nodes env conn (node # nodes) b =
     ebind (eget (\<lambda>e. BindStatement (binder_env env e) node b)) (\<lambda>(bound, b').
     ebind (elift bound) (\<lambda>stmt.
     ebind (execute_statement env conn stmt) (\<lambda>_.
       execute_nodes env conn nodes b')))"

definition backslash :: char where
  "backslash = CHR 0x5C"

definition execute_command :: "nat \<Rightarrow> string \<Rightarrow> (Engine, unit) em" where
  "execute_command conn sql =
     (let c = (if length sql > 1 then sql ! 1 else CHR 0x00); arg = RTrim (drop 3 sql)
      in if c = CHR ''l'' then ShowDatabases
         else if c = CHR ''d'' then if length sql \<le> 3 then ShowTables else DescribeTable arg
         else if c = CHR ''c''
         then ebind (eget (InTransaction conn)) (\<lambda>busy.
                if busy then ethrow (DbException (''Cannot execute '' @ [backslash] @ ''c within a transaction block''))
                else if length sql > 3 then Engine_ChangeDatabase arg
                else ethrow (DbException ''No database name''))
         else if c = CHR ''?'' \<or> c = CHR ''h'' then Help
         else ethrow (DbException (''Unknown command '' @ sql @ newline @ ''Type '' @ [backslash] @ ''? or '' @ [backslash] @
                ''h for help.'')))"

definition ExecuteSql :: "engine_env \<Rightarrow> string \<Rightarrow> nat \<Rightarrow> (Engine, unit) em" where
  "ExecuteSql env sql conn =
     (if sql \<noteq> [] \<and> hd sql = backslash then execute_command conn sql
      else case ee_parse env sql of
             Inl msg \<Rightarrow> ethrow (DbException msg)
           | Inr None \<Rightarrow> eret ()
           | Inr (Some nodes) \<Rightarrow> execute_nodes env conn nodes Binder_new)"

text \<open>The connection, which rolls back when its client is gone.\<close>

definition Connection_Rollback :: "nat \<Rightarrow> (Engine, unit) em" where
  "Connection_Rollback conn = ebind (eget (InTransaction conn)) (\<lambda>busy. if busy then Engine_Rollback conn else eret ())"

end
