(* ===== verification/Engine_Sessions.thy ===== *)
theory Engine_Sessions
  imports Engine_Statements
begin

text \<open>
  The transactions of the connections: what every operation of the engine keeps of the table of transactions and of the
  set of automatic ones, commits and the locks they give back, the refusal of definitions of data inside a transaction,
  and the control file that carries the counters over a restart.
\<close>

section \<open>Relations that every step keeps\<close>

text \<open>A reflexive and transitive relation between states is kept by a program when its steps keep it.\<close>

locale stable =
  fixes R :: "'s \<Rightarrow> 's \<Rightarrow> bool"
  assumes R_refl: "R s s"
    and R_trans: "R s t \<Longrightarrow> R t u \<Longrightarrow> R s u"
begin

definition keeps :: "('s, 'a) em \<Rightarrow> bool" where
  "keeps m \<longleftrightarrow> (\<forall>s. R s (snd (m s)))"

lemma keepsI: "(\<And>s r t. m s = (r, t) \<Longrightarrow> R s t) \<Longrightarrow> keeps m"
  unfolding keeps_def by (metis prod.collapse)

lemma keepsD: "keeps m \<Longrightarrow> m s = (r, t) \<Longrightarrow> R s t"
  unfolding keeps_def by (metis snd_conv)

lemma keeps_basic: "keeps (eret x)" "keeps (ethrow e)" "keeps (eget g)" "keeps (elift r)"
  by (simp_all add: keeps_def R_refl)

lemma keeps_bind: "keeps m \<Longrightarrow> (\<And>x. keeps (f x)) \<Longrightarrow> keeps (ebind m f)"
  unfolding keeps_def ebind_def by (auto split: prod.split sum.split) (metis R_trans snd_conv)+

lemma keeps_bindE:
  assumes "keeps m" and "\<And>s x t. m s = (Inr x, t) \<Longrightarrow> R t (snd (f x t))"
  shows "keeps (ebind m f)"
  using assms unfolding keeps_def ebind_def by (auto split: prod.split sum.split) (metis R_trans snd_conv)+

lemma keeps_modify: "(\<And>s. R s (f s)) \<Longrightarrow> keeps (emodify f)"
  by (simp add: keeps_def)

lemma keeps_zoom: "(\<And>s t. R s (p t s)) \<Longrightarrow> keeps (ezoom g p m)"
  by (simp add: keeps_def ezoom_apply)

lemma keeps_efor: "(\<And>x. keeps (f x)) \<Longrightarrow> keeps (efor f xs)"
  by (induction xs) (simp_all add: keeps_basic keeps_bind)

lemma keeps_catch: "keeps m \<Longrightarrow> (\<And>err. keeps (h err)) \<Longrightarrow> keeps (catch_db m h)"
  unfolding keeps_def catch_db_def by (auto split: prod.split sum.split db_error.split) (metis R_trans snd_conv)+

lemma keeps_if: "keeps m \<Longrightarrow> keeps m' \<Longrightarrow> keeps (if b then m else m')"
  by simp

lemmas keeps_intros = keeps_basic keeps_bind keeps_efor keeps_if

end

section \<open>The sessions of the other connections\<close>

definition others_kept :: "nat \<Rightarrow> Engine \<Rightarrow> Engine \<Rightarrow> bool" where
  "others_kept conn e e' \<longleftrightarrow>
     (\<forall>c. c \<noteq> conn \<longrightarrow> map_of (en_xids e') c = map_of (en_xids e) c \<and> (c \<in> en_auto e' \<longleftrightarrow> c \<in> en_auto e))"

definition session_kept :: "nat \<Rightarrow> Engine \<Rightarrow> Engine \<Rightarrow> bool" where
  "session_kept conn e e' \<longleftrightarrow> (InTransaction conn e \<longrightarrow> en_xids e' = en_xids e \<and> en_auto e' = en_auto e)"

interpretation others: stable "others_kept conn" for conn
  by unfold_locales (simp_all add: others_kept_def)

interpretation session: stable "session_kept conn" for conn
  by unfold_locales (auto simp: session_kept_def InTransaction_def)

lemma session_kept_same: "en_xids e' = en_xids e \<Longrightarrow> en_auto e' = en_auto e \<Longrightarrow> session_kept conn e e'"
  by (simp add: session_kept_def)

lemma others_kept_same: "en_xids e' = en_xids e \<Longrightarrow> en_auto e' = en_auto e \<Longrightarrow> others_kept conn e e'"
  by (simp add: others_kept_def)

text \<open>The operations that leave both tables alone keep both relations.\<close>

definition same_sessions :: "Engine \<Rightarrow> Engine \<Rightarrow> bool" where
  "same_sessions e e' \<longleftrightarrow> en_xids e' = en_xids e \<and> en_auto e' = en_auto e"

interpretation plain: stable same_sessions
  by unfold_locales (simp_all add: same_sessions_def)

lemma plain_session: "plain.keeps m \<Longrightarrow> session.keeps conn m"
  by (simp add: plain.keeps_def session.keeps_def same_sessions_def session_kept_def)

lemma plain_others: "plain.keeps m \<Longrightarrow> others.keeps conn m"
  by (simp add: plain.keeps_def others.keeps_def same_sessions_def others_kept_def)

lemma plain_zoom:
  "plain.keeps (on_catalog c)" "plain.keeps (on_engine_tx t)" "plain.keeps (on_engine_pool p)" "plain.keeps (on_engine_log l)"
  "plain.keeps (emit evs)"
  by (auto simp: on_catalog_def on_engine_tx_def on_engine_pool_def on_engine_log_def emit_def same_sessions_def
      intro!: plain.keeps_zoom plain.keeps_modify)

lemmas plain_intros = plain.keeps_intros plain_zoom

lemma plain_commands:
  "plain.keeps ShowDatabases" "plain.keeps ShowTables" "plain.keeps (DescribeTable name)" "plain.keeps (Engine_CreateDatabase db ok)"
  "plain.keeps (Engine_DropDatabase db missing)" "plain.keeps (Engine_CreateTable name cl)" "plain.keeps (Engine_DropTable name)"
  "plain.keeps CreateIndex" "plain.keeps DropIndex" "plain.keeps Vacuum" "plain.keeps Help"
  unfolding ShowDatabases_def ShowTables_def DescribeTable_def describe_column_def Engine_CreateDatabase_def Engine_DropDatabase_def
    Engine_CreateTable_def Engine_DropTable_def CreateIndex_def DropIndex_def Vacuum_def Help_def
  by (intro plain_intros)+

lemma plain_change: "plain.keeps (Engine_ChangeDatabase db)"
  unfolding Engine_ChangeDatabase_def
  by (intro plain_intros plain.keeps_modify) (simp add: same_sessions_def)

lemma plain_lock: "plain.keeps (Engine_Lock xid t ty)"
  by (cases t) (simp only: Engine_Lock_def prod.case, intro plain_intros)

lemma plain_set: "plain.keeps (VariableSet conn variable val)"
  unfolding VariableSet_def set_option_def
  by (intro plain_intros plain.keeps_modify) (simp_all add: same_sessions_def)

lemma plain_show: "plain.keeps (VariableShow conn variable)"
proof -
  have "plain.keeps (case found of None \<Rightarrow> ethrow err | Some str \<Rightarrow> show_one variable str)" for found err
    by (cases found) (simp_all add: show_one_def plain_intros)
  then show ?thesis
    unfolding VariableShow_def by (intro plain_intros plain_commands) (simp_all add: show_one_def plain_intros)
qed

lemma plain_analyze: "plain.keeps (Analyze h t cs)"
  unfolding Analyze_def by (intro plain_intros) (auto intro: plain_intros)

lemma plain_plan: "plain.keeps (plan_statement env stmt)" "plain.keeps (optimized env plan)"
proof -
  show "plain.keeps (plan_statement env stmt)"
    unfolding plan_statement_def by (cases stmt) (simp_all add: plain_intros)
  show "plain.keeps (optimized env plan)" unfolding optimized_def by (intro plain_intros)
qed

lemma plain_explain: "plain.keeps (Explain env stmt options)"
  unfolding Explain_def by (intro plain_intros plain_plan)

lemma plain_run: "plain.keeps (run_executor env ctx plan)"
  by (rule plain.keepsI) (auto simp: run_executor_def same_sessions_def put_query_def split: sum.splits prod.splits)

section \<open>Statements\<close>

lemma connection_xid_kept: "session.keeps conn (connection_xid conn)" "others.keeps conn (connection_xid conn)"
  by (auto intro!: session.keepsI others.keepsI simp: connection_xid_def session_kept_def InTransaction_def others_kept_def update_conv'
      split: option.splits)

lemma query_kept: "session.keeps conn (execute_query env conn stmt)" "others.keeps conn (execute_query env conn stmt)"
  unfolding execute_query_def
  by (intro session.keeps_intros others.keeps_intros plain_session plain_others plain_plan plain_zoom plain_run connection_xid_kept)+

lemma outside_kept_plain: "plain.keeps m \<Longrightarrow> plain.keeps (outside_block conn m)"
  unfolding outside_block_def by (intro plain_intros)

lemma catch_Inr: "catch_db m h e = (Inr x, e') \<Longrightarrow> (\<And>err s y. fst (h err s) \<noteq> Inr y) \<Longrightarrow> m e = (Inr x, e')"
  unfolding catch_db_def by (auto split: prod.splits sum.splits db_error.splits) (metis fst_conv)

lemma rollback_auto_throws: "fst (rollback_auto conn err e) \<noteq> Inr x"
  by (auto simp: rollback_auto_def ebind_def split: prod.splits sum.splits)

text \<open>What \<^verbatim>\<open>run_statement\<close> runs is a query, or leaves the sessions alone.\<close>

lemma lock_kept: "session.keeps conn (ebind (connection_xid conn) (\<lambda>xid. Engine_Lock xid t ty))"
    "others.keeps conn (ebind (connection_xid conn) (\<lambda>xid. Engine_Lock xid t ty))"
  by (intro session.keeps_intros others.keeps_intros connection_xid_kept plain_session plain_others plain_lock)+

lemma run_statement_cases:
  obtains "run_statement env conn stmt = catch_db (execute_query env conn stmt) (rollback_auto conn)"
  | "session.keeps conn (run_statement env conn stmt)" "others.keeps conn (run_statement env conn stmt)"
proof -
  have p: "session.keeps conn m \<and> others.keeps conn m" if "plain.keeps m" for m :: "(Engine, unit) em"
    using plain_session [OF that] plain_others [OF that] by blast
  have "run_statement env conn stmt = catch_db (execute_query env conn stmt) (rollback_auto conn) \<or>
    session.keeps conn (run_statement env conn stmt) \<and> others.keeps conn (run_statement env conn stmt)"
    unfolding run_statement_def
    by (cases stmt) (simp_all add: p outside_kept_plain plain_commands plain_explain plain_set plain_show plain_analyze lock_kept)
  then show thesis using that by blast
qed

lemma run_statement_Inr:
  assumes "run_statement env conn stmt e = (Inr x, e')"
  shows "session_kept conn e e'"
proof (cases rule: run_statement_cases [of env conn stmt])
  case 1
  then have "execute_query env conn stmt e = (Inr x, e')"
    using assms rollback_auto_throws by (metis catch_Inr)
  then show ?thesis using session.keepsD [OF query_kept(1)] by blast
next
  case 2
  then show ?thesis using session.keepsD assms by blast
qed

section \<open>Transactions\<close>

lemma forget_others: "others.keeps conn (forget_xid conn)" "others.keeps conn (end_auto conn)"
  unfolding forget_xid_def end_auto_def
  by (intro others.keeps_modify, simp add: others_kept_def delete_conv')+

lemma plain_undo: "plain.keeps (undo_transaction xid)"
  unfolding plain.keeps_def undo_transaction_def using plain_zoom(3) plain.keeps_def by blast

lemma transaction_others:
  "others.keeps conn (Engine_Begin conn)" "others.keeps conn (Engine_Commit conn)" "others.keeps conn (Engine_Rollback conn)"
  unfolding Engine_Begin_def Engine_Commit_def Engine_Rollback_def
  by (intro others.keeps_intros plain_others [OF plain_zoom(2)] plain_others [OF plain_zoom(3)] plain_others [OF plain_zoom(4)]
      plain_others [OF plain_undo] forget_others connection_xid_kept others.keeps_modify;
      simp add: others_kept_def update_conv')+

lemma auto_others:
  "others.keeps conn (rollback_auto conn err)" "others.keeps conn (open_auto conn)" "others.keeps conn (commit_auto conn)"
  unfolding rollback_auto_def open_auto_def commit_auto_def
  by (intro others.keeps_intros transaction_others forget_others others.keeps_modify; simp add: others_kept_def)+

lemma statement_others: "others.keeps conn (execute_statement env conn stmt)"
proof -
  have "others.keeps conn (run_statement env conn stmt)"
    by (cases rule: run_statement_cases [of env conn stmt])
      (simp_all add: others.keeps_catch query_kept(2) auto_others(1))
  then have "others.keeps conn (in_own_transaction env conn stmt)"
    unfolding in_own_transaction_def by (intro others.keeps_intros others.keeps_catch auto_others)
  moreover have "others.keeps conn (ebind (on_engine_log c) (\<lambda>_. emit evs))" for c :: "(LogEnv, lsn_t) em" and evs
    by (intro others.keeps_intros plain_others plain_zoom)
  moreover have "others.keeps conn (ebind m (\<lambda>_. emit evs))" if "others.keeps conn m" for m :: "(Engine, unit) em" and evs
    by (intro others.keeps_intros that plain_others plain_zoom)
  ultimately show ?thesis
    unfolding execute_statement_def
    by (cases stmt) (auto simp: transaction_others split: TransactionType.split)
qed

section \<open>Automatic transactions are open transactions\<close>

definition auto_ok :: "nat \<Rightarrow> Engine \<Rightarrow> bool" where
  "auto_ok conn e \<longleftrightarrow> (conn \<in> en_auto e \<longrightarrow> InTransaction conn e)"

definition own_kept :: "nat \<Rightarrow> Engine \<Rightarrow> Engine \<Rightarrow> bool" where
  "own_kept conn e e' \<longleftrightarrow> (auto_ok conn e \<longrightarrow> auto_ok conn e')"

interpretation own: stable "own_kept conn" for conn
  by unfold_locales (simp_all add: own_kept_def)

lemma session_own: "session_kept conn e e' \<Longrightarrow> own_kept conn e e'" if "InTransaction conn e"
  using that by (simp add: session_kept_def own_kept_def auto_ok_def InTransaction_def)

lemma connection_xid_own: "own.keeps conn (connection_xid conn)"
  by (rule own.keepsI) (auto simp: connection_xid_def own_kept_def auto_ok_def InTransaction_def update_conv' split: option.splits)

lemma plain_own: "plain.keeps m \<Longrightarrow> own.keeps conn m"
  by (simp add: plain.keeps_def own.keeps_def same_sessions_def own_kept_def auto_ok_def InTransaction_def)

lemma query_own: "own.keeps conn (execute_query env conn stmt)"
  unfolding execute_query_def by (intro own.keeps_intros plain_own plain_plan plain_zoom plain_run connection_xid_own)

lemma begin_own: "own.keeps conn (Engine_Begin conn)"
  unfolding Engine_Begin_def
  by (intro own.keeps_intros plain_own plain_zoom own.keeps_modify)
    (simp add: own_kept_def auto_ok_def InTransaction_def update_conv')

text \<open>The end of a transaction is the last thing that \<^verbatim>\<open>Commit\<close> and \<^verbatim>\<open>Rollback\<close> do, and it does not fail.\<close>

lemma ebind_assoc: "ebind (ebind m f) g = ebind m (\<lambda>x. ebind (f x) g)"
  by (rule ext) (simp add: ebind_def split: prod.split sum.split)

lemma last_step_own:
  assumes "own.keeps conn g"
  shows "own.keeps conn (ebind (ebind g (\<lambda>_. forget_xid conn)) (\<lambda>_. end_auto conn))"
proof (rule own.keepsI)
  fix e r e' assume run: "ebind (ebind g (\<lambda>_. forget_xid conn)) (\<lambda>_. end_auto conn) e = (r, e')"
  obtain r1 e1 where g: "g e = (r1, e1)" by fastforce
  have "own_kept conn e e1" using own.keepsD [OF assms g] .
  moreover have "conn \<notin> en_auto e' \<or> e' = e1"
    using run g by (cases r1) (auto simp: ebind_def forget_xid_def end_auto_def)
  ultimately show "own_kept conn e e'" by (auto simp: own_kept_def auto_ok_def)
qed

lemma finished_own:
  "own.keeps conn (ebind (Engine_Commit conn) (\<lambda>_. end_auto conn))"
  "own.keeps conn (ebind (Engine_Rollback conn) (\<lambda>_. end_auto conn))"
proof -
  have c: "Engine_Commit conn = ebind (ebind (eget (InTransaction conn)) (\<lambda>busy. if \<not> busy then ethrow no_transaction
      else ebind (connection_xid conn) (\<lambda>xid. ebind (on_engine_log (AppendCommitLog xid)) (\<lambda>_. on_engine_tx (Commit xid)))))
      (\<lambda>_. forget_xid conn)"
    by (rule ext) (simp add: Engine_Commit_def ebind_assoc ebind_def split: prod.split sum.split)
  have r: "Engine_Rollback conn = ebind (ebind (eget (InTransaction conn)) (\<lambda>busy. if \<not> busy then ethrow no_transaction
      else ebind (connection_xid conn) (\<lambda>xid. ebind (undo_transaction xid) (\<lambda>_. ebind (on_engine_log (AppendRollbackLog xid))
        (\<lambda>_. on_engine_tx (Rollback xid)))))) (\<lambda>_. forget_xid conn)"
    by (rule ext) (simp add: Engine_Rollback_def ebind_assoc ebind_def split: prod.split sum.split)
  show "own.keeps conn (ebind (Engine_Commit conn) (\<lambda>_. end_auto conn))"
    unfolding c by (intro last_step_own own.keeps_intros connection_xid_own plain_own plain_zoom)
  show "own.keeps conn (ebind (Engine_Rollback conn) (\<lambda>_. end_auto conn))"
    unfolding r by (intro last_step_own own.keeps_intros connection_xid_own plain_own plain_zoom plain_undo)
qed

lemma begun:
  assumes "Engine_Begin conn e = (Inr (), e')"
  shows "InTransaction conn e'"
proof -
  obtain xid t y where s: "on_engine_tx Begin e = (Inr xid, t)"
    "on_engine_pool (on_lm (AppendBeginLog xid)) (t\<lparr>en_xids := AList.update conn xid (en_xids t)\<rparr>) = (Inr y, e')"
    using assms by (auto simp: Engine_Begin_def ebind_eq_Inr_iff split: if_splits)
  show ?thesis
    using plain.keepsD [OF plain_zoom(3) s(2)] by (simp add: same_sessions_def InTransaction_def update_conv')
qed

lemma open_own: "own.keeps conn (open_auto conn)"
proof (rule own.keepsI)
  fix e r e' assume run: "open_auto conn e = (r, e')"
  obtain r1 e1 where b: "Engine_Begin conn e = (r1, e1)" by fastforce
  show "own_kept conn e e'"
    using run b own.keepsD [OF begin_own b] begun [of conn e e1]
    by (cases r1) (auto simp: open_auto_def ebind_def own_kept_def auto_ok_def InTransaction_def split: if_splits)
qed

lemma auto_own: "own.keeps conn (rollback_auto conn err)" "own.keeps conn (commit_auto conn)"
  unfolding rollback_auto_def commit_auto_def by (intro own.keeps_intros finished_own)+

text \<open>What is left of the automatic transaction after each part of a statement.\<close>

lemma run_own: "own.keeps conn (run_statement env conn stmt)"
proof -
  have p: "own.keeps conn m" if "plain.keeps m" for m :: "(Engine, unit) em"
    using plain_own [OF that] .
  have "own.keeps conn (ebind (connection_xid conn) (\<lambda>xid. Engine_Lock xid t ty))" for t ty
    by (intro own.keeps_intros connection_xid_own plain_own plain_lock)
  then show ?thesis
    unfolding run_statement_def
    by (cases stmt) (simp_all add: p outside_kept_plain plain_commands plain_explain plain_set plain_show plain_analyze
        own.keeps_catch query_own auto_own)
qed

lemma in_own_transaction_own: "own.keeps conn (in_own_transaction env conn stmt)"
  unfolding in_own_transaction_def by (intro own.keeps_intros own.keeps_catch open_own run_own auto_own)

lemma commit_auto_ends: "commit_auto conn e = (Inr (), e') \<Longrightarrow> conn \<notin> en_auto e'"
  by (auto simp: commit_auto_def ebind_eq_Inr_iff end_auto_def split: if_splits)

lemma in_own_transaction_ends: "in_own_transaction env conn stmt e = (Inr (), e') \<Longrightarrow> conn \<notin> en_auto e'"
  using commit_auto_ends by (auto simp: in_own_transaction_def ebind_eq_Inr_iff)

text \<open>The statements of transaction control do not touch the set of automatic transactions.\<close>

definition auto_same :: "Engine \<Rightarrow> Engine \<Rightarrow> bool" where
  "auto_same e e' \<longleftrightarrow> en_auto e' = en_auto e"

interpretation auto: stable auto_same
  by unfold_locales (simp_all add: auto_same_def)

lemma plain_auto: "plain.keeps m \<Longrightarrow> auto.keeps m"
  by (simp add: plain.keeps_def auto.keeps_def same_sessions_def auto_same_def)

lemma connection_xid_auto: "auto.keeps (connection_xid conn)"
  by (rule auto.keepsI) (auto simp: connection_xid_def auto_same_def split: option.splits)

lemma transaction_auto: "auto.keeps (Engine_Begin conn)" "auto.keeps (Engine_Commit conn)" "auto.keeps (Engine_Rollback conn)"
  unfolding Engine_Begin_def Engine_Commit_def Engine_Rollback_def forget_xid_def
  by (intro auto.keeps_intros plain_auto [OF plain_zoom(2)] plain_auto [OF plain_zoom(3)] plain_auto [OF plain_zoom(4)]
      plain_auto [OF plain_undo] connection_xid_auto auto.keeps_modify; simp add: auto_same_def)+

lemma emit_auto: "auto.keeps m \<Longrightarrow> auto.keeps (ebind m (\<lambda>_. emit evs))"
  by (intro auto.keeps_intros plain_auto [OF plain_zoom(5)])

lemma statement_own:
  assumes "execute_statement env conn stmt e = (r, e')" "conn \<notin> en_auto e"
  shows "auto_ok conn e' \<and> (r = Inr () \<longrightarrow> conn \<notin> en_auto e')"
proof (cases "execute_statement env conn stmt = in_own_transaction env conn stmt")
  case True
  have "own_kept conn e e'" using own.keepsD [OF in_own_transaction_own] assms(1) True by metis
  then show ?thesis
    using assms in_own_transaction_ends [of env conn stmt e e'] True by (auto simp: own_kept_def auto_ok_def)
next
  case False
  have "auto.keeps (ebind (on_engine_log Checkpoint) (\<lambda>_. emit (one_cell ''CHECKPOINT'')))"
    by (intro emit_auto plain_auto plain_zoom)
  then have "auto.keeps (execute_statement env conn stmt)"
    using False unfolding execute_statement_def
    by (cases stmt) (auto simp: transaction_auto emit_auto split: TransactionType.split)
  then have "auto_same e e'" using auto.keepsD assms(1) by metis
  then show ?thesis using assms(2) by (simp add: auto_same_def auto_ok_def)
qed

lemma nodes_own:
  assumes "execute_nodes env conn nodes b e = (r, e')" "conn \<notin> en_auto e"
  shows "others_kept conn e e' \<and> auto_ok conn e' \<and> (r = Inr () \<longrightarrow> conn \<notin> en_auto e')"
  using assms
proof (induction nodes arbitrary: b e)
  case Nil
  then show ?case by (simp add: others.R_refl auto_ok_def)
next
  case (Cons node nodes)
  obtain bound b' where bd: "BindStatement (binder_env env e) node b = (bound, b')" by fastforce
  show ?case
  proof (cases bound)
    case (Inl err)
    then show ?thesis using Cons.prems bd by (auto simp: ebind_def others.R_refl auto_ok_def)
  next
    case (Inr stmt)
    obtain r1 e1 where s: "execute_statement env conn stmt e = (r1, e1)" by fastforce
    note o = others.keepsD [OF statement_others s]
    note p = statement_own [OF s Cons.prems(2)]
    show ?thesis
    proof (cases r1)
      case (Inl err)
      then show ?thesis using Cons.prems bd Inr s o p by (auto simp: ebind_def)
    next
      case (Inr u)
      have "execute_nodes env conn nodes b' e1 = (r, e')"
        using Cons.prems(1) bd \<open>bound = Inr stmt\<close> s Inr by (simp add: ebind_def)
      from Cons.IH [OF this] show ?thesis using Inr p others.R_trans [OF o] by simp
    qed
  qed
qed

lemma command_plain: "plain.keeps (execute_command conn sql)"
  unfolding execute_command_def Let_def
  by (intro plain_intros plain_commands plain_change)

lemma ExecuteSql_own:
  assumes "ExecuteSql env sql conn e = (r, e')" "conn \<notin> en_auto e"
  shows "others_kept conn e e' \<and> auto_ok conn e' \<and> (r = Inr () \<longrightarrow> conn \<notin> en_auto e')"
proof (cases "(sql \<noteq> [] \<and> hd sql = backslash) \<or> (\<forall>nodes. ee_parse env sql \<noteq> Inr (Some nodes))")
  case True
  then have "plain.keeps (ExecuteSql env sql conn)"
    unfolding ExecuteSql_def using command_plain plain.keeps_basic by (auto split: sum.split option.split)
  then have "same_sessions e e'" using plain.keepsD assms(1) by metis
  then show ?thesis using assms(2) by (simp add: same_sessions_def others_kept_def auto_ok_def)
next
  case False
  then obtain nodes where "ExecuteSql env sql conn = execute_nodes env conn nodes Binder_new"
    by (auto simp: ExecuteSql_def)
  then show ?thesis using nodes_own assms by metis
qed

text \<open>
  What a statement of the parse tree does to the transaction of its connection when it succeeds: \<^verbatim>\<open>BEGIN\<close> and \<^verbatim>\<open>START\<close>
  open one, \<^verbatim>\<open>COMMIT\<close> and \<^verbatim>\<open>ROLLBACK\<close> end it, and every other statement leaves it as it is.
\<close>

fun block_after :: "bool \<Rightarrow> PgStmt \<Rightarrow> bool" where
  "block_after inside (PgRawStmt stmt) = block_after inside stmt"
| "block_after inside (PgTransactionStmt kind) = (kind = TransBegin \<or> kind = TransStart)"
| "block_after inside stmt = inside"

fun controls_transaction :: "PgStmt \<Rightarrow> bool" where
  "controls_transaction (PgRawStmt stmt) = controls_transaction stmt"
| "controls_transaction (PgTransactionStmt kind) = True"
| "controls_transaction stmt = False"

fun statement_block :: "bool \<Rightarrow> Statement \<Rightarrow> bool" where
  "statement_block inside (TransactionStatement ty) = (ty = TransactionBegin)"
| "statement_block inside stmt = inside"

definition is_control :: "Statement \<Rightarrow> bool" where
  "is_control stmt \<longleftrightarrow> (\<exists>ty. stmt = TransactionStatement ty)"

lemma bound_variable:
  assumes "BindVariableSetStatement be name args b = (Inr stmt, b')"
  shows "\<exists>str. stmt = VariableSetStatement name str"
proof -
  obtain exprs u where s: "BindExpressionList be args b = (Inr exprs, u)"
    "(case exprs of
         [ConstExpression v] \<Rightarrow> ebind (elift (ToString (fm_fp (bd_fmt be)) v)) (\<lambda>str. eret (VariableSetStatement name str))
       | [_] \<Rightarrow> ethrow (DbException ''Only const is supoorted in SET'')
       | _ \<Rightarrow> ethrow (DbException ''SET takes only one argument'')) u = (Inr stmt, b')"
    using assms by (auto simp only: BindVariableSetStatement_def ebind_eq_Inr_iff)
  show ?thesis
  proof (cases exprs rule: remdups_adj.cases)
    case 1
    then show ?thesis using s(2) by (simp add: ethrow_def)
  next
    case (2 e)
    then show ?thesis using s(2) by (cases e) (auto simp: ethrow_def ebind_eq_Inr_iff)
  next
    case (3 x y zs)
    then show ?thesis using s(2) by (simp add: ethrow_def split: BExpr.splits)
  qed
qed

lemma bound_block:
  "BindStatement be node b = (Inr stmt, b') \<Longrightarrow>
   statement_block inside stmt = block_after inside node \<and> is_control stmt = controls_transaction node"
proof (induction node arbitrary: stmt b b')
  case (PgDropStmt ty names missing)
  then show ?case
    by (auto simp: BindDropStatement_def elift_def is_control_def split: list.splits PgObjectType.splits)
next
  case (PgTransactionStmt kind)
  then show ?case
    by (cases kind) (auto simp: BindTransactionStatement_def elift_def is_control_def)
next
  case (PgLockStmt relname mode)
  then show ?case
    by (cases mode) (auto simp: BindLockStatement_def ebind_eq_Inr_iff is_control_def)
next
  case (PgVariableSetStmt name args)
  then show ?case using bound_variable [of be name args b stmt b'] by (auto simp: is_control_def)
next
  case (PgVariableShowStmt name)
  then show ?case
    by (auto simp: BindVariableShowStatement_def elift_def rbind_eq_Inr_iff is_control_def)
next
  case (PgVacuumStmt opt relation va_cols)
  then show ?case
    by (auto simp: BindVacuumStatement_def ebind_eq_Inr_iff is_control_def ethrow_def split: if_splits option.splits)
qed (auto simp: ebind_eq_Inr_iff is_control_def)

lemma commit_ends:
  assumes "Engine_Commit conn e = (Inr (), e')"
  shows "\<not> InTransaction conn e'"
proof -
  obtain x e1 where "forget_xid conn e1 = (x, e')"
    using assms by (auto simp: Engine_Commit_def ebind_eq_Inr_iff split: if_splits)
  then show ?thesis by (auto simp: forget_xid_def InTransaction_def delete_conv')
qed

lemma rollback_ends:
  assumes "Engine_Rollback conn e = (Inr (), e')"
  shows "\<not> InTransaction conn e'"
proof -
  obtain x e1 where "forget_xid conn e1 = (x, e')"
    using assms by (auto simp: Engine_Rollback_def ebind_eq_Inr_iff split: if_splits)
  then show ?thesis by (auto simp: forget_xid_def InTransaction_def delete_conv')
qed

lemma plain_run_xids: "plain.keeps m \<Longrightarrow> m e = (r, e') \<Longrightarrow> en_xids e' = en_xids e"
  using plain.keepsD same_sessions_def by metis

lemma in_own_transaction_session:
  assumes run: "in_own_transaction env conn stmt e = (Inr (), e')" and auto: "conn \<notin> en_auto e"
  shows "map_of (en_xids e') conn = map_of (en_xids e) conn"
proof -
  obtain e1 e2 where s: "open_auto conn e = (Inr (), e1)" "catch_db (run_statement env conn stmt) (rollback_auto conn) e1 = (Inr (), e2)"
    "commit_auto conn e2 = (Inr (), e')"
    using run by (auto simp: in_own_transaction_def ebind_eq_Inr_iff)
  have "run_statement env conn stmt e1 = (Inr (), e2)" using s(2) rollback_auto_throws by (metis catch_Inr)
  from run_statement_Inr [OF this] have kept: "session_kept conn e1 e2" .
  show ?thesis
  proof (cases "InTransaction conn e")
    case True
    then have "e1 = e" using s(1) by (simp add: open_auto_def ebind_def)
    then have "en_xids e2 = en_xids e" "conn \<notin> en_auto e2" using kept True auto by (simp_all add: session_kept_def)
    then show ?thesis using s(3) by (simp add: commit_auto_def ebind_def)
  next
    case False
    then obtain e0 where b: "Engine_Begin conn e = (Inr (), e0)" "e1 = e0\<lparr>en_auto := insert conn (en_auto e0)\<rparr>"
      using s(1) by (auto simp: open_auto_def ebind_eq_Inr_iff)
    have "InTransaction conn e1" using begun [OF b(1)] b(2) by (simp add: InTransaction_def)
    then have "conn \<in> en_auto e2" using kept b(2) by (simp add: session_kept_def)
    then obtain e3 where "Engine_Commit conn e2 = (Inr (), e3)" "e' = e3\<lparr>en_auto := en_auto e3 - {conn}\<rparr>"
      using s(3) by (auto simp: commit_auto_def ebind_eq_Inr_iff end_auto_def)
    then have "\<not> InTransaction conn e'" using commit_ends by (simp add: InTransaction_def)
    then show ?thesis using False by (simp add: InTransaction_def)
  qed
qed

lemma statement_session:
  assumes run: "execute_statement env conn stmt e = (Inr (), e')" and auto: "conn \<notin> en_auto e"
  shows "InTransaction conn e' = statement_block (InTransaction conn e) stmt \<and>
    (\<not> is_control stmt \<longrightarrow> map_of (en_xids e') conn = map_of (en_xids e) conn)"
proof (cases "execute_statement env conn stmt = in_own_transaction env conn stmt \<and> \<not> is_control stmt")
  case True
  then have "map_of (en_xids e') conn = map_of (en_xids e) conn" using run in_own_transaction_session [OF _ auto] by simp
  moreover have "statement_block i stmt = i" for i using True by (cases stmt) (simp_all add: is_control_def)
  ultimately show ?thesis by (simp add: InTransaction_def)
next
  case False
  then consider (ctl) ty where "stmt = TransactionStatement ty" | (chk) "stmt = CheckpointStatement"
    by (cases stmt) (simp_all add: execute_statement_def is_control_def)
  then show ?thesis
  proof cases
    case ctl
    obtain e1 where "(case ty of TransactionBegin \<Rightarrow> Engine_Begin conn | TransactionCommit \<Rightarrow> Engine_Commit conn
        | TransactionRollback \<Rightarrow> Engine_Rollback conn) e = (Inr (), e1)" "en_xids e' = en_xids e1"
      using run ctl plain_run_xids [OF plain_zoom(5)]
      by (cases ty) (auto simp: execute_statement_def ebind_eq_Inr_iff)
    then show ?thesis
      using ctl begun commit_ends rollback_ends by (cases ty) (auto simp: is_control_def InTransaction_def)
  next
    case chk
    have "plain.keeps (execute_statement env conn stmt)"
      unfolding chk execute_statement_def by (simp add: plain.keeps_intros plain_zoom)
    then have "en_xids e' = en_xids e" using plain_run_xids run by blast
    then show ?thesis using chk by (simp add: InTransaction_def is_control_def)
  qed
qed

lemma nodes_session:
  assumes "execute_nodes env conn nodes b e = (Inr (), e')" "conn \<notin> en_auto e"
  shows "InTransaction conn e' = foldl block_after (InTransaction conn e) nodes \<and>
    (\<not> list_ex controls_transaction nodes \<longrightarrow> map_of (en_xids e') conn = map_of (en_xids e) conn)"
  using assms
proof (induction nodes arbitrary: b e)
  case Nil
  then show ?case by (simp add: eret_def)
next
  case (Cons node nodes)
  obtain stmt b' e1 where s: "BindStatement (binder_env env e) node b = (Inr stmt, b')" "execute_statement env conn stmt e = (Inr (), e1)"
    "execute_nodes env conn nodes b' e1 = (Inr (), e')"
    using Cons.prems(1) by (auto simp: ebind_eq_Inr_iff eget_def elift_def split: prod.splits)
  have "conn \<notin> en_auto e1" using statement_own [OF s(2) Cons.prems(2)] by simp
  from Cons.IH [OF s(3) this] statement_session [OF s(2) Cons.prems(2)] show ?case
    by (simp add: bound_block [OF s(1)])
qed

text \<open>The statements of a string of SQL; a command has none.\<close>

definition statements_of :: "engine_env \<Rightarrow> string \<Rightarrow> PgStmt list" where
  "statements_of env sql =
     (if sql \<noteq> [] \<and> hd sql = backslash then []
      else case ee_parse env sql of Inr (Some nodes) \<Rightarrow> nodes | _ \<Rightarrow> [])"

lemma ExecuteSql_session:
  assumes "ExecuteSql env sql conn e = (Inr (), e')" "conn \<notin> en_auto e"
  shows "InTransaction conn e' = foldl block_after (InTransaction conn e) (statements_of env sql) \<and>
    (\<not> list_ex controls_transaction (statements_of env sql) \<longrightarrow> map_of (en_xids e') conn = map_of (en_xids e) conn)"
proof (cases "statements_of env sql = []")
  case True
  then have "plain.keeps (ExecuteSql env sql conn)"
    unfolding ExecuteSql_def statements_of_def using command_plain plain.keeps_basic
    by (auto split: sum.split option.split if_splits)
  then have "en_xids e' = en_xids e" using plain_run_xids assms(1) by blast
  then show ?thesis using True by (simp add: InTransaction_def)
next
  case False
  then have "ExecuteSql env sql conn = execute_nodes env conn (statements_of env sql) Binder_new"
    by (auto simp: ExecuteSql_def statements_of_def split: sum.splits option.splits if_splits)
  then show ?thesis using nodes_session assms by metis
qed

section \<open>A commit\<close>

lemma Engine_Commit_ok:
  assumes run: "Engine_Commit conn e = (Inr (), e')" and xid: "map_of (en_xids e) conn = Some xid"
  shows "te_locks (en_tx e') = ReleaseLocks xid (te_locks (en_tx e))" "tx_active (en_tx e') = (tx_active (en_tx e))(xid := None)"
    and "en_xids e' = AList.delete conn (en_xids e)" "en_auto e' = en_auto e"
proof -
  obtain y e1 e2 where s: "on_engine_log (AppendCommitLog xid) e = (Inr y, e1)" "on_engine_tx (Commit xid) e1 = (Inr (), e2)"
    "forget_xid conn e2 = (Inr (), e')"
    using run xid by (auto simp: Engine_Commit_def connection_xid_def InTransaction_def ebind_eq_Inr_iff split: if_splits)
  have e1: "en_tx e1 = en_tx e" "same_sessions e e1"
    using s(1) plain.keepsD [OF plain_zoom(4) s(1)] by (auto simp: on_engine_log_def on_engine_pool_def on_catalog_def ezoom_apply)
  obtain t where t: "Commit xid (en_tx e1) = (Inr (), t)" "e2 = e1\<lparr>en_tx := t\<rparr>"
    using s(2) by (auto simp: on_engine_tx_def ezoom_def split: prod.splits)
  note f = finish_ok [OF t(1) [unfolded Commit_def]]
  have e': "e' = e2\<lparr>en_xids := AList.delete conn (en_xids e2)\<rparr>" using s(3) by (simp add: forget_xid_def)
  show "te_locks (en_tx e') = ReleaseLocks xid (te_locks (en_tx e))" "tx_active (en_tx e') = (tx_active (en_tx e))(xid := None)"
    using f(2,4) e1(1) by (simp_all add: e' t(2))
  show "en_xids e' = AList.delete conn (en_xids e)" "en_auto e' = en_auto e"
    using e1(2) by (simp_all add: e' t(2) same_sessions_def)
qed

section \<open>Statements inside a transaction\<close>

lemma open_auto_inside [simp]: "InTransaction conn e \<Longrightarrow> open_auto conn e = (Inr (), e)"
  by (simp add: open_auto_def ebind_def)

lemma commit_auto_inside [simp]: "conn \<notin> en_auto e \<Longrightarrow> commit_auto conn e = (Inr (), e)"
  by (simp add: commit_auto_def ebind_def)

lemma rollback_auto_inside [simp]: "conn \<notin> en_auto e \<Longrightarrow> rollback_auto conn err e = (Inl err, e)"
  by (simp add: rollback_auto_def ebind_def)

lemma catch_inside: "m e = (r, e') \<Longrightarrow> conn \<notin> en_auto e' \<Longrightarrow> catch_db m (rollback_auto conn) e = (r, e')"
  by (simp add: catch_db_def split: sum.split db_error.split)

text \<open>In a transaction block a statement runs as it is.\<close>

lemma inside_block:
  assumes "InTransaction conn e" "conn \<notin> en_auto e" "run_statement env conn stmt e = (r, e')" "conn \<notin> en_auto e'"
  shows "in_own_transaction env conn stmt e = (r, e')"
  using assms catch_inside [where m = "run_statement env conn stmt", OF assms(3,4)]
  by (cases r) (simp_all add: in_own_transaction_def ebind_def)

lemma connection_xid_inside: "map_of (en_xids e) conn = Some xid \<Longrightarrow> connection_xid conn e = (Inr xid, e)"
  by (simp add: connection_xid_def)

section \<open>The control file\<close>

lemma read_unsigned_read:
  fixes old :: "'a::len word option"
  assumes "n < 2 ^ LENGTH('a)" "ws = [] \<or> ws = '' ''" "rest = [] \<or> \<not> is_digit (hd rest)"
  shows "read_unsigned old (Some (ws @ nat_to_string n @ rest)) = (Some (of_nat n), Some rest)"
proof -
  let ?t = "nat_to_string n @ rest"
  obtain c cs where c: "nat_to_string n = c # cs" by (cases "nat_to_string n") auto
  have dig: "is_digit c" "\<not> is_space c" using hd_nat_to_string [of n] c by simp_all
  then have d: "dropWhile is_space (ws @ ?t) = ?t" using assms(2) c by (auto simp: is_space_def)
  have sgn: "(if ?t \<noteq> [] \<and> (hd ?t = CHR ''-'' \<or> hd ?t = CHR ''+'') then tl ?t else ?t) = ?t"
    "(?t \<noteq> [] \<and> hd ?t = CHR ''-'') = False"
    using is_digit_not_sign [OF dig(1)] c by simp_all
  have tw: "takeWhile is_digit ?t = nat_to_string n" "dropWhile is_digit ?t = rest"
    using is_digit_nat_to_string [of _ n] assms(3) by (cases rest; simp add: takeWhile_append2 dropWhile_append2)+
  show ?thesis
    unfolding read_unsigned_def option.case Let_def d sgn tw read_digits_nat_to_string using assms(1) by simp
qed

lemma small_numbers: "nat_to_string 1 = ''1''" "nat_to_string 0 = ''0''"
  by code_simp+

lemma read_flag_read: "rest = [] \<or> \<not> is_digit (hd rest) \<Longrightarrow>
    read_flag old (Some ('' '' @ (if b then ''1'' else ''0'') @ rest)) = (b, Some rest)"
  using read_unsigned_read [of 1 "'' ''" rest "None :: 64 word option"] read_unsigned_read [of 0 "'' ''" rest "None :: 64 word option"]
  unfolding small_numbers by (cases b) (simp_all add: read_flag_def)

lemma read_word:
  "read_unsigned (old :: 'a::len word option) (Some (ws @ nat_to_string (unat w) @ '' '' @ s)) = (Some w, Some ('' '' @ s))"
  if "ws = [] \<or> ws = '' ''" for w :: "'a::len word"
  using read_unsigned_read [where 'a = 'a, of "unat w" ws "'' '' @ s" old] that unat_less_exp [of w]
  by (simp add: is_digit_def char_digit_def)

lemma read_control_text:
  assumes "rest = [] \<or> \<not> is_digit (hd rest)"
  shows "read_control (control_text xid lsn oid b @ rest) = (Some xid, Some lsn, oid, b)"
proof -
  have r: "read_unsigned None (Some (control_text xid lsn oid b @ rest)) =
      (Some xid, Some ('' '' @ nat_to_string (unat lsn) @ '' '' @ nat_to_string (unat oid) @ '' '' @ (if b then ''1'' else ''0'') @ rest))"
    using read_word [of "[]" None xid] by (simp add: control_text_def)
  show ?thesis
    unfolding read_control_def r prod.case read_word [OF disjI2, OF refl] read_flag_read [OF assms] by simp
qed

end
