(* ===== verification/Engine_Properties.thy ===== *)
theory Engine_Properties
  imports Engine_Sessions
begin

text \<open>
  Properties of the database engine as a whole: the transactions of its connections, queries from a string of SQL to the
  written rows, the refusal of definitions of data inside a transaction, locks after a commit, and a restart after an
  orderly end.
\<close>

section \<open>Writing the records of a source\<close>

context record_source
begin

lemma fetch_rows_ok:
  assumes "left s = Some xs" "length xs < fuel" "rmap (\<lambda>x. rmap (ToString (fm_fp fm)) (r_values x)) xs = Inr cells"
  shows "\<exists>s'. fetch_rows fm next fuel n (s, out) = (Inr (n + length xs), (s', out @ concat (map row_events cells))) \<and>
    left s' = Some []"
  using assms
proof (induction xs arbitrary: s fuel n out cells)
  case Nil
  then obtain s' where "next s = (Inr None, s')" "left s' = Some []" using next_end by blast
  then show ?case using Nil.prems by (cases fuel) (auto simp: ebind_def ezoom_def)
next
  case (Cons x xs)
  obtain f where f: "fuel = Suc f" "length xs < f" using Cons.prems(2) by (cases fuel) auto
  obtain s1 where s1: "next s = (Inr (Some x), s1)" "left s1 = Some xs" using next_record [OF Cons.prems(1)] by blast
  obtain cs css where c: "rmap (ToString (fm_fp fm)) (r_values x) = Inr cs" "cells = cs # css"
    "rmap (\<lambda>x. rmap (ToString (fm_fp fm)) (r_values x)) xs = Inr css"
    using Cons.prems(3) by (auto simp: rbind_eq_Inr_iff)
  have "efor (write_value fm) vs (s1, o1) = (Inr (), (s1, o1 @ map WriteCell ss))"
    if "rmap (ToString (fm_fp fm)) vs = Inr ss" for vs ss o1
    using that
    by (induction vs arbitrary: ss o1) (auto simp: rbind_eq_Inr_iff write_value_def put_events_def ebind_def)
  from this [OF c(1)] have "write_record fm x (s1, out) = (Inr (), (s1, out @ row_events cs))"
    by (simp add: write_record_def put_events_def ebind_def row_events_def)
  moreover obtain s' where "fetch_rows fm next f (Suc n) (s1, out @ row_events cs) =
      (Inr (Suc n + length xs), (s', (out @ row_events cs) @ concat (map row_events css)))" "left s' = Some []"
    using Cons.IH [OF s1(2) f(2) c(3)] by blast
  ultimately show ?case using s1(1) f(1) c(2) by (auto simp: ebind_def ezoom_def)
qed

end

section \<open>Queries inside a transaction\<close>







text \<open>The control file after it was written.\<close>

lemma control_directory: "DirectoryExists CONTROL_NAME (write_control str d) = DirectoryExists CONTROL_NAME d"
  by (simp add: write_control_def ofstream_write_def DirectoryExists_def split: option.split)

lemma control_written:
  assumes "\<not> DirectoryExists CONTROL_NAME d \<or> dk_names d CONTROL_NAME \<noteq> None"
  shows "\<exists>i. dk_names (write_control str d) CONTROL_NAME = Some i \<and> map byte_char (dk_data (write_control str d) i) = str"
  using assms
  by (auto simp: write_control_def ofstream_write_def parent_exists_def CONTROL_NAME_def split: option.split)

lemma restart_with:
  assumes "dk_names disk CONTROL_NAME = Some i" "map byte_char (dk_data disk i) = control_text xid lsn oid normal @ rest"
    and "rest = [] \<or> \<not> is_digit (hd rest)"
  shows "DatabaseEngine_new disk fresh junk =
    fst (ebind open_system_tables (\<lambda>_. ebind (if normal then eret () else Engine_Recover) (\<lambda>_. eget id))
      (new_engine (write_control (control_text xid lsn oid False @ newline) disk) xid lsn oid fresh junk))"
  using read_control_text [OF assms(3)] by (simp add: DatabaseEngine_new_def assms(1,2))

section \<open>Properties\<close>

fun defines_data :: "Statement \<Rightarrow> bool" where
  "defines_data (CreateDatabaseStatement db) = True"
| "defines_data (CreateTableStatement table columns) = True"
| "defines_data (CreateIndexStatement index table columns) = True"
| "defines_data (DropDatabaseStatement db missing_ok) = True"
| "defines_data (DropTableStatement table missing_ok) = True"
| "defines_data (DropIndexStatement index missing_ok) = True"
| "defines_data _ = False"



text \<open>
  C17. Inside a transaction block every statement that defines data (of databases, tables and indexes) is refused once it
  is bound, and nothing happens: the catalog, the log and the transaction are untouched.
\<close>

theorem ddl_refused:
  assumes "ee_parse env sql = Inr (Some [node])" "sql = [] \<or> hd sql \<noteq> backslash"
    and "fst (BindStatement (binder_env env e) node Binder_new) = Inr stmt" "defines_data stmt"
    and "InTransaction conn e" "conn \<notin> en_auto e"
  shows "ExecuteSql env sql conn e = (Inl no_ddl, e)"
proof -
  have "run_statement env conn stmt e = (Inl no_ddl, e)"
    using assms(4-6) by (cases stmt) (simp_all add: run_statement_def outside_block_def CheckInTransaction_def ebind_def)
  then have "execute_statement env conn stmt e = (Inl no_ddl, e)"
    using inside_block [OF assms(5,6)] assms(4,6) by (cases stmt) (simp_all add: execute_statement_def)
  moreover obtain b where "BindStatement (binder_env env e) node Binder_new = (Inr stmt, b)"
    using assms(3) by (metis prod.collapse)
  ultimately show ?thesis using assms(1,2) by (auto simp: ExecuteSql_def ebind_def)
qed

text \<open>
  C16. A commit lets the next one in: when a connection has committed, a \<^verbatim>\<open>LOCK TABLE\<close> of another connection that only
  its locks stood in the way of is granted, and holds the mode it asked for.
\<close>

theorem commit_grants:
  assumes commit: "Engine_Commit conn e = (Inr (), e1)" "map_of (en_xids e) conn = Some xid"
    and other: "map_of (en_xids e) conn' = Some xid'" "conn' \<noteq> conn" "xid' \<noteq> xid" "conn' \<notin> en_auto e"
    and wf: "lock_wf (te_locks (en_tx e))"
    and mode: "mode = acquire (held (te_locks (en_tx e)) xid' (TableObj oid)) (case ty of TableShare \<Rightarrow> S | TableExclusive \<Rightarrow> X)"
    and free: "\<And>x. x \<noteq> xid \<Longrightarrow> x \<noteq> xid' \<Longrightarrow> mode_ok (held (te_locks (en_tx e)) x (TableObj oid)) mode"
  shows "\<exists>e2. execute_statement env conn' (LockStatement (name, alias, oid, cl) ty) e1 = (Inr (), e2) \<and>
    held (te_locks (en_tx e2)) xid' (TableObj oid) = Some mode"
proof -
  let ?ty = "case ty of TableShare \<Rightarrow> S | TableExclusive \<Rightarrow> X"
  note c = Engine_Commit_ok [OF commit]
  note h = ReleaseLocks_spec [OF wf, of xid, folded c(1)]
  obtain ok lm where l: "LockTable xid' ?ty oid (te_locks (en_tx e1)) = (ok, lm)" by fastforce
  note sp = LockTable_spec [OF h(1) l]
  have x: "map_of (en_xids e1) conn' = Some xid'" using other(1,2) by (simp add: c(3) delete_conv')
  have a: "conn' \<notin> en_auto e1" using other(4) by (simp add: c(4))
  have "ok" using sp(3) free other(3) by (auto simp: h(2) mode mode_ok_def)
  then have "run_statement env conn' (LockStatement (name, alias, oid, cl) ty) e1 = (Inr (), e1\<lparr>en_tx := (en_tx e1)\<lparr>te_locks := lm\<rparr>\<rparr>)"
    using x l by (simp add: run_statement_def connection_xid_def Engine_Lock_def on_engine_tx_def ezoom_def ebind_def)
  then have "execute_statement env conn' (LockStatement (name, alias, oid, cl) ty) e1 =
      (Inr (), e1\<lparr>en_tx := (en_tx e1)\<lparr>te_locks := lm\<rparr>\<rparr>)"
    using inside_block x a by (simp add: execute_statement_def InTransaction_def)
  moreover have "held lm xid' (TableObj oid) = Some mode" using sp(2) other(3) by (simp add: h(2) mode)
  ultimately show ?thesis by auto
qed

text \<open>
  C15. An orderly end and a start: the control file that \<^verbatim>\<open>CloseDatabase\<close> writes gives the next engine the transaction
  id, the LSN and the oid where this one stopped, and says that nothing has to be recovered, so that the constructor
  only opens the system tables. The file it leaves says that this engine has not ended: an engine that starts after a
  crash reads the same numbers and recovers.
\<close>

theorem restart_after_close:
  assumes close: "CloseDatabase e = (Inr (), e')" and nodir: "\<not> DirectoryExists CONTROL_NAME (engine_disk e')"
    and disk: "dk_names disk = dk_names (engine_disk e')" "dk_data disk = dk_data (engine_disk e')"
    and n: "xid = GetNextXid (en_tx e')" "lsn = lm_next_lsn (le_log (pe_log (sc_pool (en_catalog e'))))"
      "oid = om_next_oid (sc_oids (en_catalog e'))"
    and running: "running = (\<lambda>d. new_engine (write_control (control_text xid lsn oid False @ newline) d) xid lsn oid fresh junk)"
  shows "DatabaseEngine_new disk fresh junk = fst (ebind open_system_tables (\<lambda>_. eget id) (running disk)) \<and>
    DatabaseEngine_new (engine_disk (running disk)) fresh junk =
      fst (ebind open_system_tables (\<lambda>_. ebind Engine_Recover (\<lambda>_. eget id)) (running (engine_disk (running disk))))"
proof -
  obtain d where d: "engine_disk e' = write_control (control_text xid lsn oid True) d"
    using close by (auto simp: CloseDatabase_def ebind_eq_Inr_iff on_engine_pool_def on_catalog_def sc_on_pool_def in_disk_def in_log_def
        on_disk_def ezoom_apply engine_disk_def n)
  obtain i where i: "dk_names disk CONTROL_NAME = Some i" "map byte_char (dk_data disk i) = control_text xid lsn oid True @ []"
    using control_written [of d "control_text xid lsn oid True"] nodir d disk by (auto simp: control_directory)
  let ?text = "control_text xid lsn oid False @ newline"
  have r: "engine_disk (running disk) = write_control ?text disk"
    by (simp add: running engine_disk_def new_engine_def SystemCatalog_new_def)
  obtain j where j: "dk_names (engine_disk (running disk)) CONTROL_NAME = Some j"
    "map byte_char (dk_data (engine_disk (running disk)) j) = ?text"
    using control_written [of disk ?text] i(1) by (auto simp: r)
  have "DatabaseEngine_new disk fresh junk = fst (ebind open_system_tables (\<lambda>_. eget id) (running disk))"
    unfolding restart_with [OF i disjI1, OF refl] running by (simp add: ebind_def split: prod.split sum.split)
  moreover have "DatabaseEngine_new (engine_disk (running disk)) fresh junk =
      fst (ebind open_system_tables (\<lambda>_. ebind Engine_Recover (\<lambda>_. eget id)) (running (engine_disk (running disk))))"
    using restart_with [OF j, of fresh junk] by (simp add: newline_def running)
  ultimately show ?thesis by blast
qed

section \<open>The properties on a concrete engine\<close>

text \<open>Connection 1 is in transaction 7, which has one row of table \<^verbatim>\<open>t\<close>; connection 2 is in transaction 9.\<close>

definition sample_engine :: Engine where
  "sample_engine = (new_engine (pe_disk (te_pool sample_table2)) 8 0 10002 (\<lambda>_. []) (\<lambda>_. 0))\<lparr>
     en_catalog := (SystemCatalog_new (te_pool sample_table2) 10002 (\<lambda>_. 0))\<lparr>
       sc_oids := \<lparr>om_next_oid = 10002, om_name2oid = [(''TABLE.t'', 10001)], om_oid2name = [(10001, ''t'')]\<rparr>,
       sc_oid2table := [(10001, te_table sample_table2)], sc_database := 2\<rparr>,
     en_tx := dm_tx sample_dml, en_xids := [(1, 7), (2, 9)]\<rparr>"

text \<open>\<^verbatim>\<open>SELECT name AS who FROM t LIMIT 1\<close>, and \<^verbatim>\<open>CREATE DATABASE d\<close>.\<close>

definition sample_query :: PgSelectStmt where
  "sample_query = sample_parse\<lparr>pg_whereClause := None\<rparr>"

definition sample_engine_env :: engine_env where
  "sample_engine_env = \<lparr>ee_parse = (\<lambda>sql. if sql = ''select'' then Inr (Some [PgSelectStatement sample_query])
       else if sql = ''commit'' then Inr (Some [PgRawStmt (PgTransactionStmt TransCommit)])
       else Inr (Some [PgCreateDatabaseStmt ''d''])),
     ee_stod = (\<lambda>str. Inl (RuntimeError ''stod'')), ee_eval = sample_env, ee_fmt = sample_fmt, ee_sort = (\<lambda>_. Inr), ee_hash = (\<lambda>v. 0), ee_fuel = 10\<rparr>"

theorem ddl_refused_witness: "ExecuteSql sample_engine_env ''create'' 1 sample_engine = (Inl no_ddl, sample_engine)"
proof (rule ddl_refused)
  show "ee_parse sample_engine_env ''create'' = Inr (Some [PgCreateDatabaseStmt ''d''])" by (simp add: sample_engine_env_def)
  show "fst (BindStatement (binder_env sample_engine_env sample_engine) (PgCreateDatabaseStmt ''d'') Binder_new) =
      Inr (CreateDatabaseStatement ''d'')" by simp
  show "InTransaction 1 sample_engine" "1 \<notin> en_auto sample_engine"
    by (simp_all add: sample_engine_def new_engine_def InTransaction_def)
qed (simp_all add: backslash_def)

text \<open>Two transactions on an empty database, of which the first holds an exclusive lock on table 10001.\<close>

definition sample_locked :: LockManager where
  "sample_locked = snd (LockTable 7 X 10001 LockManager_new)"

definition sample_session :: Engine where
  "sample_session = (new_engine sample_disk 8 0 10002 (\<lambda>_. []) (\<lambda>_. 0))\<lparr>
     en_catalog := SystemCatalog_new \<lparr>pe_log = sample_log1, pe_pool = BufferPool_new, pe_heap = [], pe_fresh = (\<lambda>_. [])\<rparr> 10002 (\<lambda>_. 0),
     en_tx := \<lparr>te_tm = \<lparr>tm_next_xid = 10, tm_xid2cid = [(7, 2), (9, 1)], tm_xid2active_set = [(7, {}), (9, {7})]\<rparr>,
       te_locks = sample_locked\<rparr>,
     en_xids := [(1, 7), (2, 9)]\<rparr>"

lemma sample_locked_held: "lock_wf sample_locked" "held sample_locked x (TableObj 10001) = (if x = 7 then Some X else None)"
proof -
  have n: "lock_wf LockManager_new" "held LockManager_new = (\<lambda>_. Map.empty)"
    using lock_inv_new by (simp_all add: lock_inv_def held_def locks_of_def LockManager_new_def fun_eq_iff)
  obtain ok lm where l: "LockTable 7 X 10001 LockManager_new = (ok, lm)" by fastforce
  then have lm: "sample_locked = lm" by (simp add: sample_locked_def)
  show "lock_wf sample_locked" "held sample_locked x (TableObj 10001) = (if x = 7 then Some X else None)"
    using LockTable_spec(1,2) [OF n(1) l] by (simp_all add: lm n(2) acquire_def)
qed

lemma sample_commits: "\<exists>e1. Engine_Commit 1 sample_session = (Inr (), e1)"
proof -
  obtain l where l: "AppendCommitLog 7 sample_log1 = (Inr (lm_next_lsn (le_log sample_log1)), l)"
    using append_final_ok [OF sample_log1_ok(1-3), of CommitLog "''AppendCommitLog''"] by (auto simp: AppendCommitLog_def)
  have "\<exists>t. Commit 7 (en_tx sample_session) = (Inr (), t)"
    unfolding Commit_def by (rule finish_total) (auto simp: sample_session_def tx_active_def tx_snap_def)
  then obtain t where t: "Commit 7 (en_tx sample_session) = (Inr (), t)" by blast
  have x: "InTransaction 1 sample_session" "connection_xid 1 sample_session = (Inr 7, sample_session)"
    by (simp_all add: InTransaction_def connection_xid_def sample_session_def)
  have log: "pe_log (sc_pool (en_catalog sample_session)) = sample_log1"
    by (simp add: sample_session_def SystemCatalog_new_def)
  show ?thesis
    using l t x by (simp add: Engine_Commit_def ebind_def on_engine_log_def on_engine_pool_def on_catalog_def sc_on_pool_def in_log_def
        ezoom_def log on_engine_tx_def forget_xid_def)
qed


theorem commit_grants_witness:
  "\<exists>e1 e2. Engine_Commit 1 sample_session = (Inr (), e1) \<and>
     execute_statement sample_engine_env 2 (LockStatement (''t'', None, 10001, sample_cols) TableExclusive) e1 = (Inr (), e2) \<and>
     held (te_locks (en_tx e2)) 9 (TableObj 10001) = Some X"
proof -
  obtain e1 where e1: "Engine_Commit 1 sample_session = (Inr (), e1)" using sample_commits by blast
  have l: "te_locks (en_tx sample_session) = sample_locked" by (simp add: sample_session_def)
  have "\<exists>e2. execute_statement sample_engine_env 2 (LockStatement (''t'', None, 10001, sample_cols) TableExclusive) e1 = (Inr (), e2) \<and>
     held (te_locks (en_tx e2)) 9 (TableObj 10001) = Some X"
  proof (rule commit_grants [OF e1])
    show "map_of (en_xids sample_session) 1 = Some 7" "map_of (en_xids sample_session) 2 = Some 9" "2 \<notin> en_auto sample_session"
      by (simp_all add: sample_session_def new_engine_def)
    show "X = acquire (held (te_locks (en_tx sample_session)) 9 (TableObj 10001)) (case TableExclusive of TableShare \<Rightarrow> S | TableExclusive \<Rightarrow> X)"
      by (simp add: l sample_locked_held acquire_def)
  qed (simp_all add: l sample_locked_held mode_ok_def)
  then show ?thesis using e1 by blast
qed

text \<open>An engine that has just started, and ends again.\<close>

definition sample_started :: Engine where
  "sample_started = new_engine sample_disk 8 0 10002 (\<lambda>_. []) (\<lambda>_. 0)"

lemma sample_closes:
  obtains e where "CloseDatabase sample_started = (Inr (), e)" "\<not> DirectoryExists CONTROL_NAME (engine_disk e)"
    "GetNextXid (en_tx e) = 8" "om_next_oid (sc_oids (en_catalog e)) = 10002"
proof -
  let ?e = sample_started
  have log: "pe_log (sc_pool (en_catalog ?e)) = sample_log" "pe_pool (sc_pool (en_catalog ?e)) = BufferPool_new"
    by (simp_all add: sample_started_def new_engine_def SystemCatalog_new_def sample_log_def)
  obtain l lsn where l: "Checkpoint sample_log = (Inr lsn, l)" "pages_kept sample_disk (le_disk l)"
    using Checkpoint_ok [OF sample_log_inv sample_log_open] by (metis LogEnv.select_convs(1) sample_log_def)
  have fl: "LogManager_Flush_all sample_log = (Inr (), sample_log)"
    by (simp add: LogManager_Flush_all_def LogManager_Flush_def sample_log_def LogManager_new_def ebind_def update_next_lsn_def)
  have bp: "BufferPool_Flush False (sc_pool (en_catalog ?e)) = (Inr (), sc_pool (en_catalog ?e))"
    using log(2) by (simp add: BufferPool_Flush_def ebind_def upd_pool_def BufferPool_new_def)
  let ?e1 = "?e\<lparr>en_catalog := (en_catalog ?e)\<lparr>sc_pool := (sc_pool (en_catalog ?e))\<lparr>pe_log := l\<rparr>\<rparr>\<rparr>"
  let ?l = "\<lambda>str. l\<lparr>le_disk := write_control str (le_disk l)\<rparr>"
  let ?e2 = "\<lambda>str. ?e\<lparr>en_catalog := (en_catalog ?e)\<lparr>sc_pool := (sc_pool (en_catalog ?e))\<lparr>pe_log := ?l str\<rparr>\<rparr>\<rparr>"
  obtain str where c: "CloseDatabase ?e = on_engine_pool (in_disk (emodify (write_control str))) ?e1"
    using bp fl l(1) by (simp add: CloseDatabase_def ebind_def on_engine_pool_def on_engine_log_def on_catalog_def sc_on_pool_def in_log_def
        ezoom_def log)
  then have r: "CloseDatabase ?e = (Inr (), ?e2 str)"
    by (simp add: on_engine_pool_def on_catalog_def sc_on_pool_def in_disk_def in_log_def on_disk_def ezoom_def)
  have "\<not> DirectoryExists CONTROL_NAME (le_disk l)"
    using l(2) by (simp add: pages_kept_def sample_disk_def DirectoryExists_def CONTROL_NAME_def)
  then have d: "\<not> DirectoryExists CONTROL_NAME (engine_disk (?e2 str))" by (simp add: engine_disk_def control_directory)
  have n: "GetNextXid (en_tx (?e2 str)) = 8" "om_next_oid (sc_oids (en_catalog (?e2 str))) = 10002"
    by (simp_all add: sample_started_def new_engine_def SystemCatalog_new_def GetNextXid_def TransactionManager_new_def OidManager_new_def)
  show thesis by (rule that [OF r d n])
qed

theorem restart_after_close_witness:
  "\<exists>e lsn disk'. CloseDatabase sample_started = (Inr (), e) \<and>
     DatabaseEngine_new (engine_disk e) (\<lambda>_. []) (\<lambda>_. 0) =
       fst (ebind open_system_tables (\<lambda>_. eget id) (new_engine disk' 8 lsn 10002 (\<lambda>_. []) (\<lambda>_. 0)))"
proof -
  obtain e where e: "CloseDatabase sample_started = (Inr (), e)" "\<not> DirectoryExists CONTROL_NAME (engine_disk e)"
    "GetNextXid (en_tx e) = 8" "om_next_oid (sc_oids (en_catalog e)) = 10002"
    by (rule sample_closes)
  from restart_after_close [OF e(1,2) refl refl e(3) [symmetric] refl e(4) [symmetric] refl, THEN conjunct1]
  show ?thesis using e(1) by metis
qed






end
