(* ===== verification/Spec2Isabelle.thy ===== *)
theory Spec2Isabelle
  imports Engine_Properties
begin

text \<open>
  A verification development for HuaDB, a relational database in C++ (\<^verbatim>\<open>src/src/\<close>).

  \<^bold>\<open>The program.\<close> A statement is parsed by an external library, bound to the catalog
  (\<^verbatim>\<open>binder/\<close>), turned into a tree of operators (\<^verbatim>\<open>planner/\<close>), rewritten (\<^verbatim>\<open>optimizer/\<close>) and run by a tree
  of iterators (\<^verbatim>\<open>executors/\<close>) that evaluate expressions (\<^verbatim>\<open>operators/expressions/\<close>). Scans and
  modifications reach tables (\<^verbatim>\<open>table/\<close>): chains of slotted pages in the frames of a buffer pool
  (\<^verbatim>\<open>storage/\<close>) over files. Rows carry the stamps of the transactions that inserted and deleted them;
  a scan decides with these stamps and a snapshot which rows a transaction sees. The lock manager and
  the transaction manager (\<^verbatim>\<open>transaction/\<close>) decide who may write. Every change is logged
  (\<^verbatim>\<open>log/\<close>): the pool forces the log before it writes a page, a commit forces the log, rollback and
  recovery walk it.

  \<^bold>\<open>Conventions.\<close> Errors are values (\<open>db_error\<close>, \<open>'a result\<close>): thrown exceptions, failed assertions,
  behaviour that C++ leaves undefined, and loops that do not end. Code with state is a function
  \<open>('s, 'a) em\<close> that returns the result and the state also when it throws. Integers have the width of
  the source (\<open>32 word\<close> oids, transaction and page ids, \<open>16 word\<close> slots and sizes, \<open>64 word\<close> LSNs). Hash
  maps are association lists. Pages are shared by pointer, so the pool has a heap of pages. Each
  operation runs as one step, as the code takes no locks of the operating system.

  \<^bold>\<open>Theories and sources.\<close>
  \<^item> \<open>Huadb_Prelude\<close>: errors, the two monads, generic lemmas on lists, words and association lists.
  \<^item> \<open>Common_Types\<close>: \<^verbatim>\<open>common/constants.h, types.h, type_util.cpp, string_util.cpp\<close>.
  \<^item> \<open>Values\<close>, \<open>Bitmaps\<close>, \<open>Columns\<close>, \<open>Records\<close>: \<^verbatim>\<open>common/value.cpp, bitmap.cpp\<close>, \<^verbatim>\<open>catalog/column_definition.cpp,
    column_list.cpp\<close>, \<^verbatim>\<open>table/record_header.cpp, record.cpp\<close>; comparison of values, the byte forms and
    their round trips. The locale \<open>bit_set\<close> is the interface of the null bitmap.
  \<^item> \<open>Table_Pages\<close>: \<^verbatim>\<open>table/table_page.cpp\<close>. \<open>page_rep\<close> relates the bytes of a page to its list of rows;
    every operation, including undo and redo, is described on that list.
  \<^item> \<open>Disk_Model\<close>: \<^verbatim>\<open>storage/disk.cpp\<close>, with streams and their fail bit. The locale \<open>page_store\<close> (reads
    after writes) is interpreted as \<open>dsk\<close>; the buffer pool rests on it.
  \<^item> \<open>Log_Records\<close>, \<open>Log_Core\<close>: \<^verbatim>\<open>log/log_record.cpp, log_records/\<close> and \<^verbatim>\<open>log/log_manager.cpp\<close>: record
    kinds and byte forms, appending, flushing, checkpoints. The invariant \<open>log_inv\<close> says that file and
    buffer together hold the history; it holds in every reachable state. The locale \<open>write_ahead\<close>
    (interpreted as \<open>wal\<close>) is what the pool needs of the log.
  \<^item> \<open>Lru_Strategy\<close>, \<open>Buffer_Pool\<close>: \<^verbatim>\<open>storage/lru_buffer_strategy.cpp, buffer_pool.cpp\<close>. \<open>pool_view\<close> is the
    content of every page whether it is in a frame or in a file; fetching, evicting and flushing do not
    change it. The locale \<open>replacer\<close> is the interface of the strategy.
  \<^item> \<open>Lock_Manager\<close>, \<open>Transaction_Manager\<close>, \<open>Visibility\<close>: \<^verbatim>\<open>transaction/\<close> and \<^verbatim>\<open>TableScan::CanGet\<close>. The lock map refines
    the function \<open>held\<close> (locale \<open>lock_service\<close>); step relations with reachable states for locks and transactions; the test of
    the code is shown to be snapshot visibility.
  \<^item> \<open>Expressions\<close>: \<^verbatim>\<open>operators/expressions/\<close>: evaluation on one record, on the two records of a join, and on the null record of \<^verbatim>\<open>VALUES\<close>.
  \<^item> \<open>Tables\<close>, \<open>Table_Scan\<close>: \<^verbatim>\<open>table/table.cpp, table_scan.cpp\<close>. \<open>table_rep\<close> is a table as the list of its pages, each
    the list of its rows; insertion is first fit on it, a scan returns the visible rows in order.
  \<^item> \<open>Recovery\<close>: undo and redo of log records, \<^verbatim>\<open>LogManager::Rollback, Recover, Analyze, Redo, Undo\<close>.
  \<^item> \<open>Executors\<close>, \<open>Join_Executors\<close>, \<open>Sort_Executor\<close>: the executors that read. The locale \<open>record_source\<close> is
    the contract of an iterator (the records still to come); \<open>VALUES\<close> and sequential scans are shown to
    be sources, filter, projection, limit, joins and sorting to map sources to sources.
  \<^item> \<open>Write_Executors\<close>, \<open>Dml_Statements\<close>: the executors that change tables, with locks, scan, table, log and pool
    together; the locale \<open>dml_child\<close> is what a statement needs of the executor below it. \<open>INSERT\<close>, \<open>DELETE\<close> and
    \<open>UPDATE\<close> are shown to do to the rows of the table what the statement says.
  \<^item> \<open>Plans\<close>, \<open>Query_Trees\<close>: \<^verbatim>\<open>operators/\<close> as one tree type and \<^verbatim>\<open>executors/executor_factory.h\<close>. A plan denotes a list
    of records (\<open>plan_rows\<close>); the executors built from it return these records, in any number of calls of \<open>Next\<close>.
  \<^item> \<open>Optimizer\<close>: \<^verbatim>\<open>optimizer/optimizer.cpp\<close>: splitting and pushing down of predicates, with the plans they keep and
    those they change.
  \<^item> \<open>Bound_Statements\<close>, \<open>Planner\<close>, \<open>Planned_Queries\<close>: the bound statements of \<^verbatim>\<open>binder/\<close> and \<^verbatim>\<open>planner/planner.cpp\<close>.
    Plans share objects whose names the planner changes later, so it runs over a heap of names; a
    planned expression means what the bound one says (\<open>sem\<close>, by the names of columns).
  \<^item> \<open>Binder\<close>, \<open>Bound_Queries\<close>: \<^verbatim>\<open>binder/binder.cpp\<close> over the nodes of the SQL library. \<open>node_sem\<close> gives the meaning of
    the parse tree; a bound expression means the same, and a query over one table is followed from the
    parse tree to the records that its executors return.
  \<^item> \<open>Oid_Manager\<close>, \<open>System_Catalog\<close>: \<^verbatim>\<open>catalog/oid_manager.cpp, system_catalog.cpp\<close>: names, oids, table objects and statistics in
    memory, and the three meta tables in pages. \<open>oids_ok\<close> says that names and oids determine each other.
  \<^item> \<open>Catalog_Rows\<close>, \<open>Catalog_Tables\<close>, \<open>Catalog_Loading\<close>, \<open>Catalog_Databases\<close>: the loops over meta rows as a rule about the
    list of their entries; \<^verbatim>\<open>CREATE TABLE\<close> and what is left when it fails, the loading of tables, and leaving a database.
  \<^item> \<open>Printed_Statements\<close>, \<open>Result_Writers\<close>: the printed form of plans and bound statements, which \<^verbatim>\<open>EXPLAIN\<close> shows
    (\<^verbatim>\<open>ToString\<close> in \<^verbatim>\<open>operators/\<close>, \<^verbatim>\<open>binder/statements/\<close>, \<^verbatim>\<open>binder/table_refs/\<close>), and \<^verbatim>\<open>common/result_writer.h\<close>, a result as the list
    of the calls of its writer.
  \<^item> \<open>Database_Engine\<close>, \<open>Engine_Statements\<close>: \<^verbatim>\<open>database/database_engine.cpp\<close> and \<^verbatim>\<open>connection.cpp\<close>. The record \<open>Engine\<close> owns the
    catalog (with the pool, the log and the disk), the transactions, the locks and the settings; a connection is a
    number. \<open>ExecuteSql\<close> parses, binds and runs the statements of a string, each in the transaction of its connection or
    in one of its own; \<open>DatabaseEngine_new\<close> and \<open>CloseDatabase\<close> read and write the control file.
  \<^item> \<open>Engine_Sessions\<close>: what the operations of the engine keep. By the locale \<open>stable\<close> a program keeps a reflexive and
    transitive relation of states when its steps do; it is interpreted for the sessions of the other connections
    (\<open>others\<close>), for a connection in a transaction block (\<open>session\<close>), for operations without any effect on sessions
    (\<open>plain\<close>), for the connection that runs (\<open>own\<close>) and for the set of automatic transactions (\<open>auto\<close>). \<open>block_after\<close> is
    what the statements of a string do to the transaction of their connection.
  \<^item> \<open>Engine_Properties\<close>: the sessions of the connections stay apart, a \<^verbatim>\<open>SELECT\<close> from its text to the written rows,
    definitions of data are refused inside a transaction, a commit lets a waiting statement succeed, and a restart
    continues where an orderly end stopped.

  \<^bold>\<open>Bounds and fuel.\<close> The log model holds while the end of the log stays below \<open>MAX_LOG_END\<close> (4094
  segments), where the code's single-segment growth and its reads at the end of the file still work;
  \<open>log_ready m\<close> says that there is room for \<open>m\<close> more records. A loop over the pages of a table has fuel
  \<open>PAGE_FUEL\<close> \<open>= 2 ^ 32\<close>, the number of page ids; a scan \<open>SCAN_FUEL\<close> and a drained child \<open>ROW_FUEL\<close> \<open>= 2 ^ 48\<close>, the number
  of rids; the walks of the log \<open>LOG_FUEL\<close> \<open>= 2 ^ 64\<close>, the number of LSNs. The loop that writes the rows of one query has
  the fuel \<open>ee_fuel\<close>, a parameter: any number above the number of the rows is enough. The joins and the sorting executor count the
  records they hand out in an \<^verbatim>\<open>int\<close>: at \<open>CNT_END\<close> \<open>= 2 ^ 31\<close> of them the model has the error of a signed overflow, and the
  theorems about them are about fewer records. Running out of fuel is the error
  \<open>Diverges\<close>, and the theorems state that the loops return.

  \<^bold>\<open>Not modelled.\<close> The SQL parser is an external library: the engine takes a function from strings to its parse trees.
  \<^verbatim>\<open>SimpleCatalog\<close> is compiled only under a macro. The client, the server, the shells and the tools
  of \<^verbatim>\<open>bin/\<close> are input and output on sockets and terminals, \<^verbatim>\<open>FortWriter\<close> hands cells to a table library,
  \<^verbatim>\<open>node_tag_to_string.cpp\<close> is a table of names for messages, and messages for debugging are left out. The greedy join
  order, off by default, is modelled up to its first comparison of iterators of two vectors, which C++ leaves
  undefined; a plan without a join below its root stays as it is. The destructor is modelled for an engine that no
  exception is unwinding. Double arithmetic, the regular expression engine, \<^verbatim>\<open>std::sort\<close> and \<^verbatim>\<open>std::hash\<close> are parameters. Aggregates and
  hash joins are stubs in the source.
\<close>

end
